(* ===== verification/Prime_Fields.thy ===== *)
theory Prime_Fields
  imports Main
begin

text \<open>
  The two prime fields of \<open>decaf377\<close>: \<open>Fq\<close>, of which coordinates, commitments, nullifiers and asset
  ids are elements, and \<open>Fr\<close>, the scalars.  The crate computes with them in Montgomery form; here an
  element is the number below the field's order that its canonical encoding spells.  The ring
  operations are those of the residues, so that numerals and the library's ring laws apply.
\<close>

section \<open>Fq\<close>

definition fq_order :: nat where
  "fq_order = 8444461749428370424248824938781546531375899335154063827935233455917409239041"

lemma fq_order_neq [simp]: "fq_order \<noteq> Suc 0" "0 < fq_order"
  by (simp_all add: fq_order_def)

lemma numeral_mod_fq_order [simp]:
  "numeral k mod fq_order = numeral k mod 8444461749428370424248824938781546531375899335154063827935233455917409239041"
  by (simp add: fq_order_def)

typedef fq = "{n :: nat. n < fq_order}"
  morphisms fq_number Abs_fq
  by (rule exI [where x = 0]) (simp add: fq_order_def)

definition fq_of :: "nat \<Rightarrow> fq" where
  "fq_of n = Abs_fq (n mod fq_order)"

lemma fq_number_of: "fq_number (fq_of n) = n mod fq_order"
  by (simp add: fq_of_def Abs_fq_inverse fq_order_def)

lemma fq_number_less: "fq_number x < fq_order"
  using fq_number [of x] by simp

lemma fq_of_number [simp]: "fq_of (fq_number x) = x"
  by (simp add: fq_of_def fq_number_less fq_number_inverse)

lemma fq_eqI: "fq_number x = fq_number y \<Longrightarrow> x = y"
  by (simp add: fq_number_inject)

instantiation fq :: comm_ring_1
begin

definition zero_fq :: fq where "zero_fq = fq_of 0"
definition one_fq :: fq where "one_fq = fq_of 1"
definition plus_fq :: "fq \<Rightarrow> fq \<Rightarrow> fq" where "plus_fq a b = fq_of (fq_number a + fq_number b)"
definition times_fq :: "fq \<Rightarrow> fq \<Rightarrow> fq" where "times_fq a b = fq_of (fq_number a * fq_number b)"
definition uminus_fq :: "fq \<Rightarrow> fq" where "uminus_fq a = fq_of (fq_order - fq_number a)"
definition minus_fq :: "fq \<Rightarrow> fq \<Rightarrow> fq" where "minus_fq a b = fq_of (fq_number a + (fq_order - fq_number b))"

lemmas fq_ops = zero_fq_def one_fq_def plus_fq_def times_fq_def uminus_fq_def minus_fq_def fq_number_of

instance
proof
  fix a b c :: fq
  have z: "(fq_order - fq_number a + fq_number a) mod fq_order = 0" using fq_number_less [of a] by simp
  show "a + b + c = a + (b + c)" "a * b * c = a * (b * c)" "a + b = b + a" "a * b = b * a"
    by (rule fq_eqI, simp add: fq_ops mod_simps ac_simps)+
  show "(a + b) * c = a * c + b * c" by (rule fq_eqI) (simp add: fq_ops mod_simps algebra_simps)
  show "0 + a = a" "1 * a = a" by (rule fq_eqI, simp add: fq_ops mod_simps fq_number_less)+
  show "- a + a = 0" by (rule fq_eqI) (simp add: fq_ops mod_simps z)
  show "a - b = a + - b" by (rule fq_eqI) (simp add: fq_ops mod_simps)
  show "(0 :: fq) \<noteq> 1"
  proof
    assume "(0 :: fq) = 1"
    then have "fq_number 0 = fq_number 1" by simp
    then show False by (simp add: fq_ops fq_order_def)
  qed
qed

end

instantiation fq :: equal
begin

definition equal_fq :: "fq \<Rightarrow> fq \<Rightarrow> bool" where "equal_fq a b \<longleftrightarrow> fq_number a = fq_number b"

instance by standard (simp add: equal_fq_def fq_number_inject)

end

text \<open>The order of \<open>Ord\<close> is that of the numbers.\<close>

instantiation fq :: linorder
begin

definition less_eq_fq :: "fq \<Rightarrow> fq \<Rightarrow> bool" where "less_eq_fq a b \<longleftrightarrow> fq_number a \<le> fq_number b"
definition less_fq :: "fq \<Rightarrow> fq \<Rightarrow> bool" where "less_fq a b \<longleftrightarrow> fq_number a < fq_number b"

instance
  by standard (auto simp: less_eq_fq_def less_fq_def intro: fq_eqI)

end

lemma fq_number_of_nat: "fq_number (of_nat n) = n mod fq_order"
  by (induction n) (simp_all add: fq_ops mod_simps)

lemma fq_number_numeral: "fq_number (numeral k) = numeral k mod fq_order"
  using fq_number_of_nat [of "numeral k"] by simp

lemma fq_numeral_eq [simp]:
  "(numeral j :: fq) = numeral k \<longleftrightarrow> (numeral j :: nat) mod fq_order = numeral k mod fq_order"
  "(0 :: fq) = numeral k \<longleftrightarrow> (numeral k :: nat) mod fq_order = 0"
  "(numeral k :: fq) = 0 \<longleftrightarrow> (numeral k :: nat) mod fq_order = 0"
  using fq_number_inject [of "numeral j" "numeral k"] fq_number_inject [of 0 "numeral k"]
    fq_number_inject [of "numeral k" 0]
  by (auto simp: fq_number_numeral zero_fq_def fq_number_of)

section \<open>Fr\<close>

definition fr_order :: nat where
  "fr_order = 2111115437357092606062206234695386632838870926408408195193685246394721360383"

lemma fr_order_neq [simp]: "fr_order \<noteq> Suc 0" "0 < fr_order"
  by (simp_all add: fr_order_def)

lemma numeral_mod_fr_order [simp]:
  "numeral k mod fr_order = numeral k mod 2111115437357092606062206234695386632838870926408408195193685246394721360383"
  by (simp add: fr_order_def)

typedef fr = "{n :: nat. n < fr_order}"
  morphisms fr_number Abs_fr
  by (rule exI [where x = 0]) (simp add: fr_order_def)

definition fr_of :: "nat \<Rightarrow> fr" where
  "fr_of n = Abs_fr (n mod fr_order)"

lemma fr_number_of: "fr_number (fr_of n) = n mod fr_order"
  by (simp add: fr_of_def Abs_fr_inverse fr_order_def)

lemma fr_number_less: "fr_number x < fr_order"
  using fr_number [of x] by simp

lemma fr_of_number [simp]: "fr_of (fr_number x) = x"
  by (simp add: fr_of_def fr_number_less fr_number_inverse)

lemma fr_eqI: "fr_number x = fr_number y \<Longrightarrow> x = y"
  by (simp add: fr_number_inject)

instantiation fr :: comm_ring_1
begin

definition zero_fr :: fr where "zero_fr = fr_of 0"
definition one_fr :: fr where "one_fr = fr_of 1"
definition plus_fr :: "fr \<Rightarrow> fr \<Rightarrow> fr" where "plus_fr a b = fr_of (fr_number a + fr_number b)"
definition times_fr :: "fr \<Rightarrow> fr \<Rightarrow> fr" where "times_fr a b = fr_of (fr_number a * fr_number b)"
definition uminus_fr :: "fr \<Rightarrow> fr" where "uminus_fr a = fr_of (fr_order - fr_number a)"
definition minus_fr :: "fr \<Rightarrow> fr \<Rightarrow> fr" where "minus_fr a b = fr_of (fr_number a + (fr_order - fr_number b))"

lemmas fr_ops = zero_fr_def one_fr_def plus_fr_def times_fr_def uminus_fr_def minus_fr_def fr_number_of

instance
proof
  fix a b c :: fr
  have z: "(fr_order - fr_number a + fr_number a) mod fr_order = 0" using fr_number_less [of a] by simp
  show "a + b + c = a + (b + c)" "a * b * c = a * (b * c)" "a + b = b + a" "a * b = b * a"
    by (rule fr_eqI, simp add: fr_ops mod_simps ac_simps)+
  show "(a + b) * c = a * c + b * c" by (rule fr_eqI) (simp add: fr_ops mod_simps algebra_simps)
  show "0 + a = a" "1 * a = a" by (rule fr_eqI, simp add: fr_ops mod_simps fr_number_less)+
  show "- a + a = 0" by (rule fr_eqI) (simp add: fr_ops mod_simps z)
  show "a - b = a + - b" by (rule fr_eqI) (simp add: fr_ops mod_simps)
  show "(0 :: fr) \<noteq> 1"
  proof
    assume "(0 :: fr) = 1"
    then have "fr_number 0 = fr_number 1" by simp
    then show False by (simp add: fr_ops fr_order_def)
  qed
qed

end

instantiation fr :: equal
begin

definition equal_fr :: "fr \<Rightarrow> fr \<Rightarrow> bool" where "equal_fr a b \<longleftrightarrow> fr_number a = fr_number b"

instance by standard (simp add: equal_fr_def fr_number_inject)

end

lemma fr_number_of_nat: "fr_number (of_nat n) = n mod fr_order"
  by (induction n) (simp_all add: fr_ops mod_simps)

lemma fr_number_numeral: "fr_number (numeral k) = numeral k mod fr_order"
  using fr_number_of_nat [of "numeral k"] by simp

lemma fr_numeral_eq [simp]:
  "(numeral j :: fr) = numeral k \<longleftrightarrow> (numeral j :: nat) mod fr_order = numeral k mod fr_order"
  "(0 :: fr) = numeral k \<longleftrightarrow> (numeral k :: nat) mod fr_order = 0"
  "(numeral k :: fr) = 0 \<longleftrightarrow> (numeral k :: nat) mod fr_order = 0"
  using fr_number_inject [of "numeral j" "numeral k"] fr_number_inject [of 0 "numeral k"]
    fr_number_inject [of "numeral k" 0]
  by (auto simp: fr_number_numeral zero_fr_def fr_number_of)

end
