(* ===== verification/Prelude.thy ===== *)
theory Prelude
  imports Prime_Fields "HOL-Library.Word"
begin

text \<open>
  Shared vocabulary of the development.

  \<^item> Rust's machine integers as words.  The node is built without overflow checks
    (no profile of the workspace turns them on), so \<open>+\<close>, \<open>-\<close> and \<open>*\<close> wrap, as on
    \<open>'n word\<close>; the checked, saturating and converting operations the sources call are
    defined here.
  \<^item> Rust's two ways to fail: returning \<open>Err\<close> (\<open>anyhow::Error\<close>) and panicking
    (\<open>unwrap\<close>, \<open>expect\<close>, \<open>assert!\<close>, division by zero).  Both are values of
    \<open>failure\<close>; a fallible function returns \<open>'a result\<close>.
  \<^item> \<open>bindR\<close> is the \<open>?\<close> operator, \<open>foldR\<close> a \<open>for\<close> loop whose body may
    return early, with the invariant and frame rules the component proofs use.
\<close>

named_theorems unat_arith_simps \<open>exact \<open>unat\<close> readings of word operations under their bounds\<close>
named_theorems result_simps \<open>evaluation and inversion of the result combinators\<close>

section \<open>Machine integers\<close>

type_synonym u8 = "8 word"
type_synonym u16 = "16 word"
type_synonym u32 = "32 word"
type_synonym u64 = "64 word"
type_synonym u128 = "128 word"

text \<open>An \<open>i64\<close> is the same 64 bits, read by \<open>sint\<close>.\<close>

type_synonym i64 = "64 word"

definition checked_add :: "u64 \<Rightarrow> u64 \<Rightarrow> u64 option" where
  "checked_add a b = (if unat a + unat b < 2 ^ 64 then Some (a + b) else None)"

definition checked_sub :: "u64 \<Rightarrow> u64 \<Rightarrow> u64 option" where
  "checked_sub a b = (if b \<le> a then Some (a - b) else None)"

definition checked_mul :: "u64 \<Rightarrow> u64 \<Rightarrow> u64 option" where
  "checked_mul a b = (if unat a * unat b < 2 ^ 64 then Some (a * b) else None)"

definition saturating_sub :: "u64 \<Rightarrow> u64 \<Rightarrow> u64" where
  "saturating_sub a b = (if a < b then 0 else a - b)"

text \<open>\<open>i64::abs\<close>; on \<open>i64::MIN\<close> it wraps to itself.\<close>

definition abs_i64 :: "i64 \<Rightarrow> i64" where
  "abs_i64 a = (if sint a < 0 then - a else a)"

lemma checked_add_Some:
  "checked_add a b = Some c \<longleftrightarrow> unat a + unat b < 2 ^ 64 \<and> c = a + b"
  by (auto simp: checked_add_def)

lemma checked_add_unat:
  "checked_add a b = Some c \<Longrightarrow> unat c = unat a + unat b"
  by (auto simp: checked_add_def unat_word_ariths split: if_splits)

lemma checked_add_None:
  "checked_add a b = None \<longleftrightarrow> 2 ^ 64 \<le> unat a + unat b"
  by (auto simp: checked_add_def)

lemma checked_sub_unat:
  "checked_sub a b = Some c \<Longrightarrow> unat b \<le> unat a \<and> unat c = unat a - unat b"
  by (auto simp: checked_sub_def word_le_nat_alt unat_sub_if' split: if_splits)

lemma checked_sub_None:
  "checked_sub a b = None \<longleftrightarrow> unat a < unat b"
  by (auto simp: checked_sub_def word_le_nat_alt)

lemma unat_saturating_sub [unat_arith_simps]:
  "unat (saturating_sub a b) = unat a - unat b"
  by (auto simp: saturating_sub_def word_less_nat_alt unat_sub_if')

lemma unat_plus_exact [unat_arith_simps]:
  fixes a b :: "'a::len word"
  assumes "unat a + unat b < 2 ^ LENGTH('a)"
  shows "unat (a + b) = unat a + unat b"
  using assms by (simp add: unat_word_ariths)

lemma unat_times_exact [unat_arith_simps]:
  fixes a b :: "'a::len word"
  assumes "unat a * unat b < 2 ^ LENGTH('a)"
  shows "unat (a * b) = unat a * unat b"
  using assms by (simp add: unat_word_ariths)

lemma unat_minus_exact [unat_arith_simps]:
  fixes a b :: "'a::len word"
  assumes "unat b \<le> unat a"
  shows "unat (a - b) = unat a - unat b"
  using assms by (simp add: unat_sub_if')

lemma unat_lt64 [simp]: "unat (a :: u64) < 18446744073709551616"
  using unsigned_less [of a, where 'a = nat] by simp

lemma unat_le64: "unat (a :: u64) \<le> 18446744073709551615"
  using unat_lt64 [of a] by linarith

lemma unat_of_nat_64: "n < 2 ^ 64 \<Longrightarrow> unat (of_nat n :: u64) = n"
  by (simp add: unsigned_of_nat take_bit_nat_eq_self)

lemma div_interval_lt: "0 < d \<Longrightarrow> n < n div d * d + (d :: nat)"
proof -
  assume "0 < d"
  then have "n mod d < d" by simp
  moreover have "n = n div d * d + n mod d" by (rule div_mult_mod_eq [symmetric])
  ultimately show ?thesis by linarith
qed

lemma unat_ucast_128 [simp]: "unat (ucast (a :: u64) :: u128) = unat a"
proof -
  have "unat a < 2 ^ 128"
    by (rule order_less_le_trans [OF unat_lt64]) simp
  then show ?thesis by (simp add: unsigned_ucast_eq take_bit_nat_eq_self)
qed

text \<open>
  The product of two \<open>u64\<close>s widened to \<open>u128\<close> never wraps: the reason the sources
  widen before multiplying.
\<close>

lemma unat_mult_128:
  "unat ((ucast (a :: u64) :: u128) * ucast (b :: u64)) = unat a * unat b"
proof -
  have "unat a * unat b \<le> 18446744073709551615 * 18446744073709551615"
    by (rule mult_le_mono) (rule unat_le64)+
  then show ?thesis by (simp add: unat_word_ariths)
qed

text \<open>\<open>u64::try_from\<close> on a \<open>u128\<close>, used by the sources as \<open>.try_into().unwrap()\<close>.\<close>

definition u64_of_u128 :: "u128 \<Rightarrow> u64 option" where
  "u64_of_u128 a = (if unat a < 2 ^ 64 then Some (ucast a) else None)"

lemma u64_of_u128_unat:
  "u64_of_u128 a = Some b \<Longrightarrow> unat b = unat a"
  by (auto simp: u64_of_u128_def unsigned_ucast_eq take_bit_nat_eq_self split: if_splits)

lemma u64_of_u128_eq:
  "unat a < 2 ^ 64 \<Longrightarrow> u64_of_u128 a = Some (of_nat (unat a))"
  by (simp add: u64_of_u128_def word_eq_iff_unsigned unsigned_ucast_eq take_bit_nat_eq_self
      unsigned_of_nat)

lemma u64_of_u128_None: "u64_of_u128 a = None \<longleftrightarrow> 2 ^ 64 \<le> unat a"
  by (auto simp: u64_of_u128_def)

text \<open>\<open>u64::to_le_bytes\<close> and \<open>u64::from_le_bytes\<close>.\<close>

fun le_bytes :: "nat \<Rightarrow> nat \<Rightarrow> u8 list" where
  "le_bytes 0 n = []"
| "le_bytes (Suc k) n = of_nat (n mod 256) # le_bytes k (n div 256)"

fun le_nat :: "u8 list \<Rightarrow> nat" where
  "le_nat [] = 0"
| "le_nat (b # bs) = unat b + 256 * le_nat bs"

definition to_le_bytes :: "u64 \<Rightarrow> u8 list" where
  "to_le_bytes w = le_bytes 8 (unat w)"

definition from_le_bytes :: "u8 list \<Rightarrow> u64" where
  "from_le_bytes bs = of_nat (le_nat bs)"

lemma length_le_bytes [simp]: "length (le_bytes k n) = k"
  by (induction k n rule: le_bytes.induct) auto

lemma length_to_le_bytes [simp]: "length (to_le_bytes w) = 8"
  by (simp add: to_le_bytes_def)

lemma unat_of_nat_byte: "unat (of_nat (n mod 256) :: u8) = n mod 256"
  by (simp add: unsigned_of_nat take_bit_eq_mod)

lemma le_nat_le_bytes: "le_nat (le_bytes k n) = n mod 256 ^ k"
proof (induction k n rule: le_bytes.induct)
  case (1 n)
  then show ?case by simp
next
  case (2 k n)
  have "n mod 256 ^ Suc k = n mod 256 + 256 * (n div 256 mod 256 ^ k)"
    by (simp add: mod_mult2_eq)
  with 2 show ?case
    by (simp only: le_bytes.simps le_nat.simps unat_of_nat_byte)
qed

lemma from_to_le_bytes [simp]: "from_le_bytes (to_le_bytes w) = w"
  using unat_lt64 [of w] by (simp add: from_le_bytes_def to_le_bytes_def le_nat_le_bytes)

section \<open>Failure\<close>

datatype failure = Err string | Panic string

type_synonym 'a result = "failure + 'a"

fun bindR :: "'a result \<Rightarrow> ('a \<Rightarrow> 'b result) \<Rightarrow> 'b result" where
  "bindR (Inl e) f = Inl e"
| "bindR (Inr x) f = f x"

definition ok_or :: "failure \<Rightarrow> 'a option \<Rightarrow> 'a result" where
  "ok_or e x = (case x of None \<Rightarrow> Inl e | Some y \<Rightarrow> Inr y)"

text \<open>\<open>Result::unwrap\<close>/\<open>expect\<close>: an \<open>Err\<close> becomes a panic.\<close>

fun unwrapR :: "'a result \<Rightarrow> 'a result" where
  "unwrapR (Inl (Err m)) = Inl (Panic m)"
| "unwrapR (Inl (Panic m)) = Inl (Panic m)"
| "unwrapR (Inr x) = Inr x"

text \<open>\<open>Context::context\<close>: the error is replaced, a panic passes through.\<close>

fun contextR :: "string \<Rightarrow> 'a result \<Rightarrow> 'a result" where
  "contextR m (Inl (Err _)) = Inl (Err m)"
| "contextR m (Inl (Panic p)) = Inl (Panic p)"
| "contextR m (Inr x) = Inr x"

definition ensure :: "failure \<Rightarrow> bool \<Rightarrow> unit result" where
  "ensure e b = (if b then Inr () else Inl e)"

fun foldR :: "('a \<Rightarrow> 's \<Rightarrow> 's result) \<Rightarrow> 'a list \<Rightarrow> 's \<Rightarrow> 's result" where
  "foldR f [] s = Inr s"
| "foldR f (x # xs) s = bindR (f x s) (foldR f xs)"

fun mapR :: "('a \<Rightarrow> 'b result) \<Rightarrow> 'a list \<Rightarrow> 'b list result" where
  "mapR f [] = Inr []"
| "mapR f (x # xs) = bindR (f x) (\<lambda>y. bindR (mapR f xs) (\<lambda>ys. Inr (y # ys)))"

text \<open>
  Methods with \<open>&mut self\<close> that can fail return their result and the state, because the changes made before an
  error stay; \<open>bindS\<close> is the \<open>?\<close> operator there.  \<open>runS\<close> is a call of a method that returns
  no result: if it does not return, it panics, and nobody looks at the state again.
\<close>

definition bindS :: "'a result \<times> 's \<Rightarrow> ('a \<Rightarrow> 's \<Rightarrow> 'b result \<times> 's) \<Rightarrow> 'b result \<times> 's" where
  "bindS m f = (case m of (Inl e, s) \<Rightarrow> (Inl e, s) | (Inr x, s) \<Rightarrow> f x s)"

definition runS :: "('s \<Rightarrow> 's result) \<Rightarrow> 's \<Rightarrow> unit result \<times> 's" where
  "runS f s = (case f s of Inr s' \<Rightarrow> (Inr (), s') | Inl e \<Rightarrow> (Inl e, s))"

lemma bindS_simps [simp]: "bindS (Inl e, s) f = (Inl e, s)" "bindS (Inr x, s) f = f x s"
  by (simp_all add: bindS_def)

lemma bindS_Inr: "bindS m f = (Inr y, s') \<longleftrightarrow> (\<exists>x s. m = (Inr x, s) \<and> f x s = (Inr y, s'))"
  by (cases m; cases "fst m") (auto simp: bindS_def)

lemma runS_simps [simp]: "f s = Inr s' \<Longrightarrow> runS f s = (Inr (), s')" "f s = Inl e \<Longrightarrow> runS f s = (Inl e, s)"
  by (simp_all add: runS_def)

lemma fold_keeps: "P s \<Longrightarrow> (\<And>x s. x \<in> set xs \<Longrightarrow> P s \<Longrightarrow> P (f x s)) \<Longrightarrow> P (fold f xs s)"
  by (induction xs arbitrary: s) simp_all

lemma bindR_Inr_iff [result_simps]:
  "bindR m f = Inr y \<longleftrightarrow> (\<exists>x. m = Inr x \<and> f x = Inr y)"
  by (cases m) auto

lemma bindR_Inl_iff [result_simps]:
  "bindR m f = Inl e \<longleftrightarrow> m = Inl e \<or> (\<exists>x. m = Inr x \<and> f x = Inl e)"
  by (cases m) auto

lemma ok_or_Inr [result_simps]: "ok_or e x = Inr y \<longleftrightarrow> x = Some y"
  by (auto simp: ok_or_def split: option.splits)

lemma ok_or_Inl [result_simps]: "ok_or e x = Inl d \<longleftrightarrow> x = None \<and> d = e"
  by (auto simp: ok_or_def split: option.splits)

lemma ok_or_simps [simp]: "ok_or e (Some y) = Inr y" "ok_or e None = Inl e"
  by (simp_all add: ok_or_def)

lemma unwrapR_Inr [result_simps]: "unwrapR m = Inr y \<longleftrightarrow> m = Inr y"
  by (cases m rule: unwrapR.cases) auto

lemma contextR_Inr [result_simps]: "contextR c m = Inr y \<longleftrightarrow> m = Inr y"
  by (cases "(c, m)" rule: contextR.cases) auto

lemma ensure_Inr [result_simps]: "ensure e b = Inr u \<longleftrightarrow> b"
  by (auto simp: ensure_def)

lemma ensure_Inl [result_simps]: "ensure e b = Inl d \<longleftrightarrow> \<not> b \<and> d = e"
  by (auto simp: ensure_def)

lemma ensure_simps [simp]: "ensure e True = Inr ()" "ensure e False = Inl e"
  by (simp_all add: ensure_def)

lemma unwrapR_never_Err: "unwrapR m \<noteq> Inl (Err e)"
  by (cases m rule: unwrapR.cases) auto

text \<open>A loop keeps what its body keeps.\<close>

lemma foldR_inv:
  assumes "foldR f xs s = Inr t" and "P s"
    and "\<And>x s s'. x \<in> set xs \<Longrightarrow> P s \<Longrightarrow> f x s = Inr s' \<Longrightarrow> P s'"
  shows "P t"
  using assms
proof (induction xs arbitrary: s)
  case Nil
  then show ?case by simp
next
  case (Cons x xs)
  from Cons.prems(1) obtain s' where s': "f x s = Inr s'" "foldR f xs s' = Inr t"
    by (auto simp: result_simps)
  have "P s'" using Cons.prems(2,3) s'(1) by (meson list.set_intros(1))
  with s'(2) show ?case
    using Cons.IH Cons.prems(3) by (meson list.set_intros(2))
qed

text \<open>A loop whose body keeps an invariant and never fails under it succeeds.\<close>

lemma foldR_total:
  assumes "P s"
    and "\<And>x s. x \<in> set xs \<Longrightarrow> P s \<Longrightarrow> \<exists>s'. f x s = Inr s' \<and> P s'"
  shows "\<exists>t. foldR f xs s = Inr t \<and> P t"
  using assms
proof (induction xs arbitrary: s)
  case Nil
  then show ?case by simp
next
  case (Cons x xs)
  from Cons.prems obtain s' where s': "f x s = Inr s'" "P s'"
    by (meson list.set_intros(1))
  then have "\<exists>t. foldR f xs s' = Inr t \<and> P t"
    using Cons.IH Cons.prems(2) by (meson list.set_intros(2))
  with s'(1) show ?case by simp
qed

lemma foldR_append:
  "foldR f (xs @ ys) s = bindR (foldR f xs s) (foldR f ys)"
proof (induction xs arbitrary: s)
  case Nil
  then show ?case by simp
next
  case (Cons x xs)
  then show ?case by (cases "f x s") auto
qed

text \<open>A loop that fails does so at one of its iterations.\<close>

lemma foldR_Inl:
  assumes "foldR f xs s = Inl e"
  shows "\<exists>ys x zs t. xs = ys @ x # zs \<and> foldR f ys s = Inr t \<and> f x t = Inl e"
  using assms
proof (induction xs arbitrary: s)
  case Nil
  then show ?case by simp
next
  case (Cons x xs)
  show ?case
  proof (cases "f x s")
    case (Inl d)
    with Cons.prems have "f x s = Inl e" by simp
    then show ?thesis by (metis append_Nil foldR.simps(1))
  next
    case (Inr u)
    with Cons.prems have "foldR f xs u = Inl e" by simp
    then obtain ys y zs t where "xs = ys @ y # zs" "foldR f ys u = Inr t" "f y t = Inl e"
      using Cons.IH by blast
    with Inr show ?thesis by (metis append_Cons bindR.simps(2) foldR.simps(2))
  qed
qed

text \<open>A quantity the body never changes is not changed by the loop.\<close>

lemma foldR_frame:
  assumes "foldR f xs s = Inr t"
    and "\<And>x s s'. x \<in> set xs \<Longrightarrow> f x s = Inr s' \<Longrightarrow> g s' = g s"
  shows "g t = g s"
  by (rule foldR_inv [where P = "\<lambda>u. g u = g s", OF assms(1)]) (auto simp: assms(2))

text \<open>A loop of checks passes exactly if every check does.\<close>

lemma foldR_checks [result_simps]:
  "foldR (\<lambda>x _. c x) xs () = Inr () \<longleftrightarrow> (\<forall>x \<in> set xs. c x = Inr ())"
  by (induction xs) (auto simp: bindR_Inr_iff)

lemma mapR_length: "mapR f xs = Inr ys \<Longrightarrow> length ys = length xs"
  by (induction xs arbitrary: ys) (auto simp: result_simps)

lemma mapR_Inr_nth:
  "mapR f xs = Inr ys \<longleftrightarrow> list_all2 (\<lambda>x y. f x = Inr y) xs ys"
proof (induction xs arbitrary: ys)
  case Nil
  then show ?case by auto
next
  case (Cons x xs)
  then show ?case by (cases ys) (auto simp: result_simps)
qed

text \<open>\<open>safe Q m\<close>: if \<open>m\<close> fails, it fails in a way that \<open>Q\<close> allows.\<close>

definition safe :: "(failure \<Rightarrow> bool) \<Rightarrow> 'a result \<Rightarrow> bool" where
  "safe Q m \<longleftrightarrow> (\<forall>e. m = Inl e \<longrightarrow> Q e)"

named_theorems safe_intros \<open>rules that bound the failures of a computation\<close>

lemma safe_Inr [safe_intros]: "safe Q (Inr x)"
  by (simp add: safe_def)

lemma safe_bind [safe_intros]:
  "safe Q m \<Longrightarrow> (\<And>x. m = Inr x \<Longrightarrow> safe Q (f x)) \<Longrightarrow> safe Q (bindR m f)"
  by (auto simp: safe_def result_simps)

lemma safe_ok_or [safe_intros]: "(x = None \<Longrightarrow> Q e) \<Longrightarrow> safe Q (ok_or e x)"
  by (auto simp: safe_def result_simps)

lemma safe_ensure [safe_intros]: "(\<not> b \<Longrightarrow> Q e) \<Longrightarrow> safe Q (ensure e b)"
  by (auto simp: safe_def result_simps)

lemma safe_if [safe_intros]: "(b \<Longrightarrow> safe Q m) \<Longrightarrow> (\<not> b \<Longrightarrow> safe Q n) \<Longrightarrow> safe Q (if b then m else n)"
  by simp

lemma safe_foldR:
  assumes "P xs s"
    and "\<And>x ys s. P (x # ys) s \<Longrightarrow> safe Q (f x s)"
    and "\<And>x ys s s'. P (x # ys) s \<Longrightarrow> f x s = Inr s' \<Longrightarrow> P ys s'"
  shows "safe Q (foldR f xs s)"
  using assms(1)
proof (induction xs arbitrary: s)
  case Nil
  then show ?case by (simp add: safe_Inr)
next
  case (Cons x xs)
  then show ?case using assms(2,3) by (auto intro!: safe_bind)
qed

section \<open>Identifiers\<close>

text \<open>
  Identity keys are handled by the modelled code only through equality and their textual
  (bech32m) form, so they are represented by that text; asset ids are elements
  of \<open>Fq\<close>; Tendermint's Ed25519 public keys are
  their bytes.
\<close>

type_synonym identity_key = string
type_synonym asset_id = fq
type_synonym public_key = "u8 list"

section \<open>Lists\<close>

lemma length_filter_Not:
  "length (filter (\<lambda>x. \<not> P x) xs) = length xs - length (filter P xs)"
  using sum_length_filter_compl [of P xs] by linarith

end
