(* ===== verification/Chain.thy ===== *)
theory Chain
  imports Prelude
begin

text \<open>
  The crate \<open>chain\<close>: epochs (\<open>chain/src/epoch.rs\<close>), chain parameters
  (\<open>chain/src/params.rs\<close>) and note sources (\<open>chain/src/note_source.rs\<close>).

  Tendermint's \<open>block::Height::try_from\<close> is not part of the repository.  It is the
  parameter \<open>conv\<close>; what the code relies on is \<open>height_conv_ok\<close>: a height that fits
  an \<open>i64\<close> converts to itself.
\<close>

section \<open>Epochs\<close>

record epoch =
  ep_index :: u64
  ep_duration :: u64

type_synonym height_conv = "u64 \<Rightarrow> u64 option"

definition height_conv_ok :: "height_conv \<Rightarrow> bool" where
  "height_conv_ok conv \<longleftrightarrow> (\<forall>h. unat h < 2 ^ 63 \<longrightarrow> conv h = Some h)"

definition from_height :: "u64 \<Rightarrow> u64 \<Rightarrow> epoch result" where
  "from_height height epoch_duration =
     (if epoch_duration = 0 then Inl (Panic ''attempt to divide by zero'')
      else Inr \<lparr>ep_index = height div epoch_duration, ep_duration = epoch_duration\<rparr>)"

definition start_height :: "height_conv \<Rightarrow> epoch \<Rightarrow> u64 result" where
  "start_height conv e =
     ok_or (Panic ''able to parse block height'') (conv (ep_index e * ep_duration e))"

definition end_height :: "height_conv \<Rightarrow> epoch \<Rightarrow> u64 result" where
  "end_height conv e =
     ok_or (Panic ''able to parse block height'') (conv ((ep_index e + 1) * ep_duration e - 1))"

definition is_epoch_end :: "height_conv \<Rightarrow> epoch \<Rightarrow> u64 \<Rightarrow> bool result" where
  "is_epoch_end conv e height = bindR (end_height conv e) (\<lambda>h. Inr (h = height))"

definition epoch_next :: "epoch \<Rightarrow> epoch" where
  "epoch_next e = \<lparr>ep_index = ep_index e + 1, ep_duration = ep_duration e\<rparr>"

definition epoch_prev :: "epoch \<Rightarrow> epoch" where
  "epoch_prev e = \<lparr>ep_index = ep_index e - 1, ep_duration = ep_duration e\<rparr>"

text \<open>
  The bounds of an epoch in \<open>nat\<close>, for heights below \<open>i64::MAX\<close> minus one epoch.
\<close>

lemma unat_pos: "(w :: 'a::len word) \<noteq> 0 \<Longrightarrow> 0 < unat w"
  by (simp add: unat_gt_0)

lemma unat_epoch_index:
  assumes "d \<noteq> 0" and "unat h + unat d < 2 ^ 63"
  shows "unat ((h :: u64) div d + 1) = unat h div unat d + 1"
proof -
  have "unat h div unat d + 1 < 2 ^ 64"
  proof -
    have "2 ^ 63 + 1 < (2 ^ 64 :: nat)" by simp
    then show ?thesis using assms(2) div_le_dividend [of "unat h" "unat d"] by linarith
  qed
  then show ?thesis by (subst unat_plus_exact) (simp_all add: unat_div)
qed

lemma epoch_heights:
  assumes conv: "height_conv_ok conv" and d: "d \<noteq> 0" and b: "unat h + unat d < 2 ^ 63"
  defines "e \<equiv> \<lparr>ep_index = h div d, ep_duration = d\<rparr>"
  shows "\<exists>s t. start_height conv e = Inr s \<and> end_height conv e = Inr t
    \<and> unat s = unat h div unat d * unat d
    \<and> Suc (unat t) = unat s + unat d"
proof -
  let ?q = "unat h div unat d"
  have d0: "0 < unat d" using d by (rule unat_pos)
  have le: "?q * unat d \<le> unat h" by simp
  have s: "unat ((h div d) * d) = ?q * unat d"
    using order_le_less_trans [OF le, of "2 ^ 64"]
    by (subst unat_times_exact) (simp_all add: unat_div)
  have q1: "unat (h div d + 1) = ?q + 1" using d b by (rule unat_epoch_index)
  have bnd: "(?q + 1) * unat d < 2 ^ 63"
  proof -
    have "(?q + 1) * unat d = ?q * unat d + unat d" by simp
    then show ?thesis using le b by linarith
  qed
  have m: "unat ((h div d + 1) * d) = (?q + 1) * unat d"
    using bnd q1 by (simp add: unat_times_exact)
  have t: "unat ((h div d + 1) * d - 1) = (?q + 1) * unat d - 1"
    using m d0 by (subst unat_minus_exact) (auto simp: Suc_le_eq)
  have "unat ((h div d) * d) < 2 ^ 63" using s le b by linarith
  moreover have "unat ((h div d + 1) * d - 1) < 2 ^ 63" using t bnd by simp
  ultimately show ?thesis
    using conv s t d0
    by (auto simp: start_height_def end_height_def e_def height_conv_ok_def)
qed

lemma div_interval:
  fixes h d :: nat
  assumes "0 < d"
  shows "h div d * d \<le> h" "h < h div d * d + d" "(h div d * d + d) div d = h div d + 1"
  using assms div_interval_lt [OF assms, of h] by auto

lemma epoch_interval:
  assumes conv: "height_conv_ok conv" and e: "from_height h d = Inr e"
    and b: "unat h + unat d < 2 ^ 63"
  shows "\<exists>s t. start_height conv e = Inr s \<and> end_height conv e = Inr t
    \<and> s \<le> h \<and> h \<le> t \<and> Suc (unat t) = unat s + unat d
    \<and> from_height (t + 1) d = Inr (epoch_next e)"
proof -
  from e have d: "d \<noteq> 0" and e_eq: "e = \<lparr>ep_index = h div d, ep_duration = d\<rparr>"
    by (auto simp: from_height_def split: if_splits)
  obtain s t where st: "start_height conv e = Inr s" "end_height conv e = Inr t"
    "unat s = unat h div unat d * unat d" "Suc (unat t) = unat s + unat d"
    using epoch_heights [OF conv d b] e_eq by blast
  have d0: "0 < unat d" using d by (rule unat_pos)
  note di = div_interval [OF d0, of "unat h"]
  have t1: "unat (t + 1) = unat h div unat d * unat d + unat d"
  proof -
    have "unat s \<le> unat h" using st(3) di(1) by (simp only:)
    then have "unat t + 1 < 2 ^ 64" using st(4) b by simp
    then show ?thesis using st(3,4) by (subst unat_plus_exact) simp_all
  qed
  have i1: "unat (h div d + 1) = unat h div unat d + 1"
    using d b by (rule unat_epoch_index)
  have "unat ((t + 1) div d) = unat (h div d + 1)"
    using t1 i1 di(3) by (simp only: unat_div)
  then have "(t + 1) div d = h div d + 1" by (simp add: word_unat_eq_iff)
  then show ?thesis
    using st di d by (auto simp: word_le_nat_alt from_height_def epoch_next_def e_eq)
qed

text \<open>
  Epochs partition the block heights into consecutive intervals of \<open>duration\<close> blocks.  Below
  \<open>i64::MAX\<close> minus one epoch a height has an epoch, its first and last heights exist, the height
  lies between them, they span exactly \<open>duration\<close> blocks, \<open>is_epoch_end\<close> holds of the last
  height only, and the block after it opens the next epoch.
\<close>

lemma epoch_partition:
  assumes "height_conv_ok conv" and "d \<noteq> 0" and "unat h + unat d < 2 ^ 63"
  shows "\<exists>e s t. from_height h d = Inr e \<and> start_height conv e = Inr s \<and> end_height conv e = Inr t
    \<and> s \<le> h \<and> h \<le> t \<and> Suc (unat t) = unat s + unat d
    \<and> is_epoch_end conv e h = Inr (h = t)
    \<and> from_height (t + 1) d = Inr (epoch_next e)"
proof -
  obtain e where e: "from_height h d = Inr e" using assms(2) by (simp add: from_height_def)
  from epoch_interval [OF assms(1) e assms(3)] e show ?thesis by (auto simp: is_epoch_end_def)
qed

section \<open>Chain parameters\<close>

record chain_params =
  chain_id :: string
  epoch_duration :: u64
  unbonding_epochs :: u64
  active_validator_limit :: u64
  cp_base_reward_rate :: u64
  slashing_penalty_misbehavior_bps :: u64
  slashing_penalty_downtime_bps :: u64
  signed_blocks_window_len :: u64
  missed_blocks_maximum :: u64
  ibc_enabled :: bool
  inbound_ics20_transfers_enabled :: bool
  outbound_ics20_transfers_enabled :: bool

definition default_chain_params :: chain_params where
  "default_chain_params =
     \<lparr>chain_id = '''', epoch_duration = 8640, unbonding_epochs = 30,
      active_validator_limit = 10, cp_base_reward_rate = 30000,
      slashing_penalty_misbehavior_bps = 1000, slashing_penalty_downtime_bps = 1,
      signed_blocks_window_len = 10000, missed_blocks_maximum = 9500,
      ibc_enabled = True, inbound_ics20_transfers_enabled = False,
      outbound_ics20_transfers_enabled = False\<rparr>"

section \<open>Note sources\<close>

text \<open>A \<open>[u8; 32]\<close> is a byte list of length 32.\<close>

datatype note_source =
    Transaction "u8 list"
  | Genesis
  | FundingStreamReward u64

definition CODE_INDEX :: nat where
  "CODE_INDEX = 23"

fun note_source_to_bytes :: "note_source \<Rightarrow> u8 list" where
  "note_source_to_bytes (Transaction ident) = ident"
| "note_source_to_bytes Genesis = (replicate 32 0)[CODE_INDEX := 1]"
| "note_source_to_bytes (FundingStreamReward epoch_index) =
     take 24 ((replicate 32 0)[CODE_INDEX := 2]) @ to_le_bytes epoch_index"

definition note_source_of_bytes :: "u8 list \<Rightarrow> note_source result" where
  "note_source_of_bytes bytes =
     (if take CODE_INDEX bytes \<noteq> replicate CODE_INDEX 0 then Inr (Transaction bytes)
      else
        (let code = bytes ! CODE_INDEX; data = drop (CODE_INDEX + 1) bytes in
         if code = 1 \<and> data = replicate 8 0 then Inr Genesis
         else if code = 2 then Inr (FundingStreamReward (from_le_bytes data))
         else Inl (Err ''unknown note source with code and data'')))"

text \<open>The \<open>[u8; 32]\<close> of the type \<open>NoteSource::Transaction\<close>.\<close>

fun note_source_wf :: "note_source \<Rightarrow> bool" where
  "note_source_wf (Transaction ident) = (length ident = 32)"
| "note_source_wf Genesis = True"
| "note_source_wf (FundingStreamReward e) = True"

text \<open>A transaction id that the encoding cannot tell from a tagged source.\<close>

fun zero_prefixed :: "note_source \<Rightarrow> bool" where
  "zero_prefixed (Transaction ident) = (take CODE_INDEX ident = replicate CODE_INDEX 0)"
| "zero_prefixed Genesis = False"
| "zero_prefixed (FundingStreamReward e) = False"

lemma length_note_source_to_bytes:
  "note_source_wf s \<Longrightarrow> length (note_source_to_bytes s) = 32"
  by (cases s) (auto simp: CODE_INDEX_def)

lemma tagged_bytes:
  "(replicate 32 0)[23 := c] = replicate 23 0 @ c # replicate 8 (0 :: u8)"
  by (simp add: numeral_eq_Suc)

lemma decode_genesis: "note_source_of_bytes (note_source_to_bytes Genesis) = Inr Genesis"
  by (simp add: note_source_of_bytes_def CODE_INDEX_def tagged_bytes nth_append)

lemma decode_reward:
  "note_source_of_bytes (note_source_to_bytes (FundingStreamReward e)) = Inr (FundingStreamReward e)"
  by (simp add: note_source_of_bytes_def CODE_INDEX_def tagged_bytes nth_append)

lemma decode_transaction:
  "note_source_of_bytes ident = Inr (Transaction x)
     \<longleftrightarrow> take CODE_INDEX ident \<noteq> replicate CODE_INDEX 0 \<and> x = ident"
  by (auto simp: note_source_of_bytes_def Let_def split: if_splits)

text \<open>
  Decoding the 32-byte form of a note source returns it, except when it is a transaction
  identifier whose first 23 bytes are zero: such an identifier is read as a tagged source or
  rejected.
\<close>

theorem note_source_roundtrip:
  "note_source_of_bytes (note_source_to_bytes s) = Inr s \<longleftrightarrow> \<not> zero_prefixed s"
  by (cases s)
    (simp_all add: decode_genesis decode_reward decode_transaction del: note_source_to_bytes.simps(2,3))

end
