(* ===== verification/Crypto_Ext.thy ===== *)
theory Crypto_Ext
  imports Prelude "HOL-Library.Multiset"
begin

text \<open>
  The cryptographic crates that the repository calls: the fields and the group of \<open>decaf377\<close>, the
  hashes \<open>poseidon377\<close> and \<open>blake2b_simd\<close>, the signatures of \<open>decaf377-rdsa\<close>, ChaCha20-Poly1305, FF1,
  F4Jumble, bech32 and the random number generators.  They are the fields of the record \<open>crypto\<close>,
  an argument of every definition that calls them.

  The group has as many elements as there are scalars; a number below \<open>fr_order\<close> names one.  The
  operations on field and group elements are the record's.  What theorems rely on is stated here as
  named predicates on the record, each the documented behaviour of one crate.
\<close>

type_synonym element = fr
type_synonym bytes = "u8 list"
type_synonym rng = nat

text \<open>Signing keys of \<open>decaf377-rdsa\<close> are scalars, verification keys their 32 byte encodings.\<close>

type_synonym signing_key = fr
type_synonym verification_key = bytes
type_synonym signature = bytes

text \<open>
  The note commitment tree is the \<open>BridgeTree\<close> of \<open>incrementalmerkletree\<close>; a tree is represented by the
  history of the calls that made it.
\<close>

datatype nct_op = NctAppend fq | NctWitness | NctRemoveWitness fq

type_synonym nct = "nct_op list"

record crypto =
  fq_to_bytes :: "fq \<Rightarrow> bytes"
  fq_from_bytes :: "bytes \<Rightarrow> fq option"
  fq_mod_order :: "bytes \<Rightarrow> fq"                 \<comment> \<open>\<open>from_le_bytes_mod_order\<close>\<close>
  fq_of_u64 :: "u64 \<Rightarrow> fq"
  fq_add :: "fq \<Rightarrow> fq \<Rightarrow> fq"
  fr_zero :: fr
  fr_one :: fr
  fr_of_u64 :: "u64 \<Rightarrow> fr"
  fr_add :: "fr \<Rightarrow> fr \<Rightarrow> fr"
  fr_neg :: "fr \<Rightarrow> fr"
  fr_mul :: "fr \<Rightarrow> fr \<Rightarrow> fr"
  fr_inverse :: "fr \<Rightarrow> fr option"
  fr_to_bytes :: "fr \<Rightarrow> bytes"
  fr_from_bytes :: "bytes \<Rightarrow> fr option"
  fr_mod_order :: "bytes \<Rightarrow> fr"
  el_zero :: element                            \<comment> \<open>\<open>Element::default\<close>, the identity\<close>
  el_add :: "element \<Rightarrow> element \<Rightarrow> element"
  el_neg :: "element \<Rightarrow> element"
  el_mul :: "fr \<Rightarrow> element \<Rightarrow> element"
  el_basepoint :: element
  el_compress :: "element \<Rightarrow> bytes"
  el_decompress :: "bytes \<Rightarrow> element option"
  el_to_field :: "element \<Rightarrow> fq"                 \<comment> \<open>\<open>compress_to_field\<close>\<close>
  el_map_to_group :: "fq \<Rightarrow> element"             \<comment> \<open>\<open>map_to_group_cdh\<close>\<close>
  poseidon_1 :: "fq \<Rightarrow> fq \<Rightarrow> fq"
  poseidon_2 :: "fq \<Rightarrow> fq \<times> fq \<Rightarrow> fq"
  poseidon_3 :: "fq \<Rightarrow> fq \<times> fq \<times> fq \<Rightarrow> fq"
  poseidon_5 :: "fq \<Rightarrow> fq \<times> fq \<times> fq \<times> fq \<times> fq \<Rightarrow> fq"
  blake2b :: "string \<Rightarrow> bytes \<Rightarrow> bytes \<Rightarrow> bytes"   \<comment> \<open>personalisation, key, input; 64 bytes\<close>
  blake2b_32 :: "bytes \<Rightarrow> bytes"                 \<comment> \<open>\<open>hash_length(32)\<close>\<close>
  aead_encrypt :: "bytes \<Rightarrow> bytes \<Rightarrow> bytes \<Rightarrow> bytes option"   \<comment> \<open>key, nonce, plaintext\<close>
  aead_decrypt :: "bytes \<Rightarrow> bytes \<Rightarrow> bytes \<Rightarrow> bytes option"
  ff1_encrypt :: "bytes \<Rightarrow> bytes \<Rightarrow> bytes"
  ff1_decrypt :: "bytes \<Rightarrow> bytes \<Rightarrow> bytes"
  f4jumble :: "bytes \<Rightarrow> bytes option"
  f4jumble_inv :: "bytes \<Rightarrow> bytes option"
  sha256 :: "bytes \<Rightarrow> bytes"
  pbkdf2 :: "bytes \<Rightarrow> bytes \<Rightarrow> u32 \<Rightarrow> bytes"       \<comment> \<open>password, salt, rounds; 32 bytes\<close>
  bech32m_encode :: "string \<Rightarrow> bytes \<Rightarrow> string"
  bech32_decode :: "string \<Rightarrow> (string \<times> bytes \<times> bool) option"  \<comment> \<open>the flag says Bech32m\<close>
  sk_randomize :: "signing_key \<Rightarrow> fr \<Rightarrow> signing_key"
  vk_spend_auth :: "signing_key \<Rightarrow> verification_key"
  vk_parse :: "bytes \<Rightarrow> verification_key option"
  vk_randomize :: "verification_key \<Rightarrow> fr \<Rightarrow> verification_key"
  vk_is_identity :: "verification_key \<Rightarrow> bool"
  sign_spend_auth :: "signing_key \<Rightarrow> bytes \<Rightarrow> rng \<Rightarrow> signature \<times> rng"
  verify_spend_auth :: "verification_key \<Rightarrow> bytes \<Rightarrow> signature \<Rightarrow> bool"
  sign_binding :: "signing_key \<Rightarrow> bytes \<Rightarrow> rng \<Rightarrow> signature \<times> rng"
  verify_binding :: "verification_key \<Rightarrow> bytes \<Rightarrow> signature \<Rightarrow> bool"
  nct_root :: "nct \<Rightarrow> fq"
  nct_position :: "nct \<Rightarrow> u64 option"            \<comment> \<open>position of the last bridge's frontier\<close>
  nct_auth_path :: "nct \<Rightarrow> fq \<Rightarrow> (u64 \<times> fq list) option"
  rand_fq :: "rng \<Rightarrow> fq \<times> rng"
  rand_fr :: "rng \<Rightarrow> fr \<times> rng"
  rand_permutation :: "nat \<Rightarrow> rng \<Rightarrow> nat list \<times> rng"   \<comment> \<open>what \<open>shuffle\<close> does to the indices\<close>

definition fr_sub :: "crypto \<Rightarrow> fr \<Rightarrow> fr \<Rightarrow> fr" where
  "fr_sub C a b = fr_add C a (fr_neg C b)"

definition el_sub :: "crypto \<Rightarrow> element \<Rightarrow> element \<Rightarrow> element" where
  "el_sub C a b = el_add C a (el_neg C b)"

text \<open>\<open>SliceRandom::shuffle\<close>: the elements in the order of a random permutation of the indices.\<close>

definition shuffle :: "crypto \<Rightarrow> 'a list \<Rightarrow> rng \<Rightarrow> 'a list \<times> rng" where
  "shuffle C xs g = (let (p, g') = rand_permutation C (length xs) g in (map (nth xs) p, g'))"

section \<open>What the crates promise\<close>

text \<open>Scalars are a commutative ring under which the group is a module.\<close>

definition group_ok :: "crypto \<Rightarrow> bool" where
  "group_ok C \<longleftrightarrow>
     (\<forall>a b c. fr_add C (fr_add C a b) c = fr_add C a (fr_add C b c)) \<and>
     (\<forall>a b. fr_add C a b = fr_add C b a) \<and> (\<forall>a. fr_add C (fr_zero C) a = a) \<and>
     (\<forall>a. fr_add C a (fr_neg C a) = fr_zero C) \<and>
     (\<forall>a b. fr_mul C a b = fr_mul C b a) \<and>
     (\<forall>a b c. el_add C (el_add C a b) c = el_add C a (el_add C b c)) \<and>
     (\<forall>a b. el_add C a b = el_add C b a) \<and> (\<forall>a. el_add C (el_zero C) a = a) \<and>
     (\<forall>a. el_add C a (el_neg C a) = el_zero C) \<and>
     (\<forall>x y a. el_mul C (fr_add C x y) a = el_add C (el_mul C x a) (el_mul C y a)) \<and>
     (\<forall>x a b. el_mul C x (el_add C a b) = el_add C (el_mul C x a) (el_mul C x b)) \<and>
     (\<forall>x y a. el_mul C (fr_mul C x y) a = el_mul C x (el_mul C y a)) \<and>
     (\<forall>a. el_mul C (fr_one C) a = a)"

definition inverse_ok :: "crypto \<Rightarrow> bool" where
  "inverse_ok C \<longleftrightarrow> (\<forall>r s. fr_inverse C r = Some s \<longrightarrow> fr_mul C s r = fr_one C)"

text \<open>\<open>Fr::from(u64)\<close> is the embedding of the numbers in the ring.\<close>

definition embed_ok :: "crypto \<Rightarrow> bool" where
  "embed_ok C \<longleftrightarrow> (\<forall>a. fr_of_u64 C a = ((fr_add C (fr_one C)) ^^ unat a) (fr_zero C))"

text \<open>Encodings have 32 bytes and decode to what was encoded.\<close>

definition encoding_ok :: "crypto \<Rightarrow> bool" where
  "encoding_ok C \<longleftrightarrow>
     (\<forall>x. length (fq_to_bytes C x) = 32 \<and> fq_from_bytes C (fq_to_bytes C x) = Some x) \<and>
     (\<forall>x. length (fr_to_bytes C x) = 32 \<and> fr_from_bytes C (fr_to_bytes C x) = Some x) \<and>
     (\<forall>e. length (el_compress C e) = 32 \<and> el_decompress C (el_compress C e) = Some e
       \<and> fq_from_bytes C (el_compress C e) = Some (el_to_field C e))"

text \<open>Decryption inverts encryption; the tag adds 16 bytes.\<close>

definition aead_ok :: "crypto \<Rightarrow> bool" where
  "aead_ok C \<longleftrightarrow> (\<forall>k n p. \<exists>c. aead_encrypt C k n p = Some c \<and> length c = length p + 16
     \<and> aead_decrypt C k n c = Some p)"

definition ff1_ok :: "crypto \<Rightarrow> bool" where
  "ff1_ok C \<longleftrightarrow> (\<forall>k x. length x = 11 \<longrightarrow> length (ff1_encrypt C k x) = 11
     \<and> ff1_decrypt C k (ff1_encrypt C k x) = x)"

definition text_ok :: "crypto \<Rightarrow> bool" where
  "text_ok C \<longleftrightarrow>
     (\<forall>x. 48 \<le> length x \<and> length x \<le> 4194368 \<longrightarrow> (\<exists>y. f4jumble C x = Some y \<and> f4jumble_inv C y = Some x)) \<and>
     (\<forall>hrp x. bech32_decode C (bech32m_encode C hrp x) = Some (hrp, x, True))"

text \<open>Signatures verify, and randomising commutes with taking the verification key.\<close>

definition rdsa_ok :: "crypto \<Rightarrow> element \<Rightarrow> bool" where
  "rdsa_ok C binding_base \<longleftrightarrow>
     (\<forall>sk m g. verify_spend_auth C (vk_spend_auth C sk) m (fst (sign_spend_auth C sk m g))) \<and>
     (\<forall>sk r. vk_spend_auth C (sk_randomize C sk r) = vk_randomize C (vk_spend_auth C sk) r) \<and>
     (\<forall>sk. vk_parse C (vk_spend_auth C sk) = Some (vk_spend_auth C sk)
       \<and> fq_from_bytes C (vk_spend_auth C sk) \<noteq> None) \<and>
     (\<forall>e. vk_parse C (el_compress C e) = Some (el_compress C e)) \<and>
     (\<forall>sk m g. verify_binding C (el_compress C (el_mul C sk binding_base)) m (fst (sign_binding C sk m g)))"

text \<open>Keys and signatures are arrays of 32 and 64 bytes; a tree of depth 32 has no position above 32 bits.\<close>

definition sizes_ok :: "crypto \<Rightarrow> bool" where
  "sizes_ok C \<longleftrightarrow>
     (\<forall>sk. length (vk_spend_auth C sk) = 32) \<and>
     (\<forall>sk m g. length (fst (sign_spend_auth C sk m g)) = 64) \<and>
     (\<forall>sk m g. length (fst (sign_binding C sk m g)) = 64) \<and>
     (\<forall>t cm pos path. nct_auth_path C t cm = Some (pos, path) \<longrightarrow> unat pos < 2 ^ 32)"

definition rand_ok :: "crypto \<Rightarrow> bool" where
  "rand_ok C \<longleftrightarrow> (\<forall>n g. mset (fst (rand_permutation C n g)) = mset [0..<n])"

lemma shuffle_mset:
  assumes "rand_ok C"
  shows "mset (fst (shuffle C xs g)) = mset xs"
proof -
  have "mset (map (nth xs) (fst (rand_permutation C (length xs) g))) = image_mset (nth xs) (mset [0..<length xs])"
    using assms by (simp add: rand_ok_def)
  also have "\<dots> = mset xs" by (metis map_nth mset_map)
  finally show ?thesis by (simp add: shuffle_def case_prod_beta Let_def)
qed

section \<open>Byte strings\<close>

text \<open>The bytes of a literal string (its characters are ASCII).\<close>

definition ascii :: "string \<Rightarrow> bytes" where
  "ascii s = map (\<lambda>c. of_nat (of_char c)) s"

text \<open>\<open>TryFrom<&[u8]>\<close> of an array type: the slice must have the array's length.\<close>

definition array :: "nat \<Rightarrow> bytes \<Rightarrow> bytes option" where
  "array n b = (if length b = n then Some b else None)"

lemma array_Some [simp]: "array n b = Some c \<longleftrightarrow> length b = n \<and> c = b"
  by (auto simp: array_def)

lemma array_exact [simp]: "length b = n \<Longrightarrow> array n b = Some b"
  by simp

lemma ucast_down_up: "unat (w :: u64) < 2 ^ 32 \<Longrightarrow> (ucast (ucast w :: u32) :: u64) = w"
  by (rule unsigned_word_eqI [where ?'a = nat])
     (simp add: unsigned_ucast_eq unsigned_take_bit_eq take_bit_nat_eq_self)

lemma aead_obtain:
  assumes "aead_ok C" and "length p = n"
  obtains c where "aead_encrypt C k nonce p = Some c" and "length c = n + 16" and "aead_decrypt C k nonce c = Some p"
  using assms unfolding aead_ok_def by blast

text \<open>\<open>bytes[a..b]\<close>.\<close>

definition slice :: "nat \<Rightarrow> nat \<Rightarrow> 'a list \<Rightarrow> 'a list" where
  "slice a b xs = take (b - a) (drop a xs)"

lemma slice_here: "length x = n \<Longrightarrow> slice 0 n (x @ y) = x"
  by (simp add: slice_def)

lemma slice_skip: "length x = k \<Longrightarrow> k \<le> a \<Longrightarrow> slice a b (x @ y) = slice (a - k) (b - k) y"
  by (simp add: slice_def)

lemma slice_all: "length x = n \<Longrightarrow> slice 0 n x = x"
  by (simp add: slice_def)

lemmas slice_simps = slice_here slice_skip slice_all

section \<open>Encodings\<close>

lemma encoding_laws:
  assumes "encoding_ok C"
  shows "length (fq_to_bytes C x) = 32" "fq_from_bytes C (fq_to_bytes C x) = Some x"
    "length (fr_to_bytes C y) = 32" "fr_from_bytes C (fr_to_bytes C y) = Some y"
    "length (el_compress C e) = 32" "el_decompress C (el_compress C e) = Some e"
    "fq_from_bytes C (el_compress C e) = Some (el_to_field C e)"
  using assms by (simp_all add: encoding_ok_def)

lemma compress_inject: "encoding_ok C \<Longrightarrow> el_compress C a = el_compress C b \<longleftrightarrow> a = b"
  by (metis encoding_laws(6) option.inject)

section \<open>The module laws\<close>

lemma group_laws:
  assumes "group_ok C"
  shows fr_add_assoc: "fr_add C (fr_add C x y) z = fr_add C x (fr_add C y z)"
    and fr_add_commute: "fr_add C x y = fr_add C y x"
    and fr_zero_left: "fr_add C (fr_zero C) x = x"
    and fr_neg_right: "fr_add C x (fr_neg C x) = fr_zero C"
    and fr_mul_commute: "fr_mul C x y = fr_mul C y x"
    and el_add_assoc: "el_add C (el_add C a b) c = el_add C a (el_add C b c)"
    and el_add_commute: "el_add C a b = el_add C b a"
    and el_zero_left: "el_add C (el_zero C) a = a"
    and el_neg_right: "el_add C a (el_neg C a) = el_zero C"
    and el_mul_add: "el_mul C (fr_add C x y) a = el_add C (el_mul C x a) (el_mul C y a)"
    and el_mul_mul: "el_mul C (fr_mul C x y) a = el_mul C x (el_mul C y a)"
    and el_mul_one: "el_mul C (fr_one C) a = a"
  using assms unfolding group_ok_def by - (elim conjE, metis)+

text \<open>Key agreement rests on this: scalar multiplications commute.\<close>

lemma el_mul_commute:
  assumes "group_ok C"
  shows "el_mul C x (el_mul C y a) = el_mul C y (el_mul C x a)"
  using assms by (metis group_ok_def)

lemma el_add_left_commute:
  assumes "group_ok C"
  shows "el_add C a (el_add C b c) = el_add C b (el_add C a c)"
  using el_add_assoc [OF assms] el_add_commute [OF assms] by metis

lemma el_cancel:
  assumes "group_ok C"
  shows "el_add C a b = el_add C a c \<longleftrightarrow> b = c"
  using el_add_assoc [OF assms] el_neg_right [OF assms] el_zero_left [OF assms] el_add_commute [OF assms] by metis

lemma el_zero_right:
  assumes "group_ok C"
  shows "el_add C a (el_zero C) = a"
  using el_zero_left [OF assms] el_add_commute [OF assms] by metis

lemma el_neg_unique:
  assumes "group_ok C" and "el_add C a b = el_zero C"
  shows "b = el_neg C a"
  using assms(2) el_neg_right [OF assms(1)] el_cancel [OF assms(1)] by metis

lemma el_neg_add:
  assumes "group_ok C"
  shows "el_neg C (el_add C a b) = el_add C (el_neg C a) (el_neg C b)"
  by (rule el_neg_unique [OF assms, symmetric])
     (metis assms el_add_assoc el_add_commute el_neg_right el_zero_left)

lemma el_neg_neg:
  assumes "group_ok C"
  shows "el_neg C (el_neg C a) = a"
  by (rule el_neg_unique [OF assms, symmetric]) (metis assms el_add_commute el_neg_right)

lemma el_mul_zero:
  assumes "group_ok C"
  shows "el_mul C (fr_zero C) a = el_zero C"
  using el_mul_add [OF assms, of "fr_zero C" "fr_zero C" a] fr_zero_left [OF assms]
    el_zero_right [OF assms] el_cancel [OF assms] by metis

lemma fr_sub_add:
  assumes "group_ok C"
  shows "fr_add C (fr_sub C x y) y = x"
  unfolding fr_sub_def using assms
  by (metis fr_add_assoc fr_add_commute fr_neg_right fr_zero_left)

lemma el_mul_neg:
  assumes "group_ok C"
  shows "el_mul C (fr_neg C x) a = el_neg C (el_mul C x a)"
  by (rule el_neg_unique [OF assms]) (metis assms el_mul_add el_mul_zero fr_neg_right)

end
