(* ===== verification/FMD.thy ===== *)
theory FMD
  imports Crypto_Ext
begin

text \<open>
  Fuzzy message detection (\<open>decaf377-fmd/src\<close>): a clue created for a clue key is detected by the
  detection key of that clue key, and by others only by accident.  Clues are 68 bytes: a point, a
  scalar, the precision and 24 bits.  Slices of a clue assume that length, which its type fixes.
\<close>

unbundle bit_operations_syntax

definition MAX_PRECISION :: nat where
  "MAX_PRECISION = 24"

section \<open>Hashes\<close>

definition to_bit :: "crypto \<Rightarrow> bytes \<Rightarrow> bytes \<Rightarrow> bytes \<Rightarrow> u8" where
  "to_bit C a b c = (blake2b C ''decaf377-fmd.bit'' [] (a @ b @ c) ! 0) AND 1"

definition to_scalar :: "crypto \<Rightarrow> bytes \<Rightarrow> u8 \<Rightarrow> bytes \<Rightarrow> fr result" where
  "to_scalar C point n bits =
     bindR (ensure (Panic ''assertion failed: bits.len() == 3'') (length bits = 3)) (\<lambda>_.
     Inr (fr_mod_order C (blake2b C ''decaf377-fmd.bit'' [] (point @ [n] @ bits))))"

section \<open>Derivation of child keys\<close>

definition derive_public :: "crypto \<Rightarrow> element \<Rightarrow> bytes \<Rightarrow> u8 \<Rightarrow> element" where
  "derive_public C root_pub root_pub_enc index =
     (let hash = blake2b C ''decaf377-fmd.hkd'' [] (root_pub_enc @ [index]);
          x = fr_mod_order C hash
      in el_add C root_pub (el_mul C x (el_basepoint C)))"

definition derive_private :: "crypto \<Rightarrow> fr \<Rightarrow> bytes \<Rightarrow> u8 \<Rightarrow> fr" where
  "derive_private C root_priv root_pub_enc index =
     (let hash = blake2b C ''decaf377-fmd.hkd'' [] (root_pub_enc @ [index]);
          x = fr_mod_order C hash
      in fr_add C root_priv x)"

section \<open>Detection keys\<close>

type_synonym clue_key = bytes
type_synonym clue = bytes

record detection_key =
  dtk_root :: fr
  dtk_xs :: "fr list"

definition detection_key_from_field :: "crypto \<Rightarrow> fr \<Rightarrow> detection_key" where
  "detection_key_from_field C dtk =
     (let root_pub = el_mul C dtk (el_basepoint C);
          root_pub_enc = el_compress C root_pub
      in \<lparr>dtk_root = dtk, dtk_xs = map (\<lambda>i. derive_private C dtk root_pub_enc (of_nat i)) [0..<MAX_PRECISION]\<rparr>)"

definition detection_key_to_bytes :: "crypto \<Rightarrow> detection_key \<Rightarrow> bytes" where
  "detection_key_to_bytes C k = fr_to_bytes C (dtk_root k)"

definition detection_key_from_bytes :: "crypto \<Rightarrow> bytes \<Rightarrow> detection_key result" where
  "detection_key_from_bytes C b =
     bindR (ok_or (Err ''Invalid detection key.'') (fr_from_bytes C b)) (\<lambda>dtk. Inr (detection_key_from_field C dtk))"

definition clue_key_of :: "crypto \<Rightarrow> detection_key \<Rightarrow> clue_key" where
  "clue_key_of C k = el_compress C (el_mul C (dtk_root k) (el_basepoint C))"

text \<open>
  The loop of \<open>examine\<close> over the precision bits; indexing beyond the child keys or beyond the bits
  of the clue panics.
\<close>

fun examine_bits :: "crypto \<Rightarrow> fr list \<Rightarrow> bytes \<Rightarrow> element \<Rightarrow> bytes \<Rightarrow> bytes \<Rightarrow> nat list \<Rightarrow> bool result" where
  "examine_bits C xs P_enc P Q cts [] = Inr True"
| "examine_bits C xs P_enc P Q cts (i # is) =
     (if length xs \<le> i \<or> 8 * length cts \<le> i then Inl (Panic ''index out of bounds'')
      else
        (let Px_i = el_compress C (el_mul C (xs ! i) P);
             key_i = to_bit C P_enc Px_i Q;
             msg_i = of_bool (bit (cts ! (i div 8)) (i mod 8)) XOR key_i
         in if msg_i = 0 then Inr False else examine_bits C xs P_enc P Q cts is))"

definition examine :: "crypto \<Rightarrow> detection_key \<Rightarrow> clue \<Rightarrow> bool result" where
  "examine C k cl =
     (let P_enc = slice 0 32 cl in
      case el_decompress C P_enc of None \<Rightarrow> Inr False
      | Some P \<Rightarrow>
        (case fr_from_bytes C (slice 32 64 cl) of None \<Rightarrow> Inr False
         | Some y \<Rightarrow>
           if P = el_zero C \<or> y = fr_zero C then Inr False
           else
             (let precision_bits = cl ! 64; cts = slice 65 68 cl in
              bindR (to_scalar C P_enc precision_bits cts) (\<lambda>m.
              let Q = el_compress C (el_add C (el_mul C y P) (el_mul C m (el_basepoint C)))
              in examine_bits C (dtk_xs k) P_enc P Q cts [0..<unat precision_bits]))))"

section \<open>Clue keys\<close>

text \<open>The cached subkeys are interior mutable state; the operations return the key with its cache.\<close>

record expanded_clue_key =
  eck_root_pub :: element
  eck_root_pub_enc :: bytes
  eck_subkeys :: "element list"

definition clue_key_expand :: "crypto \<Rightarrow> clue_key \<Rightarrow> expanded_clue_key result" where
  "clue_key_expand C ck =
     bindR (ok_or (Err ''Invalid address.'') (el_decompress C ck)) (\<lambda>root_pub.
     Inr \<lparr>eck_root_pub = root_pub, eck_root_pub_enc = ck, eck_subkeys = []\<rparr>)"

definition ensure_at_least :: "crypto \<Rightarrow> nat \<Rightarrow> expanded_clue_key \<Rightarrow> expanded_clue_key result" where
  "ensure_at_least C precision k =
     (if MAX_PRECISION < precision then Inl (Err ''PrecisionTooLarge'')
      else
        (let current_precision = length (eck_subkeys k) in
         if precision \<le> current_precision then Inr k
         else Inr (k\<lparr>eck_subkeys := eck_subkeys k @
                map (\<lambda>i. derive_public C (eck_root_pub k) (eck_root_pub_enc k) (of_nat i))
                  [current_precision..<precision]\<rparr>)))"

definition set_ctxt_bit :: "nat \<Rightarrow> bool \<Rightarrow> bytes \<Rightarrow> bytes" where
  "set_ctxt_bit i b cts =
     cts[i div 8 := (if b then set_bit (i mod 8) (cts ! (i div 8)) else unset_bit (i mod 8) (cts ! (i div 8)))]"

definition encrypt_bits :: "crypto \<Rightarrow> fr \<Rightarrow> element list \<Rightarrow> bytes \<Rightarrow> bytes \<Rightarrow> nat list \<Rightarrow> bytes \<Rightarrow> bytes" where
  "encrypt_bits C r Xs P_enc Q_enc is cts =
     fold (\<lambda>i cts.
       let rXi = el_compress C (el_mul C r (Xs ! i));
           key_i = to_bit C P_enc rXi Q_enc;
           ctxt_i = key_i XOR 1
       in set_ctxt_bit i (ctxt_i \<noteq> 0) cts) is cts"

definition create_clue ::
  "crypto \<Rightarrow> nat \<Rightarrow> rng \<Rightarrow> expanded_clue_key \<Rightarrow> (clue \<times> expanded_clue_key \<times> rng) result" where
  "create_clue C precision_bits g k =
     (if MAX_PRECISION \<le> precision_bits then Inl (Err ''PrecisionTooLarge'')
      else
        bindR (ensure_at_least C precision_bits k) (\<lambda>k.
        let (r, g) = rand_fr C g;
            (z, g) = rand_fr C g;
            P = el_mul C r (el_basepoint C);
            P_enc = el_compress C P;
            Q = el_mul C z (el_basepoint C);
            Q_enc = el_compress C Q;
            cts = encrypt_bits C r (eck_subkeys k) P_enc Q_enc [0..<precision_bits] (replicate 3 0)
        in bindR (to_scalar C P_enc (of_nat precision_bits) cts) (\<lambda>m.
           bindR (ok_or (Panic ''random element is nonzero'') (fr_inverse C r)) (\<lambda>r_inv.
           let y = fr_mul C (fr_sub C z m) r_inv
           in Inr (P_enc @ fr_to_bytes C y @ [of_nat precision_bits] @ cts, k, g)))))"

section \<open>No false negatives\<close>

text \<open>The child keys on both sides correspond.\<close>

lemma derive_matches:
  assumes "group_ok C"
  shows "derive_public C (el_mul C d (el_basepoint C)) e i = el_mul C (derive_private C d e i) (el_basepoint C)"
  by (simp add: derive_public_def derive_private_def Let_def el_mul_add [OF assms])

lemma length_encrypt_bits [simp]: "length (encrypt_bits C r Xs Pe Qe is cts) = length cts"
  by (induction "is" arbitrary: cts) (simp_all add: encrypt_bits_def set_ctxt_bit_def Let_def)

lemma set_ctxt_bit_other:
  assumes "i \<noteq> j" and "j < 8 * length cts"
  shows "bit (set_ctxt_bit i b cts ! (j div 8)) (j mod 8) = bit (cts ! (j div 8)) (j mod 8)"
proof (cases "i div 8 = j div 8")
  case True
  with assms(1) have "i mod 8 \<noteq> j mod 8" by (metis div_mult_mod_eq)
  moreover have "j div 8 < length cts" using assms(2) by (simp add: less_mult_imp_div_less mult.commute)
  ultimately show ?thesis using True by (auto simp: set_ctxt_bit_def bit_set_bit_iff bit_unset_bit_iff)
qed (simp add: set_ctxt_bit_def)

lemma set_ctxt_bit_same:
  assumes "i < 8 * length cts"
  shows "bit (set_ctxt_bit i b cts ! (i div 8)) (i mod 8) = b"
proof -
  have "i div 8 < length cts" using assms by (simp add: less_mult_imp_div_less mult.commute)
  then show ?thesis by (auto simp: set_ctxt_bit_def bit_set_bit_iff bit_unset_bit_iff bit_imp_le_length)
qed

lemma encrypt_bits_bit:
  assumes "distinct is" and "i \<in> set is" and "\<forall>j \<in> set is. j < 8 * length cts"
  shows "bit (encrypt_bits C r Xs Pe Qe is cts ! (i div 8)) (i mod 8)
    \<longleftrightarrow> to_bit C Pe (el_compress C (el_mul C r (Xs ! i))) Qe XOR 1 \<noteq> 0"
  using assms
proof (induction "is" arbitrary: i rule: rev_induct)
  case (snoc j js)
  let ?cts = "encrypt_bits C r Xs Pe Qe js cts"
  have e: "encrypt_bits C r Xs Pe Qe (js @ [j]) cts
      = set_ctxt_bit j (to_bit C Pe (el_compress C (el_mul C r (Xs ! j))) Qe XOR 1 \<noteq> 0) ?cts"
    by (simp add: encrypt_bits_def Let_def)
  show ?case
  proof (cases "i = j")
    case True
    with snoc.prems show ?thesis by (simp add: e set_ctxt_bit_same)
  next
    case False
    with snoc show ?thesis by (simp add: e set_ctxt_bit_other)
  qed
qed simp

lemma to_bit_range: "to_bit C a b c = 0 \<or> to_bit C a b c = 1"
  by (auto simp: to_bit_def and_one_eq mod_2_eq_odd)

lemma examine_bits_all:
  assumes "\<forall>i \<in> set is. i < length xs \<and> i < 8 * length cts
      \<and> (bit (cts ! (i div 8)) (i mod 8) \<longleftrightarrow> to_bit C Pe (el_compress C (el_mul C (xs ! i) P)) Q XOR 1 \<noteq> 0)"
  shows "examine_bits C xs Pe P Q cts is = Inr True"
  using assms
proof (induction "is")
  case (Cons i "is")
  have "to_bit C Pe (el_compress C (el_mul C (xs ! i) P)) Q \<in> {0, 1}" using to_bit_range by blast
  with Cons show ?case by (auto simp: Let_def)
qed simp

text \<open>The cache of an expanded clue key holds the first of its child keys, whatever clues were created before.\<close>

definition cache_ok :: "crypto \<Rightarrow> element \<Rightarrow> expanded_clue_key \<Rightarrow> bool" where
  "cache_ok C D k \<longleftrightarrow> eck_root_pub k = D \<and> eck_root_pub_enc k = el_compress C D
     \<and> eck_subkeys k = map (\<lambda>i. derive_public C D (el_compress C D) (of_nat i)) [0..<length (eck_subkeys k)]"

lemma ensure_at_least_cache:
  assumes "cache_ok C D k" and "ensure_at_least C p k = Inr k'"
  shows "cache_ok C D k' \<and> p \<le> length (eck_subkeys k')"
proof (cases "p \<le> length (eck_subkeys k)")
  case True
  then show ?thesis using assms by (auto simp: ensure_at_least_def Let_def split: if_splits)
next
  case False
  let ?f = "\<lambda>i. derive_public C D (el_compress C D) (of_nat i)"
  have k': "k' = k\<lparr>eck_subkeys := eck_subkeys k @ map ?f [length (eck_subkeys k)..<p]\<rparr>"
    using False assms by (auto simp: ensure_at_least_def Let_def cache_ok_def split: if_splits)
  have "[0..<p] = [0..<length (eck_subkeys k)] @ [length (eck_subkeys k)..<p]"
    using False upt_add_eq_append [of 0 "length (eck_subkeys k)" "p - length (eck_subkeys k)"] by simp
  moreover have "eck_subkeys k = map ?f [0..<length (eck_subkeys k)]" using assms(1) by (simp add: cache_ok_def)
  ultimately have "eck_subkeys k' = map ?f [0..<p]" by (simp add: k')
  then show ?thesis using assms(1) by (simp add: cache_ok_def k')
qed

lemma create_clue_Inr:
  assumes "create_clue C p g k = Inr (cl, k', g')"
  obtains r z m s where "p < MAX_PRECISION" and "fr_inverse C r = Some s" and "ensure_at_least C p k = Inr k'"
    and "to_scalar C (el_compress C (el_mul C r (el_basepoint C))) (of_nat p)
      (encrypt_bits C r (eck_subkeys k')
        (el_compress C (el_mul C r (el_basepoint C))) (el_compress C (el_mul C z (el_basepoint C)))
        [0..<p] (replicate 3 0)) = Inr m"
    and "cl = el_compress C (el_mul C r (el_basepoint C)) @ fr_to_bytes C (fr_mul C (fr_sub C z m) s) @ [of_nat p] @
      encrypt_bits C r (eck_subkeys k')
        (el_compress C (el_mul C r (el_basepoint C))) (el_compress C (el_mul C z (el_basepoint C)))
        [0..<p] (replicate 3 0)"
  using assms by (auto simp: create_clue_def Let_def case_prod_beta result_simps not_le split: if_splits)

text \<open>Both sides compute the same point \<open>Q\<close>.\<close>

lemma clue_point:
  assumes g: "group_ok C" and "inverse_ok C" and "fr_inverse C r = Some s"
  shows "el_add C (el_mul C (fr_mul C (fr_sub C z m) s) (el_mul C r B)) (el_mul C m B) = el_mul C z B"
proof -
  have "el_mul C (fr_mul C (fr_sub C z m) s) (el_mul C r B) = el_mul C (fr_sub C z m) (el_mul C (fr_mul C s r) B)"
    by (simp add: el_mul_mul [OF g])
  also have "\<dots> = el_mul C (fr_sub C z m) B"
    using assms(2,3) by (simp add: inverse_ok_def el_mul_one [OF g])
  finally show ?thesis by (simp add: el_mul_add [OF g, symmetric] fr_sub_add [OF g])
qed

text \<open>
  C17: a clue created for a clue key is found by the detection key it belongs to, at every precision and whatever clues
  were created before with the same expanded clue key, whose cache of child keys the earlier ones have filled.  The
  one exception are clues whose point \<open>P\<close> or scalar \<open>y\<close> is zero, which random \<open>r\<close> and \<open>z\<close>
  give with negligible probability: they are never found.
\<close>

theorem fmd_no_false_negatives:
  assumes g: "group_ok C" and e: "encoding_ok C" and inv: "inverse_ok C"
    and k: "k = detection_key_from_field C dtk"
    and ek0: "clue_key_expand C (clue_key_of C k) = Inr ek0"
    and ek: "foldR (\<lambda>(p, g) ek. bindR (create_clue C p g ek) (\<lambda>(_, ek', _). Inr ek')) earlier ek0 = Inr ek"
    and cl: "create_clue C precision_bits rg ek = Inr (cl, ek', rg')"
  shows "examine C k cl
    = Inr (slice 0 32 cl \<noteq> el_compress C (el_zero C) \<and> slice 32 64 cl \<noteq> fr_to_bytes C (fr_zero C))"
proof -
  let ?B = "el_basepoint C" and ?p = precision_bits
  define D where "D = el_mul C dtk ?B"
  have "cache_ok C D ek0"
    using ek0 by (auto simp: clue_key_expand_def clue_key_of_def k detection_key_from_field_def Let_def
        encoding_laws [OF e] D_def cache_ok_def)
  then have "cache_ok C D ek"
    by (rule foldR_inv [OF ek, where P = "cache_ok C D"])
       (auto simp: result_simps elim!: create_clue_Inr dest: ensure_at_least_cache)
  define X where "X = eck_subkeys ek'"
  obtain r z m s where p: "?p < MAX_PRECISION" and s: "fr_inverse C r = Some s" and en: "ensure_at_least C ?p ek = Inr ek'"
    and m: "to_scalar C (el_compress C (el_mul C r ?B)) (of_nat ?p)
      (encrypt_bits C r X (el_compress C (el_mul C r ?B)) (el_compress C (el_mul C z ?B)) [0..<?p] (replicate 3 0)) = Inr m"
    and c: "cl = el_compress C (el_mul C r ?B) @ fr_to_bytes C (fr_mul C (fr_sub C z m) s) @ [of_nat ?p] @
      encrypt_bits C r X (el_compress C (el_mul C r ?B)) (el_compress C (el_mul C z ?B)) [0..<?p] (replicate 3 0)"
    unfolding X_def by (rule create_clue_Inr [OF cl])
  have X: "X ! i = derive_public C D (el_compress C D) (of_nat i)" if "i < ?p" for i
    using ensure_at_least_cache [OF \<open>cache_ok C D ek\<close> en] that unfolding X_def cache_ok_def
    by (metis add.left_neutral less_le_trans nth_map_upt diff_zero)
  define cts where "cts = encrypt_bits C r X (el_compress C (el_mul C r ?B)) (el_compress C (el_mul C z ?B))
    [0..<?p] (replicate 3 0)"
  have sl: "slice 0 32 cl = el_compress C (el_mul C r ?B)" "slice 32 64 cl = fr_to_bytes C (fr_mul C (fr_sub C z m) s)"
    "cl ! 64 = of_nat ?p" "slice 65 68 cl = cts"
    by (simp_all add: c slice_simps encoding_laws [OF e] nth_append cts_def [symmetric])
       (simp add: slice_def cts_def)
  have up: "unat (of_nat ?p :: u8) = ?p" using p by (simp add: MAX_PRECISION_def unsigned_of_nat take_bit_nat_eq_self)
  have "examine_bits C (dtk_xs k) (el_compress C (el_mul C r ?B)) (el_mul C r ?B) (el_compress C (el_mul C z ?B)) cts [0..<?p]
      = Inr True"
  proof (rule examine_bits_all, intro ballI conjI)
    fix i assume i: "i \<in> set [0..<?p]"
    show "i < length (dtk_xs k)" and "i < 8 * length cts"
      using i p by (auto simp: k detection_key_from_field_def Let_def cts_def MAX_PRECISION_def)
    have "el_mul C r (X ! i) = el_mul C (dtk_xs k ! i) (el_mul C r ?B)"
      using i p by (simp add: X D_def k detection_key_from_field_def Let_def derive_matches [OF g]
          el_mul_commute [OF g, of r])
    then show "bit (cts ! (i div 8)) (i mod 8) \<longleftrightarrow>
        to_bit C (el_compress C (el_mul C r ?B)) (el_compress C (el_mul C (dtk_xs k ! i) (el_mul C r ?B)))
          (el_compress C (el_mul C z ?B)) XOR 1 \<noteq> 0"
      using i p by (simp add: cts_def encrypt_bits_bit MAX_PRECISION_def)
  qed
  moreover have "fr_to_bytes C a = fr_to_bytes C b \<longleftrightarrow> a = b" for a b using e by (metis encoding_ok_def option.inject)
  ultimately show ?thesis
    using m by (auto simp: examine_def Let_def sl encoding_laws [OF e] up cts_def [symmetric]
        clue_point [OF g inv s] compress_inject [OF e])
qed

text \<open>
  A clue with a precision byte above 24 whose first 24 bits fit the detection key makes \<open>examine\<close> index
  its 24 child keys out of bounds.
\<close>

lemma examine_large_precision_panics:
  assumes "\<forall>i < 24. i < length xs \<and> i < 8 * length cts
      \<and> (bit (cts ! (i div 8)) (i mod 8) \<longleftrightarrow> to_bit C Pe (el_compress C (el_mul C (xs ! i) P)) Q XOR 1 \<noteq> 0)"
    and "length xs = 24" and "24 < n"
  shows "examine_bits C xs Pe P Q cts [0..<n] = Inl (Panic ''index out of bounds'')"
proof -
  have "examine_bits C xs Pe P Q cts (is @ js) = (if examine_bits C xs Pe P Q cts is = Inr True
      then examine_bits C xs Pe P Q cts js else examine_bits C xs Pe P Q cts is)" for "is" js
    by (induction "is") (auto simp: Let_def)
  from this [of "[0..<24]" "[24..<n]"] assms(3) have "examine_bits C xs Pe P Q cts [0..<n]
      = (if examine_bits C xs Pe P Q cts [0..<24] = Inr True then examine_bits C xs Pe P Q cts [24..<n]
         else examine_bits C xs Pe P Q cts [0..<24])"
    by (metis le_add_diff_inverse less_imp_le upt_add_eq_append zero_le)
  moreover have "examine_bits C xs Pe P Q cts [0..<24] = Inr True"
    by (rule examine_bits_all) (use assms(1) in auto)
  moreover have "[24..<n] = 24 # [25..<n]" using assms(3) by (simp add: upt_conv_Cons)
  ultimately show ?thesis using assms(2) by simp
qed

end
