(* ===== verification/Keys.thy ===== *)
theory Keys
  imports FMD
begin

text \<open>
  Keys and addresses: key agreement (\<open>decaf377-ka/src/lib.rs\<close>), the pseudo-random function
  (\<open>crypto/src/prf.rs\<close>), nullifier, outgoing, incoming and full viewing keys, spend keys and
  diversifiers (\<open>crypto/src/keys\<close>), payment addresses (\<open>crypto/src/address.rs\<close>) and the bech32m helpers
  (\<open>proto/src/serializers/bech32str.rs\<close>).  Fixed-size arrays are byte lists; their lengths are part of the
  well-formedness predicates below.
\<close>

section \<open>Text encodings\<close>

definition bech32str_decode :: "crypto \<Rightarrow> string \<Rightarrow> string \<Rightarrow> bytes result" where
  "bech32str_decode C s expected_hrp =
     bindR (ok_or (Err ''bech32'') (bech32_decode C s)) (\<lambda>(hrp, data, is_m).
     bindR (ensure (Err ''wrong bech32 variant'') is_m) (\<lambda>_.
     bindR (ensure (Err ''wrong bech32 human readable part'') (hrp = expected_hrp)) (\<lambda>_.
     Inr data)))"

definition bech32str_encode :: "crypto \<Rightarrow> bytes \<Rightarrow> string \<Rightarrow> string" where
  "bech32str_encode C data hrp = bech32m_encode C hrp data"

lemma bech32str_roundtrip: "text_ok C \<Longrightarrow> bech32str_decode C (bech32str_encode C b hrp) hrp = Inr b"
  by (simp add: bech32str_decode_def bech32str_encode_def text_ok_def)

section \<open>Key agreement\<close>

type_synonym ka_public = bytes
type_synonym ka_secret = fr

definition diversified_public :: "crypto \<Rightarrow> ka_secret \<Rightarrow> element \<Rightarrow> ka_public" where
  "diversified_public C sk g = el_compress C (el_mul C sk g)"

definition ka_public_key :: "crypto \<Rightarrow> ka_secret \<Rightarrow> ka_public" where
  "ka_public_key C sk = diversified_public C sk (el_basepoint C)"

definition key_agreement_with :: "crypto \<Rightarrow> ka_secret \<Rightarrow> ka_public \<Rightarrow> bytes result" where
  "key_agreement_with C sk other =
     bindR (ok_or (Err ''Invalid public key'') (el_decompress C other)) (\<lambda>pk.
     Inr (el_compress C (el_mul C sk pk)))"

definition ka_public_of_slice :: "bytes \<Rightarrow> ka_public result" where
  "ka_public_of_slice b = ok_or (Err ''Supplied bytes are incorrect length'') (array 32 b)"

definition ka_secret_of_slice :: "crypto \<Rightarrow> bytes \<Rightarrow> ka_secret result" where
  "ka_secret_of_slice C b =
     bindR (ok_or (Err ''Supplied bytes are incorrect length'') (array 32 b)) (\<lambda>b.
     ok_or (Err ''Invalid secret key'') (fr_from_bytes C b))"

definition ka_secret_to_bytes :: "crypto \<Rightarrow> ka_secret \<Rightarrow> bytes" where
  "ka_secret_to_bytes C sk = fr_to_bytes C sk"

text \<open>Two parties with keys on one generator agree on a secret.\<close>

lemma key_agreement_symmetric:
  assumes "group_ok C" and "encoding_ok C"
  shows "key_agreement_with C a (diversified_public C b g) = key_agreement_with C b (diversified_public C a g)"
    and "\<exists>s. key_agreement_with C a (diversified_public C b g) = Inr s"
  using el_mul_commute [OF assms(1)]
  by (simp_all add: key_agreement_with_def diversified_public_def encoding_laws [OF assms(2)])

section \<open>Pseudo-random function and nullifiers\<close>

definition prf_expand :: "crypto \<Rightarrow> string \<Rightarrow> bytes \<Rightarrow> bytes \<Rightarrow> bytes" where
  "prf_expand C label key input = blake2b C label key input"

definition prf_expand_fr :: "crypto \<Rightarrow> string \<Rightarrow> bytes \<Rightarrow> bytes \<Rightarrow> fr" where
  "prf_expand_fr C label key input = fr_mod_order C (prf_expand C label key input)"

definition prf_expand_fq :: "crypto \<Rightarrow> string \<Rightarrow> bytes \<Rightarrow> bytes \<Rightarrow> fq" where
  "prf_expand_fq C label key input = fq_mod_order C (prf_expand C label key input)"

definition NULLIFIER_DOMAIN_SEP :: "crypto \<Rightarrow> fq" where
  "NULLIFIER_DOMAIN_SEP C = fq_mod_order C (blake2b C [] [] (ascii ''penumbra.nullifier''))"

type_synonym nullifier_key = fq

definition derive_nullifier :: "crypto \<Rightarrow> nullifier_key \<Rightarrow> u64 \<Rightarrow> fq \<Rightarrow> fq" where
  "derive_nullifier C nk pos note_commitment =
     poseidon_3 C (NULLIFIER_DOMAIN_SEP C) (nk, note_commitment, fq_of_u64 C pos)"

section \<open>Diversifiers\<close>

type_synonym diversifier = bytes
type_synonym diversifier_index = bytes

definition diversified_generator :: "crypto \<Rightarrow> diversifier \<Rightarrow> element" where
  "diversified_generator C d = el_map_to_group C (fq_mod_order C (blake2b C ''Penumbra_Divrsfy'' [] d))"

definition diversifier_of_slice :: "bytes \<Rightarrow> diversifier result" where
  "diversifier_of_slice b = ok_or (Err ''diversifier must be 11 bytes'') (array 11 b)"

definition diversifier_for_index :: "crypto \<Rightarrow> bytes \<Rightarrow> diversifier_index \<Rightarrow> diversifier" where
  "diversifier_for_index C dk index = ff1_encrypt C dk index"

definition index_for_diversifier :: "crypto \<Rightarrow> bytes \<Rightarrow> diversifier \<Rightarrow> diversifier_index" where
  "index_for_diversifier C dk d = ff1_decrypt C dk d"

definition diversifier_index_of_u64 :: "u64 \<Rightarrow> diversifier_index" where
  "diversifier_index_of_u64 x = to_le_bytes x @ replicate 3 0"

definition u64_of_diversifier_index :: "diversifier_index \<Rightarrow> u64 result" where
  "u64_of_diversifier_index b =
     (if b ! 8 = 0 \<and> b ! 9 = 0 \<and> b ! 10 = 0 then Inr (from_le_bytes (slice 0 8 b))
      else Inl (Err ''diversifier index out of range''))"

lemma u64_of_diversifier_index_of: "u64_of_diversifier_index (diversifier_index_of_u64 x) = Inr x"
  by (simp add: u64_of_diversifier_index_def diversifier_index_of_u64_def slice_simps nth_append)

section \<open>Viewing keys\<close>

record incoming_viewing_key =
  ivk_secret :: ka_secret
  ivk_dk :: bytes

record full_viewing_key =
  fvk_ak :: verification_key
  fvk_nk :: nullifier_key
  fvk_ovk :: bytes
  fvk_ivk :: incoming_viewing_key

definition IVK_DOMAIN_SEP :: "crypto \<Rightarrow> fq" where
  "IVK_DOMAIN_SEP C = fq_mod_order C (ascii ''penumbra.derive.ivk'')"

definition fvk_from_components :: "crypto \<Rightarrow> verification_key \<Rightarrow> nullifier_key \<Rightarrow> full_viewing_key result" where
  "fvk_from_components C ak nk =
     (let hash_result = prf_expand C ''Penumbra_ExpndVK'' (fq_to_bytes C nk) ak;
          ovk = slice 0 32 hash_result;
          dk = slice 32 64 hash_result in
      bindR (ok_or (Panic ''verification key is valid, so its byte encoding is a decaf377 s value'')
               (fq_from_bytes C ak)) (\<lambda>ak_s.
      let ivk_mod_q = poseidon_2 C (IVK_DOMAIN_SEP C) (nk, ak_s);
          ivk = fr_mod_order C (fq_to_bytes C ivk_mod_q)
      in Inr \<lparr>fvk_ak = ak, fvk_nk = nk, fvk_ovk = ovk, fvk_ivk = \<lparr>ivk_secret = ivk, ivk_dk = dk\<rparr>\<rparr>))"

definition fvk_derive_nullifier :: "crypto \<Rightarrow> full_viewing_key \<Rightarrow> u64 \<Rightarrow> fq \<Rightarrow> fq" where
  "fvk_derive_nullifier C k pos cm = derive_nullifier C (fvk_nk k) pos cm"

definition fvk_hash :: "crypto \<Rightarrow> full_viewing_key \<Rightarrow> bytes" where
  "fvk_hash C k = take 32 (prf_expand C ''Penumbra_HashFVK'' (fq_to_bytes C (fvk_nk k)) (fvk_ak k))"

definition fvk_of_proto :: "crypto \<Rightarrow> bytes \<Rightarrow> full_viewing_key result" where
  "fvk_of_proto C inner =
     bindR (ensure (Err ''Wrong byte length, expected 64'') (length inner = 64)) (\<lambda>_.
     bindR (ok_or (Err ''MalformedVerificationKey'') (vk_parse C (slice 0 32 inner))) (\<lambda>ak.
     bindR (ok_or (Err ''could not deserialize nullifier key'') (fq_from_bytes C (slice 32 64 inner))) (\<lambda>nk.
     fvk_from_components C ak nk)))"

definition fvk_to_proto :: "crypto \<Rightarrow> full_viewing_key \<Rightarrow> bytes" where
  "fvk_to_proto C k = fvk_ak k @ fq_to_bytes C (fvk_nk k)"

definition fvk_to_string :: "crypto \<Rightarrow> full_viewing_key \<Rightarrow> string" where
  "fvk_to_string C k = bech32str_encode C (fvk_to_proto C k) ''penumbrafullviewingkey''"

definition fvk_of_string :: "crypto \<Rightarrow> string \<Rightarrow> full_viewing_key result" where
  "fvk_of_string C s = bindR (bech32str_decode C s ''penumbrafullviewingkey'') (fvk_of_proto C)"

section \<open>Addresses\<close>

record address =
  ad_d :: diversifier
  ad_g_d :: element
  ad_pk_d :: ka_public
  ad_cached_s :: fq
  ad_ck_d :: clue_key

definition address_from_components :: "crypto \<Rightarrow> diversifier \<Rightarrow> element \<Rightarrow> ka_public \<Rightarrow> clue_key \<Rightarrow> address option" where
  "address_from_components C d g_d pk_d ck_d =
     (case fq_from_bytes C pk_d of
        Some cached_s \<Rightarrow> Some \<lparr>ad_d = d, ad_g_d = g_d, ad_pk_d = pk_d, ad_cached_s = cached_s, ad_ck_d = ck_d\<rparr>
      | None \<Rightarrow> None)"

definition payment_address :: "crypto \<Rightarrow> incoming_viewing_key \<Rightarrow> diversifier_index \<Rightarrow> (address \<times> detection_key) result" where
  "payment_address C k index =
     (let d = diversifier_for_index C (ivk_dk k) index;
          g_d = diversified_generator C d;
          pk_d = diversified_public C (ivk_secret k) g_d;
          dtk_d = detection_key_from_field C (fr_mod_order C
            (prf_expand C ''PenumbraExpndFMD'' (ka_secret_to_bytes C (ivk_secret k)) d));
          ck_d = clue_key_of C dtk_d in
      bindR (ok_or (Panic ''pk_d is valid'') (address_from_components C d g_d pk_d ck_d)) (\<lambda>a.
      Inr (a, dtk_d)))"

definition ADDR_PADDING :: bytes where
  "ADDR_PADDING = ascii ''pen00''"

definition address_to_proto :: "crypto \<Rightarrow> address \<Rightarrow> bytes result" where
  "address_to_proto C a =
     ok_or (Panic ''can jumble'') (f4jumble C (ad_d a @ ad_pk_d a @ ad_ck_d a @ ADDR_PADDING))"

text \<open>\<open>Cursor::read_exact\<close>: the next \<open>n\<close> bytes, an error if there are fewer.\<close>

definition read_exact :: "nat \<Rightarrow> bytes \<Rightarrow> (bytes \<times> bytes) result" where
  "read_exact n b = (if length b < n then Inl (Err ''failed to fill whole buffer'') else Inr (take n b, drop n b))"

definition address_of_proto :: "crypto \<Rightarrow> bytes \<Rightarrow> address result" where
  "address_of_proto C inner =
     bindR (ok_or (Err ''invalid address'') (f4jumble_inv C inner)) (\<lambda>b.
     bindR (read_exact 11 b) (\<lambda>(d, b).
     bindR (read_exact 32 b) (\<lambda>(pk_d, b).
     bindR (read_exact 32 b) (\<lambda>(ck_d, b).
     bindR (read_exact 5 b) (\<lambda>(padding, b).
     bindR (ensure (Err ''invalid address'') (padding = ADDR_PADDING)) (\<lambda>_.
     ok_or (Err ''invalid address'') (address_from_components C d (diversified_generator C d) pk_d ck_d)))))))"

definition address_to_string :: "crypto \<Rightarrow> address \<Rightarrow> string result" where
  "address_to_string C a = bindR (address_to_proto C a) (\<lambda>b. Inr (bech32str_encode C b ''penumbrav1t''))"

definition address_of_string :: "crypto \<Rightarrow> string \<Rightarrow> address result" where
  "address_of_string C s = bindR (bech32str_decode C s ''penumbrav1t'') (address_of_proto C)"

definition parse_v0_testnet_address :: "crypto \<Rightarrow> string \<Rightarrow> address result" where
  "parse_v0_testnet_address C s =
     bindR (bech32str_decode C s ''penumbrav0t'') (\<lambda>b.
     bindR (read_exact 11 b) (\<lambda>(d, b).
     bindR (read_exact 32 b) (\<lambda>(pk_d, b).
     bindR (read_exact 32 b) (\<lambda>(ck_d, b).
     ok_or (Err ''invalid address'') (address_from_components C d (diversified_generator C d) pk_d ck_d)))))"

section \<open>Spend keys\<close>

record spend_key =
  sk_seed :: bytes
  sk_ask :: signing_key
  sk_fvk :: full_viewing_key

text \<open>\<open>From<SpendSeed>\<close>; \<open>SpendSeed\<close> is an array of 32 bytes.\<close>

definition spend_key_new :: "crypto \<Rightarrow> bytes \<Rightarrow> spend_key result" where
  "spend_key_new C seed =
     (let ask = prf_expand_fr C ''Penumbra_ExpndSd'' seed [0];
          nk = prf_expand_fq C ''Penumbra_ExpndSd'' seed [1] in
      bindR (fvk_from_components C (vk_spend_auth C ask) nk) (\<lambda>fvk.
      Inr \<lparr>sk_seed = seed, sk_ask = ask, sk_fvk = fvk\<rparr>))"

definition spend_seed_of_slice :: "bytes \<Rightarrow> bytes result" where
  "spend_seed_of_slice b = ok_or (Err ''spendseed must be 32 bytes'') (array 32 b)"

section \<open>Properties of addresses\<close>

text \<open>What the constructors of \<open>Address\<close> ensure: the array lengths and the two cached values.\<close>

definition address_ok :: "crypto \<Rightarrow> address \<Rightarrow> bool" where
  "address_ok C a \<longleftrightarrow> length (ad_d a) = 11 \<and> length (ad_pk_d a) = 32 \<and> length (ad_ck_d a) = 32
     \<and> ad_g_d a = diversified_generator C (ad_d a) \<and> fq_from_bytes C (ad_pk_d a) = Some (ad_cached_s a)"

lemma address_ok_payment:
  assumes "payment_address C k i = Inr (a, dtk)" and "ff1_ok C" and "encoding_ok C" and "length i = 11"
  shows "address_ok C a"
  using assms(1,2,4) encoding_laws [OF assms(3)]
  by (auto simp: payment_address_def Let_def result_simps address_from_components_def address_ok_def
      diversifier_for_index_def ff1_ok_def diversified_public_def clue_key_of_def split: option.splits)

text \<open>An incoming viewing key has an address at every index, and finds the index again.\<close>

lemma payment_address_total:
  assumes "encoding_ok C"
  obtains a where "payment_address C k i = Inr (a, detection_key_from_field C (fr_mod_order C
      (prf_expand C ''PenumbraExpndFMD'' (ka_secret_to_bytes C (ivk_secret k)) (diversifier_for_index C (ivk_dk k) i))))"
    and "ad_d a = diversifier_for_index C (ivk_dk k) i"
    and "ad_g_d a = diversified_generator C (ad_d a)"
    and "ad_pk_d a = diversified_public C (ivk_secret k) (ad_g_d a)"
  using encoding_laws [OF assms]
  by (auto simp: payment_address_def Let_def address_from_components_def diversified_public_def)

lemma address_string_roundtrip:
  assumes "text_ok C" and "address_ok C a"
  shows "\<exists>s. address_to_string C a = Inr s \<and> address_of_string C s = Inr a"
proof -
  define b where "b = ad_d a @ ad_pk_d a @ ad_ck_d a @ ADDR_PADDING"
  have "length b = 80" using assms(2) by (simp add: b_def address_ok_def ADDR_PADDING_def ascii_def)
  then have "48 \<le> length b \<and> length b \<le> 4194368" by simp
  then obtain j where j: "f4jumble C b = Some j" "f4jumble_inv C j = Some b"
    using assms(1) unfolding text_ok_def by blast
  have "address_of_proto C j = Inr a"
    using assms(2) by (simp add: address_of_proto_def j b_def read_exact_def address_ok_def ADDR_PADDING_def ascii_def
        address_from_components_def)
  with j show ?thesis
    by (simp add: address_to_string_def address_to_proto_def b_def [symmetric] address_of_string_def
        bech32str_roundtrip [OF assms(1)])
qed

text \<open>
  The address of an incoming viewing key at an index reads back from its text, is detected by the
  detection key returned with it, and its diversifier leads back to the index.
\<close>

lemma payment_address_roundtrip:
  assumes "encoding_ok C" and "ff1_ok C" and "text_ok C"
  shows "\<exists>a dtk s. payment_address C k (diversifier_index_of_u64 n) = Inr (a, dtk)
    \<and> address_to_string C a = Inr s \<and> address_of_string C s = Inr a
    \<and> clue_key_of C dtk = ad_ck_d a
    \<and> u64_of_diversifier_index (index_for_diversifier C (ivk_dk k) (ad_d a)) = Inr n"
proof -
  let ?i = "diversifier_index_of_u64 n"
  obtain a dtk where a: "payment_address C k ?i = Inr (a, dtk)" and d: "ad_d a = diversifier_for_index C (ivk_dk k) ?i"
    by (rule payment_address_total [OF assms(1)])
  have li: "length ?i = 11" by (simp add: diversifier_index_of_u64_def)
  have ok: "address_ok C a" using address_ok_payment [OF a assms(2,1) li] .
  have "\<exists>s. address_to_string C a = Inr s \<and> address_of_string C s = Inr a"
    by (rule address_string_roundtrip [OF assms(3) ok])
  moreover have "index_for_diversifier C (ivk_dk k) (ad_d a) = ?i"
    using assms(2) li by (simp add: d diversifier_for_index_def index_for_diversifier_def ff1_ok_def)
  moreover have "clue_key_of C dtk = ad_ck_d a"
    using a by (auto simp: payment_address_def Let_def result_simps address_from_components_def split: option.splits)
  ultimately show ?thesis using a u64_of_diversifier_index_of by auto
qed

text \<open>A full viewing key reads back from its text.\<close>

lemma fvk_string_roundtrip:
  assumes "encoding_ok C" and "text_ok C" and "fvk_from_components C ak nk = Inr k"
    and "vk_parse C ak = Some ak" and "length ak = 32"
  shows "fvk_of_string C (fvk_to_string C k) = Inr k"
proof -
  have "fvk_ak k = ak" "fvk_nk k = nk"
    using assms(3) by (auto simp: fvk_from_components_def Let_def result_simps)
  then show ?thesis
    using assms by (simp add: fvk_of_string_def fvk_to_string_def bech32str_roundtrip fvk_of_proto_def
        fvk_to_proto_def encoding_laws slice_simps)
qed

end
