(* ===== verification/Validator.thy ===== *)
theory Validator
  imports Keys
begin

text \<open>
  The validator data of the crate \<open>stake\<close>: the validator state machine's states with
  their protobuf form (\<open>stake/src/validator/state.rs\<close>, \<open>status.rs\<close>), funding streams
  (\<open>stake/src/funding_stream.rs\<close>) and validator definitions (\<open>stake/src/validator.rs\<close>).
\<close>

section \<open>Validator states\<close>

datatype validator_state = Inactive | Active | Unbonding u64 | Slashed

text \<open>The protobuf message: an \<open>i32\<close> enum value and an optional epoch.\<close>

record validator_state_pb =
  pb_state :: int
  pb_unbonding_epoch :: "u64 option"

definition validator_state_to_proto :: "validator_state \<Rightarrow> validator_state_pb" where
  "validator_state_to_proto v =
     \<lparr>pb_state = (case v of Inactive \<Rightarrow> 0 | Active \<Rightarrow> 1 | Unbonding _ \<Rightarrow> 2 | Slashed \<Rightarrow> 3),
      pb_unbonding_epoch = (case v of Unbonding e \<Rightarrow> Some e | _ \<Rightarrow> None)\<rparr>"

definition validator_state_of_proto :: "validator_state_pb \<Rightarrow> validator_state result" where
  "validator_state_of_proto p =
     (if pb_state p = 0 then Inr Inactive
      else if pb_state p = 1 then Inr Active
      else if pb_state p = 2 then
        bindR (ok_or (Err ''missing unbonding epoch'') (pb_unbonding_epoch p)) (\<lambda>e. Inr (Unbonding e))
      else if pb_state p = 3 then Inr Slashed
      else Inl (Err ''missing validator state''))"

lemma validator_state_of_to_proto:
  "validator_state_of_proto (validator_state_to_proto v) = Inr v"
  by (cases v) (simp_all add: validator_state_of_proto_def validator_state_to_proto_def)

lemma validator_state_of_proto_image:
  "validator_state_of_proto p = Inr v \<Longrightarrow> pb_state p = pb_state (validator_state_to_proto v)"
  by (auto simp: validator_state_of_proto_def validator_state_to_proto_def result_simps
      split: if_splits)

record validator_status =
  st_identity_key :: identity_key
  st_voting_power :: u64
  st_state :: validator_state

section \<open>Funding streams\<close>

record funding_stream =
  fs_address :: address
  fs_rate_bps :: u16

record funding_stream_pb =
  fspb_address :: string
  fspb_rate_bps :: u32

definition funding_stream_to_proto :: "crypto \<Rightarrow> funding_stream \<Rightarrow> funding_stream_pb result" where
  "funding_stream_to_proto C fs =
     bindR (address_to_string C (fs_address fs)) (\<lambda>a.
     Inr \<lparr>fspb_address = a, fspb_rate_bps = ucast (fs_rate_bps fs)\<rparr>)"

definition funding_stream_of_proto :: "crypto \<Rightarrow> funding_stream_pb \<Rightarrow> funding_stream result" where
  "funding_stream_of_proto C fs =
     (if fspb_rate_bps fs \<le> 10000 then
        bindR (address_of_string C (fspb_address fs)) (\<lambda>a.
          Inr \<lparr>fs_address = a, fs_rate_bps = ucast (fspb_rate_bps fs)\<rparr>)
      else Inl (Err ''rate_bps is more than 100%''))"

text \<open>
  \<open>TryFrom<Vec<FundingStream>> for FundingStreams\<close>: the sum is taken at width 16,
  so it wraps.
\<close>

definition sum_u16 :: "funding_stream list \<Rightarrow> u16" where
  "sum_u16 fss = sum_list (map fs_rate_bps fss)"

definition funding_streams_try_from :: "funding_stream list \<Rightarrow> funding_stream list result" where
  "funding_streams_try_from fss =
     (if sum_u16 fss > 10000 then Inl (Err ''sum of funding rates exceeds 100% (10000bps)'')
      else Inr fss)"

text \<open>The commission the streams really add up to.\<close>

definition total_bps :: "funding_stream list \<Rightarrow> nat" where
  "total_bps fss = sum_list (map (\<lambda>fs. unat (fs_rate_bps fs)) fss)"

lemma total_bps_simps [simp]:
  "total_bps [] = 0" "total_bps (fs # fss) = unat (fs_rate_bps fs) + total_bps fss"
  by (simp_all add: total_bps_def)

lemma unat_sum_u16: "unat (sum_u16 fss) = total_bps fss mod 2 ^ 16"
  by (induction fss) (simp_all add: sum_u16_def unat_word_ariths mod_simps)

lemma total_bps_bound:
  "(\<And>fs. fs \<in> set fss \<Longrightarrow> unat (fs_rate_bps fs) \<le> 10000) \<Longrightarrow> total_bps fss \<le> length fss * 10000"
proof (induction fss)
  case Nil
  then show ?case by simp
next
  case (Cons fs fss)
  have "unat (fs_rate_bps fs) \<le> 10000" using Cons.prems by simp
  moreover have "total_bps fss \<le> length fss * 10000" using Cons by simp
  ultimately show ?case by simp
qed

text \<open>
  With at most six funding streams, each of at most 100% (as the protobuf parser ensures), the
  check of their sum is exact: the list is accepted if and only if the commissions add up to at most
  10000 basis points.
\<close>

theorem funding_streams_check_exact:
  assumes "length fss \<le> 6" and "\<And>fs. fs \<in> set fss \<Longrightarrow> unat (fs_rate_bps fs) \<le> 10000"
  shows "funding_streams_try_from fss = Inr fss \<longleftrightarrow> total_bps fss \<le> 10000"
proof -
  have "total_bps fss \<le> 60000"
    using total_bps_bound [OF assms(2)] assms(1) by fastforce
  then have "unat (sum_u16 fss) = total_bps fss" by (simp add: unat_sum_u16)
  then show ?thesis
    by (auto simp: funding_streams_try_from_def word_less_nat_alt)
qed

text \<open>
  beyond six streams the check can be passed with commissions over 100%: the sum is taken in
  sixteen bits and wraps, so seven streams of 100% each are accepted although they add up to 70000
  basis points.
\<close>

theorem funding_streams_wrap:
  "funding_streams_try_from (replicate 7 \<lparr>fs_address = a, fs_rate_bps = 10000\<rparr>)
     = Inr (replicate 7 \<lparr>fs_address = a, fs_rate_bps = 10000\<rparr>)
   \<and> total_bps (replicate 7 \<lparr>fs_address = a, fs_rate_bps = 10000\<rparr>) = 70000"
  by (simp add: funding_streams_try_from_def sum_u16_def total_bps_def sum_list_replicate word_less_nat_alt)

lemma funding_stream_of_proto_bound:
  "funding_stream_of_proto C p = Inr fs \<Longrightarrow> unat (fs_rate_bps fs) \<le> 10000"
proof -
  assume a: "funding_stream_of_proto C p = Inr fs"
  then have le: "unat (fspb_rate_bps p) \<le> 10000"
    by (auto simp: funding_stream_of_proto_def word_le_nat_alt split: if_splits)
  from a have "fs_rate_bps fs = ucast (fspb_rate_bps p)"
    by (auto simp: funding_stream_of_proto_def result_simps split: if_splits)
  then have "unat (fs_rate_bps fs) = unat (fspb_rate_bps p) mod 2 ^ 16"
    by (simp add: unsigned_ucast_eq take_bit_eq_mod)
  with le show ?thesis by simp
qed

lemma funding_stream_proto_roundtrip:
  assumes "encoding_ok C" and "text_ok C" and "address_ok C (fs_address fs)" and "unat (fs_rate_bps fs) \<le> 10000"
  shows "bindR (funding_stream_to_proto C fs) (funding_stream_of_proto C) = Inr fs"
proof -
  have b: "unat (fs_rate_bps fs) < 2 ^ 16"
    using unsigned_less [of "fs_rate_bps fs", where 'a = nat] by simp
  then have u: "unat (ucast (fs_rate_bps fs) :: u32) = unat (fs_rate_bps fs)"
    by (simp add: unsigned_ucast_eq take_bit_nat_eq_self)
  moreover have "ucast (ucast (fs_rate_bps fs) :: u32) = fs_rate_bps fs"
    using order_less_le_trans [OF b, of "2 ^ 32"]
    by (simp add: word_unat_eq_iff unsigned_ucast_eq unsigned_take_bit_eq take_bit_nat_eq_self)
  moreover obtain s where "address_to_string C (fs_address fs) = Inr s" "address_of_string C s = Inr (fs_address fs)"
    using address_string_roundtrip [OF assms(2,3)] by blast
  ultimately show ?thesis
    using assms by (simp add: funding_stream_of_proto_def funding_stream_to_proto_def word_le_nat_alt)
qed

section \<open>Validator definitions\<close>

record validator =
  identity_key :: identity_key
  consensus_key :: public_key
  v_name :: string
  v_website :: string
  v_description :: string
  funding_streams :: "funding_stream list"
  sequence_number :: u32

end
