(* ===== verification/Rates.thy ===== *)
theory Rates
  imports Validator
begin

text \<open>
  Reward and exchange rates (\<open>stake/src/rate.rs\<close>) and the commission of a funding stream
  (\<open>FundingStream::reward_amount\<close>).  Rates are fixed-point numbers scaled by \<open>10\<^sup>8\<close>,
  penalties and commissions are basis points.
\<close>

record rate_data =
  rd_identity_key :: identity_key
  rd_epoch_index :: u64
  validator_reward_rate :: u64
  validator_exchange_rate :: u64

record base_rate_data =
  brd_epoch_index :: u64
  base_reward_rate :: u64
  base_exchange_rate :: u64

record delegate =
  d_validator_identity :: identity_key
  d_epoch_index :: u64
  d_unbonded_amount :: u64
  d_delegation_amount :: u64

record undelegate =
  u_validator_identity :: identity_key
  u_epoch_index :: u64
  u_unbonded_amount :: u64
  u_delegation_amount :: u64

section \<open>Operations\<close>

definition base_rate_next :: "base_rate_data \<Rightarrow> u64 \<Rightarrow> base_rate_data" where
  "base_rate_next r reward_rate =
     \<lparr>brd_epoch_index = brd_epoch_index r + 1,
      base_reward_rate = reward_rate,
      base_exchange_rate = (base_exchange_rate r * (reward_rate + 100000000)) div 100000000\<rparr>"

definition commission_rate_bps :: "funding_stream list \<Rightarrow> u64" where
  "commission_rate_bps fss = foldl (\<lambda>total fs. total + ucast (fs_rate_bps fs)) 0 fss"

definition rate_next ::
  "rate_data \<Rightarrow> base_rate_data \<Rightarrow> funding_stream list \<Rightarrow> validator_state \<Rightarrow> rate_data result" where
  "rate_next prev base fss vstate =
     (if vstate \<noteq> Active then Inr (prev\<lparr>rd_epoch_index := rd_epoch_index prev + 1\<rparr>)
      else
        (let commission = commission_rate_bps fss in
         if commission > 10000 then Inl (Panic ''commission rate sums to > 100%'')
         else
           (let reward = ((100000000 - commission * 10000) * base_reward_rate base) div 100000000;
                exchange = (validator_exchange_rate prev * (reward + 100000000)) div 100000000
            in Inr \<lparr>rd_identity_key = rd_identity_key prev,
                    rd_epoch_index = rd_epoch_index prev + 1,
                    validator_reward_rate = reward,
                    validator_exchange_rate = exchange\<rparr>)))"

definition delegation_amount :: "rate_data \<Rightarrow> u64 \<Rightarrow> u64 result" where
  "delegation_amount r unbonded =
     (if validator_exchange_rate r = 0 then Inl (Panic ''attempt to divide by zero'')
      else ok_or (Panic ''TryFromIntError'')
        (u64_of_u128 ((ucast unbonded * 100000000) div ucast (validator_exchange_rate r))))"

definition slash :: "rate_data \<Rightarrow> u64 \<Rightarrow> rate_data" where
  "slash r penalty_bps = r\<lparr>validator_exchange_rate :=
     saturating_sub (validator_exchange_rate r)
       ((validator_exchange_rate r * penalty_bps) div 10000)\<rparr>"

definition unbonded_amount :: "rate_data \<Rightarrow> u64 \<Rightarrow> u64 result" where
  "unbonded_amount r delegation =
     ok_or (Panic ''TryFromIntError'')
       (u64_of_u128 ((ucast delegation * ucast (validator_exchange_rate r)) div 100000000))"

definition voting_power :: "rate_data \<Rightarrow> u64 \<Rightarrow> base_rate_data \<Rightarrow> u64 result" where
  "voting_power r total_delegation_tokens base =
     (if base_exchange_rate base = 0 then Inl (Panic ''attempt to divide by zero'')
      else ok_or (Panic ''TryFromIntError'')
        (u64_of_u128 ((ucast total_delegation_tokens * ucast (validator_exchange_rate r))
           div ucast (base_exchange_rate base))))"

definition build_delegate :: "rate_data \<Rightarrow> u64 \<Rightarrow> delegate result" where
  "build_delegate r unbonded =
     bindR (delegation_amount r unbonded) (\<lambda>d.
       Inr \<lparr>d_validator_identity = rd_identity_key r, d_epoch_index = rd_epoch_index r,
            d_unbonded_amount = unbonded, d_delegation_amount = d\<rparr>)"

definition build_undelegate :: "rate_data \<Rightarrow> u64 \<Rightarrow> undelegate result" where
  "build_undelegate r delegation =
     bindR (unbonded_amount r delegation) (\<lambda>u.
       Inr \<lparr>u_validator_identity = rd_identity_key r, u_epoch_index = rd_epoch_index r,
            u_unbonded_amount = u, u_delegation_amount = delegation\<rparr>)"

definition reward_amount ::
  "funding_stream \<Rightarrow> u64 \<Rightarrow> base_rate_data \<Rightarrow> base_rate_data \<Rightarrow> u64 result" where
  "reward_amount fs total_delegation_tokens base prev =
     (if brd_epoch_index prev \<noteq> brd_epoch_index base - 1
      then Inl (Panic ''wrong base rate data for previous epoch'')
      else
        (let r0 = (ucast total_delegation_tokens * (ucast (fs_rate_bps fs) * 10000)) div 100000000 :: u128;
             r1 = (r0 * ucast (base_reward_rate base)) div 100000000;
             r2 = (r1 * ucast (base_exchange_rate prev)) div 100000000
         in Inr (ucast r2)))"

section \<open>Exact readings\<close>

lemma unat_commission:
  "total_bps fss < 2 ^ 64 \<Longrightarrow> unat (commission_rate_bps fss) = total_bps fss"
proof -
  assume b: "total_bps fss < 2 ^ 64"
  have u: "unat (ucast w :: u64) = unat w" for w :: u16
    using unsigned_less [of w, where 'a = nat]
    by (simp add: unsigned_ucast_eq take_bit_nat_eq_self)
  have "unat (foldl (\<lambda>t fs. t + ucast (fs_rate_bps fs)) a fss) = unat a + total_bps fss"
    if "unat a + total_bps fss < 2 ^ 64" for a :: u64
    using that
  proof (induction fss arbitrary: a)
    case Nil
    then show ?case by simp
  next
    case (Cons fs fss)
    have e: "unat (a + ucast (fs_rate_bps fs)) = unat a + unat (fs_rate_bps fs)"
      using Cons.prems by (subst unat_plus_exact) (simp_all add: u)
    have "unat (a + ucast (fs_rate_bps fs)) + total_bps fss < 2 ^ 64"
      using Cons.prems by (simp add: e)
    from Cons.IH [OF this] show ?case by (simp add: e)
  qed
  from this [of 0] b show ?thesis by (simp add: commission_rate_bps_def)
qed

text \<open>The arithmetic of \<open>RateData::next\<close> for an active validator, below overflow.\<close>

definition no_overflow :: "rate_data \<Rightarrow> base_rate_data \<Rightarrow> bool" where
  "no_overflow r base \<longleftrightarrow>
     10 ^ 8 * unat (base_reward_rate base) < 2 ^ 64 \<and>
     unat (validator_exchange_rate r) * (unat (base_reward_rate base) + 10 ^ 8) < 2 ^ 64"

lemma unat_reward:
  assumes c: "unat c \<le> 10000" and b: "10 ^ 8 * unat b < 2 ^ 64"
  shows "unat (((100000000 - c * 10000) * b) div 100000000 :: u64)
    = (10 ^ 8 - unat c * 10 ^ 4) * unat b div 10 ^ 8"
proof -
  have c4: "unat (c * 10000) = unat c * 10 ^ 4"
    using c by (subst unat_times_exact) simp_all
  have m: "unat (100000000 - c * 10000 :: u64) = 10 ^ 8 - unat c * 10 ^ 4"
    using c c4 by (subst unat_minus_exact) simp_all
  have "(10 ^ 8 - unat c * 10 ^ 4) * unat b \<le> 10 ^ 8 * unat b" by simp
  then have "(10 ^ 8 - unat c * 10 ^ 4) * unat b < 2 ^ 64" using b by (rule order_le_less_trans)
  then have "unat ((100000000 - c * 10000) * b) = (10 ^ 8 - unat c * 10 ^ 4) * unat b"
    using unat_times_exact [of "100000000 - c * 10000" b] by (simp add: m)
  then show ?thesis by (simp add: unat_div)
qed

lemma unat_exchange:
  assumes "unat x * (unat r + 10 ^ 8) < 2 ^ 64"
  shows "unat ((x * (r + 100000000)) div 100000000 :: u64) = unat x * (unat r + 10 ^ 8) div 10 ^ 8"
proof (cases "unat x = 0")
  case True
  then have "x = 0" by (simp add: unat_eq_0)
  then show ?thesis by simp
next
  case False
  then have "unat r + 10 ^ 8 \<le> unat x * (unat r + 10 ^ 8)" by simp
  then have "unat r + 10 ^ 8 < 2 ^ 64" using assms by (rule order_le_less_trans)
  then have p: "unat (r + 100000000) = unat r + 10 ^ 8"
    using unat_plus_exact [of r 100000000] by simp
  have "unat (x * (r + 100000000)) = unat x * (unat r + 10 ^ 8)"
    using assms unat_times_exact [of x "r + 100000000"] by (simp add: p)
  then show ?thesis by (simp add: unat_div)
qed

text \<open>\<open>RateData::next\<close> on an active validator: exact values and growth.\<close>

lemma rate_next_active_exact:
  assumes c: "total_bps fss \<le> 10000" and no: "no_overflow r base"
  shows "\<exists>r'. rate_next r base fss Active = Inr r'
    \<and> unat (validator_reward_rate r')
        = (10 ^ 8 - total_bps fss * 10 ^ 4) * unat (base_reward_rate base) div 10 ^ 8
    \<and> unat (validator_exchange_rate r')
        = unat (validator_exchange_rate r) * (unat (validator_reward_rate r') + 10 ^ 8) div 10 ^ 8
    \<and> rd_epoch_index r' = rd_epoch_index r + 1 \<and> rd_identity_key r' = rd_identity_key r"
proof -
  let ?c = "commission_rate_bps fss" and ?b = "base_reward_rate base"
  let ?x = "validator_exchange_rate r"
  have uc: "unat ?c = total_bps fss" using c by (intro unat_commission) simp
  have uc_le: "unat ?c \<le> 10000" using c uc by simp
  define rr :: u64 where "rr = ((100000000 - ?c * 10000) * ?b) div 100000000"
  have nb: "10 ^ 8 * unat ?b < 2 ^ 64" using no by (simp add: no_overflow_def)
  have urr: "unat rr = (10 ^ 8 - total_bps fss * 10 ^ 4) * unat ?b div 10 ^ 8"
    unfolding rr_def using unat_reward [OF uc_le nb] uc by simp
  have rr_le: "unat rr \<le> unat ?b"
  proof -
    have "(10 ^ 8 - total_bps fss * 10 ^ 4) * unat ?b \<le> 10 ^ 8 * unat ?b" by simp
    then show ?thesis unfolding urr using div_le_mono [of _ "10 ^ 8 * unat ?b" "10 ^ 8"] by fastforce
  qed
  have "unat ?x * (unat rr + 10 ^ 8) \<le> unat ?x * (unat ?b + 10 ^ 8)"
    using rr_le by simp
  then have "unat ?x * (unat rr + 10 ^ 8) < 2 ^ 64"
    using no unfolding no_overflow_def by (meson order_le_less_trans)
  note ux = unat_exchange [OF this]
  have "\<not> 10000 < ?c" using uc_le by (simp add: word_less_nat_alt)
  then have "rate_next r base fss Active = Inr \<lparr>rd_identity_key = rd_identity_key r,
      rd_epoch_index = rd_epoch_index r + 1, validator_reward_rate = rr,
      validator_exchange_rate = (?x * (rr + 100000000)) div 100000000\<rparr>"
    by (simp add: rate_next_def Let_def rr_def)
  with ux urr show ?thesis by simp
qed

lemma rate_next_grows:
  assumes "total_bps fss \<le> 10000" and "no_overflow r base" and "rate_next r base fss Active = Inr r'"
  shows "validator_exchange_rate r \<le> validator_exchange_rate r' \<and> validator_reward_rate r' \<le> base_reward_rate base"
proof -
  have rr: "unat (validator_reward_rate r') = (10 ^ 8 - total_bps fss * 10 ^ 4) * unat (base_reward_rate base) div 10 ^ 8"
    and x: "unat (validator_exchange_rate r')
        = unat (validator_exchange_rate r) * (unat (validator_reward_rate r') + 10 ^ 8) div 10 ^ 8"
    using rate_next_active_exact [OF assms(1,2)] assms(3) by auto
  have "unat (validator_exchange_rate r) * 10 ^ 8 div 10 ^ 8 \<le> unat (validator_exchange_rate r')"
    unfolding x by (rule div_le_mono) simp
  moreover have "unat (validator_reward_rate r') \<le> 10 ^ 8 * unat (base_reward_rate base) div 10 ^ 8"
    unfolding rr by (rule div_le_mono) simp
  ultimately show ?thesis by (simp add: word_le_nat_alt)
qed

text \<open>The same computation with the wrap-around of \<open>u64\<close> products.\<close>

lemma unat_reward_wraps:
  assumes "unat c \<le> 10000"
  shows "unat (((100000000 - c * 10000) * b) div 100000000 :: u64)
    = (10 ^ 8 - unat c * 10 ^ 4) * unat b mod 2 ^ 64 div 10 ^ 8"
proof -
  have c4: "unat (c * 10000) = unat c * 10 ^ 4"
    using assms by (subst unat_times_exact) simp_all
  have m: "unat (100000000 - c * 10000 :: u64) = 10 ^ 8 - unat c * 10 ^ 4"
    using assms c4 by (subst unat_minus_exact) simp_all
  have "unat ((100000000 - c * 10000) * b) = (10 ^ 8 - unat c * 10 ^ 4) * unat b mod 2 ^ 64"
    unfolding unat_word_ariths(2) m by simp
  then show ?thesis by (simp add: unat_div)
qed

lemma unat_exchange_wraps:
  assumes "unat r \<le> 2 ^ 64 div 10 ^ 8"
  shows "unat ((x * (r + 100000000)) div 100000000 :: u64) = unat x * (unat r + 10 ^ 8) mod 2 ^ 64 div 10 ^ 8"
proof -
  have p: "unat (r + 100000000) = unat r + 10 ^ 8" using assms by (subst unat_plus_exact) simp_all
  have "unat (x * (r + 100000000)) = unat x * (unat r + 10 ^ 8) mod 2 ^ 64"
    unfolding unat_word_ariths(2) p by simp
  then show ?thesis by (simp add: unat_div)
qed

lemma rate_next_inactive:
  "vstate \<noteq> Active \<Longrightarrow> rate_next r base fss vstate = Inr (r\<lparr>rd_epoch_index := rd_epoch_index r + 1\<rparr>)"
  by (simp add: rate_next_def)

text \<open>
  C36: the rates of a validator for the next epoch, in every case.  A validator that is not active keeps its rates.
  For an active one with commissions over 100% the computation panics.  Otherwise the reward rate is the base reward
  rate less the commission and the exchange rate grows by the reward rate, each product taken modulo \<open>2\<^sup>6\<^sup>4\<close>
  and the quotient rounded down.  If the products stay below \<open>2\<^sup>6\<^sup>4\<close>, the exchange rate does not
  decrease and the reward is not above the base reward.
\<close>

theorem rate_next_exact:
  assumes "total_bps fss < 2 ^ 64"
  shows "(vstate \<noteq> Active \<longrightarrow> rate_next r base fss vstate = Inr (r\<lparr>rd_epoch_index := rd_epoch_index r + 1\<rparr>))
    \<and> (10000 < total_bps fss \<longrightarrow> (\<exists>m. rate_next r base fss Active = Inl (Panic m)))
    \<and> (total_bps fss \<le> 10000 \<longrightarrow> (\<exists>r'. rate_next r base fss Active = Inr r'
        \<and> unat (validator_reward_rate r')
            = (10 ^ 8 - total_bps fss * 10 ^ 4) * unat (base_reward_rate base) mod 2 ^ 64 div 10 ^ 8
        \<and> unat (validator_exchange_rate r')
            = unat (validator_exchange_rate r) * (unat (validator_reward_rate r') + 10 ^ 8) mod 2 ^ 64 div 10 ^ 8
        \<and> (no_overflow r base \<longrightarrow> validator_exchange_rate r \<le> validator_exchange_rate r'
            \<and> validator_reward_rate r' \<le> base_reward_rate base)
        \<and> rd_epoch_index r' = rd_epoch_index r + 1 \<and> rd_identity_key r' = rd_identity_key r))"
proof (intro conjI impI)
  have uc: "unat (commission_rate_bps fss) = total_bps fss" by (rule unat_commission [OF assms])
  show "rate_next r base fss vstate = Inr (r\<lparr>rd_epoch_index := rd_epoch_index r + 1\<rparr>)" if "vstate \<noteq> Active"
    using that by (rule rate_next_inactive)
  show "\<exists>m. rate_next r base fss Active = Inl (Panic m)" if "10000 < total_bps fss"
    using that uc by (simp add: rate_next_def word_less_nat_alt Let_def)
  let ?r = "(100000000 - commission_rate_bps fss * 10000) * base_reward_rate base div 100000000"
  assume c: "total_bps fss \<le> 10000"
  then have run: "rate_next r base fss Active = Inr \<lparr>rd_identity_key = rd_identity_key r, rd_epoch_index = rd_epoch_index r + 1,
      validator_reward_rate = ?r, validator_exchange_rate = validator_exchange_rate r * (?r + 100000000) div 100000000\<rparr>"
    using uc by (simp add: rate_next_def word_less_nat_alt Let_def)
  have ur: "unat ?r = (10 ^ 8 - total_bps fss * 10 ^ 4) * unat (base_reward_rate base) mod 2 ^ 64 div 10 ^ 8"
    using unat_reward_wraps [of "commission_rate_bps fss"] uc c by simp
  have "unat ?r \<le> 2 ^ 64 div 10 ^ 8" unfolding ur by (intro div_le_mono less_imp_le) simp
  note ux = unat_exchange_wraps [OF this, of "validator_exchange_rate r"]
  have grow: "validator_exchange_rate r \<le> validator_exchange_rate r' \<and> validator_reward_rate r' \<le> base_reward_rate base"
    if "no_overflow r base" "rate_next r base fss Active = Inr r'" for r'
    using rate_next_grows [OF c that] .
  show "\<exists>r'. rate_next r base fss Active = Inr r'
        \<and> unat (validator_reward_rate r')
            = (10 ^ 8 - total_bps fss * 10 ^ 4) * unat (base_reward_rate base) mod 2 ^ 64 div 10 ^ 8
        \<and> unat (validator_exchange_rate r')
            = unat (validator_exchange_rate r) * (unat (validator_reward_rate r') + 10 ^ 8) mod 2 ^ 64 div 10 ^ 8
        \<and> (no_overflow r base \<longrightarrow> validator_exchange_rate r \<le> validator_exchange_rate r'
            \<and> validator_reward_rate r' \<le> base_reward_rate base)
        \<and> rd_epoch_index r' = rd_epoch_index r + 1 \<and> rd_identity_key r' = rd_identity_key r"
    using run ur ux grow [OF _ run] by simp
qed

text \<open>
  The product wraps once the exchange rate has grown by a factor of about 1844, and the rate falls to
  zero.
\<close>

lemma exchange_rate_wraps:
  assumes "validator_exchange_rate r = 184467440738" and "base_reward_rate base = 0"
  shows "\<exists>r'. rate_next r base [] Active = Inr r' \<and> validator_exchange_rate r' = 0"
  using assms by (simp add: rate_next_def commission_rate_bps_def Let_def)

lemma rate_next_epoch_index:
  "rate_next r base fss vstate = Inr r' \<Longrightarrow>
     rd_epoch_index r' = rd_epoch_index r + 1 \<and> rd_identity_key r' = rd_identity_key r"
  by (auto simp: rate_next_def Let_def split: if_splits)

lemma unat_base_rate_next:
  assumes "unat (base_exchange_rate r) * (unat b + 10 ^ 8) < 2 ^ 64"
  shows "unat (base_exchange_rate (base_rate_next r b))
    = unat (base_exchange_rate r) * (unat b + 10 ^ 8) div 10 ^ 8"
  using unat_exchange [OF assms] by (simp add: base_rate_next_def)

section \<open>Conversions between stake and delegation tokens\<close>

lemma unat_E8: "unat (100000000 :: u128) = 10 ^ 8"
  by simp

lemma unat_mult_E8: "unat (ucast (u :: u64) * 100000000 :: u128) = unat u * 10 ^ 8"
  using unat_mult_128 [of u 100000000] by simp

lemma delegation_amount_unat:
  "delegation_amount r u = Inr d \<longleftrightarrow>
     validator_exchange_rate r \<noteq> 0 \<and>
     unat d = unat u * 10 ^ 8 div unat (validator_exchange_rate r) \<and>
     unat u * 10 ^ 8 div unat (validator_exchange_rate r) < 2 ^ 64"
proof -
  define q where "q = (ucast u * 100000000 :: u128) div ucast (validator_exchange_rate r)"
  have q: "unat q = unat u * 10 ^ 8 div unat (validator_exchange_rate r)"
    unfolding q_def by (simp only: unat_div unat_mult_E8 unat_ucast_128)
  have "u64_of_u128 q = Some d \<longleftrightarrow> unat d = unat q \<and> unat q < 2 ^ 64"
    using u64_of_u128_eq [of q] u64_of_u128_None [of q] u64_of_u128_unat [of q]
    by (auto simp: word_unat_eq_iff unsigned_of_nat take_bit_nat_eq_self not_le)
  then show ?thesis
    unfolding delegation_amount_def q_def [symmetric] q [symmetric] by (auto simp: result_simps)
qed

lemma unbonded_amount_unat:
  "unbonded_amount r d = Inr u \<longleftrightarrow>
     unat u = unat d * unat (validator_exchange_rate r) div 10 ^ 8 \<and>
     unat d * unat (validator_exchange_rate r) div 10 ^ 8 < 2 ^ 64"
proof -
  define q where "q = (ucast d * ucast (validator_exchange_rate r) :: u128) div 100000000"
  have q: "unat q = unat d * unat (validator_exchange_rate r) div 10 ^ 8"
    unfolding q_def by (simp only: unat_div unat_mult_128 unat_E8)
  have "u64_of_u128 q = Some u \<longleftrightarrow> unat u = unat q \<and> unat q < 2 ^ 64"
    using u64_of_u128_eq [of q] u64_of_u128_None [of q] u64_of_u128_unat [of q]
    by (auto simp: word_unat_eq_iff unsigned_of_nat take_bit_nat_eq_self not_le)
  then show ?thesis
    unfolding unbonded_amount_def q_def [symmetric] q [symmetric] by (auto simp: result_simps)
qed

lemma voting_power_unat:
  assumes "base_exchange_rate base \<noteq> 0"
    and "unat t * unat (validator_exchange_rate r) div unat (base_exchange_rate base) < 2 ^ 64"
  shows "\<exists>p. voting_power r t base = Inr p
    \<and> unat p = unat t * unat (validator_exchange_rate r) div unat (base_exchange_rate base)"
proof -
  define q where "q = (ucast t * ucast (validator_exchange_rate r) :: u128) div ucast (base_exchange_rate base)"
  have q: "unat q = unat t * unat (validator_exchange_rate r) div unat (base_exchange_rate base)"
    unfolding q_def by (simp only: unat_div unat_mult_128 unat_ucast_128)
  have "u64_of_u128 q = Some (of_nat (unat q))"
    using assms(2) unfolding q [symmetric] by (rule u64_of_u128_eq)
  moreover have "unat (of_nat (unat q) :: u64) = unat q"
    using assms(2) unfolding q [symmetric] by (rule unat_of_nat_64)
  ultimately show ?thesis
    using assms(1) unfolding voting_power_def q_def [symmetric] q [symmetric] by simp
qed

text \<open>
  Delegating and undelegating at the same rate loses at most the rounding: the two floors
  lose less than one delegation token (\<open>rate / 10\<^sup>8\<close> stake) plus one unit.
\<close>

lemma floor_roundtrip:
  fixes u x E :: nat
  assumes "0 < x" and "0 < E"
  shows "(u * E div x) * x div E \<le> u" and "E * (u - (u * E div x) * x div E) < x + E"
proof -
  let ?d = "u * E div x"
  let ?u' = "?d * x div E"
  have dx: "?d * x \<le> u * E" by simp
  have "?u' \<le> u * E div E" using dx by (rule div_le_mono)
  then show le: "?u' \<le> u" using assms by simp
  have a: "u * E < ?d * x + x" using div_interval_lt [OF assms(1), of "u * E"] by simp
  have b: "?d * x < ?u' * E + E" using div_interval_lt [OF assms(2), of "?d * x"] by simp
  have "u * E < ?u' * E + E + x" using a b by linarith
  moreover have "E * (u - ?u') = u * E - ?u' * E" by (simp add: diff_mult_distrib2 mult.commute)
  moreover have "?u' * E \<le> u * E" using le by simp
  ultimately show "E * (u - ?u') < x + E" by linarith
qed

lemma unbonded_of_delegation:
  assumes "delegation_amount r u = Inr d"
  shows "\<exists>u'. unbonded_amount r d = Inr u' \<and> unat u' \<le> unat u
    \<and> 10 ^ 8 * (unat u - unat u') < unat (validator_exchange_rate r) + 10 ^ 8"
proof -
  let ?x = "unat (validator_exchange_rate r)"
  from assms have x: "0 < ?x" and d: "unat d = unat u * 10 ^ 8 div ?x"
    by (auto simp: delegation_amount_unat unat_gt_0)
  note fr = floor_roundtrip [OF x, of "10 ^ 8" "unat u"]
  have lt: "unat d * ?x div 10 ^ 8 < 2 ^ 64"
    using fr(1) unat_lt64 [of u] unfolding d by (simp add: order_le_less_trans)
  define u' :: u64 where "u' = of_nat (unat d * ?x div 10 ^ 8)"
  have u': "unat u' = unat d * ?x div 10 ^ 8"
    using lt unfolding u'_def by (rule unat_of_nat_64)
  have "unbonded_amount r d = Inr u'" using lt u' by (simp add: unbonded_amount_unat)
  moreover have "unat u' \<le> unat u" using fr(1) unfolding u' d by simp
  moreover have "10 ^ 8 * (unat u - unat u') < ?x + 10 ^ 8" using fr(2) unfolding u' d by simp
  ultimately show ?thesis by blast
qed

lemma delegation_of_unbonded:
  assumes "unbonded_amount r d = Inr u" and "validator_exchange_rate r \<noteq> 0"
  shows "\<exists>d'. delegation_amount r u = Inr d' \<and> unat d' \<le> unat d"
proof -
  let ?x = "unat (validator_exchange_rate r)"
  have x: "0 < ?x" using assms(2) by (simp add: unat_gt_0)
  from assms(1) have u: "unat u = unat d * ?x div 10 ^ 8"
    by (simp add: unbonded_amount_unat)
  have "unat u * 10 ^ 8 div ?x \<le> unat d"
    using floor_roundtrip(1) [of "10 ^ 8" ?x "unat d"] x unfolding u by simp
  moreover from this have "unat u * 10 ^ 8 div ?x < 2 ^ 64"
    using order_le_less_trans [OF _ unat_lt64 [of d]] by simp
  moreover from this have "unat (of_nat (unat u * 10 ^ 8 div ?x) :: u64) = unat u * 10 ^ 8 div ?x"
    by (rule unat_of_nat_64)
  ultimately show ?thesis
    using assms(2) by (intro exI [of _ "of_nat (unat u * 10 ^ 8 div ?x)"]) (simp add: delegation_amount_unat)
qed

text \<open>
  C37: delegating stake and undelegating the tokens at the same rate never makes a profit and loses
  only rounding: the undelegation exists, returns at most the stake put in, and what is missing is
  less than the value of one delegation token plus one unit of stake.
\<close>

theorem delegate_undelegate_rounding:
  assumes "build_delegate r u = Inr d"
  shows "\<exists>w. build_undelegate r (d_delegation_amount d) = Inr w
    \<and> u_validator_identity w = d_validator_identity d \<and> u_epoch_index w = d_epoch_index d
    \<and> u_unbonded_amount w \<le> d_unbonded_amount d
    \<and> 10 ^ 8 * (unat (d_unbonded_amount d) - unat (u_unbonded_amount w)) < unat (validator_exchange_rate r) + 10 ^ 8"
proof -
  from assms have a: "delegation_amount r u = Inr (d_delegation_amount d)" and d: "d_unbonded_amount d = u"
    "d_validator_identity d = rd_identity_key r" "d_epoch_index d = rd_epoch_index r"
    by (auto simp: build_delegate_def result_simps)
  from unbonded_of_delegation [OF a] d show ?thesis
    by (auto simp: build_undelegate_def word_le_nat_alt)
qed

section \<open>Slashing\<close>

lemma unat_slash:
  assumes "unat (validator_exchange_rate r) * unat p < 2 ^ 64"
  shows "unat (validator_exchange_rate (slash r p))
    = unat (validator_exchange_rate r) - unat (validator_exchange_rate r) * unat p div 10 ^ 4"
  using unat_times_exact [of "validator_exchange_rate r" p] assms
  by (simp add: slash_def unat_saturating_sub unat_div)

lemma slash_le: "unat (validator_exchange_rate (slash r p)) \<le> unat (validator_exchange_rate r)"
  by (simp add: slash_def unat_saturating_sub)

lemma slash_frame [simp]:
  "rd_identity_key (slash r p) = rd_identity_key r"
  "rd_epoch_index (slash r p) = rd_epoch_index r"
  "validator_reward_rate (slash r p) = validator_reward_rate r"
  by (simp_all add: slash_def)

end
