(* ===== verification/IBC_Types.thy ===== *)
theory IBC_Types
  imports Prelude
begin

text \<open>
  The data of the crate \<open>ibc\<close>: the IBC actions a transaction carries, the client and
  connection records (\<open>ibc/src/client.rs\<close>, \<open>ibc/src/connection.rs\<close>) and the part of the
  chain state under the path \<open>ibc/\<close>.

  The message and light client types of the third-party IBC library are records of the
  fields the modelled code reads.  An \<open>Any...\<close> enumeration has the constructor for
  Tendermint and one for everything else.  Times and durations are nanoseconds.
\<close>

section \<open>Heights\<close>

text \<open>IBC heights are ordered by revision, then by height within the revision.\<close>

datatype ibc_height = Height (revision_number: u64) (revision_height: u64)

instantiation ibc_height :: linorder
begin

definition less_eq_ibc_height :: "ibc_height \<Rightarrow> ibc_height \<Rightarrow> bool" where
  "a \<le> b \<longleftrightarrow> revision_number a < revision_number b
     \<or> revision_number a = revision_number b \<and> revision_height a \<le> revision_height b"

definition less_ibc_height :: "ibc_height \<Rightarrow> ibc_height \<Rightarrow> bool" where
  "a < b \<longleftrightarrow> revision_number a < revision_number b
     \<or> revision_number a = revision_number b \<and> revision_height a < revision_height b"

instance
proof
  fix a b c :: ibc_height
  show "(a < b) = (a \<le> b \<and> \<not> b \<le> a)"
    by (auto simp: less_eq_ibc_height_def less_ibc_height_def)
  show "a \<le> a" by (simp add: less_eq_ibc_height_def)
  show "a \<le> b \<Longrightarrow> b \<le> c \<Longrightarrow> a \<le> c" by (auto simp: less_eq_ibc_height_def)
  show "a \<le> b \<Longrightarrow> b \<le> a \<Longrightarrow> a = b" by (cases a; cases b) (auto simp: less_eq_ibc_height_def)
  show "a \<le> b \<or> b \<le> a" by (auto simp: less_eq_ibc_height_def)
qed

end

section \<open>Clients\<close>

type_synonym client_id = string
type_synonym connection_id = string
type_synonym ibc_time = int

record tm_client_state =
  tcs_chain_id :: string
  tcs_trust_numerator :: u64
  tcs_trust_denominator :: u64
  tcs_trusting_period :: int
  tcs_unbonding_period :: int
  tcs_latest_height :: ibc_height
  tcs_proof_specs :: "u8 list"
  tcs_frozen_height :: "ibc_height option"

record tm_consensus_state =
  tcon_root :: "u8 list"
  tcon_timestamp :: ibc_time
  tcon_next_validators_hash :: "u8 list"

record tm_header =
  th_height :: ibc_height
  th_trusted_height :: ibc_height
  th_time :: ibc_time
  th_signed_header :: "u8 list"
  th_validator_set :: "u8 list"
  th_trusted_validator_set :: "u8 list"

datatype any_client_state = TmClientState tm_client_state | OtherClientState "u8 list"
datatype any_consensus_state = TmConsensusState tm_consensus_state | OtherConsensusState "u8 list"
datatype any_header = TmHeader tm_header | OtherHeader "u8 list"

record client_data =
  cd_client_id :: client_id
  cd_client_state :: any_client_state
  cd_processed_time :: string
  cd_processed_height :: u64

record msg_create_client =
  mc_client_state :: any_client_state
  mc_consensus_state :: any_consensus_state

record msg_update_client =
  mu_client_id :: client_id
  mu_header :: any_header

section \<open>Connections\<close>

datatype conn_state = ConnUninitialized | ConnInit | ConnTryOpen | ConnOpen

type_synonym conn_version = string

record counterparty =
  cp_client_id :: client_id
  cp_connection_id :: "connection_id option"
  cp_prefix :: string

record connection_end =
  ce_state :: conn_state
  ce_client_id :: client_id
  ce_counterparty :: counterparty
  ce_versions :: "conn_version list"
  ce_delay_period :: int

record ibc_proofs =
  pr_height :: ibc_height
  pr_object :: "u8 list"
  pr_client :: "u8 list option"
  pr_consensus :: "(u8 list \<times> ibc_height) option"

record msg_open_init =
  oi_client_id :: client_id
  oi_counterparty :: counterparty
  oi_version :: "conn_version option"
  oi_delay_period :: int

record msg_open_try =
  ot_previous_connection_id :: "connection_id option"
  ot_client_id :: client_id
  ot_client_state :: "any_client_state option"
  ot_counterparty :: counterparty
  ot_counterparty_versions :: "conn_version list"
  ot_proofs :: ibc_proofs
  ot_delay_period :: int

record msg_open_ack =
  oa_connection_id :: connection_id
  oa_counterparty_connection_id :: connection_id
  oa_client_state :: "any_client_state option"
  oa_proofs :: ibc_proofs
  oa_version :: conn_version

record msg_open_confirm =
  oc_connection_id :: connection_id
  oc_proofs :: ibc_proofs

section \<open>Actions and state\<close>

text \<open>An action holds an undecoded protobuf message.\<close>

datatype ibc_action =
    CreateClient "u8 list"
  | UpdateClient "u8 list"
  | ConnectionOpenInit "u8 list"
  | ConnectionOpenTry "u8 list"
  | ConnectionOpenAck "u8 list"
  | ConnectionOpenConfirm "u8 list"
  | OtherIbcAction

record ibc_store =
  b_client_counter :: "u64 option"                        \<comment> \<open>\<open>ics02-client/client_counter\<close>\<close>
  b_client_data :: "client_id \<rightharpoonup> client_data"             \<comment> \<open>\<open>ics02-client/clients/{}\<close>\<close>
  b_verified_heights :: "client_id \<rightharpoonup> ibc_height list"   \<comment> \<open>\<open>ics02-client/clients/{}/verified_heights\<close>\<close>
  b_penumbra_cs :: "ibc_height \<rightharpoonup> any_consensus_state"    \<comment> \<open>\<open>ics02-client/penumbra_consensus_states/{}\<close>\<close>
  b_verified_cs :: "client_id \<times> ibc_height \<rightharpoonup> any_consensus_state"
    \<comment> \<open>\<open>ics02-client/clients/{}/consensus_state/{}\<close>\<close>
  b_client_connections :: "client_id \<rightharpoonup> connection_id list" \<comment> \<open>\<open>ics02-client/clients/{}/connections\<close>\<close>
  b_conn_counter :: "u64 option"                          \<comment> \<open>\<open>ics03-connection/connection_counter\<close>\<close>
  b_connections :: "connection_id \<rightharpoonup> connection_end"      \<comment> \<open>\<open>ics03-connection/connections/{}\<close>\<close>

definition empty_ibc_store :: ibc_store where
  "empty_ibc_store =
     \<lparr>b_client_counter = None, b_client_data = Map.empty, b_verified_heights = Map.empty,
      b_penumbra_cs = Map.empty, b_verified_cs = Map.empty, b_client_connections = Map.empty,
      b_conn_counter = None, b_connections = Map.empty\<rparr>"

end
