(* ===== verification/Decimal.thy ===== *)
theory Decimal
  imports Prelude
begin

text \<open>
  Decimal numbers as Rust prints (\<open>format!\<close>) and parses (\<open>str::parse::<u64>\<close>) them.
\<close>

definition digit_char :: "nat \<Rightarrow> char" where
  "digit_char d = char_of (48 + d)"

definition is_digit :: "char \<Rightarrow> bool" where
  "is_digit c \<longleftrightarrow> 48 \<le> (of_char c :: nat) \<and> (of_char c :: nat) \<le> 57"

definition digit_val :: "char \<Rightarrow> nat" where
  "digit_val c = of_char c - 48"

fun show_nat :: "nat \<Rightarrow> string" where
  "show_nat n = (if n < 10 then [digit_char n] else show_nat (n div 10) @ [digit_char (n mod 10)])"

declare show_nat.simps [simp del]

definition digits_val :: "string \<Rightarrow> nat" where
  "digits_val ds = foldl (\<lambda>a c. 10 * a + digit_val c) 0 ds"

text \<open>\<open>parse::<u64>\<close>: an optional plus sign, then at least one digit; too large values are an error.\<close>

definition parse_u64 :: "string \<Rightarrow> u64 option" where
  "parse_u64 s =
     (let ds = (if s \<noteq> [] \<and> hd s = CHR ''+'' then tl s else s) in
      if ds = [] \<or> \<not> list_all is_digit ds then None
      else if digits_val ds < 2 ^ 64 then Some (of_nat (digits_val ds)) else None)"

text \<open>\<open>format!("{:0width$}", n)\<close> and \<open>trim_end_matches('0')\<close>.\<close>

definition pad_zeros :: "nat \<Rightarrow> string \<Rightarrow> string" where
  "pad_zeros w s = replicate (w - length s) (CHR ''0'') @ s"

definition trim_end_zeros :: "string \<Rightarrow> string" where
  "trim_end_zeros s = rev (dropWhile (\<lambda>c. c = CHR ''0'') (rev s))"

section \<open>Reading back what was printed\<close>

lemma digit_char:
  assumes "d < 10"
  shows "is_digit (digit_char d)" "digit_val (digit_char d) = d" "digit_char d \<noteq> CHR ''.''" "digit_char d \<noteq> CHR ''+''"
proof -
  have o: "(of_char (digit_char d) :: nat) = 48 + d" using assms by (simp add: digit_char_def)
  show "is_digit (digit_char d)" "digit_val (digit_char d) = d"
    using assms by (simp_all add: is_digit_def digit_val_def o)
  show "digit_char d \<noteq> CHR ''.''" "digit_char d \<noteq> CHR ''+''"
    using o by auto
qed

lemma digits_val_append: "digits_val (xs @ ys) = digits_val xs * 10 ^ length ys + digits_val ys"
proof (induction ys rule: rev_induct)
  case Nil
  then show ?case by (simp add: digits_val_def)
next
  case (snoc y ys)
  have "digits_val (zs @ [y]) = 10 * digits_val zs + digit_val y" for zs by (simp add: digits_val_def)
  from this [of "xs @ ys"] this [of ys] snoc show ?case by simp
qed

lemma digits_val_simps [simp]: "digits_val [] = 0" "digits_val [c] = digit_val c"
  by (simp_all add: digits_val_def)

lemma show_nat_digits:
  "list_all is_digit (show_nat n) \<and> digits_val (show_nat n) = n \<and> show_nat n \<noteq> []
   \<and> CHR ''.'' \<notin> set (show_nat n) \<and> CHR ''+'' \<notin> set (show_nat n)"
proof (induction n rule: show_nat.induct)
  case (1 n)
  show ?case
  proof (cases "n < 10")
    case True
    then show ?thesis using digit_char [OF True] by (auto simp: show_nat.simps [of n])
  next
    case False
    have d: "n mod 10 < 10" by simp
    show ?thesis using 1 False digit_char [OF d]
      by (auto simp: show_nat.simps [of n] digits_val_append)
  qed
qed

lemma length_show_nat: "0 < w \<Longrightarrow> n < 10 ^ w \<Longrightarrow> length (show_nat n) \<le> w"
proof (induction n arbitrary: w rule: show_nat.induct)
  case (1 n)
  show ?case
  proof (cases "n < 10")
    case False
    have "w \<noteq> 1" using 1(3) False by auto
    then obtain v where w: "w = Suc v" "0 < v" using 1(2) by (cases w) auto
    have "n div 10 < 10 ^ v" using 1(3) w by (simp add: less_mult_imp_div_less mult.commute)
    then show ?thesis using 1(1) [OF False w(2)] w False by (simp add: show_nat.simps [of n])
  qed (use 1 in \<open>simp add: show_nat.simps [of n]\<close>)
qed

lemma parse_u64_digits:
  assumes "list_all is_digit s" and "s \<noteq> []" and "CHR ''+'' \<notin> set s" and "digits_val s < 2 ^ 64"
  shows "parse_u64 s = Some (of_nat (digits_val s))"
proof -
  have "hd s \<noteq> CHR ''+''" using assms(2,3) hd_in_set by metis
  then show ?thesis using assms by (simp add: parse_u64_def Let_def)
qed

lemma parse_show_u64: "parse_u64 (show_nat (unat v)) = Some v"
  using parse_u64_digits [of "show_nat (unat v)"] show_nat_digits [of "unat v"] unat_lt64 [of v] by simp

lemma zero_digit: "is_digit (CHR ''0'')" "digit_val (CHR ''0'') = 0"
  by (simp_all add: is_digit_def digit_val_def)

lemma digits_val_zeros: "digits_val (replicate k (CHR ''0'')) = 0"
proof (induction k)
  case (Suc k)
  have "digits_val (CHR ''0'' # replicate k (CHR ''0'')) = digits_val [CHR ''0''] * 10 ^ k + digits_val (replicate k (CHR ''0''))"
    by (metis append_Cons append_Nil digits_val_append length_replicate)
  with Suc show ?case by (simp add: zero_digit)
qed simp

lemma trim_end_zeros_split:
  obtains k where "s = trim_end_zeros s @ replicate k (CHR ''0'')"
proof -
  have "rev s = takeWhile (\<lambda>c. c = CHR ''0'') (rev s) @ dropWhile (\<lambda>c. c = CHR ''0'') (rev s)" by simp
  moreover have "takeWhile (\<lambda>c. c = CHR ''0'') (rev s)
      = replicate (length (takeWhile (\<lambda>c. c = CHR ''0'') (rev s))) (CHR ''0'')"
    by (metis (full_types) replicate_length_same set_takeWhileD)
  ultimately have "s = trim_end_zeros s @ replicate (length (takeWhile (\<lambda>c. c = CHR ''0'') (rev s))) (CHR ''0'')"
    unfolding trim_end_zeros_def by (metis rev_append rev_replicate rev_rev_ident)
  then show ?thesis by (rule that)
qed

text \<open>A fraction, padded to \<open>w\<close> digits and stripped of its trailing zeros, keeps its value.\<close>

lemma trim_pad:
  assumes "0 < n" and "n < 10 ^ w" and "0 < w"
  defines "s \<equiv> trim_end_zeros (pad_zeros w (show_nat n))"
  shows "list_all is_digit s" "s \<noteq> []" "length s \<le> w" "digits_val s * 10 ^ (w - length s) = n"
    "CHR ''.'' \<notin> set s" "CHR ''+'' \<notin> set s"
proof -
  let ?p = "pad_zeros w (show_nat n)"
  have l: "length ?p = w" using length_show_nat [OF assms(3,2)] by (simp add: pad_zeros_def)
  have v: "digits_val ?p = n" using show_nat_digits [of n]
    by (simp add: pad_zeros_def digits_val_append digits_val_zeros)
  have d: "list_all is_digit ?p" "CHR ''.'' \<notin> set ?p" "CHR ''+'' \<notin> set ?p"
    using show_nat_digits [of n] zero_digit by (auto simp: pad_zeros_def list_all_iff)
  obtain k where k: "?p = s @ replicate k (CHR ''0'')" unfolding s_def by (rule trim_end_zeros_split)
  then have "k = w - length s" "length s \<le> w" using l by (metis add_diff_cancel_left' length_append length_replicate le_add1)+
  with k v have dv: "digits_val s * 10 ^ (w - length s) = n" by (metis add_0_right digits_val_append digits_val_zeros length_replicate)
  then show "digits_val s * 10 ^ (w - length s) = n" and "length s \<le> w" using \<open>length s \<le> w\<close> by auto
  from dv assms(1) show "s \<noteq> []" by auto
  from d k show "list_all is_digit s" "CHR ''.'' \<notin> set s" "CHR ''+'' \<notin> set s" by (auto simp: list_all_iff)
qed

end
