(* ===== verification/BTree.thy ===== *)
theory BTree
  imports Main
begin

text \<open>
  Rust's \<open>BTreeMap\<close>: a map with its entries in the order of the keys.  It is represented by the list of
  its entries, so that iterating over a map is running through the list and two maps with equal
  entries are equal.  The locale \<open>ordered_map\<close> states what the wallet relies on.
\<close>

type_synonym ('k, 'v) btree = "('k \<times> 'v) list"

definition bt_get :: "('k, 'v) btree \<Rightarrow> 'k \<Rightarrow> 'v option" where
  "bt_get m = map_of m"

fun bt_insert :: "'k :: linorder \<Rightarrow> 'v \<Rightarrow> ('k, 'v) btree \<Rightarrow> ('k, 'v) btree" where
  "bt_insert k v [] = [(k, v)]"
| "bt_insert k v (e # m) =
     (if fst e < k then e # bt_insert k v m else if fst e = k then (k, v) # m else (k, v) # e # m)"

definition bt_remove :: "'k \<Rightarrow> ('k, 'v) btree \<Rightarrow> ('k, 'v) btree" where
  "bt_remove k m = filter (\<lambda>e. fst e \<noteq> k) m"

definition bt_keys :: "('k, 'v) btree \<Rightarrow> 'k set" where
  "bt_keys m = fst ` set m"

definition bt_ok :: "('k :: linorder, 'v) btree \<Rightarrow> bool" where
  "bt_ok m \<longleftrightarrow> sorted_wrt (<) (map fst m)"

section \<open>The interface\<close>

locale ordered_map =
  fixes get :: "'m \<Rightarrow> 'k :: linorder \<Rightarrow> 'v option"
    and insert_entry :: "'k \<Rightarrow> 'v \<Rightarrow> 'm \<Rightarrow> 'm"
    and remove :: "'k \<Rightarrow> 'm \<Rightarrow> 'm"
    and entries :: "'m \<Rightarrow> ('k \<times> 'v) list"
    and ok :: "'m \<Rightarrow> bool"
  assumes get_insert: "get (insert_entry k v m) = (get m)(k \<mapsto> v)"
    and get_remove: "get (remove k m) = (get m)(k := None)"
    and get_entries: "ok m \<Longrightarrow> get m k = Some v \<longleftrightarrow> (k, v) \<in> set (entries m)"
    and ok_insert: "ok m \<Longrightarrow> ok (insert_entry k v m)"
    and ok_remove: "ok m \<Longrightarrow> ok (remove k m)"
    and sorted_entries: "ok m \<Longrightarrow> sorted_wrt (<) (map fst (entries m))"
begin

lemma get_fold_insert:
  "get (fold (\<lambda>(k, v). insert_entry k v) es m) = get m ++ map_of (rev es)"
proof (induction es arbitrary: m)
  case (Cons e es)
  then show ?case by (cases e) (auto simp: get_insert map_add_def fun_eq_iff split: option.split)
qed simp

lemma ok_fold_insert: "ok m \<Longrightarrow> ok (fold (\<lambda>(k, v). insert_entry k v) es m)"
  by (induction es arbitrary: m) (auto intro: ok_insert)

lemma keys_distinct: "ok m \<Longrightarrow> distinct (map fst (entries m))"
  using sorted_entries strict_sorted_iff by blast

text \<open>Two maps with the same lookups have the same entries.\<close>

lemma entries_unique:
  assumes "ok m" and "ok m'" and "get m = get m'"
  shows "entries m = entries m'"
proof (rule map_sorted_distinct_set_unique [where f = fst])
  have "(k, v) \<in> set (entries m) \<longleftrightarrow> (k, v) \<in> set (entries m')" for k v
    using get_entries [OF assms(1)] get_entries [OF assms(2)] assms(3) by metis
  then show eq: "set (entries m) = set (entries m')" by auto
  have "inj_on fst (set (entries m))" using keys_distinct [OF assms(1)] by (simp add: distinct_map)
  then show "inj_on fst (set (entries m) \<union> set (entries m'))" by (simp add: eq)
  show "sorted (map fst (entries m))" "sorted (map fst (entries m'))"
    using sorted_entries assms(1,2) strict_sorted_iff by blast+
  show "distinct (map fst (entries m))" "distinct (map fst (entries m'))"
    using keys_distinct assms(1,2) by blast+
qed

end

section \<open>The implementation\<close>

lemma bt_get_insert [simp]: "bt_get (bt_insert k v m) = (bt_get m)(k \<mapsto> v)"
  by (induction m) (auto simp: bt_get_def fun_eq_iff)

lemma bt_get_remove [simp]: "bt_get (bt_remove k m) = (bt_get m)(k := None)"
  by (induction m) (auto simp: bt_get_def bt_remove_def fun_eq_iff)

lemma bt_get_Nil [simp]: "bt_get [] = Map.empty"
  by (simp add: bt_get_def)

lemma bt_keys_insert [simp]: "bt_keys (bt_insert k v m) = insert k (bt_keys m)"
  by (induction m) (auto simp: bt_keys_def)

lemma bt_ok_insert: "bt_ok m \<Longrightarrow> bt_ok (bt_insert k v m)"
proof (induction m)
  case (Cons e m)
  have "fst ` set (bt_insert k v m) = insert k (fst ` set m)" using bt_keys_insert [of k v m] by (simp add: bt_keys_def)
  with Cons show ?case by (fastforce simp: bt_ok_def)
qed (simp add: bt_ok_def)

lemma bt_ok_remove: "bt_ok m \<Longrightarrow> bt_ok (bt_remove k m)"
  by (induction m) (auto simp: bt_ok_def bt_remove_def)

lemma bt_ok_Nil [simp]: "bt_ok []"
  by (simp add: bt_ok_def)

lemma bt_ok_distinct: "bt_ok m \<Longrightarrow> distinct (map fst m)"
  unfolding bt_ok_def using strict_sorted_iff by blast

interpretation bt: ordered_map bt_get bt_insert bt_remove "\<lambda>m. m" bt_ok
proof unfold_locales
  show "bt_get m k = Some v \<longleftrightarrow> (k, v) \<in> set m" if "bt_ok m" for m :: "('k :: linorder, 'v) btree" and k v
    using bt_ok_distinct [OF that] by (simp add: bt_get_def)
qed (simp_all add: bt_ok_insert bt_ok_remove, simp add: bt_ok_def)

lemmas bt_laws = bt_ok_insert bt_ok_remove bt_ok_Nil

text \<open>Collecting the entries of a map gives the map back.\<close>

lemma bt_of_entries:
  assumes "bt_ok m"
  shows "fold (\<lambda>(k, v). bt_insert k v) m [] = m"
proof (rule bt.entries_unique)
  show "bt_ok (fold (\<lambda>(k, v). bt_insert k v) m [])" by (rule bt.ok_fold_insert) simp
  have "map_of (rev m) k = map_of m k" for k
    using bt_ok_distinct [OF assms] map_of_eq_None_iff [of m k] map_of_eq_None_iff [of "rev m" k]
    by (cases "map_of m k") (simp_all add: rev_map [symmetric])
  then show "bt_get (fold (\<lambda>(k, v). bt_insert k v) m []) = bt_get m"
    using bt.get_fold_insert [of m "[]"] by (simp add: bt_get_def fun_eq_iff)
qed (rule assms)

end
