(* ===== verification/Asset.thy ===== *)
theory Asset
  imports Keys Decimal BTree
begin

text \<open>
  Asset identifiers, denominations and their units, the registry of known assets and the cache of
  denominations (\<open>crypto/src/asset\<close>), typed values and their commitments (\<open>crypto/src/value.rs\<close>), and
  delegation tokens (\<open>crypto/src/delegation_token.rs\<close>, \<open>identity_key.rs\<close>).
\<close>

section \<open>Denominations and units\<close>

record unit_data =
  ud_exponent :: u8
  ud_denom :: string

record denom =
  dn_id :: asset_id
  dn_base_denom :: string
  dn_units :: "unit_data list"

record denom_unit =
  un_inner :: denom
  un_index :: nat

definition denom_id :: "crypto \<Rightarrow> string \<Rightarrow> asset_id" where
  "denom_id C base_denom = fq_mod_order C (blake2b C ''Penumbra_AssetID'' [] (ascii base_denom))"

definition denom_new :: "crypto \<Rightarrow> string \<Rightarrow> unit_data list \<Rightarrow> denom result" where
  "denom_new C base_denom units =
     bindR (foldR (\<lambda>u _.
        bindR (ensure (Panic ''assertion failed: exponent'') (ud_exponent u \<noteq> 0)) (\<lambda>_.
        ensure (Panic ''assertion failed: denom'') (ud_denom u \<noteq> base_denom))) units ()) (\<lambda>_.
     Inr \<lparr>dn_id = denom_id C base_denom, dn_base_denom = base_denom,
          dn_units = units @ [\<lparr>ud_exponent = 0, ud_denom = base_denom\<rparr>]\<rparr>)"

definition denom_units :: "denom \<Rightarrow> denom_unit list" where
  "denom_units d = map (\<lambda>i. \<lparr>un_inner = d, un_index = i\<rparr>) [0..<length (dn_units d)]"

definition default_unit :: "denom \<Rightarrow> denom_unit" where
  "default_unit d = \<lparr>un_inner = d, un_index = 0\<rparr>"

definition base_unit :: "denom \<Rightarrow> denom_unit" where
  "base_unit d = \<lparr>un_inner = d, un_index = length (dn_units d) - 1\<rparr>"

text \<open>\<open>10u64.pow(exponent)\<close> wraps, as all arithmetic of the release build.\<close>

definition best_unit_for :: "denom \<Rightarrow> u64 \<Rightarrow> denom_unit" where
  "best_unit_for d amount =
     (case List.find (\<lambda>i. 10 ^ unat (ud_exponent (dn_units d ! i)) \<le> amount) [0..<length (dn_units d)] of
        Some i \<Rightarrow> \<lparr>un_inner = d, un_index = i\<rparr>
      | None \<Rightarrow> base_unit d)"

definition unit_exponent :: "denom_unit \<Rightarrow> u8 result" where
  "unit_exponent u =
     (if un_index u < length (dn_units (un_inner u)) then Inr (ud_exponent (dn_units (un_inner u) ! un_index u))
      else Inl (Panic ''there must be an entry for unit_index''))"

definition format_value :: "denom_unit \<Rightarrow> u64 \<Rightarrow> string result" where
  "format_value u v =
     bindR (unit_exponent u) (\<lambda>e.
     let power_of_ten = 10 ^ unat e in
     if power_of_ten = 0 then Inl (Panic ''attempt to divide by zero'')
     else
       (let v1 = v div power_of_ten; v2 = v mod power_of_ten;
            v2_stripped = trim_end_zeros (pad_zeros (unat e) (show_nat (unat v2)))
        in if v2 \<noteq> 0 then Inr (show_nat (unat v1) @ ''.'' @ v2_stripped) else Inr (show_nat (unat v1))))"

text \<open>\<open>str::split\<close> on a character.\<close>

fun split_on :: "char \<Rightarrow> string \<Rightarrow> string list" where
  "split_on c [] = [[]]"
| "split_on c (x # xs) =
     (if x = c then [] # split_on c xs else (x # hd (split_on c xs)) # tl (split_on c xs))"

definition parse_value :: "denom_unit \<Rightarrow> string \<Rightarrow> u64 result" where
  "parse_value u s =
     (let pieces = split_on (CHR ''.'') s in
      if 2 < length pieces then Inl (Err ''expected only one decimal point'')
      else
        (let left = pieces ! 0; right = (if 1 < length pieces then pieces ! 1 else ''0'') in
         bindR (ok_or (Err ''ParseIntError'') (parse_u64 left)) (\<lambda>v1.
         bindR (ok_or (Err ''ParseIntError'') (parse_u64 right)) (\<lambda>v2.
         bindR (unit_exponent u) (\<lambda>e.
         if length right = unat (e + 1) \<and> v2 = 0 then Inr v1
         else if unat e < length right then Inl (Err ''cannot represent this value'')
         else
           bindR (ok_or (Panic ''called `Option::unwrap()` on a `None` value'')
                    (checked_mul v2 (10 ^ unat (e - of_nat (length right))))) (\<lambda>v2.
           ok_or (Err ''overflow!'') (case checked_mul v1 (10 ^ unat e) of
               None \<Rightarrow> None | Some x \<Rightarrow> checked_add x v2)))))))"

section \<open>The registry\<close>

text \<open>A regular expression with the capture \<open>data\<close>: the capture if it matches (empty without one).\<close>

type_synonym regex = "string \<Rightarrow> string option"

definition literal_regex :: "string \<Rightarrow> regex" where
  "literal_regex l s = (if s = l then Some [] else None)"

text \<open>The class \<open>[a-zA-HJ-NP-Z0-9]\<close>.\<close>

definition bech_char :: "char \<Rightarrow> bool" where
  "bech_char c \<longleftrightarrow> (let n = of_char c :: nat in
     97 \<le> n \<and> n \<le> 122 \<or> 65 \<le> n \<and> n \<le> 90 \<and> n \<noteq> 73 \<and> n \<noteq> 79 \<or> 48 \<le> n \<and> n \<le> 57)"

text \<open>\<open>^<prefix>(?P<data>penumbravalid1[a-zA-HJ-NP-Z0-9]+)$\<close>\<close>

definition delegation_regex :: "string \<Rightarrow> regex" where
  "delegation_regex prefix s =
     (let data = drop (length prefix) s; tail = drop 14 data in
      if take (length prefix) s = prefix \<and> take 14 data = ''penumbravalid1'' \<and> tail \<noteq> [] \<and> list_all bech_char tail
      then Some data else None)"

record registry =
  rg_base_regexes :: "regex list"
  rg_display_regexes :: "regex list list"
  rg_display_to_base :: "nat list"
  rg_constructors :: "(string \<Rightarrow> denom result) list"

record registry_builder =
  rb_base_regexes :: "regex list"
  rb_constructors :: "(string \<Rightarrow> denom result) list"
  rb_unit_regexes :: "regex list list"

definition add_asset :: "regex \<Rightarrow> regex list \<Rightarrow> (string \<Rightarrow> denom result) \<Rightarrow> registry_builder \<Rightarrow> registry_builder" where
  "add_asset base_regex unit_regexes constructor b =
     b\<lparr>rb_base_regexes := rb_base_regexes b @ [base_regex], rb_constructors := rb_constructors b @ [constructor],
       rb_unit_regexes := rb_unit_regexes b @ [unit_regexes]\<rparr>"

definition registry_build :: "registry_builder \<Rightarrow> registry" where
  "registry_build b =
     \<lparr>rg_base_regexes = rb_base_regexes b, rg_display_regexes = rb_unit_regexes b,
      rg_display_to_base = concat (map (\<lambda>i. map (\<lambda>_. i) (rb_unit_regexes b ! i)) [0..<length (rb_unit_regexes b)]),
      rg_constructors = rb_constructors b\<rparr>"

definition REGISTRY :: "crypto \<Rightarrow> registry" where
  "REGISTRY C =
     registry_build
      (add_asset (delegation_regex ''udelegation_'') [delegation_regex ''delegation_'', delegation_regex ''mdelegation_'']
        (\<lambda>data. bindR (ensure (Panic ''assertion failed: !data.is_empty()'') (data \<noteq> [])) (\<lambda>_.
          denom_new C (''udelegation_'' @ data)
            [\<lparr>ud_exponent = 6, ud_denom = ''delegation_'' @ data\<rparr>, \<lparr>ud_exponent = 3, ud_denom = ''mdelegation_'' @ data\<rparr>]))
      (add_asset (literal_regex ''upenumbra'') [literal_regex ''penumbra'', literal_regex ''mpenumbra'']
        (\<lambda>data. bindR (ensure (Panic ''assertion failed: data.is_empty()'') (data = [])) (\<lambda>_.
          denom_new C ''upenumbra''
            [\<lparr>ud_exponent = 6, ud_denom = ''penumbra''\<rparr>, \<lparr>ud_exponent = 3, ud_denom = ''mpenumbra''\<rparr>]))
        \<lparr>rb_base_regexes = [], rb_constructors = [], rb_unit_regexes = []\<rparr>))"

text \<open>\<open>RegexSet::matches(..).iter().next()\<close>: the least index of a matching expression.\<close>

definition first_match :: "regex list \<Rightarrow> string \<Rightarrow> nat option" where
  "first_match rs s = List.find (\<lambda>i. (rs ! i) s \<noteq> None) [0..<length rs]"

definition registry_parse_denom :: "crypto \<Rightarrow> registry \<Rightarrow> string \<Rightarrow> denom option result" where
  "registry_parse_denom C R raw_denom =
     (case first_match (rg_base_regexes R) raw_denom of
        Some base_index \<Rightarrow>
          bindR (ok_or (Panic ''already checked this regex matches'') ((rg_base_regexes R ! base_index) raw_denom)) (\<lambda>data.
          bindR ((rg_constructors R ! base_index) data) (\<lambda>d. Inr (Some d)))
      | None \<Rightarrow>
          if first_match (concat (rg_display_regexes R)) raw_denom \<noteq> None then Inr None
          else bindR (denom_new C raw_denom []) (\<lambda>d. Inr (Some d)))"

definition registry_parse_unit :: "crypto \<Rightarrow> registry \<Rightarrow> string \<Rightarrow> denom_unit result" where
  "registry_parse_unit C R raw_unit =
     (case first_match (concat (rg_display_regexes R)) raw_unit of
        Some display_index \<Rightarrow>
          (let base_index = rg_display_to_base R ! display_index;
               rs = rg_display_regexes R ! base_index in
           case first_match rs raw_unit of
             Some unit_index \<Rightarrow>
               bindR (ok_or (Panic ''unreachable'') ((rs ! unit_index) raw_unit)) (\<lambda>data.
               bindR ((rg_constructors R ! base_index) data) (\<lambda>d.
               Inr \<lparr>un_inner = d, un_index = unit_index\<rparr>))
           | None \<Rightarrow> Inl (Panic ''we matched one of the display regexes''))
      | None \<Rightarrow>
          bindR (registry_parse_denom C R raw_unit) (\<lambda>r.
          bindR (ok_or (Panic ''parse_base only returns None on display denom input'') r) (\<lambda>d.
          Inr (base_unit d))))"

definition parse_denom :: "crypto \<Rightarrow> string \<Rightarrow> denom option result" where
  "parse_denom C s = registry_parse_denom C (REGISTRY C) s"

definition parse_unit :: "crypto \<Rightarrow> string \<Rightarrow> denom_unit result" where
  "parse_unit C s = registry_parse_unit C (REGISTRY C) s"

definition staking_token_denom :: "crypto \<Rightarrow> denom result" where
  "staking_token_denom C =
     bindR (parse_denom C ''upenumbra'') (ok_or (Panic ''called `Option::unwrap()` on a `None` value''))"

definition denom_of_proto :: "crypto \<Rightarrow> string \<Rightarrow> denom result" where
  "denom_of_proto C s = bindR (parse_denom C s) (ok_or (Err ''invalid denomination''))"

section \<open>Values\<close>

record typed_value =
  val_amount :: u64
  val_asset_id :: asset_id

definition VALUE_GENERATOR_DOMAIN_SEP :: "crypto \<Rightarrow> fq" where
  "VALUE_GENERATOR_DOMAIN_SEP C = fq_mod_order C (blake2b C [] [] (ascii ''penumbra.value.generator''))"

definition value_generator :: "crypto \<Rightarrow> asset_id \<Rightarrow> element" where
  "value_generator C i = el_map_to_group C (poseidon_1 C (VALUE_GENERATOR_DOMAIN_SEP C) i)"

definition VALUE_BLINDING_GENERATOR :: "crypto \<Rightarrow> element" where
  "VALUE_BLINDING_GENERATOR C =
     el_map_to_group C (fq_mod_order C (blake2b C [] [] (ascii ''decaf377-rdsa-binding'')))"

type_synonym value_commitment = element

definition value_commit :: "crypto \<Rightarrow> typed_value \<Rightarrow> fr \<Rightarrow> value_commitment" where
  "value_commit C v blinding =
     el_add C (el_mul C (fr_of_u64 C (val_amount v)) (value_generator C (val_asset_id v)))
       (el_mul C blinding (VALUE_BLINDING_GENERATOR C))"

definition value_commitment_to_bytes :: "crypto \<Rightarrow> value_commitment \<Rightarrow> bytes" where
  "value_commitment_to_bytes C c = el_compress C c"

definition value_commitment_of_slice :: "crypto \<Rightarrow> bytes \<Rightarrow> value_commitment result" where
  "value_commitment_of_slice C b =
     bindR (ok_or (Err ''Invalid valid commitment'') (array 32 b)) (\<lambda>b.
     ok_or (Err ''Invalid valid commitment'') (el_decompress C b))"

definition asset_id_of_proto :: "crypto \<Rightarrow> bytes \<Rightarrow> asset_id result" where
  "asset_id_of_proto C inner =
     bindR (ok_or (Err ''could not deserialize Asset ID: input vec is not 32 bytes'') (array 32 inner)) (\<lambda>b.
     ok_or (Err ''fq'') (fq_from_bytes C b))"

definition asset_id_to_proto :: "crypto \<Rightarrow> asset_id \<Rightarrow> bytes" where
  "asset_id_to_proto C i = fq_to_bytes C i"

text \<open>The protobuf form of a value: the amount and an optional asset id.\<close>

definition value_to_proto :: "crypto \<Rightarrow> typed_value \<Rightarrow> u64 \<times> bytes option" where
  "value_to_proto C v = (val_amount v, Some (asset_id_to_proto C (val_asset_id v)))"

definition value_of_proto :: "crypto \<Rightarrow> u64 \<times> bytes option \<Rightarrow> typed_value result" where
  "value_of_proto C p =
     bindR (ok_or (Err ''missing value commitment'') (snd p)) (\<lambda>b.
     bindR (asset_id_of_proto C b) (\<lambda>i.
     Inr \<lparr>val_amount = fst p, val_asset_id = i\<rparr>))"

text \<open>\<open>FromStr\<close>: \<open>^([0-9.]+)([^0-9.].*)$\<close>, where a dot does not match a newline.\<close>

definition value_of_string :: "crypto \<Rightarrow> string \<Rightarrow> typed_value result" where
  "value_of_string C s =
     (let numeric = takeWhile (\<lambda>c. is_digit c \<or> c = CHR ''.'') s;
          denom_str = dropWhile (\<lambda>c. is_digit c \<or> c = CHR ''.'') s in
      if numeric \<noteq> [] \<and> denom_str \<noteq> [] \<and> CHR ''\<newline>'' \<notin> set (tl denom_str)
      then
        bindR (parse_unit C denom_str) (\<lambda>display_denom.
        bindR (parse_value display_denom numeric) (\<lambda>amount.
        Inr \<lparr>val_amount = amount, val_asset_id = dn_id (un_inner display_denom)\<rparr>))
      else Inl (Err ''could not parse as a value''))"

section \<open>The cache of denominations\<close>

type_synonym asset_cache = "(asset_id, denom) btree"

text \<open>From a \<open>BTreeMap<Id, String>\<close>, given as its entries in order.\<close>

definition cache_of_entries :: "crypto \<Rightarrow> (asset_id \<times> string) list \<Rightarrow> asset_cache result" where
  "cache_of_entries C entries =
     foldR (\<lambda>(provided_id, denom_str) cache.
       bindR (parse_denom C denom_str) (\<lambda>r.
       case r of
         Some d \<Rightarrow>
           if provided_id \<noteq> dn_id d then Inl (Err ''provided id does not match computed id'')
           else Inr (bt_insert (dn_id d) d cache)
       | None \<Rightarrow> Inl (Err ''invalid base denom''))) entries []"

definition cache_to_entries :: "asset_cache \<Rightarrow> (asset_id \<times> string) list" where
  "cache_to_entries cache = map (\<lambda>(i, d). (i, dn_base_denom d)) cache"

definition cache_extend :: "denom list \<Rightarrow> asset_cache \<Rightarrow> asset_cache" where
  "cache_extend ds cache = fold (\<lambda>d cache. bt_insert (dn_id d) d cache) ds cache"

definition value_try_format :: "asset_cache \<Rightarrow> typed_value \<Rightarrow> string option result" where
  "value_try_format cache v =
     (case bt_get cache (val_asset_id v) of None \<Rightarrow> Inr None
      | Some base_denom \<Rightarrow>
          (let u = best_unit_for base_denom (val_amount v) in
           bindR (format_value u (val_amount v)) (\<lambda>s.
           Inr (Some (s @ ud_denom (dn_units base_denom ! un_index u))))))"

section \<open>Identity keys and delegation tokens\<close>

text \<open>An identity key is represented by its text; parsing checks the bytes as a verification key.\<close>

definition identity_key_of_proto :: "crypto \<Rightarrow> bytes \<Rightarrow> identity_key result" where
  "identity_key_of_proto C ik =
     bindR (ok_or (Err ''MalformedVerificationKey'') (vk_parse C ik)) (\<lambda>vk.
     Inr (bech32str_encode C vk ''penumbravalid''))"

definition identity_key_of_string :: "crypto \<Rightarrow> string \<Rightarrow> identity_key result" where
  "identity_key_of_string C s =
     bindR (bech32str_decode C s ''penumbravalid'') (identity_key_of_proto C)"

record delegation_token =
  dt_validator_identity :: identity_key
  dt_base_denom :: denom

definition delegation_token_new :: "crypto \<Rightarrow> identity_key \<Rightarrow> delegation_token result" where
  "delegation_token_new C v =
     bindR (parse_denom C (''udelegation_'' @ v)) (\<lambda>r.
     bindR (ok_or (Panic ''base denom format is valid'') r) (\<lambda>d.
     Inr \<lparr>dt_validator_identity = v, dt_base_denom = d\<rparr>))"

text \<open>
  The expression of \<open>TryFrom<Denom>\<close> is not anchored: the first position at which it matches, and the
  longest match there.
\<close>

fun delegation_search :: "string \<Rightarrow> string option" where
  "delegation_search [] = None"
| "delegation_search (c # s) =
     (let data = drop 12 (c # s); rest = takeWhile bech_char (drop 14 data) in
      if take 12 (c # s) = ''udelegation_'' \<and> take 14 data = ''penumbravalid1'' \<and> rest \<noteq> []
      then Some (''penumbravalid1'' @ rest) else delegation_search s)"

definition delegation_token_of_denom :: "crypto \<Rightarrow> denom \<Rightarrow> delegation_token result" where
  "delegation_token_of_denom C d =
     bindR (ok_or (Err ''base denom is not a delegation token'') (delegation_search (dn_base_denom d))) (\<lambda>data.
     bindR (identity_key_of_string C data) (\<lambda>v.
     Inr \<lparr>dt_validator_identity = v, dt_base_denom = d\<rparr>))"

definition delegation_token_of_string :: "crypto \<Rightarrow> string \<Rightarrow> delegation_token result" where
  "delegation_token_of_string C s =
     bindR (parse_denom C s) (\<lambda>r.
     bindR (ok_or (Err ''could not parse as base denomination'') r) (delegation_token_of_denom C))"

section \<open>Parsing denominations\<close>

lemma first_match_Nil [simp]: "first_match [] s = None"
  by (simp add: first_match_def)

lemma find_map_Suc: "List.find P (map Suc xs) = map_option Suc (List.find (\<lambda>i. P (Suc i)) xs)"
  by (induction xs) auto

lemma first_match_Cons [simp]:
  "first_match (r # rs) s = (if r s \<noteq> None then Some 0 else map_option Suc (first_match rs s))"
proof -
  have "[0..<length (r # rs)] = 0 # map Suc [0..<length rs]"
    by (metis length_Cons map_Suc_upt upt_conv_Cons zero_less_Suc)
  then show ?thesis by (simp add: first_match_def find_map_Suc)
qed

text \<open>The strings that are display units, for which there is no base denomination.\<close>

definition is_display :: "string \<Rightarrow> bool" where
  "is_display s \<longleftrightarrow> s = ''penumbra'' \<or> s = ''mpenumbra''
     \<or> delegation_regex ''delegation_'' s \<noteq> None \<or> delegation_regex ''mdelegation_'' s \<noteq> None"

lemma delegation_regex_Some:
  "delegation_regex p s = Some data \<Longrightarrow> s = p @ data \<and> data \<noteq> []"
  by (auto simp: delegation_regex_def Let_def split: if_splits) (metis append_take_drop_id)

lemma registry_fields:
  "rg_base_regexes (REGISTRY C) = [literal_regex ''upenumbra'', delegation_regex ''udelegation_'']"
  "rg_display_regexes (REGISTRY C) = [[literal_regex ''penumbra'', literal_regex ''mpenumbra''],
     [delegation_regex ''delegation_'', delegation_regex ''mdelegation_'']]"
  "rg_constructors (REGISTRY C) =
     [\<lambda>data. bindR (ensure (Panic ''assertion failed: data.is_empty()'') (data = [])) (\<lambda>_.
        denom_new C ''upenumbra''
          [\<lparr>ud_exponent = 6, ud_denom = ''penumbra''\<rparr>, \<lparr>ud_exponent = 3, ud_denom = ''mpenumbra''\<rparr>]),
      \<lambda>data. bindR (ensure (Panic ''assertion failed: !data.is_empty()'') (data \<noteq> [])) (\<lambda>_.
        denom_new C (''udelegation_'' @ data)
          [\<lparr>ud_exponent = 6, ud_denom = ''delegation_'' @ data\<rparr>, \<lparr>ud_exponent = 3, ud_denom = ''mdelegation_'' @ data\<rparr>])]"
  "rg_display_to_base (REGISTRY C) = [0, 0, 1, 1]"
  by (simp_all add: REGISTRY_def registry_build_def add_asset_def upt_rec)

lemma parse_denom_spec:
  "parse_denom C s =
     (if s = ''upenumbra'' then
        Inr (Some \<lparr>dn_id = denom_id C s, dn_base_denom = s,
          dn_units = [\<lparr>ud_exponent = 6, ud_denom = ''penumbra''\<rparr>, \<lparr>ud_exponent = 3, ud_denom = ''mpenumbra''\<rparr>,
                      \<lparr>ud_exponent = 0, ud_denom = s\<rparr>]\<rparr>)
      else (case delegation_regex ''udelegation_'' s of
        Some data \<Rightarrow>
          Inr (Some \<lparr>dn_id = denom_id C s, dn_base_denom = s,
            dn_units = [\<lparr>ud_exponent = 6, ud_denom = ''delegation_'' @ data\<rparr>,
              \<lparr>ud_exponent = 3, ud_denom = ''mdelegation_'' @ data\<rparr>, \<lparr>ud_exponent = 0, ud_denom = s\<rparr>]\<rparr>)
      | None \<Rightarrow>
          if is_display s then Inr None
          else Inr (Some \<lparr>dn_id = denom_id C s, dn_base_denom = s, dn_units = [\<lparr>ud_exponent = 0, ud_denom = s\<rparr>]\<rparr>)))"
proof (cases "s = ''upenumbra''")
  case True
  then show ?thesis by (simp add: parse_denom_def registry_parse_denom_def registry_fields literal_regex_def denom_new_def)
next
  case False
  then have l: "literal_regex ''upenumbra'' s = None" by (simp add: literal_regex_def)
  show ?thesis
  proof (cases "delegation_regex ''udelegation_'' s")
    case None
    with False l show ?thesis
      by (auto simp: parse_denom_def registry_parse_denom_def registry_fields denom_new_def is_display_def
          literal_regex_def)
  next
    case (Some data)
    with False l delegation_regex_Some [OF Some] show ?thesis
      by (simp add: parse_denom_def registry_parse_denom_def registry_fields denom_new_def)
  qed
qed

lemma parse_denom_total: "\<exists>r. parse_denom C s = Inr r"
  by (auto simp: parse_denom_spec split: option.split)

lemma parse_denom_Some:
  assumes "parse_denom C s = Inr (Some d)"
  shows "dn_base_denom d = s" "dn_id d = denom_id C s"
  using assms by (auto simp: parse_denom_spec split: if_splits option.splits)

text \<open>Every delegation denomination is a base denomination.\<close>

lemma parse_delegation_denom:
  obtains d where "parse_denom C (''udelegation_'' @ v) = Inr (Some d)" and "dn_base_denom d = ''udelegation_'' @ v"
    and "dn_id d = denom_id C (''udelegation_'' @ v)"
proof -
  have "\<not> is_display (''udelegation_'' @ v)" by (simp add: is_display_def delegation_regex_def Let_def)
  then obtain d where "parse_denom C (''udelegation_'' @ v) = Inr (Some d)"
    by (fastforce simp: parse_denom_spec split: option.split)
  with parse_denom_Some [OF this] that show ?thesis by blast
qed

lemma delegation_token_new_Inr:
  "\<exists>d. delegation_token_new C v = Inr \<lparr>dt_validator_identity = v, dt_base_denom = d\<rparr>
     \<and> dn_base_denom d = ''udelegation_'' @ v \<and> dn_id d = denom_id C (''udelegation_'' @ v)"
proof -
  obtain d where "parse_denom C (''udelegation_'' @ v) = Inr (Some d)" "dn_base_denom d = ''udelegation_'' @ v"
    "dn_id d = denom_id C (''udelegation_'' @ v)" by (rule parse_delegation_denom)
  then show ?thesis by (simp add: delegation_token_new_def)
qed

lemma staking_token_denom_Inr:
  "\<exists>d. staking_token_denom C = Inr d \<and> dn_id d = denom_id C ''upenumbra'' \<and> dn_base_denom d = ''upenumbra''"
  by (simp add: staking_token_denom_def parse_denom_spec)

text \<open>
  The search in \<open>TryFrom<Denom>\<close> finds the identity in a delegation denomination, but also behind any
  other text: the expression lacks the anchors of the registry's.
\<close>

lemma delegation_search_denom:
  assumes "v = ''penumbravalid1'' @ w" and "w \<noteq> []" and "list_all bech_char w"
  shows "delegation_search (''udelegation_'' @ v) = Some v"
proof -
  have tw: "takeWhile bech_char w = w" using assms(3) by (simp add: list_all_iff takeWhile_eq_all_conv)
  show ?thesis using assms(2) by (simp add: assms(1) Let_def tw)
qed

lemma delegation_search_unanchored:
  assumes "v = ''penumbravalid1'' @ w" and "w \<noteq> []" and "list_all bech_char w"
  shows "delegation_search (''fake/udelegation_'' @ v) = Some v"
proof -
  have tw: "takeWhile bech_char w = w" using assms(3) by (simp add: list_all_iff takeWhile_eq_all_conv)
  show ?thesis using assms(2) by (simp add: assms(1) Let_def tw)
qed

section \<open>Printing and parsing amounts\<close>

lemma split_on_none: "c \<notin> set xs \<Longrightarrow> split_on c xs = [xs]"
  by (induction xs) auto

lemma split_on_append: "c \<notin> set xs \<Longrightarrow> split_on c (xs @ c # ys) = xs # split_on c ys"
  by (induction xs) auto

lemma checked_mul_exact:
  "unat a * unat b < 2 ^ 64 \<Longrightarrow> checked_mul a b = Some (a * b)"
  by (simp add: checked_mul_def)

lemma unat_pow10:
  assumes "n \<le> 19"
  shows "unat (10 ^ n :: u64) = 10 ^ n"
proof -
  have "(10 :: nat) ^ n \<le> 10 ^ 19" by (rule power_increasing) (use assms in simp_all)
  then have "(10 :: nat) ^ n < 2 ^ 64" by (rule order_le_less_trans) simp
  then have "unat (of_nat (10 ^ n) :: u64) = 10 ^ n" by (rule unat_of_nat_64)
  then show ?thesis by simp
qed

lemma div_mod_u64:
  fixes v p :: u64
  shows "checked_mul (v div p) p = Some (v div p * p)" and "checked_add (v div p * p) (v mod p) = Some v"
proof -
  have e: "unat (v div p) * unat p + unat (v mod p) = unat v" by (simp add: unat_div unat_mod)
  then have "unat (v div p) * unat p \<le> unat v" by linarith
  then have l: "unat (v div p) * unat p < 2 ^ 64" by (rule order_le_less_trans) simp
  then show "checked_mul (v div p) p = Some (v div p * p)" by (rule checked_mul_exact)
  have u: "unat (v div p * p) = unat (v div p) * unat p" using l by (intro unat_times_exact) simp
  have "unat (v div p * p) + unat (v mod p) < 2 ^ 64" unfolding u e by simp
  then show "checked_add (v div p * p) (v mod p) = Some v" by (simp add: checked_add_def div_mult_mod_eq)
qed

text \<open>Reading the fraction gives the remainder back.\<close>

lemma parse_fraction:
  fixes v2 :: u64 and e :: u8
  assumes e: "0 < unat e" "unat e \<le> 19" and v2: "v2 \<noteq> 0" "unat v2 < 10 ^ unat e"
  defines "r \<equiv> trim_end_zeros (pad_zeros (unat e) (show_nat (unat v2)))"
  obtains w where "parse_u64 r = Some w" and "length r \<le> unat e" and "CHR ''.'' \<notin> set r"
    and "checked_mul w (10 ^ unat (e - of_nat (length r))) = Some v2"
proof -
  have "0 < unat v2" using v2(1) by (simp add: unat_gt_0)
  note t = trim_pad [OF this v2(2) e(1), folded r_def]
  let ?k = "unat e - length r"
  have "digits_val r \<le> unat v2" unfolding t(4) [symmetric] by simp
  then have lt: "digits_val r < 2 ^ 64" by (rule order_le_less_trans) simp
  then have p: "parse_u64 r = Some (of_nat (digits_val r))" using t by (intro parse_u64_digits) auto
  have ul: "unat (of_nat (length r) :: u8) = length r"
    using t(3) e(2) by (simp add: unsigned_of_nat take_bit_nat_eq_self)
  then have k: "unat (e - of_nat (length r)) = ?k" using t(3) unat_minus_exact [of "of_nat (length r)" e] by simp
  have uk: "unat (10 ^ ?k :: u64) = 10 ^ ?k" using e(2) by (intro unat_pow10) simp
  have "unat (of_nat (digits_val r) :: u64) * unat (10 ^ ?k :: u64) = unat v2"
    using lt t(4) uk by (simp add: unat_of_nat_64)
  then have "checked_mul (of_nat (digits_val r)) (10 ^ ?k) = Some v2"
    using unat_lt64 [of v2] unat_times_exact [of "of_nat (digits_val r) :: u64" "10 ^ ?k"]
    by (auto simp: checked_mul_def intro: unsigned_word_eqI)
  with p t(3,5) k that show ?thesis by metis
qed

text \<open>
  An amount printed in a unit reads back as that amount, for every 64-bit amount and every unit
  of an exponent up to 19 (those of the registry are 0, 3 and 6).
\<close>

lemma unit_value_roundtrip:
  assumes "unit_exponent u = Inr e" and "unat e \<le> 19"
  shows "\<exists>s. format_value u v = Inr s \<and> parse_value u s = Inr v"
proof -
  let ?p = "10 ^ unat e :: u64"
  have up: "unat ?p = 10 ^ unat e" using assms(2) by (rule unat_pow10)
  then have p0: "?p \<noteq> 0" by (metis unat_0 power_not_zero zero_neq_numeral)
  have e1: "unat (e + 1) = unat e + 1" using assms(2) by (simp add: unat_plus_exact)
  note sh = show_nat_digits [of "unat (v div ?p)"] parse_show_u64 [of "v div ?p"]
  show ?thesis
  proof (cases "v mod ?p = 0")
    case True
    have f: "format_value u v = Inr (show_nat (unat (v div ?p)))" using assms p0 True by (simp add: format_value_def Let_def)
    have z: "parse_u64 ''0'' = Some 0" by (simp add: parse_u64_def Let_def zero_digit)
    have "parse_value u (show_nat (unat (v div ?p))) = Inr v"
    proof (cases "unat e = 0")
      case True
      then show ?thesis using sh z e1 assms(1)
        by (simp add: parse_value_def split_on_none Let_def)
    next
      case False
      moreover have "checked_mul 0 x = Some 0" for x by (simp add: checked_mul_def)
      ultimately show ?thesis
        using sh z e1 assms(1) True div_mod_u64 [of v ?p] by (simp add: parse_value_def split_on_none Let_def)
    qed
    with f show ?thesis by blast
  next
    case False
    let ?r = "trim_end_zeros (pad_zeros (unat e) (show_nat (unat (v mod ?p))))"
    have f: "format_value u v = Inr (show_nat (unat (v div ?p)) @ CHR ''.'' # ?r)"
      using assms p0 False by (simp add: format_value_def Let_def)
    have "unat e \<noteq> 0" using False by (auto intro: unsigned_word_eqI simp: unat_mod)
    moreover have "unat (v mod ?p) < 10 ^ unat e" unfolding unat_mod up by simp
    ultimately obtain w where w: "parse_u64 ?r = Some w" "length ?r \<le> unat e" "CHR ''.'' \<notin> set ?r"
      "checked_mul w (10 ^ unat (e - of_nat (length ?r))) = Some (v mod ?p)"
      using parse_fraction [of e "v mod ?p"] False assms(2) by blast
    have "parse_value u (show_nat (unat (v div ?p)) @ CHR ''.'' # ?r) = Inr v"
      using sh w e1 assms(1) div_mod_u64 [of v ?p]
      by (simp add: parse_value_def split_on_none split_on_append Let_def)
    with f show ?thesis by blast
  qed
qed

text \<open>
  A fraction of one digit more than the exponent, all zeros, is taken for a number of base units: in
  \<open>penumbra\<close>, \<open>1.0000000\<close> is read as one \<open>upenumbra\<close>.
\<close>

lemma parse_value_long_zero_fraction:
  assumes "unit_exponent u = Inr 6"
  shows "parse_value u ''1.0000000'' = Inr 1"
  using assms by (simp add: parse_value_def Let_def parse_u64_def is_digit_def digits_val_def digit_val_def)

end
