(* ===== verification/Note.thy ===== *)
theory Note
  imports Asset
begin

text \<open>
  Notes and their commitments, their byte form and encryption (\<open>crypto/src/note.rs\<close>), memos
  (\<open>crypto/src/memo.rs\<close>), nullifiers as bytes (\<open>crypto/src/nullifier.rs\<close>) and the hashing of the note
  commitment tree (\<open>crypto/src/merkle.rs\<close>).
\<close>

type_synonym note_commitment = fq
type_synonym nullifier = fq
type_synonym merkle_root = fq

section \<open>Notes\<close>

record note_t =
  nt_value :: typed_value
  nt_note_blinding :: fq
  nt_diversifier :: diversifier
  nt_transmission_key :: ka_public
  nt_transmission_key_s :: fq

definition note_from_parts :: "crypto \<Rightarrow> diversifier \<Rightarrow> ka_public \<Rightarrow> typed_value \<Rightarrow> fq \<Rightarrow> note_t result" where
  "note_from_parts C d transmission_key v note_blinding =
     bindR (ok_or (Err ''Invalid transmission key'') (fq_from_bytes C transmission_key)) (\<lambda>s.
     Inr \<lparr>nt_value = v, nt_note_blinding = note_blinding, nt_diversifier = d,
          nt_transmission_key = transmission_key, nt_transmission_key_s = s\<rparr>)"

definition note_generate :: "crypto \<Rightarrow> rng \<Rightarrow> address \<Rightarrow> typed_value \<Rightarrow> (note_t \<times> rng) result" where
  "note_generate C g a v =
     (let (note_blinding, g) = rand_fq C g in
      bindR (unwrapR (note_from_parts C (ad_d a) (ad_pk_d a) v note_blinding)) (\<lambda>n. Inr (n, g)))"

definition note_diversified_generator :: "crypto \<Rightarrow> note_t \<Rightarrow> element" where
  "note_diversified_generator C n = diversified_generator C (nt_diversifier n)"

definition note_amount :: "note_t \<Rightarrow> u64" where
  "note_amount n = val_amount (nt_value n)"

definition note_asset_id :: "note_t \<Rightarrow> asset_id" where
  "note_asset_id n = val_asset_id (nt_value n)"

definition NOTECOMMIT_DOMAIN_SEP :: "crypto \<Rightarrow> fq" where
  "NOTECOMMIT_DOMAIN_SEP C = fq_mod_order C (blake2b C [] [] (ascii ''penumbra.notecommit''))"

definition note_commitment_new :: "crypto \<Rightarrow> fq \<Rightarrow> typed_value \<Rightarrow> element \<Rightarrow> fq \<Rightarrow> note_commitment" where
  "note_commitment_new C note_blinding v g_d transmission_key_s =
     poseidon_5 C (NOTECOMMIT_DOMAIN_SEP C)
       (note_blinding, fq_of_u64 C (val_amount v), val_asset_id v, el_to_field C g_d, transmission_key_s)"

definition note_commit :: "crypto \<Rightarrow> note_t \<Rightarrow> note_commitment" where
  "note_commit C n =
     note_commitment_new C (nt_note_blinding n) (nt_value n) (note_diversified_generator C n) (nt_transmission_key_s n)"

definition note_commitment_of_bytes :: "crypto \<Rightarrow> bytes \<Rightarrow> note_commitment result" where
  "note_commitment_of_bytes C b =
     bindR (ok_or (Err ''Invalid note commitment'') (array 32 b)) (\<lambda>b.
     ok_or (Err ''Invalid note commitment'') (fq_from_bytes C b))"

definition note_commitment_to_bytes :: "crypto \<Rightarrow> note_commitment \<Rightarrow> bytes" where
  "note_commitment_to_bytes C c = fq_to_bytes C c"

definition nullifier_of_slice :: "crypto \<Rightarrow> bytes \<Rightarrow> nullifier result" where
  "nullifier_of_slice C b =
     bindR (ok_or (Err ''TryFromSliceError'') (array 32 b)) (\<lambda>b. ok_or (Err ''fq'') (fq_from_bytes C b))"

definition nullifier_to_bytes :: "crypto \<Rightarrow> nullifier \<Rightarrow> bytes" where
  "nullifier_to_bytes C n = fq_to_bytes C n"

section \<open>The byte form\<close>

definition note_to_bytes :: "crypto \<Rightarrow> note_t \<Rightarrow> bytes" where
  "note_to_bytes C n =
     [0] @ nt_diversifier n @ to_le_bytes (note_amount n) @ fq_to_bytes C (note_asset_id n)
       @ fq_to_bytes C (nt_note_blinding n) @ nt_transmission_key n"

definition note_of_bytes :: "crypto \<Rightarrow> bytes \<Rightarrow> note_t result" where
  "note_of_bytes C b =
     (if length b \<noteq> 116 then Inl (Err ''Note deserialization error'')
      else if b ! 0 \<noteq> 0 then Inl (Err ''Note type unsupported'')
      else
        bindR (ok_or (Err ''Note deserialization error'') (fq_from_bytes C (slice 20 52 b))) (\<lambda>asset.
        bindR (ok_or (Err ''Note deserialization error'') (fq_from_bytes C (slice 52 84 b))) (\<lambda>blinding.
        note_from_parts C (slice 1 12 b) (slice 84 116 b)
          \<lparr>val_amount = from_le_bytes (slice 12 20 b), val_asset_id = asset\<rparr> blinding)))"

section \<open>Encryption\<close>

definition NOTE_ENCRYPTION_NONCE :: bytes where
  "NOTE_ENCRYPTION_NONCE = replicate 12 0"

definition derive_symmetric_key :: "crypto \<Rightarrow> bytes \<Rightarrow> ka_public \<Rightarrow> bytes" where
  "derive_symmetric_key C shared_secret epk = blake2b_32 C (shared_secret @ epk)"

definition note_encrypt :: "crypto \<Rightarrow> note_t \<Rightarrow> ka_secret \<Rightarrow> bytes result" where
  "note_encrypt C n esk =
     (let epk = diversified_public C esk (note_diversified_generator C n) in
      bindR (unwrapR (key_agreement_with C esk (nt_transmission_key n))) (\<lambda>shared_secret.
      let key = derive_symmetric_key C shared_secret epk in
      bindR (ok_or (Panic ''note encryption succeeded'')
               (aead_encrypt C key NOTE_ENCRYPTION_NONCE (note_to_bytes C n))) (\<lambda>c.
      ok_or (Panic ''note encryption result fits in ciphertext len'') (array 132 c))))"

definition note_decrypt :: "crypto \<Rightarrow> bytes \<Rightarrow> incoming_viewing_key \<Rightarrow> ka_public \<Rightarrow> note_t result" where
  "note_decrypt C ciphertext ivk epk =
     (if length ciphertext \<noteq> 132 then Inl (Err ''Decryption error'')
      else
        contextR ''Decryption error''
         (bindR (key_agreement_with C (ivk_secret ivk) epk) (\<lambda>shared_secret.
          let key = derive_symmetric_key C shared_secret epk in
          bindR (ok_or (Err ''Decryption error'') (aead_decrypt C key NOTE_ENCRYPTION_NONCE ciphertext)) (\<lambda>plaintext.
          bindR (ok_or (Err ''Decryption error'') (array 116 plaintext)) (\<lambda>b.
          note_of_bytes C b)))))"

definition note_encrypt_key :: "crypto \<Rightarrow> note_t \<Rightarrow> ka_secret \<Rightarrow> bytes \<Rightarrow> value_commitment \<Rightarrow> bytes result" where
  "note_encrypt_key C n esk ovk cv =
     (let cv_bytes = value_commitment_to_bytes C cv;
          cm_bytes = fq_to_bytes C (note_commit C n);
          epk = diversified_public C esk (note_diversified_generator C n);
          ock = blake2b_32 C (ovk @ cv_bytes @ cm_bytes @ epk);
          p = nt_transmission_key n @ ka_secret_to_bytes C esk in
      bindR (ok_or (Panic ''OVK encryption succeeded'') (aead_encrypt C ock NOTE_ENCRYPTION_NONCE p)) (\<lambda>c.
      ok_or (Panic ''OVK encryption result fits in ciphertext len'') (array 80 c)))"

section \<open>Memos\<close>

definition MEMO_ENCRYPTION_NONCE :: bytes where
  "MEMO_ENCRYPTION_NONCE = 1 # replicate 11 0"

definition memo_default :: bytes where
  "memo_default = replicate 512 0"

definition memo_of_string :: "string \<Rightarrow> bytes result" where
  "memo_of_string input =
     (if 512 < length input then Inl (Err ''provided memo exceeds maximum memo size'')
      else Inr (ascii input @ replicate (512 - length input) 0))"

definition memo_encrypt :: "crypto \<Rightarrow> bytes \<Rightarrow> ka_secret \<Rightarrow> address \<Rightarrow> bytes result" where
  "memo_encrypt C memo esk a =
     (let epk = diversified_public C esk (ad_g_d a) in
      bindR (unwrapR (key_agreement_with C esk (ad_pk_d a))) (\<lambda>shared_secret.
      let key = derive_symmetric_key C shared_secret epk in
      bindR (ok_or (Panic ''memo encryption succeeded'') (aead_encrypt C key MEMO_ENCRYPTION_NONCE memo)) (\<lambda>c.
      ok_or (Panic ''memo encryption result fits in ciphertext len'') (array 528 c))))"

definition memo_decrypt :: "crypto \<Rightarrow> bytes \<Rightarrow> incoming_viewing_key \<Rightarrow> ka_public \<Rightarrow> bytes result" where
  "memo_decrypt C ciphertext ivk epk =
     bindR (contextR ''could not perform key agreement'' (key_agreement_with C (ivk_secret ivk) epk)) (\<lambda>shared_secret.
     let key = derive_symmetric_key C shared_secret epk in
     bindR (ok_or (Err ''decryption error'') (aead_decrypt C key MEMO_ENCRYPTION_NONCE ciphertext)) (\<lambda>plaintext.
     ok_or (Err ''could not fit plaintext into memo size'') (array 512 plaintext)))"

section \<open>The note commitment tree\<close>

definition MERKLE_DEPTH :: nat where
  "MERKLE_DEPTH = 32"

definition MERKLE_DOMAIN_SEP :: "crypto \<Rightarrow> fq" where
  "MERKLE_DOMAIN_SEP C = fq_mod_order C (blake2b C [] [] (ascii ''penumbra.merkle.tree''))"

definition merkle_combine :: "crypto \<Rightarrow> nat \<Rightarrow> note_commitment \<Rightarrow> note_commitment \<Rightarrow> note_commitment" where
  "merkle_combine C level a b = poseidon_2 C (fq_add C (MERKLE_DOMAIN_SEP C) (fq_of_u64 C (of_nat level))) (a, b)"

record auth_path =
  ap_note_commitment :: note_commitment
  ap_position :: u64
  ap_path :: "note_commitment list"

text \<open>The protobuf message has the position in 32 bits.\<close>

definition auth_path_to_proto :: "crypto \<Rightarrow> auth_path \<Rightarrow> u32 \<times> bytes option \<times> bytes list" where
  "auth_path_to_proto C p =
     (ucast (ap_position p), Some (note_commitment_to_bytes C (ap_note_commitment p)),
      map (note_commitment_to_bytes C) (ap_path p))"

definition auth_path_of_proto :: "crypto \<Rightarrow> u32 \<times> bytes option \<times> bytes list \<Rightarrow> auth_path result" where
  "auth_path_of_proto C m =
     (case m of (position, cm, segments) \<Rightarrow>
        bindR (ok_or (Err ''missing note commitment'') cm) (\<lambda>cm.
        bindR (note_commitment_of_bytes C cm) (\<lambda>cm.
        bindR (mapR (note_commitment_of_bytes C) segments) (\<lambda>path.
        Inr \<lparr>ap_note_commitment = cm, ap_position = ucast position, ap_path = path\<rparr>))))"

definition merkle_root_of_slice :: "crypto \<Rightarrow> bytes \<Rightarrow> merkle_root result" where
  "merkle_root_of_slice C b =
     bindR (ok_or (Err ''TryFromSliceError'') (array 32 b)) (\<lambda>b. ok_or (Err ''fq'') (fq_from_bytes C b))"

section \<open>Round trips\<close>

text \<open>What the constructors of \<open>Note\<close> ensure.\<close>

definition note_ok :: "crypto \<Rightarrow> note_t \<Rightarrow> bool" where
  "note_ok C n \<longleftrightarrow> length (nt_diversifier n) = 11 \<and> length (nt_transmission_key n) = 32
     \<and> fq_from_bytes C (nt_transmission_key n) = Some (nt_transmission_key_s n)"

lemma length_note_to_bytes: "encoding_ok C \<Longrightarrow> note_ok C n \<Longrightarrow> length (note_to_bytes C n) = 116"
  by (simp add: note_to_bytes_def encoding_laws note_ok_def)

lemma note_bytes_roundtrip:
  assumes "encoding_ok C" and "note_ok C n"
  shows "note_of_bytes C (note_to_bytes C n) = Inr n"
proof -
  have l: "length (nt_diversifier n) = 11" "length (nt_transmission_key n) = 32" using assms(2) by (simp_all add: note_ok_def)
  let ?b = "note_to_bytes C n"
  have "slice 1 12 ?b = nt_diversifier n" "slice 12 20 ?b = to_le_bytes (note_amount n)"
    "slice 20 52 ?b = fq_to_bytes C (note_asset_id n)" "slice 52 84 ?b = fq_to_bytes C (nt_note_blinding n)"
    "slice 84 116 ?b = nt_transmission_key n" "?b ! 0 = 0"
    by (simp_all add: note_to_bytes_def slice_def l encoding_laws [OF assms(1)])
  then show ?thesis
    using assms length_note_to_bytes [OF assms]
    by (simp add: note_of_bytes_def encoding_laws note_from_parts_def note_ok_def note_amount_def note_asset_id_def)
qed

lemma note_generate_Inr:
  assumes "note_generate C g a v = Inr (n, g')"
  shows "nt_value n = v" "nt_diversifier n = ad_d a" "nt_transmission_key n = ad_pk_d a"
    "fq_from_bytes C (ad_pk_d a) = Some (nt_transmission_key_s n)"
  using assms by (auto simp: note_generate_def Let_def note_from_parts_def result_simps split: prod.splits)

lemma note_ok_generate:
  "note_generate C g a v = Inr (n, g') \<Longrightarrow> address_ok C a \<Longrightarrow> note_ok C n"
  using note_generate_Inr by (fastforce simp: note_ok_def address_ok_def)

lemma note_encrypt_decrypts:
  assumes g: "group_ok C" and e: "encoding_ok C" and aead: "aead_ok C" and ok: "note_ok C n"
    and tk: "nt_transmission_key n = diversified_public C (ivk_secret ivk) (note_diversified_generator C n)"
  shows "\<exists>c. note_encrypt C n esk = Inr c \<and> length c = 132
    \<and> note_decrypt C c ivk (diversified_public C esk (note_diversified_generator C n)) = Inr n"
proof -
  let ?gd = "note_diversified_generator C n"
  obtain ss where ss: "key_agreement_with C esk (nt_transmission_key n) = Inr ss"
    "key_agreement_with C (ivk_secret ivk) (diversified_public C esk ?gd) = Inr ss"
    using key_agreement_symmetric [OF g e, of esk "ivk_secret ivk" ?gd] tk by auto
  let ?key = "derive_symmetric_key C ss (diversified_public C esk ?gd)"
  obtain c where c: "aead_encrypt C ?key NOTE_ENCRYPTION_NONCE (note_to_bytes C n) = Some c"
    "length c = 132" "aead_decrypt C ?key NOTE_ENCRYPTION_NONCE c = Some (note_to_bytes C n)"
    by (rule aead_obtain [OF aead length_note_to_bytes [OF e ok]]) simp
  then show ?thesis
    using ss note_bytes_roundtrip [OF e ok] length_note_to_bytes [OF e ok]
    by (simp add: note_encrypt_def note_decrypt_def Let_def)
qed

text \<open>
  C16: a note for an address is encrypted to 132 bytes, and the incoming viewing key of that address
  decrypts them, with the ephemeral key of the output, to the note itself.
\<close>

theorem note_decrypt_encrypt:
  assumes g: "group_ok C" and e: "encoding_ok C" and aead: "aead_ok C" and ok: "note_ok C n"
    and tk: "nt_transmission_key n = diversified_public C (ivk_secret ivk) (note_diversified_generator C n)"
  shows "\<exists>c. note_encrypt C n esk = Inr c \<and> length c = 132
    \<and> note_decrypt C c ivk (diversified_public C esk (note_diversified_generator C n)) = Inr n"
  by (rule note_encrypt_decrypts [OF assms])

lemma memo_decrypt_encrypt:
  assumes g: "group_ok C" and e: "encoding_ok C" and aead: "aead_ok C" and l: "length memo = 512"
    and pk: "ad_pk_d a = diversified_public C (ivk_secret ivk) (ad_g_d a)"
  shows "\<exists>c. memo_encrypt C memo esk a = Inr c
    \<and> memo_decrypt C c ivk (diversified_public C esk (ad_g_d a)) = Inr memo"
proof -
  obtain ss where ss: "key_agreement_with C esk (ad_pk_d a) = Inr ss"
    "key_agreement_with C (ivk_secret ivk) (diversified_public C esk (ad_g_d a)) = Inr ss"
    using key_agreement_symmetric [OF g e, of esk "ivk_secret ivk" "ad_g_d a"] pk by auto
  obtain c where "aead_encrypt C (derive_symmetric_key C ss (diversified_public C esk (ad_g_d a))) MEMO_ENCRYPTION_NONCE memo = Some c"
    "length c = length memo + 16" "aead_decrypt C (derive_symmetric_key C ss (diversified_public C esk (ad_g_d a))) MEMO_ENCRYPTION_NONCE c = Some memo"
    by (rule aead_obtain [OF aead refl])
  with ss l show ?thesis by (simp add: memo_encrypt_def memo_decrypt_def Let_def)
qed

text \<open>An authentication path survives its protobuf form if its position has 32 bits.\<close>

lemma auth_path_roundtrip:
  assumes "encoding_ok C" and "unat (ap_position p) < 2 ^ 32"
  shows "auth_path_of_proto C (auth_path_to_proto C p) = Inr p"
proof -
  have s: "note_commitment_of_bytes C (note_commitment_to_bytes C c) = Inr c" for c
    by (simp add: note_commitment_of_bytes_def note_commitment_to_bytes_def encoding_laws [OF assms(1)])
  have "mapR (note_commitment_of_bytes C) (map (note_commitment_to_bytes C) cs) = Inr cs" for cs
    by (induction cs) (simp_all add: s)
  moreover have "(ucast (ucast (ap_position p) :: u32) :: u64) = ap_position p"
    using assms(2) by (rule ucast_down_up)
  ultimately show ?thesis by (simp add: auth_path_of_proto_def auth_path_to_proto_def s)
qed

end
