(* ===== verification/Transparent.thy ===== *)
theory Transparent
  imports Note
begin

text \<open>
  The transparent proofs of spends and outputs (\<open>crypto/src/proofs/transparent.rs\<close>): verification, the
  protobuf form, and what verification accepts.
\<close>

section \<open>Spend proofs\<close>

record spend_proof =
  spf_merkle_path :: "u64 \<times> note_commitment list"
  spf_position :: u64
  spf_g_d :: element
  spf_pk_d :: ka_public
  spf_value :: typed_value
  spf_v_blinding :: fr
  spf_note_commitment :: note_commitment
  spf_note_blinding :: fq
  spf_spend_auth_randomizer :: fr
  spf_ak :: verification_key
  spf_nk :: nullifier_key

text \<open>The root that a path leads to; bit \<open>lvl\<close> of the position says on which side the path's node is.\<close>

fun merkle_path_root :: "crypto \<Rightarrow> u64 \<Rightarrow> nat \<Rightarrow> note_commitment \<Rightarrow> note_commitment list \<Rightarrow> note_commitment" where
  "merkle_path_root C pos lvl cur [] = cur"
| "merkle_path_root C pos lvl cur (v # vs) =
     merkle_path_root C pos (Suc lvl)
       (if bit pos lvl then merkle_combine C lvl v cur else merkle_combine C lvl cur v) vs"

text \<open>
  What the note commitment tree promises: an authentication path has one node per level and leads
  from the commitment to the root of the tree.
\<close>

definition nct_ok :: "crypto \<Rightarrow> bool" where
  "nct_ok C \<longleftrightarrow> (\<forall>t cm pos path. nct_auth_path C t cm = Some (pos, path) \<longrightarrow>
     length path = MERKLE_DEPTH \<and> merkle_path_root C pos 0 cm path = nct_root C t)"

definition spend_proof_verify ::
  "crypto \<Rightarrow> spend_proof \<Rightarrow> merkle_root \<Rightarrow> value_commitment \<Rightarrow> nullifier \<Rightarrow> verification_key \<Rightarrow> unit result" where
  "spend_proof_verify C p anchor cv nf rk =
     bindR (case fq_from_bytes C (spf_pk_d p) of
        Some transmission_key_s \<Rightarrow>
          ensure (Err ''Note commitment mismatch'') (spf_note_commitment p =
            note_commitment_new C (spf_note_blinding p) (spf_value p) (spf_g_d p) transmission_key_s)
      | None \<Rightarrow> Inl (Err ''Transmission key mismatch'')) (\<lambda>_.
     bindR (ensure (Err ''Unexpected depth for merkle path'') (length (snd (spf_merkle_path p)) = MERKLE_DEPTH)) (\<lambda>_.
     bindR (ensure (Err ''Merkle root mismatch'')
              (merkle_path_root C (spf_position p) 0 (spf_note_commitment p) (snd (spf_merkle_path p)) = anchor)) (\<lambda>_.
     bindR (ensure (Err ''Value commitment mismatch'') (value_commit C (spf_value p) (spf_v_blinding p) = cv)) (\<lambda>_.
     bindR (ensure (Err ''Must not be an identity'') (\<not> (spf_g_d p = el_zero C \<or> vk_is_identity C (spf_ak p)))) (\<lambda>_.
     bindR (ensure (Err ''Bad nullifier'')
              (nf = derive_nullifier C (spf_nk p) (spf_position p) (spf_note_commitment p))) (\<lambda>_.
     bindR (ensure (Err ''Invalid spend auth randomizer'')
              (rk = vk_randomize C (spf_ak p) (spf_spend_auth_randomizer p))) (\<lambda>_.
     bindR (fvk_from_components C (spf_ak p) (spf_nk p)) (\<lambda>fvk.
     ensure (Err ''Invalid diversified address'')
       (spf_pk_d p = diversified_public C (ivk_secret (fvk_ivk fvk)) (spf_g_d p))))))))))"

section \<open>Output proofs\<close>

record output_proof =
  opf_g_d :: element
  opf_pk_d :: ka_public
  opf_value :: typed_value
  opf_v_blinding :: fr
  opf_note_blinding :: fq
  opf_esk :: ka_secret

definition output_proof_verify ::
  "crypto \<Rightarrow> output_proof \<Rightarrow> value_commitment \<Rightarrow> note_commitment \<Rightarrow> ka_public \<Rightarrow> unit result" where
  "output_proof_verify C p cv cm epk =
     bindR (case fq_from_bytes C (opf_pk_d p) of
        Some transmission_key_s \<Rightarrow>
          ensure (Err ''Note commitment mismatch'') (cm =
            note_commitment_new C (opf_note_blinding p) (opf_value p) (opf_g_d p) transmission_key_s)
      | None \<Rightarrow> Inl (Err ''Transmission key mismatch'')) (\<lambda>_.
     bindR (ensure (Err ''Value commitment mismatch'') (cv = el_neg C (value_commit C (opf_value p) (opf_v_blinding p)))) (\<lambda>_.
     bindR (ensure (Err ''Ephemeral public key mismatch'') (diversified_public C (opf_esk p) (opf_g_d p) = epk)) (\<lambda>_.
     ensure (Err ''Must not be an identity'') (opf_g_d p \<noteq> el_zero C))))"

section \<open>The protobuf form\<close>

record spend_proof_pb =
  spb_merkle_path_field_0 :: u32
  spb_merkle_path_field_1 :: "bytes list"
  spb_position :: u64
  spb_g_d :: bytes
  spb_pk_d :: bytes
  spb_value_amount :: u64
  spb_value_asset_id :: bytes
  spb_v_blinding :: bytes
  spb_note_commitment :: bytes
  spb_note_blinding :: bytes
  spb_spend_auth_randomizer :: bytes
  spb_ak :: bytes
  spb_nk :: bytes

definition spend_proof_to_proto :: "crypto \<Rightarrow> spend_proof \<Rightarrow> spend_proof_pb" where
  "spend_proof_to_proto C p =
     \<lparr>spb_merkle_path_field_0 = ucast (fst (spf_merkle_path p)),
      spb_merkle_path_field_1 = map (fq_to_bytes C) (snd (spf_merkle_path p)),
      spb_position = spf_position p,
      spb_g_d = el_compress C (spf_g_d p),
      spb_pk_d = spf_pk_d p,
      spb_value_amount = val_amount (spf_value p),
      spb_value_asset_id = fq_to_bytes C (val_asset_id (spf_value p)),
      spb_v_blinding = fr_to_bytes C (spf_v_blinding p),
      spb_note_commitment = fq_to_bytes C (spf_note_commitment p),
      spb_note_blinding = fq_to_bytes C (spf_note_blinding p),
      spb_spend_auth_randomizer = fr_to_bytes C (spf_spend_auth_randomizer p),
      spb_ak = spf_ak p,
      spb_nk = fq_to_bytes C (spf_nk p)\<rparr>"

text \<open>The conversions of 32 byte fields, each of which fails with \<open>ProtoMalformed\<close>.\<close>

definition malformed :: "'a option \<Rightarrow> 'a result" where
  "malformed x = ok_or (Err ''Transparent proof proto malformed'') x"

definition fq_field :: "crypto \<Rightarrow> bytes \<Rightarrow> fq result" where
  "fq_field C b = bindR (malformed (array 32 b)) (\<lambda>b. malformed (fq_from_bytes C b))"

definition fr_field :: "crypto \<Rightarrow> bytes \<Rightarrow> fr result" where
  "fr_field C b = bindR (malformed (array 32 b)) (\<lambda>b. malformed (fr_from_bytes C b))"

definition el_field :: "crypto \<Rightarrow> bytes \<Rightarrow> element result" where
  "el_field C b = bindR (malformed (array 32 b)) (\<lambda>b. malformed (el_decompress C b))"

definition spend_proof_of_proto :: "crypto \<Rightarrow> spend_proof_pb \<Rightarrow> spend_proof result" where
  "spend_proof_of_proto C m =
     bindR (malformed (array 32 (spb_ak m))) (\<lambda>ak_bytes.
     bindR (malformed (vk_parse C ak_bytes)) (\<lambda>ak.
     bindR (mapR (fq_field C) (spb_merkle_path_field_1 m)) (\<lambda>path.
     bindR (el_field C (spb_g_d m)) (\<lambda>g_d.
     bindR (malformed (array 32 (spb_pk_d m))) (\<lambda>pk_d.
     bindR (fq_field C (spb_value_asset_id m)) (\<lambda>asset.
     bindR (fr_field C (spb_v_blinding m)) (\<lambda>v_blinding.
     bindR (fq_field C (spb_note_commitment m)) (\<lambda>cm.
     bindR (fq_field C (spb_note_blinding m)) (\<lambda>note_blinding.
     bindR (fr_field C (spb_spend_auth_randomizer m)) (\<lambda>randomizer.
     bindR (fq_field C (spb_nk m)) (\<lambda>nk.
     Inr \<lparr>spf_merkle_path = (ucast (spb_merkle_path_field_0 m), path), spf_position = spb_position m,
          spf_g_d = g_d, spf_pk_d = pk_d,
          spf_value = \<lparr>val_amount = spb_value_amount m, val_asset_id = asset\<rparr>,
          spf_v_blinding = v_blinding, spf_note_commitment = cm, spf_note_blinding = note_blinding,
          spf_spend_auth_randomizer = randomizer, spf_ak = ak, spf_nk = nk\<rparr>)))))))))))"

record output_proof_pb =
  opb_g_d :: bytes
  opb_pk_d :: bytes
  opb_value_amount :: u64
  opb_value_asset_id :: bytes
  opb_v_blinding :: bytes
  opb_note_blinding :: bytes
  opb_esk :: bytes

definition output_proof_to_proto :: "crypto \<Rightarrow> output_proof \<Rightarrow> output_proof_pb" where
  "output_proof_to_proto C p =
     \<lparr>opb_g_d = el_compress C (opf_g_d p), opb_pk_d = opf_pk_d p,
      opb_value_amount = val_amount (opf_value p), opb_value_asset_id = fq_to_bytes C (val_asset_id (opf_value p)),
      opb_v_blinding = fr_to_bytes C (opf_v_blinding p), opb_note_blinding = fq_to_bytes C (opf_note_blinding p),
      opb_esk = ka_secret_to_bytes C (opf_esk p)\<rparr>"

definition output_proof_of_proto :: "crypto \<Rightarrow> output_proof_pb \<Rightarrow> output_proof result" where
  "output_proof_of_proto C m =
     bindR (fr_field C (opb_esk m)) (\<lambda>esk.
     bindR (el_field C (opb_g_d m)) (\<lambda>g_d.
     bindR (malformed (array 32 (opb_pk_d m))) (\<lambda>pk_d.
     bindR (fq_field C (opb_value_asset_id m)) (\<lambda>asset.
     bindR (fr_field C (opb_v_blinding m)) (\<lambda>v_blinding.
     bindR (fq_field C (opb_note_blinding m)) (\<lambda>note_blinding.
     Inr \<lparr>opf_g_d = g_d, opf_pk_d = pk_d,
          opf_value = \<lparr>val_amount = opb_value_amount m, val_asset_id = asset\<rparr>,
          opf_v_blinding = v_blinding, opf_note_blinding = note_blinding, opf_esk = esk\<rparr>))))))"

section \<open>What verification checks\<close>

lemma spend_proof_verify_iff:
  "spend_proof_verify C p anchor cv nf rk = Inr () \<longleftrightarrow>
     (\<exists>s fvk. fq_from_bytes C (spf_pk_d p) = Some s
       \<and> spf_note_commitment p = note_commitment_new C (spf_note_blinding p) (spf_value p) (spf_g_d p) s
       \<and> length (snd (spf_merkle_path p)) = 32
       \<and> merkle_path_root C (spf_position p) 0 (spf_note_commitment p) (snd (spf_merkle_path p)) = anchor
       \<and> value_commit C (spf_value p) (spf_v_blinding p) = cv
       \<and> spf_g_d p \<noteq> el_zero C \<and> \<not> vk_is_identity C (spf_ak p)
       \<and> nf = derive_nullifier C (spf_nk p) (spf_position p) (spf_note_commitment p)
       \<and> rk = vk_randomize C (spf_ak p) (spf_spend_auth_randomizer p)
       \<and> fvk_from_components C (spf_ak p) (spf_nk p) = Inr fvk
       \<and> spf_pk_d p = diversified_public C (ivk_secret (fvk_ivk fvk)) (spf_g_d p))"
  by (auto simp: spend_proof_verify_def MERKLE_DEPTH_def result_simps split: option.splits)

lemma output_proof_verify_iff:
  "output_proof_verify C p cv cm epk = Inr () \<longleftrightarrow>
     (\<exists>s. fq_from_bytes C (opf_pk_d p) = Some s
       \<and> cm = note_commitment_new C (opf_note_blinding p) (opf_value p) (opf_g_d p) s
       \<and> cv = el_neg C (value_commit C (opf_value p) (opf_v_blinding p))
       \<and> diversified_public C (opf_esk p) (opf_g_d p) = epk \<and> opf_g_d p \<noteq> el_zero C)"
  by (auto simp: output_proof_verify_def result_simps split: option.splits)

text \<open>Only the bits of the position below the length of the path matter for the root.\<close>

lemma merkle_path_root_cong:
  assumes "\<And>i. lvl \<le> i \<Longrightarrow> i < lvl + length path \<Longrightarrow> bit pos i = bit pos' i"
  shows "merkle_path_root C pos lvl cur path = merkle_path_root C pos' lvl cur path"
  using assms
proof (induction path arbitrary: lvl cur)
  case (Cons v vs)
  have "merkle_path_root C pos (Suc lvl) x vs = merkle_path_root C pos' (Suc lvl) x vs" for x
    by (rule Cons.IH) (use Cons.prems in auto)
  moreover have "bit pos lvl = bit pos' lvl" using Cons.prems [of lvl] by simp
  ultimately show ?case by simp
qed simp

text \<open>
  C15: verification accepts more than one nullifier for one note.  The nullifier is derived from all 64
  bits of the position in the proof, but the path has 32 nodes, so that the bits from 32 on are not
  compared with anything: with one of them flipped the proof still verifies, for the nullifier of the
  changed position.  That is a different nullifier unless the hash collides.
\<close>

theorem spend_proof_position_malleable:
  assumes v: "spend_proof_verify C p anchor cv nf rk = Inr ()" and k: "32 \<le> k" "k < 64"
  defines "p' \<equiv> p\<lparr>spf_position := flip_bit k (spf_position p)\<rparr>"
  shows "spend_proof_verify C p' anchor cv
      (derive_nullifier C (spf_nk p) (flip_bit k (spf_position p)) (spf_note_commitment p)) rk = Inr ()
    \<and> spf_note_commitment p' = spf_note_commitment p \<and> spf_nk p' = spf_nk p
    \<and> flip_bit k (spf_position p) \<noteq> spf_position p
    \<and> nf = derive_nullifier C (spf_nk p) (spf_position p) (spf_note_commitment p)"
proof -
  have l: "length (snd (spf_merkle_path p)) = 32" using v by (auto simp: spend_proof_verify_iff)
  have b: "bit (flip_bit k (spf_position p)) i = bit (spf_position p) i" if "i < 32" for i
    using that k by (auto simp: bit_flip_bit_iff)
  have "merkle_path_root C (flip_bit k (spf_position p)) 0 c (snd (spf_merkle_path p))
      = merkle_path_root C (spf_position p) 0 c (snd (spf_merkle_path p))" for c
    by (rule merkle_path_root_cong) (use l b in auto)
  moreover have "bit (flip_bit k (spf_position p)) k \<noteq> bit (spf_position p) k"
    using k by (auto simp: bit_flip_bit_iff)
  then have "flip_bit k (spf_position p) \<noteq> spf_position p" by metis
  ultimately show ?thesis using v by (auto simp: spend_proof_verify_iff p'_def)
qed

section \<open>The protobuf form reads back\<close>

lemma fields_roundtrip:
  assumes "encoding_ok C"
  shows "fq_field C (fq_to_bytes C x) = Inr x" "fr_field C (fr_to_bytes C y) = Inr y"
    "el_field C (el_compress C e) = Inr e" "mapR (fq_field C) (map (fq_to_bytes C) xs) = Inr xs"
proof -
  show s: "fq_field C (fq_to_bytes C x) = Inr x" for x
    by (simp add: fq_field_def malformed_def encoding_laws [OF assms])
  show "fr_field C (fr_to_bytes C y) = Inr y" "el_field C (el_compress C e) = Inr e"
    by (simp_all add: fr_field_def el_field_def malformed_def encoding_laws [OF assms])
  show "mapR (fq_field C) (map (fq_to_bytes C) xs) = Inr xs" by (induction xs) (simp_all add: s)
qed

text \<open>
  Spend and output proofs read back from their protobuf form.  The position inside the Merkle path
  is cut to 32 bits there; the separate position is not.
\<close>

lemma spend_proof_proto_roundtrip:
  assumes "encoding_ok C" and "length (spf_pk_d p) = 32" and "length (spf_ak p) = 32"
    and "vk_parse C (spf_ak p) = Some (spf_ak p)" and "unat (fst (spf_merkle_path p)) < 2 ^ 32"
  shows "spend_proof_of_proto C (spend_proof_to_proto C p) = Inr p"
  using assms fields_roundtrip [OF assms(1)]
  by (cases "spf_merkle_path p") (simp add: spend_proof_of_proto_def spend_proof_to_proto_def malformed_def ucast_down_up)

lemma output_proof_proto_roundtrip:
  assumes "encoding_ok C" and "length (opf_pk_d q) = 32"
  shows "output_proof_of_proto C (output_proof_to_proto C q) = Inr q"
  using assms fields_roundtrip [OF assms(1)]
  by (simp add: output_proof_of_proto_def output_proof_to_proto_def malformed_def ka_secret_to_bytes_def)

end
