(* ===== verification/Tx.thy ===== *)
theory Tx
  imports Chain Rates IBC_Types Transparent
begin

text \<open>
  Transactions as the components see them (\<open>transaction/src/transaction.rs\<close>,
  \<open>action.rs\<close>), their value balance and the hash that is signed (\<open>proto/src/lib.rs\<close>), the parsing of
  validator definitions (\<open>stake/src/validator.rs\<close>, \<open>validator/definition.rs\<close>), and the record \<open>ext\<close> of
  the functions the modelled code calls but does not define: the cryptographic crates,
  Tendermint's height, address and key types, and the protobuf encoders.
\<close>

section \<open>Actions\<close>

record output_body =
  ob_note_commitment :: note_commitment
  ob_ephemeral_key :: ka_public
  ob_encrypted_note :: bytes

record tx_output =
  out_body :: output_body
  out_value_commitment :: value_commitment
  out_encrypted_memo :: bytes
  out_ovk_wrapped_key :: bytes
  out_proof :: output_proof

record spend_body =
  sb_value_commitment :: value_commitment
  sb_nullifier :: nullifier
  sb_rk :: verification_key
  sb_proof :: spend_proof

record spend =
  sp_body :: spend_body
  sp_auth_sig :: signature

record validator_pb =
  vpb_identity_key :: "u8 list option"
  vpb_consensus_key :: "u8 list"
  vpb_name :: string
  vpb_website :: string
  vpb_description :: string
  vpb_funding_streams :: "funding_stream_pb list"
  vpb_sequence_number :: u32

record definition_pb =
  dpb_validator :: "validator_pb option"
  dpb_auth_sig :: "u8 list"

datatype action =
    Output tx_output
  | Spend spend
  | Delegate delegate
  | Undelegate undelegate
  | ValidatorDefinition definition_pb
  | IBCAction ibc_action

record transaction_body =
  tb_actions :: "action list"
  tb_merkle_root :: merkle_root
  tb_expiry_height :: u32
  tb_chain_id :: string
  tb_fee :: u64

record transaction =
  tx_body :: transaction_body
  tx_binding_sig :: signature

definition actions :: "transaction \<Rightarrow> action list" where
  "actions tx = tb_actions (tx_body tx)"

definition delegations :: "transaction \<Rightarrow> delegate list" where
  "delegations tx = List.map_filter (\<lambda>a. case a of Delegate d \<Rightarrow> Some d | _ \<Rightarrow> None) (actions tx)"

definition undelegations :: "transaction \<Rightarrow> undelegate list" where
  "undelegations tx = List.map_filter (\<lambda>a. case a of Undelegate u \<Rightarrow> Some u | _ \<Rightarrow> None) (actions tx)"

definition ibc_actions :: "transaction \<Rightarrow> ibc_action list" where
  "ibc_actions tx = List.map_filter (\<lambda>a. case a of IBCAction b \<Rightarrow> Some b | _ \<Rightarrow> None) (actions tx)"

definition validator_definitions :: "transaction \<Rightarrow> definition_pb list" where
  "validator_definitions tx =
     List.map_filter (\<lambda>a. case a of ValidatorDefinition d \<Rightarrow> Some d | _ \<Rightarrow> None) (actions tx)"

definition output_bodies :: "transaction \<Rightarrow> output_body list" where
  "output_bodies tx = List.map_filter (\<lambda>a. case a of Output out \<Rightarrow> Some (out_body out) | _ \<Rightarrow> None) (actions tx)"

definition spent_nullifiers :: "transaction \<Rightarrow> nullifier list" where
  "spent_nullifiers tx =
     List.map_filter (\<lambda>a. case a of Spend sp \<Rightarrow> Some (sb_nullifier (sp_body sp)) | _ \<Rightarrow> None) (actions tx)"

section \<open>The signed hash\<close>

text \<open>The content of a transaction without its signatures.\<close>

datatype sighash_action =
    SHOutput tx_output
  | SHSpend spend_body
  | SHDelegate delegate
  | SHUndelegate undelegate
  | SHValidatorDefinition definition_pb
  | SHIbcAction ibc_action

record sighash_transaction =
  sh_actions :: "sighash_action list"
  sh_anchor :: merkle_root
  sh_expiry_height :: u32
  sh_chain_id :: string
  sh_fee :: u64

fun to_sighash_action :: "action \<Rightarrow> sighash_action" where
  "to_sighash_action (Output out) = SHOutput out"
| "to_sighash_action (Delegate d) = SHDelegate d"
| "to_sighash_action (Undelegate u) = SHUndelegate u"
| "to_sighash_action (ValidatorDefinition vd) = SHValidatorDefinition vd"
| "to_sighash_action (Spend sp) = SHSpend (sp_body sp)"
| "to_sighash_action (IBCAction i) = SHIbcAction i"

definition to_sighash_transaction :: "transaction_body \<Rightarrow> sighash_transaction" where
  "to_sighash_transaction tb =
     \<lparr>sh_actions = map to_sighash_action (tb_actions tb), sh_anchor = tb_merkle_root tb,
      sh_expiry_height = tb_expiry_height tb, sh_chain_id = tb_chain_id tb, sh_fee = tb_fee tb\<rparr>"

section \<open>Functions outside the repository\<close>

record ext =
  x_crypto :: crypto
  x_height :: height_conv                          \<comment> \<open>\<open>tendermint::block::Height::try_from\<close>\<close>
  x_addr20 :: "public_key \<Rightarrow> u8 list"               \<comment> \<open>truncated \<open>Sha256\<close> of a consensus key\<close>
  x_raw_ed25519 :: "u8 list \<Rightarrow> public_key option"   \<comment> \<open>\<open>PublicKey::from_raw_ed25519\<close>\<close>
  x_sig :: "u8 list \<Rightarrow> u8 list result"               \<comment> \<open>signature from bytes\<close>
  x_verify_definition :: "validator \<Rightarrow> u8 list \<Rightarrow> bool" \<comment> \<open>signature over the encoded validator\<close>
  x_encode_validator :: "validator_pb \<Rightarrow> bytes"       \<comment> \<open>protobuf encoding\<close>
  x_encode_tx :: "transaction \<Rightarrow> bytes"              \<comment> \<open>protobuf encoding\<close>
  x_encode_sighash :: "sighash_transaction \<Rightarrow> bytes" \<comment> \<open>protobuf encoding\<close>

definition sighash :: "ext \<Rightarrow> transaction_body \<Rightarrow> bytes" where
  "sighash X tb = blake2b (x_crypto X) ''Penumbra_SigHash'' [] (x_encode_sighash X (to_sighash_transaction tb))"

definition tx_id :: "ext \<Rightarrow> transaction \<Rightarrow> bytes" where
  "tx_id X tx = sha256 (x_crypto X) (x_encode_tx X tx)"

section \<open>Tokens\<close>

text \<open>The staking token and the delegation tokens.\<close>

definition staking_token_asset_id :: "crypto \<Rightarrow> asset_id" where
  "staking_token_asset_id C = denom_id C ''upenumbra''"

lemma staking_token_id: "staking_token_denom C = Inr d \<Longrightarrow> dn_id d = staking_token_asset_id C"
  using staking_token_denom_Inr [of C] by (auto simp: staking_token_asset_id_def)

definition delegation_denom :: "crypto \<Rightarrow> identity_key \<Rightarrow> string result" where
  "delegation_denom C v = bindR (delegation_token_new C v) (\<lambda>t. Inr (dn_base_denom (dt_base_denom t)))"

definition delegation_asset_id :: "crypto \<Rightarrow> identity_key \<Rightarrow> asset_id result" where
  "delegation_asset_id C v = bindR (delegation_token_new C v) (\<lambda>t. Inr (dn_id (dt_base_denom t)))"

lemma delegation_denom_eq: "delegation_denom C v = Inr (''udelegation_'' @ v)"
  using delegation_token_new_Inr [of C v] by (auto simp: delegation_denom_def)

lemma delegation_asset_id_eq: "delegation_asset_id C v = Inr (denom_id C (''udelegation_'' @ v))"
  using delegation_token_new_Inr [of C v] by (auto simp: delegation_asset_id_def)

section \<open>The value balance\<close>

definition delegate_value_commitment :: "crypto \<Rightarrow> delegate \<Rightarrow> value_commitment result" where
  "delegate_value_commitment C d =
     (let stake = value_commit C \<lparr>val_amount = d_unbonded_amount d, val_asset_id = staking_token_asset_id C\<rparr> (fr_zero C) in
      bindR (delegation_asset_id C (d_validator_identity d)) (\<lambda>token.
      let delegation = value_commit C \<lparr>val_amount = d_delegation_amount d, val_asset_id = token\<rparr> (fr_zero C)
      in Inr (el_sub C delegation stake)))"

definition undelegate_value_commitment :: "crypto \<Rightarrow> undelegate \<Rightarrow> value_commitment result" where
  "undelegate_value_commitment C u =
     (let stake = value_commit C \<lparr>val_amount = u_unbonded_amount u, val_asset_id = staking_token_asset_id C\<rparr> (fr_zero C) in
      bindR (delegation_asset_id C (u_validator_identity u)) (\<lambda>token.
      let delegation = value_commit C \<lparr>val_amount = u_delegation_amount u, val_asset_id = token\<rparr> (fr_zero C)
      in Inr (el_sub C stake delegation)))"

definition action_value_commitment :: "crypto \<Rightarrow> action \<Rightarrow> value_commitment result" where
  "action_value_commitment C a =
     (case a of
        Output out \<Rightarrow> Inr (out_value_commitment out)
      | Spend sp \<Rightarrow> Inr (sb_value_commitment (sp_body sp))
      | Delegate d \<Rightarrow> delegate_value_commitment C d
      | Undelegate u \<Rightarrow> undelegate_value_commitment C u
      | ValidatorDefinition _ \<Rightarrow> Inr (el_zero C)
      | IBCAction _ \<Rightarrow> Inr (el_zero C))"

definition binding_verification_key :: "crypto \<Rightarrow> transaction \<Rightarrow> verification_key result" where
  "binding_verification_key C tx =
     bindR (foldR (\<lambda>a sum. bindR (action_value_commitment C a) (\<lambda>c. Inr (el_add C sum c))) (actions tx) (el_zero C)) (\<lambda>value_commitments.
     let fee_value = \<lparr>val_amount = tb_fee (tx_body tx), val_asset_id = staking_token_asset_id C\<rparr>;
         value_commitments = el_sub C value_commitments (value_commit C fee_value (fr_zero C))
     in ok_or (Panic ''verification key is valid'') (vk_parse C (el_compress C value_commitments)))"

section \<open>Parsing validator definitions\<close>

definition validator_of_proto :: "ext \<Rightarrow> validator_pb \<Rightarrow> validator result" where
  "validator_of_proto X v =
     bindR (ok_or (Err ''missing identity key'') (vpb_identity_key v)) (\<lambda>ikb.
     bindR (identity_key_of_proto (x_crypto X) ikb) (\<lambda>ik.
     bindR (ok_or (Err ''invalid ed25519 consensus pubkey'') (x_raw_ed25519 X (vpb_consensus_key v))) (\<lambda>ck.
     bindR (mapR (funding_stream_of_proto (x_crypto X)) (vpb_funding_streams v)) (\<lambda>fss0.
     bindR (funding_streams_try_from fss0) (\<lambda>fss.
     Inr \<lparr>identity_key = ik, consensus_key = ck, v_name = vpb_name v, v_website = vpb_website v,
          v_description = vpb_description v, funding_streams = fss,
          sequence_number = vpb_sequence_number v\<rparr>)))))"

definition definition_of_proto :: "ext \<Rightarrow> definition_pb \<Rightarrow> (validator \<times> u8 list) result" where
  "definition_of_proto X d =
     bindR (ok_or (Err ''missing validator field in proto'') (dpb_validator d)) (\<lambda>vpb.
     bindR (validator_of_proto X vpb) (\<lambda>v.
     bindR (x_sig X (dpb_auth_sig d)) (\<lambda>sig.
     Inr (v, sig))))"

lemma validator_of_proto_streams:
  assumes "validator_of_proto X vpb = Inr v"
  shows "(\<forall>fs \<in> set (funding_streams v). unat (fs_rate_bps fs) \<le> 10000)
    \<and> length (funding_streams v) = length (vpb_funding_streams vpb)
    \<and> unat (sum_u16 (funding_streams v)) \<le> 10000"
proof -
  from assms obtain fss where m: "mapR (funding_stream_of_proto (x_crypto X)) (vpb_funding_streams vpb) = Inr fss"
    and t: "funding_streams_try_from fss = Inr (funding_streams v)"
    by (auto simp: validator_of_proto_def result_simps)
  from t have f: "funding_streams v = fss" and u: "\<not> 10000 < sum_u16 fss"
    by (auto simp: funding_streams_try_from_def split: if_splits)
  have "unat (fs_rate_bps fs) \<le> 10000" if "fs \<in> set fss" for fs
    using m that unfolding mapR_Inr_nth
    by (auto simp: list_all2_conv_all_nth in_set_conv_nth dest: funding_stream_of_proto_bound)
  with f u mapR_length [OF m] show ?thesis by (auto simp: word_less_nat_alt)
qed

end
