(* ===== verification/Uptime.thy ===== *)
theory Uptime
  imports Prelude
begin

text \<open>
  The uptime tracker (\<open>stake/src/uptime.rs\<close>): a bit vector used as a ring buffer of the
  last \<open>signed_blocks_window_len\<close> votes.  Its contract is that of a sliding window
  (locale \<open>sliding_window\<close>); the interpretation discharges it for the ring buffer.
\<close>

section \<open>The tracker\<close>

record uptime =
  as_of_block_height :: u64
  signatures :: "bool list"

definition uptime_new :: "u64 \<Rightarrow> u64 \<Rightarrow> uptime" where
  "uptime_new initial_block_height window_len =
     \<lparr>as_of_block_height = initial_block_height, signatures = replicate (unat window_len) True\<rparr>"

definition mark_height_as_signed :: "uptime \<Rightarrow> u64 \<Rightarrow> bool \<Rightarrow> uptime result" where
  "mark_height_as_signed u height voted =
     (if height \<noteq> as_of_block_height u + 1
      then Inl (Err ''Last block height was not one less than the next block height'')
      else if signatures u = [] then Inl (Panic ''attempt to calculate the remainder with a divisor of zero'')
      else
        (let index = unat height mod length (signatures u)
         in Inr \<lparr>as_of_block_height = height, signatures = (signatures u)[index := voted]\<rparr>))"

definition num_missed_blocks :: "uptime \<Rightarrow> nat" where
  "num_missed_blocks u = length (filter Not (signatures u))"

text \<open>
  The protobuf form.  \<open>into_vec\<close> and \<open>from_vec\<close> stand for the bit vector crate's
  conversions to and from bytes.
\<close>

record uptime_pb =
  upb_as_of_block_height :: u64
  upb_window_len :: u32
  upb_bitvec :: "u8 list"

definition uptime_to_proto :: "(bool list \<Rightarrow> u8 list) \<Rightarrow> uptime \<Rightarrow> uptime_pb" where
  "uptime_to_proto into_vec u =
     \<lparr>upb_as_of_block_height = as_of_block_height u,
      upb_window_len = of_nat (length (signatures u)),
      upb_bitvec = into_vec (signatures u)\<rparr>"

definition uptime_of_proto :: "(u8 list \<Rightarrow> bool list) \<Rightarrow> uptime_pb \<Rightarrow> uptime result" where
  "uptime_of_proto from_vec msg =
     (let bits = from_vec (upb_bitvec msg); n = unat (upb_window_len msg) in
      if length bits < n then Inl (Err ''not enough data in bitvec buffer'')
      else Inr \<lparr>as_of_block_height = upb_as_of_block_height msg, signatures = take n bits\<rparr>)"

text \<open>Storing bits as bytes and reading them back returns them, up to padding.\<close>

definition bitvec_ok :: "(bool list \<Rightarrow> u8 list) \<Rightarrow> (u8 list \<Rightarrow> bool list) \<Rightarrow> bool" where
  "bitvec_ok into_vec from_vec \<longleftrightarrow> (\<forall>bits. \<exists>pad. from_vec (into_vec bits) = bits @ pad)"

text \<open>
  a tracker survives being stored: decoding its protobuf form returns it, for windows below
  \<open>2\<^sup>32\<close> blocks.
\<close>

theorem uptime_proto_roundtrip:
  assumes "bitvec_ok into_vec from_vec" and "length (signatures u) < 2 ^ 32"
  shows "uptime_of_proto from_vec (uptime_to_proto into_vec u) = Inr u"
proof -
  obtain pad where "from_vec (into_vec (signatures u)) = signatures u @ pad"
    using assms(1) by (auto simp: bitvec_ok_def)
  moreover have "unat (of_nat (length (signatures u)) :: u32) = length (signatures u)"
    using assms(2) by (simp add: unsigned_of_nat take_bit_nat_eq_self)
  ultimately show ?thesis
    by (simp add: uptime_of_proto_def uptime_to_proto_def)
qed

section \<open>The contract: a sliding window\<close>

text \<open>
  \<open>view\<close> is the window, oldest vote first; \<open>ok k w\<close> says that \<open>k\<close> more votes can
  be recorded.
\<close>

locale sliding_window =
  fixes view :: "'w \<Rightarrow> bool list"
    and record_vote :: "'w \<Rightarrow> bool \<Rightarrow> 'w result"
    and missed :: "'w \<Rightarrow> nat"
    and ok :: "nat \<Rightarrow> 'w \<Rightarrow> bool"
  assumes record_ok: "ok (Suc k) w \<Longrightarrow> \<exists>w'. record_vote w v = Inr w' \<and> ok k w' \<and> view w' = tl (view w) @ [v]"
    and missed_view: "ok k w \<Longrightarrow> missed w = length (filter Not (view w))"
    and view_nonempty: "ok k w \<Longrightarrow> view w \<noteq> []"
begin

lemma record_all:
  assumes "ok (length vs) w"
  shows "\<exists>w'. foldR (\<lambda>v w. record_vote w v) vs w = Inr w' \<and> ok 0 w'
    \<and> view w' = drop (length vs) (view w @ vs)"
  using assms
proof (induction vs arbitrary: w)
  case Nil
  then show ?case by simp
next
  case (Cons v vs)
  from Cons.prems obtain w1 where w1: "record_vote w v = Inr w1" "ok (length vs) w1"
    "view w1 = tl (view w) @ [v]"
    using record_ok by fastforce
  from Cons.IH [OF w1(2)] obtain w2 where w2: "foldR (\<lambda>v w. record_vote w v) vs w1 = Inr w2"
    "ok 0 w2" "view w2 = drop (length vs) (view w1 @ vs)"
    by blast
  have ne: "view w \<noteq> []" using Cons.prems by (rule view_nonempty)
  have "drop (length vs) (view w1 @ vs) = drop (Suc (length vs)) (view w @ v # vs)"
    unfolding w1(3) using ne by (cases "view w") simp_all
  with w1(1) w2 show ?case by simp
qed

lemma missed_after:
  assumes "ok (length vs) w"
  shows "\<exists>w'. foldR (\<lambda>v w. record_vote w v) vs w = Inr w'
    \<and> missed w' = length (filter Not (drop (length vs) (view w @ vs)))"
  using record_all [OF assms] missed_view by metis

end

section \<open>The ring buffer is a sliding window\<close>

definition uptime_view :: "uptime \<Rightarrow> bool list" where
  "uptime_view u = rotate (Suc (unat (as_of_block_height u))) (signatures u)"

definition record_next :: "uptime \<Rightarrow> bool \<Rightarrow> uptime result" where
  "record_next u v = mark_height_as_signed u (as_of_block_height u + 1) v"

definition uptime_ok :: "nat \<Rightarrow> uptime \<Rightarrow> bool" where
  "uptime_ok k u \<longleftrightarrow> signatures u \<noteq> [] \<and> unat (as_of_block_height u) + k < 2 ^ 64"

lemma mod_add_neq:
  fixes n k N :: nat
  assumes "0 < k" and "k < N"
  shows "(n + k) mod N \<noteq> n mod N"
proof
  assume "(n + k) mod N = n mod N"
  then have "N dvd n + k - n" by (subst mod_eq_dvd_iff_nat [symmetric]) simp_all
  with assms show False by (simp add: nat_dvd_not_less)
qed

text \<open>Overwriting the oldest entry of a ring shifts the window by one.\<close>

lemma rotate_update:
  assumes "xs \<noteq> []"
  shows "rotate (Suc n) (xs[n mod length xs := v]) = tl (rotate n xs) @ [v]"
proof (rule nth_equalityI)
  show "length (rotate (Suc n) (xs[n mod length xs := v])) = length (tl (rotate n xs) @ [v])"
    using assms by simp
next
  fix i
  assume "i < length (rotate (Suc n) (xs[n mod length xs := v]))"
  then have i: "i < length xs" by simp
  let ?N = "length xs"
  have l: "rotate (Suc n) (xs[n mod ?N := v]) ! i = xs[n mod ?N := v] ! ((Suc n + i) mod ?N)"
    using i by (simp add: nth_rotate del: rotate_Suc)
  show "rotate (Suc n) (xs[n mod ?N := v]) ! i = (tl (rotate n xs) @ [v]) ! i"
  proof (cases "Suc i = ?N")
    case True
    then have "(Suc n + i) mod ?N = n mod ?N"
      by (metis add_Suc_shift mod_add_self2)
    then show ?thesis unfolding l using True assms i by (auto simp: nth_append)
  next
    case False
    with i have si: "Suc i < ?N" by simp
    have "(n + Suc i) mod ?N \<noteq> n mod ?N"
      using si by (intro mod_add_neq) simp_all
    moreover have "i < ?N - 1" using si by simp
    ultimately show ?thesis unfolding l using si i assms
      by (simp add: nth_append nth_tl nth_rotate)
  qed
qed

lemma record_next_ok:
  assumes "uptime_ok (Suc k) u"
  shows "\<exists>u'. record_next u v = Inr u' \<and> uptime_ok k u' \<and> uptime_view u' = tl (uptime_view u) @ [v]"
proof -
  let ?h = "as_of_block_height u"
  have ne: "signatures u \<noteq> []" and b: "unat ?h + Suc k < 2 ^ 64"
    using assms by (auto simp: uptime_ok_def)
  have h: "unat (?h + 1) = Suc (unat ?h)"
    using b by (subst unat_plus_exact) simp_all
  have "rotate (Suc (Suc (unat ?h))) ((signatures u)[Suc (unat ?h) mod length (signatures u) := v])
      = tl (rotate (Suc (unat ?h)) (signatures u)) @ [v]"
    using ne by (rule rotate_update)
  then show ?thesis
    using ne b h by (simp add: record_next_def mark_height_as_signed_def uptime_ok_def uptime_view_def
        Let_def del: rotate_Suc)
qed

lemma filter_rotate_length: "length (filter P (rotate n xs)) = length (filter P xs)"
proof (induction n)
  case 0
  then show ?case by simp
next
  case (Suc n)
  have "length (filter P (rotate1 ys)) = length (filter P ys)" for ys :: "'a list"
    by (cases ys) simp_all
  with Suc show ?case by simp
qed

interpretation ring: sliding_window uptime_view record_next num_missed_blocks uptime_ok
proof unfold_locales
  fix k u v
  assume "uptime_ok (Suc k) u"
  then show "\<exists>u'. record_next u v = Inr u' \<and> uptime_ok k u' \<and> uptime_view u' = tl (uptime_view u) @ [v]"
    by (rule record_next_ok)
next
  fix k u
  show "num_missed_blocks u = length (filter Not (uptime_view u))"
    unfolding num_missed_blocks_def uptime_view_def by (rule filter_rotate_length [symmetric])
next
  fix k u
  assume "uptime_ok k u"
  then show "uptime_view u \<noteq> []" by (simp add: uptime_ok_def uptime_view_def)
qed

lemma uptime_view_new: "uptime_view (uptime_new h n) = replicate (unat n) True"
proof -
  have "rotate m (replicate k True) = replicate k True" for m k
    by (induction m) (simp_all add: rotate1_replicate)
  then show ?thesis by (simp add: uptime_view_def uptime_new_def del: rotate_Suc)
qed

text \<open>
  C35: the ring buffer is a sliding window.  From a fresh tracker of length \<open>n\<close>, marking any
  sequence of votes at consecutive heights succeeds, and the number of missed blocks reported is the
  number of blocks missed among the last \<open>n\<close> votes.
\<close>

theorem missed_blocks_window:
  assumes "n \<noteq> 0" and "unat h + length votes < 2 ^ 64"
  shows "\<exists>u. foldR (\<lambda>v u. mark_height_as_signed u (as_of_block_height u + 1) v) votes (uptime_new h n) = Inr u
    \<and> num_missed_blocks u = length (filter Not (drop (length votes - unat n) votes))"
proof -
  have "uptime_ok (length votes) (uptime_new h n)"
    using assms by (simp add: uptime_ok_def uptime_new_def unat_eq_0)
  from ring.missed_after [OF this] show ?thesis
    by (simp add: record_next_def uptime_view_new)
qed

text \<open>The bounds of the counter.\<close>

lemma num_missed_le: "num_missed_blocks u \<le> length (signatures u)"
  by (simp add: num_missed_blocks_def)

lemma mark_height_length:
  "mark_height_as_signed u h v = Inr u' \<Longrightarrow>
     length (signatures u') = length (signatures u) \<and> as_of_block_height u' = h
     \<and> h = as_of_block_height u + 1"
  by (auto simp: mark_height_as_signed_def Let_def split: if_splits)

end
