(* ===== verification/State.thy ===== *)
theory State
  imports Tx Uptime
begin

text \<open>
  The chain state the components share.  The code keeps it in a Jellyfish Merkle tree
  behind a write overlay (\<open>storage/src/overlay_ext.rs\<close>): a key-value store whose keys are
  rendered paths and whose values are protobuf encodings.  The record \<open>jmt\<close> has one
  field per path; a path with a parameter is a map.  \<open>get_domain\<close> and \<open>get_proto\<close>
  are field selections, \<open>put_domain\<close> and \<open>put_proto\<close> field updates.  Spent nullifiers hold raw
  bytes, as in the code, because decoding them can fail.

  Also here: the accessors of \<open>chain/src/view.rs\<close>.
\<close>

record delegation_changes =
  dc_delegations :: "delegate list"
  dc_undelegations :: "undelegate list"

definition no_changes :: delegation_changes where
  "no_changes = \<lparr>dc_delegations = [], dc_undelegations = []\<rparr>"

record commission_amount =
  ca_amount :: u64
  ca_destination :: address

record compact_block =
  cb_height :: u64
  cb_outputs :: "output_body list"
  cb_nullifiers :: "nullifier list"

definition empty_block :: compact_block where
  "empty_block = \<lparr>cb_height = 0, cb_outputs = [], cb_nullifiers = []\<rparr>"

text \<open>The genesis state (\<open>chain/src/genesis\<close>).\<close>

record allocation =
  al_amount :: u64
  al_denom :: string
  al_address :: address

record app_state =
  as_chain_params :: chain_params
  as_validators :: "validator_pb list"
  as_allocations :: "allocation list"

text \<open>The key-value store.\<close>

record jmt =
  j_genesis_app_state :: "app_state option"                   \<comment> \<open>\<open>genesis/app_state\<close>\<close>
  j_chain_params :: "chain_params option"                     \<comment> \<open>\<open>chain_params\<close>\<close>
  j_block_height :: "u64 option"                              \<comment> \<open>\<open>block_height\<close>\<close>
  j_block_timestamp :: "ibc_time option"                      \<comment> \<open>\<open>block_timestamp\<close>\<close>
  j_cur_base_rate :: "base_rate_data option"                  \<comment> \<open>\<open>staking/base_rate/current\<close>\<close>
  j_next_base_rate :: "base_rate_data option"                 \<comment> \<open>\<open>staking/base_rate/next\<close>\<close>
  j_validator :: "identity_key \<rightharpoonup> validator"                   \<comment> \<open>\<open>staking/validators/{}\<close>\<close>
  j_cur_rate :: "identity_key \<rightharpoonup> rate_data"                    \<comment> \<open>\<open>staking/validators/{}/rate/current\<close>\<close>
  j_next_rate :: "identity_key \<rightharpoonup> rate_data"                   \<comment> \<open>\<open>staking/validators/{}/rate/next\<close>\<close>
  j_power :: "identity_key \<rightharpoonup> u64"                             \<comment> \<open>\<open>staking/validators/{}/power\<close>\<close>
  j_state :: "identity_key \<rightharpoonup> validator_state"                 \<comment> \<open>\<open>staking/validators/{}/state\<close>\<close>
  j_consensus_key :: "public_key \<rightharpoonup> identity_key"              \<comment> \<open>\<open>staking/consensus_key/{}\<close>\<close>
  j_validator_list :: "identity_key list option"              \<comment> \<open>\<open>staking/validators/list\<close>\<close>
  j_delegation_changes :: "u64 \<rightharpoonup> delegation_changes"          \<comment> \<open>\<open>staking/delegation_changes/{}\<close>\<close>
  j_uptime :: "identity_key \<rightharpoonup> uptime"                         \<comment> \<open>\<open>staking/validator_uptime/{}\<close>\<close>
  j_commission :: "u64 \<rightharpoonup> commission_amount list"              \<comment> \<open>\<open>staking/commission_amounts/{}\<close>\<close>
  j_token_supply :: "asset_id \<rightharpoonup> u64"                          \<comment> \<open>\<open>shielded_pool/assets/{}/token_supply\<close>\<close>
  j_denom :: "asset_id \<rightharpoonup> string"                              \<comment> \<open>\<open>shielded_pool/assets/{}/denom\<close>\<close>
  j_known_assets :: "(asset_id \<times> string) list option"          \<comment> \<open>\<open>shielded_pool/known_assets\<close>\<close>
  j_note_source :: "note_commitment \<rightharpoonup> note_source"            \<comment> \<open>\<open>shielded_pool/note_source/{}\<close>\<close>
  j_compact_block :: "u64 \<rightharpoonup> compact_block"                    \<comment> \<open>\<open>shielded_pool/compact_block/{}\<close>\<close>
  j_nct_anchor :: "u64 \<rightharpoonup> merkle_root"                         \<comment> \<open>\<open>shielded_pool/nct_anchor/{}\<close>\<close>
  j_valid_anchors :: "merkle_root \<rightharpoonup> u64"                      \<comment> \<open>\<open>shielded_pool/valid_anchors/{}\<close>\<close>
  j_spent_nullifiers :: "nullifier \<rightharpoonup> u8 list"                 \<comment> \<open>\<open>shielded_pool/spent_nullifiers/{}\<close>\<close>
  j_nct_data :: "note_commitment list option"                 \<comment> \<open>\<open>shielded_pool/nct_data\<close>\<close>
  j_ibc :: ibc_store                                          \<comment> \<open>\<open>ibc/...\<close>\<close>

definition empty_jmt :: jmt where
  "empty_jmt =
     \<lparr>j_genesis_app_state = None, j_chain_params = None, j_block_height = None, j_block_timestamp = None, j_cur_base_rate = None, j_next_base_rate = None,
      j_validator = Map.empty, j_cur_rate = Map.empty, j_next_rate = Map.empty, j_power = Map.empty,
      j_state = Map.empty, j_consensus_key = Map.empty, j_validator_list = None,
      j_delegation_changes = Map.empty, j_uptime = Map.empty, j_commission = Map.empty,
      j_token_supply = Map.empty, j_denom = Map.empty, j_known_assets = None,
      j_note_source = Map.empty, j_compact_block = Map.empty, j_nct_anchor = Map.empty,
      j_valid_anchors = Map.empty, j_spent_nullifiers = Map.empty, j_nct_data = None,
      j_ibc = empty_ibc_store\<rparr>"

section \<open>The chain view\<close>

definition get_chain_params :: "jmt \<Rightarrow> chain_params result" where
  "get_chain_params j = ok_or (Err ''Missing ChainParams'') (j_chain_params j)"

definition put_chain_params :: "chain_params \<Rightarrow> jmt \<Rightarrow> jmt" where
  "put_chain_params p j = j\<lparr>j_chain_params := Some p\<rparr>"

definition get_epoch_duration :: "jmt \<Rightarrow> u64 result" where
  "get_epoch_duration j = bindR (get_chain_params j) (\<lambda>p. Inr (epoch_duration p))"

definition get_chain_id :: "jmt \<Rightarrow> string result" where
  "get_chain_id j = bindR (get_chain_params j) (\<lambda>p. Inr (chain_id p))"

definition get_block_height :: "jmt \<Rightarrow> u64 result" where
  "get_block_height j = ok_or (Err ''Missing block_height'') (j_block_height j)"

definition put_block_height :: "u64 \<Rightarrow> jmt \<Rightarrow> jmt" where
  "put_block_height h j = j\<lparr>j_block_height := Some h\<rparr>"

definition get_block_timestamp :: "jmt \<Rightarrow> ibc_time result" where
  "get_block_timestamp j = ok_or (Err ''Missing block_timestamp'') (j_block_timestamp j)"

definition put_block_timestamp :: "ibc_time \<Rightarrow> jmt \<Rightarrow> jmt" where
  "put_block_timestamp t j = j\<lparr>j_block_timestamp := Some t\<rparr>"

definition get_current_epoch :: "jmt \<Rightarrow> epoch result" where
  "get_current_epoch j =
     bindR (get_block_height j) (\<lambda>h.
     bindR (get_epoch_duration j) (\<lambda>d.
     from_height h d))"

definition check_chain_id :: "jmt \<Rightarrow> string \<Rightarrow> unit result" where
  "check_chain_id j provided =
     (case get_chain_id j of
        Inl _ \<Rightarrow> Inl (Err ''database error'')
      | Inr cid \<Rightarrow>
          if provided = [] \<or> provided = cid then Inr ()
          else Inl (Err ''provided chain_id does not match chain_id''))"

lemma get_current_epoch_Inr:
  "get_current_epoch j = Inr e \<longleftrightarrow>
     (\<exists>h p. j_block_height j = Some h \<and> j_chain_params j = Some p \<and> from_height h (epoch_duration p) = Inr e)"
  by (auto simp: get_current_epoch_def get_block_height_def get_epoch_duration_def
      get_chain_params_def result_simps)

lemmas chain_view_defs = get_chain_params_def put_chain_params_def get_epoch_duration_def
  get_chain_id_def get_block_height_def put_block_height_def get_block_timestamp_def put_block_timestamp_def

end
