(* ===== verification/Pool_View.thy ===== *)
theory Pool_View
  imports State
begin

text \<open>
  The shielded pool's accessors to the shared state (trait \<open>View\<close> of
  \<open>shielded-pool/src/component.rs\<close>): token supplies, the asset list, note sources, compact
  blocks, anchors, nullifiers and the commission notes handed over by the staking component.
\<close>

section \<open>Operations\<close>

definition token_supply :: "jmt \<Rightarrow> asset_id \<Rightarrow> u64 option" where
  "token_supply j a = j_token_supply j a"

definition update_token_supply :: "asset_id \<Rightarrow> i64 \<Rightarrow> jmt \<Rightarrow> jmt result" where
  "update_token_supply a change j =
     (let current_supply = (case j_token_supply j a of Some v \<Rightarrow> v | None \<Rightarrow> 0) in
      bindR (if sint change < 0
             then ok_or (Err ''underflow updating token supply'') (checked_sub current_supply (abs_i64 change))
             else ok_or (Err ''overflow updating token supply'') (checked_add current_supply change))
        (\<lambda>new_supply. Inr (j\<lparr>j_token_supply := (j_token_supply j)(a \<mapsto> new_supply)\<rparr>)))"

definition known_assets :: "jmt \<Rightarrow> (asset_id \<times> string) list" where
  "known_assets j = (case j_known_assets j of Some l \<Rightarrow> l | None \<Rightarrow> [])"

definition denom_by_asset :: "jmt \<Rightarrow> asset_id \<Rightarrow> string option" where
  "denom_by_asset j a = j_denom j a"

definition register_denom :: "ext \<Rightarrow> string \<Rightarrow> jmt \<Rightarrow> jmt" where
  "register_denom X denom j =
     (let i = denom_id (x_crypto X) denom in
      if denom_by_asset j i \<noteq> None then j
      else
        (let j1 = j\<lparr>j_denom := (j_denom j)(i \<mapsto> denom)\<rparr>
         in j1\<lparr>j_known_assets := Some (known_assets j1 @ [(i, denom)])\<rparr>))"

definition set_note_source :: "note_commitment \<Rightarrow> note_source \<Rightarrow> jmt \<Rightarrow> jmt" where
  "set_note_source c s j = j\<lparr>j_note_source := (j_note_source j)(c \<mapsto> s)\<rparr>"

definition set_compact_block :: "compact_block \<Rightarrow> jmt \<Rightarrow> jmt" where
  "set_compact_block cb j = j\<lparr>j_compact_block := (j_compact_block j)(cb_height cb \<mapsto> cb)\<rparr>"

definition set_nct_anchor :: "u64 \<Rightarrow> merkle_root \<Rightarrow> jmt \<Rightarrow> jmt" where
  "set_nct_anchor height anchor j =
     j\<lparr>j_nct_anchor := (j_nct_anchor j)(height \<mapsto> anchor),
       j_valid_anchors := (j_valid_anchors j)(anchor \<mapsto> height)\<rparr>"

definition check_claimed_anchor :: "jmt \<Rightarrow> merkle_root \<Rightarrow> unit result" where
  "check_claimed_anchor j anchor =
     (case j_valid_anchors j anchor of
        Some _ \<Rightarrow> Inr ()
      | None \<Rightarrow> Inl (Err ''provided anchor is not a valid NCT root''))"

definition spend_nullifier :: "nullifier \<Rightarrow> note_source \<Rightarrow> jmt \<Rightarrow> jmt" where
  "spend_nullifier nf source j =
     j\<lparr>j_spent_nullifiers := (j_spent_nullifiers j)(nf \<mapsto> note_source_to_bytes source)\<rparr>"

definition check_nullifier_unspent :: "jmt \<Rightarrow> nullifier \<Rightarrow> unit result" where
  "check_nullifier_unspent j nf =
     (case j_spent_nullifiers j nf of
        None \<Rightarrow> Inr ()
      | Some source_bytes \<Rightarrow>
          if length source_bytes \<noteq> 32 then Inl (Panic ''called unwrap on an Err value'')
          else (case note_source_of_bytes source_bytes of
                  Inl _ \<Rightarrow> Inl (Panic ''source is validly encoded'')
                | Inr source \<Rightarrow> Inl (Err ''Nullifier was already spent'')))"

definition commission_amounts :: "jmt \<Rightarrow> u64 \<Rightarrow> commission_amount list option" where
  "commission_amounts j height = j_commission j height"

definition set_commission_amounts :: "u64 \<Rightarrow> commission_amount list \<Rightarrow> jmt \<Rightarrow> jmt" where
  "set_commission_amounts height notes j = j\<lparr>j_commission := (j_commission j)(height \<mapsto> notes)\<rparr>"

section \<open>Token supplies\<close>

text \<open>The supply of an asset; an absent entry counts as zero.\<close>

definition supply_of :: "jmt \<Rightarrow> asset_id \<Rightarrow> nat" where
  "supply_of j a = (case j_token_supply j a of Some v \<Rightarrow> unat v | None \<Rightarrow> 0)"

lemma sint_negative: "sint (c :: i64) = (if sint c < 0 then int (unat c) - 2 ^ 64 else int (unat c))"
proof -
  have "sint c = signed_take_bit 63 (uint c)" by (simp add: sint_uint)
  also have "\<dots> = take_bit 64 (uint c) - 2 ^ 64 * of_bool (bit (uint c) 63)"
    by (simp add: signed_take_bit_eq_take_bit_minus)
  also have "take_bit 64 (uint c) = uint c" using take_bit_length_eq [of c] by (simp add: unsigned_take_bit_eq [symmetric])
  finally have s: "sint c = uint c - 2 ^ 64 * of_bool (bit (uint c) 63)" .
  moreover have "0 \<le> uint c" "uint c < 2 ^ 64" by (simp_all add: unsigned_less [of c, where 'a = int, simplified])
  ultimately show ?thesis by (auto simp: of_bool_def split: if_splits)
qed

lemma unat_abs_i64: "int (unat (abs_i64 c)) = \<bar>sint c\<bar>"
proof (cases "sint c < 0")
  case True
  then have c: "c \<noteq> 0" by auto
  have "int (unat c) = sint c + 2 ^ 64" using True sint_negative [of c] by simp
  moreover have "unat (- c) = 2 ^ 64 - unat c" using c unat_sub_if' [of 0 c] by (simp add: unat_gt_0)
  moreover have "unat c \<le> 2 ^ 64" using unat_le64 [of c] by simp
  ultimately show ?thesis using True by (simp add: abs_i64_def of_nat_diff)
next
  case False
  then show ?thesis using sint_negative [of c] by (simp add: abs_i64_def)
qed

text \<open>
  The closed form of \<open>update_token_supply\<close>: the supply never wraps.
\<close>

lemma update_token_supply_closed:
  "update_token_supply a c j =
     (let n = int (supply_of j a) + sint c in
      if n < 0 then Inl (Err ''underflow updating token supply'')
      else if 2 ^ 64 \<le> n then Inl (Err ''overflow updating token supply'')
      else Inr (j\<lparr>j_token_supply := (j_token_supply j)(a \<mapsto> of_int n)\<rparr>))"
proof -
  define cur where "cur = (case j_token_supply j a of Some v \<Rightarrow> v | None \<Rightarrow> 0)"
  have sup: "supply_of j a = unat cur" by (simp add: supply_of_def cur_def split: option.split)
  have cur: "int (unat cur) < 2 ^ 64" using unsigned_less [of cur, where 'a = int] by simp
  show ?thesis
  proof (cases "sint c < 0")
    case True
    have A: "int (unat (abs_i64 c)) = - sint c" using True unat_abs_i64 [of c] by simp
    have "abs_i64 c \<le> cur \<longleftrightarrow> \<not> int (unat cur) + sint c < 0"
      using A unfolding word_le_nat_alt by linarith
    then have "checked_sub cur (abs_i64 c) = (if int (unat cur) + sint c < 0 then None else Some (cur + c))"
      using True by (simp add: checked_sub_def abs_i64_def)
    then show ?thesis
      using True cur by (simp add: update_token_supply_def cur_def [symmetric] sup Let_def)
  next
    case False
    have A: "int (unat c) = sint c" using False sint_negative [of c] by simp
    have "unat cur + unat c < 2 ^ 64 \<longleftrightarrow> \<not> 2 ^ 64 \<le> int (unat cur) + sint c"
      unfolding A [symmetric] of_nat_add [symmetric] not_le of_nat_less_numeral_power_cancel_iff ..
    then have "checked_add cur c = (if 2 ^ 64 \<le> int (unat cur) + sint c then None else Some (cur + c))"
      by (simp add: checked_add_def)
    moreover have "\<not> uint cur + sint c < 0" using False uint_ge_0 [of cur] by linarith
    ultimately show ?thesis
      using False by (simp add: update_token_supply_def cur_def [symmetric] sup Let_def)
  qed
qed

lemma update_token_supply_Inr:
  assumes "update_token_supply a c j = Inr j'"
  shows "int (supply_of j' a) = int (supply_of j a) + sint c \<and> (\<forall>b. b \<noteq> a \<longrightarrow> supply_of j' b = supply_of j b)"
proof -
  define n where "n = int (supply_of j a) + sint c"
  from assms have n: "0 \<le> n" "n < 2 ^ 64" and j': "j' = j\<lparr>j_token_supply := (j_token_supply j)(a \<mapsto> of_int n)\<rparr>"
    by (simp_all add: update_token_supply_closed n_def [symmetric] Let_def split: if_splits)
  have "int (unat (of_int n :: u64)) = n"
    using n by (simp add: uint_word_of_int_eq take_bit_int_eq_self)
  then have "int (supply_of j' a) = n" by (simp add: j' supply_of_def)
  moreover have "\<forall>b. b \<noteq> a \<longrightarrow> supply_of j' b = supply_of j b" by (simp add: j' supply_of_def)
  ultimately show ?thesis unfolding n_def by blast
qed

text \<open>
  \<open>update_token_supply\<close> computes with unbounded integers or not at all.  If the old supply
  plus the signed change fits 64 bits it becomes the new supply and nothing else changes; otherwise
  the operation fails with an error and writes nothing.  An absent supply counts as zero.
\<close>

theorem update_token_supply_exact:
  "update_token_supply a c j =
     (let n = int (supply_of j a) + sint c in
      if n < 0 then Inl (Err ''underflow updating token supply'')
      else if 2 ^ 64 \<le> n then Inl (Err ''overflow updating token supply'')
      else Inr (j\<lparr>j_token_supply := (j_token_supply j)(a \<mapsto> of_int n)\<rparr>))"
  by (rule update_token_supply_closed)

text \<open>It touches nothing but the supplies.\<close>

lemma update_token_supply_frame:
  "update_token_supply a c j = Inr j' \<Longrightarrow> \<exists>s. j' = j\<lparr>j_token_supply := s\<rparr> \<and> s a \<noteq> None"
  by (auto simp: update_token_supply_def Let_def result_simps)

section \<open>Registered assets\<close>

definition assets_ok :: "jmt \<Rightarrow> bool" where
  "assets_ok j \<longleftrightarrow> distinct (map fst (known_assets j)) \<and> map_of (known_assets j) = j_denom j"

lemma assets_ok_register:
  assumes "assets_ok j"
  shows "assets_ok (register_denom X d j)
    \<and> (j_denom (register_denom X d j) (denom_id (x_crypto X) d) \<noteq> None)"
proof (cases "j_denom j (denom_id (x_crypto X) d)")
  case (Some e)
  then show ?thesis using assms by (simp add: register_denom_def denom_by_asset_def Let_def)
next
  case None
  let ?i = "denom_id (x_crypto X) d"
  have fresh: "?i \<notin> fst ` set (known_assets j)"
    using None assms by (auto simp: assets_ok_def map_of_eq_None_iff [symmetric])
  let ?j = "register_denom X d j"
  have k: "known_assets ?j = known_assets j @ [(?i, d)]" and dn: "j_denom ?j = (j_denom j)(?i \<mapsto> d)"
    using None by (simp_all add: register_denom_def denom_by_asset_def Let_def known_assets_def)
  have "map_of (known_assets j @ [(?i, d)]) = (map_of (known_assets j))(?i \<mapsto> d)"
    using None assms by (auto simp: assets_ok_def map_add_def split: option.split)
  with fresh assms show ?thesis
    unfolding assets_ok_def k dn by simp
qed

lemma register_denom_idem: "register_denom X d (register_denom X d j) = register_denom X d j"
  by (auto simp: register_denom_def denom_by_asset_def Let_def)

section \<open>Nullifiers and anchors\<close>

lemma check_nullifier_unspent_ok:
  "check_nullifier_unspent j nf = Inr () \<longleftrightarrow> j_spent_nullifiers j nf = None"
  by (auto simp: check_nullifier_unspent_def split: option.splits sum.splits if_splits)

lemma check_claimed_anchor_ok:
  "check_claimed_anchor j r = Inr () \<longleftrightarrow> j_valid_anchors j r \<noteq> None"
  by (auto simp: check_claimed_anchor_def split: option.splits)

lemma spend_nullifier_spent:
  "j_spent_nullifiers (spend_nullifier nf s j) nf' \<noteq> None \<longleftrightarrow> nf' = nf \<or> j_spent_nullifiers j nf' \<noteq> None"
  by (simp add: spend_nullifier_def)

lemmas pool_view_defs = token_supply_def known_assets_def denom_by_asset_def set_note_source_def
  set_compact_block_def set_nct_anchor_def spend_nullifier_def commission_amounts_def
  set_commission_amounts_def

end
