(* ===== verification/Staking_View.thy ===== *)
theory Staking_View
  imports Pool_View
begin

text \<open>
  The staking component's accessors to the shared state (trait \<open>View\<close> of
  \<open>stake/src/component.rs\<close>), in particular \<open>set_validator_state\<close>, which enforces the
  validator state machine.  The machine itself is the step relation \<open>vtrans\<close>.
\<close>

section \<open>Operations\<close>

definition MAX_VOTING_POWER :: int where
  "MAX_VOTING_POWER = 1152921504606846975"

definition current_base_rate :: "jmt \<Rightarrow> base_rate_data result" where
  "current_base_rate j = ok_or (Panic ''rate data must be set after init_chain'') (j_cur_base_rate j)"

definition next_base_rate :: "jmt \<Rightarrow> base_rate_data result" where
  "next_base_rate j = ok_or (Panic ''rate data must be set after init_chain'') (j_next_base_rate j)"

definition set_base_rates :: "base_rate_data \<Rightarrow> base_rate_data \<Rightarrow> jmt \<Rightarrow> jmt" where
  "set_base_rates cur nxt j = j\<lparr>j_cur_base_rate := Some cur, j_next_base_rate := Some nxt\<rparr>"

definition set_validator_power :: "identity_key \<Rightarrow> u64 \<Rightarrow> jmt \<Rightarrow> jmt result" where
  "set_validator_power v pw j =
     (if sint pw > MAX_VOTING_POWER \<or> sint pw < 0 then Inl (Err ''invalid voting power'')
      else Inr (j\<lparr>j_power := (j_power j)(v \<mapsto> pw)\<rparr>))"

definition set_validator_rates :: "identity_key \<Rightarrow> rate_data \<Rightarrow> rate_data \<Rightarrow> jmt \<Rightarrow> jmt" where
  "set_validator_rates v cur nxt j =
     j\<lparr>j_cur_rate := (j_cur_rate j)(v \<mapsto> cur), j_next_rate := (j_next_rate j)(v \<mapsto> nxt)\<rparr>"

definition check_transition :: "validator_state \<Rightarrow> validator_state \<Rightarrow> unit result" where
  "check_transition cur_state new_state =
     (case new_state of
        Slashed \<Rightarrow> (case cur_state of
            Active \<Rightarrow> Inr () | Unbonding _ \<Rightarrow> Inr ()
          | _ \<Rightarrow> Inl (Err ''only validators in the active or unbonding state may be slashed''))
      | Active \<Rightarrow> (case cur_state of
            Inactive \<Rightarrow> Inr () | Unbonding _ \<Rightarrow> Inr ()
          | _ \<Rightarrow> Inl (Err ''only validators in the inactive or unbonding state may become Active''))
      | Unbonding _ \<Rightarrow> (case cur_state of
            Active \<Rightarrow> Inr ()
          | _ \<Rightarrow> Inl (Err ''only validators in the Active state may start Unbonding''))
      | Inactive \<Rightarrow> (case cur_state of
            Unbonding _ \<Rightarrow> Inr ()
          | _ \<Rightarrow> Inl (Err ''only validators in the Unbonding state may become Inactive'')))"

definition set_validator_state :: "identity_key \<Rightarrow> validator_state \<Rightarrow> jmt \<Rightarrow> jmt result" where
  "set_validator_state v new_state j =
     bindR (ok_or (Err ''validator to have state change did not have state in JMT'') (j_state j v)) (\<lambda>cur_state.
     bindR (check_transition cur_state new_state) (\<lambda>_.
     Inr (j\<lparr>j_state := (j_state j)(v \<mapsto> new_state)\<rparr>)))"

definition validator_by_consensus_key :: "jmt \<Rightarrow> public_key \<Rightarrow> validator option" where
  "validator_by_consensus_key j ck =
     (case j_consensus_key j ck of None \<Rightarrow> None | Some ik \<Rightarrow> j_validator j ik)"

definition view_slash_validator :: "validator \<Rightarrow> u64 \<Rightarrow> jmt \<Rightarrow> jmt result" where
  "view_slash_validator v slashing_penalty j =
     bindR (set_validator_state (identity_key v) Slashed j) (\<lambda>j.
     bindR (ok_or (Err ''validator to be slashed did not have current rate in JMT'')
              (j_cur_rate j (identity_key v))) (\<lambda>cur_rate.
     (let cur_rate = slash cur_rate slashing_penalty;
          next_rate = cur_rate\<lparr>rd_epoch_index := rd_epoch_index cur_rate + 1\<rparr>
      in Inr (set_validator_rates (identity_key v) cur_rate next_rate j))))"

definition update_validator :: "validator \<Rightarrow> jmt \<Rightarrow> jmt result" where
  "update_validator v j =
     bindR (ok_or (Err ''updated validator not found in JMT'') (j_validator j (identity_key v))) (\<lambda>_.
     Inr (j\<lparr>j_validator := (j_validator j)(identity_key v \<mapsto> v)\<rparr>))"

definition validator_list :: "jmt \<Rightarrow> identity_key list" where
  "validator_list j = (case j_validator_list j of Some l \<Rightarrow> l | None \<Rightarrow> [])"

definition set_validator_list :: "identity_key list \<Rightarrow> jmt \<Rightarrow> jmt" where
  "set_validator_list l j = j\<lparr>j_validator_list := Some l\<rparr>"

definition view_add_validator ::
  "ext \<Rightarrow> validator \<Rightarrow> rate_data \<Rightarrow> rate_data \<Rightarrow> validator_state \<Rightarrow> u64 \<Rightarrow> jmt \<Rightarrow> jmt result" where
  "view_add_validator X v cur nxt vstate pw j =
     (let i = identity_key v; j = j\<lparr>j_validator := (j_validator j)(i \<mapsto> v)\<rparr> in
      bindR (delegation_denom (x_crypto X) i) (\<lambda>denom.
      (let j = register_denom X denom j;
           j = set_validator_rates i cur nxt j;
           j = j\<lparr>j_state := (j_state j)(i \<mapsto> vstate)\<rparr> in
       bindR (set_validator_power i pw j) (\<lambda>j.
       Inr (set_validator_list (validator_list j @ [i]) j)))))"

definition get_validator_status :: "jmt \<Rightarrow> identity_key \<Rightarrow> validator_status option" where
  "get_validator_status j v =
     (case (j_state j v, j_power j v) of
        (Some s, Some p) \<Rightarrow> Some \<lparr>st_identity_key = v, st_voting_power = p, st_state = s\<rparr>
      | _ \<Rightarrow> None)"

definition validator_info :: "jmt \<Rightarrow> identity_key \<Rightarrow> (validator \<times> validator_status \<times> rate_data) option" where
  "validator_info j v =
     (case (j_validator j v, get_validator_status j v, j_next_rate j v) of
        (Some d, Some s, Some r) \<Rightarrow> Some (d, s, r)
      | _ \<Rightarrow> None)"

definition get_delegation_changes :: "jmt \<Rightarrow> u64 \<Rightarrow> delegation_changes result" where
  "get_delegation_changes j height =
     ok_or (Err ''missing delegation changes for block'') (j_delegation_changes j height)"

definition set_delegation_changes :: "u64 \<Rightarrow> delegation_changes \<Rightarrow> jmt \<Rightarrow> jmt" where
  "set_delegation_changes height changes j =
     j\<lparr>j_delegation_changes := (j_delegation_changes j)(height \<mapsto> changes)\<rparr>"

definition set_validator_uptime :: "identity_key \<Rightarrow> uptime \<Rightarrow> jmt \<Rightarrow> jmt" where
  "set_validator_uptime v u j = j\<lparr>j_uptime := (j_uptime j)(v \<mapsto> u)\<rparr>"

definition get_signed_blocks_window_len :: "jmt \<Rightarrow> u64 result" where
  "get_signed_blocks_window_len j = bindR (get_chain_params j) (\<lambda>p. Inr (signed_blocks_window_len p))"

definition get_missed_blocks_maximum :: "jmt \<Rightarrow> u64 result" where
  "get_missed_blocks_maximum j = bindR (get_chain_params j) (\<lambda>p. Inr (missed_blocks_maximum p))"

section \<open>The validator state machine\<close>

inductive vtrans :: "validator_state \<Rightarrow> validator_state \<Rightarrow> bool" where
  activate_inactive: "vtrans Inactive Active"
| activate_unbonding: "vtrans (Unbonding e) Active"
| start_unbonding: "vtrans Active (Unbonding e)"
| finish_unbonding: "vtrans (Unbonding e) Inactive"
| slash_active: "vtrans Active Slashed"
| slash_unbonding: "vtrans (Unbonding e) Slashed"

inductive_cases vtrans_SlashedE: "vtrans Slashed s"
inductive_simps vtrans_to_Inactive: "vtrans s Inactive"
inductive_simps vtrans_to_Slashed: "vtrans s Slashed"
inductive_simps vtrans_to_Active: "vtrans s Active"
inductive_simps vtrans_to_Unbonding: "vtrans s (Unbonding e)"

lemmas vtrans_simps = vtrans_to_Inactive vtrans_to_Slashed vtrans_to_Active vtrans_to_Unbonding

lemma check_transition_iff: "check_transition s t = Inr () \<longleftrightarrow> vtrans s t"
  by (cases t; cases s) (simp_all add: check_transition_def vtrans_simps)

lemma set_validator_state_Inr:
  "set_validator_state v t j = Inr j' \<longleftrightarrow>
     (\<exists>s. j_state j v = Some s \<and> vtrans s t) \<and> j' = j\<lparr>j_state := (j_state j)(v \<mapsto> t)\<rparr>"
  by (auto simp: set_validator_state_def result_simps check_transition_iff)

lemma set_validator_state_Slashed:
  "j_state j v = Some Slashed \<Longrightarrow> \<exists>m. set_validator_state v t j = Inl (Err m)"
  by (cases t) (simp_all add: set_validator_state_def check_transition_def)

text \<open>Slashed is terminal, however many steps are taken.\<close>

lemma vtrans_rtranclp_Slashed: "vtrans\<^sup>*\<^sup>* Slashed s \<Longrightarrow> s = Slashed"
  by (induction rule: rtranclp_induct) (auto elim: vtrans_SlashedE)


section \<open>Voting power\<close>

lemma set_validator_power_Inr:
  "set_validator_power v p j = Inr j' \<longleftrightarrow>
     unat p \<le> 1152921504606846975 \<and> j' = j\<lparr>j_power := (j_power j)(v \<mapsto> p)\<rparr>"
proof -
  have "\<not> (sint p > MAX_VOTING_POWER \<or> sint p < 0) \<longleftrightarrow> uint p \<le> 1152921504606846975"
  proof (cases "sint p < 0")
    case True
    then have "sint p = uint p - 2 ^ 64" using sint_negative [of p] by simp
    moreover have "- (2 ^ 63) \<le> sint p" using sint_ge [of p] by simp
    ultimately show ?thesis using True by simp
  next
    case False
    then have "sint p = uint p" using sint_negative [of p] by simp
    with False show ?thesis by (auto simp: MAX_VOTING_POWER_def)
  qed
  also have "\<dots> \<longleftrightarrow> unat p \<le> 1152921504606846975"
    unfolding uint_nat by linarith
  finally show ?thesis by (auto simp: set_validator_power_def)
qed

section \<open>Frames\<close>

lemma register_denom_frame:
  "\<exists>d k. register_denom X denom j = j\<lparr>j_denom := d, j_known_assets := k\<rparr>"
proof (cases "denom_by_asset j (denom_id (x_crypto X) denom) = None")
  case True
  then show ?thesis by (auto simp: register_denom_def Let_def)
next
  case False
  then have "register_denom X denom j = j\<lparr>j_denom := j_denom j, j_known_assets := j_known_assets j\<rparr>"
    by (simp add: register_denom_def Let_def)
  then show ?thesis by blast
qed

lemma register_denom_select [simp]:
  "j_chain_params (register_denom X d j) = j_chain_params j"
  "j_block_height (register_denom X d j) = j_block_height j"
  "j_validator (register_denom X d j) = j_validator j"
  "j_cur_rate (register_denom X d j) = j_cur_rate j"
  "j_next_rate (register_denom X d j) = j_next_rate j"
  "j_power (register_denom X d j) = j_power j"
  "j_state (register_denom X d j) = j_state j"
  "j_consensus_key (register_denom X d j) = j_consensus_key j"
  "j_validator_list (register_denom X d j) = j_validator_list j"
  "j_uptime (register_denom X d j) = j_uptime j"
  "j_cur_base_rate (register_denom X d j) = j_cur_base_rate j"
  "j_next_base_rate (register_denom X d j) = j_next_base_rate j"
  "j_spent_nullifiers (register_denom X d j) = j_spent_nullifiers j"
  "j_token_supply (register_denom X d j) = j_token_supply j"
  using register_denom_frame [of X d j] by auto

lemmas staking_view_defs = set_base_rates_def set_validator_rates_def set_validator_list_def
  set_delegation_changes_def set_validator_uptime_def

end
