(* ===== verification/Staking.thy ===== *)
theory Staking
  imports Staking_View "HOL-Library.AList"
begin

text \<open>
  The staking component (\<open>stake/src/component.rs\<close>): the struct \<open>Staking\<close>, its private
  methods and its implementation of the trait \<open>Component\<close>.  The functions that the code
  unwraps return \<open>Panic\<close> where the code would abort.  Theorems are in \<open>Staking_Inv\<close>
  and \<open>Epoch_Transition\<close>.
\<close>

section \<open>State\<close>

text \<open>The shared state is part of the component's state, since its methods write to it.\<close>

record staking =
  sk_jmt :: jmt
  sk_delegation_changes :: delegation_changes
  sk_tm_validator_updates :: "(public_key \<times> i64) list"

definition staking_new :: "jmt \<Rightarrow> staking" where
  "staking_new j = \<lparr>sk_jmt = j, sk_delegation_changes = no_changes, sk_tm_validator_updates = []\<rparr>"

definition on_jmt :: "(jmt \<Rightarrow> jmt result) \<Rightarrow> staking \<Rightarrow> staking result" where
  "on_jmt f s = bindR (f (sk_jmt s)) (\<lambda>j. Inr (s\<lparr>sk_jmt := j\<rparr>))"

section \<open>Tendermint validator updates\<close>

definition i64_try_from :: "u64 \<Rightarrow> i64 result" where
  "i64_try_from n = (if unat n < 2 ^ 63 then Inr n else Inl (Err ''TryFromIntError''))"

text \<open>
  The update of a key already present replaces its power in place, another is appended:
  \<open>AList.update\<close>.
\<close>

definition update_tm_validator_power :: "public_key \<Rightarrow> u64 \<Rightarrow> staking \<Rightarrow> staking result" where
  "update_tm_validator_power ck pw s =
     bindR (i64_try_from pw) (\<lambda>p.
     Inr (s\<lparr>sk_tm_validator_updates := AList.update ck p (sk_tm_validator_updates s)\<rparr>))"

section \<open>Epoch transitions\<close>

record vpower =
  vp_identity_key :: identity_key
  vp_power :: u64
  vp_state :: validator_state

definition read_vpower :: "jmt \<Rightarrow> identity_key \<Rightarrow> vpower result" where
  "read_vpower j v =
     bindR (ok_or (Err ''validator missing power'') (j_power j v)) (\<lambda>p.
     bindR (ok_or (Err ''validator missing state'') (j_state j v)) (\<lambda>st.
     Inr \<lparr>vp_identity_key = v, vp_power = p, vp_state = st\<rparr>))"

text \<open>\<open>sort_by\<close> is stable, like \<open>sort_key\<close>.\<close>

definition sort_by_power :: "vpower list \<Rightarrow> vpower list" where
  "sort_by_power = sort_key (\<lambda>v. - int (unat (vp_power v)))"

definition top_validators :: "u64 \<Rightarrow> vpower list \<Rightarrow> identity_key list" where
  "top_validators limit vps =
     map vp_identity_key (filter (\<lambda>v. 0 < vp_power v) (take (unat limit) vps))"

definition validator_missing :: "jmt \<Rightarrow> identity_key \<Rightarrow> validator result" where
  "validator_missing j v = ok_or (Err ''validator missing'') (j_validator j v)"

definition activate_validator :: "vpower \<Rightarrow> staking \<Rightarrow> staking result" where
  "activate_validator vp s =
     (let v = vp_identity_key vp in
      bindR (on_jmt (set_validator_state v Active) s) (\<lambda>s.
      bindR (get_block_height (sk_jmt s)) (\<lambda>height.
      bindR (get_signed_blocks_window_len (sk_jmt s)) (\<lambda>window.
      (let s = s\<lparr>sk_jmt := set_validator_uptime v (uptime_new height window) (sk_jmt s)\<rparr> in
       bindR (validator_missing (sk_jmt s) v) (\<lambda>d.
       update_tm_validator_power (consensus_key d) (vp_power vp) s))))))"

definition displace_validator :: "u64 \<Rightarrow> vpower \<Rightarrow> staking \<Rightarrow> staking result" where
  "displace_validator unbonding_epoch vp s =
     (let v = vp_identity_key vp in
      bindR (on_jmt (set_validator_power v 0) s) (\<lambda>s.
      bindR (on_jmt (set_validator_state v (Unbonding unbonding_epoch)) s) (\<lambda>s.
      bindR (validator_missing (sk_jmt s) v) (\<lambda>d.
      update_tm_validator_power (consensus_key d) 0 s))))"

definition retain_validator :: "vpower \<Rightarrow> staking \<Rightarrow> staking result" where
  "retain_validator vp s =
     (let v = vp_identity_key vp in
      bindR (validator_missing (sk_jmt s) v) (\<lambda>d.
      bindR (ok_or (Err ''active validator should have power'') (j_power (sk_jmt s) v)) (\<lambda>p.
      update_tm_validator_power (consensus_key d) p s)))"

definition expire_unbonding :: "epoch \<Rightarrow> vpower \<Rightarrow> staking \<Rightarrow> staking result" where
  "expire_unbonding epoch_to_end vp s =
     (case vp_state vp of
        Unbonding unbonding_epoch \<Rightarrow>
          if unbonding_epoch \<le> ep_index epoch_to_end
          then on_jmt (set_validator_state (vp_identity_key vp) Inactive) s else Inr s
      | _ \<Rightarrow> Inr s)"

text \<open>The body of the loop over the validators.\<close>

definition transition_validator ::
  "epoch \<Rightarrow> u64 \<Rightarrow> identity_key list \<Rightarrow> vpower \<Rightarrow> staking \<Rightarrow> staking result" where
  "transition_validator epoch_to_end unbonding_eps tops vp s =
     bindR
       (case vp_state vp of
          Active \<Rightarrow>
            if vp_identity_key vp \<notin> set tops
            then displace_validator (ep_index epoch_to_end + unbonding_eps) vp s
            else retain_validator vp s
        | Slashed \<Rightarrow> Inr s
        | _ \<Rightarrow> if vp_identity_key vp \<in> set tops then activate_validator vp s else Inr s)
       (expire_unbonding epoch_to_end vp)"

definition process_epoch_transitions :: "epoch \<Rightarrow> u64 \<Rightarrow> u64 \<Rightarrow> staking \<Rightarrow> staking result" where
  "process_epoch_transitions epoch_to_end limit unbonding_eps s =
     bindR (mapR (read_vpower (sk_jmt s)) (validator_list (sk_jmt s))) (\<lambda>unsorted.
     (let vps = sort_by_power unsorted; tops = top_validators limit vps in
      foldR (transition_validator epoch_to_end unbonding_eps tops) vps s))"

section \<open>The end of an epoch\<close>

definition height_range :: "u64 \<Rightarrow> u64 \<Rightarrow> u64 list" where
  "height_range a b = map of_nat [unat a..<Suc (unat b)]"

text \<open>
  The changes recorded over the epoch's blocks; the code's two maps by validator are
  selections from these lists, in order.
\<close>

definition collect_changes :: "ext \<Rightarrow> jmt \<Rightarrow> u64 list \<Rightarrow> delegation_changes result" where
  "collect_changes X j heights =
     foldR (\<lambda>height acc.
       bindR (ok_or (Panic ''called unwrap on an Err value'') (x_height X height)) (\<lambda>h.
       bindR (get_delegation_changes j h) (\<lambda>changes.
       Inr \<lparr>dc_delegations = dc_delegations acc @ dc_delegations changes,
            dc_undelegations = dc_undelegations acc @ dc_undelegations changes\<rparr>)))
     heights no_changes"

definition total_delegations :: "delegation_changes \<Rightarrow> identity_key \<Rightarrow> u64" where
  "total_delegations c v =
     sum_list (map d_delegation_amount (filter (\<lambda>d. d_validator_identity d = v) (dc_delegations c)))"

definition total_undelegations :: "delegation_changes \<Rightarrow> identity_key \<Rightarrow> u64" where
  "total_undelegations c v =
     sum_list (map u_delegation_amount (filter (\<lambda>u. u_validator_identity u = v) (dc_undelegations c)))"

definition commissions_of ::
  "funding_stream list \<Rightarrow> u64 \<Rightarrow> base_rate_data \<Rightarrow> base_rate_data \<Rightarrow> commission_amount list result" where
  "commissions_of fss token_supply_now next_base cur_base =
     mapR (\<lambda>stream.
       bindR (reward_amount stream token_supply_now next_base cur_base) (\<lambda>amount.
       Inr \<lparr>ca_amount = amount, ca_destination = fs_address stream\<rparr>)) fss"

text \<open>The body of the loop over the validators in \<open>end_epoch\<close>.\<close>

definition end_epoch_validator ::
  "ext \<Rightarrow> epoch \<Rightarrow> delegation_changes \<Rightarrow> base_rate_data \<Rightarrow> base_rate_data \<Rightarrow> identity_key
     \<Rightarrow> jmt \<times> commission_amount list \<Rightarrow> (jmt \<times> commission_amount list) result" where
  "end_epoch_validator X epoch_to_end changes cur_base next_base v jc =
     (let (j, commissions) = jc in
      bindR (ok_or (Err ''validator had ID in validator_list but not found in JMT'') (j_validator j v)) (\<lambda>d.
      bindR (ok_or (Err ''validator had ID in validator_list but rate not found in JMT'') (j_next_rate j v)) (\<lambda>current_rate.
      bindR (ok_or (Err ''validator had ID in validator_list but state not found in JMT'') (j_state j v)) (\<lambda>vstate.
      bindR (rate_next current_rate next_base (funding_streams d) vstate) (\<lambda>next_rate.
      bindR (ensure (Panic ''assertion failed'') (rd_epoch_index next_rate = ep_index epoch_to_end + 2)) (\<lambda>_.
      (let delegation_delta = total_delegations changes (identity_key d) - total_undelegations changes (identity_key d) in
       bindR (unbonded_amount current_rate (abs_i64 delegation_delta)) (\<lambda>abs_unbonded_amount.
       (let staking_delta = (if 0 \<le> sint delegation_delta then - abs_unbonded_amount else abs_unbonded_amount) in
        bindR (delegation_asset_id (x_crypto X) v) (\<lambda>token.
        bindR (update_token_supply token delegation_delta j) (\<lambda>j.
        bindR (update_token_supply (staking_token_asset_id (x_crypto X)) staking_delta j) (\<lambda>j.
        bindR (ok_or (Panic ''delegation token should be known'') (token_supply j token)) (\<lambda>delegation_token_supply.
        bindR (voting_power current_rate delegation_token_supply cur_base) (\<lambda>vpow.
        (let j = set_validator_rates v current_rate next_rate j in
         bindR (set_validator_power v vpow j) (\<lambda>j.
         bindR (if vstate = Active
                then commissions_of (funding_streams d) delegation_token_supply next_base cur_base
                else Inr []) (\<lambda>cs.
         Inr (j, commissions @ cs))))))))))))))))))"

definition end_epoch :: "ext \<Rightarrow> epoch \<Rightarrow> staking \<Rightarrow> staking result" where
  "end_epoch X epoch_to_end s =
     bindR (start_height (x_height X) epoch_to_end) (\<lambda>first_height.
     bindR (end_height (x_height X) epoch_to_end) (\<lambda>last_height.
     bindR (collect_changes X (sk_jmt s) (height_range first_height last_height)) (\<lambda>changes.
     bindR (get_chain_params (sk_jmt s)) (\<lambda>params.
     bindR (next_base_rate (sk_jmt s)) (\<lambda>cur_base.
     (let next_base = base_rate_next cur_base (cp_base_reward_rate params);
          j = set_base_rates cur_base next_base (sk_jmt s) in
      bindR (foldR (end_epoch_validator X epoch_to_end changes cur_base next_base) (validator_list j) (j, []))
        (\<lambda>(j, commissions).
      bindR (process_epoch_transitions epoch_to_end (active_validator_limit params) (unbonding_epochs params)
               (s\<lparr>sk_jmt := j\<rparr>)) (\<lambda>s.
      (let s = s\<lparr>sk_delegation_changes := no_changes\<rparr> in
       bindR (get_block_height (sk_jmt s)) (\<lambda>height.
       Inr (s\<lparr>sk_jmt := set_commission_amounts height commissions (sk_jmt s)\<rparr>)))))))))))"

section \<open>Slashing and uptime\<close>

definition slash_validator :: "validator \<Rightarrow> u64 \<Rightarrow> staking \<Rightarrow> staking result" where
  "slash_validator v slashing_penalty s =
     bindR (update_tm_validator_power (consensus_key v) 0 s)
       (on_jmt (view_slash_validator v slashing_penalty))"

text \<open>The body of the loop of \<open>track_uptime\<close>; \<open>votes\<close> maps addresses to votes.\<close>

definition track_validator ::
  "ext \<Rightarrow> u64 \<Rightarrow> chain_params \<Rightarrow> (u8 list \<rightharpoonup> bool) \<Rightarrow> identity_key \<Rightarrow> staking \<Rightarrow> staking result" where
  "track_validator X height params did_address_vote v s =
     bindR (ok_or (Err ''validator missing status'') (validator_info (sk_jmt s) v)) (\<lambda>(d, status, _).
     if st_state status = Active then
       (let voted = (case did_address_vote (x_addr20 X (consensus_key d)) of Some b \<Rightarrow> b | None \<Rightarrow> False) in
        bindR (ok_or (Err ''missing uptime for active validator'') (j_uptime (sk_jmt s) v)) (\<lambda>u.
        bindR (unwrapR (mark_height_as_signed u height voted)) (\<lambda>u.
        if unat (missed_blocks_maximum params) \<le> num_missed_blocks u
        then slash_validator d (slashing_penalty_downtime_bps params) s
        else Inr (s\<lparr>sk_jmt := set_validator_uptime v u (sk_jmt s)\<rparr>))))
     else Inr s)"

text \<open>Collecting into a map keeps the last vote of an address.\<close>

definition track_uptime :: "ext \<Rightarrow> (u8 list \<times> bool) list \<Rightarrow> staking \<Rightarrow> staking result" where
  "track_uptime X votes s =
     bindR (get_block_height (sk_jmt s)) (\<lambda>height.
     bindR (get_chain_params (sk_jmt s)) (\<lambda>params.
     foldR (track_validator X height params (map_of (rev votes))) (validator_list (sk_jmt s)) s))"

section \<open>Adding validators\<close>

definition add_genesis_validator :: "ext \<Rightarrow> validator \<Rightarrow> rate_data \<Rightarrow> rate_data \<Rightarrow> u64 \<Rightarrow> staking \<Rightarrow> staking result" where
  "add_genesis_validator X v cur nxt pw s =
     bindR (update_tm_validator_power (consensus_key v) pw s)
       (on_jmt (view_add_validator X v cur nxt Active pw))"

definition add_validator :: "ext \<Rightarrow> validator \<Rightarrow> rate_data \<Rightarrow> rate_data \<Rightarrow> staking \<Rightarrow> staking result" where
  "add_validator X v cur nxt s = on_jmt (view_add_validator X v cur nxt Inactive 0) s"

definition slash_validator_by_evidence :: "ext \<Rightarrow> u8 list \<Rightarrow> staking \<Rightarrow> staking result" where
  "slash_validator_by_evidence X evidence_address s =
     bindR (ok_or (Panic ''invalid ed25519 consensus pubkey from tendermint'') (x_raw_ed25519 X evidence_address)) (\<lambda>ck.
     bindR (ok_or (Err ''attempted to slash validator not found in JMT'') (validator_by_consensus_key (sk_jmt s) ck)) (\<lambda>v.
     bindR (get_chain_params (sk_jmt s)) (\<lambda>params.
     slash_validator v (slashing_penalty_misbehavior_bps params) s)))"

section \<open>The component\<close>

record begin_block_request =
  bb_height :: u64
  bb_time :: ibc_time
  bb_app_hash :: "u8 list"
  bb_next_validators_hash :: "u8 list"
  bb_byzantine_validators :: "u8 list list"         \<comment> \<open>addresses of the evidence\<close>
  bb_last_commit_votes :: "(u8 list \<times> bool) list"

text \<open>Genesis allocations summed by denomination, wrapping.\<close>

definition allocations_by_validator :: "allocation list \<Rightarrow> string \<rightharpoonup> u64" where
  "allocations_by_validator als =
     foldl (\<lambda>m al. if al_amount al = 0 then m
       else m(al_denom al \<mapsto> (case m (al_denom al) of Some n \<Rightarrow> n | None \<Rightarrow> 0) + al_amount al))
     Map.empty als"

definition initial_rate :: "identity_key \<Rightarrow> u64 \<Rightarrow> rate_data" where
  "initial_rate v index =
     \<lparr>rd_identity_key = v, rd_epoch_index = index, validator_reward_rate = 0,
      validator_exchange_rate = 100000000\<rparr>"

definition initial_base_rate :: "u64 \<Rightarrow> base_rate_data" where
  "initial_base_rate index =
     \<lparr>brd_epoch_index = index, base_reward_rate = 0, base_exchange_rate = 100000000\<rparr>"

definition init_genesis_validator ::
  "ext \<Rightarrow> app_state \<Rightarrow> u64 \<Rightarrow> (string \<rightharpoonup> u64) \<Rightarrow> validator_pb \<Rightarrow> staking \<Rightarrow> staking result" where
  "init_genesis_validator X app epoch_index allocs vpb s =
     bindR (unwrapR (validator_of_proto X vpb)) (\<lambda>v.
     (let k = identity_key v; cur = initial_rate k epoch_index; nxt = initial_rate k (epoch_index + 1) in
      bindR (delegation_denom (x_crypto X) k) (\<lambda>denom.
      (let tokens = (case allocs denom of Some n \<Rightarrow> n | None \<Rightarrow> 0) in
       bindR (voting_power cur tokens (initial_base_rate epoch_index)) (\<lambda>pw.
       bindR (unwrapR (add_genesis_validator X v cur nxt pw s)) (\<lambda>s.
       Inr (s\<lparr>sk_jmt := set_validator_uptime k
              (uptime_new 0 (signed_blocks_window_len (as_chain_params app))) (sk_jmt s)\<rparr>)))))))"

definition staking_init_chain :: "ext \<Rightarrow> app_state \<Rightarrow> staking \<Rightarrow> staking result" where
  "staking_init_chain X app s =
     bindR (unwrapR (get_block_height (sk_jmt s))) (\<lambda>starting_height.
     bindR (unwrapR (get_epoch_duration (sk_jmt s))) (\<lambda>duration.
     bindR (from_height starting_height duration) (\<lambda>starting_epoch.
     (let i = ep_index starting_epoch;
          s = s\<lparr>sk_jmt := set_base_rates (initial_base_rate i) (initial_base_rate (i + 1)) (sk_jmt s)\<rparr> in
      bindR (foldR (init_genesis_validator X app i (allocations_by_validator (as_allocations app)))
               (as_validators app) s) (\<lambda>s.
      Inr (s\<lparr>sk_jmt := set_delegation_changes 0 no_changes (sk_jmt s)\<rparr>))))))"

definition staking_begin_block :: "ext \<Rightarrow> begin_block_request \<Rightarrow> staking \<Rightarrow> staking result" where
  "staking_begin_block X req s =
     bindR (foldR (\<lambda>ev s. unwrapR (slash_validator_by_evidence X ev s)) (bb_byzantine_validators req) s) (\<lambda>s.
     unwrapR (track_uptime X (bb_last_commit_votes req) s))"

definition allowed_with_undelegate :: "action \<Rightarrow> bool" where
  "allowed_with_undelegate a =
     (case a of Undelegate _ \<Rightarrow> True | Delegate _ \<Rightarrow> True | Spend _ \<Rightarrow> True | Output _ \<Rightarrow> True | _ \<Rightarrow> False)"

definition check_definition_stateless :: "ext \<Rightarrow> definition_pb \<Rightarrow> unit result" where
  "check_definition_stateless X dpb =
     bindR (contextR ''Supplied proto is not a valid definition'' (definition_of_proto X dpb)) (\<lambda>(v, sig).
     bindR (ensure (Err ''Validator definition signature failed to verify'') (x_verify_definition X v sig)) (\<lambda>_.
     ensure (Err ''Validator defined funding streams greater than 10000bps = 100%'')
       (\<not> 10000 < commission_rate_bps (funding_streams v))))"

definition staking_check_tx_stateless :: "ext \<Rightarrow> transaction \<Rightarrow> unit result" where
  "staking_check_tx_stateless X tx =
     (let identities = remdups (map u_validator_identity (undelegations tx)) in
      bindR (ensure (Err ''Transaction contains undelegations from multiple validators'') (length identities \<le> 1)) (\<lambda>_.
      bindR (ensure (Err ''transaction contains an undelegation, but also contains an action other than Spend, Delegate, Output or Undelegate'')
               (length identities = 1 \<longrightarrow> list_all allowed_with_undelegate (actions tx))) (\<lambda>_.
      foldR (\<lambda>dpb _. check_definition_stateless X dpb) (validator_definitions tx) ())))"

text \<open>
  The tally of delegation changes is computed, with its panics on amounts above
  \<open>i64::MAX\<close>, and then dropped, as in the code.
\<close>

definition check_delegation ::
  "jmt \<Rightarrow> delegate \<Rightarrow> (identity_key \<rightharpoonup> i64) \<Rightarrow> (identity_key \<rightharpoonup> i64) result" where
  "check_delegation j d tally =
     (let v = d_validator_identity d in
      bindR (ok_or (Err ''Unknown validator identity'') (j_next_rate j v)) (\<lambda>r.
      bindR (ensure (Err ''Delegation was prepared for another epoch'') (d_epoch_index d = rd_epoch_index r)) (\<lambda>_.
      bindR (ok_or (Err ''missing state for validator'') (j_state j v)) (\<lambda>st.
      bindR (ensure (Err ''Delegation to slashed validator'') (st \<noteq> Slashed)) (\<lambda>_.
      bindR (delegation_amount r (d_unbonded_amount d)) (\<lambda>expected.
      bindR (ensure (Err ''unexpected delegation amount'') (expected = d_delegation_amount d)) (\<lambda>_.
      bindR (unwrapR (i64_try_from (d_delegation_amount d))) (\<lambda>n.
      Inr (tally(v \<mapsto> (case tally v of Some t \<Rightarrow> t | None \<Rightarrow> 0) + n))))))))))"

definition check_undelegation ::
  "jmt \<Rightarrow> undelegate \<Rightarrow> (identity_key \<rightharpoonup> i64) \<Rightarrow> (identity_key \<rightharpoonup> i64) result" where
  "check_undelegation j u tally =
     (let v = u_validator_identity u in
      bindR (ok_or (Err ''Unknown validator identity'') (j_next_rate j v)) (\<lambda>r.
      bindR (ensure (Err ''Undelegation was prepared for another epoch'') (u_epoch_index u = rd_epoch_index r)) (\<lambda>_.
      bindR (unbonded_amount r (u_delegation_amount u)) (\<lambda>expected.
      bindR (ensure (Err ''unexpected unbonded amount'') (expected = u_unbonded_amount u)) (\<lambda>_.
      bindR (unwrapR (i64_try_from (u_delegation_amount u))) (\<lambda>n.
      Inr (tally(v \<mapsto> (case tally v of Some t \<Rightarrow> t | None \<Rightarrow> 0) - n))))))))"

definition check_definition_stateful :: "ext \<Rightarrow> jmt \<Rightarrow> definition_pb \<Rightarrow> unit result" where
  "check_definition_stateful X j dpb =
     bindR (contextR ''Supplied proto is not a valid definition'' (definition_of_proto X dpb)) (\<lambda>(v, _).
     (case j_validator j (identity_key v) of
        Some existing \<Rightarrow>
          ensure (Err ''Expected sequence numbers to be increasing'')
            (\<not> sequence_number v \<le> sequence_number existing)
      | None \<Rightarrow> Inr ()))"

definition staking_check_tx_stateful :: "ext \<Rightarrow> transaction \<Rightarrow> jmt \<Rightarrow> unit result" where
  "staking_check_tx_stateful X tx j =
     bindR (foldR (check_delegation j) (delegations tx) Map.empty) (\<lambda>tally.
     bindR (foldR (check_undelegation j) (undelegations tx) tally) (\<lambda>_.
     foldR (\<lambda>dpb _. check_definition_stateful X j dpb) (validator_definitions tx) ()))"

definition queue_action :: "action \<Rightarrow> delegation_changes \<Rightarrow> delegation_changes" where
  "queue_action a c =
     (case a of
        Delegate d \<Rightarrow> c\<lparr>dc_delegations := dc_delegations c @ [d]\<rparr>
      | Undelegate u \<Rightarrow> c\<lparr>dc_undelegations := dc_undelegations c @ [u]\<rparr>
      | _ \<Rightarrow> c)"

definition execute_definition :: "ext \<Rightarrow> epoch \<Rightarrow> definition_pb \<Rightarrow> staking \<Rightarrow> staking result" where
  "execute_definition X cur_epoch dpb s =
     bindR (unwrapR (definition_of_proto X dpb)) (\<lambda>(v, _).
     (let k = identity_key v in
      if j_validator (sk_jmt s) k \<noteq> None then unwrapR (on_jmt (update_validator v) s)
      else unwrapR (add_validator X v (initial_rate k (ep_index cur_epoch))
                      (initial_rate k (ep_index cur_epoch + 1)) s)))"

definition staking_execute_tx :: "ext \<Rightarrow> transaction \<Rightarrow> staking \<Rightarrow> staking result" where
  "staking_execute_tx X tx s =
     (let s = s\<lparr>sk_delegation_changes := fold queue_action (actions tx) (sk_delegation_changes s)\<rparr> in
      bindR (unwrapR (get_current_epoch (sk_jmt s))) (\<lambda>cur_epoch.
      foldR (execute_definition X cur_epoch) (validator_definitions tx) s))"

definition staking_end_block :: "ext \<Rightarrow> i64 \<Rightarrow> staking \<Rightarrow> staking result" where
  "staking_end_block X req_height s =
     bindR (ok_or (Panic ''called unwrap on an Err value'') (x_height X req_height)) (\<lambda>h.
     (let s = s\<lparr>sk_jmt := set_delegation_changes h (sk_delegation_changes s) (sk_jmt s),
                sk_delegation_changes := no_changes\<rparr> in
      bindR (unwrapR (get_current_epoch (sk_jmt s))) (\<lambda>cur_epoch.
      bindR (unwrapR (get_block_height (sk_jmt s))) (\<lambda>cur_height.
      bindR (is_epoch_end (x_height X) cur_epoch cur_height) (\<lambda>at_end.
      if at_end then unwrapR (end_epoch X cur_epoch s) else Inr s)))))"

section \<open>Delegations built from the stored rates\<close>

lemma i64_try_from_Inr [result_simps]: "i64_try_from n = Inr m \<longleftrightarrow> unat n < 2 ^ 63 \<and> m = n"
  by (auto simp: i64_try_from_def)

text \<open>
  C38: the stateful check accepts exactly the delegations that \<open>RateData::build_delegate\<close> makes from
  the validator's stored next rate, to a validator that is not slashed and for an amount of delegation
  tokens below \<open>2\<^sup>6\<^sup>3\<close>, and then adds that amount to the tally of the validator: any other epoch or
  amount is refused.  A delegation that is correct otherwise but for \<open>2\<^sup>6\<^sup>3\<close> tokens or more panics.
\<close>

theorem delegation_accepted_iff_built:
  assumes "j_next_rate j (d_validator_identity d) = Some r" and "rd_identity_key r = d_validator_identity d"
    and "j_state j (d_validator_identity d) = Some st"
  shows "(check_delegation j d tally = Inr tally' \<longleftrightarrow>
      st \<noteq> Slashed \<and> build_delegate r (d_unbonded_amount d) = Inr d \<and> unat (d_delegation_amount d) < 2 ^ 63
      \<and> tally' = tally(d_validator_identity d \<mapsto>
           (case tally (d_validator_identity d) of Some t \<Rightarrow> t | None \<Rightarrow> 0) + d_delegation_amount d))
    \<and> (st \<noteq> Slashed \<and> build_delegate r (d_unbonded_amount d) = Inr d \<and> 2 ^ 63 \<le> unat (d_delegation_amount d)
      \<longrightarrow> (\<exists>m. check_delegation j d tally = Inl (Panic m)))"
proof (cases d)
  case fields: (fields v e a n)
  have p: "\<exists>m. unwrapR (i64_try_from n) = Inl (Panic m)" if "2 ^ 63 \<le> unat n" for n
    using that by (simp add: i64_try_from_def)
  show ?thesis
    using assms p [of n] unfolding fields
    by (auto simp: check_delegation_def build_delegate_def result_simps Let_def)
qed

end
