(* ===== verification/Epoch_Transition.thy ===== *)
theory Epoch_Transition
  imports Staking
begin

text \<open>
  What \<open>process_epoch_transitions\<close> does to the validator set: the state every validator ends
  in, that the active set stays within its limit and holds the strongest validators, and
  what Tendermint is told.
\<close>

section \<open>Inversions of the building blocks\<close>

lemma on_jmt_Inr [result_simps]:
  "on_jmt f s = Inr s' \<longleftrightarrow> (\<exists>j. f (sk_jmt s) = Inr j \<and> s' = s\<lparr>sk_jmt := j\<rparr>)"
  by (auto simp: on_jmt_def result_simps)

lemma update_tm_Inr [result_simps]:
  "update_tm_validator_power ck p s = Inr s' \<longleftrightarrow>
     unat p < 2 ^ 63 \<and> s' = s\<lparr>sk_tm_validator_updates := AList.update ck p (sk_tm_validator_updates s)\<rparr>"
  by (auto simp: update_tm_validator_power_def result_simps)

lemma validator_missing_Inr [result_simps]: "validator_missing j v = Inr d \<longleftrightarrow> j_validator j v = Some d"
  by (auto simp: validator_missing_def result_simps)

lemmas staking_jmt_simps = set_validator_state_Inr set_validator_power_Inr staking_view_defs

section \<open>One validator\<close>

text \<open>
  The state a validator is meant to be in after the epoch ends; \<open>tp\<close> says whether it is
  among the top validators.
\<close>

definition next_vstate :: "u64 \<Rightarrow> u64 \<Rightarrow> bool \<Rightarrow> validator_state \<Rightarrow> validator_state" where
  "next_vstate index unbonding_eps tp st =
     (case st of
        Slashed \<Rightarrow> Slashed
      | Active \<Rightarrow> if tp then Active else Unbonding (index + unbonding_eps)
      | Inactive \<Rightarrow> if tp then Active else Inactive
      | Unbonding e \<Rightarrow> if tp then Active else if e \<le> index then Inactive else Unbonding e)"

text \<open>The power reported to Tendermint, if any.\<close>

definition reported_power :: "bool \<Rightarrow> vpower \<Rightarrow> u64 option" where
  "reported_power tp vp =
     (case vp_state vp of
        Slashed \<Rightarrow> None
      | Active \<Rightarrow> Some (if tp then vp_power vp else 0)
      | _ \<Rightarrow> if tp then Some (vp_power vp) else None)"

definition kept_power :: "bool \<Rightarrow> vpower \<Rightarrow> u64" where
  "kept_power tp vp = (if vp_state vp = Active \<and> \<not> tp then 0 else vp_power vp)"

text \<open>
  What the loop leaves alone: everything but the three maps and the updates, and those maps
  outside the validators \<open>A\<close>.
\<close>

definition residue :: "staking \<Rightarrow> staking" where
  "residue s = s\<lparr>sk_jmt := (sk_jmt s)\<lparr>j_power := Map.empty, j_state := Map.empty, j_uptime := Map.empty\<rparr>,
                 sk_tm_validator_updates := []\<rparr>"

definition transition_frame :: "identity_key set \<Rightarrow> staking \<Rightarrow> staking \<Rightarrow> bool" where
  "transition_frame A s s' \<longleftrightarrow> residue s' = residue s
     \<and> (\<forall>w. w \<notin> A \<longrightarrow> j_state (sk_jmt s') w = j_state (sk_jmt s) w
            \<and> j_power (sk_jmt s') w = j_power (sk_jmt s) w \<and> j_uptime (sk_jmt s') w = j_uptime (sk_jmt s) w)"

lemma transition_frame_refl [simp]: "transition_frame A s s"
  by (simp add: transition_frame_def)

lemma transition_frame_trans:
  "transition_frame A s t \<Longrightarrow> transition_frame B t u \<Longrightarrow> transition_frame (A \<union> B) s u"
  by (simp add: transition_frame_def)

lemma residue_keeps:
  "j_validator (sk_jmt (residue s)) = j_validator (sk_jmt s)"
  "j_validator_list (sk_jmt (residue s)) = j_validator_list (sk_jmt s)"
  "j_cur_rate (sk_jmt (residue s)) = j_cur_rate (sk_jmt s)"
  "j_next_rate (sk_jmt (residue s)) = j_next_rate (sk_jmt s)"
  "j_block_height (sk_jmt (residue s)) = j_block_height (sk_jmt s)"
  "j_chain_params (sk_jmt (residue s)) = j_chain_params (sk_jmt s)"
  "j_cur_base_rate (sk_jmt (residue s)) = j_cur_base_rate (sk_jmt s)"
  "j_next_base_rate (sk_jmt (residue s)) = j_next_base_rate (sk_jmt s)"
  "j_token_supply (sk_jmt (residue s)) = j_token_supply (sk_jmt s)"
  "j_delegation_changes (sk_jmt (residue s)) = j_delegation_changes (sk_jmt s)"
  "j_consensus_key (sk_jmt (residue s)) = j_consensus_key (sk_jmt s)"
  "j_spent_nullifiers (sk_jmt (residue s)) = j_spent_nullifiers (sk_jmt s)"
  "j_denom (sk_jmt (residue s)) = j_denom (sk_jmt s)"
  "j_known_assets (sk_jmt (residue s)) = j_known_assets (sk_jmt s)"
  "sk_delegation_changes (residue s) = sk_delegation_changes s"
  by (simp_all add: residue_def)

lemma residue_select:
  assumes "residue s' = residue s"
  shows "j_validator (sk_jmt s') = j_validator (sk_jmt s)"
    and "j_validator_list (sk_jmt s') = j_validator_list (sk_jmt s)"
    and "j_cur_rate (sk_jmt s') = j_cur_rate (sk_jmt s)"
    and "j_next_rate (sk_jmt s') = j_next_rate (sk_jmt s)"
    and "j_block_height (sk_jmt s') = j_block_height (sk_jmt s)"
    and "j_chain_params (sk_jmt s') = j_chain_params (sk_jmt s)"
    and "j_cur_base_rate (sk_jmt s') = j_cur_base_rate (sk_jmt s)"
    and "j_next_base_rate (sk_jmt s') = j_next_base_rate (sk_jmt s)"
    and "j_token_supply (sk_jmt s') = j_token_supply (sk_jmt s)"
    and "j_delegation_changes (sk_jmt s') = j_delegation_changes (sk_jmt s)"
    and "j_consensus_key (sk_jmt s') = j_consensus_key (sk_jmt s)"
    and "j_spent_nullifiers (sk_jmt s') = j_spent_nullifiers (sk_jmt s)"
    and "j_denom (sk_jmt s') = j_denom (sk_jmt s)"
    and "j_known_assets (sk_jmt s') = j_known_assets (sk_jmt s)"
    and "sk_delegation_changes s' = sk_delegation_changes s"
  using residue_keeps [of s] residue_keeps [of s'] unfolding assms by simp_all

lemmas transition_defs = transition_validator_def activate_validator_def displace_validator_def
  retain_validator_def expire_unbonding_def

lemma activate_validator_Inr:
  assumes "activate_validator vp s = Inr s'"
  defines "v \<equiv> vp_identity_key vp"
  shows "\<exists>d u. j_validator (sk_jmt s) v = Some d \<and> s' = s\<lparr>sk_jmt := (sk_jmt s)\<lparr>
      j_state := (j_state (sk_jmt s))(v \<mapsto> Active), j_uptime := (j_uptime (sk_jmt s))(v \<mapsto> u)\<rparr>,
      sk_tm_validator_updates := AList.update (consensus_key d) (vp_power vp) (sk_tm_validator_updates s)\<rparr>"
  using assms by (auto simp: activate_validator_def result_simps staking_jmt_simps Let_def)

lemma displace_validator_Inr:
  assumes "displace_validator e vp s = Inr s'"
  defines "v \<equiv> vp_identity_key vp"
  shows "\<exists>d. j_validator (sk_jmt s) v = Some d \<and> s' = s\<lparr>sk_jmt := (sk_jmt s)\<lparr>
      j_power := (j_power (sk_jmt s))(v \<mapsto> 0), j_state := (j_state (sk_jmt s))(v \<mapsto> Unbonding e)\<rparr>,
      sk_tm_validator_updates := AList.update (consensus_key d) 0 (sk_tm_validator_updates s)\<rparr>"
  using assms by (auto simp: displace_validator_def result_simps staking_jmt_simps Let_def)

lemma retain_validator_Inr:
  assumes "retain_validator vp s = Inr s'"
  defines "v \<equiv> vp_identity_key vp"
  shows "\<exists>d p. j_validator (sk_jmt s) v = Some d \<and> j_power (sk_jmt s) v = Some p
    \<and> s' = s\<lparr>sk_tm_validator_updates := AList.update (consensus_key d) p (sk_tm_validator_updates s)\<rparr>"
  using assms by (auto simp: retain_validator_def result_simps Let_def)

lemma expire_unbonding_Inr:
  assumes "expire_unbonding e vp s = Inr s'"
  defines "v \<equiv> vp_identity_key vp"
  shows "if (\<exists>u. vp_state vp = Unbonding u \<and> u \<le> ep_index e)
     then (\<exists>u. j_state (sk_jmt s) v = Some (Unbonding u))
        \<and> s' = s\<lparr>sk_jmt := (sk_jmt s)\<lparr>j_state := (j_state (sk_jmt s))(v \<mapsto> Inactive)\<rparr>\<rparr>
     else s' = s"
  using assms
  by (auto simp: expire_unbonding_def result_simps staking_jmt_simps vtrans_simps
      split: validator_state.splits if_splits)

lemma transition_validator_spec:
  assumes "transition_validator e n tops vp s = Inr s'"
    and "j_state (sk_jmt s) (vp_identity_key vp) = Some (vp_state vp)"
    and "j_power (sk_jmt s) (vp_identity_key vp) = Some (vp_power vp)"
  defines "v \<equiv> vp_identity_key vp" and "tp \<equiv> vp_identity_key vp \<in> set tops"
  shows "transition_frame {v} s s'"
    and "j_state (sk_jmt s') v = Some (next_vstate (ep_index e) n tp (vp_state vp))"
    and "j_power (sk_jmt s') v = Some (kept_power tp vp)"
    and "reported_power tp vp = None \<Longrightarrow> sk_tm_validator_updates s' = sk_tm_validator_updates s"
    and "reported_power tp vp = Some p \<Longrightarrow>
      \<exists>d. j_validator (sk_jmt s) v = Some d
        \<and> sk_tm_validator_updates s' = AList.update (consensus_key d) p (sk_tm_validator_updates s)"
proof -
  obtain t where t: "(case vp_state vp of
          Active \<Rightarrow> if v \<notin> set tops then displace_validator (ep_index e + n) vp s else retain_validator vp s
        | Slashed \<Rightarrow> Inr s
        | _ \<Rightarrow> if v \<in> set tops then activate_validator vp s else Inr s) = Inr t"
    and ex: "expire_unbonding e vp t = Inr s'"
    using assms(1) unfolding transition_validator_def bindR_Inr_iff v_def by blast
  note x = expire_unbonding_Inr [OF ex, folded v_def]
  note a = activate_validator_Inr [of vp s t, folded v_def]
  note d = displace_validator_Inr [of "ep_index e + n" vp s t, folded v_def]
  note r = retain_validator_Inr [of vp s t, folded v_def]
  have "transition_frame {v} s s'
    \<and> j_state (sk_jmt s') v = Some (next_vstate (ep_index e) n tp (vp_state vp))
    \<and> j_power (sk_jmt s') v = Some (kept_power tp vp)
    \<and> (case reported_power tp vp of
         None \<Rightarrow> sk_tm_validator_updates s' = sk_tm_validator_updates s
       | Some p \<Rightarrow> \<exists>d. j_validator (sk_jmt s) v = Some d
           \<and> sk_tm_validator_updates s' = AList.update (consensus_key d) p (sk_tm_validator_updates s))"
  proof (cases "vp_state vp")
    case Inactive
    with t x a assms(2,3) show ?thesis
      by (auto simp: transition_frame_def residue_def next_vstate_def kept_power_def reported_power_def tp_def v_def split: if_splits)
  next
    case Active
    with t x d r assms(2,3) show ?thesis
      by (auto simp: transition_frame_def residue_def next_vstate_def kept_power_def reported_power_def tp_def v_def split: if_splits)
  next
    case (Unbonding u)
    with t x a assms(2,3) show ?thesis
      by (auto simp: transition_frame_def residue_def next_vstate_def kept_power_def reported_power_def tp_def v_def split: if_splits)
  next
    case Slashed
    with t x assms(2,3) show ?thesis
      by (auto simp: transition_frame_def residue_def next_vstate_def kept_power_def reported_power_def tp_def v_def split: if_splits)
  qed
  then show "transition_frame {v} s s'"
    and "j_state (sk_jmt s') v = Some (next_vstate (ep_index e) n tp (vp_state vp))"
    and "j_power (sk_jmt s') v = Some (kept_power tp vp)"
    and "reported_power tp vp = None \<Longrightarrow> sk_tm_validator_updates s' = sk_tm_validator_updates s"
    and "reported_power tp vp = Some p \<Longrightarrow>
      \<exists>d. j_validator (sk_jmt s) v = Some d
        \<and> sk_tm_validator_updates s' = AList.update (consensus_key d) p (sk_tm_validator_updates s)"
    by auto
qed

section \<open>The whole set\<close>

definition snapshot_ok :: "vpower list \<Rightarrow> jmt \<Rightarrow> bool" where
  "snapshot_ok vps j \<longleftrightarrow> (\<forall>vp \<in> set vps. j_state j (vp_identity_key vp) = Some (vp_state vp)
     \<and> j_power j (vp_identity_key vp) = Some (vp_power vp))"

lemma snapshot_ok_Cons [simp]:
  "snapshot_ok (vp # vps) j \<longleftrightarrow> j_state j (vp_identity_key vp) = Some (vp_state vp)
     \<and> j_power j (vp_identity_key vp) = Some (vp_power vp) \<and> snapshot_ok vps j"
  by (auto simp: snapshot_ok_def)

lemma snapshot_ok_frame:
  assumes "transition_frame {v} s s'" and "snapshot_ok vps (sk_jmt s)" and "v \<notin> vp_identity_key ` set vps"
  shows "snapshot_ok vps (sk_jmt s')"
  using assms by (auto simp: snapshot_ok_def transition_frame_def)

lemma transitions_frame:
  assumes "foldR (transition_validator e n tops) vps s = Inr s'"
    and "distinct (map vp_identity_key vps)" and "snapshot_ok vps (sk_jmt s)"
  shows "transition_frame (vp_identity_key ` set vps) s s'"
  using assms
proof (induction vps arbitrary: s)
  case Nil
  then show ?case by simp
next
  case (Cons vp vps)
  from Cons.prems(1) obtain t where t: "transition_validator e n tops vp s = Inr t"
    and l: "foldR (transition_validator e n tops) vps t = Inr s'"
    by (auto simp: result_simps)
  have f: "transition_frame {vp_identity_key vp} s t"
    using transition_validator_spec(1) [OF t] Cons.prems(3) by simp
  have "snapshot_ok vps (sk_jmt t)"
    using Cons.prems(2,3) by (intro snapshot_ok_frame [OF f]) auto
  then have "transition_frame (vp_identity_key ` set vps) t s'"
    using Cons.IH [OF l] Cons.prems(2) by simp
  with f show ?case using transition_frame_trans by fastforce
qed

text \<open>Every validator ends in its intended state, with its intended power.\<close>

lemma transitions_state:
  assumes "foldR (transition_validator e n tops) vps s = Inr s'"
    and "distinct (map vp_identity_key vps)" and "snapshot_ok vps (sk_jmt s)" and "vp \<in> set vps"
  defines "tp \<equiv> vp_identity_key vp \<in> set tops"
  shows "j_state (sk_jmt s') (vp_identity_key vp) = Some (next_vstate (ep_index e) n tp (vp_state vp))
    \<and> j_power (sk_jmt s') (vp_identity_key vp) = Some (kept_power tp vp)"
  using assms(1-4)
proof (induction vps arbitrary: s)
  case Nil
  then show ?case by simp
next
  case (Cons w vps)
  from Cons.prems(1) obtain t where t: "transition_validator e n tops w s = Inr t"
    and l: "foldR (transition_validator e n tops) vps t = Inr s'"
    by (auto simp: result_simps)
  note spec = transition_validator_spec [OF t]
  have snap: "snapshot_ok vps (sk_jmt t)"
    using Cons.prems(2,3) spec(1) by (intro snapshot_ok_frame [of "vp_identity_key w" s t]) auto
  show ?case
  proof (cases "vp \<in> set vps")
    case True
    then show ?thesis using Cons.IH [OF l _ snap] Cons.prems(2) by simp
  next
    case False
    with Cons.prems(4) have w: "w = vp" by simp
    have "transition_frame (vp_identity_key ` set vps) t s'"
      using transitions_frame [OF l _ snap] Cons.prems(2) by simp
    then show ?thesis
      using spec(2,3) Cons.prems(2,3) w by (auto simp: transition_frame_def tp_def)
  qed
qed

lemma transition_updates_other:
  assumes "transition_validator e n tops vp s = Inr t" and "snapshot_ok [vp] (sk_jmt s)"
    and "\<And>d. j_validator (sk_jmt s) (vp_identity_key vp) = Some d \<Longrightarrow> consensus_key d \<noteq> ck"
  shows "map_of (sk_tm_validator_updates t) ck = map_of (sk_tm_validator_updates s) ck"
proof (cases "reported_power (vp_identity_key vp \<in> set tops) vp")
  case None
  then show ?thesis using transition_validator_spec(4) [OF assms(1)] assms(2) by simp
next
  case (Some p)
  then show ?thesis using transition_validator_spec(5) [OF assms(1)] assms(2,3)
    by (auto simp: update_conv')
qed

text \<open>The report of one step about its own validator.\<close>

lemma transition_updates_own:
  assumes "transition_validator e n tops vp s = Inr t" and "snapshot_ok [vp] (sk_jmt s)"
    and "j_validator (sk_jmt s) (vp_identity_key vp) = Some d"
  shows "map_of (sk_tm_validator_updates t) (consensus_key d) =
    (case reported_power (vp_identity_key vp \<in> set tops) vp of
       None \<Rightarrow> map_of (sk_tm_validator_updates s) (consensus_key d) | Some p \<Rightarrow> Some p)"
proof (cases "reported_power (vp_identity_key vp \<in> set tops) vp")
  case None
  then show ?thesis using transition_validator_spec(4) [OF assms(1)] assms(2) by (simp add: snapshot_ok_def)
next
  case (Some p)
  then show ?thesis
    using transition_validator_spec(5) [OF assms(1)] assms(2,3) by (auto simp: snapshot_ok_def update_conv')
qed

text \<open>
  The reports of all steps: for every consensus key the last validator with that key about which there is
  something to report.
\<close>

lemma find_snoc: "find P (xs @ [y]) = (case find P xs of None \<Rightarrow> if P y then Some y else None | Some x \<Rightarrow> Some x)"
  by (induction xs) auto

lemma transitions_updates:
  assumes "foldR (transition_validator e n tops) vps s = Inr s'"
    and "distinct (map vp_identity_key vps)" and "snapshot_ok vps (sk_jmt s)"
  shows "map_of (sk_tm_validator_updates s') ck =
    (case find (\<lambda>vp. reported_power (vp_identity_key vp \<in> set tops) vp \<noteq> None
         \<and> map_option consensus_key (j_validator (sk_jmt s) (vp_identity_key vp)) = Some ck) (rev vps) of
       None \<Rightarrow> map_of (sk_tm_validator_updates s) ck
     | Some vp \<Rightarrow> reported_power (vp_identity_key vp \<in> set tops) vp)"
  using assms
proof (induction vps arbitrary: s)
  case Nil
  then show ?case by simp
next
  case (Cons w vps)
  from Cons.prems(1) obtain t where t: "transition_validator e n tops w s = Inr t"
    and l: "foldR (transition_validator e n tops) vps t = Inr s'"
    by (auto simp: result_simps)
  note spec = transition_validator_spec [OF t]
  have fr: "transition_frame {vp_identity_key w} s t" using spec(1) Cons.prems(3) by simp
  then have jv: "j_validator (sk_jmt t) = j_validator (sk_jmt s)"
    unfolding transition_frame_def by (intro residue_select(1)) blast
  have snap: "snapshot_ok vps (sk_jmt t)"
    using Cons.prems(2,3) by (intro snapshot_ok_frame [OF fr]) auto
  have one: "snapshot_ok [w] (sk_jmt s)" using Cons.prems(3) by (simp add: snapshot_ok_def)
  have "map_of (sk_tm_validator_updates t) ck =
      (if reported_power (vp_identity_key w \<in> set tops) w \<noteq> None
          \<and> map_option consensus_key (j_validator (sk_jmt s) (vp_identity_key w)) = Some ck
       then reported_power (vp_identity_key w \<in> set tops) w else map_of (sk_tm_validator_updates s) ck)"
  proof (cases "map_option consensus_key (j_validator (sk_jmt s) (vp_identity_key w)) = Some ck")
    case True
    then obtain d where "j_validator (sk_jmt s) (vp_identity_key w) = Some d" "consensus_key d = ck" by auto
    then show ?thesis using transition_updates_own [OF t one] by (auto split: option.splits)
  next
    case False
    then show ?thesis using transition_updates_other [OF t one, of ck] by auto
  qed
  then show ?case
    using Cons.IH [OF l _ snap] Cons.prems(2) by (auto simp: jv find_snoc split: option.splits)
qed

section \<open>The sorted list\<close>

lemma set_sort_by_power [simp]: "set (sort_by_power vps) = set vps"
  by (simp add: sort_by_power_def)

lemma sorted_by_power:
  assumes "i < k" and "k < length vps"
  shows "vp_power (sort_by_power vps ! k) \<le> vp_power (sort_by_power vps ! i)"
proof -
  let ?f = "\<lambda>v. - int (unat (vp_power v))"
  have "sorted (map ?f (sort_by_power vps))" by (simp add: sort_by_power_def)
  moreover have "length (sort_by_power vps) = length vps" by (simp add: sort_by_power_def)
  ultimately have "?f (sort_by_power vps ! i) \<le> ?f (sort_by_power vps ! k)"
    using assms by (simp add: sorted_iff_nth_mono_less)
  then show ?thesis by (simp add: word_le_def)
qed

lemma read_vpower_Inr:
  "read_vpower j v = Inr vp \<longleftrightarrow> vp_identity_key vp = v \<and> j_power j v = Some (vp_power vp)
     \<and> j_state j v = Some (vp_state vp)"
  by (cases vp) (auto simp: read_vpower_def result_simps)

lemma read_all:
  assumes "mapR (read_vpower j) vs = Inr vps"
  shows "map vp_identity_key vps = vs" and "snapshot_ok vps j"
proof -
  from assms have "list_all2 (\<lambda>v vp. read_vpower j v = Inr vp) vs vps" by (simp add: mapR_Inr_nth)
  then have l: "list_all2 (\<lambda>v vp. vp_identity_key vp = v \<and> j_power j v = Some (vp_power vp)
     \<and> j_state j v = Some (vp_state vp)) vs vps"
    by (simp add: read_vpower_Inr)
  then show "map vp_identity_key vps = vs" by (induction) auto
  from l show "snapshot_ok vps j" by (induction) (auto simp: snapshot_ok_def)
qed

text \<open>The top validators: at most \<open>limit\<close>, with power, and no weaker than the others.\<close>

lemma length_top_validators: "length (top_validators limit vps) \<le> unat limit"
proof -
  have "length (filter P (take n vps)) \<le> n" for P n
    using length_filter_le [of P "take n vps"] by simp
  then show ?thesis by (simp add: top_validators_def)
qed

lemma top_validators_strongest:
  assumes "v \<in> set (top_validators limit (sort_by_power vps))" and "w \<in> set vps"
    and "vp_identity_key w \<notin> set (top_validators limit (sort_by_power vps))"
  shows "\<exists>vp \<in> set vps. vp_identity_key vp = v \<and> 0 < vp_power vp \<and> vp_power w \<le> vp_power vp"
proof -
  let ?s = "sort_by_power vps"
  have len: "length ?s = length vps" by (simp add: sort_by_power_def)
  from assms(1) obtain i where i: "i < length vps" "i < unat limit" "vp_identity_key (?s ! i) = v" "0 < vp_power (?s ! i)"
    by (auto simp: top_validators_def in_set_conv_nth len)
  obtain k where k: "k < length vps" "?s ! k = w"
    using assms(2) set_sort_by_power [of vps] by (metis in_set_conv_nth len)
  have mem: "?s ! i \<in> set vps" using i(1) set_sort_by_power [of vps] by (metis len nth_mem)
  have "vp_power w \<le> vp_power (?s ! i)"
  proof (cases "vp_power w = 0")
    case True
    then show ?thesis by simp
  next
    case False
    then have "0 < vp_power w" by (simp add: word_neq_0_conv)
    then have "w \<notin> set (take (unat limit) ?s)"
      using assms(3) by (auto simp: top_validators_def)
    then have "\<not> k < unat limit" using k len by (metis in_set_conv_nth length_take min_less_iff_conj nth_take)
    then have "i < k" using i(2) by simp
    then show ?thesis using sorted_by_power [of i k vps] k by simp
  qed
  with i mem show ?thesis by blast
qed

lemma distinct_sort_by_power:
  "distinct (map vp_identity_key vps) \<Longrightarrow> distinct (map vp_identity_key (sort_by_power vps))"
  by (simp add: distinct_map sort_by_power_def)

lemma distinct_top_validators:
  assumes "distinct (map vp_identity_key vps)"
  shows "distinct (top_validators limit vps)"
proof -
  have "distinct vps" "inj_on vp_identity_key (set vps)" using assms by (simp_all add: distinct_map)
  then show ?thesis
    by (auto simp: top_validators_def distinct_map intro: inj_on_subset dest: in_set_takeD)
qed

text \<open>Seats are left empty only when every validator with power has one.\<close>

lemma top_validators_full:
  assumes "length (top_validators limit (sort_by_power vps)) < unat limit" and "w \<in> set vps" and "0 < vp_power w"
  shows "vp_identity_key w \<in> set (top_validators limit (sort_by_power vps))"
proof (rule ccontr)
  assume n: "vp_identity_key w \<notin> set (top_validators limit (sort_by_power vps))"
  let ?s = "sort_by_power vps"
  have len: "length ?s = length vps" by (simp add: sort_by_power_def)
  obtain k where k: "k < length vps" "?s ! k = w"
    using assms(2) set_sort_by_power [of vps] by (metis in_set_conv_nth len)
  have "w \<notin> set (take (unat limit) ?s)" using n assms(3) by (auto simp: top_validators_def)
  then have kl: "unat limit \<le> k"
    using k len by (metis in_set_conv_nth length_take min_less_iff_conj not_le nth_take)
  have "0 < vp_power x" if "x \<in> set (take (unat limit) ?s)" for x
  proof -
    from that obtain i where "i < unat limit" "x = ?s ! i" by (auto simp: in_set_conv_nth)
    then have "vp_power w \<le> vp_power x" using sorted_by_power [of i k vps] k kl by simp
    then show ?thesis using assms(3) by (rule order_less_le_trans [rotated])
  qed
  then have "filter (\<lambda>v. 0 < vp_power v) (take (unat limit) ?s) = take (unat limit) ?s"
    by (simp add: filter_id_conv)
  then have "length (top_validators limit ?s) = min (length vps) (unat limit)"
    by (simp add: top_validators_def len)
  with assms(1) k kl show False by simp
qed

section \<open>The validator set after an epoch\<close>

lemma process_epoch_transitions_Inr:
  assumes "process_epoch_transitions e limit n s = Inr s'" and "distinct (validator_list (sk_jmt s))"
  obtains vps where "snapshot_ok vps (sk_jmt s)" and "distinct (map vp_identity_key vps)"
    and "map vp_identity_key vps = validator_list (sk_jmt s)"
    and "foldR (transition_validator e n (top_validators limit (sort_by_power vps))) (sort_by_power vps) s = Inr s'"
proof -
  from assms(1) obtain vps where "mapR (read_vpower (sk_jmt s)) (validator_list (sk_jmt s)) = Inr vps"
    and "foldR (transition_validator e n (top_validators limit (sort_by_power vps))) (sort_by_power vps) s = Inr s'"
    by (auto simp: process_epoch_transitions_def result_simps Let_def)
  with read_all assms(2) show thesis using that by metis
qed

lemma snapshot_ok_sort [simp]: "snapshot_ok (sort_by_power vps) j = snapshot_ok vps j"
  by (simp add: snapshot_ok_def)

lemma process_epoch_transitions_frame:
  assumes "process_epoch_transitions e limit n s = Inr s'" and "distinct (validator_list (sk_jmt s))"
  shows "transition_frame (set (validator_list (sk_jmt s))) s s'"
proof -
  obtain vps where v: "snapshot_ok vps (sk_jmt s)" "distinct (map vp_identity_key vps)"
    "map vp_identity_key vps = validator_list (sk_jmt s)"
    "foldR (transition_validator e n (top_validators limit (sort_by_power vps))) (sort_by_power vps) s = Inr s'"
    using process_epoch_transitions_Inr [OF assms] .
  have "vp_identity_key ` set (sort_by_power vps) = set (validator_list (sk_jmt s))"
    using v(3) [symmetric] by simp
  then show ?thesis using transitions_frame [OF v(4) distinct_sort_by_power [OF v(2)]] v(1) by simp
qed

text \<open>
  What it means for \<open>T\<close> to be the set the code elects from the powers of \<open>j\<close>: at most
  \<open>limit\<close> validators, all with power, none weaker than one left out, and no seat left
  empty while a validator with power is left out.
\<close>

definition elected :: "nat \<Rightarrow> identity_key set \<Rightarrow> (identity_key \<Rightarrow> u64) \<Rightarrow> identity_key set \<Rightarrow> bool" where
  "elected limit V pw T \<longleftrightarrow> T \<subseteq> V \<and> card T \<le> limit
     \<and> (\<forall>v \<in> T. 0 < pw v \<and> (\<forall>w \<in> V - T. pw w \<le> pw v))
     \<and> (card T < limit \<longrightarrow> (\<forall>w \<in> V - T. pw w = 0))"

definition power_in :: "jmt \<Rightarrow> identity_key \<Rightarrow> u64" where
  "power_in j v = (case j_power j v of Some p \<Rightarrow> p | None \<Rightarrow> 0)"

lemma sorted_powers:
  assumes "snapshot_ok vps j"
  shows "sorted_wrt (\<lambda>v w. power_in j w \<le> power_in j v) (map vp_identity_key (sort_by_power vps))"
proof -
  have p: "power_in j (vp_identity_key vp) = vp_power vp" if "vp \<in> set (sort_by_power vps)" for vp
    using assms that by (simp add: snapshot_ok_def power_in_def)
  have l: "length (sort_by_power vps) = length vps" by (simp add: sort_by_power_def)
  show ?thesis
    unfolding sorted_wrt_map unfolding sorted_wrt_iff_nth_less
  proof (intro allI impI)
    fix i k assume ik: "i < k" "k < length (sort_by_power vps)"
    have "sort_by_power vps ! i \<in> set (sort_by_power vps)" "sort_by_power vps ! k \<in> set (sort_by_power vps)"
      by (intro nth_mem less_trans [OF ik] ik(2))+
    with ik l show "power_in j (vp_identity_key (sort_by_power vps ! k)) \<le> power_in j (vp_identity_key (sort_by_power vps ! i))"
      by (simp add: p sorted_by_power)
  qed
qed

lemma top_validators_elected:
  assumes "snapshot_ok vps j" and d: "distinct (map vp_identity_key vps)"
  shows "elected (unat limit) (vp_identity_key ` set vps) (power_in j)
    (set (top_validators limit (sort_by_power vps)))"
proof -
  let ?T = "top_validators limit (sort_by_power vps)"
  have pw: "power_in j (vp_identity_key vp) = vp_power vp" if "vp \<in> set vps" for vp
    using assms(1) that by (simp add: snapshot_ok_def power_in_def)
  have sub: "set ?T \<subseteq> vp_identity_key ` set vps"
    by (auto simp: top_validators_def dest!: in_set_takeD)
  have card: "card (set ?T) = length ?T"
    using distinct_top_validators [OF distinct_sort_by_power [OF d]] by (rule distinct_card)
  have pos: "0 < power_in j v" if v: "v \<in> set ?T" for v
  proof -
    from v obtain vp where "vp \<in> set (take (unat limit) (sort_by_power vps))" "0 < vp_power vp" "v = vp_identity_key vp"
      by (auto simp: top_validators_def)
    moreover from this(1) have "vp \<in> set vps" by (auto dest: in_set_takeD)
    ultimately show ?thesis by (simp add: pw)
  qed
  have best: "power_in j w \<le> power_in j v"
    if vT: "v \<in> set ?T" and wT: "w \<in> vp_identity_key ` set vps - set ?T" for v w
  proof -
    from wT obtain x where x: "x \<in> set vps" "w = vp_identity_key x" by blast
    then obtain vp where "vp \<in> set vps" "vp_identity_key vp = v" "vp_power x \<le> vp_power vp"
      using top_validators_strongest [OF vT] wT by blast
    with x pw show ?thesis by force
  qed
  have full: "power_in j w = 0" if "length ?T < unat limit" and w: "w \<in> vp_identity_key ` set vps - set ?T" for w
  proof (rule ccontr)
    assume "power_in j w \<noteq> 0"
    then have "0 < power_in j w" by (simp add: word_neq_0_conv)
    then show False using top_validators_full [OF that(1)] w pw by auto
  qed
  show ?thesis
    unfolding elected_def card using sub pos best full length_top_validators by blast
qed

text \<open>An unbonding period that ends while the validator re-enters the top set cannot be processed.\<close>

lemma transition_not_expired:
  assumes "transition_validator e n tops vp s = Inr s'" and "vp_identity_key vp \<in> set tops"
  shows "vp_state vp \<noteq> Unbonding u \<or> \<not> u \<le> ep_index e"
proof (rule ccontr)
  assume "\<not> ?thesis"
  then have u: "vp_state vp = Unbonding u" "u \<le> ep_index e" by auto
  with assms obtain t where t: "activate_validator vp s = Inr t" "expire_unbonding e vp t = Inr s'"
    by (auto simp: transition_validator_def result_simps)
  from activate_validator_Inr [OF t(1)] have "j_state (sk_jmt t) (vp_identity_key vp) = Some Active" by auto
  with expire_unbonding_Inr [OF t(2)] u show False by auto
qed

lemma transitions_not_expired:
  assumes "foldR (transition_validator e n tops) vps s = Inr s'" and "vp \<in> set vps"
    and "vp_identity_key vp \<in> set tops"
  shows "vp_state vp \<noteq> Unbonding u \<or> \<not> u \<le> ep_index e"
  using assms(1,2)
proof (induction vps arbitrary: s)
  case Nil
  then show ?case by simp
next
  case (Cons w vps)
  then obtain t where "transition_validator e n tops w s = Inr t" "foldR (transition_validator e n tops) vps t = Inr s'"
    by (auto simp: result_simps)
  then show ?case using Cons transition_not_expired [OF _ assms(3)] by auto
qed

section \<open>Properties\<close>

text \<open>
  C18: at the end of an epoch the code elects a set \<open>T\<close> of at most
  \<open>active_validator_limit\<close> validators, the strongest ones with voting power, and every
  validator of the list ends in the state intended for it: elected validators are active
  unless slashed, displaced ones start unbonding, and unbonding ones whose period is over
  become inactive.  No other validator changes state.
\<close>

theorem epoch_transition_states:
  assumes "process_epoch_transitions e limit n s = Inr s'" and "distinct (validator_list (sk_jmt s))"
  shows "\<exists>T. elected (unat limit) (set (validator_list (sk_jmt s))) (power_in (sk_jmt s)) T
    \<and> (\<forall>v \<in> set (validator_list (sk_jmt s)). \<exists>st. j_state (sk_jmt s) v = Some st
         \<and> j_state (sk_jmt s') v = Some (next_vstate (ep_index e) n (v \<in> T) st))
    \<and> (\<forall>v. v \<notin> set (validator_list (sk_jmt s)) \<longrightarrow> j_state (sk_jmt s') v = j_state (sk_jmt s) v)"
proof -
  obtain vps where v: "snapshot_ok vps (sk_jmt s)" "distinct (map vp_identity_key vps)"
    "map vp_identity_key vps = validator_list (sk_jmt s)"
    "foldR (transition_validator e n (top_validators limit (sort_by_power vps))) (sort_by_power vps) s = Inr s'"
    using process_epoch_transitions_Inr [OF assms] .
  let ?T = "set (top_validators limit (sort_by_power vps))"
  have l: "set (validator_list (sk_jmt s)) = vp_identity_key ` set vps" by (simp add: v(3) [symmetric])
  have "j_state (sk_jmt s) (vp_identity_key vp) = Some (vp_state vp)
    \<and> j_state (sk_jmt s') (vp_identity_key vp) = Some (next_vstate (ep_index e) n (vp_identity_key vp \<in> ?T) (vp_state vp))"
    if "vp \<in> set vps" for vp
    using transitions_state [OF v(4) distinct_sort_by_power [OF v(2)], of vp] v(1) that
    by (simp add: snapshot_ok_def)
  then show ?thesis
    using top_validators_elected [OF v(1,2), of limit] process_epoch_transitions_frame [OF assms]
    by (intro exI [of _ ?T]) (auto simp: l transition_frame_def)
qed

text \<open>
  After the transitions at most \<open>active_validator_limit\<close> validators of the list are active.
\<close>

theorem active_set_bounded:
  assumes "process_epoch_transitions e limit n s = Inr s'" and "distinct (validator_list (sk_jmt s))"
  shows "card {v \<in> set (validator_list (sk_jmt s')). j_state (sk_jmt s') v = Some Active} \<le> unat limit"
proof -
  obtain vps where v: "snapshot_ok vps (sk_jmt s)" "distinct (map vp_identity_key vps)"
    "map vp_identity_key vps = validator_list (sk_jmt s)"
    "foldR (transition_validator e n (top_validators limit (sort_by_power vps))) (sort_by_power vps) s = Inr s'"
    using process_epoch_transitions_Inr [OF assms] .
  let ?T = "set (top_validators limit (sort_by_power vps))"
  have "residue s' = residue s"
    using process_epoch_transitions_frame [OF assms] unfolding transition_frame_def by blast
  then have "validator_list (sk_jmt s') = map vp_identity_key vps"
    using residue_select(2) v(3) by (metis validator_list_def)
  then have l: "set (validator_list (sk_jmt s')) = vp_identity_key ` set vps" by simp
  have "vp_identity_key vp \<in> ?T"
    if "vp \<in> set vps" and "j_state (sk_jmt s') (vp_identity_key vp) = Some Active" for vp
    using transitions_state [OF v(4) distinct_sort_by_power [OF v(2)], of vp] v(1) that
    by (auto simp: next_vstate_def split: validator_state.splits if_splits)
  then have "{v \<in> set (validator_list (sk_jmt s')). j_state (sk_jmt s') v = Some Active} \<subseteq> ?T"
    unfolding l by blast
  moreover have "card ?T \<le> unat limit"
    using top_validators_elected [OF v(1,2), of limit] by (simp add: elected_def)
  ultimately show ?thesis by (meson card_mono finite_set le_trans)
qed

text \<open>
  What there is to report about a validator: its new power if it is active now, and 0 if it was active before
  only.
\<close>

definition power_report :: "jmt \<Rightarrow> jmt \<Rightarrow> identity_key \<Rightarrow> u64 option" where
  "power_report j j' v =
     (if j_state j' v = Some Active then j_power j' v
      else if j_state j v = Some Active then Some 0 else None)"

definition has_consensus_key :: "jmt \<Rightarrow> public_key \<Rightarrow> identity_key \<Rightarrow> bool" where
  "has_consensus_key j ck v \<longleftrightarrow> map_option consensus_key (j_validator j v) = Some ck"

lemma report_of_transition:
  assumes "foldR (transition_validator e n tops) vps s = Inr s'"
    and "distinct (map vp_identity_key vps)" and "snapshot_ok vps (sk_jmt s)" and "vp \<in> set vps"
  shows "reported_power (vp_identity_key vp \<in> set tops) vp = power_report (sk_jmt s) (sk_jmt s') (vp_identity_key vp)"
proof -
  have old: "j_state (sk_jmt s) (vp_identity_key vp) = Some (vp_state vp)" using assms(3,4) by (simp add: snapshot_ok_def)
  have new: "j_state (sk_jmt s') (vp_identity_key vp) = Some (next_vstate (ep_index e) n (vp_identity_key vp \<in> set tops) (vp_state vp))"
    "j_power (sk_jmt s') (vp_identity_key vp) = Some (kept_power (vp_identity_key vp \<in> set tops) vp)"
    using transitions_state [OF assms] by blast+
  show ?thesis
    unfolding power_report_def old new
    by (cases "vp_state vp") (simp_all add: next_vstate_def reported_power_def kept_power_def)
qed

lemma find_map_cong: "(\<And>x. x \<in> set xs \<Longrightarrow> P (f x) = Q x) \<Longrightarrow> find P (map f xs) = map_option f (find Q xs)"
  by (induction xs) auto

lemma find_member: "find P xs = Some x \<Longrightarrow> x \<in> set xs \<and> P x"
  by (induction xs) (auto split: if_splits)

lemma find_unique:
  assumes "v \<in> set vs" and "P v" and "\<forall>w \<in> set vs. P w \<longrightarrow> w = v"
  shows "find P vs = Some v"
proof (cases "find P vs")
  case None
  with assms(1,2) show ?thesis by (simp add: find_None_iff)
next
  case (Some w)
  with assms(3) find_member [OF Some] show ?thesis by blast
qed

text \<open>
  C19: what Tendermint is told.  The validators are visited in the order of falling power.  For every consensus key,
  Tendermint is told what there is to report about the last validator in that order that has the key and about which
  there is something to report: its new power if it is active after the transitions, and 0 if it was displaced;
  other keys keep their pending update.  So a validator that shares its consensus key with no other one is reported
  with exactly its new voting power if it is active, and with 0 if it stopped being active; of two that share
  a key, which nothing rules out, only one is reported.
\<close>

theorem epoch_transition_updates:
  assumes "process_epoch_transitions e limit n s = Inr s'" and "distinct (validator_list (sk_jmt s))"
  shows "(\<exists>order. mset order = mset (validator_list (sk_jmt s))
      \<and> sorted_wrt (\<lambda>v w. power_in (sk_jmt s) w \<le> power_in (sk_jmt s) v) order
      \<and> (\<forall>ck. map_of (sk_tm_validator_updates s') ck =
          (case find (\<lambda>v. power_report (sk_jmt s) (sk_jmt s') v \<noteq> None \<and> has_consensus_key (sk_jmt s) ck v) (rev order) of
             None \<Rightarrow> map_of (sk_tm_validator_updates s) ck
           | Some v \<Rightarrow> power_report (sk_jmt s) (sk_jmt s') v)))
    \<and> (\<forall>v ck. v \<in> set (validator_list (sk_jmt s)) \<and> has_consensus_key (sk_jmt s) ck v
        \<and> (\<forall>w \<in> set (validator_list (sk_jmt s)). has_consensus_key (sk_jmt s) ck w \<longrightarrow> w = v)
        \<longrightarrow> (j_state (sk_jmt s') v = Some Active \<longrightarrow> map_of (sk_tm_validator_updates s') ck = j_power (sk_jmt s') v)
          \<and> (j_state (sk_jmt s) v = Some Active \<and> j_state (sk_jmt s') v \<noteq> Some Active \<longrightarrow>
               map_of (sk_tm_validator_updates s') ck = Some 0 \<and> j_power (sk_jmt s') v = Some 0))"
proof -
  obtain vps where v: "snapshot_ok vps (sk_jmt s)" "distinct (map vp_identity_key vps)"
    "map vp_identity_key vps = validator_list (sk_jmt s)"
    "foldR (transition_validator e n (top_validators limit (sort_by_power vps))) (sort_by_power vps) s = Inr s'"
    using process_epoch_transitions_Inr [OF assms] .
  let ?s = "sort_by_power vps" and ?R = "power_report (sk_jmt s) (sk_jmt s')"
  let ?o = "map vp_identity_key ?s"
  have ds: "distinct ?o" using v(2) by (rule distinct_sort_by_power)
  have set_o: "set ?o = set (validator_list (sk_jmt s))" by (simp add: v(3) [symmetric])
  have perm: "mset ?o = mset (validator_list (sk_jmt s))" unfolding v(3) [symmetric] by (simp add: sort_by_power_def)
  have snap: "snapshot_ok ?s (sk_jmt s)" using v(1) by simp
  have rep: "reported_power (vp_identity_key vp \<in> set (top_validators limit ?s)) vp = ?R (vp_identity_key vp)" if "vp \<in> set ?s" for vp
    using report_of_transition [OF v(4) ds] v(1) that by simp
  have told: "map_of (sk_tm_validator_updates s') ck =
      (case find (\<lambda>v. ?R v \<noteq> None \<and> has_consensus_key (sk_jmt s) ck v) (rev ?o) of
         None \<Rightarrow> map_of (sk_tm_validator_updates s) ck | Some v \<Rightarrow> ?R v)" for ck
  proof -
    have "find (\<lambda>v. ?R v \<noteq> None \<and> has_consensus_key (sk_jmt s) ck v) (map vp_identity_key (rev ?s)) = map_option vp_identity_key
        (find (\<lambda>vp. reported_power (vp_identity_key vp \<in> set (top_validators limit ?s)) vp \<noteq> None
         \<and> map_option consensus_key (j_validator (sk_jmt s) (vp_identity_key vp)) = Some ck) (rev ?s))"
      by (rule find_map_cong) (auto simp: rep has_consensus_key_def)
    then show ?thesis
      unfolding transitions_updates [OF v(4) ds snap, of ck] rev_map
      by (cases "find (\<lambda>vp. reported_power (vp_identity_key vp \<in> set (top_validators limit ?s)) vp \<noteq> None
         \<and> map_option consensus_key (j_validator (sk_jmt s) (vp_identity_key vp)) = Some ck) (rev ?s)")
        (use rep find_member in \<open>fastforce+\<close>)
  qed
  show ?thesis
  proof (intro conjI exI [of _ ?o] perm allI impI told sorted_powers [OF v(1)])
    fix v ck
    assume a: "v \<in> set (validator_list (sk_jmt s)) \<and> has_consensus_key (sk_jmt s) ck v
        \<and> (\<forall>w \<in> set (validator_list (sk_jmt s)). has_consensus_key (sk_jmt s) ck w \<longrightarrow> w = v)"
    have own: "map_of (sk_tm_validator_updates s') ck = ?R v" if "?R v \<noteq> None"
    proof -
      have "find (\<lambda>v. ?R v \<noteq> None \<and> has_consensus_key (sk_jmt s) ck v) (rev ?o) = Some v"
        using a that by (intro find_unique) (use set_o in \<open>simp_all only: set_rev\<close>, blast+)
      then show ?thesis by (simp add: told)
    qed
    have "v \<in> vp_identity_key ` set ?s" using a set_o unfolding set_map by blast
    then obtain vp where vp: "vp \<in> set ?s" "vp_identity_key vp = v" by blast
    note st = transitions_state [OF v(4) ds, of vp, unfolded vp(2)]
    show "map_of (sk_tm_validator_updates s') ck = j_power (sk_jmt s') v" if "j_state (sk_jmt s') v = Some Active"
      using own that st vp v(1) by (simp add: power_report_def)
    assume d: "j_state (sk_jmt s) v = Some Active \<and> j_state (sk_jmt s') v \<noteq> Some Active"
    then show "map_of (sk_tm_validator_updates s') ck = Some 0" using own by (simp add: power_report_def)
    show "j_power (sk_jmt s') v = Some 0"
      using d st vp v(1) by (auto simp: snapshot_ok_def next_vstate_def kept_power_def split: if_splits)
  qed
qed

text \<open>
  An unbonding validator whose period is over (\<open>unbonding_epoch\<close> not after the epoch that
  ends) and which is elected again makes the whole transition fail: the code first moves it to
  \<open>Active\<close> and then, from the stale copy of its state, to \<open>Inactive\<close>, which the state
  machine refuses.  The error is unwrapped by \<open>end_block\<close>.
\<close>

lemma elected_expired_unbonding_fails:
  assumes "mapR (read_vpower (sk_jmt s)) (validator_list (sk_jmt s)) = Inr vps" and "vp \<in> set vps"
    and "vp_identity_key vp \<in> set (top_validators limit (sort_by_power vps))"
    and "vp_state vp = Unbonding u" and "u \<le> ep_index e"
  shows "\<exists>err. process_epoch_transitions e limit n s = Inl err"
proof (cases "process_epoch_transitions e limit n s")
  case (Inl err)
  then show ?thesis by blast
next
  case (Inr s')
  then have "foldR (transition_validator e n (top_validators limit (sort_by_power vps))) (sort_by_power vps) s = Inr s'"
    using assms(1) by (simp add: process_epoch_transitions_def Let_def)
  from transitions_not_expired [OF this _ assms(3)] assms(2,4,5) show ?thesis by auto
qed

end
