(* ===== verification/Staking_Inv.thy ===== *)
theory Staking_Inv
  imports Epoch_Transition
begin

text \<open>
  The invariant of the staking data and its preservation by every operation of the component:
  \<open>staking_ok i h\<close> says that the stored data is complete and consistent for epoch \<open>i\<close>,
  with votes recorded up to height \<open>h\<close>.  It is what keeps the component's error branches
  and its assertion unreachable.
\<close>

section \<open>The invariant\<close>

definition rate_ok :: "identity_key \<Rightarrow> u64 \<Rightarrow> rate_data option \<Rightarrow> bool" where
  "rate_ok v i r \<longleftrightarrow> (\<exists>rd. r = Some rd \<and> rd_identity_key rd = v \<and> rd_epoch_index rd = i)"

definition validator_ok :: "u64 \<Rightarrow> u64 \<Rightarrow> jmt \<Rightarrow> identity_key \<Rightarrow> bool" where
  "validator_ok i h j v \<longleftrightarrow>
     (\<exists>d. j_validator j v = Some d \<and> identity_key d = v)
     \<and> rate_ok v i (j_cur_rate j v) \<and> rate_ok v (i + 1) (j_next_rate j v)
     \<and> (\<exists>p. j_power j v = Some p \<and> unat p \<le> 1152921504606846975)
     \<and> (\<exists>st. j_state j v = Some st
          \<and> (st = Active \<longrightarrow> (\<exists>u. j_uptime j v = Some u \<and> as_of_block_height u = h \<and> signatures u \<noteq> [])))"

definition staking_ok :: "u64 \<Rightarrow> u64 \<Rightarrow> jmt \<Rightarrow> bool" where
  "staking_ok i h j \<longleftrightarrow>
     distinct (validator_list j)
     \<and> (\<forall>v \<in> set (validator_list j). validator_ok i h j v)
     \<and> (\<forall>v. v \<notin> set (validator_list j) \<longrightarrow> j_validator j v = None)
     \<and> (\<exists>b. j_cur_base_rate j = Some b \<and> brd_epoch_index b = i)
     \<and> (\<exists>b. j_next_base_rate j = Some b \<and> brd_epoch_index b = i + 1)"

lemma staking_okD:
  assumes "staking_ok i h j" and "v \<in> set (validator_list j)"
  shows "validator_ok i h j v"
  using assms by (simp add: staking_ok_def)

text \<open>The invariant reads only these fields.\<close>

lemma staking_ok_cong:
  assumes "j_validator j' = j_validator j" "j_validator_list j' = j_validator_list j"
    "j_cur_rate j' = j_cur_rate j" "j_next_rate j' = j_next_rate j" "j_power j' = j_power j"
    "j_state j' = j_state j" "j_uptime j' = j_uptime j"
    "j_cur_base_rate j' = j_cur_base_rate j" "j_next_base_rate j' = j_next_base_rate j"
  shows "staking_ok i h j' = staking_ok i h j"
  using assms by (simp add: staking_ok_def validator_ok_def validator_list_def)

lemma staking_ok_set_delegation_changes [simp]:
  "staking_ok i h (set_delegation_changes k c j) = staking_ok i h j"
  by (rule staking_ok_cong) (simp_all add: staking_view_defs)

section \<open>Slashing\<close>

lemma view_slash_Inr:
  "view_slash_validator v pen j = Inr j' \<longleftrightarrow>
     (\<exists>s r. j_state j (identity_key v) = Some s \<and> vtrans s Slashed \<and> j_cur_rate j (identity_key v) = Some r
        \<and> j' = set_validator_rates (identity_key v) (slash r pen)
                 ((slash r pen)\<lparr>rd_epoch_index := rd_epoch_index r + 1\<rparr>)
                 (j\<lparr>j_state := (j_state j)(identity_key v \<mapsto> Slashed)\<rparr>))"
  by (auto simp: view_slash_validator_def result_simps set_validator_state_Inr Let_def)

lemma slash_validator_Inr:
  "slash_validator v pen s = Inr s' \<longleftrightarrow>
     (\<exists>j. view_slash_validator v pen (sk_jmt s) = Inr j \<and>
        s' = s\<lparr>sk_jmt := j, sk_tm_validator_updates := AList.update (consensus_key v) 0 (sk_tm_validator_updates s)\<rparr>)"
  by (auto simp: slash_validator_def result_simps)

lemma validator_ok_slash:
  assumes "w \<noteq> v \<Longrightarrow> validator_ok i h' j w"
    and "validator_ok i h j v"
    and "view_slash_validator d pen j = Inr j'" and "identity_key d = v"
  shows "validator_ok i h' j' w"
proof (cases "w = v")
  case True
  then show ?thesis
    using assms(2,3,4) by (auto simp: view_slash_Inr staking_view_defs validator_ok_def rate_ok_def)
next
  case False
  then have "validator_ok i h' j w" using assms(1) by simp
  with False assms(3,4) show ?thesis
    by (auto simp: view_slash_Inr staking_view_defs validator_ok_def)
qed

lemma view_slash_frame:
  assumes "view_slash_validator d pen j = Inr j'"
  shows "j_validator j' = j_validator j" "validator_list j' = validator_list j"
    "j_cur_base_rate j' = j_cur_base_rate j" "j_next_base_rate j' = j_next_base_rate j"
    "j_chain_params j' = j_chain_params j" "j_block_height j' = j_block_height j"
    "j_token_supply j' = j_token_supply j" "j_uptime j' = j_uptime j" "j_power j' = j_power j"
  using assms by (auto simp: view_slash_Inr staking_view_defs validator_list_def)

lemma staking_ok_slash:
  assumes "staking_ok i h j" and "view_slash_validator d pen j = Inr j'"
    and "identity_key d \<in> set (validator_list j)"
  shows "staking_ok i h j'"
proof -
  note fr = view_slash_frame [OF assms(2)]
  have "validator_ok i h j' w" if "w \<in> set (validator_list j)" for w
    by (rule validator_ok_slash [OF _ _ assms(2) refl]) (use assms that in \<open>auto dest: staking_okD\<close>)
  then show ?thesis using assms(1) by (simp add: staking_ok_def fr)
qed

section \<open>Tracking uptime\<close>

text \<open>
  While the list is processed, the validators handled so far have votes up to the new height,
  the others up to the previous one.
\<close>

definition tracking_ok :: "u64 \<Rightarrow> u64 \<Rightarrow> identity_key list \<Rightarrow> jmt \<Rightarrow> bool" where
  "tracking_ok i height todo j \<longleftrightarrow>
     (\<forall>v \<in> set (validator_list j). validator_ok i (if v \<in> set todo then height - 1 else height) j v)"

lemma tracking_ok_head:
  "tracking_ok i height (v # todo) j \<Longrightarrow> v \<in> set (validator_list j) \<Longrightarrow> validator_ok i (height - 1) j v"
  by (force simp: tracking_ok_def)

text \<open>Handling one validator, \<open>v\<close>, without disturbing the others.\<close>

lemma tracking_ok_next:
  assumes "tracking_ok i height (v # todo) j" and "v \<notin> set todo" and "validator_list j' = validator_list j"
    and "\<And>w h. w \<noteq> v \<Longrightarrow> validator_ok i h j w \<Longrightarrow> validator_ok i h j' w"
    and "validator_ok i height j' v"
  shows "tracking_ok i height todo j'"
  unfolding tracking_ok_def assms(3)
proof
  fix w assume w: "w \<in> set (validator_list j)"
  have "validator_ok i (if w \<in> set (v # todo) then height - 1 else height) j w"
    using assms(1) w unfolding tracking_ok_def by blast
  then show "validator_ok i (if w \<in> set todo then height - 1 else height) j' w"
    using assms(2,4,5) by (cases "w = v") auto
qed

lemma validator_ok_vote:
  assumes "validator_ok i h j v" and "as_of_block_height u = h'" and "signatures u \<noteq> []"
  shows "validator_ok i h' (set_validator_uptime v u j) v"
    and "w \<noteq> v \<Longrightarrow> validator_ok i k j w \<Longrightarrow> validator_ok i k (set_validator_uptime v u j) w"
  using assms by (auto simp: validator_ok_def staking_view_defs)

lemma track_validator_step:
  assumes ok: "tracking_ok i height (v # todo) (sk_jmt s)" and v: "v \<in> set (validator_list (sk_jmt s))"
    and d: "v \<notin> set todo"
  shows "\<exists>s'. track_validator X height params votes v s = Inr s' \<and> tracking_ok i height todo (sk_jmt s')
    \<and> validator_list (sk_jmt s') = validator_list (sk_jmt s) \<and> j_validator (sk_jmt s') = j_validator (sk_jmt s)
    \<and> j_cur_base_rate (sk_jmt s') = j_cur_base_rate (sk_jmt s) \<and> j_next_base_rate (sk_jmt s') = j_next_base_rate (sk_jmt s)
    \<and> j_chain_params (sk_jmt s') = j_chain_params (sk_jmt s) \<and> j_block_height (sk_jmt s') = j_block_height (sk_jmt s)"
proof -
  let ?j = "sk_jmt s"
  have vok: "validator_ok i (height - 1) ?j v" using ok v by (rule tracking_ok_head)
  obtain d0 p st r c where j: "j_validator ?j v = Some d0" "identity_key d0 = v" "j_power ?j v = Some p"
    "j_state ?j v = Some st" "j_next_rate ?j v = Some r" "j_cur_rate ?j v = Some c"
    using vok by (auto simp: validator_ok_def rate_ok_def)
  have info: "validator_info ?j v = Some (d0, \<lparr>st_identity_key = v, st_voting_power = p, st_state = st\<rparr>, r)"
    using j by (simp add: validator_info_def get_validator_status_def)
  show ?thesis
  proof (cases "st = Active")
    case False
    then have "validator_ok i height ?j v" using vok j by (simp add: validator_ok_def)
    then have "tracking_ok i height todo ?j" by (intro tracking_ok_next [OF ok d refl])
    then show ?thesis using False info by (simp add: track_validator_def)
  next
    case True
    obtain u where u: "j_uptime ?j v = Some u" "as_of_block_height u = height - 1" "signatures u \<noteq> []"
      using vok True j by (auto simp: validator_ok_def)
    define voted where "voted = (case votes (x_addr20 X (consensus_key d0)) of Some b \<Rightarrow> b | None \<Rightarrow> False)"
    obtain u' where m: "mark_height_as_signed u height voted = Inr u'" "as_of_block_height u' = height" "signatures u' \<noteq> []"
      using u by (auto simp: mark_height_as_signed_def Let_def)
    obtain j' where vs: "view_slash_validator d0 (slashing_penalty_downtime_bps params) ?j = Inr j'"
      using j True by (auto simp: view_slash_Inr vtrans_simps)
    have "tracking_ok i height todo j'"
      by (rule tracking_ok_next [OF ok d view_slash_frame(2) [OF vs]]) (use validator_ok_slash [OF _ vok vs j(2)] in blast)+
    moreover have "tracking_ok i height todo (set_validator_uptime v u' ?j)"
      by (rule tracking_ok_next [OF ok d]) (use validator_ok_vote [OF vok m(2,3)] in \<open>auto simp: staking_view_defs validator_list_def\<close>)
    ultimately show ?thesis
      using info True u m vs view_slash_frame [OF vs]
      by (simp add: track_validator_def voted_def [symmetric] slash_validator_def update_tm_validator_power_def
          i64_try_from_def on_jmt_def) (simp add: staking_view_defs validator_list_def)
  qed
qed

lemma track_loop:
  assumes "tracking_ok i height todo (sk_jmt s)" and "set todo \<subseteq> set (validator_list (sk_jmt s))" and "distinct todo"
  shows "\<exists>s'. foldR (track_validator X height params votes) todo s = Inr s' \<and> tracking_ok i height [] (sk_jmt s')
    \<and> validator_list (sk_jmt s') = validator_list (sk_jmt s) \<and> j_validator (sk_jmt s') = j_validator (sk_jmt s)
    \<and> j_cur_base_rate (sk_jmt s') = j_cur_base_rate (sk_jmt s) \<and> j_next_base_rate (sk_jmt s') = j_next_base_rate (sk_jmt s)
    \<and> j_chain_params (sk_jmt s') = j_chain_params (sk_jmt s) \<and> j_block_height (sk_jmt s') = j_block_height (sk_jmt s)"
  using assms
proof (induction todo arbitrary: s)
  case Nil
  then show ?case by simp
next
  case (Cons v todo)
  obtain s1 where s1: "track_validator X height params votes v s = Inr s1" "tracking_ok i height todo (sk_jmt s1)"
    "validator_list (sk_jmt s1) = validator_list (sk_jmt s)" "j_validator (sk_jmt s1) = j_validator (sk_jmt s)"
    "j_cur_base_rate (sk_jmt s1) = j_cur_base_rate (sk_jmt s)" "j_next_base_rate (sk_jmt s1) = j_next_base_rate (sk_jmt s)"
    "j_chain_params (sk_jmt s1) = j_chain_params (sk_jmt s)" "j_block_height (sk_jmt s1) = j_block_height (sk_jmt s)"
    using track_validator_step [OF Cons.prems(1)] Cons.prems(2,3) by fastforce
  then show ?case using Cons.IH [of s1] Cons.prems(2,3) by simp
qed

lemma track_uptime_ok:
  assumes ok: "staking_ok i (height - 1) (sk_jmt s)" and h: "j_block_height (sk_jmt s) = Some height"
    and p: "j_chain_params (sk_jmt s) = Some params"
  shows "\<exists>s'. track_uptime X votes s = Inr s' \<and> staking_ok i height (sk_jmt s')
    \<and> j_block_height (sk_jmt s') = Some height \<and> j_chain_params (sk_jmt s') = Some params"
proof -
  let ?l = "validator_list (sk_jmt s)"
  have t: "tracking_ok i height ?l (sk_jmt s)" using ok by (simp add: tracking_ok_def staking_ok_def)
  have d: "distinct ?l" using ok by (simp add: staking_ok_def)
  obtain s' where s': "foldR (track_validator X height params (map_of (rev votes))) ?l s = Inr s'"
    "tracking_ok i height [] (sk_jmt s')" "validator_list (sk_jmt s') = ?l" "j_validator (sk_jmt s') = j_validator (sk_jmt s)"
    "j_cur_base_rate (sk_jmt s') = j_cur_base_rate (sk_jmt s)" "j_next_base_rate (sk_jmt s') = j_next_base_rate (sk_jmt s)"
    "j_chain_params (sk_jmt s') = j_chain_params (sk_jmt s)" "j_block_height (sk_jmt s') = j_block_height (sk_jmt s)"
    using track_loop [OF t order_refl d] by blast
  have "staking_ok i height (sk_jmt s')"
    using ok s'(2) unfolding staking_ok_def s'(3-6) tracking_ok_def by simp
  with s' h p show ?thesis
    by (simp add: track_uptime_def chain_view_defs)
qed

text \<open>
  What a block means for one validator.  If it is active, its vote, the last one given for its address, replaces the oldest
  one in its window, unless it has then missed too many blocks: then it is slashed.  The other validators
  keep their state and their window.
\<close>

definition vote_of :: "ext \<Rightarrow> (u8 list \<times> bool) list \<Rightarrow> validator \<Rightarrow> bool" where
  "vote_of X votes d \<longleftrightarrow> map_of (rev votes) (x_addr20 X (consensus_key d)) = Some True"

definition vote_recorded ::
  "ext \<Rightarrow> chain_params \<Rightarrow> u64 \<Rightarrow> (u8 list \<times> bool) list \<Rightarrow> jmt \<Rightarrow> jmt \<Rightarrow> identity_key \<Rightarrow> bool" where
  "vote_recorded X params height votes j j' v \<longleftrightarrow>
     (if j_state j v = Some Active then
        \<exists>d u sigs. j_validator j v = Some d \<and> j_uptime j v = Some u
          \<and> sigs = (signatures u)[unat height mod length (signatures u) := vote_of X votes d]
          \<and> (if unat (missed_blocks_maximum params) \<le> length (filter Not sigs) then j_state j' v = Some Slashed
             else j_state j' v = Some Active \<and> j_uptime j' v = Some \<lparr>as_of_block_height = height, signatures = sigs\<rparr>)
      else j_state j' v = j_state j v \<and> j_uptime j' v = j_uptime j v)"

lemma track_validator_records:
  assumes "track_validator X height params (map_of (rev votes)) v s = Inr s'"
    and "\<And>d. j_validator (sk_jmt s) v = Some d \<Longrightarrow> identity_key d = v"
  shows "vote_recorded X params height votes (sk_jmt s) (sk_jmt s') v"
    and "w \<noteq> v \<Longrightarrow> j_state (sk_jmt s') w = j_state (sk_jmt s) w \<and> j_uptime (sk_jmt s') w = j_uptime (sk_jmt s) w"
    and "j_validator (sk_jmt s') = j_validator (sk_jmt s)"
proof -
  obtain d st p r where i: "j_validator (sk_jmt s) v = Some d" "j_state (sk_jmt s) v = Some st" "j_power (sk_jmt s) v = Some p"
    "j_next_rate (sk_jmt s) v = Some r"
    using assms(1) by (auto simp: track_validator_def result_simps validator_info_def get_validator_status_def split: option.splits)
  then have info: "validator_info (sk_jmt s) v = Some (d, \<lparr>st_identity_key = v, st_voting_power = p, st_state = st\<rparr>, r)"
    by (simp add: validator_info_def get_validator_status_def)
  have vote: "(case map_of (rev votes) a of Some b \<Rightarrow> b | None \<Rightarrow> False) \<longleftrightarrow> map_of (rev votes) a = Some True" for a
    by (auto split: option.splits)
  have "vote_recorded X params height votes (sk_jmt s) (sk_jmt s') v \<and> j_validator (sk_jmt s') = j_validator (sk_jmt s)
    \<and> (\<forall>w. w \<noteq> v \<longrightarrow> j_state (sk_jmt s') w = j_state (sk_jmt s) w \<and> j_uptime (sk_jmt s') w = j_uptime (sk_jmt s) w)"
  proof (cases "st = Active")
    case False
    then have "s' = s" using assms(1) info by (simp add: track_validator_def)
    then show ?thesis using False i by (simp add: vote_recorded_def)
  next
    case True
    then obtain u u' where u: "j_uptime (sk_jmt s) v = Some u" "mark_height_as_signed u height (vote_of X votes d) = Inr u'"
      and s': "(if unat (missed_blocks_maximum params) \<le> num_missed_blocks u'
        then slash_validator d (slashing_penalty_downtime_bps params) s
        else Inr (s\<lparr>sk_jmt := set_validator_uptime v u' (sk_jmt s)\<rparr>)) = Inr s'"
      using assms(1) info by (auto simp: track_validator_def result_simps vote_of_def vote)
    have u': "u' = \<lparr>as_of_block_height = height, signatures = (signatures u)[unat height mod length (signatures u) := vote_of X votes d]\<rparr>"
      using u(2) by (auto simp: mark_height_as_signed_def Let_def split: if_splits)
    show ?thesis
    proof (cases "unat (missed_blocks_maximum params) \<le> num_missed_blocks u'")
      case missed: True
      then show ?thesis using s' u i True assms(2) [OF i(1)]
        by (auto simp: vote_recorded_def u' num_missed_blocks_def slash_validator_Inr view_slash_Inr staking_view_defs)
    next
      case False
      then show ?thesis using s' u i True
        by (auto simp: vote_recorded_def u' num_missed_blocks_def staking_view_defs)
    qed
  qed
  then show "vote_recorded X params height votes (sk_jmt s) (sk_jmt s') v" "j_validator (sk_jmt s') = j_validator (sk_jmt s)"
    "w \<noteq> v \<Longrightarrow> j_state (sk_jmt s') w = j_state (sk_jmt s) w \<and> j_uptime (sk_jmt s') w = j_uptime (sk_jmt s) w"
    by blast+
qed

lemma vote_recorded_cong:
  assumes "j_state k v = j_state j v" "j_uptime k v = j_uptime j v" "j_validator k = j_validator j"
    "j_state k' v = j_state j' v" "j_uptime k' v = j_uptime j' v"
  shows "vote_recorded X params height votes k k' v = vote_recorded X params height votes j j' v"
  unfolding vote_recorded_def assms ..

lemma track_loop_records:
  assumes "foldR (track_validator X height params (map_of (rev votes))) todo s = Inr s'" and "distinct todo"
    and "\<And>v d. j_validator (sk_jmt s) v = Some d \<Longrightarrow> identity_key d = v"
  shows "(\<forall>v \<in> set todo. vote_recorded X params height votes (sk_jmt s) (sk_jmt s') v)
    \<and> (\<forall>w. w \<notin> set todo \<longrightarrow> j_state (sk_jmt s') w = j_state (sk_jmt s) w \<and> j_uptime (sk_jmt s') w = j_uptime (sk_jmt s) w)"
  using assms
proof (induction todo arbitrary: s)
  case (Cons v todo)
  from Cons.prems(1) obtain t where t: "track_validator X height params (map_of (rev votes)) v s = Inr t"
    and l: "foldR (track_validator X height params (map_of (rev votes))) todo t = Inr s'" by (auto simp: result_simps)
  note own = track_validator_records [OF t Cons.prems(3)]
  have ih: "(\<forall>v \<in> set todo. vote_recorded X params height votes (sk_jmt t) (sk_jmt s') v)
    \<and> (\<forall>w. w \<notin> set todo \<longrightarrow> j_state (sk_jmt s') w = j_state (sk_jmt t) w \<and> j_uptime (sk_jmt s') w = j_uptime (sk_jmt t) w)"
    using Cons.prems(2,3) by (intro Cons.IH [OF l]) (auto simp: own(3))
  have "vote_recorded X params height votes (sk_jmt s) (sk_jmt s') v"
    using own(1) ih Cons.prems(2) by (subst vote_recorded_cong [where j = "sk_jmt s" and j' = "sk_jmt t"]) auto
  moreover have "vote_recorded X params height votes (sk_jmt s) (sk_jmt s') w" if "w \<in> set todo" for w
  proof -
    have "w \<noteq> v" using that Cons.prems(2) by auto
    with own(2,3) ih that show ?thesis
      by (subst vote_recorded_cong [where j = "sk_jmt t" and j' = "sk_jmt s'"]) auto
  qed
  ultimately show ?case using own(2) ih by simp
qed simp

section \<open>Validator definitions\<close>

lemma view_add_Inr:
  assumes "view_add_validator X v cur nxt st pw j = Inr j'"
  defines "k \<equiv> identity_key v"
  shows "j_validator j' = (j_validator j)(k \<mapsto> v)" "j_cur_rate j' = (j_cur_rate j)(k \<mapsto> cur)"
    "j_next_rate j' = (j_next_rate j)(k \<mapsto> nxt)" "j_state j' = (j_state j)(k \<mapsto> st)"
    "j_power j' = (j_power j)(k \<mapsto> pw)" "validator_list j' = validator_list j @ [k]"
    "j_uptime j' = j_uptime j" "j_cur_base_rate j' = j_cur_base_rate j" "j_next_base_rate j' = j_next_base_rate j"
    "j_chain_params j' = j_chain_params j" "j_block_height j' = j_block_height j"
    "j_token_supply j' = j_token_supply j" "unat pw \<le> 1152921504606846975"
    "j_spent_nullifiers j' = j_spent_nullifiers j" "j_consensus_key j' = j_consensus_key j"
  using assms(1) unfolding k_def
  by (auto simp: view_add_validator_def result_simps set_validator_power_Inr staking_view_defs validator_list_def Let_def)

lemma staking_ok_add:
  assumes ok: "staking_ok i h j" and a: "view_add_validator X v cur nxt st pw j = Inr j'"
    and new: "j_validator j (identity_key v) = None"
    and cur: "rate_ok (identity_key v) i (Some cur)" and nxt: "rate_ok (identity_key v) (i + 1) (Some nxt)"
    and up: "st = Active \<Longrightarrow> \<exists>u. j_uptime j (identity_key v) = Some u \<and> as_of_block_height u = h \<and> signatures u \<noteq> []"
  shows "staking_ok i h j'"
proof -
  note f = view_add_Inr [OF a]
  have fresh: "identity_key v \<notin> set (validator_list j)"
    using ok new by (auto simp: staking_ok_def validator_ok_def)
  have "validator_ok i h j' w" if "w \<in> set (validator_list j')" for w
  proof (cases "w = identity_key v")
    case True
    then show ?thesis using cur nxt up f(13) by (auto simp: validator_ok_def f)
  next
    case False
    then have "validator_ok i h j w" using that ok f(6) by (auto simp: staking_ok_def)
    then show ?thesis using False by (auto simp: validator_ok_def f)
  qed
  moreover have "distinct (validator_list j')" using ok fresh f(6) by (simp add: staking_ok_def)
  moreover have "\<forall>w. w \<notin> set (validator_list j') \<longrightarrow> j_validator j' w = None"
    using ok f(1,6) by (auto simp: staking_ok_def)
  ultimately show ?thesis using ok f(8,9) by (simp add: staking_ok_def)
qed

lemma staking_ok_update:
  assumes "staking_ok i h j" and "update_validator v j = Inr j'"
  shows "staking_ok i h j'"
proof -
  from assms(2) have j': "j' = j\<lparr>j_validator := (j_validator j)(identity_key v \<mapsto> v)\<rparr>"
    and "j_validator j (identity_key v) \<noteq> None"
    by (auto simp: update_validator_def result_simps)
  then have mem: "identity_key v \<in> set (validator_list j)" using assms(1) by (auto simp: staking_ok_def)
  have l: "validator_list j' = validator_list j" by (simp add: j' validator_list_def)
  have "validator_ok i h j' w" if "w \<in> set (validator_list j)" for w
    using staking_okD [OF assms(1) that] by (auto simp: j' validator_ok_def)
  then show ?thesis using assms(1) mem by (auto simp: staking_ok_def l) (auto simp: j')
qed

lemma initial_rate_ok: "rate_ok v i (Some (initial_rate v i))"
  by (simp add: rate_ok_def initial_rate_def)

lemma staking_ok_execute_definition:
  assumes ok: "staking_ok (ep_index e) h (sk_jmt s)" and x: "execute_definition X e dpb s = Inr s'"
  shows "staking_ok (ep_index e) h (sk_jmt s')"
proof -
  from x obtain v sig where p: "definition_of_proto X dpb = Inr (v, sig)"
    by (auto simp: execute_definition_def result_simps)
  show ?thesis
  proof (cases "j_validator (sk_jmt s) (identity_key v)")
    case None
    then obtain j where "view_add_validator X v (initial_rate (identity_key v) (ep_index e))
        (initial_rate (identity_key v) (ep_index e + 1)) Inactive 0 (sk_jmt s) = Inr j" "sk_jmt s' = j"
      using x p by (auto simp: execute_definition_def result_simps Let_def add_validator_def)
    then show ?thesis using staking_ok_add [OF ok _ None initial_rate_ok initial_rate_ok] by blast
  next
    case (Some d)
    then obtain j where "update_validator v (sk_jmt s) = Inr j" "sk_jmt s' = j"
      using x p by (auto simp: execute_definition_def result_simps Let_def)
    then show ?thesis using staking_ok_update [OF ok] by blast
  qed
qed

section \<open>The end of an epoch\<close>

lemma end_epoch_validator_Inr:
  assumes "end_epoch_validator X e ch cb nb v (j, cs) = Inr (j', cs')"
  shows "\<exists>d r st nr p sup. j_validator j v = Some d \<and> j_next_rate j v = Some r \<and> j_state j v = Some st
    \<and> rate_next r nb (funding_streams d) st = Inr nr \<and> rd_epoch_index nr = ep_index e + 2
    \<and> unat p \<le> 1152921504606846975
    \<and> j' = j\<lparr>j_token_supply := sup, j_cur_rate := (j_cur_rate j)(v \<mapsto> r), j_next_rate := (j_next_rate j)(v \<mapsto> nr),
            j_power := (j_power j)(v \<mapsto> p)\<rparr>"
  using assms
  by (auto simp: end_epoch_validator_def result_simps Let_def set_validator_power_Inr staking_view_defs
      dest!: update_token_supply_frame) blast

lemma rate_next_identity: "rate_next r b fss st = Inr nr \<Longrightarrow> rd_identity_key nr = rd_identity_key r"
  by (auto simp: rate_next_def Let_def split: if_splits)

text \<open>
  While the loop of \<open>end_epoch\<close> runs, the validators handled so far are in epoch \<open>i + 1\<close>,
  the others in \<open>i\<close>.
\<close>

definition moving_ok :: "u64 \<Rightarrow> u64 \<Rightarrow> identity_key list \<Rightarrow> jmt \<Rightarrow> bool" where
  "moving_ok i h todo j \<longleftrightarrow>
     (\<forall>v \<in> set (validator_list j). validator_ok (if v \<in> set todo then i else i + 1) h j v)"

definition rates_residue :: "jmt \<Rightarrow> jmt" where
  "rates_residue j = j\<lparr>j_token_supply := Map.empty, j_cur_rate := Map.empty,
     j_next_rate := Map.empty, j_power := Map.empty\<rparr>"

lemma rates_residue_keeps:
  "j_validator (rates_residue j) = j_validator j" "validator_list (rates_residue j) = validator_list j"
  "j_state (rates_residue j) = j_state j" "j_uptime (rates_residue j) = j_uptime j"
  "j_cur_base_rate (rates_residue j) = j_cur_base_rate j" "j_next_base_rate (rates_residue j) = j_next_base_rate j"
  "j_chain_params (rates_residue j) = j_chain_params j" "j_block_height (rates_residue j) = j_block_height j"
  "j_delegation_changes (rates_residue j) = j_delegation_changes j"
  by (simp_all add: rates_residue_def validator_list_def)

lemma rates_residue_select:
  assumes "rates_residue j' = rates_residue j"
  shows "j_validator j' = j_validator j" "validator_list j' = validator_list j" "j_state j' = j_state j"
    "j_uptime j' = j_uptime j" "j_cur_base_rate j' = j_cur_base_rate j" "j_next_base_rate j' = j_next_base_rate j"
    "j_chain_params j' = j_chain_params j" "j_block_height j' = j_block_height j"
    "j_delegation_changes j' = j_delegation_changes j"
  using rates_residue_keeps [of j] rates_residue_keeps [of j'] unfolding assms by simp_all

lemma end_epoch_validator_step:
  assumes ok: "moving_ok (ep_index e) h (v # todo) j" and v: "v \<in> set (validator_list j)" "v \<notin> set todo"
    and st: "end_epoch_validator X e ch cb nb v (j, cs) = Inr (j', cs')"
  shows "moving_ok (ep_index e) h todo j' \<and> rates_residue j' = rates_residue j"
proof -
  obtain d r st nr p sup where j: "j_validator j v = Some d" "j_next_rate j v = Some r" "j_state j v = Some st"
    "rate_next r nb (funding_streams d) st = Inr nr" "rd_epoch_index nr = ep_index e + 2"
    "unat p \<le> 1152921504606846975"
    and j': "j' = j\<lparr>j_token_supply := sup, j_cur_rate := (j_cur_rate j)(v \<mapsto> r), j_next_rate := (j_next_rate j)(v \<mapsto> nr),
            j_power := (j_power j)(v \<mapsto> p)\<rparr>"
    using end_epoch_validator_Inr [OF st] by blast
  have fr: "rates_residue j' = rates_residue j" unfolding j' by (simp add: rates_residue_def)
  have here: "validator_ok (if w \<in> set (v # todo) then ep_index e else ep_index e + 1) h j w"
    if "w \<in> set (validator_list j)" for w
    using ok that unfolding moving_ok_def by blast
  have "validator_ok (if w \<in> set todo then ep_index e else ep_index e + 1) h j' w"
    if w: "w \<in> set (validator_list j)" for w
  proof (cases "w = v")
    case True
    have "validator_ok (ep_index e) h j v" using here [OF v(1)] by simp
    moreover have "rd_identity_key nr = rd_identity_key r" using j(4) by (rule rate_next_identity)
    ultimately show ?thesis using True v(2) j
      by (auto simp: j' validator_ok_def rate_ok_def add.assoc)
  next
    case False
    then show ?thesis using here [OF w] by (auto simp: j' validator_ok_def)
  qed
  then show ?thesis using fr by (simp add: moving_ok_def rates_residue_select [OF fr])
qed

lemma end_epoch_loop:
  assumes "moving_ok (ep_index e) h (vs @ todo) j" and "set (vs @ todo) \<subseteq> set (validator_list j)" and "distinct (vs @ todo)"
    and "foldR (end_epoch_validator X e ch cb nb) vs (j, cs) = Inr (j', cs')"
  shows "moving_ok (ep_index e) h todo j' \<and> rates_residue j' = rates_residue j"
  using assms
proof (induction vs arbitrary: j cs)
  case Nil
  then show ?case by simp
next
  case (Cons v vs)
  from Cons.prems(4) obtain j1 cs1 where s: "end_epoch_validator X e ch cb nb v (j, cs) = Inr (j1, cs1)"
    and l: "foldR (end_epoch_validator X e ch cb nb) vs (j1, cs1) = Inr (j', cs')"
    by (auto simp: result_simps)
  have m: "moving_ok (ep_index e) h (vs @ todo) j1 \<and> rates_residue j1 = rates_residue j"
    using Cons.prems(1,2,3) by (intro end_epoch_validator_step [OF _ _ _ s]) auto
  then have "moving_ok (ep_index e) h todo j' \<and> rates_residue j' = rates_residue j1"
    using Cons.IH [OF _ _ _ l] Cons.prems(2,3) rates_residue_select(2) [of j1 j] by auto
  with m show ?case by simp
qed

lemma staking_ok_set_base_rates:
  "moving_ok i h todo (set_base_rates b1 b2 j) = moving_ok i h todo j"
  by (simp add: moving_ok_def validator_ok_def staking_view_defs validator_list_def)

lemma activate_uptime:
  assumes "activate_validator vp s = Inr s'" and "j_block_height (sk_jmt s) = Some h"
    and "j_chain_params (sk_jmt s) = Some params" and "signed_blocks_window_len params \<noteq> 0"
  shows "\<exists>u. j_uptime (sk_jmt s') (vp_identity_key vp) = Some u \<and> as_of_block_height u = h \<and> signatures u \<noteq> []"
  using assms
  by (auto simp: activate_validator_def result_simps staking_jmt_simps Let_def chain_view_defs
      get_signed_blocks_window_len_def uptime_new_def unat_eq_0)

text \<open>A validator that is active after its step has an uptime record; one that was active keeps its own.\<close>

definition uptime_current :: "u64 \<Rightarrow> jmt \<Rightarrow> identity_key \<Rightarrow> bool" where
  "uptime_current h j v \<longleftrightarrow>
     (j_state j v = Some Active \<longrightarrow> (\<exists>u. j_uptime j v = Some u \<and> as_of_block_height u = h \<and> signatures u \<noteq> []))"

lemma transition_uptime:
  assumes t: "transition_validator e n tops vp s = Inr s'"
    and snap: "j_state (sk_jmt s) (vp_identity_key vp) = Some (vp_state vp)"
    and h: "j_block_height (sk_jmt s) = Some h" and p: "j_chain_params (sk_jmt s) = Some params"
      "signed_blocks_window_len params \<noteq> 0"
    and up: "uptime_current h (sk_jmt s) (vp_identity_key vp)"
  shows "uptime_current h (sk_jmt s') (vp_identity_key vp)"
proof -
  let ?v = "vp_identity_key vp"
  obtain t where t: "(case vp_state vp of
          Active \<Rightarrow> if ?v \<notin> set tops then displace_validator (ep_index e + n) vp s else retain_validator vp s
        | Slashed \<Rightarrow> Inr s
        | _ \<Rightarrow> if ?v \<in> set tops then activate_validator vp s else Inr s) = Inr t"
    and ex: "expire_unbonding e vp t = Inr s'"
    using t unfolding transition_validator_def bindR_Inr_iff by blast
  have "uptime_current h (sk_jmt t) ?v"
  proof (cases "vp_state vp")
    case Active
    with t up show ?thesis
      using displace_validator_Inr [of "ep_index e + n" vp s t] retain_validator_Inr [of vp s t]
      by (auto simp: uptime_current_def split: if_splits)
  qed (use t up snap activate_uptime [OF _ h p, of vp t] in \<open>auto simp: uptime_current_def split: if_splits\<close>)
  with expire_unbonding_Inr [OF ex] show ?thesis
    by (auto simp: uptime_current_def split: if_splits)
qed

lemma uptime_current_frame:
  assumes "transition_frame A s s'" and "v \<notin> A"
  shows "uptime_current h (sk_jmt s') v = uptime_current h (sk_jmt s) v"
  using assms by (simp add: transition_frame_def uptime_current_def)

lemma transitions_uptime:
  assumes "foldR (transition_validator e n tops) vps s = Inr s'"
    and "distinct (map vp_identity_key vps)" and "snapshot_ok vps (sk_jmt s)"
    and "j_block_height (sk_jmt s) = Some h" and "j_chain_params (sk_jmt s) = Some params"
    and "signed_blocks_window_len params \<noteq> 0"
    and "\<forall>v \<in> vp_identity_key ` set vps. uptime_current h (sk_jmt s) v"
  shows "\<forall>v \<in> vp_identity_key ` set vps. uptime_current h (sk_jmt s') v"
  using assms
proof (induction vps arbitrary: s)
  case Nil
  then show ?case by simp
next
  case (Cons w vps)
  from Cons.prems(1) obtain t where t: "transition_validator e n tops w s = Inr t"
    and l: "foldR (transition_validator e n tops) vps t = Inr s'"
    by (auto simp: result_simps)
  have fr: "transition_frame {vp_identity_key w} s t"
    using transition_validator_spec(1) [OF t] Cons.prems(3) by simp
  then have res: "residue t = residue s" by (simp add: transition_frame_def)
  have snap: "snapshot_ok vps (sk_jmt t)"
    using Cons.prems(2,3) by (intro snapshot_ok_frame [OF fr]) auto
  have wt: "uptime_current h (sk_jmt t) (vp_identity_key w)"
    using transition_uptime [OF t _ Cons.prems(4,5,6)] Cons.prems(3,7) by simp
  have ot: "\<forall>v \<in> vp_identity_key ` set vps. uptime_current h (sk_jmt t) v"
  proof
    fix v assume v: "v \<in> vp_identity_key ` set vps"
    then have "v \<notin> {vp_identity_key w}"
      using Cons.prems(2) by (cases "v = vp_identity_key w") simp_all
    then show "uptime_current h (sk_jmt t) v" using v Cons.prems(7) uptime_current_frame [OF fr] by auto
  qed
  have hp: "j_block_height (sk_jmt t) = Some h" "j_chain_params (sk_jmt t) = Some params"
    using Cons.prems(4,5) residue_select(5,6) [OF res] by simp_all
  have "\<forall>v \<in> vp_identity_key ` set vps. uptime_current h (sk_jmt s') v"
    using Cons.prems(2) by (intro Cons.IH [OF l _ snap hp Cons.prems(6) ot]) simp
  moreover have "uptime_current h (sk_jmt s') (vp_identity_key w)"
    using wt transitions_frame [OF l _ snap] Cons.prems(2) by (subst uptime_current_frame) auto
  ultimately show ?case by simp
qed

lemma staking_ok_transitions:
  assumes t: "process_epoch_transitions e limit n s = Inr s'" and ok: "staking_ok i h (sk_jmt s)"
    and h: "j_block_height (sk_jmt s) = Some h" and p: "j_chain_params (sk_jmt s) = Some params"
    and w: "signed_blocks_window_len params \<noteq> 0"
  shows "staking_ok i h (sk_jmt s')"
proof -
  have d: "distinct (validator_list (sk_jmt s))" using ok by (simp add: staking_ok_def)
  obtain vps where v: "snapshot_ok vps (sk_jmt s)" "distinct (map vp_identity_key vps)"
    "map vp_identity_key vps = validator_list (sk_jmt s)"
    "foldR (transition_validator e n (top_validators limit (sort_by_power vps))) (sort_by_power vps) s = Inr s'"
    using process_epoch_transitions_Inr [OF t d] .
  note ds = distinct_sort_by_power [OF v(2)]
  have l: "set (validator_list (sk_jmt s)) = vp_identity_key ` set vps" by (simp add: v(3) [symmetric])
  have res: "residue s' = residue s"
    using process_epoch_transitions_frame [OF t d] by (simp add: transition_frame_def)
  note rs = residue_select [OF res]
  have vl: "validator_list (sk_jmt s') = validator_list (sk_jmt s)" by (simp add: validator_list_def rs(2))
  have "\<forall>v \<in> vp_identity_key ` set (sort_by_power vps). uptime_current h (sk_jmt s) v"
    using ok l by (fastforce simp: uptime_current_def staking_ok_def validator_ok_def)
  then have up: "\<forall>v \<in> vp_identity_key ` set (sort_by_power vps). uptime_current h (sk_jmt s') v"
    using v(1) by (intro transitions_uptime [OF v(4) ds _ h p w]) simp_all
  have "validator_ok i h (sk_jmt s') (vp_identity_key vp)" if m: "vp \<in> set vps" for vp
  proof -
    have old: "validator_ok i h (sk_jmt s) (vp_identity_key vp)"
      using ok m l by (auto simp: staking_ok_def)
    have pw: "unat (vp_power vp) \<le> 1152921504606846975"
      using old v(1) m by (auto simp: validator_ok_def snapshot_ok_def)
    have "j_state (sk_jmt s') (vp_identity_key vp) \<noteq> None"
      "\<exists>q. j_power (sk_jmt s') (vp_identity_key vp) = Some q \<and> unat q \<le> 1152921504606846975"
      using transitions_state [OF v(4) ds, of vp] v(1) m pw by (auto simp: kept_power_def)
    then show ?thesis using old up m
      by (auto simp: validator_ok_def rs(1,3,4) uptime_current_def)
  qed
  then show ?thesis using ok l by (simp add: staking_ok_def vl rs(1,7,8))
qed

lemma staking_ok_rates:
  assumes ok: "staking_ok (ep_index e) h (sk_jmt s)"
    and h: "j_block_height (sk_jmt s) = Some h" and p: "j_chain_params (sk_jmt s) = Some params"
    and cb: "j_next_base_rate (sk_jmt s) = Some cb"
  defines "nb \<equiv> base_rate_next cb (cp_base_reward_rate params)"
  defines "j0 \<equiv> set_base_rates cb nb (sk_jmt s)"
  assumes l: "foldR (end_epoch_validator X e ch cb nb) (validator_list j0) (j0, []) = Inr (j1, cs)"
  shows "staking_ok (ep_index e + 1) h j1 \<and> j_block_height j1 = Some h \<and> j_chain_params j1 = Some params"
proof -
  let ?i = "ep_index e"
  have ci: "brd_epoch_index cb = ?i + 1" using ok cb by (auto simp: staking_ok_def)
  have m0: "moving_ok ?i h (validator_list j0) j0"
    using ok unfolding j0_def staking_ok_set_base_rates
    by (simp add: moving_ok_def staking_ok_def staking_view_defs validator_list_def)
  have d0: "distinct (validator_list j0)"
    using ok by (simp add: j0_def staking_ok_def staking_view_defs validator_list_def)
  have m1: "moving_ok ?i h [] j1" and res: "rates_residue j1 = rates_residue j0"
    using end_epoch_loop [of e h "validator_list j0" "[]", OF _ _ _ l] m0 d0 by simp_all
  note rs = rates_residue_select [OF res]
  have base: "brd_epoch_index nb = ?i + 1 + 1" by (simp add: nb_def base_rate_next_def ci)
  have j0: "j_validator j0 = j_validator (sk_jmt s)" "validator_list j0 = validator_list (sk_jmt s)"
    "j_cur_base_rate j0 = Some cb" "j_next_base_rate j0 = Some nb" "j_block_height j0 = Some h" "j_chain_params j0 = Some params"
    using h p by (simp_all add: j0_def staking_view_defs validator_list_def)
  have "staking_ok (?i + 1) h j1"
    unfolding staking_ok_def
  proof (intro conjI)
    show "distinct (validator_list j1)" using d0 rs(2) by simp
    show "\<forall>v\<in>set (validator_list j1). validator_ok (?i + 1) h j1 v" using m1 by (simp add: moving_ok_def)
    show "\<forall>v. v \<notin> set (validator_list j1) \<longrightarrow> j_validator j1 v = None"
      using ok rs(1,2) j0(1,2) by (simp add: staking_ok_def)
    show "\<exists>b. j_cur_base_rate j1 = Some b \<and> brd_epoch_index b = ?i + 1" using rs(5) j0(3) ci by simp
    show "\<exists>b. j_next_base_rate j1 = Some b \<and> brd_epoch_index b = ?i + 1 + 1" using rs(6) j0(4) base by simp
  qed
  then show ?thesis using rs(7,8) j0(5,6) by simp
qed

lemma staking_ok_end_epoch:
  assumes ok: "staking_ok (ep_index e) h (sk_jmt s)" and x: "end_epoch X e s = Inr s'"
    and h: "j_block_height (sk_jmt s) = Some h" and p: "j_chain_params (sk_jmt s) = Some params"
    and w: "signed_blocks_window_len params \<noteq> 0"
  shows "staking_ok (ep_index e + 1) h (sk_jmt s') \<and> j_block_height (sk_jmt s') = Some h
    \<and> j_chain_params (sk_jmt s') = Some params"
proof -
  obtain cb where cb: "j_next_base_rate (sk_jmt s) = Some cb" using ok by (auto simp: staking_ok_def)
  define nb where "nb = base_rate_next cb (cp_base_reward_rate params)"
  define j0 where "j0 = set_base_rates cb nb (sk_jmt s)"
  obtain ch j1 cs s1 where l: "foldR (end_epoch_validator X e ch cb nb) (validator_list j0) (j0, []) = Inr (j1, cs)"
    and t: "process_epoch_transitions e (active_validator_limit params) (unbonding_epochs params) (s\<lparr>sk_jmt := j1\<rparr>) = Inr s1"
    and s': "\<exists>height. s' = s1\<lparr>sk_delegation_changes := no_changes, sk_jmt := set_commission_amounts height cs (sk_jmt s1)\<rparr>"
    using x cb p unfolding end_epoch_def nb_def j0_def
    by (auto simp: result_simps Let_def next_base_rate_def get_chain_params_def split: prod.splits) blast
  have r: "staking_ok (ep_index e + 1) h j1 \<and> j_block_height j1 = Some h \<and> j_chain_params j1 = Some params"
    using l unfolding j0_def nb_def by (rule staking_ok_rates [OF ok h p cb])
  have s1: "staking_ok (ep_index e + 1) h (sk_jmt s1)"
    using staking_ok_transitions [OF t _ _ _ w] r by simp
  have "residue s1 = residue (s\<lparr>sk_jmt := j1\<rparr>)"
    using process_epoch_transitions_frame [OF t] r by (simp add: transition_frame_def staking_ok_def)
  then have "j_block_height (sk_jmt s1) = j_block_height j1" "j_chain_params (sk_jmt s1) = j_chain_params j1"
    using residue_select(5,6) [of s1 "s\<lparr>sk_jmt := j1\<rparr>"] by simp_all
  moreover obtain height where "s' = s1\<lparr>sk_delegation_changes := no_changes, sk_jmt := set_commission_amounts height cs (sk_jmt s1)\<rparr>"
    using s' by blast
  ultimately show ?thesis using s1 r
    by (simp add: set_commission_amounts_def staking_ok_def validator_ok_def validator_list_def)
qed

text \<open>
  What can still go wrong at the end of an epoch when the data is complete: an amount that does not fit its type, a supply that
  would become negative or overflow, a voting power out of range, commissions over 100%, and the transition of a validator that is
  elected although its unbonding period is over.
\<close>

definition amount_failure :: "failure \<Rightarrow> bool" where
  "amount_failure e \<longleftrightarrow> e \<in> {Panic ''commission rate sums to > 100%'', Panic ''TryFromIntError'', Panic ''attempt to divide by zero'',
     Err ''underflow updating token supply'', Err ''overflow updating token supply'', Err ''invalid voting power'',
     Err ''only validators in the Unbonding state may become Inactive''}"

lemma rate_next_index:
  "rate_next r b fss st = Inr nr \<Longrightarrow> rd_epoch_index nr = rd_epoch_index r + 1"
  by (auto simp: rate_next_def Let_def split: if_splits)

lemma reward_amount_total:
  assumes "brd_epoch_index nb = brd_epoch_index cb + 1"
  shows "\<exists>n. reward_amount fs t nb cb = Inr n"
  by (simp add: reward_amount_def assms Let_def)

lemma safe_commissions_of:
  assumes "brd_epoch_index nb = brd_epoch_index cb + 1"
  shows "safe Q (commissions_of fss t nb cb)"
  unfolding commissions_of_def
proof (induction fss)
  case Nil
  then show ?case by (simp add: safe_Inr)
next
  case (Cons fs fss)
  obtain n where "reward_amount fs t nb cb = Inr n" using reward_amount_total [OF assms] by blast
  with Cons show ?case by (auto intro!: safe_bind safe_Inr)
qed

lemma safe_update_token_supply: "safe amount_failure (update_token_supply a c j)"
  unfolding update_token_supply_def Let_def by (intro safe_intros) (simp_all add: amount_failure_def)

lemma safe_rate_next: "safe amount_failure (rate_next r b fss st)"
  by (auto simp: safe_def rate_next_def Let_def amount_failure_def)

lemma safe_amounts:
  "safe amount_failure (unbonded_amount r a)"
  "safe amount_failure (voting_power r a b)"
  "safe amount_failure (delegation_asset_id (x_crypto X) v)"
  "safe amount_failure (set_validator_power v p k)"
  by (auto simp: safe_def unbonded_amount_def voting_power_def delegation_asset_id_eq
      set_validator_power_def result_simps amount_failure_def)

lemma update_token_supply_known:
  "update_token_supply a c j = Inr j' \<Longrightarrow> j_token_supply j' b = None \<longleftrightarrow> b \<noteq> a \<and> j_token_supply j b = None"
  by (auto simp: update_token_supply_def Let_def result_simps split: if_split_asm)

lemma end_epoch_validator_errors:
  assumes "validator_ok (ep_index e) h j v" and "brd_epoch_index nb = brd_epoch_index cb + 1"
  shows "safe amount_failure (end_epoch_validator X e ch cb nb v (j, cs))"
proof -
  obtain d r st where j: "j_validator j v = Some d" "j_next_rate j v = Some r" "j_state j v = Some st"
    "rd_epoch_index r = ep_index e + 1"
    using assms(1) by (auto simp: validator_ok_def rate_ok_def)
  have nr: "rd_epoch_index nr = ep_index e + 2" if "rate_next r nb (funding_streams d) st = Inr nr" for nr
    using rate_next_index [OF that] j(4) by (simp add: add.assoc)
  show ?thesis
    unfolding end_epoch_validator_def Let_def prod.case j ok_or_simps bindR.simps
    by (intro safe_intros safe_rate_next safe_amounts safe_update_token_supply safe_commissions_of assms(2))
      (auto simp: nr token_supply_def amount_failure_def dest!: update_token_supply_known)
qed

section \<open>When the transitions succeed\<close>

definition expired :: "epoch \<Rightarrow> vpower \<Rightarrow> bool" where
  "expired e vp = (case vp_state vp of Unbonding u \<Rightarrow> u \<le> ep_index e | _ \<Rightarrow> False)"

lemma transition_total:
  assumes d: "j_validator (sk_jmt s) (vp_identity_key vp) = Some d"
    and snap: "j_state (sk_jmt s) (vp_identity_key vp) = Some (vp_state vp)"
      "j_power (sk_jmt s) (vp_identity_key vp) = Some (vp_power vp)"
    and pw: "unat (vp_power vp) \<le> 1152921504606846975"
    and h: "j_block_height (sk_jmt s) = Some h" and p: "j_chain_params (sk_jmt s) = Some params"
    and ne: "vp_identity_key vp \<in> set tops \<Longrightarrow> \<not> expired e vp"
  shows "\<exists>s'. transition_validator e n tops vp s = Inr s'"
proof -
  have "unat (vp_power vp) < 2 ^ 63" using pw by (rule order_le_less_trans) simp
  with d snap h p ne show ?thesis
    by (cases "vp_state vp")
      (auto simp: transition_defs on_jmt_def set_validator_power_def MAX_VOTING_POWER_def set_validator_state_def
        check_transition_def validator_missing_def update_tm_validator_power_def i64_try_from_def chain_view_defs
        get_signed_blocks_window_len_def staking_view_defs Let_def expired_def)
qed

lemma transitions_total:
  assumes "distinct (map vp_identity_key vps)" and "snapshot_ok vps (sk_jmt s)"
    and "j_block_height (sk_jmt s) = Some h" and "j_chain_params (sk_jmt s) = Some params"
    and "\<forall>vp \<in> set vps. j_validator (sk_jmt s) (vp_identity_key vp) \<noteq> None \<and> unat (vp_power vp) \<le> 1152921504606846975"
    and "\<forall>vp \<in> set vps. vp_identity_key vp \<in> set tops \<longrightarrow> \<not> expired e vp"
  shows "\<exists>s'. foldR (transition_validator e n tops) vps s = Inr s'"
  using assms
proof (induction vps arbitrary: s)
  case Nil
  then show ?case by simp
next
  case (Cons w vps)
  obtain d where d: "j_validator (sk_jmt s) (vp_identity_key w) = Some d" using Cons.prems(5) by auto
  obtain t where t: "transition_validator e n tops w s = Inr t"
    using transition_total [OF d, where ?h = h and ?params = params and ?e = e and ?tops = tops and ?n = n] Cons.prems(2-6) by auto
  have fr: "transition_frame {vp_identity_key w} s t"
    using transition_validator_spec(1) [OF t] Cons.prems(2) by simp
  then have res: "residue t = residue s" by (simp add: transition_frame_def)
  note rs = residue_select [OF res]
  have snap: "snapshot_ok vps (sk_jmt t)"
    using Cons.prems(1,2) by (intro snapshot_ok_frame [OF fr]) auto
  have "\<exists>s'. foldR (transition_validator e n tops) vps t = Inr s'"
    using Cons.prems(1,3-6) rs(1,5,6) by (intro Cons.IH snap) simp_all
  with t show ?case by simp
qed

lemma read_all_total:
  assumes "\<forall>v \<in> set vs. j_power j v \<noteq> None \<and> j_state j v \<noteq> None"
  shows "\<exists>vps. mapR (read_vpower j) vs = Inr vps"
  using assms by (induction vs) (auto simp: read_vpower_def)

lemma staking_ok_read:
  assumes "staking_ok i h j"
  shows "\<exists>vps. mapR (read_vpower j) (validator_list j) = Inr vps"
  by (rule read_all_total) (use assms in \<open>auto simp: staking_ok_def validator_ok_def\<close>)

text \<open>The result of the loop over the validators, as a closed condition.\<close>

lemma process_epoch_transitions_iff:
  assumes ok: "staking_ok i h (sk_jmt s)" and h: "j_block_height (sk_jmt s) = Some h'" and p: "j_chain_params (sk_jmt s) = Some params"
    and r: "mapR (read_vpower (sk_jmt s)) (validator_list (sk_jmt s)) = Inr vps"
  shows "(\<exists>s'. process_epoch_transitions e limit n s = Inr s') \<longleftrightarrow>
    (\<forall>vp \<in> set vps. vp_identity_key vp \<in> set (top_validators limit (sort_by_power vps)) \<longrightarrow> \<not> expired e vp)"
    (is "?L = ?R")
proof
  assume ?L
  then obtain s' where "foldR (transition_validator e n (top_validators limit (sort_by_power vps))) (sort_by_power vps) s = Inr s'"
    using r by (auto simp: process_epoch_transitions_def Let_def)
  from transitions_not_expired [OF this] show ?R
    by (auto simp: expired_def split: validator_state.splits)
next
  assume R: ?R
  have m: "map vp_identity_key vps = validator_list (sk_jmt s)" and snap: "snapshot_ok vps (sk_jmt s)"
    using read_all [OF r] by simp_all
  have d: "distinct (map vp_identity_key vps)" using ok m by (simp add: staking_ok_def)
  have "j_validator (sk_jmt s) (vp_identity_key vp) \<noteq> None \<and> unat (vp_power vp) \<le> 1152921504606846975"
    if "vp \<in> set vps" for vp
  proof -
    have "vp_identity_key vp \<in> set (validator_list (sk_jmt s))" using that unfolding m [symmetric] by simp
    from staking_okD [OF ok this] show ?thesis
      using snap that by (auto simp: validator_ok_def snapshot_ok_def)
  qed
  then show ?L using transitions_total [OF distinct_sort_by_power [OF d] _ h p] snap r R
    by (simp add: process_epoch_transitions_def Let_def)
qed

section \<open>The component's operations\<close>

lemma checked_definition_parses:
  assumes "staking_check_tx_stateless X tx = Inr ()" and "dpb \<in> set (validator_definitions tx)"
  shows "\<exists>v sig. definition_of_proto X dpb = Inr (v, sig) \<and> x_verify_definition X v sig
    \<and> \<not> 10000 < commission_rate_bps (funding_streams v)"
proof -
  have "check_definition_stateless X dpb = Inr ()"
    using assms by (auto simp: staking_check_tx_stateless_def result_simps Let_def)
  then show ?thesis by (auto simp: check_definition_stateless_def result_simps)
qed

lemma execute_definition_total:
  assumes "definition_of_proto X dpb = Inr (v, sig)"
  shows "\<exists>s'. execute_definition X e dpb s = Inr s' \<and> j_chain_params (sk_jmt s') = j_chain_params (sk_jmt s)
    \<and> j_block_height (sk_jmt s') = j_block_height (sk_jmt s)"
proof (cases "j_validator (sk_jmt s) (identity_key v)")
  case None
  have "\<exists>j. view_add_validator X v a b Inactive 0 (sk_jmt s) = Inr j" for a b
    by (simp add: view_add_validator_def Let_def set_validator_power_def MAX_VOTING_POWER_def delegation_denom_eq)
  then obtain j where j: "view_add_validator X v (initial_rate (identity_key v) (ep_index e))
      (initial_rate (identity_key v) (ep_index e + 1)) Inactive 0 (sk_jmt s) = Inr j" by blast
  with None assms view_add_Inr(10,11) [OF j] show ?thesis
    by (simp add: execute_definition_def Let_def add_validator_def on_jmt_def)
next
  case (Some d)
  with assms show ?thesis
    by (simp add: execute_definition_def Let_def on_jmt_def update_validator_def)
qed

lemma execute_definitions_ok:
  assumes "\<And>dpb. dpb \<in> set dpbs \<Longrightarrow> \<exists>v sig. definition_of_proto X dpb = Inr (v, sig)"
    and "staking_ok (ep_index e) h (sk_jmt s)"
  shows "\<exists>s'. foldR (execute_definition X e) dpbs s = Inr s' \<and> staking_ok (ep_index e) h (sk_jmt s')
    \<and> j_chain_params (sk_jmt s') = j_chain_params (sk_jmt s) \<and> j_block_height (sk_jmt s') = j_block_height (sk_jmt s)"
proof -
  let ?P = "\<lambda>t :: staking. staking_ok (ep_index e) h (sk_jmt t) \<and> j_chain_params (sk_jmt t) = j_chain_params (sk_jmt s)
    \<and> j_block_height (sk_jmt t) = j_block_height (sk_jmt s)"
  have "\<exists>s'. foldR (execute_definition X e) dpbs s = Inr s' \<and> ?P s'"
  proof (rule foldR_total)
    show "?P s" using assms(2) by simp
    fix dpb t assume d: "dpb \<in> set dpbs" and P: "?P t"
    obtain v sig where "definition_of_proto X dpb = Inr (v, sig)" using assms(1) [OF d] by blast
    from execute_definition_total [OF this, of e t] obtain t' where t': "execute_definition X e dpb t = Inr t'"
      "j_chain_params (sk_jmt t') = j_chain_params (sk_jmt t)" "j_block_height (sk_jmt t') = j_block_height (sk_jmt t)" by blast
    moreover have "staking_ok (ep_index e) h (sk_jmt t')"
      using P staking_ok_execute_definition [OF _ t'(1)] by blast
    ultimately show "\<exists>t'. execute_definition X e dpb t = Inr t' \<and> ?P t'" using P by simp
  qed
  then show ?thesis by blast
qed

lemma get_current_epoch_at:
  assumes "j_block_height j = Some h" and "j_chain_params j = Some params" and "epoch_duration params \<noteq> 0"
  shows "get_current_epoch j = Inr \<lparr>ep_index = h div epoch_duration params, ep_duration = epoch_duration params\<rparr>"
  using assms by (simp add: get_current_epoch_def chain_view_defs from_height_def)

text \<open>One block later the epoch index has moved exactly if the block ended its epoch.\<close>

lemma epoch_end_step:
  assumes conv: "height_conv_ok conv" and d: "d \<noteq> 0" and b: "unat h + unat d < 2 ^ 63"
  shows "is_epoch_end conv \<lparr>ep_index = h div d, ep_duration = d\<rparr> h = Inr ((h + 1) div d = h div d + 1)
    \<and> ((h + 1) div d \<noteq> h div d + 1 \<longrightarrow> (h + 1) div d = h div d)"
proof -
  let ?e = "\<lparr>ep_index = h div d, ep_duration = d\<rparr>" and ?q = "unat h div unat d"
  obtain s t where st: "start_height conv ?e = Inr s" "end_height conv ?e = Inr t"
    "unat s = ?q * unat d" "Suc (unat t) = unat s + unat d"
    using epoch_heights [OF conv d b] by blast
  have d0: "0 < unat d" using d by (rule unat_pos)
  note di = div_interval [OF d0, of "unat h"]
  have h1: "unat (h + 1) = Suc (unat h)" using b by (subst unat_plus_exact) simp_all
  have q1: "unat (h div d + 1) = ?q + 1" using d b by (rule unat_epoch_index)
  have th: "t = h \<longleftrightarrow> Suc (unat h) = ?q * unat d + unat d" using st(3,4) by (auto simp: word_unat_eq_iff)
  have divs: "Suc (unat h) div unat d = (if Suc (unat h) = ?q * unat d + unat d then ?q + 1 else ?q)"
  proof (cases "Suc (unat h) = ?q * unat d + unat d")
    case True
    then show ?thesis using di(3) by simp
  next
    case False
    then have "Suc (unat h) < Suc ?q * unat d" using di(2) by simp
    moreover have "?q * unat d \<le> Suc (unat h)" using di(1) by (rule le_SucI)
    ultimately have "Suc (unat h) div unat d = ?q"
      by (intro div_nat_eqI) (simp_all add: mult.commute)
    with False show ?thesis by simp
  qed
  have "(h + 1) div d = h div d + 1 \<longleftrightarrow> t = h"
    using divs th q1 h1 by (auto simp: word_unat_eq_iff unat_div)
  moreover have "(h + 1) div d = h div d" if "t \<noteq> h"
    using divs th that h1 by (auto simp: word_unat_eq_iff unat_div)
  ultimately show ?thesis using st(2) by (auto simp: is_epoch_end_def)
qed

section \<open>Failures at the end of an epoch\<close>

lemma safe_transition_validator:
  assumes d: "j_validator (sk_jmt s) (vp_identity_key vp) = Some d"
    and snap: "j_state (sk_jmt s) (vp_identity_key vp) = Some (vp_state vp)"
      "j_power (sk_jmt s) (vp_identity_key vp) = Some (vp_power vp)"
    and pw: "unat (vp_power vp) \<le> 1152921504606846975"
    and h: "j_block_height (sk_jmt s) = Some h" and p: "j_chain_params (sk_jmt s) = Some params"
  shows "safe amount_failure (transition_validator e n tops vp s)"
proof (cases "vp_identity_key vp \<in> set tops \<and> expired e vp")
  case False
  then show ?thesis using transition_total [OF d snap pw h p, of tops e n] by (auto simp: safe_def)
next
  case True
  then obtain u where u: "vp_state vp = Unbonding u" "u \<le> ep_index e" by (auto simp: expired_def split: validator_state.splits)
  have "unat (vp_power vp) < 2 ^ 63" using pw by (rule order_le_less_trans) simp
  then have "transition_validator e n tops vp s = Inl (Err ''only validators in the Unbonding state may become Inactive'')"
    using True u d snap h p
    by (simp add: transition_defs on_jmt_def set_validator_state_def check_transition_def validator_missing_def
        update_tm_validator_power_def i64_try_from_def chain_view_defs get_signed_blocks_window_len_def staking_view_defs Let_def)
  then show ?thesis by (simp add: safe_def amount_failure_def)
qed

lemma transition_keeps_params:
  assumes "transition_validator e n tops vp s = Inr s'"
    and "j_state (sk_jmt s) (vp_identity_key vp) = Some (vp_state vp)"
    and "j_power (sk_jmt s) (vp_identity_key vp) = Some (vp_power vp)"
  shows "j_block_height (sk_jmt s') = j_block_height (sk_jmt s)" "j_chain_params (sk_jmt s') = j_chain_params (sk_jmt s)"
proof -
  have "residue s' = residue s" using transition_validator_spec(1) [OF assms] by (simp add: transition_frame_def)
  then show "j_block_height (sk_jmt s') = j_block_height (sk_jmt s)" "j_chain_params (sk_jmt s') = j_chain_params (sk_jmt s)"
    by (rule residue_select)+
qed

lemma safe_process_epoch_transitions:
  assumes ok: "staking_ok i h (sk_jmt s)" and hp: "j_block_height (sk_jmt s) = Some h'" "j_chain_params (sk_jmt s) = Some params"
  shows "safe amount_failure (process_epoch_transitions e limit n s)"
proof -
  obtain vps where r: "mapR (read_vpower (sk_jmt s)) (validator_list (sk_jmt s)) = Inr vps"
    using staking_ok_read [OF ok] by blast
  let ?P = "\<lambda>vs (t :: staking). distinct (map vp_identity_key vs) \<and> snapshot_ok vs (sk_jmt t)
    \<and> j_block_height (sk_jmt t) = Some h' \<and> j_chain_params (sk_jmt t) = Some params
    \<and> (\<forall>vp \<in> set vs. j_validator (sk_jmt t) (vp_identity_key vp) \<noteq> None \<and> unat (vp_power vp) \<le> 1152921504606846975)"
  have "distinct (map vp_identity_key vps)" using ok read_all(1) [OF r] by (simp add: staking_ok_def)
  moreover have "j_validator (sk_jmt s) (vp_identity_key vp) \<noteq> None \<and> unat (vp_power vp) \<le> 1152921504606846975" if "vp \<in> set vps" for vp
  proof -
    have "vp_identity_key vp \<in> set (validator_list (sk_jmt s))" using that read_all(1) [OF r, symmetric] by simp
    from staking_okD [OF ok this] read_all(2) [OF r] that show ?thesis by (auto simp: validator_ok_def snapshot_ok_def)
  qed
  ultimately have P: "?P (sort_by_power vps) s" using read_all(2) [OF r] hp distinct_sort_by_power by simp
  have "safe amount_failure (foldR (transition_validator e n tops) (sort_by_power vps) s)" for tops
  proof (rule safe_foldR [where P = ?P, OF P])
    fix vp vs t assume "?P (vp # vs) t"
    then show "safe amount_failure (transition_validator e n tops vp t)"
      by (elim conjE) (auto intro!: safe_transition_validator [where h = h' and params = params])
  next
    fix vp vs t t' assume P: "?P (vp # vs) t" and t: "transition_validator e n tops vp t = Inr t'"
    then have "transition_frame {vp_identity_key vp} t t'" using transition_validator_spec(1) [OF t] by simp
    moreover have "vp_identity_key vp \<notin> vp_identity_key ` set vs" using P by simp
    ultimately have "snapshot_ok vs (sk_jmt t')" using P snapshot_ok_frame by (metis snapshot_ok_Cons)
    moreover have "residue t' = residue t" using \<open>transition_frame {vp_identity_key vp} t t'\<close> by (simp add: transition_frame_def)
    then have "j_validator (sk_jmt t') = j_validator (sk_jmt t)" by (rule residue_select(1))
    ultimately show "?P vs t'" using P transition_keeps_params [OF t] by simp
  qed
  then show ?thesis by (simp add: process_epoch_transitions_def r Let_def)
qed

lemma safe_collect_changes:
  assumes "\<And>k. k \<in> set hs \<Longrightarrow> x_height X k = Some k \<and> j_delegation_changes j k \<noteq> None"
  shows "\<exists>c. collect_changes X j hs = Inr c"
proof -
  have "\<exists>c. collect_changes X j hs = Inr c \<and> True"
    unfolding collect_changes_def
  proof (rule foldR_total)
    fix k and acc :: delegation_changes
    assume "k \<in> set hs"
    then obtain c where "x_height X k = Some k" "j_delegation_changes j k = Some c" using assms by blast
    then show "\<exists>acc'. bindR (ok_or (Panic ''called unwrap on an Err value'') (x_height X k)) (\<lambda>h.
       bindR (get_delegation_changes j h) (\<lambda>changes.
       Inr \<lparr>dc_delegations = dc_delegations acc @ dc_delegations changes,
            dc_undelegations = dc_undelegations acc @ dc_undelegations changes\<rparr>)) = Inr acc' \<and> True"
      by (simp add: get_delegation_changes_def)
  qed simp
  then show ?thesis by blast
qed

text \<open>Every block up to \<open>h\<close> has recorded its delegation changes.\<close>

definition recorded_upto :: "u64 \<Rightarrow> jmt \<Rightarrow> bool" where
  "recorded_upto h j \<longleftrightarrow> (\<forall>k. k \<le> h \<longrightarrow> j_delegation_changes j k \<noteq> None)"

lemma height_range_le:
  assumes "k \<in> set (height_range a b)"
  shows "a \<le> k \<and> k \<le> b"
proof -
  from assms obtain m where m: "k = of_nat m" "unat a \<le> m" "m < Suc (unat b)"
    by (auto simp: height_range_def simp del: upt_Suc)
  then have "m \<le> unat b" by simp
  moreover have "unat b < 2 ^ 64" by simp
  ultimately have "m < 2 ^ 64" by (rule order_le_less_trans)
  then have "unat k = m" using m(1) by (simp add: unat_of_nat_64)
  then show ?thesis using m by (simp add: word_le_nat_alt)
qed

lemma safe_end_epoch_loop:
  assumes "moving_ok (ep_index e) h (validator_list j) j" and "distinct (validator_list j)"
    and "brd_epoch_index nb = brd_epoch_index cb + 1"
  shows "safe amount_failure (foldR (end_epoch_validator X e ch cb nb) (validator_list j) (j, []))"
proof (rule safe_foldR [where P = "\<lambda>todo (j', cs). moving_ok (ep_index e) h todo j' \<and> distinct todo
    \<and> set todo \<subseteq> set (validator_list j')"])
  show "case (j, []) of (j', cs) \<Rightarrow> moving_ok (ep_index e) h (validator_list j) j' \<and> distinct (validator_list j)
    \<and> set (validator_list j) \<subseteq> set (validator_list j')"
    using assms(1,2) by simp
next
  fix v todo and jc :: "jmt \<times> commission_amount list"
  assume P: "case jc of (j', cs) \<Rightarrow> moving_ok (ep_index e) h (v # todo) j' \<and> distinct (v # todo)
    \<and> set (v # todo) \<subseteq> set (validator_list j')"
  obtain j' cs where jc: "jc = (j', cs)" by (cases jc)
  have "v \<in> set (validator_list j')" and "moving_ok (ep_index e) h (v # todo) j'" using P jc by simp_all
  then have "validator_ok (if v \<in> set (v # todo) then ep_index e else ep_index e + 1) h j' v"
    unfolding moving_ok_def by blast
  then show "safe amount_failure (end_epoch_validator X e ch cb nb v jc)"
    unfolding jc using assms(3) by (intro end_epoch_validator_errors) simp_all
next
  fix v todo and jc jc' :: "jmt \<times> commission_amount list"
  assume P: "case jc of (j', cs) \<Rightarrow> moving_ok (ep_index e) h (v # todo) j' \<and> distinct (v # todo)
    \<and> set (v # todo) \<subseteq> set (validator_list j')"
    and x: "end_epoch_validator X e ch cb nb v jc = Inr jc'"
  obtain a ca b cb' where jc: "jc = (a, ca)" "jc' = (b, cb')" by (cases jc, cases jc')
  have "moving_ok (ep_index e) h todo b \<and> rates_residue b = rates_residue a"
    using P x unfolding jc by (intro end_epoch_validator_step) simp_all
  moreover from this have "validator_list b = validator_list a" by (intro rates_residue_select(2)) simp
  ultimately show "case jc' of (j', cs) \<Rightarrow> moving_ok (ep_index e) h todo j' \<and> distinct todo \<and> set todo \<subseteq> set (validator_list j')"
    using P by (simp add: jc)
qed

section \<open>Genesis\<close>

lemma genesis_validator_ok:
  assumes ok: "staking_ok i 0 (sk_jmt s)" and w: "signed_blocks_window_len (as_chain_params app) \<noteq> 0"
    and g: "init_genesis_validator X app i allocs vpb s = Inr s'" and v: "validator_of_proto X vpb = Inr v"
    and new: "identity_key v \<notin> set (validator_list (sk_jmt s))"
  shows "staking_ok i 0 (sk_jmt s')" and "validator_list (sk_jmt s') = validator_list (sk_jmt s) @ [identity_key v]"
    and "j_chain_params (sk_jmt s') = j_chain_params (sk_jmt s)" and "j_block_height (sk_jmt s') = j_block_height (sk_jmt s)"
proof -
  let ?k = "identity_key v" and ?u = "uptime_new 0 (signed_blocks_window_len (as_chain_params app))"
  from g v obtain pw j where a: "view_add_validator X v (initial_rate ?k i) (initial_rate ?k (i + 1)) Active pw (sk_jmt s) = Inr j"
    and s': "sk_jmt s' = set_validator_uptime ?k ?u j"
    by (auto simp: init_genesis_validator_def result_simps Let_def add_genesis_validator_def)
  note f = view_add_Inr [OF a]
  have none: "j_validator (sk_jmt s) ?k = None" using ok new by (simp add: staking_ok_def)
  have u: "as_of_block_height ?u = 0 \<and> signatures ?u \<noteq> []" using w by (simp add: uptime_new_def unat_eq_0)
  have l: "validator_list (sk_jmt s') = validator_list (sk_jmt s) @ [?k]"
    using f(6) by (simp add: s' staking_view_defs validator_list_def)
  have "validator_ok i 0 (sk_jmt s') w" if wl: "w \<in> set (validator_list (sk_jmt s'))" for w
  proof (cases "w = ?k")
    case True
    then show ?thesis using f(13) u initial_rate_ok by (auto simp: s' staking_view_defs validator_ok_def f)
  next
    case False
    then have "validator_ok i 0 (sk_jmt s) w" using wl l staking_okD [OF ok] by simp
    with False show ?thesis by (auto simp: s' staking_view_defs validator_ok_def f)
  qed
  moreover have "j_validator (sk_jmt s') w = None" if "w \<notin> set (validator_list (sk_jmt s'))" for w
    using ok that l by (auto simp: s' staking_view_defs f staking_ok_def)
  moreover have "distinct (validator_list (sk_jmt s'))" using ok new l by (simp add: staking_ok_def)
  ultimately show "staking_ok i 0 (sk_jmt s')"
    using ok by (simp add: staking_ok_def) (simp add: s' staking_view_defs f)
  show "validator_list (sk_jmt s') = validator_list (sk_jmt s) @ [?k]" by (rule l)
  show "j_chain_params (sk_jmt s') = j_chain_params (sk_jmt s)" "j_block_height (sk_jmt s') = j_block_height (sk_jmt s)"
    by (simp_all add: s' staking_view_defs f)
qed

text \<open>The identity keys of the genesis validators that parse.\<close>

definition genesis_keys :: "ext \<Rightarrow> validator_pb list \<Rightarrow> identity_key list" where
  "genesis_keys X = List.map_filter (\<lambda>p. case validator_of_proto X p of Inr v \<Rightarrow> Some (identity_key v) | Inl _ \<Rightarrow> None)"

lemma genesis_loop_ok:
  assumes "staking_ok i 0 (sk_jmt s)" and "signed_blocks_window_len (as_chain_params app) \<noteq> 0"
    and "foldR (init_genesis_validator X app i allocs) vpbs s = Inr s'"
    and "distinct (genesis_keys X vpbs)" and "set (genesis_keys X vpbs) \<inter> set (validator_list (sk_jmt s)) = {}"
  shows "staking_ok i 0 (sk_jmt s') \<and> validator_list (sk_jmt s') = validator_list (sk_jmt s) @ genesis_keys X vpbs
    \<and> j_chain_params (sk_jmt s') = j_chain_params (sk_jmt s) \<and> j_block_height (sk_jmt s') = j_block_height (sk_jmt s)"
  using assms
proof (induction vpbs arbitrary: s)
  case Nil
  then show ?case by (simp add: genesis_keys_def List.map_filter_def)
next
  case (Cons p vpbs)
  from Cons.prems(3) obtain t where t: "init_genesis_validator X app i allocs p s = Inr t"
    and l: "foldR (init_genesis_validator X app i allocs) vpbs t = Inr s'" by (auto simp: result_simps)
  from t obtain v where v: "validator_of_proto X p = Inr v"
    by (auto simp: init_genesis_validator_def result_simps)
  then have k: "genesis_keys X (p # vpbs) = identity_key v # genesis_keys X vpbs"
    by (simp add: genesis_keys_def List.map_filter_def)
  note g = genesis_validator_ok [OF Cons.prems(1,2) t v]
  have g1: "staking_ok i 0 (sk_jmt t)" "validator_list (sk_jmt t) = validator_list (sk_jmt s) @ [identity_key v]"
    "j_chain_params (sk_jmt t) = j_chain_params (sk_jmt s)" "j_block_height (sk_jmt t) = j_block_height (sk_jmt s)"
    using g Cons.prems(5) k by auto
  have "staking_ok i 0 (sk_jmt s') \<and> validator_list (sk_jmt s') = validator_list (sk_jmt t) @ genesis_keys X vpbs
    \<and> j_chain_params (sk_jmt s') = j_chain_params (sk_jmt t) \<and> j_block_height (sk_jmt s') = j_block_height (sk_jmt t)"
    using Cons.prems(4,5) k g1(2) by (intro Cons.IH [OF g1(1) Cons.prems(2) l]) auto
  with g1 k show ?case by simp
qed

text \<open>
  If \<open>end_block\<close> completes for block \<open>h\<close>, the data is consistent for the epoch of the next block:
  rates move by one epoch exactly when the block was the last of its epoch.
\<close>

lemma staking_end_block_ok:
  assumes "staking_ok (h div epoch_duration params) h (sk_jmt s)" and "j_block_height (sk_jmt s) = Some h"
    and "j_chain_params (sk_jmt s) = Some params" and "epoch_duration params \<noteq> 0"
    and "signed_blocks_window_len params \<noteq> 0" and "height_conv_ok (x_height X)"
    and "unat h + unat (epoch_duration params) < 2 ^ 63" and "staking_end_block X h s = Inr s'"
  shows "staking_ok ((h + 1) div epoch_duration params) h (sk_jmt s')"
proof -
  let ?d = "epoch_duration params"
  let ?e = "\<lparr>ep_index = h div ?d, ep_duration = ?d\<rparr>"
  let ?s = "s\<lparr>sk_jmt := set_delegation_changes h (sk_delegation_changes s) (sk_jmt s), sk_delegation_changes := no_changes\<rparr>"
  have hp: "j_block_height (sk_jmt ?s) = Some h" "j_chain_params (sk_jmt ?s) = Some params"
    using assms(2,3) by (simp_all add: staking_view_defs)
  have ok: "staking_ok (ep_index ?e) h (sk_jmt ?s)"
    using assms(1) by simp
  note es = epoch_end_step [OF assms(6,4,7)]
  have "x_height X h = Some h" using assms(6,7) by (simp add: height_conv_ok_def)
  moreover have "get_current_epoch (sk_jmt ?s) = Inr ?e" using hp assms(4) by (rule get_current_epoch_at)
  ultimately have r: "(if (h + 1) div ?d = h div ?d + 1 then unwrapR (end_epoch X ?e ?s) else Inr ?s) = Inr s'"
    using assms(8) es hp(1) by (simp add: staking_end_block_def Let_def get_block_height_def)
  show ?thesis
  proof (cases "(h + 1) div ?d = h div ?d + 1")
    case True
    then have "end_epoch X ?e ?s = Inr s'" using r by (simp add: result_simps)
    from staking_ok_end_epoch [OF ok this hp assms(5)] True show ?thesis by simp
  next
    case False
    then show ?thesis using r es ok by auto
  qed
qed

section \<open>Properties\<close>

text \<open>
  Genesis on a state without staking data, whatever the other components have stored: the stored data is complete and
  consistent for epoch 0, and the validator list is the genesis list in order.
\<close>

definition no_staking_data :: "jmt \<Rightarrow> bool" where
  "no_staking_data j \<longleftrightarrow> j_validator_list j = None \<and> j_validator j = Map.empty"

lemma staking_init_ok:
  assumes "staking_init_chain X app (staking_new j) = Inr s'"
    and "no_staking_data j" and "j_chain_params j = Some (as_chain_params app)" and "j_block_height j = Some 0"
    and "signed_blocks_window_len (as_chain_params app) \<noteq> 0"
    and "distinct (genesis_keys X (as_validators app))"
  shows "staking_ok 0 0 (sk_jmt s') \<and> validator_list (sk_jmt s') = genesis_keys X (as_validators app)
    \<and> j_delegation_changes (sk_jmt s') 0 = Some no_changes
    \<and> j_chain_params (sk_jmt s') = Some (as_chain_params app) \<and> j_block_height (sk_jmt s') = Some 0"
proof -
  let ?j = "set_base_rates (initial_base_rate 0) (initial_base_rate 1) j"
  let ?al = "allocations_by_validator (as_allocations app)"
  have d: "epoch_duration (as_chain_params app) \<noteq> 0"
    using assms(1,3,4) by (auto simp: staking_init_chain_def staking_new_def chain_view_defs result_simps from_height_def)
  from assms(1,3,4) d obtain s1 where l: "foldR (init_genesis_validator X app 0 ?al) (as_validators app)
      (staking_new ?j) = Inr s1"
    and s': "sk_jmt s' = set_delegation_changes 0 no_changes (sk_jmt s1)"
    by (auto simp: staking_init_chain_def staking_new_def chain_view_defs result_simps from_height_def Let_def)
  have e: "validator_list (sk_jmt (staking_new ?j)) = []"
    using assms(2) by (simp add: no_staking_data_def staking_new_def staking_view_defs validator_list_def)
  have "staking_ok 0 0 ?j"
    using assms(2) by (simp add: no_staking_data_def staking_ok_def staking_view_defs validator_list_def initial_base_rate_def)
  then have "staking_ok 0 0 (sk_jmt s1) \<and> validator_list (sk_jmt s1) = validator_list (sk_jmt (staking_new ?j)) @ genesis_keys X (as_validators app)
      \<and> j_chain_params (sk_jmt s1) = Some (as_chain_params app) \<and> j_block_height (sk_jmt s1) = Some 0"
    using genesis_loop_ok [OF _ assms(5) l assms(6)] assms(3,4) e
    by (simp add: staking_new_def staking_view_defs)
  moreover have "validator_list (sk_jmt s') = validator_list (sk_jmt s1)"
    by (simp add: s' staking_view_defs validator_list_def)
  ultimately show ?thesis
    by (simp add: s' e) (simp add: staking_view_defs)
qed

text \<open>
  C21: \<open>begin_block\<close> cannot crash the node, and records the votes.  Under the invariant, with votes recorded up to the
  previous height and no evidence of misbehaviour in the request, the handler succeeds for any list of votes, and the
  invariant holds with votes recorded up to this block.  The window of every active validator then has its vote in the
  place of the oldest one, missing votes counting as absence, or the validator is slashed because it has
  missed too many blocks of the window; the other validators are left as they were.
\<close>

theorem staking_begin_block_total:
  assumes "staking_ok i (height - 1) (sk_jmt s)" and "j_block_height (sk_jmt s) = Some height"
    and "j_chain_params (sk_jmt s) = Some params" and "bb_byzantine_validators req = []"
  shows "\<exists>s'. staking_begin_block X req s = Inr s' \<and> staking_ok i height (sk_jmt s')
    \<and> (\<forall>v \<in> set (validator_list (sk_jmt s)).
         vote_recorded X params height (bb_last_commit_votes req) (sk_jmt s) (sk_jmt s') v)"
proof -
  obtain s' where s': "track_uptime X (bb_last_commit_votes req) s = Inr s'" "staking_ok i height (sk_jmt s')"
    using track_uptime_ok [OF assms(1-3)] by blast
  then have l: "foldR (track_validator X height params (map_of (rev (bb_last_commit_votes req)))) (validator_list (sk_jmt s)) s = Inr s'"
    using assms(2,3) by (simp add: track_uptime_def chain_view_defs)
  have "identity_key d = v" if "j_validator (sk_jmt s) v = Some d" for v d
    using assms(1) that by (cases "v \<in> set (validator_list (sk_jmt s))") (auto simp: staking_ok_def validator_ok_def)
  from track_loop_records [OF l _ this] assms(1)
  have "\<forall>v \<in> set (validator_list (sk_jmt s)). vote_recorded X params height (bb_last_commit_votes req) (sk_jmt s) (sk_jmt s') v"
    by (simp add: staking_ok_def)
  with s' assms(4) show ?thesis by (simp add: staking_begin_block_def)
qed

lemma staking_execute_ok:
  assumes "staking_ok (h div epoch_duration params) h' (sk_jmt s)" and "j_block_height (sk_jmt s) = Some h"
    and "j_chain_params (sk_jmt s) = Some params" and "epoch_duration params \<noteq> 0"
    and "staking_check_tx_stateless X tx = Inr ()"
  shows "\<exists>s'. staking_execute_tx X tx s = Inr s' \<and> staking_ok (h div epoch_duration params) h' (sk_jmt s')"
proof -
  let ?e = "\<lparr>ep_index = h div epoch_duration params, ep_duration = epoch_duration params\<rparr>"
  let ?s = "s\<lparr>sk_delegation_changes := fold queue_action (actions tx) (sk_delegation_changes s)\<rparr>"
  have "get_current_epoch (sk_jmt s) = Inr ?e" using assms(2-4) by (rule get_current_epoch_at)
  moreover have "\<exists>s'. foldR (execute_definition X ?e) (validator_definitions tx) ?s = Inr s'
    \<and> staking_ok (ep_index ?e) h' (sk_jmt s')"
  proof -
    have "\<exists>v sig. definition_of_proto X dpb = Inr (v, sig)" if "dpb \<in> set (validator_definitions tx)" for dpb
      using checked_definition_parses [OF assms(5) that] by blast
    from execute_definitions_ok [OF this, where e = ?e and h = h' and s = ?s] assms(1)
    show ?thesis by auto
  qed
  ultimately show ?thesis by (simp add: staking_execute_tx_def Let_def)
qed

text \<open>
  C22: a transaction that passed the stateless checks executes.  The validator definitions it
  carries were parsed by those checks, so the \<open>unwrap\<close>s of \<open>execute_tx\<close> cannot fire, and
  the invariant is kept.
\<close>

theorem staking_execute_tx_total:
  assumes "staking_ok (h div epoch_duration params) h' (sk_jmt s)" and "j_block_height (sk_jmt s) = Some h"
    and "j_chain_params (sk_jmt s) = Some params" and "epoch_duration params \<noteq> 0"
    and "staking_check_tx_stateless X tx = Inr ()"
  shows "\<exists>s'. staking_execute_tx X tx s = Inr s' \<and> staking_ok (h div epoch_duration params) h' (sk_jmt s')"
  using assms by (rule staking_execute_ok)

text \<open>What \<open>end_epoch\<close> does after the rates are updated.\<close>

lemma safe_epoch_tail:
  assumes "staking_ok i h j" and "j_block_height j = Some h" and "j_chain_params j = Some params"
  shows "safe amount_failure
    (bindR (process_epoch_transitions e (active_validator_limit params) (unbonding_epochs params) (s\<lparr>sk_jmt := j\<rparr>)) (\<lambda>s.
     bindR (get_block_height (sk_jmt (s\<lparr>sk_delegation_changes := no_changes\<rparr>))) (\<lambda>height.
     Inr (s\<lparr>sk_delegation_changes := no_changes,
            sk_jmt := set_commission_amounts height commissions (sk_jmt (s\<lparr>sk_delegation_changes := no_changes\<rparr>))\<rparr>))))"
proof (rule safe_bind)
  show "safe amount_failure
    (process_epoch_transitions e (active_validator_limit params) (unbonding_epochs params) (s\<lparr>sk_jmt := j\<rparr>))"
    using assms by (intro safe_process_epoch_transitions) auto
next
  fix t assume t: "process_epoch_transitions e (active_validator_limit params) (unbonding_epochs params) (s\<lparr>sk_jmt := j\<rparr>) = Inr t"
  then have "residue t = residue (s\<lparr>sk_jmt := j\<rparr>)"
    using process_epoch_transitions_frame assms by (auto simp: transition_frame_def staking_ok_def)
  then have "j_block_height (sk_jmt t) = Some h"
    using residue_select(5) assms(2) by (metis staking.select_convs(1) staking.surjective staking.update_convs(1))
  then show "safe amount_failure (bindR (get_block_height (sk_jmt (t\<lparr>sk_delegation_changes := no_changes\<rparr>))) (\<lambda>height.
     Inr (t\<lparr>sk_delegation_changes := no_changes,
          sk_jmt := set_commission_amounts height commissions (sk_jmt (t\<lparr>sk_delegation_changes := no_changes\<rparr>))\<rparr>)))"
    by (simp add: get_block_height_def safe_Inr)
qed

text \<open>\<open>end_epoch\<close> does not miss its own data and does not trip its assertion on the epoch index.\<close>

lemma end_epoch_failures:
  assumes "staking_ok (h div epoch_duration params) h (sk_jmt s)" and "j_block_height (sk_jmt s) = Some h"
    and "j_chain_params (sk_jmt s) = Some params" and "epoch_duration params \<noteq> 0"
    and "height_conv_ok (x_height X)" and "unat h + unat (epoch_duration params) < 2 ^ 63"
    and "recorded_upto h (sk_jmt s)" and "(h + 1) div epoch_duration params = h div epoch_duration params + 1"
  shows "safe amount_failure
    (end_epoch X \<lparr>ep_index = h div epoch_duration params, ep_duration = epoch_duration params\<rparr> s)"
proof -
  let ?d = "epoch_duration params"
  let ?e = "\<lparr>ep_index = h div ?d, ep_duration = ?d\<rparr>"
  obtain a b where ab: "start_height (x_height X) ?e = Inr a" "end_height (x_height X) ?e = Inr b"
    using epoch_heights [OF assms(5,4,6)] by blast
  have "b = h" using epoch_end_step [OF assms(5,4,6)] assms(8) ab by (simp add: is_epoch_end_def)
  then have "x_height X k = Some k \<and> j_delegation_changes (sk_jmt s) k \<noteq> None" if "k \<in> set (height_range a b)" for k
    using height_range_le [OF that] assms(5,6,7)
    by (auto simp: recorded_upto_def height_conv_ok_def word_le_nat_alt)
  then obtain ch where ch: "collect_changes X (sk_jmt s) (height_range a b) = Inr ch"
    using safe_collect_changes by blast
  obtain cb where cb: "j_next_base_rate (sk_jmt s) = Some cb" "brd_epoch_index cb = h div ?d + 1"
    using assms(1) by (auto simp: staking_ok_def)
  define nb where "nb = base_rate_next cb (cp_base_reward_rate params)"
  define j0 where "j0 = set_base_rates cb nb (sk_jmt s)"
  have nb: "brd_epoch_index nb = brd_epoch_index cb + 1" by (simp add: nb_def base_rate_next_def)
  have m0: "moving_ok (ep_index ?e) h (validator_list j0) j0" and d0: "distinct (validator_list j0)"
    using assms(1) unfolding j0_def staking_ok_set_base_rates
    by (simp_all add: moving_ok_def staking_ok_def staking_view_defs validator_list_def)
  show ?thesis
    unfolding end_epoch_def ab ch bindR.simps get_chain_params_def next_base_rate_def assms(3) cb(1) ok_or_simps
      Let_def nb_def [symmetric] j0_def [symmetric]
  proof (rule safe_bind)
    show "safe amount_failure (foldR (end_epoch_validator X ?e ch cb nb) (validator_list j0) (j0, []))"
      by (rule safe_end_epoch_loop [OF m0 d0 nb])
  next
    fix jc assume l: "foldR (end_epoch_validator X ?e ch cb nb) (validator_list j0) (j0, []) = Inr jc"
    obtain j1 cs where jc: "jc = (j1, cs)" by (cases jc)
    have "staking_ok (ep_index ?e + 1) h j1 \<and> j_block_height j1 = Some h \<and> j_chain_params j1 = Some params"
      using l unfolding jc j0_def nb_def by (intro staking_ok_rates [where s = s and ch = ch and X = X and cs = cs and e = ?e]) (use assms(1-3) cb in simp_all)
    then show "safe amount_failure (case jc of (j, commissions) \<Rightarrow>
       bindR (process_epoch_transitions ?e (active_validator_limit params) (unbonding_epochs params) (s\<lparr>sk_jmt := j\<rparr>)) (\<lambda>s.
       bindR (get_block_height (sk_jmt (s\<lparr>sk_delegation_changes := no_changes\<rparr>))) (\<lambda>height.
       Inr (s\<lparr>sk_delegation_changes := no_changes,
              sk_jmt := set_commission_amounts height commissions (sk_jmt (s\<lparr>sk_delegation_changes := no_changes\<rparr>))\<rparr>))))"
      unfolding jc prod.case by (intro safe_epoch_tail) auto
  qed
qed

lemma end_epoch_keeps_changes:
  assumes "end_epoch X e s = Inr s'" and "staking_ok i h (sk_jmt s)"
  shows "j_delegation_changes (sk_jmt s') = j_delegation_changes (sk_jmt s)"
proof -
  from assms(1) obtain ch cb nb j1 cs limit n s1 k where
    l: "foldR (end_epoch_validator X e ch cb nb) (validator_list (set_base_rates cb nb (sk_jmt s))) (set_base_rates cb nb (sk_jmt s), []) = Inr (j1, cs)"
    and p: "process_epoch_transitions e limit n (s\<lparr>sk_jmt := j1\<rparr>) = Inr s1"
    and s': "sk_jmt s' = set_commission_amounts k cs (sk_jmt s1)"
    by (auto simp: end_epoch_def result_simps Let_def split: prod.splits)
  have r: "rates_residue (fst (j1, cs)) = rates_residue (fst (set_base_rates cb nb (sk_jmt s), [] :: commission_amount list))"
    by (rule foldR_frame [OF l, where g = "\<lambda>jc. rates_residue (fst jc)"]) (auto simp: rates_residue_def dest!: end_epoch_validator_Inr)
  then have "validator_list j1 = validator_list (sk_jmt s)" "j_delegation_changes j1 = j_delegation_changes (sk_jmt s)"
    using rates_residue_select(2,9) [of j1 "set_base_rates cb nb (sk_jmt s)"] by (simp_all add: staking_view_defs validator_list_def)
  moreover from this have "residue s1 = residue (s\<lparr>sk_jmt := j1\<rparr>)"
    using process_epoch_transitions_frame [OF p] assms(2) by (auto simp: transition_frame_def staking_ok_def)
  from residue_select(10) [OF this] have "j_delegation_changes (sk_jmt s1) = j_delegation_changes j1" by simp
  ultimately show ?thesis by (simp add: s' set_commission_amounts_def)
qed


end
