(* ===== verification/Shielded_Pool.thy ===== *)
theory Shielded_Pool
  imports Pool_View
begin

text \<open>
  The shielded pool component (\<open>shielded-pool/src/component.rs\<close>): the struct \<open>ShieldedPool\<close>,
  its methods, and what they keep.  The note commitment tree is a third-party data structure; it
  is represented by the list of the commitments appended to it, of which its root and position
  (\<open>nct_root\<close>, \<open>nct_position\<close>) are functions.  Serialising it is the identity.
\<close>

section \<open>The component\<close>

record shielded_pool =
  sp_jmt :: jmt
  sp_nct :: "note_commitment list"
  sp_compact_block :: compact_block

definition get_nct :: "jmt \<Rightarrow> note_commitment list" where
  "get_nct j = (case j_nct_data j of Some t \<Rightarrow> t | None \<Rightarrow> [])"

definition put_nct :: "shielded_pool \<Rightarrow> shielded_pool" where
  "put_nct s = s\<lparr>sp_jmt := (sp_jmt s)\<lparr>j_nct_data := Some (sp_nct s)\<rparr>\<rparr>"

definition shielded_pool_new :: "jmt \<Rightarrow> shielded_pool" where
  "shielded_pool_new j = \<lparr>sp_jmt = j, sp_nct = get_nct j, sp_compact_block = empty_block\<rparr>"

definition add_note :: "output_body \<Rightarrow> note_source \<Rightarrow> shielded_pool \<Rightarrow> shielded_pool" where
  "add_note body source s =
     s\<lparr>sp_nct := sp_nct s @ [ob_note_commitment body],
       sp_jmt := set_note_source (ob_note_commitment body) source (sp_jmt s),
       sp_compact_block := (sp_compact_block s)\<lparr>cb_outputs := cb_outputs (sp_compact_block s) @ [body]\<rparr>\<rparr>"

text \<open>The amount is cast to \<open>i64\<close> without a check.\<close>

definition mint_note :: "ext \<Rightarrow> u64 \<Rightarrow> asset_id \<Rightarrow> address \<Rightarrow> note_source \<Rightarrow> shielded_pool \<Rightarrow> shielded_pool result" where
  "mint_note X amount asset addr source s =
     (let C = x_crypto X;
          position = (case nct_position C (map NctAppend (sp_nct s)) of Some p \<Rightarrow> p | None \<Rightarrow> 0);
          blinding_factor = fq_mod_order C (blake2b C ''PenumbraMint'' [] (to_le_bytes position)) in
      bindR (note_from_parts C (ad_d addr) (ad_pk_d addr) \<lparr>val_amount = amount, val_asset_id = asset\<rparr> blinding_factor) (\<lambda>n.
      let esk = fr_one C;
          ephemeral_key = diversified_public C esk (note_diversified_generator C n) in
      bindR (note_encrypt C n esk) (\<lambda>encrypted_note.
      bindR (update_token_supply asset amount (sp_jmt s)) (\<lambda>j.
      Inr (add_note \<lparr>ob_note_commitment = note_commit C n, ob_ephemeral_key = ephemeral_key,
             ob_encrypted_note = encrypted_note\<rparr> source (s\<lparr>sp_jmt := j\<rparr>))))))"

text \<open>
  \<open>mem::take\<close> leaves the default block behind, so the height used for the anchor is the
  default's.
\<close>

definition write_compactblock_and_nct :: "ext \<Rightarrow> shielded_pool \<Rightarrow> shielded_pool" where
  "write_compactblock_and_nct X s =
     (let s = s\<lparr>sp_jmt := set_compact_block (sp_compact_block s) (sp_jmt s), sp_compact_block := empty_block\<rparr>;
          s = s\<lparr>sp_jmt := set_nct_anchor (cb_height (sp_compact_block s)) (nct_root (x_crypto X) (map NctAppend (sp_nct s))) (sp_jmt s)\<rparr>
      in put_nct s)"

definition init_allocation :: "ext \<Rightarrow> allocation \<Rightarrow> shielded_pool \<Rightarrow> shielded_pool result" where
  "init_allocation X al s =
     bindR (ensure (Panic ''Genesis allocations contain empty note'') (al_amount al \<noteq> 0)) (\<lambda>_.
     bindR (parse_denom (x_crypto X) (al_denom al)) (\<lambda>r.
     bindR (ok_or (Panic ''Genesis denomination is not a base denom'') r) (\<lambda>d.
     unwrapR (mint_note X (al_amount al) (dn_id d) (al_address al) Genesis
       (s\<lparr>sp_jmt := register_denom X (dn_base_denom d) (sp_jmt s)\<rparr>)))))"

definition pool_init_chain :: "ext \<Rightarrow> app_state \<Rightarrow> shielded_pool \<Rightarrow> shielded_pool result" where
  "pool_init_chain X app s =
     bindR (foldR (init_allocation X) (as_allocations app) s) (\<lambda>s.
     Inr (write_compactblock_and_nct X
       (s\<lparr>sp_compact_block := (sp_compact_block s)\<lparr>cb_height := 0\<rparr>\<rparr>)))"

definition check_action_stateless ::
  "ext \<Rightarrow> transaction \<Rightarrow> action \<Rightarrow> nullifier set \<Rightarrow> nullifier set result" where
  "check_action_stateless X tx a seen =
     (case a of
        Output out \<Rightarrow>
          bindR (contextR ''An output proof did not verify''
                   (output_proof_verify (x_crypto X) (out_proof out) (out_value_commitment out)
                      (ob_note_commitment (out_body out)) (ob_ephemeral_key (out_body out)))) (\<lambda>_.
          Inr seen)
      | Spend sp \<Rightarrow>
          (let b = sp_body sp in
           bindR (ensure (Err ''spend auth signature failed to verify'')
                    (verify_spend_auth (x_crypto X) (sb_rk b) (sighash X (tx_body tx)) (sp_auth_sig sp))) (\<lambda>_.
           bindR (contextR ''A spend proof did not verify''
                    (spend_proof_verify (x_crypto X) (sb_proof b) (tb_merkle_root (tx_body tx)) (sb_value_commitment b)
                       (sb_nullifier b) (sb_rk b))) (\<lambda>_.
           bindR (ensure (Err ''Double spend'') (sb_nullifier b \<notin> seen)) (\<lambda>_.
           Inr (insert (sb_nullifier b) seen)))))
      | Delegate _ \<Rightarrow> Inr seen
      | Undelegate _ \<Rightarrow> Inr seen
      | ValidatorDefinition _ \<Rightarrow> Inr seen
      | IBCAction _ \<Rightarrow> Inl (Err ''unsupported action''))"

definition pool_check_tx_stateless :: "ext \<Rightarrow> transaction \<Rightarrow> unit result" where
  "pool_check_tx_stateless X tx =
     bindR (binding_verification_key (x_crypto X) tx) (\<lambda>vk.
     bindR (ensure (Err ''binding signature failed to verify'')
              (verify_binding (x_crypto X) vk (sighash X (tx_body tx)) (tx_binding_sig tx))) (\<lambda>_.
     bindR (foldR (check_action_stateless X tx) (actions tx) {}) (\<lambda>_. Inr ())))"

definition pool_check_tx_stateful :: "transaction \<Rightarrow> jmt \<Rightarrow> unit result" where
  "pool_check_tx_stateful tx j =
     bindR (check_claimed_anchor j (tb_merkle_root (tx_body tx))) (\<lambda>_.
     foldR (\<lambda>nf _. check_nullifier_unspent j nf) (spent_nullifiers tx) ())"

definition record_spend :: "note_source \<Rightarrow> nullifier \<Rightarrow> shielded_pool \<Rightarrow> shielded_pool" where
  "record_spend source nf s =
     s\<lparr>sp_jmt := spend_nullifier nf source (sp_jmt s),
       sp_compact_block := (sp_compact_block s)\<lparr>cb_nullifiers := cb_nullifiers (sp_compact_block s) @ [nf]\<rparr>\<rparr>"

definition pool_execute_tx :: "ext \<Rightarrow> transaction \<Rightarrow> shielded_pool \<Rightarrow> shielded_pool" where
  "pool_execute_tx X tx s =
     (let source = Transaction (tx_id X tx);
          s = fold (\<lambda>body. add_note body source) (output_bodies tx) s
      in fold (record_spend source) (spent_nullifiers tx) s)"

definition pool_end_block :: "ext \<Rightarrow> i64 \<Rightarrow> shielded_pool \<Rightarrow> shielded_pool result" where
  "pool_end_block X req_height s =
     (let s = s\<lparr>sp_compact_block := (sp_compact_block s)\<lparr>cb_height := req_height\<rparr>\<rparr>;
          cms = (case commission_amounts (sp_jmt s) req_height of Some l \<Rightarrow> l | None \<Rightarrow> []) in
      bindR (unwrapR (get_epoch_duration (sp_jmt s))) (\<lambda>duration.
      bindR (from_height req_height duration) (\<lambda>ep.
      bindR (foldR (\<lambda>note s. unwrapR (mint_note X (ca_amount note) (staking_token_asset_id (x_crypto X)) (ca_destination note)
                       (FundingStreamReward (ep_index ep)) s)) cms s) (\<lambda>s.
      Inr (write_compactblock_and_nct X s)))))"

section \<open>What execution records\<close>

lemma fold_add_note:
  "fold (\<lambda>body. add_note body source) bodies s =
     s\<lparr>sp_nct := sp_nct s @ map ob_note_commitment bodies,
       sp_jmt := fold (\<lambda>body. set_note_source (ob_note_commitment body) source) bodies (sp_jmt s),
       sp_compact_block := (sp_compact_block s)\<lparr>cb_outputs := cb_outputs (sp_compact_block s) @ bodies\<rparr>\<rparr>"
  by (induction bodies arbitrary: s) (simp_all add: add_note_def)

lemma fold_record_spend:
  "fold (record_spend source) nfs s =
     s\<lparr>sp_jmt := fold (\<lambda>nf. spend_nullifier nf source) nfs (sp_jmt s),
       sp_compact_block := (sp_compact_block s)\<lparr>cb_nullifiers := cb_nullifiers (sp_compact_block s) @ nfs\<rparr>\<rparr>"
  by (induction nfs arbitrary: s) (simp_all add: record_spend_def)

lemma fold_set_note_source:
  "\<exists>m. fold (\<lambda>body. set_note_source (ob_note_commitment body) source) bodies j = j\<lparr>j_note_source := m\<rparr>
     \<and> (\<forall>c \<in> ob_note_commitment ` set bodies. m c = Some source)
     \<and> (\<forall>c. c \<notin> ob_note_commitment ` set bodies \<longrightarrow> m c = j_note_source j c)"
proof (induction bodies rule: rev_induct)
  case Nil
  then show ?case by (intro exI [of _ "j_note_source j"]) simp
next
  case (snoc b bodies)
  then show ?case by (auto simp: set_note_source_def)
qed

lemma fold_spend_nullifier:
  "\<exists>m. fold (\<lambda>nf. spend_nullifier nf source) nfs j = j\<lparr>j_spent_nullifiers := m\<rparr>
     \<and> (\<forall>nf. m nf = (if nf \<in> set nfs then Some (note_source_to_bytes source) else j_spent_nullifiers j nf))"
proof (induction nfs rule: rev_induct)
  case Nil
  then show ?case by (intro exI [of _ "j_spent_nullifiers j"]) simp
next
  case (snoc b bodies)
  then show ?case by (auto simp: spend_nullifier_def)
qed

lemma pool_execute_tx_spec:
  defines "src X tx \<equiv> Transaction (tx_id X tx)"
  shows "\<exists>m n. pool_execute_tx X tx s =
     s\<lparr>sp_nct := sp_nct s @ map ob_note_commitment (output_bodies tx),
       sp_jmt := (sp_jmt s)\<lparr>j_note_source := m, j_spent_nullifiers := n\<rparr>,
       sp_compact_block := (sp_compact_block s)\<lparr>cb_outputs := cb_outputs (sp_compact_block s) @ output_bodies tx,
         cb_nullifiers := cb_nullifiers (sp_compact_block s) @ spent_nullifiers tx\<rparr>\<rparr>
     \<and> (\<forall>c \<in> ob_note_commitment ` set (output_bodies tx). m c = Some (src X tx))
     \<and> (\<forall>nf. n nf = (if nf \<in> set (spent_nullifiers tx) then Some (note_source_to_bytes (src X tx))
                     else j_spent_nullifiers (sp_jmt s) nf))"
proof -
  let ?src = "Transaction (tx_id X tx)"
  obtain m where m: "fold (\<lambda>body. set_note_source (ob_note_commitment body) ?src) (output_bodies tx) (sp_jmt s)
      = (sp_jmt s)\<lparr>j_note_source := m\<rparr>" "\<forall>c \<in> ob_note_commitment ` set (output_bodies tx). m c = Some ?src"
    using fold_set_note_source by blast
  obtain n where n: "fold (\<lambda>nf. spend_nullifier nf ?src) (spent_nullifiers tx) ((sp_jmt s)\<lparr>j_note_source := m\<rparr>)
      = (sp_jmt s)\<lparr>j_note_source := m, j_spent_nullifiers := n\<rparr>"
    "\<forall>nf. n nf = (if nf \<in> set (spent_nullifiers tx) then Some (note_source_to_bytes ?src) else j_spent_nullifiers (sp_jmt s) nf)"
    using fold_spend_nullifier [of ?src "spent_nullifiers tx" "(sp_jmt s)\<lparr>j_note_source := m\<rparr>"] by auto
  have "pool_execute_tx X tx s = s\<lparr>sp_nct := sp_nct s @ map ob_note_commitment (output_bodies tx),
       sp_jmt := (sp_jmt s)\<lparr>j_note_source := m, j_spent_nullifiers := n\<rparr>,
       sp_compact_block := (sp_compact_block s)\<lparr>cb_outputs := cb_outputs (sp_compact_block s) @ output_bodies tx,
         cb_nullifiers := cb_nullifiers (sp_compact_block s) @ spent_nullifiers tx\<rparr>\<rparr>"
    by (simp add: pool_execute_tx_def Let_def fold_add_note fold_record_spend m n)
  with m n show ?thesis unfolding src_def by blast
qed

lemma map_filter_Cons [simp]:
  "List.map_filter f (x # xs) = (case f x of None \<Rightarrow> List.map_filter f xs | Some y \<Rightarrow> y # List.map_filter f xs)"
  "List.map_filter f [] = []"
  by (simp_all add: List.map_filter_def split: option.split)

definition nullifiers_of :: "action list \<Rightarrow> nullifier list" where
  "nullifiers_of = List.map_filter (\<lambda>a. case a of Spend sp \<Rightarrow> Some (sb_nullifier (sp_body sp)) | _ \<Rightarrow> None)"

lemma spent_nullifiers_actions: "spent_nullifiers tx = nullifiers_of (actions tx)"
  by (simp add: spent_nullifiers_def nullifiers_of_def)

lemma check_actions_nullifiers:
  assumes "foldR (check_action_stateless X tx) as seen = Inr seen'"
  shows "distinct (nullifiers_of as) \<and> set (nullifiers_of as) \<inter> seen = {} \<and> seen' = seen \<union> set (nullifiers_of as)
    \<and> (\<forall>b. IBCAction b \<notin> set as)"
  using assms
proof (induction "as" arbitrary: seen)
  case Nil
  then show ?case by (simp add: nullifiers_of_def)
next
  case (Cons a as)
  from Cons.prems obtain t where t: "check_action_stateless X tx a seen = Inr t"
    and l: "foldR (check_action_stateless X tx) as t = Inr seen'" by (auto simp: result_simps)
  note ih = Cons.IH [OF l]
  show ?case
  proof (cases a)
    case (Spend sp)
    with t have "t = insert (sb_nullifier (sp_body sp)) seen" "sb_nullifier (sp_body sp) \<notin> seen"
      by (auto simp: check_action_stateless_def result_simps Let_def)
    with ih Spend show ?thesis by (auto simp: nullifiers_of_def)
  qed (use t ih in \<open>auto simp: check_action_stateless_def nullifiers_of_def result_simps\<close>)
qed

section \<open>Minting\<close>

lemma mint_note_Inr:
  assumes "mint_note X amount asset addr source s = Inr s'"
  obtains body j where "update_token_supply asset amount (sp_jmt s) = Inr j"
    and "s' = add_note body source (s\<lparr>sp_jmt := j\<rparr>)"
  using assms by (auto simp: mint_note_def Let_def result_simps)

lemma sint_of_amount: "sint (a :: u64) = (if unat a < 2 ^ 63 then int (unat a) else int (unat a) - 2 ^ 64)"
proof (cases "sint a < 0")
  case True
  then have "sint a = int (unat a) - 2 ^ 64" using sint_negative [of a] by simp
  moreover have "- (2 ^ 63) \<le> sint a" using sint_ge [of a] by simp
  ultimately have "int (2 ^ 63) \<le> int (unat a)" by simp
  then have "2 ^ 63 \<le> unat a" by (simp only: of_nat_le_iff)
  then show ?thesis using \<open>sint a = int (unat a) - 2 ^ 64\<close> by simp
next
  case False
  then have "sint a = int (unat a)" using sint_negative [of a] by simp
  moreover have "sint a < 2 ^ 63" using sint_lt [of a] by simp
  ultimately have "int (unat a) < int (2 ^ 63)" by simp
  then have "unat a < 2 ^ 63" by (simp only: of_nat_less_iff)
  then show ?thesis using \<open>sint a = int (unat a)\<close> by simp
qed

lemma mint_note_supply:
  assumes "mint_note X amount asset addr source s = Inr s'"
  shows "int (supply_of (sp_jmt s') asset) = int (supply_of (sp_jmt s) asset) + sint amount
    \<and> (\<forall>b. b \<noteq> asset \<longrightarrow> supply_of (sp_jmt s') b = supply_of (sp_jmt s) b)
    \<and> (\<exists>body. sp_nct s' = sp_nct s @ [ob_note_commitment body]
         \<and> cb_outputs (sp_compact_block s') = cb_outputs (sp_compact_block s) @ [body]
         \<and> j_note_source (sp_jmt s') (ob_note_commitment body) = Some source)"
proof -
  obtain body j where b: "update_token_supply asset amount (sp_jmt s) = Inr j" "s' = add_note body source (s\<lparr>sp_jmt := j\<rparr>)"
    using mint_note_Inr [OF assms] by blast
  have "supply_of (sp_jmt s') = supply_of j" by (rule ext) (simp add: b(2) add_note_def set_note_source_def supply_of_def)
  with update_token_supply_Inr [OF b(1)] show ?thesis
    by (auto simp: b(2) add_note_def set_note_source_def)
qed

section \<open>The tree and the block in progress\<close>

text \<open>The tree is the stored one followed by the outputs of the block in progress.\<close>

definition pool_ok :: "note_commitment list \<Rightarrow> shielded_pool \<Rightarrow> bool" where
  "pool_ok t s \<longleftrightarrow> sp_nct s = t @ map ob_note_commitment (cb_outputs (sp_compact_block s))"

lemma pool_ok_new [simp]: "pool_ok (get_nct j) (shielded_pool_new j)"
  by (simp add: pool_ok_def shielded_pool_new_def empty_block_def)

lemma pool_ok_execute: "pool_ok t s \<Longrightarrow> pool_ok t (pool_execute_tx X tx s)"
  using pool_execute_tx_spec [of X tx s] by (auto simp: pool_ok_def)

text \<open>The notes of a list of commissions, as \<open>end_block\<close> mints them.\<close>

definition mint_all :: "ext \<Rightarrow> asset_id \<Rightarrow> note_source \<Rightarrow> commission_amount list \<Rightarrow> shielded_pool \<Rightarrow> shielded_pool result" where
  "mint_all X asset source cms s =
     foldR (\<lambda>note s. unwrapR (mint_note X (ca_amount note) asset (ca_destination note) source s)) cms s"

lemma mint_all_spec:
  assumes "mint_all X asset source cms s = Inr s'"
  shows "int (supply_of (sp_jmt s') asset) = int (supply_of (sp_jmt s) asset) + (\<Sum>note\<leftarrow>cms. sint (ca_amount note))
    \<and> (\<forall>b. b \<noteq> asset \<longrightarrow> supply_of (sp_jmt s') b = supply_of (sp_jmt s) b)
    \<and> (\<exists>bodies. length bodies = length cms \<and> sp_nct s' = sp_nct s @ map ob_note_commitment bodies
         \<and> sp_compact_block s' = (sp_compact_block s)\<lparr>cb_outputs := cb_outputs (sp_compact_block s) @ bodies\<rparr>)
    \<and> j_spent_nullifiers (sp_jmt s') = j_spent_nullifiers (sp_jmt s)
    \<and> j_chain_params (sp_jmt s') = j_chain_params (sp_jmt s)"
  using assms
proof (induction cms arbitrary: s)
  case Nil
  then show ?case by (simp add: mint_all_def)
next
  case (Cons cm cms)
  from Cons.prems obtain t where t: "mint_note X (ca_amount cm) asset (ca_destination cm) source s = Inr t"
    and l: "mint_all X asset source cms t = Inr s'" by (auto simp: mint_all_def result_simps)
  obtain body j where b: "update_token_supply asset (ca_amount cm) (sp_jmt s) = Inr j" "t = add_note body source (s\<lparr>sp_jmt := j\<rparr>)"
    using mint_note_Inr [OF t] by blast
  have f: "sp_nct t = sp_nct s @ [ob_note_commitment body]"
    "sp_compact_block t = (sp_compact_block s)\<lparr>cb_outputs := cb_outputs (sp_compact_block s) @ [body]\<rparr>"
    "j_spent_nullifiers (sp_jmt t) = j_spent_nullifiers (sp_jmt s)"
    "j_chain_params (sp_jmt t) = j_chain_params (sp_jmt s)"
    using update_token_supply_frame [OF b(1)] by (auto simp: b(2) add_note_def set_note_source_def)
  note ih = Cons.IH [OF l] and m = mint_note_supply [OF t]
  from ih obtain bodies where bs: "length bodies = length cms" "sp_nct s' = sp_nct t @ map ob_note_commitment bodies"
    "sp_compact_block s' = (sp_compact_block t)\<lparr>cb_outputs := cb_outputs (sp_compact_block t) @ bodies\<rparr>" by blast
  have "\<exists>bodies. length bodies = length (cm # cms) \<and> sp_nct s' = sp_nct s @ map ob_note_commitment bodies
         \<and> sp_compact_block s' = (sp_compact_block s)\<lparr>cb_outputs := cb_outputs (sp_compact_block s) @ bodies\<rparr>"
    using bs f by (intro exI [of _ "body # bodies"]) simp
  with ih m f show ?case by simp
qed

lemma pool_end_block_Inr:
  assumes "pool_end_block X h s = Inr s'"
  obtains duration s1 where "get_epoch_duration (sp_jmt s) = Inr duration" and "duration \<noteq> 0"
    and "mint_all X (staking_token_asset_id (x_crypto X)) (FundingStreamReward (h div duration))
        (case commission_amounts (sp_jmt s) h of Some l \<Rightarrow> l | None \<Rightarrow> [])
        (s\<lparr>sp_compact_block := (sp_compact_block s)\<lparr>cb_height := h\<rparr>\<rparr>) = Inr s1"
    and "s' = write_compactblock_and_nct X s1"
  using assms
  by (auto simp: pool_end_block_def Let_def result_simps from_height_def mint_all_def split: if_splits)

lemma write_compactblock_spec:
  "j_compact_block (sp_jmt (write_compactblock_and_nct X s)) (cb_height (sp_compact_block s)) = Some (sp_compact_block s)"
  "j_nct_data (sp_jmt (write_compactblock_and_nct X s)) = Some (sp_nct s)"
  "j_valid_anchors (sp_jmt (write_compactblock_and_nct X s)) (nct_root (x_crypto X) (map NctAppend (sp_nct s))) = Some 0"
  "j_nct_anchor (sp_jmt (write_compactblock_and_nct X s)) 0 = Some (nct_root (x_crypto X) (map NctAppend (sp_nct s)))"
  "j_nct_anchor (sp_jmt (write_compactblock_and_nct X s)) k = (if k = 0 then Some (nct_root (x_crypto X) (map NctAppend (sp_nct s))) else j_nct_anchor (sp_jmt s) k)"
  "supply_of (sp_jmt (write_compactblock_and_nct X s)) = supply_of (sp_jmt s)"
  "j_spent_nullifiers (sp_jmt (write_compactblock_and_nct X s)) = j_spent_nullifiers (sp_jmt s)"
  "sp_compact_block (write_compactblock_and_nct X s) = empty_block"
  "sp_nct (write_compactblock_and_nct X s) = sp_nct s"
  by (auto simp: write_compactblock_and_nct_def put_nct_def set_compact_block_def set_nct_anchor_def empty_block_def
      Let_def supply_of_def fun_eq_iff)

section \<open>Properties\<close>

text \<open>
  A transaction that passes the stateless checks reveals no nullifier twice, and it
  contains no IBC action: the final branch of the action match rejects it as unsupported.
\<close>

lemma stateless_check_nullifiers:
  assumes "pool_check_tx_stateless X tx = Inr ()"
  shows "distinct (spent_nullifiers tx) \<and> ibc_actions tx = []"
proof -
  obtain seen where "foldR (check_action_stateless X tx) (actions tx) {} = Inr seen"
    using assms by (auto simp: pool_check_tx_stateless_def result_simps)
  note c = check_actions_nullifiers [OF this]
  have "List.map_filter (\<lambda>a. case a of IBCAction b \<Rightarrow> Some b | _ \<Rightarrow> None) as = []" if "\<forall>b. IBCAction b \<notin> set as" for as
    using that by (induction as) (auto split: action.split)
  with c show ?thesis by (simp add: spent_nullifiers_actions ibc_actions_def)
qed

text \<open>
  Executing a transaction spends exactly its nullifiers: afterwards the stateful check of
  any transaction that reveals one of them fails, and nullifiers it did not reveal keep their
  status.
\<close>

theorem execute_tx_spends:
  "(\<forall>nf \<in> set (spent_nullifiers tx). \<forall>tx'. nf \<in> set (spent_nullifiers tx') \<longrightarrow>
       pool_check_tx_stateful tx' (sp_jmt (pool_execute_tx X tx s)) \<noteq> Inr ())
   \<and> (\<forall>nf. nf \<notin> set (spent_nullifiers tx) \<longrightarrow>
       j_spent_nullifiers (sp_jmt (pool_execute_tx X tx s)) nf = j_spent_nullifiers (sp_jmt s) nf)"
proof -
  obtain m n where e: "sp_jmt (pool_execute_tx X tx s) = (sp_jmt s)\<lparr>j_note_source := m, j_spent_nullifiers := n\<rparr>"
    and n: "\<forall>nf. n nf = (if nf \<in> set (spent_nullifiers tx) then Some (note_source_to_bytes (Transaction (tx_id X tx)))
                     else j_spent_nullifiers (sp_jmt s) nf)"
    using pool_execute_tx_spec [of X tx s] by auto
  have "check_nullifier_unspent (sp_jmt (pool_execute_tx X tx s)) nf \<noteq> Inr ()" if "nf \<in> set (spent_nullifiers tx)" for nf
    using that n e by (simp add: check_nullifier_unspent_ok)
  then show ?thesis using n e
    by (auto simp: pool_check_tx_stateful_def result_simps)
qed

lemma pool_end_block_facts:
  assumes "pool_end_block X h s = Inr s'"
  obtains b where "j_compact_block (sp_jmt s') h = Some b" and "cb_height b = h"
    and "\<exists>cms. cb_outputs b = cb_outputs (sp_compact_block s) @ cms
      \<and> length cms = length (case commission_amounts (sp_jmt s) h of Some l \<Rightarrow> l | None \<Rightarrow> [])
      \<and> sp_nct s' = sp_nct s @ map ob_note_commitment cms"
    and "cb_nullifiers b = cb_nullifiers (sp_compact_block s)" and "j_nct_data (sp_jmt s') = Some (sp_nct s')"
    and "check_claimed_anchor (sp_jmt s') (nct_root (x_crypto X) (map NctAppend (sp_nct s'))) = Inr ()"
    and "j_spent_nullifiers (sp_jmt s') = j_spent_nullifiers (sp_jmt s)" and "sp_compact_block s' = empty_block"
proof -
  obtain duration s1 where m: "mint_all X (staking_token_asset_id (x_crypto X)) (FundingStreamReward (h div duration))
        (case commission_amounts (sp_jmt s) h of Some l \<Rightarrow> l | None \<Rightarrow> [])
        (s\<lparr>sp_compact_block := (sp_compact_block s)\<lparr>cb_height := h\<rparr>\<rparr>) = Inr s1"
    and s': "s' = write_compactblock_and_nct X s1"
    using pool_end_block_Inr [OF assms(1)] by blast
  from mint_all_spec [OF m] obtain bodies where
    "length bodies = length (case commission_amounts (sp_jmt s) h of Some l \<Rightarrow> l | None \<Rightarrow> [])"
    "sp_nct s1 = sp_nct s @ map ob_note_commitment bodies"
    "sp_compact_block s1 = (sp_compact_block s)\<lparr>cb_height := h, cb_outputs := cb_outputs (sp_compact_block s) @ bodies\<rparr>"
    "j_spent_nullifiers (sp_jmt s1) = j_spent_nullifiers (sp_jmt s)"
    by auto
  then show thesis
    using write_compactblock_spec [of X s1]
    by (intro that [of "sp_compact_block s1"]) (simp_all add: s' check_claimed_anchor_def)
qed

text \<open>
  C25: the block a client scans is complete.  Ending a block stores, under the block's height, a
  compact block with all the outputs and nullifiers collected from the block's transactions,
  followed by one output per pending commission note; the tree it stores is the previous one with
  exactly those outputs appended, in order, and its root becomes a valid anchor.
\<close>

theorem end_block_compact_block:
  assumes "pool_end_block X h s = Inr s'" and "pool_ok t s"
  shows "\<exists>b cms. j_compact_block (sp_jmt s') h = Some b \<and> cb_height b = h
    \<and> cb_outputs b = cb_outputs (sp_compact_block s) @ cms
    \<and> length cms = length (case commission_amounts (sp_jmt s) h of Some l \<Rightarrow> l | None \<Rightarrow> [])
    \<and> cb_nullifiers b = cb_nullifiers (sp_compact_block s)
    \<and> j_nct_data (sp_jmt s') = Some (t @ map ob_note_commitment (cb_outputs b))
    \<and> check_claimed_anchor (sp_jmt s') (nct_root (x_crypto X) (map NctAppend (t @ map ob_note_commitment (cb_outputs b)))) = Inr ()"
proof (rule pool_end_block_facts [OF assms(1)])
  fix b
  assume "j_compact_block (sp_jmt s') h = Some b" "cb_height b = h"
    "\<exists>cms. cb_outputs b = cb_outputs (sp_compact_block s) @ cms
      \<and> length cms = length (case commission_amounts (sp_jmt s) h of Some l \<Rightarrow> l | None \<Rightarrow> [])
      \<and> sp_nct s' = sp_nct s @ map ob_note_commitment cms"
    "cb_nullifiers b = cb_nullifiers (sp_compact_block s)" "j_nct_data (sp_jmt s') = Some (sp_nct s')"
    "check_claimed_anchor (sp_jmt s') (nct_root (x_crypto X) (map NctAppend (sp_nct s'))) = Inr ()"
  then show ?thesis using assms(2) by (auto simp: pool_ok_def)
qed

text \<open>
  C26: what ending a block does to the token supplies.  The supply of the staking token changes by the sum of the
  pending commissions, each read as a signed number: amounts below \<open>2\<^sup>6\<^sup>3\<close> are minted in full, and an amount
  from \<open>2\<^sup>6\<^sup>3\<close> on lowers the supply by what it lacks to \<open>2\<^sup>6\<^sup>4\<close>.  No other supply changes, and no
  nullifier's status; without pending commissions no supply changes.
\<close>

theorem end_block_mints_commissions:
  assumes "pool_end_block X h s = Inr s'"
    and "cms = (case commission_amounts (sp_jmt s) h of Some l \<Rightarrow> l | None \<Rightarrow> [])"
  shows "int (supply_of (sp_jmt s') (staking_token_asset_id (x_crypto X)))
      = int (supply_of (sp_jmt s) (staking_token_asset_id (x_crypto X)))
        + (\<Sum>note\<leftarrow>cms. if unat (ca_amount note) < 2 ^ 63 then int (unat (ca_amount note)) else int (unat (ca_amount note)) - 2 ^ 64)
    \<and> (\<forall>b. b \<noteq> staking_token_asset_id (x_crypto X) \<longrightarrow> supply_of (sp_jmt s') b = supply_of (sp_jmt s) b)
    \<and> j_spent_nullifiers (sp_jmt s') = j_spent_nullifiers (sp_jmt s)"
proof -
  let ?S = "staking_token_asset_id (x_crypto X)"
  obtain duration s1 where m: "mint_all X ?S (FundingStreamReward (h div duration)) cms
        (s\<lparr>sp_compact_block := (sp_compact_block s)\<lparr>cb_height := h\<rparr>\<rparr>) = Inr s1"
    and s': "s' = write_compactblock_and_nct X s1"
    using pool_end_block_Inr [OF assms(1)] assms(2) by blast
  have "int (supply_of (sp_jmt s1) ?S) = int (supply_of (sp_jmt s) ?S) + (\<Sum>note\<leftarrow>cms. sint (ca_amount note))"
    using mint_all_spec [OF m] by simp
  moreover have "(\<Sum>note\<leftarrow>cms. sint (ca_amount note)) = (\<Sum>note\<leftarrow>cms. if unat (ca_amount note) < 2 ^ 63
      then int (unat (ca_amount note)) else int (unat (ca_amount note)) - 2 ^ 64)"
    unfolding sint_of_amount ..
  ultimately show ?thesis using mint_all_spec [OF m] by (simp add: s' write_compactblock_spec)
qed

text \<open>
  every anchor is filed under height 0: \<open>write_compactblock_and_nct\<close> takes the block, which
  leaves the default one behind, before it reads the height for the anchor.  So the entry for any
  other height is never written.
\<close>

theorem nct_anchor_height_lost:
  assumes "pool_end_block X h s = Inr s'"
  shows "j_nct_anchor (sp_jmt s') 0 = Some (nct_root (x_crypto X) (map NctAppend (sp_nct s')))
    \<and> j_valid_anchors (sp_jmt s') (nct_root (x_crypto X) (map NctAppend (sp_nct s'))) = Some 0
    \<and> (h \<noteq> 0 \<longrightarrow> j_nct_anchor (sp_jmt s') h = j_nct_anchor (sp_jmt s) h)"
proof -
  obtain duration s1 where m: "mint_all X (staking_token_asset_id (x_crypto X)) (FundingStreamReward (h div duration))
        (case commission_amounts (sp_jmt s) h of Some l \<Rightarrow> l | None \<Rightarrow> [])
        (s\<lparr>sp_compact_block := (sp_compact_block s)\<lparr>cb_height := h\<rparr>\<rparr>) = Inr s1"
    and s': "s' = write_compactblock_and_nct X s1"
    using pool_end_block_Inr [OF assms(1)] by blast
  have "j_nct_anchor (sp_jmt s1) = j_nct_anchor (sp_jmt (s\<lparr>sp_compact_block := (sp_compact_block s)\<lparr>cb_height := h\<rparr>\<rparr>))"
    using m unfolding mint_all_def
    by (rule foldR_frame) (auto simp: result_simps elim!: mint_note_Inr dest!: update_token_supply_frame
        simp: add_note_def set_note_source_def)
  then show ?thesis using write_compactblock_spec(3,4,5,9) [of X s1] by (auto simp: s')
qed

text \<open>
  minting casts the amount to \<open>i64\<close>, so a note of \<open>2\<^sup>6\<^sup>3\<close> or more base units lowers the
  recorded supply by \<open>2\<^sup>6\<^sup>4\<close> minus the amount instead of raising it.
\<close>

theorem mint_note_large_amount:
  assumes "mint_note X amount asset addr source s = Inr s'" and "2 ^ 63 \<le> unat amount"
  shows "int (supply_of (sp_jmt s') asset) = int (supply_of (sp_jmt s) asset) - (2 ^ 64 - int (unat amount))"
  using mint_note_supply [OF assms(1)] assms(2) by (simp add: sint_of_amount)

lemma mint_note_undecodable:
  "el_decompress (x_crypto X) (ad_pk_d addr) = None \<Longrightarrow> mint_note X amount asset addr source s \<noteq> Inr s'"
  by (auto simp: mint_note_def Let_def result_simps note_from_parts_def note_encrypt_def key_agreement_with_def)

text \<open>
  A commission address that parses can stop the chain.  \<open>Address\<close> accepts any \<open>pk_d\<close> that
  is a field element, whether or not it encodes a group element, and such an address reads back from
  its text, so that a validator definition can name it in a funding stream; ending the block in which its
  commission is minted then fails, because the note cannot be encrypted.
\<close>

lemma undecodable_commission_address_halts:
  assumes "text_ok (x_crypto X)" and "address_ok (x_crypto X) a" and "el_decompress (x_crypto X) (ad_pk_d a) = None"
    and "commission_amounts (sp_jmt s) h = Some cms" and "c \<in> set cms" and "ca_destination c = a"
  shows "(\<exists>str. address_of_string (x_crypto X) str = Inr a) \<and> (\<exists>err. pool_end_block X h s = Inl err)"
proof -
  have "mint_all X asset source cms s1 \<noteq> Inr s2" for asset source s1 s2
    using assms(5,6) mint_note_undecodable [of X, OF assms(3) [folded assms(6)]]
    by (induction cms arbitrary: s1) (auto simp: mint_all_def result_simps)
  then have "pool_end_block X h s \<noteq> Inr s'" for s'
    using pool_end_block_Inr [of X h s s'] assms(4) by (metis option.simps(5))
  then have "\<exists>err. pool_end_block X h s = Inl err" by (metis sum.exhaust)
  with address_string_roundtrip [OF assms(1,2)] show ?thesis by blast
qed

end
