(* ===== verification/IBC_Client.thy ===== *)
theory IBC_Client
  imports State
begin

text \<open>
  The ICS-02 client component (\<open>ibc/src/component/client.rs\<close>, \<open>client/stateful.rs\<close>,
  \<open>client/stateless.rs\<close>, and the client state checks of \<open>ibc/src/client.rs\<close>).  Everything the
  code takes from the IBC and Tendermint libraries is a field of \<open>ibc_ext\<close>.
\<close>

section \<open>Library functions\<close>

datatype verdict = Success | NotEnoughTrust | Invalid

record trusted_block =
  tr_header_time :: ibc_time
  tr_height :: u64
  tr_next_validators :: "u8 list"
  tr_next_validators_hash :: "u8 list"

record ibc_ext =
  i_create :: "u8 list \<Rightarrow> msg_create_client result"      \<comment> \<open>decoding of the messages\<close>
  i_update :: "u8 list \<Rightarrow> msg_update_client result"
  i_open_init :: "u8 list \<Rightarrow> msg_open_init result"
  i_open_try :: "u8 list \<Rightarrow> msg_open_try result"
  i_open_ack :: "u8 list \<Rightarrow> msg_open_ack result"
  i_open_confirm :: "u8 list \<Rightarrow> msg_open_confirm result"
  i_client_id :: "string \<Rightarrow> u64 \<Rightarrow> client_id result"       \<comment> \<open>\<open>ClientId::new\<close>\<close>
  i_connection_id :: "u64 \<Rightarrow> connection_id"                 \<comment> \<open>\<open>ConnectionId::new\<close>\<close>
  i_client_type :: "any_client_state \<Rightarrow> string"
  i_latest_height :: "any_client_state \<Rightarrow> ibc_height"
  i_is_frozen :: "any_client_state \<Rightarrow> bool"
  i_expired :: "any_client_state \<Rightarrow> int \<Rightarrow> bool"
  i_with_header :: "tm_client_state \<Rightarrow> tm_header \<Rightarrow> tm_client_state"
  i_with_frozen_height :: "tm_client_state \<Rightarrow> ibc_height \<Rightarrow> tm_client_state result"
  i_cs_of_header :: "tm_header \<Rightarrow> tm_consensus_state"
  i_validators_hash :: "u8 list \<Rightarrow> u8 list"
  i_chain_version :: "string \<Rightarrow> u64"                       \<comment> \<open>\<open>ChainId::version\<close>\<close>
  i_tm_height :: "u64 \<Rightarrow> u64 option"
  i_options :: "tm_client_state \<Rightarrow> u8 list result"
  i_verify_header :: "u8 list \<Rightarrow> u8 list \<Rightarrow> trusted_block \<Rightarrow> u8 list \<Rightarrow> ibc_time \<Rightarrow> verdict"
  i_rfc3339 :: "ibc_time \<Rightarrow> string"
  i_duration_since :: "ibc_time \<Rightarrow> ibc_time \<Rightarrow> int result"
  i_root :: "any_consensus_state \<Rightarrow> u8 list"
  i_default_version :: conn_version
  i_pick_version :: "conn_version list \<Rightarrow> conn_version list \<Rightarrow> conn_version result"
  i_proof_specs :: "u8 list"                               \<comment> \<open>\<open>jmt::ics23_spec\<close>\<close>
  i_consensus_height :: "ibc_proofs \<Rightarrow> ibc_height"
  i_verify_connection_state ::
    "any_client_state \<Rightarrow> ibc_height \<Rightarrow> string \<Rightarrow> u8 list \<Rightarrow> u8 list \<Rightarrow> connection_id \<Rightarrow> connection_end \<Rightarrow> unit result"
  i_verify_client_full_state ::
    "any_client_state \<Rightarrow> ibc_height \<Rightarrow> string \<Rightarrow> u8 list \<Rightarrow> u8 list \<Rightarrow> client_id \<Rightarrow> any_client_state \<Rightarrow> unit result"
  i_verify_client_consensus_state ::
    "any_client_state \<Rightarrow> ibc_height \<Rightarrow> string \<Rightarrow> u8 list \<Rightarrow> u8 list \<Rightarrow> client_id \<Rightarrow> ibc_height \<Rightarrow> any_consensus_state \<Rightarrow> unit result"

section \<open>The view\<close>

definition put_client_counter :: "u64 \<Rightarrow> jmt \<Rightarrow> jmt" where
  "put_client_counter c j = j\<lparr>j_ibc := (j_ibc j)\<lparr>b_client_counter := Some c\<rparr>\<rparr>"

definition client_counter :: "jmt \<Rightarrow> u64" where
  "client_counter j = (case b_client_counter (j_ibc j) of Some c \<Rightarrow> c | None \<Rightarrow> 0)"

definition put_client_data :: "client_data \<Rightarrow> jmt \<Rightarrow> jmt" where
  "put_client_data d j = j\<lparr>j_ibc := (j_ibc j)\<lparr>b_client_data := (b_client_data (j_ibc j))(cd_client_id d \<mapsto> d)\<rparr>\<rparr>"

definition get_client_data :: "jmt \<Rightarrow> client_id \<Rightarrow> client_data result" where
  "get_client_data j c = ok_or (Err ''client not found'') (b_client_data (j_ibc j) c)"

definition get_verified_heights :: "jmt \<Rightarrow> client_id \<Rightarrow> ibc_height list option" where
  "get_verified_heights j c = b_verified_heights (j_ibc j) c"

definition put_verified_heights :: "client_id \<Rightarrow> ibc_height list \<Rightarrow> jmt \<Rightarrow> jmt" where
  "put_verified_heights c hs j =
     j\<lparr>j_ibc := (j_ibc j)\<lparr>b_verified_heights := (b_verified_heights (j_ibc j))(c \<mapsto> hs)\<rparr>\<rparr>"

definition get_penumbra_consensus_state :: "jmt \<Rightarrow> ibc_height \<Rightarrow> any_consensus_state result" where
  "get_penumbra_consensus_state j h = ok_or (Err ''consensus state not found'') (b_penumbra_cs (j_ibc j) h)"

definition put_penumbra_consensus_state :: "ibc_height \<Rightarrow> any_consensus_state \<Rightarrow> jmt \<Rightarrow> jmt" where
  "put_penumbra_consensus_state h cs j =
     j\<lparr>j_ibc := (j_ibc j)\<lparr>b_penumbra_cs := (b_penumbra_cs (j_ibc j))(h \<mapsto> cs)\<rparr>\<rparr>"

definition get_verified_consensus_state :: "jmt \<Rightarrow> ibc_height \<Rightarrow> client_id \<Rightarrow> any_consensus_state result" where
  "get_verified_consensus_state j h c =
     ok_or (Err ''consensus state not found'') (b_verified_cs (j_ibc j) (c, h))"

definition put_verified_consensus_state :: "ibc_height \<Rightarrow> client_id \<Rightarrow> any_consensus_state \<Rightarrow> jmt \<Rightarrow> jmt" where
  "put_verified_consensus_state h c cs j =
     (let j = j\<lparr>j_ibc := (j_ibc j)\<lparr>b_verified_cs := (b_verified_cs (j_ibc j))((c, h) \<mapsto> cs)\<rparr>\<rparr>;
          hs = (case get_verified_heights j c of Some l \<Rightarrow> l | None \<Rightarrow> [])
      in put_verified_heights c (hs @ [h]) j)"

definition next_verified_consensus_state :: "jmt \<Rightarrow> client_id \<Rightarrow> ibc_height \<Rightarrow> any_consensus_state option result" where
  "next_verified_consensus_state j c height =
     (let hs = sort (case get_verified_heights j c of Some l \<Rightarrow> l | None \<Rightarrow> []) in
      case find (\<lambda>h. h > height) hs of
        Some next_height \<Rightarrow> bindR (get_verified_consensus_state j next_height c) (\<lambda>cs. Inr (Some cs))
      | None \<Rightarrow> Inr None)"

definition prev_verified_consensus_state :: "jmt \<Rightarrow> client_id \<Rightarrow> ibc_height \<Rightarrow> any_consensus_state option result" where
  "prev_verified_consensus_state j c height =
     (let hs = sort (case get_verified_heights j c of Some l \<Rightarrow> l | None \<Rightarrow> []) in
      case find (\<lambda>h. h < height) hs of
        Some prev_height \<Rightarrow> bindR (get_verified_consensus_state j prev_height c) (\<lambda>cs. Inr (Some cs))
      | None \<Rightarrow> Inr None)"

definition add_connection_to_client :: "client_id \<Rightarrow> connection_id \<Rightarrow> jmt \<Rightarrow> jmt result" where
  "add_connection_to_client c k j =
     bindR (get_client_data j c) (\<lambda>_.
     (let cs = (case b_client_connections (j_ibc j) c of Some l \<Rightarrow> l | None \<Rightarrow> []) in
      Inr (j\<lparr>j_ibc := (j_ibc j)\<lparr>b_client_connections := (b_client_connections (j_ibc j))(c \<mapsto> cs @ [k])\<rparr>\<rparr>)))"

section \<open>Client states\<close>

fun as_tendermint :: "any_consensus_state \<Rightarrow> tm_consensus_state result" where
  "as_tendermint (TmConsensusState cs) = Inr cs"
| "as_tendermint (OtherConsensusState b) = Inl (Err ''not a tendermint consensus state'')"

definition client_data_new :: "client_id \<Rightarrow> any_client_state \<Rightarrow> string \<Rightarrow> u64 \<Rightarrow> client_data" where
  "client_data_new c st t h = \<lparr>cd_client_id = c, cd_client_state = st, cd_processed_time = t, cd_processed_height = h\<rparr>"

definition with_new_client_state :: "client_data \<Rightarrow> any_client_state \<Rightarrow> string \<Rightarrow> u64 \<Rightarrow> client_data" where
  "with_new_client_state d st t h =
     \<lparr>cd_client_id = cd_client_id d, cd_client_state = st, cd_processed_time = t, cd_processed_height = h\<rparr>"

text \<open>The product wraps at 64 bits, as in the code.\<close>

definition validate_trust_threshold :: "u64 \<Rightarrow> u64 \<Rightarrow> unit result" where
  "validate_trust_threshold numerator denominator =
     (if denominator = 0 then Inl (Err ''trust threshold denominator cannot be zero'')
      else if numerator * 3 < denominator then Inl (Err ''trust threshold must be greater than 1/3'')
      else if denominator \<le> numerator then Inl (Err ''trust threshold must be strictly less than 1'')
      else Inr ())"

definition validate_penumbra_client_state ::
  "ibc_ext \<Rightarrow> any_client_state \<Rightarrow> string \<Rightarrow> u64 \<Rightarrow> unit result" where
  "validate_penumbra_client_state I st cid current_height =
     bindR (case st of TmClientState t \<Rightarrow> Inr t
            | _ \<Rightarrow> Inl (Err ''invalid client state: not a Tendermint client state'')) (\<lambda>t.
     bindR (ensure (Err ''invalid client state: frozen'') (tcs_frozen_height t = None)) (\<lambda>_.
     bindR (ensure (Err ''invalid client state: chain id does not match'') (cid = tcs_chain_id t)) (\<lambda>_.
     bindR (ensure (Err ''invalid client state: revision number does not match'')
              (revision_number (tcs_latest_height t) = i_chain_version I cid)) (\<lambda>_.
     bindR (ensure (Err ''invalid client state: latest height is greater than or equal to the current block height'')
              (revision_height (tcs_latest_height t) < current_height)) (\<lambda>_.
     bindR (ensure (Err ''invalid client state: proof specs do not match'') (i_proof_specs I = tcs_proof_specs t)) (\<lambda>_.
     bindR (validate_trust_threshold (tcs_trust_numerator t) (tcs_trust_denominator t)) (\<lambda>_.
     ensure (Err ''invalid client state: unbonding period is less than trusting period'')
       (tcs_trusting_period t \<le> tcs_unbonding_period t))))))))"

section \<open>Stateless checks\<close>

definition client_state_is_tendermint :: "msg_create_client \<Rightarrow> unit result" where
  "client_state_is_tendermint msg =
     (case mc_client_state msg of TmClientState _ \<Rightarrow> Inr ()
      | _ \<Rightarrow> Inl (Err ''invalid client state: not a Tendermint client state''))"

definition consensus_state_is_tendermint :: "msg_create_client \<Rightarrow> unit result" where
  "consensus_state_is_tendermint msg =
     (case mc_consensus_state msg of TmConsensusState _ \<Rightarrow> Inr ()
      | _ \<Rightarrow> Inl (Err ''invalid consensus state: not a Tendermint consensus state''))"

definition header_is_tendermint :: "msg_update_client \<Rightarrow> unit result" where
  "header_is_tendermint msg =
     (case mu_header msg of TmHeader _ \<Rightarrow> Inr ()
      | _ \<Rightarrow> Inl (Err ''invalid header: not a Tendermint header''))"

text \<open>The loop returns at the first action of another kind, whatever follows it.\<close>

fun client_check_stateless :: "ibc_ext \<Rightarrow> ibc_action list \<Rightarrow> unit result" where
  "client_check_stateless I [] = Inr ()"
| "client_check_stateless I (CreateClient raw # rest) =
     bindR (i_create I raw) (\<lambda>msg.
     bindR (client_state_is_tendermint msg) (\<lambda>_.
     bindR (consensus_state_is_tendermint msg) (\<lambda>_.
     client_check_stateless I rest)))"
| "client_check_stateless I (UpdateClient raw # rest) =
     bindR (i_update I raw) (\<lambda>msg.
     bindR (header_is_tendermint msg) (\<lambda>_.
     client_check_stateless I rest))"
| "client_check_stateless I (_ # rest) = Inr ()"

section \<open>Stateful checks\<close>

definition validate_create_client :: "ibc_ext \<Rightarrow> jmt \<Rightarrow> msg_create_client \<Rightarrow> unit result" where
  "validate_create_client I j msg =
     bindR (i_client_id I (i_client_type I (mc_client_state msg)) (client_counter j)) (\<lambda>_. Inr ())"

definition client_is_not_frozen :: "ibc_ext \<Rightarrow> client_data \<Rightarrow> unit result" where
  "client_is_not_frozen I d = ensure (Err ''client is frozen'') (\<not> i_is_frozen I (cd_client_state d))"

definition client_is_not_expired :: "ibc_ext \<Rightarrow> jmt \<Rightarrow> client_data \<Rightarrow> unit result" where
  "client_is_not_expired I j d =
     bindR (get_verified_consensus_state j (i_latest_height I (cd_client_state d)) (cd_client_id d)) (\<lambda>cs.
     bindR (case cs of TmConsensusState t \<Rightarrow> Inr t
            | _ \<Rightarrow> Inl (Err ''invalid consensus state: not a Tendermint consensus state'')) (\<lambda>t.
     bindR (get_block_timestamp j) (\<lambda>now.
     bindR (i_duration_since I now (tcon_timestamp t)) (\<lambda>time_elapsed.
     ensure (Err ''client is expired'') (\<not> i_expired I (cd_client_state d) time_elapsed)))))"

definition update_is_already_committed :: "ibc_ext \<Rightarrow> jmt \<Rightarrow> client_id \<Rightarrow> tm_header \<Rightarrow> bool result" where
  "update_is_already_committed I j c header =
     (case get_verified_consensus_state j (th_height header) c of
        Inr stored \<Rightarrow> bindR (as_tendermint stored) (\<lambda>t. Inr (t = i_cs_of_header I header))
      | Inl _ \<Rightarrow> Inr False)"

definition header_revision_matches_client_state :: "ibc_ext \<Rightarrow> tm_client_state \<Rightarrow> tm_header \<Rightarrow> unit result" where
  "header_revision_matches_client_state I t header =
     ensure (Err ''client update revision number does not match client state'')
       (revision_number (th_height header) = i_chain_version I (tcs_chain_id t))"

definition header_height_is_consistent :: "tm_header \<Rightarrow> unit result" where
  "header_height_is_consistent header =
     ensure (Err ''client update height is not greater than trusted height'')
       (\<not> th_height header \<le> th_trusted_height header)"

definition verify_header_validator_set :: "ibc_ext \<Rightarrow> tm_header \<Rightarrow> tm_consensus_state \<Rightarrow> u8 list result" where
  "verify_header_validator_set I header trusted_cs =
     (if i_validators_hash I (th_trusted_validator_set header) \<noteq> tcon_next_validators_hash trusted_cs
      then Inl (Err ''client update validator set hash does not match trusted consensus state'')
      else Inr (th_trusted_validator_set header))"

definition validate_update_client :: "ibc_ext \<Rightarrow> jmt \<Rightarrow> msg_update_client \<Rightarrow> unit result" where
  "validate_update_client I j msg =
     bindR (get_client_data j (mu_client_id msg)) (\<lambda>d.
     bindR (client_is_not_frozen I d) (\<lambda>_.
     bindR (client_is_not_expired I j d) (\<lambda>_.
     bindR (case cd_client_state d of TmClientState t \<Rightarrow> Inr t
            | _ \<Rightarrow> Inl (Err ''invalid client state: not Tendermint'')) (\<lambda>trusted.
     bindR (case mu_header msg of TmHeader h \<Rightarrow> Inr h | _ \<Rightarrow> Inl (Err ''invalid header: not Tendermint'')) (\<lambda>header.
     bindR (update_is_already_committed I j (cd_client_id d) header) (\<lambda>already.
     bindR (ensure (Err ''Client update has already been committed to the chain state'') (\<not> already)) (\<lambda>_.
     bindR (header_revision_matches_client_state I trusted header) (\<lambda>_.
     bindR (header_height_is_consistent header) (\<lambda>_.
     bindR (get_verified_consensus_state j (th_trusted_height header) (cd_client_id d)) (\<lambda>cs.
     bindR (as_tendermint cs) (\<lambda>trusted_cs.
     bindR (ok_or (Err ''invalid header height'') (i_tm_height I (revision_height (th_trusted_height header)))) (\<lambda>tmh.
     bindR (verify_header_validator_set I header trusted_cs) (\<lambda>vset.
     bindR (i_options I trusted) (\<lambda>options.
     bindR (get_block_timestamp j) (\<lambda>now.
     (case i_verify_header I (th_signed_header header) (th_validator_set header)
             \<lparr>tr_header_time = tcon_timestamp trusted_cs, tr_height = tmh, tr_next_validators = vset,
              tr_next_validators_hash = tcon_next_validators_hash trusted_cs\<rparr> options now of
        Success \<Rightarrow> Inr ()
      | NotEnoughTrust \<Rightarrow> Inl (Err ''not enough trust'')
      | Invalid \<Rightarrow> Inl (Err ''could not verify tendermint header: invalid'')))))))))))))))))"

fun client_check_stateful :: "ibc_ext \<Rightarrow> jmt \<Rightarrow> ibc_action list \<Rightarrow> unit result" where
  "client_check_stateful I j [] = Inr ()"
| "client_check_stateful I j (CreateClient raw # rest) =
     bindR (i_create I raw) (\<lambda>msg.
     bindR (validate_create_client I j msg) (\<lambda>_.
     client_check_stateful I j rest))"
| "client_check_stateful I j (UpdateClient raw # rest) =
     bindR (i_update I raw) (\<lambda>msg.
     bindR (validate_update_client I j msg) (\<lambda>_.
     client_check_stateful I j rest))"
| "client_check_stateful I j (_ # rest) = Inr ()"

section \<open>Execution\<close>

definition frozen_update :: "ibc_ext \<Rightarrow> tm_client_state \<Rightarrow> tm_header \<Rightarrow> (tm_client_state \<times> tm_consensus_state) result" where
  "frozen_update I trusted header =
     bindR (unwrapR (i_with_frozen_height I (i_with_header I trusted header) (th_height header))) (\<lambda>t.
     Inr (t, i_cs_of_header I header))"

text \<open>
  The next client and consensus states for a verified header: a stored conflicting consensus
  state or a timestamp out of order freezes the client.
\<close>

definition next_tendermint_state ::
  "ibc_ext \<Rightarrow> jmt \<Rightarrow> client_id \<Rightarrow> tm_client_state \<Rightarrow> tm_header \<Rightarrow> (tm_client_state \<times> tm_consensus_state) result" where
  "next_tendermint_state I j c trusted header =
     (case get_verified_consensus_state j (th_height header) c of
        Inr stored \<Rightarrow>
          bindR (unwrapR (as_tendermint stored)) (\<lambda>stored_tm.
          if stored_tm = i_cs_of_header I header then Inr (trusted, i_cs_of_header I header)
          else frozen_update I trusted header)
      | Inl _ \<Rightarrow>
          bindR (unwrapR (next_verified_consensus_state j c (th_height header))) (\<lambda>next_cs.
          bindR (unwrapR (prev_verified_consensus_state j c (th_height header))) (\<lambda>prev_cs.
          bindR (case prev_cs of None \<Rightarrow> Inr True
                 | Some p \<Rightarrow> bindR (unwrapR (as_tendermint p)) (\<lambda>t. Inr (tcon_timestamp t \<le> th_time header))) (\<lambda>prev_ok.
          if \<not> prev_ok then frozen_update I trusted header
          else
            bindR (case next_cs of None \<Rightarrow> Inr True
                   | Some n \<Rightarrow> bindR (unwrapR (as_tendermint n)) (\<lambda>t. Inr (th_time header \<le> tcon_timestamp t))) (\<lambda>next_ok.
            if \<not> next_ok then frozen_update I trusted header
            else Inr (i_with_header I trusted header, i_cs_of_header I header))))))"

definition execute_update_client :: "ibc_ext \<Rightarrow> msg_update_client \<Rightarrow> jmt \<Rightarrow> jmt result" where
  "execute_update_client I msg j =
     bindR (unwrapR (get_client_data j (mu_client_id msg))) (\<lambda>d.
     bindR (case cd_client_state d of TmClientState t \<Rightarrow> Inr t | _ \<Rightarrow> Inl (Panic ''unsupported client type'')) (\<lambda>tm.
     bindR (case mu_header msg of TmHeader h \<Rightarrow> Inr h | _ \<Rightarrow> Inl (Panic ''update header is not a Tendermint header'')) (\<lambda>header.
     bindR (next_tendermint_state I j (mu_client_id msg) tm header) (\<lambda>(next_tm, next_cs).
     bindR (unwrapR (get_block_height j)) (\<lambda>height.
     bindR (unwrapR (get_block_timestamp j)) (\<lambda>now.
     (let j = put_client_data (with_new_client_state d (TmClientState next_tm) (i_rfc3339 I now) height) j in
      Inr (put_verified_consensus_state (th_height header) (mu_client_id msg) (TmConsensusState next_cs) j))))))))"

definition execute_create_client :: "ibc_ext \<Rightarrow> msg_create_client \<Rightarrow> jmt \<Rightarrow> jmt result" where
  "execute_create_client I msg j =
     bindR (unwrapR (i_client_id I (i_client_type I (mc_client_state msg)) (client_counter j))) (\<lambda>c.
     bindR (unwrapR (get_block_height j)) (\<lambda>height.
     bindR (unwrapR (get_block_timestamp j)) (\<lambda>now.
     (let j = put_client_data (client_data_new c (mc_client_state msg) (i_rfc3339 I now) height) j;
          j = put_verified_consensus_state (i_latest_height I (mc_client_state msg)) c (mc_consensus_state msg) j
      in Inr (put_client_counter (client_counter j + 1) j)))))"

definition client_execute_action :: "ibc_ext \<Rightarrow> ibc_action \<Rightarrow> jmt \<Rightarrow> jmt result" where
  "client_execute_action I a j =
     (case a of
        CreateClient raw \<Rightarrow> bindR (unwrapR (i_create I raw)) (\<lambda>msg. execute_create_client I msg j)
      | UpdateClient raw \<Rightarrow> bindR (unwrapR (i_update I raw)) (\<lambda>msg. execute_update_client I msg j)
      | _ \<Rightarrow> Inr j)"

definition client_init_chain :: "jmt \<Rightarrow> jmt" where
  "client_init_chain j = put_client_counter 0 j"

definition client_begin_block :: "u64 \<Rightarrow> u8 list \<Rightarrow> ibc_time \<Rightarrow> u8 list \<Rightarrow> jmt \<Rightarrow> jmt" where
  "client_begin_block height app_hash time next_validators_hash j =
     put_penumbra_consensus_state (Height 0 height)
       (TmConsensusState \<lparr>tcon_root = app_hash, tcon_timestamp = time, tcon_next_validators_hash = next_validators_hash\<rparr>) j"

section \<open>Verified heights\<close>

text \<open>Searching a sorted list upwards finds the least match.\<close>

lemma find_sorted_least:
  fixes hs :: "'a :: linorder list"
  shows "find P (sort hs) = Some h \<longleftrightarrow> h \<in> set hs \<and> P h \<and> (\<forall>k \<in> set hs. P k \<longrightarrow> h \<le> k)"
proof -
  have "find P xs = Some h \<longleftrightarrow> h \<in> set xs \<and> P h \<and> (\<forall>k \<in> set xs. P k \<longrightarrow> h \<le> k)" if "sorted xs" for xs
    using that by (induction xs) (auto simp: antisym)
  from this [of "sort hs"] show ?thesis by simp
qed

lemma find_sort_None: "find P (sort hs) = None \<longleftrightarrow> (\<forall>k \<in> set hs. \<not> P k)"
  by (auto simp: find_None_iff)

definition verified_heights :: "jmt \<Rightarrow> client_id \<Rightarrow> ibc_height set" where
  "verified_heights j c = set (case b_verified_heights (j_ibc j) c of Some l \<Rightarrow> l | None \<Rightarrow> [])"

definition heights_ok :: "jmt \<Rightarrow> client_id \<Rightarrow> bool" where
  "heights_ok j c \<longleftrightarrow> (\<forall>h. h \<in> verified_heights j c \<longleftrightarrow> b_verified_cs (j_ibc j) (c, h) \<noteq> None)"

lemma put_verified_consensus_state_simps [simp]:
  "b_verified_cs (j_ibc (put_verified_consensus_state h c cs j)) = (b_verified_cs (j_ibc j))((c, h) \<mapsto> cs)"
  "verified_heights (put_verified_consensus_state h c cs j) c' =
     (if c' = c then insert h (verified_heights j c) else verified_heights j c')"
  "b_client_data (j_ibc (put_verified_consensus_state h c cs j)) = b_client_data (j_ibc j)"
  "b_client_counter (j_ibc (put_verified_consensus_state h c cs j)) = b_client_counter (j_ibc j)"
  "b_connections (j_ibc (put_verified_consensus_state h c cs j)) = b_connections (j_ibc j)"
  by (auto simp: put_verified_consensus_state_def put_verified_heights_def get_verified_heights_def verified_heights_def
      Let_def split: option.split)

lemma heights_ok_put: "heights_ok j c' \<Longrightarrow> heights_ok (put_verified_consensus_state h c cs j) c'"
  by (auto simp: heights_ok_def)

text \<open>Only Tendermint consensus states are stored, as the stateless checks ensure.\<close>

definition all_tendermint :: "jmt \<Rightarrow> bool" where
  "all_tendermint j \<longleftrightarrow> (\<forall>c h cs. b_verified_cs (j_ibc j) (c, h) = Some cs \<longrightarrow> (\<exists>t. cs = TmConsensusState t))"

lemma verified_lookup_total:
  assumes "heights_ok j c" and "all_tendermint j"
  shows "\<exists>r. next_verified_consensus_state j c h = Inr r \<and> (\<forall>cs. r = Some cs \<longrightarrow> (\<exists>t. cs = TmConsensusState t))"
    and "\<exists>r. prev_verified_consensus_state j c h = Inr r \<and> (\<forall>cs. r = Some cs \<longrightarrow> (\<exists>t. cs = TmConsensusState t))"
proof -
  let ?hs = "case get_verified_heights j c of Some l \<Rightarrow> l | None \<Rightarrow> []"
  have get: "\<exists>t. get_verified_consensus_state j k c = Inr (TmConsensusState t)" if "find P (sort ?hs) = Some k" for P k
  proof -
    have "k \<in> verified_heights j c"
      using that unfolding find_sorted_least by (simp add: verified_heights_def get_verified_heights_def)
    then obtain cs where "b_verified_cs (j_ibc j) (c, k) = Some cs" using assms(1) by (auto simp: heights_ok_def)
    then show ?thesis using assms(2) by (auto simp: all_tendermint_def get_verified_consensus_state_def)
  qed
  show "\<exists>r. next_verified_consensus_state j c h = Inr r \<and> (\<forall>cs. r = Some cs \<longrightarrow> (\<exists>t. cs = TmConsensusState t))"
    using get unfolding next_verified_consensus_state_def Let_def
    by (fastforce split: option.split)
  show "\<exists>r. prev_verified_consensus_state j c h = Inr r \<and> (\<forall>cs. r = Some cs \<longrightarrow> (\<exists>t. cs = TmConsensusState t))"
    using get unfolding prev_verified_consensus_state_def Let_def
    by (fastforce split: option.split)
qed

section \<open>Client identifiers\<close>

text \<open>Identifiers made from different types or counters differ.\<close>

definition client_ids_inj :: "ibc_ext \<Rightarrow> bool" where
  "client_ids_inj I \<longleftrightarrow> (\<forall>t n t' n' c. i_client_id I t n = Inr c \<longrightarrow> i_client_id I t' n' = Inr c \<longrightarrow> n = n')"

definition clients_fresh :: "ibc_ext \<Rightarrow> jmt \<Rightarrow> bool" where
  "clients_fresh I j \<longleftrightarrow> (\<forall>t n c. client_counter j \<le> n \<longrightarrow> i_client_id I t n = Inr c \<longrightarrow> b_client_data (j_ibc j) c = None)"

lemma client_counter_simps [simp]:
  "client_counter (put_client_counter n j) = n"
  "client_counter (put_verified_consensus_state h c cs j) = client_counter j"
  "client_counter (put_client_data d j) = client_counter j"
  by (simp_all add: client_counter_def put_client_counter_def put_client_data_def)

lemma put_client_simps [simp]:
  "b_client_data (j_ibc (put_client_data d j)) = (b_client_data (j_ibc j))(cd_client_id d \<mapsto> d)"
  "b_verified_cs (j_ibc (put_client_data d j)) = b_verified_cs (j_ibc j)"
  "verified_heights (put_client_data d j) = verified_heights j"
  "b_client_data (j_ibc (put_client_counter n j)) = b_client_data (j_ibc j)"
  "b_verified_cs (j_ibc (put_client_counter n j)) = b_verified_cs (j_ibc j)"
  "verified_heights (put_client_counter n j) = verified_heights j"
  by (auto simp: put_client_data_def put_client_counter_def verified_heights_def fun_eq_iff)

section \<open>Properties\<close>

text \<open>
  Creating a client allocates a new identifier.  No existing client is overwritten, the new
  client can be read back with the submitted state, its first consensus state is stored and listed
  at the client's latest height, and the identifiers from the new counter on stay unused.
\<close>

lemma create_client_fresh:
  assumes "execute_create_client I msg j = Inr j'" and "clients_fresh I j" and "client_ids_inj I"
    and "unat (client_counter j) + 1 < 2 ^ 64"
  shows "\<exists>c. b_client_data (j_ibc j) c = None
    \<and> (\<exists>d. get_client_data j' c = Inr d \<and> cd_client_id d = c \<and> cd_client_state d = mc_client_state msg)
    \<and> (\<forall>c'. c' \<noteq> c \<longrightarrow> b_client_data (j_ibc j') c' = b_client_data (j_ibc j) c')
    \<and> get_verified_consensus_state j' (i_latest_height I (mc_client_state msg)) c = Inr (mc_consensus_state msg)
    \<and> i_latest_height I (mc_client_state msg) \<in> verified_heights j' c
    \<and> clients_fresh I j'"
proof -
  let ?n = "client_counter j"
  from assms(1) obtain c height now where c: "i_client_id I (i_client_type I (mc_client_state msg)) ?n = Inr c"
    and j': "j' = put_client_counter (?n + 1) (put_verified_consensus_state (i_latest_height I (mc_client_state msg)) c
        (mc_consensus_state msg) (put_client_data (client_data_new c (mc_client_state msg) (i_rfc3339 I now) height) j))"
    by (auto simp: execute_create_client_def result_simps Let_def)
  have n1: "?n < ?n + 1"
    using assms(4) unat_plus_exact [of ?n 1] by (simp add: word_less_nat_alt)
  have "b_client_data (j_ibc j) c = None" using assms(2) c by (auto simp: clients_fresh_def)
  moreover have "clients_fresh I j'"
    unfolding clients_fresh_def
  proof (intro allI impI)
    fix t m x assume m: "client_counter j' \<le> m" and x: "i_client_id I t m = Inr x"
    have "?n + 1 \<le> m" using m by (simp add: j')
    then have "?n < m" using n1 by simp
    then have "x \<noteq> c" using assms(3) c x unfolding client_ids_inj_def by blast
    moreover have "?n \<le> m" using \<open>?n < m\<close> by simp
    then have "b_client_data (j_ibc j) x = None" using assms(2) x unfolding clients_fresh_def by blast
    ultimately show "b_client_data (j_ibc j') x = None" by (simp add: j' client_data_new_def)
  qed
  ultimately show ?thesis
    by (intro exI [of _ c]) (simp add: j' get_client_data_def get_verified_consensus_state_def client_data_new_def)
qed

text \<open>
  A client update that passed validation executes.  When only Tendermint consensus states are
  stored and every listed height has one, none of the \<open>unwrap\<close>s of the update fires, the client
  keeps its identifier, and the header's consensus state becomes the verified one at its height.
\<close>

lemma update_client_total:
  assumes "validate_update_client I j msg = Inr ()" and "heights_ok j (mu_client_id msg)" and "all_tendermint j"
    and "\<And>t h. \<exists>t'. i_with_frozen_height I t h = Inr t'"
    and "j_block_height j = Some height"
    and "\<And>c d. b_client_data (j_ibc j) c = Some d \<Longrightarrow> cd_client_id d = c"
  shows "\<exists>j' d header. execute_update_client I msg j = Inr j' \<and> mu_header msg = TmHeader header
    \<and> get_client_data j' (mu_client_id msg) = Inr d \<and> cd_client_id d = mu_client_id msg
    \<and> get_verified_consensus_state j' (th_height header) (mu_client_id msg) = Inr (TmConsensusState (i_cs_of_header I header))
    \<and> heights_ok j' (mu_client_id msg)"
proof -
  let ?c = "mu_client_id msg"
  from assms(1) obtain d where d: "b_client_data (j_ibc j) ?c = Some d"
    by (auto simp: validate_update_client_def result_simps get_client_data_def)
  from assms(1) d obtain tm header now where tm: "cd_client_state d = TmClientState tm"
    and hd: "mu_header msg = TmHeader header" and now: "j_block_timestamp j = Some now"
    by (auto simp: validate_update_client_def result_simps get_client_data_def get_block_timestamp_def
        split: any_client_state.splits any_header.splits)
  have fr: "\<exists>t. frozen_update I tm header = Inr (t, i_cs_of_header I header)"
    using assms(4) [of "i_with_header I tm header" "th_height header"] by (auto simp: frozen_update_def)
  have nx: "\<exists>t. next_tendermint_state I j ?c tm header = Inr (t, i_cs_of_header I header)"
  proof (cases "b_verified_cs (j_ibc j) (?c, th_height header)")
    case (Some cs)
    then obtain s where "cs = TmConsensusState s" using assms(3) unfolding all_tendermint_def by blast
    with Some fr show ?thesis
      by (simp add: next_tendermint_state_def get_verified_consensus_state_def)
  next
    case None
    obtain nr where nr: "next_verified_consensus_state j ?c (th_height header) = Inr nr"
      "\<forall>cs. nr = Some cs \<longrightarrow> (\<exists>t. cs = TmConsensusState t)" using verified_lookup_total(1) [OF assms(2,3)] by blast
    obtain pr where pr: "prev_verified_consensus_state j ?c (th_height header) = Inr pr"
      "\<forall>cs. pr = Some cs \<longrightarrow> (\<exists>t. cs = TmConsensusState t)" using verified_lookup_total(2) [OF assms(2,3)] by blast
    have eq: "next_tendermint_state I j ?c tm header = (case (pr, nr) of
        (None, None) \<Rightarrow> Inr (i_with_header I tm header, i_cs_of_header I header)
      | (p, n) \<Rightarrow> if (\<forall>t. p = Some (TmConsensusState t) \<longrightarrow> tcon_timestamp t \<le> th_time header)
                   \<and> (\<forall>t. n = Some (TmConsensusState t) \<longrightarrow> th_time header \<le> tcon_timestamp t)
                 then Inr (i_with_header I tm header, i_cs_of_header I header) else frozen_update I tm header)"
      using None nr pr by (auto simp: next_tendermint_state_def get_verified_consensus_state_def split: option.split)
    show ?thesis unfolding eq using fr by (auto split: option.split)
  qed
  then obtain t where t: "next_tendermint_state I j ?c tm header = Inr (t, i_cs_of_header I header)" by blast
  let ?j' = "put_verified_consensus_state (th_height header) ?c (TmConsensusState (i_cs_of_header I header))
    (put_client_data (with_new_client_state d (TmClientState t) (i_rfc3339 I now) height) j)"
  have ex: "execute_update_client I msg j = Inr ?j'"
    using d tm hd t now assms(5)
    by (simp add: execute_update_client_def get_client_data_def get_block_height_def get_block_timestamp_def Let_def)
  have "cd_client_id d = ?c" using assms(6) d by blast
  moreover have "heights_ok ?j' ?c"
    by (rule heights_ok_put) (use assms(2) in \<open>simp add: heights_ok_def\<close>)
  ultimately show ?thesis using ex hd
    by (intro exI [of _ ?j'] exI [of _ header])
      (auto simp: get_client_data_def get_verified_consensus_state_def with_new_client_state_def)
qed

text \<open>
  \<open>next_verified_consensus_state\<close> returns the consensus state at the least verified height
  above the given one, or nothing if there is none.
\<close>

theorem next_verified_is_least:
  assumes "heights_ok j c"
  shows "next_verified_consensus_state j c h = Inr r \<longleftrightarrow>
    (if \<exists>k \<in> verified_heights j c. h < k
     then (\<exists>k cs. k \<in> verified_heights j c \<and> h < k \<and> (\<forall>k' \<in> verified_heights j c. h < k' \<longrightarrow> k \<le> k')
            \<and> b_verified_cs (j_ibc j) (c, k) = Some cs \<and> r = Some cs)
     else r = None)"
proof (cases "\<exists>k \<in> verified_heights j c. h < k")
  case False
  let ?hs = "case get_verified_heights j c of Some l \<Rightarrow> l | None \<Rightarrow> []"
  have "set ?hs = verified_heights j c" by (simp add: verified_heights_def get_verified_heights_def)
  then have "find (\<lambda>k. h < k) (sort ?hs) = None" unfolding find_sort_None using False by simp
  then show ?thesis using False by (auto simp: next_verified_consensus_state_def Let_def)
next
  case True
  let ?hs = "case get_verified_heights j c of Some l \<Rightarrow> l | None \<Rightarrow> []"
  have hs: "set ?hs = verified_heights j c" by (simp add: verified_heights_def get_verified_heights_def)
  have "find (\<lambda>k. h < k) (sort ?hs) \<noteq> None"
    using True hs by (auto simp: find_None_iff)
  then obtain k where k: "find (\<lambda>k. h < k) (sort ?hs) = Some k" by blast
  then have k': "k \<in> verified_heights j c" "h < k" "\<forall>k' \<in> verified_heights j c. h < k' \<longrightarrow> k \<le> k'"
    unfolding find_sorted_least hs by auto
  then obtain cs where cs: "b_verified_cs (j_ibc j) (c, k) = Some cs" using assms by (auto simp: heights_ok_def)
  have "next_verified_consensus_state j c h = Inr (Some cs)"
    using k cs by (simp add: next_verified_consensus_state_def Let_def get_verified_consensus_state_def)
  moreover have "k2 = k" if "k2 \<in> verified_heights j c" "h < k2" "\<forall>k' \<in> verified_heights j c. h < k' \<longrightarrow> k2 \<le> k'" for k2
    using k' that by (intro antisym) auto
  ultimately have "(\<exists>k cs. k \<in> verified_heights j c \<and> h < k \<and> (\<forall>k' \<in> verified_heights j c. h < k' \<longrightarrow> k \<le> k')
            \<and> b_verified_cs (j_ibc j) (c, k) = Some cs \<and> r = Some cs) \<longleftrightarrow> next_verified_consensus_state j c h = Inr r"
    using k' cs by (metis option.inject sum.inject(2))
  then show ?thesis using True by simp
qed

text \<open>
  \<open>prev_verified_consensus_state\<close> is documented to return the state at the highest verified
  height below the given one.  It searches the ascending list for the first smaller height, so it
  returns the state at the lowest verified height instead.
\<close>

theorem prev_verified_is_lowest:
  assumes "heights_ok j c" and "k \<in> verified_heights j c" and "\<forall>k' \<in> verified_heights j c. k \<le> k'" and "k < h"
  shows "prev_verified_consensus_state j c h = Inr (b_verified_cs (j_ibc j) (c, k))"
proof -
  let ?hs = "case get_verified_heights j c of Some l \<Rightarrow> l | None \<Rightarrow> []"
  have hs: "set ?hs = verified_heights j c" by (simp add: verified_heights_def get_verified_heights_def)
  have "find (\<lambda>k. k < h) (sort ?hs) = Some k"
    unfolding find_sorted_least hs using assms(2-4) by auto
  moreover obtain cs where "b_verified_cs (j_ibc j) (c, k) = Some cs" using assms(1,2) by (auto simp: heights_ok_def)
  ultimately show ?thesis
    by (simp add: prev_verified_consensus_state_def Let_def get_verified_consensus_state_def)
qed

end
