(* ===== verification/IBC_Connection.thy ===== *)
theory IBC_Connection
  imports IBC_Client
begin

text \<open>
  The ICS-03 connection component (\<open>ibc/src/component/connection.rs\<close>) and the IBC component that
  bundles it with the client component (\<open>ibc/src/component.rs\<close>).
\<close>

section \<open>The view\<close>

definition COMMITMENT_PREFIX :: string where
  "COMMITMENT_PREFIX = ''penumbra-ibc-commitment''"

definition SUPPORTED_VERSIONS :: "ibc_ext \<Rightarrow> conn_version list" where
  "SUPPORTED_VERSIONS I = [i_default_version I]"

definition get_connection_counter :: "jmt \<Rightarrow> u64" where
  "get_connection_counter j = (case b_conn_counter (j_ibc j) of Some c \<Rightarrow> c | None \<Rightarrow> 0)"

definition put_connection_counter :: "u64 \<Rightarrow> jmt \<Rightarrow> jmt" where
  "put_connection_counter c j = j\<lparr>j_ibc := (j_ibc j)\<lparr>b_conn_counter := Some c\<rparr>\<rparr>"

definition get_connection :: "jmt \<Rightarrow> connection_id \<Rightarrow> connection_end option" where
  "get_connection j k = b_connections (j_ibc j) k"

definition update_connection :: "connection_id \<Rightarrow> connection_end \<Rightarrow> jmt \<Rightarrow> jmt" where
  "update_connection k conn j = j\<lparr>j_ibc := (j_ibc j)\<lparr>b_connections := (b_connections (j_ibc j))(k \<mapsto> conn)\<rparr>\<rparr>"

definition put_new_connection :: "connection_id \<Rightarrow> connection_end \<Rightarrow> jmt \<Rightarrow> jmt result" where
  "put_new_connection k conn j =
     (let j = j\<lparr>j_ibc := (j_ibc j)\<lparr>b_connections := (b_connections (j_ibc j))(k \<mapsto> conn)\<rparr>\<rparr>;
          j = put_connection_counter (get_connection_counter j + 1) j
      in add_connection_to_client (ce_client_id conn) k j)"

section \<open>Stateless checks\<close>

definition connection_check_stateless :: "ibc_ext \<Rightarrow> ibc_action \<Rightarrow> unit result" where
  "connection_check_stateless I a =
     (case a of
        ConnectionOpenInit raw \<Rightarrow>
          bindR (i_open_init I raw) (\<lambda>msg.
          bindR (ok_or (Err ''invalid version'') (oi_version msg)) (\<lambda>v.
          ensure (Err ''unsupported version: in ConnectionOpenInit'') (v \<in> set (SUPPORTED_VERSIONS I))))
      | ConnectionOpenTry raw \<Rightarrow> bindR (i_open_try I raw) (\<lambda>_. Inr ())
      | ConnectionOpenAck raw \<Rightarrow> bindR (i_open_ack I raw) (\<lambda>_. Inr ())
      | ConnectionOpenConfirm raw \<Rightarrow> bindR (i_open_confirm I raw) (\<lambda>_. Inr ())
      | _ \<Rightarrow> Inr ())"

section \<open>Stateful checks\<close>

definition verify_connection_proofs ::
  "ibc_ext \<Rightarrow> jmt \<Rightarrow> client_id \<Rightarrow> ibc_proofs \<Rightarrow> any_client_state \<Rightarrow> connection_id \<Rightarrow> counterparty \<Rightarrow> connection_end \<Rightarrow> unit result" where
  "verify_connection_proofs I j c proofs msg_client_state cp_conn cp expected =
     bindR (get_client_data j c) (\<lambda>d.
     (let st = cd_client_state d in
      bindR (ensure (Err ''client is frozen'') (\<not> i_is_frozen I st)) (\<lambda>_.
      bindR (get_verified_consensus_state j (pr_height proofs) c) (\<lambda>cs.
      bindR (i_verify_connection_state I st (pr_height proofs) (cp_prefix cp) (pr_object proofs) (i_root I cs) cp_conn expected) (\<lambda>_.
      bindR (ok_or (Err ''client proof not provided in the connectionOpenTry'') (pr_client proofs)) (\<lambda>client_proof.
      bindR (i_verify_client_full_state I st (pr_height proofs) (cp_prefix cp) client_proof (i_root I cs)
               (cp_client_id cp) msg_client_state) (\<lambda>_.
      bindR (ok_or (Err ''consensus proof not provided in the connectionOpenTry'') (pr_consensus proofs)) (\<lambda>(cons_proof, cons_height).
      bindR (get_penumbra_consensus_state j cons_height) (\<lambda>expected_consensus.
      i_verify_client_consensus_state I st (pr_height proofs) (cp_prefix cp) cons_proof (i_root I cs)
        (cp_client_id cp) cons_height expected_consensus)))))))))"

definition check_consensus_height :: "ibc_ext \<Rightarrow> jmt \<Rightarrow> ibc_proofs \<Rightarrow> unit result" where
  "check_consensus_height I j proofs =
     bindR (get_block_height j) (\<lambda>h.
     ensure (Err ''consensus height is greater than the current block height'')
       (\<not> Height 0 h < i_consensus_height I proofs))"

definition check_client_state :: "ibc_ext \<Rightarrow> jmt \<Rightarrow> any_client_state option \<Rightarrow> any_client_state result" where
  "check_client_state I j st =
     bindR (ok_or (Err ''client state not provided in MsgConnectionOpenTry'') st) (\<lambda>provided.
     bindR (get_block_height j) (\<lambda>height.
     bindR (get_chain_id j) (\<lambda>cid.
     bindR (validate_penumbra_client_state I provided cid height) (\<lambda>_. Inr provided))))"

definition validate_connection_open_try :: "ibc_ext \<Rightarrow> jmt \<Rightarrow> msg_open_try \<Rightarrow> unit result" where
  "validate_connection_open_try I j msg =
     bindR (check_consensus_height I j (ot_proofs msg)) (\<lambda>_.
     bindR (check_client_state I j (ot_client_state msg)) (\<lambda>provided.
     bindR (case ot_previous_connection_id msg of
              None \<Rightarrow> Inr None
            | Some k \<Rightarrow>
                bindR (ok_or (Err ''no connection with the given ID'') (get_connection j k)) (\<lambda>prev.
                bindR (ensure (Err ''connection with the given ID is not in the correct state'')
                         (ce_state prev = ConnInit \<and> ce_counterparty prev = ot_counterparty msg
                          \<and> ce_client_id prev = ot_client_id msg \<and> ce_delay_period prev = ot_delay_period msg)) (\<lambda>_.
                Inr (Some prev)))) (\<lambda>previous.
     (let expected = \<lparr>ce_state = ConnInit, ce_client_id = cp_client_id (ot_counterparty msg),
            ce_counterparty = \<lparr>cp_client_id = ot_client_id msg, cp_connection_id = None, cp_prefix = COMMITMENT_PREFIX\<rparr>,
            ce_versions = ot_counterparty_versions msg, ce_delay_period = ot_delay_period msg\<rparr>;
          supported = (case previous of Some prev \<Rightarrow> ce_versions prev | None \<Rightarrow> SUPPORTED_VERSIONS I) in
      bindR (i_pick_version I supported (ot_counterparty_versions msg)) (\<lambda>_.
      bindR (ok_or (Err ''connection id for counterparty not provided'') (cp_connection_id (ot_counterparty msg))) (\<lambda>cp_conn.
      verify_connection_proofs I j (ot_client_id msg) (ot_proofs msg) provided cp_conn (ot_counterparty msg) expected))))))"

definition validate_connection_open_ack :: "ibc_ext \<Rightarrow> jmt \<Rightarrow> msg_open_ack \<Rightarrow> unit result" where
  "validate_connection_open_ack I j msg =
     bindR (check_consensus_height I j (oa_proofs msg)) (\<lambda>_.
     bindR (check_client_state I j (oa_client_state msg)) (\<lambda>provided.
     bindR (ok_or (Err ''no connection with the given ID'') (get_connection j (oa_connection_id msg))) (\<lambda>conn.
     bindR (ensure (Err ''connection is not in the correct state'')
              (ce_state conn = ConnInit \<and> oa_version msg \<in> set (ce_versions conn)
               \<or> ce_state conn = ConnTryOpen \<and> ce_versions conn \<noteq> [] \<and> hd (ce_versions conn) = oa_version msg)) (\<lambda>_.
     (let cp = \<lparr>cp_client_id = ce_client_id conn, cp_connection_id = Some (oa_counterparty_connection_id msg),
                cp_prefix = COMMITMENT_PREFIX\<rparr>;
          expected = \<lparr>ce_state = ConnTryOpen, ce_client_id = cp_client_id (ce_counterparty conn),
            ce_counterparty = cp, ce_versions = [oa_version msg], ce_delay_period = ce_delay_period conn\<rparr> in
      verify_connection_proofs I j (ce_client_id conn) (oa_proofs msg) provided
        (oa_counterparty_connection_id msg) cp expected)))))"

definition validate_connection_open_confirm :: "ibc_ext \<Rightarrow> jmt \<Rightarrow> msg_open_confirm \<Rightarrow> unit result" where
  "validate_connection_open_confirm I j msg =
     bindR (ok_or (Err ''no connection with the given ID'') (get_connection j (oc_connection_id msg))) (\<lambda>conn.
     bindR (ensure (Err ''connection is not in the correct state'') (ce_state conn = ConnTryOpen)) (\<lambda>_.
     (let expected = \<lparr>ce_state = ConnOpen, ce_client_id = cp_client_id (ce_counterparty conn),
            ce_counterparty = \<lparr>cp_client_id = ce_client_id conn, cp_connection_id = Some (oc_connection_id msg),
                               cp_prefix = COMMITMENT_PREFIX\<rparr>,
            ce_versions = ce_versions conn, ce_delay_period = ce_delay_period conn\<rparr> in
      bindR (get_client_data j (ce_client_id conn)) (\<lambda>d.
      bindR (ensure (Err ''client is frozen'') (\<not> i_is_frozen I (cd_client_state d))) (\<lambda>_.
      bindR (get_verified_consensus_state j (pr_height (oc_proofs msg)) (ce_client_id conn)) (\<lambda>cs.
      bindR (ok_or (Err ''invalid counterparty'') (cp_connection_id (ce_counterparty conn))) (\<lambda>cp_conn.
      i_verify_connection_state I (cd_client_state d) (pr_height (oc_proofs msg)) (cp_prefix (ce_counterparty conn))
        (pr_object (oc_proofs msg)) (i_root I cs) cp_conn expected)))))))"

definition connection_check_stateful :: "ibc_ext \<Rightarrow> jmt \<Rightarrow> ibc_action \<Rightarrow> unit result" where
  "connection_check_stateful I j a =
     (case a of
        ConnectionOpenInit raw \<Rightarrow>
          bindR (i_open_init I raw) (\<lambda>msg. bindR (get_client_data j (oi_client_id msg)) (\<lambda>_. Inr ()))
      | ConnectionOpenTry raw \<Rightarrow> bindR (i_open_try I raw) (validate_connection_open_try I j)
      | ConnectionOpenAck raw \<Rightarrow> bindR (i_open_ack I raw) (validate_connection_open_ack I j)
      | ConnectionOpenConfirm raw \<Rightarrow> bindR (i_open_confirm I raw) (validate_connection_open_confirm I j)
      | _ \<Rightarrow> Inr ())"

section \<open>Execution\<close>

definition execute_connection_open_init :: "ibc_ext \<Rightarrow> msg_open_init \<Rightarrow> jmt \<Rightarrow> jmt result" where
  "execute_connection_open_init I msg j =
     (let k = i_connection_id I (get_connection_counter j);
          conn = \<lparr>ce_state = ConnInit, ce_client_id = oi_client_id msg, ce_counterparty = oi_counterparty msg,
                  ce_versions = [i_default_version I], ce_delay_period = oi_delay_period msg\<rparr>
      in unwrapR (put_new_connection k conn j))"

definition execute_connection_open_try :: "ibc_ext \<Rightarrow> msg_open_try \<Rightarrow> jmt \<Rightarrow> jmt result" where
  "execute_connection_open_try I msg j =
     bindR (unwrapR (i_pick_version I (SUPPORTED_VERSIONS I) (ot_counterparty_versions msg))) (\<lambda>v.
     (let conn = \<lparr>ce_state = ConnTryOpen, ce_client_id = ot_client_id msg, ce_counterparty = ot_counterparty msg,
                  ce_versions = [v], ce_delay_period = ot_delay_period msg\<rparr>;
          k = (case ot_previous_connection_id msg of
                 Some prev \<Rightarrow> prev | None \<Rightarrow> i_connection_id I (get_connection_counter j))
      in unwrapR (put_new_connection k conn j)))"

definition execute_connection_open_ack :: "msg_open_ack \<Rightarrow> jmt \<Rightarrow> jmt result" where
  "execute_connection_open_ack msg j =
     bindR (ok_or (Panic ''called unwrap on a None value'') (get_connection j (oa_connection_id msg))) (\<lambda>conn.
     (let cp = (ce_counterparty conn)\<lparr>cp_connection_id := Some (oa_connection_id msg)\<rparr>;
          conn = conn\<lparr>ce_state := ConnOpen, ce_versions := [oa_version msg], ce_counterparty := cp\<rparr>
      in Inr (update_connection (oa_connection_id msg) conn j)))"

definition execute_connection_open_confirm :: "msg_open_confirm \<Rightarrow> jmt \<Rightarrow> jmt result" where
  "execute_connection_open_confirm msg j =
     bindR (ok_or (Panic ''no connection with the given ID'') (get_connection j (oc_connection_id msg))) (\<lambda>conn.
     Inr (update_connection (oc_connection_id msg) (conn\<lparr>ce_state := ConnOpen\<rparr>) j))"

definition connection_execute_action :: "ibc_ext \<Rightarrow> ibc_action \<Rightarrow> jmt \<Rightarrow> jmt result" where
  "connection_execute_action I a j =
     (case a of
        ConnectionOpenInit raw \<Rightarrow> bindR (unwrapR (i_open_init I raw)) (\<lambda>msg. execute_connection_open_init I msg j)
      | ConnectionOpenTry raw \<Rightarrow> bindR (unwrapR (i_open_try I raw)) (\<lambda>msg. execute_connection_open_try I msg j)
      | ConnectionOpenAck raw \<Rightarrow> bindR (unwrapR (i_open_ack I raw)) (\<lambda>msg. execute_connection_open_ack msg j)
      | ConnectionOpenConfirm raw \<Rightarrow> bindR (unwrapR (i_open_confirm I raw)) (\<lambda>msg. execute_connection_open_confirm msg j)
      | _ \<Rightarrow> Inr j)"

section \<open>The bundled component\<close>

text \<open>
  The component keeps one flag of its own, \<open>enabled\<close>, which the constructor clears and only
  \<open>init_chain\<close> sets.
\<close>

definition ibc_new_enabled :: bool where
  "ibc_new_enabled = False"

definition ibc_init_chain :: "app_state \<Rightarrow> jmt \<Rightarrow> bool \<times> jmt" where
  "ibc_init_chain app j = (ibc_enabled (as_chain_params app), client_init_chain j)"

definition ibc_check_tx_stateless :: "ibc_ext \<Rightarrow> transaction \<Rightarrow> unit result" where
  "ibc_check_tx_stateless I tx =
     bindR (client_check_stateless I (ibc_actions tx)) (\<lambda>_.
     foldR (\<lambda>a _. connection_check_stateless I a) (ibc_actions tx) ())"

definition ibc_check_tx_stateful :: "ibc_ext \<Rightarrow> bool \<Rightarrow> transaction \<Rightarrow> jmt \<Rightarrow> unit result" where
  "ibc_check_tx_stateful I enabled tx j =
     bindR (ensure (Err ''transaction contains IBC actions, but IBC is not enabled'')
              (\<not> (0 < length (ibc_actions tx) \<and> \<not> enabled))) (\<lambda>_.
     bindR (client_check_stateful I j (ibc_actions tx)) (\<lambda>_.
     foldR (\<lambda>a _. connection_check_stateful I j a) (ibc_actions tx) ()))"

definition ibc_execute_tx :: "ibc_ext \<Rightarrow> transaction \<Rightarrow> jmt \<Rightarrow> jmt result" where
  "ibc_execute_tx I tx j =
     bindR (foldR (client_execute_action I) (ibc_actions tx) j) (\<lambda>j.
     foldR (connection_execute_action I) (ibc_actions tx) j)"

section \<open>The handshake\<close>

text \<open>The life of one connection, from absent to open.\<close>

inductive conn_step :: "connection_end option \<Rightarrow> connection_end option \<Rightarrow> bool" where
  stay: "conn_step c c"
| open_init: "ce_state d = ConnInit \<Longrightarrow> conn_step None (Some d)"
| open_try: "ce_state d = ConnTryOpen \<Longrightarrow> conn_step None (Some d)"
| retry: "ce_state c = ConnInit \<Longrightarrow> ce_state d = ConnTryOpen \<Longrightarrow> ce_client_id d = ce_client_id c \<Longrightarrow> conn_step (Some c) (Some d)"
| to_open: "ce_state c \<in> {ConnInit, ConnTryOpen} \<Longrightarrow> ce_state d = ConnOpen \<Longrightarrow> ce_client_id d = ce_client_id c \<Longrightarrow> conn_step (Some c) (Some d)"

inductive_cases conn_step_SomeE: "conn_step (Some c) d"

lemma conn_step_open: "conn_step (Some c) d \<Longrightarrow> ce_state c = ConnOpen \<Longrightarrow> d = Some c"
  by (erule conn_step_SomeE) auto

lemma conn_steps_open: "conn_step\<^sup>*\<^sup>* (Some c) d \<Longrightarrow> ce_state c = ConnOpen \<Longrightarrow> d = Some c"
  by (induction rule: rtranclp_induct) (auto dest: conn_step_open)

definition connection_ids_inj :: "ibc_ext \<Rightarrow> bool" where
  "connection_ids_inj I \<longleftrightarrow> (\<forall>n m. i_connection_id I n = i_connection_id I m \<longrightarrow> n = m)"

definition connections_fresh :: "ibc_ext \<Rightarrow> jmt \<Rightarrow> bool" where
  "connections_fresh I j \<longleftrightarrow> (\<forall>n. get_connection_counter j \<le> n \<longrightarrow> get_connection j (i_connection_id I n) = None)"

lemma put_new_connection_Inr:
  assumes "put_new_connection k conn j = Inr j'"
  shows "get_connection j' = (get_connection j)(k \<mapsto> conn)" and "get_connection_counter j' = get_connection_counter j + 1"
  using assms
  by (auto simp: put_new_connection_def add_connection_to_client_def get_connection_def fun_eq_iff
      put_connection_counter_def get_connection_counter_def result_simps Let_def)

lemma update_connection_simps [simp]:
  "get_connection (update_connection k conn j) = (get_connection j)(k \<mapsto> conn)"
  "get_connection_counter (update_connection k conn j) = get_connection_counter j"
  by (auto simp: update_connection_def get_connection_def get_connection_counter_def fun_eq_iff)

lemma connections_fresh_put:
  assumes "connections_fresh I j" and "connection_ids_inj I" and "unat (get_connection_counter j) + 1 < 2 ^ 64"
    and "put_new_connection k conn j = Inr j'" and "k = i_connection_id I (get_connection_counter j) \<or> get_connection j k \<noteq> None"
  shows "connections_fresh I j'"
  unfolding connections_fresh_def
proof (intro allI impI)
  let ?n = "get_connection_counter j"
  fix m assume "get_connection_counter j' \<le> m"
  then have m: "?n + 1 \<le> m" using put_new_connection_Inr(2) [OF assms(4)] by simp
  have "?n < ?n + 1" using assms(3) unat_plus_exact [of ?n 1] by (simp add: word_less_nat_alt)
  with m have lt: "?n < m" by simp
  then have none: "get_connection j (i_connection_id I m) = None"
    using assms(1) less_imp_le unfolding connections_fresh_def by blast
  have "i_connection_id I m \<noteq> k"
  proof
    assume e: "i_connection_id I m = k"
    with assms(5) none have "i_connection_id I m = i_connection_id I ?n" by auto
    then have "m = ?n" using assms(2) unfolding connection_ids_inj_def by blast
    with lt show False by simp
  qed
  then show "get_connection j' (i_connection_id I m) = None"
    using none put_new_connection_Inr(1) [OF assms(4)] by simp
qed

section \<open>Properties\<close>

text \<open>
  C27: the connection handshake.  Executing an IBC action that passed the stateful check moves every
  connection along the handshake: a new connection starts in \<open>Init\<close> or \<open>TryOpen\<close> under an unused
  identifier, one in \<open>Init\<close> or \<open>TryOpen\<close> may become open for the same client, and an open
  connection never changes.  Unused identifiers stay unused.
\<close>

theorem connection_handshake:
  assumes "connection_check_stateful I j a = Inr ()" and "connection_execute_action I a j = Inr j'"
    and "connections_fresh I j" and "connection_ids_inj I" and "unat (get_connection_counter j) + 1 < 2 ^ 64"
  shows "(\<forall>k. conn_step (get_connection j k) (get_connection j' k)) \<and> connections_fresh I j'"
proof (cases a)
  case (ConnectionOpenInit raw)
  let ?k = "i_connection_id I (get_connection_counter j)"
  from ConnectionOpenInit assms(2) obtain conn where p: "put_new_connection ?k conn j = Inr j'" "ce_state conn = ConnInit"
    by (auto simp: connection_execute_action_def execute_connection_open_init_def result_simps Let_def)
  have "get_connection j ?k = None" using assms(3) by (simp add: connections_fresh_def)
  then show ?thesis
    using put_new_connection_Inr(1) [OF p(1)] p(2) connections_fresh_put [OF assms(3,4,5) p(1)]
    by (auto intro: conn_step.intros)
next
  case (ConnectionOpenTry raw)
  then obtain msg where msg: "i_open_try I raw = Inr msg" "validate_connection_open_try I j msg = Inr ()"
    using assms(1) by (auto simp: connection_check_stateful_def result_simps)
  define k where "k = (case ot_previous_connection_id msg of Some prev \<Rightarrow> prev | None \<Rightarrow> i_connection_id I (get_connection_counter j))"
  from ConnectionOpenTry msg(1) assms(2) obtain conn where p: "put_new_connection k conn j = Inr j'"
    "ce_state conn = ConnTryOpen" "ce_client_id conn = ot_client_id msg"
    by (auto simp: connection_execute_action_def execute_connection_open_try_def result_simps Let_def k_def)
  have k: "k = i_connection_id I (get_connection_counter j) \<and> get_connection j k = None
    \<or> (\<exists>prev. get_connection j k = Some prev \<and> ce_state prev = ConnInit \<and> ce_client_id prev = ot_client_id msg)"
  proof (cases "ot_previous_connection_id msg")
    case None
    then show ?thesis using assms(3) by (simp add: k_def connections_fresh_def)
  next
    case (Some prev)
    then show ?thesis using msg(2)
      by (auto simp: validate_connection_open_try_def result_simps k_def Let_def)
  qed
  have "conn_step (get_connection j k) (Some conn)"
    using k p(2,3) by (auto intro!: conn_step.open_try conn_step.retry)
  then show ?thesis
    using put_new_connection_Inr(1) [OF p(1)] connections_fresh_put [OF assms(3,4,5) p(1)] k
    by (auto intro: conn_step.stay)
next
  case (ConnectionOpenAck raw)
  then obtain msg conn where msg: "i_open_ack I raw = Inr msg" "get_connection j (oa_connection_id msg) = Some conn"
    "ce_state conn = ConnInit \<or> ce_state conn = ConnTryOpen"
    using assms(1) by (auto simp: connection_check_stateful_def validate_connection_open_ack_def result_simps)
  with ConnectionOpenAck assms(2) obtain conn' where j': "j' = update_connection (oa_connection_id msg) conn' j"
    "ce_state conn' = ConnOpen" "ce_client_id conn' = ce_client_id conn"
    by (auto simp: connection_execute_action_def execute_connection_open_ack_def result_simps Let_def)
  then show ?thesis using msg assms(3)
    by (auto simp: connections_fresh_def intro: conn_step.intros)
next
  case (ConnectionOpenConfirm raw)
  then obtain msg conn where msg: "i_open_confirm I raw = Inr msg" "get_connection j (oc_connection_id msg) = Some conn"
    "ce_state conn = ConnTryOpen"
    using assms(1) by (auto simp: connection_check_stateful_def validate_connection_open_confirm_def result_simps)
  with ConnectionOpenConfirm assms(2) have j': "j' = update_connection (oc_connection_id msg) (conn\<lparr>ce_state := ConnOpen\<rparr>) j"
    by (auto simp: connection_execute_action_def execute_connection_open_confirm_def result_simps)
  then show ?thesis using msg assms(3)
    by (auto simp: connections_fresh_def intro: conn_step.intros)
qed (use assms(2,3) in \<open>auto simp: connection_execute_action_def intro: conn_step.stay\<close>)

text \<open>
  after a \<open>ConnectionOpenAck\<close> the counterparty recorded in the connection carries this
  chain's own connection identifier, not the counterparty's identifier that the message proved:
  the code passes \<open>msg.connection_id\<close> where \<open>msg.counterparty_connection_id\<close> was verified.
\<close>

theorem open_ack_counterparty:
  assumes "execute_connection_open_ack msg j = Inr j'"
  shows "\<exists>conn. get_connection j' (oa_connection_id msg) = Some conn \<and> ce_state conn = ConnOpen
    \<and> cp_connection_id (ce_counterparty conn) = Some (oa_connection_id msg)"
  using assms by (auto simp: execute_connection_open_ack_def result_simps Let_def)

text \<open>
  the client component's stateless check stops at the first action of another kind: with a
  connection action in front, a client message that fails to decode passes the check (the code
  returns from the loop instead of continuing), and execution would then panic on it.
\<close>

theorem client_check_skips_rest:
  assumes "i_create I raw = Inl (Err e)"
  shows "client_check_stateless I (ConnectionOpenConfirm m # CreateClient raw # rest) = Inr ()
    \<and> client_execute_action I (CreateClient raw) j = Inl (Panic e)"
  using assms by (simp add: client_execute_action_def)

end
