(* ===== verification/Component.thy ===== *)
theory Component
  imports Staking_Inv Shielded_Pool IBC_Connection
begin

text \<open>
  The interface of \<open>component/src/lib.rs\<close>: a component acts on the shared state at the start of
  a block, for each transaction and at the end.  The locale \<open>block_component\<close> states it with
  a relation that every operation respects; its lemmas give the relation for whole blocks.  The
  interpretations below show which data the components leave to each other.
\<close>

section \<open>The contract\<close>

locale block_component =
  fixes begin_block :: "'r \<Rightarrow> 's \<Rightarrow> 's result"
    and execute_tx :: "'t \<Rightarrow> 's \<Rightarrow> 's result"
    and end_block :: "'h \<Rightarrow> 's \<Rightarrow> 's result"
    and rel :: "'s \<Rightarrow> 's \<Rightarrow> bool"
  assumes rel_refl: "rel s s"
    and rel_trans: "rel s t \<Longrightarrow> rel t u \<Longrightarrow> rel s u"
    and begin_rel: "begin_block r s = Inr s' \<Longrightarrow> rel s s'"
    and execute_rel: "execute_tx tx s = Inr s' \<Longrightarrow> rel s s'"
    and end_rel: "end_block h s = Inr s' \<Longrightarrow> rel s s'"
begin

lemma execute_all_rel: "foldR execute_tx txs s = Inr s' \<Longrightarrow> rel s s'"
  by (induction txs arbitrary: s) (auto simp: result_simps intro: rel_refl rel_trans dest: execute_rel)

lemma block_rel:
  "bindR (begin_block r s) (\<lambda>s. bindR (foldR execute_tx txs s) (end_block h)) = Inr s' \<Longrightarrow> rel s s'"
  by (auto simp: result_simps dest!: begin_rel execute_all_rel end_rel intro: rel_trans)

end

section \<open>What belongs to whom\<close>

definition pool_part ::
  "jmt \<Rightarrow> (note_commitment \<rightharpoonup> note_source) \<times> (u64 \<rightharpoonup> compact_block) \<times> (u64 \<rightharpoonup> merkle_root)
     \<times> (merkle_root \<rightharpoonup> u64) \<times> (nullifier \<rightharpoonup> u8 list) \<times> note_commitment list option" where
  "pool_part j = (j_note_source j, j_compact_block j, j_nct_anchor j, j_valid_anchors j, j_spent_nullifiers j, j_nct_data j)"

definition staking_part :: "jmt \<Rightarrow> jmt" where
  "staking_part j = empty_jmt\<lparr>j_cur_base_rate := j_cur_base_rate j, j_next_base_rate := j_next_base_rate j,
     j_validator := j_validator j, j_cur_rate := j_cur_rate j, j_next_rate := j_next_rate j, j_power := j_power j,
     j_state := j_state j, j_consensus_key := j_consensus_key j, j_validator_list := j_validator_list j,
     j_delegation_changes := j_delegation_changes j, j_uptime := j_uptime j, j_commission := j_commission j\<rparr>"

definition chain_part :: "jmt \<Rightarrow> app_state option \<times> chain_params option \<times> u64 option \<times> ibc_time option" where
  "chain_part j = (j_genesis_app_state j, j_chain_params j, j_block_height j, j_block_timestamp j)"

text \<open>
  The index of consensus keys is listed among the data of the others: no operation of the staking
  component writes it.
\<close>

definition others :: "jmt \<Rightarrow> _" where
  "others j = (pool_part j, chain_part j, j_ibc j, j_consensus_key j)"

lemma others_update_token_supply: "update_token_supply a c j = Inr j' \<Longrightarrow> others j' = others j"
  by (auto simp: others_def pool_part_def chain_part_def dest!: update_token_supply_frame)

lemma others_register_denom: "others (register_denom X d j) = others j"
  using register_denom_frame [of X d j] by (auto simp: others_def pool_part_def chain_part_def)

lemma others_simps:
  "others (set_validator_rates v r r' j) = others j"
  "others (set_base_rates b b' j) = others j"
  "others (set_validator_uptime v u j) = others j"
  "others (set_delegation_changes h c j) = others j"
  "others (set_commission_amounts h cs j) = others j"
  "others (set_validator_list l j) = others j"
  "others (j\<lparr>j_validator := m1\<rparr>) = others j" "others (j\<lparr>j_state := m2\<rparr>) = others j" "others (j\<lparr>j_power := m3\<rparr>) = others j"
  by (simp_all add: others_def pool_part_def chain_part_def staking_view_defs set_commission_amounts_def)

lemma others_set_validator_state: "set_validator_state v st j = Inr j' \<Longrightarrow> others j' = others j"
  by (auto simp: set_validator_state_Inr others_simps)

lemma others_set_validator_power: "set_validator_power v p j = Inr j' \<Longrightarrow> others j' = others j"
  by (auto simp: set_validator_power_Inr others_simps)

lemma others_view_add: "view_add_validator X v a b st p j = Inr j' \<Longrightarrow> others j' = others j"
  by (auto simp: view_add_validator_def result_simps Let_def set_validator_power_Inr others_simps others_register_denom)

lemma others_slash: "slash_validator d p s = Inr s' \<Longrightarrow> others (sk_jmt s') = others (sk_jmt s)"
  by (auto simp: slash_validator_Inr view_slash_Inr others_simps)

lemma others_track_validator:
  "track_validator X h p votes v s = Inr s' \<Longrightarrow> others (sk_jmt s') = others (sk_jmt s)"
  by (auto simp: result_simps others_simps track_validator_def Let_def split: if_splits dest: others_slash)

lemma others_track: "track_uptime X votes s = Inr s' \<Longrightarrow> others (sk_jmt s') = others (sk_jmt s)"
  by (auto simp: track_uptime_def result_simps dest!: foldR_frame [where g = "\<lambda>s. others (sk_jmt s)"]
      others_track_validator)

lemma others_begin_block:
  assumes "staking_begin_block X req s = Inr s'"
  shows "others (sk_jmt s') = others (sk_jmt s)"
proof -
  from assms obtain t where t: "foldR (\<lambda>ev s. unwrapR (slash_validator_by_evidence X ev s)) (bb_byzantine_validators req) s = Inr t"
    "track_uptime X (bb_last_commit_votes req) t = Inr s'"
    by (auto simp: staking_begin_block_def result_simps)
  have "others (sk_jmt t) = others (sk_jmt s)"
    by (rule foldR_frame [OF t(1)]) (auto simp: slash_validator_by_evidence_def result_simps dest: others_slash)
  with others_track [OF t(2)] show ?thesis by simp
qed

lemma others_execute_definition:
  "execute_definition X e dpb s = Inr s' \<Longrightarrow> others (sk_jmt s') = others (sk_jmt s)"
  by (auto simp: execute_definition_def result_simps Let_def add_validator_def update_validator_def others_simps
      split: if_splits dest: others_view_add)

lemma others_execute_tx:
  assumes "staking_execute_tx X tx s = Inr s'"
  shows "others (sk_jmt s') = others (sk_jmt s)"
proof -
  from assms obtain e where l: "foldR (execute_definition X e) (validator_definitions tx)
      (s\<lparr>sk_delegation_changes := fold queue_action (actions tx) (sk_delegation_changes s)\<rparr>) = Inr s'"
    by (auto simp: staking_execute_tx_def Let_def result_simps)
  have "others (sk_jmt s') = others (sk_jmt (s\<lparr>sk_delegation_changes := fold queue_action (actions tx) (sk_delegation_changes s)\<rparr>))"
    by (rule foldR_frame [OF l]) (rule others_execute_definition)
  then show ?thesis by simp
qed

lemma others_transition:
  assumes "transition_validator e n tops vp s = Inr s'"
  shows "others (sk_jmt s') = others (sk_jmt s)"
proof -
  from assms obtain t where t: "(case vp_state vp of
          Active \<Rightarrow> if vp_identity_key vp \<notin> set tops then displace_validator (ep_index e + n) vp s else retain_validator vp s
        | Slashed \<Rightarrow> Inr s
        | _ \<Rightarrow> if vp_identity_key vp \<in> set tops then activate_validator vp s else Inr s) = Inr t"
    and x: "expire_unbonding e vp t = Inr s'"
    unfolding transition_validator_def bindR_Inr_iff by blast
  have o: "others (j\<lparr>j_state := a, j_uptime := b\<rparr>) = others j" "others (j\<lparr>j_power := a', j_state := a\<rparr>) = others j" for j a a' b
    by (simp_all add: others_def pool_part_def chain_part_def)
  have "others (sk_jmt t) = others (sk_jmt s)"
    using t by (auto simp: o split: validator_state.splits if_splits
        dest!: activate_validator_Inr displace_validator_Inr retain_validator_Inr)
  moreover have "others (sk_jmt s') = others (sk_jmt t)"
    using expire_unbonding_Inr [OF x] by (auto simp: others_simps split: if_splits)
  ultimately show ?thesis by simp
qed

lemma others_end_epoch:
  assumes "end_epoch X e s = Inr s'"
  shows "others (sk_jmt s') = others (sk_jmt s)"
proof -
  from assms obtain ch cb nb j1 cs limit n s1 h vps where
    l: "foldR (end_epoch_validator X e ch cb nb) (validator_list (set_base_rates cb nb (sk_jmt s)))
      (set_base_rates cb nb (sk_jmt s), []) = Inr (j1, cs)"
    and p: "foldR (transition_validator e n (top_validators limit vps)) vps (s\<lparr>sk_jmt := j1\<rparr>) = Inr s1"
    and s': "sk_jmt s' = set_commission_amounts h cs (sk_jmt s1)"
    by (auto simp: end_epoch_def process_epoch_transitions_def result_simps Let_def split: prod.splits)
  have o: "others (j\<lparr>j_token_supply := x, j_cur_rate := a, j_next_rate := b, j_power := c\<rparr>) = others j" for j x a b c
    by (simp add: others_def pool_part_def chain_part_def)
  have "others (fst (j1, cs)) = others (fst (set_base_rates cb nb (sk_jmt s), [] :: commission_amount list))"
    by (rule foldR_frame [OF l, where g = "\<lambda>jc. others (fst jc)"]) (auto simp: o dest!: end_epoch_validator_Inr)
  moreover have "others (sk_jmt s1) = others (sk_jmt (s\<lparr>sk_jmt := j1\<rparr>))"
    by (rule foldR_frame [OF p]) (rule others_transition)
  ultimately show ?thesis by (simp add: s' others_simps)
qed

lemma others_end_block:
  "staking_end_block X h s = Inr s' \<Longrightarrow> others (sk_jmt s') = others (sk_jmt s)"
  by (auto simp: staking_end_block_def result_simps Let_def others_simps split: if_splits dest!: others_end_epoch)

text \<open>The staking component leaves the pool's, the chain's and IBC's data alone.\<close>

interpretation staking_run: block_component "staking_begin_block X" "staking_execute_tx X" "staking_end_block X"
  "\<lambda>s s'. others (sk_jmt s') = others (sk_jmt s)" for X
  by unfold_locales (simp_all add: others_begin_block others_execute_tx others_end_block)

section \<open>The pool\<close>

definition outside_pool :: "jmt \<Rightarrow> _" where
  "outside_pool j = (staking_part j, chain_part j, j_ibc j)"

lemma outside_pool_simps:
  "outside_pool (set_note_source c s j) = outside_pool j"
  "outside_pool (spend_nullifier nf s j) = outside_pool j"
  "outside_pool (set_compact_block b j) = outside_pool j"
  "outside_pool (set_nct_anchor h r j) = outside_pool j"
  "outside_pool (j\<lparr>j_nct_data := t\<rparr>) = outside_pool j"
  by (simp_all add: outside_pool_def staking_part_def chain_part_def pool_view_defs)

lemma outside_pool_supply: "update_token_supply a c j = Inr j' \<Longrightarrow> outside_pool j' = outside_pool j"
  by (auto simp: outside_pool_def staking_part_def chain_part_def dest!: update_token_supply_frame)

lemma outside_pool_execute: "outside_pool (sp_jmt (pool_execute_tx X tx s)) = outside_pool (sp_jmt s)"
  using pool_execute_tx_spec [of X tx s] by (auto simp: outside_pool_def staking_part_def chain_part_def)

lemma outside_pool_mint: "mint_note X am i ad src s = Inr s' \<Longrightarrow> outside_pool (sp_jmt s') = outside_pool (sp_jmt s)"
  by (auto elim!: mint_note_Inr simp: add_note_def outside_pool_simps dest: outside_pool_supply)

lemma outside_pool_init:
  assumes "pool_init_chain X st s = Inr s'"
  shows "outside_pool (sp_jmt s') = outside_pool (sp_jmt s)"
proof -
  from assms obtain s1 where l: "foldR (init_allocation X) (as_allocations st) s = Inr s1"
    and s': "s' = write_compactblock_and_nct X (s1\<lparr>sp_compact_block := (sp_compact_block s1)\<lparr>cb_height := 0\<rparr>\<rparr>)"
    by (auto simp: pool_init_chain_def result_simps)
  have r: "outside_pool (register_denom X d j) = outside_pool j" for d j
    by (simp add: register_denom_def Let_def outside_pool_def staking_part_def chain_part_def)
  have "outside_pool (sp_jmt s1) = outside_pool (sp_jmt s)"
    by (rule foldR_frame [OF l]) (auto simp: init_allocation_def result_simps r dest!: outside_pool_mint)
  then show ?thesis by (simp add: s' write_compactblock_and_nct_def put_nct_def Let_def outside_pool_simps)
qed

lemma outside_pool_end_block:
  assumes "pool_end_block X h s = Inr s'"
  shows "outside_pool (sp_jmt s') = outside_pool (sp_jmt s)"
proof -
  obtain src cms s1 where m: "mint_all X (staking_token_asset_id (x_crypto X)) src cms
        (s\<lparr>sp_compact_block := (sp_compact_block s)\<lparr>cb_height := h\<rparr>\<rparr>) = Inr s1"
    and s': "s' = write_compactblock_and_nct X s1"
    using pool_end_block_Inr [OF assms] by metis
  have "outside_pool (sp_jmt s1) = outside_pool (sp_jmt (s\<lparr>sp_compact_block := (sp_compact_block s)\<lparr>cb_height := h\<rparr>\<rparr>))"
    using m unfolding mint_all_def by (rule foldR_frame) (auto simp: result_simps dest: outside_pool_mint)
  then show ?thesis
    by (simp add: s' write_compactblock_and_nct_def put_nct_def Let_def outside_pool_simps)
qed

text \<open>The pool leaves the staking data, the chain data and IBC's data alone, and never unspends a nullifier.\<close>

definition spent_grows :: "jmt \<Rightarrow> jmt \<Rightarrow> bool" where
  "spent_grows j j' \<longleftrightarrow> (\<forall>nf. j_spent_nullifiers j nf \<noteq> None \<longrightarrow> j_spent_nullifiers j' nf \<noteq> None)"

lemma spent_grows_refl [simp]: "spent_grows j j"
  by (simp add: spent_grows_def)

lemma spent_grows_trans: "spent_grows a b \<Longrightarrow> spent_grows b c \<Longrightarrow> spent_grows a c"
  by (simp add: spent_grows_def)

lemma spent_end_block: "pool_end_block X h s = Inr s' \<Longrightarrow> j_spent_nullifiers (sp_jmt s') = j_spent_nullifiers (sp_jmt s)"
  by (erule pool_end_block_Inr) (auto simp: write_compactblock_spec dest!: mint_all_spec)

lemma spent_grows_end: "pool_end_block X h s = Inr s' \<Longrightarrow> spent_grows (sp_jmt s) (sp_jmt s')"
  by (simp add: spent_end_block spent_grows_def)

lemma spent_execute: "spent_grows (sp_jmt s) (sp_jmt (pool_execute_tx X tx s))"
  using pool_execute_tx_spec [of X tx s] by (auto simp: spent_grows_def)

interpretation pool_run: block_component "\<lambda>_. Inr" "\<lambda>tx s. Inr (pool_execute_tx X tx s)" "pool_end_block X"
  "\<lambda>s s'. outside_pool (sp_jmt s') = outside_pool (sp_jmt s) \<and> spent_grows (sp_jmt s) (sp_jmt s')" for X
  by unfold_locales
    (auto simp: outside_pool_execute outside_pool_end_block spent_execute
      intro: spent_grows_trans spent_grows_end)

section \<open>IBC\<close>

text \<open>The IBC operations change nothing but the state under \<open>ibc/\<close>.\<close>

lemma ibc_frames:
  "execute_create_client I msg j = Inr j' \<Longrightarrow> \<exists>b. j' = j\<lparr>j_ibc := b\<rparr>"
  "execute_update_client I umsg j = Inr j' \<Longrightarrow> \<exists>b. j' = j\<lparr>j_ibc := b\<rparr>"
  "put_new_connection k c j = Inr j' \<Longrightarrow> \<exists>b. j' = j\<lparr>j_ibc := b\<rparr>"
  by (auto simp: execute_create_client_def execute_update_client_def put_new_connection_def add_connection_to_client_def
      put_client_counter_def put_verified_consensus_state_def put_verified_heights_def put_client_data_def
      put_connection_counter_def result_simps Let_def)

definition outside_ibc :: "jmt \<Rightarrow> jmt" where
  "outside_ibc j = j\<lparr>j_ibc := empty_ibc_store\<rparr>"

lemma outside_ibc_client: "client_execute_action I a j = Inr j' \<Longrightarrow> outside_ibc j' = outside_ibc j"
  by (auto simp: client_execute_action_def outside_ibc_def result_simps split: ibc_action.splits dest!: ibc_frames)

lemma outside_ibc_connection: "connection_execute_action I a j = Inr j' \<Longrightarrow> outside_ibc j' = outside_ibc j"
  by (auto simp: connection_execute_action_def execute_connection_open_init_def execute_connection_open_try_def
      execute_connection_open_ack_def execute_connection_open_confirm_def update_connection_def
      outside_ibc_def result_simps Let_def split: ibc_action.splits dest!: ibc_frames)

lemma outside_ibc_execute:
  assumes "ibc_execute_tx I tx j = Inr j'"
  shows "outside_ibc j' = outside_ibc j"
proof -
  from assms obtain t where t: "foldR (client_execute_action I) (ibc_actions tx) j = Inr t"
    "foldR (connection_execute_action I) (ibc_actions tx) t = Inr j'"
    by (auto simp: ibc_execute_tx_def result_simps)
  have "outside_ibc t = outside_ibc j" by (rule foldR_frame [OF t(1)]) (rule outside_ibc_client)
  moreover have "outside_ibc j' = outside_ibc t" by (rule foldR_frame [OF t(2)]) (rule outside_ibc_connection)
  ultimately show ?thesis by simp
qed

lemma outside_ibc_begin: "outside_ibc (client_begin_block h a t n j) = outside_ibc j"
  by (simp add: client_begin_block_def put_penumbra_consensus_state_def outside_ibc_def)

interpretation ibc_run: block_component
  "\<lambda>req j. Inr (client_begin_block (bb_height req) (bb_app_hash req) (bb_time req) (bb_next_validators_hash req) j)"
  "ibc_execute_tx I" "\<lambda>_. Inr" "\<lambda>j j'. outside_ibc j' = outside_ibc j" for I
  by unfold_locales (auto simp: outside_ibc_execute outside_ibc_begin)

end
