(* ===== verification/App.thy ===== *)
theory App
  imports Component
begin

text \<open>
  The application (\<open>pd/src/components/app.rs\<close>), which runs the components one after the other over
  the shared state, and the consensus and mempool workers that drive it
  (\<open>pd/src/consensus/worker.rs\<close>, \<open>pd/src/mempool/worker.rs\<close>).
\<close>

section \<open>The application\<close>

record app =
  ap_jmt :: jmt
  ap_delegation_changes :: delegation_changes
  ap_tm_validator_updates :: "(public_key \<times> i64) list"
  ap_ibc_enabled :: bool
  ap_nct :: "note_commitment list"
  ap_compact_block :: compact_block

text \<open>Each component sees the shared state and its own fields.\<close>

definition staking_of :: "app \<Rightarrow> staking" where
  "staking_of a = \<lparr>sk_jmt = ap_jmt a, sk_delegation_changes = ap_delegation_changes a,
     sk_tm_validator_updates = ap_tm_validator_updates a\<rparr>"

definition put_staking :: "app \<Rightarrow> staking \<Rightarrow> app" where
  "put_staking a s = a\<lparr>ap_jmt := sk_jmt s, ap_delegation_changes := sk_delegation_changes s,
     ap_tm_validator_updates := sk_tm_validator_updates s\<rparr>"

definition pool_of :: "app \<Rightarrow> shielded_pool" where
  "pool_of a = \<lparr>sp_jmt = ap_jmt a, sp_nct = ap_nct a, sp_compact_block = ap_compact_block a\<rparr>"

definition put_pool :: "app \<Rightarrow> shielded_pool \<Rightarrow> app" where
  "put_pool a p = a\<lparr>ap_jmt := sp_jmt p, ap_nct := sp_nct p, ap_compact_block := sp_compact_block p\<rparr>"

definition run_staking :: "(staking \<Rightarrow> staking result) \<Rightarrow> app \<Rightarrow> app result" where
  "run_staking f a = bindR (f (staking_of a)) (\<lambda>s. Inr (put_staking a s))"

definition run_pool :: "(shielded_pool \<Rightarrow> shielded_pool result) \<Rightarrow> app \<Rightarrow> app result" where
  "run_pool f a = bindR (f (pool_of a)) (\<lambda>p. Inr (put_pool a p))"

definition app_new :: "jmt \<Rightarrow> app" where
  "app_new j =
     (let s = staking_new j; p = shielded_pool_new j in
      \<lparr>ap_jmt = j, ap_delegation_changes = sk_delegation_changes s,
       ap_tm_validator_updates = sk_tm_validator_updates s, ap_ibc_enabled = ibc_new_enabled,
       ap_nct = sp_nct p, ap_compact_block = sp_compact_block p\<rparr>)"

definition app_init_chain :: "ext \<Rightarrow> app_state \<Rightarrow> app \<Rightarrow> app result" where
  "app_init_chain X st a =
     (let j = put_chain_params (as_chain_params st) (ap_jmt a);
          j = j\<lparr>j_genesis_app_state := Some st\<rparr>;
          a = a\<lparr>ap_jmt := put_block_height 0 j\<rparr> in
      bindR (run_staking (staking_init_chain X st) a) (\<lambda>a.
      (let (enabled, j) = ibc_init_chain st (ap_jmt a); a = a\<lparr>ap_ibc_enabled := enabled, ap_jmt := j\<rparr> in
       run_pool (pool_init_chain X st) a)))"

definition app_begin_block :: "ext \<Rightarrow> begin_block_request \<Rightarrow> app \<Rightarrow> app result" where
  "app_begin_block X req a =
     (let a = a\<lparr>ap_jmt := put_block_timestamp (bb_time req) (put_block_height (bb_height req) (ap_jmt a))\<rparr> in
      bindR (run_staking (staking_begin_block X req) a) (\<lambda>a.
      Inr (a\<lparr>ap_jmt := client_begin_block (bb_height req) (bb_app_hash req) (bb_time req)
              (bb_next_validators_hash req) (ap_jmt a)\<rparr>)))"

definition app_check_tx_stateless :: "ext \<Rightarrow> ibc_ext \<Rightarrow> transaction \<Rightarrow> unit result" where
  "app_check_tx_stateless X I tx =
     bindR (staking_check_tx_stateless X tx) (\<lambda>_.
     bindR (ibc_check_tx_stateless I tx) (\<lambda>_.
     pool_check_tx_stateless X tx))"

definition app_check_tx_stateful :: "ext \<Rightarrow> ibc_ext \<Rightarrow> transaction \<Rightarrow> app \<Rightarrow> unit result" where
  "app_check_tx_stateful X I tx a =
     bindR (staking_check_tx_stateful X tx (ap_jmt a)) (\<lambda>_.
     bindR (ibc_check_tx_stateful I (ap_ibc_enabled a) tx (ap_jmt a)) (\<lambda>_.
     pool_check_tx_stateful tx (ap_jmt a)))"

definition app_execute_tx :: "ext \<Rightarrow> ibc_ext \<Rightarrow> transaction \<Rightarrow> app \<Rightarrow> app result" where
  "app_execute_tx X I tx a =
     bindR (run_staking (staking_execute_tx X tx) a) (\<lambda>a.
     bindR (ibc_execute_tx I tx (ap_jmt a)) (\<lambda>j.
     (let a = a\<lparr>ap_jmt := j\<rparr> in
      run_pool (\<lambda>p. Inr (pool_execute_tx X tx p)) a)))"

definition app_end_block :: "ext \<Rightarrow> i64 \<Rightarrow> app \<Rightarrow> app result" where
  "app_end_block X h a =
     bindR (run_staking (staking_end_block X h) a) (run_pool (pool_end_block X h))"

section \<open>The consensus worker\<close>

text \<open>
  \<open>w_committed\<close> is the state in the storage, \<open>None\<close> before the first commit.
\<close>

record worker =
  w_committed :: "jmt option"
  w_app :: app

definition worker_new :: "jmt option \<Rightarrow> worker" where
  "worker_new st = \<lparr>w_committed = st, w_app = app_new (case st of Some j \<Rightarrow> j | None \<Rightarrow> empty_jmt)\<rparr>"

definition app_commit :: "worker \<Rightarrow> worker" where
  "app_commit w = \<lparr>w_committed = Some (ap_jmt (w_app w)), w_app = app_new (ap_jmt (w_app w))\<rparr>"

definition worker_init_chain ::
  "ext \<Rightarrow> app_state \<Rightarrow> worker \<Rightarrow> (worker \<times> (public_key \<times> i64) list) result" where
  "worker_init_chain X st w =
     unwrapR (
       bindR (ensure (Err ''database already initialized'') (w_committed w = None)) (\<lambda>_.
       bindR (app_init_chain X st (w_app w)) (\<lambda>a.
       Inr (app_commit (w\<lparr>w_app := a\<rparr>), ap_tm_validator_updates a))))"

definition worker_begin_block :: "ext \<Rightarrow> begin_block_request \<Rightarrow> worker \<Rightarrow> worker result" where
  "worker_begin_block X req w = bindR (app_begin_block X req (w_app w)) (\<lambda>a. Inr (w\<lparr>w_app := a\<rparr>))"

text \<open>
  \<open>decode\<close> is the protobuf decoder of transactions.  The application is changed in place: the state that
  \<open>deliver_tx\<close> leaves is the one the node goes on with, also after an error.
\<close>

definition deliver_tx ::
  "ext \<Rightarrow> ibc_ext \<Rightarrow> (u8 list \<Rightarrow> transaction result) \<Rightarrow> u8 list \<Rightarrow> app \<Rightarrow> unit result \<times> app" where
  "deliver_tx X I decode bytes a =
     bindS (decode bytes, a) (\<lambda>tx a.
     bindS (app_check_tx_stateless X I tx, a) (\<lambda>_ a.
     bindS (app_check_tx_stateful X I tx a, a) (\<lambda>_ a.
     runS (app_execute_tx X I tx) a)))"

text \<open>The response to \<open>DeliverTx\<close>: an error becomes response code 1; a panic ends the node.\<close>

definition worker_deliver_tx ::
  "ext \<Rightarrow> ibc_ext \<Rightarrow> (u8 list \<Rightarrow> transaction result) \<Rightarrow> u8 list \<Rightarrow> worker \<Rightarrow> (worker \<times> bool) result" where
  "worker_deliver_tx X I decode bytes w =
     (let (r, a) = deliver_tx X I decode bytes (w_app w); w = w\<lparr>w_app := a\<rparr> in
      case r of
        Inr _ \<Rightarrow> Inr (w, True)
      | Inl (Err _) \<Rightarrow> Inr (w, False)
      | Inl (Panic m) \<Rightarrow> Inl (Panic m))"

definition worker_end_block :: "ext \<Rightarrow> i64 \<Rightarrow> worker \<Rightarrow> (worker \<times> (public_key \<times> i64) list) result" where
  "worker_end_block X h w =
     bindR (app_end_block X h (w_app w)) (\<lambda>a. Inr (w\<lparr>w_app := a\<rparr>, ap_tm_validator_updates a))"

definition worker_commit :: "worker \<Rightarrow> worker" where
  "worker_commit w = app_commit w"

section \<open>The mempool worker\<close>

record mempool_worker =
  m_app :: app

definition check_and_execute_tx ::
  "ext \<Rightarrow> ibc_ext \<Rightarrow> (u8 list \<Rightarrow> transaction result) \<Rightarrow> u8 list \<Rightarrow> mempool_worker \<Rightarrow> unit result \<times> mempool_worker" where
  "check_and_execute_tx X I decode bytes m =
     bindS (decode bytes, m) (\<lambda>tx m.
     bindS (app_check_tx_stateless X I tx, m) (\<lambda>_ m.
     bindS (app_check_tx_stateful X I tx (m_app m), m) (\<lambda>_ m.
     runS (\<lambda>m. bindR (app_execute_tx X I tx (m_app m)) (\<lambda>a. Inr (m\<lparr>m_app := a\<rparr>))) m)))"

definition mempool_height_changed :: "jmt \<Rightarrow> mempool_worker \<Rightarrow> mempool_worker" where
  "mempool_height_changed j m = m\<lparr>m_app := app_new j\<rparr>"

section \<open>Double spends\<close>

lemma others_spent: "others j' = others j \<Longrightarrow> j_spent_nullifiers j' = j_spent_nullifiers j"
  by (simp add: others_def pool_part_def)

lemma outside_ibc_select:
  assumes "outside_ibc j' = outside_ibc j"
  shows "j_spent_nullifiers j' = j_spent_nullifiers j" and "staking_part j' = staking_part j" and "chain_part j' = chain_part j"
proof -
  have "j_spent_nullifiers (outside_ibc k) = j_spent_nullifiers k" "staking_part (outside_ibc k) = staking_part k"
    "chain_part (outside_ibc k) = chain_part k" for k
    by (simp_all add: outside_ibc_def staking_part_def chain_part_def)
  then show "j_spent_nullifiers j' = j_spent_nullifiers j" "staking_part j' = staking_part j" "chain_part j' = chain_part j"
    using assms by metis+
qed

lemma app_execute_tx_Inr:
  assumes "app_execute_tx X I tx a = Inr a'"
  obtains s j where "staking_execute_tx X tx (staking_of a) = Inr s" and "ibc_execute_tx I tx (sk_jmt s) = Inr j"
    and "a' = put_pool ((put_staking a s)\<lparr>ap_jmt := j\<rparr>) (pool_execute_tx X tx (pool_of ((put_staking a s)\<lparr>ap_jmt := j\<rparr>)))"
  using assms
  by (auto simp: app_execute_tx_def run_staking_def run_pool_def result_simps Let_def put_staking_def)

lemma app_execute_spent:
  assumes "app_execute_tx X I tx a = Inr a'"
  shows "j_spent_nullifiers (ap_jmt a') nf \<noteq> None \<longleftrightarrow>
    nf \<in> set (spent_nullifiers tx) \<or> j_spent_nullifiers (ap_jmt a) nf \<noteq> None"
proof -
  obtain s j where s: "staking_execute_tx X tx (staking_of a) = Inr s" "ibc_execute_tx I tx (sk_jmt s) = Inr j"
    and a': "a' = put_pool ((put_staking a s)\<lparr>ap_jmt := j\<rparr>) (pool_execute_tx X tx (pool_of ((put_staking a s)\<lparr>ap_jmt := j\<rparr>)))"
    using app_execute_tx_Inr [OF assms] .
  have "j_spent_nullifiers j = j_spent_nullifiers (sk_jmt s)"
    using ibc_run.execute_rel [OF s(2)] by (rule outside_ibc_select)
  also have "\<dots> = j_spent_nullifiers (ap_jmt a)"
    using others_spent [OF staking_run.execute_rel [OF s(1)]] by (simp add: staking_of_def)
  finally have j: "j_spent_nullifiers j = j_spent_nullifiers (ap_jmt a)" .
  show ?thesis
    using pool_execute_tx_spec [of X tx "pool_of ((put_staking a s)\<lparr>ap_jmt := j\<rparr>)"]
    by (auto simp: a' put_pool_def pool_of_def j)
qed

lemma app_begin_spent:
  "app_begin_block X req a = Inr a' \<Longrightarrow> j_spent_nullifiers (ap_jmt a') = j_spent_nullifiers (ap_jmt a)"
  by (auto simp: app_begin_block_def run_staking_def result_simps Let_def put_staking_def staking_of_def
      client_begin_block_def put_penumbra_consensus_state_def chain_view_defs
      dest!: staking_run.begin_rel others_spent)

lemma app_end_spent:
  "app_end_block X h a = Inr a' \<Longrightarrow> j_spent_nullifiers (ap_jmt a') = j_spent_nullifiers (ap_jmt a)"
  by (auto simp: app_end_block_def run_staking_def run_pool_def result_simps put_staking_def staking_of_def
      put_pool_def pool_of_def dest!: spent_end_block staking_run.end_rel others_spent)

section \<open>Histories\<close>

text \<open>
  The requests Tendermint sends after genesis.  \<open>abci_step\<close> answers one and adds the transaction to
  the log of accepted ones if it was.
\<close>

datatype abci_request =
    BeginBlock begin_block_request
  | DeliverTx "u8 list"
  | EndBlock i64
  | Commit

definition abci_step ::
  "ext \<Rightarrow> ibc_ext \<Rightarrow> (u8 list \<Rightarrow> transaction result) \<Rightarrow> abci_request \<Rightarrow> worker \<times> transaction list \<Rightarrow> (worker \<times> transaction list) result" where
  "abci_step X I decode req wl =
     (let (w, log) = wl in
      case req of
        BeginBlock bb \<Rightarrow> bindR (worker_begin_block X bb w) (\<lambda>w. Inr (w, log))
      | DeliverTx bytes \<Rightarrow>
          bindR (worker_deliver_tx X I decode bytes w) (\<lambda>(w, ok).
          Inr (w, if ok then (case decode bytes of Inr tx \<Rightarrow> log @ [tx] | Inl _ \<Rightarrow> log) else log))
      | EndBlock h \<Rightarrow> bindR (worker_end_block X h w) (\<lambda>(w, _). Inr (w, log))
      | Commit \<Rightarrow> Inr (worker_commit w, log))"

text \<open>Execution has no error result: it returns or panics.\<close>

lemma unwrapped_fold_never_Err:
  assumes "\<And>x s. f x s \<noteq> Inl (Err m)"
  shows "foldR f xs s \<noteq> Inl (Err m)"
proof (induction xs arbitrary: s)
  case (Cons x xs)
  then show ?case using assms by (auto simp: result_simps)
qed simp

lemma unwrapR_Err [simp]: "unwrapR m = Inl (Err e) \<longleftrightarrow> False"
  using unwrapR_never_Err by blast

lemma app_execute_never_Err: "app_execute_tx X I tx a \<noteq> Inl (Err m)"
proof -
  have "execute_definition X e dpb s \<noteq> Inl (Err m)" for e dpb s
    by (auto simp: execute_definition_def Let_def result_simps split_def split: if_splits)
  then have "foldR (execute_definition X e) dpbs s \<noteq> Inl (Err m)" for e dpbs s
    by (rule unwrapped_fold_never_Err)
  then have "staking_execute_tx X tx s \<noteq> Inl (Err m)" for s
    by (auto simp: staking_execute_tx_def Let_def result_simps)
  moreover have "next_tendermint_state I j c trusted header \<noteq> Inl (Err m)" for j c trusted header
    by (auto simp: next_tendermint_state_def frozen_update_def result_simps split: if_splits sum.splits option.splits)
  then have "client_execute_action I x j \<noteq> Inl (Err m)" for x j
    by (cases x) (auto simp: client_execute_action_def execute_create_client_def execute_update_client_def
        Let_def result_simps split_def split: any_client_state.splits any_header.splits)
  moreover have "connection_execute_action I x j \<noteq> Inl (Err m)" for x j
    by (cases x) (auto simp: connection_execute_action_def execute_connection_open_init_def execute_connection_open_try_def
        execute_connection_open_ack_def execute_connection_open_confirm_def Let_def result_simps)
  ultimately show ?thesis
    using unwrapped_fold_never_Err [of "client_execute_action I" m] unwrapped_fold_never_Err [of "connection_execute_action I" m]
    by (auto simp: app_execute_tx_def run_staking_def run_pool_def ibc_execute_tx_def Let_def result_simps)
qed

lemma deliver_tx_cases:
  obtains (executed) tx a' where "decode bytes = Inr tx" "app_check_tx_stateless X I tx = Inr ()"
      "app_check_tx_stateful X I tx a = Inr ()" "app_execute_tx X I tx a = Inr a'" "deliver_tx X I decode bytes a = (Inr (), a')"
    | (refused) m where "deliver_tx X I decode bytes a = (Inl (Err m), a)"
    | (panicked) m a' where "deliver_tx X I decode bytes a = (Inl (Panic m), a')"
proof (cases "deliver_tx X I decode bytes a")
  case (Pair r a')
  consider "\<exists>tx. decode bytes = Inr tx \<and> app_check_tx_stateless X I tx = Inr () \<and> app_check_tx_stateful X I tx a = Inr ()"
    | e where "deliver_tx X I decode bytes a = (Inl e, a)"
    unfolding deliver_tx_def
    by (cases "decode bytes"; cases "app_check_tx_stateless X I (projr (decode bytes))"; cases "app_check_tx_stateful X I (projr (decode bytes)) a") auto
  then show ?thesis
  proof cases
    case 1
    then obtain tx where tx: "decode bytes = Inr tx" "app_check_tx_stateless X I tx = Inr ()" "app_check_tx_stateful X I tx a = Inr ()" by blast
    then have d: "deliver_tx X I decode bytes a = runS (app_execute_tx X I tx) a" by (simp add: deliver_tx_def)
    show ?thesis
    proof (cases "app_execute_tx X I tx a")
      case (Inr b)
      with tx d show ?thesis by (intro executed) simp_all
    next
      case (Inl e)
      then obtain m where "e = Panic m" using app_execute_never_Err by (cases e) blast+
      with Inl d show ?thesis by (intro panicked) simp
    qed
  next
    case 2
    then show ?thesis using refused panicked by (cases e) blast+
  qed
qed

lemma abci_stepE:
  assumes "abci_step X I decode req (w, log) = Inr (w', log')"
  obtains (begin_block) bb a where "app_begin_block X bb (w_app w) = Inr a" "w' = w\<lparr>w_app := a\<rparr>" "log' = log"
    | (accepted) tx a where "app_check_tx_stateless X I tx = Inr ()" "app_check_tx_stateful X I tx (w_app w) = Inr ()"
        "app_execute_tx X I tx (w_app w) = Inr a" "w' = w\<lparr>w_app := a\<rparr>" "log' = log @ [tx]"
    | (rejected) "w' = w" "log' = log"
    | (end_block) h a where "app_end_block X h (w_app w) = Inr a" "w' = w\<lparr>w_app := a\<rparr>" "log' = log"
    | (commit) "w' = app_commit w" "log' = log"
proof (cases req)
  case (BeginBlock bb)
  with assms begin_block show ?thesis by (auto simp: abci_step_def worker_begin_block_def result_simps)
next
  case (DeliverTx bytes)
  show ?thesis
  proof (rule deliver_tx_cases [of decode bytes X I "w_app w"])
    fix tx a assume "decode bytes = Inr tx" "app_check_tx_stateless X I tx = Inr ()" "app_check_tx_stateful X I tx (w_app w) = Inr ()"
      "app_execute_tx X I tx (w_app w) = Inr a" "deliver_tx X I decode bytes (w_app w) = (Inr (), a)"
    with assms DeliverTx show ?thesis by (intro accepted [of tx a]) (simp_all add: abci_step_def worker_deliver_tx_def)
  next
    fix m assume "deliver_tx X I decode bytes (w_app w) = (Inl (Err m), w_app w)"
    with assms DeliverTx show ?thesis by (intro rejected) (simp_all add: abci_step_def worker_deliver_tx_def)
  next
    fix m a assume "deliver_tx X I decode bytes (w_app w) = (Inl (Panic m), a)"
    with assms DeliverTx show ?thesis by (simp add: abci_step_def worker_deliver_tx_def)
  qed
next
  case (EndBlock h)
  with assms end_block show ?thesis by (auto simp: abci_step_def worker_end_block_def result_simps)
next
  case Commit
  with assms commit show ?thesis by (simp add: abci_step_def worker_commit_def)
qed

lemma ap_jmt_commit [simp]: "ap_jmt (w_app (app_commit w)) = ap_jmt (w_app w)"
  by (simp add: app_commit_def app_new_def Let_def)

text \<open>The nullifiers of the accepted transactions are distinct, and those and the initial ones are the spent ones.\<close>

definition log_ok :: "(nullifier \<rightharpoonup> u8 list) \<Rightarrow> worker \<times> transaction list \<Rightarrow> bool" where
  "log_ok n0 wl \<longleftrightarrow> (let (w, log) = wl; nfs = concat (map spent_nullifiers log) in
     distinct nfs \<and> (\<forall>nf \<in> set nfs. n0 nf = None)
     \<and> (\<forall>nf. j_spent_nullifiers (ap_jmt (w_app w)) nf \<noteq> None \<longleftrightarrow> nf \<in> set nfs \<or> n0 nf \<noteq> None))"

lemma log_ok_same:
  assumes "log_ok n0 (w, log)" and "j_spent_nullifiers (ap_jmt (w_app w')) = j_spent_nullifiers (ap_jmt (w_app w))"
  shows "log_ok n0 (w', log)"
  using assms by (simp add: log_ok_def)

lemma log_ok_deliver:
  assumes ok: "log_ok n0 (w, log)" and c: "app_check_tx_stateless X I tx = Inr ()"
    "app_check_tx_stateful X I tx (w_app w) = Inr ()" "app_execute_tx X I tx (w_app w) = Inr a"
  shows "log_ok n0 (w\<lparr>w_app := a\<rparr>, log @ [tx])"
proof -
  have dt: "distinct (spent_nullifiers tx)"
  proof -
    obtain seen where "foldR (check_action_stateless X tx) (actions tx) {} = Inr seen"
      using c(1) by (auto simp: app_check_tx_stateless_def pool_check_tx_stateless_def result_simps)
    from check_actions_nullifiers [OF this] show ?thesis by (simp add: spent_nullifiers_actions)
  qed
  have un: "\<forall>nf \<in> set (spent_nullifiers tx). j_spent_nullifiers (ap_jmt (w_app w)) nf = None"
    using c(2) by (auto simp: app_check_tx_stateful_def pool_check_tx_stateful_def result_simps check_nullifier_unspent_ok)
  define nfs where "nfs = concat (map spent_nullifiers log)"
  have nfs: "distinct nfs" "\<forall>nf \<in> set nfs. n0 nf = None"
    "\<And>nf. j_spent_nullifiers (ap_jmt (w_app w)) nf \<noteq> None \<longleftrightarrow> nf \<in> set nfs \<or> n0 nf \<noteq> None"
    using ok by (simp_all add: log_ok_def nfs_def)
  have new: "nf \<notin> set nfs \<and> n0 nf = None" if "nf \<in> set (spent_nullifiers tx)" for nf
    using un nfs(3) [of nf] that by auto
  have eq: "concat (map spent_nullifiers (log @ [tx])) = nfs @ spent_nullifiers tx" by (simp add: nfs_def)
  show ?thesis
    unfolding log_ok_def prod.case Let_def eq
  proof (intro conjI allI)
    show "distinct (nfs @ spent_nullifiers tx)" using dt nfs(1) new by auto
    show "\<forall>nf\<in>set (nfs @ spent_nullifiers tx). n0 nf = None" using nfs(2) new by auto
    show "j_spent_nullifiers (ap_jmt (w_app (w\<lparr>w_app := a\<rparr>))) nf \<noteq> None \<longleftrightarrow>
      nf \<in> set (nfs @ spent_nullifiers tx) \<or> n0 nf \<noteq> None" for nf
      using app_execute_spent [OF c(3), of nf] nfs(3) [of nf] by (simp del: not_None_eq) blast
  qed
qed

lemma log_ok_step:
  assumes ok: "log_ok n0 (w, log)" and st: "abci_step X I decode req (w, log) = Inr (w', log')"
  shows "log_ok n0 (w', log')"
  using st
proof (cases rule: abci_stepE)
  case (begin_block bb a)
  with ok show ?thesis using log_ok_same app_begin_spent by fastforce
next
  case (accepted tx a)
  with ok show ?thesis using log_ok_deliver by blast
next
  case rejected
  with ok show ?thesis by simp
next
  case (end_block h a)
  with ok show ?thesis using log_ok_same app_end_spent by fastforce
next
  case commit
  with ok show ?thesis using log_ok_same by fastforce
qed

section \<open>The staking invariant over blocks\<close>

lemma staking_ok_part:
  assumes "staking_part j' = staking_part j"
  shows "staking_ok i h j' = staking_ok i h j"
proof -
  have "staking_ok i h (staking_part k) = staking_ok i h k" for k
    by (rule staking_ok_cong) (simp_all add: staking_part_def)
  then show ?thesis using assms by metis
qed

text \<open>The state while block \<open>h\<close> is processed, with votes recorded up to \<open>u\<close>.\<close>

definition in_block :: "chain_params \<Rightarrow> u64 \<Rightarrow> u64 \<Rightarrow> jmt \<Rightarrow> bool" where
  "in_block params h u j \<longleftrightarrow> staking_ok (h div epoch_duration params) u j
     \<and> j_block_height j = Some h \<and> j_chain_params j = Some params"

lemma in_block_cong:
  assumes "staking_part j' = staking_part j" and "chain_part j' = chain_part j"
  shows "in_block params h u j' = in_block params h u j"
  using assms staking_ok_part [OF assms(1)] by (auto simp: in_block_def chain_part_def)

lemma others_chain_part: "others j' = others j \<Longrightarrow> j_block_height j' = j_block_height j \<and> j_chain_params j' = j_chain_params j"
  by (simp add: others_def chain_part_def)

lemma app_begin_in_block:
  assumes "app_begin_block X req a = Inr a'" and "bb_byzantine_validators req = []" and "bb_height req = h + 1"
    and "staking_ok ((h + 1) div epoch_duration params) h (ap_jmt a)" and "j_chain_params (ap_jmt a) = Some params"
  shows "in_block params (h + 1) (h + 1) (ap_jmt a')"
proof -
  let ?j = "put_block_timestamp (bb_time req) (put_block_height (h + 1) (ap_jmt a))"
  let ?s = "staking_of (a\<lparr>ap_jmt := ?j\<rparr>)"
  from assms(1,2,3) obtain s where s: "track_uptime X (bb_last_commit_votes req) ?s = Inr s"
    and a': "ap_jmt a' = client_begin_block (h + 1) (bb_app_hash req) (bb_time req) (bb_next_validators_hash req) (sk_jmt s)"
    by (auto simp: app_begin_block_def run_staking_def staking_begin_block_def result_simps Let_def put_staking_def)
  have "staking_ok ((h + 1) div epoch_duration params) ((h + 1) - 1) (sk_jmt ?s)"
    using assms(4) staking_ok_part [of ?j "ap_jmt a"] by (simp add: staking_of_def staking_part_def chain_view_defs)
  moreover have "j_block_height (sk_jmt ?s) = Some (h + 1)" "j_chain_params (sk_jmt ?s) = Some params"
    using assms(5) by (simp_all add: staking_of_def chain_view_defs)
  ultimately have "in_block params (h + 1) (h + 1) (sk_jmt s)"
    using track_uptime_ok [of _ "h + 1" ?s params X "bb_last_commit_votes req"] s by (auto simp: in_block_def)
  moreover have "outside_ibc (ap_jmt a') = outside_ibc (sk_jmt s)" by (simp add: a' outside_ibc_begin)
  ultimately show ?thesis using in_block_cong outside_ibc_select(2,3) by metis
qed

lemma app_execute_in_block:
  assumes "app_execute_tx X I tx a = Inr a'" and ib: "in_block params h u (ap_jmt a)" and d: "epoch_duration params \<noteq> 0"
  shows "in_block params h u (ap_jmt a')"
proof -
  obtain s j where s: "staking_execute_tx X tx (staking_of a) = Inr s" "ibc_execute_tx I tx (sk_jmt s) = Inr j"
    and a': "a' = put_pool ((put_staking a s)\<lparr>ap_jmt := j\<rparr>) (pool_execute_tx X tx (pool_of ((put_staking a s)\<lparr>ap_jmt := j\<rparr>)))"
    using app_execute_tx_Inr [OF assms(1)] .
  let ?e = "\<lparr>ep_index = h div epoch_duration params, ep_duration = epoch_duration params\<rparr>"
  let ?s = "(staking_of a)\<lparr>sk_delegation_changes := fold queue_action (actions tx) (sk_delegation_changes (staking_of a))\<rparr>"
  have "get_current_epoch (sk_jmt ?s) = Inr ?e"
    using ib d by (intro get_current_epoch_at) (simp_all add: in_block_def staking_of_def)
  then have l: "foldR (execute_definition X ?e) (validator_definitions tx) ?s = Inr s"
    using s(1) by (simp add: staking_execute_tx_def Let_def)
  have "staking_ok (ep_index ?e) u (sk_jmt s)"
  proof (rule foldR_inv [OF l, where P = "\<lambda>t. staking_ok (ep_index ?e) u (sk_jmt t)"])
    show "staking_ok (ep_index ?e) u (sk_jmt ?s)" using ib by (simp add: in_block_def staking_of_def)
  qed (rule staking_ok_execute_definition)
  moreover have "others (sk_jmt s) = others (ap_jmt a)"
    using staking_run.execute_rel [OF s(1)] by (simp add: staking_of_def)
  note oc = others_chain_part [OF this]
  ultimately have "in_block params h u (sk_jmt s)" using ib oc by (simp add: in_block_def)
  then have "in_block params h u j"
    using in_block_cong outside_ibc_select(2,3) [OF ibc_run.execute_rel [OF s(2)]] by metis
  moreover have "ap_jmt a' = sp_jmt (pool_execute_tx X tx (pool_of ((put_staking a s)\<lparr>ap_jmt := j\<rparr>)))"
    by (simp add: a' put_pool_def)
  then have "outside_pool (ap_jmt a') = outside_pool j" using outside_pool_execute by (simp add: pool_of_def)
  then have "staking_part (ap_jmt a') = staking_part j" "chain_part (ap_jmt a') = chain_part j"
    by (simp_all add: outside_pool_def)
  ultimately show ?thesis using in_block_cong by blast
qed

lemma app_end_next_block:
  assumes "app_end_block X h a = Inr a'" and ib: "in_block params h h (ap_jmt a)" and "epoch_duration params \<noteq> 0"
    and "signed_blocks_window_len params \<noteq> 0" and "height_conv_ok (x_height X)"
    and "unat h + unat (epoch_duration params) < 2 ^ 63"
  shows "staking_ok ((h + 1) div epoch_duration params) h (ap_jmt a')"
    and "j_block_height (ap_jmt a') = Some h" and "j_chain_params (ap_jmt a') = Some params"
proof -
  from assms(1) obtain s p where s: "staking_end_block X h (staking_of a) = Inr s"
    and p: "pool_end_block X h (pool_of (put_staking a s)) = Inr p" and a': "ap_jmt a' = sp_jmt p"
    by (auto simp: app_end_block_def run_staking_def run_pool_def result_simps put_pool_def)
  have "staking_ok ((h + 1) div epoch_duration params) h (sk_jmt s)"
    using ib by (intro staking_end_block_ok [OF _ _ _ assms(3-6) s]) (simp_all add: in_block_def staking_of_def)
  moreover have o: "outside_pool (ap_jmt a') = outside_pool (sk_jmt s)"
    using outside_pool_end_block [OF p] by (simp add: a' pool_of_def put_staking_def)
  moreover from o have "staking_part (ap_jmt a') = staking_part (sk_jmt s)" by (simp add: outside_pool_def)
  ultimately show "staking_ok ((h + 1) div epoch_duration params) h (ap_jmt a')"
    using staking_ok_part by blast
  have "others (sk_jmt s) = others (ap_jmt a)" using staking_run.end_rel [OF s] by (simp add: staking_of_def)
  from others_chain_part [OF this] show "j_block_height (ap_jmt a') = Some h" "j_chain_params (ap_jmt a') = Some params"
    using o ib by (simp_all add: outside_pool_def chain_part_def in_block_def)
qed

lemma checked_tx_executes:
  assumes ib: "in_block params h u (ap_jmt a)" and "epoch_duration params \<noteq> 0" and "\<not> ap_ibc_enabled a"
    and "app_check_tx_stateless X I tx = Inr ()" and "app_check_tx_stateful X I tx a = Inr ()"
  shows "\<exists>a'. app_execute_tx X I tx a = Inr a'"
proof -
  have "ibc_actions tx = []"
    using assms(3,5) by (auto simp: app_check_tx_stateful_def ibc_check_tx_stateful_def result_simps)
  then have "ibc_execute_tx I tx j = Inr j" for j by (simp add: ibc_execute_tx_def)
  moreover have "\<exists>s'. staking_execute_tx X tx (staking_of a) = Inr s'"
    using staking_execute_ok [of h params u "staking_of a" X tx] ib assms(2,4)
    by (auto simp: in_block_def staking_of_def app_check_tx_stateless_def result_simps)
  ultimately show ?thesis by (auto simp: app_execute_tx_def run_staking_def run_pool_def Let_def)
qed

section \<open>Evidence\<close>

text \<open>The index of consensus keys is not written by any component.\<close>

lemma consensus_key_frames:
  "others j' = others j \<Longrightarrow> j_consensus_key j' = j_consensus_key j"
  "outside_pool j' = outside_pool j \<Longrightarrow> j_consensus_key j' = j_consensus_key j"
  "outside_ibc j' = outside_ibc j \<Longrightarrow> j_consensus_key j' = j_consensus_key j"
proof -
  have "j_consensus_key (staking_part k) = j_consensus_key k" for k by (simp add: staking_part_def)
  then have part: "staking_part j' = staking_part j \<Longrightarrow> j_consensus_key j' = j_consensus_key j" by metis
  show "others j' = others j \<Longrightarrow> j_consensus_key j' = j_consensus_key j" by (simp add: others_def)
  show "outside_pool j' = outside_pool j \<Longrightarrow> j_consensus_key j' = j_consensus_key j"
    by (rule part) (simp add: outside_pool_def)
  show "outside_ibc j' = outside_ibc j \<Longrightarrow> j_consensus_key j' = j_consensus_key j"
    by (rule part) (rule outside_ibc_select)
qed

lemma app_begin_consensus_key:
  "app_begin_block X req a = Inr a' \<Longrightarrow> j_consensus_key (ap_jmt a') = j_consensus_key (ap_jmt a)"
  by (auto simp: app_begin_block_def run_staking_def result_simps Let_def put_staking_def staking_of_def chain_view_defs
      client_begin_block_def put_penumbra_consensus_state_def dest!: staking_run.begin_rel consensus_key_frames(1))

lemma app_execute_consensus_key:
  assumes "app_execute_tx X I tx a = Inr a'"
  shows "j_consensus_key (ap_jmt a') = j_consensus_key (ap_jmt a)"
proof -
  obtain s j where s: "staking_execute_tx X tx (staking_of a) = Inr s" "ibc_execute_tx I tx (sk_jmt s) = Inr j"
    and a': "a' = put_pool ((put_staking a s)\<lparr>ap_jmt := j\<rparr>) (pool_execute_tx X tx (pool_of ((put_staking a s)\<lparr>ap_jmt := j\<rparr>)))"
    using app_execute_tx_Inr [OF assms] .
  have "j_consensus_key (ap_jmt a') = j_consensus_key j"
    using consensus_key_frames(2) [OF outside_pool_execute] by (simp add: a' put_pool_def pool_of_def)
  also have "\<dots> = j_consensus_key (sk_jmt s)" by (rule consensus_key_frames(3) [OF ibc_run.execute_rel [OF s(2)]])
  also have "\<dots> = j_consensus_key (ap_jmt a)"
    using consensus_key_frames(1) [OF staking_run.execute_rel [OF s(1)]] by (simp add: staking_of_def)
  finally show ?thesis .
qed

lemma app_end_consensus_key:
  assumes "app_end_block X h a = Inr a'"
  shows "j_consensus_key (ap_jmt a') = j_consensus_key (ap_jmt a)"
proof -
  from assms obtain s p where s: "staking_end_block X h (staking_of a) = Inr s"
    and p: "pool_end_block X h (pool_of (put_staking a s)) = Inr p" and a': "ap_jmt a' = sp_jmt p"
    by (auto simp: app_end_block_def run_staking_def run_pool_def result_simps put_pool_def)
  then show ?thesis
    using consensus_key_frames(2) [OF outside_pool_end_block [OF p]] consensus_key_frames(1) [OF staking_run.end_rel [OF s]]
    by (simp add: pool_of_def put_staking_def staking_of_def)
qed

lemma no_consensus_key_step:
  assumes "abci_step X I decode req (w, log) = Inr (w', log')" and "j_consensus_key (ap_jmt (w_app w)) = Map.empty"
  shows "j_consensus_key (ap_jmt (w_app w')) = Map.empty"
  using assms(1)
  by (cases rule: abci_stepE)
    (use assms(2) app_begin_consensus_key app_execute_consensus_key app_end_consensus_key in \<open>fastforce+\<close>)

section \<open>Properties\<close>

text \<open>
  C1: no note is spent twice.  Over any sequence of ABCI requests that the node answers without
  crashing, in any order and across any number of blocks and commits, the nullifiers revealed by
  the accepted transactions are pairwise distinct, none of them was spent before, and each is
  recorded as spent at the end.
\<close>

theorem no_double_spend:
  assumes "foldR (abci_step X I decode) reqs (w0, []) = Inr (w, log)"
  shows "distinct (concat (map spent_nullifiers log))
    \<and> (\<forall>nf \<in> set (concat (map spent_nullifiers log)). j_spent_nullifiers (ap_jmt (w_app w0)) nf = None
         \<and> j_spent_nullifiers (ap_jmt (w_app w)) nf \<noteq> None)"
proof -
  let ?n0 = "j_spent_nullifiers (ap_jmt (w_app w0))"
  have "log_ok ?n0 (w0, [])" by (simp add: log_ok_def)
  then have "log_ok ?n0 (w, log)"
    by (rule foldR_inv [OF assms, where P = "log_ok ?n0"]) (use log_ok_step in \<open>auto simp: split_paired_all\<close>)
  then show ?thesis by (auto simp: log_ok_def Let_def)
qed

text \<open>
  C24: \<open>DeliverTx\<close> is all or nothing.  Take a block in progress whose staking data is consistent, with IBC disabled (as it
  always is after the first commit).  If the bytes decode and the transaction passes the stateless and the stateful
  checks, its execution succeeds in every component, the transaction is accepted and the staking data is consistent again.
  If the decoder or one of the checks returns an error, the answer is an error code and the state that the node goes on with
  is the one it had.  The request panics only if the decoder or a check does.
\<close>

theorem rejected_tx_no_effect:
  assumes "in_block params h u (ap_jmt (w_app w))" and "epoch_duration params \<noteq> 0" and "\<not> ap_ibc_enabled (w_app w)"
    and "r = bindR (decode bytes) (\<lambda>tx. bindR (app_check_tx_stateless X I tx) (\<lambda>_.
      bindR (app_check_tx_stateful X I tx (w_app w)) (\<lambda>_. Inr tx)))"
  shows "case r of
      Inr tx \<Rightarrow> \<exists>a. app_execute_tx X I tx (w_app w) = Inr a \<and> in_block params h u (ap_jmt a)
        \<and> worker_deliver_tx X I decode bytes w = Inr (w\<lparr>w_app := a\<rparr>, True)
    | Inl (Err m) \<Rightarrow> worker_deliver_tx X I decode bytes w = Inr (w, False)
    | Inl (Panic m) \<Rightarrow> worker_deliver_tx X I decode bytes w = Inl (Panic m)"
proof (cases r)
  case (Inr tx)
  then have c: "decode bytes = Inr tx" "app_check_tx_stateless X I tx = Inr ()" "app_check_tx_stateful X I tx (w_app w) = Inr ()"
    using assms(4) by (auto simp: result_simps)
  from checked_tx_executes [OF assms(1-3) c(2,3)] obtain a where a: "app_execute_tx X I tx (w_app w) = Inr a" by blast
  moreover from app_execute_in_block [OF a assms(1,2)] have "in_block params h u (ap_jmt a)" .
  ultimately show ?thesis using c unfolding Inr by (simp add: worker_deliver_tx_def deliver_tx_def)
next
  case (Inl e)
  then have "deliver_tx X I decode bytes (w_app w) = (Inl e, w_app w)"
    using assms(4) unfolding deliver_tx_def
    by (cases "decode bytes"; cases "app_check_tx_stateless X I (projr (decode bytes))") (auto simp: result_simps)
  then show ?thesis unfolding Inl by (cases e) (simp_all add: worker_deliver_tx_def)
qed

text \<open>
  C20: genesis establishes the staking invariant.  If a node without state answers \<open>InitChain\<close>, with distinct
  identity keys of the genesis validators and an uptime window that is not empty, then the state it commits has height
  0 and the genesis parameters, its staking data is complete and consistent for epoch 0 with no votes missing,
  the validators are the genesis validators in order, and the delegation changes of block 0 are recorded as empty.
\<close>

theorem genesis_staking_ok:
  assumes "worker_init_chain X st (worker_new None) = Inr (w, updates)"
    and "signed_blocks_window_len (as_chain_params st) \<noteq> 0" and "distinct (genesis_keys X (as_validators st))"
  shows "\<exists>j. w_committed w = Some j \<and> w_app w = app_new j \<and> j_block_height j = Some 0 \<and> j_chain_params j = Some (as_chain_params st)
    \<and> staking_ok 0 0 j \<and> validator_list j = genesis_keys X (as_validators st) \<and> j_delegation_changes j 0 = Some no_changes"
proof -
  let ?j = "put_block_height 0 ((put_chain_params (as_chain_params st) empty_jmt)\<lparr>j_genesis_app_state := Some st\<rparr>)"
  have new: "staking_of ((app_new empty_jmt)\<lparr>ap_jmt := ?j\<rparr>) = staking_new ?j"
    by (simp add: staking_of_def app_new_def staking_new_def Let_def)
  from assms(1) obtain a where a: "app_init_chain X st (app_new empty_jmt) = Inr a"
    and w: "w = app_commit ((worker_new None)\<lparr>w_app := a\<rparr>)"
    by (auto simp: worker_init_chain_def worker_new_def result_simps)
  have e: "ap_jmt (app_new empty_jmt) = empty_jmt" by (simp add: app_new_def Let_def)
  let ?b = "\<lambda>s. (app_new empty_jmt)\<lparr>ap_delegation_changes := sk_delegation_changes s, ap_tm_validator_updates := sk_tm_validator_updates s,
      ap_ibc_enabled := ibc_enabled (as_chain_params st), ap_jmt := client_init_chain (sk_jmt s)\<rparr>"
  from a obtain s where s: "staking_init_chain X st (staking_new ?j) = Inr s"
    and p: "run_pool (pool_init_chain X st) (?b s) = Inr a"
    by (auto simp: app_init_chain_def run_staking_def ibc_init_chain_def e new result_simps Let_def put_staking_def)
  have ok: "staking_ok 0 0 (sk_jmt s)" "validator_list (sk_jmt s) = genesis_keys X (as_validators st)"
    "j_delegation_changes (sk_jmt s) 0 = Some no_changes" "j_chain_params (sk_jmt s) = Some (as_chain_params st)" "j_block_height (sk_jmt s) = Some 0"
    using staking_init_ok [OF s _ _ _ assms(2,3)] by (simp_all add: no_staking_data_def chain_view_defs empty_jmt_def)
  obtain p' where p': "pool_init_chain X st (pool_of (?b s)) = Inr p'" "ap_jmt a = sp_jmt p'"
    using p by (auto simp: run_pool_def result_simps put_pool_def)
  have "outside_pool (ap_jmt a) = outside_pool (client_init_chain (sk_jmt s))"
    using outside_pool_init [OF p'(1)] by (simp add: p'(2) pool_of_def)
  then have "staking_part (ap_jmt a) = staking_part (sk_jmt s)" "chain_part (ap_jmt a) = chain_part (sk_jmt s)"
    by (simp_all add: outside_pool_def client_init_chain_def put_client_counter_def staking_part_def chain_part_def)
  moreover from this have "validator_list (ap_jmt a) = validator_list (sk_jmt s)" "j_delegation_changes (ap_jmt a) = j_delegation_changes (sk_jmt s)"
    by (simp_all add: staking_part_def validator_list_def empty_jmt_def)
  ultimately show ?thesis using ok staking_ok_part [of "ap_jmt a" "sk_jmt s"] by (simp add: w app_commit_def chain_part_def)
qed

text \<open>
  C2: the staking data stays consistent from block to block.  Take a committed state of height
  \<open>h\<close> whose staking data is consistent for the epoch of block \<open>h + 1\<close>.  If the node answers
  \<open>BeginBlock\<close> for \<open>h + 1\<close> (without evidence), any list of \<open>DeliverTx\<close> requests, \<open>EndBlock\<close>
  and \<open>Commit\<close>, the committed state has height \<open>h + 1\<close> and is consistent for the epoch of block
  \<open>h + 2\<close>.
\<close>

theorem block_keeps_staking_ok:
  assumes "bindR (worker_begin_block X req w) (\<lambda>w.
      bindR (foldR (abci_step X I decode) (map DeliverTx txs) (w, [])) (\<lambda>(w, log).
      bindR (worker_end_block X (h + 1) w) (\<lambda>(w, updates). Inr (worker_commit w)))) = Inr w'"
    and "bb_byzantine_validators req = []" and "bb_height req = h + 1"
    and "staking_ok ((h + 1) div epoch_duration params) h (ap_jmt (w_app w))" and "j_chain_params (ap_jmt (w_app w)) = Some params"
    and "epoch_duration params \<noteq> 0" and "signed_blocks_window_len params \<noteq> 0" and "height_conv_ok (x_height X)"
    and "unat (h + 1) + unat (epoch_duration params) < 2 ^ 63"
  shows "\<exists>j. w_committed w' = Some j \<and> j_block_height j = Some (h + 1) \<and> j_chain_params j = Some params
    \<and> staking_ok ((h + 1 + 1) div epoch_duration params) (h + 1) j \<and> w_app w' = app_new j"
proof -
  from assms(1) obtain a1 w2 log a3 where a1: "app_begin_block X req (w_app w) = Inr a1"
    and l: "foldR (abci_step X I decode) (map DeliverTx txs) (w\<lparr>w_app := a1\<rparr>, []) = Inr (w2, log)"
    and a3: "app_end_block X (h + 1) (w_app w2) = Inr a3" and w': "w' = app_commit (w2\<lparr>w_app := a3\<rparr>)"
    by (auto simp: worker_begin_block_def worker_end_block_def worker_commit_def result_simps)
  let ?P = "\<lambda>wl. in_block params (h + 1) (h + 1) (ap_jmt (w_app (fst wl)))"
  have "?P (w2, log)"
  proof (rule foldR_inv [OF l, where P = ?P])
    show "?P (w\<lparr>w_app := a1\<rparr>, [])" using app_begin_in_block [OF a1 assms(2,3,4,5)] by simp
    fix req wl wl' assume r: "req \<in> set (map DeliverTx txs)" and P: "?P wl" and st: "abci_step X I decode req wl = Inr wl'"
    obtain v lg where wl: "wl = (v, lg)" by (cases wl)
    obtain bytes where b: "req = DeliverTx bytes" using r by auto
    show "?P wl'"
    proof (rule deliver_tx_cases [of decode bytes X I "w_app v"])
      fix tx a assume tx: "app_execute_tx X I tx (w_app v) = Inr a" and d: "deliver_tx X I decode bytes (w_app v) = (Inr (), a)"
      have "in_block params (h + 1) (h + 1) (ap_jmt a)"
        using P wl by (intro app_execute_in_block [OF tx _ assms(6)]) simp
      then show ?thesis using st b wl d by (auto simp: abci_step_def worker_deliver_tx_def)
    qed (use st b wl P in \<open>auto simp: abci_step_def worker_deliver_tx_def\<close>)
  qed
  then have "in_block params (h + 1) (h + 1) (ap_jmt (w_app w2))" by simp
  from app_end_next_block [OF a3 this assms(6-9)] show ?thesis
    by (simp add: w' app_commit_def)
qed

text \<open>
  IBC is switched off by the first commit.  \<open>App::commit\<close> rebuilds the components, and the IBC
  component's constructor clears the flag that only \<open>init_chain\<close> sets; so after any commit a
  transaction with an IBC action fails the stateful check, whatever the chain parameters say.
\<close>

lemma ibc_disabled_after_commit:
  assumes "ibc_actions tx \<noteq> []"
  shows "app_check_tx_stateful X I tx (w_app (worker_commit w)) \<noteq> Inr ()"
  using assms by (auto simp: app_check_tx_stateful_def ibc_check_tx_stateful_def worker_commit_def app_commit_def
      app_new_def ibc_new_enabled_def result_simps Let_def)

text \<open>
  C40: evidence of misbehaviour stops the node.  The index from consensus keys to validators is read
  when evidence arrives but no operation ever writes it; so on every state reached from one in which
  it is empty (as at genesis), \<open>BeginBlock\<close> with at least one piece of evidence panics.
\<close>

theorem evidence_panics:
  assumes "foldR (abci_step X I decode) reqs (w0, []) = Inr (w, log)" and "j_consensus_key (ap_jmt (w_app w0)) = Map.empty"
    and "bb_byzantine_validators req = ev # evs"
  shows "\<exists>m. worker_begin_block X req w = Inl (Panic m)"
proof -
  have "j_consensus_key (ap_jmt (w_app (fst (w, log)))) = Map.empty"
    by (rule foldR_inv [OF assms(1), where P = "\<lambda>wl. j_consensus_key (ap_jmt (w_app (fst wl))) = Map.empty"])
      (use assms(2) no_consensus_key_step in \<open>auto simp: split_paired_all\<close>)
  then have e: "validator_by_consensus_key (put_block_timestamp t (put_block_height k (ap_jmt (w_app w)))) ck = None" for t k ck
    by (simp add: validator_by_consensus_key_def chain_view_defs)
  show ?thesis
    by (cases "x_raw_ed25519 X ev")
      (simp_all add: worker_begin_block_def app_begin_block_def run_staking_def staking_begin_block_def assms(3)
        slash_validator_by_evidence_def staking_of_def e Let_def)
qed

end
