(* ===== verification/Witnesses.thy ===== *)
theory Witnesses
  imports App
begin

text \<open>
  Concrete instances: a small chain with its external functions, and for every property with
  hypotheses a theorem that applies it there.
\<close>

section \<open>A small chain\<close>

text \<open>
  Cryptography that accepts everything: group elements are all equal, nullifiers are the nullifier
  keys, hashes are their inputs, every signature verifies.
\<close>

definition demo_crypto :: crypto where
  "demo_crypto =
     \<lparr>fq_to_bytes = (\<lambda>x. []), fq_from_bytes = (\<lambda>b. Some 0), fq_mod_order = (\<lambda>b. of_nat (le_nat b)), fq_of_u64 = (\<lambda>x. 0),
      fq_add = (\<lambda>a b. 0), fr_zero = 0, fr_one = 1, fr_of_u64 = (\<lambda>x. 0), fr_add = (\<lambda>a b. 0), fr_neg = (\<lambda>a. 0),
      fr_mul = (\<lambda>a b. 0), fr_inverse = (\<lambda>a. None), fr_to_bytes = (\<lambda>x. []), fr_from_bytes = (\<lambda>b. Some 0),
      fr_mod_order = (\<lambda>b. 0), el_zero = 0, el_add = (\<lambda>a b. 0), el_neg = (\<lambda>a. 0), el_mul = (\<lambda>x a. 0), el_basepoint = 0,
      el_compress = (\<lambda>a. []), el_decompress = (\<lambda>b. Some 0), el_to_field = (\<lambda>a. 0), el_map_to_group = (\<lambda>x. 0),
      poseidon_1 = (\<lambda>d a. 0), poseidon_2 = (\<lambda>d p. 0), poseidon_3 = (\<lambda>d p. fst p), poseidon_5 = (\<lambda>d p. fst (snd p) + fst p),
      blake2b = (\<lambda>p k i. i), blake2b_32 = (\<lambda>i. i), aead_encrypt = (\<lambda>k n p. Some (replicate 132 0)), aead_decrypt = (\<lambda>k n c. None),
      ff1_encrypt = (\<lambda>k x. x), ff1_decrypt = (\<lambda>k x. x), f4jumble = Some, f4jumble_inv = (\<lambda>b. Some (replicate 75 0 @ ADDR_PADDING)),
      sha256 = (\<lambda>b. replicate 32 1), pbkdf2 = (\<lambda>p s r. []), bech32m_encode = (\<lambda>h b. map (\<lambda>w. char_of (unat w)) b),
      bech32_decode = (\<lambda>s. Some (''penumbrav1t'', [], True)), sk_randomize = (\<lambda>k r. k), vk_spend_auth = (\<lambda>k. []),
      vk_parse = Some, vk_randomize = (\<lambda>k r. k), vk_is_identity = (\<lambda>k. False), sign_spend_auth = (\<lambda>k m g. ([], g)),
      verify_spend_auth = (\<lambda>k m z. True), sign_binding = (\<lambda>k m g. ([], g)), verify_binding = (\<lambda>k m z. True),
      nct_root = (\<lambda>l. of_nat (length l)), nct_position = (\<lambda>l. if l = [] then None else Some (of_nat (length l - 1))),
      nct_auth_path = (\<lambda>l c. None), rand_fq = (\<lambda>g. (0, g)), rand_fr = (\<lambda>g. (0, g)), rand_permutation = (\<lambda>n g. ([0..<n], g))\<rparr>"

definition demo_ext :: ext where
  "demo_ext =
     \<lparr>x_crypto = demo_crypto, x_height = (\<lambda>h. if unat h < 2 ^ 63 then Some h else None),
      x_addr20 = (\<lambda>k. take 20 k), x_raw_ed25519 = (\<lambda>b. Some b), x_sig = (\<lambda>b. Inr b),
      x_verify_definition = (\<lambda>v b. True), x_encode_validator = (\<lambda>v. []), x_encode_tx = (\<lambda>tx. []), x_encode_sighash = (\<lambda>tx. [])\<rparr>"

definition demo_address :: address where
  "demo_address = \<lparr>ad_d = replicate 11 0, ad_g_d = 0, ad_pk_d = replicate 32 0, ad_cached_s = 0, ad_ck_d = replicate 32 0\<rparr>"

lemma demo_ops [simp]:
  "fq_to_bytes demo_crypto x = []" "fq_from_bytes demo_crypto b = Some 0" "fq_mod_order demo_crypto b = of_nat (le_nat b)"
  "fq_of_u64 demo_crypto u = 0" "el_zero demo_crypto = 0" "el_add demo_crypto a e = 0" "el_neg demo_crypto a = 0"
  "el_mul demo_crypto a e = 0" "el_compress demo_crypto a = []" "el_decompress demo_crypto b = Some 0"
  "el_map_to_group demo_crypto x = 0" "poseidon_2 demo_crypto x t = 0" "poseidon_3 demo_crypto x (v, p) = v"
  "poseidon_5 demo_crypto x (v, w, q) = w + v" "blake2b demo_crypto l k b = b"
  "aead_encrypt demo_crypto k n b = Some (replicate 132 0)" "sha256 demo_crypto b = replicate 32 1"
  "bech32m_encode demo_crypto l b = map (\<lambda>w. char_of (unat w)) b"
  "bech32_decode demo_crypto l = Some (''penumbrav1t'', [], True)"
  "f4jumble_inv demo_crypto b = Some (replicate 75 0 @ ADDR_PADDING)"
  "vk_parse demo_crypto b = Some b" "vk_randomize demo_crypto b a = b" "vk_is_identity demo_crypto b = False"
  "verify_spend_auth demo_crypto b k n" "verify_binding demo_crypto b k n"
  "nct_position demo_crypto t' = (if t' = [] then None else Some (of_nat (length t' - 1)))"
  "nct_root demo_crypto t' = of_nat (length t')"
  by (simp_all add: demo_crypto_def)

lemma demo_ext_crypto [simp]: "x_crypto demo_ext = demo_crypto"
  by (simp add: demo_ext_def)

lemma demo_identity: "identity_key_of_proto demo_crypto b = Inr (map (\<lambda>w. char_of (unat w)) b)"
  by (simp add: identity_key_of_proto_def bech32str_encode_def)

lemma demo_address_parses: "address_of_string demo_crypto s = Inr demo_address"
  by (simp add: address_of_string_def bech32str_decode_def address_of_proto_def read_exact_def address_from_components_def
      diversified_generator_def demo_address_def ADDR_PADDING_def ascii_def)

definition demo_validator :: "string \<Rightarrow> u8 \<Rightarrow> validator" where
  "demo_validator v k = \<lparr>identity_key = v, consensus_key = [k], v_name = '''', v_website = '''',
     v_description = '''', funding_streams = [\<lparr>fs_address = demo_address, fs_rate_bps = 500\<rparr>], sequence_number = 0\<rparr>"

text \<open>An active validator with power 5, an inactive one with power 9, and one seat.\<close>

definition demo_jmt :: jmt where
  "demo_jmt = empty_jmt\<lparr>j_chain_params := Some (default_chain_params\<lparr>active_validator_limit := 1,
       signed_blocks_window_len := 4\<rparr>), j_block_height := Some 8639,
     j_validator := [''a'' \<mapsto> demo_validator ''a'' 1, ''b'' \<mapsto> demo_validator ''b'' 2],
     j_power := [''a'' \<mapsto> 5, ''b'' \<mapsto> 9], j_state := [''a'' \<mapsto> Active, ''b'' \<mapsto> Inactive],
     j_validator_list := Some [''a'', ''b'']\<rparr>"

definition demo_epoch :: epoch where
  "demo_epoch = \<lparr>ep_index = 0, ep_duration = 8640\<rparr>"

lemma demo_height_ok: "height_conv_ok (x_height demo_ext)"
  by (simp add: height_conv_ok_def demo_ext_def)

section \<open>Chain and staking data\<close>

theorem epoch_partition_witness:
  "\<exists>e s t. from_height 10 4 = Inr e \<and> start_height (x_height demo_ext) e = Inr s \<and> end_height (x_height demo_ext) e = Inr t
    \<and> s \<le> 10 \<and> 10 \<le> t \<and> Suc (unat t) = unat s + unat (4 :: u64)
    \<and> is_epoch_end (x_height demo_ext) e 10 = Inr (10 = t) \<and> from_height (t + 1) 4 = Inr (epoch_next e)"
  by (rule epoch_partition [OF demo_height_ok]) simp_all

theorem funding_streams_check_exact_witness:
  "funding_streams_try_from [\<lparr>fs_address = demo_address, fs_rate_bps = 4000\<rparr>, \<lparr>fs_address = demo_address, fs_rate_bps = 6000\<rparr>]
     = Inr [\<lparr>fs_address = demo_address, fs_rate_bps = 4000\<rparr>, \<lparr>fs_address = demo_address, fs_rate_bps = 6000\<rparr>]"
  by (subst funding_streams_check_exact) auto

definition demo_rate :: rate_data where
  "demo_rate = \<lparr>rd_identity_key = ''a'', rd_epoch_index = 7, validator_reward_rate = 0, validator_exchange_rate = 123456789\<rparr>"

definition demo_base_rate :: base_rate_data where
  "demo_base_rate = \<lparr>brd_epoch_index = 8, base_reward_rate = 30000, base_exchange_rate = 100000000\<rparr>"

theorem rate_next_exact_witness:
  "\<exists>r'. rate_next demo_rate demo_base_rate [\<lparr>fs_address = demo_address, fs_rate_bps = 500\<rparr>] Active = Inr r'
    \<and> unat (validator_reward_rate r') = 28500 \<and> validator_exchange_rate demo_rate \<le> validator_exchange_rate r'"
proof -
  let ?fs = "[\<lparr>fs_address = demo_address, fs_rate_bps = 500\<rparr>]"
  have "total_bps ?fs = 500" "no_overflow demo_rate demo_base_rate"
    by (simp_all add: no_overflow_def demo_rate_def demo_base_rate_def)
  with rate_next_exact [of ?fs Active demo_rate demo_base_rate] show ?thesis by (auto simp: demo_base_rate_def)
qed

theorem delegate_undelegate_rounding_witness:
  "\<exists>d w. build_delegate demo_rate 1000 = Inr d \<and> build_undelegate demo_rate (d_delegation_amount d) = Inr w
    \<and> u_unbonded_amount w \<le> d_unbonded_amount d"
proof -
  obtain d where d: "build_delegate demo_rate 1000 = Inr d"
    by (simp add: build_delegate_def delegation_amount_def demo_rate_def u64_of_u128_def)
  from delegate_undelegate_rounding [OF this] d show ?thesis by blast
qed

theorem uptime_proto_roundtrip_witness:
  "uptime_of_proto (map (\<lambda>w. w = 1)) (uptime_to_proto (map (\<lambda>b. if b then 1 else 0)) (uptime_new 5 3)) = Inr (uptime_new 5 3)"
proof (rule uptime_proto_roundtrip)
  have "map (\<lambda>w. w = 1) (map (\<lambda>b. if b then 1 else (0 :: u8)) bits) = bits" for bits by (induction bits) auto
  then show "bitvec_ok (map (\<lambda>b. if b then 1 else 0)) (map (\<lambda>w. w = 1))" by (simp add: bitvec_ok_def)
  show "length (signatures (uptime_new 5 3)) < 2 ^ 32" by (simp add: uptime_new_def)
qed

theorem missed_blocks_window_witness:
  "\<exists>u. foldR (\<lambda>v u. mark_height_as_signed u (as_of_block_height u + 1) v) [False, True, False, False] (uptime_new 5 3) = Inr u
    \<and> num_missed_blocks u = 2"
proof -
  have "(3 :: u64) \<noteq> 0" "unat (5 :: u64) + length [False, True, False, False] < 2 ^ 64" by simp_all
  from missed_blocks_window [OF this] show ?thesis unfolding numeral_2_eq_2 by simp
qed


theorem delegation_accepted_iff_built_witness:
  "check_delegation (demo_jmt\<lparr>j_next_rate := [''a'' \<mapsto> demo_rate]\<rparr>)
     \<lparr>d_validator_identity = ''a'', d_epoch_index = 7, d_unbonded_amount = 1000, d_delegation_amount = 810\<rparr> Map.empty
   = Inr [''a'' \<mapsto> 810]"
  by (subst delegation_accepted_iff_built [where r = demo_rate and st = Active, THEN conjunct1])
    (simp_all add: demo_jmt_def demo_rate_def build_delegate_def delegation_amount_def u64_of_u128_def)

section \<open>Epoch transitions\<close>

lemma demo_transition: "\<exists>s'. process_epoch_transitions demo_epoch 1 30 (staking_new demo_jmt) = Inr s'
  \<and> j_state (sk_jmt s') ''b'' = Some Active \<and> j_power (sk_jmt s') ''b'' = Some 9"
  by (simp add: process_epoch_transitions_def staking_new_def demo_jmt_def demo_epoch_def empty_jmt_def default_chain_params_def
      demo_validator_def read_vpower_def validator_list_def sort_by_power_def top_validators_def transition_defs
      on_jmt_def set_validator_power_def set_validator_state_def check_transition_def MAX_VOTING_POWER_def
      validator_missing_def update_tm_validator_power_def i64_try_from_def chain_view_defs get_signed_blocks_window_len_def
      staking_view_defs Let_def)

lemma demo_list: "validator_list (sk_jmt (staking_new demo_jmt)) = [''a'', ''b'']"
  by (simp add: staking_new_def demo_jmt_def validator_list_def)

theorem epoch_transition_states_witness:
  "\<exists>s' T. process_epoch_transitions demo_epoch 1 30 (staking_new demo_jmt) = Inr s'
    \<and> elected 1 {''a'', ''b''} (power_in demo_jmt) T
    \<and> j_state (sk_jmt s') ''a'' = Some (next_vstate 0 30 (''a'' \<in> T) Active)"
proof -
  obtain s' where s': "process_epoch_transitions demo_epoch 1 30 (staking_new demo_jmt) = Inr s'" using demo_transition by blast
  have "j_state (sk_jmt (staking_new demo_jmt)) ''a'' = Some Active" by (simp add: staking_new_def demo_jmt_def)
  with epoch_transition_states [OF s'] s' show ?thesis
    unfolding demo_list by (auto simp: demo_epoch_def staking_new_def)
qed

theorem active_set_bounded_witness:
  "\<exists>s'. process_epoch_transitions demo_epoch 1 30 (staking_new demo_jmt) = Inr s'
    \<and> card {v \<in> set (validator_list (sk_jmt s')). j_state (sk_jmt s') v = Some Active} \<le> 1"
proof -
  obtain s' where s': "process_epoch_transitions demo_epoch 1 30 (staking_new demo_jmt) = Inr s'" using demo_transition by blast
  from active_set_bounded [OF s'] s' show ?thesis unfolding demo_list by auto
qed

theorem epoch_transition_updates_witness:
  "\<exists>s'. process_epoch_transitions demo_epoch 1 30 (staking_new demo_jmt) = Inr s'
    \<and> map_of (sk_tm_validator_updates s') [2] = Some 9"
proof -
  obtain s' where s': "process_epoch_transitions demo_epoch 1 30 (staking_new demo_jmt) = Inr s'"
    "j_state (sk_jmt s') ''b'' = Some Active" "j_power (sk_jmt s') ''b'' = Some 9"
    using demo_transition by blast
  have k: "has_consensus_key (sk_jmt (staking_new demo_jmt)) [2] v \<longleftrightarrow> v = ''b''" if "v \<in> {''a'', ''b''}" for v
    using that by (auto simp: has_consensus_key_def staking_new_def demo_jmt_def demo_validator_def)
  have d: "distinct (validator_list (sk_jmt (staking_new demo_jmt)))" unfolding demo_list by simp
  have "map_of (sk_tm_validator_updates s') [2] = j_power (sk_jmt s') ''b''"
    using epoch_transition_updates [OF s'(1) d, THEN conjunct2, THEN spec [of _ "''b''"], THEN spec [of _ "[2]"]] k s'(2)
    unfolding demo_list by simp
  with s' show ?thesis by auto
qed

definition expired_jmt :: jmt where
  "expired_jmt = demo_jmt\<lparr>j_state := [''a'' \<mapsto> Active, ''b'' \<mapsto> Unbonding 0]\<rparr>"

theorem elected_expired_unbonding_fails_witness:
  "\<exists>err. process_epoch_transitions demo_epoch 1 30 (staking_new expired_jmt) = Inl err"
proof (rule elected_expired_unbonding_fails)
  let ?a = "\<lparr>vp_identity_key = ''a'', vp_power = 5, vp_state = Active\<rparr>"
  let ?b = "\<lparr>vp_identity_key = ''b'', vp_power = 9, vp_state = Unbonding 0\<rparr>"
  show "mapR (read_vpower (sk_jmt (staking_new expired_jmt))) (validator_list (sk_jmt (staking_new expired_jmt))) = Inr [?a, ?b]"
    by (simp add: staking_new_def expired_jmt_def demo_jmt_def validator_list_def read_vpower_def)
  show "?b \<in> set [?a, ?b]" by simp
  show "vp_identity_key ?b \<in> set (top_validators 1 (sort_by_power [?a, ?b]))"
    by (simp add: top_validators_def sort_by_power_def)
qed (simp_all add: demo_epoch_def)

section \<open>The staking invariant\<close>

text \<open>The same chain with its rates and uptimes, as after block \<open>h\<close> of epoch 0.\<close>

definition live_jmt :: "u64 \<Rightarrow> jmt" where
  "live_jmt h = demo_jmt\<lparr>j_block_height := Some h,
     j_cur_base_rate := Some (initial_base_rate 0), j_next_base_rate := Some (initial_base_rate 1),
     j_cur_rate := [''a'' \<mapsto> initial_rate ''a'' 0, ''b'' \<mapsto> initial_rate ''b'' 0],
     j_next_rate := [''a'' \<mapsto> initial_rate ''a'' 1, ''b'' \<mapsto> initial_rate ''b'' 1],
     j_delegation_changes := (\<lambda>_. Some no_changes), j_uptime := [''a'' \<mapsto> \<lparr>as_of_block_height = h, signatures = [True, True, True, True]\<rparr>]\<rparr>"

lemma live_ok: "staking_ok 0 h (live_jmt h)"
  by (simp add: live_jmt_def demo_jmt_def empty_jmt_def staking_ok_def validator_list_def validator_ok_def rate_ok_def
      demo_validator_def initial_rate_def initial_base_rate_def)

lemma live_params: "j_chain_params (live_jmt h) =
    Some (default_chain_params\<lparr>active_validator_limit := 1, signed_blocks_window_len := 4\<rparr>)"
  by (simp add: live_jmt_def demo_jmt_def)

definition demo_definition :: definition_pb where
  "demo_definition = \<lparr>dpb_validator = Some \<lparr>vpb_identity_key = Some [99], vpb_consensus_key = [3], vpb_name = '''',
     vpb_website = '''', vpb_description = '''', vpb_funding_streams = [\<lparr>fspb_address = ''f'', fspb_rate_bps = 500\<rparr>],
     vpb_sequence_number = 0\<rparr>, dpb_auth_sig = []\<rparr>"

definition demo_genesis :: app_state where
  "demo_genesis = \<lparr>as_chain_params = default_chain_params,
     as_validators = [the (dpb_validator demo_definition)],
     as_allocations = [\<lparr>al_amount = 1000, al_denom = ''upenumbra'', al_address = demo_address\<rparr>]\<rparr>"

definition genesis_jmt :: jmt where
  "genesis_jmt = put_block_height 0 ((put_chain_params (as_chain_params demo_genesis) empty_jmt)\<lparr>j_genesis_app_state := Some demo_genesis\<rparr>)"

lemmas genesis_eval = staking_init_chain_def staking_new_def genesis_jmt_def chain_view_defs from_height_def Let_def
  staking_view_defs init_genesis_validator_def validator_of_proto_def demo_definition_def demo_genesis_def demo_ext_def
  funding_stream_of_proto_def funding_streams_try_from_def sum_u16_def delegation_denom_eq allocations_by_validator_def
  demo_identity demo_address_parses
  voting_power_def initial_rate_def initial_base_rate_def u64_of_u128_def add_genesis_validator_def
  update_tm_validator_power_def i64_try_from_def on_jmt_def view_add_validator_def set_validator_power_def
  MAX_VOTING_POWER_def default_chain_params_def

lemma demo_genesis_runs:
  "\<exists>s'. staking_init_chain demo_ext demo_genesis (staking_new genesis_jmt) = Inr s' \<and> j_token_supply (sk_jmt s') = Map.empty"
  by (simp add: genesis_eval empty_jmt_def)

definition demo_begin :: begin_block_request where
  "demo_begin = \<lparr>bb_height = 5, bb_time = 100, bb_app_hash = [], bb_next_validators_hash = [],
     bb_byzantine_validators = [], bb_last_commit_votes = [([1], True)]\<rparr>"

theorem staking_begin_block_total_witness:
  "\<exists>s'. staking_begin_block demo_ext demo_begin (staking_new ((live_jmt 4)\<lparr>j_block_height := Some 5\<rparr>)) = Inr s'
    \<and> j_uptime (sk_jmt s') ''a'' = Some \<lparr>as_of_block_height = 5, signatures = [True, True, True, True]\<rparr>"
proof -
  let ?s = "staking_new ((live_jmt 4)\<lparr>j_block_height := Some 5\<rparr>)"
  let ?p = "default_chain_params\<lparr>active_validator_limit := 1, signed_blocks_window_len := 4\<rparr>"
  have ok: "staking_ok 0 (5 - 1) (sk_jmt ?s)"
    using live_ok [of 4] by (simp add: staking_new_def staking_ok_def validator_ok_def validator_list_def)
  have j: "j_block_height (sk_jmt ?s) = Some 5" "j_chain_params (sk_jmt ?s) = Some ?p" "bb_byzantine_validators demo_begin = []"
    by (simp_all add: staking_new_def live_params demo_begin_def)
  obtain s' where s': "staking_begin_block demo_ext demo_begin ?s = Inr s'"
    "\<forall>v \<in> set (validator_list (sk_jmt ?s)). vote_recorded demo_ext ?p 5 (bb_last_commit_votes demo_begin) (sk_jmt ?s) (sk_jmt s') v"
    using staking_begin_block_total [OF ok j, of demo_ext] by blast
  moreover have "''a'' \<in> set (validator_list (sk_jmt ?s))" by (simp add: staking_new_def live_jmt_def demo_jmt_def validator_list_def)
  ultimately have "vote_recorded demo_ext ?p 5 (bb_last_commit_votes demo_begin) (sk_jmt ?s) (sk_jmt s') ''a''" by blast
  then have "j_uptime (sk_jmt s') ''a'' = Some \<lparr>as_of_block_height = 5, signatures = [True, True, True, True]\<rparr>"
    by (simp add: vote_recorded_def vote_of_def demo_begin_def staking_new_def live_jmt_def demo_jmt_def demo_validator_def demo_ext_def default_chain_params_def)
  with s'(1) show ?thesis by blast
qed

definition definition_tx :: transaction where
  "definition_tx = \<lparr>tx_body = \<lparr>tb_actions = [ValidatorDefinition demo_definition], tb_merkle_root = 1, tb_expiry_height = 0,
     tb_chain_id = '''', tb_fee = 0\<rparr>, tx_binding_sig = []\<rparr>"

lemma definition_tx_checks: "staking_check_tx_stateless demo_ext definition_tx = Inr ()"
  by (simp add: staking_check_tx_stateless_def definition_tx_def actions_def undelegations_def validator_definitions_def
      check_definition_stateless_def definition_of_proto_def validator_of_proto_def demo_definition_def demo_ext_def
      funding_stream_of_proto_def funding_streams_try_from_def sum_u16_def commission_rate_bps_def demo_identity
      demo_address_parses)

theorem staking_execute_tx_total_witness:
  "\<exists>s'. staking_execute_tx demo_ext definition_tx (staking_new (live_jmt 4)) = Inr s' \<and> staking_ok 0 4 (sk_jmt s')"
proof -
  let ?p = "default_chain_params\<lparr>active_validator_limit := 1, signed_blocks_window_len := 4\<rparr>"
  have d: "4 div epoch_duration ?p = 0" "epoch_duration ?p \<noteq> 0" by (simp_all add: default_chain_params_def)
  have "j_block_height (live_jmt 4) = Some 4" by (simp add: live_jmt_def)
  then show ?thesis
    using staking_execute_tx_total [where h = 4 and h' = 4 and params = ?p and s = "staking_new (live_jmt 4)" and tx = definition_tx
        and X = demo_ext] live_ok [of 4] d definition_tx_checks
    by (simp add: staking_new_def live_params)
qed


section \<open>The shielded pool\<close>

definition demo_output :: tx_output where
  "demo_output = \<lparr>out_body = \<lparr>ob_note_commitment = 11, ob_ephemeral_key = [], ob_encrypted_note = []\<rparr>,
     out_value_commitment = 0, out_encrypted_memo = [], out_ovk_wrapped_key = [], out_proof = \<lparr>opf_g_d = 1, opf_pk_d = [],
       opf_value = \<lparr>val_amount = 0, val_asset_id = 0\<rparr>, opf_v_blinding = 0, opf_note_blinding = 11, opf_esk = 0\<rparr>\<rparr>"

definition demo_proof :: "nullifier \<Rightarrow> spend_proof" where
  "demo_proof nf = \<lparr>spf_merkle_path = (0, replicate 32 0), spf_position = 0, spf_g_d = 1, spf_pk_d = [],
     spf_value = \<lparr>val_amount = 0, val_asset_id = 0\<rparr>, spf_v_blinding = 0, spf_note_commitment = 0, spf_note_blinding = 0,
     spf_spend_auth_randomizer = 0, spf_ak = [], spf_nk = nf\<rparr>"

definition demo_spend :: "nullifier \<Rightarrow> spend" where
  "demo_spend nf = \<lparr>sp_body = \<lparr>sb_value_commitment = 0, sb_nullifier = nf, sb_rk = [], sb_proof = demo_proof nf\<rparr>, sp_auth_sig = []\<rparr>"

definition spend_tx :: transaction where
  "spend_tx = \<lparr>tx_body = \<lparr>tb_actions = [Spend (demo_spend 7), Spend (demo_spend 8), Output demo_output], tb_merkle_root = 0,
     tb_expiry_height = 0, tb_chain_id = '''', tb_fee = 0\<rparr>, tx_binding_sig = []\<rparr>"

lemma spend_tx_nullifiers: "spent_nullifiers spend_tx = [7, 8]"
  by (simp add: spent_nullifiers_def actions_def spend_tx_def demo_spend_def)

lemma demo_output_simps:
  "out_value_commitment demo_output = 0" "ob_note_commitment (out_body demo_output) = 11"
  "ob_ephemeral_key (out_body demo_output) = []"
  by (simp_all add: demo_output_def)

lemma demo_proofs_verify:
  "output_proof_verify demo_crypto (out_proof demo_output) 0 11 [] = Inr ()"
  "spend_proof_verify demo_crypto (demo_proof nf) 0 0 nf [] = Inr ()"
proof -
  show "output_proof_verify demo_crypto (out_proof demo_output) 0 11 [] = Inr ()"
    by (simp add: output_proof_verify_def demo_output_def note_commitment_new_def value_commit_def
        diversified_public_def)
  have "merkle_path_root demo_crypto 0 lvl 0 path = 0" for lvl path
    by (induction path arbitrary: lvl) (simp_all add: merkle_combine_def)
  then show "spend_proof_verify demo_crypto (demo_proof nf) 0 0 nf [] = Inr ()"
    by (simp add: spend_proof_verify_def demo_proof_def MERKLE_DEPTH_def note_commitment_new_def derive_nullifier_def
        fvk_from_components_def Let_def diversified_public_def value_commit_def)
qed

lemma demo_binding_key: "binding_verification_key demo_crypto tx = Inr []"
proof -
  have "\<exists>e. foldR (\<lambda>a sum. bindR (action_value_commitment demo_crypto a) (\<lambda>c. Inr (el_add demo_crypto sum c))) as x = Inr e" for "as" x
    by (induction "as" arbitrary: x)
      (auto simp: action_value_commitment_def delegate_value_commitment_def undelegate_value_commitment_def Let_def
        delegation_asset_id_eq split: action.split)
  then obtain e where "foldR (\<lambda>a sum. bindR (action_value_commitment demo_crypto a) (\<lambda>c. Inr (el_add demo_crypto sum c)))
      (actions tx) (el_zero demo_crypto) = Inr e" by blast
  then show ?thesis by (simp add: binding_verification_key_def Let_def)
qed

lemma spend_tx_checks: "pool_check_tx_stateless demo_ext spend_tx = Inr ()"
  by (simp add: pool_check_tx_stateless_def spend_tx_def actions_def check_action_stateless_def demo_ext_def demo_spend_def
      demo_binding_key demo_proofs_verify demo_output_simps)

theorem stateless_check_nullifiers_witness: "distinct (spent_nullifiers spend_tx) \<and> ibc_actions spend_tx = []"
  by (rule stateless_check_nullifiers [OF spend_tx_checks])

theorem execute_tx_spends_witness:
  "pool_check_tx_stateful spend_tx (sp_jmt (pool_execute_tx demo_ext spend_tx (shielded_pool_new demo_jmt))) \<noteq> Inr ()"
  using execute_tx_spends [of spend_tx demo_ext "shielded_pool_new demo_jmt"] spend_tx_nullifiers by fastforce

text \<open>A pool with two commissions pending at height 8639.\<close>

definition demo_pool :: shielded_pool where
  "demo_pool = shielded_pool_new (demo_jmt\<lparr>j_commission := [8639 \<mapsto> [\<lparr>ca_amount = 20, ca_destination = demo_address\<rparr>,
     \<lparr>ca_amount = 30, ca_destination = demo_address\<rparr>]]\<rparr>)"

text \<open>Minting succeeds if the supply can be updated.\<close>

lemma demo_mint:
  "\<exists>body. mint_note demo_ext amount asset demo_address source s
     = bindR (update_token_supply asset amount (sp_jmt s)) (\<lambda>j. Inr (add_note body source (s\<lparr>sp_jmt := j\<rparr>)))"
  by (simp add: mint_note_def Let_def note_from_parts_def note_encrypt_def key_agreement_with_def) blast

lemma demo_pool_runs: "\<exists>s'. pool_end_block demo_ext 8639 demo_pool = Inr s'"
proof -
  have mint: "\<exists>s'. foldR (\<lambda>c s. unwrapR (mint_note demo_ext (ca_amount c) i (ca_destination c) src s))
      [\<lparr>ca_amount = 20, ca_destination = demo_address\<rparr>, \<lparr>ca_amount = 30, ca_destination = demo_address\<rparr>] s = Inr s'"
    if "j_token_supply (sp_jmt s) i = None" for i src s
  proof -
    obtain b1 where b1: "mint_note demo_ext 20 i demo_address src s
        = bindR (update_token_supply i 20 (sp_jmt s)) (\<lambda>j. Inr (add_note b1 src (s\<lparr>sp_jmt := j\<rparr>)))"
      using demo_mint by blast
    define s1 where "s1 = add_note b1 src (s\<lparr>sp_jmt := (sp_jmt s)\<lparr>j_token_supply := (j_token_supply (sp_jmt s))(i \<mapsto> 20)\<rparr>\<rparr>)"
    obtain b2 where b2: "mint_note demo_ext 30 i demo_address src s1
        = bindR (update_token_supply i 30 (sp_jmt s1)) (\<lambda>j. Inr (add_note b2 src (s1\<lparr>sp_jmt := j\<rparr>)))"
      using demo_mint by blast
    have "mint_note demo_ext 20 i demo_address src s = Inr s1"
      using that by (simp add: b1 s1_def update_token_supply_def checked_add_def token_supply_def)
    moreover have "j_token_supply (sp_jmt s1) i = Some 20" by (simp add: s1_def add_note_def set_note_source_def)
    then have "\<exists>j. update_token_supply i 30 (sp_jmt s1) = Inr j"
      by (simp add: update_token_supply_def checked_add_def token_supply_def)
    ultimately show ?thesis using b2 by auto
  qed
  have c: "commission_amounts (sp_jmt demo_pool) 8639
      = Some [\<lparr>ca_amount = 20, ca_destination = demo_address\<rparr>, \<lparr>ca_amount = 30, ca_destination = demo_address\<rparr>]"
    by (simp add: commission_amounts_def demo_pool_def shielded_pool_new_def)
  have d: "get_epoch_duration (sp_jmt demo_pool) = Inr 8640" "j_token_supply (sp_jmt demo_pool) = Map.empty"
    by (simp_all add: demo_pool_def shielded_pool_new_def demo_jmt_def empty_jmt_def chain_view_defs default_chain_params_def)
  obtain s' where "foldR (\<lambda>c s. unwrapR (mint_note demo_ext (ca_amount c) (staking_token_asset_id demo_crypto) (ca_destination c)
        (FundingStreamReward 0) s))
      [\<lparr>ca_amount = 20, ca_destination = demo_address\<rparr>, \<lparr>ca_amount = 30, ca_destination = demo_address\<rparr>]
      (demo_pool\<lparr>sp_compact_block := (sp_compact_block demo_pool)\<lparr>cb_height := 8639\<rparr>\<rparr>) = Inr s'"
    using mint [of "demo_pool\<lparr>sp_compact_block := (sp_compact_block demo_pool)\<lparr>cb_height := 8639\<rparr>\<rparr>"] d(2) by fastforce
  then show ?thesis using c d(1) by (simp add: pool_end_block_def Let_def from_height_def del: foldR.simps)
qed

theorem end_block_compact_block_witness:
  "\<exists>s' b. pool_end_block demo_ext 8639 demo_pool = Inr s' \<and> j_compact_block (sp_jmt s') 8639 = Some b \<and> length (cb_outputs b) = 2"
proof -
  obtain s' where s': "pool_end_block demo_ext 8639 demo_pool = Inr s'" using demo_pool_runs by blast
  have "pool_ok [] demo_pool" by (simp add: demo_pool_def pool_ok_def shielded_pool_new_def get_nct_def demo_jmt_def empty_jmt_def empty_block_def)
  from end_block_compact_block [OF s' this] s' show ?thesis
    by (auto simp: demo_pool_def shielded_pool_new_def empty_block_def commission_amounts_def)
qed

theorem end_block_mints_commissions_witness:
  "\<exists>s'. pool_end_block demo_ext 8639 demo_pool = Inr s' \<and> supply_of (sp_jmt s') (staking_token_asset_id demo_crypto) = 50"
proof -
  obtain s' where s': "pool_end_block demo_ext 8639 demo_pool = Inr s'" using demo_pool_runs by blast
  have "[\<lparr>ca_amount = 20, ca_destination = demo_address\<rparr>, \<lparr>ca_amount = 30, ca_destination = demo_address\<rparr>]
      = (case commission_amounts (sp_jmt demo_pool) 8639 of Some l \<Rightarrow> l | None \<Rightarrow> [])"
    by (simp add: commission_amounts_def demo_pool_def shielded_pool_new_def)
  from end_block_mints_commissions [OF s' this] have
    "supply_of (sp_jmt s') (staking_token_asset_id demo_crypto) = supply_of (sp_jmt demo_pool) (staking_token_asset_id demo_crypto) + 50" by simp
  moreover have "supply_of (sp_jmt demo_pool) a = 0" for a
    by (simp add: supply_of_def demo_pool_def shielded_pool_new_def demo_jmt_def empty_jmt_def)
  ultimately show ?thesis using s' by simp
qed

theorem nct_anchor_height_lost_witness:
  "\<exists>s'. pool_end_block demo_ext 8639 demo_pool = Inr s' \<and> j_nct_anchor (sp_jmt s') 8639 = None"
proof -
  obtain s' where s': "pool_end_block demo_ext 8639 demo_pool = Inr s'" using demo_pool_runs by blast
  moreover have "j_nct_anchor (sp_jmt demo_pool) = Map.empty" by (simp add: demo_pool_def shielded_pool_new_def demo_jmt_def empty_jmt_def)
  ultimately show ?thesis using nct_anchor_height_lost [OF s'] by simp
qed

theorem mint_note_large_amount_witness:
  "\<exists>s'. mint_note demo_ext 9223372036854775809 1 demo_address Genesis
     (shielded_pool_new (demo_jmt\<lparr>j_token_supply := [1 \<mapsto> 9223372036854775809]\<rparr>)) = Inr s' \<and> supply_of (sp_jmt s') 1 = 2"
proof -
  let ?s = "shielded_pool_new (demo_jmt\<lparr>j_token_supply := [1 \<mapsto> 9223372036854775809]\<rparr>)"
  obtain s' where s': "mint_note demo_ext 9223372036854775809 1 demo_address Genesis ?s = Inr s'"
    using demo_mint [of 9223372036854775809 1 Genesis ?s]
    by (auto simp: update_token_supply_def checked_sub_def abs_i64_def shielded_pool_new_def)
  have "supply_of (sp_jmt ?s) 1 = 9223372036854775809" by (simp add: supply_of_def shielded_pool_new_def)
  with mint_note_large_amount [OF s'] s' show ?thesis by auto
qed

section \<open>IBC\<close>

definition demo_tm_client :: tm_client_state where
  "demo_tm_client = \<lparr>tcs_chain_id = ''x-0'', tcs_trust_numerator = 2, tcs_trust_denominator = 3, tcs_trusting_period = 10,
     tcs_unbonding_period = 20, tcs_latest_height = Height 0 3, tcs_proof_specs = [], tcs_frozen_height = None\<rparr>"

definition demo_tm_consensus :: tm_consensus_state where
  "demo_tm_consensus = \<lparr>tcon_root = [], tcon_timestamp = 90, tcon_next_validators_hash = [5]\<rparr>"

text \<open>Identifiers are unary numerals, every message decodes to the fixed one, every proof is accepted.\<close>

definition demo_ibc :: ibc_ext where
  "demo_ibc =
     \<lparr>i_create = (\<lambda>b. if b = [] then Inl (Err ''empty'') else Inr \<lparr>mc_client_state = TmClientState demo_tm_client,
        mc_consensus_state = TmConsensusState demo_tm_consensus\<rparr>),
      i_update = (\<lambda>b. Inl (Err ''update'')),
      i_open_init = (\<lambda>b. Inr \<lparr>oi_client_id = ''c'', oi_counterparty = \<lparr>cp_client_id = ''d'', cp_connection_id = None, cp_prefix = ''ibc''\<rparr>,
        oi_version = Some ''1'', oi_delay_period = 0\<rparr>),
      i_open_try = (\<lambda>b. Inl (Err ''try'')), i_open_ack = (\<lambda>b. Inl (Err ''ack'')), i_open_confirm = (\<lambda>b. Inl (Err ''confirm'')),
      i_client_id = (\<lambda>t n. Inr (replicate (unat n) CHR ''c'')), i_connection_id = (\<lambda>n. replicate (unat n) CHR ''k''),
      i_client_type = (\<lambda>s. ''07-tendermint''), i_latest_height = (\<lambda>s. Height 0 3), i_is_frozen = (\<lambda>s. False),
      i_expired = (\<lambda>s t. False), i_with_header = (\<lambda>t h. t\<lparr>tcs_latest_height := th_height h\<rparr>),
      i_with_frozen_height = (\<lambda>t h. Inr (t\<lparr>tcs_frozen_height := Some h\<rparr>)),
      i_cs_of_header = (\<lambda>h. \<lparr>tcon_root = [], tcon_timestamp = th_time h, tcon_next_validators_hash = []\<rparr>),
      i_validators_hash = (\<lambda>b. b), i_chain_version = (\<lambda>s. 0), i_tm_height = Some, i_options = (\<lambda>t. Inr []),
      i_verify_header = (\<lambda>a b c d e. Success), i_rfc3339 = (\<lambda>t. ''time''), i_duration_since = (\<lambda>a b. Inr (a - b)),
      i_root = (\<lambda>c. []), i_default_version = ''1'', i_pick_version = (\<lambda>a b. Inr ''1''), i_proof_specs = [],
      i_consensus_height = (\<lambda>p. Height 0 0), i_verify_connection_state = (\<lambda>a b c d e f g. Inr ()),
      i_verify_client_full_state = (\<lambda>a b c d e f g. Inr ()), i_verify_client_consensus_state = (\<lambda>a b c d e f g h. Inr ())\<rparr>"

definition client_jmt :: jmt where
  "client_jmt = demo_jmt\<lparr>j_block_timestamp := Some 100,
     j_ibc := empty_ibc_store\<lparr>b_client_data := [''c'' \<mapsto> client_data_new ''c'' (TmClientState demo_tm_client) ''time'' 1],
       b_verified_heights := [''c'' \<mapsto> [Height 0 3]],
       b_verified_cs := [(''c'', Height 0 3) \<mapsto> TmConsensusState demo_tm_consensus]\<rparr>\<rparr>"

lemma client_heights: "heights_ok client_jmt ''c''" "verified_heights client_jmt ''c'' = {Height 0 3}"
  by (auto simp: heights_ok_def verified_heights_def client_jmt_def empty_ibc_store_def)

theorem create_client_fresh_witness:
  "\<exists>j' c d. execute_create_client demo_ibc \<lparr>mc_client_state = TmClientState demo_tm_client,
        mc_consensus_state = TmConsensusState demo_tm_consensus\<rparr> (demo_jmt\<lparr>j_block_timestamp := Some 100\<rparr>) = Inr j'
    \<and> get_client_data j' c = Inr d \<and> cd_client_state d = TmClientState demo_tm_client"
proof -
  let ?msg = "\<lparr>mc_client_state = TmClientState demo_tm_client, mc_consensus_state = TmConsensusState demo_tm_consensus\<rparr>"
  let ?j = "demo_jmt\<lparr>j_block_timestamp := Some 100\<rparr>"
  obtain j' where j': "execute_create_client demo_ibc ?msg ?j = Inr j'"
    by (simp add: execute_create_client_def demo_ibc_def demo_jmt_def chain_view_defs Let_def)
  have "clients_fresh demo_ibc ?j" by (simp add: clients_fresh_def demo_jmt_def empty_jmt_def empty_ibc_store_def)
  moreover have "client_ids_inj demo_ibc"
    by (auto simp: client_ids_inj_def demo_ibc_def word_unat_eq_iff dest!: arg_cong [where f = length])
  moreover have "unat (client_counter ?j) + 1 < 2 ^ 64"
    by (simp add: client_counter_def demo_jmt_def empty_jmt_def empty_ibc_store_def)
  ultimately show ?thesis using create_client_fresh [OF j'] j' by fastforce
qed

definition demo_header :: tm_header where
  "demo_header = \<lparr>th_height = Height 0 9, th_trusted_height = Height 0 3, th_time = 95, th_signed_header = [],
     th_validator_set = [], th_trusted_validator_set = [5]\<rparr>"

theorem update_client_total_witness:
  "\<exists>j' d. execute_update_client demo_ibc \<lparr>mu_client_id = ''c'', mu_header = TmHeader demo_header\<rparr> client_jmt = Inr j'
    \<and> get_client_data j' ''c'' = Inr d \<and> heights_ok j' ''c''"
proof -
  let ?msg = "\<lparr>mu_client_id = ''c'', mu_header = TmHeader demo_header\<rparr>"
  have "validate_update_client demo_ibc client_jmt ?msg = Inr ()"
    by (simp add: validate_update_client_def client_jmt_def demo_ibc_def get_client_data_def client_is_not_frozen_def
        client_is_not_expired_def get_verified_consensus_state_def chain_view_defs client_data_new_def demo_header_def
        update_is_already_committed_def header_revision_matches_client_state_def header_height_is_consistent_def
        less_eq_ibc_height_def verify_header_validator_set_def demo_tm_consensus_def)
  moreover have "all_tendermint client_jmt" by (auto simp: all_tendermint_def client_jmt_def empty_ibc_store_def)
  moreover have "\<exists>t'. i_with_frozen_height demo_ibc t h = Inr t'" for t h by (simp add: demo_ibc_def)
  moreover have "j_block_height client_jmt = Some 8639" by (simp add: client_jmt_def demo_jmt_def)
  moreover have "cd_client_id d = c" if "b_client_data (j_ibc client_jmt) c = Some d" for c d
    using that by (auto simp: client_jmt_def empty_ibc_store_def client_data_new_def split: if_splits)
  ultimately show ?thesis
    using update_client_total [of demo_ibc client_jmt ?msg 8639] client_heights(1) by fastforce
qed

theorem next_verified_is_least_witness:
  "next_verified_consensus_state client_jmt ''c'' (Height 0 2) = Inr (Some (TmConsensusState demo_tm_consensus))"
  by (subst next_verified_is_least [OF client_heights(1)])
    (simp add: client_heights(2) less_ibc_height_def, simp add: client_jmt_def)

theorem prev_verified_is_lowest_witness:
  "prev_verified_consensus_state client_jmt ''c'' (Height 0 9) = Inr (Some (TmConsensusState demo_tm_consensus))"
proof -
  have "b_verified_cs (j_ibc client_jmt) (''c'', Height 0 3) = Some (TmConsensusState demo_tm_consensus)" by (simp add: client_jmt_def)
  moreover have "Height 0 3 < Height 0 9" by (simp add: less_ibc_height_def)
  ultimately show ?thesis using prev_verified_is_lowest [OF client_heights(1), of "Height 0 3" "Height 0 9"] client_heights(2) by simp
qed

theorem connection_handshake_witness:
  "\<exists>j'. connection_execute_action demo_ibc (ConnectionOpenInit []) client_jmt = Inr j'
    \<and> conn_step None (get_connection j' []) \<and> connections_fresh demo_ibc j'"
proof -
  have c: "connection_check_stateful demo_ibc client_jmt (ConnectionOpenInit []) = Inr ()"
    by (simp add: connection_check_stateful_def demo_ibc_def get_client_data_def client_jmt_def)
  obtain j' where j': "connection_execute_action demo_ibc (ConnectionOpenInit []) client_jmt = Inr j'"
    by (simp add: connection_execute_action_def execute_connection_open_init_def demo_ibc_def put_new_connection_def
        add_connection_to_client_def get_client_data_def client_jmt_def put_connection_counter_def Let_def)
  have none: "get_connection client_jmt k = None" for k by (simp add: get_connection_def client_jmt_def empty_ibc_store_def)
  then have "connections_fresh demo_ibc client_jmt" by (simp add: connections_fresh_def)
  moreover have "connection_ids_inj demo_ibc"
    by (auto simp: connection_ids_inj_def demo_ibc_def word_unat_eq_iff dest!: arg_cong [where f = length])
  moreover have "unat (get_connection_counter client_jmt) + 1 < 2 ^ 64"
    by (simp add: get_connection_counter_def client_jmt_def empty_ibc_store_def)
  ultimately show ?thesis using connection_handshake [OF c j'] j' none by metis
qed

definition open_jmt :: jmt where
  "open_jmt = client_jmt\<lparr>j_ibc := (j_ibc client_jmt)\<lparr>b_connections := [''k'' \<mapsto> \<lparr>ce_state = ConnInit, ce_client_id = ''c'',
     ce_counterparty = \<lparr>cp_client_id = ''d'', cp_connection_id = None, cp_prefix = ''ibc''\<rparr>, ce_versions = [''1''], ce_delay_period = 0\<rparr>]\<rparr>\<rparr>"

theorem open_ack_counterparty_witness:
  "\<exists>j' conn. execute_connection_open_ack \<lparr>oa_connection_id = ''k'', oa_counterparty_connection_id = ''other'', oa_client_state = None,
       oa_proofs = \<lparr>pr_height = Height 0 1, pr_object = [], pr_client = None, pr_consensus = None\<rparr>, oa_version = ''1''\<rparr> open_jmt = Inr j'
    \<and> get_connection j' ''k'' = Some conn \<and> cp_connection_id (ce_counterparty conn) = Some ''k''"
proof -
  let ?msg = "\<lparr>oa_connection_id = ''k'', oa_counterparty_connection_id = ''other'', oa_client_state = None,
       oa_proofs = \<lparr>pr_height = Height 0 1, pr_object = [], pr_client = None, pr_consensus = None\<rparr>, oa_version = ''1''\<rparr>"
  obtain j' where j': "execute_connection_open_ack ?msg open_jmt = Inr j'"
    by (simp add: execute_connection_open_ack_def open_jmt_def get_connection_def Let_def)
  from open_ack_counterparty [OF j'] j' show ?thesis by auto
qed

theorem client_check_skips_rest_witness:
  "client_check_stateless demo_ibc [ConnectionOpenConfirm [], CreateClient []] = Inr ()
    \<and> client_execute_action demo_ibc (CreateClient []) client_jmt = Inl (Panic ''empty'')"
  by (rule client_check_skips_rest) (simp add: demo_ibc_def)

section \<open>The application\<close>

definition anchored_worker :: "u64 \<Rightarrow> worker" where
  "anchored_worker h = worker_new (Some ((live_jmt h)\<lparr>j_valid_anchors := [0 \<mapsto> 0]\<rparr>))"

lemma spend_tx_facts:
  "actions spend_tx = [Spend (demo_spend 7), Spend (demo_spend 8), Output demo_output]"
  "delegations spend_tx = []" "undelegations spend_tx = []" "ibc_actions spend_tx = []" "validator_definitions spend_tx = []"
  "output_bodies spend_tx = [out_body demo_output]" "spent_nullifiers spend_tx = [7, 8]"
  "tb_merkle_root (tx_body spend_tx) = 0" "tb_chain_id (tx_body spend_tx) = []"
  by (simp_all add: actions_def delegations_def undelegations_def ibc_actions_def validator_definitions_def output_bodies_def
      spent_nullifiers_def spend_tx_def demo_spend_def)

lemma demo_ext_simps:
  "x_height demo_ext = (\<lambda>h. if unat h < 2 ^ 63 then Some h else None)" "x_addr20 demo_ext = take 20" "tx_id demo_ext tx = replicate 32 1"
  by (auto simp: demo_ext_def tx_id_def)

lemmas deliver_eval = worker_deliver_tx_def deliver_tx_def app_check_tx_stateless_def app_check_tx_stateful_def app_execute_tx_def
  staking_check_tx_stateless_def staking_check_tx_stateful_def staking_execute_tx_def ibc_check_tx_stateless_def
  ibc_check_tx_stateful_def ibc_execute_tx_def spend_tx_checks pool_check_tx_stateful_def pool_execute_tx_def
  check_claimed_anchor_def check_nullifier_unspent_def run_staking_def run_pool_def staking_of_def
  put_staking_def pool_of_def put_pool_def add_note_def record_spend_def set_note_source_def spend_nullifier_def
  spend_tx_facts queue_action_def get_current_epoch_def chain_view_defs from_height_def Let_def
  worker_new_def app_new_def anchored_worker_def live_jmt_def demo_jmt_def empty_jmt_def default_chain_params_def
  demo_ext_simps demo_ibc_def staking_new_def shielded_pool_new_def

lemma deliver_once:
  "\<exists>w. foldR (abci_step demo_ext demo_ibc (\<lambda>_. Inr spend_tx)) [DeliverTx []] (anchored_worker 4, []) = Inr (w, [spend_tx])"
  by (simp add: abci_step_def deliver_eval)

theorem no_double_spend_witness:
  "\<exists>w. foldR (abci_step demo_ext demo_ibc (\<lambda>_. Inr spend_tx)) [DeliverTx []] (anchored_worker 4, []) = Inr (w, [spend_tx])
    \<and> j_spent_nullifiers (ap_jmt (w_app w)) 7 \<noteq> None"
proof -
  obtain w where w: "foldR (abci_step demo_ext demo_ibc (\<lambda>_. Inr spend_tx)) [DeliverTx []] (anchored_worker 4, []) = Inr (w, [spend_tx])"
    using deliver_once by blast
  from no_double_spend [OF w] w show ?thesis by (simp add: spend_tx_nullifiers)
qed

lemma demo_pool_genesis:
  assumes "j_token_supply (sp_jmt p) = Map.empty"
  shows "\<exists>p'. pool_init_chain demo_ext demo_genesis p = Inr p'"
proof -
  let ?p = "p\<lparr>sp_jmt := register_denom demo_ext ''upenumbra'' (sp_jmt p)\<rparr>"
  have [simp]: "x_crypto demo_ext = demo_crypto" by (simp add: demo_ext_def)
  obtain d where d: "parse_denom demo_crypto ''upenumbra'' = Inr (Some d)" "dn_base_denom d = ''upenumbra''"
    by (simp add: parse_denom_spec)
  have "j_token_supply (sp_jmt ?p) = Map.empty" using assms by (simp add: register_denom_def Let_def)
  then obtain p' where "mint_note demo_ext 1000 (dn_id d) demo_address Genesis ?p = Inr p'"
    using demo_mint [of 1000 "dn_id d" Genesis ?p] by (auto simp: update_token_supply_def checked_add_def)
  with d show ?thesis by (simp add: pool_init_chain_def init_allocation_def demo_genesis_def)
qed

theorem genesis_staking_ok_witness:
  "\<exists>w updates j. worker_init_chain demo_ext demo_genesis (worker_new None) = Inr (w, updates) \<and> w_committed w = Some j \<and> staking_ok 0 0 j"
proof -
  obtain s where s: "staking_init_chain demo_ext demo_genesis (staking_new genesis_jmt) = Inr s" "j_token_supply (sk_jmt s) = Map.empty"
    using demo_genesis_runs by blast
  have new: "staking_of ((app_new empty_jmt)\<lparr>ap_jmt := genesis_jmt\<rparr>) = staking_new genesis_jmt" "ap_jmt (app_new empty_jmt) = empty_jmt"
    by (simp_all add: staking_of_def app_new_def staking_new_def Let_def)
  let ?p = "\<lparr>sp_jmt = (sk_jmt s)\<lparr>j_ibc := (j_ibc (sk_jmt s))\<lparr>b_client_counter := Some 0\<rparr>\<rparr>, sp_nct = ap_nct (app_new empty_jmt),
      sp_compact_block = ap_compact_block (app_new empty_jmt)\<rparr>"
  obtain p' where "pool_init_chain demo_ext demo_genesis ?p = Inr p'" using demo_pool_genesis [of ?p] s(2) by auto
  then have "\<exists>a. app_init_chain demo_ext demo_genesis (app_new empty_jmt) = Inr a"
    using s new
    by (auto simp: app_init_chain_def genesis_jmt_def [symmetric] run_staking_def run_pool_def ibc_init_chain_def client_init_chain_def
        put_client_counter_def put_staking_def pool_of_def Let_def)
  then obtain w updates where w: "worker_init_chain demo_ext demo_genesis (worker_new None) = Inr (w, updates)"
    by (auto simp: worker_init_chain_def worker_new_def)
  have "distinct (genesis_keys demo_ext (as_validators demo_genesis))"
    by (simp add: genesis_keys_def demo_genesis_def split: sum.split)
  moreover have "signed_blocks_window_len (as_chain_params demo_genesis) \<noteq> 0"
    by (simp add: demo_genesis_def default_chain_params_def)
  ultimately show ?thesis using genesis_staking_ok [OF w] w by blast
qed

text \<open>Without a valid anchor the transaction is refused.\<close>

theorem rejected_tx_no_effect_witness:
  "worker_deliver_tx demo_ext demo_ibc (\<lambda>_. Inr spend_tx) [] (worker_new (Some (live_jmt 4))) = Inr (worker_new (Some (live_jmt 4)), False)"
proof -
  let ?w = "worker_new (Some (live_jmt 4))" and ?p = "default_chain_params\<lparr>active_validator_limit := 1, signed_blocks_window_len := 4\<rparr>"
  define r :: "transaction result" where "r = bindR (Inr spend_tx) (\<lambda>tx. bindR (app_check_tx_stateless demo_ext demo_ibc tx) (\<lambda>_.
      bindR (app_check_tx_stateful demo_ext demo_ibc tx (w_app ?w)) (\<lambda>_. Inr tx)))"
  have "\<exists>m. r = Inl (Err m)" unfolding r_def by (simp add: deliver_eval)
  then obtain m where m: "r = Inl (Err m)" by blast
  have "in_block ?p 4 4 (ap_jmt (w_app ?w))" "\<not> ap_ibc_enabled (w_app ?w)" "epoch_duration ?p \<noteq> 0"
    using live_ok [of 4] live_params [of 4]
    by (simp_all add: in_block_def worker_new_def app_new_def ibc_new_enabled_def Let_def default_chain_params_def) (simp add: live_jmt_def)
  from rejected_tx_no_effect [OF this(1,3,2), of r "\<lambda>_. Inr spend_tx" "[]" demo_ext demo_ibc] m r_def show ?thesis by simp
qed

lemmas block_eval = worker_begin_block_def app_begin_block_def staking_begin_block_def track_uptime_def track_validator_def
  validator_list_def validator_info_def get_validator_status_def mark_height_as_signed_def uptime_new_def num_missed_blocks_def
  staking_view_defs client_begin_block_def put_penumbra_consensus_state_def worker_end_block_def app_end_block_def
  staking_end_block_def is_epoch_end_def end_height_def pool_end_block_def commission_amounts_def demo_begin_def
  demo_validator_def initial_rate_def initial_base_rate_def

lemma demo_block:
  "\<exists>w'. bindR (worker_begin_block demo_ext demo_begin (anchored_worker 4)) (\<lambda>w.
      bindR (foldR (abci_step demo_ext demo_ibc (\<lambda>_. Inr spend_tx)) (map DeliverTx [[]]) (w, [])) (\<lambda>(w, log).
      bindR (worker_end_block demo_ext (4 + 1) w) (\<lambda>(w, updates). Inr (worker_commit w)))) = Inr w'"
  by (simp add: block_eval abci_step_def deliver_eval)

theorem block_keeps_staking_ok_witness:
  "\<exists>w' j. bindR (worker_begin_block demo_ext demo_begin (anchored_worker 4)) (\<lambda>w.
      bindR (foldR (abci_step demo_ext demo_ibc (\<lambda>_. Inr spend_tx)) (map DeliverTx [[]]) (w, [])) (\<lambda>(w, log).
      bindR (worker_end_block demo_ext (4 + 1) w) (\<lambda>(w, updates). Inr (worker_commit w)))) = Inr w'
    \<and> w_committed w' = Some j \<and> staking_ok 0 5 j"
proof -
  let ?p = "default_chain_params\<lparr>active_validator_limit := 1, signed_blocks_window_len := 4\<rparr>"
  obtain w' where w': "bindR (worker_begin_block demo_ext demo_begin (anchored_worker 4)) (\<lambda>w.
      bindR (foldR (abci_step demo_ext demo_ibc (\<lambda>_. Inr spend_tx)) (map DeliverTx [[]]) (w, [])) (\<lambda>(w, log).
      bindR (worker_end_block demo_ext (4 + 1) w) (\<lambda>(w, updates). Inr (worker_commit w)))) = Inr w'"
    using demo_block by blast
  have j: "ap_jmt (w_app (anchored_worker 4)) = (live_jmt 4)\<lparr>j_valid_anchors := [0 \<mapsto> 0]\<rparr>"
    by (simp add: anchored_worker_def worker_new_def app_new_def Let_def)
  have "staking_ok ((4 + 1) div epoch_duration ?p) 4 (ap_jmt (w_app (anchored_worker 4)))"
    using live_ok [of 4] by (simp add: j default_chain_params_def staking_ok_def validator_ok_def validator_list_def)
  moreover have "j_chain_params (ap_jmt (w_app (anchored_worker 4))) = Some ?p" by (simp add: j live_params)
  ultimately obtain j' where "w_committed w' = Some j'" "staking_ok ((4 + 1 + 1) div epoch_duration ?p) (4 + 1) j'"
    using block_keeps_staking_ok [where params = ?p, OF w'] demo_height_ok by (auto simp: demo_begin_def default_chain_params_def)
  with w' show ?thesis by (simp add: default_chain_params_def)
qed

definition ibc_tx :: transaction where
  "ibc_tx = \<lparr>tx_body = \<lparr>tb_actions = [IBCAction (CreateClient [1])], tb_merkle_root = 1, tb_expiry_height = 0,
     tb_chain_id = '''', tb_fee = 0\<rparr>, tx_binding_sig = []\<rparr>"

theorem ibc_disabled_after_commit_witness:
  "app_check_tx_stateful demo_ext demo_ibc ibc_tx (w_app (worker_commit (anchored_worker 4))) \<noteq> Inr ()"
  by (rule ibc_disabled_after_commit) (simp add: ibc_actions_def actions_def ibc_tx_def)

theorem evidence_panics_witness:
  "\<exists>m. worker_begin_block demo_ext (demo_begin\<lparr>bb_byzantine_validators := [[1]]\<rparr>) (anchored_worker 4) = Inl (Panic m)"
proof (rule evidence_panics)
  show "foldR (abci_step demo_ext demo_ibc (\<lambda>_. Inr spend_tx)) [] (anchored_worker 4, []) = Inr (anchored_worker 4, [])" by simp
  show "j_consensus_key (ap_jmt (w_app (anchored_worker 4))) = Map.empty"
    by (simp add: anchored_worker_def worker_new_def app_new_def live_jmt_def demo_jmt_def empty_jmt_def Let_def)
qed simp

end
