(* ===== verification/TCT_Path.thy ===== *)
theory TCT_Path
  imports Prelude
begin

text \<open>
  Hashes, authentication paths and inclusion proofs of the tiered commitment tree
  (\<open>tct/src/internal/hash.rs\<close>, \<open>internal/path.rs\<close>, \<open>internal/proof.rs\<close>, \<open>proof.rs\<close>).

  The Poseidon permutation, the domain separator and the field addition come from other
  packages: they are the fields of \<open>hasher\<close>, an argument of every definition that
  hashes.  Field elements are canonical representatives; \<open>Hash::zero\<close> and
  \<open>Hash::one\<close> are 0 and 1.  The height of a tree is a constant of its Rust type
  (\<open>IsHeight::HEIGHT\<close>, at most 24); here it is an argument.

  The lemmas read \<open>WhichWay::at\<close> as a base-four digit of the index, show that
  masking one digit leaves the others, and that a path's root depends only on the digits
  below its height.  The theorem on proofs is the binding property of the tree.
\<close>

unbundle bit_operations_syntax

section \<open>Hashes\<close>

type_synonym fq = nat

record hasher =
  domain_separator :: fq
  fq_add :: "fq \<Rightarrow> fq \<Rightarrow> fq"
  hash_1 :: "fq \<Rightarrow> fq \<Rightarrow> fq"
  hash_4 :: "fq \<Rightarrow> fq \<times> fq \<times> fq \<times> fq \<Rightarrow> fq"

definition hash_zero :: fq where
  "hash_zero = 0"

definition hash_one :: fq where
  "hash_one = 1"

definition hash_of :: "hasher \<Rightarrow> fq \<Rightarrow> fq" where
  "hash_of H item = hash_1 H (domain_separator H) item"

definition hash_node :: "hasher \<Rightarrow> nat \<Rightarrow> fq \<Rightarrow> fq \<Rightarrow> fq \<Rightarrow> fq \<Rightarrow> fq" where
  "hash_node H height a b c d = hash_4 H (fq_add H (domain_separator H) height) (a, b, c, d)"

text \<open>
  The cache of a node's hash: \<open>OptionHash\<close> stores four 64-bit limbs and reads all ones as
  no hash; the limbs of a field element come from the field's package.
\<close>

type_synonym limbs = "u64 \<times> u64 \<times> u64 \<times> u64"

definition no_limbs :: limbs where
  "no_limbs = (- 1, - 1, - 1, - 1)"

definition option_hash_of :: "(fq \<Rightarrow> limbs) \<Rightarrow> fq option \<Rightarrow> limbs" where
  "option_hash_of into_bytes hash =
     (case hash of Some x \<Rightarrow> into_bytes x | None \<Rightarrow> no_limbs)"

definition option_hash_get :: "(limbs \<Rightarrow> fq) \<Rightarrow> limbs \<Rightarrow> fq option" where
  "option_hash_get from_bytes l = (if l = no_limbs then None else Some (from_bytes l))"

definition cache_set_if_empty :: "(fq \<Rightarrow> limbs) \<Rightarrow> (limbs \<Rightarrow> fq) \<Rightarrow> limbs \<Rightarrow> fq \<Rightarrow> limbs \<times> fq result" where
  "cache_set_if_empty into_bytes from_bytes l new =
     (let l' = (if option_hash_get from_bytes l = None then option_hash_of into_bytes (Some new) else l) in
      (l', ok_or (Panic ''called Option::unwrap() on a None value'') (option_hash_get from_bytes l')))"

section \<open>Directions\<close>

datatype which_way = Leftmost | Left | Right | Rightmost

definition which_way_at :: "nat \<Rightarrow> u64 \<Rightarrow> which_way \<times> u64" where
  "which_way_at height index =
     (let d = drop_bit (2 * (height - 1)) index AND 3 in
      (if d = 0 then Leftmost else if d = 1 then Left else if d = 2 then Right else Rightmost,
       index AND NOT (push_bit ((height - 1) * 2) 3)))"

fun way_insert :: "which_way \<Rightarrow> 'a \<Rightarrow> 'a \<times> 'a \<times> 'a \<Rightarrow> 'a \<times> 'a \<times> 'a \<times> 'a" where
  "way_insert Leftmost x (b, c, d) = (x, b, c, d)"
| "way_insert Left x (a, c, d) = (a, x, c, d)"
| "way_insert Right x (a, b, d) = (a, b, x, d)"
| "way_insert Rightmost x (a, b, c) = (a, b, c, x)"

fun way_pick :: "which_way \<Rightarrow> 'a \<times> 'a \<times> 'a \<times> 'a \<Rightarrow> 'a \<times> 'a \<times> 'a \<times> 'a" where
  "way_pick Leftmost (x, a, b, c) = (x, a, b, c)"
| "way_pick Left (a, x, b, c) = (x, a, b, c)"
| "way_pick Right (a, b, x, c) = (x, a, b, c)"
| "way_pick Rightmost (a, b, c, x) = (x, a, b, c)"

section \<open>Paths\<close>

datatype path =
    PathLeaf
  | PathNode (path_siblings: "fq \<times> fq \<times> fq") (path_child: path)

fun path_root :: "hasher \<Rightarrow> nat \<Rightarrow> path \<Rightarrow> u64 \<Rightarrow> fq \<Rightarrow> fq" where
  "path_root H height PathLeaf index leaf = leaf"
| "path_root H height (PathNode siblings child) index leaf =
     (let (w, _) = which_way_at height index;
          (leftmost, left, right, rightmost) =
            way_insert w (path_root H (height - 1) child index leaf) siblings
      in hash_node H height leftmost left right rightmost)"

text \<open>The answer of a node's \<open>witness\<close>, from its child's: \<open>Some((path::Node {..}, leaf))\<close>.\<close>

definition node_answer :: "fq \<times> fq \<times> fq \<Rightarrow> (path \<times> fq) option \<Rightarrow> (path \<times> fq) option" where
  "node_answer s r = (case r of None \<Rightarrow> None | Some (child, leaf) \<Rightarrow> Some (PathNode s child, leaf))"

section \<open>Proofs\<close>

record tct_proof =
  pf_position :: u64
  pf_auth_path :: path
  pf_leaf :: fq

definition proof_verify :: "hasher \<Rightarrow> nat \<Rightarrow> tct_proof \<Rightarrow> fq \<Rightarrow> unit result" where
  "proof_verify H height p root =
     (if root = path_root H height (pf_auth_path p) (pf_position p) (hash_of H (pf_leaf p))
      then Inr () else Inl (Err ''invalid inclusion proof for root hash''))"

text \<open>
  \<open>Proof::new\<close> nests the 24 sibling triples, the last one innermost;
  \<open>Proof::auth_path\<close> reads them back from the outside.
\<close>

definition proof_new :: "fq \<Rightarrow> u64 \<Rightarrow> (fq \<times> fq \<times> fq) list \<Rightarrow> tct_proof" where
  "proof_new commitment position auth_path =
     \<lparr>pf_position = position, pf_auth_path = foldr PathNode auth_path PathLeaf,
      pf_leaf = commitment\<rparr>"

fun path_triples :: "path \<Rightarrow> (fq \<times> fq \<times> fq) list" where
  "path_triples PathLeaf = []"
| "path_triples (PathNode siblings child) = siblings # path_triples child"

definition proof_auth_path :: "tct_proof \<Rightarrow> (fq \<times> fq \<times> fq) list" where
  "proof_auth_path p = path_triples (pf_auth_path p)"

section \<open>Digits of an index\<close>

abbreviation path_length :: "path \<Rightarrow> nat" where
  "path_length p \<equiv> length (path_triples p)"

definition digit :: "nat \<Rightarrow> nat \<Rightarrow> nat" where
  "digit k n = n div 4 ^ k mod 4"

fun way_of_digit :: "nat \<Rightarrow> which_way" where
  "way_of_digit 0 = Leftmost"
| "way_of_digit (Suc 0) = Left"
| "way_of_digit (Suc (Suc 0)) = Right"
| "way_of_digit (Suc (Suc (Suc _))) = Rightmost"

lemma three_eq_mask: "(3 :: 'a::len word) = mask 2"
  by (simp add: mask_eq_exp_minus_1)

lemma four_pow: "(4 :: nat) ^ k = 2 ^ (2 * k)"
  by (simp add: power_mult)

lemma unat_direction: "unat (drop_bit (2 * k) (i :: u64) AND 3) = digit k (unat i)"
proof -
  have "unat (take_bit 2 (drop_bit (2 * k) i)) = take_bit 2 (drop_bit (2 * k) (unat i))"
    by (simp only: unsigned_take_bit_eq unsigned_drop_bit_eq)
      (simp add: take_bit_nat_eq_self)
  then show ?thesis
    by (simp add: three_eq_mask digit_def four_pow take_bit_eq_mod drop_bit_eq_div
        flip: take_bit_eq_mask)
qed

lemma bit_mask_at: "bit (push_bit (2 * k) (3 :: u64)) n \<longleftrightarrow> 2 * k \<le> n \<and> n < 2 * k + 2 \<and> n < 64"
  by (auto simp: three_eq_mask bit_push_bit_iff bit_mask_iff)

lemma which_way_at_fst:
  "fst (which_way_at (Suc k) i) = way_of_digit (digit k (unat i))"
proof -
  let ?d = "drop_bit (2 * k) i AND 3"
  have u: "unat ?d = digit k (unat i)" by (rule unat_direction)
  have lt: "digit k (unat i) < 4" by (simp add: digit_def)
  have eq: "?d = 0 \<longleftrightarrow> digit k (unat i) = 0" "?d = 1 \<longleftrightarrow> digit k (unat i) = 1"
    "?d = 2 \<longleftrightarrow> digit k (unat i) = 2"
    using u by (auto simp: word_unat_eq_iff)
  have "digit k (unat i) \<in> {0, 1, 2, 3}" using lt by auto
  then show ?thesis
    unfolding which_way_at_def Let_def diff_Suc_1 eq fst_conv
    by (auto simp: numeral_2_eq_2 numeral_3_eq_3)
qed

text \<open>Masking the digit just used leaves the digits of the other heights.\<close>

lemma which_way_at_snd_bit:
  "bit (snd (which_way_at (Suc k) i)) n \<longleftrightarrow> bit i n \<and> \<not> (2 * k \<le> n \<and> n < 2 * k + 2)"
  using bit_imp_le_length [of i n]
  unfolding which_way_at_def Let_def snd_conv diff_Suc_1 mult.commute [of k 2]
  by (auto simp: bit_and_iff bit_not_iff bit_mask_at)

lemma child_index_unat:
  assumes "unat i < 4 ^ Suc k"
  shows "unat (snd (which_way_at (Suc k) i)) = unat i mod 4 ^ k"
proof -
  have "bit i n \<Longrightarrow> n < 2 * k + 2" for n
  proof -
    assume "bit i n"
    then have "bit (unat i) n" by (simp add: bit_unsigned_iff bit_imp_le_length)
    then have "unat i div 2 ^ n \<noteq> 0" by (metis bit_iff_odd even_zero)
    then have "2 ^ n \<le> unat i" by (simp add: div_eq_0_iff)
    then have "(2 :: nat) ^ n < 2 ^ (2 * k + 2)"
      using assms by (simp add: four_pow)
    then show ?thesis by (rule power_less_imp_less_exp [rotated]) simp
  qed
  then have "snd (which_way_at (Suc k) i) = take_bit (2 * k) i"
    by (intro bit_word_eqI) (auto simp: which_way_at_snd_bit bit_take_bit_iff)
  then show ?thesis
    by (simp only: unsigned_take_bit_eq four_pow) (rule take_bit_eq_mod)
qed

lemma digit_mod: "k < m \<Longrightarrow> digit k (n mod 4 ^ m) = digit k n"
proof -
  assume "k < m"
  then have "(4 :: nat) ^ m = 4 ^ k * 4 ^ (m - k)" "4 dvd (4 :: nat) ^ (m - k)"
    by (simp_all flip: power_add)
  then show ?thesis
    by (simp add: digit_def mod_mult2_eq mod_mod_cancel)
qed

lemma digit_lt [simp]: "digit k n < 4"
  by (simp add: digit_def)

lemma index_split:
  assumes "i < 4 ^ Suc k"
  shows "digit k i * 4 ^ k + i mod 4 ^ k = i"
proof -
  from assms have "i div 4 ^ k < 4"
    by (simp add: less_mult_imp_div_less)
  then show ?thesis
    by (simp only: digit_def mod_less div_mult_mod_eq)
qed

lemma way_of_digit_inject:
  "m < 4 \<Longrightarrow> n < 4 \<Longrightarrow> way_of_digit m = way_of_digit n \<longleftrightarrow> m = n"
proof -
  assume "m < 4" "n < 4"
  then have "m \<in> {0, 1, 2, 3}" "n \<in> {0, 1, 2, 3}" by auto
  then show ?thesis by (auto simp: numeral_2_eq_2 numeral_3_eq_3)
qed

lemma index_eq_iff:
  assumes "m < 4 ^ Suc k" and "n < 4 ^ Suc k"
  shows "m = n \<longleftrightarrow>
    way_of_digit (digit k m) = way_of_digit (digit k n) \<and> m mod 4 ^ k = n mod 4 ^ k"
  using index_split [OF assms(1)] index_split [OF assms(2)]
  by (metis way_of_digit_inject digit_lt)

lemma path_root_cong:
  assumes "path_length p \<le> h" and "unat i mod 4 ^ h = unat j mod 4 ^ h"
  shows "path_root H h p i leaf = path_root H h p j leaf"
  using assms
proof (induction p arbitrary: h)
  case PathLeaf
  then show ?case by simp
next
  case (PathNode s p)
  then obtain k where h: "h = Suc k" by (cases h) auto
  have "digit k (unat i) = digit k (unat j)"
    using PathNode.prems(2) digit_mod [of k h "unat i"] digit_mod [of k h "unat j"]
    by (simp add: h)
  then have w: "fst (which_way_at h i) = fst (which_way_at h j)"
    by (simp add: h which_way_at_fst)
  have "unat i mod 4 ^ k = unat j mod 4 ^ k"
    using PathNode.prems(2) mod_mod_cancel [of "4 ^ k" "4 ^ Suc k" "unat i"]
      mod_mod_cancel [of "4 ^ k" "4 ^ Suc k" "unat j"] by (simp add: h)
  then have "path_root H k p i leaf = path_root H k p j leaf"
    using PathNode by (simp add: h)
  then show ?case
    using w by (simp add: h case_prod_beta)
qed

text \<open>The step of a path's root, with the child read at the child's own index.\<close>

lemma path_root_step:
  assumes "path_length p = k" and "unat i < 4 ^ Suc k"
  shows "path_root H (Suc k) (PathNode s p) i leaf =
    (case way_insert (fst (which_way_at (Suc k) i))
       (path_root H k p (snd (which_way_at (Suc k) i)) leaf) s of
     (a, b, c, d) \<Rightarrow> hash_node H (Suc k) a b c d)"
proof -
  have "path_root H k p i leaf = path_root H k p (snd (which_way_at (Suc k) i)) leaf"
    by (rule path_root_cong) (use assms in \<open>simp_all add: child_index_unat\<close>)
  then show ?thesis
    by (simp add: case_prod_beta)
qed

lemma path_root_node:
  assumes "path_length p = k" and "unat i < 4 ^ Suc k"
    and "way_insert (fst (which_way_at (Suc k) i))
       (path_root H k p (snd (which_way_at (Suc k) i)) leaf) s = (a, b, c, d)"
  shows "path_root H (Suc k) (PathNode s p) i leaf = hash_node H (Suc k) a b c d"
  by (simp only: path_root_step [OF assms(1,2)] assms(3) prod.case)

lemma way_insert_map:
  "way_insert w x (s, t, u) = (a, b, c, d) \<Longrightarrow>
     way_insert w (f x) (f s, f t, f u) = (f a, f b, f c, f d)"
  by (cases w) auto

lemma way_insert_pick:
  "way_insert w (fst (way_pick w t)) (snd (way_pick w t)) = t"
  by (cases w; cases t) auto

lemma way_pick_insert: "way_pick w (way_insert w x s) = (x, s)"
  by (cases w; cases s) auto

text \<open>
  What a tree of height \<open>h\<close> with the given root promises of the answer to a witness
  request for the index \<open>i\<close>: nothing if there is no leaf to read, and otherwise that
  leaf with a path of length \<open>h\<close> that hashes to the root.
\<close>

definition witness_ok :: "hasher \<Rightarrow> nat \<Rightarrow> u64 \<Rightarrow> fq \<Rightarrow> fq option \<Rightarrow> (path \<times> fq) option \<Rightarrow> bool" where
  "witness_ok H h i root leaf answer =
     (case answer of
        None \<Rightarrow> leaf = None
      | Some (p, x) \<Rightarrow> leaf = Some x \<and> path_length p = h \<and> path_root H h p i x = root)"

lemma witness_ok_None [simp]: "witness_ok H h i root leaf None \<longleftrightarrow> leaf = None"
  by (simp add: witness_ok_def)

lemma witness_ok_Some:
  "witness_ok H h i root leaf (Some (p, x)) \<longleftrightarrow>
     leaf = Some x \<and> path_length p = h \<and> path_root H h p i x = root"
  by (simp add: witness_ok_def)

text \<open>A child's answer, extended by the hashes of its siblings, is an answer of the node.\<close>

lemma witness_ok_node:
  assumes "witness_ok H k (snd (which_way_at (Suc k) i)) x leaf answer"
    and "unat i < 4 ^ Suc k"
    and "way_insert (fst (which_way_at (Suc k) i)) x s = (a, b, c, d)"
  shows "witness_ok H (Suc k) i (hash_node H (Suc k) a b c d) leaf
    (node_answer s answer)"
proof (cases answer)
  case None
  then show ?thesis using assms(1) by (simp add: node_answer_def)
next
  case (Some r)
  obtain p y where r: "r = (p, y)" by (cases r)
  have "path_root H (Suc k) (PathNode s p) i y = hash_node H (Suc k) a b c d"
    using assms Some r by (simp add: path_root_node witness_ok_Some del: path_root.simps)
  then show ?thesis
    using assms(1) Some r by (simp add: node_answer_def witness_ok_Some del: path_root.simps)
qed

section \<open>Trees that witness and forget\<close>

text \<open>
  The interface \<open>Witness\<close>: a tree of a fixed height with a root hash and leaves to read.
  Whatever its representation, a leaf that is the hash of a commitment has a proof that
  verifies.
\<close>

locale merkle_view =
  fixes H :: hasher and h :: nat
    and ok :: "'t \<Rightarrow> bool" and root :: "'t \<Rightarrow> fq" and read :: "'t \<Rightarrow> nat \<Rightarrow> fq option"
    and witness :: "'t \<Rightarrow> u64 \<Rightarrow> (path \<times> fq) option"
  assumes witness_law: "ok x \<Longrightarrow> unat i < 4 ^ h \<Longrightarrow>
      witness_ok H h i (root x) (read x (unat i)) (witness x i)"
begin

lemma witness_absent:
  "ok x \<Longrightarrow> unat i < 4 ^ h \<Longrightarrow> witness x i = None \<longleftrightarrow> read x (unat i) = None"
  using witness_law [of x i] by (cases "witness x i") (auto simp: witness_ok_def)

lemma witness_present:
  assumes "ok x" and "unat i < 4 ^ h" and "witness x i = Some (p, leaf)"
  shows "read x (unat i) = Some leaf" and "path_length p = h" and "path_root H h p i leaf = root x"
  using witness_law [OF assms(1,2)] assms(3) by (simp_all add: witness_ok_Some)

lemma witness_verifies:
  assumes "ok x" and "unat i < 4 ^ h" and "read x (unat i) = Some (hash_of H c)"
  shows "\<exists>p. witness x i = Some (p, hash_of H c) \<and>
    proof_verify H h \<lparr>pf_position = i, pf_auth_path = p, pf_leaf = c\<rparr> (root x) = Inr ()"
proof -
  obtain p leaf where w: "witness x i = Some (p, leaf)"
    using witness_absent [OF assms(1,2)] assms(3) by (cases "witness x i") auto
  note wp = witness_present [OF assms(1,2) w]
  then have "leaf = hash_of H c" using assms(3) by simp
  with wp(3) have "proof_verify H h \<lparr>pf_position = i, pf_auth_path = p, pf_leaf = c\<rparr> (root x) = Inr ()"
    by (simp add: proof_verify_def)
  with w \<open>leaf = hash_of H c\<close> show ?thesis by blast
qed

end

text \<open>
  The interface \<open>Forget\<close> on top of it: forgetting one index keeps the root and what else is
  kept, so the proofs of the other leaves go on to verify against the same root.
\<close>

locale merkle_store = merkle_view +
  fixes kept :: "'t \<Rightarrow> nat \<Rightarrow> fq option" and forget :: "'t \<Rightarrow> u64 \<Rightarrow> ('t \<times> bool) result"
  assumes kept_law: "kept x n = Some y \<Longrightarrow> read x n = Some y"
    and forget_law: "ok x \<Longrightarrow> unat i < 4 ^ h \<Longrightarrow> \<exists>x' b. forget x i = Inr (x', b) \<and> ok x' \<and>
      root x' = root x \<and> (b \<longleftrightarrow> kept x (unat i) \<noteq> None) \<and>
      (\<forall>n < 4 ^ h. kept x' n = (if n = unat i then None else kept x n))"
begin

lemma forget_others_verify:
  assumes "ok x" and "unat i < 4 ^ h" and "unat j < 4 ^ h" and "i \<noteq> j"
    and "kept x (unat j) = Some (hash_of H c)" and "forget x i = Inr (x', b)"
  shows "\<exists>p. witness x' j = Some (p, hash_of H c) \<and>
    proof_verify H h \<lparr>pf_position = j, pf_auth_path = p, pf_leaf = c\<rparr> (root x) = Inr ()"
proof -
  have x': "ok x'" "root x' = root x" "kept x' (unat j) = kept x (unat j)"
    using forget_law [OF assms(1,2)] assms(3,4,6) by (auto simp: word_unat_eq_iff)
  then show ?thesis
    using witness_verifies [OF x'(1) assms(3), of c] kept_law assms(5) by simp
qed

lemma forget_again:
  assumes "ok x" and "unat i < 4 ^ h" and "forget x i = Inr (x', b)"
  shows "\<exists>x''. forget x' i = Inr (x'', False) \<and> root x'' = root x"
proof -
  have x': "ok x'" "root x' = root x" "kept x' (unat i) = None"
    using forget_law [OF assms(1,2)] assms(2,3) by auto
  then show ?thesis using forget_law [OF x'(1) assms(2)] by auto
qed

end

section \<open>Cached hashes\<close>

text \<open>
  If no field element has only ones as its limbs and the limbs determine the element, the
  cache behaves as an optional hash that is computed once.
\<close>

lemma cache_behaves:
  assumes "\<And>x. into_bytes x \<noteq> no_limbs" and "\<And>x. from_bytes (into_bytes x) = x"
  shows "option_hash_get from_bytes (option_hash_of into_bytes hash) = hash"
    and "option_hash_get from_bytes l = Some x \<Longrightarrow>
      cache_set_if_empty into_bytes from_bytes l new = (l, Inr x)"
    and "option_hash_get from_bytes l = None \<Longrightarrow>
      cache_set_if_empty into_bytes from_bytes l new = (into_bytes new, Inr new)"
  using assms
  by (auto simp: option_hash_get_def option_hash_of_def cache_set_if_empty_def split: option.split)

section \<open>Proofs bind the leaf\<close>

text \<open>
  The first height, from the root down, at which two paths hash different children to the
  same node.
\<close>

fun find_collision :: "hasher \<Rightarrow> nat \<Rightarrow> u64 \<Rightarrow> path \<Rightarrow> fq \<Rightarrow> path \<Rightarrow> fq
    \<Rightarrow> (nat \<times> (fq \<times> fq \<times> fq \<times> fq) \<times> (fq \<times> fq \<times> fq \<times> fq)) option" where
  "find_collision H h i (PathNode s p) x (PathNode t q) y =
     (let w = fst (which_way_at h i);
          u = way_insert w (path_root H (h - 1) p i x) s;
          v = way_insert w (path_root H (h - 1) q i y) t
      in if u \<noteq> v then Some (h, u, v) else find_collision H (h - 1) i p x q y)"
| "find_collision H h i _ x _ y = None"

definition node_collision :: "hasher \<Rightarrow> nat \<times> (fq \<times> fq \<times> fq \<times> fq) \<times> (fq \<times> fq \<times> fq \<times> fq) \<Rightarrow> bool" where
  "node_collision H k =
     (case k of (h, (a, b, c, d), (a', b', c', d')) \<Rightarrow>
        (a, b, c, d) \<noteq> (a', b', c', d') \<and> hash_node H h a b c d = hash_node H h a' b' c' d')"

lemma path_triples_Nil: "path_triples p = [] \<longleftrightarrow> p = PathLeaf"
  by (cases p) simp_all

lemma find_collision_correct:
  assumes "path_length p = path_length q" and "x \<noteq> y"
    and "path_root H h p i x = path_root H h q i y"
  shows "\<exists>k. find_collision H h i p x q y = Some k \<and> node_collision H k"
  using assms
proof (induction H h i p x q y rule: find_collision.induct)
  case (1 H h i s p x t q y)
  let ?w = "fst (which_way_at h i)"
  obtain a b c d where u: "way_insert ?w (path_root H (h - 1) p i x) s = (a, b, c, d)"
    by (metis prod_cases4)
  obtain a' b' c' d' where v: "way_insert ?w (path_root H (h - 1) q i y) t = (a', b', c', d')"
    by (metis prod_cases4)
  have hn: "hash_node H h a b c d = hash_node H h a' b' c' d'"
    using "1.prems"(3) u v by (simp add: case_prod_beta)
  show ?case
  proof (cases "(a, b, c, d) = (a', b', c', d')")
    case True
    then have "path_root H (h - 1) p i x = path_root H (h - 1) q i y"
      using u v way_pick_insert [of ?w _ s] way_pick_insert [of ?w _ t]
      by (metis prod.inject)
    then show ?thesis
      using "1.IH" "1.prems" True u v by (auto simp: Let_def)
  next
    case False
    then show ?thesis
      using hn u v by (auto simp: Let_def node_collision_def)
  qed
qed (auto simp: path_triples_Nil)

text \<open>
  C31: Inclusion proofs are binding.  If two proofs for the same position, with paths of the
  same length, verify against the same root but claim different commitments, then either
  \<open>Hash::of\<close> maps the two commitments to the same hash or the two paths contain, at a
  height that \<open>find_collision\<close> computes, two different quadruples of children with the
  same node hash.
\<close>

theorem proof_binding:
  assumes "proof_verify H h p root = Inr ()" and "proof_verify H h q root = Inr ()"
    and "pf_position p = pf_position q" and "length (proof_auth_path p) = length (proof_auth_path q)"
    and "pf_leaf p \<noteq> pf_leaf q"
  shows "hash_of H (pf_leaf p) = hash_of H (pf_leaf q) \<or>
    (\<exists>k. find_collision H h (pf_position p) (pf_auth_path p) (hash_of H (pf_leaf p))
            (pf_auth_path q) (hash_of H (pf_leaf q)) = Some k \<and> node_collision H k)"
proof (rule disjCI)
  assume "\<not> (\<exists>k. find_collision H h (pf_position p) (pf_auth_path p) (hash_of H (pf_leaf p))
            (pf_auth_path q) (hash_of H (pf_leaf q)) = Some k \<and> node_collision H k)"
  moreover have "path_root H h (pf_auth_path p) (pf_position p) (hash_of H (pf_leaf p)) =
      path_root H h (pf_auth_path q) (pf_position p) (hash_of H (pf_leaf q))"
    using assms(1,2,3) by (simp add: proof_verify_def split: if_splits)
  moreover have "path_length (pf_auth_path p) = path_length (pf_auth_path q)"
    using assms(4) by (simp add: proof_auth_path_def)
  ultimately show "hash_of H (pf_leaf p) = hash_of H (pf_leaf q)"
    using find_collision_correct by blast
qed

text \<open>
  \<open>Proof::new\<close> and the accessors are inverse: a proof built from a commitment, a
  position and the 24 sibling triples gives them back in the same order.
\<close>

theorem proof_new_roundtrip:
  "proof_auth_path (proof_new c pos ts) = ts"
  "pf_position (proof_new c pos ts) = pos"
  "pf_leaf (proof_new c pos ts) = c"
  "proof_new (pf_leaf p) (pf_position p) (proof_auth_path p) = p"
proof -
  have "path_triples (foldr PathNode ts PathLeaf) = ts"
    by (induction ts) auto
  then show "proof_auth_path (proof_new c pos ts) = ts"
    by (simp add: proof_auth_path_def proof_new_def)
  have "foldr PathNode (path_triples q) PathLeaf = q" for q
    by (induction q) auto
  then show "proof_new (pf_leaf p) (pf_position p) (proof_auth_path p) = p"
    by (simp add: proof_auth_path_def proof_new_def)
qed (simp_all add: proof_new_def)

end
