(* ===== verification/TCT_Complete.thy ===== *)
theory TCT_Complete
  imports TCT_Path
begin

text \<open>
  Complete (frozen) subtrees of the tiered commitment tree: \<open>internal/insert.rs\<close>,
  \<open>internal/three.rs\<close>, \<open>internal/height.rs\<close> and \<open>internal/complete/*.rs\<close>.

  The Rust code nests generic types, \<open>Node<Node<..Leaf<Item>>>\<close>, and dispatches on
  them; here one datatype \<open>complete\<close> has a constructor per Rust type, and the Rust types
  themselves are the values of \<open>ty\<close>: \<open>c_ok t c\<close> says that \<open>c\<close> is a value of the
  type \<open>t\<close>, and \<open>ty_height\<close> is \<open>Height::HEIGHT\<close>.  Cached hashes are left out: a
  cache only saves recomputing the hash it holds.

  A complete tree means the partial map \<open>kept_c\<close> from leaf indices to witnessed hashes.
  The lemmas show that witnessing returns exactly that map together with a path that
  hashes to the root, and that forgetting removes one entry and keeps the root hash and
  the type.
\<close>

named_theorems tct_simps \<open>evaluation of the tree operations on constructors\<close>

section \<open>Either an item or its hash\<close>

datatype 'a insertion = Keep 'a | Hash fq

fun is_keep :: "'a insertion \<Rightarrow> bool" where
  "is_keep (Keep _) = True"
| "is_keep (Hash _) = False"

fun is_hash :: "'a insertion \<Rightarrow> bool" where
  "is_hash (Hash _) = True"
| "is_hash (Keep _) = False"

fun ins_map :: "('a \<Rightarrow> 'b) \<Rightarrow> 'a insertion \<Rightarrow> 'b insertion" where
  "ins_map f (Keep x) = Keep (f x)"
| "ins_map f (Hash h) = Hash h"

fun ins_and_then :: "('a \<Rightarrow> 'b insertion) \<Rightarrow> 'a insertion \<Rightarrow> 'b insertion" where
  "ins_and_then f (Keep x) = f x"
| "ins_and_then f (Hash h) = Hash h"

fun ins_keep :: "'a insertion \<Rightarrow> 'a option" where
  "ins_keep (Keep x) = Some x"
| "ins_keep (Hash _) = None"

fun ins_hash :: "('a \<Rightarrow> fq) \<Rightarrow> 'a insertion \<Rightarrow> fq" where
  "ins_hash f (Keep x) = f x"
| "ins_hash f (Hash h) = h"

text \<open>\<open>Insert::forget\<close>, given \<open>forget_owned\<close> of the item.\<close>

fun ins_forget :: "('a \<Rightarrow> 'a insertion \<times> bool) \<Rightarrow> 'a insertion \<Rightarrow> 'a insertion \<times> bool" where
  "ins_forget f (Keep x) = f x"
| "ins_forget f (Hash h) = (Hash h, False)"

text \<open>\<open>child.keep()?.witness(index)?\<close>, given \<open>witness\<close> of the item.\<close>

fun ins_witness :: "('a \<Rightarrow> 'b option) \<Rightarrow> 'a insertion \<Rightarrow> 'b option" where
  "ins_witness f (Keep x) = f x"
| "ins_witness f (Hash h) = None"

fun ins_all :: "('a \<Rightarrow> bool) \<Rightarrow> 'a insertion \<Rightarrow> bool" where
  "ins_all P (Keep x) = P x"
| "ins_all P (Hash h) = True"

lemma ins_hash_cong [fundef_cong]:
  "x = y \<Longrightarrow> (\<And>z. z \<in> set_insertion y \<Longrightarrow> f z = g z) \<Longrightarrow> ins_hash f x = ins_hash g y"
  by (cases x) auto

lemma ins_forget_cong [fundef_cong]:
  "x = y \<Longrightarrow> (\<And>z. z \<in> set_insertion y \<Longrightarrow> f z = g z) \<Longrightarrow> ins_forget f x = ins_forget g y"
  by (cases x) auto

lemma ins_witness_cong [fundef_cong]:
  "x = y \<Longrightarrow> (\<And>z. z \<in> set_insertion y \<Longrightarrow> f z = g z) \<Longrightarrow> ins_witness f x = ins_witness g y"
  by (cases x) auto

lemma ins_all_cong [fundef_cong]:
  "x = y \<Longrightarrow> (\<And>z. z \<in> set_insertion y \<Longrightarrow> f z = g z) \<Longrightarrow> ins_all f x = ins_all g y"
  by (cases x) auto

lemma size_in_insertion [termination_simp]:
  "z \<in> set_insertion x \<Longrightarrow> f z < size_insertion f x"
  by (cases x) auto

section \<open>At most three elements\<close>

text \<open>A \<open>Three\<close> is the enumeration \<open>Elems\<close> of its elements.\<close>

datatype 'a three = Three0 | Three1 'a | Three2 'a 'a | Three3 'a 'a 'a

fun three_push :: "'a three \<Rightarrow> 'a \<Rightarrow> 'a \<times> 'a \<times> 'a \<times> 'a + 'a three" where
  "three_push Three0 x = Inr (Three1 x)"
| "three_push (Three1 a) x = Inr (Three2 a x)"
| "three_push (Three2 a b) x = Inr (Three3 a b x)"
| "three_push (Three3 a b c) x = Inl (a, b, c, x)"

fun three_is_full :: "'a three \<Rightarrow> bool" where
  "three_is_full (Three3 a b c) = True"
| "three_is_full _ = False"

fun three_len :: "'a three \<Rightarrow> nat" where
  "three_len Three0 = 0"
| "three_len (Three1 a) = 1"
| "three_len (Three2 a b) = 2"
| "three_len (Three3 a b c) = 3"

fun three_map :: "('a \<Rightarrow> 'b) \<Rightarrow> 'a three \<Rightarrow> 'b three" where
  "three_map f Three0 = Three0"
| "three_map f (Three1 a) = Three1 (f a)"
| "three_map f (Three2 a b) = Three2 (f a) (f b)"
| "three_map f (Three3 a b c) = Three3 (f a) (f b) (f c)"

fun three_all :: "('a \<Rightarrow> bool) \<Rightarrow> 'a three \<Rightarrow> bool" where
  "three_all P Three0 = True"
| "three_all P (Three1 a) = P a"
| "three_all P (Three2 a b) = (P a \<and> P b)"
| "three_all P (Three3 a b c) = (P a \<and> P b \<and> P c)"

lemma three_push_full: "(\<exists>q. three_push s x = Inl q) \<longleftrightarrow> three_is_full s"
  by (cases s) auto

lemma three_is_full_len: "three_is_full s \<longleftrightarrow> three_len s = 3"
  by (cases s) auto

lemma three_len_le: "three_len s \<le> 3"
  by (cases s) auto

text \<open>
  Deserialization of a \<open>Three\<close>: \<open>visit_seq\<close> reads up to four elements and rejects a
  fifth; \<open>elems\<close> on the vector it built has no case for four.
\<close>

definition three_visit_seq :: "'a list \<Rightarrow> 'a list result" where
  "three_visit_seq xs =
     (let elems = take 4 xs in
      if drop 4 xs \<noteq> [] then Inl (Err ''invalid length: at most 3 elements'') else Inr elems)"

definition three_elems :: "'a list \<Rightarrow> 'a three result" where
  "three_elems xs =
     (case xs of
        [] \<Rightarrow> Inr Three0
      | [a] \<Rightarrow> Inr (Three1 a)
      | [a, b] \<Rightarrow> Inr (Three2 a b)
      | [a, b, c] \<Rightarrow> Inr (Three3 a b c)
      | _ \<Rightarrow> Inl (Panic ''impossible for Three to contain more than 3 elements''))"

lemma three_visit_seq_short:
  "length xs \<le> 3 \<Longrightarrow> \<exists>s. bindR (three_visit_seq xs) three_elems = Inr s \<and> three_len s = length xs"
  by (auto simp: three_visit_seq_def three_elems_def split: list.split)

lemma three_visit_seq_four:
  "three_visit_seq [a, b, c, d] = Inr [a, b, c, d] \<and> (\<exists>m. three_elems [a, b, c, d] = Inl (Panic m))"
  by (simp add: three_visit_seq_def three_elems_def)

section \<open>The children of a complete node\<close>

text \<open>The fifteen shapes of \<open>Children\<close>: a bit per position says whether a child is kept.\<close>

datatype 'c children =
    Ch0001 fq fq fq 'c | Ch0010 fq fq 'c fq | Ch0011 fq fq 'c 'c | Ch0100 fq 'c fq fq
  | Ch0101 fq 'c fq 'c | Ch0110 fq 'c 'c fq | Ch0111 fq 'c 'c 'c | Ch1000 'c fq fq fq
  | Ch1001 'c fq fq 'c | Ch1010 'c fq 'c fq | Ch1011 'c fq 'c 'c | Ch1100 'c 'c fq fq
  | Ch1101 'c 'c fq 'c | Ch1110 'c 'c 'c fq | Ch1111 'c 'c 'c 'c

fun children_try_from ::
  "'c insertion \<Rightarrow> 'c insertion \<Rightarrow> 'c insertion \<Rightarrow> 'c insertion \<Rightarrow> fq \<times> fq \<times> fq \<times> fq + 'c children" where
  "children_try_from (Hash a) (Hash b) (Hash c) (Hash d) = Inl (a, b, c, d)"
| "children_try_from (Hash a) (Hash b) (Hash c) (Keep d) = Inr (Ch0001 a b c d)"
| "children_try_from (Hash a) (Hash b) (Keep c) (Hash d) = Inr (Ch0010 a b c d)"
| "children_try_from (Hash a) (Hash b) (Keep c) (Keep d) = Inr (Ch0011 a b c d)"
| "children_try_from (Hash a) (Keep b) (Hash c) (Hash d) = Inr (Ch0100 a b c d)"
| "children_try_from (Hash a) (Keep b) (Hash c) (Keep d) = Inr (Ch0101 a b c d)"
| "children_try_from (Hash a) (Keep b) (Keep c) (Hash d) = Inr (Ch0110 a b c d)"
| "children_try_from (Hash a) (Keep b) (Keep c) (Keep d) = Inr (Ch0111 a b c d)"
| "children_try_from (Keep a) (Hash b) (Hash c) (Hash d) = Inr (Ch1000 a b c d)"
| "children_try_from (Keep a) (Hash b) (Hash c) (Keep d) = Inr (Ch1001 a b c d)"
| "children_try_from (Keep a) (Hash b) (Keep c) (Hash d) = Inr (Ch1010 a b c d)"
| "children_try_from (Keep a) (Hash b) (Keep c) (Keep d) = Inr (Ch1011 a b c d)"
| "children_try_from (Keep a) (Keep b) (Hash c) (Hash d) = Inr (Ch1100 a b c d)"
| "children_try_from (Keep a) (Keep b) (Hash c) (Keep d) = Inr (Ch1101 a b c d)"
| "children_try_from (Keep a) (Keep b) (Keep c) (Hash d) = Inr (Ch1110 a b c d)"
| "children_try_from (Keep a) (Keep b) (Keep c) (Keep d) = Inr (Ch1111 a b c d)"

fun children_of ::
  "'c children \<Rightarrow> 'c insertion \<times> 'c insertion \<times> 'c insertion \<times> 'c insertion" where
  "children_of (Ch0001 a b c d) = (Hash a, Hash b, Hash c, Keep d)"
| "children_of (Ch0010 a b c d) = (Hash a, Hash b, Keep c, Hash d)"
| "children_of (Ch0011 a b c d) = (Hash a, Hash b, Keep c, Keep d)"
| "children_of (Ch0100 a b c d) = (Hash a, Keep b, Hash c, Hash d)"
| "children_of (Ch0101 a b c d) = (Hash a, Keep b, Hash c, Keep d)"
| "children_of (Ch0110 a b c d) = (Hash a, Keep b, Keep c, Hash d)"
| "children_of (Ch0111 a b c d) = (Hash a, Keep b, Keep c, Keep d)"
| "children_of (Ch1000 a b c d) = (Keep a, Hash b, Hash c, Hash d)"
| "children_of (Ch1001 a b c d) = (Keep a, Hash b, Hash c, Keep d)"
| "children_of (Ch1010 a b c d) = (Keep a, Hash b, Keep c, Hash d)"
| "children_of (Ch1011 a b c d) = (Keep a, Hash b, Keep c, Keep d)"
| "children_of (Ch1100 a b c d) = (Keep a, Keep b, Hash c, Hash d)"
| "children_of (Ch1101 a b c d) = (Keep a, Keep b, Hash c, Keep d)"
| "children_of (Ch1110 a b c d) = (Keep a, Keep b, Keep c, Hash d)"
| "children_of (Ch1111 a b c d) = (Keep a, Keep b, Keep c, Keep d)"

text \<open>
  The enumeration represents four children exactly when one of them is kept, and loses
  nothing: a complete node may be read as four insertions, one of them kept.
\<close>

lemma children_try_from_Inr:
  "children_try_from a b c d = Inr x \<longleftrightarrow> children_of x = (a, b, c, d)"
  by (cases a; cases b; cases c; cases d; cases x) auto

lemma children_try_from_Inl:
  "children_try_from a b c d = Inl q \<longleftrightarrow>
     (case q of (h0, h1, h2, h3) \<Rightarrow> a = Hash h0 \<and> b = Hash h1 \<and> c = Hash h2 \<and> d = Hash h3)"
  by (cases a; cases b; cases c; cases d; cases q) auto

section \<open>Complete trees\<close>

datatype complete =
    CItem fq
  | CLeaf complete
  | CNode "complete insertion" "complete insertion" "complete insertion" "complete insertion"
  | CTier complete

fun hash_c :: "hasher \<Rightarrow> nat \<Rightarrow> complete \<Rightarrow> fq" where
  "hash_c H h (CItem x) = x"
| "hash_c H h (CLeaf c) = hash_c H h c"
| "hash_c H h (CNode a b c d) =
     hash_node H h (ins_hash (hash_c H (h - 1)) a) (ins_hash (hash_c H (h - 1)) b)
       (ins_hash (hash_c H (h - 1)) c) (ins_hash (hash_c H (h - 1)) d)"
| "hash_c H h (CTier c) = hash_c H h c"

abbreviation hash_i :: "hasher \<Rightarrow> nat \<Rightarrow> complete insertion \<Rightarrow> fq" where
  "hash_i H h \<equiv> ins_hash (hash_c H h)"

definition from_children_or_else_hash :: "hasher \<Rightarrow> nat \<Rightarrow> complete insertion \<Rightarrow> complete insertion
    \<Rightarrow> complete insertion \<Rightarrow> complete insertion \<Rightarrow> complete insertion" where
  "from_children_or_else_hash H h a b c d =
     (case children_try_from a b c d of
        Inr x \<Rightarrow> (case children_of x of (a, b, c, d) \<Rightarrow> Keep (CNode a b c d))
      | Inl (a, b, c, d) \<Rightarrow> Hash (hash_node H h a b c d))"

definition from_siblings_and_focus_or_else_hash ::
  "hasher \<Rightarrow> nat \<Rightarrow> complete insertion three \<Rightarrow> complete insertion \<Rightarrow> complete insertion" where
  "from_siblings_and_focus_or_else_hash H h siblings focus =
     (let one = Hash hash_one in
      case three_push siblings focus of
        Inl (a, b, c, d) \<Rightarrow> from_children_or_else_hash H h a b c d
      | Inr s \<Rightarrow>
         (case s of
            Three3 a b c \<Rightarrow> from_children_or_else_hash H h a b c one
          | Three2 a b \<Rightarrow> from_children_or_else_hash H h a b one one
          | Three1 a \<Rightarrow> from_children_or_else_hash H h a one one one
          | Three0 \<Rightarrow> from_children_or_else_hash H h one one one one))"

lemma way_pick_size [termination_simp]:
  "z \<in> set_insertion (fst (way_pick w (a, b, c, d))) \<Longrightarrow>
     size z < size_insertion size a + size_insertion size b + size_insertion size c
       + size_insertion size d"
  by (cases w) (auto dest: size_in_insertion [where f = size])

fun witness_c :: "hasher \<Rightarrow> nat \<Rightarrow> complete \<Rightarrow> u64 \<Rightarrow> (path \<times> fq) option" where
  "witness_c H h (CItem x) i = Some (PathLeaf, x)"
| "witness_c H h (CLeaf c) i = witness_c H h c i"
| "witness_c H h (CNode a b c d) i =
     (let w = fst (which_way_at h i); i' = snd (which_way_at h i);
          s = (case snd (way_pick w (a, b, c, d)) of (x, y, z) \<Rightarrow>
                 (hash_i H (h - 1) x, hash_i H (h - 1) y, hash_i H (h - 1) z))
      in node_answer s
           (ins_witness (\<lambda>child. witness_c H (h - 1) child i') (fst (way_pick w (a, b, c, d)))))"
| "witness_c H h (CTier c) i = witness_c H h c i"

fun forget_c :: "hasher \<Rightarrow> nat \<Rightarrow> complete \<Rightarrow> u64 \<Rightarrow> complete insertion \<times> bool" where
  "forget_c H h (CItem x) i = (Hash x, True)"
| "forget_c H h (CLeaf c) i = (let (r, forgotten) = forget_c H h c i in (ins_map CLeaf r, forgotten))"
| "forget_c H h (CNode a b c d) i =
     (let i' = snd (which_way_at h i) in
      case fst (which_way_at h i) of
        Leftmost \<Rightarrow> (let (a', forgotten) = ins_forget (\<lambda>x. forget_c H (h - 1) x i') a
                     in (from_children_or_else_hash H h a' b c d, forgotten))
      | Left \<Rightarrow> (let (b', forgotten) = ins_forget (\<lambda>x. forget_c H (h - 1) x i') b
                 in (from_children_or_else_hash H h a b' c d, forgotten))
      | Right \<Rightarrow> (let (c', forgotten) = ins_forget (\<lambda>x. forget_c H (h - 1) x i') c
                  in (from_children_or_else_hash H h a b c' d, forgotten))
      | Rightmost \<Rightarrow> (let (d', forgotten) = ins_forget (\<lambda>x. forget_c H (h - 1) x i') d
                      in (from_children_or_else_hash H h a b c d', forgotten)))"
| "forget_c H h (CTier c) i = (let (r, forgotten) = forget_c H h c i in (ins_map CTier r, forgotten))"

section \<open>Types and heights\<close>

datatype ty = TItem | TLeaf ty | TNode ty | TTier ty

definition nested :: "ty \<Rightarrow> ty" where
  "nested t = TNode (TNode (TNode (TNode (TNode (TNode (TNode (TNode (TLeaf t))))))))"

fun ty_height :: "ty \<Rightarrow> nat" where
  "ty_height TItem = 0"
| "ty_height (TLeaf t) = ty_height t"
| "ty_height (TNode t) = Suc (ty_height t)"
| "ty_height (TTier t) = 8 + ty_height t"

fun c_ok :: "ty \<Rightarrow> complete \<Rightarrow> bool" where
  "c_ok TItem (CItem x) = True"
| "c_ok (TLeaf t) (CLeaf c) = c_ok t c"
| "c_ok (TNode t) (CNode a b c d) =
     ((is_keep a \<or> is_keep b \<or> is_keep c \<or> is_keep d) \<and>
      ins_all (c_ok t) a \<and> ins_all (c_ok t) b \<and> ins_all (c_ok t) c \<and> ins_all (c_ok t) d)"
| "c_ok (TTier t) (CTier c) = c_ok (nested t) c"
| "c_ok _ _ = False"

lemma ty_height_nested [simp]: "ty_height (nested t) = ty_height (TTier t)"
  by (simp add: nested_def)

text \<open>The leaves a complete tree witnesses, by their index below its root.\<close>

fun kept_c :: "nat \<Rightarrow> complete \<Rightarrow> nat \<Rightarrow> fq option" where
  "kept_c h (CItem x) n = Some x"
| "kept_c h (CLeaf c) n = kept_c h c n"
| "kept_c h (CNode a b c d) n =
     ins_witness (\<lambda>x. kept_c (h - 1) x (n mod 4 ^ (h - 1)))
       (fst (way_pick (way_of_digit (digit (h - 1) n)) (a, b, c, d)))"
| "kept_c h (CTier c) n = kept_c h c n"

definition kept_i :: "nat \<Rightarrow> complete insertion \<Rightarrow> nat \<Rightarrow> fq option" where
  "kept_i h x n = ins_witness (\<lambda>c. kept_c h c n) x"

lemma kept_i_simps [simp]:
  "kept_i h (Keep c) n = kept_c h c n" "kept_i h (Hash x) n = None"
  by (simp_all add: kept_i_def)

lemma kept_c_node:
  "kept_c (Suc k) (CNode a b c d) n =
     kept_i k (fst (way_pick (way_of_digit (digit k n)) (a, b, c, d))) (n mod 4 ^ k)"
  by (simp add: kept_i_def)

lemma kept_i_map [simp]:
  "kept_i h (ins_map CLeaf x) n = kept_i h x n" "kept_i h (ins_map CTier x) n = kept_i h x n"
  by (cases x; simp)+

lemma hash_i_map [simp]:
  "hash_i H h (ins_map CLeaf x) = hash_i H h x" "hash_i H h (ins_map CTier x) = hash_i H h x"
  by (cases x; simp)+

lemma c_ok_map [simp]:
  "ins_all (c_ok (TLeaf t)) (ins_map CLeaf x) = ins_all (c_ok t) x"
  "ins_all (c_ok (TTier t)) (ins_map CTier x) = ins_all (c_ok (nested t)) x"
  by (cases x; simp)+

section \<open>Building complete nodes\<close>

lemma from_children_eq:
  "from_children_or_else_hash H h a b c d =
     (if is_keep a \<or> is_keep b \<or> is_keep c \<or> is_keep d then Keep (CNode a b c d)
      else Hash (hash_node H h (hash_i H (h - 1) a) (hash_i H (h - 1) b) (hash_i H (h - 1) c)
             (hash_i H (h - 1) d)))"
  by (cases a; cases b; cases c; cases d) (simp_all add: from_children_or_else_hash_def)

lemma hash_from_children [simp]:
  "hash_i H h (from_children_or_else_hash H h a b c d) =
     hash_node H h (hash_i H (h - 1) a) (hash_i H (h - 1) b) (hash_i H (h - 1) c)
       (hash_i H (h - 1) d)"
  by (simp add: from_children_eq)

lemma c_ok_from_children [simp]:
  "ins_all (c_ok (TNode t)) (from_children_or_else_hash H h a b c d)
     \<longleftrightarrow> (is_keep a \<or> is_keep b \<or> is_keep c \<or> is_keep d \<longrightarrow>
          ins_all (c_ok t) a \<and> ins_all (c_ok t) b \<and> ins_all (c_ok t) c \<and> ins_all (c_ok t) d)"
  by (auto simp: from_children_eq)

lemma kept_not_keep: "\<not> is_keep x \<Longrightarrow> kept_i h x n = None"
  by (cases x) auto

lemma kept_from_children [simp]:
  "kept_i (Suc h) (from_children_or_else_hash H h' a b c d) n =
     kept_i h (fst (way_pick (way_of_digit (digit h n)) (a, b, c, d))) (n mod 4 ^ h)"
  by (cases "way_of_digit (digit h n)")
    (auto simp: from_children_eq kept_not_keep, auto simp: kept_i_def)

section \<open>Witnessing\<close>

lemma witness_c_spec:
  assumes "c_ok t c" and "h = ty_height t" and "unat i < 4 ^ h"
  shows "witness_ok H h i (hash_c H h c) (kept_c h c (unat i)) (witness_c H h c i)"
  using assms
proof (induction t c arbitrary: h i rule: c_ok.induct)
  case (3 t a b c d)
  define k where "k = ty_height t"
  have h: "h = Suc k" using "3.prems" by (simp add: k_def)
  let ?w = "fst (which_way_at h i)" and ?i = "snd (which_way_at h i)"
  have w: "?w = way_of_digit (digit k (unat i))" by (simp add: h which_way_at_fst)
  have i': "unat ?i = unat i mod 4 ^ k" using "3.prems" by (simp add: h child_index_unat)
  then have lt: "unat ?i < 4 ^ k" by simp
  obtain x s1 s2 s3 where pick: "way_pick ?w (a, b, c, d) = (x, s1, s2, s3)"
    by (metis prod_cases4)
  have ins: "way_insert ?w x (s1, s2, s3) = (a, b, c, d)"
    using way_insert_pick [of ?w "(a, b, c, d)"] pick by simp
  show ?case
  proof (cases x)
    case (Hash y)
    then show ?thesis using pick w by (simp add: h Let_def node_answer_def)
  next
    case (Keep y)
    have "c_ok t y" "y \<in> set_insertion a \<union> set_insertion b \<union> set_insertion c \<union> set_insertion d"
      using "3.prems"(1) pick Keep by (cases ?w; auto)+
    then have "witness_ok H k ?i (hash_c H k y) (kept_c k y (unat ?i)) (witness_c H k y ?i)"
      using "3.IH" lt k_def by blast
    from witness_ok_node [OF this [unfolded h]] show ?thesis
      using "3.prems"(3) way_insert_map [OF ins, of "hash_i H k"] pick Keep w i'
      by (simp add: h Let_def)
  qed
qed (auto simp: witness_ok_Some)

interpretation complete_view: merkle_view H "ty_height t" "c_ok t" "hash_c H (ty_height t)"
  "kept_c (ty_height t)" "witness_c H (ty_height t)" for H t
  by unfold_locales (erule witness_c_spec [OF _ refl])

section \<open>Forgetting\<close>

lemma forget_c_hash: "hash_i H h (fst (forget_c H h c i)) = hash_c H h c"
proof (induction c arbitrary: h i)
  case (CNode a b c d)
  have "hash_i H k (fst (ins_forget (\<lambda>x. forget_c H k x j) x)) = hash_i H k x"
    if "x \<in> {a, b, c, d}" for x k j
    using that CNode.IH by (cases x) auto
  then show ?case
    by (cases "fst (which_way_at h i)") (simp_all add: Let_def case_prod_beta)
qed (auto simp: case_prod_beta)

lemma forget_c_ok:
  assumes "c_ok t c"
  shows "ins_all (c_ok t) (fst (forget_c H h c i))"
  using assms
proof (induction t c arbitrary: h i rule: c_ok.induct)
  case (3 t a b c d)
  have "ins_all (c_ok t) (fst (ins_forget (\<lambda>x. forget_c H k x j) x))"
    if "x \<in> {a, b, c, d}" for x k j
    using that "3.IH" "3.prems" by (cases x) auto
  then show ?case
    using "3.prems" by (cases "fst (which_way_at h i)") (auto simp: Let_def case_prod_beta)
qed (auto simp: case_prod_beta)

text \<open>Forgetting an index removes it from the witnessed leaves and nothing else.\<close>

lemma way_pick_other:
  "v \<noteq> w \<Longrightarrow> fst (way_pick v (way_insert w x s)) = fst (way_pick v (way_insert w y s))"
  by (cases v; cases w; cases s) auto

lemma forget_c_node:
  assumes "way_pick (fst (which_way_at h i)) (a, b, c, d) = (x, s)"
    and "ins_forget (\<lambda>x. forget_c H (h - 1) x (snd (which_way_at h i))) x = (x', forgotten)"
    and "way_insert (fst (which_way_at h i)) x' s = (a', b', c', d')"
  shows "forget_c H h (CNode a b c d) i = (from_children_or_else_hash H h a' b' c' d', forgotten)"
  using assms by (cases "fst (which_way_at h i)") (auto simp: Let_def)

lemma forget_c_kept:
  assumes "c_ok t c" and "h = ty_height t" and "unat i < 4 ^ h" and "n < 4 ^ h"
  shows "kept_i h (fst (forget_c H h c i)) n = (if n = unat i then None else kept_c h c n)
    \<and> snd (forget_c H h c i) = (kept_c h c (unat i) \<noteq> None)"
  using assms
proof (induction t c arbitrary: h i n rule: c_ok.induct)
  case (3 t a b c d)
  define k where "k = ty_height t"
  have h: "h = Suc k" using "3.prems" by (simp add: k_def)
  let ?w = "fst (which_way_at h i)" and ?i = "snd (which_way_at h i)"
  let ?v = "way_of_digit (digit k n)"
  have w: "?w = way_of_digit (digit k (unat i))" by (simp add: h which_way_at_fst)
  have i': "unat ?i = unat i mod 4 ^ k" using "3.prems" by (simp add: h child_index_unat)
  then have lt: "unat ?i < 4 ^ k" "n mod 4 ^ k < 4 ^ k" by simp_all
  obtain x s where pick: "way_pick ?w (a, b, c, d) = (x, s)" by (cases "way_pick ?w (a, b, c, d)")
  obtain x' fg where fx: "ins_forget (\<lambda>x. forget_c H k x ?i) x = (x', fg)" by force
  obtain a' b' c' d' where ins: "way_insert ?w x' s = (a', b', c', d')" by (metis prod_cases4)
  have old: "way_insert ?w x s = (a, b, c, d)"
    using way_insert_pick [of ?w "(a, b, c, d)"] pick by simp
  have xk: "kept_i k x' m = (if m = unat ?i then None else kept_i k x m)
      \<and> fg = (kept_i k x (unat ?i) \<noteq> None)" if "m < 4 ^ k" for m
  proof (cases x)
    case (Hash y)
    then show ?thesis using fx by auto
  next
    case (Keep y)
    have "c_ok t y" "y \<in> set_insertion a \<union> set_insertion b \<union> set_insertion c \<union> set_insertion d"
      using "3.prems"(1) pick Keep by (cases ?w; auto)+
    then show ?thesis
      using "3.IH" [of y k ?i m] lt(1) that fx Keep by (auto simp: k_def)
  qed
  have n_eq: "n = unat i \<longleftrightarrow> ?v = ?w \<and> n mod 4 ^ k = unat ?i"
    unfolding w i' by (rule index_eq_iff) (use "3.prems"(3,4) h in simp_all)
  have "kept_i k (fst (way_pick ?v (a', b', c', d'))) (n mod 4 ^ k) =
      (if n = unat i then None else kept_i k (fst (way_pick ?v (a, b, c, d))) (n mod 4 ^ k))"
    using xk [OF lt(2)] n_eq pick ins old way_pick_insert [of ?w x' s]
      way_pick_other [of ?v ?w x' s x] by (cases "?v = ?w") auto
  moreover have "forget_c H h (CNode a b c d) i = (from_children_or_else_hash H h a' b' c' d', fg)"
    by (rule forget_c_node) (use pick fx ins h in simp_all)
  moreover have "kept_c h (CNode a b c d) (unat i) = kept_i k x (unat ?i)"
    using pick w i' by (simp add: h kept_c_node del: kept_c.simps)
  ultimately show ?case
    using xk [OF lt(1)] by (simp add: h kept_c_node del: kept_c.simps forget_c.simps)
qed (auto simp: case_prod_beta)

end
