(* ===== verification/TCT_Frontier.thy ===== *)
theory TCT_Frontier
  imports TCT_Complete
begin

text \<open>
  The frontier of the tiered commitment tree: \<open>internal/frontier/*.rs\<close>.

  As for complete trees, one datatype has a constructor per Rust type: the item at the
  tip, the leaf around it, a node with its complete left siblings, and the three states of
  a \<open>Tier\<close>.  \<open>f_ok t f\<close> says that \<open>f\<close> is a value of the Rust type \<open>t\<close>; a
  nested tier is eight nodes over a leaf, whose item may be a tier again.  Insertion
  dispatches on the type because \<open>Child::new\<close> does.

  A frontier means the map \<open>read_f\<close> from leaf indices to hashes.  With the flag it
  contains the tip even if it is not kept, because \<open>frontier::Item::witness\<close> answers in
  any case; without it, only what was inserted with \<open>Keep\<close>.  The lemmas show what each
  operation does to the root hash, to that map, to the type and to the number of items.
\<close>

section \<open>Operations\<close>

datatype frontier =
    FItem "fq insertion"
  | FLeaf frontier
  | FNode "complete insertion three" frontier
  | TierFrontier frontier
  | TierComplete complete
  | TierHash fq

definition item_of_commitment :: "hasher \<Rightarrow> fq \<Rightarrow> frontier" where
  "item_of_commitment H c = FItem (Keep (hash_of H c))"

definition item_of_hash :: "fq \<Rightarrow> frontier" where
  "item_of_hash x = FItem (Hash x)"

text \<open>\<open>GetHash\<close>, \<open>Focus\<close>, \<open>Witness\<close> and \<open>Forget\<close> of \<open>frontier::Item\<close>.\<close>

fun item_hash :: "fq insertion \<Rightarrow> fq" where
  "item_hash (Hash x) = x"
| "item_hash (Keep x) = x"

definition item_finalize :: "fq insertion \<Rightarrow> complete insertion" where
  "item_finalize x = ins_map CItem x"

definition item_witness :: "fq insertion \<Rightarrow> (path \<times> fq) option" where
  "item_witness x = Some (PathLeaf, item_hash x)"

definition item_forget :: "fq insertion \<Rightarrow> u64 \<Rightarrow> (fq insertion \<times> bool) result" where
  "item_forget x i =
     (if i = 0 then (case x of Keep y \<Rightarrow> Inr (Hash y, True) | Hash y \<Rightarrow> Inr (x, False))
      else Inl (Panic ''non-zero index when forgetting item''))"

text \<open>The four hashes of a node: its siblings, its focus, and zero padding.\<close>

fun node_quad :: "fq three \<Rightarrow> fq \<Rightarrow> fq \<times> fq \<times> fq \<times> fq" where
  "node_quad Three0 focus = (focus, hash_zero, hash_zero, hash_zero)"
| "node_quad (Three1 a) focus = (a, focus, hash_zero, hash_zero)"
| "node_quad (Three2 a b) focus = (a, b, focus, hash_zero)"
| "node_quad (Three3 a b c) focus = (a, b, c, focus)"

fun hash_f :: "hasher \<Rightarrow> nat \<Rightarrow> frontier \<Rightarrow> fq" where
  "hash_f H h (FItem x) = item_hash x"
| "hash_f H h (FLeaf f) = hash_f H h f"
| "hash_f H h (FNode siblings focus) =
     (case node_quad (three_map (hash_i H (h - 1)) siblings) (hash_f H (h - 1) focus) of
        (a, b, c, d) \<Rightarrow> hash_node H h a b c d)"
| "hash_f H h (TierFrontier f) = hash_f H h f"
| "hash_f H h (TierComplete c) = hash_c H h c"
| "hash_f H h (TierHash x) = x"

text \<open>\<open>Focus::finalize_owned\<close>.\<close>

fun finalize_f :: "hasher \<Rightarrow> nat \<Rightarrow> frontier \<Rightarrow> complete insertion" where
  "finalize_f H h (FItem x) = item_finalize x"
| "finalize_f H h (FLeaf f) = ins_map CLeaf (finalize_f H h f)"
| "finalize_f H h (FNode siblings focus) =
     from_siblings_and_focus_or_else_hash H h siblings (finalize_f H (h - 1) focus)"
| "finalize_f H h (TierFrontier f) = ins_map CTier (finalize_f H h f)"
| "finalize_f H h (TierComplete c) = Keep (CTier c)"
| "finalize_f H h (TierHash x) = Hash x"

text \<open>\<open>Frontier::new\<close> of leaves and nodes.\<close>

fun new_f :: "ty \<Rightarrow> frontier \<Rightarrow> frontier" where
  "new_f (TNode t) item = FNode Three0 (new_f t item)"
| "new_f t item = FLeaf item"

text \<open>
  \<open>Frontier::insert_owned\<close> of leaves and nodes; \<open>Inl\<close> is \<open>Err(Full)\<close>, the item that did
  not fit and the completed tree.
\<close>

fun insert_f :: "hasher \<Rightarrow> ty \<Rightarrow> frontier \<Rightarrow> frontier \<Rightarrow> frontier \<times> complete insertion + frontier" where
  "insert_f H (TNode t) (FNode siblings focus) item =
     (case insert_f H t focus item of
        Inr focus' \<Rightarrow> Inr (FNode siblings focus')
      | Inl (item, sibling) \<Rightarrow>
         (case three_push siblings sibling of
            Inr siblings' \<Rightarrow> Inr (FNode siblings' (new_f t item))
          | Inl (a, b, c, d) \<Rightarrow>
              Inl (item, from_children_or_else_hash H (ty_height (TNode t)) a b c d)))"
| "insert_f H t f item = Inl (item, finalize_f H (ty_height t) f)"

text \<open>\<open>Frontier::is_full\<close> of leaves and nodes, and \<open>Tier::is_full\<close>.\<close>

fun is_full_f :: "frontier \<Rightarrow> bool" where
  "is_full_f (FItem x) = True"
| "is_full_f (FLeaf f) = True"
| "is_full_f (FNode siblings focus) = (three_is_full siblings \<and> is_full_f focus)"
| "is_full_f (TierFrontier f) = is_full_f f"
| "is_full_f (TierComplete c) = True"
| "is_full_f (TierHash x) = True"

text \<open>\<open>Frontier::update\<close> and \<open>focus\<close> of leaves and nodes.\<close>

fun update_f :: "(frontier \<Rightarrow> frontier \<times> 'r) \<Rightarrow> frontier \<Rightarrow> frontier \<times> 'r option" where
  "update_f g (FNode siblings focus) =
     (let (focus', r) = update_f g focus in (FNode siblings focus', r))"
| "update_f g (FLeaf item) = (let (item', r) = g item in (FLeaf item', Some r))"
| "update_f g f = (f, None)"

fun focus_f :: "frontier \<Rightarrow> frontier option" where
  "focus_f (FNode siblings focus) = focus_f focus"
| "focus_f (FLeaf item) = Some item"
| "focus_f f = None"

text \<open>\<open>GetPosition::position\<close>.\<close>

fun position_f :: "nat \<Rightarrow> frontier \<Rightarrow> u64 option" where
  "position_f h (FItem x) = None"
| "position_f h (FLeaf f) = position_f h f"
| "position_f h (FNode siblings focus) =
     (let n = of_nat (three_len siblings) :: u64 in
      case position_f (h - 1) focus of
        Some p \<Rightarrow> Some (push_bit (2 * h) n + p)
      | None \<Rightarrow> if n + 1 < 4 then Some (push_bit (2 * h) (n + 1)) else None)"
| "position_f h (TierFrontier f) = position_f h f"
| "position_f h (TierComplete c) = None"
| "position_f h (TierHash x) = None"

fun witness_f :: "hasher \<Rightarrow> nat \<Rightarrow> frontier \<Rightarrow> u64 \<Rightarrow> (path \<times> fq) option" where
  "witness_f H h (FItem x) i = item_witness x"
| "witness_f H h (FLeaf f) i = witness_f H h f i"
| "witness_f H h (FNode siblings focus) i =
     (let i' = snd (which_way_at h i); w = fst (which_way_at h i);
          hi = hash_i H (h - 1); hf = hash_f H (h - 1) focus; zero = hash_zero;
          kept = ins_witness (\<lambda>c. witness_c H (h - 1) c i')
      in case siblings of
        Three0 \<Rightarrow>
         (case w of Leftmost \<Rightarrow> node_answer (zero, zero, zero) (witness_f H (h - 1) focus i')
          | _ \<Rightarrow> None)
      | Three1 a \<Rightarrow>
         (case w of Leftmost \<Rightarrow> node_answer (hf, zero, zero) (kept a)
          | Left \<Rightarrow> node_answer (hi a, zero, zero) (witness_f H (h - 1) focus i')
          | _ \<Rightarrow> None)
      | Three2 a b \<Rightarrow>
         (case w of Leftmost \<Rightarrow> node_answer (hi b, hf, zero) (kept a)
          | Left \<Rightarrow> node_answer (hi a, hf, zero) (kept b)
          | Right \<Rightarrow> node_answer (hi a, hi b, zero) (witness_f H (h - 1) focus i')
          | Rightmost \<Rightarrow> None)
      | Three3 a b c \<Rightarrow>
         (case w of Leftmost \<Rightarrow> node_answer (hi b, hi c, hf) (kept a)
          | Left \<Rightarrow> node_answer (hi a, hi c, hf) (kept b)
          | Right \<Rightarrow> node_answer (hi a, hi b, hf) (kept c)
          | Rightmost \<Rightarrow> node_answer (hi a, hi b, hi c) (witness_f H (h - 1) focus i')))"
| "witness_f H h (TierFrontier f) i = witness_f H h f i"
| "witness_f H h (TierComplete c) i = witness_c H h c i"
| "witness_f H h (TierHash x) i = None"

text \<open>\<open>Forget::forget\<close>: the updated tree and whether something was forgotten.\<close>

fun forget_f :: "hasher \<Rightarrow> nat \<Rightarrow> frontier \<Rightarrow> u64 \<Rightarrow> (frontier \<times> bool) result" where
  "forget_f H h (FItem x) i = bindR (item_forget x i) (\<lambda>(x', b). Inr (FItem x', b))"
| "forget_f H h (FLeaf f) i = bindR (forget_f H h f i) (\<lambda>(f', b). Inr (FLeaf f', b))"
| "forget_f H h (FNode siblings focus) i =
     (let i' = snd (which_way_at h i); w = fst (which_way_at h i);
          fgt = ins_forget (\<lambda>c. forget_c H (h - 1) c i');
          at_focus = bindR (forget_f H (h - 1) focus i') (\<lambda>(f', b). Inr (FNode siblings f', b));
          absent = Inr (FNode siblings focus, False)
      in case siblings of
        Three0 \<Rightarrow> (case w of Leftmost \<Rightarrow> at_focus | _ \<Rightarrow> absent)
      | Three1 a \<Rightarrow>
         (case w of Leftmost \<Rightarrow> (let (a', b) = fgt a in Inr (FNode (Three1 a') focus, b))
          | Left \<Rightarrow> at_focus | _ \<Rightarrow> absent)
      | Three2 a b \<Rightarrow>
         (case w of Leftmost \<Rightarrow> (let (a', r) = fgt a in Inr (FNode (Three2 a' b) focus, r))
          | Left \<Rightarrow> (let (b', r) = fgt b in Inr (FNode (Three2 a b') focus, r))
          | Right \<Rightarrow> at_focus | Rightmost \<Rightarrow> absent)
      | Three3 a b c \<Rightarrow>
         (case w of Leftmost \<Rightarrow> (let (a', r) = fgt a in Inr (FNode (Three3 a' b c) focus, r))
          | Left \<Rightarrow> (let (b', r) = fgt b in Inr (FNode (Three3 a b' c) focus, r))
          | Right \<Rightarrow> (let (c', r) = fgt c in Inr (FNode (Three3 a b c') focus, r))
          | Rightmost \<Rightarrow> at_focus))"
| "forget_f H h (TierFrontier f) i = bindR (forget_f H h f i) (\<lambda>(f', b). Inr (TierFrontier f', b))"
| "forget_f H h (TierComplete c) i =
     (case forget_c H h c i of
        (Keep c', b) \<Rightarrow> Inr (TierComplete c', b)
      | (Hash x, b) \<Rightarrow> Inr (TierHash x, b))"
| "forget_f H h (TierHash x) i = Inr (TierHash x, False)"

subsection \<open>Tiers\<close>

definition tier_new :: "ty \<Rightarrow> frontier \<Rightarrow> frontier" where
  "tier_new t item = TierFrontier (new_f (nested t) item)"

text \<open>\<open>Tier::insert\<close>: the tier and \<open>Ok(())\<close> or the item that was not inserted.\<close>

fun tier_insert :: "hasher \<Rightarrow> ty \<Rightarrow> frontier \<Rightarrow> frontier \<Rightarrow> (frontier \<times> (frontier + unit)) result" where
  "tier_insert H t (TierFrontier f) item =
     (if is_full_f f then Inr (TierFrontier f, Inl item)
      else case insert_f H (nested t) f item of
        Inr f' \<Rightarrow> Inr (TierFrontier f', Inr ())
      | Inl _ \<Rightarrow> Inl (Panic ''frontier is not full, so insert must succeed''))"
| "tier_insert H t f item = Inr (f, Inl item)"

fun tier_update :: "(frontier \<Rightarrow> frontier \<times> 'r) \<Rightarrow> frontier \<Rightarrow> frontier \<times> 'r option" where
  "tier_update g (TierFrontier f) = (let (f', r) = update_f g f in (TierFrontier f', r))"
| "tier_update g f = (f, None)"

fun tier_focus :: "frontier \<Rightarrow> frontier option" where
  "tier_focus (TierFrontier f) = focus_f f"
| "tier_focus f = None"

fun tier_is_finalized :: "frontier \<Rightarrow> bool" where
  "tier_is_finalized (TierFrontier f) = False"
| "tier_is_finalized f = True"

text \<open>\<open>Tier::finalize\<close>: the tier and whether it was finalized before.\<close>

definition tier_finalize :: "hasher \<Rightarrow> nat \<Rightarrow> frontier \<Rightarrow> frontier \<times> bool" where
  "tier_finalize H h f =
     (case f of
        TierFrontier g \<Rightarrow>
         (case finalize_f H h g of Hash x \<Rightarrow> TierHash x | Keep c \<Rightarrow> TierComplete c)
      | _ \<Rightarrow> f, tier_is_finalized f)"

fun tier_of_complete :: "complete insertion \<Rightarrow> frontier" where
  "tier_of_complete (Keep c) = TierComplete c"
| "tier_of_complete (Hash x) = TierHash x"

subsection \<open>The top tier\<close>

text \<open>\<open>frontier::Top\<close> holds an optional nested tree.\<close>

type_synonym top_tier = "frontier option"

fun top_insert :: "hasher \<Rightarrow> ty \<Rightarrow> top_tier \<Rightarrow> frontier \<Rightarrow> (top_tier \<times> (frontier + unit)) result" where
  "top_insert H t None item = Inr (Some (new_f (nested t) item), Inr ())"
| "top_insert H t (Some f) item =
     (if is_full_f f then Inr (Some f, Inl item)
      else case insert_f H (nested t) f item of
        Inr f' \<Rightarrow> Inr (Some f', Inr ())
      | Inl _ \<Rightarrow> Inl (Panic ''frontier is not full, so insert must succeed''))"

fun top_update :: "(frontier \<Rightarrow> frontier \<times> 'r) \<Rightarrow> top_tier \<Rightarrow> top_tier \<times> 'r option" where
  "top_update g None = (None, None)"
| "top_update g (Some f) = (let (f', r) = update_f g f in (Some f', r))"

fun top_focus :: "top_tier \<Rightarrow> frontier option" where
  "top_focus None = None"
| "top_focus (Some f) = focus_f f"

fun top_finalize :: "hasher \<Rightarrow> nat \<Rightarrow> top_tier \<Rightarrow> complete insertion" where
  "top_finalize H h None = Hash hash_one"
| "top_finalize H h (Some f) = finalize_f H h f"

fun top_is_full :: "top_tier \<Rightarrow> bool" where
  "top_is_full None = False"
| "top_is_full (Some f) = is_full_f f"

definition top_is_empty :: "top_tier \<Rightarrow> bool" where
  "top_is_empty f = (f = None)"

fun top_position :: "nat \<Rightarrow> top_tier \<Rightarrow> u64 option" where
  "top_position h None = Some 0"
| "top_position h (Some f) = position_f h f"

fun top_hash :: "hasher \<Rightarrow> nat \<Rightarrow> top_tier \<Rightarrow> fq" where
  "top_hash H h None = hash_zero"
| "top_hash H h (Some f) = hash_f H h f"

fun top_witness :: "hasher \<Rightarrow> nat \<Rightarrow> top_tier \<Rightarrow> u64 \<Rightarrow> (path \<times> fq) option" where
  "top_witness H h None i = None"
| "top_witness H h (Some f) i = witness_f H h f i"

fun top_forget :: "hasher \<Rightarrow> nat \<Rightarrow> top_tier \<Rightarrow> u64 \<Rightarrow> (top_tier \<times> bool) result" where
  "top_forget H h None i = Inr (None, False)"
| "top_forget H h (Some f) i = bindR (forget_f H h f i) (\<lambda>(f', b). Inr (Some f', b))"

end
