(* ===== verification/TCT_Laws.thy ===== *)
theory TCT_Laws
  imports TCT_Frontier
begin

text \<open>
  What the operations on a frontier do: to its type, to its root hash, to the leaves it
  can witness, and to the number of items it holds.
\<close>

section \<open>Types and meaning\<close>

fun f_ok :: "ty \<Rightarrow> frontier \<Rightarrow> bool" where
  "f_ok TItem (FItem x) = True"
| "f_ok (TLeaf t) (FLeaf f) = f_ok t f"
| "f_ok (TNode t) (FNode s f) = (three_all (ins_all (c_ok t)) s \<and> f_ok t f)"
| "f_ok (TTier t) (TierFrontier f) = f_ok (nested t) f"
| "f_ok (TTier t) (TierComplete c) = c_ok (nested t) c"
| "f_ok (TTier t) (TierHash x) = True"
| "f_ok _ _ = False"

text \<open>The child in a direction: a sibling, the focus, or none.\<close>

fun three_child :: "'a three \<Rightarrow> which_way \<Rightarrow> ('a + unit) option" where
  "three_child (Three1 a) Leftmost = Some (Inl a)"
| "three_child (Three2 a b) Leftmost = Some (Inl a)"
| "three_child (Three2 a b) Left = Some (Inl b)"
| "three_child (Three3 a b c) Leftmost = Some (Inl a)"
| "three_child (Three3 a b c) Left = Some (Inl b)"
| "three_child (Three3 a b c) Right = Some (Inl c)"
| "three_child Three0 Leftmost = Some (Inr ())"
| "three_child (Three1 a) Left = Some (Inr ())"
| "three_child (Three2 a b) Right = Some (Inr ())"
| "three_child (Three3 a b c) Rightmost = Some (Inr ())"
| "three_child _ _ = None"

fun read_f :: "bool \<Rightarrow> nat \<Rightarrow> frontier \<Rightarrow> nat \<Rightarrow> fq option" where
  "read_f b h (FItem (Keep x)) n = Some x"
| "read_f b h (FItem (Hash x)) n = (if b then Some x else None)"
| "read_f b h (FLeaf f) n = read_f b h f n"
| "read_f b h (FNode s f) n =
     (case three_child s (way_of_digit (digit (h - 1) n)) of
        None \<Rightarrow> None
      | Some (Inl x) \<Rightarrow> kept_i (h - 1) x (n mod 4 ^ (h - 1))
      | Some (Inr _) \<Rightarrow> read_f b (h - 1) f (n mod 4 ^ (h - 1)))"
| "read_f b h (TierFrontier f) n = read_f b h f n"
| "read_f b h (TierComplete c) n = kept_c h c n"
| "read_f b h (TierHash x) n = None"

abbreviation kept_f :: "nat \<Rightarrow> frontier \<Rightarrow> nat \<Rightarrow> fq option" where
  "kept_f \<equiv> read_f False"

lemma kept_imp_read: "kept_f h f n = Some x \<Longrightarrow> read_f b h f n = Some x"
proof (induction f arbitrary: h n)
  case (FItem y)
  then show ?case by (cases y) auto
next
  case (FNode s f)
  then show ?case by (auto split: option.splits sum.splits)
qed auto

section \<open>Witnessing\<close>

text \<open>The cases of \<open>Node::witness\<close> are one rule: witness the chosen child, hash the others.\<close>

lemma witness_f_node:
  "witness_f H h (FNode s f) i =
     (case three_child s (fst (which_way_at h i)) of
        None \<Rightarrow> None
      | Some k \<Rightarrow>
          node_answer (snd (way_pick (fst (which_way_at h i))
              (node_quad (three_map (hash_i H (h - 1)) s) (hash_f H (h - 1) f))))
            (case k of
               Inl x \<Rightarrow> ins_witness (\<lambda>c. witness_c H (h - 1) c (snd (which_way_at h i))) x
             | Inr _ \<Rightarrow> witness_f H (h - 1) f (snd (which_way_at h i))))"
  by (cases s; cases "fst (which_way_at h i)") (simp_all add: Let_def)

lemma three_child_quad:
  "three_child s w = Some (Inl x) \<Longrightarrow> fst (way_pick w (node_quad (three_map g s) y)) = g x"
  "three_child s w = Some (Inr u) \<Longrightarrow> fst (way_pick w (node_quad (three_map g s) y)) = y"
  by (cases s; cases w; auto)+

lemma three_child_all: "three_all P s \<Longrightarrow> three_child s w = Some (Inl x) \<Longrightarrow> P x"
  by (cases s; cases w) auto

lemma witness_i_spec:
  assumes "ins_all (c_ok t) x" and "h = ty_height t" and "unat i < 4 ^ h"
  shows "witness_ok H h i (hash_i H h x) (kept_i h x (unat i))
    (ins_witness (\<lambda>c. witness_c H h c i) x)"
  using assms witness_c_spec by (cases x) auto

lemma witness_f_spec:
  assumes "f_ok t f" and "h = ty_height t" and "unat i < 4 ^ h"
  shows "witness_ok H h i (hash_f H h f) (read_f True h f (unat i)) (witness_f H h f i)"
  using assms
proof (induction t f arbitrary: h i rule: f_ok.induct)
  case (1 x)
  then show ?case by (cases x) (auto simp: witness_ok_Some item_witness_def)
next
  case (3 t s f)
  define k where "k = ty_height t"
  have h: "h = Suc k" using "3.prems" by (simp add: k_def)
  let ?w = "fst (which_way_at h i)" and ?i = "snd (which_way_at h i)"
  let ?q = "node_quad (three_map (hash_i H k) s) (hash_f H k f)"
  have w: "?w = way_of_digit (digit k (unat i))" by (simp add: h which_way_at_fst)
  have i': "unat ?i = unat i mod 4 ^ k" using "3.prems" by (simp add: h child_index_unat)
  then have lt: "unat ?i < 4 ^ k" by simp
  obtain a b c d where q: "?q = (a, b, c, d)" by (metis prod_cases4)
  have ins: "way_insert ?w (fst (way_pick ?w ?q)) (snd (way_pick ?w ?q)) = (a, b, c, d)"
    by (simp add: way_insert_pick q)
  have root: "hash_f H h (FNode s f) = hash_node H (Suc k) a b c d"
    using q by (simp add: h)
  show ?case
  proof (cases "three_child s ?w")
    case None
    then show ?thesis using w by (simp add: h witness_f_node del: witness_f.simps)
  next
    case (Some ch)
    show ?thesis
    proof (cases ch)
      case (Inl x)
      have "ins_all (c_ok t) x" using "3.prems"(1) Some Inl three_child_all by auto
      then have "witness_ok H k ?i (fst (way_pick ?w ?q)) (kept_i k x (unat ?i))
          (ins_witness (\<lambda>c. witness_c H k c ?i) x)"
        using witness_i_spec [of t x k ?i H] lt Some Inl by (simp add: k_def three_child_quad)
      from witness_ok_node [OF this [unfolded h], folded h, OF _ ins] show ?thesis
        using "3.prems"(3) Some Inl w i' root h
        by (simp add: witness_f_node del: witness_f.simps hash_f.simps)
    next
      case (Inr u)
      have "witness_ok H k ?i (fst (way_pick ?w ?q)) (read_f True k f (unat ?i)) (witness_f H k f ?i)"
        using "3.IH" [of k ?i] "3.prems"(1) lt Some Inr by (simp add: k_def three_child_quad)
      from witness_ok_node [OF this [unfolded h], folded h, OF _ ins] show ?thesis
        using "3.prems"(3) Some Inr w i' root h
        by (simp add: witness_f_node del: witness_f.simps hash_f.simps)
    qed
  qed
next
  case (5 t c)
  then show ?case using witness_c_spec [of "nested t" c h i H] by simp
qed auto

section \<open>The skeleton of a frontier\<close>

text \<open>
  Everything that is witnessed replaced by its hash: the part of a frontier that its root
  hash, its position and the outcome of every insertion depend on.
\<close>

fun skel_f :: "hasher \<Rightarrow> nat \<Rightarrow> frontier \<Rightarrow> frontier" where
  "skel_f H h (FItem x) = FItem (Hash (hash_f H h (FItem x)))"
| "skel_f H h (FLeaf f) = FLeaf (skel_f H h f)"
| "skel_f H h (FNode s f) = FNode (three_map (\<lambda>x. Hash (hash_i H (h - 1) x)) s) (skel_f H (h - 1) f)"
| "skel_f H h (TierFrontier f) = TierFrontier (skel_f H h f)"
| "skel_f H h (TierComplete c) = TierHash (hash_c H h c)"
| "skel_f H h (TierHash x) = TierHash x"

lemma three_map_map [simp]: "three_map f (three_map g s) = three_map (\<lambda>x. f (g x)) s"
  by (cases s) auto

lemma three_len_map [simp]: "three_len (three_map f s) = three_len s"
  by (cases s) auto

lemma three_full_map [simp]: "three_is_full (three_map f s) = three_is_full s"
  by (cases s) auto

lemma hash_skel [simp]: "hash_f H h (skel_f H h f) = hash_f H h f"
  by (induction f arbitrary: h) auto

lemma full_skel [simp]: "is_full_f (skel_f H h f) = is_full_f f"
  by (induction f arbitrary: h) auto

lemma position_skel [simp]: "position_f h' (skel_f H h f) = position_f h' f"
  by (induction f arbitrary: h h') auto

section \<open>Finalizing\<close>

lemma from_siblings_hash:
  "hash_i H h (from_siblings_and_focus_or_else_hash H h s x) =
     hash_i H h (from_siblings_and_focus_or_else_hash H h (three_map (\<lambda>x. Hash (hash_i H (h - 1) x)) s)
       (Hash (hash_i H (h - 1) x)))"
  by (cases s) (simp_all add: from_siblings_and_focus_or_else_hash_def Let_def)

lemma from_siblings_pruned:
  "from_siblings_and_focus_or_else_hash H h (three_map (\<lambda>x. Hash (g x)) s) (Hash y) =
     Hash (hash_i H h (from_siblings_and_focus_or_else_hash H h (three_map (\<lambda>x. Hash (g x)) s) (Hash y)))"
  by (cases s) (simp_all add: from_siblings_and_focus_or_else_hash_def Let_def from_children_eq)

lemma finalize_skel: "finalize_f H h (skel_f H h f) = Hash (hash_i H h (finalize_f H h f))"
proof (induction f arbitrary: h)
  case (FItem x)
  then show ?case by (cases x) (auto simp: item_finalize_def)
next
  case (FNode s f)
  have "finalize_f H h (skel_f H h (FNode s f)) =
      from_siblings_and_focus_or_else_hash H h (three_map (\<lambda>x. Hash (hash_i H (h - 1) x)) s)
        (Hash (hash_i H (h - 1) (finalize_f H (h - 1) f)))"
    using FNode by simp
  also have "\<dots> = Hash (hash_i H h (finalize_f H h (FNode s f)))"
    by (simp only: finalize_f.simps from_siblings_hash [of H h s "finalize_f H (h - 1) f"])
      (rule from_siblings_pruned)
  finally show ?case .
qed auto

lemma from_siblings_ok:
  "three_all (ins_all (c_ok t)) s \<Longrightarrow> ins_all (c_ok t) x \<Longrightarrow>
     ins_all (c_ok (TNode t)) (from_siblings_and_focus_or_else_hash H h s x)"
  by (cases s) (auto simp: from_siblings_and_focus_or_else_hash_def Let_def)

lemma from_siblings_kept:
  "kept_i (Suc k) (from_siblings_and_focus_or_else_hash H h s x) n =
     (case three_child s (way_of_digit (digit k n)) of
        None \<Rightarrow> None
      | Some (Inl y) \<Rightarrow> kept_i k y (n mod 4 ^ k)
      | Some (Inr _) \<Rightarrow> kept_i k x (n mod 4 ^ k))"
  by (cases s; cases "way_of_digit (digit k n)") (auto simp: from_siblings_and_focus_or_else_hash_def Let_def)

lemma finalize_ok: "f_ok t f \<Longrightarrow> ins_all (c_ok t) (finalize_f H h f)"
proof (induction t f arbitrary: h rule: f_ok.induct)
  case (1 x)
  then show ?case by (cases x) (auto simp: item_finalize_def)
next
  case (3 t s f)
  then show ?case by (auto intro: from_siblings_ok)
qed auto

lemma finalize_kept:
  assumes "f_ok t f" and "h = ty_height t"
  shows "kept_i h (finalize_f H h' f) n = kept_f h f n"
  using assms
proof (induction t f arbitrary: h h' n rule: f_ok.induct)
  case (1 x)
  then show ?case by (cases x) (auto simp: item_finalize_def)
next
  case (3 t s f)
  then show ?case by (auto simp: from_siblings_kept split: option.split sum.split)
qed auto

section \<open>Forgetting\<close>

fun three_set :: "'a three \<Rightarrow> which_way \<Rightarrow> 'a \<Rightarrow> 'a three" where
  "three_set (Three1 a) Leftmost x = Three1 x"
| "three_set (Three2 a b) Leftmost x = Three2 x b"
| "three_set (Three2 a b) Left x = Three2 a x"
| "three_set (Three3 a b c) Leftmost x = Three3 x b c"
| "three_set (Three3 a b c) Left x = Three3 a x c"
| "three_set (Three3 a b c) Right x = Three3 a b x"
| "three_set s _ x = s"

lemma forget_f_node:
  "forget_f H h (FNode s f) i =
     (case three_child s (fst (which_way_at h i)) of
        None \<Rightarrow> Inr (FNode s f, False)
      | Some (Inl x) \<Rightarrow>
          (let (x', b) = ins_forget (\<lambda>c. forget_c H (h - 1) c (snd (which_way_at h i))) x
           in Inr (FNode (three_set s (fst (which_way_at h i)) x') f, b))
      | Some (Inr _) \<Rightarrow>
          bindR (forget_f H (h - 1) f (snd (which_way_at h i))) (\<lambda>(f', b). Inr (FNode s f', b)))"
  by (cases s; cases "fst (which_way_at h i)") (simp_all add: Let_def)

lemma three_set_same:
  "three_child s w = Some (Inl y) \<Longrightarrow> three_child (three_set s w x) w = Some (Inl x)"
  by (cases s; cases w) auto

lemma three_set_other:
  "v \<noteq> w \<Longrightarrow> three_child (three_set s w x) v = three_child s v"
  by (cases s; cases w; cases v) auto

lemma three_set_all: "three_all P s \<Longrightarrow> P x \<Longrightarrow> three_all P (three_set s w x)"
  by (cases s; cases w) auto

lemma three_set_map:
  "three_child s w = Some (Inl y) \<Longrightarrow> g x = g y \<Longrightarrow> three_map g (three_set s w x) = three_map g s"
  by (cases s; cases w) auto

text \<open>The contract of forgetting, for insertions and for frontiers.\<close>

lemma forget_i_spec:
  assumes "ins_all (c_ok t) x" and "h = ty_height t" and "unat i < 4 ^ h"
    and "ins_forget (\<lambda>c. forget_c H h c i) x = (x', b)"
  shows "ins_all (c_ok t) x'" and "hash_i H h x' = hash_i H h x"
    and "b \<longleftrightarrow> kept_i h x (unat i) \<noteq> None"
    and "n < 4 ^ h \<Longrightarrow> kept_i h x' n = (if n = unat i then None else kept_i h x n)"
proof -
  show "ins_all (c_ok t) x'"
    using assms forget_c_ok [of t _ H h i] by (cases x) force+
  show "hash_i H h x' = hash_i H h x"
  proof (cases x)
    case (Keep c)
    then show ?thesis using assms(4) forget_c_hash [of H h c i] by simp
  next
    case (Hash y)
    then show ?thesis using assms(4) by simp
  qed
  show "b \<longleftrightarrow> kept_i h x (unat i) \<noteq> None"
    "n < 4 ^ h \<Longrightarrow> kept_i h x' n = (if n = unat i then None else kept_i h x n)"
    using assms forget_c_kept [of t _ h i _ H] by (cases x; force)+
qed

definition forget_ok :: "hasher \<Rightarrow> ty \<Rightarrow> frontier \<Rightarrow> nat \<Rightarrow> (frontier \<times> bool) result \<Rightarrow> bool" where
  "forget_ok H t f i r \<longleftrightarrow> (\<exists>f' b. r = Inr (f', b) \<and> f_ok t f' \<and>
     skel_f H (ty_height t) f' = skel_f H (ty_height t) f \<and>
     (b \<longleftrightarrow> kept_f (ty_height t) f i \<noteq> None) \<and>
     (\<forall>n < 4 ^ ty_height t. kept_f (ty_height t) f' n =
        (if n = i then None else kept_f (ty_height t) f n)))"

lemma forget_okE:
  assumes "forget_ok H t f i r" and "h = ty_height t"
  obtains f' b where "r = Inr (f', b)" and "f_ok t f'" and "skel_f H h f' = skel_f H h f"
    and "b \<longleftrightarrow> kept_f h f i \<noteq> None"
    and "\<And>n. n < 4 ^ h \<Longrightarrow> kept_f h f' n = (if n = i then None else kept_f h f n)"
  using assms unfolding forget_ok_def by blast

lemma three_child_focus:
  "three_child s v = Some (Inr u) \<Longrightarrow> three_child s w = Some (Inr u') \<Longrightarrow> v = w"
  by (cases s; cases v; cases w) auto

text \<open>An index below a node, read as a direction and an index below the child.\<close>

lemma node_index:
  assumes "unat i < 4 ^ Suc k"
  shows "fst (which_way_at (Suc k) i) = way_of_digit (digit k (unat i))"
    and "unat (snd (which_way_at (Suc k) i)) = unat i mod 4 ^ k"
    and "unat (snd (which_way_at (Suc k) i)) < 4 ^ k"
    and "n < 4 ^ Suc k \<Longrightarrow> n = unat i \<longleftrightarrow>
      way_of_digit (digit k n) = fst (which_way_at (Suc k) i) \<and>
      n mod 4 ^ k = unat (snd (which_way_at (Suc k) i))"
  using assms index_eq_iff [of n k "unat i"]
  by (simp_all add: which_way_at_fst child_index_unat)

lemma forget_f_sibling:
  assumes ok: "f_ok (TNode t) (FNode s f)" and k: "k = ty_height t" and i: "unat i < 4 ^ Suc k"
    and ch: "three_child s (fst (which_way_at (Suc k) i)) = Some (Inl x)"
  shows "forget_ok H (TNode t) (FNode s f) (unat i) (forget_f H (Suc k) (FNode s f) i)"
proof -
  let ?w = "fst (which_way_at (Suc k) i)" and ?i = "snd (which_way_at (Suc k) i)"
  note ix = node_index [OF i]
  have x: "ins_all (c_ok t) x" using ok ch three_child_all by auto
  obtain x' b where fx: "ins_forget (\<lambda>c. forget_c H k c ?i) x = (x', b)" by force
  note sp = forget_i_spec [OF x k ix(3) fx]
  have res: "forget_f H (Suc k) (FNode s f) i = Inr (FNode (three_set s ?w x') f, b)"
    using fx ch by (simp add: forget_f_node del: forget_f.simps)
  have kp: "kept_f (Suc k) (FNode (three_set s ?w x') f) n =
      (if n = unat i then None else kept_f (Suc k) (FNode s f) n)" if "n < 4 ^ Suc k" for n
    using ix(4) [OF that] ch sp(4) [of "n mod 4 ^ k"] three_set_same [of s ?w x x']
      three_set_other [of "way_of_digit (digit k n)" ?w s x']
    by (cases "way_of_digit (digit k n) = ?w") auto
  have sk: "three_map (\<lambda>x. Hash (hash_i H k x)) (three_set s ?w x') =
      three_map (\<lambda>x. Hash (hash_i H k x)) s"
    by (rule three_set_map) (use ch sp(2) in auto)
  have "kept_f (Suc k) (FNode s f) (unat i) = kept_i k x (unat ?i)"
    using ch ix(1,2) by simp
  then show ?thesis
    unfolding forget_ok_def res using sp(1,3) kp sk ok by (auto simp: k three_set_all)
qed

lemma forget_f_focus:
  assumes ok: "f_ok (TNode t) (FNode s f)" and k: "k = ty_height t" and i: "unat i < 4 ^ Suc k"
    and ch: "three_child s (fst (which_way_at (Suc k) i)) = Some (Inr u)"
    and IH: "forget_ok H t f (unat (snd (which_way_at (Suc k) i)))
      (forget_f H k f (snd (which_way_at (Suc k) i)))"
  shows "forget_ok H (TNode t) (FNode s f) (unat i) (forget_f H (Suc k) (FNode s f) i)"
proof -
  let ?w = "fst (which_way_at (Suc k) i)" and ?i = "snd (which_way_at (Suc k) i)"
  note ix = node_index [OF i]
  from IH obtain f' b where f': "forget_f H k f ?i = Inr (f', b)" "f_ok t f'"
    "skel_f H k f' = skel_f H k f" "b \<longleftrightarrow> kept_f k f (unat ?i) \<noteq> None"
    "\<And>n. n < 4 ^ k \<Longrightarrow> kept_f k f' n = (if n = unat ?i then None else kept_f k f n)"
    using k by (elim forget_okE) auto
  have res: "forget_f H (Suc k) (FNode s f) i = Inr (FNode s f', b)"
    using f'(1) ch by (simp add: forget_f_node del: forget_f.simps)
  have kp: "kept_f (Suc k) (FNode s f') n =
      (if n = unat i then None else kept_f (Suc k) (FNode s f) n)" if "n < 4 ^ Suc k" for n
    using ix(4) [OF that] ch f'(5) [of "n mod 4 ^ k"]
    by (cases "way_of_digit (digit k n) = ?w")
      (auto dest: three_child_focus [OF ch] split: option.split sum.split)
  have "kept_f (Suc k) (FNode s f) (unat i) = kept_f k f (unat ?i)"
    using ch ix(1,2) by simp
  then show ?thesis
    unfolding forget_ok_def res using f'(2,3,4) kp ok by (auto simp: k)
qed

lemma forget_f_spec:
  assumes "f_ok t f" and "h = ty_height t" and "unat i < 4 ^ h"
  shows "forget_ok H t f (unat i) (forget_f H h f i)"
  using assms
proof (induction t f arbitrary: h i rule: f_ok.induct)
  case (1 x)
  then have "i = 0" by (simp add: unat_eq_zero)
  then show ?case by (cases x) (auto simp: forget_ok_def item_forget_def)
next
  case (2 t f)
  then have "forget_ok H t f (unat i) (forget_f H h f i)" by simp
  then show ?case using "2.prems"(2)
    by (elim forget_okE [OF _ "2.prems"(2) [simplified]]) (auto simp: forget_ok_def)
next
  case (3 t s f)
  have h: "h = Suc (ty_height t)" and i: "unat i < 4 ^ Suc (ty_height t)"
    using "3.prems" by simp_all
  show ?case
  proof (cases "three_child s (fst (which_way_at h i))")
    case None
    then have "kept_f h (FNode s f) (unat i) = None" using node_index(1) [OF i] by (simp add: h)
    then show ?thesis using "3.prems" None
      by (auto simp: forget_ok_def forget_f_node h simp del: forget_f.simps)
  next
    case (Some ch)
    have IH: "forget_ok H t f (unat (snd (which_way_at h i)))
        (forget_f H (ty_height t) f (snd (which_way_at h i)))"
      using "3.IH" [OF _ refl, of "snd (which_way_at h i)"] "3.prems"(1) node_index(3) [OF i]
      by (simp add: h)
    show ?thesis
    proof (cases ch)
      case (Inl x)
      then show ?thesis
        using forget_f_sibling [OF "3.prems"(1) refl i] Some h by simp
    next
      case (Inr u)
      then show ?thesis
        using forget_f_focus [OF "3.prems"(1) refl i] IH Some h by simp
    qed
  qed
next
  case (4 t f)
  then have "forget_ok H (nested t) f (unat i) (forget_f H h f i)" by simp
  then show ?case using "4.prems"(2)
    by (elim forget_okE) (auto simp: forget_ok_def)
next
  case (5 t c)
  obtain x b where fx: "forget_c H h c i = (x, b)" by force
  have x: "ins_all (c_ok (nested t)) x" "hash_i H h x = hash_c H h c"
    using forget_c_ok [of "nested t" c H h i] forget_c_hash [of H h c i] "5.prems" fx by simp_all
  have kp: "\<forall>n < 4 ^ h. kept_i h x n = (if n = unat i then None else kept_c h c n)"
    and b: "b \<longleftrightarrow> kept_c h c (unat i) \<noteq> None"
    using forget_c_kept [of "nested t" c h i _ H] "5.prems" fx by auto
  show ?case
    using x kp b "5.prems"(2) fx by (cases x) (auto simp: forget_ok_def simp del: ty_height.simps)
qed (auto simp: forget_ok_def)

text \<open>A frontier and a completed subtree implement the interface of a witnessing tree.\<close>

interpretation frontier_store: merkle_store H "ty_height t" "f_ok t" "hash_f H (ty_height t)"
  "read_f True (ty_height t)" "witness_f H (ty_height t)" "kept_f (ty_height t)"
  "forget_f H (ty_height t)" for H t
proof unfold_locales
  fix x and i :: u64 assume "f_ok t x" "unat i < 4 ^ ty_height t"
  then have "forget_ok H t x (unat i) (forget_f H (ty_height t) x i)" by (simp add: forget_f_spec)
  then show "\<exists>x' b. forget_f H (ty_height t) x i = Inr (x', b) \<and> f_ok t x' \<and>
      hash_f H (ty_height t) x' = hash_f H (ty_height t) x \<and>
      (b \<longleftrightarrow> kept_f (ty_height t) x (unat i) \<noteq> None) \<and>
      (\<forall>n < 4 ^ ty_height t. kept_f (ty_height t) x' n =
        (if n = unat i then None else kept_f (ty_height t) x n))"
    unfolding forget_ok_def by (metis hash_skel)
qed (erule witness_f_spec [OF _ refl], assumption, erule kept_imp_read)

interpretation insertion_store: merkle_store H "ty_height t" "ins_all (c_ok t)" "hash_i H (ty_height t)"
  "kept_i (ty_height t)" "\<lambda>x i. ins_witness (\<lambda>c. witness_c H (ty_height t) c i) x" "kept_i (ty_height t)"
  "\<lambda>x i. Inr (ins_forget (\<lambda>c. forget_c H (ty_height t) c i) x)" for H t
proof unfold_locales
  fix x and i :: u64 assume *: "ins_all (c_ok t) x" "unat i < 4 ^ ty_height t"
  obtain x' b where fx: "ins_forget (\<lambda>c. forget_c H (ty_height t) c i) x = (x', b)" by force
  show "\<exists>x' b. Inr (ins_forget (\<lambda>c. forget_c H (ty_height t) c i) x) = Inr (x', b) \<and>
      ins_all (c_ok t) x' \<and> hash_i H (ty_height t) x' = hash_i H (ty_height t) x \<and>
      (b \<longleftrightarrow> kept_i (ty_height t) x (unat i) \<noteq> None) \<and>
      (\<forall>n < 4 ^ ty_height t. kept_i (ty_height t) x' n =
        (if n = unat i then None else kept_i (ty_height t) x n))"
    using forget_i_spec [OF *(1) refl *(2) fx] fx by auto
qed (erule witness_i_spec [OF _ refl], assumption, assumption)

end
