(* ===== verification/TCT_Insert.thy ===== *)
theory TCT_Insert
  imports TCT_Laws
begin

text \<open>
  Insertion into a nested tier (\<open>frontier::Node\<close>, \<open>frontier::Tier\<close>, \<open>frontier::Top\<close>)
  and the position of the next insertion.

  A nested tier holds a number \<open>items_f\<close> of items, each of the height of its item type.
  Inserting into one that is not full succeeds, puts the new item behind the others and
  leaves what they witness; a full one is handed back completed.  \<open>next_f\<close> is the leaf
  index at which the next leaf goes, and \<open>GetPosition::position\<close> reports four times it.
\<close>

section \<open>Items of a nested tier\<close>

fun is_nest :: "ty \<Rightarrow> bool" where
  "is_nest (TNode t) = is_nest t"
| "is_nest (TLeaf t) = True"
| "is_nest _ = False"

fun item_ty :: "ty \<Rightarrow> ty" where
  "item_ty (TNode t) = item_ty t"
| "item_ty (TLeaf t) = t"
| "item_ty t = t"

fun levels :: "ty \<Rightarrow> nat" where
  "levels (TNode t) = Suc (levels t)"
| "levels _ = 0"

fun items_f :: "ty \<Rightarrow> frontier \<Rightarrow> nat" where
  "items_f (TNode t) (FNode s f) = three_len s * 4 ^ levels t + items_f t f"
| "items_f _ _ = 1"

lemma nested_facts [simp]:
  "is_nest (nested t)" "item_ty (nested t) = t" "levels (nested t) = 8"
  by (simp_all add: nested_def)

lemma nest_height: "is_nest t \<Longrightarrow> ty_height t = levels t + ty_height (item_ty t)"
  by (induction t) auto

lemma nest_pow: "is_nest t \<Longrightarrow> (4 :: nat) ^ ty_height t = 4 ^ levels t * 4 ^ ty_height (item_ty t)"
  by (simp add: nest_height power_add)

lemma items_pos: "0 < items_f t f"
  by (induction t f rule: items_f.induct) auto

lemma items_le: "f_ok t f \<Longrightarrow> is_nest t \<Longrightarrow> items_f t f \<le> 4 ^ levels t"
proof (induction t f rule: f_ok.induct)
  case (3 t s f)
  then have "items_f t f \<le> 4 ^ levels t" by simp
  then show ?case by (cases s) auto
qed auto

lemma items_full: "f_ok t f \<Longrightarrow> is_nest t \<Longrightarrow> is_full_f f \<longleftrightarrow> items_f t f = 4 ^ levels t"
proof (induction t f rule: f_ok.induct)
  case (3 t s f)
  have le: "items_f t f \<le> 4 ^ levels t" "0 < items_f t f"
    using 3 items_le items_pos by simp_all
  have "three_len s * 4 ^ levels t + items_f t f = 4 * 4 ^ levels t \<longleftrightarrow>
      three_len s = 3 \<and> items_f t f = 4 ^ levels t"
    using le by (cases s) auto
  then show ?case
    using 3 by (simp add: three_is_full_len)
qed auto

section \<open>Children by digit\<close>

fun three_list :: "'a three \<Rightarrow> 'a list" where
  "three_list Three0 = []"
| "three_list (Three1 a) = [a]"
| "three_list (Three2 a b) = [a, b]"
| "three_list (Three3 a b c) = [a, b, c]"

lemma length_three_list [simp]: "length (three_list s) = three_len s"
  by (cases s) auto

lemma three_child_digit:
  assumes "q < 4"
  shows "three_child s (way_of_digit q) =
    (if q < three_len s then Some (Inl (three_list s ! q))
     else if q = three_len s then Some (Inr ()) else None)"
proof -
  have "q \<in> {0, 1, 2, 3}" using assms by auto
  then show ?thesis by (cases s) (auto simp: numeral_2_eq_2 numeral_3_eq_3)
qed

lemma three_push_list:
  "three_push s x = Inr s' \<Longrightarrow> three_list s' = three_list s @ [x] \<and> three_len s' = Suc (three_len s)"
  by (cases s) auto

lemma three_push_ok: "three_push s x = Inr s' \<Longrightarrow> three_all P s' \<longleftrightarrow> three_all P s \<and> P x"
  by (cases s) auto

lemma three_push_exists: "\<not> three_is_full s \<Longrightarrow> \<exists>s'. three_push s x = Inr s'"
  by (cases s) auto

lemma three_push_map: "three_push (three_map g s) (g x) =
    (case three_push s x of Inr s' \<Rightarrow> Inr (three_map g s') | Inl (a, b, c, d) \<Rightarrow> Inl (g a, g b, g c, g d))"
  by (cases s) auto

text \<open>What a node reads at an index whose digit is \<open>q\<close>.\<close>

lemma read_node:
  "read_f b (Suc k) (FNode s f) n =
     (if digit k n < three_len s then kept_i k (three_list s ! digit k n) (n mod 4 ^ k)
      else if digit k n = three_len s then read_f b k f (n mod 4 ^ k) else None)"
  by (simp add: three_child_digit)

section \<open>New trees\<close>

lemma new_f_ok: "is_nest t \<Longrightarrow> f_ok (item_ty t) item \<Longrightarrow> f_ok t (new_f t item)"
  by (induction t) auto

lemma new_f_items [simp]: "items_f t (new_f t item) = 1"
  by (induction t) auto

lemma new_f_focus [simp]: "focus_f (new_f t item) = Some item"
  by (induction t) auto

lemma new_f_skel: "is_nest t \<Longrightarrow> skel_f H (ty_height t) (new_f t item) =
    new_f t (skel_f H (ty_height (item_ty t)) item)"
  by (induction t) auto

lemma digit_div: "is_nest t \<Longrightarrow> n < 4 ^ Suc (ty_height t) \<Longrightarrow>
    n div 4 ^ ty_height (item_ty t) =
      digit (ty_height t) n * 4 ^ levels t + n mod 4 ^ ty_height t div 4 ^ ty_height (item_ty t)"
proof -
  assume nest: "is_nest t" and n: "n < 4 ^ Suc (ty_height t)"
  let ?i = "(4 :: nat) ^ ty_height (item_ty t)"
  have "n = digit (ty_height t) n * 4 ^ levels t * ?i + n mod 4 ^ ty_height t"
    using index_split [OF n] nest_pow [OF nest] by simp
  then have "n div ?i = (digit (ty_height t) n * 4 ^ levels t * ?i + n mod 4 ^ ty_height t) div ?i"
    by simp
  then show ?thesis by simp
qed

lemma item_mod: "is_nest t \<Longrightarrow>
    (n :: nat) mod 4 ^ ty_height t mod 4 ^ ty_height (item_ty t) = n mod 4 ^ ty_height (item_ty t)"
  by (rule mod_mod_cancel) (simp add: nest_pow)

lemma new_f_read:
  assumes "is_nest t" and "n < 4 ^ ty_height t"
  shows "read_f b (ty_height t) (new_f t item) n =
    (if n div 4 ^ ty_height (item_ty t) = 0
     then read_f b (ty_height (item_ty t)) item (n mod 4 ^ ty_height (item_ty t)) else None)"
  using assms
proof (induction t arbitrary: n)
  case (TNode t)
  have nest: "is_nest t" using TNode.prems by simp
  have split: "n div 4 ^ ty_height (item_ty t) =
      digit (ty_height t) n * 4 ^ levels t + n mod 4 ^ ty_height t div 4 ^ ty_height (item_ty t)"
    using digit_div [OF nest, of n] TNode.prems by simp
  show ?case
    using TNode.IH [OF nest, of "n mod 4 ^ ty_height t"] split item_mod [OF nest, of n]
    by (simp add: read_node del: read_f.simps)
qed auto

section \<open>Insertion\<close>

lemma insert_full:
  "f_ok t f \<Longrightarrow> is_nest t \<Longrightarrow> is_full_f f \<Longrightarrow>
     insert_f H t f item = Inl (item, finalize_f H (ty_height t) f)"
proof (induction t f rule: f_ok.induct)
  case (3 t s f)
  then show ?case
    by (cases s) (simp_all add: from_siblings_and_focus_or_else_hash_def)
qed auto

lemma mixed_radix_eq_iff:
  fixes p :: nat
  assumes "r < p" and "r' < p"
  shows "q * p + r = q' * p + r' \<longleftrightarrow> q = q' \<and> r = r'"
proof
  assume eq: "q * p + r = q' * p + r'"
  have "q = (q * p + r) div p" "q' = (q' * p + r') div p" using assms by simp_all
  with eq show "q = q' \<and> r = r'" by simp
qed simp

text \<open>The contract of an insertion that succeeds.\<close>

definition inserted :: "ty \<Rightarrow> frontier \<Rightarrow> frontier \<Rightarrow> frontier \<Rightarrow> bool" where
  "inserted t f item f' \<longleftrightarrow>
     f_ok t f' \<and> items_f t f' = Suc (items_f t f) \<and> focus_f f' = Some item \<and>
     (\<forall>b. \<forall>n < 4 ^ ty_height t. read_f b (ty_height t) f' n =
        (if n div 4 ^ ty_height (item_ty t) = items_f t f
         then read_f b (ty_height (item_ty t)) item (n mod 4 ^ ty_height (item_ty t))
         else kept_f (ty_height t) f n))"

text \<open>The focus has room: the node inserts there.\<close>

lemma insert_at_focus:
  assumes ok: "f_ok (TNode t) (FNode s f)" "is_nest t" and ins: "inserted t f item f'"
    and room: "items_f t f < 4 ^ levels t"
  shows "inserted (TNode t) (FNode s f) item (FNode s f')"
proof -
  let ?k = "ty_height t" and ?i = "ty_height (item_ty t)"
  have "read_f b (Suc ?k) (FNode s f') n =
      (if n div 4 ^ ?i = three_len s * 4 ^ levels t + items_f t f
       then read_f b ?i item (n mod 4 ^ ?i) else kept_f (Suc ?k) (FNode s f) n)"
    if n: "n < 4 ^ Suc ?k" for b n
  proof -
    let ?q = "digit ?k n" and ?m = "n mod 4 ^ ?k"
    have m: "?m < 4 ^ ?k" by simp
    have "?m div 4 ^ ?i < 4 ^ levels t"
      using m by (simp add: nest_pow [OF ok(2)] less_mult_imp_div_less)
    then have eq: "n div 4 ^ ?i = three_len s * 4 ^ levels t + items_f t f \<longleftrightarrow>
        ?q = three_len s \<and> ?m div 4 ^ ?i = items_f t f"
      unfolding digit_div [OF ok(2) n] by (rule mixed_radix_eq_iff) (rule room)
    have "read_f b ?k f' ?m = (if ?m div 4 ^ ?i = items_f t f
        then read_f b ?i item (?m mod 4 ^ ?i) else kept_f ?k f ?m)"
      using ins m unfolding inserted_def by blast
    then show ?thesis
      using eq item_mod [OF ok(2), of n] by (auto simp: read_node simp del: read_f.simps)
  qed
  then show ?thesis using ok ins by (simp add: inserted_def)
qed

text \<open>The focus is full but a sibling fits: the node opens a new focus.\<close>

lemma insert_new_focus:
  assumes ok: "f_ok (TNode t) (FNode s f)" "is_nest t" "f_ok (item_ty t) item"
    and full: "items_f t f = 4 ^ levels t"
    and push: "three_push s (finalize_f H (ty_height t) f) = Inr s'"
  shows "inserted (TNode t) (FNode s f) item (FNode s' (new_f t item))"
proof -
  let ?k = "ty_height t" and ?i = "ty_height (item_ty t)" and ?c = "finalize_f H (ty_height t) f"
  note s' = three_push_list [OF push]
  have "read_f b (Suc ?k) (FNode s' (new_f t item)) n =
      (if n div 4 ^ ?i = three_len s * 4 ^ levels t + items_f t f
       then read_f b ?i item (n mod 4 ^ ?i) else kept_f (Suc ?k) (FNode s f) n)"
    if n: "n < 4 ^ Suc ?k" for b n
  proof -
    let ?q = "digit ?k n" and ?m = "n mod 4 ^ ?k"
    have m: "?m < 4 ^ ?k" by simp
    have "?m div 4 ^ ?i < 4 ^ levels t"
      using m by (simp add: nest_pow [OF ok(2)] less_mult_imp_div_less)
    then have "?q * 4 ^ levels t + ?m div 4 ^ ?i = Suc (three_len s) * 4 ^ levels t + 0 \<longleftrightarrow>
        ?q = Suc (three_len s) \<and> ?m div 4 ^ ?i = 0"
      by (rule mixed_radix_eq_iff) simp
    then have eq: "n div 4 ^ ?i = three_len s * 4 ^ levels t + items_f t f \<longleftrightarrow>
        ?q = Suc (three_len s) \<and> ?m div 4 ^ ?i = 0"
      unfolding digit_div [OF ok(2) n] by (simp add: full add.commute)
    have new: "read_f b ?k (new_f t item) ?m =
        (if ?m div 4 ^ ?i = 0 then read_f b ?i item (n mod 4 ^ ?i) else None)"
      using new_f_read [OF ok(2) m] item_mod [OF ok(2), of n] by simp
    have "kept_i ?k ?c ?m = kept_f ?k f ?m"
      using ok(1) finalize_kept [of t f ?k H ?k ?m] by simp
    then show ?thesis
      unfolding read_node using s' eq new by (auto simp: nth_append)
  qed
  then show ?thesis
    using ok s' full three_push_ok [OF push, of "ins_all (c_ok t)"]
    by (simp add: inserted_def new_f_ok finalize_ok)
qed

lemma insert_not_full:
  assumes "f_ok t f" and "is_nest t" and "f_ok (item_ty t) item" and "\<not> is_full_f f"
  shows "\<exists>f'. insert_f H t f item = Inr f' \<and> inserted t f item f'"
  using assms
proof (induction t f rule: f_ok.induct)
  case (3 t s f)
  show ?case
  proof (cases "is_full_f f")
    case True
    then obtain s' where push: "three_push s (finalize_f H (ty_height t) f) = Inr s'"
      using "3.prems"(4) three_push_exists by force
    moreover have "items_f t f = 4 ^ levels t"
      using True "3.prems"(1,2) items_full [of t f] by simp
    ultimately show ?thesis
      using insert_new_focus [OF "3.prems"(1) _ _ _ push, of item] insert_full [of t f H item]
        True "3.prems" by simp
  next
    case False
    then obtain f' where f': "insert_f H t f item = Inr f'" "inserted t f item f'"
      using 3 by auto
    have "items_f t f < 4 ^ levels t"
      using False "3.prems"(1,2) items_full [of t f] items_le [of t f] by (simp add: order_less_le)
    then show ?thesis
      using insert_at_focus [OF "3.prems"(1) _ f'(2)] f'(1) "3.prems"(2) by simp
  qed
qed auto

lemma insert_skel:
  assumes "is_nest t" and "f_ok t f"
  shows "insert_f H t (skel_f H (ty_height t) f) (skel_f H (ty_height (item_ty t)) item) =
    (case insert_f H t f item of
       Inr f' \<Rightarrow> Inr (skel_f H (ty_height t) f')
     | Inl (x, c) \<Rightarrow> Inl (skel_f H (ty_height (item_ty t)) x, Hash (hash_i H (ty_height t) c)))"
  using assms
proof (induction t f rule: f_ok.induct)
  case (3 t s f)
  then have IH: "insert_f H t (skel_f H (ty_height t) f) (skel_f H (ty_height (item_ty t)) item) =
      (case insert_f H t f item of
         Inr f' \<Rightarrow> Inr (skel_f H (ty_height t) f')
       | Inl (x, c) \<Rightarrow> Inl (skel_f H (ty_height (item_ty t)) x, Hash (hash_i H (ty_height t) c)))"
    by simp
  show ?case
  proof (cases "insert_f H t f item")
    case (Inl p)
    then show ?thesis
      using IH "3.prems"(1) by (cases p; cases s) (simp_all add: new_f_skel from_children_eq)
  next
    case (Inr f')
    then show ?thesis using IH by simp
  qed
qed (auto simp: finalize_skel)

section \<open>Tiers\<close>

text \<open>\<open>Tier::insert\<close> and \<open>Top::insert\<close> never reach their panic.\<close>

lemma tier_insert_open:
  assumes "f_ok (TTier t) (TierFrontier f)" and "f_ok t item" and "\<not> is_full_f f"
  obtains f' where "tier_insert H t (TierFrontier f) item = Inr (TierFrontier f', Inr ())"
    and "insert_f H (nested t) f item = Inr f'" and "inserted (nested t) f item f'"
  using insert_not_full [of "nested t" f item H] assms by auto

lemma tier_insert_refused:
  assumes "is_full_f f"
  shows "tier_insert H t f item = Inr (f, Inl item)"
  using assms by (cases f) auto

lemma tier_finalize_ok:
  assumes "f_ok (TTier t) f" and "h = ty_height (TTier t)"
  shows "f_ok (TTier t) (fst (tier_finalize H h f))"
    and "read_f b h (fst (tier_finalize H h f)) n = kept_f h f n"
    and "skel_f H h (fst (tier_finalize H h f)) = fst (tier_finalize H h (skel_f H h f))"
    and "tier_is_finalized (fst (tier_finalize H h f))"
proof -
  have "f_ok (TTier t) (fst (tier_finalize H h f)) \<and>
      read_f b h (fst (tier_finalize H h f)) n = kept_f h f n \<and>
      skel_f H h (fst (tier_finalize H h f)) = fst (tier_finalize H h (skel_f H h f)) \<and>
      tier_is_finalized (fst (tier_finalize H h f))"
  proof (cases "\<exists>g. f = TierFrontier g")
    case True
    then obtain g where g: "f = TierFrontier g" by blast
    have "ins_all (c_ok (nested t)) (finalize_f H h g)" "kept_i h (finalize_f H h g) n = kept_f h g n"
      using assms g finalize_ok finalize_kept [of "nested t" g h H h n] by simp_all
    then show ?thesis
      by (cases "finalize_f H h g") (simp_all add: tier_finalize_def g finalize_skel)
  next
    case False
    then show ?thesis
      using assms by (cases f) (simp_all add: tier_finalize_def)
  qed
  then show "f_ok (TTier t) (fst (tier_finalize H h f))"
    "read_f b h (fst (tier_finalize H h f)) n = kept_f h f n"
    "skel_f H h (fst (tier_finalize H h f)) = fst (tier_finalize H h (skel_f H h f))"
    "tier_is_finalized (fst (tier_finalize H h f))" by blast+
qed

section \<open>Updating the focus\<close>

fun set_focus :: "frontier \<Rightarrow> frontier \<Rightarrow> frontier" where
  "set_focus x (FNode s f) = FNode s (set_focus x f)"
| "set_focus x (FLeaf y) = FLeaf x"
| "set_focus x f = f"

lemma nest_focus: "f_ok t f \<Longrightarrow> is_nest t \<Longrightarrow> \<exists>x. focus_f f = Some x \<and> f_ok (item_ty t) x"
  by (induction t f rule: f_ok.induct) auto

lemma update_f_eq:
  "focus_f f = Some x \<Longrightarrow> update_f g f = (set_focus (fst (g x)) f, Some (snd (g x)))"
  by (induction f) (auto simp: case_prod_beta)

lemma set_focus_same [simp]: "focus_f f = Some x \<Longrightarrow> set_focus x f = f"
  by (induction f) auto

lemma focus_set_focus [simp]: "focus_f f = Some y \<Longrightarrow> focus_f (set_focus x f) = Some x"
  by (induction f) auto

lemma set_focus_set_focus [simp]: "set_focus x (set_focus y f) = set_focus x f"
  by (induction f) auto

lemma set_focus_ok: "f_ok t f \<Longrightarrow> is_nest t \<Longrightarrow> f_ok (item_ty t) x \<Longrightarrow> f_ok t (set_focus x f)"
  by (induction t f rule: f_ok.induct) auto

lemma set_focus_items [simp]: "items_f t (set_focus x f) = items_f t f"
proof (induction f arbitrary: t)
  case (FNode s f)
  then show ?case by (cases t) auto
next
  case (FLeaf f)
  show ?case by (cases t) auto
qed auto

lemma set_focus_full [simp]: "is_full_f (set_focus x f) = is_full_f f"
  by (induction f) auto

lemma skel_focus:
  "f_ok t f \<Longrightarrow> is_nest t \<Longrightarrow> focus_f f = Some x \<Longrightarrow>
     focus_f (skel_f H (ty_height t) f) = Some (skel_f H (ty_height (item_ty t)) x)"
  by (induction t f rule: f_ok.induct) auto

lemma skel_set_focus:
  "f_ok t f \<Longrightarrow> is_nest t \<Longrightarrow>
     skel_f H (ty_height t) (set_focus x f) =
       set_focus (skel_f H (ty_height (item_ty t)) x) (skel_f H (ty_height t) f)"
  by (induction t f rule: f_ok.induct) auto

text \<open>An index lies in the last item of a node if it lies in the last item of its focus.\<close>

lemma last_item_node:
  assumes "f_ok t f" and "is_nest t" and "n < 4 ^ Suc (ty_height t)"
  shows "Suc (n div 4 ^ ty_height (item_ty t)) = three_len s * 4 ^ levels t + items_f t f \<longleftrightarrow>
    digit (ty_height t) n = three_len s \<and>
    Suc (n mod 4 ^ ty_height t div 4 ^ ty_height (item_ty t)) = items_f t f"
proof -
  let ?k = "ty_height t" and ?i = "ty_height (item_ty t)" and ?q = "digit (ty_height t) n"
  let ?m = "n mod 4 ^ ty_height t"
  have "?m < 4 ^ ?k" by simp
  then have "?m div 4 ^ ?i < 4 ^ levels t" by (simp add: nest_pow [OF assms(2)] less_mult_imp_div_less)
  moreover have "items_f t f - 1 < 4 ^ levels t"
    using items_le [OF assms(1,2)] items_pos [of t f] by linarith
  ultimately have "?q * 4 ^ levels t + ?m div 4 ^ ?i = three_len s * 4 ^ levels t + (items_f t f - 1)
      \<longleftrightarrow> ?q = three_len s \<and> ?m div 4 ^ ?i = items_f t f - 1"
    by (rule mixed_radix_eq_iff)
  then show ?thesis
    unfolding digit_div [OF assms(2,3)] using items_pos [of t f] by linarith
qed

lemma read_set_focus:
  assumes "f_ok t f" and "is_nest t" and "n < 4 ^ ty_height t"
  shows "read_f b (ty_height t) (set_focus x f) n =
    (if Suc (n div 4 ^ ty_height (item_ty t)) = items_f t f
     then read_f b (ty_height (item_ty t)) x (n mod 4 ^ ty_height (item_ty t))
     else read_f b (ty_height t) f n)"
  using assms
proof (induction t f arbitrary: n rule: f_ok.induct)
  case (3 t s f)
  let ?m = "n mod 4 ^ ty_height t"
  have nest: "is_nest t" and n: "n < 4 ^ Suc (ty_height t)" and ok: "f_ok t f"
    using "3.prems" by simp_all
  have m: "?m < 4 ^ ty_height t" by simp
  show ?case
    using "3.IH" [OF ok nest m] last_item_node [OF ok nest n, of s] item_mod [OF nest, of n]
    by (auto simp: read_node simp del: read_f.simps)
qed auto

text \<open>Outside the last item, whatever can be read is kept.\<close>

lemma read_off_focus:
  assumes "f_ok t f" and "is_nest t" and "n < 4 ^ ty_height t"
    and "Suc (n div 4 ^ ty_height (item_ty t)) \<noteq> items_f t f"
  shows "read_f b (ty_height t) f n = kept_f (ty_height t) f n"
  using assms
proof (induction t f arbitrary: n rule: f_ok.induct)
  case (3 t s f)
  let ?m = "n mod 4 ^ ty_height t"
  have nest: "is_nest t" and n: "n < 4 ^ Suc (ty_height t)" and ok: "f_ok t f"
    using "3.prems" by simp_all
  have m: "?m < 4 ^ ty_height t" by simp
  show ?case
    using "3.IH" [OF ok nest m] last_item_node [OF ok nest n, of s] "3.prems"(4)
    by (auto simp: read_node simp del: read_f.simps)
qed auto

section \<open>Positions\<close>

fun next_f :: "nat \<Rightarrow> frontier \<Rightarrow> nat option" where
  "next_f h (FLeaf f) = next_f h f"
| "next_f h (FNode s f) =
     (case next_f (h - 1) f of
        Some p \<Rightarrow> Some (three_len s * 4 ^ (h - 1) + p)
      | None \<Rightarrow> if three_len s < 3 then Some (Suc (three_len s) * 4 ^ (h - 1)) else None)"
| "next_f h (TierFrontier f) = next_f h f"
| "next_f h _ = None"

lemma siblings_push_bit: "push_bit (2 * h) (of_nat n :: u64) = of_nat (n * 4 ^ h)"
  by (simp add: push_bit_eq_mult four_pow mult.commute)

lemma siblings_lt: "1 + (of_nat (three_len s) :: u64) < 4 \<longleftrightarrow> three_len s < 3"
  by (cases s) simp_all

lemma position_next:
  "f_ok t f \<Longrightarrow> position_f (ty_height t) f = map_option (\<lambda>n. of_nat (4 * n)) (next_f (ty_height t) f)"
proof (induction t f rule: f_ok.induct)
  case (3 t s f)
  have suc: "(of_nat (three_len s) :: u64) + 1 = of_nat (Suc (three_len s))" by simp
  show ?case
    using 3 by (cases "next_f (ty_height t) f")
      (simp_all only: position_f.simps next_f.simps ty_height.simps diff_Suc_1 siblings_push_bit
        suc Let_def f_ok.simps option.case option.map simp_thms if_distrib,
       simp_all add: algebra_simps siblings_lt)
qed (auto split: option.splits)

text \<open>The next leaf goes into the focused item if it has room, and else opens a new item.\<close>

lemma next_nest:
  assumes "f_ok t f" and "is_nest t" and "focus_f f = Some x"
  shows "next_f (ty_height t) f =
    (case next_f (ty_height (item_ty t)) x of
       Some p \<Rightarrow> Some ((items_f t f - 1) * 4 ^ ty_height (item_ty t) + p)
     | None \<Rightarrow> if is_full_f f then None else Some (items_f t f * 4 ^ ty_height (item_ty t)))"
  using assms
proof (induction t f rule: f_ok.induct)
  case (2 t f)
  then show ?case by (simp split: option.split)
next
  case (3 t s f)
  let ?i = "(4 :: nat) ^ ty_height (item_ty t)"
  have ok: "f_ok t f" "is_nest t" "focus_f f = Some x" using "3.prems" by simp_all
  note IH = "3.IH" [OF ok] and pow = nest_pow [OF ok(2)]
  obtain m where m: "items_f t f = Suc m" using items_pos [of t f] by (cases "items_f t f") auto
  show ?case
  proof (cases "next_f (ty_height (item_ty t)) x")
    case (Some p)
    then show ?thesis using IH by (simp add: m pow algebra_simps)
  next
    case None
    show ?thesis
    proof (cases "is_full_f f")
      case True
      then have "items_f t f = 4 ^ levels t" using items_full [OF ok(1,2)] by simp
      then show ?thesis using IH None True
        by (cases s) (simp_all add: pow algebra_simps)
    next
      case False
      then show ?thesis using IH None by (simp add: pow algebra_simps)
    qed
  qed
qed auto

end
