(* ===== verification/TCT_Index.thy ===== *)
theory TCT_Index
  imports Prelude
begin

text \<open>
  Indices into the tiered commitment tree (\<open>tct/src/index.rs\<close>) and \<open>Position\<close>
  (\<open>tct/src/tree.rs\<close>): an item is addressed by its epoch, block and commitment numbers,
  16 bits each, packed into the integer by which the tree is walked.
\<close>

unbundle bit_operations_syntax

record within_block =
  wb_commitment :: u16

record within_epoch =
  we_block :: u16
  we_commitment :: u16

record within_tree =
  wt_epoch :: u16
  wt_block :: u16
  wt_commitment :: u16

definition u16_of_within_block :: "within_block \<Rightarrow> u16" where
  "u16_of_within_block p = wb_commitment p"

definition within_block_of_u16 :: "u16 \<Rightarrow> within_block" where
  "within_block_of_u16 p = \<lparr>wb_commitment = p\<rparr>"

definition u64_of_within_block :: "within_block \<Rightarrow> u64" where
  "u64_of_within_block p = ucast (u16_of_within_block p)"

definition u32_of_within_epoch :: "within_epoch \<Rightarrow> u32" where
  "u32_of_within_epoch p = push_bit 16 (ucast (we_block p)) OR ucast (we_commitment p)"

definition within_epoch_of_u32 :: "u32 \<Rightarrow> within_epoch" where
  "within_epoch_of_u32 p = \<lparr>we_block = ucast (drop_bit 16 p), we_commitment = ucast p\<rparr>"

definition u64_of_within_epoch :: "within_epoch \<Rightarrow> u64" where
  "u64_of_within_epoch p = ucast (u32_of_within_epoch p)"

definition u64_of_within_tree :: "within_tree \<Rightarrow> u64" where
  "u64_of_within_tree p =
     push_bit 32 (ucast (wt_epoch p)) OR push_bit 16 (ucast (wt_block p)) OR ucast (wt_commitment p)"

definition within_tree_of_u64 :: "u64 \<Rightarrow> within_tree" where
  "within_tree_of_u64 p =
     \<lparr>wt_epoch = ucast (drop_bit 32 p), wt_block = ucast (drop_bit 16 p), wt_commitment = ucast p\<rparr>"

text \<open>
  \<open>increment\<close> of the three index types: the sum that \<open>checked_add\<close> returns is dropped,
  so the index stays as it is.
\<close>

definition index_increment :: "u16 \<Rightarrow> u16 result" where
  "index_increment i =
     (if unat i + 1 < 2 ^ 16 then Inr i else Inl (Panic ''block index should never overflow''))"

definition u16_try_from :: "u64 \<Rightarrow> u16 option" where
  "u16_try_from p = (if unat p < 2 ^ 16 then Some (ucast p) else None)"

definition u32_try_from :: "u64 \<Rightarrow> u32 option" where
  "u32_try_from p = (if unat p < 2 ^ 32 then Some (ucast p) else None)"

section \<open>Round trips\<close>

lemma within_epoch_bit:
  "bit (u32_of_within_epoch p) n \<longleftrightarrow> n < 32 \<and>
     (if n < 16 then bit (we_commitment p) n else bit (we_block p) (n - 16))"
  by (auto simp: u32_of_within_epoch_def bit_or_iff bit_push_bit_iff bit_ucast_iff
      dest: bit_imp_le_length)

lemma within_tree_bit:
  "bit (u64_of_within_tree p) n \<longleftrightarrow> n < 48 \<and>
     (if n < 16 then bit (wt_commitment p) n
      else if n < 32 then bit (wt_block p) (n - 16) else bit (wt_epoch p) (n - 32))"
  by (auto simp: u64_of_within_tree_def bit_or_iff bit_push_bit_iff bit_ucast_iff
      dest: bit_imp_le_length)

lemma within_epoch_inverse: "within_epoch_of_u32 (u32_of_within_epoch p) = p"
proof -
  have "ucast (drop_bit 16 (u32_of_within_epoch p)) = we_block p"
    "ucast (u32_of_within_epoch p) = we_commitment p"
    by (auto intro!: bit_word_eqI simp: bit_ucast_iff bit_drop_bit_eq within_epoch_bit)
  then show ?thesis by (simp add: within_epoch_of_u32_def)
qed

lemma within_tree_inverse: "within_tree_of_u64 (u64_of_within_tree p) = p"
proof -
  have "ucast (drop_bit 32 (u64_of_within_tree p)) = wt_epoch p"
    "ucast (drop_bit 16 (u64_of_within_tree p)) = wt_block p"
    "ucast (u64_of_within_tree p) = wt_commitment p"
    by (auto intro!: bit_word_eqI simp: bit_ucast_iff bit_drop_bit_eq within_tree_bit)
  then show ?thesis by (simp add: within_tree_of_u64_def)
qed

lemma within_tree_of_u64_inverse: "u64_of_within_tree (within_tree_of_u64 p) = take_bit 48 p"
  by (rule bit_word_eqI)
    (auto simp: within_tree_bit within_tree_of_u64_def bit_ucast_iff bit_drop_bit_eq bit_take_bit_iff)

lemma within_tree_lt: "unat (u64_of_within_tree p) < 4 ^ 24"
proof -
  have "u64_of_within_tree p = take_bit 48 (u64_of_within_tree p)"
    by (rule bit_word_eqI) (auto simp: within_tree_bit bit_take_bit_iff)
  then have "unat (u64_of_within_tree p) = take_bit 48 (unat (u64_of_within_tree p))"
    by (metis unsigned_take_bit_eq)
  also have "\<dots> < 2 ^ 48" by (rule take_bit_nat_less_exp)
  finally show ?thesis by simp
qed

text \<open>
  Positions survive their packing: a (block, commitment) pair through \<open>u32\<close> and an
  (epoch, block, commitment) triple through \<open>u64\<close> come back unchanged, and an integer
  below \<open>2^48\<close>, the capacity of the tree, is recovered from its triple.
\<close>

theorem index_roundtrip:
  "within_epoch_of_u32 (u32_of_within_epoch e) = e"
  "within_tree_of_u64 (u64_of_within_tree t) = t"
  "unat p < 2 ^ 48 \<Longrightarrow> u64_of_within_tree (within_tree_of_u64 p) = p"
proof -
  assume "unat p < 2 ^ 48"
  then have "unat (take_bit 48 p) = unat p"
    by (simp only: unsigned_take_bit_eq take_bit_nat_eq_self)
  then show "u64_of_within_tree (within_tree_of_u64 p) = p"
    by (simp add: within_tree_of_u64_inverse word_unat_eq_iff)
qed (simp_all add: within_epoch_inverse within_tree_inverse)

text \<open>The increment never increments.\<close>

lemma increment_is_identity: "index_increment i = Inr j \<Longrightarrow> j = i"
  by (auto simp: index_increment_def split: if_splits)

end
