(* ===== verification/TCT_Tree.thy ===== *)
theory TCT_Tree
  imports TCT_Insert TCT_Index "HOL-Library.AList"
begin

text \<open>
  The exposed tiered commitment tree: the block builder (\<open>tct/src/block.rs\<close>), the epoch
  builder (\<open>tct/src/epoch.rs\<close>) and the tree (\<open>tct/src/tree.rs\<close>).  Each pairs a top tier
  with a hash map from commitments to positions.  The hash map is an association list
  with its entries in the order of iteration.

  A method on \<open>&mut self\<close> returns the new value; an error leaves the old one.
\<close>

section \<open>Common parts\<close>

datatype witness = KeepWitness | ForgetWitness

record 'p builder =
  b_index :: "(fq \<times> 'p) list"
  b_inner :: top_tier

record 'p finalized =
  fin_index :: "(fq \<times> 'p) list"
  fin_inner :: "complete insertion"

type_synonym block_builder = "within_block builder"
type_synonym block_finalized = "within_block finalized"
type_synonym epoch_builder = "within_epoch builder"
type_synonym epoch_finalized = "within_epoch finalized"
type_synonym tree = "within_tree builder"

abbreviation block_ty :: ty where
  "block_ty \<equiv> TTier TItem"

abbreviation epoch_ty :: ty where
  "epoch_ty \<equiv> TTier block_ty"

text \<open>\<open>Default\<close> and \<open>new\<close> of the three structures.\<close>

definition builder_new :: "'p builder" where
  "builder_new = \<lparr>b_index = [], b_inner = None\<rparr>"

definition witness_item :: "hasher \<Rightarrow> witness \<Rightarrow> fq \<Rightarrow> frontier" where
  "witness_item H w commitment =
     (case w of
        KeepWitness \<Rightarrow> item_of_commitment H commitment
      | ForgetWitness \<Rightarrow> item_of_hash (hash_of H commitment))"

text \<open>
  The loop body shared by all insertions: record a commitment's position, and forget in the
  tree the position it had before.
\<close>

definition remember :: "hasher \<Rightarrow> nat \<Rightarrow> ('p \<Rightarrow> u64) \<Rightarrow> fq \<Rightarrow> 'p \<Rightarrow> 'p builder \<Rightarrow> 'p builder result" where
  "remember H h conv c p b =
     (let b' = b\<lparr>b_index := AList.update c p (b_index b)\<rparr> in
      case map_of (b_index b) c of
        None \<Rightarrow> Inr b'
      | Some replaced \<Rightarrow>
          bindR (top_forget H h (b_inner b) (conv replaced)) (\<lambda>(inner, _).
          Inr (b'\<lparr>b_inner := inner\<rparr>)))"

text \<open>\<open>expect\<close> on the result of an insertion into a tier.\<close>

definition expect_inserted :: "string \<Rightarrow> ('f \<times> (frontier + unit)) result \<Rightarrow> 'f result" where
  "expect_inserted m r =
     bindR r (\<lambda>(f, ok). case ok of Inl _ \<Rightarrow> Inl (Panic m) | Inr _ \<Rightarrow> Inr f)"

text \<open>
  Roots on the wire: 32 bytes of a field element, read and written by the field's package.
\<close>

definition tct_root_of_proto :: "(u8 list \<Rightarrow> fq option) \<Rightarrow> u8 list \<Rightarrow> fq result" where
  "tct_root_of_proto from_bytes bs =
     bindR (ensure (Err ''could not decode tree root'') (length bs = 32)) (\<lambda>_.
     ok_or (Err ''could not decode tree root'') (from_bytes bs))"

definition tct_root_to_proto :: "(fq \<Rightarrow> u8 list) \<Rightarrow> fq \<Rightarrow> u8 list" where
  "tct_root_to_proto to_bytes root = to_bytes root"

section \<open>Blocks\<close>

definition block_builder_insert :: "hasher \<Rightarrow> witness \<Rightarrow> fq \<Rightarrow> block_builder \<Rightarrow> block_builder result" where
  "block_builder_insert H w commitment b =
     bindR (ok_or (Err ''block is full'') (top_position 8 (b_inner b))) (\<lambda>p.
     bindR (ok_or (Panic ''position of block is never greater than u16::MAX'') (u16_try_from p)) (\<lambda>p.
     bindR (expect_inserted ''inserting a commitment must succeed when block has a position''
              (top_insert H TItem (b_inner b) (witness_item H w commitment))) (\<lambda>inner.
     let b' = b\<lparr>b_inner := inner\<rparr> in
     case w of
       KeepWitness \<Rightarrow> remember H 8 u64_of_within_block commitment \<lparr>wb_commitment = p\<rparr> b'
     | ForgetWitness \<Rightarrow> Inr b')))"

definition block_builder_root :: "hasher \<Rightarrow> block_builder \<Rightarrow> fq" where
  "block_builder_root H b = top_hash H 8 (b_inner b)"

text \<open>\<open>Builder::finalize\<close>: the finalized block, and the builder reset.\<close>

definition block_builder_finalize :: "hasher \<Rightarrow> block_builder \<Rightarrow> block_finalized \<times> block_builder" where
  "block_builder_finalize H b =
     (\<lparr>fin_index = b_index b, fin_inner = top_finalize H 8 (b_inner b)\<rparr>, builder_new)"

definition block_finalized_default :: "hasher \<Rightarrow> block_finalized" where
  "block_finalized_default H = fst (block_builder_finalize H builder_new)"

definition finalized_of_root :: "fq \<Rightarrow> 'p finalized" where
  "finalized_of_root root = \<lparr>fin_index = [], fin_inner = Hash root\<rparr>"

definition block_finalized_root :: "hasher \<Rightarrow> block_finalized \<Rightarrow> fq" where
  "block_finalized_root H f = hash_i H 8 (fin_inner f)"

section \<open>Epochs\<close>

text \<open>Inserting into the latest block: \<open>block.insert(item).map_err(BlockFull)\<close>.\<close>

definition insert_into_block :: "hasher \<Rightarrow> frontier \<Rightarrow> frontier \<Rightarrow> frontier \<times> unit result" where
  "insert_into_block H item block =
     (case tier_insert H TItem block item of
        Inl e \<Rightarrow> (block, Inl e)
      | Inr (block', Inl _) \<Rightarrow> (block', Inl (Err ''most recent block is full''))
      | Inr (block', Inr _) \<Rightarrow> (block', Inr ()))"

definition epoch_builder_insert :: "hasher \<Rightarrow> witness \<Rightarrow> fq \<Rightarrow> epoch_builder \<Rightarrow> epoch_builder result" where
  "epoch_builder_insert H w commitment b =
     (let item = witness_item H w commitment in
      bindR (ok_or (Err ''epoch is full'') (top_position 16 (b_inner b))) (\<lambda>p.
      bindR (ok_or (Panic ''position of epoch is never greater than u32::MAX'') (u32_try_from p)) (\<lambda>p.
      bindR (case top_update (insert_into_block H item) (b_inner b) of
               (inner, Some r) \<Rightarrow> bindR r (\<lambda>_. Inr inner)
             | (inner, None) \<Rightarrow>
                 bindR (top_insert H block_ty inner (tier_new TItem item)) (\<lambda>(inner, ok).
                 case ok of Inl _ \<Rightarrow> Inl (Err ''epoch is full'') | Inr _ \<Rightarrow> Inr inner)) (\<lambda>inner.
      let b' = b\<lparr>b_inner := inner\<rparr> in
      case w of
        KeepWitness \<Rightarrow> remember H 16 u64_of_within_epoch commitment (within_epoch_of_u32 p) b'
      | ForgetWitness \<Rightarrow> Inr b'))))"

definition epoch_builder_insert_block :: "hasher \<Rightarrow> block_finalized \<Rightarrow> epoch_builder \<Rightarrow> epoch_builder result" where
  "epoch_builder_insert_block H f b =
     (if top_is_full (b_inner b) then Inl (Err ''epoch is full'')
      else
        let block = tier_of_complete (fin_inner f);
            inner = fst (top_update (tier_finalize H 8) (b_inner b)) in
        bindR (ok_or (Panic ''epoch must have a position because it is not full'') (top_position 16 inner)) (\<lambda>p.
        bindR (ok_or (Panic ''position of epoch is never greater than u32::MAX'') (u32_try_from p)) (\<lambda>p.
        bindR (expect_inserted ''inserting a block must succeed because epoch is not full''
                 (top_insert H block_ty inner block)) (\<lambda>inner.
        foldR (\<lambda>(c, wb). remember H 16 u64_of_within_epoch c
                 \<lparr>we_block = we_block (within_epoch_of_u32 p), we_commitment = wb_commitment wb\<rparr>)
          (fin_index f) (b\<lparr>b_inner := inner\<rparr>)))))"

definition epoch_builder_end_block :: "hasher \<Rightarrow> epoch_builder \<Rightarrow> epoch_builder result" where
  "epoch_builder_end_block H b =
     (let (inner, r) = top_update (tier_finalize H 8) (b_inner b);
          already_finalized = (case r of None \<Rightarrow> True | Some x \<Rightarrow> x);
          b' = b\<lparr>b_inner := inner\<rparr>
      in if already_finalized then epoch_builder_insert_block H (block_finalized_default H) b'
         else Inr b')"

definition epoch_builder_root :: "hasher \<Rightarrow> epoch_builder \<Rightarrow> fq" where
  "epoch_builder_root H b = top_hash H 16 (b_inner b)"

definition epoch_builder_finalize :: "hasher \<Rightarrow> epoch_builder \<Rightarrow> epoch_finalized \<times> epoch_builder" where
  "epoch_builder_finalize H b =
     (\<lparr>fin_index = b_index b, fin_inner = top_finalize H 16 (b_inner b)\<rparr>, builder_new)"

definition epoch_finalized_default :: "hasher \<Rightarrow> epoch_finalized" where
  "epoch_finalized_default H = fst (epoch_builder_finalize H builder_new)"

definition epoch_finalized_root :: "hasher \<Rightarrow> epoch_finalized \<Rightarrow> fq" where
  "epoch_finalized_root H f = hash_i H 16 (fin_inner f)"

section \<open>The tree\<close>

definition tree_root :: "hasher \<Rightarrow> tree \<Rightarrow> fq" where
  "tree_root H t = top_hash H 24 (b_inner t)"

text \<open>
  The closure that \<open>Tree::insert\<close> runs on the latest epoch: insert into its latest block,
  or open a block if it has none.
\<close>

definition insert_into_epoch :: "hasher \<Rightarrow> frontier \<Rightarrow> frontier \<Rightarrow> frontier \<times> unit result" where
  "insert_into_epoch H item epoch =
     (case tier_update (insert_into_block H item) epoch of
        (epoch', Some r) \<Rightarrow> (epoch', r)
      | (epoch', None) \<Rightarrow>
         (case tier_insert H block_ty epoch' (tier_new TItem item) of
            Inl e \<Rightarrow> (epoch', Inl e)
          | Inr (epoch', Inl _) \<Rightarrow> (epoch', Inl (Err ''most recent epoch in tree is full''))
          | Inr (epoch', Inr _) \<Rightarrow> (epoch', Inr ())))"

definition tree_insert_item :: "hasher \<Rightarrow> frontier \<Rightarrow> top_tier \<Rightarrow> top_tier result" where
  "tree_insert_item H item inner =
     (case top_update (insert_into_epoch H item) inner of
        (inner', Some r) \<Rightarrow> bindR r (\<lambda>_. Inr inner')
      | (inner', None) \<Rightarrow>
          expect_inserted ''inserting a commitment must succeed because we already checked that the tree is not full''
            (top_insert H epoch_ty inner' (tier_new block_ty (tier_new TItem item))))"

definition tree_insert :: "hasher \<Rightarrow> witness \<Rightarrow> fq \<Rightarrow> tree \<Rightarrow> tree result" where
  "tree_insert H w commitment t =
     bindR (ok_or (Err ''tree is full'') (top_position 24 (b_inner t))) (\<lambda>p.
     bindR (tree_insert_item H (witness_item H w commitment) (b_inner t)) (\<lambda>inner.
     let t' = t\<lparr>b_inner := inner\<rparr> in
     case w of
       KeepWitness \<Rightarrow> remember H 24 u64_of_within_tree commitment (within_tree_of_u64 p) t'
     | ForgetWitness \<Rightarrow> Inr t'))"

definition tree_witness :: "hasher \<Rightarrow> fq \<Rightarrow> tree \<Rightarrow> tct_proof option result" where
  "tree_witness H commitment t =
     (case map_of (b_index t) commitment of
        None \<Rightarrow> Inr None
      | Some index \<Rightarrow>
         (case top_witness H 24 (b_inner t) (u64_of_within_tree index) of
            None \<Rightarrow> Inl (Panic ''commitment must be witnessed because it is indexed'')
          | Some (auth_path, _) \<Rightarrow>
              Inr (Some \<lparr>pf_position = u64_of_within_tree index, pf_auth_path = auth_path,
                        pf_leaf = commitment\<rparr>)))"

definition tree_forget :: "hasher \<Rightarrow> fq \<Rightarrow> tree \<Rightarrow> (tree \<times> bool) result" where
  "tree_forget H commitment t =
     (case map_of (b_index t) commitment of
        None \<Rightarrow> Inr (t, False)
      | Some index \<Rightarrow>
          bindR (top_forget H 24 (b_inner t) (u64_of_within_tree index)) (\<lambda>(inner, _).
          Inr (\<lparr>b_index = AList.delete commitment (b_index t), b_inner = inner\<rparr>, True)))"

text \<open>
  The definitions above are of a build without debug assertions.  The assertions of a build with
  them: a replaced or forgotten commitment had a witness, and the leaf found for a commitment is its hash.
\<close>

definition remember_debug :: "hasher \<Rightarrow> nat \<Rightarrow> ('p \<Rightarrow> u64) \<Rightarrow> fq \<Rightarrow> 'p \<Rightarrow> 'p builder \<Rightarrow> 'p builder result" where
  "remember_debug H h conv c p b =
     (let b' = b\<lparr>b_index := AList.update c p (b_index b)\<rparr> in
      case map_of (b_index b) c of
        None \<Rightarrow> Inr b'
      | Some replaced \<Rightarrow>
          bindR (top_forget H h (b_inner b) (conv replaced)) (\<lambda>(inner, forgotten).
          if forgotten then Inr (b'\<lparr>b_inner := inner\<rparr>) else Inl (Panic ''assertion failed: forgotten'')))"

definition tree_insert_debug :: "hasher \<Rightarrow> witness \<Rightarrow> fq \<Rightarrow> tree \<Rightarrow> tree result" where
  "tree_insert_debug H w commitment t =
     bindR (ok_or (Err ''tree is full'') (top_position 24 (b_inner t))) (\<lambda>p.
     bindR (tree_insert_item H (witness_item H w commitment) (b_inner t)) (\<lambda>inner.
     let t' = t\<lparr>b_inner := inner\<rparr> in
     case w of
       KeepWitness \<Rightarrow> remember_debug H 24 u64_of_within_tree commitment (within_tree_of_u64 p) t'
     | ForgetWitness \<Rightarrow> Inr t'))"

definition tree_witness_debug :: "hasher \<Rightarrow> fq \<Rightarrow> tree \<Rightarrow> tct_proof option result" where
  "tree_witness_debug H commitment t =
     (case map_of (b_index t) commitment of
        None \<Rightarrow> Inr None
      | Some index \<Rightarrow>
         (case top_witness H 24 (b_inner t) (u64_of_within_tree index) of
            None \<Rightarrow> Inl (Panic ''commitment must be witnessed because it is indexed'')
          | Some (auth_path, leaf) \<Rightarrow>
              if leaf = hash_of H commitment
              then Inr (Some \<lparr>pf_position = u64_of_within_tree index, pf_auth_path = auth_path,
                              pf_leaf = commitment\<rparr>)
              else Inl (Panic ''assertion failed: `(left == right)`'')))"

definition tree_forget_debug :: "hasher \<Rightarrow> fq \<Rightarrow> tree \<Rightarrow> (tree \<times> bool) result" where
  "tree_forget_debug H commitment t =
     (case map_of (b_index t) commitment of
        None \<Rightarrow> Inr (t, False)
      | Some index \<Rightarrow>
          bindR (top_forget H 24 (b_inner t) (u64_of_within_tree index)) (\<lambda>(inner, forgotten).
          if forgotten then Inr (\<lparr>b_index = AList.delete commitment (b_index t), b_inner = inner\<rparr>, True)
          else Inl (Panic ''assertion failed: forgotten'')))"

definition tree_position_of :: "fq \<Rightarrow> tree \<Rightarrow> within_tree option" where
  "tree_position_of commitment t = map_of (b_index t) commitment"

text \<open>The guard of \<open>insert_block\<close>, and the insertion of a finalized block into the top tier.\<close>

definition insert_block_guard :: "top_tier \<Rightarrow> unit result" where
  "insert_block_guard inner =
     (case top_focus inner of
        Some epoch \<Rightarrow> ensure (Err ''most recent epoch is full'') (\<not> is_full_f epoch)
      | None \<Rightarrow> ensure (Err ''tree is full'') (\<not> top_is_full inner))"

definition insert_block_inner :: "hasher \<Rightarrow> frontier \<Rightarrow> top_tier \<Rightarrow> top_tier result" where
  "insert_block_inner H block inner =
     (if top_focus inner \<noteq> None then
        (case top_update (\<lambda>epoch.
                case expect_inserted ''inserting into current epoch must succeed when it is not full''
                       (tier_insert H block_ty epoch block) of
                  Inl e \<Rightarrow> (epoch, Inl e) | Inr epoch' \<Rightarrow> (epoch', Inr ())) inner of
           (inner', Some r) \<Rightarrow> bindR r (\<lambda>_. Inr inner')
         | (inner', None) \<Rightarrow> Inl (Panic ''current epoch must exist when top tier has focus''))
      else expect_inserted ''inserting an epoch must succeed when top of tree is not full''
             (top_insert H epoch_ty inner (tier_new block_ty block)))"

definition tree_insert_block :: "hasher \<Rightarrow> block_finalized \<Rightarrow> tree \<Rightarrow> tree result" where
  "tree_insert_block H f t =
     bindR (insert_block_guard (b_inner t)) (\<lambda>_.
     let block = tier_of_complete (fin_inner f);
         inner = fst (top_update (tier_update (tier_finalize H 8)) (b_inner t)) in
     bindR (ok_or (Panic ''tree must have a position because it is not full'') (top_position 24 inner)) (\<lambda>p.
     let pos = within_tree_of_u64 p in
     bindR (insert_block_inner H block inner) (\<lambda>inner.
     foldR (\<lambda>(c, wb). remember H 24 u64_of_within_tree c
              \<lparr>wt_epoch = wt_epoch pos, wt_block = wt_block pos, wt_commitment = wb_commitment wb\<rparr>)
       (fin_index f) (t\<lparr>b_inner := inner\<rparr>))))"

definition tree_end_block :: "hasher \<Rightarrow> tree \<Rightarrow> tree result" where
  "tree_end_block H t =
     (let (inner, r) = top_update (tier_update (tier_finalize H 8)) (b_inner t);
          already_finalized = (case r of Some (Some x) \<Rightarrow> x | _ \<Rightarrow> True);
          t' = t\<lparr>b_inner := inner\<rparr>
      in if already_finalized then tree_insert_block H (block_finalized_default H) t' else Inr t')"

definition tree_current_block_root :: "hasher \<Rightarrow> tree \<Rightarrow> fq" where
  "tree_current_block_root H t =
     (case top_focus (b_inner t) of
        None \<Rightarrow> block_builder_root H builder_new
      | Some epoch \<Rightarrow>
         (case tier_focus epoch of
            None \<Rightarrow> block_builder_root H builder_new
          | Some block \<Rightarrow>
              if tier_is_finalized block then block_builder_root H builder_new
              else hash_f H 8 block))"

definition tree_insert_epoch :: "hasher \<Rightarrow> epoch_finalized \<Rightarrow> tree \<Rightarrow> tree result" where
  "tree_insert_epoch H f t =
     (if top_is_full (b_inner t) then Inl (Err ''tree is full'')
      else
        let epoch = tier_of_complete (fin_inner f);
            inner = fst (top_update (tier_finalize H 16) (b_inner t)) in
        bindR (ok_or (Panic ''tree must have a position because it is not full'') (top_position 24 inner)) (\<lambda>p.
        let pos = within_tree_of_u64 p in
        bindR (expect_inserted ''inserting an epoch must succeed when tree is not full''
                 (top_insert H epoch_ty inner epoch)) (\<lambda>inner.
        foldR (\<lambda>(c, we). remember H 24 u64_of_within_tree c
                 \<lparr>wt_epoch = wt_epoch pos, wt_block = we_block we, wt_commitment = we_commitment we\<rparr>)
          (fin_index f) (t\<lparr>b_inner := inner\<rparr>))))"

definition tree_end_epoch :: "hasher \<Rightarrow> tree \<Rightarrow> tree result" where
  "tree_end_epoch H t =
     (let (inner, r) = top_update (tier_finalize H 16) (b_inner t);
          already_finalized = (case r of None \<Rightarrow> True | Some x \<Rightarrow> x);
          t' = t\<lparr>b_inner := inner\<rparr>
      in if already_finalized then tree_insert_epoch H (epoch_finalized_default H) t' else Inr t')"

definition tree_current_epoch_root :: "hasher \<Rightarrow> tree \<Rightarrow> fq" where
  "tree_current_epoch_root H t =
     (case top_focus (b_inner t) of
        None \<Rightarrow> epoch_builder_root H builder_new
      | Some epoch \<Rightarrow>
          if tier_is_finalized epoch then epoch_builder_root H builder_new else hash_f H 16 epoch)"

definition tree_position :: "tree \<Rightarrow> within_tree option" where
  "tree_position t = map_option within_tree_of_u64 (top_position 24 (b_inner t))"

definition tree_witnessed_count :: "tree \<Rightarrow> nat" where
  "tree_witnessed_count t = length (b_index t)"

definition tree_is_empty :: "tree \<Rightarrow> bool" where
  "tree_is_empty t = top_is_empty (b_inner t)"

lemma tct_root_roundtrip:
  assumes "length (to_bytes root) = 32" and "from_bytes (to_bytes root) = Some root"
  shows "tct_root_of_proto from_bytes (tct_root_to_proto to_bytes root) = Inr root"
  using assms by (simp add: tct_root_of_proto_def tct_root_to_proto_def)

end
