(* ===== verification/TCT_Props.thy ===== *)
theory TCT_Props
  imports TCT_Tree
begin

text \<open>
  Correctness of the tiered commitment tree: its operations keep the tree well typed and do
  not panic, its root depends only on what was inserted and not on what is witnessed, a
  witness verifies against the root, and where a commitment is put.
\<close>

section \<open>Well-typed trees\<close>

fun top_ok :: "ty \<Rightarrow> top_tier \<Rightarrow> bool" where
  "top_ok t None = True"
| "top_ok t (Some f) = f_ok (nested t) f"

fun skel_top :: "hasher \<Rightarrow> nat \<Rightarrow> top_tier \<Rightarrow> top_tier" where
  "skel_top H h None = None"
| "skel_top H h (Some f) = Some (skel_f H h f)"

fun read_top :: "bool \<Rightarrow> nat \<Rightarrow> top_tier \<Rightarrow> nat \<Rightarrow> fq option" where
  "read_top b h None n = None"
| "read_top b h (Some f) n = read_f b h f n"

abbreviation kept_top :: "nat \<Rightarrow> top_tier \<Rightarrow> nat \<Rightarrow> fq option" where
  "kept_top \<equiv> read_top False"

definition tree_ok :: "tree \<Rightarrow> bool" where
  "tree_ok t = top_ok epoch_ty (b_inner t)"

definition finalized_ok :: "ty \<Rightarrow> 'p finalized \<Rightarrow> bool" where
  "finalized_ok t f = ins_all (c_ok (nested t)) (fin_inner f)"

lemma hash_skel_top [simp]: "top_hash H h (skel_top H h f) = top_hash H h f"
  by (cases f) auto

lemma position_skel_top [simp]: "top_position h' (skel_top H h f) = top_position h' f"
  by (cases f) auto

lemma full_skel_top [simp]: "top_is_full (skel_top H h f) = top_is_full f"
  by (cases f) auto

text \<open>Forgetting keeps the type and the skeleton, and removes one leaf.\<close>

lemma top_forget_spec:
  assumes "top_ok t f" and "h = ty_height (TTier t)" and "unat i < 4 ^ h"
  obtains f' b where "top_forget H h f i = Inr (f', b)" and "top_ok t f'"
    and "skel_top H h f' = skel_top H h f" and "b \<longleftrightarrow> kept_top h f (unat i) \<noteq> None"
    and "\<And>n. n < 4 ^ h \<Longrightarrow> kept_top h f' n = (if n = unat i then None else kept_top h f n)"
proof (cases f)
  case None
  then show ?thesis using that [of None False] by simp
next
  case (Some g)
  have "forget_ok H (nested t) g (unat i) (forget_f H h g i)"
    by (rule forget_f_spec) (use assms Some in simp_all)
  then obtain g' b where "forget_f H h g i = Inr (g', b)" "f_ok (nested t) g'"
    "skel_f H h g' = skel_f H h g" "b \<longleftrightarrow> kept_f h g (unat i) \<noteq> None"
    "\<And>n. n < 4 ^ h \<Longrightarrow> kept_f h g' n = (if n = unat i then None else kept_f h g n)"
    using assms(2) by (elim forget_okE) auto
  then show ?thesis
    using that [of "Some g'" b] Some by simp
qed

text \<open>Recording a position succeeds and changes neither type nor skeleton.\<close>

lemma remember_spec:
  assumes "top_ok t (b_inner b)" and "h = ty_height (TTier t)" and "\<And>q. unat (conv q) < 4 ^ h"
  obtains b' where "remember H h conv c p b = Inr b'" and "top_ok t (b_inner b')"
    and "skel_top H h (b_inner b') = skel_top H h (b_inner b)"
    and "b_index b' = AList.update c p (b_index b)"
    and "map_of (b_index b) c = None \<Longrightarrow> b_inner b' = b_inner b"
proof (cases "map_of (b_index b) c")
  case None
  then show ?thesis using that [of "b\<lparr>b_index := AList.update c p (b_index b)\<rparr>"] assms(1)
    by (simp add: remember_def)
next
  case (Some q)
  obtain f' x where "top_forget H h (b_inner b) (conv q) = Inr (f', x)" "top_ok t f'"
    "skel_top H h f' = skel_top H h (b_inner b)"
    using top_forget_spec [OF assms(1,2,3)] by metis
  then show ?thesis
    using that [of "b\<lparr>b_index := AList.update c p (b_index b), b_inner := f'\<rparr>"] Some
    by (simp add: remember_def)
qed

lemma remember_all_spec:
  assumes "top_ok t (b_inner b)" and "h = ty_height (TTier t)" and "\<And>q. unat (conv q) < 4 ^ h"
  shows "\<exists>b'. foldR (\<lambda>(c, x). remember H h conv c (g x)) xs b = Inr b' \<and> top_ok t (b_inner b') \<and>
    skel_top H h (b_inner b') = skel_top H h (b_inner b)"
  using assms(1)
proof (induction xs arbitrary: b)
  case (Cons y xs)
  obtain c x where y: "y = (c, x)" by (cases y)
  obtain b1 where b1: "remember H h conv c (g x) b = Inr b1" "top_ok t (b_inner b1)"
    "skel_top H h (b_inner b1) = skel_top H h (b_inner b)"
    by (rule remember_spec [OF Cons.prems assms(2,3), where H = H and c = c and p = "g x"])
  then show ?case using Cons.IH [of b1] y by auto
qed simp

section \<open>Insertion into tiers and skeletons\<close>

lemma tier_insert_spec:
  assumes "f_ok (TTier t) f" and "f_ok t item"
  obtains f' r where "tier_insert H t f item = Inr (f', r)" and "f_ok (TTier t) f'"
    and "r = (if is_full_f f then Inl item else Inr ())" and "is_full_f f \<Longrightarrow> f' = f"
proof (cases "is_full_f f")
  case True
  then show ?thesis using that [of f "Inl item"] assms tier_insert_refused by simp
next
  case False
  then obtain g where g: "f = TierFrontier g" by (cases f) (use assms in auto)
  obtain g' where "insert_f H (nested t) g item = Inr g'" "inserted (nested t) g item g'"
    using insert_not_full [of "nested t" g item H] assms False g by auto
  then show ?thesis using that [of "TierFrontier g'" "Inr ()"] False g by (simp add: inserted_def)
qed

lemma top_insert_spec:
  assumes "top_ok t f" and "f_ok t item"
  obtains f' where "top_insert H t f item = Inr (f', if top_is_full f then Inl item else Inr ())"
    and "top_ok t f'" and "top_is_full f \<Longrightarrow> f' = f"
proof (cases f)
  case None
  then show ?thesis using that [of "Some (new_f (nested t) item)"] assms by (simp add: new_f_ok)
next
  case (Some g)
  show ?thesis
  proof (cases "is_full_f g")
    case True
    then show ?thesis using that [of f] Some assms by simp
  next
    case False
    then obtain g' where "insert_f H (nested t) g item = Inr g'" "inserted (nested t) g item g'"
      using insert_not_full [of "nested t" g item H] assms Some by auto
    then show ?thesis using that [of "Some g'"] Some False by (simp add: inserted_def)
  qed
qed

text \<open>
  The operations commute with taking the skeleton: \<open>skel_out\<close> maps it over the result of
  an insertion.
\<close>

fun skel_out :: "('f \<Rightarrow> 'g) \<Rightarrow> (frontier \<Rightarrow> frontier) \<Rightarrow> ('f \<times> (frontier + unit)) result
    \<Rightarrow> ('g \<times> (frontier + unit)) result" where
  "skel_out g k (Inl e) = Inl e"
| "skel_out g k (Inr (f, Inl x)) = Inr (g f, Inl (k x))"
| "skel_out g k (Inr (f, Inr u)) = Inr (g f, Inr u)"

lemma tier_insert_skel:
  assumes "f_ok (TTier t) f" and "f_ok t item"
  shows "tier_insert H t (skel_f H (8 + ty_height t) f) (skel_f H (ty_height t) item) =
    skel_out (skel_f H (8 + ty_height t)) (skel_f H (ty_height t)) (tier_insert H t f item)"
proof (cases "\<exists>g. f = TierFrontier g \<and> \<not> is_full_f g")
  case True
  then obtain g where g: "f = TierFrontier g" "\<not> is_full_f g" by blast
  obtain g' where "insert_f H (nested t) g item = Inr g'"
    using insert_not_full [of "nested t" g item H] assms g by auto
  then show ?thesis
    using insert_skel [of "nested t" g H item] assms(1) g by simp
next
  case False
  then show ?thesis by (cases f) auto
qed

lemma top_insert_skel:
  assumes "top_ok t f" and "f_ok t item"
  shows "top_insert H t (skel_top H (8 + ty_height t) f) (skel_f H (ty_height t) item) =
    skel_out (skel_top H (8 + ty_height t)) (skel_f H (ty_height t)) (top_insert H t f item)"
proof (cases f)
  case None
  then show ?thesis using new_f_skel [of "nested t" H item] by simp
next
  case (Some g)
  show ?thesis
  proof (cases "is_full_f g")
    case True
    then show ?thesis using Some by simp
  next
    case False
    then obtain g' where "insert_f H (nested t) g item = Inr g'"
      using insert_not_full [of "nested t" g item H] assms Some by auto
    then show ?thesis
      using insert_skel [of "nested t" g H item] assms(1) Some False by simp
  qed
qed

text \<open>Updates of the focus: by a function that keeps the type and commutes with the skeleton.\<close>

lemma tier_update_eq:
  assumes "f_ok (TTier t) (TierFrontier f)"
  obtains x where "focus_f f = Some x" and "f_ok t x"
    and "tier_update g (TierFrontier f) = (TierFrontier (set_focus (fst (g x)) f), Some (snd (g x)))"
  using assms nest_focus [of "nested t" f] that by (auto simp: update_f_eq)

lemma tier_update_ok:
  assumes "f_ok (TTier t) f" and "\<And>x. f_ok t x \<Longrightarrow> f_ok t (fst (g x))"
  shows "f_ok (TTier t) (fst (tier_update g f))"
proof (cases "\<exists>k. f = TierFrontier k")
  case True
  then obtain k where k: "f = TierFrontier k" by blast
  with assms obtain x where "focus_f k = Some x" "f_ok t x"
    using nest_focus [of "nested t" k] by auto
  then show ?thesis
    using k assms set_focus_ok [of "nested t" k] by (simp add: update_f_eq)
next
  case False
  then show ?thesis using assms(1) by (cases f) auto
qed

lemma tier_update_skel:
  assumes "f_ok (TTier t) f"
    and "\<And>x. f_ok t x \<Longrightarrow> g' (skel_f H (ty_height t) x) = map_prod (skel_f H (ty_height t)) id (g x)"
  shows "tier_update g' (skel_f H (8 + ty_height t) f) =
    map_prod (skel_f H (8 + ty_height t)) id (tier_update g f)"
proof (cases "\<exists>k. f = TierFrontier k")
  case True
  then obtain k where k: "f = TierFrontier k" by blast
  with assms obtain x where x: "focus_f k = Some x" "f_ok t x"
    using nest_focus [of "nested t" k] by auto
  then show ?thesis
    using k assms skel_set_focus [of "nested t" k H "fst (g x)"] skel_focus [of "nested t" k x H]
    by (simp add: update_f_eq [OF x(1)] update_f_eq)
next
  case False
  then show ?thesis by (cases f) auto
qed

lemma top_update_ok:
  assumes "top_ok t f" and "\<And>x. f_ok t x \<Longrightarrow> f_ok t (fst (g x))"
  shows "top_ok t (fst (top_update g f))"
proof (cases f)
  case (Some k)
  then obtain x where "focus_f k = Some x" "f_ok t x"
    using nest_focus [of "nested t" k] assms by auto
  then show ?thesis
    using Some assms set_focus_ok [of "nested t" k] by (simp add: update_f_eq)
qed simp

lemma top_update_skel:
  assumes "top_ok t f"
    and "\<And>x. f_ok t x \<Longrightarrow> g' (skel_f H (ty_height t) x) = map_prod (skel_f H (ty_height t)) id (g x)"
  shows "top_update g' (skel_top H (8 + ty_height t) f) =
    map_prod (skel_top H (8 + ty_height t)) id (top_update g f)"
proof (cases f)
  case (Some k)
  then obtain x where x: "focus_f k = Some x" "f_ok t x"
    using nest_focus [of "nested t" k] assms by auto
  then show ?thesis
    using Some assms skel_set_focus [of "nested t" k H "fst (g x)"] skel_focus [of "nested t" k x H]
    by (simp add: update_f_eq)
qed simp

end
