(* ===== verification/TCT_Refine.thy ===== *)
theory TCT_Refine
  imports TCT_Props
begin

text \<open>
  The tree refines a tree that witnesses nothing.  The abstract machine \<open>pruned_op\<close> works
  on the skeleton of the tree alone, in which every witnessed part is replaced by its
  hash and there is no index of commitments.  Each operation of the tree either fails with
  the error of the abstract operation or succeeds with a tree whose skeleton is the
  abstract result, and none of them panics.
\<close>

section \<open>Operations as data\<close>

datatype tree_op =
    InsertOp witness fq
  | ForgetOp fq
  | InsertBlockOp block_finalized
  | EndBlockOp
  | InsertEpochOp epoch_finalized
  | EndEpochOp

fun run_op :: "hasher \<Rightarrow> tree_op \<Rightarrow> tree \<Rightarrow> tree result" where
  "run_op H (InsertOp w c) t = tree_insert H w c t"
| "run_op H (ForgetOp c) t = bindR (tree_forget H c t) (\<lambda>(t', _). Inr t')"
| "run_op H (InsertBlockOp f) t = tree_insert_block H f t"
| "run_op H EndBlockOp t = tree_end_block H t"
| "run_op H (InsertEpochOp f) t = tree_insert_epoch H f t"
| "run_op H EndEpochOp t = tree_end_epoch H t"

fun op_ok :: "tree_op \<Rightarrow> bool" where
  "op_ok (InsertBlockOp f) = finalized_ok TItem f"
| "op_ok (InsertEpochOp f) = finalized_ok block_ty f"
| "op_ok _ = True"

text \<open>A caller that goes on after an error, with the tree it had.\<close>

fun run_ops :: "hasher \<Rightarrow> tree_op list \<Rightarrow> tree \<Rightarrow> tree result" where
  "run_ops H [] t = Inr t"
| "run_ops H (x # xs) t =
     (case run_op H x t of
        Inr t' \<Rightarrow> run_ops H xs t'
      | Inl (Err _) \<Rightarrow> run_ops H xs t
      | Inl (Panic m) \<Rightarrow> Inl (Panic m))"

section \<open>The abstract machine\<close>

definition pruned_insert_block :: "hasher \<Rightarrow> fq \<Rightarrow> top_tier \<Rightarrow> top_tier result" where
  "pruned_insert_block H root inner =
     bindR (insert_block_guard inner) (\<lambda>_.
     insert_block_inner H (TierHash root)
       (fst (top_update (tier_update (tier_finalize H 8)) inner)))"

definition pruned_insert_epoch :: "hasher \<Rightarrow> fq \<Rightarrow> top_tier \<Rightarrow> top_tier result" where
  "pruned_insert_epoch H root inner =
     bindR (ensure (Err ''tree is full'') (\<not> top_is_full inner)) (\<lambda>_.
     expect_inserted ''inserting an epoch must succeed when tree is not full''
       (top_insert H epoch_ty (fst (top_update (tier_finalize H 16) inner)) (TierHash root)))"

fun pruned_op :: "hasher \<Rightarrow> tree_op \<Rightarrow> top_tier \<Rightarrow> top_tier result" where
  "pruned_op H (InsertOp w c) inner =
     bindR (ok_or (Err ''tree is full'') (top_position 24 inner)) (\<lambda>_.
     tree_insert_item H (item_of_hash (hash_of H c)) inner)"
| "pruned_op H (ForgetOp c) inner = Inr inner"
| "pruned_op H (InsertBlockOp f) inner = pruned_insert_block H (block_finalized_root H f) inner"
| "pruned_op H EndBlockOp inner =
     (case top_update (tier_update (tier_finalize H 8)) inner of
        (inner', Some (Some False)) \<Rightarrow> Inr inner'
      | (inner', _) \<Rightarrow> pruned_insert_block H hash_one inner')"
| "pruned_op H (InsertEpochOp f) inner = pruned_insert_epoch H (epoch_finalized_root H f) inner"
| "pruned_op H EndEpochOp inner =
     (case top_update (tier_finalize H 16) inner of
        (inner', Some False) \<Rightarrow> Inr inner'
      | (inner', _) \<Rightarrow> pruned_insert_epoch H hash_one inner')"

fun pruned_ops :: "hasher \<Rightarrow> tree_op list \<Rightarrow> top_tier \<Rightarrow> top_tier" where
  "pruned_ops H [] inner = inner"
| "pruned_ops H (x # xs) inner =
     pruned_ops H xs (case pruned_op H x inner of Inr inner' \<Rightarrow> inner' | Inl _ \<Rightarrow> inner)"

text \<open>A result of the top tier that the abstract result \<open>a\<close> describes.\<close>

definition inner_refines :: "hasher \<Rightarrow> top_tier result \<Rightarrow> top_tier result \<Rightarrow> bool" where
  "inner_refines H r a =
     (case r of
        Inl (Err m) \<Rightarrow> a = Inl (Err m)
      | Inl (Panic m) \<Rightarrow> False
      | Inr inner \<Rightarrow> top_ok epoch_ty inner \<and> a = Inr (skel_top H 24 inner))"

definition tree_refines :: "hasher \<Rightarrow> tree result \<Rightarrow> top_tier result \<Rightarrow> bool" where
  "tree_refines H r a = inner_refines H (map_sum id b_inner r) a"

lemma inner_refines_simps [simp]:
  "inner_refines H (Inl (Err m)) a \<longleftrightarrow> a = Inl (Err m)"
  "\<not> inner_refines H (Inl (Panic m)) a"
  "inner_refines H (Inr f) a \<longleftrightarrow> top_ok epoch_ty f \<and> a = Inr (skel_top H 24 f)"
  by (simp_all add: inner_refines_def)

section \<open>Insertion of a commitment\<close>

lemma witness_item_facts [simp]:
  "f_ok TItem (witness_item H w c)" "skel_f H h (witness_item H w c) = item_of_hash (hash_of H c)"
  by (cases w; simp add: witness_item_def item_of_commitment_def item_of_hash_def)+

lemma tier_new_facts:
  assumes "f_ok t item"
  shows "f_ok (TTier t) (tier_new t item)"
    and "skel_f H (8 + ty_height t) (tier_new t item) = tier_new t (skel_f H (ty_height t) item)"
  using assms new_f_skel [of "nested t" H item] by (simp_all add: tier_new_def new_f_ok)

lemma insert_into_block_facts:
  assumes "f_ok block_ty block" and "f_ok TItem item"
  shows "f_ok block_ty (fst (insert_into_block H item block))"
    and "snd (insert_into_block H item block) \<noteq> Inl (Panic m)"
    and "insert_into_block H (skel_f H 0 item) (skel_f H 8 block) =
      map_prod (skel_f H 8) id (insert_into_block H item block)"
proof -
  obtain f' r where ins: "tier_insert H TItem block item = Inr (f', r)" "f_ok block_ty f'"
    by (rule tier_insert_spec [OF assms])
  have sk: "tier_insert H TItem (skel_f H 8 block) (skel_f H 0 item) =
      skel_out (skel_f H 8) (skel_f H 0) (Inr (f', r))"
    using tier_insert_skel [OF assms, of H] ins(1) by simp
  show "f_ok block_ty (fst (insert_into_block H item block))"
    "snd (insert_into_block H item block) \<noteq> Inl (Panic m)"
    "insert_into_block H (skel_f H 0 item) (skel_f H 8 block) =
      map_prod (skel_f H 8) id (insert_into_block H item block)"
    using ins sk by (cases r; simp add: insert_into_block_def)+
qed

text \<open>
  In an open epoch the item goes to the latest block, finalized or not; a finalized epoch
  refuses it.
\<close>

lemma insert_into_epoch_open:
  "focus_f g = Some block \<Longrightarrow> insert_into_epoch H item (TierFrontier g) =
     (TierFrontier (set_focus (fst (insert_into_block H item block)) g),
      snd (insert_into_block H item block))"
  by (simp add: insert_into_epoch_def update_f_eq)

lemma insert_into_epoch_finalized:
  "tier_is_finalized epoch \<Longrightarrow>
     insert_into_epoch H item epoch = (epoch, Inl (Err ''most recent epoch in tree is full''))"
  by (cases epoch) (simp_all add: insert_into_epoch_def)

lemma tier_cases:
  assumes "f_ok (TTier t) f"
  obtains (Open) g x where "f = TierFrontier g" and "f_ok (nested t) g" and "focus_f g = Some x" and "f_ok t x"
  | (Finalized) "tier_is_finalized f" and "tier_is_finalized (skel_f H h f)"
proof (cases f)
  case (TierFrontier g)
  then show ?thesis using assms nest_focus [of "nested t" g] Open by auto
qed (use assms Finalized in auto)

lemma insert_into_epoch_facts:
  assumes "f_ok epoch_ty epoch" and "f_ok TItem item"
  shows "f_ok epoch_ty (fst (insert_into_epoch H item epoch)) \<and>
    snd (insert_into_epoch H item epoch) \<noteq> Inl (Panic m) \<and>
    insert_into_epoch H (skel_f H 0 item) (skel_f H 16 epoch) =
      map_prod (skel_f H 16) id (insert_into_epoch H item epoch)"
  using assms(1)
proof (cases rule: tier_cases [where H = H and h = 16])
  case (Open g x)
  note blk = insert_into_block_facts [OF Open(4) assms(2)]
  have "focus_f (skel_f H 16 g) = Some (skel_f H 8 x)"
    using skel_focus [of "nested block_ty" g x H] Open by simp
  moreover have "skel_f H 16 (set_focus y g) = set_focus (skel_f H 8 y) (skel_f H 16 g)" for y
    using skel_set_focus [of "nested block_ty" g H y] Open by simp
  ultimately show ?thesis
    using blk Open set_focus_ok [of "nested block_ty" g] by (simp add: insert_into_epoch_open)
next
  case Finalized
  then show ?thesis using assms(1) by (simp add: insert_into_epoch_finalized)
qed

lemma tree_insert_item_refines:
  assumes "top_ok epoch_ty inner" and "f_ok TItem item"
  shows "inner_refines H (tree_insert_item H item inner)
    (tree_insert_item H (skel_f H 0 item) (skel_top H 24 inner))"
proof (cases inner)
  case None
  note new = tier_new_facts(1) [OF assms(2)] tier_new_facts(2) [OF assms(2), of H]
  note new2 = tier_new_facts(1) [OF new(1)] tier_new_facts(2) [OF new(1), of H]
  show ?thesis
    using None new new2 new_f_ok [of "nested epoch_ty"] new_f_skel [of "nested epoch_ty" H]
    by (simp add: tree_insert_item_def expect_inserted_def)
next
  case (Some g)
  then have ok: "f_ok (nested epoch_ty) g" using assms by simp
  then obtain e where e: "focus_f g = Some e" "f_ok epoch_ty e"
    using nest_focus [of "nested epoch_ty" g] by auto
  note ep = insert_into_epoch_facts [OF e(2) assms(2), of H]
  have sk: "focus_f (skel_f H 24 g) = Some (skel_f H 16 e)"
    using skel_focus [OF ok _ e(1), of H] by simp
  have sk': "skel_f H 24 (set_focus y g) = set_focus (skel_f H 16 y) (skel_f H 24 g)" for y
    using skel_set_focus [OF ok, of H y] by simp
  have "f_ok (nested epoch_ty) (set_focus (fst (insert_into_epoch H item e)) g)"
    using set_focus_ok [OF ok] ep by simp
  then show ?thesis
    using ep Some e sk sk'
    by (cases "snd (insert_into_epoch H item e)"; cases "projl (snd (insert_into_epoch H item e))")
      (auto simp: tree_insert_item_def update_f_eq)
qed

lemma within_tree_lt24: "unat (u64_of_within_tree q) < 4 ^ 24"
  by (rule within_tree_lt)

lemma tree_insert_refines:
  assumes "tree_ok t"
  shows "tree_refines H (tree_insert H w c t) (pruned_op H (InsertOp w c) (skel_top H 24 (b_inner t)))"
proof (cases "top_position 24 (b_inner t)")
  case None
  then show ?thesis by (simp add: tree_insert_def tree_refines_def)
next
  case (Some p)
  have ref: "inner_refines H (tree_insert_item H (witness_item H w c) (b_inner t))
      (tree_insert_item H (item_of_hash (hash_of H c)) (skel_top H 24 (b_inner t)))"
    using tree_insert_item_refines [of "b_inner t" "witness_item H w c" H] assms by (simp add: tree_ok_def)
  show ?thesis
  proof (cases "tree_insert_item H (witness_item H w c) (b_inner t)")
    case (Inl e)
    then show ?thesis using ref Some
      by (cases e) (simp_all add: tree_insert_def tree_refines_def)
  next
    case (Inr inner)
    let ?t = "t\<lparr>b_inner := inner\<rparr>"
    have ok: "top_ok epoch_ty (b_inner ?t)" using ref Inr by simp
    obtain t' where t': "remember H 24 u64_of_within_tree c (within_tree_of_u64 p) ?t = Inr t'"
      "top_ok epoch_ty (b_inner t')" "skel_top H 24 (b_inner t') = skel_top H 24 (b_inner ?t)"
      by (rule remember_spec [OF ok _ within_tree_lt24, where H = H and c = c
            and p = "within_tree_of_u64 p"]) simp_all
    show ?thesis
      using ref Inr Some t' by (cases w) (simp_all add: tree_insert_def tree_refines_def)
  qed
qed

section \<open>Finalizing and inserting blocks and epochs\<close>

lemma tier_finalize_skel:
  assumes "f_ok (TTier t) f"
  shows "tier_finalize H (8 + ty_height t) (skel_f H (8 + ty_height t) f) =
    map_prod (skel_f H (8 + ty_height t)) id (tier_finalize H (8 + ty_height t) f)"
proof -
  have "tier_is_finalized (skel_f H (8 + ty_height t) f) = tier_is_finalized f"
    using assms by (cases f) auto
  then show ?thesis
    using tier_finalize_ok(3) [OF assms refl, of H]
    by (simp add: prod_eq_iff) (simp add: tier_finalize_def)
qed

lemma tier_of_complete_facts:
  assumes "ins_all (c_ok (nested t)) x"
  shows "f_ok (TTier t) (tier_of_complete x)"
    and "skel_f H h (tier_of_complete x) = TierHash (hash_i H h x)"
  using assms by (cases x; simp)+

text \<open>A top tier that is not full has a position.\<close>

lemma position_nest:
  assumes "f_ok t f" and "is_nest t" and "focus_f f = Some x"
    and "\<not> is_full_f f \<or> position_f (ty_height (item_ty t)) x \<noteq> None"
  shows "position_f (ty_height t) f \<noteq> None"
proof -
  have "f_ok (item_ty t) x" using nest_focus [OF assms(1,2)] assms(3) by auto
  then have "\<not> is_full_f f \<or> next_f (ty_height (item_ty t)) x \<noteq> None"
    using assms(4) by (simp add: position_next)
  then have "next_f (ty_height t) f \<noteq> None"
    unfolding next_nest [OF assms(1-3)] by (cases "next_f (ty_height (item_ty t)) x") auto
  then show ?thesis using position_next [OF assms(1)] by simp
qed

lemma top_position_not_full:
  assumes "top_ok t f" and "\<not> top_is_full f"
  shows "top_position (8 + ty_height t) f \<noteq> None"
proof (cases f)
  case (Some g)
  then obtain x where "focus_f g = Some x" using nest_focus [of "nested t" g] assms by auto
  then show ?thesis using position_nest [of "nested t" g x] assms Some by simp
qed simp

lemma finalize_block_facts:
  assumes "top_ok epoch_ty inner"
  shows "top_ok epoch_ty (fst (top_update (tier_update (tier_finalize H 8)) inner))"
    and "top_update (tier_update (tier_finalize H 8)) (skel_top H 24 inner) =
      map_prod (skel_top H 24) id (top_update (tier_update (tier_finalize H 8)) inner)"
proof -
  have blk: "f_ok block_ty (fst (tier_finalize H 8 x))" if "f_ok block_ty x" for x
    using tier_finalize_ok(1) [OF that, of 8 H] by simp
  have "f_ok epoch_ty (fst (tier_update (tier_finalize H 8) x))" if "f_ok epoch_ty x" for x
    by (rule tier_update_ok [OF that blk])
  then show "top_ok epoch_ty (fst (top_update (tier_update (tier_finalize H 8)) inner))"
    by (rule top_update_ok [OF assms(1)])
  have "tier_update (tier_finalize H 8) (skel_f H 16 x) =
      map_prod (skel_f H 16) id (tier_update (tier_finalize H 8) x)" if "f_ok epoch_ty x" for x
    using tier_update_skel [OF that, of "tier_finalize H 8" H "tier_finalize H 8"]
      tier_finalize_skel [where t = TItem and H = H] by simp
  then show "top_update (tier_update (tier_finalize H 8)) (skel_top H 24 inner) =
      map_prod (skel_top H 24) id (top_update (tier_update (tier_finalize H 8)) inner)"
    using top_update_skel [OF assms(1), of "tier_update (tier_finalize H 8)" H
        "tier_update (tier_finalize H 8)"] by simp
qed

lemma finalize_epoch_facts:
  assumes "top_ok epoch_ty inner"
  shows "top_ok epoch_ty (fst (top_update (tier_finalize H 16) inner))"
    and "top_update (tier_finalize H 16) (skel_top H 24 inner) =
      map_prod (skel_top H 24) id (top_update (tier_finalize H 16) inner)"
proof -
  have "f_ok epoch_ty (fst (tier_finalize H 16 x))" if "f_ok epoch_ty x" for x
    using tier_finalize_ok(1) [OF that, of 16 H] by simp
  then show "top_ok epoch_ty (fst (top_update (tier_finalize H 16) inner))"
    by (rule top_update_ok [OF assms])
  show "top_update (tier_finalize H 16) (skel_top H 24 inner) =
      map_prod (skel_top H 24) id (top_update (tier_finalize H 16) inner)"
    using top_update_skel [OF assms, of "tier_finalize H 16" H "tier_finalize H 16"]
      tier_finalize_skel [where t = block_ty and H = H] by simp
qed

text \<open>Finalizing the latest block or epoch fills no tier above it.\<close>

lemma update_keeps_full:
  "top_is_full (fst (top_update g f)) = top_is_full f"
  "is_full_f (fst (tier_update g x)) = is_full_f x"
proof -
  have full: "is_full_f (fst (update_f g y)) = is_full_f y" for y
    by (induction y) (auto simp: case_prod_beta)
  then show "top_is_full (fst (top_update g f)) = top_is_full f"
    by (cases f) (auto simp: case_prod_beta)
  show "is_full_f (fst (tier_update g x)) = is_full_f x"
    using full by (cases x) (auto simp: case_prod_beta)
qed

lemma skel_top_focus:
  assumes "top_ok t f"
  shows "top_focus (skel_top H (8 + ty_height t) f) = map_option (skel_f H (ty_height t)) (top_focus f)"
proof (cases f)
  case (Some g)
  then obtain x where "focus_f g = Some x" using nest_focus [of "nested t" g] assms by auto
  then show ?thesis using skel_focus [of "nested t" g x H] assms Some by simp
qed simp

lemma guard_skel:
  assumes "top_ok epoch_ty inner"
  shows "insert_block_guard (skel_top H 24 inner) = insert_block_guard inner"
  using skel_top_focus [OF assms, of H] by (simp add: insert_block_guard_def split: option.split)

lemma insert_block_inner_refines:
  assumes "top_ok epoch_ty inner" and "f_ok block_ty block"
    and "\<And>e. top_focus inner = Some e \<Longrightarrow> \<not> is_full_f e"
  shows "inner_refines H (insert_block_inner H block inner)
    (insert_block_inner H (skel_f H 8 block) (skel_top H 24 inner))"
proof (cases inner)
  case None
  note new = tier_new_facts(1) [OF assms(2)] tier_new_facts(2) [OF assms(2), of H]
  show ?thesis
    using None new new_f_ok [of "nested epoch_ty"] new_f_skel [of "nested epoch_ty" H]
    by (simp add: insert_block_inner_def expect_inserted_def)
next
  case (Some g)
  then have ok: "f_ok (nested epoch_ty) g" using assms by simp
  then obtain e where e: "focus_f g = Some e" "f_ok epoch_ty e"
    using nest_focus [of "nested epoch_ty" g] by auto
  obtain e' where e': "tier_insert H block_ty e block = Inr (e', Inr ())" "f_ok epoch_ty e'"
    using tier_insert_spec [OF e(2) assms(2), of H] assms(3) [of e] Some e(1) by auto
  have "tier_insert H block_ty (skel_f H 16 e) (skel_f H 8 block) = Inr (skel_f H 16 e', Inr ())"
    using tier_insert_skel [OF e(2) assms(2), of H] e'(1) by simp
  moreover have "focus_f (skel_f H 24 g) = Some (skel_f H 16 e)"
    using skel_focus [OF ok _ e(1), of H] by simp
  moreover have "skel_f H 24 (set_focus e' g) = set_focus (skel_f H 16 e') (skel_f H 24 g)"
    using skel_set_focus [OF ok, of H e'] by simp
  moreover have "f_ok (nested epoch_ty) (set_focus e' g)"
    using set_focus_ok [OF ok] e'(2) by simp
  ultimately show ?thesis
    using Some e e' by (simp add: insert_block_inner_def update_f_eq expect_inserted_def)
qed

text \<open>The loop that copies the positions of a finalized block or epoch into the index.\<close>

lemma remember_positions_refines:
  assumes "inner_refines H (Inr inner) a"
  shows "tree_refines H (foldR (\<lambda>(c, x). remember H 24 u64_of_within_tree c (g x)) xs
    (t\<lparr>b_inner := inner\<rparr>)) a"
proof -
  have ok: "top_ok epoch_ty (b_inner (t\<lparr>b_inner := inner\<rparr>))" using assms by simp
  obtain t' where t': "foldR (\<lambda>(c, x). remember H 24 u64_of_within_tree c (g x)) xs
      (t\<lparr>b_inner := inner\<rparr>) = Inr t'" "top_ok epoch_ty (b_inner t')"
    "skel_top H 24 (b_inner t') = skel_top H 24 inner"
    using remember_all_spec [where conv = u64_of_within_tree and h = 24 and H = H and g = g
        and xs = xs, OF ok] within_tree_lt24 by auto
  then show ?thesis using assms by (simp add: tree_refines_def)
qed

lemma top_focus_None: "top_ok t f \<Longrightarrow> top_focus f = None \<longleftrightarrow> f = None"
  using nest_focus [of "nested t"] by (cases f) force+

lemma top_focus_Some: "top_ok t f \<Longrightarrow> top_focus f = Some e \<Longrightarrow> f_ok t e"
  using nest_focus [of "nested t"] by (cases f) force+

lemma top_position_focus:
  assumes "top_ok t f" and "top_focus f = Some e" and "position_f (ty_height t) e \<noteq> None"
  shows "top_position (8 + ty_height t) f \<noteq> None"
proof (cases f)
  case (Some g)
  then show ?thesis using position_nest [of "nested t" g e] assms by simp
qed (use assms in simp)

lemma tier_position_not_full:
  assumes "f_ok (TTier t) f" and "\<not> is_full_f f"
  shows "position_f (8 + ty_height t) f \<noteq> None"
proof -
  obtain g where g: "f = TierFrontier g" using assms by (cases f) auto
  then obtain x where "focus_f g = Some x" using nest_focus [of "nested t" g] assms by auto
  then show ?thesis using position_nest [of "nested t" g x] assms g by simp
qed

lemma update_focus_full:
  assumes "top_focus (fst (top_update (tier_update g) f)) = Some e"
  shows "\<exists>e'. top_focus f = Some e' \<and> is_full_f e = is_full_f e'"
proof (cases f)
  case (Some k)
  show ?thesis
  proof (cases "focus_f k")
    case None
    then have "focus_f (fst (update_f (tier_update g) k)) = None"
      by (induction k) (auto simp: case_prod_beta)
    then show ?thesis using assms Some by (simp add: case_prod_beta)
  next
    case (Some x)
    then show ?thesis using assms \<open>f = Some k\<close> update_keeps_full(2) [of g x]
      by (auto simp: update_f_eq)
  qed
qed (use assms in simp)

lemma tree_insert_block_refines:
  assumes "tree_ok t" and "finalized_ok TItem f"
  shows "tree_refines H (tree_insert_block H f t)
    (pruned_insert_block H (block_finalized_root H f) (skel_top H 24 (b_inner t)))"
proof (cases "insert_block_guard (b_inner t)")
  case (Inl x)
  then obtain m where "insert_block_guard (b_inner t) = Inl (Err m)"
    by (auto simp: insert_block_guard_def ensure_def split: option.splits if_splits)
  then show ?thesis
    using guard_skel [of "b_inner t" H] assms(1)
    by (simp add: tree_insert_block_def pruned_insert_block_def tree_refines_def tree_ok_def)
next
  case (Inr u)
  let ?inner = "fst (top_update (tier_update (tier_finalize H 8)) (b_inner t))"
  let ?block = "tier_of_complete (fin_inner f)"
  have ok: "top_ok epoch_ty (b_inner t)" using assms by (simp add: tree_ok_def)
  note fb = finalize_block_facts [OF ok, of H]
  have blk: "f_ok block_ty ?block" "skel_f H 8 ?block = TierHash (block_finalized_root H f)"
    using assms(2) tier_of_complete_facts [of TItem "fin_inner f"]
    by (simp_all add: finalized_ok_def block_finalized_root_def)
  have room: "\<not> is_full_f e" if "top_focus ?inner = Some e" for e
    using update_focus_full [OF that] Inr by (auto simp: insert_block_guard_def result_simps)
  have "top_position 24 ?inner \<noteq> None"
  proof (cases "top_focus ?inner")
    case None
    then have "?inner = None" using top_focus_None [OF fb(1)] by simp
    then show ?thesis by simp
  next
    case (Some e)
    then have "f_ok epoch_ty e" using top_focus_Some [OF fb(1)] by simp
    then show ?thesis
      using top_position_focus [OF fb(1) Some] tier_position_not_full [of block_ty e] room [OF Some] by simp
  qed
  then obtain p where p: "top_position 24 ?inner = Some p" by blast
  have ref: "inner_refines H (insert_block_inner H ?block ?inner)
      (pruned_insert_block H (block_finalized_root H f) (skel_top H 24 (b_inner t)))"
    using insert_block_inner_refines [OF fb(1) blk(1) room, of H] blk(2) guard_skel [OF ok, of H] Inr fb(2)
    by (simp add: pruned_insert_block_def)
  show ?thesis
  proof (cases "insert_block_inner H ?block ?inner")
    case (Inl e)
    then show ?thesis using ref \<open>insert_block_guard (b_inner t) = Inr u\<close> p
      by (cases e) (simp_all add: tree_insert_block_def tree_refines_def Let_def)
  next
    case (Inr inner')
    then show ?thesis
      using remember_positions_refines [OF ref [unfolded Inr]] \<open>insert_block_guard (b_inner t) = Inr u\<close> p
      by (simp add: tree_insert_block_def Let_def)
  qed
qed

lemma tree_end_block_refines:
  assumes "tree_ok t"
  shows "tree_refines H (tree_end_block H t) (pruned_op H EndBlockOp (skel_top H 24 (b_inner t)))"
proof -
  have ok: "top_ok epoch_ty (b_inner t)" using assms by (simp add: tree_ok_def)
  obtain inner r where u: "top_update (tier_update (tier_finalize H 8)) (b_inner t) = (inner, r)"
    by force
  note fb = finalize_block_facts [OF ok, of H]
  have "tree_ok (t\<lparr>b_inner := inner\<rparr>)" using fb(1) u by (simp add: tree_ok_def)
  moreover have "finalized_ok TItem (block_finalized_default H)"
    "block_finalized_root H (block_finalized_default H) = hash_one"
    by (simp_all add: finalized_ok_def block_finalized_default_def block_builder_finalize_def
        builder_new_def block_finalized_root_def)
  ultimately have "tree_refines H (tree_insert_block H (block_finalized_default H) (t\<lparr>b_inner := inner\<rparr>))
      (pruned_insert_block H hash_one (skel_top H 24 inner))"
    using tree_insert_block_refines [of "t\<lparr>b_inner := inner\<rparr>" "block_finalized_default H" H] by simp
  then show ?thesis
    using u fb by (auto simp: tree_end_block_def tree_refines_def split: option.splits bool.splits)
qed

lemma tree_insert_epoch_refines:
  assumes "tree_ok t" and "finalized_ok block_ty f"
  shows "tree_refines H (tree_insert_epoch H f t)
    (pruned_insert_epoch H (epoch_finalized_root H f) (skel_top H 24 (b_inner t)))"
proof (cases "top_is_full (b_inner t)")
  case True
  then show ?thesis
    by (simp add: tree_insert_epoch_def pruned_insert_epoch_def tree_refines_def)
next
  case False
  let ?inner = "fst (top_update (tier_finalize H 16) (b_inner t))"
  let ?epoch = "tier_of_complete (fin_inner f)"
  have ok: "top_ok epoch_ty (b_inner t)" using assms by (simp add: tree_ok_def)
  note fe = finalize_epoch_facts [OF ok, of H]
  have ep: "f_ok epoch_ty ?epoch" "skel_f H 16 ?epoch = TierHash (epoch_finalized_root H f)"
    using assms(2) tier_of_complete_facts [of block_ty "fin_inner f"]
    by (simp_all add: finalized_ok_def epoch_finalized_root_def)
  have room: "\<not> top_is_full ?inner" using False by (simp add: update_keeps_full(1))
  then obtain p where p: "top_position 24 ?inner = Some p"
    using top_position_not_full [OF fe(1)] by auto
  obtain inner' where i': "top_insert H epoch_ty ?inner ?epoch = Inr (inner', Inr ())" "top_ok epoch_ty inner'"
    using top_insert_spec [OF fe(1) ep(1), of H] room by auto
  have "top_insert H epoch_ty (skel_top H 24 ?inner) (TierHash (epoch_finalized_root H f)) =
      Inr (skel_top H 24 inner', Inr ())"
    using top_insert_skel [OF fe(1) ep(1), of H] i'(1) ep(2) by simp
  then have "inner_refines H (Inr inner')
      (pruned_insert_epoch H (epoch_finalized_root H f) (skel_top H 24 (b_inner t)))"
    using i'(2) False fe(2) by (simp add: pruned_insert_epoch_def expect_inserted_def)
  from remember_positions_refines [OF this] show ?thesis
    using False p i'(1) by (simp add: tree_insert_epoch_def Let_def expect_inserted_def)
qed

lemma tree_end_epoch_refines:
  assumes "tree_ok t"
  shows "tree_refines H (tree_end_epoch H t) (pruned_op H EndEpochOp (skel_top H 24 (b_inner t)))"
proof -
  have ok: "top_ok epoch_ty (b_inner t)" using assms by (simp add: tree_ok_def)
  obtain inner r where u: "top_update (tier_finalize H 16) (b_inner t) = (inner, r)"
    by force
  note fe = finalize_epoch_facts [OF ok, of H]
  have "tree_ok (t\<lparr>b_inner := inner\<rparr>)" using fe(1) u by (simp add: tree_ok_def)
  moreover have "finalized_ok block_ty (epoch_finalized_default H)"
    "epoch_finalized_root H (epoch_finalized_default H) = hash_one"
    by (simp_all add: finalized_ok_def epoch_finalized_default_def epoch_builder_finalize_def
        builder_new_def epoch_finalized_root_def)
  ultimately have "tree_refines H (tree_insert_epoch H (epoch_finalized_default H) (t\<lparr>b_inner := inner\<rparr>))
      (pruned_insert_epoch H hash_one (skel_top H 24 inner))"
    using tree_insert_epoch_refines [of "t\<lparr>b_inner := inner\<rparr>" "epoch_finalized_default H" H] by simp
  then show ?thesis
    using u fe by (auto simp: tree_end_epoch_def tree_refines_def split: option.splits bool.splits)
qed

lemma tree_forget_refines:
  assumes "tree_ok t"
  shows "tree_refines H (run_op H (ForgetOp c) t) (Inr (skel_top H 24 (b_inner t)))"
proof (cases "map_of (b_index t) c")
  case None
  then show ?thesis using assms by (simp add: tree_forget_def tree_refines_def tree_ok_def)
next
  case (Some q)
  have "top_ok epoch_ty (b_inner t)" using assms by (simp add: tree_ok_def)
  then obtain f' b where "top_forget H 24 (b_inner t) (u64_of_within_tree q) = Inr (f', b)"
    "top_ok epoch_ty f'" "skel_top H 24 f' = skel_top H 24 (b_inner t)"
    by (rule top_forget_spec [where h = 24 and H = H and i = "u64_of_within_tree q"])
      (simp_all add: within_tree_lt24 [simplified])
  then show ?thesis using Some by (simp add: tree_forget_def tree_refines_def)
qed

section \<open>Histories\<close>

lemma run_op_refines:
  assumes "tree_ok t" and "op_ok x"
  shows "tree_refines H (run_op H x t) (pruned_op H x (skel_top H 24 (b_inner t)))"
  using assms tree_insert_refines tree_insert_block_refines tree_end_block_refines
    tree_insert_epoch_refines tree_end_epoch_refines tree_forget_refines
  by (cases x) simp_all

lemma run_ops_refines:
  assumes "tree_ok t" and "\<forall>x \<in> set xs. op_ok x"
  shows "\<exists>t'. run_ops H xs t = Inr t' \<and> tree_ok t' \<and>
    skel_top H 24 (b_inner t') = pruned_ops H xs (skel_top H 24 (b_inner t))"
  using assms
proof (induction xs arbitrary: t)
  case (Cons x xs)
  have ref: "tree_refines H (run_op H x t) (pruned_op H x (skel_top H 24 (b_inner t)))"
    using Cons.prems by (intro run_op_refines) auto
  show ?case
  proof (cases "run_op H x t")
    case (Inl e)
    then obtain m where "e = Err m" using ref by (cases e) (auto simp: tree_refines_def)
    then show ?thesis using Inl ref Cons by (simp add: tree_refines_def)
  next
    case (Inr t1)
    then have "tree_ok t1" using ref by (simp add: tree_refines_def tree_ok_def)
    then show ?thesis using Cons Inr ref by (simp add: tree_refines_def)
  qed
qed simp

lemma tree_ok_new [simp]: "tree_ok builder_new"
  by (simp add: tree_ok_def builder_new_def)

text \<open>
  C28: In a build without debug assertions, changing the tree never panics and keeps it well typed.  Any sequence of insertions of
  commitments, blocks and epochs, ends of blocks and epochs, and forgettings (all the operations that change a tree), on an empty
  tree, by a caller that goes on after an error, runs to its end; the tree it leaves is a
  value of the nested Rust type: leaves at depth 24, at most three siblings per node, no
  complete node without a witnessed child.  (Asking for a witness is not among these operations and may panic, and so
  may forgetting in a build with debug assertions.)
\<close>

theorem tree_history_typed:
  assumes "\<forall>x \<in> set xs. op_ok x"
  shows "\<exists>t. run_ops H xs builder_new = Inr t \<and> tree_ok t"
  using run_ops_refines [OF tree_ok_new assms] by blast

text \<open>What a history does to the skeleton: witness flags and forgettings are irrelevant.\<close>

fun erase_ops :: "tree_op list \<Rightarrow> tree_op list" where
  "erase_ops [] = []"
| "erase_ops (InsertOp w c # xs) = InsertOp ForgetWitness c # erase_ops xs"
| "erase_ops (ForgetOp c # xs) = erase_ops xs"
| "erase_ops (x # xs) = x # erase_ops xs"

lemma pruned_erase: "pruned_ops H (erase_ops xs) f = pruned_ops H xs f"
  by (induction xs arbitrary: f rule: erase_ops.induct) auto

text \<open>
  C29: The root does not depend on what is witnessed.  Two histories that differ only in
  which commitments were inserted to be kept and in what was forgotten leave trees with the
  same root and the same next position.
\<close>

theorem tree_root_ignores_witnessing:
  assumes "\<forall>x \<in> set xs. op_ok x" and "\<forall>y \<in> set ys. op_ok y" and "erase_ops xs = erase_ops ys"
    and "run_ops H xs builder_new = Inr t" and "run_ops H ys builder_new = Inr u"
  shows "tree_root H t = tree_root H u \<and> tree_position t = tree_position u"
proof -
  have "skel_top H 24 (b_inner t) = skel_top H 24 (b_inner u)"
    using run_ops_refines [OF tree_ok_new assms(1), of H] run_ops_refines [OF tree_ok_new assms(2), of H]
      assms(3-5) pruned_erase [of H xs] pruned_erase [of H ys] by simp
  then show ?thesis
    unfolding tree_root_def tree_position_def
    by (metis hash_skel_top position_skel_top)
qed

end
