(* ===== verification/TCT_Sound.thy ===== *)
theory TCT_Sound
  imports TCT_Refine
begin

text \<open>
  What the tree proves and where it puts things: witnesses verify, insertions go to the
  next leaf, and the positions recorded for them are four times too large.
\<close>

section \<open>Witnesses verify\<close>

lemma top_witness_spec:
  assumes "top_ok t f" and "h = ty_height (TTier t)" and "unat i < 4 ^ h"
  shows "witness_ok H h i (top_hash H h f) (read_top True h f (unat i)) (top_witness H h f i)"
  using assms witness_f_spec [of "nested t"] by (cases f) simp_all

interpretation top_store: merkle_store H "ty_height (TTier t)" "top_ok t" "top_hash H (ty_height (TTier t))"
  "read_top True (ty_height (TTier t))" "top_witness H (ty_height (TTier t))" "kept_top (ty_height (TTier t))"
  "top_forget H (ty_height (TTier t))" for H t
proof unfold_locales
  fix x and i :: u64 assume *: "top_ok t x" "unat i < 4 ^ ty_height (TTier t)"
  obtain x' b where "top_forget H (ty_height (TTier t)) x i = Inr (x', b)" "top_ok t x'"
    "skel_top H (ty_height (TTier t)) x' = skel_top H (ty_height (TTier t)) x"
    "b \<longleftrightarrow> kept_top (ty_height (TTier t)) x (unat i) \<noteq> None"
    "\<And>n. n < 4 ^ ty_height (TTier t) \<Longrightarrow> kept_top (ty_height (TTier t)) x' n =
      (if n = unat i then None else kept_top (ty_height (TTier t)) x n)"
    by (rule top_forget_spec [OF *(1) refl *(2), of H]) blast
  moreover from this(3) have "top_hash H (ty_height (TTier t)) x' = top_hash H (ty_height (TTier t)) x"
    by (metis hash_skel_top)
  ultimately show "\<exists>x' b. top_forget H (ty_height (TTier t)) x i = Inr (x', b) \<and> top_ok t x' \<and>
      top_hash H (ty_height (TTier t)) x' = top_hash H (ty_height (TTier t)) x \<and>
      (b \<longleftrightarrow> kept_top (ty_height (TTier t)) x (unat i) \<noteq> None) \<and>
      (\<forall>n < 4 ^ ty_height (TTier t). kept_top (ty_height (TTier t)) x' n =
        (if n = unat i then None else kept_top (ty_height (TTier t)) x n))"
    by blast
next
  fix x n y assume "kept_top (ty_height (TTier t)) x n = Some y"
  then show "read_top True (ty_height (TTier t)) x n = Some y"
    by (cases x) (auto intro: kept_imp_read)
qed (erule top_witness_spec [OF _ refl])

lemma tree_witness_answer:
  assumes "tree_ok t" and "tree_position_of c t = Some pos"
  shows "(case read_top True 24 (b_inner t) (unat (u64_of_within_tree pos)) of
      None \<Rightarrow> \<exists>m. tree_witness H c t = Inl (Panic m)
    | Some leaf \<Rightarrow>
        (\<exists>p. tree_witness H c t = Inr (Some p) \<and> pf_position p = u64_of_within_tree pos \<and>
          pf_leaf p = c \<and> length (proof_auth_path p) = 24 \<and>
          (leaf = hash_of H c \<longrightarrow> proof_verify H 24 p (tree_root H t) = Inr ()) \<and>
          (proof_verify H 24 p (tree_root H t) = Inr () \<longrightarrow> leaf = hash_of H c \<or>
             (\<exists>k. find_collision H 24 (pf_position p) (pf_auth_path p) leaf (pf_auth_path p)
                    (hash_of H c) = Some k \<and> node_collision H k))))"
proof -
  let ?i = "u64_of_within_tree pos"
  have ok: "witness_ok H 24 ?i (tree_root H t) (read_top True 24 (b_inner t) (unat ?i))
      (top_witness H 24 (b_inner t) ?i)"
    unfolding tree_root_def
    by (rule top_witness_spec [of epoch_ty]) (use assms(1) within_tree_lt24 in \<open>simp_all add: tree_ok_def\<close>)
  show ?thesis
  proof (cases "top_witness H 24 (b_inner t) ?i")
    case None
    then show ?thesis using ok assms(2) by (simp add: tree_witness_def tree_position_of_def)
  next
    case (Some r)
    obtain q leaf where r: "r = (q, leaf)" by (cases r)
    let ?p = "\<lparr>pf_position = ?i, pf_auth_path = q, pf_leaf = c\<rparr>"
    have w: "tree_witness H c t = Inr (Some ?p)"
      using Some r assms(2) by (simp add: tree_witness_def tree_position_of_def)
    have l: "read_top True 24 (b_inner t) (unat ?i) = Some leaf" "path_length q = 24"
      "path_root H 24 q ?i leaf = tree_root H t"
      using ok Some r by (simp_all add: witness_ok_Some)
    have v: "proof_verify H 24 ?p (tree_root H t) = Inr () \<longleftrightarrow>
        path_root H 24 q ?i leaf = path_root H 24 q ?i (hash_of H c)"
      using l(3) by (simp add: proof_verify_def)
    show ?thesis
      unfolding l(1) option.case
      by (rule exI [of _ ?p]) (use w l(2) v find_collision_correct [of q q leaf "hash_of H c" H 24 ?i] in
          \<open>auto simp: proof_auth_path_def\<close>)
  qed
qed

text \<open>
  C30: \<open>Tree::witness\<close> is exact (in a build without debug assertions; with them see \<open>tree_witness_debug_exact\<close>).  For an indexed commitment it panics exactly if the tree
  has no leaf to show at the recorded position.  Otherwise the proof it returns has the
  recorded position and 24 levels and verifies against the current root if the leaf there
  is the hash of the commitment; if it verifies although the leaf is another, its path
  contains a collision of the node hash.
\<close>

theorem tree_witness_exact:
  assumes "tree_ok t" and "tree_position_of c t = Some pos"
  shows "(case read_top True 24 (b_inner t) (unat (u64_of_within_tree pos)) of
      None \<Rightarrow> \<exists>m. tree_witness H c t = Inl (Panic m)
    | Some leaf \<Rightarrow>
        (\<exists>p. tree_witness H c t = Inr (Some p) \<and> pf_position p = u64_of_within_tree pos \<and>
          pf_leaf p = c \<and> length (proof_auth_path p) = 24 \<and>
          (leaf = hash_of H c \<longrightarrow> proof_verify H 24 p (tree_root H t) = Inr ()) \<and>
          (proof_verify H 24 p (tree_root H t) = Inr () \<longrightarrow> leaf = hash_of H c \<or>
             (\<exists>k. find_collision H 24 (pf_position p) (pf_auth_path p) leaf (pf_auth_path p)
                    (hash_of H c) = Some k \<and> node_collision H k))))"
  using tree_witness_answer [OF assms] .

lemma tree_forget_parts:
  assumes "tree_ok t"
  obtains t' where "tree_forget H c t = Inr (t', tree_position_of c t \<noteq> None)" and "tree_ok t'"
    and "skel_top H 24 (b_inner t') = skel_top H 24 (b_inner t)" and "map_of (b_index t') = (map_of (b_index t))(c := None)"
    and "\<And>m. m < 4 ^ 24 \<Longrightarrow> kept_top 24 (b_inner t') m =
      (if map_option (unat \<circ> u64_of_within_tree) (tree_position_of c t) = Some m then None else kept_top 24 (b_inner t) m)"
proof (cases "tree_position_of c t")
  case None
  then show thesis using assms by (intro that [of t]) (simp_all add: tree_forget_def tree_position_of_def fun_upd_idem)
next
  case (Some q)
  have ok: "top_ok epoch_ty (b_inner t)" using assms by (simp add: tree_ok_def)
  obtain inner b where f: "top_forget H 24 (b_inner t) (u64_of_within_tree q) = Inr (inner, b)" "top_ok epoch_ty inner"
    "skel_top H 24 inner = skel_top H 24 (b_inner t)"
    and kept: "\<And>n. n < 4 ^ 24 \<Longrightarrow> kept_top 24 inner n = (if n = unat (u64_of_within_tree q) then None else kept_top 24 (b_inner t) n)"
    by (rule top_forget_spec [OF ok, of 24 "u64_of_within_tree q" H]) (use within_tree_lt24 [of q] in simp_all)
  let ?t = "\<lparr>b_index = AList.delete c (b_index t), b_inner = inner\<rparr>"
  show thesis
  proof (rule that [of ?t])
    show "tree_forget H c t = Inr (?t, tree_position_of c t \<noteq> None)"
      using Some f(1) by (simp add: tree_forget_def tree_position_of_def)
    show "map_of (b_index ?t) = (map_of (b_index t))(c := None)" by (simp add: delete_conv' fun_eq_iff)
    show "kept_top 24 (b_inner ?t) m =
        (if map_option (unat \<circ> u64_of_within_tree) (tree_position_of c t) = Some m then None else kept_top 24 (b_inner t) m)"
      if "m < 4 ^ 24" for m
      using kept [OF that] by (auto simp: Some)
  qed (use f in \<open>simp_all add: tree_ok_def\<close>)
qed

lemma tree_forget_debug_exact:
  assumes "tree_ok t"
  shows "tree_forget_debug H c t =
    (case tree_position_of c t of
       None \<Rightarrow> tree_forget H c t
     | Some q \<Rightarrow> if kept_top 24 (b_inner t) (unat (u64_of_within_tree q)) = None
                 then Inl (Panic ''assertion failed: forgotten'') else tree_forget H c t)"
proof (cases "tree_position_of c t")
  case None
  then show ?thesis by (simp add: tree_forget_debug_def tree_forget_def tree_position_of_def)
next
  case (Some q)
  have ok: "top_ok epoch_ty (b_inner t)" using assms by (simp add: tree_ok_def)
  obtain inner b where f: "top_forget H 24 (b_inner t) (u64_of_within_tree q) = Inr (inner, b)"
    "b \<longleftrightarrow> kept_top 24 (b_inner t) (unat (u64_of_within_tree q)) \<noteq> None"
    by (rule top_forget_spec [OF ok, of 24 "u64_of_within_tree q" H]) (use within_tree_lt24 [of q] in simp_all)
  then show ?thesis using Some by (simp add: tree_forget_debug_def tree_forget_def tree_position_of_def)
qed

text \<open>With debug assertions, \<open>witness\<close> returns only proofs of the leaf, which verify, and panics otherwise.\<close>

lemma tree_witness_debug_exact:
  assumes "tree_ok t" and "tree_position_of c t = Some pos"
  shows "(if read_top True 24 (b_inner t) (unat (u64_of_within_tree pos)) = Some (hash_of H c)
          then tree_witness_debug H c t = tree_witness H c t
            \<and> (\<exists>p. tree_witness H c t = Inr (Some p) \<and> proof_verify H 24 p (tree_root H t) = Inr ())
          else \<exists>m. tree_witness_debug H c t = Inl (Panic m))"
proof -
  let ?i = "u64_of_within_tree pos"
  have ok: "witness_ok H 24 ?i (tree_root H t) (read_top True 24 (b_inner t) (unat ?i)) (top_witness H 24 (b_inner t) ?i)"
    unfolding tree_root_def
    by (rule top_witness_spec [of epoch_ty]) (use assms(1) within_tree_lt24 in \<open>simp_all add: tree_ok_def\<close>)
  show ?thesis
  proof (cases "top_witness H 24 (b_inner t) ?i")
    case None
    then show ?thesis using ok assms(2) by (simp add: tree_witness_debug_def tree_position_of_def)
  next
    case (Some r)
    obtain q leaf where r: "r = (q, leaf)" by (cases r)
    have l: "read_top True 24 (b_inner t) (unat ?i) = Some leaf" using ok Some r by (simp add: witness_ok_Some)
    then show ?thesis
      using Some r assms(2) tree_witness_answer [OF assms, of H]
      by (auto simp: tree_witness_debug_def tree_witness_def tree_position_of_def)
  qed
qed

text \<open>
  With debug assertions, an insertion differs only where it replaces a commitment that is indexed at a
  position without a kept leaf.
\<close>

lemma tree_insert_debug_new:
  "w = ForgetWitness \<or> tree_position_of c t = None \<Longrightarrow> tree_insert_debug H w c t = tree_insert H w c t"
  by (cases w) (auto simp: tree_insert_debug_def tree_insert_def remember_debug_def remember_def tree_position_of_def Let_def)

text \<open>
  C32: What \<open>Tree::forget\<close> does.  It returns whether the commitment was indexed; the commitment leaves the index,
  the leaf at the position recorded for it, if there is one, is no longer kept, and everything else stays: the
  other entries of the index, the other leaves, the root and the next position.  Hence a commitment whose
  hash is kept at its own recorded position, other than the forgotten one's, still has a proof that verifies.  A
  build with debug assertions does the same, except that it panics if no leaf is kept at the
  position recorded for the commitment.
\<close>

theorem tree_forget_exact:
  assumes "tree_ok t"
  shows "\<exists>t'. tree_forget H c t = Inr (t', tree_position_of c t \<noteq> None) \<and> tree_ok t'
    \<and> tree_root H t' = tree_root H t \<and> tree_position t' = tree_position t
    \<and> (\<forall>d. tree_position_of d t' = (if d = c then None else tree_position_of d t))
    \<and> (\<forall>m < 4 ^ 24. kept_top 24 (b_inner t') m =
         (if map_option (unat \<circ> u64_of_within_tree) (tree_position_of c t) = Some m then None else kept_top 24 (b_inner t) m))
    \<and> (\<forall>d pos. d \<noteq> c \<and> tree_position_of d t = Some pos \<and> tree_position_of c t \<noteq> Some pos
         \<and> kept_top 24 (b_inner t) (unat (u64_of_within_tree pos)) = Some (hash_of H d) \<longrightarrow>
         (\<exists>p. tree_witness H d t' = Inr (Some p) \<and> proof_verify H 24 p (tree_root H t) = Inr ()))
    \<and> tree_forget_debug H c t =
        (case tree_position_of c t of
           None \<Rightarrow> tree_forget H c t
         | Some q \<Rightarrow> if kept_top 24 (b_inner t) (unat (u64_of_within_tree q)) = None
                     then Inl (Panic ''assertion failed: forgotten'') else tree_forget H c t)"
proof -
  obtain t' where t': "tree_forget H c t = Inr (t', tree_position_of c t \<noteq> None)" "tree_ok t'"
    "skel_top H 24 (b_inner t') = skel_top H 24 (b_inner t)" "map_of (b_index t') = (map_of (b_index t))(c := None)"
    and kept: "\<And>m. m < 4 ^ 24 \<Longrightarrow> kept_top 24 (b_inner t') m =
      (if map_option (unat \<circ> u64_of_within_tree) (tree_position_of c t) = Some m then None else kept_top 24 (b_inner t) m)"
    by (rule tree_forget_parts [OF assms]) blast
  have root: "tree_root H t' = tree_root H t" "tree_position t' = tree_position t"
    using t'(3) unfolding tree_root_def tree_position_def by (metis hash_skel_top, metis position_skel_top)
  have idx: "tree_position_of d t' = (if d = c then None else tree_position_of d t)" for d
    by (simp add: tree_position_of_def t'(4))
  have "\<exists>p. tree_witness H d t' = Inr (Some p) \<and> proof_verify H 24 p (tree_root H t) = Inr ()"
    if d: "d \<noteq> c" "tree_position_of d t = Some pos" "tree_position_of c t \<noteq> Some pos"
      "kept_top 24 (b_inner t) (unat (u64_of_within_tree pos)) = Some (hash_of H d)" for d pos
  proof -
    have "map_option (unat \<circ> u64_of_within_tree) (tree_position_of c t) \<noteq> Some (unat (u64_of_within_tree pos))"
      using d(3) within_tree_inverse by (auto simp: word_unat_eq_iff [symmetric]) metis
    then have "kept_top 24 (b_inner t') (unat (u64_of_within_tree pos)) = Some (hash_of H d)"
      using kept [of "unat (u64_of_within_tree pos)"] d(4) within_tree_lt24 [of pos] by simp
    then have "read_top True 24 (b_inner t') (unat (u64_of_within_tree pos)) = Some (hash_of H d)"
      using top_store.kept_law [of epoch_ty] by simp
    then show ?thesis
      using tree_witness_answer [OF t'(2), of d pos H] idx [of d] d(1,2) root(1) by auto
  qed
  then show ?thesis
    using t'(1,2) root idx kept tree_forget_debug_exact [OF assms, of H c] by (intro exI [of _ t']) blast
qed

section \<open>Where an insertion goes\<close>

fun top_next :: "nat \<Rightarrow> top_tier \<Rightarrow> nat option" where
  "top_next h None = Some 0"
| "top_next h (Some f) = next_f h f"

lemma top_position_next:
  "top_ok t f \<Longrightarrow> top_position (8 + ty_height t) f =
     map_option (\<lambda>n. of_nat (4 * n)) (top_next (8 + ty_height t) f)"
  using position_next [of "nested t"] by (cases f) simp_all

text \<open>Putting a new value into the focus, when it differs from the old at one index.\<close>

definition puts :: "nat \<Rightarrow> frontier \<Rightarrow> nat \<Rightarrow> (bool \<Rightarrow> fq option) \<Rightarrow> frontier \<Rightarrow> bool" where
  "puts h f p v f' \<longleftrightarrow>
     (\<forall>b. \<forall>n < 4 ^ h. read_f b h f' n = (if n = p then v b else kept_f h f n))"

lemma puts_tier [simp]: "puts h (TierFrontier f) p v (TierFrontier f') = puts h f p v f'"
  by (simp add: puts_def)

text \<open>The last item of a nested tier, and an update of it that puts one leaf.\<close>

lemma puts_focus:
  assumes ok: "f_ok t f" "is_nest t" "focus_f f = Some x"
    and put: "puts (ty_height (item_ty t)) x p v x'" and p: "p < 4 ^ ty_height (item_ty t)"
  shows "puts (ty_height t) f ((items_f t f - 1) * 4 ^ ty_height (item_ty t) + p) v (set_focus x' f)"
  unfolding puts_def
proof (intro allI impI)
  fix b and n :: nat
  let ?i = "(4 :: nat) ^ ty_height (item_ty t)"
  assume n: "n < 4 ^ ty_height t"
  have eq: "n = (items_f t f - 1) * ?i + p \<longleftrightarrow> Suc (n div ?i) = items_f t f \<and> n mod ?i = p"
    using mixed_radix_eq_iff [of "n mod ?i" ?i p "n div ?i" "items_f t f - 1"] p items_pos [of t f]
    by (auto simp: div_mult_mod_eq)
  have old: "kept_f (ty_height t) f n = kept_f (ty_height (item_ty t)) x (n mod ?i)"
    if "Suc (n div ?i) = items_f t f"
    using read_set_focus [OF ok(1,2) n, of False x] ok(3) that by simp
  have new: "read_f b (ty_height (item_ty t)) x' (n mod ?i) =
      (if n mod ?i = p then v b else kept_f (ty_height (item_ty t)) x (n mod ?i))"
    using put unfolding puts_def by simp
  show "read_f b (ty_height t) (set_focus x' f) n =
      (if n = (items_f t f - 1) * ?i + p then v b else kept_f (ty_height t) f n)"
  proof (cases "Suc (n div ?i) = items_f t f")
    case True
    then show ?thesis using read_set_focus [OF ok(1,2) n] old new eq by simp
  next
    case False
    then show ?thesis using read_set_focus [OF ok(1,2) n] read_off_focus [OF ok(1,2) n False] eq by simp
  qed
qed

lemma inserted_puts:
  assumes "inserted t f item f'" and "item_ty t = TItem"
  shows "puts (ty_height t) f (items_f t f) (\<lambda>b. read_f b 0 item 0) f'"
  using assms by (auto simp: inserted_def puts_def)

lemma next_in_focus:
  assumes "f_ok t f" and "is_nest t" and "focus_f f = Some x"
    and "next_f (ty_height (item_ty t)) x = Some p"
  shows "next_f (ty_height t) f = Some ((items_f t f - 1) * 4 ^ ty_height (item_ty t) + p)"
  using next_nest [OF assms(1-3)] assms(4) by simp

text \<open>A successful insertion into the latest block, epoch and tree, one level at a time.\<close>

lemma insert_into_block_puts:
  assumes "f_ok block_ty block" and "f_ok TItem item" and "insert_into_block H item block = (block', Inr ())"
  shows "\<exists>p < 4 ^ 8. next_f 8 block = Some p \<and> puts 8 block p (\<lambda>b. read_f b 0 item 0) block'"
proof -
  have open_block: "\<not> is_full_f block"
    using tier_insert_refused [of block H TItem item] assms(3)
    by (auto simp: insert_into_block_def)
  then obtain g where g: "block = TierFrontier g" using assms(1) by (cases block) auto
  then have ok: "f_ok (nested TItem) g" and nf: "\<not> is_full_f g" using assms(1) open_block by simp_all
  obtain g' where g': "insert_f H (nested TItem) g item = Inr g'" "inserted (nested TItem) g item g'"
    using insert_not_full [OF ok _ _ nf, of item H] assms(2) by auto
  have b': "block' = TierFrontier g'"
    using assms(3) g g'(1) nf by (simp add: insert_into_block_def)
  obtain x where x: "focus_f g = Some x" "f_ok TItem x" using nest_focus [OF ok] by auto
  then obtain y where "x = FItem y" by (cases x) auto
  then have "next_f 8 g = Some (items_f (nested TItem) g)"
    using next_nest [OF ok _ x(1)] nf by simp
  moreover have "items_f (nested TItem) g < 4 ^ 8"
    using items_le [OF ok] items_full [OF ok] nf by (simp add: order_less_le)
  moreover have "puts 8 g (items_f (nested TItem) g) (\<lambda>b. read_f b 0 item 0) g'"
    using inserted_puts [OF g'(2)] by simp
  ultimately show ?thesis using g b' by (auto simp: puts_def)
qed

lemma insert_into_epoch_puts:
  assumes "f_ok epoch_ty epoch" and "f_ok TItem item" and "insert_into_epoch H item epoch = (epoch', Inr ())"
  shows "\<exists>p < 4 ^ 16. next_f 16 epoch = Some p \<and> puts 16 epoch p (\<lambda>b. read_f b 0 item 0) epoch'"
  using assms(1)
proof (cases rule: tier_cases [where H = H and h = 16])
  case (Open g x)
  obtain x' where x': "insert_into_block H item x = (x', Inr ())" "epoch' = TierFrontier (set_focus x' g)"
    using insert_into_epoch_open [OF Open(3), of H item] assms(3) Open(1)
    by (cases "insert_into_block H item x") auto
  obtain p where p: "p < 4 ^ 8" "next_f 8 x = Some p" "puts 8 x p (\<lambda>b. read_f b 0 item 0) x'"
    using insert_into_block_puts [OF Open(4) assms(2) x'(1)] by blast
  let ?p = "(items_f (nested block_ty) g - 1) * 4 ^ 8 + p"
  have "items_f (nested block_ty) g - 1 \<le> 4 ^ 8 - 1"
    using items_le [OF Open(2)] by simp
  then have "?p < 4 ^ 16" using p(1) by simp
  moreover have "next_f 16 epoch = Some ?p"
    using next_in_focus [OF Open(2) _ Open(3)] p(2) Open(1) by simp
  moreover have "puts 16 epoch ?p (\<lambda>b. read_f b 0 item 0) epoch'"
    using puts_focus [OF Open(2) _ Open(3)] p x'(2) Open(1) by simp
  ultimately show ?thesis by blast
next
  case Finalized
  then show ?thesis using assms(3) by (simp add: insert_into_epoch_finalized)
qed

lemma tree_insert_item_puts:
  assumes "top_ok epoch_ty inner" and "f_ok TItem item" and "tree_insert_item H item inner = Inr inner'"
  shows "\<exists>n < 4 ^ 24. top_next 24 inner = Some n \<and>
    (\<forall>b. \<forall>m < 4 ^ 24. read_top b 24 inner' m = (if m = n then read_f b 0 item 0 else kept_top 24 inner m))"
proof (cases inner)
  case None
  let ?e = "tier_new block_ty (tier_new TItem item)"
  have "inner' = Some (new_f (nested epoch_ty) ?e)"
    using assms(3) None by (simp add: tree_insert_item_def expect_inserted_def)
  moreover have "read_f b 24 (new_f (nested epoch_ty) ?e) m = (if m = 0 then read_f b 0 item 0 else None)"
    if "m < 4 ^ 24" for b m
    using that new_f_read [of "nested epoch_ty" m b ?e]
      new_f_read [of "nested block_ty" m b "tier_new TItem item"] new_f_read [of "nested TItem" m b item]
    by (auto simp: tier_new_def div_eq_0_iff)
  ultimately show ?thesis using None by auto
next
  case (Some g)
  then have ok: "f_ok (nested epoch_ty) g" using assms(1) by simp
  then obtain e where e: "focus_f g = Some e" "f_ok epoch_ty e"
    using nest_focus [of "nested epoch_ty" g] by auto
  obtain e' where e': "insert_into_epoch H item e = (e', Inr ())" "inner' = Some (set_focus e' g)"
    using assms(3) Some e(1)
    by (cases "insert_into_epoch H item e") (auto simp: tree_insert_item_def update_f_eq result_simps)
  obtain p where p: "p < 4 ^ 16" "next_f 16 e = Some p" "puts 16 e p (\<lambda>b. read_f b 0 item 0) e'"
    using insert_into_epoch_puts [OF e(2) assms(2) e'(1)] by blast
  let ?p = "(items_f (nested epoch_ty) g - 1) * 4 ^ 16 + p"
  have "items_f (nested epoch_ty) g - 1 \<le> 4 ^ 8 - 1"
    using items_le [OF ok] by simp
  then have "?p < 4 ^ 24" using p(1) by simp
  moreover have "next_f 24 g = Some ?p"
    using next_in_focus [OF ok _ e(1)] p(2) by simp
  moreover have "puts 24 g ?p (\<lambda>b. read_f b 0 item 0) (set_focus e' g)"
    using puts_focus [OF ok _ e(1)] p by simp
  ultimately show ?thesis using Some e'(2) by (auto simp: puts_def)
qed

lemma tree_insert_leaf:
  assumes "tree_ok t" and "tree_position_of c t = None" and "tree_insert H KeepWitness c t = Inr t'"
  shows "\<exists>n < 4 ^ 24. top_next 24 (b_inner t) = Some n \<and>
    (\<forall>b. \<forall>m < 4 ^ 24. read_top b 24 (b_inner t') m =
       (if m = n then Some (hash_of H c) else kept_top 24 (b_inner t) m)) \<and>
    tree_position_of c t' = Some (within_tree_of_u64 (of_nat (4 * n)))"
proof -
  have ok: "top_ok epoch_ty (b_inner t)" using assms(1) by (simp add: tree_ok_def)
  obtain p inner where p: "top_position 24 (b_inner t) = Some p"
    and ins: "tree_insert_item H (witness_item H KeepWitness c) (b_inner t) = Inr inner"
    and rem: "remember H 24 u64_of_within_tree c (within_tree_of_u64 p) (t\<lparr>b_inner := inner\<rparr>) = Inr t'"
    using assms(3) by (auto simp: tree_insert_def result_simps)
  obtain n where n: "n < 4 ^ 24" "top_next 24 (b_inner t) = Some n"
    "\<And>b m. m < 4 ^ 24 \<Longrightarrow> read_top b 24 inner m =
      (if m = n then read_f b 0 (witness_item H KeepWitness c) 0 else kept_top 24 (b_inner t) m)"
    using tree_insert_item_puts [OF ok _ ins] by auto
  have "p = of_nat (4 * n)"
    using top_position_next [OF ok] p n(2) by simp
  moreover have "b_inner t' = inner" "b_index t' = AList.update c (within_tree_of_u64 p) (b_index t)"
    using rem assms(2) by (auto simp: remember_def tree_position_of_def)
  ultimately show ?thesis
    using n by (auto simp: tree_position_of_def update_conv' witness_item_def item_of_commitment_def)
qed

text \<open>
  C33: Inserting a new commitment to be kept adds one witnessed leaf, the hash of the
  commitment, at the index of the next leaf, and leaves the others.  The position recorded
  for the commitment is not that index but four times it, because
  \<open>GetPosition::position\<close> shifts by the height of the node and not of its child.
\<close>

theorem tree_insert_keep:
  assumes "tree_ok t" and "tree_position_of c t = None" and "tree_insert H KeepWitness c t = Inr t'"
  shows "\<exists>n < 4 ^ 24. top_next 24 (b_inner t) = Some n \<and>
    (\<forall>m < 4 ^ 24. kept_top 24 (b_inner t') m =
       (if m = n then Some (hash_of H c) else kept_top 24 (b_inner t) m)) \<and>
    tree_position_of c t' = Some (within_tree_of_u64 (of_nat (4 * n)))"
  using tree_insert_leaf [OF assms] by blast

section \<open>Consequences of the position\<close>

text \<open>An open block in an open epoch accepts a commitment while it is not full.\<close>

lemma tree_insert_accepts:
  assumes "tree_ok t" and "b_inner t = Some g" and "focus_f g = Some (TierFrontier e)"
    and "focus_f e = Some (TierFrontier x)" and "\<not> is_full_f x"
  shows "\<exists>t'. tree_insert H w c t = Inr t'"
proof -
  have g: "f_ok (nested epoch_ty) g" using assms(1,2) by (simp add: tree_ok_def)
  have e: "f_ok (nested block_ty) e" using nest_focus [OF g] assms(3) by simp
  have x: "f_ok block_ty (TierFrontier x)" using nest_focus [OF e] assms(4) by simp
  have "position_f 8 x \<noteq> None" using tier_position_not_full [OF x] assms(5) by simp
  then have "position_f 16 e \<noteq> None" using position_nest [OF e _ assms(4)] by simp
  then have "position_f 24 g \<noteq> None" using position_nest [OF g _ assms(3)] by simp
  then obtain p where p: "top_position 24 (b_inner t) = Some p" using assms(2) by auto
  obtain x' where "insert_f H (nested TItem) x (witness_item H w c) = Inr x'"
    using insert_not_full [of "nested TItem" x "witness_item H w c" H] x assms(5) by auto
  then have "insert_into_block H (witness_item H w c) (TierFrontier x) = (TierFrontier x', Inr ())"
    using assms(5) by (simp add: insert_into_block_def)
  then have "tree_insert_item H (witness_item H w c) (b_inner t) =
      Inr (Some (set_focus (TierFrontier (set_focus (TierFrontier x') e)) g))"
    using assms(2,3) insert_into_epoch_open [OF assms(4), of H "witness_item H w c"]
    by (simp add: tree_insert_item_def update_f_eq)
  then show ?thesis
    using tree_insert_refines [OF assms(1), of H w c] p assms(1)
      tree_insert_item_refines [of "b_inner t" "witness_item H w c" H]
    by (cases "tree_insert H w c t"; cases "projl (tree_insert H w c t)")
      (auto simp: tree_refines_def tree_ok_def)
qed

lemma new_nested_not_full: "\<not> is_full_f (new_f (nested t) item)"
  by (simp add: nested_def)

lemma tree_insert_new:
  obtains t where "tree_insert H KeepWitness c builder_new = Inr t" and "tree_ok t"
    and "b_index t = [(c, within_tree_of_u64 0)]"
    and "b_inner t = Some (new_f (nested epoch_ty) (tier_new block_ty (tier_new TItem (item_of_commitment H c))))"
proof -
  let ?f = "new_f (nested epoch_ty) (tier_new block_ty (tier_new TItem (item_of_commitment H c)))"
  have "f_ok (nested epoch_ty) ?f"
    by (intro new_f_ok) (simp_all add: tier_new_def new_f_ok item_of_commitment_def)
  then show ?thesis
    using that [of "\<lparr>b_index = [(c, within_tree_of_u64 0)], b_inner = Some ?f\<rparr>"]
    by (simp add: tree_insert_def builder_new_def tree_insert_item_def expect_inserted_def
        remember_def witness_item_def tree_ok_def)
qed

text \<open>
  The first commitment of a tree is witnessed by a proof that verifies; asking for the
  witness of the second one panics, since its recorded position is 4 and the tree has no
  fifth leaf.
\<close>

theorem tree_second_witness_panics:
  assumes "c \<noteq> d"
  shows "\<exists>t p u m. tree_insert H KeepWitness c builder_new = Inr t \<and>
    tree_witness H c t = Inr (Some p) \<and> proof_verify H 24 p (tree_root H t) = Inr () \<and>
    tree_insert H KeepWitness d t = Inr u \<and> tree_witness H d u = Inl (Panic m)"
proof -
  obtain t where t: "tree_insert H KeepWitness c builder_new = Inr t" "tree_ok t"
    "b_index t = [(c, within_tree_of_u64 0)]"
    "b_inner t = Some (new_f (nested epoch_ty) (tier_new block_ty (tier_new TItem (item_of_commitment H c))))"
    by (rule tree_insert_new)
  have pos: "tree_position_of c t = Some (within_tree_of_u64 0)" "tree_position_of d t = None"
    using t(3) assms by (simp_all add: tree_position_of_def)
  have idx: "unat (u64_of_within_tree (within_tree_of_u64 (of_nat n))) = n" if "n < 10" for n
    using that by (simp add: within_tree_of_u64_inverse unsigned_take_bit_eq unsigned_of_nat take_bit_nat_eq_self)
  have leaf: "read_top b 24 (b_inner t) m = (if m = 0 then Some (hash_of H c) else None)"
    if "m < 4 ^ 24" for b m
    using tree_insert_leaf [OF tree_ok_new _ t(1)] that
    by (auto simp: builder_new_def tree_position_of_def)
  have "\<exists>p. tree_witness H c t = Inr (Some p) \<and> proof_verify H 24 p (tree_root H t) = Inr ()"
    using tree_witness_answer [OF t(2) pos(1), of H] leaf [of 0 True] idx [of 0] by auto
  moreover obtain u where u: "tree_insert H KeepWitness d t = Inr u"
    using tree_insert_accepts [OF t(2,4), of "new_f (nested block_ty) (tier_new TItem (item_of_commitment H c))"
        "new_f (nested TItem) (item_of_commitment H c)" H KeepWitness d]
      new_nested_not_full by (auto simp: tier_new_def)
  have "tree_ok u" using tree_insert_refines [OF t(2), of H KeepWitness d] u
    by (simp add: tree_refines_def tree_ok_def)
  have "top_next 24 (b_inner t) = Some 1"
    by (simp add: t(4) tier_new_def nested_def item_of_commitment_def)
  then have "tree_position_of d u = Some (within_tree_of_u64 (of_nat 4))"
    "read_top True 24 (b_inner u) 4 = None"
    using tree_insert_leaf [OF t(2) pos(2) u] leaf [of 4] by auto
  then have "\<exists>m. tree_witness H d u = Inl (Panic m)"
    using tree_witness_answer [OF \<open>tree_ok u\<close>, of d _ H] idx [of 4] by auto
  ultimately show ?thesis using t(1) u by blast
qed

section \<open>After the end of a block or an epoch\<close>

text \<open>The latest epoch or its latest block is finalized.\<close>

definition latest_finalized :: "top_tier \<Rightarrow> bool" where
  "latest_finalized inner =
     (case top_focus inner of
        None \<Rightarrow> False
      | Some epoch \<Rightarrow> tier_is_finalized epoch \<or>
          (case tier_focus epoch of None \<Rightarrow> False | Some block \<Rightarrow> tier_is_finalized block))"

lemma insert_into_finalized_block:
  "tier_is_finalized block \<Longrightarrow> snd (insert_into_block H item block) = Inl (Err ''most recent block is full'')"
  by (cases block) (simp_all add: insert_into_block_def)

lemma insert_refused:
  assumes "latest_finalized (b_inner t)"
  shows "\<exists>m. tree_insert H w c t = Inl (Err m)"
proof -
  obtain g epoch where g: "b_inner t = Some g" "focus_f g = Some epoch"
    using assms by (cases "b_inner t") (auto simp: latest_finalized_def split: option.splits)
  have "\<exists>m. snd (insert_into_epoch H (witness_item H w c) epoch) = Inl (Err m)"
  proof (cases "tier_is_finalized epoch")
    case True
    then show ?thesis by (simp add: insert_into_epoch_finalized)
  next
    case False
    then obtain e where e: "epoch = TierFrontier e" by (cases epoch) auto
    then obtain block where "focus_f e = Some block" "tier_is_finalized block"
      using assms g by (auto simp: latest_finalized_def split: option.splits)
    then show ?thesis
      using e by (simp add: insert_into_epoch_open insert_into_finalized_block)
  qed
  then show ?thesis
    using g by (cases "position_f 24 g") (auto simp: tree_insert_def tree_insert_item_def update_f_eq)
qed

lemma finalize_is_finalized: "tier_is_finalized (fst (tier_finalize H h f))"
  by (cases f) (auto simp: tier_finalize_def split: insertion.splits)

lemma expect_inserted_Inr [result_simps]:
  "expect_inserted m r = Inr f \<longleftrightarrow> r = Inr (f, Inr ())"
proof (cases r)
  case (Inr x)
  then show ?thesis by (cases x; cases "snd x") (auto simp: expect_inserted_def)
qed (simp add: expect_inserted_def)

lemma top_insert_focus:
  assumes "top_ok t f" and "f_ok t item" and "top_insert H t f item = Inr (f', Inr ())"
  shows "top_focus f' = Some item"
proof (cases f)
  case None
  then show ?thesis using assms(3) by auto
next
  case (Some g)
  then have "\<not> is_full_f g" using assms(3) by (auto split: if_splits)
  then obtain g' where "insert_f H (nested t) g item = Inr g'" "inserted (nested t) g item g'"
    using insert_not_full [of "nested t" g item H] assms(1,2) Some by auto
  then show ?thesis using Some assms(3) \<open>\<not> is_full_f g\<close> by (auto simp: inserted_def)
qed

lemma finalize_latest_block:
  assumes "top_ok epoch_ty inner" and "inner \<noteq> None"
  shows "latest_finalized (fst (top_update (tier_update (tier_finalize H 8)) inner))"
proof -
  obtain g where g: "inner = Some g" using assms(2) by blast
  then obtain e where e: "focus_f g = Some e" "f_ok epoch_ty e"
    using nest_focus [of "nested epoch_ty" g] assms(1) by auto
  from e(2) show ?thesis
  proof (cases rule: tier_cases [where H = H and h = 16])
    case (Open k x)
    then show ?thesis using g e
      by (simp add: latest_finalized_def update_f_eq finalize_is_finalized)
  next
    case Finalized
    then have "tier_update (tier_finalize H 8) e = (e, None)" by (cases e) simp_all
    then show ?thesis using g e Finalized by (simp add: latest_finalized_def update_f_eq)
  qed
qed

lemma insert_block_latest:
  assumes "top_ok epoch_ty inner" and "f_ok block_ty block" and "tier_is_finalized block"
    and "insert_block_inner H block inner = Inr inner'"
  shows "latest_finalized inner'"
proof (cases inner)
  case None
  then show ?thesis using assms(3,4)
    by (auto simp: insert_block_inner_def expect_inserted_def latest_finalized_def tier_new_def)
next
  case (Some g)
  then obtain e where e: "focus_f g = Some e" "f_ok epoch_ty e"
    using nest_focus [of "nested epoch_ty" g] assms(1) by auto
  obtain e' where e': "tier_insert H block_ty e block = Inr (e', Inr ())" "inner' = Some (set_focus e' g)"
    using assms(4) Some e(1)
    by (auto simp: insert_block_inner_def update_f_eq result_simps split: sum.splits)
  then obtain k where k: "e = TierFrontier k" "\<not> is_full_f k" by (cases e) (auto split: if_splits)
  obtain k' where "insert_f H (nested block_ty) k block = Inr k'" "inserted (nested block_ty) k block k'"
    using insert_not_full [of "nested block_ty" k block H] e(2) k assms(2) by auto
  then have "e' = TierFrontier k'" "focus_f k' = Some block"
    using e'(1) k by (auto simp: inserted_def)
  then show ?thesis using e'(2) e(1) assms(3) by (simp add: latest_finalized_def)
qed

lemma end_block_finalizes:
  assumes "tree_ok t" and "tree_end_block H t = Inr t'"
  shows "latest_finalized (b_inner t')"
proof -
  have ok: "top_ok epoch_ty (b_inner t)" using assms(1) by (simp add: tree_ok_def)
  obtain inner r where u: "top_update (tier_update (tier_finalize H 8)) (b_inner t) = (inner, r)"
    by force
  have inner: "top_ok epoch_ty inner" using finalize_block_facts(1) [OF ok, of H] u by simp
  show ?thesis
  proof (cases "r = Some (Some False)")
    case True
    then have "b_inner t \<noteq> None" using u by (cases "b_inner t") auto
    then show ?thesis
      using finalize_latest_block [OF ok, of H] u True assms(2) by (auto simp: tree_end_block_def)
  next
    case False
    then have "tree_insert_block H (block_finalized_default H) (t\<lparr>b_inner := inner\<rparr>) = Inr t'"
      using u assms(2) by (auto simp: tree_end_block_def split: option.splits if_splits)
    then have "insert_block_inner H (TierHash hash_one)
        (fst (top_update (tier_update (tier_finalize H 8)) inner)) = Inr (b_inner t')"
      by (auto simp: tree_insert_block_def result_simps Let_def block_finalized_default_def
          block_builder_finalize_def builder_new_def)
    then show ?thesis
      using insert_block_latest [OF finalize_block_facts(1) [OF inner, of H], of "TierHash hash_one" H]
      by simp
  qed
qed

lemma end_epoch_finalizes:
  assumes "tree_ok t" and "tree_end_epoch H t = Inr t'"
  shows "latest_finalized (b_inner t')"
proof -
  have ok: "top_ok epoch_ty (b_inner t)" using assms(1) by (simp add: tree_ok_def)
  obtain inner r where u: "top_update (tier_finalize H 16) (b_inner t) = (inner, r)"
    by force
  have inner: "top_ok epoch_ty inner" using finalize_epoch_facts(1) [OF ok, of H] u by simp
  show ?thesis
  proof (cases "r = Some False")
    case True
    then obtain g where g: "b_inner t = Some g" using u by (cases "b_inner t") auto
    then obtain e where "focus_f g = Some e" using nest_focus [of "nested epoch_ty" g] ok by auto
    then show ?thesis
      using g u True assms(2)
      by (auto simp: tree_end_epoch_def update_f_eq latest_finalized_def finalize_is_finalized)
  next
    case False
    then have "tree_insert_epoch H (epoch_finalized_default H) (t\<lparr>b_inner := inner\<rparr>) = Inr t'"
      using u assms(2) by (auto simp: tree_end_epoch_def split: option.splits if_splits)
    then have "top_insert H epoch_ty (fst (top_update (tier_finalize H 16) inner)) (TierHash hash_one) =
        Inr (b_inner t', Inr ())"
      by (auto simp: tree_insert_epoch_def result_simps Let_def epoch_finalized_default_def
          epoch_builder_finalize_def builder_new_def split: if_splits)
    then have "top_focus (b_inner t') = Some (TierHash hash_one)"
      using top_insert_focus [OF finalize_epoch_facts(1) [OF inner, of H]] by simp
    then show ?thesis by (simp add: latest_finalized_def)
  qed
qed

text \<open>
  Once a block or an epoch has been ended, no commitment can be inserted: the latest
  block (or epoch) is finalized, and \<open>Tree::insert\<close> reports it as full instead of opening
  a new one, although its comments say that it opens one.
\<close>

lemma tree_insert_after_end:
  assumes "tree_ok t" and "tree_end_block H t = Inr t' \<or> tree_end_epoch H t = Inr t'"
  shows "\<exists>m. tree_insert H w c t' = Inl (Err m)"
  using assms end_block_finalizes end_epoch_finalizes by (intro insert_refused) blast

end
