(* ===== verification/TCT_Builder.thy ===== *)
theory TCT_Builder
  imports TCT_Sound
begin

text \<open>
  Block builders: how many commitments one takes, and that inserting a finished block into
  a tree is the same as inserting its commitments one by one and ending the block.
\<close>

section \<open>Capacity of a block builder\<close>

fun top_items :: "ty \<Rightarrow> top_tier \<Rightarrow> nat" where
  "top_items t None = 0"
| "top_items t (Some f) = items_f (nested t) f"

lemma block_position:
  assumes "top_ok TItem f"
  shows "top_position 8 f = (if top_is_full f then None else Some (of_nat (4 * top_items TItem f)))"
proof (cases f)
  case (Some g)
  then obtain x where x: "focus_f g = Some x" "f_ok TItem x"
    using nest_focus [of "nested TItem" g] assms by auto
  then obtain y where "x = FItem y" by (cases x) auto
  then have "next_f 8 g = (if is_full_f g then None else Some (items_f (nested TItem) g))"
    using next_nest [of "nested TItem" g x] x assms Some by simp
  then show ?thesis
    using position_next [of "nested TItem" g] assms Some by simp
qed simp

lemma top_items_bound:
  assumes "top_ok t f"
  shows "top_items t f \<le> 65536" and "top_is_full f \<longleftrightarrow> top_items t f = 65536"
  using assms items_le [of "nested t"] items_full [of "nested t"] by (cases f; simp)+

lemma within_block_lt: "unat (u64_of_within_block q) < 4 ^ 8"
  using unsigned_less [of "wb_commitment q", where 'a = nat]
  by (simp add: u64_of_within_block_def u16_of_within_block_def unsigned_ucast_eq take_bit_nat_eq_self)

lemma u16_try_from_block:
  assumes "n < 65536"
  shows "u16_try_from (of_nat (4 * n)) = (if n < 16384 then Some (ucast (of_nat (4 * n) :: u64)) else None)"
proof -
  have "unat (of_nat (4 * n) :: u64) = 4 * n"
    by (rule unat_of_nat_64) (use assms in simp)
  then show ?thesis by (simp add: u16_try_from_def)
qed

lemma block_builder_insert_step:
  assumes "top_ok TItem (b_inner b)" and "top_items TItem (b_inner b) < 16384"
  obtains b' inner where "block_builder_insert H w c b = Inr b'" and "top_ok TItem (b_inner b')"
    and "top_insert H TItem (b_inner b) (witness_item H w c) = Inr (inner, Inr ())"
    and "skel_top H 8 (b_inner b') = skel_top H 8 inner"
proof -
  let ?n = "top_items TItem (b_inner b)"
  have nf: "\<not> top_is_full (b_inner b)" using top_items_bound [OF assms(1)] assms(2) by simp
  obtain inner where inner: "top_insert H TItem (b_inner b) (witness_item H w c) = Inr (inner, Inr ())"
    "top_ok TItem inner"
    using top_insert_spec [OF assms(1), of "witness_item H w c" H] nf by auto
  let ?b = "b\<lparr>b_inner := inner\<rparr>" and ?p = "\<lparr>wb_commitment = ucast (of_nat (4 * ?n) :: u64)\<rparr>"
  have eq: "block_builder_insert H w c b =
      (case w of KeepWitness \<Rightarrow> remember H 8 u64_of_within_block c ?p ?b | ForgetWitness \<Rightarrow> Inr ?b)"
    using block_position [OF assms(1)] nf u16_try_from_block [of ?n] assms(2) inner(1)
    by (cases w) (simp_all add: block_builder_insert_def expect_inserted_def Let_def)
  have ok: "top_ok TItem (b_inner ?b)" using inner(2) by simp
  obtain b' where b': "remember H 8 u64_of_within_block c ?p ?b = Inr b'" "top_ok TItem (b_inner b')"
    "skel_top H 8 (b_inner b') = skel_top H 8 (b_inner ?b)"
    by (rule remember_spec [where conv = u64_of_within_block and h = 8 and H = H and c = c and p = ?p,
          OF ok _ within_block_lt]) simp_all
  show ?thesis
    using that [of b' inner] that [of ?b inner] eq b' inner by (cases w) simp_all
qed

text \<open>
  A block builder accepts 16384 commitments and then panics.  The position it computes
  is four times the number of commitments and must fit 16 bits, so from the 16385th on the
  conversion panics, until the tree itself is full at 65536.
\<close>

theorem block_builder_insert_outcome:
  assumes "top_ok TItem (b_inner b)"
  shows "(if top_items TItem (b_inner b) < 16384
          then \<exists>b'. block_builder_insert H w c b = Inr b' \<and> top_ok TItem (b_inner b')
          else if top_items TItem (b_inner b) < 65536
          then \<exists>m. block_builder_insert H w c b = Inl (Panic m)
          else \<exists>m. block_builder_insert H w c b = Inl (Err m))"
proof (cases "top_items TItem (b_inner b) < 16384")
  case True
  then show ?thesis
    using block_builder_insert_step [OF assms, of H w c] by metis
next
  case False
  have pos: "top_position 8 (b_inner b) = (if top_items TItem (b_inner b) = 65536 then None
      else Some (of_nat (4 * top_items TItem (b_inner b))))"
    using block_position [OF assms] top_items_bound(2) [OF assms] by simp
  show ?thesis
  proof (cases "top_items TItem (b_inner b) < 65536")
    case True
    then show ?thesis
      using False pos u16_try_from_block [of "top_items TItem (b_inner b)"]
      by (simp add: block_builder_insert_def)
  next
    case full: False
    then have "top_items TItem (b_inner b) = 65536" using top_items_bound(1) [OF assms] by simp
    then show ?thesis using pos by (simp add: block_builder_insert_def)
  qed
qed

section \<open>A finished block\<close>

text \<open>A block as the only block of the only epoch of a tree.\<close>

fun embed :: "top_tier \<Rightarrow> top_tier" where
  "embed None = None"
| "embed (Some f) = Some (new_f (nested epoch_ty) (tier_new block_ty (TierFrontier f)))"

lemma embed_insert:
  assumes "top_ok TItem f" and "f_ok TItem item" and "top_insert H TItem f item = Inr (f', Inr ())"
  shows "top_position 24 (embed f) \<noteq> None \<and> tree_insert_item H item (embed f) = Inr (embed f')"
proof (cases f)
  case None
  then show ?thesis using assms(3)
    by (auto simp: tree_insert_item_def expect_inserted_def tier_new_def)
next
  case (Some g)
  then have nf: "\<not> is_full_f g" using assms(3) by (auto split: if_splits)
  then obtain g' where g': "insert_f H (nested TItem) g item = Inr g'"
    using insert_not_full [of "nested TItem" g item H] assms(1,2) Some by auto
  have f': "f' = Some g'" using assms(3) Some nf g' by simp
  have "set_focus x (new_f t y) = new_f t x" for x y t by (induction t) auto
  then have "tree_insert_item H item (embed f) = Inr (embed f')"
    using Some nf g' f'
    by (simp add: tree_insert_item_def update_f_eq tier_new_def insert_into_epoch_open insert_into_block_def)
  moreover have "\<not> top_is_full (embed f)" using Some new_nested_not_full by simp
  moreover have "top_ok epoch_ty (embed f)"
    using assms(1) Some by (auto intro!: new_f_ok simp: tier_new_def)
  ultimately show ?thesis using top_position_not_full [of epoch_ty "embed f"] by simp
qed

lemma embed_skel: "skel_top H 24 (embed f) = embed (skel_top H 8 f)"
  using new_f_skel [of "nested epoch_ty" H] new_f_skel [of "nested block_ty" H]
  by (cases f) (simp_all add: tier_new_def)

lemma skel_ok: "f_ok t f \<Longrightarrow> f_ok t (skel_f H h f)"
proof (induction t f arbitrary: h rule: f_ok.induct)
  case (3 t s f)
  then show ?case by (cases s) auto
qed auto

lemma skel_top_ok: "top_ok t f \<Longrightarrow> top_ok t (skel_top H h f)"
  by (cases f) (simp_all add: skel_ok)

text \<open>Building a block and inserting its commitments into an empty tree run in step.\<close>

lemma insert_in_step:
  assumes "top_ok TItem (b_inner b)" and "tree_ok t"
    and "skel_top H 24 (b_inner t) = embed (skel_top H 8 (b_inner b))"
    and "block_builder_insert H w c b = Inr b'"
  shows "\<exists>t'. tree_insert H w c t = Inr t' \<and> tree_ok t' \<and> top_ok TItem (b_inner b') \<and>
    skel_top H 24 (b_inner t') = embed (skel_top H 8 (b_inner b')) \<and> b_inner b' \<noteq> None"
proof -
  have "top_items TItem (b_inner b) < 16384"
    using assms(4) top_items_bound(1) [OF assms(1)] block_position [OF assms(1)]
      top_items_bound(2) [OF assms(1)] u16_try_from_block [of "top_items TItem (b_inner b)"]
    by (auto simp: block_builder_insert_def result_simps split: if_splits)
  then obtain inner where b': "top_ok TItem (b_inner b')"
    and ins: "top_insert H TItem (b_inner b) (witness_item H w c) = Inr (inner, Inr ())"
    and sk: "skel_top H 8 (b_inner b') = skel_top H 8 inner"
    using block_builder_insert_step [OF assms(1), of H w c] assms(4) by (metis sum.inject(2))
  let ?i = "item_of_hash (hash_of H c)"
  have "top_insert H TItem (skel_top H 8 (b_inner b)) ?i = Inr (skel_top H 8 inner, Inr ())"
    using top_insert_skel [OF assms(1), of "witness_item H w c" H] ins by simp
  then have "pruned_op H (InsertOp w c) (embed (skel_top H 8 (b_inner b))) =
      Inr (embed (skel_top H 8 inner))"
    using embed_insert [of "skel_top H 8 (b_inner b)" ?i H "skel_top H 8 inner"]
      skel_top_ok [OF assms(1)] by (auto simp: item_of_hash_def)
  then have ref: "tree_refines H (tree_insert H w c t) (Inr (embed (skel_top H 8 (b_inner b'))))"
    using tree_insert_refines [OF assms(2), of H w c] assms(3) sk by simp
  then obtain t' where t': "tree_insert H w c t = Inr t'"
    by (cases "tree_insert H w c t"; cases "projl (tree_insert H w c t)") (auto simp: tree_refines_def)
  have "inner \<noteq> None" using ins by (cases "b_inner b") (auto split: if_splits sum.splits)
  then have "b_inner b' \<noteq> None" using sk by (cases "b_inner b'"; cases inner) auto
  then show ?thesis using ref t' b' by (simp add: tree_refines_def tree_ok_def)
qed

lemma inserts_in_step:
  assumes "top_ok TItem (b_inner b)" and "tree_ok t"
    and "skel_top H 24 (b_inner t) = embed (skel_top H 8 (b_inner b))"
    and "foldR (\<lambda>(w, c). block_builder_insert H w c) cs b = Inr b'"
  shows "\<exists>t'. foldR (\<lambda>(w, c). tree_insert H w c) cs t = Inr t' \<and> tree_ok t' \<and> top_ok TItem (b_inner b') \<and>
    skel_top H 24 (b_inner t') = embed (skel_top H 8 (b_inner b')) \<and> (cs \<noteq> [] \<longrightarrow> b_inner b' \<noteq> None)"
  using assms
proof (induction cs arbitrary: b t)
  case (Cons x cs)
  obtain w c where x: "x = (w, c)" by (cases x)
  obtain b1 where b1: "block_builder_insert H w c b = Inr b1"
    "foldR (\<lambda>(w, c). block_builder_insert H w c) cs b1 = Inr b'"
    using Cons.prems(4) x by (auto simp: result_simps)
  obtain t1 where t1: "tree_insert H w c t = Inr t1" "tree_ok t1" "top_ok TItem (b_inner b1)"
    "skel_top H 24 (b_inner t1) = embed (skel_top H 8 (b_inner b1))" "b_inner b1 \<noteq> None"
    using insert_in_step [OF Cons.prems(1-3) b1(1)] by blast
  from Cons.IH [OF t1(3,2,4) b1(2)] show ?case
    using t1 b1 x by (cases cs) auto
qed simp

text \<open>After one ended block, another finalized block can follow.\<close>

lemma insert_second_block:
  assumes "tree_ok t" and "skel_top H 24 (b_inner t) = Some (new_f (nested epoch_ty) (tier_new block_ty (TierHash r)))"
    and "finalized_ok TItem f"
  shows "\<exists>t'. tree_insert_block H f t = Inr t'"
proof -
  have "\<exists>e. pruned_insert_block H (block_finalized_root H f) (skel_top H 24 (b_inner t)) = Inr e"
    unfolding assms(2)
    by (simp add: pruned_insert_block_def insert_block_guard_def insert_block_inner_def update_f_eq tier_new_def nested_def
        tier_finalize_def expect_inserted_def ensure_def)
  with tree_insert_block_refines [OF assms(1,3), of H] show ?thesis
    by (cases "tree_insert_block H f t"; cases "projl (tree_insert_block H f t)") (auto simp: tree_refines_def)
qed

lemma built_apart:
  assumes "foldR (\<lambda>(w, c). block_builder_insert H w c) cs builder_new = Inr b"
  obtains t t1 t2 r where "foldR (\<lambda>(w, c). tree_insert H w c) cs builder_new = Inr t" and "tree_ok t"
    and "tree_end_block H t = Inr t1" and "tree_insert_block H (fst (block_builder_finalize H b)) builder_new = Inr t2"
    and "tree_ok t1" and "tree_ok t2"
    and "skel_top H 24 (b_inner t1) = Some (new_f (nested epoch_ty) (tier_new block_ty (TierHash r)))"
    and "skel_top H 24 (b_inner t2) = Some (new_f (nested epoch_ty) (tier_new block_ty (TierHash r)))"
proof -
  obtain t where t: "foldR (\<lambda>(w, c). tree_insert H w c) cs builder_new = Inr t" "tree_ok t"
    "top_ok TItem (b_inner b)" "skel_top H 24 (b_inner t) = embed (skel_top H 8 (b_inner b))"
    using inserts_in_step [OF _ tree_ok_new _ assms(1)] by (auto simp: builder_new_def)
  let ?f = "fst (block_builder_finalize H b)"
  let ?root = "block_finalized_root H ?f"
  let ?e = "Some (new_f (nested epoch_ty) (tier_new block_ty (TierHash ?root)))"
  have fok: "finalized_ok TItem ?f"
    using t(3) finalize_ok [of "nested TItem" _ H 8]
    by (cases "b_inner b") (simp_all add: block_builder_finalize_def finalized_ok_def)
  have sf: "set_focus x (new_f ty y) = new_f ty x" for x y ty by (induction ty) auto
  have "pruned_op H EndBlockOp (skel_top H 24 (b_inner t)) = Inr ?e"
    unfolding t(4)
    by (cases "b_inner b") (simp_all add: update_f_eq tier_new_def tier_finalize_def finalize_skel sf block_finalized_root_def
        block_builder_finalize_def pruned_insert_block_def insert_block_guard_def insert_block_inner_def expect_inserted_def)
  moreover have "pruned_insert_block H ?root (skel_top H 24 (b_inner (builder_new :: tree))) = Inr ?e"
    by (simp add: pruned_insert_block_def insert_block_guard_def insert_block_inner_def builder_new_def
        expect_inserted_def)
  ultimately have "tree_refines H (tree_end_block H t) (Inr ?e)"
    "tree_refines H (tree_insert_block H ?f builder_new) (Inr ?e)"
    using tree_end_block_refines [OF t(2), of H] tree_insert_block_refines [OF tree_ok_new fok, of H]
    by simp_all
  then obtain t1 t2 where "tree_end_block H t = Inr t1" "tree_insert_block H ?f builder_new = Inr t2"
    "skel_top H 24 (b_inner t1) = ?e" "skel_top H 24 (b_inner t2) = ?e" "tree_ok t1" "tree_ok t2"
    by (cases "tree_end_block H t"; cases "projl (tree_end_block H t)";
        cases "tree_insert_block H ?f builder_new"; cases "projl (tree_insert_block H ?f builder_new)")
      (auto simp: tree_refines_def tree_ok_def)
  with t(1,2) show thesis by (intro that)
qed

text \<open>
  C34: The first block of a tree may be built apart.  If a block builder accepts a list of
  commitments, then inserting them one by one into an empty tree and ending the block gives
  the same root and the same next position as inserting the finalized block into the empty tree, and they
  stay the same whatever is done to the two trees afterwards.  In the tree with the ended block
  every single insertion is refused, while further finalized blocks are accepted, so a later block can only be
  built apart.
\<close>

theorem insert_block_equals_inserts:
  assumes "foldR (\<lambda>(w, c). block_builder_insert H w c) cs builder_new = Inr b"
  shows "\<exists>t t1 t2. foldR (\<lambda>(w, c). tree_insert H w c) cs builder_new = Inr t \<and>
    tree_end_block H t = Inr t1 \<and>
    tree_insert_block H (fst (block_builder_finalize H b)) builder_new = Inr t2 \<and>
    tree_root H t1 = tree_root H t2 \<and> tree_position t1 = tree_position t2 \<and>
    (\<forall>xs. (\<forall>x \<in> set xs. op_ok x) \<longrightarrow> (\<exists>u1 u2. run_ops H xs t1 = Inr u1 \<and> run_ops H xs t2 = Inr u2 \<and>
       tree_root H u1 = tree_root H u2 \<and> tree_position u1 = tree_position u2)) \<and>
    (\<forall>w c. \<exists>m. tree_insert H w c t1 = Inl (Err m)) \<and>
    (\<forall>f. finalized_ok TItem f \<longrightarrow> (\<exists>u1 u2. tree_insert_block H f t1 = Inr u1 \<and> tree_insert_block H f t2 = Inr u2))"
proof -
  obtain t t1 t2 r where t: "foldR (\<lambda>(w, c). tree_insert H w c) cs builder_new = Inr t" "tree_ok t"
    and e: "tree_end_block H t = Inr t1" "tree_insert_block H (fst (block_builder_finalize H b)) builder_new = Inr t2"
    and ok: "tree_ok t1" "tree_ok t2"
    and sk: "skel_top H 24 (b_inner t1) = Some (new_f (nested epoch_ty) (tier_new block_ty (TierHash r)))"
      "skel_top H 24 (b_inner t2) = Some (new_f (nested epoch_ty) (tier_new block_ty (TierHash r)))"
    by (rule built_apart [OF assms])
  have eq: "tree_root H u1 = tree_root H u2 \<and> tree_position u1 = tree_position u2"
    if "skel_top H 24 (b_inner u1) = skel_top H 24 (b_inner u2)" for u1 u2
    using that unfolding tree_root_def tree_position_def by (metis hash_skel_top position_skel_top)
  have "\<exists>u1 u2. run_ops H xs t1 = Inr u1 \<and> run_ops H xs t2 = Inr u2 \<and> tree_root H u1 = tree_root H u2 \<and> tree_position u1 = tree_position u2"
    if "\<forall>x \<in> set xs. op_ok x" for xs
    using run_ops_refines [OF ok(1) that, of H] run_ops_refines [OF ok(2) that, of H] eq unfolding sk by (metis (no_types))
  moreover have "tree_root H t1 = tree_root H t2" "tree_position t1 = tree_position t2"
    using eq [of t1 t2] sk by simp_all
  moreover have "\<forall>w c. \<exists>m. tree_insert H w c t1 = Inl (Err m)" using tree_insert_after_end [OF t(2)] e(1) by blast
  ultimately show ?thesis
    using t(1) e insert_second_block [OF ok(1) sk(1)] insert_second_block [OF ok(2) sk(2)] by (intro exI conjI) blast+
qed

end
