(* ===== verification/TCT_Witnesses.thy ===== *)
theory TCT_Witnesses
  imports TCT_Builder
begin

text \<open>
  The theorems on the tiered commitment tree applied to concrete trees, with concrete
  functions in place of the Poseidon hash.
\<close>

definition sum_hasher :: hasher where
  "sum_hasher = \<lparr>domain_separator = 7, fq_add = (+), hash_1 = (\<lambda>d x. d + 3 * x),
     hash_4 = (\<lambda>d (a, b, c, e). d + a + 2 * b + 3 * c + 4 * e)\<rparr>"

definition constant_hasher :: hasher where
  "constant_hasher = \<lparr>domain_separator = 7, fq_add = (+), hash_1 = (\<lambda>d x. x),
     hash_4 = (\<lambda>d x. 0)\<rparr>"

definition forged :: "fq \<Rightarrow> tct_proof" where
  "forged c = \<lparr>pf_position = 2, pf_auth_path = PathNode (1, 2, 3) PathLeaf, pf_leaf = c\<rparr>"

theorem proof_binding_witness:
  "\<exists>k. find_collision constant_hasher 1 2 (PathNode (1, 2, 3) PathLeaf) 10
     (PathNode (1, 2, 3) PathLeaf) 20 = Some k \<and> node_collision constant_hasher k"
  using proof_binding [of constant_hasher 1 "forged 10" 0 "forged 20"]
  by (simp add: forged_def proof_verify_def constant_hasher_def hash_node_def proof_auth_path_def
      hash_of_def case_prod_beta)

text \<open>A tree with one commitment.\<close>

lemma one_commitment:
  obtains t where "tree_insert sum_hasher KeepWitness 5 builder_new = Inr t" and "tree_ok t"
    and "b_index t = [(5, within_tree_of_u64 0)]"
    and "b_inner t = Some (new_f (nested epoch_ty)
      (tier_new block_ty (tier_new TItem (item_of_commitment sum_hasher 5))))"
  by (rule tree_insert_new)

theorem tree_history_typed_witness:
  "\<exists>t. run_ops sum_hasher [InsertOp KeepWitness 5, EndBlockOp, InsertBlockOp (finalized_of_root 9),
     ForgetOp 5, EndEpochOp] builder_new = Inr t \<and> tree_ok t"
  by (rule tree_history_typed) (simp add: finalized_ok_def finalized_of_root_def)

theorem tree_root_ignores_witnessing_witness:
  "\<exists>t u. run_ops sum_hasher [InsertOp KeepWitness 5, ForgetOp 5, EndBlockOp] builder_new = Inr t \<and>
     run_ops sum_hasher [InsertOp ForgetWitness 5, EndBlockOp] builder_new = Inr u \<and>
     tree_root sum_hasher t = tree_root sum_hasher u"
proof -
  let ?xs = "[InsertOp KeepWitness 5, ForgetOp 5, EndBlockOp]"
  let ?ys = "[InsertOp ForgetWitness 5, EndBlockOp]"
  obtain t where t: "run_ops sum_hasher ?xs builder_new = Inr t"
    using run_ops_refines [of builder_new ?xs sum_hasher] by auto
  obtain u where u: "run_ops sum_hasher ?ys builder_new = Inr u"
    using run_ops_refines [of builder_new ?ys sum_hasher] by auto
  have "tree_root sum_hasher t = tree_root sum_hasher u"
    using tree_root_ignores_witnessing [OF _ _ _ t u] by simp
  then show ?thesis using t u by blast
qed

lemma one_commitment_leaf:
  assumes "tree_insert sum_hasher KeepWitness 5 builder_new = Inr t" and "m < 4 ^ 24"
  shows "read_top b 24 (b_inner t) m = (if m = 0 then Some 22 else None)"
  using tree_insert_leaf [OF tree_ok_new _ assms(1)] assms(2)
  by (auto simp: builder_new_def tree_position_of_def sum_hasher_def hash_of_def)

lemma index_zero: "unat (u64_of_within_tree (within_tree_of_u64 0)) = 0"
  by (simp add: within_tree_of_u64_inverse)

theorem tree_witness_exact_witness:
  "\<exists>t p. tree_insert sum_hasher KeepWitness 5 builder_new = Inr t \<and>
     tree_witness sum_hasher 5 t = Inr (Some p) \<and> length (proof_auth_path p) = 24 \<and>
     proof_verify sum_hasher 24 p (tree_root sum_hasher t) = Inr ()"
proof -
  obtain t where t: "tree_insert sum_hasher KeepWitness 5 builder_new = Inr t" "tree_ok t"
    "b_index t = [(5, within_tree_of_u64 0)]"
    by (rule one_commitment)
  have "tree_position_of 5 t = Some (within_tree_of_u64 0)"
    using t(3) by (simp add: tree_position_of_def)
  from tree_witness_exact [OF t(2) this, of sum_hasher] show ?thesis
    using t(1) one_commitment_leaf [OF t(1), of 0 True]
    by (auto simp: index_zero sum_hasher_def hash_of_def)
qed

theorem tree_insert_keep_witness:
  "\<exists>t. tree_insert sum_hasher KeepWitness 5 builder_new = Inr t \<and>
     kept_top 24 (b_inner t) 0 = Some 22 \<and> tree_position_of 5 t = Some (within_tree_of_u64 0)"
proof -
  obtain t where t: "tree_insert sum_hasher KeepWitness 5 builder_new = Inr t"
    by (rule one_commitment)
  from tree_insert_keep [OF tree_ok_new _ t] show ?thesis
    using t by (auto simp: builder_new_def tree_position_of_def sum_hasher_def hash_of_def)
qed

text \<open>
  Two commitments are inserted and the second is forgotten; its recorded position is 4, where there is no leaf, so
  that a build with debug assertions panics.  The first one keeps its proof.
\<close>

lemma two_commitments:
  obtains t u where "tree_insert sum_hasher KeepWitness 5 builder_new = Inr t" and "tree_insert sum_hasher KeepWitness 6 t = Inr u"
    and "tree_ok u" and "tree_position_of 5 u = Some (within_tree_of_u64 0)" and "tree_position_of 6 u = Some (within_tree_of_u64 4)"
    and "kept_top 24 (b_inner u) 0 = Some 22" and "kept_top 24 (b_inner u) 4 = None"
proof -
  obtain t where t: "tree_insert sum_hasher KeepWitness 5 builder_new = Inr t" "tree_ok t" "b_index t = [(5, within_tree_of_u64 0)]"
    "b_inner t = Some (new_f (nested epoch_ty) (tier_new block_ty (tier_new TItem (item_of_commitment sum_hasher 5))))"
    by (rule one_commitment)
  have pos: "tree_position_of 5 t = Some (within_tree_of_u64 0)" "tree_position_of 6 t = None"
    using t(3) by (simp_all add: tree_position_of_def)
  obtain u where u: "tree_insert sum_hasher KeepWitness 6 t = Inr u"
    using tree_insert_accepts [OF t(2,4), of "new_f (nested block_ty) (tier_new TItem (item_of_commitment sum_hasher 5))"
        "new_f (nested TItem) (item_of_commitment sum_hasher 5)" sum_hasher KeepWitness 6]
      new_nested_not_full by (auto simp: tier_new_def)
  have ok: "tree_ok u" using tree_insert_refines [OF t(2), of sum_hasher KeepWitness 6] u
    by (simp add: tree_refines_def tree_ok_def)
  have n: "top_next 24 (b_inner t) = Some 1" by (simp add: t(4) tier_new_def nested_def item_of_commitment_def)
  from tree_insert_leaf [OF t(2) pos(2) u] n one_commitment_leaf [OF t(1)]
  have "tree_position_of 6 u = Some (within_tree_of_u64 4)" "kept_top 24 (b_inner u) 0 = Some 22" "kept_top 24 (b_inner u) 4 = None"
    by auto
  moreover have "tree_position_of 5 u = tree_position_of 5 t"
    using u pos(2) by (auto simp: tree_insert_def remember_def tree_position_of_def result_simps update_conv')
  ultimately show thesis using that [OF t(1) u ok] pos(1) by simp
qed

theorem tree_forget_exact_witness:
  "\<exists>t u u' p m. tree_insert sum_hasher KeepWitness 5 builder_new = Inr t \<and> tree_insert sum_hasher KeepWitness 6 t = Inr u \<and>
     tree_forget sum_hasher 6 u = Inr (u', True) \<and> tree_root sum_hasher u' = tree_root sum_hasher u \<and>
     tree_witness sum_hasher 5 u' = Inr (Some p) \<and> proof_verify sum_hasher 24 p (tree_root sum_hasher u) = Inr () \<and>
     tree_forget_debug sum_hasher 6 u = Inl (Panic m)"
proof -
  obtain t u where u: "tree_insert sum_hasher KeepWitness 5 builder_new = Inr t" "tree_insert sum_hasher KeepWitness 6 t = Inr u"
    "tree_ok u" "tree_position_of 5 u = Some (within_tree_of_u64 0)" "tree_position_of 6 u = Some (within_tree_of_u64 4)"
    "kept_top 24 (b_inner u) 0 = Some 22" "kept_top 24 (b_inner u) 4 = None"
    by (rule two_commitments)
  have four: "unat (u64_of_within_tree (within_tree_of_u64 4)) = 4"
    by (simp add: within_tree_of_u64_inverse unsigned_take_bit_eq take_bit_nat_eq_self)
  have ne: "within_tree_of_u64 4 \<noteq> within_tree_of_u64 0"
  proof
    assume "within_tree_of_u64 4 = within_tree_of_u64 0"
    then have "unat (u64_of_within_tree (within_tree_of_u64 0)) = 4" using four by (simp only:)
    then show False by (simp add: index_zero)
  qed
  have h: "hash_of sum_hasher 5 = 22" by (simp add: sum_hasher_def hash_of_def)
  from tree_forget_exact [OF u(3), of sum_hasher 6] obtain u' where
    f: "tree_forget sum_hasher 6 u = Inr (u', True)" "tree_root sum_hasher u' = tree_root sum_hasher u"
      "tree_forget_debug sum_hasher 6 u = Inl (Panic ''assertion failed: forgotten'')"
    and w: "\<forall>d pos. d \<noteq> 6 \<and> tree_position_of d u = Some pos \<and> tree_position_of 6 u \<noteq> Some pos
         \<and> kept_top 24 (b_inner u) (unat (u64_of_within_tree pos)) = Some (hash_of sum_hasher d) \<longrightarrow>
         (\<exists>p. tree_witness sum_hasher d u' = Inr (Some p) \<and> proof_verify sum_hasher 24 p (tree_root sum_hasher u) = Inr ())"
    by (auto simp: u(5,7) four)
  have "\<exists>p. tree_witness sum_hasher 5 u' = Inr (Some p) \<and> proof_verify sum_hasher 24 p (tree_root sum_hasher u) = Inr ()"
    by (rule mp [OF spec [OF spec [OF w, of 5], of "within_tree_of_u64 0"]]) (use u ne h in \<open>simp add: index_zero\<close>)
  with u(1,2) f show ?thesis by blast
qed

theorem tree_second_witness_panics_witness:
  "\<exists>t p u m. tree_insert sum_hasher KeepWitness 5 builder_new = Inr t \<and>
     tree_witness sum_hasher 5 t = Inr (Some p) \<and>
     proof_verify sum_hasher 24 p (tree_root sum_hasher t) = Inr () \<and>
     tree_insert sum_hasher KeepWitness 6 t = Inr u \<and> tree_witness sum_hasher 6 u = Inl (Panic m)"
  by (rule tree_second_witness_panics) simp

theorem tree_insert_after_end_witness:
  "\<exists>t t' m. tree_insert sum_hasher KeepWitness 5 builder_new = Inr t \<and>
     tree_end_block sum_hasher t = Inr t' \<and> tree_insert sum_hasher KeepWitness 6 t' = Inl (Err m)"
proof -
  obtain t where t: "tree_insert sum_hasher KeepWitness 5 builder_new = Inr t" "tree_ok t"
    "b_inner t = Some (new_f (nested epoch_ty)
      (tier_new block_ty (tier_new TItem (item_of_commitment sum_hasher 5))))"
    by (rule one_commitment)
  have "\<exists>t'. tree_end_block sum_hasher t = Inr t'"
    using t(3) by (simp add: tree_end_block_def update_f_eq tier_new_def tier_finalize_def)
  then obtain t' where t': "tree_end_block sum_hasher t = Inr t'" by blast
  then show ?thesis
    using t(1) tree_insert_after_end [OF t(2), of sum_hasher t' KeepWitness 6] by auto
qed

text \<open>A block with 16385 commitments, none of them kept but the last.\<close>

definition large_block :: block_builder where
  "large_block = \<lparr>b_index = [], b_inner = Some (FNode (Three1 (Hash 1))
     (new_f (TNode (TNode (TNode (TNode (TNode (TNode (TNode (TLeaf TItem))))))))
        (item_of_commitment sum_hasher 5)))\<rparr>"

theorem block_builder_insert_outcome_witness:
  "\<exists>m. block_builder_insert sum_hasher KeepWitness 6 large_block = Inl (Panic m)"
  using block_builder_insert_outcome [of large_block sum_hasher KeepWitness 6]
  by (simp add: large_block_def nested_def item_of_commitment_def)

theorem insert_block_equals_inserts_witness:
  "\<exists>b t t1 t2. block_builder_insert sum_hasher KeepWitness 5 builder_new = Inr b \<and>
     tree_insert sum_hasher KeepWitness 5 builder_new = Inr t \<and> tree_end_block sum_hasher t = Inr t1 \<and>
     tree_insert_block sum_hasher (fst (block_builder_finalize sum_hasher b)) builder_new = Inr t2 \<and>
     tree_root sum_hasher t1 = tree_root sum_hasher t2"
proof -
  obtain b where b: "block_builder_insert sum_hasher KeepWitness 5 builder_new = Inr b"
    by (rule block_builder_insert_step [of builder_new sum_hasher KeepWitness 5])
      (simp_all add: builder_new_def)
  then have "foldR (\<lambda>(w, c). block_builder_insert sum_hasher w c) [(KeepWitness, 5)] builder_new = Inr b"
    by simp
  from insert_block_equals_inserts [OF this] b show ?thesis
    by (auto simp: result_simps)
qed

end
