(* ===== verification/Tx_Builder.thy ===== *)
theory Tx_Builder
  imports Tx
begin

text \<open>
  Building transactions: \<open>Output::new\<close> and \<open>spend::Body::new\<close> (\<open>transaction/src/action\<close>) and the builder
  (\<open>transaction/src/transaction/builder.rs\<close>).  The methods that draw random numbers take and return the
  state of the generator.
\<close>

section \<open>Outputs and spends\<close>

definition output_new ::
  "crypto \<Rightarrow> rng \<Rightarrow> note_t \<Rightarrow> bytes \<Rightarrow> address \<Rightarrow> bytes \<Rightarrow> fr \<Rightarrow> (tx_output \<times> rng) result" where
  "output_new C g n memo dest ovk v_blinding =
     (let (esk, g) = rand_fr C g;
          g_d = note_diversified_generator C n;
          cv = el_neg C (value_commit C (nt_value n) v_blinding);
          cm = note_commit C n;
          ephemeral_key = diversified_public C esk g_d in
      bindR (note_encrypt C n esk) (\<lambda>encrypted_note.
      bindR (memo_encrypt C memo esk dest) (\<lambda>encrypted_memo.
      bindR (note_encrypt_key C n esk ovk cv) (\<lambda>ovk_wrapped_key.
      Inr (\<lparr>out_body = \<lparr>ob_note_commitment = cm, ob_ephemeral_key = ephemeral_key, ob_encrypted_note = encrypted_note\<rparr>,
            out_value_commitment = cv, out_encrypted_memo = encrypted_memo, out_ovk_wrapped_key = ovk_wrapped_key,
            out_proof = \<lparr>opf_g_d = g_d, opf_pk_d = nt_transmission_key n, opf_value = nt_value n,
              opf_v_blinding = v_blinding, opf_note_blinding = nt_note_blinding n, opf_esk = esk\<rparr>\<rparr>, g)))))"

definition spend_body_new ::
  "crypto \<Rightarrow> value_commitment \<Rightarrow> signing_key \<Rightarrow> fr \<Rightarrow> u64 \<times> note_commitment list \<Rightarrow> note_t \<Rightarrow> fr \<Rightarrow> nullifier_key \<Rightarrow> spend_body" where
  "spend_body_new C cv ask randomizer merkle_path n v_blinding nk =
     (let rk = vk_spend_auth C (sk_randomize C ask randomizer);
          cm = note_commit C n;
          position = fst merkle_path
      in \<lparr>sb_value_commitment = cv, sb_nullifier = derive_nullifier C nk position cm, sb_rk = rk,
          sb_proof = \<lparr>spf_merkle_path = merkle_path, spf_position = position,
            spf_g_d = note_diversified_generator C n, spf_pk_d = nt_transmission_key n, spf_value = nt_value n,
            spf_v_blinding = v_blinding, spf_note_commitment = cm, spf_note_blinding = nt_note_blinding n,
            spf_spend_auth_randomizer = randomizer, spf_ak = vk_spend_auth C ask, spf_nk = nk\<rparr>\<rparr>)"

section \<open>The builder\<close>

record tx_builder =
  bd_spends :: "(signing_key \<times> spend_body) list"
  bd_outputs :: "tx_output list"
  bd_delegations :: "delegate list"
  bd_undelegations :: "undelegate list"
  bd_validator_definitions :: "definition_pb list"
  bd_fee :: "u64 option"
  bd_synthetic_blinding_factor :: fr
  bd_value_commitments :: element
  bd_value_balance :: element
  bd_merkle_root :: merkle_root
  bd_expiry_height :: "u32 option"
  bd_chain_id :: "string option"

definition build_with_root :: "crypto \<Rightarrow> merkle_root \<Rightarrow> tx_builder" where
  "build_with_root C root =
     \<lparr>bd_spends = [], bd_outputs = [], bd_delegations = [], bd_undelegations = [], bd_validator_definitions = [],
      bd_fee = None, bd_synthetic_blinding_factor = fr_zero C, bd_value_commitments = el_zero C,
      bd_value_balance = el_zero C, bd_merkle_root = root, bd_expiry_height = None, bd_chain_id = None\<rparr>"

text \<open>The contribution of an amount of an asset to the value balance.\<close>

definition value_term :: "crypto \<Rightarrow> typed_value \<Rightarrow> element" where
  "value_term C v = el_mul C (fr_of_u64 C (val_amount v)) (value_generator C (val_asset_id v))"

definition add_spend :: "crypto \<Rightarrow> rng \<Rightarrow> nct \<Rightarrow> spend_key \<Rightarrow> note_t \<Rightarrow> tx_builder \<Rightarrow> (tx_builder \<times> rng) result" where
  "add_spend C g t sk n b =
     bindR (ok_or (Err ''Note commitment tree cannot construct an auth path for note commitment'')
              (nct_auth_path C t (note_commit C n))) (\<lambda>merkle_path.
     let (v_blinding, g) = rand_fr C g;
         cv = value_commit C (nt_value n) v_blinding;
         (randomizer, g) = rand_fr C g;
         rsk = sk_randomize C (sk_ask sk) randomizer;
         body = spend_body_new C cv (sk_ask sk) randomizer merkle_path n v_blinding (fvk_nk (sk_fvk sk))
     in Inr (b\<lparr>bd_synthetic_blinding_factor := fr_add C (bd_synthetic_blinding_factor b) v_blinding,
               bd_value_balance := el_add C (bd_value_balance b) (value_term C (nt_value n)),
               bd_value_commitments := el_add C (bd_value_commitments b) cv,
               bd_spends := bd_spends b @ [(rsk, body)]\<rparr>, g))"

definition add_output_producing_note ::
  "crypto \<Rightarrow> rng \<Rightarrow> address \<Rightarrow> typed_value \<Rightarrow> bytes \<Rightarrow> bytes \<Rightarrow> tx_builder \<Rightarrow> (note_t \<times> tx_builder \<times> rng) result" where
  "add_output_producing_note C g dest v memo ovk b =
     bindR (note_generate C g dest v) (\<lambda>(n, g).
     let (v_blinding, g) = rand_fr C g in
     bindR (output_new C g n memo dest ovk v_blinding) (\<lambda>(out, g).
     Inr (n, b\<lparr>bd_synthetic_blinding_factor := fr_sub C (bd_synthetic_blinding_factor b) v_blinding,
               bd_value_balance := el_sub C (bd_value_balance b) (value_term C (nt_value n)),
               bd_value_commitments := el_add C (bd_value_commitments b) (out_value_commitment out),
               bd_outputs := bd_outputs b @ [out]\<rparr>, g)))"

definition add_output ::
  "crypto \<Rightarrow> rng \<Rightarrow> address \<Rightarrow> typed_value \<Rightarrow> bytes \<Rightarrow> bytes \<Rightarrow> tx_builder \<Rightarrow> (tx_builder \<times> rng) result" where
  "add_output C g dest v memo ovk b =
     bindR (add_output_producing_note C g dest v memo ovk b) (\<lambda>(_, b, g). Inr (b, g))"

definition add_delegation :: "crypto \<Rightarrow> delegate \<Rightarrow> tx_builder \<Rightarrow> tx_builder result" where
  "add_delegation C d b =
     bindR (delegate_value_commitment C d) (\<lambda>cv.
     Inr (b\<lparr>bd_value_balance := el_add C (bd_value_balance b) cv,
            bd_value_commitments := el_add C (bd_value_commitments b) cv,
            bd_delegations := bd_delegations b @ [d]\<rparr>))"

definition add_undelegation :: "crypto \<Rightarrow> undelegate \<Rightarrow> tx_builder \<Rightarrow> tx_builder result" where
  "add_undelegation C u b =
     bindR (undelegate_value_commitment C u) (\<lambda>cv.
     Inr (b\<lparr>bd_value_balance := el_add C (bd_value_balance b) cv,
            bd_value_commitments := el_add C (bd_value_commitments b) cv,
            bd_undelegations := bd_undelegations b @ [u]\<rparr>))"

definition add_validator_definition :: "definition_pb \<Rightarrow> tx_builder \<Rightarrow> tx_builder" where
  "add_validator_definition vd b = b\<lparr>bd_validator_definitions := bd_validator_definitions b @ [vd]\<rparr>"

definition set_fee :: "crypto \<Rightarrow> u64 \<Rightarrow> tx_builder \<Rightarrow> tx_builder" where
  "set_fee C fee b =
     (let cv = value_commit C \<lparr>val_amount = fee, val_asset_id = staking_token_asset_id C\<rparr> (fr_zero C)
      in b\<lparr>bd_value_balance := el_sub C (bd_value_balance b) cv,
           bd_value_commitments := el_sub C (bd_value_commitments b) cv,
           bd_fee := Some fee\<rparr>)"

definition set_expiry_height :: "u32 \<Rightarrow> tx_builder \<Rightarrow> tx_builder" where
  "set_expiry_height h b = b\<lparr>bd_expiry_height := Some h\<rparr>"

definition set_chain_id :: "string \<Rightarrow> tx_builder \<Rightarrow> tx_builder" where
  "set_chain_id c b = b\<lparr>bd_chain_id := Some c\<rparr>"

definition compute_binding_sig :: "crypto \<Rightarrow> rng \<Rightarrow> bytes \<Rightarrow> tx_builder \<Rightarrow> (signature \<times> rng) result" where
  "compute_binding_sig C g hash b =
     (let binding_verification_key_raw = el_compress C (el_mul C (bd_synthetic_blinding_factor b) (VALUE_BLINDING_GENERATOR C));
          computed_verification_key = el_compress C (bd_value_commitments b) in
      bindR (ensure (Panic ''assertion failed: binding verification key'')
               (binding_verification_key_raw = computed_verification_key)) (\<lambda>_.
      Inr (sign_binding C (bd_synthetic_blinding_factor b) hash g)))"

text \<open>The client-side check of the signature of a validator definition.\<close>

definition check_definition_signed :: "ext \<Rightarrow> definition_pb \<Rightarrow> unit result" where
  "check_definition_signed X vd =
     bindR (ok_or (Panic ''called `Option::unwrap()` on a `None` value'') (dpb_validator vd)) (\<lambda>v.
     bindR (ok_or (Panic ''called `Option::unwrap()` on a `None` value'') (vpb_identity_key v)) (\<lambda>ikb.
     bindR (ok_or (Panic ''MalformedVerificationKey'') (vk_parse (x_crypto X) ikb)) (\<lambda>ik.
     bindR (unwrapR (x_sig X (dpb_auth_sig vd))) (\<lambda>auth_sig.
     ensure (Panic ''expected identity key within validator definition to have signed validator definition'')
       (verify_spend_auth (x_crypto X) ik (x_encode_validator X v) auth_sig)))))"

text \<open>
  The loop that signs the spends: entry \<open>i\<close> of the actions must be a spend, which it is as the spends
  come first.
\<close>

fun sign_spends :: "crypto \<Rightarrow> bytes \<Rightarrow> (signing_key \<times> spend_body) list \<Rightarrow> action list \<Rightarrow> rng \<Rightarrow> (action list \<times> rng) result" where
  "sign_spends C hash [] as g = Inr (as, g)"
| "sign_spends C hash ((rsk, _) # sps) as g =
     (case as of
        Spend sp # rest \<Rightarrow>
          (let (z, g) = sign_spend_auth C rsk hash g in
           bindR (sign_spends C hash sps rest g) (\<lambda>(rest, g).
           Inr (Spend (sp\<lparr>sp_auth_sig := z\<rparr>) # rest, g)))
      | _ \<Rightarrow> Inl (Panic ''spends come first in actions list''))"

text \<open>The actions in their order, the spends with blank signatures.\<close>

definition unsigned_actions ::
  "(signing_key \<times> spend_body) list \<Rightarrow> tx_output list \<Rightarrow> delegate list \<Rightarrow> undelegate list \<Rightarrow> definition_pb list \<Rightarrow> action list" where
  "unsigned_actions spends outputs dels undels defs =
     map (\<lambda>(_, body). Spend \<lparr>sp_body = body, sp_auth_sig = replicate 64 0\<rparr>) spends
     @ map Output outputs @ map Delegate dels @ map Undelegate undels @ map ValidatorDefinition defs"

definition builder_finalize :: "ext \<Rightarrow> rng \<Rightarrow> tx_builder \<Rightarrow> (transaction \<times> tx_builder \<times> rng) result" where
  "builder_finalize X g b =
     (let C = x_crypto X in
      case bd_chain_id b of None \<Rightarrow> Inl (Err ''NoChainID'')
      | Some cid \<Rightarrow>
        (case bd_fee b of None \<Rightarrow> Inl (Err ''FeeNotSet'')
         | Some fee \<Rightarrow>
           if bd_value_balance b \<noteq> el_zero C then Inl (Err ''NonZeroValueBalance'')
           else
             (let (spends, g) = shuffle C (bd_spends b) g;
                  (outputs, g) = shuffle C (bd_outputs b) g;
                  (dels, g) = shuffle C (bd_delegations b) g;
                  (undels, g) = shuffle C (bd_undelegations b) g;
                  (defs, g) = shuffle C (bd_validator_definitions b) g in
              bindR (foldR (\<lambda>vd _. check_definition_signed X vd) defs ()) (\<lambda>_.
              let body = \<lparr>tb_actions = unsigned_actions spends outputs dels undels defs,
                    tb_merkle_root = bd_merkle_root b,
                    tb_expiry_height = (case bd_expiry_height b of Some h \<Rightarrow> h | None \<Rightarrow> 0),
                    tb_chain_id = cid, tb_fee = fee\<rparr>;
                  hash = sighash X body in
              bindR (sign_spends C hash spends (tb_actions body) g) (\<lambda>(signed_actions, g).
              bindR (compute_binding_sig C g hash b) (\<lambda>(binding_sig, g).
              Inr (\<lparr>tx_body = body\<lparr>tb_actions := signed_actions\<rparr>, tx_binding_sig = binding_sig\<rparr>,
                   b\<lparr>bd_spends := spends, bd_outputs := [], bd_delegations := [], bd_undelegations := [],
                     bd_validator_definitions := defs, bd_fee := None, bd_chain_id := None\<rparr>, g)))))))"

end
