(* ===== verification/Builder_Sound.thy ===== *)
theory Builder_Sound
  imports Tx_Builder Shielded_Pool
begin

text \<open>
  What the transaction builder produces is what the shielded pool accepts.  \<open>built\<close> is the relation of
  the builders that the builder's methods can make; rule induction shows for each of them that the
  value commitments are those of the actions, that the proofs verify and that the value balance is the
  net of the values put in.  A balanced builder then finalizes to a transaction that passes the
  stateless check of the shielded pool.
\<close>

section \<open>Sums of group elements\<close>

definition el_sum :: "crypto \<Rightarrow> element list \<Rightarrow> element" where
  "el_sum C xs = foldr (el_add C) xs (el_zero C)"

lemma el_sum_simps [simp]: "el_sum C [] = el_zero C" "el_sum C (x # xs) = el_add C x (el_sum C xs)"
  by (simp_all add: el_sum_def)

lemma el_sum_append: "group_ok C \<Longrightarrow> el_sum C (xs @ ys) = el_add C (el_sum C xs) (el_sum C ys)"
  by (induction xs) (simp_all add: el_zero_left el_add_assoc)

lemma el_sum_filter:
  assumes "group_ok C"
  shows "el_sum C (map f xs) = el_add C (el_sum C (map f (filter P xs))) (el_sum C (map f (filter (\<lambda>x. \<not> P x) xs)))"
  using assms by (induction xs) (simp_all add: el_zero_left el_add_assoc el_add_left_commute)

lemma el_sum_mset:
  assumes "group_ok C" and "mset xs = mset ys"
  shows "el_sum C xs = el_sum C ys"
proof -
  have "fold (el_add C) (rev xs) = fold (el_add C) (rev ys)"
    by (rule fold_multiset_equiv) (use assms(2) el_add_left_commute [OF assms(1)] in auto)
  then show ?thesis by (simp add: el_sum_def foldr_conv_fold)
qed

lemma value_commit_term:
  assumes "group_ok C"
  shows "value_commit C v r = el_add C (value_term C v) (el_mul C r (VALUE_BLINDING_GENERATOR C))"
    and "value_commit C v (fr_zero C) = value_term C v"
  by (simp_all add: value_commit_def value_term_def el_mul_zero [OF assms] el_zero_right [OF assms])

section \<open>The commitments of the actions\<close>

definition action_cv :: "crypto \<Rightarrow> action \<Rightarrow> element" where
  "action_cv C a = (case action_value_commitment C a of Inr c \<Rightarrow> c | Inl _ \<Rightarrow> el_zero C)"

definition fee_cv :: "crypto \<Rightarrow> u64 \<Rightarrow> element" where
  "fee_cv C fee = value_commit C \<lparr>val_amount = fee, val_asset_id = staking_token_asset_id C\<rparr> (fr_zero C)"

lemma action_value_commitment_total: "action_value_commitment C a = Inr (action_cv C a)"
  by (cases a) (simp_all add: action_cv_def action_value_commitment_def delegate_value_commitment_def
      undelegate_value_commitment_def Let_def delegation_asset_id_eq)

lemma binding_verification_key_sum:
  assumes "group_ok C" and "\<And>e. vk_parse C (el_compress C e) = Some (el_compress C e)"
  shows "binding_verification_key C tx
    = Inr (el_compress C (el_sub C (el_sum C (map (action_cv C) (actions tx))) (fee_cv C (tb_fee (tx_body tx)))))"
proof -
  have "foldR (\<lambda>a sum. bindR (action_value_commitment C a) (\<lambda>c. Inr (el_add C sum c))) as z
      = Inr (el_add C z (el_sum C (map (action_cv C) as)))" for "as" z
    by (induction "as" arbitrary: z)
       (simp_all add: action_value_commitment_total el_zero_right [OF assms(1)] el_add_assoc [OF assms(1)])
  then show ?thesis
    by (simp add: binding_verification_key_def Let_def assms(2) fee_cv_def el_zero_left [OF assms(1)])
qed

section \<open>The values put in\<close>

text \<open>The values that a builder adds to (\<open>True\<close>) and takes from (\<open>False\<close>) its balance.\<close>

definition delegation_terms :: "crypto \<Rightarrow> delegate \<Rightarrow> (bool \<times> typed_value) list" where
  "delegation_terms C d =
     [(True, \<lparr>val_amount = d_delegation_amount d, val_asset_id = denom_id C (''udelegation_'' @ d_validator_identity d)\<rparr>),
      (False, \<lparr>val_amount = d_unbonded_amount d, val_asset_id = staking_token_asset_id C\<rparr>)]"

definition undelegation_terms :: "crypto \<Rightarrow> undelegate \<Rightarrow> (bool \<times> typed_value) list" where
  "undelegation_terms C u =
     [(True, \<lparr>val_amount = u_unbonded_amount u, val_asset_id = staking_token_asset_id C\<rparr>),
      (False, \<lparr>val_amount = u_delegation_amount u, val_asset_id = denom_id C (''udelegation_'' @ u_validator_identity u)\<rparr>)]"

definition builder_terms :: "crypto \<Rightarrow> tx_builder \<Rightarrow> (bool \<times> typed_value) list" where
  "builder_terms C b =
     map (\<lambda>(_, body). (True, spf_value (sb_proof body))) (bd_spends b)
     @ map (\<lambda>out. (False, opf_value (out_proof out))) (bd_outputs b)
     @ concat (map (delegation_terms C) (bd_delegations b)) @ concat (map (undelegation_terms C) (bd_undelegations b))
     @ (case bd_fee b of None \<Rightarrow> [] | Some fee \<Rightarrow> [(False, \<lparr>val_amount = fee, val_asset_id = staking_token_asset_id C\<rparr>)])"

text \<open>The net amount of an asset.\<close>

definition net :: "asset_id \<Rightarrow> (bool \<times> typed_value) list \<Rightarrow> int" where
  "net i ts = (\<Sum>(s, v) \<leftarrow> ts. if val_asset_id v = i then (if s then 1 else - 1) * int (unat (val_amount v)) else 0)"

definition signed_term :: "crypto \<Rightarrow> bool \<times> typed_value \<Rightarrow> element" where
  "signed_term C = (\<lambda>(s, v). if s then value_term C v else el_neg C (value_term C v))"

section \<open>The invariant\<close>

definition spend_built :: "crypto \<Rightarrow> merkle_root \<Rightarrow> signing_key \<times> spend_body \<Rightarrow> bool" where
  "spend_built C root = (\<lambda>(rsk, body). vk_spend_auth C rsk = sb_rk body
     \<and> spend_proof_verify C (sb_proof body) root (sb_value_commitment body) (sb_nullifier body) (sb_rk body) = Inr ())"

definition output_built :: "crypto \<Rightarrow> tx_output \<Rightarrow> bool" where
  "output_built C out \<longleftrightarrow> output_proof_verify C (out_proof out) (out_value_commitment out)
     (ob_note_commitment (out_body out)) (ob_ephemeral_key (out_body out)) = Inr ()"

definition builder_actions :: "tx_builder \<Rightarrow> action list" where
  "builder_actions b =
     unsigned_actions (bd_spends b) (bd_outputs b) (bd_delegations b) (bd_undelegations b) (bd_validator_definitions b)"

definition terms_sum :: "crypto \<Rightarrow> tx_builder \<Rightarrow> element" where
  "terms_sum C b = el_sum C (map (signed_term C) (builder_terms C b))"

definition commitments_sum :: "crypto \<Rightarrow> tx_builder \<Rightarrow> element" where
  "commitments_sum C b = el_add C (el_sum C (map (action_cv C) (builder_actions b)))
     (case bd_fee b of None \<Rightarrow> el_zero C | Some fee \<Rightarrow> el_neg C (fee_cv C fee))"

definition builder_ok :: "crypto \<Rightarrow> merkle_root \<Rightarrow> tx_builder \<Rightarrow> bool" where
  "builder_ok C root b \<longleftrightarrow>
     bd_merkle_root b = root
     \<and> bd_value_balance b = terms_sum C b
     \<and> bd_value_commitments b = el_add C (bd_value_balance b)
         (el_mul C (bd_synthetic_blinding_factor b) (VALUE_BLINDING_GENERATOR C))
     \<and> bd_value_commitments b = commitments_sum C b
     \<and> list_all (spend_built C root) (bd_spends b) \<and> list_all (output_built C) (bd_outputs b)"

lemma builder_ok_new: "group_ok C \<Longrightarrow> builder_ok C root (build_with_root C root)"
  by (simp add: builder_ok_def build_with_root_def builder_terms_def builder_actions_def unsigned_actions_def
      terms_sum_def commitments_sum_def el_mul_zero el_zero_left)

text \<open>Rewriting a sum in a group into a normal form.\<close>

lemmas el_ac = el_add_assoc el_add_commute el_add_left_commute

text \<open>A method that adds \<open>e\<close> to the balance and the scalar of \<open>f\<close> to the blinding factor.\<close>

lemma builder_ok_step:
  assumes ok: "builder_ok C root b" and g: "group_ok C" and root: "bd_merkle_root b' = bd_merkle_root b"
    and "bd_value_balance b' = el_add C e (bd_value_balance b)" "terms_sum C b' = el_add C e (terms_sum C b)"
    and "el_mul C (bd_synthetic_blinding_factor b') (VALUE_BLINDING_GENERATOR C)
      = el_add C f (el_mul C (bd_synthetic_blinding_factor b) (VALUE_BLINDING_GENERATOR C))"
    and "bd_value_commitments b' = el_add C e (el_add C f (bd_value_commitments b))"
      "commitments_sum C b' = el_add C e (el_add C f (commitments_sum C b))"
    and "list_all (spend_built C root) (bd_spends b')" "list_all (output_built C) (bd_outputs b')"
  shows "builder_ok C root b'"
proof -
  have "bd_value_commitments b' = el_add C (bd_value_balance b')
      (el_mul C (bd_synthetic_blinding_factor b') (VALUE_BLINDING_GENERATOR C))"
    using ok assms(4,6,7) by (simp add: builder_ok_def el_ac [OF g])
  moreover have "bd_value_commitments b' = commitments_sum C b'"
    using ok assms(7,8) unfolding builder_ok_def by metis
  ultimately show ?thesis using assms unfolding builder_ok_def by metis
qed

lemmas builder_sums = terms_sum_def commitments_sum_def builder_terms_def builder_actions_def unsigned_actions_def
  signed_term_def action_cv_def action_value_commitment_def

text \<open>The note belongs to the spend key, and neither of the two points is the identity.\<close>

definition spendable :: "crypto \<Rightarrow> spend_key \<Rightarrow> note_t \<Rightarrow> bool" where
  "spendable C sk n \<longleftrightarrow> note_ok C n
     \<and> fvk_from_components C (vk_spend_auth C (sk_ask sk)) (fvk_nk (sk_fvk sk)) = Inr (sk_fvk sk)
     \<and> nt_transmission_key n = diversified_public C (ivk_secret (fvk_ivk (sk_fvk sk))) (note_diversified_generator C n)
     \<and> note_diversified_generator C n \<noteq> el_zero C \<and> \<not> vk_is_identity C (vk_spend_auth C (sk_ask sk))"

lemma spend_body_new_verifies:
  assumes "spendable C sk n" and "nct_ok C" and "nct_auth_path C t (note_commit C n) = Some merkle_path"
    and "\<And>k r. vk_spend_auth C (sk_randomize C k r) = vk_randomize C (vk_spend_auth C k) r"
  shows "spend_built C (nct_root C t)
    (sk_randomize C (sk_ask sk) r, spend_body_new C (value_commit C (nt_value n) vb) (sk_ask sk) r merkle_path n vb (fvk_nk (sk_fvk sk)))"
proof -
  have "length (snd merkle_path) = 32 \<and> merkle_path_root C (fst merkle_path) 0 (note_commit C n) (snd merkle_path) = nct_root C t"
    using assms(2,3) unfolding nct_ok_def MERKLE_DEPTH_def by (metis prod.collapse)
  then show ?thesis
    using assms(1,4) unfolding spend_built_def spend_body_new_def Let_def prod.case spend_proof_verify_iff
    by (auto simp: spendable_def note_ok_def note_commit_def)
qed

lemma output_new_verifies:
  assumes "output_new C g n memo dest ovk vb = Inr (out, g')" and "note_ok C n"
    and "note_diversified_generator C n \<noteq> el_zero C"
  shows "output_built C out \<and> out_value_commitment out = el_neg C (value_commit C (nt_value n) vb)
    \<and> opf_value (out_proof out) = nt_value n"
  using assms unfolding output_built_def output_proof_verify_iff
  by (auto simp: output_new_def Let_def result_simps note_ok_def note_commit_def split: prod.splits)

lemma builder_ok_spend:
  assumes ok: "builder_ok C (nct_root C t) b" and g: "group_ok C" and nct: "nct_ok C"
    and rdsa: "rdsa_ok C (VALUE_BLINDING_GENERATOR C)" and sp: "spendable C sk n"
    and b': "add_spend C rg t sk n b = Inr (b', rg')"
  shows "builder_ok C (nct_root C t) b'"
proof -
  have vk: "vk_spend_auth C (sk_randomize C k r) = vk_randomize C (vk_spend_auth C k) r" for k r
    using rdsa by (simp add: rdsa_ok_def)
  from b' obtain path vb r where path: "nct_auth_path C t (note_commit C n) = Some path"
    and b'_eq: "b' = b\<lparr>bd_synthetic_blinding_factor := fr_add C (bd_synthetic_blinding_factor b) vb,
       bd_value_balance := el_add C (bd_value_balance b) (value_term C (nt_value n)),
       bd_value_commitments := el_add C (bd_value_commitments b) (value_commit C (nt_value n) vb),
       bd_spends := bd_spends b @ [(sk_randomize C (sk_ask sk) r, spend_body_new C (value_commit C (nt_value n) vb)
         (sk_ask sk) r path n vb (fvk_nk (sk_fvk sk)))]\<rparr>"
    by (auto simp: add_spend_def Let_def result_simps case_prod_beta)
  let ?body = "spend_body_new C (value_commit C (nt_value n) vb) (sk_ask sk) r path n vb (fvk_nk (sk_fvk sk))"
  have "spf_value (sb_proof ?body) = nt_value n" "sb_value_commitment ?body = value_commit C (nt_value n) vb"
    by (simp_all add: spend_body_new_def Let_def)
  with spend_body_new_verifies [OF sp nct path vk, of r vb] ok show ?thesis
    by (intro builder_ok_step [OF ok g, where e = "value_term C (nt_value n)" and f = "el_mul C vb (VALUE_BLINDING_GENERATOR C)"])
       (simp_all add: builder_ok_def b'_eq builder_sums el_sum_append [OF g] el_mul_add [OF g] value_commit_term(1) [OF g]
        el_zero_right [OF g] el_ac [OF g])
qed

lemma builder_ok_output:
  assumes ok: "builder_ok C root b" and g: "group_ok C" and ad: "address_ok C dest" "ad_g_d dest \<noteq> el_zero C"
    and b': "add_output_producing_note C rg dest v memo ovk b = Inr (n, b', rg')"
  shows "builder_ok C root b'"
proof -
  from b' obtain rg1 vb out where n: "note_generate C rg dest v = Inr (n, rg1)"
    and out: "output_new C (snd (rand_fr C rg1)) n memo dest ovk vb = Inr (out, rg')"
    and b'_eq: "b' = b\<lparr>bd_synthetic_blinding_factor := fr_sub C (bd_synthetic_blinding_factor b) vb,
       bd_value_balance := el_sub C (bd_value_balance b) (value_term C (nt_value n)),
       bd_value_commitments := el_add C (bd_value_commitments b) (out_value_commitment out),
       bd_outputs := bd_outputs b @ [out]\<rparr>"
    by (auto simp: add_output_producing_note_def Let_def result_simps case_prod_beta)
  have "note_diversified_generator C n \<noteq> el_zero C"
    using note_generate_Inr [OF n] ad by (simp add: note_diversified_generator_def address_ok_def)
  from output_new_verifies [OF out note_ok_generate [OF n ad(1)] this] ok show ?thesis
    by (intro builder_ok_step [OF ok g, where e = "el_neg C (value_term C (nt_value n))"
          and f = "el_neg C (el_mul C vb (VALUE_BLINDING_GENERATOR C))"])
       (simp_all add: builder_ok_def b'_eq builder_sums el_sum_append [OF g] el_mul_add [OF g] value_commit_term(1) [OF g]
        el_sub_def fr_sub_def el_mul_neg [OF g] el_neg_add [OF g] el_zero_right [OF g] el_ac [OF g])
qed

lemma builder_ok_delegation:
  assumes ok: "builder_ok C root b" and g: "group_ok C" and b': "add_delegation C d b = Inr b'"
  shows "builder_ok C root b'"
proof -
  obtain cv where cv: "delegate_value_commitment C d = Inr cv" "cv = el_sum C (map (signed_term C) (delegation_terms C d))"
    by (simp add: delegate_value_commitment_def Let_def delegation_asset_id_eq delegation_terms_def signed_term_def
        value_commit_term(2) [OF g] el_sub_def el_zero_right [OF g])
  with b' ok show ?thesis
    by (intro builder_ok_step [OF ok g, where e = cv and f = "el_zero C"])
       (auto simp: builder_ok_def add_delegation_def builder_sums el_sum_append [OF g] el_zero_left [OF g]
        el_zero_right [OF g] el_ac [OF g])
qed

lemma builder_ok_undelegation:
  assumes ok: "builder_ok C root b" and g: "group_ok C" and b': "add_undelegation C u b = Inr b'"
  shows "builder_ok C root b'"
proof -
  obtain cv where cv: "undelegate_value_commitment C u = Inr cv" "cv = el_sum C (map (signed_term C) (undelegation_terms C u))"
    by (simp add: undelegate_value_commitment_def Let_def delegation_asset_id_eq undelegation_terms_def signed_term_def
        value_commit_term(2) [OF g] el_sub_def el_zero_right [OF g])
  with b' ok show ?thesis
    by (intro builder_ok_step [OF ok g, where e = cv and f = "el_zero C"])
       (auto simp: builder_ok_def add_undelegation_def builder_sums el_sum_append [OF g] el_zero_left [OF g]
        el_zero_right [OF g] el_ac [OF g])
qed

lemma builder_ok_definition:
  assumes ok: "builder_ok C root b" and g: "group_ok C"
  shows "builder_ok C root (add_validator_definition vd b)"
  using ok
  by (intro builder_ok_step [OF ok g, where e = "el_zero C" and f = "el_zero C"])
     (simp_all add: builder_ok_def add_validator_definition_def builder_sums el_sum_append [OF g] el_zero_left [OF g]
      el_zero_right [OF g])

lemma builder_ok_fee:
  assumes ok: "builder_ok C root b" and g: "group_ok C" and "bd_fee b = None"
  shows "builder_ok C root (set_fee C fee b)"
  using ok assms(3)
  by (intro builder_ok_step [OF ok g, where e = "el_neg C (fee_cv C fee)" and f = "el_zero C"])
     (simp_all add: builder_ok_def set_fee_def Let_def builder_sums el_sum_append [OF g] el_zero_left [OF g]
      el_zero_right [OF g] el_ac [OF g] el_sub_def fee_cv_def value_commit_term(2) [OF g])

lemma builder_ok_params:
  assumes ok: "builder_ok C root b"
  shows "builder_ok C root (set_expiry_height h b)" "builder_ok C root (set_chain_id c b)"
proof -
  have s: "terms_sum C (set_expiry_height h b) = terms_sum C b" "commitments_sum C (set_expiry_height h b) = commitments_sum C b"
    "terms_sum C (set_chain_id c b) = terms_sum C b" "commitments_sum C (set_chain_id c b) = commitments_sum C b"
    by (simp_all add: builder_sums set_expiry_height_def set_chain_id_def)
  show "builder_ok C root (set_expiry_height h b)" "builder_ok C root (set_chain_id c b)"
    using ok unfolding builder_ok_def s by (simp_all add: set_expiry_height_def set_chain_id_def) metis+
qed

section \<open>Reachable builders\<close>

text \<open>
  What the builder's methods make of a new builder: any number of spends of notes that belong to the
  spend key, outputs to well-formed addresses, delegations, undelegations and validator definitions in
  any order, the fee set at most once.
\<close>

inductive built :: "crypto \<Rightarrow> nct \<Rightarrow> tx_builder \<Rightarrow> bool" for C t where
  b_new: "built C t (build_with_root C (nct_root C t))"
| b_spend: "built C t b \<Longrightarrow> spendable C sk n \<Longrightarrow> add_spend C g t sk n b = Inr (b', g') \<Longrightarrow> built C t b'"
| b_output: "built C t b \<Longrightarrow> address_ok C dest \<Longrightarrow> ad_g_d dest \<noteq> el_zero C \<Longrightarrow>
    add_output_producing_note C g dest v memo ovk b = Inr (n, b', g') \<Longrightarrow> built C t b'"
| b_delegation: "built C t b \<Longrightarrow> add_delegation C d b = Inr b' \<Longrightarrow> built C t b'"
| b_undelegation: "built C t b \<Longrightarrow> add_undelegation C u b = Inr b' \<Longrightarrow> built C t b'"
| b_definition: "built C t b \<Longrightarrow> built C t (add_validator_definition vd b)"
| b_fee: "built C t b \<Longrightarrow> bd_fee b = None \<Longrightarrow> built C t (set_fee C fee b)"
| b_expiry_height: "built C t b \<Longrightarrow> built C t (set_expiry_height h b)"
| b_chain_id: "built C t b \<Longrightarrow> built C t (set_chain_id c b)"

lemma built_ok:
  assumes "built C t b" and g: "group_ok C" and "nct_ok C" and "rdsa_ok C (VALUE_BLINDING_GENERATOR C)"
  shows "builder_ok C (nct_root C t) b"
  using assms(1)
proof (induction rule: built.induct)
  case b_new
  show ?case by (rule builder_ok_new [OF g])
next
  case (b_spend b sk n rg b' rg')
  then show ?case using builder_ok_spend assms by blast
qed (use g in \<open>blast intro: builder_ok_output builder_ok_delegation builder_ok_undelegation builder_ok_definition
    builder_ok_fee builder_ok_params\<close>)+

section \<open>Balanced builders\<close>

text \<open>\<open>n\<close> times a group element.\<close>

definition kmul :: "crypto \<Rightarrow> nat \<Rightarrow> element \<Rightarrow> element" where
  "kmul C n e = ((el_add C e) ^^ n) (el_zero C)"

lemma kmul_0: "kmul C 0 e = el_zero C"
  by (simp add: kmul_def)

lemma kmul_add: "group_ok C \<Longrightarrow> kmul C (m + n) e = el_add C (kmul C m e) (kmul C n e)"
  by (induction m) (simp_all add: kmul_def el_zero_left el_add_assoc)

lemma value_term_kmul:
  assumes "embed_ok C" and "group_ok C"
  shows "value_term C v = kmul C (unat (val_amount v)) (value_generator C (val_asset_id v))"
proof -
  have "el_mul C (((fr_add C (fr_one C)) ^^ n) (fr_zero C)) e = kmul C n e" for n e
    by (induction n) (simp_all add: kmul_def el_mul_zero [OF assms(2)] el_mul_add [OF assms(2)] el_mul_one [OF assms(2)])
  then show ?thesis using assms(1) by (simp add: embed_ok_def value_term_def)
qed

definition amounts :: "bool \<Rightarrow> (bool \<times> typed_value) list \<Rightarrow> nat" where
  "amounts s ts = (\<Sum>(s', v) \<leftarrow> ts. if s' = s then unat (val_amount v) else 0)"

lemma signed_sum_one_asset:
  assumes e: "embed_ok C" and g: "group_ok C" and "\<forall>(s, v) \<in> set ts. val_asset_id v = i"
  shows "el_sum C (map (signed_term C) ts)
      = el_sub C (kmul C (amounts True ts) (value_generator C i)) (kmul C (amounts False ts) (value_generator C i))
    \<and> net i ts = int (amounts True ts) - int (amounts False ts)"
  using assms(3)
proof (induction ts)
  case Nil
  show ?case by (simp add: amounts_def net_def el_sub_def el_neg_right [OF g])
next
  case (Cons t ts)
  then obtain s v where t: "t = (s, v)" "val_asset_id v = i" by (cases t) auto
  have "amounts s' (t # ts) = (if s = s' then unat (val_amount v) else 0) + amounts s' ts" for s'
    by (simp add: amounts_def t)
  moreover have "net i (t # ts) = (if s then 1 else - 1) * int (unat (val_amount v)) + net i ts" by (simp add: net_def t)
  ultimately show ?case
    using Cons t el_neg_right [OF g, of "el_zero C"]
    by (auto simp: signed_term_def value_term_kmul [OF e g] kmul_add [OF g] kmul_0 el_zero_left [OF g] el_sub_def el_neg_add [OF g] el_ac [OF g])
qed

text \<open>Values that net to nothing in every asset sum to the identity.\<close>

lemma balanced_sum_zero:
  assumes e: "embed_ok C" and g: "group_ok C" and "\<forall>i. net i ts = 0"
  shows "el_sum C (map (signed_term C) ts) = el_zero C"
  using assms(3)
proof (induction ts rule: length_induct)
  case (1 ts)
  show ?case
  proof (cases ts)
    case (Cons t ts')
    let ?P = "\<lambda>(s :: bool, v). val_asset_id v = val_asset_id (snd t)"
    let ?i = "val_asset_id (snd t)" and ?same = "filter ?P ts" and ?rest = "filter (\<lambda>x. \<not> ?P x) ts"
    have n: "net i ts = net i ?same + net i ?rest" for i unfolding net_def by (induction ts) auto
    have "net i ?same = 0" if "i \<noteq> ?i" for i using that unfolding net_def by (induction ts) auto
    moreover have "net ?i ?rest = 0" unfolding net_def by (induction ts) auto
    ultimately have "\<forall>i. net i ?same = 0 \<and> net i ?rest = 0" using 1(2) n by (metis add.left_neutral add.right_neutral)
    moreover have "length ?rest < length ts" using Cons by (simp add: case_prod_beta le_imp_less_Suc)
    ultimately have "el_sum C (map (signed_term C) ?rest) = el_zero C" using 1(1) by blast
    moreover have "el_sum C (map (signed_term C) ?same) = el_zero C"
      using signed_sum_one_asset [OF e g, of ?same ?i] \<open>\<forall>i. net i ?same = 0 \<and> net i ?rest = 0\<close>
      by (auto simp: el_sub_def el_neg_right [OF g])
    ultimately show ?thesis using el_sum_filter [OF g, of "signed_term C" ts ?P] by (simp add: el_zero_left [OF g])
  qed simp
qed

section \<open>Signing\<close>

text \<open>A spend with its signature.\<close>

definition signed_spend :: "crypto \<Rightarrow> bytes \<Rightarrow> signing_key \<times> spend_body \<Rightarrow> action \<Rightarrow> bool" where
  "signed_spend C hash = (\<lambda>(rsk, body) a. \<exists>z. a = Spend \<lparr>sp_body = body, sp_auth_sig = z\<rparr>
     \<and> verify_spend_auth C (vk_spend_auth C rsk) hash z \<and> (\<exists>g. z = fst (sign_spend_auth C rsk hash g)))"

lemma sign_spends_ok:
  assumes "\<And>sk m g. verify_spend_auth C (vk_spend_auth C sk) m (fst (sign_spend_auth C sk m g))"
  shows "\<exists>as g'. sign_spends C hash sps
      (map (\<lambda>(_, body). Spend \<lparr>sp_body = body, sp_auth_sig = replicate 64 0\<rparr>) sps @ rest) g = Inr (as @ rest, g')
    \<and> list_all2 (signed_spend C hash) sps as"
proof (induction sps arbitrary: g)
  case (Cons sp sps)
  obtain rsk body where sp: "sp = (rsk, body)" by force
  obtain z g1 where z: "sign_spend_auth C rsk hash g = (z, g1)" by force
  moreover have "verify_spend_auth C (vk_spend_auth C rsk) hash z" using assms [of rsk hash g] z by simp
  ultimately show ?case using Cons.IH [of g1] by (auto simp: sp signed_spend_def) (metis fst_conv)+
qed simp

lemma signed_same_sighash:
  "list_all2 (signed_spend C hash) sps as \<Longrightarrow> map to_sighash_action as
     = map to_sighash_action (map (\<lambda>(_, body). Spend \<lparr>sp_body = body, sp_auth_sig = replicate 64 0\<rparr>) sps)"
  by (induction rule: list_all2_induct) (auto simp: signed_spend_def)

lemma signed_same_cv:
  "list_all2 (signed_spend C hash) sps as \<Longrightarrow> map (action_cv C) as
     = map (action_cv C) (map (\<lambda>(_, body). Spend \<lparr>sp_body = body, sp_auth_sig = replicate 64 0\<rparr>) sps)"
  by (induction rule: list_all2_induct) (auto simp: signed_spend_def action_cv_def action_value_commitment_def)

lemma check_signed_spends:
  assumes "list_all2 (signed_spend (x_crypto X) (sighash X (tx_body tx))) sps as"
    and "list_all (spend_built (x_crypto X) (tb_merkle_root (tx_body tx))) sps"
    and "distinct (map (\<lambda>(_, body). sb_nullifier body) sps)"
    and "\<forall>(_, body) \<in> set sps. sb_nullifier body \<notin> seen"
  shows "\<exists>seen'. foldR (check_action_stateless X tx) as seen = Inr seen'"
  using assms
proof (induction arbitrary: seen rule: list_all2_induct)
  case (Cons sp sps a "as")
  obtain rsk body where sp: "sp = (rsk, body)" by force
  have "check_action_stateless X tx a seen = Inr (insert (sb_nullifier body) seen)"
    using Cons.prems Cons.hyps(1) by (auto simp: sp signed_spend_def spend_built_def check_action_stateless_def Let_def)
  moreover have "\<exists>seen'. foldR (check_action_stateless X tx) as (insert (sb_nullifier body) seen) = Inr seen'"
    by (rule Cons.IH) (use Cons.prems in \<open>auto simp: sp image_iff case_prod_beta\<close>)
  ultimately show ?case by simp
qed simp

lemma check_other_actions:
  assumes "list_all (output_built (x_crypto X)) outs"
  shows "foldR (check_action_stateless X tx) (map Output outs @ map Delegate ds @ map Undelegate us @ map ValidatorDefinition vds) seen
    = Inr seen"
proof -
  have "foldR (check_action_stateless X tx) (map ValidatorDefinition vds) seen = Inr seen" for seen
    by (induction vds) (simp_all add: check_action_stateless_def)
  then have "foldR (check_action_stateless X tx) (map Undelegate us @ map ValidatorDefinition vds) seen = Inr seen" for seen
    by (induction us) (simp_all add: check_action_stateless_def)
  then have "foldR (check_action_stateless X tx) (map Delegate ds @ map Undelegate us @ map ValidatorDefinition vds) seen = Inr seen" for seen
    by (induction ds) (simp_all add: check_action_stateless_def)
  then show ?thesis using assms by (induction outs) (simp_all add: check_action_stateless_def output_built_def)
qed

section \<open>Finalizing\<close>

text \<open>What is left of \<open>finalize\<close> once the three checks pass and the lists are shuffled.\<close>

lemma builder_finalize_shuffled:
  assumes "rand_ok (x_crypto X)" and "bd_chain_id b = Some cid" and "bd_fee b = Some fee"
    and "bd_value_balance b = el_zero (x_crypto X)"
    and defs: "\<forall>vd \<in> set (bd_validator_definitions b). check_definition_signed X vd = Inr ()"
  obtains sps outs ds us vds g' where "mset sps = mset (bd_spends b)" and "mset outs = mset (bd_outputs b)"
    and "mset ds = mset (bd_delegations b)" and "mset us = mset (bd_undelegations b)"
    and "mset vds = mset (bd_validator_definitions b)"
    and "builder_finalize X g b =
      (let body = \<lparr>tb_actions = unsigned_actions sps outs ds us vds, tb_merkle_root = bd_merkle_root b,
             tb_expiry_height = (case bd_expiry_height b of Some h \<Rightarrow> h | None \<Rightarrow> 0), tb_chain_id = cid, tb_fee = fee\<rparr>;
           hash = sighash X body in
       bindR (sign_spends (x_crypto X) hash sps (tb_actions body) g') (\<lambda>(signed_actions, g).
       bindR (compute_binding_sig (x_crypto X) g hash b) (\<lambda>(binding_sig, g).
       Inr (\<lparr>tx_body = body\<lparr>tb_actions := signed_actions\<rparr>, tx_binding_sig = binding_sig\<rparr>,
            b\<lparr>bd_spends := sps, bd_outputs := [], bd_delegations := [], bd_undelegations := [],
              bd_validator_definitions := vds, bd_fee := None, bd_chain_id := None\<rparr>, g))))"
proof -
  let ?C = "x_crypto X"
  obtain sps g1 where 1: "shuffle ?C (bd_spends b) g = (sps, g1)" by force
  obtain outs g2 where 2: "shuffle ?C (bd_outputs b) g1 = (outs, g2)" by force
  obtain ds g3 where 3: "shuffle ?C (bd_delegations b) g2 = (ds, g3)" by force
  obtain us g4 where 4: "shuffle ?C (bd_undelegations b) g3 = (us, g4)" by force
  obtain vds g5 where 5: "shuffle ?C (bd_validator_definitions b) g4 = (vds, g5)" by force
  have m: "mset sps = mset (bd_spends b)" "mset outs = mset (bd_outputs b)" "mset ds = mset (bd_delegations b)"
    "mset us = mset (bd_undelegations b)" "mset vds = mset (bd_validator_definitions b)"
    using shuffle_mset [OF assms(1)] 1 2 3 4 5 by (metis fst_conv)+
  have "foldR (\<lambda>vd _. check_definition_signed X vd) xs () = Inr ()"
    if "\<forall>vd \<in> set xs. check_definition_signed X vd = Inr ()" for xs
    using that by (induction xs) simp_all
  then have "foldR (\<lambda>vd _. check_definition_signed X vd) vds () = Inr ()"
    using defs m(5) by (metis set_mset_mset)
  with m show ?thesis by (intro that) (simp_all add: builder_finalize_def 1 2 3 4 5 assms(2-4) Let_def)
qed

lemma unsigned_actions_cv_sum:
  assumes g: "group_ok C" and "mset sps = mset (bd_spends b)" and "mset outs = mset (bd_outputs b)"
    and "mset ds = mset (bd_delegations b)" and "mset us = mset (bd_undelegations b)"
    and "mset vds = mset (bd_validator_definitions b)"
  shows "el_sum C (map (action_cv C) (unsigned_actions sps outs ds us vds)) = el_sum C (map (action_cv C) (builder_actions b))"
  by (rule el_sum_mset [OF g]) (use assms in \<open>simp add: builder_actions_def unsigned_actions_def mset_map\<close>)

lemma signed_nullifiers:
  assumes "list_all2 (signed_spend C hash) sps sas"
    and "tb_actions (tx_body tx) = sas @ map Output outs @ map Delegate ds @ map Undelegate us @ map ValidatorDefinition vds"
  shows "spent_nullifiers tx = map (\<lambda>(_, body). sb_nullifier body) sps"
proof -
  let ?f = "\<lambda>a. case a of Spend sp \<Rightarrow> Some (sb_nullifier (sp_body sp)) | _ \<Rightarrow> None"
  have "List.map_filter ?f sas = map (\<lambda>(_, body). sb_nullifier body) sps"
    using assms(1) by (induction rule: list_all2_induct) (auto simp: signed_spend_def)
  then show ?thesis by (simp add: spent_nullifiers_def actions_def assms(2) map_filter_def comp_def)
qed

text \<open>The signed transaction of a builder passes the pool's stateless check.\<close>

lemma signed_transaction_accepted:
  assumes g: "group_ok (x_crypto X)" and rdsa: "rdsa_ok (x_crypto X) (VALUE_BLINDING_GENERATOR (x_crypto X))"
    and ok: "builder_ok (x_crypto X) (tb_merkle_root (tx_body tx)) b" and bal: "bd_value_balance b = el_zero (x_crypto X)"
    and fee: "bd_fee b = Some (tb_fee (tx_body tx))"
    and acts: "tb_actions (tx_body tx) = sas @ map Output outs @ map Delegate ds @ map Undelegate us @ map ValidatorDefinition vds"
    and signed: "list_all2 (signed_spend (x_crypto X) (sighash X (tx_body tx))) sps sas"
    and m: "mset sps = mset (bd_spends b)" "mset outs = mset (bd_outputs b)" "mset ds = mset (bd_delegations b)"
      "mset us = mset (bd_undelegations b)" "mset vds = mset (bd_validator_definitions b)"
    and dist: "distinct (map (\<lambda>(_, body). sb_nullifier body) (bd_spends b))"
    and sig: "tx_binding_sig tx = fst (sign_binding (x_crypto X) (bd_synthetic_blinding_factor b) (sighash X (tx_body tx)) rg)"
  shows "pool_check_tx_stateless X tx = Inr ()"
proof -
  let ?C = "x_crypto X" and ?H = "VALUE_BLINDING_GENERATOR (x_crypto X)" and ?tb = "tx_body tx"
  have vk: "vk_parse ?C (el_compress ?C e) = Some (el_compress ?C e)" for e using rdsa by (simp add: rdsa_ok_def)
  have "el_sum ?C (map (action_cv ?C) (actions tx)) = el_sum ?C (map (action_cv ?C) (unsigned_actions sps outs ds us vds))"
    using signed_same_cv [OF signed] by (simp add: actions_def acts unsigned_actions_def)
  then have "el_sub ?C (el_sum ?C (map (action_cv ?C) (actions tx))) (fee_cv ?C (tb_fee ?tb)) = commitments_sum ?C b"
    using unsigned_actions_cv_sum [OF g m] by (simp add: commitments_sum_def fee el_sub_def)
  also have "\<dots> = el_mul ?C (bd_synthetic_blinding_factor b) ?H"
    using ok bal unfolding builder_ok_def by (metis el_zero_left [OF g])
  finally have key: "binding_verification_key ?C tx = Inr (el_compress ?C (el_mul ?C (bd_synthetic_blinding_factor b) ?H))"
    by (simp add: binding_verification_key_sum [OF g vk])
  have binding: "verify_binding ?C (el_compress ?C (el_mul ?C (bd_synthetic_blinding_factor b) ?H)) (sighash X ?tb) (tx_binding_sig tx)"
    using rdsa by (simp add: rdsa_ok_def sig)
  have "list_all (spend_built ?C (tb_merkle_root ?tb)) sps" "list_all (output_built ?C) outs"
    using ok m(1,2) unfolding builder_ok_def list_all_iff by (metis set_mset_mset)+
  moreover have "distinct (map (\<lambda>(_, body). sb_nullifier body) sps)"
    using dist m(1) by (metis mset_eq_imp_distinct_iff mset_map)
  ultimately obtain seen where "foldR (check_action_stateless X tx) sas {} = Inr seen"
      and "foldR (check_action_stateless X tx) (map Output outs @ map Delegate ds @ map Undelegate us @ map ValidatorDefinition vds) seen = Inr seen"
    using check_signed_spends [OF signed, of "{}"] check_other_actions by blast
  then have "foldR (check_action_stateless X tx) (actions tx) {} = Inr seen" by (simp add: actions_def acts foldR_append)
  with key binding show ?thesis by (simp add: pool_check_tx_stateless_def)
qed

text \<open>The transaction that \<open>finalize\<close> makes.\<close>

lemma builder_finalize_signed:
  assumes rand: "rand_ok (x_crypto X)" and rdsa: "rdsa_ok (x_crypto X) (VALUE_BLINDING_GENERATOR (x_crypto X))"
    and cid: "bd_chain_id b = Some cid" and fee: "bd_fee b = Some fee"
    and zero: "bd_value_balance b = el_zero (x_crypto X)"
    and defs: "\<forall>vd \<in> set (bd_validator_definitions b). check_definition_signed X vd = Inr ()"
    and cv: "bd_value_commitments b = el_mul (x_crypto X) (bd_synthetic_blinding_factor b) (VALUE_BLINDING_GENERATOR (x_crypto X))"
  obtains tx b' rg' rg2 sps sas outs ds us vds where "builder_finalize X rg b = Inr (tx, b', rg')"
    and "mset sps = mset (bd_spends b)" "mset outs = mset (bd_outputs b)" "mset ds = mset (bd_delegations b)"
      "mset us = mset (bd_undelegations b)" "mset vds = mset (bd_validator_definitions b)"
    and "tb_actions (tx_body tx) = sas @ map Output outs @ map Delegate ds @ map Undelegate us @ map ValidatorDefinition vds"
    and "list_all2 (signed_spend (x_crypto X) (sighash X (tx_body tx))) sps sas"
    and "tx_binding_sig tx = fst (sign_binding (x_crypto X) (bd_synthetic_blinding_factor b) (sighash X (tx_body tx)) rg2)"
    and "tb_chain_id (tx_body tx) = cid" "tb_fee (tx_body tx) = fee" "tb_merkle_root (tx_body tx) = bd_merkle_root b"
proof (rule builder_finalize_shuffled [OF rand cid fee zero defs, of rg])
  let ?C = "x_crypto X"
  fix sps outs ds us vds rg1
  let ?rest = "map Output outs @ map Delegate ds @ map Undelegate us @ map ValidatorDefinition vds"
  define body where "body = \<lparr>tb_actions = unsigned_actions sps outs ds us vds, tb_merkle_root = bd_merkle_root b,
     tb_expiry_height = (case bd_expiry_height b of Some h \<Rightarrow> h | None \<Rightarrow> 0), tb_chain_id = cid, tb_fee = fee\<rparr>"
  assume m: "mset sps = mset (bd_spends b)" "mset outs = mset (bd_outputs b)" "mset ds = mset (bd_delegations b)"
      "mset us = mset (bd_undelegations b)" "mset vds = mset (bd_validator_definitions b)"
    and fin: "builder_finalize X rg b =
      (let body = \<lparr>tb_actions = unsigned_actions sps outs ds us vds, tb_merkle_root = bd_merkle_root b,
             tb_expiry_height = (case bd_expiry_height b of Some h \<Rightarrow> h | None \<Rightarrow> 0), tb_chain_id = cid, tb_fee = fee\<rparr>;
           hash = sighash X body in
       bindR (sign_spends ?C hash sps (tb_actions body) rg1) (\<lambda>(signed_actions, g).
       bindR (compute_binding_sig ?C g hash b) (\<lambda>(binding_sig, g).
       Inr (\<lparr>tx_body = body\<lparr>tb_actions := signed_actions\<rparr>, tx_binding_sig = binding_sig\<rparr>,
            b\<lparr>bd_spends := sps, bd_outputs := [], bd_delegations := [], bd_undelegations := [],
              bd_validator_definitions := vds, bd_fee := None, bd_chain_id := None\<rparr>, g))))"
  obtain sas rg2 where s: "sign_spends ?C (sighash X body) sps (tb_actions body) rg1 = Inr (sas @ ?rest, rg2)"
    and signed: "list_all2 (signed_spend ?C (sighash X body)) sps sas"
    using sign_spends_ok [of ?C "sighash X body" sps ?rest rg1] rdsa
    by (auto simp: rdsa_ok_def body_def unsigned_actions_def)
  have c: "compute_binding_sig ?C rg2 (sighash X body) b = Inr (sign_binding ?C (bd_synthetic_blinding_factor b) (sighash X body) rg2)"
    by (simp add: compute_binding_sig_def cv)
  have h: "sighash X (body\<lparr>tb_actions := sas @ ?rest\<rparr>) = sighash X body"
    using signed_same_sighash [OF signed] by (simp add: sighash_def to_sighash_transaction_def body_def unsigned_actions_def)
  show thesis
    by (rule that [of "\<lparr>tx_body = body\<lparr>tb_actions := sas @ ?rest\<rparr>,
          tx_binding_sig = fst (sign_binding ?C (bd_synthetic_blinding_factor b) (sighash X body) rg2)\<rparr>",
          OF _ m _ _ _ _ _ _, of _ _ sas rg2])
       (use fin signed in \<open>simp_all add: body_def [symmetric] Let_def s c h case_prod_beta\<close>, simp_all add: body_def)
qed

text \<open>A transaction of a builder's actions, with signatures made by the signing functions.\<close>

definition made_of :: "crypto \<Rightarrow> tx_builder \<Rightarrow> transaction \<Rightarrow> bool" where
  "made_of C b tx \<longleftrightarrow>
     (\<forall>a \<in> set (actions tx).
        a \<in> Output ` set (bd_outputs b) \<union> Delegate ` set (bd_delegations b) \<union> Undelegate ` set (bd_undelegations b)
          \<union> ValidatorDefinition ` set (bd_validator_definitions b)
        \<or> (\<exists>k m g. \<exists>(rsk, body) \<in> set (bd_spends b). a = Spend \<lparr>sp_body = body, sp_auth_sig = fst (sign_spend_auth C k m g)\<rparr>))
     \<and> (\<exists>k m g. tx_binding_sig tx = fst (sign_binding C k m g))"

lemma signed_made_of:
  assumes acts: "tb_actions (tx_body tx) = sas @ map Output outs @ map Delegate ds @ map Undelegate us @ map ValidatorDefinition vds"
    and signed: "list_all2 (signed_spend C hash) sps sas" and sig: "tx_binding_sig tx = fst (sign_binding C k hash g)"
    and m: "set sps = set (bd_spends b)" "set outs = set (bd_outputs b)" "set ds = set (bd_delegations b)"
      "set us = set (bd_undelegations b)" "set vds = set (bd_validator_definitions b)"
  shows "made_of C b tx"
proof -
  have "\<exists>k m g. \<exists>(rsk, body) \<in> set (bd_spends b). a = Spend \<lparr>sp_body = body, sp_auth_sig = fst (sign_spend_auth C k m g)\<rparr>"
    if "a \<in> set sas" for a
  proof -
    obtain sp where sp: "sp \<in> set sps" "signed_spend C hash sp a"
      using signed \<open>a \<in> set sas\<close> unfolding list_all2_conv_all_nth in_set_conv_nth by metis
    obtain rsk body where "sp = (rsk, body)" by force
    with sp show ?thesis unfolding m(1) [symmetric] by (auto simp: signed_spend_def intro!: bexI [of _ "(rsk, body)"])
  qed
  then show ?thesis using sig by (auto simp: made_of_def actions_def acts m)
qed

text \<open>A balanced builder finalizes to a transaction that the pool accepts.\<close>

lemma balanced_accepted:
  assumes g: "group_ok (x_crypto X)" and nct: "nct_ok (x_crypto X)" and rand: "rand_ok (x_crypto X)" and emb: "embed_ok (x_crypto X)"
    and rdsa: "rdsa_ok (x_crypto X) (VALUE_BLINDING_GENERATOR (x_crypto X))"
    and b: "built (x_crypto X) t b" and bal: "\<forall>i. net i (builder_terms (x_crypto X) b) = 0"
    and cid: "bd_chain_id b = Some cid" and fee: "bd_fee b = Some fee"
    and defs: "\<forall>vd \<in> set (bd_validator_definitions b). check_definition_signed X vd = Inr ()"
    and dist: "distinct (map (\<lambda>(_, body). sb_nullifier body) (bd_spends b))"
  obtains tx b' rg' where "builder_finalize X rg b = Inr (tx, b', rg')" and "pool_check_tx_stateless X tx = Inr ()"
    and "tb_chain_id (tx_body tx) = cid" "tb_fee (tx_body tx) = fee" "tb_merkle_root (tx_body tx) = nct_root (x_crypto X) t"
    and "set (spent_nullifiers tx) = (\<lambda>(_, body). sb_nullifier body) ` set (bd_spends b)"
    and "Output ` set (bd_outputs b) \<union> Delegate ` set (bd_delegations b) \<union> Undelegate ` set (bd_undelegations b)
      \<union> ValidatorDefinition ` set (bd_validator_definitions b) \<subseteq> set (actions tx)"
    and "made_of (x_crypto X) b tx"
proof -
  let ?C = "x_crypto X"
  have ok: "builder_ok ?C (nct_root ?C t) b" by (rule built_ok [OF b g nct rdsa])
  have zero: "bd_value_balance b = el_zero ?C"
    using ok balanced_sum_zero [OF emb g bal] by (simp add: builder_ok_def terms_sum_def)
  have cv: "bd_value_commitments b = el_mul ?C (bd_synthetic_blinding_factor b) (VALUE_BLINDING_GENERATOR ?C)"
    using ok zero unfolding builder_ok_def by (metis el_zero_left [OF g])
  obtain tx b' rg' rg2 sps sas outs ds us vds where fin: "builder_finalize X rg b = Inr (tx, b', rg')"
    and m: "mset sps = mset (bd_spends b)" "mset outs = mset (bd_outputs b)" "mset ds = mset (bd_delegations b)"
      "mset us = mset (bd_undelegations b)" "mset vds = mset (bd_validator_definitions b)"
    and acts: "tb_actions (tx_body tx) = sas @ map Output outs @ map Delegate ds @ map Undelegate us @ map ValidatorDefinition vds"
    and signed: "list_all2 (signed_spend ?C (sighash X (tx_body tx))) sps sas"
    and sig: "tx_binding_sig tx = fst (sign_binding ?C (bd_synthetic_blinding_factor b) (sighash X (tx_body tx)) rg2)"
    and tb: "tb_chain_id (tx_body tx) = cid" "tb_fee (tx_body tx) = fee" "tb_merkle_root (tx_body tx) = bd_merkle_root b"
    by (rule builder_finalize_signed [OF rand rdsa cid fee zero defs cv])
  have root: "bd_merkle_root b = nct_root ?C t" using ok by (simp add: builder_ok_def)
  have "pool_check_tx_stateless X tx = Inr ()"
    by (rule signed_transaction_accepted [OF g rdsa _ zero _ acts signed m dist sig]) (use ok fee in \<open>simp_all add: tb root\<close>)
  moreover have "set (spent_nullifiers tx) = (\<lambda>(_, body). sb_nullifier body) ` set (bd_spends b)"
    using signed_nullifiers [OF signed acts] m(1) by simp (metis set_mset_mset)
  moreover have sets: "set outs = set (bd_outputs b)" "set ds = set (bd_delegations b)" "set us = set (bd_undelegations b)"
    "set vds = set (bd_validator_definitions b)"
    using m by (metis set_mset_mset)+
  moreover have "set sps = set (bd_spends b)" using m(1) by (metis set_mset_mset)
  then have "made_of ?C b tx" by (intro signed_made_of [OF acts signed sig _ sets])
  moreover have "Output ` set (bd_outputs b) \<union> Delegate ` set (bd_delegations b) \<union> Undelegate ` set (bd_undelegations b)
      \<union> ValidatorDefinition ` set (bd_validator_definitions b) \<subseteq> set (actions tx)"
    using sets by (auto simp: actions_def acts)
  ultimately show ?thesis using fin tb that root by metis
qed

text \<open>
  C3: what the builder builds, the shielded pool accepts.  If every asset's amounts put in and taken out
  cancel, chain id and fee are set, the validator definitions are signed and the notes spent have
  different nullifiers, then \<open>finalize\<close> succeeds, whatever the shuffling does, and the
  transaction passes the pool's stateless check: the binding signature verifies under the key the pool
  computes from the actions, every spend is signed and every proof verifies.  It carries the fee and the
  anchor of the builder and spends exactly its notes.
\<close>

theorem built_transaction_accepted:
  assumes g: "group_ok (x_crypto X)" and nct: "nct_ok (x_crypto X)" and rand: "rand_ok (x_crypto X)" and emb: "embed_ok (x_crypto X)"
    and rdsa: "rdsa_ok (x_crypto X) (VALUE_BLINDING_GENERATOR (x_crypto X))"
    and b: "built (x_crypto X) t b" and bal: "\<forall>i. net i (builder_terms (x_crypto X) b) = 0"
    and cid: "bd_chain_id b = Some cid" and fee: "bd_fee b = Some fee"
    and defs: "\<forall>vd \<in> set (bd_validator_definitions b). check_definition_signed X vd = Inr ()"
    and dist: "distinct (map (\<lambda>(_, body). sb_nullifier body) (bd_spends b))"
  shows "\<exists>tx b' rg'. builder_finalize X rg b = Inr (tx, b', rg') \<and> pool_check_tx_stateless X tx = Inr ()
    \<and> tb_chain_id (tx_body tx) = cid \<and> tb_fee (tx_body tx) = fee \<and> tb_merkle_root (tx_body tx) = nct_root (x_crypto X) t
    \<and> set (spent_nullifiers tx) = (\<lambda>(_, body). sb_nullifier body) ` set (bd_spends b)"
proof (rule balanced_accepted [OF assms, of rg])
  fix tx b' rg'
  assume "builder_finalize X rg b = Inr (tx, b', rg')" "pool_check_tx_stateless X tx = Inr ()"
    "tb_chain_id (tx_body tx) = cid" "tb_fee (tx_body tx) = fee" "tb_merkle_root (tx_body tx) = nct_root (x_crypto X) t"
    "set (spent_nullifiers tx) = (\<lambda>(_, body). sb_nullifier body) ` set (bd_spends b)"
  then show ?thesis by blast
qed

section \<open>The methods succeed\<close>

lemma add_spend_total:
  assumes "nct_auth_path C t (note_commit C n) = Some path"
  obtains b' rg' rsk body where "add_spend C rg t sk n b = Inr (b', rg')"
    and "b' = b\<lparr>bd_synthetic_blinding_factor := bd_synthetic_blinding_factor b', bd_value_balance := bd_value_balance b',
       bd_value_commitments := bd_value_commitments b', bd_spends := bd_spends b @ [(rsk, body)]\<rparr>"
    and "spf_value (sb_proof body) = nt_value n"
    and "sb_nullifier body = derive_nullifier C (fvk_nk (sk_fvk sk)) (fst path) (note_commit C n)"
  using assms that by (auto simp: add_spend_def Let_def case_prod_beta spend_body_new_def)

lemma output_new_total:
  assumes e: "encoding_ok C" and a: "aead_ok C" and n: "note_ok C n" and m: "length memo = 512"
    and tk: "nt_transmission_key n = ad_pk_d dest" and dec: "el_decompress C (ad_pk_d dest) \<noteq> None"
  obtains out rg' where "output_new C rg n memo dest ovk vb = Inr (out, rg')" and "opf_value (out_proof out) = nt_value n"
proof -
  have seal: "\<exists>c. bindR (ok_or e1 (aead_encrypt C k nonce p)) (\<lambda>c. ok_or e2 (array l c)) = Inr c"
    if "length p + 16 = l" for e1 e2 k nonce p l
    by (rule aead_obtain [OF a refl, of k nonce p]) (use that in auto)
  from dec obtain pk where pk: "el_decompress C (ad_pk_d dest) = Some pk" by blast
  then have ka: "\<exists>ss. unwrapR (key_agreement_with C esk (ad_pk_d dest)) = Inr ss" for esk
    by (simp add: key_agreement_with_def)
  obtain c1 where c1: "note_encrypt C n (fst (rand_fr C rg)) = Inr c1"
  proof -
    have "\<exists>c. note_encrypt C n (fst (rand_fr C rg)) = Inr c"
      unfolding note_encrypt_def Let_def tk using ka [of "fst (rand_fr C rg)"]
      by (elim exE, simp only: bindR.simps, intro seal) (simp add: length_note_to_bytes [OF e n])
    then show ?thesis using that by blast
  qed
  obtain c2 where c2: "memo_encrypt C memo (fst (rand_fr C rg)) dest = Inr c2"
  proof -
    have "\<exists>c. memo_encrypt C memo (fst (rand_fr C rg)) dest = Inr c"
      unfolding memo_encrypt_def Let_def using ka [of "fst (rand_fr C rg)"]
      by (elim exE, simp only: bindR.simps, intro seal) (simp add: m)
    then show ?thesis using that by blast
  qed
  let ?cv = "el_neg C (value_commit C (nt_value n) vb)"
  have "\<exists>c3. note_encrypt_key C n (fst (rand_fr C rg)) ovk ?cv = Inr c3"
    unfolding note_encrypt_key_def Let_def
    by (rule seal) (use n in \<open>simp add: note_ok_def ka_secret_to_bytes_def encoding_laws [OF e]\<close>)
  then obtain c3 where "note_encrypt_key C n (fst (rand_fr C rg)) ovk ?cv = Inr c3" by blast
  with c1 c2 that show ?thesis by (auto simp: output_new_def Let_def case_prod_beta)
qed

lemma add_output_total:
  assumes e: "encoding_ok C" and a: "aead_ok C" and ad: "address_ok C dest" and m: "length memo = 512"
    and dec: "el_decompress C (ad_pk_d dest) \<noteq> None"
  obtains n b' rg' out where "add_output_producing_note C rg dest v memo ovk b = Inr (n, b', rg')"
    and "b' = b\<lparr>bd_synthetic_blinding_factor := bd_synthetic_blinding_factor b', bd_value_balance := bd_value_balance b',
       bd_value_commitments := bd_value_commitments b', bd_outputs := bd_outputs b @ [out]\<rparr>"
    and "opf_value (out_proof out) = v" and "nt_value n = v"
proof -
  obtain n rg1 where n: "note_generate C rg dest v = Inr (n, rg1)"
    using ad by (auto simp: note_generate_def Let_def note_from_parts_def address_ok_def case_prod_beta)
  obtain out rg2 where out: "output_new C (snd (rand_fr C rg1)) n memo dest ovk (fst (rand_fr C rg1)) = Inr (out, rg2)"
    "opf_value (out_proof out) = nt_value n"
    by (rule output_new_total [OF e a note_ok_generate [OF n ad] m note_generate_Inr(3) [OF n] dec])
  with n that note_generate_Inr(1) [OF n] show ?thesis
    by (auto simp: add_output_producing_note_def Let_def case_prod_beta)
qed

end
