(* ===== verification/Crypto_Witnesses.thy ===== *)
theory Crypto_Witnesses
  imports Builder_Sound
begin

text \<open>
  An instance of the record \<open>crypto\<close> in which every law of the cryptographic crates holds: the group
  is the additive group of the scalars, encodings are the numbers in little-endian bytes, a signature
  is the key, encryption appends an empty tag, and the hash of a pair is the sum.  The properties of
  the cryptographic layer and of the transaction builder are applied to it.
\<close>

section \<open>Cryptography that obeys the laws\<close>

definition sum_root :: "nct \<Rightarrow> fq" where
  "sum_root t = sum_list (List.map_filter (\<lambda>e. case e of NctAppend c \<Rightarrow> Some c | _ \<Rightarrow> None) t)"

definition ring_crypto :: crypto where
  "ring_crypto =
     \<lparr>fq_to_bytes = (\<lambda>x. le_bytes 32 (fq_number x)),
      fq_from_bytes = (\<lambda>b. if length b = 32 \<and> le_nat b < fq_order then Some (fq_of (le_nat b)) else None),
      fq_mod_order = (\<lambda>b. fq_of (le_nat b)), fq_of_u64 = (\<lambda>x. of_nat (unat x)), fq_add = (+),
      fr_zero = 0, fr_one = 1, fr_of_u64 = (\<lambda>x. of_nat (unat x)), fr_add = (+), fr_neg = uminus, fr_mul = (*),
      fr_inverse = (\<lambda>a. if a = 1 then Some 1 else None), fr_to_bytes = (\<lambda>x. le_bytes 32 (fr_number x)),
      fr_from_bytes = (\<lambda>b. if length b = 32 \<and> le_nat b < fr_order then Some (fr_of (le_nat b)) else None),
      fr_mod_order = (\<lambda>b. fr_of (le_nat b)), el_zero = 0, el_add = (+), el_neg = uminus, el_mul = (*), el_basepoint = 1,
      el_compress = (\<lambda>x. le_bytes 32 (fr_number x)),
      el_decompress = (\<lambda>b. if length b = 32 \<and> le_nat b < fr_order then Some (fr_of (le_nat b)) else None),
      el_to_field = (\<lambda>x. fq_of (fr_number x)), el_map_to_group = (\<lambda>x. 1),
      poseidon_1 = (\<lambda>d a. a), poseidon_2 = (\<lambda>d (a, b). a + b), poseidon_3 = (\<lambda>d (a, b, c). a + b + c),
      poseidon_5 = (\<lambda>d (a, b, c). a + b),
      blake2b = (\<lambda>p k i. take 64 (k @ i @ replicate 64 0)), blake2b_32 = (\<lambda>i. take 32 (i @ replicate 32 0)),
      aead_encrypt = (\<lambda>k n p. Some (p @ replicate 16 0)), aead_decrypt = (\<lambda>k n c. Some (take (length c - 16) c)),
      ff1_encrypt = (\<lambda>k x. x), ff1_decrypt = (\<lambda>k x. x), f4jumble = Some, f4jumble_inv = Some,
      sha256 = (\<lambda>b. take 32 (b @ replicate 32 0)), pbkdf2 = (\<lambda>p s r. take 32 (p @ replicate 32 1)),
      bech32m_encode = (\<lambda>h b. replicate (length h) CHR ''1'' @ CHR ''0'' # h @ map (\<lambda>w. char_of (unat w)) b),
      bech32_decode = (\<lambda>s. let n = length (takeWhile ((=) CHR ''1'') s); r = drop (Suc n) s
        in Some (take n r, map (\<lambda>c. of_nat (of_char c)) (drop n r), True)),
      sk_randomize = (+), vk_spend_auth = (\<lambda>k. le_bytes 32 (fr_number k)),
      vk_parse = (\<lambda>b. if length b = 32 \<and> le_nat b < fr_order then Some b else None),
      vk_randomize = (\<lambda>k r. le_bytes 32 (fr_number (fr_of (le_nat k) + r))), vk_is_identity = (\<lambda>k. le_nat k = 0),
      sign_spend_auth = (\<lambda>k m g. (le_bytes 32 (fr_number k) @ replicate 32 0, g)), verify_spend_auth = (\<lambda>k m z. k @ replicate 32 0 = z),
      sign_binding = (\<lambda>k m g. (le_bytes 32 (fr_number k) @ replicate 32 0, g)), verify_binding = (\<lambda>k m z. k @ replicate 32 0 = z),
      nct_root = sum_root,
      nct_position = (\<lambda>t. let n = length (filter (\<lambda>e. case e of NctAppend _ \<Rightarrow> True | _ \<Rightarrow> False) t)
        in if n = 0 then None else Some (of_nat (n - 1))),
      nct_auth_path = (\<lambda>t c. if NctAppend c \<in> set t then Some (0, (sum_root t - c) # replicate 31 0) else None),
      rand_fq = (\<lambda>g. (of_nat g, Suc g)), rand_fr = (\<lambda>g. (of_nat g, Suc g)), rand_permutation = (\<lambda>n g. ([0..<n], g))\<rparr>"

lemma ring_sel [simp]:
  "fq_to_bytes ring_crypto x = le_bytes 32 (fq_number x)"
  "fq_from_bytes ring_crypto b = (if length b = 32 \<and> le_nat b < fq_order then Some (fq_of (le_nat b)) else None)"
  "fq_mod_order ring_crypto b = fq_of (le_nat b)" "fq_of_u64 ring_crypto u = of_nat (unat u)" "fq_add ring_crypto x y = x + y"
  "fr_zero ring_crypto = 0" "fr_one ring_crypto = 1" "fr_of_u64 ring_crypto u = of_nat (unat u)"
  "fr_add ring_crypto a e = a + e" "fr_neg ring_crypto a = - a" "fr_mul ring_crypto a e = a * e"
  "fr_inverse ring_crypto a = (if a = 1 then Some 1 else None)" "fr_to_bytes ring_crypto a = le_bytes 32 (fr_number a)"
  "fr_from_bytes ring_crypto b = (if length b = 32 \<and> le_nat b < fr_order then Some (fr_of (le_nat b)) else None)"
  "fr_mod_order ring_crypto b = fr_of (le_nat b)" "el_zero ring_crypto = 0" "el_add ring_crypto a e = a + e"
  "el_neg ring_crypto a = - a" "el_mul ring_crypto a e = a * e" "el_basepoint ring_crypto = 1"
  "el_compress ring_crypto a = le_bytes 32 (fr_number a)"
  "el_decompress ring_crypto b = (if length b = 32 \<and> le_nat b < fr_order then Some (fr_of (le_nat b)) else None)"
  "el_to_field ring_crypto a = fq_of (fr_number a)" "el_map_to_group ring_crypto x = 1"
  "poseidon_1 ring_crypto x y = y" "poseidon_2 ring_crypto x (y, z) = y + z" "poseidon_3 ring_crypto x (y, z, v) = y + z + v"
  "poseidon_5 ring_crypto x (y, z, w) = y + z"
  "blake2b ring_crypto l k b = take 64 (k @ b @ replicate 64 0)" "blake2b_32 ring_crypto b = take 32 (b @ replicate 32 0)"
  "aead_encrypt ring_crypto k c b = Some (b @ replicate 16 0)" "aead_decrypt ring_crypto k c b = Some (take (length b - 16) b)"
  "ff1_encrypt ring_crypto k b = b" "ff1_decrypt ring_crypto k b = b" "f4jumble ring_crypto b = Some b" "f4jumble_inv ring_crypto b = Some b"
  "sk_randomize ring_crypto a e = a + e" "vk_spend_auth ring_crypto a = le_bytes 32 (fr_number a)"
  "vk_parse ring_crypto b = (if length b = 32 \<and> le_nat b < fr_order then Some b else None)"
  "vk_randomize ring_crypto b a = le_bytes 32 (fr_number (fr_of (le_nat b) + a))" "vk_is_identity ring_crypto b \<longleftrightarrow> le_nat b = 0"
  "sign_spend_auth ring_crypto a b g = (le_bytes 32 (fr_number a) @ replicate 32 0, g)" "verify_spend_auth ring_crypto k b s \<longleftrightarrow> k @ replicate 32 0 = s"
  "sign_binding ring_crypto a b g = (le_bytes 32 (fr_number a) @ replicate 32 0, g)" "verify_binding ring_crypto k b s \<longleftrightarrow> k @ replicate 32 0 = s"
  "nct_root ring_crypto t = sum_root t"
  "nct_auth_path ring_crypto t x = (if NctAppend x \<in> set t then Some (0, (sum_root t - x) # replicate 31 0) else None)"
  "rand_fq ring_crypto g = (of_nat g, Suc g)" "rand_fr ring_crypto g = (of_nat g, Suc g)"
  "rand_permutation ring_crypto n g = ([0..<n], g)"
  by (simp_all add: ring_crypto_def)

lemma numbers_in_bytes [simp]:
  "le_nat (le_bytes 32 (fq_number x)) = fq_number x" "le_nat (le_bytes 32 (fr_number a)) = fr_number a"
proof -
  have "fq_number x < 256 ^ 32" using fq_number_less [of x] by (rule less_trans) (simp add: fq_order_def)
  moreover have "fr_number a < 256 ^ 32" using fr_number_less [of a] by (rule less_trans) (simp add: fr_order_def)
  ultimately show "le_nat (le_bytes 32 (fq_number x)) = fq_number x" "le_nat (le_bytes 32 (fr_number a)) = fr_number a"
    by (simp_all only: le_nat_le_bytes mod_less)
qed

lemma fr_number_fq [simp]: "fr_number a < fq_order"
  by (rule less_trans [OF fr_number_less]) (simp add: fr_order_def fq_order_def)

section \<open>The laws\<close>

lemma ring_group_ok: "group_ok ring_crypto"
  by (simp add: group_ok_def algebra_simps)

lemma ring_inverse_ok: "inverse_ok ring_crypto"
  by (simp add: inverse_ok_def)

lemma ring_embed_ok: "embed_ok ring_crypto"
proof -
  have "((fr_add ring_crypto 1) ^^ n) 0 = of_nat n" for n by (induction n) simp_all
  then show ?thesis by (simp add: embed_ok_def)
qed

lemma ring_encoding_ok: "encoding_ok ring_crypto"
  by (simp add: encoding_ok_def fq_number_less fr_number_less del: le_bytes.simps)

lemma ring_aead_ok: "aead_ok ring_crypto"
  by (simp add: aead_ok_def)

lemma ring_ff1_ok: "ff1_ok ring_crypto"
  by (simp add: ff1_ok_def)

lemma ring_text_ok: "text_ok ring_crypto"
proof -
  have t: "takeWhile ((=) CHR ''1'') (replicate n CHR ''1'' @ CHR ''0'' # xs) = replicate n CHR ''1''" for n xs
    by (induction n) simp_all
  have "(of_nat (of_char (char_of (unat w))) :: u8) = w" for w
    using unsigned_less [of w, where 'a = nat] by (simp add: of_char_of)
  then have "map (\<lambda>c. of_nat (of_char c)) (map (\<lambda>w. char_of (unat w)) x) = (x :: bytes)" for x
    by (simp add: map_idI comp_def)
  then show ?thesis by (simp add: text_ok_def ring_crypto_def t Let_def)
qed

lemma ring_blinding_generator [simp]: "VALUE_BLINDING_GENERATOR ring_crypto = 1" "value_generator ring_crypto i = 1"
  "diversified_generator ring_crypto d = 1"
  by (simp_all add: VALUE_BLINDING_GENERATOR_def value_generator_def diversified_generator_def)

lemma ring_rdsa_ok: "rdsa_ok ring_crypto (VALUE_BLINDING_GENERATOR ring_crypto)"
  by (simp add: rdsa_ok_def fr_number_less)

lemma ring_rand_ok: "rand_ok ring_crypto"
  by (simp add: rand_ok_def)

lemma ring_nct_ok: "nct_ok ring_crypto"
proof -
  have "merkle_path_root ring_crypto pos lvl cur path = cur + sum_list path" for pos lvl cur path
    by (induction path arbitrary: lvl cur) (simp_all add: merkle_combine_def)
  then show ?thesis by (auto simp: nct_ok_def MERKLE_DEPTH_def sum_list_replicate split: if_splits)
qed

section \<open>Keys, addresses and notes\<close>

definition demo_ivk :: incoming_viewing_key where
  "demo_ivk = \<lparr>ivk_secret = 5, ivk_dk = []\<rparr>"

theorem payment_address_roundtrip_witness:
  "\<exists>a dtk s. payment_address ring_crypto demo_ivk (diversifier_index_of_u64 7) = Inr (a, dtk)
    \<and> address_to_string ring_crypto a = Inr s \<and> address_of_string ring_crypto s = Inr a"
  using payment_address_roundtrip [OF ring_encoding_ok ring_ff1_ok ring_text_ok, of demo_ivk 7] by blast

definition demo_note :: note_t where
  "demo_note = \<lparr>nt_value = \<lparr>val_amount = 30, val_asset_id = staking_token_asset_id ring_crypto\<rparr>, nt_note_blinding = 9, nt_diversifier = replicate 11 3,
     nt_transmission_key = diversified_public ring_crypto 5 1, nt_transmission_key_s = 5\<rparr>"

lemma small_numbers [simp]: "fq_of (fr_number 1) = 1" "fq_of (fr_number 5) = 5" "fr_of (fq_number 5) = 5"
proof -
  have "fr_number 5 = 5" "fq_number 5 = 5" by (simp_all add: fr_number_numeral fq_number_numeral)
  then show "fq_of (fr_number 5) = 5" "fr_of (fq_number 5) = 5" using fq_of_number [of 5] fr_of_number [of 5] by simp_all
  show "fq_of (fr_number 1) = 1" by (simp add: fr_ops one_fq_def)
qed

lemma demo_note_ok: "note_ok ring_crypto demo_note" "note_diversified_generator ring_crypto demo_note = 1"
  by (simp_all add: note_ok_def demo_note_def diversified_public_def note_diversified_generator_def)

theorem note_decrypt_encrypt_witness:
  "\<exists>c. note_encrypt ring_crypto demo_note 4 = Inr c
    \<and> note_decrypt ring_crypto c demo_ivk (diversified_public ring_crypto 4 1) = Inr demo_note"
proof -
  have "nt_transmission_key demo_note = diversified_public ring_crypto (ivk_secret demo_ivk) (note_diversified_generator ring_crypto demo_note)"
    by (simp add: demo_note_ok demo_ivk_def) (simp add: demo_note_def)
  from note_decrypt_encrypt [OF ring_group_ok ring_encoding_ok ring_aead_ok demo_note_ok(1) this, of 4] show ?thesis
    unfolding demo_note_ok(2) by blast
qed

lemma le_nat_append: "le_nat (xs @ ys) = le_nat xs + 256 ^ length xs * le_nat ys"
  by (induction xs) (simp_all add: algebra_simps)

lemma le_bytes_nth_0: "le_bytes 32 n ! 0 = of_nat (n mod 256)"
proof -
  have "(32 :: nat) = Suc 31" by simp
  then show ?thesis by (simp only: le_bytes.simps nth_Cons_0)
qed

lemma le_nat_zeros [simp]: "le_nat (replicate n 0) = 0"
  by (induction n) simp_all

lemma le_bytes_fr_inject: "le_bytes 32 (fr_number a) = le_bytes 32 (fr_number b) \<longleftrightarrow> a = b"
  by (metis fr_of_number numbers_in_bytes(2))

text \<open>The clue of precision 2 with the scalars 1 and 2 is the point 1, a scalar and three empty bytes.\<close>

lemma demo_clue:
  "\<exists>y ek' g. create_clue ring_crypto 2 1 ek = Inr (le_bytes 32 (fr_number 1) @ le_bytes 32 (fr_number y) @ [2] @ [0, 0, 0], ek', g)
    \<and> y \<noteq> 0"
proof -
  have one: "fr_number 1 = 1" by (simp add: fr_ops)
  have b: "to_bit ring_crypto (le_bytes 32 (fr_number 1)) p q = 1" for p q
    by (simp add: to_bit_def nth_append le_bytes_nth_0 one)
  have "[0..<2] = [0, 1 :: nat]" by (simp add: upt_conv_Cons)
  then have e: "encrypt_bits ring_crypto 1 Xs (le_bytes 32 (fr_number 1)) q [0..<2] (replicate 3 0) = [0, 0, 0]" for Xs q
    unfolding encrypt_bits_def b by (simp add: set_ctxt_bit_def numeral_3_eq_3 unset_bit_eq_and_not)
  define m where "m = fr_of (le_nat (le_bytes 32 (fr_number 1) @ [2] @ [0, 0, 0] @ replicate 28 0))"
  have "fr_number m = (1 + 256 ^ 32 * 2) mod fr_order"
    unfolding m_def fr_number_of le_nat_append numbers_in_bytes by (simp add: one)
  then have "fr_number m \<noteq> fr_number 2" by (simp add: fr_number_numeral fr_order_def)
  then have "2 - m \<noteq> 0" by auto
  then show ?thesis
    by (intro exI [of _ "2 - m"])
       (simp add: create_clue_def ensure_at_least_def MAX_PRECISION_def to_scalar_def Let_def e m_def fr_sub_def)
qed

theorem fmd_no_false_negatives_witness:
  "\<exists>ek0 cl0 ek g0 cl ek' g. clue_key_expand ring_crypto (clue_key_of ring_crypto (detection_key_from_field ring_crypto 6)) = Inr ek0
    \<and> create_clue ring_crypto 2 1 ek0 = Inr (cl0, ek, g0) \<and> create_clue ring_crypto 2 1 ek = Inr (cl, ek', g)
    \<and> examine ring_crypto (detection_key_from_field ring_crypto 6) cl = Inr True"
proof -
  let ?k = "detection_key_from_field ring_crypto 6"
  obtain ek0 where ek0: "clue_key_expand ring_crypto (clue_key_of ring_crypto ?k) = Inr ek0"
    by (simp add: clue_key_expand_def clue_key_of_def detection_key_from_field_def Let_def fr_number_less)
  obtain cl0 ek g0 where cl0: "create_clue ring_crypto 2 1 ek0 = Inr (cl0, ek, g0)" using demo_clue by blast
  obtain y cl ek' g where cl: "create_clue ring_crypto 2 1 ek = Inr (cl, ek', g)" "y \<noteq> 0"
    "cl = le_bytes 32 (fr_number 1) @ le_bytes 32 (fr_number y) @ [2] @ [0, 0, 0]"
    using demo_clue [of ek] by blast
  have "slice 0 32 cl \<noteq> el_compress ring_crypto (el_zero ring_crypto)"
    "slice 32 64 cl \<noteq> fr_to_bytes ring_crypto (fr_zero ring_crypto)"
    by (simp_all add: cl(3) slice_simps le_bytes_fr_inject cl(2))
  moreover have "foldR (\<lambda>(p, g) ek. bindR (create_clue ring_crypto p g ek) (\<lambda>(_, ek', _). Inr ek')) [(2, 1)] ek0 = Inr ek"
    by (simp only: foldR.simps prod.case cl0 bindR.simps)
  ultimately show ?thesis
    using fmd_no_false_negatives [OF ring_group_ok ring_encoding_ok ring_inverse_ok refl ek0 _ cl(1), of "[(2, 1)]"] ek0 cl0 cl(1) by auto
qed

section \<open>Proofs\<close>

definition demo_fvk :: full_viewing_key where
  "demo_fvk = \<lparr>fvk_ak = le_bytes 32 (fr_number 1), fvk_nk = 4,
     fvk_ovk = slice 0 32 (prf_expand ring_crypto ''Penumbra_ExpndVK'' (fq_to_bytes ring_crypto 4) (le_bytes 32 (fr_number 1))),
     fvk_ivk = \<lparr>ivk_secret = 5,
       ivk_dk = slice 32 64 (prf_expand ring_crypto ''Penumbra_ExpndVK'' (fq_to_bytes ring_crypto 4) (le_bytes 32 (fr_number 1)))\<rparr>\<rparr>"

definition demo_sk :: spend_key where
  "demo_sk = \<lparr>sk_seed = replicate 32 0, sk_ask = 1, sk_fvk = demo_fvk\<rparr>"

lemma demo_fvk_components: "fvk_from_components ring_crypto (le_bytes 32 (fr_number 1)) 4 = Inr demo_fvk"
proof -
  have "(4 + 1 :: fq) = 5" by simp
  then show ?thesis by (simp add: fvk_from_components_def Let_def demo_fvk_def)
qed

lemma demo_spendable: "spendable ring_crypto demo_sk demo_note"
proof -
  have "fr_number 1 \<noteq> 0" by (simp add: fr_ops)
  then show ?thesis
    using demo_fvk_components demo_note_ok by (simp add: spendable_def demo_sk_def) (simp add: demo_fvk_def demo_note_def)
qed

definition demo_nct :: nct where
  "demo_nct = [NctAppend (note_commit ring_crypto demo_note), NctWitness]"

lemma demo_path: "nct_auth_path ring_crypto demo_nct (note_commit ring_crypto demo_note)
    = Some (0, (sum_root demo_nct - note_commit ring_crypto demo_note) # replicate 31 0)"
  by (simp add: demo_nct_def)

definition demo_spend_body :: spend_body where
  "demo_spend_body = spend_body_new ring_crypto (value_commit ring_crypto (nt_value demo_note) 7) 1 8
     (0, (sum_root demo_nct - note_commit ring_crypto demo_note) # replicate 31 0) demo_note 7 4"

lemma demo_spend_verifies:
  "spend_proof_verify ring_crypto (sb_proof demo_spend_body) (sum_root demo_nct) (sb_value_commitment demo_spend_body)
     (sb_nullifier demo_spend_body) (sb_rk demo_spend_body) = Inr ()"
  using spend_body_new_verifies [OF demo_spendable ring_nct_ok demo_path, of 8 7] ring_rdsa_ok
  by (simp add: spend_built_def demo_spend_body_def rdsa_ok_def demo_sk_def demo_fvk_def)

theorem spend_proof_position_malleable_witness:
  "\<exists>p'. spend_proof_verify ring_crypto p' (sum_root demo_nct) (sb_value_commitment demo_spend_body)
      (derive_nullifier ring_crypto 4 (flip_bit 40 0) (note_commit ring_crypto demo_note)) (sb_rk demo_spend_body) = Inr ()
    \<and> spf_note_commitment p' = note_commit ring_crypto demo_note
    \<and> sb_nullifier demo_spend_body = derive_nullifier ring_crypto 4 0 (note_commit ring_crypto demo_note)"
proof -
  have "spf_position (sb_proof demo_spend_body) = 0" "spf_nk (sb_proof demo_spend_body) = 4"
    "spf_note_commitment (sb_proof demo_spend_body) = note_commit ring_crypto demo_note"
    by (simp_all add: demo_spend_body_def spend_body_new_def Let_def)
  with spend_proof_position_malleable [OF demo_spend_verifies, of 40] show ?thesis by fastforce
qed

section \<open>A transaction\<close>

definition demo_dest :: address where
  "demo_dest = \<lparr>ad_d = replicate 11 3, ad_g_d = 1, ad_pk_d = diversified_public ring_crypto 5 1, ad_cached_s = 5,
     ad_ck_d = replicate 32 0\<rparr>"

lemma demo_dest_ok: "address_ok ring_crypto demo_dest" "ad_g_d demo_dest \<noteq> el_zero ring_crypto"
  "el_decompress ring_crypto (ad_pk_d demo_dest) \<noteq> None"
  by (simp_all add: address_ok_def demo_dest_def diversified_public_def fr_number_less)

definition ring_ext :: ext where
  "ring_ext =
     \<lparr>x_crypto = ring_crypto, x_height = (\<lambda>h. if unat h < 2 ^ 63 then Some h else None),
      x_addr20 = (\<lambda>k. take 20 k), x_raw_ed25519 = (\<lambda>b. Some b), x_sig = (\<lambda>b. Inr b),
      x_verify_definition = (\<lambda>v b. True), x_encode_validator = (\<lambda>v. []), x_encode_tx = (\<lambda>tx. []),
      x_encode_sighash = (\<lambda>tx. [of_nat (length (sh_actions tx))])\<rparr>"

lemma ring_ext_crypto [simp]: "x_crypto ring_ext = ring_crypto"
  by (simp add: ring_ext_def)

text \<open>A note of 30 spent, an output of 25 and a fee of 5.\<close>

lemma demo_built:
  "\<exists>b. built ring_crypto demo_nct b \<and> (\<forall>i. net i (builder_terms ring_crypto b) = 0) \<and> bd_chain_id b = Some ''penumbra''
     \<and> bd_fee b = Some 5 \<and> bd_validator_definitions b = [] \<and> length (bd_spends b) = 1 \<and> length (bd_outputs b) = 1"
proof -
  let ?C = ring_crypto
  let ?b0 = "set_fee ?C 5 (set_chain_id ''penumbra'' (build_with_root ?C (nct_root ?C demo_nct)))"
  obtain b1 rg1 rsk body where b1: "add_spend ?C 1 demo_nct demo_sk demo_note ?b0 = Inr (b1, rg1)"
    "b1 = ?b0\<lparr>bd_synthetic_blinding_factor := bd_synthetic_blinding_factor b1, bd_value_balance := bd_value_balance b1,
       bd_value_commitments := bd_value_commitments b1, bd_spends := bd_spends ?b0 @ [(rsk, body)]\<rparr>"
    "spf_value (sb_proof body) = nt_value demo_note"
    by (rule add_spend_total [OF demo_path])
  obtain n b2 rg2 out where b2: "add_output_producing_note ?C rg1 demo_dest
        \<lparr>val_amount = 25, val_asset_id = staking_token_asset_id ?C\<rparr> (replicate 512 0) [] b1 = Inr (n, b2, rg2)"
    "b2 = b1\<lparr>bd_synthetic_blinding_factor := bd_synthetic_blinding_factor b2, bd_value_balance := bd_value_balance b2,
       bd_value_commitments := bd_value_commitments b2, bd_outputs := bd_outputs b1 @ [out]\<rparr>"
    "opf_value (out_proof out) = \<lparr>val_amount = 25, val_asset_id = staking_token_asset_id ?C\<rparr>"
    by (rule add_output_total [OF ring_encoding_ok ring_aead_ok demo_dest_ok(1) _ demo_dest_ok(3), of "replicate 512 0"]) simp
  have "built ?C demo_nct ?b0"
    by (intro b_fee b_chain_id b_new) (simp add: set_chain_id_def build_with_root_def)
  then have "built ?C demo_nct b2" using b_output [OF b_spend [OF _ demo_spendable b1(1)] demo_dest_ok(1,2) b2(1)] by blast
  moreover have sp: "bd_spends b2 = [(rsk, body)]" "bd_outputs b2 = [out]" "bd_fee b2 = Some 5" "bd_chain_id b2 = Some ''penumbra''"
    "bd_delegations b2 = []" "bd_undelegations b2 = []" "bd_validator_definitions b2 = []"
    by (subst b2(2), simp, subst b1(2), simp add: set_fee_def Let_def set_chain_id_def build_with_root_def)+
  moreover have "net i (builder_terms ?C b2) = 0" for i
    by (simp add: builder_terms_def sp b1(3) b2(3) demo_note_def net_def)
  ultimately show ?thesis by auto
qed

theorem built_transaction_accepted_witness:
  "\<exists>b tx b' rg'. built ring_crypto demo_nct b \<and> length (bd_spends b) = 1 \<and> builder_finalize ring_ext 0 b = Inr (tx, b', rg')
    \<and> pool_check_tx_stateless ring_ext tx = Inr () \<and> tb_fee (tx_body tx) = 5"
proof -
  obtain b where b: "built ring_crypto demo_nct b" "\<forall>i. net i (builder_terms ring_crypto b) = 0" "bd_chain_id b = Some ''penumbra''"
    "bd_fee b = Some 5" "bd_validator_definitions b = []" "length (bd_spends b) = 1"
    using demo_built by blast
  then have "distinct (map (\<lambda>(_, body). sb_nullifier body) (bd_spends b))" by (cases "bd_spends b") auto
  with built_transaction_accepted [of ring_ext demo_nct b "''penumbra''" 5 0] b ring_group_ok ring_nct_ok ring_rand_ok
    ring_embed_ok ring_rdsa_ok show ?thesis by auto
qed

text \<open>An address whose transmission key is a field element but not a group element, and its commission.\<close>

definition bad_address :: address where
  "bad_address = demo_dest\<lparr>ad_pk_d := le_bytes 32 fr_order, ad_cached_s := fq_of fr_order\<rparr>"

lemma bad_address_facts: "address_ok ring_crypto bad_address" "el_decompress ring_crypto (ad_pk_d bad_address) = None"
proof -
  have "le_nat (le_bytes 32 fr_order) = fr_order" by (simp add: le_nat_le_bytes fr_order_def)
  moreover have "fr_order < fq_order" by (simp add: fr_order_def fq_order_def)
  ultimately show "address_ok ring_crypto bad_address" "el_decompress ring_crypto (ad_pk_d bad_address) = None"
    using demo_dest_ok(1) by (simp_all add: bad_address_def address_ok_def)
qed

lemma undecodable_commission_address_halts_witness:
  "(\<exists>str. address_of_string ring_crypto str = Inr bad_address)
    \<and> (\<exists>err. pool_end_block ring_ext 9 (shielded_pool_new (empty_jmt\<lparr>j_commission := [9 \<mapsto> [\<lparr>ca_amount = 1, ca_destination = bad_address\<rparr>]]\<rparr>)) = Inl err)"
  using undecodable_commission_address_halts [of ring_ext bad_address
      "shielded_pool_new (empty_jmt\<lparr>j_commission := [9 \<mapsto> [\<lparr>ca_amount = 1, ca_destination = bad_address\<rparr>]]\<rparr>)" 9
      "[\<lparr>ca_amount = 1, ca_destination = bad_address\<rparr>]" "\<lparr>ca_amount = 1, ca_destination = bad_address\<rparr>"]
    ring_text_ok bad_address_facts
  by (simp add: commission_amounts_def shielded_pool_new_def)

section \<open>Amounts\<close>

theorem unit_value_roundtrip_witness:
  "\<exists>s. format_value \<lparr>un_inner = \<lparr>dn_id = 0, dn_base_denom = ''upenumbra'',
        dn_units = [\<lparr>ud_exponent = 6, ud_denom = ''penumbra''\<rparr>, \<lparr>ud_exponent = 0, ud_denom = ''upenumbra''\<rparr>]\<rparr>, un_index = 0\<rparr> 1500000 = Inr s
    \<and> parse_value \<lparr>un_inner = \<lparr>dn_id = 0, dn_base_denom = ''upenumbra'',
        dn_units = [\<lparr>ud_exponent = 6, ud_denom = ''penumbra''\<rparr>, \<lparr>ud_exponent = 0, ud_denom = ''upenumbra''\<rparr>]\<rparr>, un_index = 0\<rparr> s = Inr 1500000"
  by (rule unit_value_roundtrip [where e = 6]) (simp_all add: unit_exponent_def)

end
