(* ===== verification/Tx_Proto.thy ===== *)
theory Tx_Proto
  imports State
begin

text \<open>
  The protobuf form of transactions and compact blocks (\<open>transaction/src/transaction.rs\<close>, \<open>action.rs\<close>,
  \<open>action/\<close>, \<open>chain/src/sync.rs\<close>, the byte forms in \<open>crypto/src/proofs/transparent.rs\<close>).  The messages
  are records; the encoders and decoders that \<open>prost\<close> generates for them are parameters.
\<close>

section \<open>Messages\<close>

record output_body_pb =
  obp_note_commitment :: "bytes option"
  obp_ephemeral_key :: bytes
  obp_encrypted_note :: bytes

record output_pb =
  outp_body :: "output_body_pb option"
  outp_cv :: bytes
  outp_encrypted_memo :: bytes
  outp_ovk_wrapped_key :: bytes
  outp_zkproof :: bytes

record spend_body_pb =
  sbp_cv :: bytes
  sbp_nullifier :: bytes
  sbp_rk :: bytes
  sbp_zkproof :: bytes

record spend_pb =
  spp_body :: "spend_body_pb option"
  spp_auth_sig :: bytes

record delegation_pb =
  dgp_validator_identity :: "bytes option"
  dgp_epoch_index :: u64
  dgp_unbonded_amount :: u64
  dgp_delegation_amount :: u64

datatype action_pb =
    POutput output_pb
  | PSpend spend_pb
  | PDelegate delegation_pb
  | PUndelegate delegation_pb
  | PValidatorDefinition definition_pb
  | PIbcAction ibc_action

record transaction_body_pb =
  tbp_actions :: "action_pb option list"
  tbp_anchor :: bytes
  tbp_expiry_height :: u32
  tbp_chain_id :: string
  tbp_fee :: "u64 option"

record transaction_pb =
  txp_body :: "transaction_body_pb option"
  txp_binding_sig :: bytes

record compact_block_pb =
  cbp_height :: u64
  cbp_outputs :: "output_body_pb list"
  cbp_nullifiers :: "bytes list"

text \<open>The generated \<open>encode_to_vec\<close> and \<open>decode\<close>.\<close>

record prost =
  encode_spend_proof :: "spend_proof_pb \<Rightarrow> bytes"
  decode_spend_proof :: "bytes \<Rightarrow> spend_proof_pb option"
  encode_output_proof :: "output_proof_pb \<Rightarrow> bytes"
  decode_output_proof :: "bytes \<Rightarrow> output_proof_pb option"
  encode_transaction :: "transaction_pb \<Rightarrow> bytes"
  decode_transaction :: "bytes \<Rightarrow> transaction_pb option"

definition prost_ok :: "prost \<Rightarrow> bool" where
  "prost_ok R \<longleftrightarrow>
     (\<forall>m. decode_spend_proof R (encode_spend_proof R m) = Some m)
     \<and> (\<forall>m. decode_output_proof R (encode_output_proof R m) = Some m)
     \<and> (\<forall>m. decode_transaction R (encode_transaction R m) = Some m)"

text \<open>\<open>map_err(|_| anyhow!(..))\<close>\<close>

definition or_err :: "string \<Rightarrow> 'a result \<Rightarrow> 'a result" where
  "or_err text m = (case m of Inl (Err _) \<Rightarrow> Inl (Err text) | _ \<Rightarrow> m)"

section \<open>Proofs\<close>

definition spend_proof_to_bytes :: "crypto \<Rightarrow> prost \<Rightarrow> spend_proof \<Rightarrow> bytes" where
  "spend_proof_to_bytes C R p = encode_spend_proof R (spend_proof_to_proto C p)"

definition spend_proof_of_slice :: "crypto \<Rightarrow> prost \<Rightarrow> bytes \<Rightarrow> spend_proof result" where
  "spend_proof_of_slice C R b = bindR (malformed (decode_spend_proof R b)) (spend_proof_of_proto C)"

definition output_proof_to_bytes :: "crypto \<Rightarrow> prost \<Rightarrow> output_proof \<Rightarrow> bytes" where
  "output_proof_to_bytes C R p = encode_output_proof R (output_proof_to_proto C p)"

definition output_proof_of_slice :: "crypto \<Rightarrow> prost \<Rightarrow> bytes \<Rightarrow> output_proof result" where
  "output_proof_of_slice C R b = bindR (malformed (decode_output_proof R b)) (output_proof_of_proto C)"

section \<open>Outputs\<close>

definition output_body_to_proto :: "crypto \<Rightarrow> output_body \<Rightarrow> output_body_pb" where
  "output_body_to_proto C b =
     \<lparr>obp_note_commitment = Some (note_commitment_to_bytes C (ob_note_commitment b)),
      obp_ephemeral_key = ob_ephemeral_key b, obp_encrypted_note = ob_encrypted_note b\<rparr>"

definition output_body_of_proto :: "crypto \<Rightarrow> output_body_pb \<Rightarrow> output_body result" where
  "output_body_of_proto C m =
     bindR (ok_or (Err ''missing note commitment'') (obp_note_commitment m)) (\<lambda>cm.
     bindR (note_commitment_of_bytes C cm) (\<lambda>cm.
     bindR (or_err ''output body malformed'' (ka_public_of_slice (obp_ephemeral_key m))) (\<lambda>epk.
     bindR (ok_or (Err ''output body malformed'') (array 132 (obp_encrypted_note m))) (\<lambda>enc.
     Inr \<lparr>ob_note_commitment = cm, ob_ephemeral_key = epk, ob_encrypted_note = enc\<rparr>))))"

definition output_to_proto :: "crypto \<Rightarrow> prost \<Rightarrow> tx_output \<Rightarrow> output_pb" where
  "output_to_proto C R out =
     \<lparr>outp_body = Some (output_body_to_proto C (out_body out)),
      outp_cv = value_commitment_to_bytes C (out_value_commitment out),
      outp_encrypted_memo = out_encrypted_memo out, outp_ovk_wrapped_key = out_ovk_wrapped_key out,
      outp_zkproof = output_proof_to_bytes C R (out_proof out)\<rparr>"

definition output_of_proto :: "crypto \<Rightarrow> prost \<Rightarrow> output_pb \<Rightarrow> tx_output result" where
  "output_of_proto C R m =
     bindR (ok_or (Err ''missing output body'') (outp_body m)) (\<lambda>body.
     bindR (contextR ''output body malformed'' (output_body_of_proto C body)) (\<lambda>body.
     bindR (ok_or (Err ''output malformed'') (array 528 (outp_encrypted_memo m))) (\<lambda>memo.
     bindR (ok_or (Err ''output malformed'') (array 80 (outp_ovk_wrapped_key m))) (\<lambda>key.
     bindR (or_err ''output body malformed'' (value_commitment_of_slice C (outp_cv m))) (\<lambda>cv.
     bindR (or_err ''output body malformed'' (output_proof_of_slice C R (outp_zkproof m))) (\<lambda>proof.
     Inr \<lparr>out_body = body, out_value_commitment = cv, out_encrypted_memo = memo, out_ovk_wrapped_key = key,
          out_proof = proof\<rparr>))))))"

section \<open>Spends\<close>

definition spend_body_to_proto :: "crypto \<Rightarrow> prost \<Rightarrow> spend_body \<Rightarrow> spend_body_pb" where
  "spend_body_to_proto C R b =
     \<lparr>sbp_cv = value_commitment_to_bytes C (sb_value_commitment b), sbp_nullifier = nullifier_to_bytes C (sb_nullifier b),
      sbp_rk = sb_rk b, sbp_zkproof = spend_proof_to_bytes C R (sb_proof b)\<rparr>"

definition spend_body_of_proto :: "crypto \<Rightarrow> prost \<Rightarrow> spend_body_pb \<Rightarrow> spend_body result" where
  "spend_body_of_proto C R m =
     bindR (or_err ''spend body malformed'' (value_commitment_of_slice C (sbp_cv m))) (\<lambda>cv.
     bindR (or_err ''spend body malformed'' (nullifier_of_slice C (sbp_nullifier m))) (\<lambda>nf.
     bindR (ok_or (Err ''spend body malformed'') (array 32 (sbp_rk m))) (\<lambda>rk_bytes.
     bindR (ok_or (Err ''spend body malformed'') (vk_parse C rk_bytes)) (\<lambda>rk.
     bindR (or_err ''spend body malformed'' (spend_proof_of_slice C R (sbp_zkproof m))) (\<lambda>proof.
     Inr \<lparr>sb_value_commitment = cv, sb_nullifier = nf, sb_rk = rk, sb_proof = proof\<rparr>)))))"

definition spend_to_proto :: "crypto \<Rightarrow> prost \<Rightarrow> spend \<Rightarrow> spend_pb" where
  "spend_to_proto C R sp =
     \<lparr>spp_body = Some (spend_body_to_proto C R (sp_body sp)), spp_auth_sig = sp_auth_sig sp\<rparr>"

definition spend_of_proto :: "crypto \<Rightarrow> prost \<Rightarrow> spend_pb \<Rightarrow> spend result" where
  "spend_of_proto C R m =
     bindR (ok_or (Err ''spend body malformed'') (spp_body m)) (\<lambda>body.
     bindR (or_err ''spend body malformed'' (spend_body_of_proto C R body)) (\<lambda>body.
     bindR (ok_or (Err ''spend body malformed'') (array 64 (spp_auth_sig m))) (\<lambda>sig.
     Inr \<lparr>sp_body = body, sp_auth_sig = sig\<rparr>)))"

section \<open>Delegations\<close>

text \<open>The bytes of an identity key, which the model represents by its text.\<close>

definition identity_key_to_proto :: "crypto \<Rightarrow> identity_key \<Rightarrow> bytes" where
  "identity_key_to_proto C ik = (case bech32str_decode C ik ''penumbravalid'' of Inr b \<Rightarrow> b | Inl _ \<Rightarrow> [])"

definition delegate_to_proto :: "crypto \<Rightarrow> delegate \<Rightarrow> delegation_pb" where
  "delegate_to_proto C d =
     \<lparr>dgp_validator_identity = Some (identity_key_to_proto C (d_validator_identity d)), dgp_epoch_index = d_epoch_index d,
      dgp_unbonded_amount = d_unbonded_amount d, dgp_delegation_amount = d_delegation_amount d\<rparr>"

definition delegate_of_proto :: "crypto \<Rightarrow> delegation_pb \<Rightarrow> delegate result" where
  "delegate_of_proto C m =
     bindR (ok_or (Err ''missing validator identity'') (dgp_validator_identity m)) (\<lambda>ik.
     bindR (identity_key_of_proto C ik) (\<lambda>ik.
     Inr \<lparr>d_validator_identity = ik, d_epoch_index = dgp_epoch_index m, d_unbonded_amount = dgp_unbonded_amount m,
          d_delegation_amount = dgp_delegation_amount m\<rparr>))"

definition undelegate_to_proto :: "crypto \<Rightarrow> undelegate \<Rightarrow> delegation_pb" where
  "undelegate_to_proto C u =
     \<lparr>dgp_validator_identity = Some (identity_key_to_proto C (u_validator_identity u)), dgp_epoch_index = u_epoch_index u,
      dgp_unbonded_amount = u_unbonded_amount u, dgp_delegation_amount = u_delegation_amount u\<rparr>"

definition undelegate_of_proto :: "crypto \<Rightarrow> delegation_pb \<Rightarrow> undelegate result" where
  "undelegate_of_proto C m =
     bindR (ok_or (Err ''missing validator identity'') (dgp_validator_identity m)) (\<lambda>ik.
     bindR (identity_key_of_proto C ik) (\<lambda>ik.
     Inr \<lparr>u_validator_identity = ik, u_epoch_index = dgp_epoch_index m, u_unbonded_amount = dgp_unbonded_amount m,
          u_delegation_amount = dgp_delegation_amount m\<rparr>))"

section \<open>Actions and transactions\<close>

fun action_to_proto :: "crypto \<Rightarrow> prost \<Rightarrow> action \<Rightarrow> action_pb option" where
  "action_to_proto C R (Output out) = Some (POutput (output_to_proto C R out))"
| "action_to_proto C R (Spend sp) = Some (PSpend (spend_to_proto C R sp))"
| "action_to_proto C R (Delegate d) = Some (PDelegate (delegate_to_proto C d))"
| "action_to_proto C R (Undelegate u) = Some (PUndelegate (undelegate_to_proto C u))"
| "action_to_proto C R (ValidatorDefinition vd) = Some (PValidatorDefinition vd)"
| "action_to_proto C R (IBCAction i) = Some (PIbcAction i)"

fun action_of_proto :: "crypto \<Rightarrow> prost \<Rightarrow> action_pb option \<Rightarrow> action result" where
  "action_of_proto C R None = Inl (Err ''missing action content'')"
| "action_of_proto C R (Some (POutput m)) = bindR (output_of_proto C R m) (\<lambda>out. Inr (Output out))"
| "action_of_proto C R (Some (PSpend m)) = bindR (spend_of_proto C R m) (\<lambda>sp. Inr (Spend sp))"
| "action_of_proto C R (Some (PDelegate m)) = bindR (delegate_of_proto C m) (\<lambda>d. Inr (Delegate d))"
| "action_of_proto C R (Some (PUndelegate m)) = bindR (undelegate_of_proto C m) (\<lambda>u. Inr (Undelegate u))"
| "action_of_proto C R (Some (PValidatorDefinition vd)) = Inr (ValidatorDefinition vd)"
| "action_of_proto C R (Some (PIbcAction i)) = Inr (IBCAction i)"

definition transaction_body_to_proto :: "crypto \<Rightarrow> prost \<Rightarrow> transaction_body \<Rightarrow> transaction_body_pb" where
  "transaction_body_to_proto C R b =
     \<lparr>tbp_actions = map (action_to_proto C R) (tb_actions b), tbp_anchor = fq_to_bytes C (tb_merkle_root b),
      tbp_expiry_height = tb_expiry_height b, tbp_chain_id = tb_chain_id b, tbp_fee = Some (tb_fee b)\<rparr>"

definition transaction_body_of_proto :: "crypto \<Rightarrow> prost \<Rightarrow> transaction_body_pb \<Rightarrow> transaction_body result" where
  "transaction_body_of_proto C R m =
     bindR (mapR (\<lambda>a. or_err ''transaction body malformed'' (action_of_proto C R a)) (tbp_actions m)) (\<lambda>actions.
     bindR (or_err ''transaction body malformed'' (merkle_root_of_slice C (tbp_anchor m))) (\<lambda>merkle_root.
     bindR (ok_or (Err ''transaction body malformed'') (tbp_fee m)) (\<lambda>fee.
     Inr \<lparr>tb_actions = actions, tb_merkle_root = merkle_root, tb_expiry_height = tbp_expiry_height m,
          tb_chain_id = tbp_chain_id m, tb_fee = fee\<rparr>)))"

definition transaction_to_proto :: "crypto \<Rightarrow> prost \<Rightarrow> transaction \<Rightarrow> transaction_pb" where
  "transaction_to_proto C R tx =
     \<lparr>txp_body = Some (transaction_body_to_proto C R (tx_body tx)), txp_binding_sig = tx_binding_sig tx\<rparr>"

definition transaction_of_proto :: "crypto \<Rightarrow> prost \<Rightarrow> transaction_pb \<Rightarrow> transaction result" where
  "transaction_of_proto C R m =
     bindR (ok_or (Err ''transaction malformed'') (txp_body m)) (\<lambda>body.
     bindR (or_err ''transaction body malformed'' (transaction_body_of_proto C R body)) (\<lambda>body.
     bindR (ok_or (Err ''transaction malformed'') (array 64 (txp_binding_sig m))) (\<lambda>sig.
     Inr \<lparr>tx_body = body, tx_binding_sig = sig\<rparr>)))"

definition transaction_to_bytes :: "crypto \<Rightarrow> prost \<Rightarrow> transaction \<Rightarrow> bytes" where
  "transaction_to_bytes C R tx = encode_transaction R (transaction_to_proto C R tx)"

definition transaction_of_slice :: "crypto \<Rightarrow> prost \<Rightarrow> bytes \<Rightarrow> transaction result" where
  "transaction_of_slice C R b =
     bindR (ok_or (Err ''transaction malformed'') (decode_transaction R b)) (\<lambda>m.
     or_err ''transaction malformed'' (transaction_of_proto C R m))"

text \<open>
  The conversion of a borrowed transaction is meant to clone it, but \<open>msg.into()\<close> resolves to the
  conversion itself; \<open>From<&Transaction> for Vec<u8>\<close> calls it.
\<close>

partial_function (option) transaction_ref_to_proto :: "transaction \<Rightarrow> transaction_pb option" where
  "transaction_ref_to_proto msg = transaction_ref_to_proto msg"

definition transaction_ref_to_bytes :: "prost \<Rightarrow> transaction \<Rightarrow> bytes option" where
  "transaction_ref_to_bytes R tx = Option.bind (transaction_ref_to_proto tx) (\<lambda>m. Some (encode_transaction R m))"

section \<open>Compact blocks\<close>

definition compact_block_to_proto :: "crypto \<Rightarrow> compact_block \<Rightarrow> compact_block_pb" where
  "compact_block_to_proto C cb =
     \<lparr>cbp_height = cb_height cb, cbp_outputs = map (output_body_to_proto C) (cb_outputs cb),
      cbp_nullifiers = map (nullifier_to_bytes C) (cb_nullifiers cb)\<rparr>"

definition compact_block_of_proto :: "crypto \<Rightarrow> compact_block_pb \<Rightarrow> compact_block result" where
  "compact_block_of_proto C m =
     bindR (mapR (output_body_of_proto C) (cbp_outputs m)) (\<lambda>outputs.
     bindR (mapR (nullifier_of_slice C) (cbp_nullifiers m)) (\<lambda>nullifiers.
     Inr \<lparr>cb_height = cbp_height m, cb_outputs = outputs, cb_nullifiers = nullifiers\<rparr>))"

section \<open>The forms read back\<close>

text \<open>What the types ensure: the lengths of the arrays and keys that are keys.\<close>

definition output_body_wire :: "output_body \<Rightarrow> bool" where
  "output_body_wire b \<longleftrightarrow> length (ob_ephemeral_key b) = 32 \<and> length (ob_encrypted_note b) = 132"

definition output_wire :: "tx_output \<Rightarrow> bool" where
  "output_wire out \<longleftrightarrow> output_body_wire (out_body out) \<and> length (out_encrypted_memo out) = 528
     \<and> length (out_ovk_wrapped_key out) = 80 \<and> length (opf_pk_d (out_proof out)) = 32"

definition key_wire :: "crypto \<Rightarrow> verification_key \<Rightarrow> bool" where
  "key_wire C k \<longleftrightarrow> length k = 32 \<and> vk_parse C k = Some k"

definition spend_body_wire :: "crypto \<Rightarrow> spend_body \<Rightarrow> bool" where
  "spend_body_wire C b \<longleftrightarrow> key_wire C (sb_rk b) \<and> key_wire C (spf_ak (sb_proof b))
     \<and> length (spf_pk_d (sb_proof b)) = 32 \<and> unat (fst (spf_merkle_path (sb_proof b))) < 2 ^ 32"

definition identity_wire :: "crypto \<Rightarrow> identity_key \<Rightarrow> bool" where
  "identity_wire C ik \<longleftrightarrow> (\<exists>b. vk_parse C b = Some b \<and> ik = bech32str_encode C b ''penumbravalid'')"

fun action_wire :: "crypto \<Rightarrow> action \<Rightarrow> bool" where
  "action_wire C (Output out) \<longleftrightarrow> output_wire out"
| "action_wire C (Spend sp) \<longleftrightarrow> spend_body_wire C (sp_body sp) \<and> length (sp_auth_sig sp) = 64"
| "action_wire C (Delegate d) \<longleftrightarrow> identity_wire C (d_validator_identity d)"
| "action_wire C (Undelegate u) \<longleftrightarrow> identity_wire C (u_validator_identity u)"
| "action_wire C (ValidatorDefinition vd) \<longleftrightarrow> True"
| "action_wire C (IBCAction i) \<longleftrightarrow> True"

definition tx_wire :: "crypto \<Rightarrow> transaction \<Rightarrow> bool" where
  "tx_wire C tx \<longleftrightarrow> (\<forall>a \<in> set (actions tx). action_wire C a) \<and> length (tx_binding_sig tx) = 64"

lemma or_err_Inr [simp]: "or_err t (Inr x) = Inr x"
  by (simp add: or_err_def)

lemma mapR_map_Inr: "\<forall>x \<in> set xs. f (g x) = Inr x \<Longrightarrow> mapR f (map g xs) = Inr xs"
  by (induction xs) simp_all

lemma byte_fields_roundtrip:
  assumes "encoding_ok C"
  shows "note_commitment_of_bytes C (note_commitment_to_bytes C c) = Inr c" "nullifier_of_slice C (nullifier_to_bytes C nf) = Inr nf"
    "value_commitment_of_slice C (value_commitment_to_bytes C e) = Inr e" "merkle_root_of_slice C (fq_to_bytes C r) = Inr r"
  using encoding_laws [OF assms]
  by (simp_all add: note_commitment_of_bytes_def note_commitment_to_bytes_def nullifier_of_slice_def nullifier_to_bytes_def
      value_commitment_of_slice_def value_commitment_to_bytes_def merkle_root_of_slice_def)

lemma output_body_roundtrip:
  assumes "encoding_ok C" and "output_body_wire b"
  shows "output_body_of_proto C (output_body_to_proto C b) = Inr b"
  using assms by (simp add: output_body_of_proto_def output_body_to_proto_def output_body_wire_def byte_fields_roundtrip ka_public_of_slice_def)

lemma output_proof_bytes_roundtrip:
  assumes "encoding_ok C" and "prost_ok R" and "length (opf_pk_d p) = 32"
  shows "output_proof_of_slice C R (output_proof_to_bytes C R p) = Inr p"
  using assms
  by (simp add: output_proof_of_slice_def output_proof_to_bytes_def prost_ok_def malformed_def output_proof_proto_roundtrip)

lemma spend_proof_bytes_roundtrip:
  assumes "encoding_ok C" and "prost_ok R" and "length (spf_pk_d p) = 32" and "key_wire C (spf_ak p)"
    and "unat (fst (spf_merkle_path p)) < 2 ^ 32"
  shows "spend_proof_of_slice C R (spend_proof_to_bytes C R p) = Inr p"
  using assms
  by (simp add: spend_proof_of_slice_def spend_proof_to_bytes_def prost_ok_def malformed_def spend_proof_proto_roundtrip key_wire_def)

lemma identity_key_proto_roundtrip:
  assumes "text_ok C" and "identity_wire C ik"
  shows "identity_key_of_proto C (identity_key_to_proto C ik) = Inr ik"
  using assms by (auto simp: identity_wire_def identity_key_of_proto_def identity_key_to_proto_def bech32str_roundtrip)

lemma action_proto_roundtrip:
  assumes "encoding_ok C" and "prost_ok R" and "text_ok C" and "action_wire C a"
  shows "action_of_proto C R (action_to_proto C R a) = Inr a"
proof (cases a)
  case (Output out)
  then show ?thesis using assms
    by (simp add: output_of_proto_def output_to_proto_def output_wire_def output_body_roundtrip byte_fields_roundtrip
        output_proof_bytes_roundtrip)
next
  case (Spend sp)
  then have "spend_body_of_proto C R (spend_body_to_proto C R (sp_body sp)) = Inr (sp_body sp)"
    using assms byte_fields_roundtrip [OF assms(1)] spend_proof_bytes_roundtrip [OF assms(1,2), of "sb_proof (sp_body sp)"]
    by (simp add: spend_body_of_proto_def spend_body_to_proto_def spend_body_wire_def key_wire_def)
  then show ?thesis using assms Spend by (simp add: spend_of_proto_def spend_to_proto_def)
next
  case (Delegate d)
  then show ?thesis using assms by (simp add: delegate_of_proto_def delegate_to_proto_def identity_key_proto_roundtrip)
next
  case (Undelegate u)
  then show ?thesis using assms by (simp add: undelegate_of_proto_def undelegate_to_proto_def identity_key_proto_roundtrip)
qed simp_all

text \<open>A transaction reads back from its bytes.\<close>

lemma transaction_bytes_roundtrip:
  assumes "encoding_ok C" and R: "prost_ok R" and "text_ok C" and tx: "tx_wire C tx"
  shows "transaction_of_slice C R (transaction_to_bytes C R tx) = Inr tx"
proof -
  have "mapR (\<lambda>a. or_err ''transaction body malformed'' (action_of_proto C R a)) (map (action_to_proto C R) (actions tx)) = Inr (actions tx)"
    using assms action_proto_roundtrip by (intro mapR_map_Inr) (auto simp: tx_wire_def)
  then have "transaction_body_of_proto C R (transaction_body_to_proto C R (tx_body tx)) = Inr (tx_body tx)"
    using byte_fields_roundtrip [OF assms(1)]
    by (simp add: transaction_body_of_proto_def transaction_body_to_proto_def actions_def)
  then show ?thesis
    using R tx by (simp add: transaction_of_slice_def transaction_to_bytes_def prost_ok_def transaction_of_proto_def
        transaction_to_proto_def tx_wire_def)
qed

lemma compact_block_roundtrip:
  assumes "encoding_ok C" and "\<forall>b \<in> set (cb_outputs cb). output_body_wire b"
  shows "compact_block_of_proto C (compact_block_to_proto C cb) = Inr cb"
proof -
  have "mapR (output_body_of_proto C) (map (output_body_to_proto C) (cb_outputs cb)) = Inr (cb_outputs cb)"
    using assms by (intro mapR_map_Inr) (simp add: output_body_roundtrip)
  moreover have "mapR (nullifier_of_slice C) (map (nullifier_to_bytes C) (cb_nullifiers cb)) = Inr (cb_nullifiers cb)"
    using byte_fields_roundtrip [OF assms(1)] by (intro mapR_map_Inr) simp
  ultimately show ?thesis by (simp add: compact_block_of_proto_def compact_block_to_proto_def)
qed

text \<open>The conversion of a borrowed transaction never returns.\<close>

lemma transaction_ref_diverges: "transaction_ref_to_proto tx = None" "transaction_ref_to_bytes R tx = None"
proof -
  have "False" if "transaction_ref_to_proto tx = Some m" for m
    by (rule transaction_ref_to_proto.raw_induct [of "\<lambda>_ _. False", OF _ that]) blast
  then show "transaction_ref_to_proto tx = None" by (cases "transaction_ref_to_proto tx") auto
  then show "transaction_ref_to_bytes R tx = None" by (simp add: transaction_ref_to_bytes_def)
qed

end
