(* ===== verification/Wire_Witnesses.thy ===== *)
theory Wire_Witnesses
  imports Tx_Proto "HOL-Library.Countable"
begin

text \<open>
  An instance of the protobuf encoding: the messages are countable, and message number \<open>n\<close> is encoded as
  \<open>n\<close> bytes.
\<close>

instance ibc_action :: countable
  by countable_datatype

instance funding_stream_pb_ext :: (countable) countable
proof (rule countable_classI)
  show "to_nat (fspb_address r, fspb_rate_bps r, funding_stream_pb.more r) = to_nat (fspb_address s, fspb_rate_bps s, funding_stream_pb.more s) \<Longrightarrow> r = s"
    for r s :: "'a funding_stream_pb_scheme" by simp
qed

instance validator_pb_ext :: (countable) countable
proof (rule countable_classI)
  show "to_nat (vpb_identity_key r, vpb_consensus_key r, vpb_name r, vpb_website r, vpb_description r, vpb_funding_streams r, vpb_sequence_number r, validator_pb.more r) = to_nat (vpb_identity_key s, vpb_consensus_key s, vpb_name s, vpb_website s, vpb_description s, vpb_funding_streams s, vpb_sequence_number s, validator_pb.more s) \<Longrightarrow> r = s"
    for r s :: "'a validator_pb_scheme" by simp
qed

instance definition_pb_ext :: (countable) countable
proof (rule countable_classI)
  show "to_nat (dpb_validator r, dpb_auth_sig r, definition_pb.more r) = to_nat (dpb_validator s, dpb_auth_sig s, definition_pb.more s) \<Longrightarrow> r = s"
    for r s :: "'a definition_pb_scheme" by simp
qed

instance output_body_pb_ext :: (countable) countable
proof (rule countable_classI)
  show "to_nat (obp_note_commitment r, obp_ephemeral_key r, obp_encrypted_note r, output_body_pb.more r) = to_nat (obp_note_commitment s, obp_ephemeral_key s, obp_encrypted_note s, output_body_pb.more s) \<Longrightarrow> r = s"
    for r s :: "'a output_body_pb_scheme" by simp
qed

instance output_pb_ext :: (countable) countable
proof (rule countable_classI)
  show "to_nat (outp_body r, outp_cv r, outp_encrypted_memo r, outp_ovk_wrapped_key r, outp_zkproof r, output_pb.more r) = to_nat (outp_body s, outp_cv s, outp_encrypted_memo s, outp_ovk_wrapped_key s, outp_zkproof s, output_pb.more s) \<Longrightarrow> r = s"
    for r s :: "'a output_pb_scheme" by simp
qed

instance spend_body_pb_ext :: (countable) countable
proof (rule countable_classI)
  show "to_nat (sbp_cv r, sbp_nullifier r, sbp_rk r, sbp_zkproof r, spend_body_pb.more r) = to_nat (sbp_cv s, sbp_nullifier s, sbp_rk s, sbp_zkproof s, spend_body_pb.more s) \<Longrightarrow> r = s"
    for r s :: "'a spend_body_pb_scheme" by simp
qed

instance spend_pb_ext :: (countable) countable
proof (rule countable_classI)
  show "to_nat (spp_body r, spp_auth_sig r, spend_pb.more r) = to_nat (spp_body s, spp_auth_sig s, spend_pb.more s) \<Longrightarrow> r = s"
    for r s :: "'a spend_pb_scheme" by simp
qed

instance delegation_pb_ext :: (countable) countable
proof (rule countable_classI)
  show "to_nat (dgp_validator_identity r, dgp_epoch_index r, dgp_unbonded_amount r, dgp_delegation_amount r, delegation_pb.more r) = to_nat (dgp_validator_identity s, dgp_epoch_index s, dgp_unbonded_amount s, dgp_delegation_amount s, delegation_pb.more s) \<Longrightarrow> r = s"
    for r s :: "'a delegation_pb_scheme" by simp
qed

instance action_pb :: countable
  by countable_datatype

instance transaction_body_pb_ext :: (countable) countable
proof (rule countable_classI)
  show "to_nat (tbp_actions r, tbp_anchor r, tbp_expiry_height r, tbp_chain_id r, tbp_fee r, transaction_body_pb.more r) = to_nat (tbp_actions s, tbp_anchor s, tbp_expiry_height s, tbp_chain_id s, tbp_fee s, transaction_body_pb.more s) \<Longrightarrow> r = s"
    for r s :: "'a transaction_body_pb_scheme" by simp
qed

instance transaction_pb_ext :: (countable) countable
proof (rule countable_classI)
  show "to_nat (txp_body r, txp_binding_sig r, transaction_pb.more r) = to_nat (txp_body s, txp_binding_sig s, transaction_pb.more s) \<Longrightarrow> r = s"
    for r s :: "'a transaction_pb_scheme" by simp
qed

instance spend_proof_pb_ext :: (countable) countable
proof (rule countable_classI)
  show "to_nat (spb_merkle_path_field_0 r, spb_merkle_path_field_1 r, spb_position r, spb_g_d r, spb_pk_d r, spb_value_amount r, spb_value_asset_id r, spb_v_blinding r, spb_note_commitment r, spb_note_blinding r, spb_spend_auth_randomizer r, spb_ak r, spb_nk r, spend_proof_pb.more r) = to_nat (spb_merkle_path_field_0 s, spb_merkle_path_field_1 s, spb_position s, spb_g_d s, spb_pk_d s, spb_value_amount s, spb_value_asset_id s, spb_v_blinding s, spb_note_commitment s, spb_note_blinding s, spb_spend_auth_randomizer s, spb_ak s, spb_nk s, spend_proof_pb.more s) \<Longrightarrow> r = s"
    for r s :: "'a spend_proof_pb_scheme" by simp
qed

instance output_proof_pb_ext :: (countable) countable
proof (rule countable_classI)
  show "to_nat (opb_g_d r, opb_pk_d r, opb_value_amount r, opb_value_asset_id r, opb_v_blinding r, opb_note_blinding r, opb_esk r, output_proof_pb.more r) = to_nat (opb_g_d s, opb_pk_d s, opb_value_amount s, opb_value_asset_id s, opb_v_blinding s, opb_note_blinding s, opb_esk s, output_proof_pb.more s) \<Longrightarrow> r = s"
    for r s :: "'a output_proof_pb_scheme" by simp
qed

definition unary_bytes :: "'a :: countable \<Rightarrow> bytes" where
  "unary_bytes m = replicate (to_nat m) 0"

definition of_unary_bytes :: "bytes \<Rightarrow> 'a :: countable option" where
  "of_unary_bytes b = Some (from_nat (length b))"

definition unary_prost :: prost where
  "unary_prost =
     \<lparr>encode_spend_proof = unary_bytes, decode_spend_proof = of_unary_bytes, encode_output_proof = unary_bytes,
      decode_output_proof = of_unary_bytes, encode_transaction = unary_bytes, decode_transaction = of_unary_bytes\<rparr>"

lemma unary_prost_ok: "prost_ok unary_prost"
  by (simp add: prost_ok_def unary_prost_def unary_bytes_def of_unary_bytes_def)

end
