(* ===== verification/Wallet.thy ===== *)
theory Wallet
  imports Tx_Builder State "HOL-Library.List_Lexorder" "HOL-Library.Char_ord"
begin

text \<open>
  The wallet: its keys and addresses (\<open>wallet/src/wallet.rs\<close>) and the client's view of the chain
  (\<open>wallet/src/state.rs\<close>): choosing notes, building transactions, scanning blocks.

  A method with \<open>&mut self\<close> that can fail returns its result and the state, because the changes made
  before an error stay; \<open>bindS\<close> is the \<open>?\<close> operator there.  The clock is an argument.
\<close>

section \<open>Fallible operations on a state\<close>

fun foldS :: "('x \<Rightarrow> 'a \<Rightarrow> 's \<Rightarrow> 'a result \<times> 's) \<Rightarrow> 'x list \<Rightarrow> 'a \<Rightarrow> 's \<Rightarrow> 'a result \<times> 's" where
  "foldS f [] a s = (Inr a, s)"
| "foldS f (x # xs) a s = bindS (f x a s) (foldS f xs)"

section \<open>Keys and addresses\<close>

record wallet =
  wl_address_labels :: "string list"
  wl_spend_key :: spend_key

definition wallet_import :: "crypto \<Rightarrow> bytes \<Rightarrow> wallet result" where
  "wallet_import C spend_seed =
     bindR (spend_key_new C spend_seed) (\<lambda>sk. Inr \<lparr>wl_address_labels = [''Default''], wl_spend_key = sk\<rparr>)"

definition wallet_fvk :: "wallet \<Rightarrow> full_viewing_key" where
  "wallet_fvk w = sk_fvk (wl_spend_key w)"

definition wallet_ivk :: "wallet \<Rightarrow> incoming_viewing_key" where
  "wallet_ivk w = fvk_ivk (wallet_fvk w)"

definition wallet_ovk :: "wallet \<Rightarrow> bytes" where
  "wallet_ovk w = fvk_ovk (wallet_fvk w)"

definition new_address :: "crypto \<Rightarrow> string \<Rightarrow> wallet \<Rightarrow> ((nat \<times> address \<times> detection_key) \<times> wallet) result" where
  "new_address C label w =
     (let next_index = length (wl_address_labels w);
          w = w\<lparr>wl_address_labels := wl_address_labels w @ [label]\<rparr> in
      bindR (payment_address C (wallet_ivk w) (diversifier_index_of_u64 (of_nat next_index))) (\<lambda>(a, dtk).
      Inr ((next_index, a, dtk), w)))"

definition address_by_index :: "crypto \<Rightarrow> wallet \<Rightarrow> nat \<Rightarrow> (string \<times> address) result" where
  "address_by_index C w i =
     (if i < length (wl_address_labels w) then
        bindR (payment_address C (wallet_ivk w) (diversifier_index_of_u64 (of_nat i))) (\<lambda>(a, _).
        Inr (wl_address_labels w ! i, a))
      else Inl (Err ''no address with index''))"

definition addresses :: "crypto \<Rightarrow> wallet \<Rightarrow> (nat \<times> string \<times> address) list result" where
  "addresses C w =
     mapR (\<lambda>(i, label).
       bindR (payment_address C (wallet_ivk w) (diversifier_index_of_u64 (of_nat i))) (\<lambda>(a, _). Inr (i, label, a)))
       (enumerate 0 (wl_address_labels w))"

definition change_address :: "crypto \<Rightarrow> wallet \<Rightarrow> note_t \<Rightarrow> address result" where
  "change_address C w n =
     bindR (contextR ''cannot convert DiversifierIndex to u64''
              (u64_of_diversifier_index (index_for_diversifier C (ivk_dk (wallet_ivk w)) (nt_diversifier n)))) (\<lambda>i.
     bindR (address_by_index C w (unat i)) (\<lambda>(_, a). Inr a))"

section \<open>The state of the client\<close>

text \<open>\<open>SystemTime\<close>, in seconds.\<close>

type_synonym system_time = nat

definition SUBMITTED_TRANSACTION_TIMEOUT :: nat where
  "SUBMITTED_TRANSACTION_TIMEOUT = 60"

record client_state =
  cs_last_block_height :: "u64 option"
  cs_nct :: nct
  cs_nullifier_map :: "(nullifier, note_commitment) btree"
  cs_unspent_set :: "(note_commitment, note_t) btree"
  cs_submitted_spend_set :: "(note_commitment, system_time \<times> note_t) btree"
  cs_submitted_change_set :: "(note_commitment, system_time \<times> note_t) btree"
  cs_spent_set :: "(note_commitment, note_t) btree"
  cs_transactions :: "(note_commitment, bytes option) btree"
  cs_asset_cache :: asset_cache
  cs_wallet :: wallet
  cs_chain_params :: "chain_params option"

definition client_state_new :: "wallet \<Rightarrow> client_state" where
  "client_state_new w =
     \<lparr>cs_last_block_height = None, cs_nct = [], cs_nullifier_map = [], cs_unspent_set = [], cs_submitted_spend_set = [],
      cs_submitted_change_set = [], cs_spent_set = [], cs_transactions = [], cs_asset_cache = [], cs_wallet = w,
      cs_chain_params = None\<rparr>"

datatype unspent_note = Ready note_t | SubmittedSpend note_t | SubmittedChange note_t

fun as_ready :: "unspent_note \<Rightarrow> note_t option" where
  "as_ready (Ready n) = Some n"
| "as_ready _ = None"

fun unspent_note_ref :: "unspent_note \<Rightarrow> note_t" where
  "unspent_note_ref (Ready n) = n"
| "unspent_note_ref (SubmittedSpend n) = n"
| "unspent_note_ref (SubmittedChange n) = n"

definition client_chain_id :: "client_state \<Rightarrow> string option" where
  "client_chain_id s = map_option chain_id (cs_chain_params s)"

section \<open>Choosing notes\<close>

definition register_change :: "crypto \<Rightarrow> system_time \<Rightarrow> note_t \<Rightarrow> client_state \<Rightarrow> client_state" where
  "register_change C now n s =
     s\<lparr>cs_submitted_change_set :=
        bt_insert (note_commit C n) (now + SUBMITTED_TRANSACTION_TIMEOUT, n) (cs_submitted_change_set s)\<rparr>"

definition register_spend :: "crypto \<Rightarrow> system_time \<Rightarrow> note_t \<Rightarrow> client_state \<Rightarrow> client_state result" where
  "register_spend C now n s =
     (let commitment = note_commit C n in
      bindR (ok_or (Panic ''called `Option::unwrap()` on a `None` value'') (bt_get (cs_unspent_set s) commitment)) (\<lambda>n.
      Inr (s\<lparr>cs_unspent_set := bt_remove commitment (cs_unspent_set s),
             cs_submitted_spend_set :=
               bt_insert commitment (now + SUBMITTED_TRANSACTION_TIMEOUT, n) (cs_submitted_spend_set s)\<rparr>)))"

definition unspent_notes :: "crypto \<Rightarrow> client_state \<Rightarrow> (u64 \<times> denom \<times> unspent_note) list result" where
  "unspent_notes C s =
     mapR (\<lambda>n.
       bindR (ok_or (Panic ''all asset IDs should have denominations stored locally'')
                (bt_get (cs_asset_cache s) (note_asset_id (unspent_note_ref n)))) (\<lambda>d.
       bindR (unwrapR (u64_of_diversifier_index (index_for_diversifier C (ivk_dk (wallet_ivk (cs_wallet s)))
                (nt_diversifier (unspent_note_ref n))))) (\<lambda>i.
       Inr (i, d, n))))
       (map (\<lambda>(_, n). Ready n) (cs_unspent_set s)
        @ map (\<lambda>(_, _, n). SubmittedSpend n) (cs_submitted_spend_set s)
        @ map (\<lambda>(_, _, n). SubmittedChange n) (cs_submitted_change_set s))"

text \<open>A \<open>Denom\<close> is compared by its base denomination, which stands for it as a key.\<close>

definition push_nested :: "'a :: linorder \<Rightarrow> 'b :: linorder \<Rightarrow> 'v \<Rightarrow> ('a, ('b, 'v list) btree) btree \<Rightarrow> ('a, ('b, 'v list) btree) btree" where
  "push_nested a b v m =
     (let inner = (case bt_get m a of Some i \<Rightarrow> i | None \<Rightarrow> []);
          vs = (case bt_get inner b of Some vs \<Rightarrow> vs | None \<Rightarrow> [])
      in bt_insert a (bt_insert b (vs @ [v]) inner) m)"

definition unspent_notes_by_denom_and_address ::
  "crypto \<Rightarrow> client_state \<Rightarrow> (string, (u64, unspent_note list) btree) btree result" where
  "unspent_notes_by_denom_and_address C s =
     bindR (unspent_notes C s) (\<lambda>ns.
     Inr (fold (\<lambda>(i, d, n). push_nested (dn_base_denom d) i n) ns []))"

definition unspent_notes_by_address_and_denom ::
  "crypto \<Rightarrow> client_state \<Rightarrow> (u64, (string, unspent_note list) btree) btree result" where
  "unspent_notes_by_address_and_denom C s =
     bindR (unspent_notes C s) (\<lambda>ns.
     Inr (fold (\<lambda>(i, d, n). push_nested i (dn_base_denom d) n) ns []))"

text \<open>The loop that draws notes until their sum reaches the amount.\<close>

fun draw_notes :: "u64 \<Rightarrow> unspent_note list \<Rightarrow> note_t list \<Rightarrow> u64 \<Rightarrow> note_t list \<times> u64" where
  "draw_notes amount [] drawn tot = (drawn, tot)"
| "draw_notes amount (u # us) drawn tot =
     (case as_ready u of
        Some n \<Rightarrow>
          (let drawn = drawn @ [n]; tot = tot + note_amount n
           in if amount \<le> tot then (drawn, tot) else draw_notes amount us drawn tot)
      | None \<Rightarrow> draw_notes amount us drawn tot)"

definition notes_to_spend ::
  "crypto \<Rightarrow> system_time \<Rightarrow> rng \<Rightarrow> u64 \<Rightarrow> denom \<Rightarrow> u64 option \<Rightarrow> client_state \<Rightarrow> (note_t list \<times> rng) result \<times> client_state" where
  "notes_to_spend C now g amount d source_address s =
     bindS (unspent_notes_by_denom_and_address C s, s) (\<lambda>m s.
     bindS (ok_or (Err ''no notes of denomination found'') (bt_get m (dn_base_denom d)), s) (\<lambda>by_address s.
     bindS (case source_address of
              Some source \<Rightarrow> ok_or (Err ''no notes of denomination found in address'') (bt_get by_address source)
            | None \<Rightarrow> Inr (concat (map snd by_address)), s) (\<lambda>notes s.
     let (notes, g) = shuffle C notes g;
         (drawn, tot) = draw_notes amount notes [] 0 in
     if amount \<le> tot then
       (case foldR (register_spend C now) drawn s of
          Inl e \<Rightarrow> (Inl e, s)
        | Inr s \<Rightarrow> (Inr (drawn, g), s))
     else (Inl (Err ''not enough available notes for requested spend''), s))))"

section \<open>Building transactions\<close>

definition spend_all :: "crypto \<Rightarrow> client_state \<Rightarrow> note_t list \<Rightarrow> tx_builder \<times> rng \<Rightarrow> (tx_builder \<times> rng) result" where
  "spend_all C s notes bg =
     foldR (\<lambda>n (b, g). add_spend C g (cs_nct s) (wl_spend_key (cs_wallet s)) n b) notes bg"

text \<open>An output to the wallet itself; the note is registered as change.\<close>

definition change_output ::
  "crypto \<Rightarrow> system_time \<Rightarrow> address \<Rightarrow> typed_value \<Rightarrow> tx_builder \<times> rng \<Rightarrow> client_state \<Rightarrow> (tx_builder \<times> rng) result \<times> client_state" where
  "change_output C now a v bg s =
     bindS (add_output_producing_note C (snd bg) a v memo_default (wallet_ovk (cs_wallet s)) (fst bg), s) (\<lambda>(n, b, g) s.
     (Inr (b, g), register_change C now n s))"

definition new_builder :: "crypto \<Rightarrow> u64 \<Rightarrow> client_state \<Rightarrow> tx_builder result" where
  "new_builder C fee s =
     bindR (ok_or (Err ''missing chain_id'') (client_chain_id s)) (\<lambda>cid.
     Inr (set_chain_id cid (set_fee C fee (build_with_root C (nct_root C (cs_nct s))))))"

text \<open>What \<open>build_send\<close> and \<open>build_validator_definition\<close> do for each denomination to be spent.\<close>

definition pay_denom ::
  "crypto \<Rightarrow> system_time \<Rightarrow> u64 option \<Rightarrow> denom \<times> u64 \<Rightarrow> tx_builder \<times> rng \<Rightarrow> client_state \<Rightarrow> (tx_builder \<times> rng) result \<times> client_state" where
  "pay_denom C now source_address da bg s =
     (let (d, amount) = da in
      if amount = 0 then (Inr bg, s)
      else
        bindS (notes_to_spend C now (snd bg) amount d source_address s) (\<lambda>(notes, g) s.
        bindS (if notes = [] then Inl (Panic ''spent at least one note'')
               else change_address C (cs_wallet s) (last notes), s) (\<lambda>change_addr s.
        let spent = sum_list (map note_amount notes) in
        bindS (spend_all C s notes (fst bg, g), s) (\<lambda>bg s.
        let change = spent - amount in
        if 0 < change
        then change_output C now change_addr \<lparr>val_amount = change, val_asset_id = dn_id d\<rparr> bg s
        else (Inr bg, s)))))"

text \<open>
  \<open>HashMap<Denom, u64>\<close>: entries with different base denominations.  Iterating over it visits the
  entries in an order that is not specified, given by the argument \<open>hash_iter\<close>.
\<close>

type_synonym denom_map = "(denom \<times> u64) list"

fun hm_update :: "denom \<Rightarrow> (u64 \<Rightarrow> u64) \<Rightarrow> denom_map \<Rightarrow> denom_map" where
  "hm_update d f [] = [(d, f 0)]"
| "hm_update d f ((d', v) # m) =
     (if dn_base_denom d' = dn_base_denom d then (d', f v) # m else (d', v) # hm_update d f m)"

definition finalize_tx :: "ext \<Rightarrow> tx_builder \<times> rng \<Rightarrow> client_state \<Rightarrow> (transaction \<times> rng) result \<times> client_state" where
  "finalize_tx X bg s = bindS (builder_finalize X (snd bg) (fst bg), s) (\<lambda>(tx, _, g) s. (Inr (tx, g), s))"

definition with_fee :: "crypto \<Rightarrow> u64 \<Rightarrow> denom_map \<Rightarrow> denom_map result" where
  "with_fee C fee m =
     (if 0 < fee then bindR (staking_token_denom C) (\<lambda>d. Inr (hm_update d (\<lambda>v. v + fee) m)) else Inr m)"

definition build_validator_definition ::
  "ext \<Rightarrow> (denom_map \<Rightarrow> denom_map) \<Rightarrow> system_time \<Rightarrow> rng \<Rightarrow> definition_pb \<Rightarrow> u64 \<Rightarrow> u64 option \<Rightarrow> client_state
     \<Rightarrow> (transaction \<times> rng) result \<times> client_state" where
  "build_validator_definition X hash_iter now g new_validator fee source_address s =
     (let C = x_crypto X in
      bindS (new_builder C fee s, s) (\<lambda>b s.
      let b = add_validator_definition new_validator b in
      bindS (with_fee C fee [], s) (\<lambda>value_to_spend s.
      bindS (foldS (pay_denom C now source_address) (hash_iter value_to_spend) (b, g) s) (\<lambda>bg s.
      finalize_tx X bg s))))"

definition output_values :: "client_state \<Rightarrow> typed_value list \<Rightarrow> denom_map result" where
  "output_values s vs =
     foldR (\<lambda>v m.
       bindR (ok_or (Err ''unknown denomination for asset id'') (bt_get (cs_asset_cache s) (val_asset_id v))) (\<lambda>d.
       Inr (hm_update d (\<lambda>_. val_amount v) m))) vs []"

definition send_outputs ::
  "crypto \<Rightarrow> address \<Rightarrow> string option \<Rightarrow> client_state \<Rightarrow> denom_map \<Rightarrow> tx_builder \<times> rng \<Rightarrow> (tx_builder \<times> rng) result" where
  "send_outputs C dest tx_memo s m bg =
     foldR (\<lambda>(d, amount) (b, g).
       bindR (case tx_memo of Some input_memo \<Rightarrow> memo_of_string input_memo | None \<Rightarrow> Inr memo_default) (\<lambda>memo.
       add_output C g dest \<lparr>val_amount = amount, val_asset_id = dn_id d\<rparr> memo (wallet_ovk (cs_wallet s)) b)) m bg"

definition build_send ::
  "ext \<Rightarrow> (denom_map \<Rightarrow> denom_map) \<Rightarrow> system_time \<Rightarrow> rng \<Rightarrow> typed_value list \<Rightarrow> u64 \<Rightarrow> address \<Rightarrow> u64 option \<Rightarrow> string option
     \<Rightarrow> client_state \<Rightarrow> (transaction \<times> rng) result \<times> client_state" where
  "build_send X hash_iter now g vals fee dest_address source_address tx_memo s =
     (let C = x_crypto X in
      bindS (new_builder C fee s, s) (\<lambda>b s.
      bindS (output_values s vals, s) (\<lambda>output_value s.
      bindS (send_outputs C dest_address tx_memo s (hash_iter output_value) (b, g), s) (\<lambda>bg s.
      bindS (with_fee C fee output_value, s) (\<lambda>value_to_spend s.
      bindS (foldS (pay_denom C now source_address) (hash_iter value_to_spend) bg s) (\<lambda>bg s.
      finalize_tx X bg s))))))"

definition own_address :: "crypto \<Rightarrow> client_state \<Rightarrow> u64 option \<Rightarrow> address result" where
  "own_address C s source_address =
     bindR (address_by_index C (cs_wallet s) (unat (case source_address of Some i \<Rightarrow> i | None \<Rightarrow> 0))) (\<lambda>(_, a). Inr a)"

definition wallet_build_delegate ::
  "ext \<Rightarrow> system_time \<Rightarrow> rng \<Rightarrow> rate_data \<Rightarrow> u64 \<Rightarrow> u64 \<Rightarrow> u64 option \<Rightarrow> client_state \<Rightarrow> (transaction \<times> rng) result \<times> client_state" where
  "wallet_build_delegate X now g rate unbonded fee source_address s =
     (let C = x_crypto X in
      bindS (own_address C s source_address, s) (\<lambda>self_address s.
      bindS (new_builder C fee s, s) (\<lambda>b s.
      bindS (build_delegate rate unbonded, s) (\<lambda>dl s.
      bindS (add_delegation C dl b, s) (\<lambda>b s.
      let spend_amount = unbonded + fee in
      bindS (staking_token_denom C, s) (\<lambda>d s.
      bindS (notes_to_spend C now g spend_amount d source_address s) (\<lambda>(notes, g) s.
      let spent_amount = sum_list (map note_amount notes) in
      bindS (spend_all C s notes (b, g), s) (\<lambda>(b, g) s.
      bindS (delegation_amount rate unbonded, s) (\<lambda>amount s.
      bindS (delegation_asset_id C (rd_identity_key rate), s) (\<lambda>asset s.
      bindS (add_output_producing_note C g self_address \<lparr>val_amount = amount, val_asset_id = asset\<rparr> memo_default
               (wallet_ovk (cs_wallet s)) b, s) (\<lambda>(delegation_note, b, g) s.
      let change_amount = spent_amount - spend_amount in
      bindS (if 0 < change_amount
             then change_output C now self_address \<lparr>val_amount = change_amount, val_asset_id = staking_token_asset_id C\<rparr> (b, g) s
             else (Inr (b, g), s)) (\<lambda>bg s.
      finalize_tx X bg (register_change C now delegation_note s)))))))))))))"

definition wallet_build_undelegate ::
  "ext \<Rightarrow> system_time \<Rightarrow> rng \<Rightarrow> rate_data \<Rightarrow> u64 \<Rightarrow> u64 \<Rightarrow> u64 option \<Rightarrow> client_state \<Rightarrow> (transaction \<times> rng) result \<times> client_state" where
  "wallet_build_undelegate X now g rate amount fee source_address s =
     (let C = x_crypto X in
      bindS (own_address C s source_address, s) (\<lambda>self_address s.
      bindS (new_builder C fee s, s) (\<lambda>b s.
      bindS (build_undelegate rate amount, s) (\<lambda>ud s.
      bindS (add_undelegation C ud b, s) (\<lambda>b s.
      bindS (unbonded_amount rate amount, s) (\<lambda>unbonded s.
      bindS (ok_or (Err ''unbonded amount is insufficient to pay fees'') (checked_sub unbonded fee), s) (\<lambda>output_amount s.
      bindS (delegation_token_new C (rd_identity_key rate), s) (\<lambda>token s.
      let d = dt_base_denom token in
      bindS (notes_to_spend C now g amount d source_address s) (\<lambda>(notes, g) s.
      let spent_amount = sum_list (map note_amount notes) in
      bindS (spend_all C s notes (b, g), s) (\<lambda>(b, g) s.
      bindS (add_output_producing_note C g self_address \<lparr>val_amount = output_amount, val_asset_id = staking_token_asset_id C\<rparr>
               memo_default (wallet_ovk (cs_wallet s)) b, s) (\<lambda>(output_note, b, g) s.
      let change_amount = spent_amount - amount in
      bindS (if 0 < change_amount
             then change_output C now self_address \<lparr>val_amount = change_amount, val_asset_id = dn_id d\<rparr> (b, g) s
             else (Inr (b, g), s)) (\<lambda>bg s.
      finalize_tx X bg (register_change C now output_note s)))))))))))))"

section \<open>Time and blocks\<close>

definition prune_timeouts :: "system_time \<Rightarrow> client_state \<Rightarrow> client_state" where
  "prune_timeouts now s =
     (let submitted_spend_set = cs_submitted_spend_set s;
          submitted_change_set = cs_submitted_change_set s;
          s = s\<lparr>cs_submitted_spend_set := [], cs_submitted_change_set := []\<rparr>;
          s = fold (\<lambda>(c, timeout, n) s.
                if timeout < now then
                  (if bt_get (cs_spent_set s) c \<noteq> None then s
                   else s\<lparr>cs_unspent_set := bt_insert c n (cs_unspent_set s)\<rparr>)
                else s\<lparr>cs_submitted_spend_set := bt_insert c (timeout, n) (cs_submitted_spend_set s)\<rparr>) submitted_spend_set s
      in fold (\<lambda>(c, timeout, n) s.
           if timeout < now then s
           else s\<lparr>cs_submitted_change_set := bt_insert c (timeout, n) (cs_submitted_change_set s)\<rparr>) submitted_change_set s)"

definition scan_output :: "crypto \<Rightarrow> output_body \<Rightarrow> client_state \<Rightarrow> client_state result" where
  "scan_output C body s =
     (let c = ob_note_commitment body;
          s = s\<lparr>cs_nct := cs_nct s @ [NctAppend c]\<rparr> in
      case note_decrypt C (ob_encrypted_note body) (wallet_ivk (cs_wallet s)) (ob_ephemeral_key body) of
        Inl _ \<Rightarrow> Inr s
      | Inr n \<Rightarrow>
          (let s = s\<lparr>cs_nct := cs_nct s @ [NctWitness]\<rparr> in
           bindR (ok_or (Panic ''we just witnessed this commitment'') (nct_auth_path C (cs_nct s) c)) (\<lambda>(pos, _).
           Inr (s\<lparr>cs_nullifier_map := bt_insert (fvk_derive_nullifier C (wallet_fvk (cs_wallet s)) pos c) c (cs_nullifier_map s),
                  cs_submitted_change_set := bt_remove c (cs_submitted_change_set s),
                  cs_unspent_set := bt_insert c n (cs_unspent_set s)\<rparr>))))"

definition scan_nullifier :: "nullifier \<Rightarrow> client_state \<Rightarrow> client_state" where
  "scan_nullifier nf s =
     (case bt_get (cs_nullifier_map s) nf of
        None \<Rightarrow> s
      | Some c \<Rightarrow>
          (case bt_get (cs_unspent_set s) c of
             Some n \<Rightarrow> s\<lparr>cs_unspent_set := bt_remove c (cs_unspent_set s), cs_spent_set := bt_insert c n (cs_spent_set s),
                         cs_nct := cs_nct s @ [NctRemoveWitness c]\<rparr>
           | None \<Rightarrow>
             (case bt_get (cs_submitted_spend_set s) c of
                Some (_, n) \<Rightarrow> s\<lparr>cs_submitted_spend_set := bt_remove c (cs_submitted_spend_set s),
                                 cs_spent_set := bt_insert c n (cs_spent_set s), cs_nct := cs_nct s @ [NctRemoveWitness c]\<rparr>
              | None \<Rightarrow>
                (case bt_get (cs_submitted_change_set s) c of
                   Some (_, n) \<Rightarrow> s\<lparr>cs_submitted_change_set := bt_remove c (cs_submitted_change_set s),
                                    cs_spent_set := bt_insert c n (cs_spent_set s), cs_nct := cs_nct s @ [NctRemoveWitness c]\<rparr>
                 | None \<Rightarrow> s))))"

text \<open>The block must follow the last one scanned; the first one has height 0.\<close>

definition scan_block :: "crypto \<Rightarrow> compact_block \<Rightarrow> client_state \<Rightarrow> client_state result" where
  "scan_block C cb s =
     bindR (ensure (Err ''unexpected block height'')
              (case cs_last_block_height s of None \<Rightarrow> cb_height cb = 0 | Some l \<Rightarrow> cb_height cb = l + 1)) (\<lambda>_.
     bindR (foldR (scan_output C) (cb_outputs cb) s) (\<lambda>s.
     Inr ((fold scan_nullifier (cb_nullifiers cb) s)\<lparr>cs_last_block_height := Some (cb_height cb)\<rparr>)))"

end
