(* ===== verification/Wallet_Notes.thy ===== *)
theory Wallet_Notes
  imports Wallet
begin

text \<open>
  Which notes the wallet spends.  \<open>notes_ok\<close> is what the wallet's note sets satisfy: maps in order, each
  unspent note filed under its commitment, every note with a known denomination and one of the
  wallet's own addresses.  Then the two groupings of the notes cannot fail, and \<open>notes_to_spend\<close> is
  exactly specified: it fails and changes nothing when the confirmed notes do not reach the amount, and
  else moves a minimal selection of them to the submitted spends.
\<close>

section \<open>Known notes\<close>

definition note_index :: "crypto \<Rightarrow> client_state \<Rightarrow> note_t \<Rightarrow> u64 result" where
  "note_index C s n =
     u64_of_diversifier_index (index_for_diversifier C (ivk_dk (wallet_ivk (cs_wallet s))) (nt_diversifier n))"

definition note_denom :: "client_state \<Rightarrow> note_t \<Rightarrow> denom option" where
  "note_denom s n = bt_get (cs_asset_cache s) (note_asset_id n)"

definition note_known :: "crypto \<Rightarrow> client_state \<Rightarrow> note_t \<Rightarrow> bool" where
  "note_known C s n \<longleftrightarrow> note_denom s n \<noteq> None
     \<and> (\<exists>i. note_index C s n = Inr i \<and> unat i < length (wl_address_labels (cs_wallet s)))"

definition all_unspent :: "client_state \<Rightarrow> unspent_note list" where
  "all_unspent s =
     map (\<lambda>(_, n). Ready n) (cs_unspent_set s)
     @ map (\<lambda>(_, _, n). SubmittedSpend n) (cs_submitted_spend_set s)
     @ map (\<lambda>(_, _, n). SubmittedChange n) (cs_submitted_change_set s)"

definition notes_ok :: "crypto \<Rightarrow> client_state \<Rightarrow> bool" where
  "notes_ok C s \<longleftrightarrow>
     bt_ok (cs_unspent_set s) \<and> bt_ok (cs_submitted_spend_set s) \<and> bt_ok (cs_submitted_change_set s)
     \<and> (\<forall>(c, n) \<in> set (cs_unspent_set s). note_commit C n = c)
     \<and> (\<forall>u \<in> set (all_unspent s). note_known C s (unspent_note_ref u))"

text \<open>The index of the address and the denomination under which a note is grouped.\<close>

definition idx :: "crypto \<Rightarrow> client_state \<Rightarrow> note_t \<Rightarrow> u64" where
  "idx C s n = (case note_index C s n of Inr i \<Rightarrow> i | Inl _ \<Rightarrow> 0)"

definition base :: "client_state \<Rightarrow> note_t \<Rightarrow> string" where
  "base s n = (case note_denom s n of Some d \<Rightarrow> dn_base_denom d | None \<Rightarrow> [])"

lemma mapR_total: "\<forall>x \<in> set xs. f x = Inr (h x) \<Longrightarrow> mapR f xs = Inr (map h xs)"
  by (induction xs) auto

lemma unspent_notes_total:
  assumes "notes_ok C s"
  shows "unspent_notes C s = Inr (map (\<lambda>u. (idx C s (unspent_note_ref u), the (note_denom s (unspent_note_ref u)), u)) (all_unspent s))"
  unfolding unspent_notes_def all_unspent_def [symmetric]
proof (rule mapR_total, rule ballI)
  fix u assume "u \<in> set (all_unspent s)"
  then have "note_known C s (unspent_note_ref u)" using assms by (simp add: notes_ok_def)
  then show "bindR (ok_or (Panic ''all asset IDs should have denominations stored locally'')
          (bt_get (cs_asset_cache s) (note_asset_id (unspent_note_ref u)))) (\<lambda>d.
        bindR (unwrapR (u64_of_diversifier_index (index_for_diversifier C (ivk_dk (wallet_ivk (cs_wallet s)))
          (nt_diversifier (unspent_note_ref u))))) (\<lambda>i. Inr (i, d, u)))
      = Inr (idx C s (unspent_note_ref u), the (note_denom s (unspent_note_ref u)), u)"
    by (auto simp: note_known_def note_denom_def note_index_def idx_def)
qed

section \<open>Grouping\<close>

lemma bt_get_above: "bt_ok m \<Longrightarrow> \<forall>e \<in> set m. k < fst e \<Longrightarrow> bt_get m k = None"
  by (auto simp: bt_get_def map_of_eq_None_iff)

lemma concat_insert:
  assumes "bt_ok m" and "vs = (case bt_get m k of Some vs \<Rightarrow> vs | None \<Rightarrow> [])"
  shows "mset (concat (map snd (bt_insert k (vs @ [v]) m))) = add_mset v (mset (concat (map snd m)))"
  using assms
proof (induction m)
  case (Cons e m)
  obtain k' w where e: "e = (k', w)" by force
  have ok: "bt_ok m" "\<forall>e \<in> set m. k' < fst e" using Cons.prems(1) by (auto simp: bt_ok_def e)
  show ?case
  proof (cases "k' < k")
    case True
    then show ?thesis using Cons.IH [OF ok(1)] Cons.prems(2) by (simp add: e bt_get_def split: if_splits)
  next
    case False
    show ?thesis
    proof (cases "k' = k")
      case True
      then show ?thesis using Cons.prems(2) by (simp add: e bt_get_def)
    next
      case neq: False
      then have "k < k'" using False by simp
      then have "bt_get (e # m) k = None" using ok by (intro bt_get_above [OF Cons.prems(1)]) (auto simp: e)
      then show ?thesis using Cons.prems(2) False neq by (simp add: e)
    qed
  qed
qed simp

text \<open>The values listed under one key, or under both, of the triples grouped.\<close>

definition listed :: "'a \<Rightarrow> ('a \<times> 'b \<times> 'v) list \<Rightarrow> 'v list" where
  "listed a xs = map (\<lambda>(_, _, v). v) (filter (\<lambda>(a', _, _). a' = a) xs)"

definition listed2 :: "'a \<Rightarrow> 'b \<Rightarrow> ('a \<times> 'b \<times> 'v) list \<Rightarrow> 'v list" where
  "listed2 a b xs = map (\<lambda>(_, _, v). v) (filter (\<lambda>(a', b', _). a' = a \<and> b' = b) xs)"

definition groups :: "('a :: linorder \<times> 'b :: linorder \<times> 'v) list \<Rightarrow> ('a, ('b, 'v list) btree) btree \<Rightarrow> bool" where
  "groups xs m \<longleftrightarrow> (\<forall>a. case bt_get m a of
       None \<Rightarrow> listed a xs = []
     | Some inner \<Rightarrow> listed a xs \<noteq> [] \<and> bt_ok inner \<and> mset (concat (map snd inner)) = mset (listed a xs)
         \<and> (\<forall>b. bt_get inner b = (if listed2 a b xs = [] then None else Some (listed2 a b xs))))"

lemma listed_snoc:
  "listed a (xs @ [(a', b', v)]) = listed a xs @ (if a' = a then [v] else [])"
  "listed2 a b (xs @ [(a', b', v)]) = listed2 a b xs @ (if a' = a \<and> b' = b then [v] else [])"
  by (simp_all add: listed_def listed2_def)

lemma listed2_Nil: "listed a xs = [] \<Longrightarrow> listed2 a b xs = []"
  by (auto simp: listed_def listed2_def filter_empty_conv)

lemma groups_push:
  assumes "groups xs m"
  shows "groups (xs @ [(a, b, v)]) (push_nested a b v m)"
proof -
  let ?inner = "case bt_get m a of Some i \<Rightarrow> i | None \<Rightarrow> []"
  let ?vs = "case bt_get ?inner b of Some vs \<Rightarrow> vs | None \<Rightarrow> []"
  have inner: "bt_ok ?inner" "mset (concat (map snd ?inner)) = mset (listed a xs)"
    "bt_get ?inner b' = (if listed2 a b' xs = [] then None else Some (listed2 a b' xs))" for b'
    using assms [unfolded groups_def, rule_format, of a] listed2_Nil [of a xs] by (auto split: option.splits)
  have vs: "?vs = listed2 a b xs" using inner(3) by simp
  have m: "push_nested a b v m = bt_insert a (bt_insert b (listed2 a b xs @ [v]) ?inner) m"
    unfolding push_nested_def Let_def using vs by simp
  have "mset (concat (map snd (bt_insert b (listed2 a b xs @ [v]) ?inner))) = mset (listed a xs @ [v])"
    using concat_insert [OF inner(1), of "listed2 a b xs" b v] vs inner(2) by simp
  moreover have "bt_ok (bt_insert b (listed2 a b xs @ [v]) ?inner)" by (rule bt_ok_insert [OF inner(1)])
  ultimately have here: "listed a (xs @ [(a, b, v)]) \<noteq> [] \<and> bt_ok (bt_insert b (listed2 a b xs @ [v]) ?inner)
      \<and> mset (concat (map snd (bt_insert b (listed2 a b xs @ [v]) ?inner))) = mset (listed a (xs @ [(a, b, v)]))
      \<and> (\<forall>b'. bt_get (bt_insert b (listed2 a b xs @ [v]) ?inner) b'
            = (if listed2 a b' (xs @ [(a, b, v)]) = [] then None else Some (listed2 a b' (xs @ [(a, b, v)]))))"
    using inner(3) by (simp add: listed_snoc)
  show ?thesis
    unfolding groups_def m
  proof
    fix a'
    show "case bt_get (bt_insert a (bt_insert b (listed2 a b xs @ [v]) ?inner) m) a' of
        None \<Rightarrow> listed a' (xs @ [(a, b, v)]) = []
      | Some inner \<Rightarrow> listed a' (xs @ [(a, b, v)]) \<noteq> [] \<and> bt_ok inner
          \<and> mset (concat (map snd inner)) = mset (listed a' (xs @ [(a, b, v)]))
          \<and> (\<forall>b'. bt_get inner b' = (if listed2 a' b' (xs @ [(a, b, v)]) = [] then None
               else Some (listed2 a' b' (xs @ [(a, b, v)]))))"
      using here assms [unfolded groups_def, rule_format, of a']
      by (cases "a' = a") (simp, cases "bt_get m a'", simp_all add: listed_snoc)
  qed
qed

lemma groups_fold:
  "groups xs m \<Longrightarrow> groups (xs @ ys) (fold (\<lambda>(a, b, v). push_nested a b v) ys m)"
proof (induction ys arbitrary: xs m)
  case (Cons y ys)
  obtain a b v where y: "y = (a, b, v)" by (cases y)
  from Cons.IH [OF groups_push [OF Cons.prems, of a b v]] show ?case by (simp add: y)
qed simp

lemma groups_of: "groups xs (fold (\<lambda>(a, b, v). push_nested a b v) xs [])"
  using groups_fold [of "[]" "[]" xs] by (simp add: groups_def listed_def listed2_def)

section \<open>Drawing notes\<close>

definition ready_notes :: "crypto \<Rightarrow> client_state \<Rightarrow> string \<Rightarrow> u64 option \<Rightarrow> note_t list" where
  "ready_notes C s b source =
     filter (\<lambda>n. base s n = b \<and> (case source of Some i \<Rightarrow> idx C s n = i | None \<Rightarrow> True)) (map snd (cs_unspent_set s))"

definition total_of :: "note_t list \<Rightarrow> nat" where
  "total_of ns = sum_list (map (unat \<circ> note_amount) ns)"

lemma total_of_simps [simp]:
  "total_of [] = 0" "total_of (n # ns) = unat (note_amount n) + total_of ns" "total_of (ns @ ms) = total_of ns + total_of ms"
  by (simp_all add: total_of_def)

lemma total_of_mset: "mset ns = mset ms \<Longrightarrow> total_of ns = total_of ms"
  unfolding total_of_def by (metis mset_map sum_mset_sum_list)

lemma unat_sum_amounts:
  "total_of ns < 2 ^ 64 \<Longrightarrow> unat (sum_list (map note_amount ns)) = total_of ns"
  by (induction ns) (simp_all add: unat_plus_exact)

text \<open>
  The loop takes confirmed notes from the front of the list until they reach the amount; it never takes
  one more.
\<close>

lemma draw_notes_take:
  assumes "total_of drawn + total_of (List.map_filter as_ready us) < 2 ^ 64" and "unat tot = total_of drawn"
  shows "\<exists>more rest. List.map_filter as_ready us = more @ rest
    \<and> fst (draw_notes amount us drawn tot) = drawn @ more
    \<and> unat (snd (draw_notes amount us drawn tot)) = total_of drawn + total_of more
    \<and> (rest = [] \<or> unat amount \<le> total_of drawn + total_of more)
    \<and> (more = [] \<or> total_of drawn + total_of (butlast more) < unat amount \<or> butlast more = [])"
  using assms
proof (induction us arbitrary: drawn tot)
  case (Cons u us)
  show ?case
  proof (cases "as_ready u")
    case None
    then show ?thesis using Cons.IH [OF _ Cons.prems(2)] Cons.prems(1) by (simp add: map_filter_simps)
  next
    case (Some n)
    have t: "unat (tot + note_amount n) = total_of (drawn @ [n])"
      using Cons.prems by (subst unat_plus_exact) (simp_all add: Some map_filter_simps)
    show ?thesis
    proof (cases "amount \<le> tot + note_amount n")
      case True
      then show ?thesis using t
        by (intro exI [of _ "[n]"] exI [of _ "List.map_filter as_ready us"]) (simp_all add: Some map_filter_simps word_le_nat_alt)
    next
      case False
      have "total_of (drawn @ [n]) + total_of (List.map_filter as_ready us) < 2 ^ 64"
        using Cons.prems(1) by (simp add: Some map_filter_simps)
      from Cons.IH [OF this t] obtain more rest where
        ih: "List.map_filter as_ready us = more @ rest"
          "fst (draw_notes amount us (drawn @ [n]) (tot + note_amount n)) = (drawn @ [n]) @ more"
          "unat (snd (draw_notes amount us (drawn @ [n]) (tot + note_amount n))) = total_of (drawn @ [n]) + total_of more"
          "rest = [] \<or> unat amount \<le> total_of (drawn @ [n]) + total_of more"
          "more = [] \<or> total_of (drawn @ [n]) + total_of (butlast more) < unat amount \<or> butlast more = []"
        by blast
      have "total_of (drawn @ [n]) < unat amount" using False t by (simp add: word_le_nat_alt)
      then show ?thesis using ih False
        by (intro exI [of _ "n # more"] exI [of _ rest]) (auto simp: Some map_filter_simps)
    qed
  qed
qed simp

section \<open>Registering spends\<close>

definition mark_spent :: "crypto \<Rightarrow> system_time \<Rightarrow> note_t list \<Rightarrow> client_state \<Rightarrow> client_state" where
  "mark_spent C now ns s =
     s\<lparr>cs_unspent_set := fold (\<lambda>n. bt_remove (note_commit C n)) ns (cs_unspent_set s),
       cs_submitted_spend_set :=
         fold (\<lambda>n. bt_insert (note_commit C n) (now + SUBMITTED_TRANSACTION_TIMEOUT, n)) ns (cs_submitted_spend_set s)\<rparr>"

lemma get_fold_remove:
  "bt_get (fold (\<lambda>n. bt_remove (f n)) ns m) = (\<lambda>c. if c \<in> f ` set ns then None else bt_get m c)"
  by (induction ns arbitrary: m) (auto simp: fun_eq_iff)

lemma fold_remove_filter: "fold (\<lambda>n. bt_remove (f n)) ns m = filter (\<lambda>e. fst e \<notin> f ` set ns) m"
  by (induction ns arbitrary: m) (simp_all add: bt_remove_def conj_commute)

lemma get_fold_insert_other:
  "c \<notin> f ` set ns \<Longrightarrow> bt_get (fold (\<lambda>n. bt_insert (f n) (h n)) ns m) c = bt_get m c"
  by (induction ns arbitrary: m) auto

lemma get_fold_insert_same:
  "distinct (map f ns) \<Longrightarrow> n \<in> set ns \<Longrightarrow> bt_get (fold (\<lambda>n. bt_insert (f n) (h n)) ns m) (f n) = Some (h n)"
  by (induction ns arbitrary: m) (auto simp: get_fold_insert_other)

lemma register_spends:
  assumes "\<forall>n \<in> set ns. bt_get (cs_unspent_set s) (note_commit C n) = Some n" and "distinct (map (note_commit C) ns)"
  shows "foldR (register_spend C now) ns s = Inr (mark_spent C now ns s)"
  using assms
proof (induction ns arbitrary: s)
  case Nil
  show ?case by (simp add: mark_spent_def)
next
  case (Cons n ns)
  let ?s = "s\<lparr>cs_unspent_set := bt_remove (note_commit C n) (cs_unspent_set s),
    cs_submitted_spend_set := bt_insert (note_commit C n) (now + SUBMITTED_TRANSACTION_TIMEOUT, n) (cs_submitted_spend_set s)\<rparr>"
  have "register_spend C now n s = Inr ?s" using Cons.prems by (simp add: register_spend_def Let_def)
  moreover have "note_commit C n' \<noteq> note_commit C n" if "n' \<in> set ns" for n' using Cons.prems(2) that by (metis distinct.simps(2) image_eqI list.map(2) list.set_map)
  then have "foldR (register_spend C now) ns ?s = Inr (mark_spent C now ns ?s)"
    by (intro Cons.IH) (use Cons.prems in simp_all)
  ultimately show ?case by (simp add: mark_spent_def)
qed

text \<open>The candidates: the notes of a denomination, at the source address if one is given.\<close>

lemma map_filter_mset: "mset (List.map_filter f xs) = mset (List.map_filter f ys)" if "mset xs = mset ys"
proof -
  have "mset (map (the \<circ> f) (filter (\<lambda>x. f x \<noteq> None) xs)) = mset (map (the \<circ> f) (filter (\<lambda>x. f x \<noteq> None) ys))"
    using that by (simp add: mset_map mset_filter)
  then show ?thesis by (simp add: map_filter_def)
qed

lemma ready_of_unspent:
  "List.map_filter as_ready (filter (\<lambda>u. P (unspent_note_ref u)) (all_unspent s)) = filter P (map snd (cs_unspent_set s))"
proof -
  have "List.map_filter as_ready (filter (\<lambda>u. P (unspent_note_ref u)) (map (\<lambda>(_, n). Ready n) m)) = filter P (map snd m)"
    for m :: "(note_commitment \<times> note_t) list"
    by (induction m) (auto simp: map_filter_simps)
  moreover have "List.map_filter as_ready (filter (\<lambda>u. P (unspent_note_ref u))
      (map (\<lambda>(_, _, n). SubmittedSpend n) m1 @ map (\<lambda>(_, _, n). SubmittedChange n) m2)) = []"
    for m1 m2 :: "(note_commitment \<times> system_time \<times> note_t) list"
    by (auto simp: map_filter_def filter_empty_conv)
  ultimately show ?thesis by (simp add: all_unspent_def map_filter_def)
qed

definition candidates :: "crypto \<Rightarrow> client_state \<Rightarrow> string \<Rightarrow> u64 option \<Rightarrow> unspent_note list result" where
  "candidates C s b source =
     bindR (unspent_notes_by_denom_and_address C s) (\<lambda>m.
     bindR (ok_or (Err ''no notes of denomination found'') (bt_get m b)) (\<lambda>by_address.
     case source of
       Some i \<Rightarrow> ok_or (Err ''no notes of denomination found in address'') (bt_get by_address i)
     | None \<Rightarrow> Inr (concat (map snd by_address))))"

lemma candidates_spec:
  assumes "notes_ok C s"
  shows "(\<exists>us. candidates C s b source = Inr us \<and> mset (List.map_filter as_ready us) = mset (ready_notes C s b source))
    \<or> ((\<exists>e. candidates C s b source = Inl (Err e)) \<and> ready_notes C s b source = [])"
proof -
  let ?f = "\<lambda>u. (base s (unspent_note_ref u), idx C s (unspent_note_ref u), u)"
  let ?xs = "map ?f (all_unspent s)" and ?m = "fold (\<lambda>(a, b, v). push_nested a b v) (map ?f (all_unspent s)) []"
  have known: "note_denom s (unspent_note_ref u) \<noteq> None" if "u \<in> set (all_unspent s)" for u
    using assms that by (auto simp: notes_ok_def note_known_def)
  have "fold (\<lambda>(i, d, n). push_nested (dn_base_denom d) i n)
      (map (\<lambda>u. (idx C s (unspent_note_ref u), the (note_denom s (unspent_note_ref u)), u)) us) m
    = fold (\<lambda>(a, b, v). push_nested a b v) (map ?f us) m" if "set us \<subseteq> set (all_unspent s)" for us m
    using that
  proof (induction us arbitrary: m)
    case (Cons u us)
    then obtain d where "note_denom s (unspent_note_ref u) = Some d" using known [of u] by auto
    then have "base s (unspent_note_ref u) = dn_base_denom (the (note_denom s (unspent_note_ref u)))" by (simp add: base_def)
    with Cons show ?case by simp
  qed simp
  then have m: "unspent_notes_by_denom_and_address C s = Inr ?m"
    by (simp add: unspent_notes_by_denom_and_address_def unspent_notes_total [OF assms])
  have l: "listed b ?xs = filter (\<lambda>u. base s (unspent_note_ref u) = b) (all_unspent s)"
    "listed2 b i ?xs = filter (\<lambda>u. base s (unspent_note_ref u) = b \<and> idx C s (unspent_note_ref u) = i) (all_unspent s)" for i
    by (simp_all add: listed_def listed2_def filter_map comp_def)
  have r: "List.map_filter as_ready (listed b ?xs) = ready_notes C s b None"
    "List.map_filter as_ready (listed2 b i ?xs) = ready_notes C s b (Some i)" for i
    unfolding l ready_notes_def using ready_of_unspent by force+
  have g: "groups ?xs ?m" by (rule groups_of)
  show ?thesis
  proof (cases "bt_get ?m b")
    case None
    then have h: "listed b ?xs = []" using g [unfolded groups_def, rule_format, of b] by simp
    have h2: "listed2 b i ?xs = []" for i by (rule listed2_Nil [OF h])
    have "ready_notes C s b source = []"
      by (cases source) (simp_all add: r(1) [unfolded h, symmetric] r(2) [unfolded h2, symmetric] map_filter_simps)
    then show ?thesis using None by (simp add: candidates_def m)
  next
    case (Some inner)
    then have i: "mset (concat (map snd inner)) = mset (listed b ?xs)"
      "\<And>i. bt_get inner i = (if listed2 b i ?xs = [] then None else Some (listed2 b i ?xs))"
      using g [unfolded groups_def, rule_format, of b] by simp_all
    have "ready_notes C s b (Some j) = []" if "listed2 b j ?xs = []" for j
      using r(2) [of j] unfolding that by (simp add: map_filter_simps)
    then show ?thesis
      using r map_filter_mset [OF i(1), of as_ready] Some i(2)
      by (cases source) (auto simp: candidates_def m)
  qed
qed

section \<open>The selection\<close>

lemma notes_to_spend_candidates:
  "notes_to_spend C now g amount d source s =
     bindS (candidates C s (dn_base_denom d) source, s) (\<lambda>notes s.
     let (notes, g) = shuffle C notes g;
         (drawn, tot) = draw_notes amount notes [] 0 in
     if amount \<le> tot then
       (case foldR (register_spend C now) drawn s of
          Inl e \<Rightarrow> (Inl e, s)
        | Inr s \<Rightarrow> (Inr (drawn, g), s))
     else (Inl (Err ''not enough available notes for requested spend''), s))"
proof -
  have bind: "bindS (bindR m f, s) k = bindS (m, s) (\<lambda>x s. bindS (f x, s) k)" for m f s k by (cases m) simp_all
  show ?thesis by (simp add: notes_to_spend_def candidates_def bind)
qed

lemma unspent_note_entry:
  assumes "notes_ok C s" and "n \<in> snd ` set (cs_unspent_set s)"
  shows "bt_get (cs_unspent_set s) (note_commit C n) = Some n"
proof -
  from assms obtain c where c: "(c, n) \<in> set (cs_unspent_set s)" by auto
  have ok: "bt_ok (cs_unspent_set s)" and "\<forall>(c, n) \<in> set (cs_unspent_set s). note_commit C n = c"
    using assms(1) by (simp_all add: notes_ok_def)
  from bspec [OF this(2) c] have "note_commit C n = c" by simp
  then show ?thesis using c bt.get_entries [OF ok] by simp
qed

lemma ready_notes_distinct:
  assumes "notes_ok C s"
  shows "distinct (map (note_commit C) (ready_notes C s b source))"
proof -
  have "map (note_commit C) (map snd (cs_unspent_set s)) = map fst (cs_unspent_set s)"
    using assms by (auto simp: notes_ok_def)
  moreover have "distinct (map fst (cs_unspent_set s))" using assms bt_ok_distinct by (auto simp: notes_ok_def)
  ultimately have "distinct (map (note_commit C) (map snd (cs_unspent_set s)))" by (simp only:)
  then show ?thesis unfolding ready_notes_def by (rule distinct_map_filter)
qed

lemma notes_to_spend_outcome:
  assumes rand: "rand_ok C" and ok: "notes_ok C s" and pos: "0 < amount"
    and bound: "total_of (ready_notes C s (dn_base_denom d) source) < 2 ^ 64"
  obtains (drawn) drawn rest g' where "notes_to_spend C now g amount d source s = (Inr (drawn, g'), mark_spent C now drawn s)"
      and "mset (drawn @ rest) = mset (ready_notes C s (dn_base_denom d) source)"
      and "unat amount \<le> total_of drawn" and "total_of (butlast drawn) < unat amount"
      and "distinct (map (note_commit C) drawn)"
    | (refused) e where "notes_to_spend C now g amount d source s = (Inl (Err e), s)"
      and "total_of (ready_notes C s (dn_base_denom d) source) < unat amount"
proof -
  let ?rs = "ready_notes C s (dn_base_denom d) source"
  from candidates_spec [OF ok, of "dn_base_denom d" source] show thesis
  proof (elim disjE exE conjE)
    fix e assume "candidates C s (dn_base_denom d) source = Inl (Err e)" "?rs = []"
    then show thesis using pos by (intro refused) (simp_all add: notes_to_spend_candidates word_less_nat_alt)
  next
    fix us assume us: "candidates C s (dn_base_denom d) source = Inr us" "mset (List.map_filter as_ready us) = mset ?rs"
    obtain us' g' where sh: "shuffle C us g = (us', g')" by force
    then have "mset us' = mset us" using shuffle_mset [OF rand, of us g] by simp
    then have m: "mset (List.map_filter as_ready us') = mset ?rs" using us(2) map_filter_mset by metis
    then have t: "total_of (List.map_filter as_ready us') = total_of ?rs" by (rule total_of_mset)
    obtain more rest where d: "List.map_filter as_ready us' = more @ rest"
        "fst (draw_notes amount us' [] 0) = more" "unat (snd (draw_notes amount us' [] 0)) = total_of more"
        "rest = [] \<or> unat amount \<le> total_of more"
        "more = [] \<or> total_of (butlast more) < unat amount \<or> butlast more = []"
      using draw_notes_take [of "[]" us' 0 amount] bound t by auto
    have eq: "notes_to_spend C now g amount d source s = (if unat amount \<le> total_of more then
        (case foldR (register_spend C now) more s of Inl e \<Rightarrow> (Inl e, s) | Inr s \<Rightarrow> (Inr (more, g'), s))
        else (Inl (Err ''not enough available notes for requested spend''), s))"
      using d(2,3) by (cases "draw_notes amount us' [] 0") (simp add: notes_to_spend_candidates us(1) sh Let_def word_le_nat_alt)
    show thesis
    proof (cases "unat amount \<le> total_of more")
      case True
      have "set more \<subseteq> set ?rs" using d(1) mset_eq_setD [OF m] by auto
      then have "set more \<subseteq> snd ` set (cs_unspent_set s)" by (auto simp: ready_notes_def)
      moreover have dist: "distinct (map (note_commit C) more)"
        using ready_notes_distinct [OF ok, of "dn_base_denom d" source] m d(1)
        by (metis distinct_append map_append mset_eq_imp_distinct_iff mset_map)
      ultimately have "foldR (register_spend C now) more s = Inr (mark_spent C now more s)"
        by (intro register_spends) (use unspent_note_entry [OF ok] in auto)
      moreover have "total_of (butlast more) < unat amount" using d(5) pos by (auto simp: word_less_nat_alt)
      ultimately show thesis using True d(1) m dist by (intro drawn) (simp_all add: eq)
    next
      case False
      then show thesis using d(1,4) t by (intro refused) (simp_all add: eq)
    qed
  qed
qed

text \<open>
  C6: what \<open>notes_to_spend\<close> does, exactly.  If the confirmed notes of the denomination (at the source
  address, if one is given) reach the amount, it returns some of them that reach it and would not
  without the last, whatever the shuffling does; exactly these are moved from the unspent notes to the
  submitted spends, where they stay for 60 seconds.  Otherwise it reports an error and changes nothing.
\<close>

theorem notes_to_spend_exact:
  assumes "rand_ok C" and "notes_ok C s" and "0 < amount" and "total_of (ready_notes C s (dn_base_denom d) source) < 2 ^ 64"
  shows "if unat amount \<le> total_of (ready_notes C s (dn_base_denom d) source)
    then \<exists>drawn g' s'. notes_to_spend C now g amount d source s = (Inr (drawn, g'), s')
      \<and> mset drawn \<subseteq># mset (ready_notes C s (dn_base_denom d) source)
      \<and> unat amount \<le> total_of drawn \<and> total_of (butlast drawn) < unat amount
      \<and> s' = s\<lparr>cs_unspent_set := cs_unspent_set s', cs_submitted_spend_set := cs_submitted_spend_set s'\<rparr>
      \<and> bt_get (cs_unspent_set s') = (\<lambda>c. if c \<in> note_commit C ` set drawn then None else bt_get (cs_unspent_set s) c)
      \<and> (\<forall>n \<in> set drawn. bt_get (cs_submitted_spend_set s') (note_commit C n) = Some (now + 60, n))
      \<and> (\<forall>c. c \<notin> note_commit C ` set drawn \<longrightarrow> bt_get (cs_submitted_spend_set s') c = bt_get (cs_submitted_spend_set s) c)
    else \<exists>e. notes_to_spend C now g amount d source s = (Inl (Err e), s)"
proof (rule notes_to_spend_outcome [OF assms, of now g])
  fix drawn rest g'
  assume n: "notes_to_spend C now g amount d source s = (Inr (drawn, g'), mark_spent C now drawn s)"
    and m: "mset (drawn @ rest) = mset (ready_notes C s (dn_base_denom d) source)"
    and t: "unat amount \<le> total_of drawn" "total_of (butlast drawn) < unat amount"
    and d: "distinct (map (note_commit C) drawn)"
  have "total_of drawn \<le> total_of (ready_notes C s (dn_base_denom d) source)" using total_of_mset [OF m] by simp
  moreover have "mset drawn \<subseteq># mset (ready_notes C s (dn_base_denom d) source)" unfolding m [symmetric] by simp
  moreover have "mark_spent C now drawn s = s\<lparr>cs_unspent_set := cs_unspent_set (mark_spent C now drawn s),
      cs_submitted_spend_set := cs_submitted_spend_set (mark_spent C now drawn s)\<rparr>"
    by (simp add: mark_spent_def)
  moreover have "bt_get (cs_unspent_set (mark_spent C now drawn s))
      = (\<lambda>c. if c \<in> note_commit C ` set drawn then None else bt_get (cs_unspent_set s) c)"
    by (simp add: mark_spent_def get_fold_remove)
  moreover have "\<forall>n \<in> set drawn. bt_get (cs_submitted_spend_set (mark_spent C now drawn s)) (note_commit C n) = Some (now + 60, n)"
    using get_fold_insert_same [OF d, where h = "\<lambda>n. (now + 60, n)"] by (simp add: mark_spent_def SUBMITTED_TRANSACTION_TIMEOUT_def)
  moreover have "\<forall>c. c \<notin> note_commit C ` set drawn \<longrightarrow>
      bt_get (cs_submitted_spend_set (mark_spent C now drawn s)) c = bt_get (cs_submitted_spend_set s) c"
    using get_fold_insert_other [where f = "note_commit C" and h = "\<lambda>n. (now + SUBMITTED_TRANSACTION_TIMEOUT, n)"]
    by (simp add: mark_spent_def)
  ultimately show ?thesis using n t le_trans by fastforce
qed simp

end
