(* ===== verification/Wallet_Sound.thy ===== *)
theory Wallet_Sound
  imports Wallet_Notes Builder_Sound
begin

text \<open>
  What the wallet builds, the shielded pool accepts.  \<open>wallet_ok\<close> is the state of a wallet that follows
  the chain; then a wallet with enough confirmed notes builds its payments, delegations and
  undelegations without fail, the values balance, the notes are spent once, and the transaction passes
  the pool's stateless check.
\<close>

section \<open>Laws and invariant\<close>

definition crypto_laws :: "crypto \<Rightarrow> bool" where
  "crypto_laws C \<longleftrightarrow> group_ok C \<and> nct_ok C \<and> rand_ok C \<and> embed_ok C \<and> rdsa_ok C (VALUE_BLINDING_GENERATOR C)
     \<and> encoding_ok C \<and> aead_ok C \<and> ff1_ok C"

text \<open>The nullifier of a note whose commitment the wallet's tree has witnessed.\<close>

definition note_nullifier :: "crypto \<Rightarrow> client_state \<Rightarrow> note_t \<Rightarrow> nullifier" where
  "note_nullifier C s n =
     (case nct_auth_path C (cs_nct s) (note_commit C n) of
        Some (pos, _) \<Rightarrow> fvk_derive_nullifier C (wallet_fvk (cs_wallet s)) pos (note_commit C n)
      | None \<Rightarrow> 0)"

definition note_spendable :: "crypto \<Rightarrow> client_state \<Rightarrow> note_t \<Rightarrow> bool" where
  "note_spendable C s n \<longleftrightarrow> spendable C (wl_spend_key (cs_wallet s)) n
     \<and> nct_auth_path C (cs_nct s) (note_commit C n) \<noteq> None
     \<and> bt_get (cs_nullifier_map s) (note_nullifier C s n) = Some (note_commit C n)"

definition own_generator :: "crypto \<Rightarrow> wallet \<Rightarrow> nat \<Rightarrow> element" where
  "own_generator C w i =
     diversified_generator C (diversifier_for_index C (ivk_dk (wallet_ivk w)) (diversifier_index_of_u64 (of_nat i)))"

definition wallet_ok :: "crypto \<Rightarrow> client_state \<Rightarrow> bool" where
  "wallet_ok C s \<longleftrightarrow> notes_ok C s
     \<and> (\<forall>i d. bt_get (cs_asset_cache s) i = Some d \<longrightarrow> dn_id d = i \<and> i = denom_id C (dn_base_denom d))
     \<and> (\<forall>n \<in> snd ` set (cs_unspent_set s). note_spendable C s n)
     \<and> (\<forall>i < length (wl_address_labels (cs_wallet s)). own_generator C (cs_wallet s) i \<noteq> el_zero C)"

section \<open>The wallet's addresses\<close>

definition payable :: "crypto \<Rightarrow> address \<Rightarrow> bool" where
  "payable C a \<longleftrightarrow> address_ok C a \<and> ad_g_d a \<noteq> el_zero C \<and> el_decompress C (ad_pk_d a) \<noteq> None"

lemma address_by_index_ok:
  assumes laws: "crypto_laws C" and "unat i < length (wl_address_labels (cs_wallet s))"
    and "\<forall>i < length (wl_address_labels (cs_wallet s)). own_generator C (cs_wallet s) i \<noteq> el_zero C"
  obtains l a where "address_by_index C (cs_wallet s) (unat i) = Inr (l, a)" and "payable C a"
    and "u64_of_diversifier_index (index_for_diversifier C (ivk_dk (wallet_ivk (cs_wallet s))) (ad_d a)) = Inr i"
proof -
  let ?k = "wallet_ivk (cs_wallet s)" and ?i = "diversifier_index_of_u64 i"
  have e: "encoding_ok C" and f: "ff1_ok C" using laws by (simp_all add: crypto_laws_def)
  have i: "length ?i = 11" by (simp add: diversifier_index_of_u64_def)
  obtain a dtk where a: "payment_address C ?k ?i = Inr (a, dtk)" "ad_d a = diversifier_for_index C (ivk_dk ?k) ?i"
    "ad_g_d a = diversified_generator C (ad_d a)" "ad_pk_d a = diversified_public C (ivk_secret ?k) (ad_g_d a)"
    by (rule payment_address_total [OF e])
  have "own_generator C (cs_wallet s) (unat i) \<noteq> el_zero C" using assms(2,3) by blast
  then have "payable C a"
    using address_ok_payment [OF a(1) f e i] a(2,3,4) encoding_laws [OF e]
    by (simp add: payable_def own_generator_def diversified_public_def)
  moreover have "index_for_diversifier C (ivk_dk ?k) (ad_d a) = ?i"
    using f i by (simp add: a(2) diversifier_for_index_def index_for_diversifier_def ff1_ok_def)
  ultimately show ?thesis
    using that [of "wl_address_labels (cs_wallet s) ! unat i" a] assms(2) a(1)
    by (simp add: address_by_index_def u64_of_diversifier_index_of)
qed

section \<open>Extending a builder\<close>

abbreviation builder_nullifiers :: "tx_builder \<Rightarrow> nullifier list" where
  "builder_nullifiers b \<equiv> map (\<lambda>(_, body). sb_nullifier body) (bd_spends b)"

text \<open>The builder grows by values put in and taken out, spends with these nullifiers and outputs of these values.\<close>

definition extends ::
  "crypto \<Rightarrow> nct \<Rightarrow> tx_builder \<Rightarrow> tx_builder \<Rightarrow> (bool \<times> typed_value) list \<Rightarrow> nullifier list \<Rightarrow> typed_value list \<Rightarrow> bool" where
  "extends C t b b' ts nfs vs \<longleftrightarrow>
     (built C t b \<longrightarrow> built C t b')
     \<and> bd_chain_id b' = bd_chain_id b \<and> bd_fee b' = bd_fee b \<and> bd_validator_definitions b' = bd_validator_definitions b
     \<and> bd_delegations b' = bd_delegations b \<and> bd_undelegations b' = bd_undelegations b
     \<and> (\<forall>i. net i (builder_terms C b') = net i (builder_terms C b) + net i ts)
     \<and> builder_nullifiers b' = builder_nullifiers b @ nfs
     \<and> map (opf_value \<circ> out_proof) (bd_outputs b') = map (opf_value \<circ> out_proof) (bd_outputs b) @ vs"

lemma net_simps [simp]:
  "net i [] = 0"
  "net i ((True, v) # ts) = (if val_asset_id v = i then int (unat (val_amount v)) else 0) + net i ts"
  "net i ((False, v) # ts) = net i ts - (if val_asset_id v = i then int (unat (val_amount v)) else 0)"
  "net i (ts @ us) = net i ts + net i us"
  by (simp_all add: net_def)

lemma extends_refl: "extends C t b b [] [] []"
  by (simp add: extends_def)

lemma extends_trans:
  "extends C t b b' ts nfs vs \<Longrightarrow> extends C t b' b'' ts' nfs' vs' \<Longrightarrow> extends C t b b'' (ts @ ts') (nfs @ nfs') (vs @ vs')"
  by (simp add: extends_def)

lemma extends_spend:
  assumes "spendable C sk n" and p: "nct_auth_path C t (note_commit C n) = Some path"
  obtains b' g' where "add_spend C g t sk n b = Inr (b', g')"
    and "extends C t b b' [(True, nt_value n)] [derive_nullifier C (fvk_nk (sk_fvk sk)) (fst path) (note_commit C n)] []"
proof (rule add_spend_total [OF p, of g sk b])
  fix b' g' rsk body
  assume b': "add_spend C g t sk n b = Inr (b', g')"
    and eq: "b' = b\<lparr>bd_synthetic_blinding_factor := bd_synthetic_blinding_factor b', bd_value_balance := bd_value_balance b',
       bd_value_commitments := bd_value_commitments b', bd_spends := bd_spends b @ [(rsk, body)]\<rparr>"
    and body: "spf_value (sb_proof body) = nt_value n"
      "sb_nullifier body = derive_nullifier C (fvk_nk (sk_fvk sk)) (fst path) (note_commit C n)"
  have f: "bd_spends b' = bd_spends b @ [(rsk, body)]" "bd_outputs b' = bd_outputs b" "bd_delegations b' = bd_delegations b"
    "bd_undelegations b' = bd_undelegations b" "bd_fee b' = bd_fee b" "bd_chain_id b' = bd_chain_id b"
    "bd_validator_definitions b' = bd_validator_definitions b"
    by (subst eq, simp)+
  have "built C t b \<longrightarrow> built C t b'" using b_spend assms(1) b' by blast
  then show thesis using b' body by (intro that [of b' g']) (simp_all add: extends_def f builder_terms_def)
qed

lemma extends_output:
  assumes laws: "crypto_laws C" and a: "payable C dest" and m: "length memo = 512"
  obtains n b' g' where "add_output_producing_note C g dest v memo ovk b = Inr (n, b', g')"
    and "extends C t b b' [(False, v)] [] [v]" and "nt_value n = v" and "nt_diversifier n = ad_d dest"
proof -
  have ad: "address_ok C dest" "ad_g_d dest \<noteq> el_zero C" "el_decompress C (ad_pk_d dest) \<noteq> None"
    using a by (simp_all add: payable_def)
  have "encoding_ok C" "aead_ok C" using laws by (simp_all add: crypto_laws_def)
  then obtain n b' g' out where b': "add_output_producing_note C g dest v memo ovk b = Inr (n, b', g')"
    and eq: "b' = b\<lparr>bd_synthetic_blinding_factor := bd_synthetic_blinding_factor b', bd_value_balance := bd_value_balance b',
       bd_value_commitments := bd_value_commitments b', bd_outputs := bd_outputs b @ [out]\<rparr>"
    and v: "opf_value (out_proof out) = v" "nt_value n = v"
    using add_output_total [OF _ _ ad(1) m ad(3)] by metis
  have f: "bd_outputs b' = bd_outputs b @ [out]" "bd_spends b' = bd_spends b" "bd_delegations b' = bd_delegations b"
    "bd_undelegations b' = bd_undelegations b" "bd_fee b' = bd_fee b" "bd_chain_id b' = bd_chain_id b"
    "bd_validator_definitions b' = bd_validator_definitions b"
    by (subst eq, simp)+
  have "built C t b \<longrightarrow> built C t b'" using b_output ad b' by blast
  moreover from b' obtain g1 where "note_generate C g dest v = Inr (n, g1)"
    by (auto simp: add_output_producing_note_def Let_def result_simps case_prod_beta)
  then have "nt_diversifier n = ad_d dest" by (rule note_generate_Inr(2))
  ultimately show thesis using b' v by (intro that [of n b' g']) (simp_all add: extends_def f builder_terms_def)
qed

lemma spend_all_ok:
  assumes "\<forall>n \<in> set ns. note_spendable C s n"
  obtains b' g' where "spend_all C s ns (b, g) = Inr (b', g')"
    and "extends C (cs_nct s) b b' (map (\<lambda>n. (True, nt_value n)) ns) (map (note_nullifier C s) ns) []"
proof -
  have "\<exists>b' g'. spend_all C s ns (b, g) = Inr (b', g')
      \<and> extends C (cs_nct s) b b' (map (\<lambda>n. (True, nt_value n)) ns) (map (note_nullifier C s) ns) []"
    using assms
  proof (induction ns arbitrary: b g)
    case Nil
    show ?case by (simp add: spend_all_def extends_refl)
  next
    case (Cons n ns)
    from Cons.prems obtain path where sp: "spendable C (wl_spend_key (cs_wallet s)) n"
      and path: "nct_auth_path C (cs_nct s) (note_commit C n) = Some path"
      by (auto simp: note_spendable_def)
    then have nf: "note_nullifier C s n
        = derive_nullifier C (fvk_nk (sk_fvk (wl_spend_key (cs_wallet s)))) (fst path) (note_commit C n)"
      by (simp add: note_nullifier_def fvk_derive_nullifier_def wallet_fvk_def case_prod_beta)
    obtain b1 g1 where b1: "add_spend C g (cs_nct s) (wl_spend_key (cs_wallet s)) n b = Inr (b1, g1)"
      and e1: "extends C (cs_nct s) b b1 [(True, nt_value n)] [note_nullifier C s n] []"
      unfolding nf by (rule extends_spend [OF sp path])
    obtain b2 g2 where b2: "spend_all C s ns (b1, g1) = Inr (b2, g2)"
      and e2: "extends C (cs_nct s) b1 b2 (map (\<lambda>n. (True, nt_value n)) ns) (map (note_nullifier C s) ns) []"
      using Cons.IH Cons.prems by fastforce
    show ?case using b1 b2 extends_trans [OF e1 e2] by (auto simp: spend_all_def)
  qed
  then show thesis using that by blast
qed

section \<open>Moving notes between the sets\<close>

text \<open>Only the three sets of notes in transit differ.\<close>

definition moved :: "client_state \<Rightarrow> client_state \<Rightarrow> bool" where
  "moved s s' \<longleftrightarrow> s' = s\<lparr>cs_unspent_set := cs_unspent_set s', cs_submitted_spend_set := cs_submitted_spend_set s',
     cs_submitted_change_set := cs_submitted_change_set s'\<rparr>"

lemma moved_fields:
  assumes "moved s s'"
  shows "cs_nct s' = cs_nct s" "cs_wallet s' = cs_wallet s" "cs_asset_cache s' = cs_asset_cache s"
    "cs_nullifier_map s' = cs_nullifier_map s" "cs_chain_params s' = cs_chain_params s"
  by (subst assms [unfolded moved_def], simp)+

lemma moved_refl: "moved s s"
  by (simp add: moved_def)

lemma moved_trans: "moved s s' \<Longrightarrow> moved s' s'' \<Longrightarrow> moved s s''"
  unfolding moved_def by (cases s; cases s'; cases s'') simp

lemma moved_note:
  assumes "moved s s'"
  shows "note_index C s' n = note_index C s n" "note_denom s' n = note_denom s n" "note_known C s' n = note_known C s n"
    "idx C s' n = idx C s n" "base s' n = base s n" "note_nullifier C s' n = note_nullifier C s n"
    "note_spendable C s' n = note_spendable C s n"
  unfolding note_index_def note_denom_def note_known_def idx_def base_def note_nullifier_def note_spendable_def
    moved_fields [OF assms] by (rule refl)+

lemma moved_mark_spent: "moved s (mark_spent C now ns s)"
  by (simp add: moved_def mark_spent_def)

lemma moved_register_change: "moved s (register_change C now n s)"
  by (simp add: moved_def register_change_def)

lemma set_bt_insert: "set (bt_insert k v m) \<subseteq> insert (k, v) (set m)"
  by (induction m) auto

lemma set_fold_insert: "set (fold (\<lambda>n. bt_insert (f n) (h n)) ns m) \<subseteq> set m \<union> (\<lambda>n. (f n, h n)) ` set ns"
proof (induction ns arbitrary: m)
  case (Cons n ns)
  then show ?case using set_bt_insert [of "f n" "h n" m] by fastforce
qed simp

lemma bt_ok_fold_insert: "bt_ok m \<Longrightarrow> bt_ok (fold (\<lambda>n. bt_insert (f n) (h n)) ns m)"
  by (induction ns arbitrary: m) (simp_all add: bt_ok_insert)

lemma bt_ok_fold_remove: "bt_ok m \<Longrightarrow> bt_ok (fold (\<lambda>n. bt_remove (f n)) ns m)"
  by (induction ns arbitrary: m) (simp_all add: bt_ok_remove)

lemma all_unspent_iff:
  "(\<forall>u \<in> set (all_unspent s). P (unspent_note_ref u)) \<longleftrightarrow> (\<forall>e \<in> set (cs_unspent_set s). P (snd e))
     \<and> (\<forall>e \<in> set (cs_submitted_spend_set s) \<union> set (cs_submitted_change_set s). P (snd (snd e)))"
  by (simp add: all_unspent_def ball_Un case_prod_beta)

text \<open>The invariant survives a move when the notes stay among the known ones.\<close>

lemma wallet_ok_moved:
  assumes ok: "wallet_ok C s" and mv: "moved s s'"
    and bt: "bt_ok (cs_unspent_set s')" "bt_ok (cs_submitted_spend_set s')" "bt_ok (cs_submitted_change_set s')"
    and un: "set (cs_unspent_set s') \<subseteq> set (cs_unspent_set s)"
    and sub: "\<forall>e \<in> set (cs_submitted_spend_set s') \<union> set (cs_submitted_change_set s'). note_known C s (snd (snd e))"
  shows "wallet_ok C s'"
proof -
  have "\<forall>e \<in> set (cs_unspent_set s). note_known C s (snd e)"
    using ok all_unspent_iff [of s "note_known C s"] by (simp add: wallet_ok_def notes_ok_def)
  then have "\<forall>u \<in> set (all_unspent s'). note_known C s (unspent_note_ref u)"
    using un sub all_unspent_iff [of s' "note_known C s"] by blast
  moreover have "\<forall>(c, n) \<in> set (cs_unspent_set s'). note_commit C n = c"
    using ok un unfolding wallet_ok_def notes_ok_def by blast
  ultimately have "notes_ok C s'" using bt by (simp add: notes_ok_def moved_note [OF mv])
  moreover have "\<forall>n \<in> snd ` set (cs_unspent_set s'). note_spendable C s n" using ok un unfolding wallet_ok_def by blast
  ultimately show ?thesis using ok unfolding wallet_ok_def by (simp add: moved_note [OF mv] moved_fields [OF mv])
qed

lemma known_notes:
  assumes "wallet_ok C s"
  shows "n \<in> snd ` set (cs_unspent_set s) \<Longrightarrow> note_known C s n"
    and "\<forall>e \<in> set (cs_submitted_spend_set s) \<union> set (cs_submitted_change_set s). note_known C s (snd (snd e))"
  using assms all_unspent_iff [of s "note_known C s"] by (auto simp: wallet_ok_def notes_ok_def)

lemma wallet_ok_mark_spent:
  assumes ok: "wallet_ok C s" and ns: "set ns \<subseteq> snd ` set (cs_unspent_set s)"
  shows "wallet_ok C (mark_spent C now ns s)"
proof (rule wallet_ok_moved [OF ok moved_mark_spent])
  have bt: "bt_ok (cs_unspent_set s)" "bt_ok (cs_submitted_spend_set s)" "bt_ok (cs_submitted_change_set s)"
    using ok by (simp_all add: wallet_ok_def notes_ok_def)
  show "bt_ok (cs_unspent_set (mark_spent C now ns s))" "bt_ok (cs_submitted_spend_set (mark_spent C now ns s))"
    "bt_ok (cs_submitted_change_set (mark_spent C now ns s))"
    by (simp_all add: mark_spent_def bt_ok_fold_remove bt_ok_fold_insert bt)
  show "set (cs_unspent_set (mark_spent C now ns s)) \<subseteq> set (cs_unspent_set s)"
    by (simp add: mark_spent_def fold_remove_filter)
  show "\<forall>e \<in> set (cs_submitted_spend_set (mark_spent C now ns s))
      \<union> set (cs_submitted_change_set (mark_spent C now ns s)). note_known C s (snd (snd e))"
  proof
    fix e assume "e \<in> set (cs_submitted_spend_set (mark_spent C now ns s)) \<union> set (cs_submitted_change_set (mark_spent C now ns s))"
    then have "e \<in> set (cs_submitted_spend_set s) \<union> set (cs_submitted_change_set s)
        \<or> e \<in> (\<lambda>n. (note_commit C n, now + SUBMITTED_TRANSACTION_TIMEOUT, n)) ` set ns"
      using set_fold_insert [of "note_commit C" "\<lambda>n. (now + SUBMITTED_TRANSACTION_TIMEOUT, n)" ns "cs_submitted_spend_set s"]
      by (auto simp: mark_spent_def)
    then show "note_known C s (snd (snd e))"
    proof
      assume "e \<in> (\<lambda>n. (note_commit C n, now + SUBMITTED_TRANSACTION_TIMEOUT, n)) ` set ns"
      then show ?thesis using subsetD [OF ns] known_notes(1) [OF ok] by auto
    qed (use known_notes(2) [OF ok] in blast)
  qed
qed

lemma wallet_ok_register_change:
  assumes ok: "wallet_ok C s" and n: "note_known C s n"
  shows "wallet_ok C (register_change C now n s)"
proof (rule wallet_ok_moved [OF ok moved_register_change])
  show "bt_ok (cs_unspent_set (register_change C now n s))" "bt_ok (cs_submitted_spend_set (register_change C now n s))"
    "bt_ok (cs_submitted_change_set (register_change C now n s))"
    using ok by (simp_all add: register_change_def wallet_ok_def notes_ok_def bt_ok_insert)
  show "set (cs_unspent_set (register_change C now n s)) \<subseteq> set (cs_unspent_set s)" by (simp add: register_change_def)
  show "\<forall>e \<in> set (cs_submitted_spend_set (register_change C now n s))
      \<union> set (cs_submitted_change_set (register_change C now n s)). note_known C s (snd (snd e))"
    using known_notes(2) [OF ok] n set_bt_insert [of "note_commit C n" "(now + SUBMITTED_TRANSACTION_TIMEOUT, n)" "cs_submitted_change_set s"]
    unfolding register_change_def by auto
qed

section \<open>Spending\<close>

text \<open>The builder spends no note twice, only notes that were unspent in the beginning (\<open>s0\<close>), and none that the
  wallet still counts as unspent.\<close>

definition fresh :: "client_state \<Rightarrow> tx_builder \<Rightarrow> client_state \<Rightarrow> bool" where
  "fresh s0 b s \<longleftrightarrow> distinct (builder_nullifiers b)
     \<and> (\<forall>x \<in> set (builder_nullifiers b). \<exists>c. bt_get (cs_nullifier_map s) x = Some c
          \<and> bt_get (cs_unspent_set s0) c \<noteq> None \<and> bt_get (cs_unspent_set s) c = None)
     \<and> dom (bt_get (cs_unspent_set s)) \<subseteq> dom (bt_get (cs_unspent_set s0))"

definition denom_ok :: "crypto \<Rightarrow> denom \<Rightarrow> bool" where
  "denom_ok C d \<longleftrightarrow> dn_id d = denom_id C (dn_base_denom d)"

abbreviation funds :: "crypto \<Rightarrow> client_state \<Rightarrow> denom \<Rightarrow> u64 option \<Rightarrow> nat" where
  "funds C s d source \<equiv> total_of (ready_notes C s (dn_base_denom d) source)"

lemma ready_note_asset:
  assumes ok: "wallet_ok C s" and d: "denom_ok C d" and n: "n \<in> set (ready_notes C s (dn_base_denom d) source)"
  shows "note_asset_id n = dn_id d"
proof -
  have "n \<in> snd ` set (cs_unspent_set s)" and b: "base s n = dn_base_denom d" using n by (auto simp: ready_notes_def)
  then obtain d' where d': "bt_get (cs_asset_cache s) (note_asset_id n) = Some d'"
    using known_notes(1) [OF ok] by (auto simp: note_known_def note_denom_def)
  then have "dn_base_denom d' = dn_base_denom d" using b by (simp add: base_def note_denom_def)
  moreover have "note_asset_id n = denom_id C (dn_base_denom d')" using ok d' by (simp add: wallet_ok_def)
  ultimately show ?thesis using d by (simp add: denom_ok_def)
qed

lemma ready_notes_other:
  assumes ok: "wallet_ok C s" and drawn: "set drawn \<subseteq> set (ready_notes C s b source)" and "b' \<noteq> b"
  shows "ready_notes C (mark_spent C now drawn s) b' source' = ready_notes C s b' source'"
proof -
  have nok: "notes_ok C s" using ok by (simp add: wallet_ok_def)
  have keep: "fst e \<notin> note_commit C ` set drawn" if e: "e \<in> set (cs_unspent_set s)" and "base s (snd e) = b'" for e
  proof
    assume "fst e \<in> note_commit C ` set drawn"
    then obtain n where n: "n \<in> set drawn" "fst e = note_commit C n" by auto
    then have r: "n \<in> snd ` set (cs_unspent_set s)" "base s n = b" using drawn by (auto simp: ready_notes_def)
    have "\<forall>(c, n) \<in> set (cs_unspent_set s). note_commit C n = c" using nok by (simp add: notes_ok_def)
    from bspec [OF this e] have "note_commit C (snd e) = fst e" by (simp add: case_prod_beta)
    then have "bt_get (cs_unspent_set s) (note_commit C n) = Some (snd e)"
      using unspent_note_entry [OF nok imageI [OF e]] n(2) by metis
    with unspent_note_entry [OF nok r(1)] have "snd e = n" by simp
    then show False using that(2) r(2) assms(3) by simp
  qed
  have "filter P (map snd (filter (\<lambda>e. fst e \<notin> note_commit C ` set drawn) m)) = filter P (map snd m)"
    if "\<forall>e \<in> set m. P (snd e) \<longrightarrow> fst e \<notin> note_commit C ` set drawn" for P and m :: "(note_commitment \<times> note_t) list"
    using that by (induction m) auto
  from this [of "cs_unspent_set s" "\<lambda>n. base s n = b' \<and> (case source' of Some i \<Rightarrow> idx C s n = i | None \<Rightarrow> True)"] keep
  show ?thesis
    unfolding ready_notes_def moved_note [OF moved_mark_spent] by (simp add: mark_spent_def fold_remove_filter)
qed

lemma ready_notes_register_change: "ready_notes C (register_change C now n s) b source = ready_notes C s b source"
  unfolding ready_notes_def moved_note [OF moved_register_change] by (simp add: register_change_def)

lemma fresh_mark_spent:
  assumes ok: "wallet_ok C s" and fr: "fresh s0 b s" and e: "extends C t b b' ts (map (note_nullifier C s) drawn) vs"
    and drawn: "set drawn \<subseteq> snd ` set (cs_unspent_set s)" "distinct (map (note_commit C) drawn)"
  shows "fresh s0 b' (mark_spent C now drawn s)"
proof -
  have nok: "notes_ok C s" using ok by (simp add: wallet_ok_def)
  have nf: "bt_get (cs_nullifier_map s) (note_nullifier C s n) = Some (note_commit C n)"
    "bt_get (cs_unspent_set s) (note_commit C n) = Some n" if "n \<in> set drawn" for n
    using ok drawn(1) that unspent_note_entry [OF nok] by (auto simp: wallet_ok_def note_spendable_def)
  have "distinct (map (note_nullifier C s) drawn)"
    using drawn(2) nf(1) unfolding distinct_map inj_on_def by (metis option.inject)
  moreover have "set (builder_nullifiers b) \<inter> note_nullifier C s ` set drawn = {}"
    using nf fr unfolding fresh_def by fastforce
  moreover have eq: "builder_nullifiers b' = builder_nullifiers b @ map (note_nullifier C s) drawn"
    using e unfolding extends_def by blast
  ultimately have "distinct (builder_nullifiers b')" using fr by (simp add: fresh_def del: map_map)
  moreover have "\<exists>c. bt_get (cs_nullifier_map s) x = Some c \<and> bt_get (cs_unspent_set s0) c \<noteq> None
      \<and> (if c \<in> note_commit C ` set drawn then None else bt_get (cs_unspent_set s) c) = None"
    if x: "x \<in> set (builder_nullifiers b')" for x
  proof (cases "x \<in> set (builder_nullifiers b)")
    case True
    then show ?thesis using fr unfolding fresh_def by (metis (full_types))
  next
    case False
    then obtain n where "n \<in> set drawn" "x = note_nullifier C s n" using x unfolding eq by auto
    moreover from this have "note_commit C n \<in> dom (bt_get (cs_unspent_set s0))"
      using nf(2) fr unfolding fresh_def by blast
    ultimately show ?thesis using nf(1) by (intro exI [of _ "note_commit C n"]) auto
  qed
  moreover have "dom (\<lambda>c. if c \<in> note_commit C ` set drawn then None else bt_get (cs_unspent_set s) c)
      \<subseteq> dom (bt_get (cs_unspent_set s0))"
    using fr unfolding fresh_def dom_def by (auto split: if_splits)
  ultimately show ?thesis by (simp add: fresh_def mark_spent_def get_fold_remove)
qed

lemma net_notes:
  "\<forall>n \<in> set ns. note_asset_id n = a \<Longrightarrow> net i (map (\<lambda>n. (True, nt_value n)) ns) = (if i = a then int (total_of ns) else 0)"
  by (induction ns) (auto simp: note_asset_id_def note_amount_def)

lemma spend_funds:
  assumes laws: "crypto_laws C" and ok: "wallet_ok C s" and d: "denom_ok C d" and fr: "fresh s0 b s"
    and pos: "0 < amount" and enough: "unat amount \<le> funds C s d source" and bound: "funds C s d source < 2 ^ 64"
  obtains drawn g1 b' g2 where "notes_to_spend C now g amount d source s = (Inr (drawn, g1), mark_spent C now drawn s)"
    and "spend_all C (mark_spent C now drawn s) drawn (b, g1) = Inr (b', g2)"
    and "drawn \<noteq> []" and "set drawn \<subseteq> set (ready_notes C s (dn_base_denom d) source)"
    and "unat (sum_list (map note_amount drawn)) = total_of drawn" and "unat amount \<le> total_of drawn"
    and "extends C (cs_nct s) b b' (map (\<lambda>n. (True, nt_value n)) drawn) (map (note_nullifier C s) drawn) []"
    and "fresh s0 b' (mark_spent C now drawn s)" and "wallet_ok C (mark_spent C now drawn s)"
    and "\<forall>i. net i (map (\<lambda>n. (True, nt_value n)) drawn) = (if i = dn_id d then int (total_of drawn) else 0)"
proof -
  have rand: "rand_ok C" and nok: "notes_ok C s" using laws ok by (simp_all add: crypto_laws_def wallet_ok_def)
  obtain drawn rest g1 where n: "notes_to_spend C now g amount d source s = (Inr (drawn, g1), mark_spent C now drawn s)"
    and m: "mset (drawn @ rest) = mset (ready_notes C s (dn_base_denom d) source)"
    and t: "unat amount \<le> total_of drawn" and dist: "distinct (map (note_commit C) drawn)"
    by (rule notes_to_spend_outcome [OF rand nok pos bound, of now g]) (use enough in auto)
  have sub: "set drawn \<subseteq> set (ready_notes C s (dn_base_denom d) source)" using mset_eq_setD [OF m] by auto
  then have un: "set drawn \<subseteq> snd ` set (cs_unspent_set s)" by (auto simp: ready_notes_def)
  have sp: "\<forall>n \<in> set drawn. note_spendable C (mark_spent C now drawn s) n"
    using ok un unfolding moved_note [OF moved_mark_spent] wallet_ok_def by blast
  obtain b' g2 where b': "spend_all C (mark_spent C now drawn s) drawn (b, g1) = Inr (b', g2)"
    and e: "extends C (cs_nct s) b b' (map (\<lambda>n. (True, nt_value n)) drawn) (map (note_nullifier C s) drawn) []"
    using spend_all_ok [OF sp, of b g1] unfolding moved_fields [OF moved_mark_spent] moved_note [OF moved_mark_spent] by blast
  have "total_of drawn < 2 ^ 64" using total_of_mset [OF m] bound by simp
  moreover have "drawn \<noteq> []" using t pos by (auto simp: word_less_nat_alt)
  moreover have "\<forall>n \<in> set drawn. note_asset_id n = dn_id d" using sub ready_note_asset [OF ok d] by blast
  ultimately show thesis
    by (intro that [OF n b' _ sub unat_sum_amounts t e fresh_mark_spent [OF ok fr e un dist] wallet_ok_mark_spent [OF ok un]])
       (simp_all add: net_notes)
qed

text \<open>An output to one of the wallet's own addresses, which the wallet registers as change.\<close>

lemma known_change:
  assumes "bt_get (cs_asset_cache s) (val_asset_id (nt_value n)) \<noteq> None" and "nt_diversifier n = ad_d a"
    and "u64_of_diversifier_index (index_for_diversifier C (ivk_dk (wallet_ivk (cs_wallet s))) (ad_d a)) = Inr i"
    and "unat i < length (wl_address_labels (cs_wallet s))"
  shows "note_known C s n"
  using assms by (simp add: note_known_def note_denom_def note_asset_id_def note_index_def)

lemma fresh_extends:
  "fresh s0 b s \<Longrightarrow> extends C t b b' ts [] vs \<Longrightarrow> fresh s0 b' s"
  unfolding fresh_def extends_def by simp

lemma fresh_register_change: "fresh s0 b (register_change C now n s) = fresh s0 b s"
  by (simp add: fresh_def register_change_def)

lemma change_output_ok:
  assumes laws: "crypto_laws C" and ok: "wallet_ok C s" and a: "payable C a" and fr: "fresh s0 b s"
    and i: "u64_of_diversifier_index (index_for_diversifier C (ivk_dk (wallet_ivk (cs_wallet s))) (ad_d a)) = Inr i"
      "unat i < length (wl_address_labels (cs_wallet s))"
    and v: "bt_get (cs_asset_cache s) (val_asset_id v) \<noteq> None"
  obtains n b' g' where "change_output C now a v (b, g) s = (Inr (b', g'), register_change C now n s)"
    and "extends C (cs_nct s) b b' [(False, v)] [] [v]" and "wallet_ok C (register_change C now n s)"
    and "fresh s0 b' (register_change C now n s)"
proof -
  have "length memo_default = 512" by (simp add: memo_default_def)
  then obtain n b' g' where n: "add_output_producing_note C g a v memo_default (wallet_ovk (cs_wallet s)) b = Inr (n, b', g')"
    and e: "extends C (cs_nct s) b b' [(False, v)] [] [v]" and nv: "nt_value n = v" "nt_diversifier n = ad_d a"
    by (rule extends_output [OF laws a])
  have "note_known C s n" by (rule known_change [OF _ nv(2) i]) (simp add: nv v)
  then show thesis
    using n fresh_extends [OF fr e] wallet_ok_register_change [OF ok]
    by (intro that [OF _ e]) (simp_all add: change_output_def fresh_register_change)
qed

section \<open>Paying one denomination\<close>

lemma change_address_ok:
  assumes laws: "crypto_laws C" and ok: "wallet_ok C s" and n: "note_known C s n"
  obtains i a where "change_address C (cs_wallet s) n = Inr a" and "payable C a"
    and "u64_of_diversifier_index (index_for_diversifier C (ivk_dk (wallet_ivk (cs_wallet s))) (ad_d a)) = Inr i"
    and "unat i < length (wl_address_labels (cs_wallet s))"
proof -
  from n obtain i where i: "note_index C s n = Inr i" "unat i < length (wl_address_labels (cs_wallet s))"
    by (auto simp: note_known_def)
  have own: "\<forall>i < length (wl_address_labels (cs_wallet s)). own_generator C (cs_wallet s) i \<noteq> el_zero C"
    using ok by (simp add: wallet_ok_def)
  obtain l a where a: "address_by_index C (cs_wallet s) (unat i) = Inr (l, a)" "payable C a"
    "u64_of_diversifier_index (index_for_diversifier C (ivk_dk (wallet_ivk (cs_wallet s))) (ad_d a)) = Inr i"
    by (rule address_by_index_ok [OF laws i(2) own])
  then show thesis using i by (intro that [of a i]) (simp_all add: change_address_def note_index_def)
qed

lemma give_change:
  assumes laws: "crypto_laws C" and ok: "wallet_ok C s" and a: "payable C a" and fr: "fresh s0 b s"
    and i: "u64_of_diversifier_index (index_for_diversifier C (ivk_dk (wallet_ivk (cs_wallet s))) (ad_d a)) = Inr i"
      "unat i < length (wl_address_labels (cs_wallet s))"
    and v: "bt_get (cs_asset_cache s) asset \<noteq> None"
  obtains b' g' s' ts vs where "(if 0 < change then change_output C now a \<lparr>val_amount = change, val_asset_id = asset\<rparr> (b, g) s
      else (Inr (b, g), s)) = (Inr (b', g'), s')"
    and "extends C (cs_nct s) b b' ts [] vs" and "\<forall>i. net i ts = - (if i = asset then int (unat change) else 0)"
    and "moved s s'" and "wallet_ok C s'" and "fresh s0 b' s'" and "ready_notes C s' = ready_notes C s"
proof (cases "0 < change")
  case True
  have "bt_get (cs_asset_cache s) (val_asset_id \<lparr>val_amount = change, val_asset_id = asset\<rparr>) \<noteq> None" using v by simp
  then obtain n b' g' where c: "change_output C now a \<lparr>val_amount = change, val_asset_id = asset\<rparr> (b, g) s
      = (Inr (b', g'), register_change C now n s)"
    and e: "extends C (cs_nct s) b b' [(False, \<lparr>val_amount = change, val_asset_id = asset\<rparr>)] [] [\<lparr>val_amount = change, val_asset_id = asset\<rparr>]"
    and ok': "wallet_ok C (register_change C now n s)" and fr': "fresh s0 b' (register_change C now n s)"
    by (rule change_output_ok [OF laws ok a fr i])
  have "ready_notes C (register_change C now n s) = ready_notes C s" by (intro ext ready_notes_register_change)
  with True c show thesis by (intro that [OF _ e _ moved_register_change ok' fr']) simp_all
next
  case False
  then show thesis by (intro that [OF _ extends_refl _ moved_refl ok fr]) (simp_all add: word_gt_0)
qed

lemma pay_denom_ok:
  assumes laws: "crypto_laws C" and ok: "wallet_ok C s" and d: "denom_ok C d" and fr: "fresh s0 b s"
    and enough: "unat amount \<le> funds C s d source" and bound: "funds C s d source < 2 ^ 64"
  obtains b' g' s' ts nfs vs where "pay_denom C now source (d, amount) (b, g) s = (Inr (b', g'), s')"
    and "extends C (cs_nct s) b b' ts nfs vs" and "\<forall>i. net i ts = (if i = dn_id d then int (unat amount) else 0)"
    and "moved s s'" and "wallet_ok C s'" and "fresh s0 b' s'"
    and "\<forall>b' src. b' \<noteq> dn_base_denom d \<longrightarrow> ready_notes C s' b' src = ready_notes C s b' src"
proof (cases "amount = 0")
  case True
  then show thesis using extends_refl moved_refl ok fr by (intro that [of b g s "[]" "[]" "[]"]) (simp_all add: pay_denom_def)
next
  case False
  then have pos: "0 < amount" by (simp add: word_gt_0)
  obtain drawn g1 b1 g2 where n: "notes_to_spend C now g amount d source s = (Inr (drawn, g1), mark_spent C now drawn s)"
    and b1: "spend_all C (mark_spent C now drawn s) drawn (b, g1) = Inr (b1, g2)"
    and dr: "drawn \<noteq> []" "set drawn \<subseteq> set (ready_notes C s (dn_base_denom d) source)"
    and t: "unat (sum_list (map note_amount drawn)) = total_of drawn" "unat amount \<le> total_of drawn"
    and e1: "extends C (cs_nct s) b b1 (map (\<lambda>n. (True, nt_value n)) drawn) (map (note_nullifier C s) drawn) []"
    and fr1: "fresh s0 b1 (mark_spent C now drawn s)" and ok1: "wallet_ok C (mark_spent C now drawn s)"
    and net1: "\<forall>i. net i (map (\<lambda>n. (True, nt_value n)) drawn) = (if i = dn_id d then int (total_of drawn) else 0)"
    by (rule spend_funds [OF laws ok d fr pos enough bound])
  let ?s = "mark_spent C now drawn s"
  note mv = moved_mark_spent [of s C now drawn]
  have last: "last drawn \<in> set (ready_notes C s (dn_base_denom d) source)" using dr by auto
  then have known: "note_known C ?s (last drawn)"
    unfolding moved_note [OF mv] by (intro known_notes(1) [OF ok]) (auto simp: ready_notes_def)
  then have cached: "bt_get (cs_asset_cache ?s) (dn_id d) \<noteq> None"
    using ready_note_asset [OF ok d last] by (simp add: note_known_def note_denom_def)
  obtain i a where a: "change_address C (cs_wallet ?s) (last drawn) = Inr a" "payable C a"
    "u64_of_diversifier_index (index_for_diversifier C (ivk_dk (wallet_ivk (cs_wallet ?s))) (ad_d a)) = Inr i"
    "unat i < length (wl_address_labels (cs_wallet ?s))"
    by (rule change_address_ok [OF laws ok1 known])
  let ?change = "sum_list (map note_amount drawn) - amount"
  have change: "unat ?change = total_of drawn - unat amount" using t by (simp add: unat_minus_exact)
  have pay: "pay_denom C now source (d, amount) (b, g) s = (if 0 < ?change
      then change_output C now a \<lparr>val_amount = ?change, val_asset_id = dn_id d\<rparr> (b1, g2) ?s else (Inr (b1, g2), ?s))"
    using False dr(1) by (simp add: pay_denom_def n b1 a(1))
  obtain b2 g3 s' ts vs where p: "pay_denom C now source (d, amount) (b, g) s = (Inr (b2, g3), s')"
    and e2: "extends C (cs_nct s) b1 b2 ts [] vs" and net2: "\<forall>i. net i ts = - (if i = dn_id d then int (unat ?change) else 0)"
    and mv2: "moved ?s s'" and ok2: "wallet_ok C s'" and fr2: "fresh s0 b2 s'" and rs: "ready_notes C s' = ready_notes C ?s"
    unfolding pay moved_fields(1) [OF mv, symmetric] by (rule give_change [OF laws ok1 a(2) fr1 a(3,4) cached])
  show thesis
    by (rule that [OF p extends_trans [OF e1 e2] _ moved_trans [OF mv mv2] ok2 fr2])
       (use net1 net2 change t(2) rs ready_notes_other [OF ok dr(2)] in auto)
qed

section \<open>Paying all denominations\<close>

definition owed :: "asset_id \<Rightarrow> denom_map \<Rightarrow> nat" where
  "owed i m = (\<Sum>(d, a) \<leftarrow> m. if dn_id d = i then unat a else 0)"

lemma owed_simps [simp]:
  "owed i [] = 0" "owed i ((d, a) # m) = (if dn_id d = i then unat a else 0) + owed i m"
  by (simp_all add: owed_def)

lemma owed_mset: "mset m = mset m' \<Longrightarrow> owed i m = owed i m'"
  unfolding owed_def by (simp flip: sum_mset_sum_list)

definition fundable :: "crypto \<Rightarrow> client_state \<Rightarrow> u64 option \<Rightarrow> denom \<times> u64 \<Rightarrow> bool" where
  "fundable C s source = (\<lambda>(d, a). denom_ok C d \<and> unat a \<le> funds C s d source \<and> funds C s d source < 2 ^ 64)"

abbreviation bases :: "denom_map \<Rightarrow> string list" where
  "bases m \<equiv> map (\<lambda>p. dn_base_denom (fst p)) m"

lemma pay_all_ok:
  assumes laws: "crypto_laws C" and ok: "wallet_ok C s" and fr: "fresh s0 b s"
    and dist: "distinct (bases m)" and enough: "\<forall>p \<in> set m. fundable C s source p"
  shows "\<exists>b' g' s' ts nfs vs. foldS (pay_denom C now source) m (b, g) s = (Inr (b', g'), s')
    \<and> extends C (cs_nct s) b b' ts nfs vs \<and> (\<forall>i. net i ts = int (owed i m)) \<and> moved s s' \<and> wallet_ok C s' \<and> fresh s0 b' s'"
  using ok fr dist enough
proof (induction m arbitrary: b g s)
  case Nil
  then show ?case using extends_refl moved_refl
    by (intro exI [of _ b] exI [of _ g] exI [of _ s] exI [of _ "[]"]) simp
next
  case (Cons p m)
  obtain d a where p: "p = (d, a)" by force
  have f: "denom_ok C d" "unat a \<le> funds C s d source" "funds C s d source < 2 ^ 64"
    using Cons.prems(4) by (simp_all add: p fundable_def)
  obtain b1 g1 s1 ts1 nfs1 vs1 where p1: "pay_denom C now source (d, a) (b, g) s = (Inr (b1, g1), s1)"
    and e1: "extends C (cs_nct s) b b1 ts1 nfs1 vs1" and n1: "\<forall>i. net i ts1 = (if i = dn_id d then int (unat a) else 0)"
    and mv: "moved s s1" and ok1: "wallet_ok C s1" and fr1: "fresh s0 b1 s1"
    and other: "\<forall>b' src. b' \<noteq> dn_base_denom d \<longrightarrow> ready_notes C s1 b' src = ready_notes C s b' src"
    by (rule pay_denom_ok [OF laws Cons.prems(1) f(1) Cons.prems(2) f(2,3)])
  have m: "distinct (bases m)" using Cons.prems(3) by (simp add: p)
  have fm: "\<forall>p \<in> set m. fundable C s1 source p"
  proof
    fix q assume q: "q \<in> set m"
    then have "dn_base_denom (fst q) \<noteq> dn_base_denom d" using Cons.prems(3) by (simp add: p case_prod_beta) (metis image_eqI)
    then show "fundable C s1 source q" using Cons.prems(4) q other by (simp add: fundable_def case_prod_beta)
  qed
  from Cons.IH [OF ok1 fr1 m fm, of g1]
  obtain b2 g2 s2 ts2 nfs2 vs2 where "foldS (pay_denom C now source) m (b1, g1) s1 = (Inr (b2, g2), s2)"
    and e2: "extends C (cs_nct s1) b1 b2 ts2 nfs2 vs2" and "\<forall>i. net i ts2 = int (owed i m)" and "moved s1 s2"
    and "wallet_ok C s2" "fresh s0 b2 s2"
    by (elim exE conjE)
  moreover have "extends C (cs_nct s) b b2 (ts1 @ ts2) (nfs1 @ nfs2) (vs1 @ vs2)"
    using extends_trans [OF e1] e2 by (simp add: moved_fields [OF mv])
  ultimately show ?case
    using p1 n1 moved_trans [OF mv]
    by (intro exI [of _ b2] exI [of _ g2] exI [of _ s2] exI [of _ "ts1 @ ts2"] exI [of _ "nfs1 @ nfs2"] exI [of _ "vs1 @ vs2"])
       (simp add: p)
qed

section \<open>The parts of a payment\<close>

lemma send_outputs_ok:
  assumes laws: "crypto_laws C" and a: "payable C dest" and memo: "case tx_memo of None \<Rightarrow> True | Some x \<Rightarrow> length x \<le> 512"
  shows "\<exists>b' g' ts. send_outputs C dest tx_memo s m (b, g) = Inr (b', g')
    \<and> extends C t b b' ts [] (map (\<lambda>(d, a). \<lparr>val_amount = a, val_asset_id = dn_id d\<rparr>) m)
    \<and> (\<forall>i. net i ts = - int (owed i m))"
proof (induction m arbitrary: b g)
  case Nil
  show ?case using extends_refl by (fastforce simp: send_outputs_def)
next
  case (Cons p m)
  obtain d amount where p: "p = (d, amount)" by force
  let ?v = "\<lparr>val_amount = amount, val_asset_id = dn_id d\<rparr>"
  obtain bytes where bytes: "(case tx_memo of Some input_memo \<Rightarrow> memo_of_string input_memo | None \<Rightarrow> Inr memo_default) = Inr bytes"
    "length bytes = 512"
  proof (cases tx_memo)
    case None
    then show thesis by (intro that [of memo_default]) (simp_all add: memo_default_def)
  next
    case (Some x)
    then show thesis using memo
      by (intro that [of "ascii x @ replicate (512 - length x) 0"]) (simp_all add: memo_of_string_def ascii_def)
  qed
  obtain n b1 g1 where o: "add_output_producing_note C g dest ?v bytes (wallet_ovk (cs_wallet s)) b = Inr (n, b1, g1)"
    and e1: "extends C t b b1 [(False, ?v)] [] [?v]"
    by (rule extends_output [OF laws a bytes(2)])
  obtain b2 g2 ts where r: "send_outputs C dest tx_memo s m (b1, g1) = Inr (b2, g2)"
    and e2: "extends C t b1 b2 ts [] (map (\<lambda>(d, a). \<lparr>val_amount = a, val_asset_id = dn_id d\<rparr>) m)"
    and "\<forall>i. net i ts = - int (owed i m)"
    using Cons.IH by blast
  then show ?case
    using extends_trans [OF e1 e2] o bytes(1)
    by (intro exI [of _ b2] exI [of _ g2] exI [of _ "(False, ?v) # ts"])
       (auto simp: p send_outputs_def add_output_def)
qed

lemma new_builder_ok:
  assumes "client_chain_id s = Some cid"
  obtains b where "new_builder C fee s = Inr b" and "built C (cs_nct s) b" and "bd_chain_id b = Some cid"
    and "bd_fee b = Some fee" and "bd_delegations b = []" "bd_undelegations b = []" "bd_validator_definitions b = []"
    and "builder_nullifiers b = []" "bd_outputs b = []"
    and "\<forall>i. net i (builder_terms C b) = - (if i = staking_token_asset_id C then int (unat fee) else 0)"
proof -
  let ?b0 = "build_with_root C (nct_root C (cs_nct s))"
  have "built C (cs_nct s) (set_chain_id cid (set_fee C fee ?b0))"
    by (intro b_chain_id b_fee b_new) (simp add: build_with_root_def)
  then show thesis
    using assms
    by (intro that [of "set_chain_id cid (set_fee C fee ?b0)"])
       (auto simp: new_builder_def set_chain_id_def set_fee_def Let_def build_with_root_def builder_terms_def)
qed

section \<open>The values to be spent\<close>

lemma hm_update_keys:
  "set (map fst (hm_update d f m)) \<subseteq> insert d (set (map fst m))"
  "set (bases (hm_update d f m)) = insert (dn_base_denom d) (set (bases m))"
  "distinct (bases m) \<Longrightarrow> distinct (bases (hm_update d f m))"
proof -
  show k: "set (bases (hm_update d f m)) = insert (dn_base_denom d) (set (bases m))" for m
  proof (induction m)
    case (Cons p m)
    then show ?case by (cases p) (simp split: if_splits, blast)
  qed simp
  show "set (map fst (hm_update d f m)) \<subseteq> insert d (set (map fst m))"
  proof (induction m)
    case (Cons p m)
    then show ?case by (cases p) (simp split: if_splits, blast)
  qed simp
  show "distinct (bases m) \<Longrightarrow> distinct (bases (hm_update d f m))"
  proof (induction m)
    case (Cons p m)
    then show ?case using k [of m] by (cases p) (auto simp del: set_map)
  qed simp
qed

lemma hm_update_new: "dn_base_denom d \<notin> set (bases m) \<Longrightarrow> hm_update d f m = m @ [(d, f 0)]"
  by (induction m) (auto simp: case_prod_beta)

lemma hm_update_owed:
  assumes "distinct (bases m)"
    and "\<forall>p \<in> set m. dn_base_denom (fst p) = dn_base_denom d \<longrightarrow> dn_id (fst p) = dn_id d \<and> unat (snd p) + unat fee < 2 ^ 64"
  shows "owed i (hm_update d (\<lambda>v. v + fee) m) = owed i m + (if dn_id d = i then unat fee else 0)"
  using assms
proof (induction m)
  case (Cons p m)
  obtain d' v where p: "p = (d', v)" by force
  show ?case
  proof (cases "dn_base_denom d' = dn_base_denom d")
    case True
    then have "dn_id d' = dn_id d" "unat (v + fee) = unat v + unat fee" using Cons.prems(2) by (simp_all add: p unat_plus_exact)
    with True show ?thesis by (simp add: p)
  next
    case False
    then show ?thesis using Cons by (simp add: p)
  qed
qed simp

lemma owed_entry:
  "distinct (map (\<lambda>p. dn_id (fst p)) m) \<Longrightarrow> (d, a) \<in> set m \<Longrightarrow> owed (dn_id d) m = unat a"
proof (induction m)
  case (Cons p m)
  have "owed i m = 0" if "i \<notin> set (map (\<lambda>p. dn_id (fst p)) m)" for i
    using that by (induction m) auto
  then have "owed (dn_id (fst p)) m = 0" using Cons.prems(1) by simp
  moreover have "dn_id d \<noteq> dn_id (fst p)" if "(d, a) \<in> set m" using Cons.prems(1) that by (force simp: image_iff)
  ultimately show ?case using Cons by (cases p) auto
qed simp

text \<open>What a payment of these values takes from the wallet.\<close>

definition need :: "crypto \<Rightarrow> typed_value list \<Rightarrow> u64 \<Rightarrow> asset_id \<Rightarrow> nat" where
  "need C vals fee i = (\<Sum>v \<leftarrow> vals. if val_asset_id v = i then unat (val_amount v) else 0)
     + (if staking_token_asset_id C = i then unat fee else 0)"

definition affords :: "crypto \<Rightarrow> client_state \<Rightarrow> typed_value list \<Rightarrow> u64 \<Rightarrow> u64 option \<Rightarrow> bool" where
  "affords C s vals fee source \<longleftrightarrow>
     (\<forall>v \<in> set vals. bt_get (cs_asset_cache s) (val_asset_id v) \<noteq> None) \<and> distinct (map val_asset_id vals)
     \<and> (case bt_get (cs_asset_cache s) (staking_token_asset_id C) of Some d \<Rightarrow> dn_base_denom d = ''upenumbra'' | None \<Rightarrow> False)
     \<and> (\<forall>i d. bt_get (cs_asset_cache s) i = Some d \<longrightarrow> need C vals fee i \<le> funds C s d source \<and> funds C s d source < 2 ^ 64)"

text \<open>The denomination is the one that the wallet knows for the asset.\<close>

definition cached :: "client_state \<Rightarrow> denom \<Rightarrow> bool" where
  "cached s d \<longleftrightarrow> (\<exists>d'. bt_get (cs_asset_cache s) (dn_id d) = Some d' \<and> dn_base_denom d' = dn_base_denom d)"

lemma cached_denom_ok: "wallet_ok C s \<Longrightarrow> cached s d \<Longrightarrow> denom_ok C d"
  unfolding wallet_ok_def cached_def denom_ok_def by metis

lemma cached_ids_distinct:
  assumes "distinct (bases m)" and "\<forall>p \<in> set m. cached s (fst p)"
  shows "distinct (map (\<lambda>p. dn_id (fst p)) m)"
  using assms
proof (induction m)
  case (Cons p m)
  have "dn_id (fst q) \<noteq> dn_id (fst p)" if "q \<in> set m" for q
  proof
    assume "dn_id (fst q) = dn_id (fst p)"
    then have "dn_base_denom (fst q) = dn_base_denom (fst p)" using Cons.prems(2) that by (auto simp: cached_def)
    then show False using Cons.prems(1) that by (simp add: image_iff) metis
  qed
  then have "dn_id (fst p) \<notin> (\<lambda>p. dn_id (fst p)) ` set m" by force
  with Cons show ?case by simp
qed simp

lemma output_values_ok:
  assumes ok: "wallet_ok C s" and "\<forall>v \<in> set vals. bt_get (cs_asset_cache s) (val_asset_id v) \<noteq> None" and "distinct (map val_asset_id vals)"
  obtains m where "output_values s vals = Inr m" and "distinct (bases m)" and "\<forall>p \<in> set m. cached s (fst p)"
    and "map (\<lambda>(d, a). \<lparr>val_amount = a, val_asset_id = dn_id d\<rparr>) m = vals"
proof -
  let ?d = "\<lambda>v. the (bt_get (cs_asset_cache s) (val_asset_id v))" and ?P = "\<lambda>v. bt_get (cs_asset_cache s) (val_asset_id v) \<noteq> None"
  have id: "dn_id (?d v) = val_asset_id v" "dn_id (?d v) = denom_id C (dn_base_denom (?d v))" if "?P v" for v
    using ok that by (auto simp: wallet_ok_def)
  have all: "foldR (\<lambda>v m. bindR (ok_or (Err ''unknown denomination for asset id'') (bt_get (cs_asset_cache s) (val_asset_id v))) (\<lambda>d.
       Inr (hm_update d (\<lambda>_. val_amount v) m))) vs (map (\<lambda>v. (?d v, val_amount v)) us)
      = Inr (map (\<lambda>v. (?d v, val_amount v)) (us @ vs))"
    if "\<forall>v \<in> set (us @ vs). ?P v" "distinct (map (\<lambda>v. dn_base_denom (?d v)) (us @ vs))" for us vs
    using that
  proof (induction vs arbitrary: us)
    case (Cons v vs)
    have "hm_update (?d v) (\<lambda>_. val_amount v) (map (\<lambda>v. (?d v, val_amount v)) us) = map (\<lambda>v. (?d v, val_amount v)) (us @ [v])"
      using Cons.prems(2) by (subst hm_update_new) auto
    with Cons.IH [of "us @ [v]"] Cons.prems show ?case by (auto simp: ok_or_def)
  qed simp
  have dist: "distinct (map (\<lambda>v. dn_base_denom (?d v)) vals)"
  proof -
    have "val_asset_id v = denom_id C (dn_base_denom (?d v))" if "v \<in> set vals" for v using assms(2) id that by metis
    then have "map val_asset_id vals = map (denom_id C) (map (\<lambda>v. dn_base_denom (?d v)) vals)" by simp
    then show ?thesis using assms(3) by (metis distinct_map)
  qed
  have "output_values s vals = Inr (map (\<lambda>v. (?d v, val_amount v)) vals)"
    using all [of "[]" vals] assms(2) dist by (simp add: output_values_def)
  moreover have "cached s (?d v)" if "v \<in> set vals" for v
    using assms(2) that id(1) [of v] by (auto simp: cached_def)
  moreover have "map (\<lambda>v. \<lparr>val_amount = val_amount v, val_asset_id = dn_id (?d v)\<rparr>) vals = vals"
  proof (rule map_idI)
    fix v assume "v \<in> set vals"
    then have "dn_id (?d v) = val_asset_id v" using assms(2) id(1) by blast
    then show "\<lparr>val_amount = val_amount v, val_asset_id = dn_id (?d v)\<rparr> = v" by simp
  qed
  ultimately show thesis using dist by (intro that) (auto simp: comp_def)
qed

lemma staking_token_denom_ok:
  obtains d where "staking_token_denom C = Inr d" and "dn_base_denom d = ''upenumbra''" and "dn_id d = staking_token_asset_id C"
  by (rule that [of "\<lparr>dn_id = denom_id C ''upenumbra'', dn_base_denom = ''upenumbra'',
        dn_units = [\<lparr>ud_exponent = 6, ud_denom = ''penumbra''\<rparr>, \<lparr>ud_exponent = 3, ud_denom = ''mpenumbra''\<rparr>,
          \<lparr>ud_exponent = 0, ud_denom = ''upenumbra''\<rparr>]\<rparr>"])
     (simp_all add: staking_token_denom_def parse_denom_spec staking_token_asset_id_def)

lemma owed_values:
  "map (\<lambda>(d, a). \<lparr>val_amount = a, val_asset_id = dn_id d\<rparr>) m = vals \<Longrightarrow>
     owed i m = (\<Sum>v \<leftarrow> vals. if val_asset_id v = i then unat (val_amount v) else 0)"
  by (induction m arbitrary: vals) auto

text \<open>The entries of a map that owes what is needed are fundable.\<close>

lemma fundable_entries:
  assumes ok: "wallet_ok C s" and aff: "affords C s vals fee source" and d: "distinct (bases m)" and c: "\<forall>p \<in> set m. cached s (fst p)"
    and o: "\<forall>i. owed i m \<le> need C vals fee i"
  shows "\<forall>p \<in> set m. fundable C s source p"
proof
  fix p assume p: "p \<in> set m"
  obtain d a where da: "p = (d, a)" by force
  from c p obtain d' where d': "bt_get (cs_asset_cache s) (dn_id d) = Some d'" "dn_base_denom d' = dn_base_denom d"
    by (auto simp: cached_def da)
  then have "need C vals fee (dn_id d) \<le> funds C s d source" "funds C s d source < 2 ^ 64"
    using aff unfolding affords_def by metis+
  moreover have "owed (dn_id d) m = unat a" by (rule owed_entry [OF cached_ids_distinct [OF d c]]) (use p da in simp)
  moreover have "denom_ok C d" using cached_denom_ok [OF ok] c p da by fastforce
  moreover have "owed (dn_id d) m \<le> need C vals fee (dn_id d)" using o by blast
  ultimately show "fundable C s source p" by (simp add: fundable_def da)
qed

lemma value_to_spend_ok:
  assumes ok: "wallet_ok C s" and aff: "affords C s vals fee source" and d: "distinct (bases m)" and c: "\<forall>p \<in> set m. cached s (fst p)"
    and m: "map (\<lambda>(d, a). \<lparr>val_amount = a, val_asset_id = dn_id d\<rparr>) m = vals"
  obtains m' where "with_fee C fee m = Inr m'" and "distinct (bases m')" and "\<forall>p \<in> set m'. fundable C s source p"
    and "\<forall>i. owed i m' = owed i m + (if staking_token_asset_id C = i then unat fee else 0)"
proof (cases "0 < fee")
  case False
  then have "fee = 0" by (simp add: word_gt_0)
  moreover have "\<forall>p \<in> set m. fundable C s source p"
    by (rule fundable_entries [OF ok aff d c]) (simp add: need_def owed_values [OF m])
  ultimately show thesis using d by (intro that [of m]) (simp_all add: with_fee_def)
next
  case True
  obtain ds where ds: "staking_token_denom C = Inr ds" "dn_base_denom ds = ''upenumbra''" "dn_id ds = staking_token_asset_id C"
    by (rule staking_token_denom_ok)
  have cs: "cached s ds" using aff by (auto simp: affords_def cached_def ds split: option.splits)
  have "dn_id (fst p) = dn_id ds \<and> unat (snd p) + unat fee < 2 ^ 64"
    if p: "p \<in> set m" and b: "dn_base_denom (fst p) = dn_base_denom ds" for p
  proof -
    have id: "dn_id (fst p) = dn_id ds"
      using cached_denom_ok [OF ok] c p cs b unfolding denom_ok_def by metis
    have "owed (dn_id (fst p)) m = unat (snd p)" by (rule owed_entry [OF cached_ids_distinct [OF d c]]) (use p in simp)
    then have "need C vals fee (dn_id ds) = unat (snd p) + unat fee" by (simp add: need_def owed_values [OF m] id ds(3))
    moreover have "need C vals fee (dn_id ds) < 2 ^ 64" using aff cs unfolding affords_def cached_def by (meson le_less_trans)
    ultimately show ?thesis using id by simp
  qed
  then have o: "owed i (hm_update ds (\<lambda>v. v + fee) m) = owed i m + (if dn_id ds = i then unat fee else 0)" for i
    by (intro hm_update_owed [OF d]) blast
  have d': "distinct (bases (hm_update ds (\<lambda>v. v + fee) m))" by (rule hm_update_keys(3) [OF d])
  have "\<forall>p \<in> set (hm_update ds (\<lambda>v. v + fee) m). fundable C s source p"
    by (rule fundable_entries [OF ok aff d'])
       (use hm_update_keys(1) [of ds "\<lambda>v. v + fee" m] c cs in force, simp add: o need_def owed_values [OF m] ds(3))
  moreover have "with_fee C fee m = Inr (hm_update ds (\<lambda>v. v + fee) m)" using True by (simp add: with_fee_def ds(1))
  ultimately show thesis using o d' that unfolding ds(3) by blast
qed

section \<open>Transactions\<close>

text \<open>
  The transaction passes the pool's stateless check, for this chain, with this fee and the wallet's
  root as its anchor; the notes it spends were unspent and no longer are.
\<close>

definition accepted :: "ext \<Rightarrow> string \<Rightarrow> u64 \<Rightarrow> client_state \<Rightarrow> client_state \<Rightarrow> transaction \<Rightarrow> bool" where
  "accepted X cid fee s s' tx \<longleftrightarrow> pool_check_tx_stateless X tx = Inr ()
     \<and> tb_chain_id (tx_body tx) = cid \<and> tb_fee (tx_body tx) = fee
     \<and> tb_merkle_root (tx_body tx) = nct_root (x_crypto X) (cs_nct s)
     \<and> (\<exists>b. built (x_crypto X) (cs_nct s) b \<and> made_of (x_crypto X) b tx)
     \<and> (\<forall>x \<in> set (spent_nullifiers tx). \<exists>c. bt_get (cs_nullifier_map s) x = Some c
          \<and> bt_get (cs_unspent_set s) c \<noteq> None \<and> bt_get (cs_unspent_set s') c = None)"

lemma finalized_accepted:
  assumes laws: "crypto_laws (x_crypto X)" and b: "built (x_crypto X) (cs_nct s) b"
    and bal: "\<forall>i. net i (builder_terms (x_crypto X) b) = 0"
    and cid: "bd_chain_id b = Some cid" and fee: "bd_fee b = Some fee"
    and defs: "\<forall>vd \<in> set (bd_validator_definitions b). check_definition_signed X vd = Inr ()"
    and fr: "fresh s b s'" and mv: "moved s s'"
  obtains tx g' where "finalize_tx X (b, g) s' = (Inr (tx, g'), s')" and "accepted X cid fee s s' tx"
    and "Output ` set (bd_outputs b) \<union> Delegate ` set (bd_delegations b) \<union> Undelegate ` set (bd_undelegations b)
      \<union> ValidatorDefinition ` set (bd_validator_definitions b) \<subseteq> set (actions tx)"
    and "made_of (x_crypto X) b tx"
proof -
  have l: "group_ok (x_crypto X)" "nct_ok (x_crypto X)" "rand_ok (x_crypto X)" "embed_ok (x_crypto X)"
    "rdsa_ok (x_crypto X) (VALUE_BLINDING_GENERATOR (x_crypto X))"
    using laws by (simp_all add: crypto_laws_def)
  have dist: "distinct (builder_nullifiers b)" using fr by (simp add: fresh_def)
  show thesis
  proof (rule balanced_accepted [OF l b bal cid fee defs dist, of g])
    fix tx b' g'
    assume f: "builder_finalize X g b = Inr (tx, b', g')" and "pool_check_tx_stateless X tx = Inr ()"
      "tb_chain_id (tx_body tx) = cid" "tb_fee (tx_body tx) = fee" "tb_merkle_root (tx_body tx) = nct_root (x_crypto X) (cs_nct s)"
      and nf: "set (spent_nullifiers tx) = (\<lambda>(_, body). sb_nullifier body) ` set (bd_spends b)"
      and acts: "Output ` set (bd_outputs b) \<union> Delegate ` set (bd_delegations b) \<union> Undelegate ` set (bd_undelegations b)
        \<union> ValidatorDefinition ` set (bd_validator_definitions b) \<subseteq> set (actions tx)"
      and made: "made_of (x_crypto X) b tx"
    then have "accepted X cid fee s s' tx"
      using fr b by (auto simp: accepted_def fresh_def nf moved_fields [OF mv])
    with f acts made show thesis by (intro that) (simp_all add: finalize_tx_def)
  qed
qed

lemma fresh_new: "builder_nullifiers b = [] \<Longrightarrow> fresh s b s"
  by (simp add: fresh_def)

text \<open>The end of \<open>build_send\<close> and \<open>build_validator_definition\<close>: paying what the builder still owes.\<close>

lemma pay_and_finalize:
  assumes laws: "crypto_laws (x_crypto X)" and ok: "wallet_ok (x_crypto X) s" and fr: "fresh s b s"
    and b: "built (x_crypto X) (cs_nct s) b" "bd_chain_id b = Some cid" "bd_fee b = Some fee"
    and defs: "\<forall>vd \<in> set (bd_validator_definitions b). check_definition_signed X vd = Inr ()"
    and dist: "distinct (bases m)" and fd: "\<forall>p \<in> set m. fundable (x_crypto X) s source p"
    and bal: "\<forall>i. net i (builder_terms (x_crypto X) b) = - int (owed i m)" and perm: "mset m0 = mset m"
  obtains tx g' s' where "bindS (foldS (pay_denom (x_crypto X) now source) m0 (b, g) s) (finalize_tx X) = (Inr (tx, g'), s')"
    and "accepted X cid fee s s' tx" and "wallet_ok (x_crypto X) s'"
    and "ValidatorDefinition ` set (bd_validator_definitions b) \<subseteq> set (actions tx)"
    and "\<forall>a \<in> set (actions tx). (\<exists>out. a = Output out) \<or> (\<exists>sp. a = Spend sp) \<or> a \<in> Delegate ` set (bd_delegations b)
      \<union> Undelegate ` set (bd_undelegations b) \<union> ValidatorDefinition ` set (bd_validator_definitions b)"
    and "\<forall>o1 \<in> set (bd_outputs b). \<exists>out. Output out \<in> set (actions tx) \<and> opf_value (out_proof out) = opf_value (out_proof o1)"
proof -
  let ?C = "x_crypto X"
  have dist': "distinct (bases m0)" using dist perm by (metis mset_eq_imp_distinct_iff mset_map)
  have fd': "\<forall>p \<in> set m0. fundable ?C s source p" using fd mset_eq_setD [OF perm] by simp
  obtain b2 g2 s' ts nfs vs where p: "foldS (pay_denom ?C now source) m0 (b, g) s = (Inr (b2, g2), s')"
    and e: "extends ?C (cs_nct s) b b2 ts nfs vs" and net2: "\<forall>i. net i ts = int (owed i m0)"
    and mv: "moved s s'" and ok': "wallet_ok ?C s'" and fr': "fresh s b2 s'"
    using pay_all_ok [OF laws ok fr dist' fd', of now g] by (elim exE conjE)
  have nets: "\<forall>i. net i (builder_terms ?C b2) = 0" using e bal net2 owed_mset [OF perm] by (simp add: extends_def)
  have f: "built ?C (cs_nct s) b2" "bd_chain_id b2 = Some cid" "bd_fee b2 = Some fee"
    "\<forall>vd \<in> set (bd_validator_definitions b2). check_definition_signed X vd = Inr ()"
    and out: "map (opf_value \<circ> out_proof) (bd_outputs b2) = map (opf_value \<circ> out_proof) (bd_outputs b) @ vs"
    and vd: "bd_validator_definitions b2 = bd_validator_definitions b" "bd_delegations b2 = bd_delegations b"
      "bd_undelegations b2 = bd_undelegations b"
    using e b defs by (simp_all add: extends_def)
  obtain tx g' where tx: "finalize_tx X (b2, g2) s' = (Inr (tx, g'), s')" "accepted X cid fee s s' tx"
    and acts: "Output ` set (bd_outputs b2) \<union> Delegate ` set (bd_delegations b2) \<union> Undelegate ` set (bd_undelegations b2)
      \<union> ValidatorDefinition ` set (bd_validator_definitions b2) \<subseteq> set (actions tx)"
    and made: "made_of ?C b2 tx"
    by (rule finalized_accepted [OF laws f(1) nets f(2,3,4) fr' mv])
  have "(opf_value \<circ> out_proof) ` set (bd_outputs b) \<subseteq> (opf_value \<circ> out_proof) ` set (bd_outputs b2)"
    using arg_cong [OF out, of set] by auto
  with acts have "\<forall>o1 \<in> set (bd_outputs b). \<exists>out. Output out \<in> set (actions tx) \<and> opf_value (out_proof out) = opf_value (out_proof o1)"
    by (auto simp: subset_iff image_iff) metis
  moreover have "\<forall>a \<in> set (actions tx). (\<exists>out. a = Output out) \<or> (\<exists>sp. a = Spend sp) \<or> a \<in> Delegate ` set (bd_delegations b)
      \<union> Undelegate ` set (bd_undelegations b) \<union> ValidatorDefinition ` set (bd_validator_definitions b)"
    using made unfolding made_of_def vd by fast
  ultimately show thesis using tx acts ok' p vd by (intro that) auto
qed

text \<open>
  A wallet that affords a payment makes it.  If the confirmed notes cover every value to be sent and
  the fee, \<open>build_send\<close> returns a transaction, whatever the order of the hash map and the shuffling: the
  shielded pool's stateless check accepts it, it carries an output for each value, and the notes it
  spends are no longer among the wallet's unspent notes.  The wallet's invariant holds afterwards.
\<close>

lemma build_send_accepted:
  assumes laws: "crypto_laws (x_crypto X)" and ok: "wallet_ok (x_crypto X) s" and cid: "client_chain_id s = Some cid"
    and aff: "affords (x_crypto X) s vals fee source" and a: "payable (x_crypto X) dest"
    and memo: "case tx_memo of None \<Rightarrow> True | Some x \<Rightarrow> length x \<le> 512" and perm: "\<forall>m. mset (hash_iter m) = mset m"
  shows "\<exists>tx g' s'. build_send X hash_iter now g vals fee dest source tx_memo s = (Inr (tx, g'), s')
    \<and> accepted X cid fee s s' tx \<and> wallet_ok (x_crypto X) s'
    \<and> (\<forall>v \<in> set vals. \<exists>out. Output out \<in> set (actions tx) \<and> opf_value (out_proof out) = v)
    \<and> (\<forall>a \<in> set (actions tx). (\<exists>out. a = Output out) \<or> (\<exists>sp. a = Spend sp))"
proof -
  let ?C = "x_crypto X"
  obtain b where b: "new_builder ?C fee s = Inr b" "built ?C (cs_nct s) b" "bd_chain_id b = Some cid" "bd_fee b = Some fee"
    "bd_delegations b = []" "bd_undelegations b = []" "bd_validator_definitions b = []"
    and n0: "builder_nullifiers b = []" "bd_outputs b = []"
    and net0: "\<forall>i. net i (builder_terms ?C b) = - (if i = staking_token_asset_id ?C then int (unat fee) else 0)"
    by (rule new_builder_ok [OF cid])
  have v: "\<forall>v \<in> set vals. bt_get (cs_asset_cache s) (val_asset_id v) \<noteq> None" "distinct (map val_asset_id vals)"
    using aff by (simp_all add: affords_def)
  obtain m where m: "output_values s vals = Inr m" "distinct (bases m)" "\<forall>p \<in> set m. cached s (fst p)"
    "map (\<lambda>(d, a). \<lparr>val_amount = a, val_asset_id = dn_id d\<rparr>) m = vals"
    by (rule output_values_ok [OF ok v])
  obtain m' where m': "with_fee ?C fee m = Inr m'" "distinct (bases m')" "\<forall>p \<in> set m'. fundable ?C s source p"
    "\<forall>i. owed i m' = owed i m + (if staking_token_asset_id ?C = i then unat fee else 0)"
    by (rule value_to_spend_ok [OF ok aff m(2,3,4)])
  obtain b1 g1 ts1 where o: "send_outputs ?C dest tx_memo s (hash_iter m) (b, g) = Inr (b1, g1)"
    and e1: "extends ?C (cs_nct s) b b1 ts1 [] (map (\<lambda>(d, a). \<lparr>val_amount = a, val_asset_id = dn_id d\<rparr>) (hash_iter m))"
    and net1: "\<forall>i. net i ts1 = - int (owed i (hash_iter m))"
    using send_outputs_ok [OF laws a memo] by blast
  have "owed i (hash_iter m) = owed i m" for i using owed_mset perm by blast
  then have bal: "\<forall>i. net i (builder_terms ?C b1) = - int (owed i m')" using e1 net0 net1 m'(4) by (auto simp: extends_def)
  have f: "built ?C (cs_nct s) b1" "bd_chain_id b1 = Some cid" "bd_fee b1 = Some fee" "\<forall>vd \<in> set (bd_validator_definitions b1). check_definition_signed X vd = Inr ()"
    and none: "bd_delegations b1 = []" "bd_undelegations b1 = []" "bd_validator_definitions b1 = []"
    and out: "map (opf_value \<circ> out_proof) (bd_outputs b1) = map (\<lambda>(d, a). \<lparr>val_amount = a, val_asset_id = dn_id d\<rparr>) (hash_iter m)"
    using e1 b n0 by (simp_all add: extends_def)
  obtain tx g' s' where tx: "bindS (foldS (pay_denom ?C now source) (hash_iter m') (b1, g1) s) (finalize_tx X) = (Inr (tx, g'), s')"
    "accepted X cid fee s s' tx" "wallet_ok ?C s'"
    and kinds: "\<forall>a \<in> set (actions tx). (\<exists>out. a = Output out) \<or> (\<exists>sp. a = Spend sp) \<or> a \<in> Delegate ` set (bd_delegations b1)
      \<union> Undelegate ` set (bd_undelegations b1) \<union> ValidatorDefinition ` set (bd_validator_definitions b1)"
    and outs: "\<forall>o1 \<in> set (bd_outputs b1). \<exists>out. Output out \<in> set (actions tx) \<and> opf_value (out_proof out) = opf_value (out_proof o1)"
    by (rule pay_and_finalize [OF laws ok fresh_extends [OF fresh_new [OF n0(1)] e1] f m'(2,3) bal spec [OF perm, of m']])
  have "set vals = (opf_value \<circ> out_proof) ` set (bd_outputs b1)"
    using arg_cong [OF out, of set] mset_eq_setD [OF spec [OF perm, of m]] arg_cong [OF m(4), of set] by simp
  with outs have "\<forall>v \<in> set vals. \<exists>out. Output out \<in> set (actions tx) \<and> opf_value (out_proof out) = v" by auto
  moreover have "\<forall>a \<in> set (actions tx). (\<exists>out. a = Output out) \<or> (\<exists>sp. a = Spend sp)" using kinds none by simp
  moreover have "build_send X hash_iter now g vals fee dest source tx_memo s = (Inr (tx, g'), s')"
    using tx(1) by (simp add: build_send_def b(1) m(1) o m'(1))
  ultimately show ?thesis using tx(2,3) by (intro exI conjI)
qed

end
