(* ===== verification/Wallet_Sync.thy ===== *)
theory Wallet_Sync
  imports Wallet_Sound
begin

text \<open>
  The wallet follows the node.  A wallet is in step with the shielded pool (\<open>synced\<close>) when its tree has
  the pool's commitments and it has seen the nullifiers of its notes that the pool has.  Scanning the
  compact block that the node stores for a block keeps it in step, and what a wallet in step
  builds passes the stateful checks of the node too.
\<close>

section \<open>The tree\<close>

definition appends :: "nct \<Rightarrow> note_commitment list" where
  "appends = List.map_filter (\<lambda>e. case e of NctAppend c \<Rightarrow> Some c | _ \<Rightarrow> None)"

lemma appends_simps [simp]:
  "appends [] = []" "appends (NctAppend c # t) = c # appends t" "appends (NctWitness # t) = appends t"
  "appends (NctRemoveWitness c # t) = appends t" "appends (t @ u) = appends t @ appends u"
  by (simp_all add: appends_def map_filter_def)

lemma set_appends: "c \<in> set (appends t) \<longleftrightarrow> NctAppend c \<in> set t"
  by (induction t) (auto simp: appends_def split: nct_op.splits)

text \<open>
  What \<open>BridgeTree\<close> promises: witnesses do not change the root; a leaf that is appended and witnessed has a
  path, as long as the tree is not full; it keeps its position until the witness is removed; only leaves
  of the tree have paths.
\<close>

definition nct_sync_ok :: "crypto \<Rightarrow> bool" where
  "nct_sync_ok C \<longleftrightarrow>
     (\<forall>t. nct_root C t = nct_root C (map NctAppend (appends t)))
     \<and> (\<forall>t c. length (appends t) < 2 ^ MERKLE_DEPTH \<longrightarrow> nct_auth_path C (t @ [NctAppend c, NctWitness]) c \<noteq> None)
     \<and> (\<forall>t u c. nct_auth_path C t c \<noteq> None \<longrightarrow> NctAppend c \<notin> set u \<longrightarrow> NctRemoveWitness c \<notin> set u \<longrightarrow>
          map_option fst (nct_auth_path C (t @ u) c) = map_option fst (nct_auth_path C t c))
     \<and> (\<forall>t c. nct_auth_path C t c \<noteq> None \<longrightarrow> NctAppend c \<in> set t)"

section \<open>Scanning an output\<close>

definition try_decrypt :: "crypto \<Rightarrow> client_state \<Rightarrow> output_body \<Rightarrow> note_t result" where
  "try_decrypt C w body = note_decrypt C (ob_encrypted_note body) (wallet_ivk (cs_wallet w)) (ob_ephemeral_key body)"

definition new_nullifier :: "crypto \<Rightarrow> client_state \<Rightarrow> note_commitment \<Rightarrow> nullifier" where
  "new_nullifier C w c =
     (case nct_auth_path C (cs_nct w @ [NctAppend c, NctWitness]) c of
        Some (pos, _) \<Rightarrow> fvk_derive_nullifier C (wallet_fvk (cs_wallet w)) pos c
      | None \<Rightarrow> 0)"

text \<open>
  An output that the wallet can follow: its commitment is new, and if it decrypts, then to a note for
  one of the wallet's addresses that has this commitment and a nullifier that was not seen before.
\<close>

definition output_ok :: "crypto \<Rightarrow> (nullifier \<Rightarrow> bool) \<Rightarrow> output_body \<Rightarrow> client_state \<Rightarrow> bool" where
  "output_ok C spent body w \<longleftrightarrow>
     ob_note_commitment body \<notin> set (appends (cs_nct w))
     \<and> (case try_decrypt C w body of Inl _ \<Rightarrow> True
        | Inr n \<Rightarrow> note_commit C n = ob_note_commitment body \<and> note_known C w n
            \<and> spendable C (wl_spend_key (cs_wallet w)) n
            \<and> bt_get (cs_nullifier_map w) (new_nullifier C w (ob_note_commitment body)) = None
            \<and> \<not> spent (new_nullifier C w (ob_note_commitment body)))"

fun outputs_ok :: "crypto \<Rightarrow> (nullifier \<Rightarrow> bool) \<Rightarrow> output_body list \<Rightarrow> client_state \<Rightarrow> bool" where
  "outputs_ok C spent [] w \<longleftrightarrow> True"
| "outputs_ok C spent (body # bodies) w \<longleftrightarrow> output_ok C spent body w
     \<and> (case scan_output C body w of Inr w \<Rightarrow> outputs_ok C spent bodies w | Inl _ \<Rightarrow> True)"

lemma scan_output_cases:
  assumes nct: "nct_sync_ok C" and room: "length (appends (cs_nct w)) < 2 ^ MERKLE_DEPTH"
  obtains (foreign) e where "try_decrypt C w body = Inl e"
      and "scan_output C body w = Inr (w\<lparr>cs_nct := cs_nct w @ [NctAppend (ob_note_commitment body)]\<rparr>)"
    | (own) n where "try_decrypt C w body = Inr n"
      and "nct_auth_path C (cs_nct w @ [NctAppend (ob_note_commitment body), NctWitness]) (ob_note_commitment body) \<noteq> None"
      and "scan_output C body w = Inr (w\<lparr>cs_nct := cs_nct w @ [NctAppend (ob_note_commitment body), NctWitness],
        cs_nullifier_map := bt_insert (new_nullifier C w (ob_note_commitment body)) (ob_note_commitment body) (cs_nullifier_map w),
        cs_submitted_change_set := bt_remove (ob_note_commitment body) (cs_submitted_change_set w),
        cs_unspent_set := bt_insert (ob_note_commitment body) n (cs_unspent_set w)\<rparr>)"
proof (cases "try_decrypt C w body")
  case (Inl e)
  then show thesis using foreign by (simp add: scan_output_def try_decrypt_def)
next
  case (Inr n)
  have "nct_auth_path C (cs_nct w @ [NctAppend (ob_note_commitment body), NctWitness]) (ob_note_commitment body) \<noteq> None"
    using nct room unfolding nct_sync_ok_def by blast
  then obtain pos path where p: "nct_auth_path C (cs_nct w @ [NctAppend (ob_note_commitment body), NctWitness]) (ob_note_commitment body) = Some (pos, path)"
    by auto
  then show thesis using Inr by (intro own) (simp_all add: scan_output_def try_decrypt_def new_nullifier_def Let_def)
qed

lemma note_spendable_persists:
  assumes nct: "nct_sync_ok C" and sp: "note_spendable C w n" and w: "cs_wallet w' = cs_wallet w" "cs_nct w' = cs_nct w @ u"
    and u: "NctAppend (note_commit C n) \<notin> set u" "NctRemoveWitness (note_commit C n) \<notin> set u"
    and m: "bt_get (cs_nullifier_map w') (note_nullifier C w n) = bt_get (cs_nullifier_map w) (note_nullifier C w n)"
  shows "note_spendable C w' n"
proof -
  have "map_option fst (nct_auth_path C (cs_nct w') (note_commit C n)) = map_option fst (nct_auth_path C (cs_nct w) (note_commit C n))"
    using nct sp u unfolding nct_sync_ok_def note_spendable_def w by blast
  moreover from this have "note_nullifier C w' n = note_nullifier C w n"
    by (auto simp: note_nullifier_def w split: option.splits)
  ultimately show ?thesis using sp m by (auto simp: note_spendable_def w)
qed

section \<open>In step with the pool\<close>

definition follows :: "note_commitment list \<Rightarrow> (nullifier \<Rightarrow> bool) \<Rightarrow> client_state \<Rightarrow> bool" where
  "follows t spent w \<longleftrightarrow> appends (cs_nct w) = t
     \<and> (\<forall>nf c. bt_get (cs_nullifier_map w) nf = Some c \<longrightarrow> c \<in> set t \<and> (bt_get (cs_unspent_set w) c \<noteq> None \<longrightarrow> \<not> spent nf))"

definition synced :: "shielded_pool \<Rightarrow> client_state \<Rightarrow> bool" where
  "synced p w \<longleftrightarrow> follows (sp_nct p) (\<lambda>nf. j_spent_nullifiers (sp_jmt p) nf \<noteq> None) w"

text \<open>The invariant after a scan, from the notes that are left and the new one.\<close>

lemma wallet_ok_scanned:
  assumes ok: "wallet_ok C w" and w: "cs_wallet w' = cs_wallet w" "cs_asset_cache w' = cs_asset_cache w"
    and bt: "bt_ok (cs_unspent_set w')" "bt_ok (cs_submitted_spend_set w')" "bt_ok (cs_submitted_change_set w')"
    and un: "\<forall>e \<in> set (cs_unspent_set w'). note_commit C (snd e) = fst e \<and> note_known C w (snd e) \<and> note_spendable C w' (snd e)"
    and sub: "set (cs_submitted_spend_set w') \<subseteq> set (cs_submitted_spend_set w)"
      "set (cs_submitted_change_set w') \<subseteq> set (cs_submitted_change_set w)"
  shows "wallet_ok C w'"
proof -
  have k: "note_known C w' n = note_known C w n" for n by (simp add: note_known_def note_denom_def note_index_def w)
  have "\<forall>e \<in> set (cs_submitted_spend_set w') \<union> set (cs_submitted_change_set w'). note_known C w (snd (snd e))"
    using known_notes(2) [OF ok] sub by blast
  then have "\<forall>u \<in> set (all_unspent w'). note_known C w (unspent_note_ref u)"
    using un all_unspent_iff [of w' "note_known C w"] by blast
  then have "notes_ok C w'" using bt un by (simp add: notes_ok_def k case_prod_beta)
  then show ?thesis using ok un by (simp add: wallet_ok_def w)
qed

lemma unspent_entries:
  assumes "wallet_ok C w" and "e \<in> set (cs_unspent_set w)"
  shows "note_commit C (snd e) = fst e" "note_known C w (snd e)" "note_spendable C w (snd e)"
proof -
  have "\<forall>(c, n) \<in> set (cs_unspent_set w). note_commit C n = c" using assms(1) by (simp add: wallet_ok_def notes_ok_def)
  from bspec [OF this assms(2)] show "note_commit C (snd e) = fst e" by (simp add: case_prod_beta)
  show "note_known C w (snd e)" using known_notes(1) [OF assms(1)] assms(2) by simp
  show "note_spendable C w (snd e)" using assms by (simp add: wallet_ok_def)
qed

lemma wallet_ok_bt:
  assumes "wallet_ok C w"
  shows "bt_ok (cs_unspent_set w)" "bt_ok (cs_submitted_spend_set w)" "bt_ok (cs_submitted_change_set w)"
  using assms by (simp_all add: wallet_ok_def notes_ok_def)

lemma set_bt_remove: "set (bt_remove k m) \<subseteq> set m"
  by (auto simp: bt_remove_def)

lemma spendable_leaf:
  assumes "nct_sync_ok C" and "note_spendable C w n"
  shows "note_commit C n \<in> set (appends (cs_nct w))"
  using assms unfolding nct_sync_ok_def note_spendable_def set_appends by blast

lemma scan_output_step:
  assumes nct: "nct_sync_ok C" and ok: "wallet_ok C w" and fo: "follows t spent w"
    and room: "length t < 2 ^ MERKLE_DEPTH" and out: "output_ok C spent body w"
  obtains w' where "scan_output C body w = Inr w'" and "wallet_ok C w'" and "follows (t @ [ob_note_commitment body]) spent w'"
proof -
  let ?c = "ob_note_commitment body"
  have t: "appends (cs_nct w) = t" using fo by (simp add: follows_def)
  have c: "?c \<notin> set t" using out t by (simp add: output_ok_def)
  have old: "note_commit C n \<noteq> ?c" if "note_spendable C w n" for n using spendable_leaf [OF nct that] c t by auto
  have room': "length (appends (cs_nct w)) < 2 ^ MERKLE_DEPTH" using room t by simp
  note bt = wallet_ok_bt [OF ok]
  show thesis
  proof (rule scan_output_cases [OF nct room', of body])
    fix e
    assume s: "scan_output C body w = Inr (w\<lparr>cs_nct := cs_nct w @ [NctAppend ?c]\<rparr>)"
    let ?w = "w\<lparr>cs_nct := cs_nct w @ [NctAppend ?c]\<rparr>"
    have "note_spendable C ?w (snd e)" if "e \<in> set (cs_unspent_set w)" for e
      using old unspent_entries(3) [OF ok that] by (intro note_spendable_persists [OF nct unspent_entries(3) [OF ok that]]) auto
    then have "wallet_ok C ?w" by (intro wallet_ok_scanned [OF ok]) (use bt unspent_entries [OF ok] in auto)
    moreover have "follows (t @ [?c]) spent ?w" using fo by (auto simp: follows_def)
    ultimately show thesis by (rule that [OF s])
  next
    fix n
    let ?nf = "new_nullifier C w ?c"
    let ?w = "w\<lparr>cs_nct := cs_nct w @ [NctAppend ?c, NctWitness], cs_nullifier_map := bt_insert ?nf ?c (cs_nullifier_map w),
      cs_submitted_change_set := bt_remove ?c (cs_submitted_change_set w), cs_unspent_set := bt_insert ?c n (cs_unspent_set w)\<rparr>"
    assume d: "try_decrypt C w body = Inr n" and p: "nct_auth_path C (cs_nct w @ [NctAppend ?c, NctWitness]) ?c \<noteq> None"
      and s: "scan_output C body w = Inr ?w"
    have n: "note_commit C n = ?c" "note_known C w n" "spendable C (wl_spend_key (cs_wallet w)) n"
      "bt_get (cs_nullifier_map w) ?nf = None" "\<not> spent ?nf"
      using out by (simp_all add: output_ok_def d)
    have new: "note_spendable C ?w n" using n(1,3) p by (auto simp: note_spendable_def note_nullifier_def new_nullifier_def)
    have "note_spendable C ?w (snd e)" if "e \<in> set (cs_unspent_set w)" for e
    proof (rule note_spendable_persists [OF nct unspent_entries(3) [OF ok that]])
      have "note_nullifier C w (snd e) \<noteq> ?nf" using unspent_entries(3) [OF ok that] n(4) by (auto simp: note_spendable_def)
      then show "bt_get (cs_nullifier_map ?w) (note_nullifier C w (snd e)) = bt_get (cs_nullifier_map w) (note_nullifier C w (snd e))"
        by simp
    qed (use old unspent_entries(3) [OF ok that] in auto)
    then have "\<forall>e \<in> set (cs_unspent_set ?w). note_commit C (snd e) = fst e \<and> note_known C w (snd e) \<and> note_spendable C ?w (snd e)"
      using new n(1,2) unspent_entries [OF ok] set_bt_insert [of ?c n "cs_unspent_set w"] by fastforce
    then have "wallet_ok C ?w"
      by (intro wallet_ok_scanned [OF ok]) (use bt in \<open>simp_all add: bt_ok_insert bt_ok_remove set_bt_remove\<close>)
    moreover have "follows (t @ [?c]) spent ?w" using fo n(5) c by (auto simp: follows_def)
    ultimately show thesis by (rule that [OF s])
  qed
qed

lemma scan_outputs_step:
  assumes nct: "nct_sync_ok C" and ok: "wallet_ok C w" and fo: "follows t spent w"
    and room: "length t + length bodies \<le> 2 ^ MERKLE_DEPTH" and out: "outputs_ok C spent bodies w"
  shows "\<exists>w'. foldR (scan_output C) bodies w = Inr w' \<and> wallet_ok C w' \<and> follows (t @ map ob_note_commitment bodies) spent w'"
  using ok fo room out
proof (induction bodies arbitrary: w t)
  case (Cons body bodies)
  have "length t < 2 ^ MERKLE_DEPTH" using Cons.prems(3) by simp
  moreover have "output_ok C spent body w" using Cons.prems(4) by simp
  ultimately obtain w1 where w1: "scan_output C body w = Inr w1" "wallet_ok C w1" "follows (t @ [ob_note_commitment body]) spent w1"
    by (rule scan_output_step [OF nct Cons.prems(1,2)])
  with Cons.IH [OF w1(2,3)] Cons.prems(3,4) show ?case by auto
qed simp

section \<open>Scanning nullifiers\<close>

lemma scan_nullifier_step:
  assumes nct: "nct_sync_ok C" and ok: "wallet_ok C w"
  shows "wallet_ok C (scan_nullifier nf w) \<and> appends (cs_nct (scan_nullifier nf w)) = appends (cs_nct w)
    \<and> cs_nullifier_map (scan_nullifier nf w) = cs_nullifier_map w
    \<and> bt_get (cs_unspent_set (scan_nullifier nf w)) = (case bt_get (cs_nullifier_map w) nf of
        None \<Rightarrow> bt_get (cs_unspent_set w) | Some c \<Rightarrow> (bt_get (cs_unspent_set w))(c := None))"
proof (cases "\<exists>c. bt_get (cs_nullifier_map w) nf = Some c \<and> (bt_get (cs_unspent_set w) c \<noteq> None
    \<or> bt_get (cs_submitted_spend_set w) c \<noteq> None \<or> bt_get (cs_submitted_change_set w) c \<noteq> None)")
  case False
  then have "scan_nullifier nf w = w" by (auto simp: scan_nullifier_def split: option.splits)
  then show ?thesis using False ok by (auto split: option.splits)
next
  case True
  then obtain c where c: "bt_get (cs_nullifier_map w) nf = Some c" by blast
  let ?w = "scan_nullifier nf w"
  have f: "cs_wallet ?w = cs_wallet w" "cs_asset_cache ?w = cs_asset_cache w" "cs_nct ?w = cs_nct w @ [NctRemoveWitness c]"
    "cs_nullifier_map ?w = cs_nullifier_map w" "bt_get (cs_unspent_set ?w) = (bt_get (cs_unspent_set w))(c := None)"
    "set (cs_unspent_set ?w) \<subseteq> set (cs_unspent_set w)"
    "set (cs_submitted_spend_set ?w) \<subseteq> set (cs_submitted_spend_set w)"
    "set (cs_submitted_change_set ?w) \<subseteq> set (cs_submitted_change_set w)"
    "bt_ok (cs_unspent_set ?w)" "bt_ok (cs_submitted_spend_set ?w)" "bt_ok (cs_submitted_change_set ?w)"
    using True c wallet_ok_bt [OF ok]
    by (auto simp: scan_nullifier_def fun_eq_iff bt_ok_remove dest: subsetD [OF set_bt_remove] split: option.splits prod.splits)
  have un: "fst e \<noteq> c" if "e \<in> set (cs_unspent_set ?w)" for e
  proof
    assume "fst e = c"
    then have "bt_get (cs_unspent_set ?w) c = Some (snd e)" using bt.get_entries [OF f(9)] that by (metis prod.collapse)
    then show False by (simp add: f(5))
  qed
  have "note_spendable C ?w (snd e)" if e: "e \<in> set (cs_unspent_set ?w)" for e
    using un [OF e] unspent_entries(1) [OF ok subsetD [OF f(6) e]]
    by (intro note_spendable_persists [OF nct unspent_entries(3) [OF ok subsetD [OF f(6) e]] f(1,3)]) (simp_all add: f(4))
  then have "wallet_ok C ?w"
    by (intro wallet_ok_scanned [OF ok f(1,2,9,10,11) _ f(7,8)]) (use f(6) unspent_entries [OF ok] in blast)
  then show ?thesis using f(3,4,5) c by simp
qed

lemma scan_nullifiers_step:
  assumes nct: "nct_sync_ok C" and ok: "wallet_ok C w" and fo: "follows t spent w"
  shows "wallet_ok C (fold scan_nullifier nfs w) \<and> follows t (\<lambda>nf. spent nf \<or> nf \<in> set nfs) (fold scan_nullifier nfs w)"
  using ok fo
proof (induction nfs arbitrary: w spent)
  case (Cons nf nfs)
  let ?w = "scan_nullifier nf w"
  note st = scan_nullifier_step [OF nct Cons.prems(1), of nf]
  have "follows t (\<lambda>x. spent x \<or> x = nf) ?w"
    using st Cons.prems(2) by (auto simp: follows_def split: option.splits if_splits)
  with Cons.IH [of ?w "\<lambda>x. spent x \<or> x = nf"] st
  have "wallet_ok C (fold scan_nullifier nfs ?w)" "follows t (\<lambda>x. (spent x \<or> x = nf) \<or> x \<in> set nfs) (fold scan_nullifier nfs ?w)" by blast+
  then show ?case by (simp add: disj_assoc)
qed simp

section \<open>Blocks of the node\<close>

text \<open>What the pool has after it executes the transactions of a block and ends it.\<close>

lemma pool_execute_all:
  "sp_nct (fold (pool_execute_tx X) txs p) = sp_nct p @ map ob_note_commitment (concat (map output_bodies txs))
   \<and> cb_outputs (sp_compact_block (fold (pool_execute_tx X) txs p)) = cb_outputs (sp_compact_block p) @ concat (map output_bodies txs)
   \<and> cb_nullifiers (sp_compact_block (fold (pool_execute_tx X) txs p)) = cb_nullifiers (sp_compact_block p) @ concat (map spent_nullifiers txs)
   \<and> (\<forall>nf. j_spent_nullifiers (sp_jmt (fold (pool_execute_tx X) txs p)) nf \<noteq> None
        \<longleftrightarrow> j_spent_nullifiers (sp_jmt p) nf \<noteq> None \<or> nf \<in> set (concat (map spent_nullifiers txs)))"
proof (induction txs arbitrary: p)
  case (Cons tx txs)
  show ?case using Cons.IH [of "pool_execute_tx X tx p"] pool_execute_tx_spec [of X tx p] by auto
qed simp

lemma node_block:
  assumes e: "pool_end_block X h (fold (pool_execute_tx X) txs p) = Inr p'" and p: "sp_compact_block p = empty_block"
  obtains b where "j_compact_block (sp_jmt p') h = Some b" and "cb_height b = h"
    and "sp_nct p' = sp_nct p @ map ob_note_commitment (cb_outputs b)"
    and "\<forall>nf. j_spent_nullifiers (sp_jmt p') nf \<noteq> None \<longleftrightarrow> j_spent_nullifiers (sp_jmt p) nf \<noteq> None \<or> nf \<in> set (cb_nullifiers b)"
    and "check_claimed_anchor (sp_jmt p') (nct_root (x_crypto X) (map NctAppend (sp_nct p'))) = Inr ()"
proof (rule pool_end_block_facts [OF e])
  let ?p = "fold (pool_execute_tx X) txs p"
  note ex = pool_execute_all [of X txs p]
  fix b
  assume b: "j_compact_block (sp_jmt p') h = Some b" "cb_height b = h"
    and "\<exists>cms. cb_outputs b = cb_outputs (sp_compact_block ?p) @ cms
      \<and> length cms = length (case commission_amounts (sp_jmt ?p) h of Some l \<Rightarrow> l | None \<Rightarrow> [])
      \<and> sp_nct p' = sp_nct ?p @ map ob_note_commitment cms"
    and "cb_nullifiers b = cb_nullifiers (sp_compact_block ?p)"
    and a: "check_claimed_anchor (sp_jmt p') (nct_root (x_crypto X) (map NctAppend (sp_nct p'))) = Inr ()"
    and "j_spent_nullifiers (sp_jmt p') = j_spent_nullifiers (sp_jmt ?p)"
  then show thesis using ex p by (intro that [OF b _ _ a]) (auto simp: empty_block_def)
qed

lemma root_of_synced: "nct_sync_ok C \<Longrightarrow> synced p w \<Longrightarrow> nct_root C (cs_nct w) = nct_root C (map NctAppend (sp_nct p))"
  unfolding nct_sync_ok_def synced_def follows_def by metis

lemma wallet_ok_height: "wallet_ok C (w\<lparr>cs_last_block_height := x\<rparr>) = wallet_ok C w"
proof -
  have "note_nullifier C (w\<lparr>cs_last_block_height := x\<rparr>) n = note_nullifier C w n" for n
    by (simp add: note_nullifier_def split: option.split)
  then have "note_known C (w\<lparr>cs_last_block_height := x\<rparr>) = note_known C w"
    "note_spendable C (w\<lparr>cs_last_block_height := x\<rparr>) = note_spendable C w"
    by (simp_all add: fun_eq_iff note_known_def note_denom_def note_index_def note_spendable_def)
  then show ?thesis by (simp add: wallet_ok_def notes_ok_def all_unspent_def)
qed

section \<open>What a scan does\<close>

text \<open>The notes that the wallet decrypts among the outputs, under the commitments of the outputs; the latest first.\<close>

definition own_notes :: "crypto \<Rightarrow> client_state \<Rightarrow> output_body list \<Rightarrow> (note_commitment \<times> note_t) list" where
  "own_notes C w bodies =
     rev (List.map_filter (\<lambda>body. case try_decrypt C w body of Inr n \<Rightarrow> Some (ob_note_commitment body, n) | Inl _ \<Rightarrow> None) bodies)"

lemma own_notes_simps [simp]:
  "own_notes C w [] = []"
  "own_notes C w (body # bodies) = own_notes C w bodies @
     (case try_decrypt C w body of Inr n \<Rightarrow> [(ob_note_commitment body, n)] | Inl _ \<Rightarrow> [])"
  by (simp_all add: own_notes_def map_filter_def split: sum.split)

lemma own_notes_wallet: "cs_wallet w' = cs_wallet w \<Longrightarrow> own_notes C w' = own_notes C w"
  by (simp add: own_notes_def try_decrypt_def fun_eq_iff)

lemma scan_outputs_total:
  assumes nct: "nct_sync_ok C" and "length (appends (cs_nct w)) + length outs \<le> 2 ^ MERKLE_DEPTH"
  shows "\<exists>w'. foldR (scan_output C) outs w = Inr w' \<and> appends (cs_nct w') = appends (cs_nct w) @ map ob_note_commitment outs
    \<and> cs_chain_params w' = cs_chain_params w
    \<and> bt_get (cs_unspent_set w') = bt_get (cs_unspent_set w) ++ map_of (own_notes C w outs)"
  using assms(2)
proof (induction outs arbitrary: w)
  case (Cons body outs)
  have room: "length (appends (cs_nct w)) < 2 ^ MERKLE_DEPTH" using Cons.prems by simp
  obtain w1 where w1: "scan_output C body w = Inr w1" "appends (cs_nct w1) = appends (cs_nct w) @ [ob_note_commitment body]"
    "cs_chain_params w1 = cs_chain_params w" "cs_wallet w1 = cs_wallet w"
    "bt_get (cs_unspent_set w1) = bt_get (cs_unspent_set w) ++ map_of (own_notes C w [body])"
    by (rule scan_output_cases [OF nct room, of body]) (auto simp: fun_eq_iff)
  then obtain w' where "foldR (scan_output C) outs w1 = Inr w'" "appends (cs_nct w') = appends (cs_nct w1) @ map ob_note_commitment outs"
    "cs_chain_params w' = cs_chain_params w1" "bt_get (cs_unspent_set w') = bt_get (cs_unspent_set w1) ++ map_of (own_notes C w1 outs)"
    using Cons.IH [of w1] Cons.prems by auto
  with w1 show ?case by (simp add: own_notes_wallet [OF w1(4)])
qed simp

lemma scan_nullifiers_frame:
  "appends (cs_nct (fold scan_nullifier nfs w)) = appends (cs_nct w)" "cs_chain_params (fold scan_nullifier nfs w) = cs_chain_params w"
  "cs_nullifier_map (fold scan_nullifier nfs w) = cs_nullifier_map w"
proof -
  have "appends (cs_nct (scan_nullifier nf w)) = appends (cs_nct w)" "cs_chain_params (scan_nullifier nf w) = cs_chain_params w"
    "cs_nullifier_map (scan_nullifier nf w) = cs_nullifier_map w" for nf w
    by (simp_all add: scan_nullifier_def split: option.splits)
  then show "appends (cs_nct (fold scan_nullifier nfs w)) = appends (cs_nct w)"
    "cs_chain_params (fold scan_nullifier nfs w) = cs_chain_params w" "cs_nullifier_map (fold scan_nullifier nfs w) = cs_nullifier_map w"
    by (induction nfs arbitrary: w) simp_all
qed

lemma scan_nullifiers_unspent:
  "bt_get (cs_unspent_set (fold scan_nullifier nfs w)) c =
     (if \<exists>nf \<in> set nfs. bt_get (cs_nullifier_map w) nf = Some c then None else bt_get (cs_unspent_set w) c)"
proof (induction nfs arbitrary: w)
  case (Cons nf nfs)
  have "bt_get (cs_unspent_set (scan_nullifier nf w)) c =
      (if bt_get (cs_nullifier_map w) nf = Some c then None else bt_get (cs_unspent_set w) c)"
    by (auto simp: scan_nullifier_def split: option.splits)
  then show ?case using Cons.IH [of "scan_nullifier nf w"] scan_nullifiers_frame(3) [of "[nf]" w] by simp
qed simp

text \<open>
  C5: the wallet follows the node.  Let the tree of a wallet have the commitments of the shielded pool, and
  let the node execute any transactions and end the block that the wallet has to scan next.  Then the wallet can scan the compact
  block stored for that height, whatever it holds: its tree has the commitments of the pool again, the root of
  its tree is a valid anchor of the node, and its unspent notes are exactly the ones it had and the ones it decrypts among
  the outputs, less those that its map gives for a nullifier of the block.  If moreover its invariant held, it had seen the spends of its notes, and every output of
  the block has a new commitment and, where it decrypts, gives a note with that commitment, of a known
  denomination, spendable by the wallet, and with a nullifier that neither the wallet nor the pool has, then the
  invariant holds again and the wallet has seen the spends of its notes.  (The wallet itself does not check the outputs.)
\<close>

theorem scan_follows_node:
  assumes nct: "nct_sync_ok (x_crypto X)" and tree: "appends (cs_nct w) = sp_nct p"
    and p: "sp_compact_block p = empty_block" and e: "pool_end_block X h (fold (pool_execute_tx X) txs p) = Inr p'"
    and b: "j_compact_block (sp_jmt p') h = Some b"
    and height: "case cs_last_block_height w of None \<Rightarrow> h = 0 | Some l \<Rightarrow> h = l + 1"
    and room: "length (sp_nct p') \<le> 2 ^ 32"
  shows "\<exists>w'. scan_block (x_crypto X) b w = Inr w' \<and> appends (cs_nct w') = sp_nct p' \<and> cs_last_block_height w' = Some h
    \<and> check_claimed_anchor (sp_jmt p') (nct_root (x_crypto X) (cs_nct w')) = Inr ()
    \<and> (\<forall>c. bt_get (cs_unspent_set w') c =
         (if \<exists>nf \<in> set (cb_nullifiers b). bt_get (cs_nullifier_map w') nf = Some c then None
          else (bt_get (cs_unspent_set w) ++ map_of (own_notes (x_crypto X) w (cb_outputs b))) c))
    \<and> (wallet_ok (x_crypto X) w \<and> synced p w
         \<and> outputs_ok (x_crypto X) (\<lambda>nf. j_spent_nullifiers (sp_jmt p) nf \<noteq> None) (cb_outputs b) w
       \<longrightarrow> wallet_ok (x_crypto X) w' \<and> synced p' w')"
proof (rule node_block [OF e p])
  let ?C = "x_crypto X" and ?spent = "\<lambda>nf. j_spent_nullifiers (sp_jmt p) nf \<noteq> None"
  fix b'
  assume b': "j_compact_block (sp_jmt p') h = Some b'" "cb_height b' = h"
    and t: "sp_nct p' = sp_nct p @ map ob_note_commitment (cb_outputs b')"
    and sp: "\<forall>nf. j_spent_nullifiers (sp_jmt p') nf \<noteq> None \<longleftrightarrow> ?spent nf \<or> nf \<in> set (cb_nullifiers b')"
    and a: "check_claimed_anchor (sp_jmt p') (nct_root ?C (map NctAppend (sp_nct p'))) = Inr ()"
  have [simp]: "b' = b" using b b'(1) by simp
  have room': "length (sp_nct p) + length (cb_outputs b) \<le> 2 ^ MERKLE_DEPTH" using room t by (simp add: MERKLE_DEPTH_def)
  obtain w1 where w1: "foldR (scan_output ?C) (cb_outputs b) w = Inr w1" "appends (cs_nct w1) = sp_nct p'"
    "bt_get (cs_unspent_set w1) = bt_get (cs_unspent_set w) ++ map_of (own_notes ?C w (cb_outputs b))"
    using scan_outputs_total [OF nct, of w "cb_outputs b"] room' by (auto simp: tree t)
  let ?w = "(fold scan_nullifier (cb_nullifiers b) w1)\<lparr>cs_last_block_height := Some h\<rparr>"
  have s: "scan_block ?C b w = Inr ?w"
    using height b'(2) by (auto simp: scan_block_def w1(1) ensure_def split: option.splits)
  have tree': "appends (cs_nct ?w) = sp_nct p'" by (simp add: scan_nullifiers_frame w1(2))
  then have "nct_root ?C (cs_nct ?w) = nct_root ?C (map NctAppend (sp_nct p'))" using nct unfolding nct_sync_ok_def by metis
  then have anchor: "check_claimed_anchor (sp_jmt p') (nct_root ?C (cs_nct ?w)) = Inr ()" using a by simp
  have "wallet_ok ?C ?w \<and> synced p' ?w" if ok: "wallet_ok ?C w" "synced p w" "outputs_ok ?C ?spent (cb_outputs b) w"
  proof -
    have "wallet_ok ?C w1" "follows (sp_nct p') ?spent w1"
      using scan_outputs_step [OF nct ok(1) ok(2) [unfolded synced_def] room' ok(3)] w1(1) by (auto simp: t)
    from scan_nullifiers_step [OF nct this] show ?thesis
      using sp by (simp add: wallet_ok_height synced_def follows_def)
  qed
  moreover have "bt_get (cs_unspent_set ?w) c =
      (if \<exists>nf \<in> set (cb_nullifiers b). bt_get (cs_nullifier_map ?w) nf = Some c then None
       else (bt_get (cs_unspent_set w) ++ map_of (own_notes ?C w (cb_outputs b))) c)" for c
    by (simp add: scan_nullifiers_unspent scan_nullifiers_frame w1(3))
  ultimately show ?thesis using s tree' anchor by (intro exI [of _ ?w] conjI) (blast | simp)+
qed

section \<open>Payments\<close>

text \<open>
  From the wallet to the node.  A wallet in step with the node that affords a payment builds it, and
  the transaction passes both checks of the shielded pool: the stateless one (the signatures, the proofs,
  no nullifier twice) and the stateful one (the anchor is known and no nullifier is spent).  It carries
  an output for each value sent, and the wallet's invariant holds afterwards.
\<close>

lemma synced_payment_valid:
  assumes laws: "crypto_laws (x_crypto X)" and nct: "nct_sync_ok (x_crypto X)" and ok: "wallet_ok (x_crypto X) w"
    and sy: "synced p w" and anchor: "check_claimed_anchor (sp_jmt p) (nct_root (x_crypto X) (map NctAppend (sp_nct p))) = Inr ()"
    and cid: "client_chain_id w = Some cid" and aff: "affords (x_crypto X) w vals fee source"
    and a: "payable (x_crypto X) dest" and memo: "case tx_memo of None \<Rightarrow> True | Some x \<Rightarrow> length x \<le> 512"
    and perm: "\<forall>m. mset (hash_iter m) = mset m"
  shows "\<exists>tx g' w'. build_send X hash_iter now g vals fee dest source tx_memo w = (Inr (tx, g'), w')
    \<and> pool_check_tx_stateless X tx = Inr () \<and> pool_check_tx_stateful tx (sp_jmt p) = Inr ()
    \<and> (\<forall>v \<in> set vals. \<exists>out. Output out \<in> set (actions tx) \<and> opf_value (out_proof out) = v)
    \<and> (\<forall>a \<in> set (actions tx). (\<exists>out. a = Output out) \<or> (\<exists>sp. a = Spend sp))
    \<and> accepted X cid fee w w' tx \<and> wallet_ok (x_crypto X) w'"
proof -
  obtain tx g' w' where tx: "build_send X hash_iter now g vals fee dest source tx_memo w = (Inr (tx, g'), w')"
    "wallet_ok (x_crypto X) w'" "\<forall>v \<in> set vals. \<exists>out. Output out \<in> set (actions tx) \<and> opf_value (out_proof out) = v"
    and kinds: "\<forall>a \<in> set (actions tx). (\<exists>out. a = Output out) \<or> (\<exists>sp. a = Spend sp)"
    and acc: "accepted X cid fee w w' tx"
    using build_send_accepted [OF laws ok cid aff a memo perm, of now g] by (elim exE conjE)
  have "j_spent_nullifiers (sp_jmt p) x = None" if "x \<in> set (spent_nullifiers tx)" for x
    using acc sy that unfolding accepted_def synced_def follows_def by blast
  then have unspent: "check_nullifier_unspent (sp_jmt p) x = Inr ()" if "x \<in> set (spent_nullifiers tx)" for x
    using check_nullifier_unspent_ok that by blast
  have "foldR (\<lambda>nf _. check_nullifier_unspent (sp_jmt p) nf) nfs () = Inr ()"
    if "set nfs \<subseteq> set (spent_nullifiers tx)" for nfs
    using that unspent by (induction nfs) auto
  then have "pool_check_tx_stateful tx (sp_jmt p) = Inr ()"
    using acc anchor root_of_synced [OF nct sy] by (simp add: pool_check_tx_stateful_def accepted_def)
  moreover have "pool_check_tx_stateless X tx = Inr ()" using acc by (simp add: accepted_def)
  ultimately show ?thesis using tx kinds acc by (intro exI conjI)
qed

end
