(* ===== verification/Delivery.thy ===== *)
theory Delivery
  imports App Wallet_Sync Tx_Proto
begin

text \<open>
  From the wallet to the chain: the transactions that the wallet builds survive their encoding, and the
  node's \<open>DeliverTx\<close> accepts a payment and executes it.
\<close>

section \<open>Built transactions read back\<close>

lemma add_spend_wire:
  assumes rdsa: "rdsa_ok C (VALUE_BLINDING_GENERATOR C)" and sz: "sizes_ok C" and sp: "spendable C sk n"
    and b': "add_spend C rg t sk n b = Inr (b', rg')"
  shows "\<exists>rsk body. bd_spends b' = bd_spends b @ [(rsk, body)] \<and> spend_body_wire C body" "bd_outputs b' = bd_outputs b"
proof -
  from b' obtain path vb r where path: "nct_auth_path C t (note_commit C n) = Some path"
    and b'_eq: "bd_spends b' = bd_spends b @ [(sk_randomize C (sk_ask sk) r, spend_body_new C (value_commit C (nt_value n) vb)
         (sk_ask sk) r path n vb (fvk_nk (sk_fvk sk)))]" and out: "bd_outputs b' = bd_outputs b"
    by (auto simp: add_spend_def Let_def result_simps case_prod_beta)
  have "unat (fst path) < 2 ^ 32" using sz path unfolding sizes_ok_def by (metis prod.collapse)
  moreover have "key_wire C (vk_spend_auth C k)" for k using rdsa sz by (simp add: key_wire_def rdsa_ok_def sizes_ok_def)
  moreover have "length (nt_transmission_key n) = 32" using sp unfolding spendable_def note_ok_def by blast
  ultimately have "spend_body_wire C (spend_body_new C (value_commit C (nt_value n) vb) (sk_ask sk) r path n vb (fvk_nk (sk_fvk sk)))"
    by (simp add: spend_body_wire_def spend_body_new_def Let_def)
  with b'_eq out show "\<exists>rsk body. bd_spends b' = bd_spends b @ [(rsk, body)] \<and> spend_body_wire C body" "bd_outputs b' = bd_outputs b"
    by blast+
qed

lemma output_new_wire:
  assumes "encoding_ok C" and "note_ok C n" and "output_new C g n memo dest ovk vb = Inr (out, g')"
  shows "output_wire out"
  using assms
  by (auto simp: output_new_def Let_def result_simps case_prod_beta note_encrypt_def memo_encrypt_def note_encrypt_key_def
      output_wire_def output_body_wire_def diversified_public_def encoding_laws note_ok_def array_def split: if_splits)

lemma add_output_wire:
  assumes "encoding_ok C" and a: "address_ok C dest" and b': "add_output_producing_note C rg dest v memo ovk b = Inr (n, b', rg')"
  shows "\<exists>out. bd_outputs b' = bd_outputs b @ [out] \<and> output_wire out" "bd_spends b' = bd_spends b"
proof -
  from b' obtain rg1 vb out where n: "note_generate C rg dest v = Inr (n, rg1)"
    and out: "output_new C (snd (rand_fr C rg1)) n memo dest ovk vb = Inr (out, rg')"
    and eq: "bd_outputs b' = bd_outputs b @ [out]" "bd_spends b' = bd_spends b"
    by (auto simp: add_output_producing_note_def Let_def result_simps case_prod_beta)
  with output_new_wire [OF assms(1) note_ok_generate [OF n a] out]
  show "\<exists>out. bd_outputs b' = bd_outputs b @ [out] \<and> output_wire out" "bd_spends b' = bd_spends b" by blast+
qed

lemma built_wire:
  assumes "built C t b" and rdsa: "rdsa_ok C (VALUE_BLINDING_GENERATOR C)" and sz: "sizes_ok C" and enc: "encoding_ok C"
  shows "(\<forall>p \<in> set (bd_spends b). spend_body_wire C (snd p)) \<and> (\<forall>out \<in> set (bd_outputs b). output_wire out)"
  using assms(1)
proof (induction rule: built.induct)
  case (b_spend b sk n g b' g')
  then show ?case using add_spend_wire [OF rdsa sz b_spend.hyps(2,3)] by auto
next
  case (b_output b dest g v memo ovk n b' g')
  then show ?case using add_output_wire [OF enc b_output.hyps(2,4)] by auto
qed (auto simp: build_with_root_def add_delegation_def add_undelegation_def add_validator_definition_def set_fee_def Let_def
    set_expiry_height_def set_chain_id_def result_simps)

lemma payment_wire:
  assumes laws: "crypto_laws C" and sz: "sizes_ok C" and b: "built C t b" and m: "made_of C b tx"
    and kinds: "\<forall>a \<in> set (actions tx). (\<exists>out. a = Output out) \<or> (\<exists>sp. a = Spend sp)"
  shows "tx_wire C tx"
proof -
  have w: "\<forall>p \<in> set (bd_spends b). spend_body_wire C (snd p)" "\<forall>out \<in> set (bd_outputs b). output_wire out"
    using built_wire [OF b] laws sz by (simp_all add: crypto_laws_def)
  have "action_wire C a" if a: "a \<in> set (actions tx)" for a
  proof (cases a)
    case (Output out)
    then have "out \<in> set (bd_outputs b)" using m a by (auto simp: made_of_def)
    then show ?thesis using w(2) by (simp add: Output)
  next
    case (Spend sp)
    then obtain k m g rsk body where "(rsk, body) \<in> set (bd_spends b)" "sp = \<lparr>sp_body = body, sp_auth_sig = fst (sign_spend_auth C k m g)\<rparr>"
      using m a unfolding made_of_def by fastforce
    then show ?thesis using w(1) sz by (auto simp: Spend sizes_ok_def)
  qed (use kinds a in auto)
  moreover have "length (tx_binding_sig tx) = 64" using m sz by (auto simp: made_of_def sizes_ok_def)
  ultimately show ?thesis by (simp add: tx_wire_def)
qed

section \<open>Payments in the application\<close>

text \<open>Staking and IBC have nothing to say about a payment.\<close>

lemma payment_parts:
  assumes "\<forall>a \<in> set (actions tx). (\<exists>out. a = Output out) \<or> (\<exists>sp. a = Spend sp)"
  shows "delegations tx = []" "undelegations tx = []" "validator_definitions tx = []" "ibc_actions tx = []"
    "fold queue_action (actions tx) c = c"
proof -
  have none: "List.map_filter f (actions tx) = []" if "\<And>a. a \<in> set (actions tx) \<Longrightarrow> f a = None" for f :: "action \<Rightarrow> 'x option"
    using that by (simp add: List.map_filter_def filter_empty_conv)
  show "delegations tx = []" "undelegations tx = []" "validator_definitions tx = []" "ibc_actions tx = []"
    unfolding delegations_def undelegations_def validator_definitions_def ibc_actions_def
    by (rule none, use assms in fastforce)+
  have "queue_action a c = c" if "a \<in> set (actions tx)" for a c using assms that by (auto simp: queue_action_def)
  then have "fold queue_action as c = c" if "set as \<subseteq> set (actions tx)" for "as" using that by (induction "as") auto
  then show "fold queue_action (actions tx) c = c" by simp
qed

lemma payment_deliver:
  assumes kinds: "\<forall>a \<in> set (actions tx). (\<exists>out. a = Output out) \<or> (\<exists>sp. a = Spend sp)"
    and dec: "decode bytes = Inr tx" and pool: "pool_check_tx_stateless X tx = Inr ()" "pool_check_tx_stateful tx (ap_jmt a) = Inr ()"
    and ep: "get_current_epoch (ap_jmt a) = Inr ep"
  shows "deliver_tx X I decode bytes a = (Inr (), put_pool a (pool_execute_tx X tx (pool_of a)))"
proof -
  note none = payment_parts [OF kinds]
  have "app_check_tx_stateless X I tx = Inr ()"
    using pool(1) by (simp add: app_check_tx_stateless_def staking_check_tx_stateless_def ibc_check_tx_stateless_def none ensure_def)
  moreover have "app_check_tx_stateful X I tx a = Inr ()"
    using pool(2) by (simp add: app_check_tx_stateful_def staking_check_tx_stateful_def ibc_check_tx_stateful_def none ensure_def)
  moreover have "app_execute_tx X I tx a = Inr (put_pool a (pool_execute_tx X tx (pool_of a)))"
    using ep by (simp add: app_execute_tx_def run_staking_def run_pool_def staking_execute_tx_def ibc_execute_tx_def none
        staking_of_def put_staking_def Let_def)
  ultimately show ?thesis by (simp add: deliver_tx_def dec)
qed

text \<open>
  C4: a payment, from the wallet to the chain.  If the wallet is in step with the node and affords the
  payment, it builds a transaction whose bytes the node's \<open>DeliverTx\<close> decodes, accepts and
  executes: the outputs are appended to the tree, one of them for each value sent, and every
  nullifier of the transaction is spent afterwards.
\<close>

theorem payment_delivered:
  assumes laws: "crypto_laws (x_crypto X)" "sizes_ok (x_crypto X)" "text_ok (x_crypto X)" "prost_ok R"
    and nct: "nct_sync_ok (x_crypto X)" and ok: "wallet_ok (x_crypto X) w" and sy: "synced (pool_of (w_app wk)) w"
    and anchor: "check_claimed_anchor (ap_jmt (w_app wk)) (nct_root (x_crypto X) (map NctAppend (ap_nct (w_app wk)))) = Inr ()"
    and ep: "get_current_epoch (ap_jmt (w_app wk)) = Inr ep"
    and cid: "client_chain_id w = Some cid" and aff: "affords (x_crypto X) w vals fee source"
    and a: "payable (x_crypto X) dest" and memo: "case tx_memo of None \<Rightarrow> True | Some x \<Rightarrow> length x \<le> 512"
    and perm: "\<forall>m. mset (hash_iter m) = mset m"
  shows "\<exists>tx g' w' wk'. build_send X hash_iter now g vals fee dest source tx_memo w = (Inr (tx, g'), w')
    \<and> worker_deliver_tx X I (transaction_of_slice (x_crypto X) R) (transaction_to_bytes (x_crypto X) R tx) wk = Inr (wk', True)
    \<and> ap_nct (w_app wk') = ap_nct (w_app wk) @ map ob_note_commitment (output_bodies tx)
    \<and> (\<forall>v \<in> set vals. \<exists>out. Output out \<in> set (actions tx) \<and> opf_value (out_proof out) = v)
    \<and> (\<forall>nf \<in> set (spent_nullifiers tx). j_spent_nullifiers (ap_jmt (w_app wk)) nf = None
         \<and> j_spent_nullifiers (ap_jmt (w_app wk')) nf \<noteq> None)"
proof -
  let ?C = "x_crypto X" and ?a = "w_app wk"
  have pool: "sp_jmt (pool_of ?a) = ap_jmt ?a" "sp_nct (pool_of ?a) = ap_nct ?a" by (simp_all add: pool_of_def)
  obtain tx g' w' where tx: "build_send X hash_iter now g vals fee dest source tx_memo w = (Inr (tx, g'), w')"
    and checks: "pool_check_tx_stateless X tx = Inr ()" "pool_check_tx_stateful tx (ap_jmt ?a) = Inr ()"
    and outs: "\<forall>v \<in> set vals. \<exists>out. Output out \<in> set (actions tx) \<and> opf_value (out_proof out) = v"
    and kinds: "\<forall>a \<in> set (actions tx). (\<exists>out. a = Output out) \<or> (\<exists>sp. a = Spend sp)" and acc: "accepted X cid fee w w' tx"
    using synced_payment_valid [OF laws(1) nct ok sy anchor [folded pool] cid aff a memo perm, of now g] unfolding pool by (elim exE conjE)
  from acc obtain b where "built ?C (cs_nct w) b" "made_of ?C b tx" by (auto simp: accepted_def)
  then have "tx_wire ?C tx" using payment_wire laws(1,2) kinds by blast
  moreover have "encoding_ok ?C" using laws(1) by (simp add: crypto_laws_def)
  ultimately have "transaction_of_slice ?C R (transaction_to_bytes ?C R tx) = Inr tx"
    using transaction_bytes_roundtrip laws(3,4) by blast
  from payment_deliver [OF kinds, of "transaction_of_slice ?C R", OF this checks ep]
  have d: "worker_deliver_tx X I (transaction_of_slice ?C R) (transaction_to_bytes ?C R tx) wk
      = Inr (wk\<lparr>w_app := put_pool ?a (pool_execute_tx X tx (pool_of ?a))\<rparr>, True)" (is "_ = Inr (?wk, True)")
    by (simp add: worker_deliver_tx_def)
  obtain m n where "pool_execute_tx X tx (pool_of ?a) =
     (pool_of ?a)\<lparr>sp_nct := ap_nct ?a @ map ob_note_commitment (output_bodies tx),
       sp_jmt := (ap_jmt ?a)\<lparr>j_note_source := m, j_spent_nullifiers := n\<rparr>,
       sp_compact_block := (sp_compact_block (pool_of ?a))\<lparr>cb_outputs := cb_outputs (sp_compact_block (pool_of ?a)) @ output_bodies tx,
         cb_nullifiers := cb_nullifiers (sp_compact_block (pool_of ?a)) @ spent_nullifiers tx\<rparr>\<rparr>"
    and n: "\<forall>nf \<in> set (spent_nullifiers tx). n nf \<noteq> None"
    using pool_execute_tx_spec [of X tx "pool_of ?a"] unfolding pool by auto
  then have wk: "ap_nct (w_app ?wk) = ap_nct ?a @ map ob_note_commitment (output_bodies tx)"
    "\<forall>nf \<in> set (spent_nullifiers tx). j_spent_nullifiers (ap_jmt (w_app ?wk)) nf \<noteq> None"
    by (simp_all add: put_pool_def)
  have "\<forall>nf \<in> set (spent_nullifiers tx). j_spent_nullifiers (ap_jmt ?a) nf = None"
    using acc sy unfolding accepted_def synced_def follows_def pool by blast
  with tx d wk outs show ?thesis by (intro exI [of _ tx] exI [of _ g'] exI [of _ w'] exI [of _ ?wk]) auto
qed

end
