(* ===== verification/Wallet_Stake.thy ===== *)
theory Wallet_Stake
  imports Wallet_Sound
begin

text \<open>
  The wallet's other transactions: uploading a validator definition, delegating and undelegating stake.
  Each is accepted by the shielded pool under the conditions on the wallet's notes that its payment
  needs; the arguments are those of a payment, with the values of the staking action added.
\<close>

section \<open>Validator definitions\<close>

text \<open>
  A wallet that affords the fee uploads a validator definition that is signed by its identity key;
  the transaction carries the definition and the shielded pool accepts it.
\<close>

lemma build_validator_definition_accepted:
  assumes laws: "crypto_laws (x_crypto X)" and ok: "wallet_ok (x_crypto X) s" and cid: "client_chain_id s = Some cid"
    and aff: "affords (x_crypto X) s [] fee source" and vd: "check_definition_signed X vd = Inr ()"
    and perm: "\<forall>m. mset (hash_iter m) = mset m"
  shows "\<exists>tx g' s'. build_validator_definition X hash_iter now g vd fee source s = (Inr (tx, g'), s')
    \<and> accepted X cid fee s s' tx \<and> wallet_ok (x_crypto X) s' \<and> ValidatorDefinition vd \<in> set (actions tx)"
proof -
  let ?C = "x_crypto X"
  obtain b where b: "new_builder ?C fee s = Inr b" "built ?C (cs_nct s) b" "bd_chain_id b = Some cid" "bd_fee b = Some fee"
    "bd_delegations b = []" "bd_undelegations b = []" "bd_validator_definitions b = []"
    and n0: "builder_nullifiers b = []" "bd_outputs b = []"
    and net0: "\<forall>i. net i (builder_terms ?C b) = - (if i = staking_token_asset_id ?C then int (unat fee) else 0)"
    by (rule new_builder_ok [OF cid])
  let ?b = "add_validator_definition vd b"
  obtain m' where m': "with_fee ?C fee [] = Inr m'" "distinct (bases m')" "\<forall>p \<in> set m'. fundable ?C s source p"
    "\<forall>i. owed i m' = owed i [] + (if staking_token_asset_id ?C = i then unat fee else 0)"
    by (rule value_to_spend_ok [OF ok aff, of "[]"]) simp_all
  have fr: "fresh s ?b s" using n0(1) by (intro fresh_new) (simp add: add_validator_definition_def)
  have f: "built ?C (cs_nct s) ?b" "bd_chain_id ?b = Some cid" "bd_fee ?b = Some fee"
    "\<forall>vd \<in> set (bd_validator_definitions ?b). check_definition_signed X vd = Inr ()"
    using b_definition [OF b(2)] b(3,4,7) vd by (simp_all add: add_validator_definition_def)
  have "builder_terms ?C ?b = builder_terms ?C b" by (simp add: builder_terms_def add_validator_definition_def)
  then have bal: "\<forall>i. net i (builder_terms ?C ?b) = - int (owed i m')" using net0 m'(4) by auto
  obtain tx g' s' where tx: "bindS (foldS (pay_denom ?C now source) (hash_iter m') (?b, g) s) (finalize_tx X) = (Inr (tx, g'), s')"
    "accepted X cid fee s s' tx" "wallet_ok ?C s'" "ValidatorDefinition ` set (bd_validator_definitions ?b) \<subseteq> set (actions tx)"
    by (rule pay_and_finalize [OF laws ok fr f m'(2,3) bal spec [OF perm, of m']])
  then show ?thesis by (auto simp: build_validator_definition_def b(1) m'(1) add_validator_definition_def)
qed

section \<open>Spending one denomination for one output\<close>

definition exchange ::
  "ext \<Rightarrow> system_time \<Rightarrow> rng \<Rightarrow> u64 \<Rightarrow> denom \<Rightarrow> u64 option \<Rightarrow> address \<Rightarrow> typed_value \<Rightarrow> tx_builder \<Rightarrow> client_state
     \<Rightarrow> (transaction \<times> rng) result \<times> client_state" where
  "exchange X now g amount d source self v b s =
     bindS (notes_to_spend (x_crypto X) now g amount d source s) (\<lambda>(notes, g) s.
     bindS (spend_all (x_crypto X) s notes (b, g), s) (\<lambda>(b, g) s.
     bindS (add_output_producing_note (x_crypto X) g self v memo_default (wallet_ovk (cs_wallet s)) b, s) (\<lambda>(n, b, g) s.
     let change = sum_list (map note_amount notes) - amount in
     bindS (if 0 < change then change_output (x_crypto X) now self \<lparr>val_amount = change, val_asset_id = dn_id d\<rparr> (b, g) s
            else (Inr (b, g), s)) (\<lambda>bg s.
     finalize_tx X bg (register_change (x_crypto X) now n s)))))"

lemma exchange_accepted:
  assumes laws: "crypto_laws (x_crypto X)" and ok: "wallet_ok (x_crypto X) s" and fr: "fresh s b s"
    and b: "built (x_crypto X) (cs_nct s) b" "bd_chain_id b = Some cid" "bd_fee b = Some fee" "bd_validator_definitions b = []"
    and d: "denom_ok (x_crypto X) d" and pos: "0 < amount"
    and enough: "unat amount \<le> funds (x_crypto X) s d source" and bound: "funds (x_crypto X) s d source < 2 ^ 64"
    and cached: "bt_get (cs_asset_cache s) (dn_id d) \<noteq> None" "bt_get (cs_asset_cache s) (val_asset_id v) \<noteq> None"
    and a: "payable (x_crypto X) self"
      "u64_of_diversifier_index (index_for_diversifier (x_crypto X) (ivk_dk (wallet_ivk (cs_wallet s))) (ad_d self)) = Inr i"
      "unat i < length (wl_address_labels (cs_wallet s))"
    and bal: "\<forall>i. net i (builder_terms (x_crypto X) b) = (if i = val_asset_id v then int (unat (val_amount v)) else 0)
      - (if i = dn_id d then int (unat amount) else 0)"
  obtains tx g' s' where "exchange X now g amount d source self v b s = (Inr (tx, g'), s')" and "accepted X cid fee s s' tx"
    and "wallet_ok (x_crypto X) s'" and "Delegate ` set (bd_delegations b) \<union> Undelegate ` set (bd_undelegations b) \<subseteq> set (actions tx)"
proof -
  let ?C = "x_crypto X"
  obtain drawn g1 b1 g2 where n: "notes_to_spend ?C now g amount d source s = (Inr (drawn, g1), mark_spent ?C now drawn s)"
    and b1: "spend_all ?C (mark_spent ?C now drawn s) drawn (b, g1) = Inr (b1, g2)"
    and t: "unat (sum_list (map note_amount drawn)) = total_of drawn" "unat amount \<le> total_of drawn"
    and e1: "extends ?C (cs_nct s) b b1 (map (\<lambda>n. (True, nt_value n)) drawn) (map (note_nullifier ?C s) drawn) []"
    and fr1: "fresh s b1 (mark_spent ?C now drawn s)" and ok1: "wallet_ok ?C (mark_spent ?C now drawn s)"
    and net1: "\<forall>i. net i (map (\<lambda>n. (True, nt_value n)) drawn) = (if i = dn_id d then int (total_of drawn) else 0)"
    by (rule spend_funds [OF laws ok d fr pos enough bound])
  let ?s = "mark_spent ?C now drawn s" and ?change = "sum_list (map note_amount drawn) - amount"
  note mv = moved_mark_spent [of s ?C now drawn] and fs = moved_fields [OF moved_mark_spent [of s ?C now drawn]]
  have "length memo_default = 512" by (simp add: memo_default_def)
  then obtain n b2 g3 where o: "add_output_producing_note ?C g2 self v memo_default (wallet_ovk (cs_wallet ?s)) b1 = Inr (n, b2, g3)"
    and e2: "extends ?C (cs_nct s) b1 b2 [(False, v)] [] [v]" and nv: "nt_value n = v" "nt_diversifier n = ad_d self"
    by (rule extends_output [OF laws a(1)])
  obtain b3 g4 s3 ts vs where c: "(if 0 < ?change then change_output ?C now self \<lparr>val_amount = ?change, val_asset_id = dn_id d\<rparr> (b2, g3) ?s
      else (Inr (b2, g3), ?s)) = (Inr (b3, g4), s3)"
    and e3: "extends ?C (cs_nct s) b2 b3 ts [] vs" and net3: "\<forall>i. net i ts = - (if i = dn_id d then int (unat ?change) else 0)"
    and mv3: "moved ?s s3" and ok3: "wallet_ok ?C s3" and fr3: "fresh s b3 s3"
    unfolding fs(1) [symmetric]
    by (rule give_change [OF laws ok1 a(1) fresh_extends [OF fr1 e2], of i "dn_id d"]) (use a cached in \<open>simp_all add: fs\<close>)
  have mv': "moved s (register_change ?C now n s3)" using moved_trans [OF moved_trans [OF mv mv3] moved_register_change] .
  have known: "note_known ?C s n" by (rule known_change [OF _ nv(2) a(2,3)]) (simp add: nv cached)
  then have "note_known ?C s3 n" unfolding moved_note [OF moved_trans [OF mv mv3]] .
  then have ok': "wallet_ok ?C (register_change ?C now n s3)" by (rule wallet_ok_register_change [OF ok3])
  have fr': "fresh s b3 (register_change ?C now n s3)" using fr3 by (simp add: fresh_register_change)
  note e = extends_trans [OF e1 extends_trans [OF e2 e3]]
  have "unat ?change = total_of drawn - unat amount" using t by (simp add: unat_minus_exact)
  then have nets: "\<forall>i. net i (builder_terms ?C b3) = 0"
    using e bal net1 net3 t(2) by (auto simp: extends_def)
  have f: "built ?C (cs_nct s) b3" "bd_chain_id b3 = Some cid" "bd_fee b3 = Some fee"
    "\<forall>vd \<in> set (bd_validator_definitions b3). check_definition_signed X vd = Inr ()"
    and acts: "bd_delegations b3 = bd_delegations b" "bd_undelegations b3 = bd_undelegations b"
    using e b by (simp_all add: extends_def)
  show thesis
    by (rule finalized_accepted [OF laws f(1) nets f(2,3,4) fr' mv', of g4], rule that [OF _ _ ok'])
       (auto simp: exchange_def n b1 o c acts)
qed

section \<open>Delegating\<close>

lemma own_address_ok:
  assumes laws: "crypto_laws C" and ok: "wallet_ok C s"
    and "unat (case source of Some i \<Rightarrow> i | None \<Rightarrow> 0) < length (wl_address_labels (cs_wallet s))"
  obtains i a where "own_address C s source = Inr a" and "payable C a"
    and "u64_of_diversifier_index (index_for_diversifier C (ivk_dk (wallet_ivk (cs_wallet s))) (ad_d a)) = Inr i"
    and "unat i < length (wl_address_labels (cs_wallet s))"
proof -
  have own: "\<forall>i < length (wl_address_labels (cs_wallet s)). own_generator C (cs_wallet s) i \<noteq> el_zero C"
    using ok by (simp add: wallet_ok_def)
  obtain l a where "address_by_index C (cs_wallet s) (unat (case source of Some i \<Rightarrow> i | None \<Rightarrow> 0)) = Inr (l, a)" "payable C a"
    "u64_of_diversifier_index (index_for_diversifier C (ivk_dk (wallet_ivk (cs_wallet s))) (ad_d a)) = Inr (case source of Some i \<Rightarrow> i | None \<Rightarrow> 0)"
    by (rule address_by_index_ok [OF laws assms(3) own])
  with assms(3) show thesis by (intro that) (simp_all add: own_address_def)
qed

text \<open>A staking action added to a new builder.\<close>

lemma add_delegation_ok:
  assumes b: "built C t b"
  obtains b' where "add_delegation C dl b = Inr b'" and "built C t b'" and "bd_chain_id b' = bd_chain_id b" "bd_fee b' = bd_fee b"
    "bd_validator_definitions b' = bd_validator_definitions b" "builder_nullifiers b' = builder_nullifiers b"
    "bd_delegations b' = bd_delegations b @ [dl]"
    and "\<forall>i. net i (builder_terms C b') = net i (builder_terms C b) + net i (delegation_terms C dl)"
proof -
  obtain b' where b': "add_delegation C dl b = Inr b'"
    by (simp add: add_delegation_def delegate_value_commitment_def Let_def delegation_asset_id_eq)
  then show thesis
    by (intro that [OF b' b_delegation [OF b b']]) (auto simp: add_delegation_def result_simps builder_terms_def)
qed

lemma add_undelegation_ok:
  assumes b: "built C t b"
  obtains b' where "add_undelegation C ud b = Inr b'" and "built C t b'" and "bd_chain_id b' = bd_chain_id b" "bd_fee b' = bd_fee b"
    "bd_validator_definitions b' = bd_validator_definitions b" "builder_nullifiers b' = builder_nullifiers b"
    "bd_undelegations b' = bd_undelegations b @ [ud]"
    and "\<forall>i. net i (builder_terms C b') = net i (builder_terms C b) + net i (undelegation_terms C ud)"
proof -
  obtain b' where b': "add_undelegation C ud b = Inr b'"
    by (simp add: add_undelegation_def undelegate_value_commitment_def Let_def delegation_asset_id_eq)
  then show thesis
    by (intro that [OF b' b_undelegation [OF b b']]) (auto simp: add_undelegation_def result_simps builder_terms_def)
qed

text \<open>
  C7: a wallet with enough of the staking token delegates.  \<open>build_delegate\<close> returns a transaction with
  the delegation at the validator's rate, which the shielded pool's stateless check accepts: the
  delegation tokens that the delegation creates are those of the output, and the staking tokens spent
  are those delegated, the fee and the change.
\<close>

theorem build_delegate_accepted:
  assumes laws: "crypto_laws (x_crypto X)" and ok: "wallet_ok (x_crypto X) s" and cid: "client_chain_id s = Some cid"
    and self: "unat (case source of Some i \<Rightarrow> i | None \<Rightarrow> 0) < length (wl_address_labels (cs_wallet s))"
    and rate: "build_delegate rate unbonded = Inr dl"
    and ds: "staking_token_denom (x_crypto X) = Inr ds"
    and pos: "0 < unat unbonded + unat fee" and enough: "unat unbonded + unat fee \<le> funds (x_crypto X) s ds source"
    and bound: "funds (x_crypto X) s ds source < 2 ^ 64"
    and known: "bt_get (cs_asset_cache s) (staking_token_asset_id (x_crypto X)) \<noteq> None"
      "bt_get (cs_asset_cache s) (denom_id (x_crypto X) (''udelegation_'' @ rd_identity_key rate)) \<noteq> None"
  shows "\<exists>tx g' s'. wallet_build_delegate X now g rate unbonded fee source s = (Inr (tx, g'), s')
    \<and> accepted X cid fee s s' tx \<and> wallet_ok (x_crypto X) s' \<and> Delegate dl \<in> set (actions tx)"
proof -
  let ?C = "x_crypto X" and ?asset = "denom_id (x_crypto X) (''udelegation_'' @ rd_identity_key rate)"
  from rate obtain amount where amount: "delegation_amount rate unbonded = Inr amount"
    and dl: "d_delegation_amount dl = amount" "d_unbonded_amount dl = unbonded" "d_validator_identity dl = rd_identity_key rate"
    by (auto simp: build_delegate_def result_simps)
  obtain i a where a: "own_address ?C s source = Inr a" "payable ?C a"
    "u64_of_diversifier_index (index_for_diversifier ?C (ivk_dk (wallet_ivk (cs_wallet s))) (ad_d a)) = Inr i"
    "unat i < length (wl_address_labels (cs_wallet s))"
    by (rule own_address_ok [OF laws ok self])
  obtain b0 where b0: "new_builder ?C fee s = Inr b0" "built ?C (cs_nct s) b0" "bd_chain_id b0 = Some cid" "bd_fee b0 = Some fee"
    "bd_delegations b0 = []" "bd_undelegations b0 = []" "bd_validator_definitions b0 = []" "builder_nullifiers b0 = []"
    and net0: "\<forall>i. net i (builder_terms ?C b0) = - (if i = staking_token_asset_id ?C then int (unat fee) else 0)"
    by (rule new_builder_ok [OF cid])
  obtain b where b: "add_delegation ?C dl b0 = Inr b" "built ?C (cs_nct s) b" "bd_chain_id b = bd_chain_id b0" "bd_fee b = bd_fee b0"
    "bd_validator_definitions b = bd_validator_definitions b0" "builder_nullifiers b = builder_nullifiers b0"
    "bd_delegations b = bd_delegations b0 @ [dl]"
    and net1: "\<forall>i. net i (builder_terms ?C b) = net i (builder_terms ?C b0) + net i (delegation_terms ?C dl)"
    by (rule add_delegation_ok [OF b0(2)])
  have dd: "dn_base_denom ds = ''upenumbra''" "dn_id ds = staking_token_asset_id ?C"
    using ds staking_token_denom_ok [of ?C] by (metis sum.inject(2))+
  have sum: "unat (unbonded + fee) = unat unbonded + unat fee" using enough bound by (intro unat_plus_exact) simp
  let ?v = "\<lparr>val_amount = amount, val_asset_id = ?asset\<rparr>"
  have bal: "\<forall>i. net i (builder_terms ?C b) = (if i = val_asset_id ?v then int (unat (val_amount ?v)) else 0)
      - (if i = dn_id ds then int (unat (unbonded + fee)) else 0)"
    using net0 net1 by (simp add: delegation_terms_def dl dd sum)
  have d_ok: "denom_ok ?C ds" by (simp add: denom_ok_def dd staking_token_asset_id_def)
  have eq: "wallet_build_delegate X now g rate unbonded fee source s = exchange X now g (unbonded + fee) ds source a ?v b s"
    unfolding exchange_def dd
    by (simp add: wallet_build_delegate_def a(1) b0(1) rate b(1) ds amount delegation_asset_id_eq Let_def)
  obtain tx g' s' where "exchange X now g (unbonded + fee) ds source a ?v b s = (Inr (tx, g'), s')"
    "accepted X cid fee s s' tx" "wallet_ok ?C s'" "Delegate ` set (bd_delegations b) \<union> Undelegate ` set (bd_undelegations b) \<subseteq> set (actions tx)"
    by (rule exchange_accepted [OF laws ok fresh_new b(2) _ _ _ d_ok _ _ bound _ _ a(2,3,4) bal])
       (use b b0 pos enough known in \<open>simp_all add: sum dd word_less_nat_alt\<close>)
  then show ?thesis unfolding eq by (simp add: b(7))
qed

section \<open>Undelegating\<close>

text \<open>
  A wallet with enough delegation tokens undelegates, if the unbonded amount covers the fee.
  \<open>build_undelegate\<close> returns a transaction with the undelegation at the validator's rate, which the
  shielded pool's stateless check accepts: the fee is paid out of the unbonded amount, the rest of it
  goes to the output, and delegation tokens left over are change.
\<close>

lemma build_undelegate_accepted:
  assumes laws: "crypto_laws (x_crypto X)" and ok: "wallet_ok (x_crypto X) s" and cid: "client_chain_id s = Some cid"
    and self: "unat (case source of Some i \<Rightarrow> i | None \<Rightarrow> 0) < length (wl_address_labels (cs_wallet s))"
    and rate: "build_undelegate rate amount = Inr ud" and fee: "fee \<le> u_unbonded_amount ud"
    and token: "delegation_token_new (x_crypto X) (rd_identity_key rate) = Inr token"
    and pos: "0 < amount" and enough: "unat amount \<le> funds (x_crypto X) s (dt_base_denom token) source"
    and bound: "funds (x_crypto X) s (dt_base_denom token) source < 2 ^ 64"
    and known: "bt_get (cs_asset_cache s) (staking_token_asset_id (x_crypto X)) \<noteq> None"
      "bt_get (cs_asset_cache s) (dn_id (dt_base_denom token)) \<noteq> None"
  shows "\<exists>tx g' s'. wallet_build_undelegate X now g rate amount fee source s = (Inr (tx, g'), s')
    \<and> accepted X cid fee s s' tx \<and> wallet_ok (x_crypto X) s' \<and> Undelegate ud \<in> set (actions tx)"
proof -
  let ?C = "x_crypto X" and ?d = "dt_base_denom token"
  from rate obtain unbonded where unbonded: "unbonded_amount rate amount = Inr unbonded"
    and ud: "u_delegation_amount ud = amount" "u_unbonded_amount ud = unbonded" "u_validator_identity ud = rd_identity_key rate"
    by (auto simp: build_undelegate_def result_simps)
  have sub: "checked_sub unbonded fee = Some (unbonded - fee)" "unat (unbonded - fee) = unat unbonded - unat fee" "unat fee \<le> unat unbonded"
    using fee by (simp_all add: checked_sub_def ud word_le_nat_alt unat_minus_exact)
  have dd: "dn_base_denom ?d = ''udelegation_'' @ rd_identity_key rate" "dn_id ?d = denom_id ?C (''udelegation_'' @ rd_identity_key rate)"
    using token parse_denom_Some by (auto simp: delegation_token_new_def result_simps)
  obtain i a where a: "own_address ?C s source = Inr a" "payable ?C a"
    "u64_of_diversifier_index (index_for_diversifier ?C (ivk_dk (wallet_ivk (cs_wallet s))) (ad_d a)) = Inr i"
    "unat i < length (wl_address_labels (cs_wallet s))"
    by (rule own_address_ok [OF laws ok self])
  obtain b0 where b0: "new_builder ?C fee s = Inr b0" "built ?C (cs_nct s) b0" "bd_chain_id b0 = Some cid" "bd_fee b0 = Some fee"
    "bd_delegations b0 = []" "bd_undelegations b0 = []" "bd_validator_definitions b0 = []" "builder_nullifiers b0 = []"
    and net0: "\<forall>i. net i (builder_terms ?C b0) = - (if i = staking_token_asset_id ?C then int (unat fee) else 0)"
    by (rule new_builder_ok [OF cid])
  obtain b where b: "add_undelegation ?C ud b0 = Inr b" "built ?C (cs_nct s) b" "bd_chain_id b = bd_chain_id b0" "bd_fee b = bd_fee b0"
    "bd_validator_definitions b = bd_validator_definitions b0" "builder_nullifiers b = builder_nullifiers b0"
    "bd_undelegations b = bd_undelegations b0 @ [ud]"
    and net1: "\<forall>i. net i (builder_terms ?C b) = net i (builder_terms ?C b0) + net i (undelegation_terms ?C ud)"
    by (rule add_undelegation_ok [OF b0(2)])
  let ?v = "\<lparr>val_amount = unbonded - fee, val_asset_id = staking_token_asset_id ?C\<rparr>"
  have bal: "\<forall>i. net i (builder_terms ?C b) = (if i = val_asset_id ?v then int (unat (val_amount ?v)) else 0)
      - (if i = dn_id ?d then int (unat amount) else 0)"
    using net0 net1 sub(2,3) by (auto simp: undelegation_terms_def ud dd)
  have d_ok: "denom_ok ?C ?d" by (simp add: denom_ok_def dd)
  have eq: "wallet_build_undelegate X now g rate amount fee source s = exchange X now g amount ?d source a ?v b s"
    by (simp add: wallet_build_undelegate_def exchange_def a(1) b0(1) rate b(1) unbonded sub(1) token Let_def)
  obtain tx g' s' where "exchange X now g amount ?d source a ?v b s = (Inr (tx, g'), s')"
    "accepted X cid fee s s' tx" "wallet_ok ?C s'" "Delegate ` set (bd_delegations b) \<union> Undelegate ` set (bd_undelegations b) \<subseteq> set (actions tx)"
    by (rule exchange_accepted [OF laws ok fresh_new b(2) _ _ _ d_ok pos enough bound known(2) _ a(2,3,4) bal])
       (use b b0 known(1) in simp_all)
  then show ?thesis unfolding eq by (simp add: b(7))
qed

end
