(* ===== verification/Wallet_Sets.thy ===== *)
theory Wallet_Sets
  imports Wallet_Sync "HOL-Library.Sublist"
begin

text \<open>
  The life of a note in the wallet: received (unspent), spent in a transaction not yet on the chain
  (submitted), spent.  \<open>client_step\<close> is the relation of the wallet's operations; in every state reached
  from a new wallet on a chain that brings no commitment twice, a note is in at most one of the three sets, and
  a note that the chain has seen spent stays spent.  Where a commitment comes again, neither holds
  (\<open>resent_note_unspent_again\<close>).
\<close>

section \<open>Timeouts\<close>

lemma prune_spends:
  fixes now :: system_time
  defines "f \<equiv> \<lambda>(c, timeout, n) s.
    if timeout < now then
      (if bt_get (cs_spent_set s) c \<noteq> None then s else s\<lparr>cs_unspent_set := bt_insert c n (cs_unspent_set s)\<rparr>)
    else s\<lparr>cs_submitted_spend_set := bt_insert c (timeout, n) (cs_submitted_spend_set s)\<rparr>"
  assumes "distinct (map fst m)"
  shows "fold f m s = s\<lparr>cs_unspent_set := cs_unspent_set (fold f m s), cs_submitted_spend_set := cs_submitted_spend_set (fold f m s)\<rparr>
    \<and> bt_get (cs_unspent_set (fold f m s)) c = (case bt_get m c of
        Some (timeout, n) \<Rightarrow> if timeout < now \<and> bt_get (cs_spent_set s) c = None then Some n else bt_get (cs_unspent_set s) c
      | None \<Rightarrow> bt_get (cs_unspent_set s) c)
    \<and> bt_get (cs_submitted_spend_set (fold f m s)) c = (case bt_get m c of
        Some (timeout, n) \<Rightarrow> if timeout < now then bt_get (cs_submitted_spend_set s) c else Some (timeout, n)
      | None \<Rightarrow> bt_get (cs_submitted_spend_set s) c)
    \<and> (bt_ok (cs_unspent_set s) \<longrightarrow> bt_ok (cs_unspent_set (fold f m s)))
    \<and> (bt_ok (cs_submitted_spend_set s) \<longrightarrow> bt_ok (cs_submitted_spend_set (fold f m s)))"
  using assms(2)
proof (induction m arbitrary: s)
  case (Cons e m)
  obtain c' timeout n where e: "e = (c', timeout, n)" by (cases e)
  have none: "bt_get m c' = None" using Cons.prems by (simp add: e bt_get_def map_of_eq_None_iff)
  have get: "bt_get (e # m) c = (if c = c' then Some (timeout, n) else bt_get m c)" by (simp add: bt_get_def e)
  show ?case
    using Cons.IH [of "f e s"] Cons.prems none unfolding get
    by (auto simp: f_def e bt_ok_insert split: option.splits if_splits)
qed simp

lemma prune_changes:
  fixes now :: system_time
  defines "f \<equiv> \<lambda>(c, timeout, n) s.
    if timeout < now then s
    else s\<lparr>cs_submitted_change_set := bt_insert c (timeout, n) (cs_submitted_change_set s)\<rparr>"
  assumes "distinct (map fst m)"
  shows "fold f m s = s\<lparr>cs_submitted_change_set := cs_submitted_change_set (fold f m s)\<rparr>
    \<and> bt_get (cs_submitted_change_set (fold f m s)) c = (case bt_get m c of
        Some (timeout, n) \<Rightarrow> if timeout < now then bt_get (cs_submitted_change_set s) c else Some (timeout, n)
      | None \<Rightarrow> bt_get (cs_submitted_change_set s) c)
    \<and> (bt_ok (cs_submitted_change_set s) \<longrightarrow> bt_ok (cs_submitted_change_set (fold f m s)))"
  using assms(2)
proof (induction m arbitrary: s)
  case (Cons e m)
  obtain c' timeout n where e: "e = (c', timeout, n)" by (cases e)
  have none: "bt_get m c' = None" using Cons.prems by (simp add: e bt_get_def map_of_eq_None_iff)
  have get: "bt_get (e # m) c = (if c = c' then Some (timeout, n) else bt_get m c)" by (simp add: bt_get_def e)
  show ?case
    using Cons.IH [of "f e s"] Cons.prems none unfolding get
    by (auto simp: f_def e bt_ok_insert split: option.splits if_splits)
qed simp

definition maps_ok :: "client_state \<Rightarrow> bool" where
  "maps_ok s \<longleftrightarrow> bt_ok (cs_unspent_set s) \<and> bt_ok (cs_submitted_spend_set s) \<and> bt_ok (cs_submitted_change_set s) \<and> bt_ok (cs_spent_set s)"

lemma prune_timeouts_spec:
  assumes "maps_ok s"
  shows "prune_timeouts now s = s\<lparr>cs_unspent_set := cs_unspent_set (prune_timeouts now s),
        cs_submitted_spend_set := cs_submitted_spend_set (prune_timeouts now s),
        cs_submitted_change_set := cs_submitted_change_set (prune_timeouts now s)\<rparr>
    \<and> bt_get (cs_unspent_set (prune_timeouts now s)) c = (case bt_get (cs_submitted_spend_set s) c of
        Some (timeout, n) \<Rightarrow> if timeout < now \<and> bt_get (cs_spent_set s) c = None then Some n else bt_get (cs_unspent_set s) c
      | None \<Rightarrow> bt_get (cs_unspent_set s) c)
    \<and> bt_get (cs_submitted_spend_set (prune_timeouts now s)) c = (case bt_get (cs_submitted_spend_set s) c of
        Some (timeout, n) \<Rightarrow> if timeout < now then None else Some (timeout, n) | None \<Rightarrow> None)
    \<and> bt_get (cs_submitted_change_set (prune_timeouts now s)) c = (case bt_get (cs_submitted_change_set s) c of
        Some (timeout, n) \<Rightarrow> if timeout < now then None else Some (timeout, n) | None \<Rightarrow> None)
    \<and> maps_ok (prune_timeouts now s)"
proof -
  define s0 where "s0 = s\<lparr>cs_submitted_spend_set := [], cs_submitted_change_set := []\<rparr>"
  define s1 where "s1 = fold (\<lambda>(c, timeout, n) s.
    if timeout < now then
      (if bt_get (cs_spent_set s) c \<noteq> None then s else s\<lparr>cs_unspent_set := bt_insert c n (cs_unspent_set s)\<rparr>)
    else s\<lparr>cs_submitted_spend_set := bt_insert c (timeout, n) (cs_submitted_spend_set s)\<rparr>) (cs_submitted_spend_set s) s0"
  define s2 where "s2 = fold (\<lambda>(c, timeout, n) s.
    if timeout < now then s else s\<lparr>cs_submitted_change_set := bt_insert c (timeout, n) (cs_submitted_change_set s)\<rparr>) (cs_submitted_change_set s) s1"
  have p: "prune_timeouts now s = s2" by (simp add: prune_timeouts_def Let_def s2_def s1_def s0_def)
  have d: "distinct (map fst (cs_submitted_spend_set s))" "distinct (map fst (cs_submitted_change_set s))"
    using assms bt_ok_distinct by (auto simp: maps_ok_def)
  note a = prune_spends [OF d(1), of now s0, folded s1_def] and b = prune_changes [OF d(2), of now s1, folded s2_def]
  have r1: "s1 = s0\<lparr>cs_unspent_set := cs_unspent_set s1, cs_submitted_spend_set := cs_submitted_spend_set s1\<rparr>" using a by blast
  have r2: "s2 = s1\<lparr>cs_submitted_change_set := cs_submitted_change_set s2\<rparr>" using b by blast
  have s1: "cs_submitted_change_set s1 = []" "cs_spent_set s1 = cs_spent_set s" by (subst r1, simp add: s0_def)+
  have s2: "cs_unspent_set s2 = cs_unspent_set s1" "cs_submitted_spend_set s2 = cs_submitted_spend_set s1" "cs_spent_set s2 = cs_spent_set s1"
    by (subst r2, simp)+
  have "s2 = s\<lparr>cs_unspent_set := cs_unspent_set s2, cs_submitted_spend_set := cs_submitted_spend_set s2,
      cs_submitted_change_set := cs_submitted_change_set s2\<rparr>"
    unfolding s2 by (subst r2, subst r1) (simp add: s0_def)
  moreover have s0: "cs_unspent_set s0 = cs_unspent_set s" "cs_submitted_spend_set s0 = []" "cs_spent_set s0 = cs_spent_set s"
    by (simp_all add: s0_def)
  ultimately show ?thesis
    unfolding p s2 using a [of c, unfolded s0 bt_get_Nil] b [of c, unfolded s1 bt_get_Nil] assms
    by (simp add: maps_ok_def s2 s1)
qed

section \<open>The steps of a wallet\<close>

text \<open>Any compact block may come; a panic ends the program.\<close>

inductive client_step :: "crypto \<Rightarrow> client_state \<Rightarrow> client_state \<Rightarrow> bool" for C where
  step_spend: "notes_to_spend C now g amount d source s = (r, s') \<Longrightarrow> client_step C s s'"
| step_change: "client_step C s (register_change C now n s)"
| step_prune: "client_step C s (prune_timeouts now s)"
| step_scan: "scan_block C cb s = Inr s' \<Longrightarrow> client_step C s s'"
| step_assets: "client_step C s (s\<lparr>cs_asset_cache := cache_extend ds (cs_asset_cache s)\<rparr>)"
| step_address: "new_address C label (cs_wallet s) = Inr (r, w) \<Longrightarrow> client_step C s (s\<lparr>cs_wallet := w\<rparr>)"
| step_params: "client_step C s (s\<lparr>cs_chain_params := params\<rparr>)"

inductive_cases client_stepE: "client_step C s s'"

definition sets_ok :: "client_state \<Rightarrow> bool" where
  "sets_ok s \<longleftrightarrow> maps_ok s
     \<and> dom (bt_get (cs_unspent_set s)) \<inter> dom (bt_get (cs_submitted_spend_set s)) = {}
     \<and> dom (bt_get (cs_unspent_set s)) \<inter> dom (bt_get (cs_spent_set s)) = {}
     \<and> dom (bt_get (cs_submitted_spend_set s)) \<inter> dom (bt_get (cs_spent_set s)) = {}
     \<and> dom (bt_get (cs_unspent_set s)) \<union> dom (bt_get (cs_submitted_spend_set s)) \<union> dom (bt_get (cs_spent_set s))
         \<subseteq> set (appends (cs_nct s))
     \<and> ran (bt_get (cs_nullifier_map s)) \<subseteq> set (appends (cs_nct s))"

lemma sets_okD:
  assumes "sets_ok s"
  shows "dom (bt_get (cs_unspent_set s)) \<inter> dom (bt_get (cs_submitted_spend_set s)) = {}"
    and "dom (bt_get (cs_unspent_set s)) \<inter> dom (bt_get (cs_spent_set s)) = {}"
    and "dom (bt_get (cs_submitted_spend_set s)) \<inter> dom (bt_get (cs_spent_set s)) = {}"
    and "dom (bt_get (cs_unspent_set s)) \<union> dom (bt_get (cs_submitted_spend_set s)) \<union> dom (bt_get (cs_spent_set s))
      \<subseteq> set (appends (cs_nct s))"
  using assms by (simp_all add: sets_ok_def)

text \<open>
  An operation appends to the tree; if no commitment is twice in the tree afterwards, it keeps the
  invariant, and what is spent stays spent.
\<close>

definition keeps :: "client_state \<Rightarrow> client_state \<Rightarrow> bool" where
  "keeps s s' \<longleftrightarrow> prefix (appends (cs_nct s)) (appends (cs_nct s'))
     \<and> (sets_ok s \<longrightarrow> distinct (appends (cs_nct s')) \<longrightarrow>
          sets_ok s' \<and> dom (bt_get (cs_spent_set s)) \<subseteq> dom (bt_get (cs_spent_set s')))"

lemma keeps_trans: "keeps s s' \<Longrightarrow> keeps s' s'' \<Longrightarrow> keeps s s''"
  unfolding keeps_def by (metis distinct_append order_trans prefixE prefix_order.order_trans)

lemma keeps_refl: "keeps s s"
  by (simp add: keeps_def)

lemma keepsI:
  "appends (cs_nct s') = appends (cs_nct s) \<Longrightarrow>
     (sets_ok s \<Longrightarrow> sets_ok s' \<and> dom (bt_get (cs_spent_set s)) \<subseteq> dom (bt_get (cs_spent_set s'))) \<Longrightarrow> keeps s s'"
  by (simp add: keeps_def)

lemma register_spend_keeps:
  assumes "register_spend C now n s = Inr s'"
  shows "keeps s s'"
proof -
  from assms obtain n' where n': "note_commit C n \<in> dom (bt_get (cs_unspent_set s))"
    and s': "s' = s\<lparr>cs_unspent_set := bt_remove (note_commit C n) (cs_unspent_set s),
      cs_submitted_spend_set := bt_insert (note_commit C n) (now + SUBMITTED_TRANSACTION_TIMEOUT, n') (cs_submitted_spend_set s)\<rparr>"
    by (auto simp: register_spend_def Let_def result_simps)
  have "maps_ok s \<Longrightarrow> maps_ok s'" by (simp add: s' maps_ok_def bt_ok_insert bt_ok_remove)
  then show ?thesis using n' by (auto simp: keeps_def sets_ok_def s')
qed

lemma foldR_keeps:
  "(\<And>x s s'. f x s = Inr s' \<Longrightarrow> keeps s s') \<Longrightarrow> foldR f xs s = Inr s' \<Longrightarrow> keeps s s'"
  by (induction xs arbitrary: s) (auto simp: result_simps keeps_refl, blast intro: keeps_trans)

lemma notes_to_spend_keeps:
  assumes "notes_to_spend C now g amount d source s = (r, s')"
  shows "keeps s s'"
proof -
  from assms have "s' = s \<or> (\<exists>drawn. foldR (register_spend C now) drawn s = Inr s')"
    unfolding notes_to_spend_candidates bindS_def
    by (auto simp: case_prod_beta Let_def split: sum.splits if_splits)
  moreover have "foldR (register_spend C now) drawn s = Inr s' \<Longrightarrow> keeps s s'" for drawn
    by (rule foldR_keeps) (rule register_spend_keeps)
  ultimately show ?thesis using keeps_refl by blast
qed

lemma disjoint_move:
  "U \<inter> S = {} \<Longrightarrow> U \<inter> P = {} \<Longrightarrow> S \<inter> P = {} \<Longrightarrow> U \<union> S \<union> P \<subseteq> T \<Longrightarrow> E \<inter> L = {} \<Longrightarrow> E \<union> L \<subseteq> S \<Longrightarrow>
     U' \<subseteq> U \<union> E \<Longrightarrow> S' \<subseteq> L \<Longrightarrow> U' \<inter> S' = {} \<and> U' \<inter> P = {} \<and> S' \<inter> P = {} \<and> U' \<union> S' \<union> P \<subseteq> T"
proof -
  assume a: "U \<inter> S = {}" "U \<inter> P = {}" "S \<inter> P = {}" "U \<union> S \<union> P \<subseteq> T" "E \<inter> L = {}" "E \<union> L \<subseteq> S" "U' \<subseteq> U \<union> E" "S' \<subseteq> L"
  have U: "x \<in> U' \<Longrightarrow> x \<in> U \<or> x \<in> E" and S: "x \<in> S' \<Longrightarrow> x \<in> L" and EL: "x \<in> E \<Longrightarrow> x \<in> S" "x \<in> L \<Longrightarrow> x \<in> S" for x
    using a(6,7,8) by auto
  have "U' \<inter> S' = {}" using U S EL a(1,5) by fast
  moreover have "U' \<inter> P = {}" using U EL a(2,3) by fast
  moreover have "S' \<inter> P = {}" using S EL a(3) by fast
  moreover have "U' \<union> S' \<union> P \<subseteq> T" using U S EL a(4) by fast
  ultimately show ?thesis by simp
qed

lemma disjoint_remove:
  "U \<inter> S = {} \<Longrightarrow> U \<inter> P = {} \<Longrightarrow> S \<inter> P = {} \<Longrightarrow> U \<union> S \<union> P \<subseteq> T \<Longrightarrow> c \<in> T \<Longrightarrow> P' = P \<or> P' = insert c P \<Longrightarrow>
     (U - {c}) \<inter> (S - {c}) = {} \<and> (U - {c}) \<inter> P' = {} \<and> (S - {c}) \<inter> P' = {} \<and> (U - {c}) \<union> (S - {c}) \<union> P' \<subseteq> T"
  by (elim disjE) auto

lemma prune_nct: "cs_nct (prune_timeouts now s) = cs_nct s"
  unfolding prune_timeouts_def Let_def
  by (rule fold_keeps [where P = "\<lambda>t. cs_nct t = cs_nct s", OF fold_keeps [where P = "\<lambda>t. cs_nct t = cs_nct s"]]) auto

lemma prune_timeouts_keeps: "keeps s (prune_timeouts now s)"
proof (rule keepsI)
  show "appends (cs_nct (prune_timeouts now s)) = appends (cs_nct s)" by (simp add: prune_nct)
next
  assume ok: "sets_ok s"
  then have m: "maps_ok s" by (simp add: sets_ok_def)
  let ?s = "prune_timeouts now s"
  have r: "?s = s\<lparr>cs_unspent_set := cs_unspent_set ?s, cs_submitted_spend_set := cs_submitted_spend_set ?s,
      cs_submitted_change_set := cs_submitted_change_set ?s\<rparr>"
    using prune_timeouts_spec [OF m] by blast
  have f: "cs_spent_set ?s = cs_spent_set s" "cs_nct ?s = cs_nct s" "cs_nullifier_map ?s = cs_nullifier_map s" by (subst r, simp)+
  have "bt_get (cs_unspent_set ?s) c = (case bt_get (cs_submitted_spend_set s) c of
        Some (timeout, n) \<Rightarrow> if timeout < now \<and> bt_get (cs_spent_set s) c = None then Some n else bt_get (cs_unspent_set s) c
      | None \<Rightarrow> bt_get (cs_unspent_set s) c)"
    and "bt_get (cs_submitted_spend_set ?s) c = (case bt_get (cs_submitted_spend_set s) c of
        Some (timeout, n) \<Rightarrow> if timeout < now then None else Some (timeout, n) | None \<Rightarrow> None)" for c
    using prune_timeouts_spec [OF m, of now c] by blast+
  moreover define expired live where
    "expired = {c. \<exists>timeout n. bt_get (cs_submitted_spend_set s) c = Some (timeout, n) \<and> timeout < now}"
    and "live = {c. \<exists>timeout n. bt_get (cs_submitted_spend_set s) c = Some (timeout, n) \<and> \<not> timeout < now}"
  ultimately have d: "dom (bt_get (cs_unspent_set ?s)) \<subseteq> dom (bt_get (cs_unspent_set s)) \<union> expired"
    "dom (bt_get (cs_submitted_spend_set ?s)) \<subseteq> live"
    by (auto split: option.splits if_splits)
  have el: "expired \<inter> live = {}" "expired \<union> live \<subseteq> dom (bt_get (cs_submitted_spend_set s))"
    by (auto simp: expired_def live_def)
  have "maps_ok ?s" using prune_timeouts_spec [OF m] by blast
  with disjoint_move [OF sets_okD [OF ok] el d] show "sets_ok ?s \<and> dom (bt_get (cs_spent_set s)) \<subseteq> dom (bt_get (cs_spent_set ?s))"
    using ok by (simp add: sets_ok_def f)
qed

lemma scan_output_keeps:
  assumes "scan_output C body s = Inr s'"
  shows "keeps s s'"
proof (cases "note_decrypt C (ob_encrypted_note body) (wallet_ivk (cs_wallet s)) (ob_ephemeral_key body)")
  case (Inl e)
  then have s': "s' = s\<lparr>cs_nct := cs_nct s @ [NctAppend (ob_note_commitment body)]\<rparr>" using assms by (simp add: scan_output_def)
  show ?thesis by (auto simp: s' keeps_def sets_ok_def maps_ok_def)
next
  case (Inr n)
  then obtain nf where s': "s' = s\<lparr>cs_nct := cs_nct s @ [NctAppend (ob_note_commitment body), NctWitness],
      cs_nullifier_map := bt_insert nf (ob_note_commitment body) (cs_nullifier_map s),
      cs_submitted_change_set := bt_remove (ob_note_commitment body) (cs_submitted_change_set s),
      cs_unspent_set := bt_insert (ob_note_commitment body) n (cs_unspent_set s)\<rparr>"
    using assms by (auto simp: scan_output_def Let_def result_simps)
  have "maps_ok s \<Longrightarrow> maps_ok s'" by (simp add: s' maps_ok_def bt_ok_insert bt_ok_remove)
  moreover have "ran (bt_get (cs_nullifier_map s')) \<subseteq> insert (ob_note_commitment body) (ran (bt_get (cs_nullifier_map s)))"
    by (auto simp: s' ran_def split: if_splits)
  ultimately show ?thesis by (auto simp: keeps_def sets_ok_def s' simp del: fun_upd_apply)
qed

text \<open>A note moves to the spent ones from one of the other sets.\<close>

lemma scan_nullifier_keeps: "keeps s (scan_nullifier nf s)"
proof (cases "bt_get (cs_nullifier_map s) nf")
  case (Some c)
  let ?s = "scan_nullifier nf s"
  have m: "maps_ok s \<Longrightarrow> maps_ok ?s"
    by (auto simp: scan_nullifier_def maps_ok_def bt_ok_insert bt_ok_remove split: option.splits prod.splits)
  have d: "dom (bt_get (cs_unspent_set ?s)) = dom (bt_get (cs_unspent_set s)) - {c}"
    "dom (bt_get (cs_submitted_spend_set ?s)) = dom (bt_get (cs_submitted_spend_set s)) - {c}"
    "dom (bt_get (cs_spent_set ?s)) = dom (bt_get (cs_spent_set s)) \<or> dom (bt_get (cs_spent_set ?s)) = insert c (dom (bt_get (cs_spent_set s)))"
    "appends (cs_nct ?s) = appends (cs_nct s)" "cs_nullifier_map ?s = cs_nullifier_map s" if "sets_ok s"
    using that Some by (auto simp: scan_nullifier_def sets_ok_def split: option.splits prod.splits)
  have "c \<in> ran (bt_get (cs_nullifier_map s))" using Some by (auto simp: ran_def)
  note c = this
  have "appends (cs_nct ?s) = appends (cs_nct s)" using scan_nullifiers_frame(1) [of "[nf]" s] by simp
  then show ?thesis
  proof (rule keepsI, intro conjI)
    assume ok: "sets_ok s"
    show "dom (bt_get (cs_spent_set s)) \<subseteq> dom (bt_get (cs_spent_set ?s))" using d(3) [OF ok] by auto
    have ca: "c \<in> set (appends (cs_nct s))" using ok c by (auto simp: sets_ok_def)
    show "sets_ok ?s"
      using disjoint_remove [OF sets_okD [OF ok] ca d(3) [OF ok]] m ok unfolding sets_ok_def d(1,2,4,5) [OF ok] by simp
  qed
qed (simp add: scan_nullifier_def keeps_refl)

section \<open>Reachable wallets\<close>

lemma scan_block_keeps:
  assumes "scan_block C cb s = Inr s'"
  shows "keeps s s'"
proof -
  from assms obtain s1 where s1: "foldR (scan_output C) (cb_outputs cb) s = Inr s1"
    and s': "s' = (fold scan_nullifier (cb_nullifiers cb) s1)\<lparr>cs_last_block_height := Some (cb_height cb)\<rparr>"
    by (auto simp: scan_block_def result_simps)
  have "keeps s2 (fold scan_nullifier nfs s2)" for nfs s2
    by (induction nfs arbitrary: s2) (auto simp: keeps_refl intro: keeps_trans [OF scan_nullifier_keeps])
  moreover have "keeps s2 (s2\<lparr>cs_last_block_height := h\<rparr>)" for s2 h by (simp add: keeps_def sets_ok_def maps_ok_def)
  moreover have "keeps s s1" by (rule foldR_keeps [OF scan_output_keeps s1])
  ultimately show ?thesis unfolding s' using keeps_trans by blast
qed

lemma client_step_keeps: "client_step C s s' \<Longrightarrow> keeps s s'"
proof (induction rule: client_step.induct)
  case (step_change s now n)
  show ?case by (simp add: register_change_def keeps_def sets_ok_def maps_ok_def bt_ok_insert)
qed (auto simp: notes_to_spend_keeps prune_timeouts_keeps scan_block_keeps, simp_all add: keeps_def sets_ok_def maps_ok_def)

lemma client_steps_keep: "(client_step C)\<^sup>*\<^sup>* s s' \<Longrightarrow> keeps s s'"
  by (induction rule: rtranclp_induct) (auto simp: keeps_refl intro: keeps_trans client_step_keeps)

text \<open>
  C8: the life of a note.  Take any state that a new wallet reaches through any sequence of its
  operations, and any state it reaches from there, on a chain that has brought no commitment twice (the
  node does not check this, and the wallet does not either).  Then a commitment is in at most one of the
  unspent, submitted and spent sets, and commitments in them are in the wallet's tree.  A note that
  was seen spent on the chain stays spent, and it is not offered for spending again.
\<close>

theorem wallet_sets_disjoint:
  assumes "(client_step C)\<^sup>*\<^sup>* (client_state_new wl) s" and "(client_step C)\<^sup>*\<^sup>* s s'"
    and new: "distinct (appends (cs_nct s'))"
  shows "dom (bt_get (cs_unspent_set s)) \<inter> dom (bt_get (cs_submitted_spend_set s)) = {}
    \<and> (dom (bt_get (cs_unspent_set s)) \<union> dom (bt_get (cs_submitted_spend_set s))) \<inter> dom (bt_get (cs_spent_set s)) = {}
    \<and> dom (bt_get (cs_unspent_set s)) \<union> dom (bt_get (cs_submitted_spend_set s)) \<union> dom (bt_get (cs_spent_set s)) \<subseteq> set (appends (cs_nct s))
    \<and> (\<forall>c. bt_get (cs_spent_set s) c \<noteq> None \<longrightarrow>
         bt_get (cs_spent_set s') c \<noteq> None \<and> bt_get (cs_unspent_set s') c = None \<and> bt_get (cs_submitted_spend_set s') c = None)"
proof -
  have "sets_ok (client_state_new wl)" by (simp add: sets_ok_def maps_ok_def client_state_new_def)
  moreover have "distinct (appends (cs_nct s))"
    using client_steps_keep [OF assms(2)] new by (auto simp: keeps_def prefix_def)
  ultimately have ok: "sets_ok s" using client_steps_keep [OF assms(1)] by (simp add: keeps_def)
  then have ok': "sets_ok s'" and sub: "dom (bt_get (cs_spent_set s)) \<subseteq> dom (bt_get (cs_spent_set s'))"
    using client_steps_keep [OF assms(2)] new by (simp_all add: keeps_def)
  have "bt_get (cs_unspent_set s') c = None \<and> bt_get (cs_submitted_spend_set s') c = None" if "bt_get (cs_spent_set s') c \<noteq> None" for c
    using sets_okD(2,3) [OF ok'] that unfolding disjoint_iff domIff by blast
  moreover have "bt_get (cs_spent_set s') c \<noteq> None" if "bt_get (cs_spent_set s) c \<noteq> None" for c
    using sub that by (auto simp: subset_iff domIff)
  ultimately show ?thesis using sets_okD [OF ok] by (simp add: Int_Un_distrib2)
qed

text \<open>
  A commitment that comes again: the scan does not look at the spent set, so a note that was spent is
  offered for spending again.
\<close>

lemma resent_note_unspent_again:
  assumes "nct_sync_ok C" and "length (appends (cs_nct s)) < 2 ^ MERKLE_DEPTH" and "try_decrypt C s body = Inr n"
    and "bt_get (cs_spent_set s) (ob_note_commitment body) \<noteq> None"
  shows "\<exists>s'. scan_output C body s = Inr s' \<and> bt_get (cs_unspent_set s') (ob_note_commitment body) = Some n
    \<and> bt_get (cs_spent_set s') (ob_note_commitment body) \<noteq> None"
  by (rule scan_output_cases [OF assms(1,2), of body]) (use assms(3,4) in auto)

end
