(* ===== verification/Wallet_Store.thy ===== *)
theory Wallet_Store
  imports Wallet Tx_Proto
begin

text \<open>
  The wallet file: the conversions of \<open>Wallet\<close> and \<open>ClientState\<close> to and from the structures that are
  serialised (the modules \<open>serde_helpers\<close> of \<open>wallet/src/wallet.rs\<close> and \<open>wallet/src/state.rs\<close>).
  The crates \<open>hex\<close> and \<open>bincode\<close> are parameters.
\<close>

record codecs =
  hex_encode :: "bytes \<Rightarrow> string"
  hex_decode :: "string \<Rightarrow> bytes option"
  bincode_serialize :: "nct \<Rightarrow> bytes"
  bincode_deserialize :: "bytes \<Rightarrow> nct option"

definition codecs_ok :: "codecs \<Rightarrow> bool" where
  "codecs_ok K \<longleftrightarrow> (\<forall>b. hex_decode K (hex_encode K b) = Some b) \<and> (\<forall>t. bincode_deserialize K (bincode_serialize K t) = Some t)"

section \<open>Keys\<close>

record wallet_helper =
  wh_address_labels :: "string list"
  wh_spend_seed :: bytes

definition wallet_of_helper :: "crypto \<Rightarrow> wallet_helper \<Rightarrow> wallet result" where
  "wallet_of_helper C h =
     bindR (spend_key_new C (wh_spend_seed h)) (\<lambda>sk.
     Inr \<lparr>wl_address_labels = wh_address_labels h, wl_spend_key = sk\<rparr>)"

definition wallet_to_helper :: "wallet \<Rightarrow> wallet_helper" where
  "wallet_to_helper w = \<lparr>wh_address_labels = wl_address_labels w, wh_spend_seed = sk_seed (wl_spend_key w)\<rparr>"

section \<open>The client state\<close>

record client_state_helper =
  ch_wallet :: wallet_helper
  ch_last_block_height :: "u64 option"
  ch_note_commitment_tree :: bytes
  ch_nullifier_map :: "(string \<times> string) list"
  ch_unspent_set :: "(string \<times> string) list"
  ch_submitted_spend_set :: "(string \<times> system_time \<times> string) list"
  ch_submitted_change_set :: "(string \<times> system_time \<times> string) list"
  ch_spent_set :: "(string \<times> string) list"
  ch_transactions :: "(string \<times> string) list"
  ch_asset_registry :: "(asset_id \<times> string) list"
  ch_chain_params :: "chain_params option"

definition entry_to_text :: "crypto \<Rightarrow> codecs \<Rightarrow> note_commitment \<times> note_t \<Rightarrow> string \<times> string" where
  "entry_to_text C K = (\<lambda>(c, n). (hex_encode K (note_commitment_to_bytes C c), hex_encode K (note_to_bytes C n)))"

definition timed_entry_to_text :: "crypto \<Rightarrow> codecs \<Rightarrow> note_commitment \<times> system_time \<times> note_t \<Rightarrow> string \<times> system_time \<times> string" where
  "timed_entry_to_text C K =
     (\<lambda>(c, timeout, n). (hex_encode K (note_commitment_to_bytes C c), timeout, hex_encode K (note_to_bytes C n)))"

definition client_state_to_helper :: "crypto \<Rightarrow> codecs \<Rightarrow> client_state \<Rightarrow> client_state_helper" where
  "client_state_to_helper C K s =
     \<lparr>ch_wallet = wallet_to_helper (cs_wallet s),
      ch_last_block_height = cs_last_block_height s,
      ch_note_commitment_tree = bincode_serialize K (cs_nct s),
      ch_nullifier_map = map (\<lambda>(nf, c). (hex_encode K (nullifier_to_bytes C nf), hex_encode K (note_commitment_to_bytes C c)))
        (cs_nullifier_map s),
      ch_unspent_set = map (entry_to_text C K) (cs_unspent_set s),
      ch_submitted_spend_set = map (timed_entry_to_text C K) (cs_submitted_spend_set s),
      ch_submitted_change_set = map (timed_entry_to_text C K) (cs_submitted_change_set s),
      ch_spent_set = map (entry_to_text C K) (cs_spent_set s),
      ch_transactions = [],
      ch_asset_registry = cache_to_entries (cs_asset_cache s),
      ch_chain_params = cs_chain_params s\<rparr>"

text \<open>\<open>hex::decode(..)?.as_slice().try_into()?\<close>\<close>

definition from_hex :: "codecs \<Rightarrow> (bytes \<Rightarrow> 'a result) \<Rightarrow> string \<Rightarrow> 'a result" where
  "from_hex K f x = bindR (ok_or (Err ''FromHexError'') (hex_decode K x)) f"

definition read_entry :: "crypto \<Rightarrow> codecs \<Rightarrow> string \<times> string \<Rightarrow> (note_commitment, note_t) btree \<Rightarrow> (note_commitment, note_t) btree result" where
  "read_entry C K = (\<lambda>(c, n) m.
     bindR (from_hex K (note_commitment_of_bytes C) c) (\<lambda>c.
     bindR (from_hex K (note_of_bytes C) n) (\<lambda>n.
     Inr (bt_insert c n m))))"

definition read_timed_entry ::
  "crypto \<Rightarrow> codecs \<Rightarrow> string \<times> system_time \<times> string \<Rightarrow> (note_commitment, system_time \<times> note_t) btree
     \<Rightarrow> (note_commitment, system_time \<times> note_t) btree result" where
  "read_timed_entry C K = (\<lambda>(c, timeout, n) m.
     bindR (from_hex K (note_commitment_of_bytes C) c) (\<lambda>c.
     bindR (from_hex K (note_of_bytes C) n) (\<lambda>n.
     Inr (bt_insert c (timeout, n) m))))"

definition read_nullifier_entry ::
  "crypto \<Rightarrow> codecs \<Rightarrow> string \<times> string \<Rightarrow> (nullifier, note_commitment) btree \<Rightarrow> (nullifier, note_commitment) btree result" where
  "read_nullifier_entry C K = (\<lambda>(nf, c) m.
     bindR (from_hex K (nullifier_of_slice C) nf) (\<lambda>nf.
     bindR (from_hex K (note_commitment_of_bytes C) c) (\<lambda>c.
     Inr (bt_insert nf c m))))"

text \<open>The wallet is converted when the structure is read, before the maps.\<close>

definition client_state_of_helper :: "crypto \<Rightarrow> codecs \<Rightarrow> client_state_helper \<Rightarrow> client_state result" where
  "client_state_of_helper C K h =
     bindR (wallet_of_helper C (ch_wallet h)) (\<lambda>wallet.
     bindR (foldR (read_nullifier_entry C K) (ch_nullifier_map h) []) (\<lambda>nullifier_map.
     bindR (foldR (read_entry C K) (ch_unspent_set h) []) (\<lambda>unspent_set.
     bindR (foldR (read_timed_entry C K) (ch_submitted_spend_set h) []) (\<lambda>submitted_spend_set.
     bindR (foldR (read_timed_entry C K) (ch_submitted_change_set h) []) (\<lambda>submitted_change_set.
     bindR (foldR (read_entry C K) (ch_spent_set h) []) (\<lambda>spent_set.
     let asset_registry = fold (\<lambda>(id, d). bt_insert id d) (ch_asset_registry h) [] in
     bindR (ok_or (Err ''bincode'') (bincode_deserialize K (ch_note_commitment_tree h))) (\<lambda>nct.
     bindR (cache_of_entries C asset_registry) (\<lambda>asset_cache.
     Inr \<lparr>cs_last_block_height = ch_last_block_height h, cs_nct = nct, cs_nullifier_map = nullifier_map,
          cs_unspent_set = unspent_set, cs_submitted_spend_set = submitted_spend_set,
          cs_submitted_change_set = submitted_change_set, cs_spent_set = spent_set, cs_transactions = [],
          cs_asset_cache = asset_cache, cs_wallet = wallet, cs_chain_params = ch_chain_params h\<rparr>))))))))"

section \<open>The round trip\<close>

text \<open>What the types of the wallet ensure: maps in order, notes and keys as their constructors make them.\<close>

definition storable :: "crypto \<Rightarrow> client_state \<Rightarrow> bool" where
  "storable C s \<longleftrightarrow>
     bt_ok (cs_nullifier_map s) \<and> bt_ok (cs_unspent_set s) \<and> bt_ok (cs_submitted_spend_set s)
     \<and> bt_ok (cs_submitted_change_set s) \<and> bt_ok (cs_spent_set s) \<and> bt_ok (cs_asset_cache s)
     \<and> (\<forall>e \<in> set (cs_unspent_set s) \<union> set (cs_spent_set s). note_ok C (snd e))
     \<and> (\<forall>e \<in> set (cs_submitted_spend_set s) \<union> set (cs_submitted_change_set s). note_ok C (snd (snd e)))
     \<and> (\<forall>e \<in> set (cs_asset_cache s). fst e = dn_id (snd e) \<and> parse_denom C (dn_base_denom (snd e)) = Inr (Some (snd e)))
     \<and> spend_key_new C (sk_seed (wl_spend_key (cs_wallet s))) = Inr (wl_spend_key (cs_wallet s))"

text \<open>Reading entries one by one is inserting what they stand for.\<close>

lemma foldR_read:
  assumes "\<forall>e \<in> set m. \<forall>acc. read (write e) acc = Inr (bt_insert (fst e) (snd e) acc)" and "bt_ok m"
  shows "foldR read (map write m) [] = Inr m"
proof -
  have "foldR read (map write m) acc = Inr (fold (\<lambda>(k, v). bt_insert k v) m acc)" for acc
    using assms(1) by (induction m arbitrary: acc) (auto simp: case_prod_beta)
  then show ?thesis by (simp add: bt_of_entries [OF assms(2)])
qed

lemma client_state_stored:
  assumes K: "codecs_ok K" and e: "encoding_ok C" and s: "storable C s"
  shows "client_state_of_helper C K (client_state_to_helper C K s) = Inr (s\<lparr>cs_transactions := []\<rparr>)"
proof -
  have hex: "from_hex K f (hex_encode K b) = f b" for f :: "bytes \<Rightarrow> 'a result" and b using K by (simp add: from_hex_def codecs_ok_def)
  note rt = byte_fields_roundtrip [OF e] note_bytes_roundtrip [OF e]
  have "foldR (read_entry C K) (map (entry_to_text C K) m) [] = Inr m" if "bt_ok m" "\<forall>e \<in> set m. note_ok C (snd e)" for m
    using that rt by (intro foldR_read) (auto simp: read_entry_def entry_to_text_def hex)
  moreover have "foldR (read_timed_entry C K) (map (timed_entry_to_text C K) m) [] = Inr m"
    if "bt_ok m" "\<forall>e \<in> set m. note_ok C (snd (snd e))" for m
    using that rt by (intro foldR_read) (auto simp: read_timed_entry_def timed_entry_to_text_def hex)
  moreover have "foldR (read_nullifier_entry C K) (map (\<lambda>(nf, c). (hex_encode K (nullifier_to_bytes C nf),
      hex_encode K (note_commitment_to_bytes C c))) (cs_nullifier_map s)) [] = Inr (cs_nullifier_map s)"
    using s rt by (intro foldR_read) (auto simp: read_nullifier_entry_def storable_def hex)
  moreover have "wallet_of_helper C (wallet_to_helper (cs_wallet s)) = Inr (cs_wallet s)"
    using s by (simp add: wallet_of_helper_def wallet_to_helper_def storable_def)
  moreover have "fold (\<lambda>(id, d). bt_insert id d) (cache_to_entries (cs_asset_cache s)) [] = cache_to_entries (cs_asset_cache s)"
    by (rule bt_of_entries) (use s in \<open>simp add: storable_def bt_ok_def cache_to_entries_def comp_def case_prod_beta\<close>)
  moreover have "cache_of_entries C (cache_to_entries (cs_asset_cache s)) = Inr (cs_asset_cache s)"
    unfolding cache_of_entries_def cache_to_entries_def
    by (rule foldR_read) (use s in \<open>auto simp: storable_def\<close>)
  ultimately show ?thesis
    using s K by (simp add: client_state_of_helper_def client_state_to_helper_def storable_def codecs_ok_def)
qed

end
