(* ===== verification/Wallet_Faults.thy ===== *)
theory Wallet_Faults
  imports Wallet_Sync
begin

text \<open>
  Where the wallet does not do what it means to: notes that do not fit their output, and payments of
  several amounts of one denomination.
\<close>

section \<open>Notes that do not fit\<close>

lemma mapR_panics:
  assumes "x \<in> set xs" and "\<exists>e. f x = Inl e" and "\<forall>x e. f x = Inl e \<longrightarrow> (\<exists>m. e = Panic m)"
  shows "\<exists>m. mapR f xs = Inl (Panic m)"
  using assms(1)
proof (induction xs)
  case (Cons y xs)
  show ?case
  proof (cases "f y")
    case (Inl e)
    then show ?thesis using assms(3) by auto
  next
    case (Inr z)
    then have "x \<in> set xs" using Cons.prems assms(2) by auto
    then obtain m where "mapR f xs = Inl (Panic m)" using Cons.IH by blast
    then show ?thesis by (simp add: Inr)
  qed
qed simp

lemma unwrapR_panic: "unwrapR m = Inl e \<Longrightarrow> \<exists>x. e = Panic x"
  by (cases m; cases "projl m") auto

text \<open>Listing the notes panics as soon as one of them is not known.\<close>

lemma unspent_notes_panics:
  assumes "u \<in> set (all_unspent s)"
    and "note_denom s (unspent_note_ref u) = None \<or> (\<exists>e. note_index C s (unspent_note_ref u) = Inl e)"
  shows "\<exists>m. unspent_notes C s = Inl (Panic m)"
  unfolding unspent_notes_def all_unspent_def [symmetric]
proof (rule mapR_panics [OF assms(1)])
  let ?f = "\<lambda>n. bindR (ok_or (Panic ''all asset IDs should have denominations stored locally'')
                (bt_get (cs_asset_cache s) (note_asset_id (unspent_note_ref n)))) (\<lambda>d.
       bindR (unwrapR (u64_of_diversifier_index (index_for_diversifier C (ivk_dk (wallet_ivk (cs_wallet s)))
                (nt_diversifier (unspent_note_ref n))))) (\<lambda>i. Inr (i, d, n)))"
  show "\<exists>e. ?f u = Inl e"
  proof (cases "note_denom s (unspent_note_ref u)")
    case None
    then show ?thesis by (simp add: note_denom_def)
  next
    case (Some d)
    then obtain e where "note_index C s (unspent_note_ref u) = Inl e" using assms(2) by auto
    then show ?thesis using Some by (cases e) (simp_all add: note_denom_def note_index_def)
  qed
  show "\<forall>x e. ?f x = Inl e \<longrightarrow> (\<exists>m. e = Panic m)"
    by (auto simp: result_simps dest: unwrapR_panic)
qed

text \<open>
  C14: an output need not carry the note it commits to: the check of a transaction never looks into the
  ciphertext, and \<open>scan_block\<close> stores what it decrypts without comparing it with the commitment.  So anyone
  who knows an address can stop the wallet.  If the note in the ciphertext has another commitment,
  registering it as spent panics; if its asset or its diversifier is unknown to the wallet, listing the
  notes panics, and with it every command that selects notes.
\<close>

theorem malformed_note_panics:
  assumes nct: "nct_sync_ok C" and room: "length (appends (cs_nct w)) < 2 ^ MERKLE_DEPTH"
    and d: "try_decrypt C w body = Inr n"
  shows "\<exists>w'. scan_output C body w = Inr w' \<and> bt_get (cs_unspent_set w') (ob_note_commitment body) = Some n
    \<and> (note_commit C n \<noteq> ob_note_commitment body \<and> bt_get (cs_unspent_set w) (note_commit C n) = None \<longrightarrow>
        (\<exists>m. register_spend C now n w' = Inl (Panic m)))
    \<and> (note_denom w n = None \<or> (\<exists>e. note_index C w n = Inl e) \<longrightarrow>
        (\<exists>m. notes_to_spend C now g amount dn source w' = (Inl (Panic m), w')))"
proof (rule scan_output_cases [OF nct room, of body])
  fix n'
  let ?c = "ob_note_commitment body"
  let ?w = "w\<lparr>cs_nct := cs_nct w @ [NctAppend ?c, NctWitness],
    cs_nullifier_map := bt_insert (new_nullifier C w ?c) ?c (cs_nullifier_map w),
    cs_submitted_change_set := bt_remove ?c (cs_submitted_change_set w),
    cs_unspent_set := bt_insert ?c n' (cs_unspent_set w)\<rparr>"
  assume n': "try_decrypt C w body = Inr n'" and s: "scan_output C body w = Inr ?w"
  have [simp]: "n' = n" using d n' by simp
  have u: "Ready n \<in> set (all_unspent ?w)"
  proof -
    have "(?c, n) \<in> set (bt_insert ?c n m)" for m :: "(note_commitment, note_t) btree" by (induction m) auto
    then show ?thesis by (force simp: all_unspent_def)
  qed
  have "\<exists>m. unspent_notes C ?w = Inl (Panic m)" if "note_denom w n = None \<or> (\<exists>e. note_index C w n = Inl e)"
    by (rule unspent_notes_panics [OF u]) (use that in \<open>simp add: note_denom_def note_index_def\<close>)
  then have "\<exists>m. notes_to_spend C now g amount dn source ?w = (Inl (Panic m), ?w)"
    if "note_denom w n = None \<or> (\<exists>e. note_index C w n = Inl e)"
    using that by (auto simp: notes_to_spend_def unspent_notes_by_denom_and_address_def)
  moreover have "\<exists>m. register_spend C now n ?w = Inl (Panic m)"
    if "note_commit C n \<noteq> ?c" "bt_get (cs_unspent_set w) (note_commit C n) = None"
    using that by (simp add: register_spend_def Let_def)
  ultimately show ?thesis using s by (intro exI [of _ ?w]) auto
qed (use d in simp)

section \<open>Amounts of one denomination\<close>

text \<open>Of two amounts of one asset to be sent, the map keeps the second only.\<close>

lemma send_drops_amount:
  assumes "bt_get (cs_asset_cache s) i = Some d"
  shows "output_values s [\<lparr>val_amount = a, val_asset_id = i\<rparr>, \<lparr>val_amount = b, val_asset_id = i\<rparr>] = Inr [(d, b)]"
  using assms by (simp add: output_values_def)

end
