(* ===== verification/Wallet_Witnesses.thy ===== *)
theory Wallet_Witnesses
  imports Crypto_Witnesses Wire_Witnesses Delivery Wallet_Stake Wallet_Sets Wallet_Store Wallet_Faults
begin

text \<open>
  The properties of the wallet at concrete states: a wallet with one confirmed note, in the instance of
  the cryptography in which all laws hold, and a node whose tree has the note's commitment.
\<close>

section \<open>A wallet\<close>

definition del_denom :: denom where
  "del_denom = \<lparr>dn_id = denom_id ring_crypto ''udelegation_v'', dn_base_denom = ''udelegation_v'',
     dn_units = [\<lparr>ud_exponent = 0, ud_denom = ''udelegation_v''\<rparr>]\<rparr>"

definition pen_denom :: denom where
  "pen_denom = \<lparr>dn_id = denom_id ring_crypto ''upenumbra'', dn_base_denom = ''upenumbra'',
     dn_units = [\<lparr>ud_exponent = 6, ud_denom = ''penumbra''\<rparr>, \<lparr>ud_exponent = 3, ud_denom = ''mpenumbra''\<rparr>,
       \<lparr>ud_exponent = 0, ud_denom = ''upenumbra''\<rparr>]\<rparr>"

definition own_note :: "asset_id \<Rightarrow> note_t" where
  "own_note a = \<lparr>nt_value = \<lparr>val_amount = 30, val_asset_id = a\<rparr>, nt_note_blinding = 9, nt_diversifier = replicate 11 0,
     nt_transmission_key = diversified_public ring_crypto 5 1, nt_transmission_key_s = 5\<rparr>"

definition demo_client :: "denom \<Rightarrow> client_state" where
  "demo_client d =
     \<lparr>cs_last_block_height = Some 7, cs_nct = [NctAppend 39, NctWitness],
      cs_nullifier_map = [(derive_nullifier ring_crypto 4 0 39, 39)], cs_unspent_set = [(39, own_note (dn_id d))],
      cs_submitted_spend_set = [], cs_submitted_change_set = [], cs_spent_set = [], cs_transactions = [],
      cs_asset_cache = bt_insert (dn_id pen_denom) pen_denom (bt_insert (dn_id del_denom) del_denom []),
      cs_wallet = \<lparr>wl_address_labels = [''Default''], wl_spend_key = demo_sk\<rparr>,
      cs_chain_params = Some (default_chain_params\<lparr>chain_id := ''penumbra''\<rparr>)\<rparr>"

lemma own_note_facts [simp]: "note_commit ring_crypto (own_note a) = 39" "note_amount (own_note a) = 30" "note_asset_id (own_note a) = a"
proof -
  have "(9 :: fq) + of_nat 30 = 39" by simp
  then show "note_commit ring_crypto (own_note a) = 39" by (simp add: note_commit_def note_commitment_new_def own_note_def)
qed (simp_all add: note_amount_def note_asset_id_def own_note_def)

lemma denom_ids_differ: "dn_id pen_denom \<noteq> dn_id del_denom"
proof -
  have "fq_number (dn_id pen_denom) = le_nat (ascii ''upenumbra'')" "fq_number (dn_id del_denom) = le_nat (ascii ''udelegation_v'')"
    by (simp_all add: pen_denom_def del_denom_def denom_id_def fq_number_of ascii_def fq_order_def)
  then show ?thesis by (auto simp: ascii_def)
qed

lemma demo_client_sel [simp]:
  "cs_nct (demo_client d) = [NctAppend 39, NctWitness]" "cs_nullifier_map (demo_client d) = [(derive_nullifier ring_crypto 4 0 39, 39)]"
  "cs_unspent_set (demo_client d) = [(39, own_note (dn_id d))]" "cs_submitted_spend_set (demo_client d) = []"
  "cs_submitted_change_set (demo_client d) = []" "wl_address_labels (cs_wallet (demo_client d)) = [''Default'']"
  "wl_spend_key (cs_wallet (demo_client d)) = demo_sk" "cs_last_block_height (demo_client d) = Some 7"
  by (simp_all add: demo_client_def)

lemma demo_cache: "bt_get (cs_asset_cache (demo_client d)) = [dn_id pen_denom \<mapsto> pen_denom, dn_id del_denom \<mapsto> del_denom]"
  using denom_ids_differ by (simp add: demo_client_def fun_upd_twist del: bt_insert.simps)

lemma demo_keys: "fvk_nk demo_fvk = 4" "wallet_fvk (cs_wallet (demo_client d)) = demo_fvk" "wallet_ivk (cs_wallet (demo_client d)) = fvk_ivk demo_fvk"
  by (simp_all add: demo_fvk_def wallet_ivk_def wallet_fvk_def demo_sk_def)

lemma ring_laws: "crypto_laws ring_crypto"
  using ring_group_ok ring_nct_ok ring_rand_ok ring_embed_ok ring_rdsa_ok ring_encoding_ok ring_aead_ok ring_ff1_ok
  by (simp add: crypto_laws_def)

lemma ring_nct_sync: "nct_sync_ok ring_crypto"
proof -
  have "sum_root t = sum_root (map NctAppend (appends t))" for t
    unfolding sum_root_def appends_def [symmetric]
    by (simp add: map_filter_def comp_def appends_def)
  then show ?thesis by (simp add: nct_sync_ok_def)
qed

lemma own_note_spendable: "spendable ring_crypto demo_sk (own_note a)" "note_ok ring_crypto (own_note a)"
proof -
  show ok: "note_ok ring_crypto (own_note a)" by (simp add: note_ok_def own_note_def diversified_public_def)
  have "fr_number 1 \<noteq> 0" by (simp add: fr_ops)
  then show "spendable ring_crypto demo_sk (own_note a)"
    using demo_fvk_components ok by (simp add: spendable_def demo_sk_def note_diversified_generator_def) (simp add: demo_fvk_def own_note_def)
qed

lemma own_note_index: "note_index ring_crypto (demo_client d) (own_note a) = Inr 0"
proof -
  have "diversifier_index_of_u64 0 = replicate 11 0"
    by code_simp
  then show ?thesis
    using u64_of_diversifier_index_of [of 0] by (simp add: note_index_def index_for_diversifier_def own_note_def)
qed

lemma demo_wallet_ok:
  assumes "d = pen_denom \<or> d = del_denom"
  shows "wallet_ok ring_crypto (demo_client d)"
proof -
  have c: "bt_get (cs_asset_cache (demo_client d)) (dn_id d) = Some d" using assms denom_ids_differ by (auto simp: demo_cache)
  then have "notes_ok ring_crypto (demo_client d)"
    by (simp add: notes_ok_def bt_ok_def all_unspent_def note_known_def note_denom_def own_note_index)
  moreover have "note_spendable ring_crypto (demo_client d) (own_note (dn_id d))"
    using own_note_spendable(1)
    by (simp add: note_spendable_def note_nullifier_def fvk_derive_nullifier_def demo_keys bt_get_def)
  moreover have "\<forall>i d'. bt_get (cs_asset_cache (demo_client d)) i = Some d' \<longrightarrow> dn_id d' = i \<and> i = denom_id ring_crypto (dn_base_denom d')"
    by (simp add: demo_cache) (simp add: pen_denom_def del_denom_def)
  ultimately show ?thesis by (simp add: wallet_ok_def own_generator_def)
qed

lemma demo_funds:
  assumes "d = pen_denom \<or> d = del_denom" and "source = None \<or> source = Some 0"
  shows "ready_notes ring_crypto (demo_client d) (dn_base_denom d) source = [own_note (dn_id d)]"
proof -
  have c: "bt_get (cs_asset_cache (demo_client d)) (dn_id d) = Some d" using assms denom_ids_differ by (auto simp: demo_cache)
  then show ?thesis using assms(2) by (auto simp: ready_notes_def base_def note_denom_def idx_def own_note_index)
qed

section \<open>Spending\<close>

lemma demo_notes_ok: "notes_ok ring_crypto (demo_client pen_denom)"
  using demo_wallet_ok [of pen_denom] by (simp add: wallet_ok_def)

theorem notes_to_spend_exact_witness:
  "(\<exists>drawn g' s'. notes_to_spend ring_crypto 100 0 20 pen_denom None (demo_client pen_denom) = (Inr (drawn, g'), s') \<and> 20 \<le> total_of drawn)
    \<and> (\<exists>e. notes_to_spend ring_crypto 100 0 40 pen_denom None (demo_client pen_denom) = (Inl (Err e), demo_client pen_denom))"
proof -
  have f: "total_of (ready_notes ring_crypto (demo_client pen_denom) (dn_base_denom pen_denom) None) = 30"
    by (simp add: demo_funds)
  show ?thesis
    using notes_to_spend_exact [OF ring_rand_ok demo_notes_ok, of 20 pen_denom None 100 0]
      notes_to_spend_exact [OF ring_rand_ok demo_notes_ok, of 40 pen_denom None 100 0]
    by (auto simp: f)
qed

lemma demo_other_funds:
  assumes "d = pen_denom \<or> d = del_denom" and "b \<noteq> dn_base_denom d"
  shows "ready_notes ring_crypto (demo_client d) b source = []"
proof -
  have "bt_get (cs_asset_cache (demo_client d)) (dn_id d) = Some d" using assms denom_ids_differ by (auto simp: demo_cache)
  then show ?thesis using assms(2) by (auto simp: ready_notes_def base_def note_denom_def)
qed

lemma demo_affords:
  "affords ring_crypto (demo_client pen_denom) [\<lparr>val_amount = 20, val_asset_id = dn_id pen_denom\<rparr>] 3 None"
proof -
  have st: "staking_token_asset_id ring_crypto = dn_id pen_denom" by (simp add: staking_token_asset_id_def pen_denom_def)
  have b: "dn_base_denom pen_denom = ''upenumbra''" "dn_base_denom del_denom \<noteq> dn_base_denom pen_denom"
    by (simp_all add: pen_denom_def del_denom_def)
  have r: "ready_notes ring_crypto (demo_client pen_denom) (dn_base_denom pen_denom) None = [own_note (dn_id pen_denom)]"
    "ready_notes ring_crypto (demo_client pen_denom) (dn_base_denom del_denom) None = []"
    using demo_funds [of pen_denom None] demo_other_funds [OF _ b(2), of None] by simp_all
  have "need ring_crypto [\<lparr>val_amount = 20, val_asset_id = dn_id pen_denom\<rparr>] 3 i \<le> funds ring_crypto (demo_client pen_denom) d None
      \<and> funds ring_crypto (demo_client pen_denom) d None < 2 ^ 64" if "bt_get (cs_asset_cache (demo_client pen_denom)) i = Some d" for i d
    using that r denom_ids_differ by (auto simp: demo_cache need_def st split: if_splits)
  then show ?thesis using denom_ids_differ b by (simp add: affords_def st demo_cache)
qed

lemma demo_payable: "payable ring_crypto demo_dest"
  using demo_dest_ok by (simp add: payable_def)

lemma demo_chain_id: "client_chain_id (demo_client d) = Some ''penumbra''"
  by (simp add: client_chain_id_def demo_client_def)

text \<open>A node whose tree has the note and that knows the root as an anchor.\<close>

definition demo_node :: shielded_pool where
  "demo_node =
     \<lparr>sp_jmt = empty_jmt\<lparr>j_chain_params := Some default_chain_params, j_block_height := Some 8, j_nct_data := Some [39],
        j_valid_anchors := [sum_root [NctAppend 39] \<mapsto> 0]\<rparr>,
      sp_nct = [39], sp_compact_block = empty_block\<rparr>"

lemma demo_synced: "synced demo_node (demo_client d)"
  by (simp add: synced_def follows_def demo_node_def bt_get_def empty_jmt_def)

lemma ring_sizes_ok: "sizes_ok ring_crypto"
  by (simp add: sizes_ok_def)

definition demo_worker :: worker where
  "demo_worker = \<lparr>w_committed = None, w_app = (app_new (sp_jmt demo_node))\<lparr>ap_nct := [39]\<rparr>\<rparr>"

lemma demo_worker_facts:
  "ap_jmt (w_app demo_worker) = sp_jmt demo_node" "ap_nct (w_app demo_worker) = [39]"
  "check_claimed_anchor (sp_jmt demo_node) (nct_root ring_crypto (map NctAppend [39])) = Inr ()"
  "\<exists>ep. get_current_epoch (sp_jmt demo_node) = Inr ep" "synced (pool_of (w_app demo_worker)) (demo_client d)"
proof -
  show s: "ap_jmt (w_app demo_worker) = sp_jmt demo_node" "ap_nct (w_app demo_worker) = [39]"
    by (simp_all add: demo_worker_def app_new_def Let_def)
  show "check_claimed_anchor (sp_jmt demo_node) (nct_root ring_crypto (map NctAppend [39])) = Inr ()"
    by (simp add: check_claimed_anchor_def demo_node_def)
  show "\<exists>ep. get_current_epoch (sp_jmt demo_node) = Inr ep"
    by (simp add: get_current_epoch_def get_block_height_def get_epoch_duration_def get_chain_params_def demo_node_def
        default_chain_params_def from_height_def)
  have "sp_nct demo_node = [39]" by (simp add: demo_node_def)
  then show "synced (pool_of (w_app demo_worker)) (demo_client d)"
    using demo_synced [of d] s by (simp add: synced_def pool_of_def)
qed

theorem payment_delivered_witness:
  "\<forall>I. \<exists>tx g' w' wk'. build_send ring_ext (\<lambda>m. m) 100 0 [\<lparr>val_amount = 20, val_asset_id = dn_id pen_denom\<rparr>] 3 demo_dest None (Some ''rent'')
      (demo_client pen_denom) = (Inr (tx, g'), w')
    \<and> worker_deliver_tx ring_ext I (transaction_of_slice ring_crypto unary_prost)
        (transaction_to_bytes ring_crypto unary_prost tx) demo_worker = Inr (wk', True)"
proof -
  obtain ep where "get_current_epoch (ap_jmt (w_app demo_worker)) = Inr ep" using demo_worker_facts(1,4) by auto
  then have "\<exists>tx g' w' wk'. build_send ring_ext (\<lambda>m. m) 100 0 [\<lparr>val_amount = 20, val_asset_id = dn_id pen_denom\<rparr>] 3 demo_dest None (Some ''rent'')
      (demo_client pen_denom) = (Inr (tx, g'), w')
    \<and> worker_deliver_tx ring_ext I (transaction_of_slice ring_crypto unary_prost)
        (transaction_to_bytes ring_crypto unary_prost tx) demo_worker = Inr (wk', True)" for I
    using payment_delivered [of ring_ext unary_prost "demo_client pen_denom" demo_worker ep "''penumbra''"
        "[\<lparr>val_amount = 20, val_asset_id = dn_id pen_denom\<rparr>]" 3 None demo_dest "Some ''rent''" "\<lambda>m. m" 100 0 I]
      ring_laws ring_sizes_ok ring_text_ok unary_prost_ok ring_nct_sync demo_wallet_ok [of pen_denom] demo_worker_facts
      demo_chain_id demo_affords demo_payable
    by auto
  then show ?thesis by blast
qed

section \<open>Staking\<close>

definition par_rate :: rate_data where
  "par_rate = \<lparr>rd_identity_key = ''v'', rd_epoch_index = 1, validator_reward_rate = 0, validator_exchange_rate = 100000000\<rparr>"

lemma demo_denoms: "staking_token_denom ring_crypto = Inr pen_denom"
  "delegation_token_new ring_crypto ''v'' = Inr \<lparr>dt_validator_identity = ''v'', dt_base_denom = del_denom\<rparr>"
  by (simp_all add: staking_token_denom_def delegation_token_new_def parse_denom_spec pen_denom_def del_denom_def delegation_regex_def is_display_def)

theorem build_delegate_accepted_witness:
  "\<exists>dl tx g' s'. build_delegate par_rate 20 = Inr dl
    \<and> wallet_build_delegate ring_ext 100 0 par_rate 20 3 None (demo_client pen_denom) = (Inr (tx, g'), s')
    \<and> pool_check_tx_stateless ring_ext tx = Inr () \<and> Delegate dl \<in> set (actions tx)"
proof -
  obtain dl where dl: "build_delegate par_rate 20 = Inr dl"
    by (simp add: build_delegate_def delegation_amount_def par_rate_def u64_of_u128_def)
  have "staking_token_asset_id ring_crypto = dn_id pen_denom" "denom_id ring_crypto ''udelegation_v'' = dn_id del_denom"
    by (simp_all add: staking_token_asset_id_def pen_denom_def del_denom_def)
  moreover have "funds ring_crypto (demo_client pen_denom) pen_denom None = 30" by (simp add: demo_funds)
  ultimately have "\<exists>tx g' s'. wallet_build_delegate ring_ext 100 0 par_rate 20 3 None (demo_client pen_denom) = (Inr (tx, g'), s')
      \<and> accepted ring_ext ''penumbra'' 3 (demo_client pen_denom) s' tx \<and> wallet_ok (x_crypto ring_ext) s' \<and> Delegate dl \<in> set (actions tx)"
    using ring_laws demo_wallet_ok [of pen_denom] demo_chain_id dl demo_denoms(1) denom_ids_differ
    by (intro build_delegate_accepted [where ds = pen_denom]) (simp_all add: demo_cache par_rate_def)
  then show ?thesis using dl by (auto simp: accepted_def)
qed

theorem build_undelegate_accepted_witness:
  "\<exists>ud tx g' s'. build_undelegate par_rate 20 = Inr ud
    \<and> wallet_build_undelegate ring_ext 100 0 par_rate 20 3 None (demo_client del_denom) = (Inr (tx, g'), s')
    \<and> pool_check_tx_stateless ring_ext tx = Inr () \<and> Undelegate ud \<in> set (actions tx)"
proof -
  obtain ud where ud: "build_undelegate par_rate 20 = Inr ud" "u_unbonded_amount ud = 20"
    by (simp add: build_undelegate_def unbonded_amount_def par_rate_def u64_of_u128_def)
  have "staking_token_asset_id ring_crypto = dn_id pen_denom" by (simp add: staking_token_asset_id_def pen_denom_def)
  moreover have "funds ring_crypto (demo_client del_denom) del_denom None = 30" by (simp add: demo_funds)
  ultimately have "\<exists>tx g' s'. wallet_build_undelegate ring_ext 100 0 par_rate 20 3 None (demo_client del_denom) = (Inr (tx, g'), s')
      \<and> accepted ring_ext ''penumbra'' 3 (demo_client del_denom) s' tx \<and> wallet_ok (x_crypto ring_ext) s' \<and> Undelegate ud \<in> set (actions tx)"
    using ring_laws demo_wallet_ok [of del_denom] demo_chain_id ud demo_denoms(2) denom_ids_differ
    by (intro build_undelegate_accepted [where token = "\<lparr>dt_validator_identity = ''v'', dt_base_denom = del_denom\<rparr>"])
       (simp_all add: demo_cache par_rate_def)
  then show ?thesis using ud by (auto simp: accepted_def)
qed

section \<open>Following the node\<close>

text \<open>A transaction with an output for someone else: its ciphertext is too short for a note.\<close>

definition foreign_body :: output_body where
  "foreign_body = \<lparr>ob_note_commitment = 77, ob_ephemeral_key = replicate 32 0, ob_encrypted_note = []\<rparr>"

definition foreign_tx :: transaction where
  "foreign_tx = \<lparr>tx_body = \<lparr>tb_actions = [Output \<lparr>out_body = foreign_body, out_value_commitment = 0, out_encrypted_memo = [],
       out_ovk_wrapped_key = [], out_proof = \<lparr>opf_g_d = 1, opf_pk_d = [], opf_value = \<lparr>val_amount = 0, val_asset_id = 0\<rparr>,
         opf_v_blinding = 0, opf_note_blinding = 0, opf_esk = 0\<rparr>\<rparr>],
     tb_merkle_root = 0, tb_expiry_height = 0, tb_chain_id = ''penumbra'', tb_fee = 0\<rparr>, tx_binding_sig = []\<rparr>"

lemma foreign_tx_facts: "output_bodies foreign_tx = [foreign_body]" "spent_nullifiers foreign_tx = []"
  by (simp_all add: foreign_tx_def output_bodies_def spent_nullifiers_def actions_def)

lemma demo_node_block:
  "\<exists>p' b. pool_end_block ring_ext 8 (fold (pool_execute_tx ring_ext) [foreign_tx] demo_node) = Inr p'
    \<and> j_compact_block (sp_jmt p') 8 = Some b \<and> cb_outputs b = [foreign_body] \<and> sp_nct p' = [39, 77]"
proof -
  let ?p = "fold (pool_execute_tx ring_ext) [foreign_tx] demo_node"
  obtain m n where p: "?p = demo_node\<lparr>sp_nct := [39, 77], sp_jmt := (sp_jmt demo_node)\<lparr>j_note_source := m, j_spent_nullifiers := n\<rparr>,
      sp_compact_block := empty_block\<lparr>cb_outputs := [foreign_body]\<rparr>\<rparr>"
    using pool_execute_tx_spec [of ring_ext foreign_tx demo_node]
    by (auto simp: foreign_tx_facts demo_node_def empty_block_def foreign_body_def)
  have none: "commission_amounts (sp_jmt ?p) 8 = None" unfolding p by (simp add: demo_node_def commission_amounts_def empty_jmt_def)
  moreover have "get_epoch_duration (sp_jmt ?p) = Inr 8640"
    unfolding p by (simp add: demo_node_def get_epoch_duration_def get_chain_params_def default_chain_params_def empty_jmt_def)
  ultimately obtain p' where p': "pool_end_block ring_ext 8 ?p = Inr p'" by (simp add: pool_end_block_def Let_def from_height_def)
  show ?thesis
  proof (rule pool_end_block_facts [OF p'])
    fix b
    assume b: "j_compact_block (sp_jmt p') 8 = Some b"
      and "\<exists>cms. cb_outputs b = cb_outputs (sp_compact_block ?p) @ cms
        \<and> length cms = length (case commission_amounts (sp_jmt ?p) 8 of Some l \<Rightarrow> l | None \<Rightarrow> []) \<and> sp_nct p' = sp_nct ?p @ map ob_note_commitment cms"
    then have "cb_outputs b = [foreign_body]" "sp_nct p' = [39, 77]"
      using none unfolding p by auto
    with p' b show ?thesis by blast
  qed
qed

theorem scan_follows_node_witness:
  "\<exists>p' b w'. pool_end_block ring_ext 8 (fold (pool_execute_tx ring_ext) [foreign_tx] demo_node) = Inr p'
    \<and> cb_outputs b = [foreign_body] \<and> scan_block ring_crypto b (demo_client pen_denom) = Inr w' \<and> synced p' w'"
proof -
  obtain p' b where b: "pool_end_block ring_ext 8 (fold (pool_execute_tx ring_ext) [foreign_tx] demo_node) = Inr p'"
    "j_compact_block (sp_jmt p') 8 = Some b" "cb_outputs b = [foreign_body]" "sp_nct p' = [39, 77]"
    using demo_node_block by blast
  have "(77 :: fq) \<noteq> 39" by (simp add: fq_number_inject [symmetric] fq_number_numeral fq_order_def)
  then have out: "outputs_ok ring_crypto (\<lambda>nf. j_spent_nullifiers (sp_jmt demo_node) nf \<noteq> None) (cb_outputs b) (demo_client pen_denom)"
    unfolding b(3) by (simp add: output_ok_def try_decrypt_def foreign_body_def note_decrypt_def split: sum.split)
  have e: "sp_compact_block demo_node = empty_block" by (simp add: demo_node_def)
  have t: "appends (cs_nct (demo_client pen_denom)) = sp_nct demo_node" using demo_synced by (simp add: synced_def follows_def)
  have h: "case cs_last_block_height (demo_client pen_denom) of None \<Rightarrow> 8 = 0 | Some l \<Rightarrow> 8 = l + 1" by simp
  have "length (sp_nct p') \<le> 2 ^ 32" by (simp add: b(4))
  from scan_follows_node [of ring_ext, unfolded ring_ext_crypto, OF ring_nct_sync t e b(1,2) h this] out demo_wallet_ok [of pen_denom]
    demo_synced [of pen_denom] obtain w' where "scan_block ring_crypto b (demo_client pen_denom) = Inr w'" "synced p' w'" by blast
  with b show ?thesis by blast
qed

theorem wallet_sets_disjoint_witness:
  "\<exists>s'. (client_step ring_crypto)\<^sup>*\<^sup>* (client_state_new \<lparr>wl_address_labels = [''Default''], wl_spend_key = demo_sk\<rparr>) s'
    \<and> cs_nct s' = [NctAppend 77] \<and> dom (bt_get (cs_unspent_set s')) \<subseteq> {77}"
proof -
  let ?s = "client_state_new \<lparr>wl_address_labels = [''Default''], wl_spend_key = demo_sk\<rparr>"
  let ?cb = "\<lparr>cb_height = 0, cb_outputs = [foreign_body], cb_nullifiers = []\<rparr>"
  obtain s' where s': "scan_block ring_crypto ?cb ?s = Inr s'" "cs_nct s' = [NctAppend 77]"
    by (simp add: scan_block_def ensure_def client_state_new_def scan_output_def Let_def foreign_body_def note_decrypt_def)
  have "client_step ring_crypto ?s s'" by (rule step_scan [OF s'(1)])
  then have st: "(client_step ring_crypto)\<^sup>*\<^sup>* ?s s'" by blast
  from wallet_sets_disjoint [OF st rtranclp.rtrancl_refl] s'(2) st show ?thesis by auto
qed

section \<open>A note that does not fit\<close>

text \<open>An output with commitment 77 whose ciphertext is of a note with commitment 39 and an unknown asset.\<close>

definition odd_body :: output_body where
  "odd_body = \<lparr>ob_note_commitment = 77, ob_ephemeral_key = diversified_public ring_crypto 4 1,
     ob_encrypted_note = projr (note_encrypt ring_crypto (own_note 12) 4)\<rparr>"

lemma odd_body_decrypts: "try_decrypt ring_crypto (demo_client pen_denom) odd_body = Inr (own_note 12)"
proof -
  have "nt_transmission_key (own_note 12) = diversified_public ring_crypto (ivk_secret (fvk_ivk demo_fvk))
      (note_diversified_generator ring_crypto (own_note 12))"
    using own_note_spendable(1) by (simp add: own_note_def note_diversified_generator_def demo_fvk_def)
  from note_encrypt_decrypts [OF ring_group_ok ring_encoding_ok ring_aead_ok own_note_spendable(2) this, of 4]
  show ?thesis by (auto simp: try_decrypt_def odd_body_def demo_keys note_diversified_generator_def)
qed

theorem malformed_note_panics_witness:
  "\<exists>w'. scan_output ring_crypto odd_body (demo_client pen_denom) = Inr w'
    \<and> (\<exists>m. notes_to_spend ring_crypto 100 0 20 pen_denom None w' = (Inl (Panic m), w'))"
proof -
  have "dn_id pen_denom \<noteq> 12" "dn_id del_denom \<noteq> 12"
    by (simp_all add: pen_denom_def del_denom_def denom_id_def ascii_def fq_number_inject [symmetric] fq_number_numeral fq_number_of fq_order_def)
  then have "note_denom (demo_client pen_denom) (own_note 12) = None" by (simp add: note_denom_def demo_cache)
  with malformed_note_panics [OF ring_nct_sync _ odd_body_decrypts, of 100 0 20 pen_denom None] show ?thesis
    by (auto simp: appends_def MERKLE_DEPTH_def)
qed

section \<open>The wallet file\<close>

text \<open>An instance of the encodings: bytes as characters, an operation on the tree as 33 bytes.\<close>

fun op_bytes :: "nct_op \<Rightarrow> bytes" where
  "op_bytes (NctAppend x) = 0 # le_bytes 32 (fq_number x)"
| "op_bytes NctWitness = 1 # replicate 32 0"
| "op_bytes (NctRemoveWitness x) = 2 # le_bytes 32 (fq_number x)"

definition bytes_op :: "bytes \<Rightarrow> nct_op" where
  "bytes_op b = (let x = fq_of (le_nat (tl b)) in if hd b = 0 then NctAppend x else if hd b = 1 then NctWitness else NctRemoveWitness x)"

primrec bytes_ops :: "nat \<Rightarrow> bytes \<Rightarrow> nct" where
  "bytes_ops 0 b = []"
| "bytes_ops (Suc k) b = bytes_op (take 33 b) # bytes_ops k (drop 33 b)"

definition plain_codecs :: codecs where
  "plain_codecs =
     \<lparr>hex_encode = map (\<lambda>b. char_of (unat b)), hex_decode = (\<lambda>s. Some (map (\<lambda>c. of_nat (of_char c)) s)),
      bincode_serialize = concat \<circ> map op_bytes, bincode_deserialize = (\<lambda>b. Some (bytes_ops (length b div 33) b))\<rparr>"

lemma op_roundtrip: "length (op_bytes p) = 33" "bytes_op (op_bytes p) = p"
proof -
  have "fq_of (le_nat (le_bytes 32 (fq_number x))) = x" for x using ring_encoding_ok by (simp add: encoding_ok_def)
  then show "bytes_op (op_bytes p) = p" by (cases p) (simp_all add: bytes_op_def)
qed (cases p; simp)

lemma plain_codecs_ok: "codecs_ok plain_codecs"
proof -
  have "length (concat (map op_bytes t)) = length t * 33" for t by (induction t) (simp_all add: op_roundtrip)
  moreover have "bytes_ops (length t) (concat (map op_bytes t)) = t" for t by (induction t) (simp_all add: op_roundtrip)
  moreover have "map ((\<lambda>c. of_nat (of_char c)) \<circ> (\<lambda>b. char_of (unat b))) b = b" for b :: bytes
  proof -
    have "unat x < 256" for x :: "8 word" using unsigned_less [of x] by simp
    then show ?thesis by (induction b) simp_all
  qed
  ultimately show ?thesis by (simp add: codecs_ok_def plain_codecs_def)
qed

lemma ring_spend_key: "\<exists>sk. spend_key_new ring_crypto seed = Inr sk \<and> sk_seed sk = seed"
proof -
  have "fr_number k < fq_order" for k using fr_number_less [of k] by (simp add: fr_order_def fq_order_def)
  moreover have "fr_number k < 256 ^ 32" for k using fr_number_less [of k] by (simp add: fr_order_def)
  ultimately have "le_nat (le_bytes 32 (fr_number k)) = fr_number k" "fr_number k < fq_order" for k
    by (simp_all add: le_nat_le_bytes)
  then show ?thesis by (simp add: spend_key_new_def Let_def fvk_from_components_def)
qed

end
