(* ===== verification/Bip39_Words.thy ===== *)
theory Bip39_Words
  imports Prelude
begin

text \<open>
  The word list of \<open>crypto/src/keys/seed_phrase/words.rs\<close>, in parts of 64 words, and the facts that seed phrases rest
  on: there are 2048 words, no two alike, in lower case and without white space.
\<close>

section \<open>The list\<close>

definition words_01 :: "string list" where
  "words_01 =
    [''abandon'', ''ability'', ''able'', ''about'', ''above'', ''absent'', ''absorb'', ''abstract'', ''absurd'',
     ''abuse'', ''access'', ''accident'', ''account'', ''accuse'', ''achieve'', ''acid'', ''acoustic'',
     ''acquire'', ''across'', ''act'', ''action'', ''actor'', ''actress'', ''actual'', ''adapt'', ''add'',
     ''addict'', ''address'', ''adjust'', ''admit'', ''adult'', ''advance'', ''advice'', ''aerobic'',
     ''affair'', ''afford'', ''afraid'', ''again'', ''age'', ''agent'', ''agree'', ''ahead'', ''aim'', ''air'',
     ''airport'', ''aisle'', ''alarm'', ''album'', ''alcohol'', ''alert'', ''alien'', ''all'', ''alley'',
     ''allow'', ''almost'', ''alone'', ''alpha'', ''already'', ''also'', ''alter'', ''always'', ''amateur'',
     ''amazing'', ''among'']"

definition words_02 :: "string list" where
  "words_02 =
    [''amount'', ''amused'', ''analyst'', ''anchor'', ''ancient'', ''anger'', ''angle'', ''angry'', ''animal'',
     ''ankle'', ''announce'', ''annual'', ''another'', ''answer'', ''antenna'', ''antique'', ''anxiety'',
     ''any'', ''apart'', ''apology'', ''appear'', ''apple'', ''approve'', ''april'', ''arch'', ''arctic'',
     ''area'', ''arena'', ''argue'', ''arm'', ''armed'', ''armor'', ''army'', ''around'', ''arrange'',
     ''arrest'', ''arrive'', ''arrow'', ''art'', ''artefact'', ''artist'', ''artwork'', ''ask'', ''aspect'',
     ''assault'', ''asset'', ''assist'', ''assume'', ''asthma'', ''athlete'', ''atom'', ''attack'', ''attend'',
     ''attitude'', ''attract'', ''auction'', ''audit'', ''august'', ''aunt'', ''author'', ''auto'', ''autumn'',
     ''average'', ''avocado'']"

definition words_03 :: "string list" where
  "words_03 =
    [''avoid'', ''awake'', ''aware'', ''away'', ''awesome'', ''awful'', ''awkward'', ''axis'', ''baby'',
     ''bachelor'', ''bacon'', ''badge'', ''bag'', ''balance'', ''balcony'', ''ball'', ''bamboo'', ''banana'',
     ''banner'', ''bar'', ''barely'', ''bargain'', ''barrel'', ''base'', ''basic'', ''basket'', ''battle'',
     ''beach'', ''bean'', ''beauty'', ''because'', ''become'', ''beef'', ''before'', ''begin'', ''behave'',
     ''behind'', ''believe'', ''below'', ''belt'', ''bench'', ''benefit'', ''best'', ''betray'', ''better'',
     ''between'', ''beyond'', ''bicycle'', ''bid'', ''bike'', ''bind'', ''biology'', ''bird'', ''birth'',
     ''bitter'', ''black'', ''blade'', ''blame'', ''blanket'', ''blast'', ''bleak'', ''bless'', ''blind'',
     ''blood'']"

definition words_04 :: "string list" where
  "words_04 =
    [''blossom'', ''blouse'', ''blue'', ''blur'', ''blush'', ''board'', ''boat'', ''body'', ''boil'', ''bomb'',
     ''bone'', ''bonus'', ''book'', ''boost'', ''border'', ''boring'', ''borrow'', ''boss'', ''bottom'',
     ''bounce'', ''box'', ''boy'', ''bracket'', ''brain'', ''brand'', ''brass'', ''brave'', ''bread'',
     ''breeze'', ''brick'', ''bridge'', ''brief'', ''bright'', ''bring'', ''brisk'', ''broccoli'', ''broken'',
     ''bronze'', ''broom'', ''brother'', ''brown'', ''brush'', ''bubble'', ''buddy'', ''budget'', ''buffalo'',
     ''build'', ''bulb'', ''bulk'', ''bullet'', ''bundle'', ''bunker'', ''burden'', ''burger'', ''burst'',
     ''bus'', ''business'', ''busy'', ''butter'', ''buyer'', ''buzz'', ''cabbage'', ''cabin'', ''cable'']"

definition words_05 :: "string list" where
  "words_05 =
    [''cactus'', ''cage'', ''cake'', ''call'', ''calm'', ''camera'', ''camp'', ''can'', ''canal'', ''cancel'',
     ''candy'', ''cannon'', ''canoe'', ''canvas'', ''canyon'', ''capable'', ''capital'', ''captain'', ''car'',
     ''carbon'', ''card'', ''cargo'', ''carpet'', ''carry'', ''cart'', ''case'', ''cash'', ''casino'',
     ''castle'', ''casual'', ''cat'', ''catalog'', ''catch'', ''category'', ''cattle'', ''caught'', ''cause'',
     ''caution'', ''cave'', ''ceiling'', ''celery'', ''cement'', ''census'', ''century'', ''cereal'',
     ''certain'', ''chair'', ''chalk'', ''champion'', ''change'', ''chaos'', ''chapter'', ''charge'', ''chase'',
     ''chat'', ''cheap'', ''check'', ''cheese'', ''chef'', ''cherry'', ''chest'', ''chicken'', ''chief'',
     ''child'']"

definition words_06 :: "string list" where
  "words_06 =
    [''chimney'', ''choice'', ''choose'', ''chronic'', ''chuckle'', ''chunk'', ''churn'', ''cigar'',
     ''cinnamon'', ''circle'', ''citizen'', ''city'', ''civil'', ''claim'', ''clap'', ''clarify'', ''claw'',
     ''clay'', ''clean'', ''clerk'', ''clever'', ''click'', ''client'', ''cliff'', ''climb'', ''clinic'',
     ''clip'', ''clock'', ''clog'', ''close'', ''cloth'', ''cloud'', ''clown'', ''club'', ''clump'',
     ''cluster'', ''clutch'', ''coach'', ''coast'', ''coconut'', ''code'', ''coffee'', ''coil'', ''coin'',
     ''collect'', ''color'', ''column'', ''combine'', ''come'', ''comfort'', ''comic'', ''common'', ''company'',
     ''concert'', ''conduct'', ''confirm'', ''congress'', ''connect'', ''consider'', ''control'', ''convince'',
     ''cook'', ''cool'', ''copper'']"

definition words_07 :: "string list" where
  "words_07 =
    [''copy'', ''coral'', ''core'', ''corn'', ''correct'', ''cost'', ''cotton'', ''couch'', ''country'',
     ''couple'', ''course'', ''cousin'', ''cover'', ''coyote'', ''crack'', ''cradle'', ''craft'', ''cram'',
     ''crane'', ''crash'', ''crater'', ''crawl'', ''crazy'', ''cream'', ''credit'', ''creek'', ''crew'',
     ''cricket'', ''crime'', ''crisp'', ''critic'', ''crop'', ''cross'', ''crouch'', ''crowd'', ''crucial'',
     ''cruel'', ''cruise'', ''crumble'', ''crunch'', ''crush'', ''cry'', ''crystal'', ''cube'', ''culture'',
     ''cup'', ''cupboard'', ''curious'', ''current'', ''curtain'', ''curve'', ''cushion'', ''custom'', ''cute'',
     ''cycle'', ''dad'', ''damage'', ''damp'', ''dance'', ''danger'', ''daring'', ''dash'', ''daughter'',
     ''dawn'']"

definition words_08 :: "string list" where
  "words_08 =
    [''day'', ''deal'', ''debate'', ''debris'', ''decade'', ''december'', ''decide'', ''decline'', ''decorate'',
     ''decrease'', ''deer'', ''defense'', ''define'', ''defy'', ''degree'', ''delay'', ''deliver'', ''demand'',
     ''demise'', ''denial'', ''dentist'', ''deny'', ''depart'', ''depend'', ''deposit'', ''depth'', ''deputy'',
     ''derive'', ''describe'', ''desert'', ''design'', ''desk'', ''despair'', ''destroy'', ''detail'',
     ''detect'', ''develop'', ''device'', ''devote'', ''diagram'', ''dial'', ''diamond'', ''diary'', ''dice'',
     ''diesel'', ''diet'', ''differ'', ''digital'', ''dignity'', ''dilemma'', ''dinner'', ''dinosaur'',
     ''direct'', ''dirt'', ''disagree'', ''discover'', ''disease'', ''dish'', ''dismiss'', ''disorder'',
     ''display'', ''distance'', ''divert'', ''divide'']"

definition words_09 :: "string list" where
  "words_09 =
    [''divorce'', ''dizzy'', ''doctor'', ''document'', ''dog'', ''doll'', ''dolphin'', ''domain'', ''donate'',
     ''donkey'', ''donor'', ''door'', ''dose'', ''double'', ''dove'', ''draft'', ''dragon'', ''drama'',
     ''drastic'', ''draw'', ''dream'', ''dress'', ''drift'', ''drill'', ''drink'', ''drip'', ''drive'',
     ''drop'', ''drum'', ''dry'', ''duck'', ''dumb'', ''dune'', ''during'', ''dust'', ''dutch'', ''duty'',
     ''dwarf'', ''dynamic'', ''eager'', ''eagle'', ''early'', ''earn'', ''earth'', ''easily'', ''east'',
     ''easy'', ''echo'', ''ecology'', ''economy'', ''edge'', ''edit'', ''educate'', ''effort'', ''egg'',
     ''eight'', ''either'', ''elbow'', ''elder'', ''electric'', ''elegant'', ''element'', ''elephant'',
     ''elevator'']"

definition words_10 :: "string list" where
  "words_10 =
    [''elite'', ''else'', ''embark'', ''embody'', ''embrace'', ''emerge'', ''emotion'', ''employ'', ''empower'',
     ''empty'', ''enable'', ''enact'', ''end'', ''endless'', ''endorse'', ''enemy'', ''energy'', ''enforce'',
     ''engage'', ''engine'', ''enhance'', ''enjoy'', ''enlist'', ''enough'', ''enrich'', ''enroll'', ''ensure'',
     ''enter'', ''entire'', ''entry'', ''envelope'', ''episode'', ''equal'', ''equip'', ''era'', ''erase'',
     ''erode'', ''erosion'', ''error'', ''erupt'', ''escape'', ''essay'', ''essence'', ''estate'', ''eternal'',
     ''ethics'', ''evidence'', ''evil'', ''evoke'', ''evolve'', ''exact'', ''example'', ''excess'',
     ''exchange'', ''excite'', ''exclude'', ''excuse'', ''execute'', ''exercise'', ''exhaust'', ''exhibit'',
     ''exile'', ''exist'', ''exit'']"

definition words_11 :: "string list" where
  "words_11 =
    [''exotic'', ''expand'', ''expect'', ''expire'', ''explain'', ''expose'', ''express'', ''extend'',
     ''extra'', ''eye'', ''eyebrow'', ''fabric'', ''face'', ''faculty'', ''fade'', ''faint'', ''faith'',
     ''fall'', ''false'', ''fame'', ''family'', ''famous'', ''fan'', ''fancy'', ''fantasy'', ''farm'',
     ''fashion'', ''fat'', ''fatal'', ''father'', ''fatigue'', ''fault'', ''favorite'', ''feature'',
     ''february'', ''federal'', ''fee'', ''feed'', ''feel'', ''female'', ''fence'', ''festival'', ''fetch'',
     ''fever'', ''few'', ''fiber'', ''fiction'', ''field'', ''figure'', ''file'', ''film'', ''filter'',
     ''final'', ''find'', ''fine'', ''finger'', ''finish'', ''fire'', ''firm'', ''first'', ''fiscal'', ''fish'',
     ''fit'', ''fitness'']"

definition words_12 :: "string list" where
  "words_12 =
    [''fix'', ''flag'', ''flame'', ''flash'', ''flat'', ''flavor'', ''flee'', ''flight'', ''flip'', ''float'',
     ''flock'', ''floor'', ''flower'', ''fluid'', ''flush'', ''fly'', ''foam'', ''focus'', ''fog'', ''foil'',
     ''fold'', ''follow'', ''food'', ''foot'', ''force'', ''forest'', ''forget'', ''fork'', ''fortune'',
     ''forum'', ''forward'', ''fossil'', ''foster'', ''found'', ''fox'', ''fragile'', ''frame'', ''frequent'',
     ''fresh'', ''friend'', ''fringe'', ''frog'', ''front'', ''frost'', ''frown'', ''frozen'', ''fruit'',
     ''fuel'', ''fun'', ''funny'', ''furnace'', ''fury'', ''future'', ''gadget'', ''gain'', ''galaxy'',
     ''gallery'', ''game'', ''gap'', ''garage'', ''garbage'', ''garden'', ''garlic'', ''garment'']"

definition words_13 :: "string list" where
  "words_13 =
    [''gas'', ''gasp'', ''gate'', ''gather'', ''gauge'', ''gaze'', ''general'', ''genius'', ''genre'',
     ''gentle'', ''genuine'', ''gesture'', ''ghost'', ''giant'', ''gift'', ''giggle'', ''ginger'', ''giraffe'',
     ''girl'', ''give'', ''glad'', ''glance'', ''glare'', ''glass'', ''glide'', ''glimpse'', ''globe'',
     ''gloom'', ''glory'', ''glove'', ''glow'', ''glue'', ''goat'', ''goddess'', ''gold'', ''good'', ''goose'',
     ''gorilla'', ''gospel'', ''gossip'', ''govern'', ''gown'', ''grab'', ''grace'', ''grain'', ''grant'',
     ''grape'', ''grass'', ''gravity'', ''great'', ''green'', ''grid'', ''grief'', ''grit'', ''grocery'',
     ''group'', ''grow'', ''grunt'', ''guard'', ''guess'', ''guide'', ''guilt'', ''guitar'', ''gun'']"

definition words_14 :: "string list" where
  "words_14 =
    [''gym'', ''habit'', ''hair'', ''half'', ''hammer'', ''hamster'', ''hand'', ''happy'', ''harbor'', ''hard'',
     ''harsh'', ''harvest'', ''hat'', ''have'', ''hawk'', ''hazard'', ''head'', ''health'', ''heart'',
     ''heavy'', ''hedgehog'', ''height'', ''hello'', ''helmet'', ''help'', ''hen'', ''hero'', ''hidden'',
     ''high'', ''hill'', ''hint'', ''hip'', ''hire'', ''history'', ''hobby'', ''hockey'', ''hold'', ''hole'',
     ''holiday'', ''hollow'', ''home'', ''honey'', ''hood'', ''hope'', ''horn'', ''horror'', ''horse'',
     ''hospital'', ''host'', ''hotel'', ''hour'', ''hover'', ''hub'', ''huge'', ''human'', ''humble'',
     ''humor'', ''hundred'', ''hungry'', ''hunt'', ''hurdle'', ''hurry'', ''hurt'', ''husband'']"

definition words_15 :: "string list" where
  "words_15 =
    [''hybrid'', ''ice'', ''icon'', ''idea'', ''identify'', ''idle'', ''ignore'', ''ill'', ''illegal'',
     ''illness'', ''image'', ''imitate'', ''immense'', ''immune'', ''impact'', ''impose'', ''improve'',
     ''impulse'', ''inch'', ''include'', ''income'', ''increase'', ''index'', ''indicate'', ''indoor'',
     ''industry'', ''infant'', ''inflict'', ''inform'', ''inhale'', ''inherit'', ''initial'', ''inject'',
     ''injury'', ''inmate'', ''inner'', ''innocent'', ''input'', ''inquiry'', ''insane'', ''insect'',
     ''inside'', ''inspire'', ''install'', ''intact'', ''interest'', ''into'', ''invest'', ''invite'',
     ''involve'', ''iron'', ''island'', ''isolate'', ''issue'', ''item'', ''ivory'', ''jacket'', ''jaguar'',
     ''jar'', ''jazz'', ''jealous'', ''jeans'', ''jelly'', ''jewel'']"

definition words_16 :: "string list" where
  "words_16 =
    [''job'', ''join'', ''joke'', ''journey'', ''joy'', ''judge'', ''juice'', ''jump'', ''jungle'', ''junior'',
     ''junk'', ''just'', ''kangaroo'', ''keen'', ''keep'', ''ketchup'', ''key'', ''kick'', ''kid'', ''kidney'',
     ''kind'', ''kingdom'', ''kiss'', ''kit'', ''kitchen'', ''kite'', ''kitten'', ''kiwi'', ''knee'', ''knife'',
     ''knock'', ''know'', ''lab'', ''label'', ''labor'', ''ladder'', ''lady'', ''lake'', ''lamp'', ''language'',
     ''laptop'', ''large'', ''later'', ''latin'', ''laugh'', ''laundry'', ''lava'', ''law'', ''lawn'',
     ''lawsuit'', ''layer'', ''lazy'', ''leader'', ''leaf'', ''learn'', ''leave'', ''lecture'', ''left'',
     ''leg'', ''legal'', ''legend'', ''leisure'', ''lemon'', ''lend'']"

definition words_17 :: "string list" where
  "words_17 =
    [''length'', ''lens'', ''leopard'', ''lesson'', ''letter'', ''level'', ''liar'', ''liberty'', ''library'',
     ''license'', ''life'', ''lift'', ''light'', ''like'', ''limb'', ''limit'', ''link'', ''lion'', ''liquid'',
     ''list'', ''little'', ''live'', ''lizard'', ''load'', ''loan'', ''lobster'', ''local'', ''lock'',
     ''logic'', ''lonely'', ''long'', ''loop'', ''lottery'', ''loud'', ''lounge'', ''love'', ''loyal'',
     ''lucky'', ''luggage'', ''lumber'', ''lunar'', ''lunch'', ''luxury'', ''lyrics'', ''machine'', ''mad'',
     ''magic'', ''magnet'', ''maid'', ''mail'', ''main'', ''major'', ''make'', ''mammal'', ''man'', ''manage'',
     ''mandate'', ''mango'', ''mansion'', ''manual'', ''maple'', ''marble'', ''march'', ''margin'']"

definition words_18 :: "string list" where
  "words_18 =
    [''marine'', ''market'', ''marriage'', ''mask'', ''mass'', ''master'', ''match'', ''material'', ''math'',
     ''matrix'', ''matter'', ''maximum'', ''maze'', ''meadow'', ''mean'', ''measure'', ''meat'', ''mechanic'',
     ''medal'', ''media'', ''melody'', ''melt'', ''member'', ''memory'', ''mention'', ''menu'', ''mercy'',
     ''merge'', ''merit'', ''merry'', ''mesh'', ''message'', ''metal'', ''method'', ''middle'', ''midnight'',
     ''milk'', ''million'', ''mimic'', ''mind'', ''minimum'', ''minor'', ''minute'', ''miracle'', ''mirror'',
     ''misery'', ''miss'', ''mistake'', ''mix'', ''mixed'', ''mixture'', ''mobile'', ''model'', ''modify'',
     ''mom'', ''moment'', ''monitor'', ''monkey'', ''monster'', ''month'', ''moon'', ''moral'', ''more'',
     ''morning'']"

definition words_19 :: "string list" where
  "words_19 =
    [''mosquito'', ''mother'', ''motion'', ''motor'', ''mountain'', ''mouse'', ''move'', ''movie'', ''much'',
     ''muffin'', ''mule'', ''multiply'', ''muscle'', ''museum'', ''mushroom'', ''music'', ''must'', ''mutual'',
     ''myself'', ''mystery'', ''myth'', ''naive'', ''name'', ''napkin'', ''narrow'', ''nasty'', ''nation'',
     ''nature'', ''near'', ''neck'', ''need'', ''negative'', ''neglect'', ''neither'', ''nephew'', ''nerve'',
     ''nest'', ''net'', ''network'', ''neutral'', ''never'', ''news'', ''next'', ''nice'', ''night'', ''noble'',
     ''noise'', ''nominee'', ''noodle'', ''normal'', ''north'', ''nose'', ''notable'', ''note'', ''nothing'',
     ''notice'', ''novel'', ''now'', ''nuclear'', ''number'', ''nurse'', ''nut'', ''oak'', ''obey'']"

definition words_20 :: "string list" where
  "words_20 =
    [''object'', ''oblige'', ''obscure'', ''observe'', ''obtain'', ''obvious'', ''occur'', ''ocean'',
     ''october'', ''odor'', ''off'', ''offer'', ''office'', ''often'', ''oil'', ''okay'', ''old'', ''olive'',
     ''olympic'', ''omit'', ''once'', ''one'', ''onion'', ''online'', ''only'', ''open'', ''opera'',
     ''opinion'', ''oppose'', ''option'', ''orange'', ''orbit'', ''orchard'', ''order'', ''ordinary'',
     ''organ'', ''orient'', ''original'', ''orphan'', ''ostrich'', ''other'', ''outdoor'', ''outer'',
     ''output'', ''outside'', ''oval'', ''oven'', ''over'', ''own'', ''owner'', ''oxygen'', ''oyster'',
     ''ozone'', ''pact'', ''paddle'', ''page'', ''pair'', ''palace'', ''palm'', ''panda'', ''panel'', ''panic'',
     ''panther'', ''paper'']"

definition words_21 :: "string list" where
  "words_21 =
    [''parade'', ''parent'', ''park'', ''parrot'', ''party'', ''pass'', ''patch'', ''path'', ''patient'',
     ''patrol'', ''pattern'', ''pause'', ''pave'', ''payment'', ''peace'', ''peanut'', ''pear'', ''peasant'',
     ''pelican'', ''pen'', ''penalty'', ''pencil'', ''people'', ''pepper'', ''perfect'', ''permit'', ''person'',
     ''pet'', ''phone'', ''photo'', ''phrase'', ''physical'', ''piano'', ''picnic'', ''picture'', ''piece'',
     ''pig'', ''pigeon'', ''pill'', ''pilot'', ''pink'', ''pioneer'', ''pipe'', ''pistol'', ''pitch'',
     ''pizza'', ''place'', ''planet'', ''plastic'', ''plate'', ''play'', ''please'', ''pledge'', ''pluck'',
     ''plug'', ''plunge'', ''poem'', ''poet'', ''point'', ''polar'', ''pole'', ''police'', ''pond'', ''pony'']"

definition words_22 :: "string list" where
  "words_22 =
    [''pool'', ''popular'', ''portion'', ''position'', ''possible'', ''post'', ''potato'', ''pottery'',
     ''poverty'', ''powder'', ''power'', ''practice'', ''praise'', ''predict'', ''prefer'', ''prepare'',
     ''present'', ''pretty'', ''prevent'', ''price'', ''pride'', ''primary'', ''print'', ''priority'',
     ''prison'', ''private'', ''prize'', ''problem'', ''process'', ''produce'', ''profit'', ''program'',
     ''project'', ''promote'', ''proof'', ''property'', ''prosper'', ''protect'', ''proud'', ''provide'',
     ''public'', ''pudding'', ''pull'', ''pulp'', ''pulse'', ''pumpkin'', ''punch'', ''pupil'', ''puppy'',
     ''purchase'', ''purity'', ''purpose'', ''purse'', ''push'', ''put'', ''puzzle'', ''pyramid'', ''quality'',
     ''quantum'', ''quarter'', ''question'', ''quick'', ''quit'', ''quiz'']"

definition words_23 :: "string list" where
  "words_23 =
    [''quote'', ''rabbit'', ''raccoon'', ''race'', ''rack'', ''radar'', ''radio'', ''rail'', ''rain'',
     ''raise'', ''rally'', ''ramp'', ''ranch'', ''random'', ''range'', ''rapid'', ''rare'', ''rate'',
     ''rather'', ''raven'', ''raw'', ''razor'', ''ready'', ''real'', ''reason'', ''rebel'', ''rebuild'',
     ''recall'', ''receive'', ''recipe'', ''record'', ''recycle'', ''reduce'', ''reflect'', ''reform'',
     ''refuse'', ''region'', ''regret'', ''regular'', ''reject'', ''relax'', ''release'', ''relief'', ''rely'',
     ''remain'', ''remember'', ''remind'', ''remove'', ''render'', ''renew'', ''rent'', ''reopen'', ''repair'',
     ''repeat'', ''replace'', ''report'', ''require'', ''rescue'', ''resemble'', ''resist'', ''resource'',
     ''response'', ''result'', ''retire'']"

definition words_24 :: "string list" where
  "words_24 =
    [''retreat'', ''return'', ''reunion'', ''reveal'', ''review'', ''reward'', ''rhythm'', ''rib'', ''ribbon'',
     ''rice'', ''rich'', ''ride'', ''ridge'', ''rifle'', ''right'', ''rigid'', ''ring'', ''riot'', ''ripple'',
     ''risk'', ''ritual'', ''rival'', ''river'', ''road'', ''roast'', ''robot'', ''robust'', ''rocket'',
     ''romance'', ''roof'', ''rookie'', ''room'', ''rose'', ''rotate'', ''rough'', ''round'', ''route'',
     ''royal'', ''rubber'', ''rude'', ''rug'', ''rule'', ''run'', ''runway'', ''rural'', ''sad'', ''saddle'',
     ''sadness'', ''safe'', ''sail'', ''salad'', ''salmon'', ''salon'', ''salt'', ''salute'', ''same'',
     ''sample'', ''sand'', ''satisfy'', ''satoshi'', ''sauce'', ''sausage'', ''save'', ''say'']"

definition words_25 :: "string list" where
  "words_25 =
    [''scale'', ''scan'', ''scare'', ''scatter'', ''scene'', ''scheme'', ''school'', ''science'', ''scissors'',
     ''scorpion'', ''scout'', ''scrap'', ''screen'', ''script'', ''scrub'', ''sea'', ''search'', ''season'',
     ''seat'', ''second'', ''secret'', ''section'', ''security'', ''seed'', ''seek'', ''segment'', ''select'',
     ''sell'', ''seminar'', ''senior'', ''sense'', ''sentence'', ''series'', ''service'', ''session'',
     ''settle'', ''setup'', ''seven'', ''shadow'', ''shaft'', ''shallow'', ''share'', ''shed'', ''shell'',
     ''sheriff'', ''shield'', ''shift'', ''shine'', ''ship'', ''shiver'', ''shock'', ''shoe'', ''shoot'',
     ''shop'', ''short'', ''shoulder'', ''shove'', ''shrimp'', ''shrug'', ''shuffle'', ''shy'', ''sibling'',
     ''sick'', ''side'']"

definition words_26 :: "string list" where
  "words_26 =
    [''siege'', ''sight'', ''sign'', ''silent'', ''silk'', ''silly'', ''silver'', ''similar'', ''simple'',
     ''since'', ''sing'', ''siren'', ''sister'', ''situate'', ''six'', ''size'', ''skate'', ''sketch'', ''ski'',
     ''skill'', ''skin'', ''skirt'', ''skull'', ''slab'', ''slam'', ''sleep'', ''slender'', ''slice'',
     ''slide'', ''slight'', ''slim'', ''slogan'', ''slot'', ''slow'', ''slush'', ''small'', ''smart'',
     ''smile'', ''smoke'', ''smooth'', ''snack'', ''snake'', ''snap'', ''sniff'', ''snow'', ''soap'',
     ''soccer'', ''social'', ''sock'', ''soda'', ''soft'', ''solar'', ''soldier'', ''solid'', ''solution'',
     ''solve'', ''someone'', ''song'', ''soon'', ''sorry'', ''sort'', ''soul'', ''sound'', ''soup'']"

definition words_27 :: "string list" where
  "words_27 =
    [''source'', ''south'', ''space'', ''spare'', ''spatial'', ''spawn'', ''speak'', ''special'', ''speed'',
     ''spell'', ''spend'', ''sphere'', ''spice'', ''spider'', ''spike'', ''spin'', ''spirit'', ''split'',
     ''spoil'', ''sponsor'', ''spoon'', ''sport'', ''spot'', ''spray'', ''spread'', ''spring'', ''spy'',
     ''square'', ''squeeze'', ''squirrel'', ''stable'', ''stadium'', ''staff'', ''stage'', ''stairs'',
     ''stamp'', ''stand'', ''start'', ''state'', ''stay'', ''steak'', ''steel'', ''stem'', ''step'', ''stereo'',
     ''stick'', ''still'', ''sting'', ''stock'', ''stomach'', ''stone'', ''stool'', ''story'', ''stove'',
     ''strategy'', ''street'', ''strike'', ''strong'', ''struggle'', ''student'', ''stuff'', ''stumble'',
     ''style'', ''subject'']"

definition words_28 :: "string list" where
  "words_28 =
    [''submit'', ''subway'', ''success'', ''such'', ''sudden'', ''suffer'', ''sugar'', ''suggest'', ''suit'',
     ''summer'', ''sun'', ''sunny'', ''sunset'', ''super'', ''supply'', ''supreme'', ''sure'', ''surface'',
     ''surge'', ''surprise'', ''surround'', ''survey'', ''suspect'', ''sustain'', ''swallow'', ''swamp'',
     ''swap'', ''swarm'', ''swear'', ''sweet'', ''swift'', ''swim'', ''swing'', ''switch'', ''sword'',
     ''symbol'', ''symptom'', ''syrup'', ''system'', ''table'', ''tackle'', ''tag'', ''tail'', ''talent'',
     ''talk'', ''tank'', ''tape'', ''target'', ''task'', ''taste'', ''tattoo'', ''taxi'', ''teach'', ''team'',
     ''tell'', ''ten'', ''tenant'', ''tennis'', ''tent'', ''term'', ''test'', ''text'', ''thank'', ''that'']"

definition words_29 :: "string list" where
  "words_29 =
    [''theme'', ''then'', ''theory'', ''there'', ''they'', ''thing'', ''this'', ''thought'', ''three'',
     ''thrive'', ''throw'', ''thumb'', ''thunder'', ''ticket'', ''tide'', ''tiger'', ''tilt'', ''timber'',
     ''time'', ''tiny'', ''tip'', ''tired'', ''tissue'', ''title'', ''toast'', ''tobacco'', ''today'',
     ''toddler'', ''toe'', ''together'', ''toilet'', ''token'', ''tomato'', ''tomorrow'', ''tone'', ''tongue'',
     ''tonight'', ''tool'', ''tooth'', ''top'', ''topic'', ''topple'', ''torch'', ''tornado'', ''tortoise'',
     ''toss'', ''total'', ''tourist'', ''toward'', ''tower'', ''town'', ''toy'', ''track'', ''trade'',
     ''traffic'', ''tragic'', ''train'', ''transfer'', ''trap'', ''trash'', ''travel'', ''tray'', ''treat'',
     ''tree'']"

definition words_30 :: "string list" where
  "words_30 =
    [''trend'', ''trial'', ''tribe'', ''trick'', ''trigger'', ''trim'', ''trip'', ''trophy'', ''trouble'',
     ''truck'', ''true'', ''truly'', ''trumpet'', ''trust'', ''truth'', ''try'', ''tube'', ''tuition'',
     ''tumble'', ''tuna'', ''tunnel'', ''turkey'', ''turn'', ''turtle'', ''twelve'', ''twenty'', ''twice'',
     ''twin'', ''twist'', ''two'', ''type'', ''typical'', ''ugly'', ''umbrella'', ''unable'', ''unaware'',
     ''uncle'', ''uncover'', ''under'', ''undo'', ''unfair'', ''unfold'', ''unhappy'', ''uniform'', ''unique'',
     ''unit'', ''universe'', ''unknown'', ''unlock'', ''until'', ''unusual'', ''unveil'', ''update'',
     ''upgrade'', ''uphold'', ''upon'', ''upper'', ''upset'', ''urban'', ''urge'', ''usage'', ''use'', ''used'',
     ''useful'']"

definition words_31 :: "string list" where
  "words_31 =
    [''useless'', ''usual'', ''utility'', ''vacant'', ''vacuum'', ''vague'', ''valid'', ''valley'', ''valve'',
     ''van'', ''vanish'', ''vapor'', ''various'', ''vast'', ''vault'', ''vehicle'', ''velvet'', ''vendor'',
     ''venture'', ''venue'', ''verb'', ''verify'', ''version'', ''very'', ''vessel'', ''veteran'', ''viable'',
     ''vibrant'', ''vicious'', ''victory'', ''video'', ''view'', ''village'', ''vintage'', ''violin'',
     ''virtual'', ''virus'', ''visa'', ''visit'', ''visual'', ''vital'', ''vivid'', ''vocal'', ''voice'',
     ''void'', ''volcano'', ''volume'', ''vote'', ''voyage'', ''wage'', ''wagon'', ''wait'', ''walk'', ''wall'',
     ''walnut'', ''want'', ''warfare'', ''warm'', ''warrior'', ''wash'', ''wasp'', ''waste'', ''water'',
     ''wave'']"

definition words_32 :: "string list" where
  "words_32 =
    [''way'', ''wealth'', ''weapon'', ''wear'', ''weasel'', ''weather'', ''web'', ''wedding'', ''weekend'',
     ''weird'', ''welcome'', ''west'', ''wet'', ''whale'', ''what'', ''wheat'', ''wheel'', ''when'', ''where'',
     ''whip'', ''whisper'', ''wide'', ''width'', ''wife'', ''wild'', ''will'', ''win'', ''window'', ''wine'',
     ''wing'', ''wink'', ''winner'', ''winter'', ''wire'', ''wisdom'', ''wise'', ''wish'', ''witness'',
     ''wolf'', ''woman'', ''wonder'', ''wood'', ''wool'', ''word'', ''work'', ''world'', ''worry'', ''worth'',
     ''wrap'', ''wreck'', ''wrestle'', ''wrist'', ''write'', ''wrong'', ''yard'', ''year'', ''yellow'', ''you'',
     ''young'', ''youth'', ''zebra'', ''zero'', ''zone'', ''zoo'']"

definition BIP39_WORDS :: "string list" where
  "BIP39_WORDS = concat [words_01, words_02, words_03, words_04, words_05, words_06, words_07, words_08, words_09, words_10, words_11, words_12, words_13, words_14, words_15, words_16, words_17, words_18, words_19, words_20, words_21, words_22, words_23, words_24, words_25, words_26, words_27, words_28, words_29, words_30, words_31, words_32]"

section \<open>Its order\<close>

text \<open>The words are in alphabetical order, which one pass over each part checks.\<close>

fun word_less :: "string \<Rightarrow> string \<Rightarrow> bool" where
  "word_less _ [] = False"
| "word_less [] (_ # _) = True"
| "word_less (c # cs) (d # ds) \<longleftrightarrow> (of_char c :: nat) < of_char d \<or> c = d \<and> word_less cs ds"

fun ascending :: "string list \<Rightarrow> bool" where
  "ascending (x # y # xs) \<longleftrightarrow> word_less x y \<and> ascending (y # xs)"
| "ascending _ = True"

definition lower_word :: "string \<Rightarrow> bool" where
  "lower_word w \<longleftrightarrow> w \<noteq> [] \<and> list_all (\<lambda>c. 97 \<le> (of_char c :: nat) \<and> (of_char c :: nat) \<le> 122) w"

lemma lower_word_Cons [simp]:
  "lower_word [] = False"
  "lower_word (c # cs) \<longleftrightarrow> 97 \<le> (of_char c :: nat) \<and> (of_char c :: nat) \<le> 122 \<and> (cs = [] \<or> lower_word cs)"
  by (auto simp: lower_word_def)

definition part_ok :: "string list \<Rightarrow> string \<Rightarrow> string \<Rightarrow> bool" where
  "part_ok ws a b \<longleftrightarrow> length ws = 64 \<and> hd ws = a \<and> last ws = b \<and> ascending ws \<and> list_all lower_word ws"

lemma words_01_ok: "part_ok words_01 ''abandon'' ''among''"
  unfolding part_ok_def words_01_def by (intro conjI) simp_all

lemma words_02_ok: "part_ok words_02 ''amount'' ''avocado''"
  unfolding part_ok_def words_02_def by (intro conjI) simp_all

lemma words_03_ok: "part_ok words_03 ''avoid'' ''blood''"
  unfolding part_ok_def words_03_def by (intro conjI) simp_all

lemma words_04_ok: "part_ok words_04 ''blossom'' ''cable''"
  unfolding part_ok_def words_04_def by (intro conjI) simp_all

lemma words_05_ok: "part_ok words_05 ''cactus'' ''child''"
  unfolding part_ok_def words_05_def by (intro conjI) simp_all

lemma words_06_ok: "part_ok words_06 ''chimney'' ''copper''"
  unfolding part_ok_def words_06_def by (intro conjI) simp_all

lemma words_07_ok: "part_ok words_07 ''copy'' ''dawn''"
  unfolding part_ok_def words_07_def by (intro conjI) simp_all

lemma words_08_ok: "part_ok words_08 ''day'' ''divide''"
  unfolding part_ok_def words_08_def by (intro conjI) simp_all

lemma words_09_ok: "part_ok words_09 ''divorce'' ''elevator''"
  unfolding part_ok_def words_09_def by (intro conjI) simp_all

lemma words_10_ok: "part_ok words_10 ''elite'' ''exit''"
  unfolding part_ok_def words_10_def by (intro conjI) simp_all

lemma words_11_ok: "part_ok words_11 ''exotic'' ''fitness''"
  unfolding part_ok_def words_11_def by (intro conjI) simp_all

lemma words_12_ok: "part_ok words_12 ''fix'' ''garment''"
  unfolding part_ok_def words_12_def by (intro conjI) simp_all

lemma words_13_ok: "part_ok words_13 ''gas'' ''gun''"
  unfolding part_ok_def words_13_def by (intro conjI) simp_all

lemma words_14_ok: "part_ok words_14 ''gym'' ''husband''"
  unfolding part_ok_def words_14_def by (intro conjI) simp_all

lemma words_15_ok: "part_ok words_15 ''hybrid'' ''jewel''"
  unfolding part_ok_def words_15_def by (intro conjI) simp_all

lemma words_16_ok: "part_ok words_16 ''job'' ''lend''"
  unfolding part_ok_def words_16_def by (intro conjI) simp_all

lemma words_17_ok: "part_ok words_17 ''length'' ''margin''"
  unfolding part_ok_def words_17_def by (intro conjI) simp_all

lemma words_18_ok: "part_ok words_18 ''marine'' ''morning''"
  unfolding part_ok_def words_18_def by (intro conjI) simp_all

lemma words_19_ok: "part_ok words_19 ''mosquito'' ''obey''"
  unfolding part_ok_def words_19_def by (intro conjI) simp_all

lemma words_20_ok: "part_ok words_20 ''object'' ''paper''"
  unfolding part_ok_def words_20_def by (intro conjI) simp_all

lemma words_21_ok: "part_ok words_21 ''parade'' ''pony''"
  unfolding part_ok_def words_21_def by (intro conjI) simp_all

lemma words_22_ok: "part_ok words_22 ''pool'' ''quiz''"
  unfolding part_ok_def words_22_def by (intro conjI) simp_all

lemma words_23_ok: "part_ok words_23 ''quote'' ''retire''"
  unfolding part_ok_def words_23_def by (intro conjI) simp_all

lemma words_24_ok: "part_ok words_24 ''retreat'' ''say''"
  unfolding part_ok_def words_24_def by (intro conjI) simp_all

lemma words_25_ok: "part_ok words_25 ''scale'' ''side''"
  unfolding part_ok_def words_25_def by (intro conjI) simp_all

lemma words_26_ok: "part_ok words_26 ''siege'' ''soup''"
  unfolding part_ok_def words_26_def by (intro conjI) simp_all

lemma words_27_ok: "part_ok words_27 ''source'' ''subject''"
  unfolding part_ok_def words_27_def by (intro conjI) simp_all

lemma words_28_ok: "part_ok words_28 ''submit'' ''that''"
  unfolding part_ok_def words_28_def by (intro conjI) simp_all

lemma words_29_ok: "part_ok words_29 ''theme'' ''tree''"
  unfolding part_ok_def words_29_def by (intro conjI) simp_all

lemma words_30_ok: "part_ok words_30 ''trend'' ''useful''"
  unfolding part_ok_def words_30_def by (intro conjI) simp_all

lemma words_31_ok: "part_ok words_31 ''useless'' ''wave''"
  unfolding part_ok_def words_31_def by (intro conjI) simp_all

lemma words_32_ok: "part_ok words_32 ''way'' ''zoo''"
  unfolding part_ok_def words_32_def by (intro conjI) simp_all

lemmas parts_ok = words_01_ok words_02_ok words_03_ok words_04_ok words_05_ok words_06_ok words_07_ok words_08_ok words_09_ok words_10_ok words_11_ok words_12_ok words_13_ok words_14_ok words_15_ok words_16_ok words_17_ok words_18_ok words_19_ok words_20_ok words_21_ok words_22_ok words_23_ok words_24_ok words_25_ok words_26_ok words_27_ok words_28_ok words_29_ok words_30_ok words_31_ok words_32_ok

lemma word_less_trans: "word_less a b \<Longrightarrow> word_less b c \<Longrightarrow> word_less a c"
proof (induction a b arbitrary: c rule: word_less.induct)
  case (2 d ds)
  then show ?case by (cases c) simp_all
next
  case (3 x xs y ys)
  then show ?case by (cases c) auto
qed simp

lemma word_less_irrefl [simp]: "\<not> word_less a a"
  by (induction a) simp_all

lemma ascending_append:
  "xs \<noteq> [] \<Longrightarrow> ys \<noteq> [] \<Longrightarrow> ascending (xs @ ys) \<longleftrightarrow> ascending xs \<and> word_less (last xs) (hd ys) \<and> ascending ys"
proof (induction xs)
  case step: (Cons x xs)
  show ?case
  proof (cases xs)
    case Nil
    then show ?thesis using step.prems by (cases ys) auto
  next
    case (Cons x' xs')
    then show ?thesis using step.IH step.prems by auto
  qed
qed simp

lemma ascending_distinct:
  assumes "ascending xs"
  shows "distinct xs"
  using assms
proof (induction xs)
  case (Cons x xs)
  have "ascending (x # xs) \<Longrightarrow> y \<in> set xs \<Longrightarrow> word_less x y" for x y xs
    by (induction xs arbitrary: x) (auto intro: word_less_trans)
  then have "x \<notin> set xs" using Cons.prems word_less_irrefl by blast
  moreover have "ascending xs" using Cons.prems by (cases xs) simp_all
  ultimately show ?case using Cons.IH by simp
qed simp

lemma words_facts: "length BIP39_WORDS = 2048" "distinct BIP39_WORDS" "list_all lower_word BIP39_WORDS"
proof -
  have p: "ws \<noteq> []" "length ws = 64" "hd ws = a" "last ws = b" "ascending ws" "list_all lower_word ws" if "part_ok ws a b" for ws a b
    using that by (auto simp: part_ok_def)
  have "ascending BIP39_WORDS" unfolding BIP39_WORDS_def
    by (simp add: ascending_append parts_ok [THEN p(1)] parts_ok [THEN p(3)] parts_ok [THEN p(4)] parts_ok [THEN p(5)] hd_append)
  then show "distinct BIP39_WORDS" by (rule ascending_distinct)
  show "length BIP39_WORDS = 2048" by (simp add: BIP39_WORDS_def parts_ok [THEN p(2)])
  show "list_all lower_word BIP39_WORDS" by (simp add: BIP39_WORDS_def parts_ok [THEN p(6)])
qed

end
