(* ===== verification/Seed_Phrase.thy ===== *)
theory Seed_Phrase
  imports Bip39_Words Crypto_Ext Decimal
begin

text \<open>
  Seed phrases (\<open>crypto/src/keys/seed_phrase.rs\<close>) and the spend seed that is derived from one
  (\<open>crypto/src/keys/spend.rs\<close>).  The phrases that the checksum accepts are exactly those of 32 random bytes,
  and each phrase stands for one choice of them.  Text is ASCII.
\<close>

unbundle bit_operations_syntax

section \<open>Bits and words\<close>

definition NUM_PBKDF2_ROUNDS :: u32 where "NUM_PBKDF2_ROUNDS = 2048"
definition NUM_WORDS :: nat where "NUM_WORDS = 24"
definition NUM_ENTROPY_BITS :: nat where "NUM_ENTROPY_BITS = 256"
definition NUM_CHECKSUM_BITS :: nat where "NUM_CHECKSUM_BITS = 8"
definition NUM_TOTAL_BITS :: nat where "NUM_TOTAL_BITS = NUM_ENTROPY_BITS + NUM_CHECKSUM_BITS"
definition NUM_BITS_PER_WORD :: nat where "NUM_BITS_PER_WORD = 11"
definition NUM_BITS_PER_BYTE :: nat where "NUM_BITS_PER_BYTE = 8"

lemmas seed_constants = NUM_WORDS_def NUM_ENTROPY_BITS_def NUM_CHECKSUM_BITS_def NUM_TOTAL_BITS_def NUM_BITS_PER_WORD_def
  NUM_BITS_PER_BYTE_def

definition convert_bits_to_usize :: "bool list \<Rightarrow> nat" where
  "convert_bits_to_usize bits =
     sum_list (map (\<lambda>(i, bit). if bit then 2 ^ (length bits - 1 - i) else 0) (enumerate 0 bits))"

type_synonym seed_phrase = "string list"

definition from_randomness :: "crypto \<Rightarrow> bytes \<Rightarrow> seed_phrase" where
  "from_randomness C randomness =
     (let checksum = sha256 C randomness ! 0;
          bits = map (\<lambda>i. 0 < randomness ! (i div NUM_BITS_PER_BYTE) AND push_bit (7 - i mod NUM_BITS_PER_BYTE) 1) [0..<NUM_ENTROPY_BITS]
               @ map (\<lambda>i. 0 < checksum AND push_bit (7 - i mod NUM_BITS_PER_BYTE) 1) [0..<NUM_CHECKSUM_BITS] in
      map (\<lambda>i. BIP39_WORDS ! convert_bits_to_usize (slice (i * NUM_BITS_PER_WORD) ((i + 1) * NUM_BITS_PER_WORD) bits)) [0..<NUM_WORDS])"

text \<open>The position of the first element that is equal.\<close>

fun position :: "'a \<Rightarrow> 'a list \<Rightarrow> nat" where
  "position x [] = 0"
| "position x (y # ys) = (if y = x then 0 else Suc (position x ys))"

definition word_bits :: "string \<Rightarrow> bool list result" where
  "word_bits word =
     (if word \<notin> set BIP39_WORDS then Inl (Err ''invalid word in BIP39 seed phrase'')
      else
        let word_index = position word BIP39_WORDS in
        Inr (map (\<lambda>j. drop_bit (NUM_BITS_PER_WORD - 1 - j) word_index AND 1 = 1) [0..<NUM_BITS_PER_WORD]))"

definition verify_checksum :: "crypto \<Rightarrow> seed_phrase \<Rightarrow> unit result" where
  "verify_checksum C phrase =
     bindR (mapR word_bits phrase) (\<lambda>bs.
     let bits = concat bs;
         randomness = map (\<lambda>i. of_nat (convert_bits_to_usize (slice (i * NUM_BITS_PER_BYTE) ((i + 1) * NUM_BITS_PER_BYTE) bits)))
           [0..<NUM_ENTROPY_BITS div NUM_BITS_PER_BYTE];
         checksum = of_nat (convert_bits_to_usize (drop NUM_ENTROPY_BITS bits)) in
     if sha256 C randomness ! 0 \<noteq> checksum then Inl (Err ''seed phrase checksum did not validate'') else Inr ())"

section \<open>Text\<close>

fun seed_phrase_to_string :: "seed_phrase \<Rightarrow> string" where
  "seed_phrase_to_string [] = []"
| "seed_phrase_to_string [w] = w"
| "seed_phrase_to_string (w # ws) = w @ '' '' @ seed_phrase_to_string ws"

definition is_whitespace :: "char \<Rightarrow> bool" where
  "is_whitespace c \<longleftrightarrow> (of_char c :: nat) = 32 \<or> (9 \<le> (of_char c :: nat) \<and> (of_char c :: nat) \<le> 13)"

fun split_words :: "string \<Rightarrow> string \<Rightarrow> string list" where
  "split_words w [] = (if w = [] then [] else [w])"
| "split_words w (c # cs) =
     (if is_whitespace c then (if w = [] then split_words [] cs else w # split_words [] cs) else split_words (w @ [c]) cs)"

definition split_whitespace :: "string \<Rightarrow> string list" where
  "split_whitespace s = split_words [] s"

definition to_lowercase :: "string \<Rightarrow> string" where
  "to_lowercase = map (\<lambda>c. if 65 \<le> (of_char c :: nat) \<and> (of_char c :: nat) \<le> 90 then char_of (of_char c + 32 :: nat) else c)"

definition seed_phrase_of_string :: "crypto \<Rightarrow> string \<Rightarrow> seed_phrase result" where
  "seed_phrase_of_string C s =
     (let words = map to_lowercase (split_whitespace s) in
      if length words \<noteq> NUM_WORDS then Inl (Err ''seed phrases should have 24 words'')
      else bindR (verify_checksum C words) (\<lambda>_. Inr words))"

definition from_seed_phrase :: "crypto \<Rightarrow> seed_phrase \<Rightarrow> u64 \<Rightarrow> bytes" where
  "from_seed_phrase C phrase index =
     pbkdf2 C (ascii (seed_phrase_to_string phrase)) (ascii (''mnemonic'' @ show_nat (unat index))) NUM_PBKDF2_ROUNDS"

section \<open>Big-endian bits\<close>

definition be_bits :: "nat \<Rightarrow> nat \<Rightarrow> bool list" where
  "be_bits w n = map (\<lambda>j. bit n (w - 1 - j)) [0..<w]"

lemma length_be_bits [simp]: "length (be_bits w n) = w"
  by (simp add: be_bits_def)

lemma rev_be_bits: "rev (be_bits w n) = map (bit n) [0..<w]"
  by (rule nth_equalityI) (simp_all add: be_bits_def rev_nth)

lemma convert_horner: "convert_bits_to_usize bits = horner_sum of_bool 2 (rev bits)"
proof (induction bits)
  case (Cons b bs)
  have "map (\<lambda>(i, bit). if bit then 2 ^ (length (b # bs) - 1 - i) else 0 :: nat) (enumerate 1 bs)
      = map (\<lambda>(i, bit). if bit then 2 ^ (length bs - 1 - i) else 0) (enumerate 0 bs)"
    by (rule nth_equalityI) (simp_all add: nth_enumerate_eq)
  then have "convert_bits_to_usize (b # bs) = of_bool b * 2 ^ length bs + convert_bits_to_usize bs"
    by (simp add: convert_bits_to_usize_def)
  with Cons show ?case by (simp add: horner_sum_append)
qed (simp add: convert_bits_to_usize_def)

lemma convert_be_bits: "convert_bits_to_usize (be_bits w n) = take_bit w n"
  by (simp add: convert_horner rev_be_bits horner_sum_bit_eq_take_bit)

lemma be_bits_convert: "length bs = w \<Longrightarrow> be_bits w (convert_bits_to_usize bs) = bs"
  by (rule nth_equalityI) (simp_all add: be_bits_def convert_horner bit_horner_sum_bit_iff rev_nth)

lemma convert_less: "convert_bits_to_usize bs < 2 ^ length bs"
proof -
  have "take_bit (length bs) (convert_bits_to_usize bs) = convert_bits_to_usize bs"
    using convert_be_bits [of "length bs" "convert_bits_to_usize bs"] by (simp add: be_bits_convert)
  then show ?thesis by (metis take_bit_nat_less_exp)
qed

section \<open>Slices\<close>

definition slices :: "nat \<Rightarrow> nat \<Rightarrow> 'a list \<Rightarrow> 'a list list" where
  "slices n k xs = map (\<lambda>i. slice (i * k) ((i + 1) * k) xs) [0..<n]"

lemma slices_Suc: "slices (Suc n) k xs = take k xs # slices n k (drop k xs)"
proof -
  have "[0..<Suc n] = 0 # map Suc [0..<n]" by (simp add: upt_conv_Cons map_Suc_upt del: upt_Suc)
  then show ?thesis by (simp add: slices_def slice_def comp_def add.commute)
qed

lemma concat_slices: "length xs = n * k \<Longrightarrow> concat (slices n k xs) = xs"
proof (induction n arbitrary: xs)
  case (Suc n)
  then show ?case by (simp add: slices_Suc)
qed (simp add: slices_def)

lemma slices_concat: "\<forall>ys \<in> set yss. length ys = k \<Longrightarrow> slices (length yss) k (concat yss) = yss"
  by (induction yss) (simp_all add: slices_Suc, simp add: slices_def)

lemma length_slices:
  assumes "length xs = n * k" and "ys \<in> set (slices n k xs)"
  shows "length ys = k"
  using assms
proof (induction n arbitrary: xs)
  case (Suc n)
  then have "length (drop k xs) = n * k" by simp
  from Suc.IH [OF this] Suc.prems show ?case by (auto simp: slices_Suc)
qed (simp add: slices_def)

section \<open>Bytes, bits and words\<close>

definition bytes_bits :: "bytes \<Rightarrow> bool list" where
  "bytes_bits bs = concat (map (be_bits 8 \<circ> unat) bs)"

definition bits_bytes :: "nat \<Rightarrow> bool list \<Rightarrow> bytes" where
  "bits_bytes n bits = map (of_nat \<circ> convert_bits_to_usize) (slices n 8 bits)"

lemma length_bytes_bits [simp]: "length (bytes_bits bs) = length bs * 8"
  by (induction bs) (simp_all add: bytes_bits_def)

lemma bits_bytes_bits: "bits_bytes (length bs) (bytes_bits bs) = bs"
proof -
  have "slices (length bs) 8 (bytes_bits bs) = map (be_bits 8 \<circ> unat) bs"
    unfolding bytes_bits_def using slices_concat [of "map (be_bits 8 \<circ> unat) bs" 8] by simp
  moreover have "of_nat (take_bit 8 (unat b)) = b" for b :: u8
    using unsigned_less [of b, where 'a = nat] by (simp add: take_bit_nat_eq_self)
  ultimately show ?thesis by (simp add: bits_bytes_def convert_be_bits map_idI)
qed

lemma bytes_bits_bytes:
  assumes "length bits = n * 8"
  shows "bytes_bits (bits_bytes n bits) = bits"
proof -
  have "be_bits 8 (unat (of_nat (convert_bits_to_usize ys) :: u8)) = ys" if "ys \<in> set (slices n 8 bits)" for ys
  proof -
    have l: "length ys = 8" by (rule length_slices [OF assms that])
    then have "convert_bits_to_usize ys < 256" using convert_less [of ys] by simp
    then show ?thesis using be_bits_convert [OF l] by (simp add: unat_of_nat take_bit_nat_eq_self)
  qed
  then have "map (be_bits 8 \<circ> unat) (bits_bytes n bits) = slices n 8 bits" by (simp add: bits_bytes_def map_idI)
  then show ?thesis by (simp add: bytes_bits_def concat_slices [OF assms])
qed

definition words_bits :: "seed_phrase \<Rightarrow> bool list" where
  "words_bits p = concat (map (\<lambda>w. be_bits 11 (position w BIP39_WORDS)) p)"

definition bits_words :: "nat \<Rightarrow> bool list \<Rightarrow> seed_phrase" where
  "bits_words n bits = map (\<lambda>ys. BIP39_WORDS ! convert_bits_to_usize ys) (slices n 11 bits)"

lemma position_nth: "distinct xs \<Longrightarrow> i < length xs \<Longrightarrow> position (xs ! i) xs = i"
  by (induction xs arbitrary: i) (auto simp: nth_Cons split: nat.splits)

lemma position_less: "x \<in> set xs \<Longrightarrow> position x xs < length xs"
  by (induction xs) auto

lemma nth_position: "x \<in> set xs \<Longrightarrow> xs ! position x xs = x"
  by (induction xs) auto

lemma length_words_bits [simp]: "length (words_bits p) = length p * 11"
  by (induction p) (simp_all add: words_bits_def)

lemma bits_words_bits:
  assumes "set p \<subseteq> set BIP39_WORDS"
  shows "bits_words (length p) (words_bits p) = p"
proof -
  have "slices (length p) 11 (words_bits p) = map (\<lambda>w. be_bits 11 (position w BIP39_WORDS)) p"
    unfolding words_bits_def using slices_concat [of "map (\<lambda>w. be_bits 11 (position w BIP39_WORDS)) p" 11] by simp
  moreover have "BIP39_WORDS ! take_bit 11 (position w BIP39_WORDS) = w" if "w \<in> set p" for w
  proof -
    have w: "w \<in> set BIP39_WORDS" using that assms by blast
    then have "position w BIP39_WORDS < 2048" using position_less [OF w] by (simp add: words_facts(1))
    then show ?thesis using nth_position [OF w] by (simp add: take_bit_nat_eq_self)
  qed
  ultimately show ?thesis by (simp add: bits_words_def convert_be_bits map_idI)
qed

lemma words_bits_words:
  assumes "length bits = n * 11"
  shows "set (bits_words n bits) \<subseteq> set BIP39_WORDS" and "words_bits (bits_words n bits) = bits" and "length (bits_words n bits) = n"
proof -
  have less: "convert_bits_to_usize ys < length BIP39_WORDS" if "ys \<in> set (slices n 11 bits)" for ys
    using convert_less [of ys] length_slices [OF assms that] by (simp add: words_facts(1))
  then show "set (bits_words n bits) \<subseteq> set BIP39_WORDS" by (auto simp: bits_words_def)
  show "length (bits_words n bits) = n" by (simp add: bits_words_def slices_def)
  have "be_bits 11 (position (BIP39_WORDS ! convert_bits_to_usize ys) BIP39_WORDS) = ys" if "ys \<in> set (slices n 11 bits)" for ys
    using position_nth [OF words_facts(2) less [OF that]] be_bits_convert [OF length_slices [OF assms that]] by simp
  then have "map (\<lambda>w. be_bits 11 (position w BIP39_WORDS)) (bits_words n bits) = slices n 11 bits" by (simp add: bits_words_def map_idI)
  then show "words_bits (bits_words n bits) = bits" by (simp add: words_bits_def concat_slices [OF assms])
qed

section \<open>The two directions\<close>

lemma and_bit_pos: "0 < (b :: u8) AND push_bit k 1 \<longleftrightarrow> bit b k"
  unfolding bit_iff_and_push_bit_not_eq_0 by (simp only: word_gt_0 neq_commute)

lemma nth_bytes_bits: "i < length bs * 8 \<Longrightarrow> bytes_bits bs ! i = bit (bs ! (i div 8)) (7 - i mod 8)"
proof (induction bs arbitrary: i)
  case (Cons b bs)
  have e: "bytes_bits (b # bs) = be_bits 8 (unat b) @ bytes_bits bs" by (simp add: bytes_bits_def)
  show ?case
  proof (cases "i < 8")
    case True
    then show ?thesis by (simp add: e nth_append be_bits_def bit_unsigned_iff)
  next
    case False
    have "(i - 8) mod 8 = i mod 8" "i div 8 = Suc ((i - 8) div 8)" using False by (simp_all add: le_mod_geq le_div_geq)
    then show ?thesis using False Cons.IH [of "i - 8"] Cons.prems by (simp add: e nth_append)
  qed
qed simp

lemma from_randomness_bits:
  assumes "length r = 32"
  shows "from_randomness C r = bits_words 24 (bytes_bits (r @ [sha256 C r ! 0]))"
proof -
  have "map (\<lambda>i. 0 < r ! (i div 8) AND push_bit (7 - i mod 8) 1) [0..<256] = bytes_bits r"
    using assms by (intro nth_equalityI) (simp_all only: length_map length_upt length_bytes_bits nth_map nth_upt and_bit_pos nth_bytes_bits, simp_all)
  moreover have "map (\<lambda>i. 0 < sha256 C r ! 0 AND push_bit (7 - i mod 8) 1) [0..<8] = bytes_bits [sha256 C r ! 0]"
    by (intro nth_equalityI) (simp_all only: length_map length_upt length_bytes_bits nth_map nth_upt and_bit_pos, simp_all add: nth_bytes_bits)
  moreover have "bytes_bits (xs @ ys) = bytes_bits xs @ bytes_bits ys" for xs ys by (simp add: bytes_bits_def)
  ultimately show ?thesis
    by (simp only: from_randomness_def Let_def seed_constants bits_words_def slices_def map_map comp_def)
qed

lemma word_bits_ok: "word_bits w = (if w \<in> set BIP39_WORDS then Inr (be_bits 11 (position w BIP39_WORDS)) else Inl (Err ''invalid word in BIP39 seed phrase''))"
proof -
  have "drop_bit k n AND 1 = 1 \<longleftrightarrow> bit n k" for k n :: nat
    by (simp add: bit_iff_odd_drop_bit and_one_eq odd_iff_mod_2_eq_one)
  then show ?thesis by (simp add: word_bits_def be_bits_def seed_constants)
qed

lemma verify_checksum_bits:
  assumes "length p = 24"
  shows "verify_checksum C p = Inr () \<longleftrightarrow> set p \<subseteq> set BIP39_WORDS
    \<and> (\<exists>r c. length r = 32 \<and> bits_bytes 33 (words_bits p) = r @ [c] \<and> sha256 C r ! 0 = c)"
proof (cases "set p \<subseteq> set BIP39_WORDS")
  case False
  then have "mapR word_bits p \<noteq> Inr bs" for bs
    by (auto simp: mapR_Inr_nth list_all2_conv_all_nth word_bits_ok subset_iff in_set_conv_nth split: if_splits)
  with False show ?thesis by (auto simp: verify_checksum_def result_simps)
next
  case True
  then have m: "mapR word_bits p = Inr (map (\<lambda>w. be_bits 11 (position w BIP39_WORDS)) p)"
    by (induction p) (simp_all add: word_bits_ok)
  let ?bits = "words_bits p"
  have len: "length ?bits = 264" using assms by simp
  have "drop 256 ?bits = slice (32 * 8) ((32 + 1) * 8) ?bits" using len by (simp add: slice_def)
  then have "bits_bytes 33 ?bits = map (\<lambda>i. of_nat (convert_bits_to_usize (slice (i * 8) ((i + 1) * 8) ?bits))) [0..<32]
      @ [of_nat (convert_bits_to_usize (drop 256 ?bits))]"
    using upt_Suc_append [of 0 32] by (simp add: bits_bytes_def slices_def comp_def)
  with True m show ?thesis
    by (auto simp: verify_checksum_def Let_def seed_constants words_bits_def [symmetric])
qed

lemma bytes_of_randomness:
  assumes "length r = 32"
  shows "set (from_randomness C r) \<subseteq> set BIP39_WORDS" and "length (from_randomness C r) = 24"
    and "bits_bytes 33 (words_bits (from_randomness C r)) = r @ [sha256 C r ! 0]"
proof -
  have l: "length (bytes_bits (r @ [sha256 C r ! 0])) = 24 * 11" using assms by simp
  note w = words_bits_words [OF l, folded from_randomness_bits [OF assms]]
  show "set (from_randomness C r) \<subseteq> set BIP39_WORDS" "length (from_randomness C r) = 24" by (rule w(1), rule w(3))
  show "bits_bytes 33 (words_bits (from_randomness C r)) = r @ [sha256 C r ! 0]"
    using bits_bytes_bits [of "r @ [sha256 C r ! 0]"] assms by (simp add: w(2))
qed

lemma randomness_inj:
  assumes "length r = 32" and "length r' = 32" and "from_randomness C r = from_randomness C r'"
  shows "r = r'"
proof -
  have "r @ [sha256 C r ! 0] = r' @ [sha256 C r' ! 0]"
    using bytes_of_randomness(3) [OF assms(1), of C] bytes_of_randomness(3) [OF assms(2), of C] unfolding assms(3) by (rule trans [OF sym])
  then show ?thesis by simp
qed

lemma verify_checksum_exact:
  assumes "length p = 24"
  shows "verify_checksum C p = Inr () \<longleftrightarrow> (\<exists>r. length r = 32 \<and> p = from_randomness C r)"
proof
  assume "verify_checksum C p = Inr ()"
  then obtain r where w: "set p \<subseteq> set BIP39_WORDS" and r: "length r = 32" "bits_bytes 33 (words_bits p) = r @ [sha256 C r ! 0]"
    using verify_checksum_bits [OF assms] by auto
  have "bytes_bits (r @ [sha256 C r ! 0]) = words_bits p"
    using bytes_bits_bytes [of "words_bits p" 33] assms by (simp add: r(2))
  then have "from_randomness C r = p" using bits_words_bits [OF w] assms by (simp add: from_randomness_bits [OF r(1)])
  with r(1) show "\<exists>r. length r = 32 \<and> p = from_randomness C r" by blast
next
  assume "\<exists>r. length r = 32 \<and> p = from_randomness C r"
  then obtain r where r: "length r = 32" "p = from_randomness C r" by blast
  show "verify_checksum C p = Inr ()"
    unfolding verify_checksum_bits [OF assms] using bytes_of_randomness(1,3) [OF r(1), of C] r(1) unfolding r(2) [symmetric] by blast
qed

section \<open>Reading back\<close>

lemma split_words_word: "\<forall>c \<in> set w. \<not> is_whitespace c \<Longrightarrow> split_words v (w @ s) = split_words (v @ w) s"
  by (induction w arbitrary: v) simp_all

lemma lower_word_chars:
  assumes "lower_word w"
  shows "w \<noteq> []" and "\<forall>c \<in> set w. \<not> is_whitespace c" and "to_lowercase w = w"
proof -
  have c: "97 \<le> (of_char c :: nat)" "(of_char c :: nat) \<le> 122" if "c \<in> set w" for c
    using assms that by (auto simp: lower_word_def list_all_iff)
  show "w \<noteq> []" using assms by auto
  show "\<forall>c \<in> set w. \<not> is_whitespace c" using c by (force simp: is_whitespace_def)
  show "to_lowercase w = w" using c by (force simp: to_lowercase_def intro!: map_idI)
qed

lemma split_phrase: "\<forall>w \<in> set p. lower_word w \<Longrightarrow> split_whitespace (seed_phrase_to_string p) = p"
  unfolding split_whitespace_def
proof (induction p rule: seed_phrase_to_string.induct)
  case (2 w)
  then show ?case using lower_word_chars [of w] split_words_word [of w "[]" "[]"] by simp
next
  case (3 w v ws)
  have "is_whitespace CHR '' ''" by (simp add: is_whitespace_def)
  then show ?case using 3 lower_word_chars [of w] split_words_word [of w "[]"] by simp
qed simp

lemma to_lowercase_Nil [simp]: "to_lowercase [] = []"
  by (simp add: to_lowercase_def)

lemma lowercase_split: "map to_lowercase (split_words w s) = split_words (to_lowercase w) (to_lowercase s)"
proof (induction s arbitrary: w)
  case (Cons c s)
  let ?c = "if 65 \<le> (of_char c :: nat) \<and> (of_char c :: nat) \<le> 90 then char_of (of_char c + 32 :: nat) else c"
  have "is_whitespace ?c \<longleftrightarrow> is_whitespace c" by (auto simp: is_whitespace_def of_char_of)
  then show ?case using Cons [of "[]"] Cons [of "w @ [c]"] by (auto simp: to_lowercase_def)
qed (simp add: to_lowercase_def)

lemma read_phrase:
  assumes r: "length r = 32" and s: "to_lowercase s = seed_phrase_to_string (from_randomness C r)"
  shows "seed_phrase_of_string C s = Inr (from_randomness C r)"
proof -
  let ?p = "from_randomness C r"
  have "\<forall>w \<in> set ?p. lower_word w" using bytes_of_randomness(1) [OF r, of C] words_facts(3) by (auto simp: list_all_iff)
  then have "map to_lowercase (split_whitespace s) = ?p"
    using split_phrase [of ?p] lowercase_split [of "[]" s] s by (simp add: split_whitespace_def)
  moreover have "verify_checksum C ?p = Inr ()" using verify_checksum_exact bytes_of_randomness(2) [OF r] r by blast
  ultimately show ?thesis using bytes_of_randomness(2) [OF r, of C] by (simp add: seed_phrase_of_string_def NUM_WORDS_def)
qed

text \<open>
  C13: seed phrases are faithful.  Twenty-four words are accepted exactly if they are the phrase of 32 random bytes,
  and then of no others; an accepted phrase that is written down and typed in again, in any mixture of cases,
  is read as the same phrase.
\<close>

theorem seed_phrase_exact:
  assumes "length p = 24"
  shows "(verify_checksum C p = Inr () \<longleftrightarrow> (\<exists>!r. length r = 32 \<and> p = from_randomness C r))
    \<and> (verify_checksum C p = Inr () \<longrightarrow> (\<forall>s. to_lowercase s = seed_phrase_to_string p \<longrightarrow> seed_phrase_of_string C s = Inr p))"
  unfolding verify_checksum_exact [OF assms] using randomness_inj read_phrase by blast

end
