(* ===== verification/Pcli.thy ===== *)
theory Pcli
  imports Wallet_Store Seed_Phrase
begin

text \<open>
  The command line client (\<open>pcli/src\<close>): the wallet file and its checkpoints (\<open>state.rs\<close>), synchronisation and
  fetching (\<open>sync.rs\<close>, \<open>fetch.rs\<close>), submission of transactions (\<open>network.rs\<close>), and the commands
  (\<open>command/\<close>).  The answers of the node and the clock are arguments.  A command that fails returns its error
  together with the file, because what was committed before stays on disk.
\<close>

section \<open>The wallet file\<close>

text \<open>The state in memory and the structure on disk, if there is a file.  A commit replaces the file atomically.\<close>

record client_file =
  cf_state :: client_state
  cf_disk :: "client_state_helper option"

definition file_commit :: "crypto \<Rightarrow> codecs \<Rightarrow> client_file \<Rightarrow> client_file" where
  "file_commit C K f = f\<lparr>cf_disk := Some (client_state_to_helper C K (cf_state f))\<rparr>"

definition file_save :: "crypto \<Rightarrow> codecs \<Rightarrow> client_state \<Rightarrow> client_file" where
  "file_save C K s = file_commit C K \<lparr>cf_state = s, cf_disk = None\<rparr>"

definition file_load :: "crypto \<Rightarrow> codecs \<Rightarrow> system_time \<Rightarrow> client_state_helper option \<Rightarrow> client_file result" where
  "file_load C K now disk =
     (case disk of
        None \<Rightarrow> Inl (Err ''Wallet data not found, run `pcli wallet generate` to generate Penumbra keys'')
      | Some h \<Rightarrow>
          bindR (contextR ''Could not parse wallet data'' (client_state_of_helper C K h)) (\<lambda>s.
          Inr \<lparr>cf_state = prune_timeouts now s, cf_disk = disk\<rparr>))"

section \<open>Synchronisation\<close>

text \<open>The messages of the stream, up to its end or an error; every thousandth block is a checkpoint.\<close>

fun sync_blocks ::
  "crypto \<Rightarrow> codecs \<Rightarrow> compact_block_pb result list \<Rightarrow> nat \<Rightarrow> client_file \<Rightarrow> unit result \<times> client_file" where
  "sync_blocks C K [] k f = (Inr (), f)"
| "sync_blocks C K (m # ms) k f =
     bindS (m, f) (\<lambda>block f.
     bindS (bindR (compact_block_of_proto C block) (\<lambda>block. scan_block C block (cf_state f)), f) (\<lambda>s f.
     let f = f\<lparr>cf_state := s\<rparr>;
         k = k + 1 in
     sync_blocks C K ms k (if k mod 1000 = 1 then file_commit C K f else f)))"

definition sync_start :: "client_state \<Rightarrow> u64" where
  "sync_start s = (case cs_last_block_height s of Some h \<Rightarrow> h + 1 | None \<Rightarrow> 0)"

text \<open>
  The last log message takes the height out of its option, but only if messages of level info are
  recorded, which is the argument \<open>info\<close>.  (The message of a checkpoint follows a scan, when there is a height.)
\<close>

definition pcli_sync ::
  "crypto \<Rightarrow> codecs \<Rightarrow> bool \<Rightarrow> system_time \<Rightarrow> (u64 \<Rightarrow> string \<Rightarrow> compact_block_pb result list result) \<Rightarrow> client_file \<Rightarrow> unit result \<times> client_file" where
  "pcli_sync C K info now compact_block_range f =
     bindS (ok_or (Err ''missing chain_id'') (client_chain_id (cf_state f)), f) (\<lambda>cid f.
     bindS (compact_block_range (sync_start (cf_state f)) cid, f) (\<lambda>stream f.
     bindS (sync_blocks C K stream 0 f) (\<lambda>_ f.
     let f = file_commit C K (f\<lparr>cf_state := prune_timeouts now (cf_state f)\<rparr>) in
     if info \<and> cs_last_block_height (cf_state f) = None then (Inl (Panic ''called `Option::unwrap()` on a `None` value''), f)
     else (Inr (), f))))"

definition fetch_assets ::
  "crypto \<Rightarrow> codecs \<Rightarrow> (string \<Rightarrow> denom list result) \<Rightarrow> client_file \<Rightarrow> unit result \<times> client_file" where
  "fetch_assets C K asset_list f =
     bindS (asset_list (case client_chain_id (cf_state f) of Some cid \<Rightarrow> cid | None \<Rightarrow> ''''), f) (\<lambda>assets f.
     let s = cf_state f in
     (Inr (), file_commit C K (f\<lparr>cf_state := s\<lparr>cs_asset_cache := cache_extend assets (cs_asset_cache s)\<rparr>\<rparr>)))"

definition fetch_chain_params ::
  "crypto \<Rightarrow> codecs \<Rightarrow> (string \<Rightarrow> chain_params result) \<Rightarrow> client_file \<Rightarrow> unit result \<times> client_file" where
  "fetch_chain_params C K chain_params f =
     bindS (chain_params (case client_chain_id (cf_state f) of Some cid \<Rightarrow> cid | None \<Rightarrow> ''''), f) (\<lambda>params f.
     (Inr (), file_commit C K (f\<lparr>cf_state := (cf_state f)\<lparr>cs_chain_params := Some params\<rparr>\<rparr>)))"

section \<open>Submission\<close>

text \<open>
  What is read of the node's JSON answer: the object under \<open>result\<close>, or the answer itself if there is none,
  and in it \<open>code\<close> and \<open>log\<close>.
\<close>

record rpc_object =
  rpc_code :: "int option"
  rpc_log :: "string option"

record rpc_answer =
  rpc_bare :: rpc_object
  rpc_result :: "rpc_object option"

definition show_int :: "int \<Rightarrow> string" where
  "show_int i = (if i < 0 then CHR ''-'' # show_nat (nat (- i)) else show_nat (nat i))"

definition submit_transaction :: "(transaction \<Rightarrow> rpc_answer result) \<Rightarrow> transaction \<Rightarrow> unit result" where
  "submit_transaction post tx =
     bindR (post tx) (\<lambda>rsp.
     let r = (case rpc_result rsp of Some r \<Rightarrow> r | None \<Rightarrow> rpc_bare rsp) in
     bindR (ok_or (Err ''could not parse JSON response'') (rpc_code r)) (\<lambda>code.
     if code = 0 then Inr ()
     else bindR (ok_or (Err ''could not parse JSON response'') (rpc_log r)) (\<lambda>log. Inl (Err (''Error submitting transaction: code '' @ show_int code @ '', log: '' @ log)))))"

definition submit_transaction_unconfirmed :: "(transaction \<Rightarrow> rpc_answer result) \<Rightarrow> transaction \<Rightarrow> unit result" where
  "submit_transaction_unconfirmed post tx = bindR (post tx) (\<lambda>_. Inr ())"

text \<open>The end of the commands that build a transaction: it is submitted, and the state is saved if that succeeded.\<close>

definition in_file :: "'a result \<times> client_state \<Rightarrow> client_file \<Rightarrow> 'a result \<times> client_file" where
  "in_file m f = (fst m, f\<lparr>cf_state := snd m\<rparr>)"

definition submit_and_commit ::
  "crypto \<Rightarrow> codecs \<Rightarrow> (transaction \<Rightarrow> rpc_answer result) \<Rightarrow> transaction \<times> rng \<Rightarrow> client_file \<Rightarrow> transaction result \<times> client_file" where
  "submit_and_commit C K post txg f =
     bindS (submit_transaction post (fst txg), f) (\<lambda>_ f. (Inr (fst txg), file_commit C K f))"

section \<open>Commands that send transactions\<close>

definition tx_send ::
  "ext \<Rightarrow> codecs \<Rightarrow> (denom_map \<Rightarrow> denom_map) \<Rightarrow> system_time \<Rightarrow> rng \<Rightarrow> (transaction \<Rightarrow> rpc_answer result)
     \<Rightarrow> string list \<Rightarrow> string \<Rightarrow> u64 \<Rightarrow> u64 option \<Rightarrow> string option \<Rightarrow> client_file \<Rightarrow> transaction result \<times> client_file" where
  "tx_send X K hash_iter now g post vals to fee source tx_memo f =
     (let C = x_crypto X in
      bindS (mapR (value_of_string C) vals, f) (\<lambda>vals f.
      bindS (or_err ''address is invalid'' (address_of_string C to), f) (\<lambda>dest f.
      bindS (in_file (build_send X hash_iter now g vals fee dest source tx_memo (cf_state f)) f) (\<lambda>tx f.
      submit_and_commit C K post tx f))))"

definition stake_delegate ::
  "ext \<Rightarrow> codecs \<Rightarrow> system_time \<Rightarrow> rng \<Rightarrow> (identity_key \<Rightarrow> rate_data result) \<Rightarrow> (transaction \<Rightarrow> rpc_answer result)
     \<Rightarrow> string \<Rightarrow> string \<Rightarrow> u64 \<Rightarrow> u64 option \<Rightarrow> client_file \<Rightarrow> transaction result \<times> client_file" where
  "stake_delegate X K now g next_validator_rate post to amount fee source f =
     (let C = x_crypto X in
      bindS (value_of_string C amount, f) (\<lambda>v f.
      bindS (ensure (Err ''staking can only be done with the staking token'') (val_asset_id v = staking_token_asset_id C), f) (\<lambda>_ f.
      bindS (identity_key_of_string C to, f) (\<lambda>to f.
      bindS (next_validator_rate to, f) (\<lambda>rate f.
      bindS (in_file (wallet_build_delegate X now g rate (val_amount v) fee source (cf_state f)) f) (\<lambda>tx f.
      submit_and_commit C K post tx f))))))"

definition stake_undelegate ::
  "ext \<Rightarrow> codecs \<Rightarrow> system_time \<Rightarrow> rng \<Rightarrow> (identity_key \<Rightarrow> rate_data result) \<Rightarrow> (transaction \<Rightarrow> rpc_answer result)
     \<Rightarrow> string \<Rightarrow> u64 \<Rightarrow> u64 option \<Rightarrow> client_file \<Rightarrow> transaction result \<times> client_file" where
  "stake_undelegate X K now g next_validator_rate post amount fee source f =
     (let C = x_crypto X in
      bindS (value_of_string C amount, f) (\<lambda>v f.
      bindS (ok_or (Err ''unknown asset id'') (bt_get (cs_asset_cache (cf_state f)) (val_asset_id v)), f) (\<lambda>d f.
      bindS (contextR ''could not parse supplied denomination as a delegation token'' (delegation_token_of_denom C d), f) (\<lambda>t f.
      bindS (next_validator_rate (dt_validator_identity t), f) (\<lambda>rate f.
      bindS (in_file (wallet_build_undelegate X now g rate (val_amount v) fee source (cf_state f)) f) (\<lambda>tx f.
      submit_and_commit C K post tx f))))))"

definition wallet_identity :: "crypto \<Rightarrow> client_state \<Rightarrow> identity_key" where
  "wallet_identity C s = bech32str_encode C (fvk_ak (wallet_fvk (cs_wallet s))) ''penumbravalid''"

text \<open>\<open>document\<close> is the validator read from the JSON document, in its protobuf form.\<close>

definition validator_upload ::
  "ext \<Rightarrow> codecs \<Rightarrow> (denom_map \<Rightarrow> denom_map) \<Rightarrow> system_time \<Rightarrow> rng \<Rightarrow> (transaction \<Rightarrow> rpc_answer result)
     \<Rightarrow> validator_pb result \<Rightarrow> u64 \<Rightarrow> u64 option \<Rightarrow> client_file \<Rightarrow> transaction result \<times> client_file" where
  "validator_upload X K hash_iter now g post document fee source f =
     (let C = x_crypto X in
      bindS (or_err ''Unable to parse validator definition'' document, f) (\<lambda>v f.
      let (auth_sig, g) = sign_spend_auth C (sk_ask (wl_spend_key (cs_wallet (cf_state f)))) (x_encode_validator X v) g;
          vd = \<lparr>dpb_validator = Some v, dpb_auth_sig = auth_sig\<rparr> in
      bindS (in_file (build_validator_definition X hash_iter now g vd fee source (cf_state f)) f) (\<lambda>tx f.
      submit_and_commit C K post tx f)))"

text \<open>
  The definition that \<open>template-definition\<close> writes, with a fresh consensus key, and the one that
  \<open>fetch-definition\<close> picks from the validators that the node knows.
\<close>

definition validator_template :: "crypto \<Rightarrow> public_key \<Rightarrow> client_state \<Rightarrow> validator result" where
  "validator_template C ck s =
     bindR (address_by_index C (cs_wallet s) 0) (\<lambda>(_, a).
     bindR (funding_streams_try_from [\<lparr>fs_address = a, fs_rate_bps = 100\<rparr>]) (\<lambda>fss.
     Inr \<lparr>identity_key = wallet_identity C s, consensus_key = ck, v_name = [], v_website = [], v_description = [],
          funding_streams = fss, sequence_number = 0\<rparr>))"

definition validator_fetch :: "crypto \<Rightarrow> (string \<Rightarrow> validator list result) \<Rightarrow> string \<Rightarrow> client_state \<Rightarrow> validator result" where
  "validator_fetch C validator_info_list ik s =
     bindR (identity_key_of_string C ik) (\<lambda>ik.
     bindR (validator_info_list (case client_chain_id s of Some cid \<Rightarrow> cid | None \<Rightarrow> [])) (\<lambda>vs.
     ok_or (Err ''Could not find validator'') (find (\<lambda>v. identity_key v = ik) vs)))"

section \<open>Sweeping\<close>

definition SWEEP_COUNT :: nat where
  "SWEEP_COUNT = 8"

text \<open>\<open>chunks_exact\<close>: the groups of \<open>n\<close>, without the remainder.\<close>

function chunks_exact :: "nat \<Rightarrow> 'a list \<Rightarrow> 'a list list" where
  "chunks_exact n xs = (if n = 0 \<or> length xs < n then [] else take n xs # chunks_exact n (drop n xs))"
  by pat_completeness auto
termination by (relation "measure (length \<circ> snd)") auto

declare chunks_exact.simps [simp del]

record sweep =
  sw_transactions :: "transaction list"
  sw_spent_notes :: "note_t list"
  sw_change_notes :: "note_t list"

definition sweep_group ::
  "ext \<Rightarrow> client_state \<Rightarrow> address \<Rightarrow> string \<Rightarrow> note_t list \<Rightarrow> sweep \<times> rng \<Rightarrow> (sweep \<times> rng) result" where
  "sweep_group X s addr d notes = (\<lambda>(sw, g).
     (let C = x_crypto X in
      bindR (new_builder C 0 s) (\<lambda>b.
      bindR (spend_all C s notes (b, g)) (\<lambda>(b, g).
      bindR (add_output_producing_note C g addr \<lparr>val_amount = sum_list (map note_amount notes), val_asset_id = denom_id C d\<rparr>
               memo_default (wallet_ovk (cs_wallet s)) b) (\<lambda>(change, b, g).
      bindR (or_err ''error during transaction finalization'' (builder_finalize X g b)) (\<lambda>(tx, _, g).
      Inr (\<lparr>sw_transactions = sw_transactions sw @ [tx], sw_spent_notes = sw_spent_notes sw @ notes,
            sw_change_notes = sw_change_notes sw @ [change]\<rparr>, g)))))))"

definition sweep_denom ::
  "ext \<Rightarrow> client_state \<Rightarrow> address \<Rightarrow> string \<times> unspent_note list \<Rightarrow> sweep \<times> rng \<Rightarrow> (sweep \<times> rng) result" where
  "sweep_denom X s addr = (\<lambda>(d, notes) sg.
     let notes = sort_key note_amount (List.map_filter as_ready notes) in
     foldR (sweep_group X s addr d) (chunks_exact SWEEP_COUNT notes) sg)"

definition sweep_address ::
  "ext \<Rightarrow> client_state \<Rightarrow> (u64, (string, unspent_note list) btree) btree \<Rightarrow> nat \<times> string \<times> address \<Rightarrow> sweep \<times> rng \<Rightarrow> (sweep \<times> rng) result" where
  "sweep_address X s unspent = (\<lambda>(i, _, addr) sg.
     case bt_get unspent (of_nat i) of
       None \<Rightarrow> Inr sg
     | Some by_denom \<Rightarrow> foldR (sweep_denom X s addr) by_denom sg)"

definition build_sweeps :: "ext \<Rightarrow> client_state \<Rightarrow> rng \<Rightarrow> (sweep \<times> rng) result" where
  "build_sweeps X s g =
     bindR (unspent_notes_by_address_and_denom (x_crypto X) s) (\<lambda>unspent.
     bindR (addresses (x_crypto X) (cs_wallet s)) (\<lambda>addrs.
     foldR (sweep_address X s unspent) addrs (\<lparr>sw_transactions = [], sw_spent_notes = [], sw_change_notes = []\<rparr>, g)))"

text \<open>The number of sweeps; with none the process ends with exit code 9.\<close>

datatype sweep_outcome = Swept nat | FinishedSweeping

definition tx_sweep ::
  "ext \<Rightarrow> system_time \<Rightarrow> rng \<Rightarrow> (transaction \<Rightarrow> rpc_answer result) \<Rightarrow> client_file \<Rightarrow> (sweep_outcome \<times> rng) result \<times> client_file" where
  "tx_sweep X now g post f =
     bindS (build_sweeps X (cf_state f) g, f) (\<lambda>(sw, g) f.
     let num_sweeps = length (sw_transactions sw) in
     bindS (foldR (\<lambda>tx _. submit_transaction_unconfirmed post tx) (sw_transactions sw) (), f) (\<lambda>_ f.
     bindS (foldR (register_spend (x_crypto X) now) (sw_spent_notes sw) (cf_state f), f) (\<lambda>s f.
     let f = f\<lparr>cf_state := fold (register_change (x_crypto X) now) (sw_change_notes sw) s\<rparr> in
     (Inr (if 0 < num_sweeps then Swept num_sweeps else FinishedSweeping, g), f))))"

section \<open>Balances\<close>

text \<open>The sums of the three kinds of notes.\<close>

fun tally_note :: "unspent_note \<Rightarrow> u64 \<times> u64 \<times> u64 \<Rightarrow> u64 \<times> u64 \<times> u64" where
  "tally_note (Ready n) (unspent, spend, change) = (unspent + note_amount n, spend, change)"
| "tally_note (SubmittedSpend n) (unspent, spend, change) = (unspent, spend + note_amount n, change)"
| "tally_note (SubmittedChange n) (unspent, spend, change) = (unspent, spend, change + note_amount n)"

record formatted_tally =
  ft_total :: string
  ft_available :: string
  ft_submitted_spend :: string
  ft_submitted_change :: string

definition format_amount :: "asset_cache \<Rightarrow> denom \<Rightarrow> u64 \<Rightarrow> string result" where
  "format_amount cache d a =
     bindR (value_try_format cache \<lparr>val_amount = a, val_asset_id = dn_id d\<rparr>) (\<lambda>r.
     ok_or (Panic ''called `Option::unwrap()` on a `None` value'') r)"

definition tally_format_notes :: "denom \<Rightarrow> asset_cache \<Rightarrow> unspent_note list \<Rightarrow> formatted_tally result" where
  "tally_format_notes d cache notes =
     (let (unspent, submitted_spend, submitted_change) = fold tally_note notes (0, 0, 0);
          net_submitted_spend = submitted_spend - submitted_change in
      bindR (if 0 < submitted_change
             then bindR (format_amount cache d submitted_change) (\<lambda>x. Inr (''+'' @ x @ '' (change)'')) else Inr '''') (\<lambda>change_string.
      bindR (if 0 < net_submitted_spend
             then bindR (format_amount cache d net_submitted_spend) (\<lambda>x. Inr (''-'' @ x @ '' (spend)'')) else Inr '''') (\<lambda>spend_string.
      bindR (format_amount cache d (submitted_change + unspent)) (\<lambda>tot.
      bindR (format_amount cache d unspent) (\<lambda>available.
      Inr \<lparr>ft_total = tot, ft_available = available, ft_submitted_spend = spend_string, ft_submitted_change = change_string\<rparr>)))))"

section \<open>Wallets and addresses\<close>

definition addr_new ::
  "crypto \<Rightarrow> codecs \<Rightarrow> string \<Rightarrow> client_file \<Rightarrow> (nat \<times> address) result \<times> client_file" where
  "addr_new C K label f =
     bindS (new_address C label (cs_wallet (cf_state f)), f) (\<lambda>((i, a, _), w) f.
     (Inr (i, a), file_commit C K (f\<lparr>cf_state := (cf_state f)\<lparr>cs_wallet := w\<rparr>\<rparr>)))"

text \<open>A new wallet is never written over an existing one.  The second copy in the archive directory is left out.\<close>

definition save_new_wallet :: "crypto \<Rightarrow> codecs \<Rightarrow> client_state \<Rightarrow> client_state_helper option \<Rightarrow> client_state_helper option result" where
  "save_new_wallet C K s disk =
     bindR (ensure (Err ''Wallet path already exists, refusing to overwrite it'') (disk = None)) (\<lambda>_.
     Inr (cf_disk (file_save C K s)))"

definition wallet_import_cmd :: "crypto \<Rightarrow> codecs \<Rightarrow> string \<Rightarrow> client_state_helper option \<Rightarrow> client_state_helper option result" where
  "wallet_import_cmd C K spend_seed disk =
     bindR (from_hex K spend_seed_of_slice spend_seed) (\<lambda>seed.
     bindR (wallet_import C seed) (\<lambda>w.
     save_new_wallet C K (client_state_new w) disk))"

text \<open>A wallet from a seed phrase, fresh from 32 random bytes or typed in.\<close>

definition wallet_from_seed_phrase :: "crypto \<Rightarrow> seed_phrase \<Rightarrow> wallet result" where
  "wallet_from_seed_phrase C p =
     bindR (spend_key_new C (from_seed_phrase C p 0)) (\<lambda>sk. Inr \<lparr>wl_address_labels = [''Default''], wl_spend_key = sk\<rparr>)"

definition wallet_generate_cmd ::
  "crypto \<Rightarrow> codecs \<Rightarrow> bytes \<Rightarrow> client_state_helper option \<Rightarrow> (seed_phrase \<times> client_state_helper option) result" where
  "wallet_generate_cmd C K randomness disk =
     (let p = from_randomness C randomness in
      bindR (wallet_from_seed_phrase C p) (\<lambda>w.
      bindR (save_new_wallet C K (client_state_new w) disk) (\<lambda>disk.
      Inr (p, disk))))"

definition wallet_import_phrase_cmd ::
  "crypto \<Rightarrow> codecs \<Rightarrow> string \<Rightarrow> client_state_helper option \<Rightarrow> client_state_helper option result" where
  "wallet_import_phrase_cmd C K s disk =
     bindR (seed_phrase_of_string C s) (\<lambda>p.
     bindR (wallet_from_seed_phrase C p) (\<lambda>w.
     save_new_wallet C K (client_state_new w) disk))"

definition wallet_export_cmd :: "crypto \<Rightarrow> codecs \<Rightarrow> system_time \<Rightarrow> client_state_helper option \<Rightarrow> string result" where
  "wallet_export_cmd C K now disk =
     bindR (file_load C K now disk) (\<lambda>f. Inr (hex_encode K (sk_seed (wl_spend_key (cs_wallet (cf_state f))))))"

definition wallet_delete_cmd :: "client_state_helper option \<Rightarrow> client_state_helper option result" where
  "wallet_delete_cmd disk =
     bindR (ok_or (Err ''No wallet exists, so it cannot be deleted'') disk) (\<lambda>_. Inr None)"

text \<open>\<open>reset\<close> reads the wallet only, checks that the fresh state loads, and then replaces the file.\<close>

definition wallet_reset_cmd ::
  "crypto \<Rightarrow> codecs \<Rightarrow> system_time \<Rightarrow> client_state_helper option \<Rightarrow> client_state_helper option result" where
  "wallet_reset_cmd C K now disk =
     bindR (ok_or (Err ''No such file or directory'') disk) (\<lambda>h.
     bindR (wallet_of_helper C (ch_wallet h)) (\<lambda>w.
     let tmp = Some (client_state_to_helper C K (client_state_new w)) in
     bindR (contextR ''can't parse wallet after attempting to reset: refusing to overwrite existing wallet file''
              (file_load C K now tmp)) (\<lambda>_.
     Inr tmp)))"

section \<open>The program\<close>

text \<open>What \<open>main\<close> does before a command that needs the chain.\<close>

definition pcli_prepare ::
  "crypto \<Rightarrow> codecs \<Rightarrow> bool \<Rightarrow> system_time \<Rightarrow> (string \<Rightarrow> chain_params result) \<Rightarrow> (u64 \<Rightarrow> string \<Rightarrow> compact_block_pb result list result)
     \<Rightarrow> (string \<Rightarrow> denom list result) \<Rightarrow> bool \<Rightarrow> client_file \<Rightarrow> unit result \<times> client_file" where
  "pcli_prepare C K info now chain_params compact_block_range asset_list needs_sync f =
     bindS (if cs_chain_params (cf_state f) = None then fetch_chain_params C K chain_params f else (Inr (), f)) (\<lambda>_ f.
     if needs_sync then
       bindS (pcli_sync C K info now compact_block_range f) (\<lambda>_ f. fetch_assets C K asset_list f)
     else (Inr (), f))"

end
