(* ===== verification/Pcli_Sweep.thy ===== *)
theory Pcli_Sweep
  imports Pcli Wallet_Sound
begin

text \<open>
  Sweeping.  Each transaction of a sweep replaces eight notes by one; so every run that reports sweeps leaves
  fewer notes.
\<close>

section \<open>Counting\<close>

lemma chunks_exact_length: "c \<in> set (chunks_exact n xs) \<Longrightarrow> length c = n"
proof (induction n xs rule: chunks_exact.induct)
  case (1 n xs)
  then show ?case by (subst (asm) chunks_exact.simps) (auto split: if_splits)
qed

text \<open>Every sweep spends eight notes and makes one.\<close>

definition sweep_counted :: "sweep \<Rightarrow> bool" where
  "sweep_counted sw \<longleftrightarrow> length (sw_spent_notes sw) = SWEEP_COUNT * length (sw_transactions sw)
     \<and> length (sw_change_notes sw) = length (sw_transactions sw)"

lemma sweep_group_counted:
  assumes "sweep_group X s addr d ns sg = Inr sg'" and "length ns = SWEEP_COUNT" and "sweep_counted (fst sg)"
  shows "sweep_counted (fst sg')"
  using assms by (auto simp: sweep_group_def Let_def result_simps sweep_counted_def case_prod_beta)

lemma sweep_denom_counted:
  assumes "sweep_denom X s addr p sg = Inr sg'" and "sweep_counted (fst sg)"
  shows "sweep_counted (fst sg')"
  using assms(1) unfolding sweep_denom_def Let_def case_prod_beta
  by (rule foldR_inv [where P = "\<lambda>sg. sweep_counted (fst sg)", OF _ assms(2)])
     (blast intro: sweep_group_counted chunks_exact_length)

lemma sweep_address_counted:
  assumes "sweep_address X s unspent p sg = Inr sg'" and "sweep_counted (fst sg)"
  shows "sweep_counted (fst sg')"
proof (cases "bt_get unspent (of_nat (fst p))")
  case None
  then show ?thesis using assms by (simp add: sweep_address_def case_prod_beta)
next
  case (Some by_denom)
  then have "foldR (sweep_denom X s (snd (snd p))) by_denom sg = Inr sg'" using assms(1) by (simp add: sweep_address_def case_prod_beta)
  then show ?thesis by (rule foldR_inv [where P = "\<lambda>sg. sweep_counted (fst sg)", OF _ assms(2)]) (rule sweep_denom_counted)
qed

lemma build_sweeps_counted:
  assumes "build_sweeps X s g = Inr (sw, g')"
  shows "sweep_counted sw"
proof -
  from assms obtain unspent addrs where
    "foldR (sweep_address X s unspent) addrs (\<lparr>sw_transactions = [], sw_spent_notes = [], sw_change_notes = []\<rparr>, g) = Inr (sw, g')"
    by (auto simp: build_sweeps_def result_simps)
  then have "sweep_counted (fst (sw, g'))"
  proof (rule foldR_inv [where P = "\<lambda>sg. sweep_counted (fst sg)"])
    show "sweep_counted (fst (\<lparr>sw_transactions = [], sw_spent_notes = [], sw_change_notes = []\<rparr>, g))" by (simp add: sweep_counted_def)
  qed (rule sweep_address_counted)
  then show ?thesis by simp
qed

section \<open>The notes that are left\<close>

lemma length_bt_insert: "length (bt_insert k v m) \<le> Suc (length m)"
  by (induction m) auto

lemma length_bt_remove:
  assumes "bt_ok m" and "bt_get m k \<noteq> None"
  shows "Suc (length (bt_remove k m)) = length m"
proof -
  have d: "distinct (map fst m)" by (rule bt_ok_distinct [OF assms(1)])
  from assms(2) obtain v where "(k, v) \<in> set m" by (auto simp: bt_get_def dest: map_of_SomeD)
  then obtain xs ys where m: "m = xs @ (k, v) # ys" by (blast dest: split_list)
  have "filter (\<lambda>e. fst e \<noteq> k) xs = xs" "filter (\<lambda>e. fst e \<noteq> k) ys = ys"
    using d by (force simp: m filter_id_conv)+
  then show ?thesis by (simp add: bt_remove_def m)
qed

lemma register_spends_counted:
  assumes "foldR (register_spend C now) ns s = Inr s'" and "bt_ok (cs_unspent_set s)"
  shows "length (cs_unspent_set s') + length ns = length (cs_unspent_set s) \<and> cs_submitted_change_set s' = cs_submitted_change_set s
    \<and> dom (bt_get (cs_submitted_spend_set s')) = dom (bt_get (cs_submitted_spend_set s)) \<union> note_commit C ` set ns
    \<and> dom (bt_get (cs_unspent_set s')) = dom (bt_get (cs_unspent_set s)) - note_commit C ` set ns
    \<and> note_commit C ` set ns \<subseteq> dom (bt_get (cs_unspent_set s))"
  using assms
proof (induction ns arbitrary: s)
  case (Cons n ns)
  let ?c = "note_commit C n"
  obtain s1 where s1: "register_spend C now n s = Inr s1" and s': "foldR (register_spend C now) ns s1 = Inr s'"
    using Cons.prems(1) by (auto simp: result_simps)
  from s1 obtain n' where n': "bt_get (cs_unspent_set s) ?c \<noteq> None"
    and r: "s1 = s\<lparr>cs_unspent_set := bt_remove ?c (cs_unspent_set s),
      cs_submitted_spend_set := bt_insert ?c (now + SUBMITTED_TRANSACTION_TIMEOUT, n') (cs_submitted_spend_set s)\<rparr>"
    by (auto simp: register_spend_def Let_def result_simps)
  have "bt_ok (cs_unspent_set s1)" using Cons.prems(2) by (simp add: r bt_ok_remove)
  note ih = Cons.IH [OF s' this]
  have l: "Suc (length (cs_unspent_set s1)) = length (cs_unspent_set s)" using length_bt_remove [OF Cons.prems(2) n'] by (simp add: r)
  have d: "dom (bt_get (cs_unspent_set s1)) = dom (bt_get (cs_unspent_set s)) - {?c}"
    "dom (bt_get (cs_submitted_spend_set s1)) = insert ?c (dom (bt_get (cs_submitted_spend_set s)))"
    "cs_submitted_change_set s1 = cs_submitted_change_set s" by (auto simp: r)
  from ih l n' show ?case unfolding d by auto
qed simp

lemma register_changes_counted:
  "length (cs_submitted_change_set (fold (register_change C now) ns s)) \<le> length (cs_submitted_change_set s) + length ns
   \<and> cs_unspent_set (fold (register_change C now) ns s) = cs_unspent_set s
   \<and> cs_submitted_spend_set (fold (register_change C now) ns s) = cs_submitted_spend_set s"
proof (induction ns arbitrary: s)
  case (Cons n ns)
  have "length (cs_submitted_change_set (register_change C now n s)) \<le> Suc (length (cs_submitted_change_set s))"
    "cs_unspent_set (register_change C now n s) = cs_unspent_set s" "cs_submitted_spend_set (register_change C now n s) = cs_submitted_spend_set s"
    using length_bt_insert [of "note_commit C n" _ "cs_submitted_change_set s"] by (simp_all add: register_change_def)
  with Cons [of "register_change C now n s"] show ?case by simp
qed simp

text \<open>
  The file is not touched: unlike the other commands, a sweep ends without a commit, so the spends and the
  change that it registers are gone when the process ends, and the next command loads the swept notes as unspent.
\<close>

lemma sweep_not_saved:
  assumes "tx_sweep X now g post f = (r, f')"
  shows "cf_disk f' = cf_disk f" and "file_load C K later (cf_disk f') = file_load C K later (cf_disk f)"
proof -
  show d: "cf_disk f' = cf_disk f"
  proof (cases "build_sweeps X (cf_state f) g")
    case (Inr swg)
    then show ?thesis
      using assms
      by (cases "foldR (\<lambda>tx _. submit_transaction_unconfirmed post tx) (sw_transactions (fst swg)) ()";
          cases "foldR (register_spend (x_crypto X) now) (sw_spent_notes (fst swg)) (cf_state f)")
         (auto simp: tx_sweep_def Let_def case_prod_beta)
  qed (use assms in \<open>simp add: tx_sweep_def\<close>)
  then show "file_load C K later (cf_disk f') = file_load C K later (cf_disk f)" by simp
qed

text \<open>
  C11: every run of \<open>pcli tx sweep\<close> that reports sweeps makes progress.  If the command succeeds and reports
  \<open>k\<close> sweeps, then \<open>k\<close> is positive, it has submitted \<open>k\<close> transactions, all taken by the node, exactly \<open>8 * k\<close> notes have moved
  from the unspent to the submitted ones, and at most \<open>k\<close> more notes of change are expected; so there are at
  least \<open>7 * k\<close> notes fewer.  If it reports that it has finished, nothing has changed.  The state on disk is in either case the
  old one.
\<close>

theorem sweep_progress:
  assumes run: "tx_sweep X now g post f = (Inr (r, g'), f')" and ok: "bt_ok (cs_unspent_set (cf_state f))"
  shows "cf_disk f' = cf_disk f
    \<and> (case r of
         FinishedSweeping \<Rightarrow> f' = f
       | Swept k \<Rightarrow> 0 < k
           \<and> (\<exists>sw. build_sweeps X (cf_state f) g = Inr (sw, g') \<and> length (sw_transactions sw) = k
                \<and> (\<forall>tx \<in> set (sw_transactions sw). post tx \<in> range Inr))
           \<and> length (cs_unspent_set (cf_state f')) + 8 * k = length (cs_unspent_set (cf_state f))
           \<and> dom (bt_get (cs_unspent_set (cf_state f'))) \<subseteq> dom (bt_get (cs_unspent_set (cf_state f)))
           \<and> dom (bt_get (cs_submitted_spend_set (cf_state f'))) = dom (bt_get (cs_submitted_spend_set (cf_state f)))
               \<union> (dom (bt_get (cs_unspent_set (cf_state f))) - dom (bt_get (cs_unspent_set (cf_state f'))))
           \<and> length (cs_submitted_change_set (cf_state f')) \<le> length (cs_submitted_change_set (cf_state f)) + k)"
proof -
  let ?C = "x_crypto X"
  from run obtain sw s where sw: "build_sweeps X (cf_state f) g = Inr (sw, g')"
    and sub: "foldR (\<lambda>tx _. submit_transaction_unconfirmed post tx) (sw_transactions sw) () = Inr ()"
    and s: "foldR (register_spend ?C now) (sw_spent_notes sw) (cf_state f) = Inr s"
    and f': "f' = f\<lparr>cf_state := fold (register_change ?C now) (sw_change_notes sw) s\<rparr>"
    and r: "r = (if 0 < length (sw_transactions sw) then Swept (length (sw_transactions sw)) else FinishedSweeping)"
    by (auto simp: tx_sweep_def bindS_Inr Let_def)
  have "\<forall>tx \<in> set (sw_transactions sw). post tx \<in> range Inr"
    using sub unfolding foldR_checks by (auto simp: submit_transaction_unconfirmed_def result_simps)
  moreover have c: "length (sw_spent_notes sw) = 8 * length (sw_transactions sw)" "length (sw_change_notes sw) = length (sw_transactions sw)"
    using build_sweeps_counted [OF sw] by (simp_all add: sweep_counted_def SWEEP_COUNT_def)
  moreover have "f' = f" if "sw_transactions sw = []" using that c s by (simp add: f')
  ultimately show ?thesis
    using sw register_spends_counted [OF s ok] register_changes_counted [of ?C now "sw_change_notes sw" s] by (auto simp: r f')
qed

section \<open>Balances\<close>

text \<open>
  The net spend of a tally is the spends less the change.  A row that has change only, as every change note has
  with \<open>--by-note\<close>, shows the difference from \<open>2 ^ 64\<close> as spent.
\<close>

lemma unat_neg:
  assumes "(a :: u64) \<noteq> 0"
  shows "unat (- a) = 2 ^ 64 - unat a"
proof -
  have a: "unat a < 2 ^ 64" "0 < unat a" using unsigned_less [of a, where 'a = nat] assms by (simp_all add: unat_gt_0)
  have "(of_nat (2 ^ 64 - unat a) :: u64) = of_nat (2 ^ 64) - of_nat (unat a)" using less_imp_le [OF a(1)] by (rule of_nat_diff)
  also have "\<dots> = - a" by simp
  finally have "- a = of_nat (2 ^ 64 - unat a)" by (rule sym)
  then show ?thesis using a by (simp add: unat_of_nat take_bit_nat_eq_self)
qed

lemma change_only_tally:
  assumes "0 < note_amount n" and "tally_format_notes d cache [SubmittedChange n] = Inr t"
  shows "\<exists>x. format_amount cache d (- note_amount n) = Inr x \<and> ft_submitted_spend t = ''-'' @ x @ '' (spend)''
    \<and> unat (- note_amount n) = 2 ^ 64 - unat (note_amount n)"
proof -
  have "note_amount n \<noteq> 0" using assms(1) by auto
  then have "0 < - note_amount n" and "unat (- note_amount n) = 2 ^ 64 - unat (note_amount n)"
    by (simp_all add: word_gt_0 unat_neg)
  then show ?thesis using assms by (auto simp: tally_format_notes_def result_simps)
qed

end
