(* ===== verification/Pcli_Sweep_Sound.thy ===== *)
theory Pcli_Sweep_Sound
  imports Pcli_Sweep
begin

text \<open>
  What a sweep submits.  The nested loops of the command go through a list of groups of eight notes, the
  plan; the groups are disjoint, each becomes a transaction that the shielded pool's stateless check accepts,
  and there is none exactly if no address holds eight confirmed notes of one denomination.
\<close>

section \<open>The plan\<close>

lemma foldR_concat: "foldR (\<lambda>x. foldR f (h x)) xs s = foldR f (concat (map h xs)) s"
proof (induction xs arbitrary: s)
  case (Cons x xs)
  then show ?case by (cases "foldR f (h x) s") (simp_all add: foldR_append)
qed simp

lemma foldR_map: "foldR f (map h xs) = foldR (\<lambda>x. f (h x)) xs"
  by (induction xs) (auto intro!: ext)

lemma chunks_exact_prefix: "\<exists>rest. xs = concat (chunks_exact n xs) @ rest"
proof (induction n xs rule: chunks_exact.induct)
  case (1 n xs)
  show ?case
  proof (cases "n = 0 \<or> length xs < n")
    case True
    then show ?thesis by (simp add: chunks_exact.simps)
  next
    case False
    with 1 obtain rest where "drop n xs = concat (chunks_exact n (drop n xs)) @ rest" by blast
    then have "xs = take n xs @ concat (chunks_exact n (drop n xs)) @ rest" by (metis append_take_drop_id)
    moreover have "chunks_exact n xs = take n xs # chunks_exact n (drop n xs)" using False by (subst chunks_exact.simps) simp
    ultimately show ?thesis by (intro exI [of _ rest]) simp
  qed
qed

lemma chunks_exact_Nil: "0 < n \<Longrightarrow> chunks_exact n xs = [] \<longleftrightarrow> length xs < n"
  by (subst chunks_exact.simps) simp

lemma chunks_exact_count: "0 < n \<Longrightarrow> length (chunks_exact n xs) = length xs div n"
proof (induction n xs rule: chunks_exact.induct)
  case (1 n xs)
  then show ?case by (subst chunks_exact.simps) (auto simp: le_div_geq not_less)
qed

text \<open>The groups of one denomination at one address, and the whole plan.\<close>

type_synonym sweep_plan = "(address \<times> string \<times> note_t list) list"

definition denom_groups :: "crypto \<Rightarrow> client_state \<Rightarrow> u64 \<Rightarrow> string \<Rightarrow> note_t list list" where
  "denom_groups C s i d = chunks_exact SWEEP_COUNT (sort_key note_amount (ready_notes C s d (Some i)))"

definition grouped :: "crypto \<Rightarrow> client_state \<Rightarrow> (u64, (string, unspent_note list) btree) btree \<Rightarrow> bool" where
  "grouped C s m \<longleftrightarrow> (\<forall>i. case bt_get m i of
       None \<Rightarrow> \<forall>d. ready_notes C s d (Some i) = []
     | Some inner \<Rightarrow> distinct (map fst inner)
         \<and> (\<forall>(d, us) \<in> set inner. List.map_filter as_ready us = ready_notes C s d (Some i))
         \<and> (\<forall>d. d \<notin> fst ` set inner \<longrightarrow> ready_notes C s d (Some i) = []))"

lemma unspent_by_address_fold:
  assumes "notes_ok C s"
  shows "unspent_notes_by_address_and_denom C s
    = Inr (fold (\<lambda>(a, b, v). push_nested a b v) (map (\<lambda>u. (idx C s (unspent_note_ref u), base s (unspent_note_ref u), u)) (all_unspent s)) [])"
proof -
  have "dn_base_denom (the (note_denom s (unspent_note_ref u))) = base s (unspent_note_ref u)" if "u \<in> set (all_unspent s)" for u
    using assms that by (auto simp: notes_ok_def note_known_def base_def)
  then have "fold (\<lambda>(i, d, n). push_nested i (dn_base_denom d) n)
      (map (\<lambda>u. (idx C s (unspent_note_ref u), the (note_denom s (unspent_note_ref u)), u)) (all_unspent s)) []
    = fold (\<lambda>(a, b, v). push_nested a b v) (map (\<lambda>u. (idx C s (unspent_note_ref u), base s (unspent_note_ref u), u)) (all_unspent s)) []"
    unfolding fold_map by (intro fold_cong) simp_all
  then show ?thesis by (simp add: unspent_notes_by_address_and_denom_def unspent_notes_total [OF assms])
qed

lemma unspent_by_address_grouped:
  assumes "notes_ok C s"
  obtains m where "unspent_notes_by_address_and_denom C s = Inr m" and "grouped C s m"
proof -
  let ?f = "\<lambda>u. (idx C s (unspent_note_ref u), base s (unspent_note_ref u), u)"
  let ?xs = "map ?f (all_unspent s)" and ?m = "fold (\<lambda>(a, b, v). push_nested a b v) (map ?f (all_unspent s)) []"
  have l: "listed2 i d ?xs = filter (\<lambda>u. idx C s (unspent_note_ref u) = i \<and> base s (unspent_note_ref u) = d) (all_unspent s)" for i d
    by (simp add: listed2_def filter_map comp_def)
  have r: "List.map_filter as_ready (listed2 i d ?xs) = ready_notes C s d (Some i)" for i d
    unfolding l ready_notes_def using ready_of_unspent [of "\<lambda>n. idx C s n = i \<and> base s n = d" s] by (simp add: conj_commute)
  have empty: "ready_notes C s d (Some i) = []" if "listed2 i d ?xs = []" for i d
    using r [of i d] unfolding that by (simp add: map_filter_simps)
  have "grouped C s ?m" unfolding grouped_def
  proof
    fix i
    show "case bt_get ?m i of None \<Rightarrow> \<forall>d. ready_notes C s d (Some i) = []
     | Some inner \<Rightarrow> distinct (map fst inner)
         \<and> (\<forall>(d, us) \<in> set inner. List.map_filter as_ready us = ready_notes C s d (Some i))
         \<and> (\<forall>d. d \<notin> fst ` set inner \<longrightarrow> ready_notes C s d (Some i) = [])"
    proof (cases "bt_get ?m i")
      case None
      then have "listed i ?xs = []" using groups_of [of ?xs, unfolded groups_def, rule_format, of i] by simp
      then have "listed2 i d ?xs = []" for d by (rule listed2_Nil)
      with None empty show ?thesis by simp
    next
      case (Some inner)
      then have inner: "bt_ok inner" "\<And>d. bt_get inner d = (if listed2 i d ?xs = [] then None else Some (listed2 i d ?xs))"
        using groups_of [of ?xs, unfolded groups_def, rule_format, of i] by simp_all
      have us: "us = listed2 i d ?xs" if "(d, us) \<in> set inner" for d us
      proof -
        have "bt_get inner d = Some us" using bt.get_entries [OF inner(1)] that by blast
        then show ?thesis using inner(2) [of d] by (simp split: if_splits)
      qed
      have none: "listed2 i d ?xs = []" if "d \<notin> fst ` set inner" for d
      proof -
        have "bt_get inner d = None" using that by (simp add: bt_get_def map_of_eq_None_iff)
        then show ?thesis using inner(2) [of d] by (simp split: if_splits)
      qed
      have "\<forall>e \<in> set inner. List.map_filter as_ready (snd e) = ready_notes C s (fst e) (Some i)"
      proof
        fix e assume "e \<in> set inner"
        then have "snd e = listed2 i (fst e) ?xs" using us [of "fst e" "snd e"] by simp
        then show "List.map_filter as_ready (snd e) = ready_notes C s (fst e) (Some i)" by (simp only: r)
      qed
      moreover have "\<forall>d. d \<notin> fst ` set inner \<longrightarrow> ready_notes C s d (Some i) = []" using empty none by blast
      ultimately show ?thesis using Some bt_ok_distinct [OF inner(1)] by (simp add: case_prod_beta)
    qed
  qed
  with unspent_by_address_fold [OF assms] show thesis by (rule that)
qed

definition address_plan :: "(u64, (string, unspent_note list) btree) btree \<Rightarrow> nat \<times> string \<times> address \<Rightarrow> sweep_plan" where
  "address_plan m = (\<lambda>(i, _, a).
     case bt_get m (of_nat i) of
       None \<Rightarrow> []
     | Some inner \<Rightarrow> concat (map (\<lambda>(d, us). map (\<lambda>ns. (a, d, ns))
         (chunks_exact SWEEP_COUNT (sort_key note_amount (List.map_filter as_ready us)))) inner))"

lemma sweep_address_plan:
  "sweep_address X s m p = foldR (\<lambda>(a, d, ns). sweep_group X s a d ns) (address_plan m p)"
  by (auto simp: fun_eq_iff sweep_address_def address_plan_def sweep_denom_def foldR_concat [symmetric] foldR_map case_prod_unfold
      split: option.splits)

text \<open>Lists that carry different keys are disjoint.\<close>

lemma distinct_concat_keys:
  assumes "distinct (map key xs)" and "\<And>x. x \<in> set xs \<Longrightarrow> distinct (f x)" and "\<And>x y. x \<in> set xs \<Longrightarrow> y \<in> set (f x) \<Longrightarrow> k y = key x"
  shows "distinct (concat (map f xs))"
  using assms
proof (induction xs)
  case (Cons x xs)
  have "set (f x) \<inter> set (f x') = {}" if "x' \<in> set xs" for x'
    using Cons.prems(1) Cons.prems(3) [of x] Cons.prems(3) [of x'] that by (metis disjoint_iff distinct.simps(2) image_eqI list.set_intros list.set_map list.simps(9))
  then have "set (f x) \<inter> set (concat (map f xs)) = {}" by auto
  with Cons show ?case by simp
qed simp

lemma denom_groups_notes:
  assumes "notes_ok C s"
  shows "distinct (concat (denom_groups C s i d))"
    and "ns \<in> set (denom_groups C s i d) \<Longrightarrow> set ns \<subseteq> set (ready_notes C s d (Some i))"
    and "ns \<in> set (denom_groups C s i d) \<Longrightarrow> total_of ns \<le> total_of (ready_notes C s d (Some i))"
    and "ns \<in> set (denom_groups C s i d) \<Longrightarrow> length ns = SWEEP_COUNT"
proof -
  let ?xs = "sort_key note_amount (ready_notes C s d (Some i))"
  obtain rest where r: "?xs = concat (denom_groups C s i d) @ rest" unfolding denom_groups_def using chunks_exact_prefix by blast
  have "distinct (ready_notes C s d (Some i))" using ready_notes_distinct [OF assms] distinct_map by blast
  then have "distinct ?xs" by simp
  then show "distinct (concat (denom_groups C s i d))" by (simp add: r)
  assume ns: "ns \<in> set (denom_groups C s i d)"
  then show "length ns = SWEEP_COUNT" unfolding denom_groups_def by (rule chunks_exact_length)
  have "set ?xs = set (ready_notes C s d (Some i))" by simp
  then show "set ns \<subseteq> set (ready_notes C s d (Some i))" using ns r by auto
  have "total_of ?xs = total_of (ready_notes C s d (Some i))" by (rule total_of_mset) simp
  moreover have "total_of ns \<le> total_of (concat gs)" if "ns \<in> set gs" for gs using that by (induction gs) auto
  ultimately show "total_of ns \<le> total_of (ready_notes C s d (Some i))" using ns r by (metis le_add1 le_trans total_of_simps(3))
qed

lemma denom_groups_taken:
  "length (denom_groups C s i d) = length (ready_notes C s d (Some i)) div SWEEP_COUNT
   \<and> concat (denom_groups C s i d) = take (SWEEP_COUNT * length (denom_groups C s i d)) (sort_key note_amount (ready_notes C s d (Some i)))"
proof
  let ?xs = "sort_key note_amount (ready_notes C s d (Some i))"
  show "length (denom_groups C s i d) = length (ready_notes C s d (Some i)) div SWEEP_COUNT"
    unfolding denom_groups_def by (subst chunks_exact_count) (simp_all add: SWEEP_COUNT_def)
  obtain rest where r: "?xs = concat (denom_groups C s i d) @ rest" unfolding denom_groups_def using chunks_exact_prefix by blast
  have "length (concat gs) = n * length gs" if "\<forall>c \<in> set gs. length c = n" for n and gs :: "note_t list list"
    using that by (induction gs) simp_all
  then have "length (concat (denom_groups C s i d)) = SWEEP_COUNT * length (denom_groups C s i d)"
    unfolding denom_groups_def using chunks_exact_length by blast
  with r show "concat (denom_groups C s i d) = take (SWEEP_COUNT * length (denom_groups C s i d)) ?xs" by simp
qed

lemma address_plan_denoms:
  assumes g: "grouped C s m"
  obtains ds where "distinct ds" and "address_plan m (i, l, a) = concat (map (\<lambda>d. map (\<lambda>ns. (a, d, ns)) (denom_groups C s (of_nat i) d)) ds)"
    and "\<forall>d. d \<notin> set ds \<longrightarrow> denom_groups C s (of_nat i) d = []"
proof -
  let ?g = "denom_groups C s (of_nat i)"
  have none: "?g d = []" if "ready_notes C s d (Some (of_nat i)) = []" for d
    using that by (simp add: denom_groups_def SWEEP_COUNT_def chunks_exact_Nil)
  show thesis
  proof (cases "bt_get m (of_nat i)")
    case None
    then have "?g d = []" for d using g none by (simp add: grouped_def option.case_eq_if)
    with None show ?thesis by (intro that [of "[]"]) (simp_all add: address_plan_def)
  next
    case (Some inner)
    have i: "distinct (map fst inner)" "\<forall>(d, us) \<in> set inner. List.map_filter as_ready us = ready_notes C s d (Some (of_nat i))"
      "\<forall>d. d \<notin> fst ` set inner \<longrightarrow> ready_notes C s d (Some (of_nat i)) = []"
      using g [unfolded grouped_def, rule_format, of "of_nat i"] Some by simp_all
    have "map (\<lambda>(d, us). map (\<lambda>ns. (a, d, ns)) (chunks_exact SWEEP_COUNT (sort_key note_amount (List.map_filter as_ready us)))) inner
        = map (\<lambda>d. map (\<lambda>ns. (a, d, ns)) (?g d)) (map fst inner)"
      using i(2) by (auto simp: denom_groups_def)
    then have "address_plan m (i, l, a) = concat (map (\<lambda>d. map (\<lambda>ns. (a, d, ns)) (?g d)) (map fst inner))"
      by (simp only: address_plan_def Some split option.case)
    with i none show ?thesis by (intro that [of "map fst inner"]) simp_all
  qed
qed

lemma filter_concat_by:
  assumes "\<And>x y. x \<in> set xs \<Longrightarrow> y \<in> set (f x) \<Longrightarrow> P y \<longleftrightarrow> Q x"
  shows "filter P (concat (map f xs)) = concat (map f (filter Q xs))"
  using assms
proof (induction xs)
  case (Cons x xs)
  have "filter P (f x) = (if Q x then f x else [])" using Cons.prems [of x] by (auto simp: filter_id_conv filter_empty_conv)
  with Cons show ?case by simp
qed simp

lemma filter_eq_one: "distinct xs \<Longrightarrow> filter (\<lambda>y. y = x) xs = (if x \<in> set xs then [x] else [])"
  by (induction xs) (auto simp: filter_empty_conv)

text \<open>The groups of an address that hold notes of one denomination at one address.\<close>

definition of_kind :: "crypto \<Rightarrow> client_state \<Rightarrow> u64 \<Rightarrow> string \<Rightarrow> note_t list \<Rightarrow> bool" where
  "of_kind C s i d ns \<longleftrightarrow> set ns \<subseteq> set (ready_notes C s d (Some i))"

lemma denom_groups_kind:
  assumes ok: "notes_ok C s" and ns: "ns \<in> set (denom_groups C s i' d')"
  shows "of_kind C s i d ns \<longleftrightarrow> i = i' \<and> d = d'"
proof -
  have sub: "set ns \<subseteq> set (ready_notes C s d' (Some i'))" by (rule denom_groups_notes(2) [OF ok ns])
  have "ns \<noteq> []" using denom_groups_notes(4) [OF ok ns] by (auto simp: SWEEP_COUNT_def)
  then obtain n where "n \<in> set ns" by (cases ns) auto
  then show ?thesis using sub unfolding of_kind_def ready_notes_def by auto
qed

lemma address_plan_kind:
  assumes ok: "notes_ok C s" and g: "grouped C s m"
  shows "filter (of_kind C s i' d) (map (snd \<circ> snd) (address_plan m (i, l, a)))
    = (if i' = of_nat i then denom_groups C s i' d else [])"
proof -
  obtain ds where ds: "distinct ds" "address_plan m (i, l, a) = concat (map (\<lambda>d. map (\<lambda>ns. (a, d, ns)) (denom_groups C s (of_nat i) d)) ds)"
    "\<forall>d. d \<notin> set ds \<longrightarrow> denom_groups C s (of_nat i) d = []" by (rule address_plan_denoms [OF g, of i l a])
  have "map (snd \<circ> snd) (address_plan m (i, l, a)) = concat (map (denom_groups C s (of_nat i)) ds)"
    unfolding ds(2) by (simp add: map_concat comp_def)
  moreover have "filter (of_kind C s i' d) (concat (map (denom_groups C s (of_nat i)) ds))
      = concat (map (denom_groups C s (of_nat i)) (filter (\<lambda>d'. i' = of_nat i \<and> d' = d) ds))"
    by (rule filter_concat_by) (auto simp: denom_groups_kind [OF ok])
  ultimately show ?thesis using ds(3) by (cases "i' = of_nat i") (simp_all add: filter_eq_one [OF ds(1)])
qed

lemma address_plan_groups:
  assumes ok: "notes_ok C s" and g: "grouped C s m"
  shows "set (address_plan m (i, l, a)) = {(a, d, ns) |d ns. ns \<in> set (denom_groups C s (of_nat i) d)}"
    and "distinct (concat (map (snd \<circ> snd) (address_plan m (i, l, a))))"
proof -
  let ?g = "denom_groups C s (of_nat i)"
  obtain ds where ds: "distinct ds" "address_plan m (i, l, a) = concat (map (\<lambda>d. map (\<lambda>ns. (a, d, ns)) (?g d)) ds)"
    "\<forall>d. d \<notin> set ds \<longrightarrow> ?g d = []" by (rule address_plan_denoms [OF g, of i l a])
  have "concat (map (snd \<circ> snd) (concat (map (\<lambda>d. map (\<lambda>ns. (a, d, ns)) (?g d)) ds))) = concat (map (\<lambda>d. concat (?g d)) ds)" for ds
    by (induction ds) (simp_all add: comp_def)
  then have flat: "concat (map (snd \<circ> snd) (address_plan m (i, l, a))) = concat (map (\<lambda>d. concat (?g d)) ds)"
    by (simp only: ds(2))
  have "distinct (concat (map (\<lambda>d. concat (?g d)) ds))"
  proof (rule distinct_concat_keys [where key = id and k = "base s"])
    show "y \<in> set (concat (?g d)) \<Longrightarrow> base s y = id d" for d y
      using denom_groups_notes(2) [OF ok, of _ "of_nat i" d] by (force simp: ready_notes_def)
  qed (use ds(1) denom_groups_notes(1) [OF ok] in simp_all)
  then show "distinct (concat (map (snd \<circ> snd) (address_plan m (i, l, a))))" by (simp only: flat)
  show "set (address_plan m (i, l, a)) = {(a, d, ns) |d ns. ns \<in> set (?g d)}"
    unfolding ds(2) using ds(3) by fastforce
qed

section \<open>The addresses\<close>

lemma mapR_choice:
  assumes "\<And>x. x \<in> set xs \<Longrightarrow> \<exists>y. f x = Inr y \<and> P x y"
  shows "\<exists>ys. mapR f xs = Inr ys \<and> list_all2 P xs ys"
  using assms
proof (induction xs)
  case (Cons x xs)
  then obtain ys where "mapR f xs = Inr ys" "list_all2 P xs ys" by auto
  moreover obtain y where "f x = Inr y" "P x y" using Cons.prems by auto
  ultimately show ?case by simp
qed simp

abbreviation labels :: "client_state \<Rightarrow> string list" where
  "labels s \<equiv> wl_address_labels (cs_wallet s)"

definition own_addr :: "crypto \<Rightarrow> client_state \<Rightarrow> nat \<Rightarrow> address \<Rightarrow> bool" where
  "own_addr C s i a \<longleftrightarrow> i < length (labels s) \<and> payable C a
     \<and> u64_of_diversifier_index (index_for_diversifier C (ivk_dk (wallet_ivk (cs_wallet s))) (ad_d a)) = Inr (of_nat i)"

lemma addresses_ok:
  assumes laws: "crypto_laws C" and ok: "wallet_ok C s" and len: "length (labels s) \<le> 2 ^ 64"
  obtains addrs where "addresses C (cs_wallet s) = Inr addrs" and "map fst addrs = [0..<length (labels s)]"
    and "\<forall>(i, l, a) \<in> set addrs. own_addr C s i a"
proof -
  have "\<exists>a. own_addr C s i a \<and> bindR (payment_address C (wallet_ivk (cs_wallet s)) (diversifier_index_of_u64 (of_nat i))) (\<lambda>(a, _). Inr (i, l, a))
      = Inr (i, l, a)" if i: "i < length (labels s)" for i l
  proof -
    have u: "unat (of_nat i :: u64) = i" using i len by (simp add: unat_of_nat take_bit_nat_eq_self)
    have own: "\<forall>i < length (labels s). own_generator C (cs_wallet s) i \<noteq> el_zero C" using ok by (simp add: wallet_ok_def)
    have "unat (of_nat i :: u64) < length (labels s)" using i u by simp
    from address_by_index_ok [OF laws this own] obtain l' a where
      a: "address_by_index C (cs_wallet s) i = Inr (l', a)" "payable C a"
      "u64_of_diversifier_index (index_for_diversifier C (ivk_dk (wallet_ivk (cs_wallet s))) (ad_d a)) = Inr (of_nat i)"
      unfolding u by metis
    from a(1) obtain dtk where "payment_address C (wallet_ivk (cs_wallet s)) (diversifier_index_of_u64 (of_nat i)) = Inr (a, dtk)"
      by (auto simp: address_by_index_def result_simps split: if_splits)
    with a i show ?thesis by (auto simp: own_addr_def)
  qed
  note pay = this
  let ?f = "\<lambda>(i, label). bindR (payment_address C (wallet_ivk (cs_wallet s)) (diversifier_index_of_u64 (of_nat i))) (\<lambda>(a, _). Inr (i, label, a))"
  have "\<exists>y. ?f x = Inr y \<and> fst y = fst x \<and> own_addr C s (fst y) (snd (snd y))" if "x \<in> set (enumerate 0 (labels s))" for x
  proof -
    obtain i l where x: "x = (i, l)" by (cases x)
    then have "i < length (labels s)" using that by (simp add: in_set_enumerate_eq)
    from pay [OF this, of l] show ?thesis unfolding x by auto
  qed
  then have "\<exists>ys. mapR ?f (enumerate 0 (labels s)) = Inr ys
      \<and> list_all2 (\<lambda>x y. fst y = fst x \<and> own_addr C s (fst y) (snd (snd y))) (enumerate 0 (labels s)) ys"
    by (rule mapR_choice)
  then obtain addrs where addrs: "addresses C (cs_wallet s) = Inr addrs"
    and l: "list_all2 (\<lambda>x y. fst y = fst x \<and> own_addr C s (fst y) (snd (snd y))) (enumerate 0 (labels s)) addrs"
    unfolding addresses_def by blast
  have "map fst addrs = map fst (enumerate 0 (labels s))" using l by (induction rule: list_all2_induct) auto
  moreover have "\<forall>(i, l, a) \<in> set addrs. own_addr C s i a" using l by (induction rule: list_all2_induct) auto
  ultimately show thesis using addrs by (intro that) simp_all
qed

section \<open>The whole plan\<close>

definition good_group :: "crypto \<Rightarrow> client_state \<Rightarrow> address \<times> string \<times> note_t list \<Rightarrow> bool" where
  "good_group C s = (\<lambda>(a, d, ns). \<exists>i. own_addr C s i a \<and> ns \<in> set (denom_groups C s (of_nat i) d))"

lemma plan_ok:
  assumes laws: "crypto_laws C" and ok: "wallet_ok C s" and len: "length (labels s) \<le> 2 ^ 64"
  obtains plan where "\<And>X g. x_crypto X = C \<Longrightarrow> build_sweeps X s g = foldR (\<lambda>(a, d, ns). sweep_group X s a d ns) plan
        (\<lparr>sw_transactions = [], sw_spent_notes = [], sw_change_notes = []\<rparr>, g)"
    and "\<forall>x \<in> set plan. good_group C s x" and "distinct (concat (map (snd \<circ> snd) plan))"
    and "\<forall>i < length (labels s). \<forall>d. filter (of_kind C s (of_nat i) d) (map (snd \<circ> snd) plan) = denom_groups C s (of_nat i) d"
    and "plan = [] \<longleftrightarrow> (\<forall>i < length (labels s). \<forall>d. length (ready_notes C s d (Some (of_nat i))) < SWEEP_COUNT)"
proof -
  have nok: "notes_ok C s" using ok by (simp add: wallet_ok_def)
  obtain m where m: "unspent_notes_by_address_and_denom C s = Inr m" "grouped C s m" by (rule unspent_by_address_grouped [OF nok])
  obtain addrs where addrs: "addresses C (cs_wallet s) = Inr addrs" "map fst addrs = [0..<length (labels s)]"
    "\<forall>(i, l, a) \<in> set addrs. own_addr C s i a"
    by (rule addresses_ok [OF laws ok len])
  note plan = address_plan_groups [OF nok m(2)]
  let ?plan = "concat (map (address_plan m) addrs)"
  have ent: "set (address_plan m p) = {(snd (snd p), d, ns) |d ns. ns \<in> set (denom_groups C s (of_nat (fst p)) d)}" for p
    using plan(1) [of "fst p" "fst (snd p)" "snd (snd p)"] by simp
  have "build_sweeps X s g = foldR (\<lambda>(a, d, ns). sweep_group X s a d ns) ?plan
      (\<lparr>sw_transactions = [], sw_spent_notes = [], sw_change_notes = []\<rparr>, g)" if "x_crypto X = C" for X g
    by (simp add: build_sweeps_def that m(1) addrs(1) sweep_address_plan [abs_def] foldR_concat)
  moreover have "\<forall>x \<in> set ?plan. good_group C s x" using addrs(3) by (fastforce simp: ent good_group_def)
  moreover have "distinct (concat (map (snd \<circ> snd) ?plan))"
  proof -
    have "concat (map (snd \<circ> snd) (concat (map (address_plan m) ps))) = concat (map (\<lambda>p. concat (map (snd \<circ> snd) (address_plan m p))) ps)" for ps
      by (induction ps) simp_all
    moreover have "distinct (concat (map (\<lambda>p. concat (map (snd \<circ> snd) (address_plan m p))) addrs))"
    proof (rule distinct_concat_keys [where key = "of_nat \<circ> fst" and k = "idx C s"])
      have "inj_on (of_nat :: nat \<Rightarrow> u64) {0..<length (labels s)}" 
      proof (rule inj_onI)
        fix i j assume b: "i \<in> {0..<length (labels s)}" "j \<in> {0..<length (labels s)}" and "(of_nat i :: u64) = of_nat j"
        then have "unat (of_nat i :: u64) = unat (of_nat j :: u64)" by (simp only:)
        then show "i = j" using b len by (simp add: unat_of_nat take_bit_nat_eq_self)
      qed
      then show "distinct (map (of_nat \<circ> fst :: _ \<Rightarrow> u64) addrs)" using addrs(2) by (simp add: distinct_map flip: map_map)
      show "distinct (concat (map (snd \<circ> snd) (address_plan m p)))" for p
        using plan(2) [of "fst p" "fst (snd p)" "snd (snd p)"] by simp
      show "y \<in> set (concat (map (snd \<circ> snd) (address_plan m p))) \<Longrightarrow> idx C s y = (of_nat \<circ> fst) p" for p y
        using denom_groups_notes(2) [OF nok] by (fastforce simp: ent ready_notes_def)
    qed
    ultimately show ?thesis by simp
  qed
  moreover have "\<forall>i < length (labels s). \<forall>d. filter (of_kind C s (of_nat i) d) (map (snd \<circ> snd) ?plan) = denom_groups C s (of_nat i) d"
  proof (intro allI impI)
    fix i d assume i: "i < length (labels s)"
    have inj: "(of_nat i :: u64) = of_nat j \<longleftrightarrow> i = j" if "j < length (labels s)" for j
    proof
      assume "(of_nat i :: u64) = of_nat j"
      then have "unat (of_nat i :: u64) = unat (of_nat j :: u64)" by (simp only:)
      then show "i = j" using i that len by (simp add: unat_of_nat take_bit_nat_eq_self)
    qed simp
    have "map (snd \<circ> snd) ?plan = concat (map (\<lambda>p. map (snd \<circ> snd) (address_plan m p)) addrs)" by (simp add: map_concat comp_def)
    moreover have "filter (of_kind C s (of_nat i) d) (concat (map (\<lambda>p. map (snd \<circ> snd) (address_plan m p)) ps))
        = concat (map (\<lambda>j. if of_nat i = (of_nat j :: u64) then denom_groups C s (of_nat i) d else []) (map fst ps))" for ps
    proof (induction ps)
      case (Cons p ps)
      have "filter (of_kind C s (of_nat i) d) (map (snd \<circ> snd) (address_plan m p))
          = (if of_nat i = (of_nat (fst p) :: u64) then denom_groups C s (of_nat i) d else [])"
        using address_plan_kind [OF nok m(2), of "of_nat i" d "fst p" "fst (snd p)" "snd (snd p)"] by (simp only: prod.collapse)
      with Cons show ?case by (simp only: list.map concat.simps filter_append)
    qed simp
    moreover have "concat (map (\<lambda>j. if of_nat i = (of_nat j :: u64) then x else []) [0..<length (labels s)])
        = concat (map (\<lambda>_. x) (filter (\<lambda>j. j = i) [0..<length (labels s)]))" for x :: "note_t list list"
    proof -
      have "concat (map (\<lambda>j. if of_nat i = (of_nat j :: u64) then x else []) js) = concat (map (\<lambda>_. x) (filter (\<lambda>j. j = i) js))"
        if "set js \<subseteq> {0..<length (labels s)}" for js
        using that inj by (induction js) auto
      then show ?thesis by simp
    qed
    ultimately show "filter (of_kind C s (of_nat i) d) (map (snd \<circ> snd) ?plan) = denom_groups C s (of_nat i) d"
      using i by (simp add: addrs(2) filter_eq_one del: filter_map map_map)
  qed
  moreover have "?plan = [] \<longleftrightarrow> (\<forall>i < length (labels s). \<forall>d. length (ready_notes C s d (Some (of_nat i))) < SWEEP_COUNT)"
  proof -
    have "?plan = [] \<longleftrightarrow> (\<forall>p \<in> set addrs. \<forall>d. denom_groups C s (of_nat (fst p)) d = [])"
      unfolding concat_eq_Nil_conv using ent by (auto simp flip: set_empty) 
    also have "\<dots> \<longleftrightarrow> (\<forall>i \<in> set (map fst addrs). \<forall>d. denom_groups C s (of_nat i) d = [])" by simp
    also have "\<dots> \<longleftrightarrow> (\<forall>i < length (labels s). \<forall>d. denom_groups C s (of_nat i) d = [])" unfolding addrs(2) by auto
    finally show ?thesis by (simp add: denom_groups_def chunks_exact_Nil SWEEP_COUNT_def)
  qed
  ultimately show thesis by (rule that)
qed

section \<open>One transaction of the sweep\<close>

text \<open>
  The transaction passes the stateless check for this chain, spends these notes, and has an output of their sum.
\<close>

definition sweeps :: "ext \<Rightarrow> string \<Rightarrow> client_state \<Rightarrow> note_t list \<Rightarrow> transaction \<Rightarrow> bool" where
  "sweeps X cid s ns tx \<longleftrightarrow> pool_check_tx_stateless X tx = Inr () \<and> tb_chain_id (tx_body tx) = cid \<and> tb_fee (tx_body tx) = 0
     \<and> tb_merkle_root (tx_body tx) = nct_root (x_crypto X) (cs_nct s)
     \<and> set (spent_nullifiers tx) = note_nullifier (x_crypto X) s ` set ns
     \<and> (\<exists>out. Output out \<in> set (actions tx) \<and> unat (val_amount (opf_value (out_proof out))) = total_of ns
          \<and> (\<forall>n \<in> set ns. note_asset_id n = val_asset_id (opf_value (out_proof out))))"

lemma nullifiers_distinct:
  assumes ok: "wallet_ok C s" and un: "set ns \<subseteq> snd ` set (cs_unspent_set s)" and d: "distinct ns"
  shows "distinct (map (note_nullifier C s) ns)"
proof -
  have "n = n'" if "n \<in> set ns" "n' \<in> set ns" "note_nullifier C s n = note_nullifier C s n'" for n n'
  proof -
    have sp: "\<forall>n \<in> snd ` set (cs_unspent_set s). bt_get (cs_nullifier_map s) (note_nullifier C s n) = Some (note_commit C n)"
      using ok by (simp add: wallet_ok_def note_spendable_def)
    have m: "n \<in> snd ` set (cs_unspent_set s)" "n' \<in> snd ` set (cs_unspent_set s)" using that un by blast+
    have c: "note_commit C n = note_commit C n'" using bspec [OF sp m(1)] bspec [OF sp m(2)] that(3) by simp
    have nok: "notes_ok C s" using ok by (simp add: wallet_ok_def)
    from unspent_note_entry [OF nok m(1)] unspent_note_entry [OF nok m(2)] show ?thesis unfolding c by simp
  qed
  then have "inj_on (note_nullifier C s) (set ns)" by (rule inj_onI)
  with d show ?thesis by (simp add: distinct_map)
qed

text \<open>The notes of a group.\<close>

lemma group_notes:
  assumes ok: "wallet_ok C s" and bound: "\<And>i d. total_of (ready_notes C s d (Some i)) < 2 ^ 64"
    and ns: "ns \<in> set (denom_groups C s i d)"
  shows "set ns \<subseteq> snd ` set (cs_unspent_set s)" and "distinct ns" and "unat (sum_list (map note_amount ns)) = total_of ns"
    and "\<forall>n \<in> set ns. note_asset_id n = denom_id C d" and "bt_get (cs_asset_cache s) (denom_id C d) \<noteq> None"
proof -
  have nok: "notes_ok C s" using ok by (simp add: wallet_ok_def)
  have rd: "set ns \<subseteq> set (ready_notes C s d (Some i))" by (rule denom_groups_notes(2) [OF nok ns])
  then show un: "set ns \<subseteq> snd ` set (cs_unspent_set s)" by (auto simp: ready_notes_def)
  show "distinct ns" using denom_groups_notes(1) [OF nok] ns distinct_concat_iff by metis
  show "unat (sum_list (map note_amount ns)) = total_of ns"
    using denom_groups_notes(3) [OF nok ns] bound by (intro unat_sum_amounts) (meson le_less_trans)
  have asset: "note_asset_id n = denom_id C d \<and> bt_get (cs_asset_cache s) (denom_id C d) \<noteq> None" if n: "n \<in> set ns" for n
  proof -
    obtain d' where d': "bt_get (cs_asset_cache s) (note_asset_id n) = Some d'"
      using known_notes(1) [OF ok subsetD [OF un n]] by (auto simp: note_known_def note_denom_def)
    then have "dn_base_denom d' = d" using rd n by (auto simp: ready_notes_def base_def note_denom_def)
    moreover have "note_asset_id n = denom_id C (dn_base_denom d')" using ok d' by (simp add: wallet_ok_def)
    ultimately show ?thesis using d' by auto
  qed
  have "ns \<noteq> []" using denom_groups_notes(4) [OF nok ns] by (auto simp: SWEEP_COUNT_def)
  then obtain n where "n \<in> set ns" by (cases ns) auto
  from asset [OF this] show "bt_get (cs_asset_cache s) (denom_id C d) \<noteq> None" by simp
  show "\<forall>n \<in> set ns. note_asset_id n = denom_id C d" using asset by blast
qed

lemma sweep_group_ok:
  assumes laws: "crypto_laws (x_crypto X)" and ok: "wallet_ok (x_crypto X) s" and cid: "client_chain_id s = Some cid"
    and bound: "\<And>i d. total_of (ready_notes (x_crypto X) s d (Some i)) < 2 ^ 64" and gg: "good_group (x_crypto X) s (a, d, ns)"
  obtains tx change g' where "sweep_group X s a d ns (sw, g)
      = Inr (\<lparr>sw_transactions = sw_transactions sw @ [tx], sw_spent_notes = sw_spent_notes sw @ ns,
              sw_change_notes = sw_change_notes sw @ [change]\<rparr>, g')"
    and "sweeps X cid s ns tx" and "note_known (x_crypto X) s change"
proof -
  let ?C = "x_crypto X" and ?v = "\<lparr>val_amount = sum_list (map note_amount ns), val_asset_id = denom_id (x_crypto X) d\<rparr>"
  from gg obtain i where i: "own_addr ?C s i a" and ns: "ns \<in> set (denom_groups ?C s (of_nat i) d)" by (auto simp: good_group_def)
  note gn = group_notes [OF ok bound ns]
  obtain b where b: "new_builder ?C 0 s = Inr b" "built ?C (cs_nct s) b" "bd_chain_id b = Some cid" "bd_fee b = Some 0"
    "bd_validator_definitions b = []" and n0: "builder_nullifiers b = []" and net0: "\<forall>i. net i (builder_terms ?C b) = 0"
    by (rule new_builder_ok [OF cid, of ?C 0]) simp
  have "\<forall>n \<in> set ns. note_spendable ?C s n" using ok gn(1) unfolding wallet_ok_def by blast
  then obtain b1 g1 where b1: "spend_all ?C s ns (b, g) = Inr (b1, g1)"
    and e1: "extends ?C (cs_nct s) b b1 (map (\<lambda>n. (True, nt_value n)) ns) (map (note_nullifier ?C s) ns) []"
    by (rule spend_all_ok)
  have mem: "length memo_default = 512" by (simp add: memo_default_def)
  have pay: "payable ?C a" using i by (simp add: own_addr_def)
  obtain change b2 g2 where b2: "add_output_producing_note ?C g1 a ?v memo_default (wallet_ovk (cs_wallet s)) b1 = Inr (change, b2, g2)"
    and e2: "extends ?C (cs_nct s) b1 b2 [(False, ?v)] [] [?v]" and c: "nt_value change = ?v" "nt_diversifier change = ad_d a"
    by (rule extends_output [OF laws pay mem])
  note e = extends_trans [OF e1 e2]
  have "net j (map (\<lambda>n. (True, nt_value n)) ns) = (if j = denom_id ?C d then int (total_of ns) else 0)" for j
    using gn(4) by (rule net_notes)
  then have bal: "\<forall>j. net j (builder_terms ?C b2) = 0" using e net0 gn(3) by (simp add: extends_def)
  have nfs: "builder_nullifiers b2 = map (note_nullifier ?C s) ns" using e n0 by (simp add: extends_def)
  have f: "built ?C (cs_nct s) b2" "bd_chain_id b2 = Some cid" "bd_fee b2 = Some 0"
    "\<forall>vd \<in> set (bd_validator_definitions b2). check_definition_signed X vd = Inr ()"
    using e b by (simp_all add: extends_def)
  have d: "distinct (builder_nullifiers b2)" unfolding nfs by (rule nullifiers_distinct [OF ok gn(1,2)])
  have l: "group_ok ?C" "nct_ok ?C" "rand_ok ?C" "embed_ok ?C" "rdsa_ok ?C (VALUE_BLINDING_GENERATOR ?C)"
    using laws by (simp_all add: crypto_laws_def)
  have "unat (of_nat i :: u64) < length (labels s)" using i by (auto simp: own_addr_def unat_of_nat intro: le_less_trans [OF take_bit_nat_less_eq_self])
  then have known: "note_known ?C s change"
    by (intro known_change [OF _ c(2), of _ _ "of_nat i"]) (use c(1) gn(5) i in \<open>simp_all add: own_addr_def\<close>)
  show thesis
  proof (rule balanced_accepted [OF l f(1) bal f(2,3,4) d, of g2])
    fix tx b3 g3
    assume fin: "builder_finalize X g2 b2 = Inr (tx, b3, g3)" and "pool_check_tx_stateless X tx = Inr ()"
      "tb_chain_id (tx_body tx) = cid" "tb_fee (tx_body tx) = 0" "tb_merkle_root (tx_body tx) = nct_root ?C (cs_nct s)"
      "set (spent_nullifiers tx) = (\<lambda>(_, body). sb_nullifier body) ` set (bd_spends b2)"
      and acts: "Output ` set (bd_outputs b2) \<union> Delegate ` set (bd_delegations b2) \<union> Undelegate ` set (bd_undelegations b2)
        \<union> ValidatorDefinition ` set (bd_validator_definitions b2) \<subseteq> set (actions tx)"
    moreover have "?v \<in> set (map (opf_value \<circ> out_proof) (bd_outputs b2))" using e by (simp add: extends_def)
    then obtain out where "out \<in> set (bd_outputs b2)" "opf_value (out_proof out) = ?v" by auto
    then have "Output out \<in> set (actions tx) \<and> unat (val_amount (opf_value (out_proof out))) = total_of ns
        \<and> (\<forall>n \<in> set ns. note_asset_id n = val_asset_id (opf_value (out_proof out)))"
      using acts gn(3,4) by auto
    ultimately have "sweeps X cid s ns tx" using arg_cong [OF nfs, of set] unfolding sweeps_def by (intro conjI exI) (simp_all, blast+)
    with known show thesis by (intro that) (simp_all add: sweep_group_def b(1) b1 b2 fin)
  qed
qed

section \<open>The sweep\<close>

lemma sweep_plan_ok:
  assumes laws: "crypto_laws (x_crypto X)" and ok: "wallet_ok (x_crypto X) s" and cid: "client_chain_id s = Some cid"
    and bound: "\<And>i d. total_of (ready_notes (x_crypto X) s d (Some i)) < 2 ^ 64" and "\<forall>x \<in> set plan. good_group (x_crypto X) s x"
  shows "\<exists>txs changes g'. foldR (\<lambda>(a, d, ns). sweep_group X s a d ns) plan (sw, g)
      = Inr (\<lparr>sw_transactions = sw_transactions sw @ txs, sw_spent_notes = sw_spent_notes sw @ concat (map (snd \<circ> snd) plan),
              sw_change_notes = sw_change_notes sw @ changes\<rparr>, g')
    \<and> list_all2 (sweeps X cid s) (map (snd \<circ> snd) plan) txs \<and> (\<forall>n \<in> set changes. note_known (x_crypto X) s n)"
  using assms(5)
proof (induction plan arbitrary: sw g)
  case Nil
  show ?case by (intro exI [of _ "[]"] exI [of _ g]) simp
next
  case (Cons x plan)
  obtain a d ns where x: "x = (a, d, ns)" by (cases x)
  then have "good_group (x_crypto X) s (a, d, ns)" using Cons.prems by simp
  then obtain tx change g1 where 1: "sweep_group X s a d ns (sw, g)
      = Inr (\<lparr>sw_transactions = sw_transactions sw @ [tx], sw_spent_notes = sw_spent_notes sw @ ns,
              sw_change_notes = sw_change_notes sw @ [change]\<rparr>, g1)"
    and t: "sweeps X cid s ns tx" "note_known (x_crypto X) s change"
    by (rule sweep_group_ok [OF laws ok cid bound])
  have "\<forall>x \<in> set plan. good_group (x_crypto X) s x" using Cons.prems by simp
  from Cons.IH [OF this, of "\<lparr>sw_transactions = sw_transactions sw @ [tx], sw_spent_notes = sw_spent_notes sw @ ns,
      sw_change_notes = sw_change_notes sw @ [change]\<rparr>" g1]
  obtain txs changes g' where 2: "foldR (\<lambda>(a, d, ns). sweep_group X s a d ns) plan
      (\<lparr>sw_transactions = sw_transactions sw @ [tx], sw_spent_notes = sw_spent_notes sw @ ns, sw_change_notes = sw_change_notes sw @ [change]\<rparr>, g1)
      = Inr (\<lparr>sw_transactions = sw_transactions sw @ [tx] @ txs, sw_spent_notes = sw_spent_notes sw @ ns @ concat (map (snd \<circ> snd) plan),
              sw_change_notes = sw_change_notes sw @ [change] @ changes\<rparr>, g')"
    and r: "list_all2 (sweeps X cid s) (map (snd \<circ> snd) plan) txs" "\<forall>n \<in> set changes. note_known (x_crypto X) s n"
    by (auto simp: comp_def)
  show ?case using 1 2 t r by (intro exI [of _ "tx # txs"] exI [of _ "change # changes"] exI [of _ g']) (simp add: x comp_def)
qed

lemma register_unspent:
  assumes nok: "notes_ok C s" and un: "set ns \<subseteq> snd ` set (cs_unspent_set s)" and d: "distinct ns"
  shows "foldR (register_spend C now) ns s = Inr (mark_spent C now ns s)"
proof (rule register_spends)
  have e: "bt_get (cs_unspent_set s) (note_commit C n) = Some n" if "n \<in> set ns" for n
    using unspent_note_entry [OF nok] un that by blast
  then show "\<forall>n \<in> set ns. bt_get (cs_unspent_set s) (note_commit C n) = Some n" by blast
  have "inj_on (note_commit C) (set ns)"
  proof (rule inj_onI)
    fix n n' assume "n \<in> set ns" "n' \<in> set ns" and c: "note_commit C n = note_commit C n'"
    then show "n = n'" using e [of n] e [of n'] unfolding c by simp
  qed
  with d show "distinct (map (note_commit C) ns)" by (simp add: distinct_map)
qed

lemma wallet_ok_register_changes:
  assumes "wallet_ok C s" and "\<forall>n \<in> set ns. note_known C s n"
  shows "wallet_ok C (fold (register_change C now) ns s)"
  using assms
proof (induction ns arbitrary: s)
  case (Cons n ns)
  then have "wallet_ok C (register_change C now n s)" by (intro wallet_ok_register_change) simp_all
  then show ?case using Cons.IH Cons.prems(2) by (simp add: moved_note [OF moved_register_change])
qed simp

lemma sweep_runs:
  assumes laws: "crypto_laws (x_crypto X)" and ok: "wallet_ok (x_crypto X) (cf_state f)" and cid: "client_chain_id (cf_state f) = Some cid"
    and bound: "\<And>i d. total_of (ready_notes (x_crypto X) (cf_state f) d (Some i)) < 2 ^ 64"
    and len: "length (labels (cf_state f)) \<le> 2 ^ 64" and post: "\<And>tx. post tx \<in> range Inr"
  obtains plan txs changes g' f' where "tx_sweep X now g post f = (Inr (if txs = [] then FinishedSweeping else Swept (length txs), g'), f')"
    and "build_sweeps X (cf_state f) g
      = Inr (\<lparr>sw_transactions = txs, sw_spent_notes = concat (map (snd \<circ> snd) plan), sw_change_notes = changes\<rparr>, g')"
    and "list_all2 (sweeps X cid (cf_state f)) (map (snd \<circ> snd) plan) txs" and "\<forall>ns \<in> set (map (snd \<circ> snd) plan). length ns = SWEEP_COUNT"
    and "distinct (concat (map (snd \<circ> snd) plan))" and "\<forall>x \<in> set plan. good_group (x_crypto X) (cf_state f) x"
    and "\<forall>i < length (labels (cf_state f)). \<forall>d. filter (of_kind (x_crypto X) (cf_state f) (of_nat i) d) (map (snd \<circ> snd) plan)
      = denom_groups (x_crypto X) (cf_state f) (of_nat i) d"
    and "wallet_ok (x_crypto X) (cf_state f')"
    and "txs = [] \<longleftrightarrow> (\<forall>i < length (labels (cf_state f)). \<forall>d. length (ready_notes (x_crypto X) (cf_state f) d (Some (of_nat i))) < SWEEP_COUNT)"
proof -
  let ?C = "x_crypto X" and ?s = "cf_state f"
  have nok: "notes_ok ?C ?s" using ok by (simp add: wallet_ok_def)
  obtain plan where build: "build_sweeps X ?s g = foldR (\<lambda>(a, d, ns). sweep_group X ?s a d ns) plan
        (\<lparr>sw_transactions = [], sw_spent_notes = [], sw_change_notes = []\<rparr>, g)"
    and good: "\<forall>x \<in> set plan. good_group ?C ?s x" and dist: "distinct (concat (map (snd \<circ> snd) plan))"
    and kinds: "\<forall>i < length (labels ?s). \<forall>d. filter (of_kind ?C ?s (of_nat i) d) (map (snd \<circ> snd) plan) = denom_groups ?C ?s (of_nat i) d"
    and none: "plan = [] \<longleftrightarrow> (\<forall>i < length (labels ?s). \<forall>d. length (ready_notes ?C ?s d (Some (of_nat i))) < SWEEP_COUNT)"
    by (rule plan_ok [OF laws ok len]) blast
  let ?gs = "map (snd \<circ> snd) plan"
  from sweep_plan_ok [OF laws ok cid bound good, of "\<lparr>sw_transactions = [], sw_spent_notes = [], sw_change_notes = []\<rparr>" g]
  obtain txs changes g' where b: "build_sweeps X ?s g
      = Inr (\<lparr>sw_transactions = txs, sw_spent_notes = concat ?gs, sw_change_notes = changes\<rparr>, g')"
    and txs: "list_all2 (sweeps X cid ?s) ?gs txs" and ch: "\<forall>n \<in> set changes. note_known ?C ?s n"
    unfolding build by auto
  have un: "set (concat ?gs) \<subseteq> snd ` set (cs_unspent_set ?s)" and len8: "\<forall>ns \<in> set ?gs. length ns = SWEEP_COUNT"
    using good group_notes(1) [OF ok bound] denom_groups_notes(4) [OF nok] by (fastforce simp: good_group_def)+
  have reg: "foldR (register_spend ?C now) (concat ?gs) ?s = Inr (mark_spent ?C now (concat ?gs) ?s)"
    by (rule register_unspent [OF nok un dist])
  have "submit_transaction_unconfirmed post tx = Inr ()" for tx using post [of tx] by (auto simp: submit_transaction_unconfirmed_def)
  then have sub: "foldR (\<lambda>tx _. submit_transaction_unconfirmed post tx) txs () = Inr ()" unfolding foldR_checks by blast
  have "\<forall>n \<in> set changes. note_known ?C (mark_spent ?C now (concat ?gs) ?s) n" using ch by (simp add: moved_note [OF moved_mark_spent])
  then have ok': "wallet_ok ?C (fold (register_change ?C now) changes (mark_spent ?C now (concat ?gs) ?s))"
    by (rule wallet_ok_register_changes [OF wallet_ok_mark_spent [OF ok un]])
  let ?f = "f\<lparr>cf_state := fold (register_change ?C now) changes (mark_spent ?C now (concat ?gs) ?s)\<rparr>"
  have run: "tx_sweep X now g post f = (Inr (if txs = [] then FinishedSweeping else Swept (length txs), g'), ?f)"
    by (simp add: tx_sweep_def b sub reg)
  have "txs = [] \<longleftrightarrow> plan = []" using list_all2_lengthD [OF txs] by auto
  with none have fin: "txs = [] \<longleftrightarrow> (\<forall>i < length (labels ?s). \<forall>d. length (ready_notes ?C ?s d (Some (of_nat i))) < SWEEP_COUNT)" by simp
  have "wallet_ok ?C (cf_state ?f)" using ok' by simp
  from that [OF run b txs len8 dist good kinds this fin] show thesis .
qed

text \<open>
  C10: sweeping succeeds and says when it is done.  Take a wallet whose invariant holds, with less than \<open>2 ^ 64\<close>
  confirmed at each address in each denomination, and a node that takes the transactions.  Then the command builds a list of groups of eight notes, all of a group confirmed, of one denomination
  and at one address.  The groups of a denomination at an address are exactly the consecutive
  eights of its confirmed notes in the order of amounts, as many as fit.  Each group becomes a
  transaction without a fee that spends the group into an output of its sum and that the shielded
  pool's stateless check accepts; no note is spent by two of them.  The
  wallet's invariant holds afterwards, and the command reports that it has finished exactly if every address
  has fewer than eight confirmed notes of each denomination.
\<close>

theorem sweep_accepted:
  assumes laws: "crypto_laws (x_crypto X)" and ok: "wallet_ok (x_crypto X) (cf_state f)" and cid: "client_chain_id (cf_state f) = Some cid"
    and bound: "\<And>i d. total_of (ready_notes (x_crypto X) (cf_state f) d (Some i)) < 2 ^ 64"
    and len: "length (wl_address_labels (cs_wallet (cf_state f))) \<le> 2 ^ 64" and post: "\<And>tx. post tx \<in> range Inr"
  shows "\<exists>txs gs g' f'. tx_sweep X now g post f = (Inr (if txs = [] then FinishedSweeping else Swept (length txs), g'), f')
    \<and> (\<exists>changes. build_sweeps X (cf_state f) g = Inr (\<lparr>sw_transactions = txs, sw_spent_notes = concat gs, sw_change_notes = changes\<rparr>, g'))
    \<and> list_all2 (sweeps X cid (cf_state f)) gs txs \<and> (\<forall>ns \<in> set gs. length ns = SWEEP_COUNT) \<and> distinct (concat gs)
    \<and> (\<forall>ns \<in> set gs. \<exists>i < length (wl_address_labels (cs_wallet (cf_state f))). \<exists>d.
         set ns \<subseteq> set (ready_notes (x_crypto X) (cf_state f) d (Some (of_nat i))))
    \<and> (\<forall>i < length (wl_address_labels (cs_wallet (cf_state f))). \<forall>d.
         let ready = ready_notes (x_crypto X) (cf_state f) d (Some (of_nat i));
             own = filter (\<lambda>ns. set ns \<subseteq> set ready) gs in
         length own = length ready div SWEEP_COUNT \<and> concat own = take (SWEEP_COUNT * length own) (sort_key note_amount ready))
    \<and> wallet_ok (x_crypto X) (cf_state f')
    \<and> (txs = [] \<longleftrightarrow> (\<forall>i < length (wl_address_labels (cs_wallet (cf_state f))). \<forall>d.
          length (ready_notes (x_crypto X) (cf_state f) d (Some (of_nat i))) < SWEEP_COUNT))"
proof (rule sweep_runs [OF assms, of now g])
  let ?C = "x_crypto X" and ?s = "cf_state f"
  have nok: "notes_ok ?C ?s" using ok by (simp add: wallet_ok_def)
  fix plan :: sweep_plan and txs changes g' f'
  let ?gs = "map (snd \<circ> snd) plan"
  assume run: "tx_sweep X now g post f = (Inr (if txs = [] then FinishedSweeping else Swept (length txs), g'), f')"
    and b: "build_sweeps X ?s g = Inr (\<lparr>sw_transactions = txs, sw_spent_notes = concat ?gs, sw_change_notes = changes\<rparr>, g')"
    and facts: "list_all2 (sweeps X cid ?s) ?gs txs" "\<forall>ns \<in> set ?gs. length ns = SWEEP_COUNT" "distinct (concat ?gs)"
    and good: "\<forall>x \<in> set plan. good_group ?C ?s x"
    and kinds: "\<forall>i < length (labels ?s). \<forall>d. filter (of_kind ?C ?s (of_nat i) d) ?gs = denom_groups ?C ?s (of_nat i) d"
    and fin: "wallet_ok ?C (cf_state f')"
      "txs = [] \<longleftrightarrow> (\<forall>i < length (labels ?s). \<forall>d. length (ready_notes ?C ?s d (Some (of_nat i))) < SWEEP_COUNT)"
  have all: "\<forall>i < length (labels ?s). \<forall>d. let ready = ready_notes ?C ?s d (Some (of_nat i)); own = filter (\<lambda>ns. set ns \<subseteq> set ready) ?gs in
      length own = length ready div SWEEP_COUNT \<and> concat own = take (SWEEP_COUNT * length own) (sort_key note_amount ready)"
    using kinds denom_groups_taken unfolding of_kind_def [abs_def] Let_def by simp
  have one: "\<forall>ns \<in> set ?gs. \<exists>i < length (labels ?s). \<exists>d. set ns \<subseteq> set (ready_notes ?C ?s d (Some (of_nat i)))"
    using good denom_groups_notes(2) [OF nok] by (fastforce simp: good_group_def own_addr_def)
  show ?thesis
    by (rule exI [of _ txs], rule exI [of _ ?gs], rule exI [of _ g'], rule exI [of _ f'])
       (intro conjI run exI [of _ changes] b facts one all fin)
qed

end
