(* ===== verification/Pcli_Sync.thy ===== *)
theory Pcli_Sync
  imports Pcli
begin

text \<open>
  Synchronisation and the wallet file.  A state that can be stored stays so when blocks are scanned and
  timeouts pruned; hence every checkpoint can be loaded again, and an interrupted synchronisation loses
  fewer than a thousand blocks.
\<close>

section \<open>Scanning keeps a state storable\<close>

lemma note_of_bytes_ok: "note_of_bytes C b = Inr n \<Longrightarrow> note_ok C n"
  by (auto simp: note_of_bytes_def note_from_parts_def note_ok_def result_simps slice_def split: if_splits)

lemma note_decrypt_ok: "note_decrypt C c ivk epk = Inr n \<Longrightarrow> note_ok C n"
  by (auto simp: note_decrypt_def Let_def result_simps split: if_splits intro: note_of_bytes_ok)

lemma bt_remove_subset: "set (bt_remove k m) \<subseteq> set m"
  by (auto simp: bt_remove_def)

lemma set_bt_insert_entry: "e \<in> set (bt_insert k v m) \<Longrightarrow> e = (k, v) \<or> e \<in> set m"
  by (induction m) (auto split: if_splits)

lemma bt_get_entry: "bt_get m k = Some v \<Longrightarrow> (k, v) \<in> set m"
  by (simp add: bt_get_def map_of_SomeD)

lemma storable_scan_output:
  assumes "scan_output C body s = Inr s'" and "storable C s"
  shows "storable C s'"
proof (cases "note_decrypt C (ob_encrypted_note body) (wallet_ivk (cs_wallet s)) (ob_ephemeral_key body)")
  case (Inl e)
  then show ?thesis using assms by (auto simp: scan_output_def Let_def storable_def)
next
  case (Inr n)
  with assms obtain pos where s': "s' = s\<lparr>cs_nct := cs_nct s @ [NctAppend (ob_note_commitment body), NctWitness],
      cs_nullifier_map := bt_insert (fvk_derive_nullifier C (wallet_fvk (cs_wallet s)) pos (ob_note_commitment body)) (ob_note_commitment body) (cs_nullifier_map s),
      cs_submitted_change_set := bt_remove (ob_note_commitment body) (cs_submitted_change_set s),
      cs_unspent_set := bt_insert (ob_note_commitment body) n (cs_unspent_set s)\<rparr>"
    by (auto simp: scan_output_def Let_def result_simps)
  show ?thesis
    using assms(2) note_decrypt_ok [OF Inr] bt_remove_subset [of "ob_note_commitment body" "cs_submitted_change_set s"]
    unfolding s' storable_def by (auto simp: bt_ok_insert bt_ok_remove dest!: set_bt_insert_entry)
qed

lemma storable_spent:
  assumes "storable C s" and "note_ok C n"
  shows "storable C (s\<lparr>cs_unspent_set := bt_remove c (cs_unspent_set s), cs_spent_set := bt_insert c n (cs_spent_set s), cs_nct := t\<rparr>)"
    and "storable C (s\<lparr>cs_submitted_spend_set := bt_remove c (cs_submitted_spend_set s), cs_spent_set := bt_insert c n (cs_spent_set s), cs_nct := t\<rparr>)"
    and "storable C (s\<lparr>cs_submitted_change_set := bt_remove c (cs_submitted_change_set s), cs_spent_set := bt_insert c n (cs_spent_set s), cs_nct := t\<rparr>)"
  using assms bt_remove_subset [of c "cs_unspent_set s"] bt_remove_subset [of c "cs_submitted_spend_set s"] bt_remove_subset [of c "cs_submitted_change_set s"]
  unfolding storable_def by (auto simp: bt_ok_insert bt_ok_remove dest!: set_bt_insert_entry)

lemma storable_note:
  assumes "storable C s"
  shows "bt_get (cs_unspent_set s) c = Some n \<Longrightarrow> note_ok C n"
    and "bt_get (cs_submitted_spend_set s) c = Some (x, n) \<Longrightarrow> note_ok C n"
    and "bt_get (cs_submitted_change_set s) c = Some (x, n) \<Longrightarrow> note_ok C n"
  using assms by (force simp: storable_def dest!: bt_get_entry)+

lemma storable_scan_nullifier:
  assumes "storable C s"
  shows "storable C (scan_nullifier nf s)"
  using assms storable_note [OF assms] by (auto simp: scan_nullifier_def storable_spent split: option.splits)

lemma storable_scan_block:
  assumes "scan_block C cb s = Inr s'" and "storable C s"
  shows "storable C s'"
proof -
  from assms(1) obtain s1 where s1: "foldR (scan_output C) (cb_outputs cb) s = Inr s1"
    and s': "s' = (fold scan_nullifier (cb_nullifiers cb) s1)\<lparr>cs_last_block_height := Some (cb_height cb)\<rparr>"
    by (auto simp: scan_block_def result_simps)
  have "storable C s1" by (rule foldR_inv [where P = "storable C", OF s1 assms(2)]) (blast intro: storable_scan_output)
  moreover have "storable C t \<Longrightarrow> storable C (fold scan_nullifier nfs t)" for nfs t
    by (induction nfs arbitrary: t) (simp_all add: storable_scan_nullifier)
  ultimately have "storable C (fold scan_nullifier (cb_nullifiers cb) s1)" by blast
  then show ?thesis unfolding s' by (simp add: storable_def)
qed

lemma storable_prune:
  assumes "storable C s"
  shows "storable C (prune_timeouts now s)"
proof -
  let ?s = "s\<lparr>cs_submitted_spend_set := [], cs_submitted_change_set := []\<rparr>"
  have n: "(c, x, n) \<in> set (cs_submitted_spend_set s) \<Longrightarrow> note_ok C n"
    "(c, x, n) \<in> set (cs_submitted_change_set s) \<Longrightarrow> note_ok C n" for c x n
    using assms unfolding storable_def by force+
  have unspent: "storable C (t\<lparr>cs_unspent_set := bt_insert c n (cs_unspent_set t)\<rparr>)"
    and spend: "storable C (t\<lparr>cs_submitted_spend_set := bt_insert c (x, n) (cs_submitted_spend_set t)\<rparr>)"
    and change: "storable C (t\<lparr>cs_submitted_change_set := bt_insert c (x, n) (cs_submitted_change_set t)\<rparr>)"
    if "storable C t" "note_ok C n" for t c n x
    using that by (auto simp: storable_def bt_ok_insert dest!: set_bt_insert_entry)
  have "storable C ?s" using assms by (simp add: storable_def bt_ok_def)
  then show ?thesis
    unfolding prune_timeouts_def Let_def
    by (rule fold_keeps [where P = "storable C", OF fold_keeps [where P = "storable C"]])
       (auto intro!: unspent spend change intro: n)
qed

section \<open>Checkpoints\<close>

text \<open>The state after the messages of a stream.\<close>

definition scan_message :: "crypto \<Rightarrow> compact_block_pb result \<Rightarrow> client_state \<Rightarrow> client_state result" where
  "scan_message C m s = bindR m (\<lambda>b. bindR (compact_block_of_proto C b) (\<lambda>cb. scan_block C cb s))"

abbreviation scan_messages :: "crypto \<Rightarrow> compact_block_pb result list \<Rightarrow> client_state \<Rightarrow> client_state result" where
  "scan_messages C \<equiv> foldR (scan_message C)"

lemma storable_scan_messages:
  assumes "scan_messages C ms s = Inr s'" and "storable C s"
  shows "storable C s'"
  by (rule foldR_inv [where P = "storable C", OF assms])
     (auto simp: scan_message_def result_simps intro: storable_scan_block)

lemma sync_blocks_step:
  "sync_blocks C K (m # ms) k f =
     (case scan_message C m (cf_state f) of
        Inl e \<Rightarrow> (Inl e, f)
      | Inr s \<Rightarrow> sync_blocks C K ms (k + 1)
          (if (k + 1) mod 1000 = 1 then file_commit C K (f\<lparr>cf_state := s\<rparr>) else f\<lparr>cf_state := s\<rparr>))"
proof (cases m)
  case (Inr b)
  then show ?thesis
    by (cases "bindR (compact_block_of_proto C b) (\<lambda>cb. scan_block C cb (cf_state f))") (simp_all add: scan_message_def Let_def)
qed (simp add: scan_message_def)

text \<open>The file holds the state after \<open>j\<close> of the first \<open>n\<close> messages, the last checkpoint, or is as before.\<close>

definition saved_after :: "crypto \<Rightarrow> codecs \<Rightarrow> compact_block_pb result list \<Rightarrow> client_file \<Rightarrow> client_file \<Rightarrow> nat \<Rightarrow> bool" where
  "saved_after C K ms f f' j \<longleftrightarrow> (\<exists>s. scan_messages C (take j ms) (cf_state f) = Inr s \<and> cf_disk f' = Some (client_state_to_helper C K s))"

lemma sync_blocks_prefix:
  assumes "sync_blocks C K ms k f = (r, f')"
  shows "\<exists>n \<le> length ms. scan_messages C (take n ms) (cf_state f) = Inr (cf_state f') \<and> (r = Inr () \<longleftrightarrow> n = length ms)
    \<and> ((cf_disk f' = cf_disk f \<and> (\<forall>i \<le> n. 0 < i \<longrightarrow> (k + i) mod 1000 \<noteq> 1))
       \<or> (\<exists>j \<le> n. 0 < j \<and> (k + j) mod 1000 = 1 \<and> (\<forall>i \<le> n. j < i \<longrightarrow> (k + i) mod 1000 \<noteq> 1) \<and> saved_after C K ms f f' j))"
  using assms
proof (induction ms arbitrary: k f)
  case Nil
  then show ?case by simp
next
  case (Cons m ms)
  show ?case
  proof (cases "scan_message C m (cf_state f)")
    case (Inl e)
    then show ?thesis using Cons.prems unfolding sync_blocks_step by (intro exI [of _ 0]) auto
  next
    case (Inr s)
    let ?f = "if (k + 1) mod 1000 = 1 then file_commit C K (f\<lparr>cf_state := s\<rparr>) else f\<lparr>cf_state := s\<rparr>"
    have st: "cf_state ?f = s" by (simp add: file_commit_def)
    have "sync_blocks C K ms (k + 1) ?f = (r, f')" using Cons.prems unfolding sync_blocks_step Inr by simp
    from Cons.IH [OF this] obtain n where n: "n \<le> length ms" "scan_messages C (take n ms) s = Inr (cf_state f')" "r = Inr () \<longleftrightarrow> n = length ms"
      and d: "(cf_disk f' = cf_disk ?f \<and> (\<forall>i \<le> n. 0 < i \<longrightarrow> (k + 1 + i) mod 1000 \<noteq> 1))
       \<or> (\<exists>j \<le> n. 0 < j \<and> (k + 1 + j) mod 1000 = 1 \<and> (\<forall>i \<le> n. j < i \<longrightarrow> (k + 1 + i) mod 1000 \<noteq> 1) \<and> saved_after C K ms ?f f' j)"
      unfolding st by blast
    have later: "\<forall>i \<le> Suc n. Suc j < i \<longrightarrow> (k + i) mod 1000 \<noteq> 1" if "\<forall>i \<le> n. j < i \<longrightarrow> (k + 1 + i) mod 1000 \<noteq> 1" for j
    proof (intro allI impI)
      fix i assume "i \<le> Suc n" "Suc j < i"
      then show "(k + i) mod 1000 \<noteq> 1" using that by (cases i) simp_all
    qed
    from d have "(cf_disk f' = cf_disk f \<and> (\<forall>i \<le> Suc n. 0 < i \<longrightarrow> (k + i) mod 1000 \<noteq> 1))
       \<or> (\<exists>j \<le> Suc n. 0 < j \<and> (k + j) mod 1000 = 1 \<and> (\<forall>i \<le> Suc n. j < i \<longrightarrow> (k + i) mod 1000 \<noteq> 1) \<and> saved_after C K (m # ms) f f' j)"
    proof (elim disjE exE conjE)
      assume u: "cf_disk f' = cf_disk ?f" and l: "\<forall>i \<le> n. 0 < i \<longrightarrow> (k + 1 + i) mod 1000 \<noteq> 1"
      show ?thesis
      proof (cases "(k + 1) mod 1000 = 1")
        case True
        then have "saved_after C K (m # ms) f f' 1" using u Inr by (simp add: saved_after_def file_commit_def)
        with True later [OF l] show ?thesis by (intro disjI2 exI [of _ 1]) simp
      next
        case False
        then have "\<forall>i \<le> Suc n. 0 < i \<longrightarrow> (k + i) mod 1000 \<noteq> 1" using later [OF l] by (metis One_nat_def Suc_lessI)
        then show ?thesis using u False by simp
      qed
    next
      fix j assume j: "j \<le> n" "0 < j" "(k + 1 + j) mod 1000 = 1" "\<forall>i \<le> n. j < i \<longrightarrow> (k + 1 + i) mod 1000 \<noteq> 1" "saved_after C K ms ?f f' j"
      then have "saved_after C K (m # ms) f f' (Suc j)" by (simp only: saved_after_def st Inr take_Suc_Cons foldR.simps bindR.simps)
      with j later [OF j(4)] show ?thesis by (intro disjI2 exI [of _ "Suc j"]) simp
    qed
    with n Inr show ?thesis by (intro exI [of _ "Suc n"]) simp
  qed
qed

lemma prune_height: "cs_last_block_height (prune_timeouts now s) = cs_last_block_height s"
  unfolding prune_timeouts_def Let_def
  by (rule fold_keeps [where P = "\<lambda>t. cs_last_block_height t = cs_last_block_height s",
        OF fold_keeps [where P = "\<lambda>t. cs_last_block_height t = cs_last_block_height s"]]) auto

text \<open>What the next command finds when it loads the file.\<close>

definition reloaded :: "system_time \<Rightarrow> client_state \<Rightarrow> client_state" where
  "reloaded now s = prune_timeouts now (s\<lparr>cs_transactions := []\<rparr>)"

lemma load_saved:
  assumes "codecs_ok K" and "encoding_ok C" and "storable C s" and "disk = Some (client_state_to_helper C K s)"
  shows "file_load C K now disk = Inr \<lparr>cf_state = reloaded now s, cf_disk = disk\<rparr>"
  using assms(4) client_state_stored [OF assms(1-3)] by (simp add: file_load_def reloaded_def)

lemma sync_start_reloaded: "sync_start (reloaded now s) = sync_start s"
  by (simp add: sync_start_def reloaded_def prune_height)

lemma sync_blocks_saved:
  assumes laws: "codecs_ok K" "encoding_ok C" "storable C (cf_state f)" and run: "sync_blocks C K ms 0 f = (Inl err, f')"
  shows "\<exists>n < length ms. scan_messages C (take n ms) (cf_state f) = Inr (cf_state f')
    \<and> (if n = 0 then cf_disk f' = cf_disk f
       else \<exists>j s f2. 0 < j \<and> j \<le> n \<and> n < j + 1000 \<and> scan_messages C (take j ms) (cf_state f) = Inr s
         \<and> file_load C K later (cf_disk f') = Inr f2 \<and> cf_state f2 = reloaded later s \<and> sync_start (cf_state f2) = sync_start s)"
proof -
  from sync_blocks_prefix [OF run] obtain n where n: "n < length ms" "scan_messages C (take n ms) (cf_state f) = Inr (cf_state f')"
    and d: "(cf_disk f' = cf_disk f \<and> (\<forall>i \<le> n. 0 < i \<longrightarrow> i mod 1000 \<noteq> 1))
       \<or> (\<exists>j \<le> n. 0 < j \<and> j mod 1000 = 1 \<and> (\<forall>i \<le> n. j < i \<longrightarrow> i mod 1000 \<noteq> 1) \<and> saved_after C K ms f f' j)"
    by (auto simp: le_less)
  have "\<exists>j s f2. 0 < j \<and> j \<le> n \<and> n < j + 1000 \<and> scan_messages C (take j ms) (cf_state f) = Inr s
      \<and> file_load C K later (cf_disk f') = Inr f2 \<and> cf_state f2 = reloaded later s \<and> sync_start (cf_state f2) = sync_start s" if "n \<noteq> 0"
  proof -
    have "\<not> (\<forall>i \<le> n. 0 < i \<longrightarrow> i mod 1000 \<noteq> 1)" using that by (intro notI) (auto dest: spec [of _ 1])
    with d obtain j s where j: "j \<le> n" "j mod 1000 = 1" "\<forall>i \<le> n. j < i \<longrightarrow> i mod 1000 \<noteq> 1"
      "scan_messages C (take j ms) (cf_state f) = Inr s" "cf_disk f' = Some (client_state_to_helper C K s)"
      unfolding saved_after_def by blast
    then have "n < j + 1000" using j(3) [rule_format, of "j + 1000"] by (metis mod_add_self2 not_less less_add_same_cancel1 zero_less_numeral)
    moreover have "file_load C K later (cf_disk f') = Inr \<lparr>cf_state = reloaded later s, cf_disk = cf_disk f'\<rparr>"
      by (rule load_saved [OF laws(1,2) storable_scan_messages [OF j(4) laws(3)] j(5)])
    moreover have "0 < j" using j(2) by (cases j) simp_all
    ultimately show ?thesis using j(1,4)
      by (intro exI [of _ j] exI [of _ s] exI [of _ "\<lparr>cf_state = reloaded later s, cf_disk = cf_disk f'\<rparr>"]) (simp add: sync_start_reloaded)
  qed
  moreover have "cf_disk f' = cf_disk f" if "n = 0" using d that by auto
  ultimately show ?thesis using n by (intro exI [of _ n]) simp
qed

text \<open>There is a height after the first block.\<close>

lemma scanned_none:
  assumes "scan_messages C ms s = Inr t" and "cs_last_block_height t = None"
  shows "ms = [] \<and> cs_last_block_height s = None \<and> t = s"
proof (cases ms rule: rev_cases)
  case Nil
  then show ?thesis using assms by simp
next
  case (snoc ms' m)
  then show ?thesis using assms by (auto simp: foldR_append scan_message_def scan_block_def result_simps)
qed

text \<open>
  C12: an interrupted synchronisation loses little.  When the stream of blocks breaks off or a block is refused,
  the wallet file still loads; it holds the state after a prefix of the blocks that were scanned, fewer
  than a thousand of them are missing, and the next synchronisation asks for the block after that prefix.
  When the stream ends, the file holds the state after all its blocks; if it had no blocks and the wallet has none
  either, the command panics where info messages are recorded, after it has stored the state.
\<close>

theorem sync_resumable:
  assumes laws: "codecs_ok K" "encoding_ok C" "storable C (cf_state f)" and cid: "client_chain_id (cf_state f) = Some cid"
    and stream: "compact_block_range (sync_start (cf_state f)) cid = Inr ms"
    and run: "pcli_sync C K info now compact_block_range f = (r, f')"
  shows "case r of
      Inr _ \<Rightarrow> \<exists>s. scan_messages C ms (cf_state f) = Inr s
        \<and> file_load C K later (cf_disk f') = Inr \<lparr>cf_state = reloaded later (prune_timeouts now s), cf_disk = cf_disk f'\<rparr>
    | Inl _ \<Rightarrow> if info \<and> ms = [] \<and> cs_last_block_height (cf_state f) = None
      then file_load C K later (cf_disk f')
        = Inr \<lparr>cf_state = reloaded later (prune_timeouts now (cf_state f)), cf_disk = cf_disk f'\<rparr>
      else \<exists>n < length ms. scan_messages C (take n ms) (cf_state f) = Inr (cf_state f')
        \<and> (if n = 0 then cf_disk f' = cf_disk f
           else \<exists>j s f2. 0 < j \<and> j \<le> n \<and> n < j + 1000 \<and> scan_messages C (take j ms) (cf_state f) = Inr s
             \<and> file_load C K later (cf_disk f') = Inr f2 \<and> cf_state f2 = reloaded later s
             \<and> sync_start (cf_state f2) = sync_start s)"
proof (cases "sync_blocks C K ms 0 f")
  case blocks: (Pair r1 f1)
  show ?thesis
  proof (cases r1)
    case (Inl err)
    then have rf: "r = Inl err" "f' = f1" "ms \<noteq> []" using run blocks by (auto simp: pcli_sync_def cid stream)
    have "sync_blocks C K ms 0 f = (Inl err, f')" using blocks Inl rf by simp
    from sync_blocks_saved [OF laws this, of later] rf(3) show ?thesis unfolding rf(1) sum.case by simp
  next
    case (Inr u)
    let ?none = "info \<and> cs_last_block_height (cf_state f1) = None"
    have f': "f' = file_commit C K (f1\<lparr>cf_state := prune_timeouts now (cf_state f1)\<rparr>)"
      and r: "r = (if ?none then Inl (Panic ''called `Option::unwrap()` on a `None` value'') else Inr ())"
      using run Inr by (auto simp: pcli_sync_def cid stream blocks Let_def file_commit_def prune_height split: if_splits)
    have s: "scan_messages C ms (cf_state f) = Inr (cf_state f1)" using sync_blocks_prefix [OF blocks] Inr by auto
    have none: "ms = [] \<and> cs_last_block_height (cf_state f) = None \<and> cf_state f1 = cf_state f" if "cs_last_block_height (cf_state f1) = None"
      by (rule scanned_none [OF s that])
    have "storable C (prune_timeouts now (cf_state f1))" by (rule storable_prune [OF storable_scan_messages [OF s laws(3)]])
    from load_saved [OF laws(1,2) this, of "cf_disk f'" later] have
      "file_load C K later (cf_disk f') = Inr \<lparr>cf_state = reloaded later (prune_timeouts now (cf_state f1)), cf_disk = cf_disk f'\<rparr>"
      by (simp add: f' file_commit_def)
    then show ?thesis using s none by (cases ?none) (auto simp: r)
  qed
qed

section \<open>Wallets\<close>

text \<open>
  A wallet is restored from the phrase that \<open>generate\<close> has printed, and never written over another one; what
  \<open>reset\<close> leaves is a file with the same keys and no notes.
\<close>

lemma phrase_restores:
  assumes "length r = 32" and "wallet_generate_cmd C K r None = Inr (p, disk)" and "to_lowercase s = seed_phrase_to_string p"
  shows "wallet_import_phrase_cmd C K s None = Inr disk"
proof -
  have p: "p = from_randomness C r" using assms(2) by (auto simp: wallet_generate_cmd_def Let_def result_simps)
  with assms read_phrase [OF assms(1), of s C] show ?thesis
    by (auto simp: wallet_generate_cmd_def wallet_import_phrase_cmd_def Let_def result_simps)
qed

lemma no_overwrite:
  "wallet_generate_cmd C K r (Some h) \<noteq> Inr x" "wallet_import_phrase_cmd C K s (Some h) \<noteq> Inr y" "wallet_import_cmd C K t (Some h) \<noteq> Inr y"
  by (auto simp: wallet_generate_cmd_def wallet_import_phrase_cmd_def wallet_import_cmd_def save_new_wallet_def Let_def result_simps)

lemma reset_keeps_keys:
  assumes "codecs_ok K" and "encoding_ok C" and "storable C s"
  shows "\<exists>disk. wallet_reset_cmd C K now (Some (client_state_to_helper C K s)) = Inr disk
    \<and> file_load C K later disk = Inr \<lparr>cf_state = client_state_new (cs_wallet s), cf_disk = disk\<rparr>"
proof -
  let ?s = "client_state_new (cs_wallet s)"
  have st: "storable C ?s" using assms(3) by (simp add: storable_def client_state_new_def bt_ok_def)
  have r: "reloaded t ?s = ?s" for t by (simp add: reloaded_def client_state_new_def prune_timeouts_def)
  have w: "wallet_of_helper C (ch_wallet (client_state_to_helper C K s)) = Inr (cs_wallet s)"
    using assms(3) by (simp add: client_state_to_helper_def wallet_of_helper_def wallet_to_helper_def storable_def)
  note l = load_saved [OF assms(1,2) st refl]
  show ?thesis
    by (intro exI [of _ "Some (client_state_to_helper C K ?s)"]) (simp add: wallet_reset_cmd_def w Let_def l r)
qed

end
