(* ===== verification/Node_Query.thy ===== *)
theory Node_Query
  imports Pcli_Sync Wallet_Sets Staking_View
begin

text \<open>
  The query services of the node (\<open>pd/src/info/oblivious.rs\<close>, \<open>specific.rs\<close>), over a state of the store, and the
  synchronisation of a client with such a node.  Replies whose conversion cannot fail are in their domain
  form.  A stream is the list of its messages; who reads it stops at the first error.
\<close>

section \<open>Oblivious queries\<close>

definition chain_params_rpc :: "jmt \<Rightarrow> string \<Rightarrow> chain_params result" where
  "chain_params_rpc j cid =
     bindR (check_chain_id j cid) (\<lambda>_. or_err ''database error'' (get_chain_params j))"

definition asset_list_rpc :: "jmt \<Rightarrow> string \<Rightarrow> (asset_id \<times> string) list result" where
  "asset_list_rpc j cid = bindR (check_chain_id j cid) (\<lambda>_. Inr (known_assets j))"

definition validator_info_rpc ::
  "jmt \<Rightarrow> bool \<Rightarrow> string \<Rightarrow> (validator \<times> validator_status \<times> rate_data) result list result" where
  "validator_info_rpc j show_inactive cid =
     bindR (check_chain_id j cid) (\<lambda>_.
     Inr (concat (map (\<lambda>v.
       case validator_info j v of
         None \<Rightarrow> [Inl (Panic ''known validator must be present'')]
       | Some info \<Rightarrow> if \<not> show_inactive \<and> st_state (fst (snd info)) \<noteq> Active then [] else [Inr info])
       (validator_list j))))"

text \<open>The range \<open>start_height..end_height\<close>, which leaves out its end.\<close>

definition block_range :: "u64 \<Rightarrow> u64 \<Rightarrow> u64 list" where
  "block_range a b = map of_nat [unat a..<unat b]"

definition compact_block_range_rpc :: "crypto \<Rightarrow> jmt \<Rightarrow> u64 \<Rightarrow> u64 \<Rightarrow> string \<Rightarrow> compact_block_pb result list result" where
  "compact_block_range_rpc C j from_height_incl to_height_excl cid =
     bindR (check_chain_id j cid) (\<lambda>_.
     bindR (or_err ''database error'' (get_block_height j)) (\<lambda>current_height.
     let to_height_excl = (if to_height_excl = 0 then current_height else min to_height_excl current_height) in
     Inr (map (\<lambda>h. case j_compact_block j h of
                     None \<Rightarrow> Inl (Panic ''compact block for in-range height must be present'')
                   | Some cb \<Rightarrow> Inr (compact_block_to_proto C cb)) (block_range from_height_incl to_height_excl))))"

section \<open>Specific queries\<close>

definition transaction_by_note_rpc :: "crypto \<Rightarrow> jmt \<Rightarrow> bytes \<Rightarrow> note_source result" where
  "transaction_by_note_rpc C j cm =
     bindR (or_err ''invalid commitment'' (note_commitment_of_bytes C cm)) (\<lambda>cm.
     ok_or (Err ''note commitment not found'') (j_note_source j cm))"

definition validator_status_rpc :: "crypto \<Rightarrow> jmt \<Rightarrow> bytes option \<Rightarrow> string \<Rightarrow> validator_status result" where
  "validator_status_rpc C j ik cid =
     bindR (check_chain_id j cid) (\<lambda>_.
     bindR (ok_or (Err ''missing identity key'') ik) (\<lambda>ik.
     bindR (or_err ''invalid identity key'' (identity_key_of_proto C ik)) (\<lambda>ik.
     ok_or (Err ''validator not found'') (get_validator_status j ik))))"

definition next_validator_rate_rpc :: "crypto \<Rightarrow> jmt \<Rightarrow> bytes \<Rightarrow> rate_data result" where
  "next_validator_rate_rpc C j ik =
     bindR (or_err ''invalid identity key'' (identity_key_of_proto C ik)) (\<lambda>ik.
     ok_or (Err ''next validator rate not found'') (j_next_rate j ik))"

section \<open>The blocks of a node\<close>

text \<open>The node is at height \<open>h\<close> and has stored a compact block, fit for the wire, for every height up to it.\<close>

definition serves :: "jmt \<Rightarrow> string \<Rightarrow> u64 \<Rightarrow> bool" where
  "serves j cid h \<longleftrightarrow> get_chain_id j = Inr cid \<and> j_block_height j = Some h
     \<and> (\<forall>i \<le> h. \<exists>cb. j_compact_block j i = Some cb \<and> cb_height cb = i \<and> (\<forall>b \<in> set (cb_outputs cb). output_body_wire b))"

definition block_at :: "jmt \<Rightarrow> u64 \<Rightarrow> compact_block" where
  "block_at j i = the (j_compact_block j i)"

lemma unat_below:
  assumes "n < unat (b :: u64)"
  shows "unat (of_nat n :: u64) = n"
proof -
  have "n < 2 ^ 64" using less_trans [OF assms unat_lt64] by simp
  then show ?thesis by (rule unat_of_nat_64)
qed

lemma block_range_less: "i \<in> set (block_range a b) \<Longrightarrow> i < b"
proof -
  assume "i \<in> set (block_range a b)"
  then obtain n where n: "i = of_nat n" "n < unat b" by (auto simp: block_range_def)
  then show "i < b" by (simp add: word_less_nat_alt unat_below)
qed

lemma serves_stream:
  assumes "serves j cid h"
  shows "compact_block_range_rpc C j start 0 cid = Inr (map (Inr \<circ> compact_block_to_proto C \<circ> block_at j) (block_range start h))"
proof -
  have "j_compact_block j i = Some (block_at j i)" if "i \<in> set (block_range start h)" for i
    using assms block_range_less [OF that] by (auto simp: serves_def block_at_def dest!: spec [of _ i])
  then show ?thesis using assms
    by (auto simp: compact_block_range_rpc_def serves_def get_block_height_def check_chain_id_def comp_def)
qed

lemma scan_served:
  assumes e: "encoding_ok C" and "serves j cid h" and "\<forall>i \<in> set hs. i \<le> h"
  shows "scan_messages C (map (Inr \<circ> compact_block_to_proto C \<circ> block_at j) hs) s = foldR (\<lambda>i. scan_block C (block_at j i)) hs s"
  using assms(3)
proof (induction hs arbitrary: s)
  case (Cons i hs)
  then have "\<forall>b \<in> set (cb_outputs (block_at j i)). output_body_wire b"
    using assms(2) by (auto simp: serves_def block_at_def dest!: spec [of _ i])
  then have "scan_message C (Inr (compact_block_to_proto C (block_at j i))) s = scan_block C (block_at j i) s"
    by (simp add: scan_message_def compact_block_roundtrip [OF e])
  with Cons show ?case by (cases "scan_block C (block_at j i) s") simp_all
qed simp

section \<open>Scanning what a node serves\<close>

lemma scan_block_total:
  assumes "nct_sync_ok C" and "length (appends (cs_nct s)) + length (cb_outputs cb) \<le> 2 ^ MERKLE_DEPTH" and "cb_height cb = sync_start s"
  shows "\<exists>s'. scan_block C cb s = Inr s' \<and> appends (cs_nct s') = appends (cs_nct s) @ map ob_note_commitment (cb_outputs cb)
    \<and> cs_last_block_height s' = Some (cb_height cb) \<and> cs_chain_params s' = cs_chain_params s"
proof -
  from scan_outputs_total [OF assms(1,2)] obtain s1 where
    "foldR (scan_output C) (cb_outputs cb) s = Inr s1" "appends (cs_nct s1) = appends (cs_nct s) @ map ob_note_commitment (cb_outputs cb)"
    "cs_chain_params s1 = cs_chain_params s" by blast
  then show ?thesis using assms(3)
    by (auto simp: scan_block_def sync_start_def ensure_def scan_nullifiers_frame split: option.splits)
qed

text \<open>The outputs of the blocks in order.\<close>

definition served_outputs :: "jmt \<Rightarrow> u64 list \<Rightarrow> output_body list" where
  "served_outputs j hs = concat (map (\<lambda>i. cb_outputs (block_at j i)) hs)"

lemma scan_range:
  assumes nct: "nct_sync_ok C" and sv: "serves j cid h" and "n \<le> m" and "m \<le> unat h" and "sync_start s = of_nat n"
    and "length (appends (cs_nct s)) + length (served_outputs j (map of_nat [n..<m])) \<le> 2 ^ MERKLE_DEPTH"
  shows "\<exists>s'. foldR (\<lambda>i. scan_block C (block_at j i)) (map of_nat [n..<m]) s = Inr s' \<and> sync_start s' = of_nat m
    \<and> appends (cs_nct s') = appends (cs_nct s) @ map ob_note_commitment (served_outputs j (map of_nat [n..<m]))
    \<and> cs_chain_params s' = cs_chain_params s"
  using assms(3,5,6)
proof (induction "m - n" arbitrary: n s)
  case 0
  then show ?case by (simp add: served_outputs_def)
next
  case (Suc k)
  then have lt: "n < m" by simp
  have u: "unat (of_nat n :: u64) = n" using lt assms(4) by (intro unat_below [of n h]) simp
  then have "(of_nat n :: u64) \<le> h" using lt assms(4) by (simp add: word_le_nat_alt)
  then have hb: "cb_height (block_at j (of_nat n)) = sync_start s"
    using sv Suc.prems(2) by (auto simp: serves_def block_at_def dest!: spec [of _ "of_nat n"])
  have outs: "served_outputs j (map of_nat [n..<m]) = cb_outputs (block_at j (of_nat n)) @ served_outputs j (map of_nat [Suc n..<m])"
    using lt by (simp add: served_outputs_def upt_conv_Cons)
  from scan_block_total [OF nct _ hb] obtain s1 where s1: "scan_block C (block_at j (of_nat n)) s = Inr s1"
    "appends (cs_nct s1) = appends (cs_nct s) @ map ob_note_commitment (cb_outputs (block_at j (of_nat n)))"
    "cs_last_block_height s1 = Some (cb_height (block_at j (of_nat n)))" "cs_chain_params s1 = cs_chain_params s"
    using Suc.prems(3) outs by auto
  have start: "sync_start s1 = of_nat (Suc n)" using s1(3) hb Suc.prems(2) by (simp add: sync_start_def)
  have k: "k = m - Suc n" using Suc.hyps(2) by simp
  have room: "length (appends (cs_nct s1)) + length (served_outputs j (map of_nat [Suc n..<m])) \<le> 2 ^ MERKLE_DEPTH"
    using Suc.prems(3) s1(2) outs by simp
  from Suc.hyps(1) [OF k _ start room] lt obtain s' where
    "foldR (\<lambda>i. scan_block C (block_at j i)) (map of_nat [Suc n..<m]) s1 = Inr s'" "sync_start s' = of_nat m"
    "appends (cs_nct s') = appends (cs_nct s1) @ map ob_note_commitment (served_outputs j (map of_nat [Suc n..<m]))"
    "cs_chain_params s' = cs_chain_params s1"
    by (auto simp: Suc_le_eq)
  with s1 outs lt show ?case by (simp add: upt_conv_Cons)
qed

lemma sync_blocks_all:
  assumes "scan_messages C ms (cf_state f) = Inr s"
  shows "\<exists>f'. sync_blocks C K ms k f = (Inr (), f') \<and> cf_state f' = s"
  using assms
proof (induction ms arbitrary: k f)
  case (Cons m ms)
  then obtain t where t: "scan_message C m (cf_state f) = Inr t" "scan_messages C ms t = Inr s" by (auto simp: result_simps)
  let ?f = "if (k + 1) mod 1000 = 1 then file_commit C K (f\<lparr>cf_state := t\<rparr>) else f\<lparr>cf_state := t\<rparr>"
  have "cf_state ?f = t" by (simp add: file_commit_def)
  with Cons.IH [of ?f "k + 1"] t show ?case by (simp only: sync_blocks_step sum.case)
qed simp

lemma prune_chain_params: "cs_chain_params (prune_timeouts now s) = cs_chain_params s"
  unfolding prune_timeouts_def Let_def
  by (rule fold_keeps [where P = "\<lambda>t. cs_chain_params t = cs_chain_params s",
        OF fold_keeps [where P = "\<lambda>t. cs_chain_params t = cs_chain_params s"]]) auto

text \<open>
  C9: a client synchronises with a node.  Take a node at height \<open>h\<close> that has the blocks of its chain, and a client
  of that chain that is not ahead of it.  Whatever the blocks hold, as long as the commitment tree has room for
  their outputs, the synchronisation scans all blocks from the one the client had to scan next up to, but not
  including, the node's current one: the client has appended their outputs, will ask for the current one next, and its state is in
  the file.  The command then succeeds, except where a wallet without blocks asks a node at height 0 and info
  messages are recorded: there is no height to report, and it panics.
\<close>

theorem sync_reaches_node:
  assumes laws: "encoding_ok C" "nct_sync_ok C" and sv: "serves j cid h" and cid: "client_chain_id (cf_state f) = Some cid"
    and behind: "sync_start (cf_state f) \<le> h"
    and room: "length (appends (cs_nct (cf_state f))) + length (served_outputs j (block_range (sync_start (cf_state f)) h)) \<le> 2 ^ MERKLE_DEPTH"
  shows "\<exists>r f'. pcli_sync C K info now (\<lambda>a. compact_block_range_rpc C j a 0) f = (r, f')
    \<and> r = (if info \<and> cs_last_block_height (cf_state f) = None \<and> h = 0
           then Inl (Panic ''called `Option::unwrap()` on a `None` value'') else Inr ())
    \<and> sync_start (cf_state f') = h \<and> client_chain_id (cf_state f') = Some cid
    \<and> appends (cs_nct (cf_state f')) = appends (cs_nct (cf_state f))
        @ map ob_note_commitment (served_outputs j (block_range (sync_start (cf_state f)) h))
    \<and> cf_disk f' = Some (client_state_to_helper C K (cf_state f'))"
proof -
  let ?a = "sync_start (cf_state f)" and ?ms = "\<lambda>hs. map (Inr \<circ> compact_block_to_proto C \<circ> block_at j) hs"
  have "unat ?a \<le> unat h" using behind by (simp add: word_le_nat_alt)
  from scan_range [OF laws(2) sv this order.refl, of "cf_state f"] room obtain s where
    s: "foldR (\<lambda>i. scan_block C (block_at j i)) (block_range ?a h) (cf_state f) = Inr s" "sync_start s = h"
      "appends (cs_nct s) = appends (cs_nct (cf_state f)) @ map ob_note_commitment (served_outputs j (block_range ?a h))"
      "cs_chain_params s = cs_chain_params (cf_state f)"
    by (auto simp: block_range_def)
  have "\<forall>i \<in> set (block_range ?a h). i \<le> h" using block_range_less less_imp_le by blast
  note msgs = s(1) [folded scan_served [OF laws(1) sv this]]
  from msgs sync_blocks_all obtain f1 where f1: "sync_blocks C K (?ms (block_range ?a h)) 0 f = (Inr (), f1)" "cf_state f1 = s"
    by blast
  have none: "cs_last_block_height s = None \<longleftrightarrow> cs_last_block_height (cf_state f) = None \<and> h = 0"
  proof
    assume "cs_last_block_height s = None"
    then show "cs_last_block_height (cf_state f) = None \<and> h = 0" using scanned_none [OF msgs] s(2) by (auto simp: sync_start_def)
  next
    assume "cs_last_block_height (cf_state f) = None \<and> h = 0"
    then show "cs_last_block_height s = None" using msgs by (simp add: block_range_def)
  qed
  have "client_chain_id t = client_chain_id (cf_state f)" if "cs_chain_params t = cs_chain_params (cf_state f)" for t
    using that by (simp add: client_chain_id_def)
  then show ?thesis using s f1 cid
    by (simp add: pcli_sync_def serves_stream [OF sv] file_commit_def Let_def sync_start_def prune_height prune_nct prune_chain_params none)
qed

end
