(* ===== verification/Pcli_Witnesses.thy ===== *)
theory Pcli_Witnesses
  imports Wallet_Witnesses Pcli_Sweep_Sound Node_Query
begin

text \<open>
  The properties of the command line client at concrete files: a wallet with eight confirmed notes that is swept,
  one that is synchronised from a stream that breaks off, and one that is synchronised with a node.
\<close>

section \<open>A wallet with eight notes\<close>

definition small_note :: "nat \<Rightarrow> note_t" where
  "small_note k = \<lparr>nt_value = \<lparr>val_amount = 30, val_asset_id = dn_id pen_denom\<rparr>, nt_note_blinding = of_nat (9 + k),
     nt_diversifier = replicate 11 0, nt_transmission_key = diversified_public ring_crypto 5 1, nt_transmission_key_s = 5\<rparr>"

definition small_commitment :: "nat \<Rightarrow> fq" where
  "small_commitment k = of_nat (39 + k)"

definition eight_notes :: client_state where
  "eight_notes = (demo_client pen_denom)
     \<lparr>cs_nct := concat (map (\<lambda>k. [NctAppend (small_commitment k), NctWitness]) [0..<8]),
      cs_nullifier_map := map (\<lambda>k. (derive_nullifier ring_crypto 4 0 (small_commitment k), small_commitment k)) [0..<8],
      cs_unspent_set := map (\<lambda>k. (small_commitment k, small_note k)) [0..<8]\<rparr>"

lemma small_note_facts [simp]: "note_commit ring_crypto (small_note k) = small_commitment k" "note_amount (small_note k) = 30"
  "note_asset_id (small_note k) = dn_id pen_denom"
proof -
  have "(of_nat (9 + k) :: fq) + of_nat 30 = of_nat (39 + k)" by simp
  then show "note_commit ring_crypto (small_note k) = small_commitment k"
    by (simp add: note_commit_def note_commitment_new_def small_note_def small_commitment_def)
qed (simp_all add: note_amount_def note_asset_id_def small_note_def)

lemma fq_of_nat_less: "i < fq_order \<Longrightarrow> j < fq_order \<Longrightarrow> (of_nat i :: fq) < of_nat j \<longleftrightarrow> i < j"
  by (simp add: less_fq_def fq_number_of_nat)

lemma sorted_small: "sorted_wrt (<) (map (\<lambda>k. of_nat (b + k) :: fq) [0..<8])" if "b < 1000"
proof -
  have o: "2000 < fq_order" by (simp add: fq_order_def)
  have "(of_nat (b + i) :: fq) < of_nat (b + j)" if "i < j" "j < 8" for i j
    using that \<open>b < 1000\<close> o by (subst fq_of_nat_less) linarith+
  then show ?thesis by (simp add: sorted_wrt_map sorted_wrt_iff_nth_less)
qed

lemma eight_bt_ok: "bt_ok (cs_unspent_set eight_notes)" "bt_ok (cs_nullifier_map eight_notes)"
proof -
  show "bt_ok (cs_unspent_set eight_notes)"
    using sorted_small [of 39] by (simp add: eight_notes_def bt_ok_def comp_def small_commitment_def)
  have "derive_nullifier ring_crypto 4 0 (small_commitment k) = of_nat (43 + k)" for k
    by (simp add: derive_nullifier_def small_commitment_def)
  then show "bt_ok (cs_nullifier_map eight_notes)"
    using sorted_small [of 43] by (simp add: eight_notes_def bt_ok_def comp_def)
qed

lemma eight_sel [simp]:
  "cs_wallet eight_notes = cs_wallet (demo_client pen_denom)" "cs_asset_cache eight_notes = cs_asset_cache (demo_client pen_denom)"
  "cs_submitted_spend_set eight_notes = []" "cs_submitted_change_set eight_notes = []"
  "set (cs_unspent_set eight_notes) = (\<lambda>k. (small_commitment k, small_note k)) ` {0..<8}"
  "map snd (cs_unspent_set eight_notes) = map small_note [0..<8]"
  by (simp_all add: eight_notes_def)

lemma small_note_spendable: "spendable ring_crypto demo_sk (small_note k)" "note_ok ring_crypto (small_note k)"
proof -
  show ok: "note_ok ring_crypto (small_note k)" by (simp add: note_ok_def small_note_def diversified_public_def)
  have "fr_number 1 \<noteq> 0" by (simp add: fr_ops)
  then show "spendable ring_crypto demo_sk (small_note k)"
    using demo_fvk_components ok by (simp add: spendable_def demo_sk_def note_diversified_generator_def) (simp add: demo_fvk_def small_note_def)
qed

lemma small_note_place: "note_index ring_crypto eight_notes (small_note k) = Inr 0" "note_denom eight_notes (small_note k) = Some pen_denom"
proof -
  show "note_denom eight_notes (small_note k) = Some pen_denom" using denom_ids_differ by (simp add: note_denom_def demo_cache)
  have "note_index ring_crypto (demo_client pen_denom) (own_note 0) = Inr 0" by (rule own_note_index)
  then show "note_index ring_crypto eight_notes (small_note k) = Inr 0" by (simp add: note_index_def own_note_def small_note_def)
qed

lemma eight_wallet_ok: "wallet_ok ring_crypto eight_notes"
proof -
  have n: "notes_ok ring_crypto eight_notes"
    using eight_bt_ok by (auto simp: notes_ok_def bt_ok_def all_unspent_def note_known_def small_note_place)
  have "note_spendable ring_crypto eight_notes (small_note k)" if k: "k < 8" for k
  proof -
    have p: "NctAppend (small_commitment k) \<in> set (cs_nct eight_notes)" using k by (auto simp: eight_notes_def)
    have "(derive_nullifier ring_crypto 4 0 (small_commitment k), small_commitment k) \<in> set (cs_nullifier_map eight_notes)"
      using k by (auto simp: eight_notes_def)
    then have "bt_get (cs_nullifier_map eight_notes) (derive_nullifier ring_crypto 4 0 (small_commitment k)) = Some (small_commitment k)"
      using bt.get_entries [OF eight_bt_ok(2)] by simp
    then show ?thesis using p small_note_spendable(1)
      by (simp add: note_spendable_def note_nullifier_def fvk_derive_nullifier_def demo_keys)
  qed
  moreover have "\<forall>i d. bt_get (cs_asset_cache eight_notes) i = Some d \<longrightarrow> dn_id d = i \<and> i = denom_id ring_crypto (dn_base_denom d)"
    using demo_wallet_ok [of pen_denom] by (simp add: wallet_ok_def)
  ultimately show ?thesis using n by (auto simp: wallet_ok_def own_generator_def)
qed

lemma eight_ready: "ready_notes ring_crypto eight_notes ''upenumbra'' (Some 0) = map small_note [0..<8]"
  by (simp add: ready_notes_def idx_def base_def small_note_place pen_denom_def)

lemma eight_bound: "total_of (ready_notes ring_crypto eight_notes d (Some i)) < 2 ^ 64"
proof -
  have le: "total_of (filter P ns) \<le> total_of ns" for P ns by (induction ns) auto
  have t: "total_of (map snd (cs_unspent_set eight_notes)) = 240" by (simp add: total_of_def comp_def sum_list_triv)
  show ?thesis unfolding ready_notes_def by (rule le_less_trans [OF le]) (simp only: t, simp)
qed

abbreviation eight_file :: client_file where
  "eight_file \<equiv> \<lparr>cf_state = eight_notes, cf_disk = None\<rparr>"

abbreviation accepting :: "transaction \<Rightarrow> rpc_answer result" where
  "accepting tx \<equiv> Inr \<lparr>rpc_bare = \<lparr>rpc_code = Some 0, rpc_log = None\<rparr>, rpc_result = None\<rparr>"

lemma eight_sweep:
  "client_chain_id eight_notes = Some ''penumbra''"
  "\<not> (\<forall>i < length (wl_address_labels (cs_wallet eight_notes)). \<forall>d. length (ready_notes ring_crypto eight_notes d (Some (of_nat i))) < SWEEP_COUNT)"
  "length (wl_address_labels (cs_wallet eight_notes)) \<le> 2 ^ 64" "accepting tx \<in> range Inr"
  using demo_chain_id [of pen_denom]
  by (auto simp: eight_notes_def client_chain_id_def SWEEP_COUNT_def eight_ready [unfolded eight_notes_def] intro!: exI [of _ "''upenumbra''"])

theorem sweep_accepted_witness:
  "\<exists>txs g' f'. tx_sweep ring_ext 100 0 accepting eight_file = (Inr (Swept (length txs), g'), f') \<and> txs \<noteq> []
     \<and> (\<forall>tx \<in> set txs. pool_check_tx_stateless ring_ext tx = Inr ()) \<and> wallet_ok ring_crypto (cf_state f')"
proof -
  have ch: "\<forall>tx \<in> set txs. pool_check_tx_stateless ring_ext tx = Inr ()" if "list_all2 (sweeps ring_ext ''penumbra'' eight_notes) gs txs" for gs txs
    using that by (induction rule: list_all2_induct) (simp_all add: sweeps_def)
  from sweep_accepted [of ring_ext eight_file "''penumbra''" accepting 100 0, simplified client_file.simps ring_ext_crypto,
      OF ring_laws eight_wallet_ok eight_sweep(1) eight_bound eight_sweep(3,4)]
  obtain txs gs g' f' where t: "tx_sweep ring_ext 100 0 accepting eight_file = (Inr (if txs = [] then FinishedSweeping else Swept (length txs), g'), f')"
    and l: "list_all2 (sweeps ring_ext ''penumbra'' eight_notes) gs txs" and ok: "wallet_ok ring_crypto (cf_state f')" and "txs \<noteq> []"
    using eight_sweep(2) by (elim exE conjE) (simp only: simp_thms)
  then show ?thesis using ch [OF l] by (intro exI [of _ txs] exI [of _ g'] exI [of _ f']) simp
qed

theorem sweep_progress_witness:
  "\<exists>k g' f'. tx_sweep ring_ext 100 0 accepting eight_file = (Inr (Swept k, g'), f') \<and> k = 1
     \<and> cs_unspent_set (cf_state f') = [] \<and> length (cs_submitted_change_set (cf_state f')) \<le> 1"
proof -
  have "\<exists>(txs :: transaction list) g' f'. tx_sweep ring_ext 100 0 accepting eight_file = (Inr (if txs = [] then FinishedSweeping else Swept (length txs), g'), f')
    \<and> txs \<noteq> []"
  proof (rule sweep_runs [of ring_ext eight_file "''penumbra''" accepting 100 0, unfolded client_file.simps ring_ext_crypto,
      OF ring_laws eight_wallet_ok eight_sweep(1) eight_bound eight_sweep(3,4)])
    fix txs :: "transaction list" and g' f'
    assume run: "tx_sweep ring_ext 100 0 accepting eight_file = (Inr (if txs = [] then FinishedSweeping else Swept (length txs), g'), f')"
      and "txs = [] \<longleftrightarrow> (\<forall>i < length (labels eight_notes). \<forall>d. length (ready_notes ring_crypto eight_notes d (Some (of_nat i))) < SWEEP_COUNT)"
    then have "txs \<noteq> []" using eight_sweep(2) by (simp only: if_False simp_thms)
    with run show ?thesis by (intro exI conjI)
  qed
  then obtain txs :: "transaction list" and g' f' where run: "tx_sweep ring_ext 100 0 accepting eight_file = (Inr (Swept (length txs), g'), f')" by auto
  have len: "length (cs_unspent_set eight_notes) = 8" by (simp add: eight_notes_def)
  from sweep_progress [OF run] eight_bt_ok(1) have p: "0 < length txs"
    "length (cs_unspent_set (cf_state f')) + 8 * length txs = 8" "length (cs_submitted_change_set (cf_state f')) \<le> 0 + length txs"
    by (simp_all add: len)
  then have "length txs = 1" by linarith
  with p run show ?thesis by (intro exI [of _ "length txs"] exI [of _ g'] exI [of _ f']) simp
qed

section \<open>A stream that breaks off\<close>

text \<open>The same wallet with a key of a seed, so that it can be stored.\<close>

definition seeded :: "spend_key \<Rightarrow> client_state" where
  "seeded sk = eight_notes\<lparr>cs_wallet := \<lparr>wl_address_labels = [''Default''], wl_spend_key = sk\<rparr>\<rparr>"

lemma seeded_storable:
  assumes "spend_key_new ring_crypto (sk_seed sk) = Inr sk"
  shows "storable ring_crypto (seeded sk)"
proof -
  have parse: "parse_denom ring_crypto (dn_base_denom pen_denom) = Inr (Some pen_denom)"
    "parse_denom ring_crypto (dn_base_denom del_denom) = Inr (Some del_denom)"
    by (simp_all add: parse_denom_spec pen_denom_def del_denom_def delegation_regex_def is_display_def)
  have cache: "set (cs_asset_cache (demo_client pen_denom)) = {(dn_id pen_denom, pen_denom), (dn_id del_denom, del_denom)}"
    "bt_ok (cs_asset_cache (demo_client pen_denom))"
    using denom_ids_differ by (auto simp: demo_client_def bt_ok_def)
  have spent: "cs_spent_set eight_notes = []" by (simp add: eight_notes_def demo_client_def)
  show ?thesis
    using assms parse cache spent eight_bt_ok small_note_spendable(2) by (auto simp: storable_def seeded_def bt_ok_def)
qed

text \<open>Block 8, without outputs or nullifiers, and then an error of the connection.\<close>

definition broken_stream :: "u64 \<Rightarrow> string \<Rightarrow> compact_block_pb result list result" where
  "broken_stream h c = Inr [Inr \<lparr>cbp_height = h, cbp_outputs = [], cbp_nullifiers = []\<rparr>, Inl (Err ''connection lost'')]"

lemma broken_sync:
  "\<exists>err f'. pcli_sync ring_crypto plain_codecs True 100 broken_stream \<lparr>cf_state = seeded sk, cf_disk = None\<rparr> = (Inl err, f') \<and> cf_disk f' \<noteq> None"
proof -
  have "client_chain_id (seeded sk) = Some ''penumbra''" "cs_last_block_height (seeded sk) = Some 7"
    by (simp_all add: seeded_def eight_notes_def client_chain_id_def demo_client_def)
  then show ?thesis
    by (simp add: pcli_sync_def broken_stream_def sync_start_def compact_block_of_proto_def scan_block_def ensure_def file_commit_def Let_def)
qed

lemma broken_scan:
  assumes "scan_messages ring_crypto (take 1 (projr (broken_stream 8 c))) (seeded sk) = Inr s"
  shows "sync_start s = 9"
proof -
  have "cs_last_block_height (seeded sk) = Some 7" by (simp add: seeded_def eight_notes_def demo_client_def)
  then show ?thesis using assms
    by (auto simp: broken_stream_def scan_message_def compact_block_of_proto_def scan_block_def ensure_def sync_start_def result_simps)
qed

theorem sync_resumable_witness:
  "\<exists>sk err f' f2. pcli_sync ring_crypto plain_codecs True 100 broken_stream \<lparr>cf_state = seeded sk, cf_disk = None\<rparr> = (Inl err, f')
     \<and> file_load ring_crypto plain_codecs 200 (cf_disk f') = Inr f2 \<and> sync_start (cf_state f2) = 9"
proof -
  obtain sk where "spend_key_new ring_crypto (replicate 32 0) = Inr sk" "sk_seed sk = replicate 32 0"
    using ring_spend_key by blast
  then have st: "storable ring_crypto (cf_state \<lparr>cf_state = seeded sk, cf_disk = None\<rparr>)" using seeded_storable by simp
  obtain err f' where run: "pcli_sync ring_crypto plain_codecs True 100 broken_stream \<lparr>cf_state = seeded sk, cf_disk = None\<rparr> = (Inl err, f')"
    and d: "cf_disk f' \<noteq> None" using broken_sync by blast
  let ?ms = "projr (broken_stream 8 ''penumbra'')"
  have cid: "client_chain_id (cf_state \<lparr>cf_state = seeded sk, cf_disk = None\<rparr>) = Some ''penumbra''" 
    and ms: "broken_stream (sync_start (cf_state \<lparr>cf_state = seeded sk, cf_disk = None\<rparr>)) ''penumbra'' = Inr ?ms"
    by (simp_all add: seeded_def eight_notes_def client_chain_id_def demo_client_def sync_start_def broken_stream_def)
  have "?ms \<noteq> []" by (simp add: broken_stream_def)
  with sync_resumable [OF plain_codecs_ok ring_encoding_ok st cid ms run, where later = 200, unfolded sum.case]
  obtain n where n: "n < length ?ms" "if n = 0 then cf_disk f' = None
      else \<exists>j s f2. 0 < j \<and> j \<le> n \<and> n < j + 1000 \<and> scan_messages ring_crypto (take j ?ms) (seeded sk) = Inr s
        \<and> file_load ring_crypto plain_codecs 200 (cf_disk f') = Inr f2 \<and> cf_state f2 = reloaded 200 s \<and> sync_start (cf_state f2) = sync_start s"
    unfolding client_file.simps by (auto simp only: simp_thms if_False)
  have "n \<noteq> 0"
  proof
    assume "n = 0"
    with n(2) d show False by (simp only: simp_thms if_True)
  qed
  then obtain j s f2 where j: "0 < j" "j \<le> n" "scan_messages ring_crypto (take j ?ms) (seeded sk) = Inr s"
    and f2: "file_load ring_crypto plain_codecs 200 (cf_disk f') = Inr f2" "sync_start (cf_state f2) = sync_start s" using n(2) by (auto simp only: if_False)
  have "length ?ms = 2" by (simp add: broken_stream_def)
  then have "j = 1" using j n(1) by simp
  then show ?thesis using run f2 broken_scan [of "''penumbra''" sk s] j(3) by (intro exI [of _ sk] exI [of _ err] exI [of _ f'] exI [of _ f2]) simp
qed

section \<open>A node\<close>

text \<open>A node at height 10 with one output in every block.\<close>

definition node_body :: "u64 \<Rightarrow> output_body" where
  "node_body i = \<lparr>ob_note_commitment = of_nat (unat i), ob_ephemeral_key = replicate 32 0, ob_encrypted_note = replicate 132 0\<rparr>"

definition node_jmt :: jmt where
  "node_jmt = empty_jmt\<lparr>j_chain_params := Some (default_chain_params\<lparr>chain_id := ''penumbra''\<rparr>), j_block_height := Some 10,
     j_compact_block := (\<lambda>i. Some \<lparr>cb_height = i, cb_outputs = [node_body i], cb_nullifiers = []\<rparr>)\<rparr>"

lemma node_serves: "serves node_jmt ''penumbra'' 10"
  by (simp add: serves_def node_jmt_def get_chain_id_def get_chain_params_def node_body_def output_body_wire_def)

lemma node_outputs: "map ob_note_commitment (served_outputs node_jmt (block_range 8 10)) = [8, 9]"
proof -
  have "[unat (8 :: u64)..<unat (10 :: u64)] = [8, 9]" by (simp add: upt_conv_Cons)
  then show ?thesis by (simp add: served_outputs_def block_range_def block_at_def node_jmt_def node_body_def)
qed

theorem sync_reaches_node_witness:
  "\<exists>f'. pcli_sync ring_crypto plain_codecs True 100 (\<lambda>a. compact_block_range_rpc ring_crypto node_jmt a 0)
      \<lparr>cf_state = demo_client pen_denom, cf_disk = None\<rparr> = (Inr (), f')
    \<and> sync_start (cf_state f') = 10 \<and> appends (cs_nct (cf_state f')) = [39, 8, 9]"
proof -
  let ?f = "\<lparr>cf_state = demo_client pen_denom, cf_disk = None\<rparr>"
  have f: "client_chain_id (cf_state ?f) = Some ''penumbra''" "sync_start (cf_state ?f) = 8" "appends (cs_nct (cf_state ?f)) = [39]"
    by (simp_all add: client_chain_id_def sync_start_def) (simp add: demo_client_def)
  have "length (served_outputs node_jmt (block_range 8 10)) = 2" using arg_cong [OF node_outputs, of length] by simp
  then have "length (appends (cs_nct (cf_state ?f))) + length (served_outputs node_jmt (block_range (sync_start (cf_state ?f)) 10)) \<le> 2 ^ MERKLE_DEPTH"
    using f by (simp add: MERKLE_DEPTH_def)
  from sync_reaches_node [OF ring_encoding_ok ring_nct_sync node_serves f(1) _ this, where K = plain_codecs and now = 100 and info = True] f node_outputs
  show ?thesis by auto
qed

section \<open>A seed phrase\<close>

lemma lowercase_phrase: "\<forall>w \<in> set p. lower_word w \<Longrightarrow> to_lowercase (seed_phrase_to_string p) = seed_phrase_to_string p"
proof (induction p rule: seed_phrase_to_string.induct)
  case (3 w v ws)
  have "to_lowercase (a @ b) = to_lowercase a @ to_lowercase b" for a b by (simp add: to_lowercase_def)
  moreover have "to_lowercase (CHR '' '' # a) = CHR '' '' # to_lowercase a" for a by (simp add: to_lowercase_def)
  ultimately show ?case using 3 lower_word_chars(3) [of w] by simp
qed (simp_all add: lower_word_chars(3))

theorem seed_phrase_exact_witness:
  "\<exists>p. length p = 24 \<and> verify_checksum ring_crypto p = Inr () \<and> (\<exists>!r. length r = 32 \<and> p = from_randomness ring_crypto r)
     \<and> seed_phrase_of_string ring_crypto (seed_phrase_to_string p) = Inr p"
proof -
  let ?r = "replicate 32 0 :: bytes" and ?p = "from_randomness ring_crypto (replicate 32 0)"
  have r: "length ?r = 32" by simp
  have v: "length ?p = 24" "verify_checksum ring_crypto ?p = Inr ()" "set ?p \<subseteq> set BIP39_WORDS"
    using bytes_of_randomness [OF r, of ring_crypto] verify_checksum_exact r by blast+
  then have "\<forall>w \<in> set ?p. lower_word w" using words_facts(3) by (auto simp: list_all_iff)
  then have "to_lowercase (seed_phrase_to_string ?p) = seed_phrase_to_string ?p" by (rule lowercase_phrase)
  with seed_phrase_exact [OF v(1), of ring_crypto] v show ?thesis by (intro exI [of _ ?p]) blast
qed

end
