(* ===== verification/Wallet_Next.thy ===== *)
theory Wallet_Next
  imports Wallet Seed_Phrase
begin

text \<open>
  The second wallet library (\<open>wallet-next/src\<close>), which holds a viewing key only: its addresses, the records of notes
  and the scanning of a block, which does to the tree and the notes what the first library does.
\<close>

section \<open>The viewing wallet\<close>

record next_wallet =
  nw_viewing_key :: full_viewing_key

definition next_wallet_import :: "crypto \<Rightarrow> bytes \<Rightarrow> next_wallet result" where
  "next_wallet_import C spend_seed = bindR (spend_key_new C spend_seed) (\<lambda>sk. Inr \<lparr>nw_viewing_key = sk_fvk sk\<rparr>)"

definition next_wallet_from_seed_phrase :: "crypto \<Rightarrow> seed_phrase \<Rightarrow> next_wallet result" where
  "next_wallet_from_seed_phrase C p =
     bindR (spend_key_new C (from_seed_phrase C p 0)) (\<lambda>sk. Inr \<lparr>nw_viewing_key = sk_fvk sk\<rparr>)"

definition next_new_address :: "crypto \<Rightarrow> bytes \<Rightarrow> next_wallet \<Rightarrow> (address \<times> detection_key) result" where
  "next_new_address C index w = payment_address C (fvk_ivk (nw_viewing_key w)) index"

definition next_address_by_index :: "crypto \<Rightarrow> next_wallet \<Rightarrow> nat \<Rightarrow> address result" where
  "next_address_by_index C w i =
     bindR (payment_address C (fvk_ivk (nw_viewing_key w)) (diversifier_index_of_u64 (of_nat i))) (\<lambda>(a, _). Inr a)"

definition next_change_address :: "crypto \<Rightarrow> next_wallet \<Rightarrow> note_t \<Rightarrow> address result" where
  "next_change_address C w n =
     bindR (contextR ''cannot convert DiversifierIndex to u64''
       (u64_of_diversifier_index (index_for_diversifier C (ivk_dk (fvk_ivk (nw_viewing_key w))) (nt_diversifier n)))) (\<lambda>i.
     next_address_by_index C w (unat i))"

section \<open>Scanning\<close>

record note_record =
  nr_note_commitment :: note_commitment
  nr_note :: note_t
  nr_diversifier_index :: bytes
  nr_nullifier :: nullifier
  nr_height_created :: u64
  nr_height_spent :: "u64 option"

record scan_result =
  sr_new_notes :: "note_record list"
  sr_spent_nullifiers :: "nullifier list"
  sr_height :: u64

definition next_scan_output ::
  "crypto \<Rightarrow> full_viewing_key \<Rightarrow> u64 \<Rightarrow> output_body \<Rightarrow> nct \<times> note_record list \<Rightarrow> (nct \<times> note_record list) result" where
  "next_scan_output C fvk height body = (\<lambda>(t, new_notes).
     let c = ob_note_commitment body;
         t = t @ [NctAppend c] in
     case note_decrypt C (ob_encrypted_note body) (fvk_ivk fvk) (ob_ephemeral_key body) of
       Inl _ \<Rightarrow> Inr (t, new_notes)
     | Inr n \<Rightarrow>
         (let t = t @ [NctWitness] in
          bindR (ok_or (Panic ''we just witnessed this commitment'') (nct_auth_path C t c)) (\<lambda>(pos, _).
          Inr (t, new_notes @ [\<lparr>nr_note_commitment = c, nr_note = n,
                 nr_diversifier_index = index_for_diversifier C (ivk_dk (fvk_ivk fvk)) (nt_diversifier n),
                 nr_nullifier = fvk_derive_nullifier C fvk pos c, nr_height_created = height, nr_height_spent = None\<rparr>]))))"

definition next_scan_block :: "crypto \<Rightarrow> full_viewing_key \<Rightarrow> compact_block \<Rightarrow> nct \<Rightarrow> (scan_result \<times> nct) result" where
  "next_scan_block C fvk cb t =
     bindR (foldR (next_scan_output C fvk (cb_height cb)) (cb_outputs cb) (t, [])) (\<lambda>(t, new_notes).
     Inr (\<lparr>sr_new_notes = new_notes, sr_spent_nullifiers = cb_nullifiers cb, sr_height = cb_height cb\<rparr>, t))"

section \<open>The two libraries agree\<close>

text \<open>What the first library does with a note that the second one records.\<close>

definition store_record :: "note_record \<Rightarrow> client_state \<Rightarrow> client_state" where
  "store_record r s = s
     \<lparr>cs_nullifier_map := bt_insert (nr_nullifier r) (nr_note_commitment r) (cs_nullifier_map s),
      cs_submitted_change_set := bt_remove (nr_note_commitment r) (cs_submitted_change_set s),
      cs_unspent_set := bt_insert (nr_note_commitment r) (nr_note r) (cs_unspent_set s)\<rparr>"

lemma store_record_frame [simp]: "cs_wallet (fold store_record rs s) = cs_wallet s" "cs_nct (fold store_record rs s) = cs_nct s"
  by (induction rs arbitrary: s) (simp_all add: store_record_def)

lemma scan_outputs_agree:
  assumes "fvk = wallet_fvk (cs_wallet s)"
  shows "foldR (scan_output C) outs ((fold store_record rs s)\<lparr>cs_nct := t\<rparr>)
    = bindR (foldR (next_scan_output C fvk h) outs (t, rs)) (\<lambda>(t', rs'). Inr ((fold store_record rs' s)\<lparr>cs_nct := t'\<rparr>))"
proof (induction outs arbitrary: t rs)
  case (Cons body outs)
  let ?s = "(fold store_record rs s)\<lparr>cs_nct := t\<rparr>"
  have "scan_output C body ?s = bindR (next_scan_output C fvk h body (t, rs)) (\<lambda>(t', rs'). Inr ((fold store_record rs' s)\<lparr>cs_nct := t'\<rparr>))"
    by (auto simp: scan_output_def next_scan_output_def Let_def assms wallet_ivk_def store_record_def split: sum.splits)
       (cases "nct_auth_path C (t @ [NctAppend (ob_note_commitment body), NctWitness]) (ob_note_commitment body)";
        auto simp: ok_or_def store_record_def intro!: client_state.equality)
  then show ?case using Cons.IH
    by (cases "next_scan_output C fvk h body (t, rs)") (auto simp: case_prod_beta)
qed simp

lemma next_scan_agrees:
  assumes "fvk = wallet_fvk (cs_wallet s)"
  shows "foldR (scan_output C) (cb_outputs cb) s
    = bindR (next_scan_block C fvk cb (cs_nct s)) (\<lambda>(r, t). Inr ((fold store_record (sr_new_notes r) s)\<lparr>cs_nct := t\<rparr>))"
proof -
  have "foldR (scan_output C) (cb_outputs cb) s
      = bindR (foldR (next_scan_output C fvk (cb_height cb)) (cb_outputs cb) (cs_nct s, [])) (\<lambda>(t', rs'). Inr ((fold store_record rs' s)\<lparr>cs_nct := t'\<rparr>))"
    using scan_outputs_agree [OF assms, where outs = "cb_outputs cb" and rs = "[]" and t = "cs_nct s" and h = "cb_height cb"] by simp
  then show ?thesis
    by (cases "foldR (next_scan_output C fvk (cb_height cb)) (cb_outputs cb) (cs_nct s, [])") (auto simp: next_scan_block_def case_prod_beta)
qed

end
